(* ===== verification/Prelude.thy ===== *)
theory Prelude
  imports Main "HOL-Library.Word"
begin

text \<open>
  Shared ground of the development: the widths of the machine integers, the errors a Rust
  function of the kernel can end with (an \<open>io::Error\<close> it returns or a panic that aborts it),
  the result type and the state-and-error monad every operation is written in, checked
  arithmetic (the kernel is built with the \<open>dev\<close> profile by default, so an overflow
  panics), and the list lemmas the components share.
\<close>

unbundle bit_operations_syntax

section \<open>Types\<close>

type_synonym u8 = "8 word"
type_synonym u16 = "16 word"
type_synonym u32 = "32 word"
type_synonym u64 = "64 word"
type_synonym usize = "64 word"

text \<open>
  The kinds of \<open>core_io::ErrorKind\<close> that the modelled code constructs or tests.
  \<open>Interrupted\<close> is the kind the retry loops of \<open>core_io\<close> test for; no stream of this
  repository ever constructs it, so it is not a value of the model.
\<close>

datatype io_kind =
    UnexpectedEof | WriteZero | InvalidInput | NotFound | AlreadyExists
  | PermissionDenied | BrokenPipe | Other

text \<open>\<open>NoReturn\<close> is not a panic: it is the value of a loop of the code that would go on forever.\<close>

datatype panic_kind =
    Overflow | Assertion | UnwrapNone | OutOfBounds | Explicit | Todo | DivideByZero | NoReturn

datatype err = Io io_kind | Panic panic_kind

type_synonym 'a res = "err + 'a"
type_synonym ('s, 'a) st = "'s \<Rightarrow> 'a res \<times> 's"

section \<open>Collections of facts\<close>

named_theorems monad_simps \<open>unfolding rules of the result and state monads\<close>
named_theorems arith_simps \<open>what a successful checked operation computes\<close>

section \<open>The result monad\<close>

definition rbind :: "'a res \<Rightarrow> ('a \<Rightarrow> 'b res) \<Rightarrow> 'b res" where
  "rbind m f = (case m of Inl e \<Rightarrow> Inl e | Inr x \<Rightarrow> f x)"

definition rguard :: "bool \<Rightarrow> err \<Rightarrow> unit res" where
  "rguard b e = (if b then Inr () else Inl e)"

definition runwrap :: "'a option \<Rightarrow> 'a res" where
  "runwrap x = (case x of None \<Rightarrow> Inl (Panic UnwrapNone) | Some v \<Rightarrow> Inr v)"

definition is_ok :: "'a res \<Rightarrow> bool" where
  "is_ok r = (case r of Inl _ \<Rightarrow> False | Inr _ \<Rightarrow> True)"

lemma rbind_simps [simp, monad_simps]:
  "rbind (Inr x) f = f x" "rbind (Inl e) f = Inl e"
  by (simp_all add: rbind_def)

lemma rbind_eq_Inr [simp]: "rbind m f = Inr y \<longleftrightarrow> (\<exists>x. m = Inr x \<and> f x = Inr y)"
  by (cases m) auto

lemma rguard_eq_Inr [simp]: "rguard b e = Inr u \<longleftrightarrow> b"
  by (simp add: rguard_def)

lemma rguard_True [simp]: "rguard True e = Inr ()"
  by (simp add: rguard_def)

lemma rguard_False [simp]: "rguard False e = Inl e"
  by (simp add: rguard_def)

lemma runwrap_simps [simp]: "runwrap (Some v) = Inr v" "runwrap None = Inl (Panic UnwrapNone)"
  by (simp_all add: runwrap_def)

lemma runwrap_eq_Inr [simp]: "runwrap x = Inr v \<longleftrightarrow> x = Some v"
  by (cases x) auto

lemma is_ok_simps [simp]: "is_ok (Inr v)" "\<not> is_ok (Inl e)"
  by (simp_all add: is_ok_def)

lemma is_okE:
  assumes "is_ok r"
  obtains v where "r = Inr v"
  using assms by (cases r) auto

section \<open>The state-and-error monad\<close>

text \<open>
  A computation keeps the state it reached when it failed: Rust's \<open>?\<close> returns early but does
  not undo what was already written.
\<close>

definition sret :: "'a \<Rightarrow> ('s, 'a) st" where
  "sret x s = (Inr x, s)"

definition sfail :: "err \<Rightarrow> ('s, 'a) st" where
  "sfail e s = (Inl e, s)"

definition sbind :: "('s, 'a) st \<Rightarrow> ('a \<Rightarrow> ('s, 'b) st) \<Rightarrow> ('s, 'b) st" where
  "sbind m f s = (case m s of (Inl e, s') \<Rightarrow> (Inl e, s') | (Inr x, s') \<Rightarrow> f x s')"

definition slift :: "'a res \<Rightarrow> ('s, 'a) st" where
  "slift r s = (r, s)"

text \<open>\<open>scatch\<close> is a \<open>match\<close> on \<open>Err\<close>: it handles an \<open>io::Error\<close>, a panic still aborts.\<close>

definition scatch :: "('s, 'a) st \<Rightarrow> (io_kind \<Rightarrow> ('s, 'a) st) \<Rightarrow> ('s, 'a) st" where
  "scatch m h s = (case m s of (Inl (Io k), s') \<Rightarrow> h k s' | (Inl (Panic p), s') \<Rightarrow> (Inl (Panic p), s')
     | (Inr x, s') \<Rightarrow> (Inr x, s'))"

lemma sret_apply [monad_simps]: "sret x s = (Inr x, s)"
  by (simp add: sret_def)

lemma sfail_apply [monad_simps]: "sfail e s = (Inl e, s)"
  by (simp add: sfail_def)

lemma slift_apply [monad_simps]: "slift r s = (r, s)"
  by (simp add: slift_def)

lemma sbind_Inr [monad_simps]: "m s = (Inr x, s') \<Longrightarrow> sbind m f s = f x s'"
  by (simp add: sbind_def)

lemma sbind_Inl [monad_simps]: "m s = (Inl e, s') \<Longrightarrow> sbind m f s = (Inl e, s')"
  by (simp add: sbind_def)

lemma sbind_ret [simp]: "sbind (sret x) f = f x"
  by (rule ext) (simp add: sbind_def monad_simps)

lemma sbind_fail [simp]: "sbind (sfail e) f = sfail e"
  by (rule ext) (simp add: sbind_def monad_simps)

lemma sbind_lift_Inr [simp]: "sbind (slift (Inr x)) f = f x"
  by (rule ext) (simp add: sbind_def monad_simps)

lemma sbind_lift_Inl [simp]: "sbind (slift (Inl e)) f = sfail e"
  by (rule ext) (simp add: sbind_def monad_simps)

lemma sbind_eq_Inr:
  "sbind m f s = (Inr y, s2) \<longleftrightarrow> (\<exists>x s1. m s = (Inr x, s1) \<and> f x s1 = (Inr y, s2))"
  by (auto simp: sbind_def split: prod.splits sum.splits)

lemma sbind_assoc: "sbind (sbind m f) g = sbind m (\<lambda>x. sbind (f x) g)"
  by (rule ext) (auto simp: sbind_def split: prod.splits sum.splits)

subsection \<open>Weakest preconditions\<close>

text \<open>
  \<open>wp m Q E s\<close>: started in \<open>s\<close>, \<open>m\<close> either returns a value and a state that satisfy \<open>Q\<close> or
  fails with an error and a state that satisfy \<open>E\<close>. With \<open>E\<close> the constant \<open>no_err\<close> it says that
  \<open>m\<close> succeeds.
\<close>

definition wp ::
  "('s, 'a) st \<Rightarrow> ('a \<Rightarrow> 's \<Rightarrow> bool) \<Rightarrow> (err \<Rightarrow> 's \<Rightarrow> bool) \<Rightarrow> 's \<Rightarrow> bool" where
  "wp m Q E s = (case m s of (Inl e, s') \<Rightarrow> E e s' | (Inr x, s') \<Rightarrow> Q x s')"

definition no_err :: "err \<Rightarrow> 's \<Rightarrow> bool" where
  "no_err e s = False"

lemma wp_sret [simp]: "wp (sret x) Q E s = Q x s"
  by (simp add: wp_def sret_def)

lemma wp_sfail [simp]: "wp (sfail e) Q E s = E e s"
  by (simp add: wp_def sfail_def)

lemma wp_slift_Inr [simp]: "wp (slift (Inr x)) Q E s = Q x s"
  by (simp add: wp_def slift_def)

lemma wp_slift_Inl [simp]: "wp (slift (Inl e)) Q E s = E e s"
  by (simp add: wp_def slift_def)

lemma wp_slift: "r = Inr x \<Longrightarrow> wp (slift r) Q E s = Q x s"
  by simp

lemma wp_sbind [simp]: "wp (sbind m f) Q E s = wp m (\<lambda>x. wp (f x) Q E) E s"
  by (auto simp: wp_def sbind_def split: prod.splits sum.splits)

lemma wp_scatch:
  "wp (scatch m h) Q E s = wp m Q (\<lambda>e. case e of Io k \<Rightarrow> wp (h k) Q E | Panic p \<Rightarrow> E (Panic p)) s"
  by (auto simp: wp_def scatch_def split: prod.splits sum.splits err.splits)

lemma wp_if: "wp (if b then m else m') Q E s = (if b then wp m Q E s else wp m' Q E s)"
  by simp

lemma wp_mono:
  assumes "wp m Q E s" "\<And>x s'. Q x s' \<Longrightarrow> Q' x s'" "\<And>e s'. E e s' \<Longrightarrow> E' e s'"
  shows "wp m Q' E' s"
  using assms by (auto simp: wp_def split: prod.splits sum.splits)

lemma wp_post:
  assumes "wp m Q E s" "\<And>x s'. Q x s' \<Longrightarrow> Q' x s'"
  shows "wp m Q' E s"
  using assms by (rule wp_mono)

lemma wp_no_errE:
  assumes "wp m Q no_err s"
  obtains x s' where "m s = (Inr x, s')" "Q x s'"
  using assms by (auto simp: wp_def no_err_def split: prod.splits sum.splits)

lemma wp_no_errI: "m s = (Inr x, s') \<Longrightarrow> Q x s' \<Longrightarrow> wp m Q E s"
  by (simp add: wp_def)

lemma wp_no_err_iff: "wp m Q no_err s \<longleftrightarrow> (\<exists>x s'. m s = (Inr x, s') \<and> Q x s')"
  by (auto simp: wp_def no_err_def split: prod.splits sum.splits)

section \<open>Checked arithmetic\<close>

definition cadd :: "'a::len word \<Rightarrow> 'a word \<Rightarrow> 'a word res" where
  "cadd x y = (if uint x + uint y < 2 ^ LENGTH('a) then Inr (x + y) else Inl (Panic Overflow))"

definition csub :: "'a::len word \<Rightarrow> 'a word \<Rightarrow> 'a word res" where
  "csub x y = (if y \<le> x then Inr (x - y) else Inl (Panic Overflow))"

definition cmul :: "'a::len word \<Rightarrow> 'a word \<Rightarrow> 'a word res" where
  "cmul x y = (if uint x * uint y < 2 ^ LENGTH('a) then Inr (x * y) else Inl (Panic Overflow))"

lemma uint_add_bound:
  "uint x + uint y < 2 ^ LENGTH('a) \<longleftrightarrow> unat x + unat y < 2 ^ LENGTH('a)" for x y :: "'a::len word"
  using of_nat_less_iff [of "unat x + unat y" "2 ^ LENGTH('a)", where ?'a = int] by simp

lemma uint_mult_bound:
  "uint x * uint y < 2 ^ LENGTH('a) \<longleftrightarrow> unat x * unat y < 2 ^ LENGTH('a)" for x y :: "'a::len word"
  using of_nat_less_iff [of "unat x * unat y" "2 ^ LENGTH('a)", where ?'a = int] by simp

lemma cadd_Inr [arith_simps]:
  "cadd x y = Inr z \<longleftrightarrow> unat x + unat y < 2 ^ LENGTH('a) \<and> z = x + y" for x y z :: "'a::len word"
  by (auto simp: cadd_def uint_add_bound)

lemma csub_Inr [arith_simps]: "csub x y = Inr z \<longleftrightarrow> y \<le> x \<and> z = x - y"
  by (auto simp: csub_def)

lemma cmul_Inr [arith_simps]:
  "cmul x y = Inr z \<longleftrightarrow> unat x * unat y < 2 ^ LENGTH('a) \<and> z = x * y" for x y z :: "'a::len word"
  by (auto simp: cmul_def uint_mult_bound)

lemma unat_add_noof:
  "unat x + unat y < 2 ^ LENGTH('a) \<Longrightarrow> unat (x + y) = unat x + unat y" for x y :: "'a::len word"
  by (simp add: unat_word_ariths)

lemma unat_mult_noof:
  "unat x * unat y < 2 ^ LENGTH('a) \<Longrightarrow> unat (x * y) = unat x * unat y" for x y :: "'a::len word"
  by (simp add: unat_word_ariths)

lemma unat_sub_noof: "y \<le> x \<Longrightarrow> unat (x - y) = unat x - unat y" for x y :: "'a::len word"
  by (rule unat_sub)

lemma cadd_unat: "cadd x y = Inr z \<Longrightarrow> unat z = unat x + unat y"
  by (auto simp: cadd_Inr unat_add_noof)

lemma csub_unat: "csub x y = Inr z \<Longrightarrow> unat z = unat x - unat y \<and> unat y \<le> unat x"
  by (auto simp: csub_Inr unat_sub_noof word_le_nat_alt)

lemma cmul_unat: "cmul x y = Inr z \<Longrightarrow> unat z = unat x * unat y"
  by (auto simp: cmul_Inr unat_mult_noof)

lemma unat_less_2p [simp]: "unat (x :: 'a::len word) < 2 ^ LENGTH('a)"
  by (rule unsigned_less)

lemma unat_inc: "c \<noteq> - 1 \<Longrightarrow> unat (c + 1) = unat c + 1" for c :: "'a::len word"
  using unatSuc [of c] by (metis Suc_eq_plus1 add.commute add_eq_0_iff)

lemma unat_inc_less: "c < e \<Longrightarrow> unat (c + 1) = unat c + 1" for c e :: "'a::len word"
  by (rule unat_inc) (metis word_order.extremum_strict)

lemma unat_ucast: "unat (ucast n :: 'b::len word) = unat n mod 2 ^ LENGTH('b)" for n :: "'a::len word"
  by transfer (simp add: take_bit_eq_mod nat_mod_distrib nat_power_eq)

lemma unat_drop_bit: "unat (drop_bit n a) = unat a div 2 ^ n" for a :: "'a::len word"
  by (simp add: unsigned_drop_bit_eq take_bit_nat_eq_self flip: drop_bit_eq_div)

lemma unat_push_bit: "unat (push_bit n a) = unat a * 2 ^ n mod 2 ^ LENGTH('a)" for a :: "'a::len word"
proof -
  have "unat (push_bit n a) = take_bit LENGTH('a) (push_bit n (unat a))"
    by (rule unsigned_push_bit_eq)
  then show ?thesis by (simp only: push_bit_eq_mult take_bit_eq_mod)
qed

lemma unat_and_mask: "unat (a AND mask n) = unat a mod 2 ^ n" for a :: "'a::len word"
proof -
  have "unat (a AND mask n) = unat (take_bit n a)" by (simp only: take_bit_eq_mask)
  also have "\<dots> = take_bit n (unat a)" by (rule unsigned_take_bit_eq)
  finally show ?thesis by (simp only: take_bit_eq_mod)
qed

lemma and_not_mask: "a AND NOT (mask n) = push_bit n (drop_bit n a)" for a :: "'a::len word"
  by (rule bit_word_eqI) (auto simp: bit_simps)

lemma unat_and_not_mask: "unat (a AND NOT (mask n)) = unat a div 2 ^ n * 2 ^ n" for a :: "'a::len word"
proof -
  have "unat a div 2 ^ n * 2 ^ n < 2 ^ LENGTH('a)"
    using unat_less_2p [of a] by (metis le_less_trans div_times_less_eq_dividend)
  then show ?thesis by (simp add: and_not_mask unat_push_bit unat_drop_bit)
qed

lemma even_word_and_1: "(c AND 1 = 0) \<longleftrightarrow> even (unat c)" for c :: u32
proof -
  have "(c AND 1 = 0) \<longleftrightarrow> unat (c AND 1) = 0" by (simp add: unat_eq_0)
  also have "unat (c AND 1) = unat c mod 2" by (simp add: and_one_eq unat_mod)
  finally show ?thesis by presburger
qed

lemma u32_max: "(0xFFFFFFFF :: u32) = - 1"
  by simp

lemma unat_u32_max [simp]: "unat (- 1 :: u32) = 0xFFFFFFFF"
  by (simp add: unsigned_minus_1_eq_mask mask_eq_exp_minus_1)

lemma u32_inc_small:
  fixes c :: u32
  assumes "unat c < 0xFFFFFFFF"
  shows "unat (c + 1) = unat c + 1" "c \<noteq> 0xFFFFFFFF"
proof -
  have "c \<noteq> - 1" using assms by auto
  then show "unat (c + 1) = unat c + 1" "c \<noteq> 0xFFFFFFFF" by (simp_all add: unat_inc u32_max)
qed

section \<open>Counting loops\<close>

text \<open>\<open>for i in a..b { body }\<close> over \<open>u32\<close>.\<close>

function for_u32 :: "u32 \<Rightarrow> u32 \<Rightarrow> (u32 \<Rightarrow> ('s, unit) st) \<Rightarrow> ('s, unit) st" where
  "for_u32 a b body s =
     (if a < b then sbind (body a) (\<lambda>_. for_u32 (a + 1) b body) s else (Inr (), s))"
  by pat_completeness auto
termination
  by (relation "measure (\<lambda>(a, b, body, s). unat b - unat a)")
    (auto simp: unat_inc_less word_less_nat_alt)

declare for_u32.simps [simp del]

section \<open>Overwriting a stretch of a list\<close>

text \<open>\<open>splice n ys xs\<close> is \<open>xs\<close> with the elements from index \<open>n\<close> on replaced by \<open>ys\<close>:
  what \<open>copy_from_slice\<close> does to the target slice.\<close>

definition splice :: "nat \<Rightarrow> 'a list \<Rightarrow> 'a list \<Rightarrow> 'a list" where
  "splice n ys xs = take n xs @ ys @ drop (n + length ys) xs"

definition window :: "nat \<Rightarrow> nat \<Rightarrow> 'a list \<Rightarrow> 'a list" where
  "window n k xs = take k (drop n xs)"

lemma length_splice [simp]:
  "n + length ys \<le> length xs \<Longrightarrow> length (splice n ys xs) = length xs"
  by (simp add: splice_def)

lemma length_window [simp]: "n + k \<le> length xs \<Longrightarrow> length (window n k xs) = k"
  by (simp add: window_def)

lemma splice_Nil [simp]: "splice n [] xs = xs"
  by (simp add: splice_def)

lemma window_zero [simp]: "window n 0 xs = []"
  by (simp add: window_def)

lemma window_eq_Nil [simp]: "n + k \<le> length xs \<Longrightarrow> window n k xs = [] \<longleftrightarrow> k = 0"
  by (auto simp: window_def)

lemma nth_splice:
  assumes "n + length ys \<le> length xs" "i < length xs"
  shows "splice n ys xs ! i = (if n \<le> i \<and> i < n + length ys then ys ! (i - n) else xs ! i)"
  using assms by (auto simp: splice_def nth_append min_def)

lemma nth_window [simp]: "i < k \<Longrightarrow> n + k \<le> length xs \<Longrightarrow> window n k xs ! i = xs ! (n + i)"
  by (simp add: window_def)

lemma window_splice_same [simp]:
  assumes "n + length ys \<le> length xs" "k = length ys"
  shows "window n k (splice n ys xs) = ys"
  using assms by (simp add: window_def splice_def)

lemma window_splice_disjoint:
  assumes "n + length ys \<le> length xs" "m + k \<le> length xs" "m + k \<le> n \<or> n + length ys \<le> m"
  shows "window m k (splice n ys xs) = window m k xs"
proof (rule nth_equalityI)
  show "length (window m k (splice n ys xs)) = length (window m k xs)"
    using assms by simp
next
  fix i assume "i < length (window m k (splice n ys xs))"
  with assms have i: "i < k" by simp
  with assms show "window m k (splice n ys xs) ! i = window m k xs ! i"
    by (auto simp: nth_splice)
qed

lemma splice_append:
  assumes "n + length xs + length ys \<le> length zs"
  shows "splice (n + length xs) ys (splice n xs zs) = splice n (xs @ ys) zs"
  using assms by (simp add: splice_def min.absorb2 add.assoc add.commute [of "length ys"])

lemma window_append:
  "window n k xs @ window (n + k) j xs = window n (k + j) xs"
  by (simp add: window_def take_add add.commute [of n k])

lemma window_window:
  "a + k \<le> m \<Longrightarrow> window a k (window n m xs) = window (n + a) k xs"
  by (simp add: window_def drop_take min_def add.commute)

lemma window_eqI:
  assumes "n + k \<le> length xs" "n + k \<le> length ys" "\<And>i. i < k \<Longrightarrow> xs ! (n + i) = ys ! (n + i)"
  shows "window n k xs = window n k ys"
  by (rule nth_equalityI) (use assms in auto)

lemma window_splice_inside:
  assumes "a + length ys \<le> m" "n + m \<le> length xs"
  shows "window n m (splice (n + a) ys xs) = splice a ys (window n m xs)"
proof (rule nth_equalityI)
  show "length (window n m (splice (n + a) ys xs)) = length (splice a ys (window n m xs))"
    using assms by simp
next
  fix i assume "i < length (window n m (splice (n + a) ys xs))"
  with assms have i: "i < m" by simp
  with assms show "window n m (splice (n + a) ys xs) ! i = splice a ys (window n m xs) ! i"
    by (auto simp: nth_splice)
qed

end
