(* ===== verification/Byte_Stream.thy ===== *)
theory Byte_Stream
  imports Prelude
begin

text \<open>
  The byte streams of \<open>core_io\<close>: the traits \<open>Read\<close>, \<open>Write\<close> and \<open>Seek\<close> as a dictionary of
  operations (what a Rust generic \<open>T: Read + Write + Seek\<close> receives), the provided methods
  \<open>read_exact\<close> and \<open>write_all\<close>, the in-memory stream \<open>Cursor<Vec<u8>>\<close>, and the fixed-width
  little-endian integers of \<open>fatfs/src/byteorder_core_io.rs\<close>. The locale \<open>byte_stream\<close> is the
  contract a stream gives its clients; \<open>Cursor\<close> fulfils it.
\<close>

section \<open>Streams\<close>

text \<open>Positions are \<open>u64\<close> values of the code, written as \<open>nat\<close>; the offsets of \<open>End\<close> and
  \<open>Current\<close> are \<open>i64\<close>.\<close>

datatype seek_from = Start nat | End int | Current int

record 's rws =
  io_read :: "nat \<Rightarrow> ('s, u8 list) st"
  io_read_exact :: "nat \<Rightarrow> ('s, u8 list) st"
  io_write :: "u8 list \<Rightarrow> ('s, nat) st"
  io_write_all :: "u8 list \<Rightarrow> ('s, unit) st"
  io_seek :: "seek_from \<Rightarrow> ('s, nat) st"
  io_flush :: "('s, unit) st"

text \<open>
  \<open>io_read n\<close> is \<open>read\<close> on a buffer of \<open>n\<close> bytes and returns the bytes it stored at the front of
  the buffer (their number is the \<open>Ok\<close> value of the Rust function).
\<close>

function default_read_exact :: "(nat \<Rightarrow> ('s, u8 list) st) \<Rightarrow> nat \<Rightarrow> ('s, u8 list) st" where
  "default_read_exact rd n s =
     (if n = 0 then (Inr [], s)
      else case rd n s of
        (Inl e, s') \<Rightarrow> (Inl e, s')
      | (Inr bs, s') \<Rightarrow>
          if bs = [] then (Inl (Io UnexpectedEof), s')
          else if length bs > n then (Inl (Panic OutOfBounds), s')
          else (case default_read_exact rd (n - length bs) s' of
                  (Inl e, s2) \<Rightarrow> (Inl e, s2)
                | (Inr rest, s2) \<Rightarrow> (Inr (bs @ rest), s2)))"
  by pat_completeness auto
termination
  by (relation "measure (\<lambda>(rd, n, s). n)") auto

function write_all :: "(u8 list \<Rightarrow> ('s, nat) st) \<Rightarrow> u8 list \<Rightarrow> ('s, unit) st" where
  "write_all wr buf s =
     (if buf = [] then (Inr (), s)
      else case wr buf s of
        (Inl e, s') \<Rightarrow> (Inl e, s')
      | (Inr n, s') \<Rightarrow>
          if n = 0 then (Inl (Io WriteZero), s')
          else if n > length buf then (Inl (Panic OutOfBounds), s')
          else write_all wr (drop n buf) s')"
  by pat_completeness auto
termination
  by (relation "measure (\<lambda>(wr, buf, s). length buf)") auto

declare default_read_exact.simps [simp del] write_all.simps [simp del]

section \<open>Cursor\<close>

record cursor =
  cur_inner :: "u8 list"
  cur_pos :: nat

definition cursor_new :: "u8 list \<Rightarrow> cursor" where
  "cursor_new v = \<lparr>cur_inner = v, cur_pos = 0\<rparr>"

definition cursor_seek :: "seek_from \<Rightarrow> (cursor, nat) st" where
  "cursor_seek style c =
     (case style of
        Start n \<Rightarrow> (Inr n, c\<lparr>cur_pos := n\<rparr>)
      | _ \<Rightarrow>
        let (base_pos, offset) =
              (case style of End n \<Rightarrow> (length (cur_inner c), n) | Current n \<Rightarrow> (cur_pos c, n)
               | Start n \<Rightarrow> (n, 0));
            new_pos = int base_pos + offset
        in if 0 \<le> new_pos \<and> new_pos < 2 ^ 64
           then (Inr (nat new_pos), c\<lparr>cur_pos := nat new_pos\<rparr>)
           else (Inl (Io InvalidInput), c))"

definition cursor_get_buf :: "cursor \<Rightarrow> u8 list" where
  "cursor_get_buf c = drop (min (cur_pos c) (length (cur_inner c))) (cur_inner c)"

definition slice_read :: "u8 list \<Rightarrow> nat \<Rightarrow> u8 list" where
  "slice_read self n = take (min n (length self)) self"

definition cursor_read :: "nat \<Rightarrow> (cursor, u8 list) st" where
  "cursor_read n c =
     (let bs = slice_read (cursor_get_buf c) n
      in (Inr bs, c\<lparr>cur_pos := cur_pos c + length bs\<rparr>))"

definition slice_read_exact :: "u8 list \<Rightarrow> nat \<Rightarrow> u8 list res" where
  "slice_read_exact self n = (if n > length self then Inl (Io UnexpectedEof) else Inr (take n self))"

definition cursor_read_exact :: "nat \<Rightarrow> (cursor, u8 list) st" where
  "cursor_read_exact n c =
     (case slice_read_exact (cursor_get_buf c) n of
        Inl e \<Rightarrow> (Inl e, c)
      | Inr bs \<Rightarrow> (Inr bs, c\<lparr>cur_pos := cur_pos c + n\<rparr>))"

definition vec_write :: "u8 list \<Rightarrow> (cursor, nat) st" where
  "vec_write buf c =
     (let pos = cur_pos c;
          vec = (if length (cur_inner c) < pos
                 then cur_inner c @ replicate (pos - length (cur_inner c)) 0 else cur_inner c);
          space = length vec - pos;
          left = take (min space (length buf)) buf;
          right = drop (min space (length buf)) buf
      in (Inr (length buf), c\<lparr>cur_inner := splice pos left vec @ right, cur_pos := pos + length buf\<rparr>))"

definition cursor_ops :: "cursor rws" where
  "cursor_ops =
     \<lparr>io_read = cursor_read, io_read_exact = cursor_read_exact, io_write = vec_write,
      io_write_all = write_all vec_write, io_seek = cursor_seek, io_flush = sret ()\<rparr>"

section \<open>Little-endian integers\<close>

definition le16 :: "u16 \<Rightarrow> u8 list" where
  "le16 w = [ucast w, ucast (drop_bit 8 w)]"

definition le32 :: "u32 \<Rightarrow> u8 list" where
  "le32 w = [ucast w, ucast (drop_bit 8 w), ucast (drop_bit 16 w), ucast (drop_bit 24 w)]"

definition of_le16 :: "u8 list \<Rightarrow> u16" where
  "of_le16 bs = ucast (bs ! 0) OR push_bit 8 (ucast (bs ! 1))"

definition of_le32 :: "u8 list \<Rightarrow> u32" where
  "of_le32 bs = ucast (bs ! 0) OR push_bit 8 (ucast (bs ! 1))
     OR push_bit 16 (ucast (bs ! 2)) OR push_bit 24 (ucast (bs ! 3))"

definition read_u8 :: "'s rws \<Rightarrow> ('s, u8) st" where
  "read_u8 ops = sbind (io_read_exact ops 1) (\<lambda>bs. sret (bs ! 0))"

definition read_u16 :: "'s rws \<Rightarrow> ('s, u16) st" where
  "read_u16 ops = sbind (io_read_exact ops 2) (\<lambda>bs. sret (of_le16 bs))"

definition read_u32 :: "'s rws \<Rightarrow> ('s, u32) st" where
  "read_u32 ops = sbind (io_read_exact ops 4) (\<lambda>bs. sret (of_le32 bs))"

definition write_u8 :: "'s rws \<Rightarrow> u8 \<Rightarrow> ('s, unit) st" where
  "write_u8 ops n = io_write_all ops [n]"

definition write_u16 :: "'s rws \<Rightarrow> u16 \<Rightarrow> ('s, unit) st" where
  "write_u16 ops n = io_write_all ops (le16 n)"

definition write_u32 :: "'s rws \<Rightarrow> u32 \<Rightarrow> ('s, unit) st" where
  "write_u32 ops n = io_write_all ops (le32 n)"

lemma length_le16 [simp]: "length (le16 w) = 2"
  by (simp add: le16_def)

lemma length_le32 [simp]: "length (le32 w) = 4"
  by (simp add: le32_def)

lemma of_le16_le16 [simp]: "of_le16 (le16 w) = w"
  by (rule bit_word_eqI) (auto simp: of_le16_def le16_def bit_simps)

lemma of_le32_le32 [simp]: "of_le32 (le32 w) = w"
proof (rule bit_word_eqI)
  fix n assume "n < LENGTH(32)"
  then show "bit (of_le32 (le32 w)) n = bit w n"
    by (cases "n < 24"; cases "n < 16") (auto simp: of_le32_def le32_def bit_simps)
qed

lemma list_length2: "length bs = 2 \<longleftrightarrow> (\<exists>a b. bs = [a, b])"
  by (auto simp: numeral_2_eq_2 length_Suc_conv)

lemma list_length4: "length bs = 4 \<longleftrightarrow> (\<exists>a b c d. bs = [a, b, c, d])"
  by (auto simp: eval_nat_numeral length_Suc_conv)

lemma le16_of_le16 [simp]: "length bs = 2 \<Longrightarrow> le16 (of_le16 bs) = bs"
  by (auto simp: list_length2 le16_def of_le16_def intro!: bit_word_eqI)
    (auto simp: bit_simps dest: bit_imp_le_length)

lemma le32_of_le32 [simp]: "length bs = 4 \<Longrightarrow> le32 (of_le32 bs) = bs"
  by (auto simp: list_length4 le32_def of_le32_def intro!: bit_word_eqI)
    (auto simp: bit_simps dest: bit_imp_le_length)

section \<open>The contract of a stream\<close>

text \<open>
  What a client relies on: the stream is a sequence of bytes with a position. \<open>inv\<close> is the
  provider's own invariant. Reading and writing inside the bytes succeeds; a seek to a position
  inside them (the end included) succeeds and moves nothing.
\<close>

text \<open>The reading half: a read inside the bytes makes progress and returns what is there.\<close>

locale read_stream =
  fixes rd :: "nat \<Rightarrow> ('s, u8 list) st"
    and bytes :: "'s \<Rightarrow> u8 list" and pos :: "'s \<Rightarrow> nat" and inv :: "'s \<Rightarrow> bool"
  assumes read_in:
      "inv s \<Longrightarrow> pos s \<le> length (bytes s) \<Longrightarrow>
       wp (rd n)
         (\<lambda>bs s'. length bs \<le> n \<and> pos s + length bs \<le> length (bytes s) \<and>
            (0 < n \<and> pos s < length (bytes s) \<longrightarrow> bs \<noteq> []) \<and>
            bs = window (pos s) (length bs) (bytes s) \<and>
            inv s' \<and> bytes s' = bytes s \<and> pos s' = pos s + length bs)
         no_err s"
begin

text \<open>\<open>holds b p s\<close>: the stream \<open>s\<close> has the bytes \<open>b\<close> and the position \<open>p\<close>.\<close>

definition holds :: "u8 list \<Rightarrow> nat \<Rightarrow> 's \<Rightarrow> bool" where
  "holds b p s \<longleftrightarrow> inv s \<and> bytes s = b \<and> pos s = p"

lemma read_wp:
  assumes "holds b p s" "p \<le> length b"
    "\<And>k s'. k \<le> n \<Longrightarrow> p + k \<le> length b \<Longrightarrow> (0 < n \<Longrightarrow> p < length b \<Longrightarrow> 0 < k) \<Longrightarrow>
       holds b (p + k) s' \<Longrightarrow> Q (window p k b) s'"
  shows "wp (rd n) Q E s"
proof -
  obtain bs s' where rd: "rd n s = (Inr bs, s')" and len: "length bs \<le> n"
    "p + length bs \<le> length b" and prog: "0 < n \<and> p < length b \<longrightarrow> bs \<noteq> []"
    and bs: "bs = window p (length bs) b" and s': "holds b (p + length bs) s'"
    using read_in [of s n] assms(1,2) by (auto simp: holds_def elim!: wp_no_errE)
  have "Q (window p (length bs) b) s'"
    by (rule assms(3)) (use len prog s' in auto)
  with bs rd show ?thesis by (simp add: wp_def)
qed

lemma default_read_exact_wp:
  assumes "holds b p s" "p + n \<le> length b" "\<And>s'. holds b (p + n) s' \<Longrightarrow> Q (window p n b) s'"
  shows "wp (default_read_exact (rd) n) Q E s"
proof -
  have "\<exists>s'. default_read_exact (rd) n s = (Inr (window p n b), s') \<and> holds b (p + n) s'"
    using assms(1,2)
  proof (induction n arbitrary: p s rule: less_induct)
    case (less n)
    show ?case
    proof (cases "n = 0")
      case True
      with less.prems show ?thesis by (simp add: default_read_exact.simps [of _ 0])
    next
      case False
      have "wp (rd n) (\<lambda>bs s'. \<exists>k. 0 < k \<and> k \<le> n \<and> bs = window p k b \<and> holds b (p + k) s')
          no_err s"
        by (rule read_wp [OF less.prems(1)]) (use less.prems(2) False in auto)
      then obtain k s1 where k: "0 < k" "k \<le> n" and s1: "holds b (p + k) s1"
        and rd: "rd n s = (Inr (window p k b), s1)"
        by (auto elim!: wp_no_errE)
      have "\<exists>s'. default_read_exact (rd) (n - k) s1 = (Inr (window (p + k) (n - k) b), s') \<and>
          holds b (p + k + (n - k)) s'"
        by (rule less.IH) (use k s1 less.prems(2) in auto)
      then obtain s2 where s2: "default_read_exact (rd) (n - k) s1 = (Inr (window (p + k) (n - k) b), s2)"
        "holds b (p + n) s2"
        using k by auto
      have "length (window p k b) = k" using k less.prems(2) by simp
      moreover have "window p k b \<noteq> []" using k calculation by auto
      ultimately show ?thesis
        using False rd s2 k window_append [of p k b "n - k"]
        by (simp add: default_read_exact.simps [of _ n])
    qed
  qed
  then show ?thesis using assms(3) by (auto simp: wp_def)
qed

end

text \<open>A stream whose \<open>read_exact\<close> returns the bytes it asks for when they are there.\<close>

locale exact_stream = read_stream "io_read ops" bytes pos inv
  for ops :: "'s rws" and bytes :: "'s \<Rightarrow> u8 list" and pos :: "'s \<Rightarrow> nat" and inv :: "'s \<Rightarrow> bool" +
  assumes read_exact_in:
      "inv s \<Longrightarrow> pos s + n \<le> length (bytes s) \<Longrightarrow>
       wp (io_read_exact ops n)
         (\<lambda>bs s'. bs = window (pos s) n (bytes s) \<and> inv s' \<and> bytes s' = bytes s \<and> pos s' = pos s + n)
         no_err s"
begin

lemma read_exact_wp:
  assumes "holds b p s" "p + n \<le> length b" "\<And>s'. holds b (p + n) s' \<Longrightarrow> Q (window p n b) s'"
  shows "wp (io_read_exact ops n) Q E s"
  using read_exact_in [of s n] assms
  by (auto simp: holds_def wp_def no_err_def split: prod.splits sum.splits)

lemma read_u8_wp:
  assumes "holds b p s" "p < length b" "\<And>s'. holds b (p + 1) s' \<Longrightarrow> Q (b ! p) s'"
  shows "wp (read_u8 ops) Q E s"
  unfolding read_u8_def wp_sbind
  by (rule read_exact_wp [OF assms(1)]) (use assms(2,3) in auto)

lemma read_u16_wp:
  assumes "holds b p s" "p + 2 \<le> length b"
    "\<And>s'. holds b (p + 2) s' \<Longrightarrow> Q (of_le16 (window p 2 b)) s'"
  shows "wp (read_u16 ops) Q E s"
  unfolding read_u16_def wp_sbind
  by (rule read_exact_wp [OF assms(1)]) (use assms(2,3) in auto)

lemma read_u32_wp:
  assumes "holds b p s" "p + 4 \<le> length b"
    "\<And>s'. holds b (p + 4) s' \<Longrightarrow> Q (of_le32 (window p 4 b)) s'"
  shows "wp (read_u32 ops) Q E s"
  unfolding read_u32_def wp_sbind
  by (rule read_exact_wp [OF assms(1)]) (use assms(2,3) in auto)

end

locale byte_stream = exact_stream ops bytes pos inv
  for ops :: "'s rws" and bytes :: "'s \<Rightarrow> u8 list" and pos :: "'s \<Rightarrow> nat" and inv :: "'s \<Rightarrow> bool" +
  assumes seek_start:
      "inv s \<Longrightarrow> n \<le> length (bytes s) \<Longrightarrow>
       wp (io_seek ops (Start n)) (\<lambda>r s'. r = n \<and> inv s' \<and> bytes s' = bytes s \<and> pos s' = n) no_err s"
    and write_all_in:
      "inv s \<Longrightarrow> pos s + length bs \<le> length (bytes s) \<Longrightarrow>
       wp (io_write_all ops bs)
         (\<lambda>_ s'. inv s' \<and> bytes s' = splice (pos s) bs (bytes s) \<and> pos s' = pos s + length bs)
         no_err s"
begin

lemma seek_wp:
  assumes "holds b p s" "n \<le> length b" "\<And>s'. holds b n s' \<Longrightarrow> Q n s'"
  shows "wp (io_seek ops (Start n)) Q E s"
  using seek_start [of s n] assms
  by (auto simp: holds_def wp_def no_err_def split: prod.splits sum.splits)

lemma write_all_wp:
  assumes "holds b p s" "p + length bs \<le> length b"
    "\<And>s'. holds (splice p bs b) (p + length bs) s' \<Longrightarrow> Q () s'"
  shows "wp (io_write_all ops bs) Q E s"
  using write_all_in [of s bs] assms
  by (auto simp: holds_def wp_def no_err_def split: prod.splits sum.splits)

lemma write_u8_wp:
  assumes "holds b p s" "p < length b" "\<And>s'. holds (splice p [n] b) (p + 1) s' \<Longrightarrow> Q () s'"
  shows "wp (write_u8 ops n) Q E s"
  unfolding write_u8_def by (rule write_all_wp [OF assms(1)]) (use assms(2,3) in auto)

lemma write_u16_wp:
  assumes "holds b p s" "p + 2 \<le> length b"
    "\<And>s'. holds (splice p (le16 n) b) (p + 2) s' \<Longrightarrow> Q () s'"
  shows "wp (write_u16 ops n) Q E s"
  unfolding write_u16_def by (rule write_all_wp [OF assms(1)]) (use assms(2,3) in auto)

lemma write_u32_wp:
  assumes "holds b p s" "p + 4 \<le> length b"
    "\<And>s'. holds (splice p (le32 n) b) (p + 4) s' \<Longrightarrow> Q () s'"
  shows "wp (write_u32 ops n) Q E s"
  unfolding write_u32_def by (rule write_all_wp [OF assms(1)]) (use assms(2,3) in auto)

lemmas stream_wps = seek_wp read_u8_wp read_u16_wp read_u32_wp write_u8_wp write_u16_wp write_u32_wp

end

section \<open>The cursor fulfils the contract\<close>

lemma vec_write_inside:
  assumes "cur_pos c + length bs \<le> length (cur_inner c)"
  shows "vec_write bs c =
    (Inr (length bs), c\<lparr>cur_inner := splice (cur_pos c) bs (cur_inner c), cur_pos := cur_pos c + length bs\<rparr>)"
  using assms by (simp add: vec_write_def Let_def min_def)

lemma cursor_write_all_inside:
  assumes "cur_pos c + length bs \<le> length (cur_inner c)"
  shows "write_all vec_write bs c =
    (Inr (), c\<lparr>cur_inner := splice (cur_pos c) bs (cur_inner c), cur_pos := cur_pos c + length bs\<rparr>)"
  using assms
  by (simp add: write_all.simps [of vec_write bs] vec_write_inside write_all.simps [of vec_write "[]"])

interpretation cursor: byte_stream cursor_ops cur_inner cur_pos "\<lambda>_. True"
  by unfold_locales
    (auto simp: cursor_ops_def wp_def cursor_seek_def cursor_read_exact_def slice_read_exact_def
       cursor_read_def slice_read_def Let_def cursor_get_buf_def cursor_write_all_inside window_def min_def)

end
