(* ===== verification/Disk_Slice.thy ===== *)
theory Disk_Slice
  imports Byte_Stream
begin

text \<open>
  \<open>DiskSlice<T>\<close> of \<open>fatfs/src/fs.rs\<close>: a window of a disk that is itself a stream, whose writes go
  to all mirrored copies of the window. It takes the dictionary of the inner stream and gives one
  of its own, as the Rust \<open>impl<T: Read + Seek> Read for DiskSlice<T>\<close> does. Over a stream that
  fulfils the contract \<open>byte_stream\<close> a slice fulfils it again.
\<close>

record 's disk_slice =
  ds_begin :: nat
  ds_size :: nat
  ds_offset :: nat
  ds_mirrors :: nat
  ds_inner :: 's

definition disk_slice_new :: "nat \<Rightarrow> nat \<Rightarrow> nat \<Rightarrow> 's \<Rightarrow> 's disk_slice" where
  "disk_slice_new bgn sz mirrors inner =
     \<lparr>ds_begin = bgn, ds_size = sz, ds_offset = 0, ds_mirrors = mirrors, ds_inner = inner\<rparr>"

definition disk_slice_abs_pos :: "'s disk_slice \<Rightarrow> nat" where
  "disk_slice_abs_pos d = ds_begin d + ds_offset d"

text \<open>Running an operation of the inner stream inside the slice.\<close>

definition on_inner :: "('s, 'a) st \<Rightarrow> ('s disk_slice, 'a) st" where
  "on_inner m d = (case m (ds_inner d) of (r, i) \<Rightarrow> (r, d\<lparr>ds_inner := i\<rparr>))"

definition disk_slice_read :: "'s rws \<Rightarrow> nat \<Rightarrow> ('s disk_slice, u8 list) st" where
  "disk_slice_read ops n d =
     (let offset = ds_begin d + ds_offset d
      in if ds_offset d > ds_size d then (Inl (Panic Overflow), d)
         else let read_size = min (ds_size d - ds_offset d) n
         in sbind (on_inner (io_seek ops (Start offset)))
              (\<lambda>_. sbind (on_inner (io_read ops read_size))
                (\<lambda>bs d'. (Inr bs, d'\<lparr>ds_offset := ds_offset d' + length bs\<rparr>))) d)"

primrec disk_slice_write_mirrors ::
  "'s rws \<Rightarrow> nat list \<Rightarrow> nat \<Rightarrow> nat \<Rightarrow> u8 list \<Rightarrow> ('s, unit) st" where
  "disk_slice_write_mirrors ops [] offset sz buf = sret ()"
| "disk_slice_write_mirrors ops (i # is) offset sz buf =
     sbind (io_seek ops (Start (offset + i * sz)))
       (\<lambda>_. sbind (io_write_all ops buf)
         (\<lambda>_. disk_slice_write_mirrors ops is offset sz buf))"

definition disk_slice_write :: "'s rws \<Rightarrow> u8 list \<Rightarrow> ('s disk_slice, nat) st" where
  "disk_slice_write ops buf d =
     (let offset = ds_begin d + ds_offset d
      in if ds_offset d > ds_size d then (Inl (Panic Overflow), d)
         else let write_size = min (ds_size d - ds_offset d) (length buf)
         in if write_size = 0 then (Inr 0, d)
            else sbind
              (on_inner (disk_slice_write_mirrors ops [0..<ds_mirrors d] offset (ds_size d)
                 (take write_size buf)))
              (\<lambda>_ d'. (Inr write_size, d'\<lparr>ds_offset := ds_offset d' + write_size\<rparr>)) d)"

text \<open>\<open>x as i64\<close> for a \<open>u64\<close> value.\<close>

definition as_i64 :: "nat \<Rightarrow> int" where
  "as_i64 x = (if x < 2 ^ 63 then int x else int x - 2 ^ 64)"

definition disk_slice_seek :: "seek_from \<Rightarrow> ('s disk_slice, nat) st" where
  "disk_slice_seek pos d =
     (let new_offset = (case pos of
            Current x \<Rightarrow> as_i64 (ds_offset d) + x
          | Start x \<Rightarrow> as_i64 x
          | End x \<Rightarrow> as_i64 (ds_size d) + x)
      in if new_offset < 0 \<or> nat new_offset > ds_size d then (Inl (Io InvalidInput), d)
         else (Inr (nat new_offset), d\<lparr>ds_offset := nat new_offset\<rparr>))"

definition disk_slice_ops :: "'s rws \<Rightarrow> 's disk_slice rws" where
  "disk_slice_ops ops =
     \<lparr>io_read = disk_slice_read ops,
      io_read_exact = default_read_exact (disk_slice_read ops),
      io_write = disk_slice_write ops,
      io_write_all = write_all (disk_slice_write ops),
      io_seek = disk_slice_seek,
      io_flush = on_inner (io_flush ops)\<rparr>"

section \<open>What a write does to the mirrors\<close>

text \<open>The bytes after the write loop: the buffer spliced into every mirror in turn.\<close>

primrec splice_all :: "nat list \<Rightarrow> nat \<Rightarrow> nat \<Rightarrow> 'a list \<Rightarrow> 'a list \<Rightarrow> 'a list" where
  "splice_all [] offset sz ys b = b"
| "splice_all (i # is) offset sz ys b = splice_all is offset sz ys (splice (offset + i * sz) ys b)"

lemma length_splice_all [simp]:
  "(\<And>i. i \<in> set is \<Longrightarrow> offset + i * sz + length ys \<le> length b) \<Longrightarrow>
   length (splice_all is offset sz ys b) = length b"
  by (induction "is" arbitrary: b) auto

lemma window_splice_all_other:
  assumes "\<And>i. i \<in> set is \<Longrightarrow> offset + i * sz + length ys \<le> length b"
    and "\<And>i. i \<in> set is \<Longrightarrow> m + k \<le> offset + i * sz \<or> offset + i * sz + length ys \<le> m"
    and "m + k \<le> length b"
  shows "window m k (splice_all is offset sz ys b) = window m k b"
  using assms
proof (induction "is" arbitrary: b)
  case (Cons i "is")
  have "window m k (splice_all is offset sz ys (splice (offset + i * sz) ys b)) =
      window m k (splice (offset + i * sz) ys b)"
    by (rule Cons.IH) (use Cons.prems in auto)
  also have "\<dots> = window m k b"
    by (rule window_splice_disjoint) (use Cons.prems in auto)
  finally show ?case by simp
qed simp

lemma mirror_disjoint:
  fixes i j sz a k :: nat
  assumes "i \<noteq> j" "a + k \<le> sz"
  shows "bgn + i * sz + sz \<le> bgn + a + j * sz \<or> bgn + a + j * sz + k \<le> bgn + i * sz"
proof (cases "i < j")
  case True
  then have "(i + 1) * sz \<le> j * sz" by (intro mult_le_mono1) simp
  then show ?thesis by simp
next
  case False
  with assms(1) have "(j + 1) * sz \<le> i * sz" by (intro mult_le_mono1) simp
  with assms(2) show ?thesis by simp
qed

text \<open>Every mirror in the list gets the same update at the same offset.\<close>

lemma window_splice_all_mirror:
  assumes "distinct is" "j \<in> set is" "a + length ys \<le> sz"
    and "\<And>i. i \<in> set is \<Longrightarrow> bgn + i * sz + sz \<le> length b"
  shows "window (bgn + j * sz) sz (splice_all is (bgn + a) sz ys b) =
    splice a ys (window (bgn + j * sz) sz b)"
  using assms
proof (induction "is" arbitrary: b)
  case (Cons i "is")
  let ?b' = "splice (bgn + a + i * sz) ys b"
  have len: "length ?b' = length b" using Cons.prems by (intro length_splice) fastforce
  show ?case
  proof (cases "j \<in> set is")
    case True
    with Cons.prems have "i \<noteq> j" by auto
    have "window (bgn + j * sz) sz (splice_all is (bgn + a) sz ys ?b') =
        splice a ys (window (bgn + j * sz) sz ?b')"
      by (rule Cons.IH) (use Cons.prems True len in auto)
    also have "window (bgn + j * sz) sz ?b' = window (bgn + j * sz) sz b"
      by (rule window_splice_disjoint)
        (use Cons.prems True mirror_disjoint [of j i a "length ys" sz bgn] \<open>i \<noteq> j\<close> in fastforce)+
    finally show ?thesis by simp
  next
    case False
    with Cons.prems have ji: "j = i" by auto
    have "window (bgn + i * sz) sz (splice_all is (bgn + a) sz ys ?b') =
        window (bgn + i * sz) sz ?b'"
    proof (rule window_splice_all_other)
      fix k assume k: "k \<in> set is"
      with Cons.prems len show "bgn + a + k * sz + length ys \<le> length ?b'" by fastforce
      from k False ji have "i \<noteq> k" by auto
      then show "bgn + i * sz + sz \<le> bgn + a + k * sz \<or>
          bgn + a + k * sz + length ys \<le> bgn + i * sz"
        by (rule mirror_disjoint) (use Cons.prems in simp)
    qed (use Cons.prems len in simp)
    also have "\<dots> = splice a ys (window (bgn + i * sz) sz b)"
      using window_splice_inside [of a ys sz "bgn + i * sz" b] Cons.prems
      by (simp add: ac_simps)
    finally show ?thesis by (simp add: ji)
  qed
qed simp

section \<open>A slice of a stream is a stream\<close>

text \<open>
  What a slice needs of the stream below is less than \<open>byte_stream\<close>: it seeks before every access, so
  the position a write leaves behind does not matter, and it only touches bytes from \<open>lo\<close> on.
\<close>

locale region_stream =
  fixes ops :: "'a rws" and bytes :: "'a \<Rightarrow> u8 list" and pos :: "'a \<Rightarrow> nat" and inv :: "'a \<Rightarrow> bool" and lo :: nat
  assumes region_seek:
      "inv s \<Longrightarrow> n \<le> length (bytes s) \<Longrightarrow>
       wp (io_seek ops (Start n)) (\<lambda>_ s'. inv s' \<and> bytes s' = bytes s \<and> pos s' = n) no_err s"
    and region_read:
      "inv s \<Longrightarrow> lo \<le> pos s \<Longrightarrow> pos s \<le> length (bytes s) \<Longrightarrow>
       wp (io_read ops n)
         (\<lambda>bs s'. length bs \<le> n \<and> pos s + length bs \<le> length (bytes s) \<and>
            (0 < n \<and> pos s < length (bytes s) \<longrightarrow> bs \<noteq> []) \<and>
            bs = window (pos s) (length bs) (bytes s) \<and> inv s' \<and> bytes s' = bytes s)
         no_err s"
    and region_write_all:
      "inv s \<Longrightarrow> lo \<le> pos s \<Longrightarrow> pos s + length bs \<le> length (bytes s) \<Longrightarrow>
       wp (io_write_all ops bs) (\<lambda>_ s'. inv s' \<and> bytes s' = splice (pos s) bs (bytes s)) no_err s"

sublocale byte_stream \<subseteq> region: region_stream ops bytes pos inv 0
proof (unfold_locales, goal_cases)
  case (1 s n)
  show ?case by (rule wp_post [OF seek_start [OF 1]]) simp
next
  case (2 s n)
  show ?case by (rule wp_post [OF read_in [OF 2(1,3)]]) auto
next
  case (3 s bs)
  show ?case by (rule wp_post [OF write_all_in [OF 3(1,3)]]) auto
qed

locale sliced_stream = region_stream
begin

definition slice_bytes :: "'a disk_slice \<Rightarrow> u8 list" where
  "slice_bytes d = window (ds_begin d) (ds_size d) (bytes (ds_inner d))"

definition slice_inv :: "'a disk_slice \<Rightarrow> bool" where
  "slice_inv d \<longleftrightarrow> inv (ds_inner d) \<and> lo \<le> ds_begin d \<and> 1 \<le> ds_mirrors d \<and> ds_offset d \<le> ds_size d \<and>
     ds_size d < 2 ^ 63 \<and> ds_begin d + ds_mirrors d * ds_size d \<le> length (bytes (ds_inner d))"

text \<open>All mirrors hold the same bytes.\<close>

definition slice_synced :: "'a disk_slice \<Rightarrow> bool" where
  "slice_synced d \<longleftrightarrow> (\<forall>j < ds_mirrors d. window (ds_begin d + j * ds_size d) (ds_size d) (bytes (ds_inner d)) = slice_bytes d)"

text \<open>What an operation on a slice leaves alone: the geometry, every stretch of the disk outside the mirrors,
  and that the mirrors agree.\<close>

definition slice_frame :: "'a disk_slice \<Rightarrow> 'a disk_slice \<Rightarrow> bool" where
  "slice_frame d d' \<longleftrightarrow> ds_begin d' = ds_begin d \<and> ds_size d' = ds_size d \<and> ds_mirrors d' = ds_mirrors d \<and>
     length (bytes (ds_inner d')) = length (bytes (ds_inner d)) \<and> (slice_synced d \<longrightarrow> slice_synced d') \<and>
     (\<forall>m k. m + k \<le> length (bytes (ds_inner d)) \<and> (m + k \<le> ds_begin d \<or> ds_begin d + ds_mirrors d * ds_size d \<le> m) \<longrightarrow>
        window m k (bytes (ds_inner d')) = window m k (bytes (ds_inner d)))"

lemma slice_frame_refl [simp]: "slice_frame d d"
  by (simp add: slice_frame_def)

lemma slice_frame_trans: "slice_frame d d' \<Longrightarrow> slice_frame d' d'' \<Longrightarrow> slice_frame d d''"
  by (simp add: slice_frame_def)

lemma slice_frame_same:
  "ds_begin d' = ds_begin d \<Longrightarrow> ds_size d' = ds_size d \<Longrightarrow> ds_mirrors d' = ds_mirrors d \<Longrightarrow>
   bytes (ds_inner d') = bytes (ds_inner d) \<Longrightarrow> slice_frame d d'"
  by (simp add: slice_frame_def slice_synced_def slice_bytes_def)

lemma slice_inv_fits:
  "slice_inv d \<Longrightarrow> i < ds_mirrors d \<Longrightarrow>
   ds_begin d + i * ds_size d + ds_size d \<le> length (bytes (ds_inner d))"
  using mult_le_mono1 [of "i + 1" "ds_mirrors d" "ds_size d"] by (simp add: slice_inv_def)

lemma length_slice_bytes [simp]: "slice_inv d \<Longrightarrow> length (slice_bytes d) = ds_size d"
  using slice_inv_fits [of d 0] by (simp add: slice_bytes_def slice_inv_def)

lemma write_mirrors_wp:
  assumes "inv s" "bytes s = b" "lo \<le> offset" "\<And>i. i \<in> set is \<Longrightarrow> offset + i * sz + length buf \<le> length b"
    and "\<And>s'. inv s' \<Longrightarrow> bytes s' = splice_all is offset sz buf b \<Longrightarrow> Q () s'"
  shows "wp (disk_slice_write_mirrors ops is offset sz buf) Q E s"
  using assms
proof (induction "is" arbitrary: b s)
  case Nil
  then show ?case by simp
next
  case (Cons i "is")
  have fit: "offset + i * sz + length buf \<le> length b" using Cons.prems(4) [of i] by simp
  then obtain x s1 where s1: "io_seek ops (Start (offset + i * sz)) s = (Inr x, s1)" "inv s1" "bytes s1 = b"
    "pos s1 = offset + i * sz"
    using region_seek [of s "offset + i * sz"] Cons.prems(1,2) by (auto elim!: wp_no_errE)
  then obtain y s2 where s2: "io_write_all ops buf s1 = (Inr y, s2)" "inv s2" "bytes s2 = splice (offset + i * sz) buf b"
    using region_write_all [of s1 buf] fit Cons.prems(3) by (auto elim!: wp_no_errE)
  have "wp (disk_slice_write_mirrors ops is offset sz buf) Q E s2"
    by (rule Cons.IH [OF s2(2,3)]) (use Cons.prems fit in auto)
  then show ?case using s1(1) s2(1) by (simp add: wp_def sbind_def)
qed

lemma slice_read_in:
  assumes "slice_inv d" "ds_offset d \<le> length (slice_bytes d)"
  shows "wp (disk_slice_read ops n)
      (\<lambda>bs d'. (length bs \<le> n \<and> ds_offset d + length bs \<le> length (slice_bytes d) \<and>
         (0 < n \<and> ds_offset d < length (slice_bytes d) \<longrightarrow> bs \<noteq> []) \<and>
         bs = window (ds_offset d) (length bs) (slice_bytes d) \<and>
         slice_inv d' \<and> slice_bytes d' = slice_bytes d \<and> ds_offset d' = ds_offset d + length bs) \<and> slice_frame d d')
      no_err d"
proof -
  let ?o = "ds_begin d + ds_offset d" and ?k = "min (ds_size d - ds_offset d) n" and ?b = "bytes (ds_inner d)"
  have fit: "ds_begin d + ds_size d \<le> length ?b" using slice_inv_fits [of d 0] assms(1) by (simp add: slice_inv_def)
  have i: "inv (ds_inner d)" "ds_offset d \<le> ds_size d" "lo \<le> ds_begin d" using assms(1) by (auto simp: slice_inv_def)
  obtain x s1 where s1: "io_seek ops (Start ?o) (ds_inner d) = (Inr x, s1)" "inv s1" "bytes s1 = ?b" "pos s1 = ?o"
    using region_seek [of "ds_inner d" ?o] i fit by (auto elim!: wp_no_errE)
  then obtain bs s2 where s2: "io_read ops ?k s1 = (Inr bs, s2)" "inv s2" "bytes s2 = ?b" "length bs \<le> ?k"
    "0 < ?k \<and> ?o < length ?b \<longrightarrow> bs \<noteq> []" "bs = window ?o (length bs) ?b"
    using region_read [of s1 ?k] i fit by (auto elim!: wp_no_errE)
  let ?d = "d\<lparr>ds_inner := s2, ds_offset := ds_offset d + length bs\<rparr>"
  have "disk_slice_read ops n d = (Inr bs, ?d)"
    using i s1(1) s2(1) by (simp add: disk_slice_read_def Let_def sbind_def on_inner_def)
  moreover have "slice_inv ?d" "slice_bytes ?d = slice_bytes d" "slice_frame d ?d"
    using assms(1) s2 by (auto simp: slice_inv_def slice_bytes_def intro: slice_frame_same)
  moreover have "window (ds_offset d) (length bs) (slice_bytes d) = window ?o (length bs) ?b"
    unfolding slice_bytes_def by (rule window_window) (use s2(4) i in linarith)
  ultimately show ?thesis using s2(4-6) i fit assms(1) by (auto simp: wp_def)
qed

lemma slice_write_bytes:
  assumes "slice_inv d" "ds_offset d + length buf \<le> ds_size d"
    and "bytes i = splice_all [0..<ds_mirrors d] (ds_begin d + ds_offset d) (ds_size d) buf (bytes (ds_inner d))"
    and "j < ds_mirrors d"
  shows "window (ds_begin d + j * ds_size d) (ds_size d) (bytes i) =
    splice (ds_offset d) buf (window (ds_begin d + j * ds_size d) (ds_size d) (bytes (ds_inner d)))"
  unfolding assms(3)
  by (rule window_splice_all_mirror) (use assms slice_inv_fits [OF assms(1)] in auto)

lemma slice_write_frame:
  assumes "slice_inv d" "ds_offset d + length buf \<le> ds_size d"
    and "bytes i = splice_all [0..<ds_mirrors d] (ds_begin d + ds_offset d) (ds_size d) buf (bytes (ds_inner d))"
  shows "slice_frame d (d\<lparr>ds_inner := i, ds_offset := n\<rparr>)"
proof -
  let ?b = "bytes (ds_inner d)"
  have fit: "ds_begin d + j * ds_size d + ds_size d \<le> length ?b"
    "ds_begin d + j * ds_size d + ds_size d \<le> ds_begin d + ds_mirrors d * ds_size d" if "j < ds_mirrors d" for j
    using slice_inv_fits [OF assms(1) that] mult_le_mono1 [of "j + 1" "ds_mirrors d" "ds_size d"] that by simp_all
  have len: "length (bytes i) = length ?b" unfolding assms(3)
    by (rule length_splice_all) (use fit(1) assms(2) in fastforce)
  have out: "window m k (bytes i) = window m k ?b"
    if "m + k \<le> length ?b" "m + k \<le> ds_begin d \<or> ds_begin d + ds_mirrors d * ds_size d \<le> m" for m k
    unfolding assms(3) by (rule window_splice_all_other) (use that fit assms(2) in fastforce)+
  have "slice_synced (d\<lparr>ds_inner := i, ds_offset := n\<rparr>)" if "slice_synced d"
    using that slice_write_bytes [OF assms] slice_write_bytes [OF assms, of 0] assms(1)
    by (simp add: slice_synced_def slice_bytes_def slice_inv_def)
  with len out show ?thesis by (simp add: slice_frame_def)
qed

lemma slice_write_in:
  assumes "slice_inv d" "ds_offset d + length buf \<le> ds_size d" "buf \<noteq> []"
  shows "wp (disk_slice_write ops buf)
      (\<lambda>k d'. k = length buf \<and> slice_inv d' \<and> ds_offset d' = ds_offset d + length buf \<and> slice_frame d d' \<and>
         bytes (ds_inner d') = splice_all [0..<ds_mirrors d] (ds_begin d + ds_offset d) (ds_size d) buf
           (bytes (ds_inner d)))
      no_err d"
proof -
  let ?o = "ds_begin d + ds_offset d" and ?b = "bytes (ds_inner d)"
  let ?m = "disk_slice_write_mirrors ops [0..<ds_mirrors d] ?o (ds_size d) buf"
  have i: "inv (ds_inner d)" "lo \<le> ?o" using assms(1) by (auto simp: slice_inv_def)
  have fit: "i < ds_mirrors d \<Longrightarrow> ?o + i * ds_size d + length buf \<le> length ?b" for i
    using slice_inv_fits [of d i] assms by simp
  have "wp ?m (\<lambda>_ s'. inv s' \<and> bytes s' = splice_all [0..<ds_mirrors d] ?o (ds_size d) buf ?b) no_err (ds_inner d)"
    by (rule write_mirrors_wp [OF i(1) refl i(2)]) (use fit in auto)
  then obtain u s' where s': "?m (ds_inner d) = (Inr u, s')" "inv s'"
    "bytes s' = splice_all [0..<ds_mirrors d] ?o (ds_size d) buf ?b" by (auto elim!: wp_no_errE)
  let ?d = "d\<lparr>ds_inner := s', ds_offset := ds_offset d + length buf\<rparr>"
  note fr = slice_write_frame [OF assms(1,2) s'(3), of "ds_offset d + length buf"]
  have "disk_slice_write ops buf d = (Inr (length buf), ?d)"
    using assms s'(1) by (simp add: disk_slice_write_def Let_def slice_inv_def sbind_def on_inner_def)
  moreover have "slice_inv ?d" using assms s'(2) fr by (auto simp: slice_inv_def slice_frame_def)
  ultimately show ?thesis using s'(3) fr by (simp add: wp_def)
qed

lemma slice_write_all_in:
  assumes "slice_inv d" "ds_offset d + length buf \<le> length (slice_bytes d)"
  shows "wp (write_all (disk_slice_write ops) buf)
      (\<lambda>_ d'. (slice_inv d' \<and> slice_bytes d' = splice (ds_offset d) buf (slice_bytes d) \<and>
         ds_offset d' = ds_offset d + length buf) \<and> slice_frame d d')
      no_err d"
proof (cases "buf = []")
  case True
  with assms show ?thesis by (simp add: write_all.simps wp_def)
next
  case False
  have len: "ds_offset d + length buf \<le> ds_size d" using assms by simp
  from slice_write_in [OF assms(1) len False] obtain d' where
    wr: "disk_slice_write ops buf d = (Inr (length buf), d')" and inv': "slice_inv d'"
    and d': "ds_offset d' = ds_offset d + length buf" and fr: "slice_frame d d'"
    and b': "bytes (ds_inner d') = splice_all [0..<ds_mirrors d] (ds_begin d + ds_offset d) (ds_size d) buf
           (bytes (ds_inner d))"
    by (auto elim!: wp_no_errE)
  have "slice_bytes d' = splice (ds_offset d) buf (slice_bytes d)"
    using slice_write_bytes [OF assms(1) len b', of 0] assms(1) fr
    by (simp add: slice_bytes_def slice_inv_def slice_frame_def)
  with False wr inv' d' fr show ?thesis
    by (simp add: write_all.simps [of _ buf] write_all.simps [of _ "[]"] wp_def)
qed

lemma slice_seek_in:
  assumes "slice_inv d" "n \<le> length (slice_bytes d)"
  shows "wp (disk_slice_seek (Start n))
     (\<lambda>r d'. (r = n \<and> slice_inv d' \<and> slice_bytes d' = slice_bytes d \<and> ds_offset d' = n) \<and> slice_frame d d') no_err d"
proof -
  from assms have "n \<le> ds_size d" "n < 2 ^ 63" by (auto simp: slice_inv_def)
  with assms(1) show ?thesis
    by (simp add: wp_def disk_slice_seek_def as_i64_def Let_def slice_inv_def slice_bytes_def slice_frame_same)
qed

end

text \<open>
  A slice is a stream again. With a slice \<open>d0\<close> given, the invariant also carries the frame from \<open>d0\<close> on:
  whatever a client does through the stream, the disk outside the mirrors stays as it was in \<open>d0\<close>.
\<close>

locale framed_slice = sliced_stream +
  fixes d0 :: "'a disk_slice option"
begin

definition framed_inv :: "'a disk_slice \<Rightarrow> bool" where
  "framed_inv d \<longleftrightarrow> slice_inv d \<and> (case d0 of None \<Rightarrow> True | Some e \<Rightarrow> slice_frame e d)"

lemma framed_inv_step: "framed_inv d \<Longrightarrow> slice_inv d' \<Longrightarrow> slice_frame d d' \<Longrightarrow> framed_inv d'"
  by (auto simp: framed_inv_def intro: slice_frame_trans split: option.splits)

lemma framed_inv_slice: "framed_inv d \<Longrightarrow> slice_inv d"
  by (simp add: framed_inv_def)

lemma framed_read_in:
  assumes "framed_inv d" "ds_offset d \<le> length (slice_bytes d)"
  shows "wp (disk_slice_read ops n)
      (\<lambda>bs d'. length bs \<le> n \<and> ds_offset d + length bs \<le> length (slice_bytes d) \<and>
         (0 < n \<and> ds_offset d < length (slice_bytes d) \<longrightarrow> bs \<noteq> []) \<and>
         bs = window (ds_offset d) (length bs) (slice_bytes d) \<and>
         framed_inv d' \<and> slice_bytes d' = slice_bytes d \<and> ds_offset d' = ds_offset d + length bs) no_err d"
  by (rule wp_post [OF slice_read_in [OF framed_inv_slice [OF assms(1)] assms(2)]])
    (use framed_inv_step [OF assms(1)] in blast)

end

sublocale framed_slice \<subseteq> slice_rd: read_stream "disk_slice_read ops" slice_bytes ds_offset framed_inv
  by unfold_locales (rule framed_read_in)

context framed_slice
begin

lemma framed_read_exact_in:
  assumes "framed_inv d" "ds_offset d + n \<le> length (slice_bytes d)"
  shows "wp (default_read_exact (disk_slice_read ops) n)
     (\<lambda>bs d'. bs = window (ds_offset d) n (slice_bytes d) \<and> framed_inv d' \<and>
        slice_bytes d' = slice_bytes d \<and> ds_offset d' = ds_offset d + n) no_err d"
  by (rule slice_rd.default_read_exact_wp) (use assms in \<open>auto simp: slice_rd.holds_def\<close>)

lemma framed_write_all_in:
  assumes "framed_inv d" "ds_offset d + length buf \<le> length (slice_bytes d)"
  shows "wp (write_all (disk_slice_write ops) buf)
      (\<lambda>_ d'. framed_inv d' \<and> slice_bytes d' = splice (ds_offset d) buf (slice_bytes d) \<and>
         ds_offset d' = ds_offset d + length buf) no_err d"
  by (rule wp_post [OF slice_write_all_in [OF framed_inv_slice [OF assms(1)] assms(2)]])
    (use framed_inv_step [OF assms(1)] in blast)

lemma framed_seek_in:
  assumes "framed_inv d" "n \<le> length (slice_bytes d)"
  shows "wp (disk_slice_seek (Start n))
     (\<lambda>r d'. r = n \<and> framed_inv d' \<and> slice_bytes d' = slice_bytes d \<and> ds_offset d' = n) no_err d"
  by (rule wp_post [OF slice_seek_in [OF framed_inv_slice [OF assms(1)] assms(2)]])
    (use framed_inv_step [OF assms(1)] in blast)

end

sublocale framed_slice \<subseteq> slice: byte_stream "disk_slice_ops ops" slice_bytes ds_offset framed_inv
  by unfold_locales
    (simp_all only: disk_slice_ops_def rws.simps framed_read_in framed_seek_in framed_read_exact_in
       framed_write_all_in)

interpretation cursor_slice: framed_slice cursor_ops cur_inner cur_pos "\<lambda>_. True" 0 None
  by unfold_locales

lemma cursor_framed_inv [simp]: "cursor_slice.framed_inv d = cursor_slice.slice_inv d"
  by (simp add: cursor_slice.framed_inv_def)

section \<open>Mirrors\<close>

text \<open>C33: a write through a \<open>DiskSlice\<close> that fits goes to every mirror: each copy of the slice gets the
  same bytes at the same offset, and no byte of the disk outside the copies changes.\<close>

theorem disk_slice_write_mirrors_in_sync:
  assumes "1 \<le> ds_mirrors d" "ds_offset d + length buf \<le> ds_size d" "ds_size d < 2 ^ 63" "buf \<noteq> []"
    and "ds_begin d + ds_mirrors d * ds_size d \<le> length (cur_inner (ds_inner d))"
  shows "\<exists>d'. disk_slice_write cursor_ops buf d = (Inr (length buf), d') \<and>
    ds_offset d' = ds_offset d + length buf \<and>
    length (cur_inner (ds_inner d')) = length (cur_inner (ds_inner d)) \<and>
    (\<forall>j < ds_mirrors d. window (ds_begin d + j * ds_size d) (ds_size d) (cur_inner (ds_inner d')) =
       splice (ds_offset d) buf (window (ds_begin d + j * ds_size d) (ds_size d) (cur_inner (ds_inner d)))) \<and>
    (\<forall>n < length (cur_inner (ds_inner d)). n < ds_begin d \<or> ds_begin d + ds_mirrors d * ds_size d \<le> n \<longrightarrow>
       cur_inner (ds_inner d') ! n = cur_inner (ds_inner d) ! n)"
proof -
  let ?b = "cur_inner (ds_inner d)" and ?m = "[0..<ds_mirrors d]"
  let ?b' = "splice_all ?m (ds_begin d + ds_offset d) (ds_size d) buf ?b"
  have inv: "cursor_slice.slice_inv d" using assms by (simp add: cursor_slice.slice_inv_def)
  have fit: "ds_begin d + i * ds_size d + ds_size d \<le> length ?b"
    "ds_begin d + i * ds_size d + ds_size d \<le> ds_begin d + ds_mirrors d * ds_size d" if "i < ds_mirrors d" for i
    using cursor_slice.slice_inv_fits [OF inv that] mult_le_mono1 [of "i + 1" "ds_mirrors d" "ds_size d"] that
    by simp_all
  from cursor_slice.slice_write_in [OF inv assms(2,4)] obtain d' where
    d': "disk_slice_write cursor_ops buf d = (Inr (length buf), d')" "ds_offset d' = ds_offset d + length buf"
    and b': "cur_inner (ds_inner d') = ?b'"
    by (auto elim!: wp_no_errE)
  have len: "length ?b' = length ?b" by (rule length_splice_all) (use fit(1) assms(2) in fastforce)
  have "?b' ! n = ?b ! n"
    if n: "n < length ?b" "n < ds_begin d \<or> ds_begin d + ds_mirrors d * ds_size d \<le> n" for n
  proof -
    have "window n 1 ?b' = window n 1 ?b"
      by (rule window_splice_all_other) (use n fit assms(2) in fastforce)+
    then show ?thesis using n(1) len nth_window [of 0 1 n ?b] nth_window [of 0 1 n ?b'] by simp
  qed
  with d' b' len cursor_slice.slice_write_bytes [OF inv assms(2) b'] show ?thesis by auto
qed

theorem disk_slice_write_mirrors_in_sync_witness:
  "\<exists>d'. disk_slice_write cursor_ops [9] (disk_slice_new 1 2 2 \<lparr>cur_inner = [0, 1, 2, 1, 2, 0], cur_pos = 0\<rparr>) =
      (Inr 1, d') \<and> window 1 2 (cur_inner (ds_inner d')) = [9, 2] \<and>
      window 3 2 (cur_inner (ds_inner d')) = [9, 2] \<and> cur_inner (ds_inner d') ! 5 = 0"
proof -
  let ?d = "disk_slice_new 1 2 2 \<lparr>cur_inner = [0, 1, 2, 1, 2, 0], cur_pos = 0\<rparr>"
  have d: "ds_mirrors ?d = 2" "ds_offset ?d = 0" "ds_size ?d = 2" "ds_begin ?d = 1"
    "cur_inner (ds_inner ?d) = [0, 1, 2, 1, 2, 0]"
    by (simp_all add: disk_slice_new_def)
  from disk_slice_write_mirrors_in_sync [of ?d "[9]", unfolded d] obtain d' where
    d': "disk_slice_write cursor_ops [9] ?d = (Inr 1, d')" and
    m: "\<forall>j < 2. window (1 + j * 2) 2 (cur_inner (ds_inner d')) =
       splice 0 [9] (window (1 + j * 2) 2 [0, 1, 2, 1, 2, 0])" and
    o: "cur_inner (ds_inner d') ! 5 = 0"
    by auto
  from m [rule_format, of 0] m [rule_format, of 1] o d' show ?thesis
    by (auto simp: window_def splice_def numeral_3_eq_3)
qed

end
