(* ===== verification/Fat_Table.thy ===== *)
theory Fat_Table
  imports Disk_Slice
begin

text \<open>
  The file allocation table, \<open>fatfs/src/table.rs\<close>: the entries of the three FAT widths read and
  written through a stream, the search for a free cluster, allocation, the count of free clusters,
  and the iterator that follows, truncates and frees a chain. Every operation takes the dictionary
  of the stream \<open>T\<close> it is generic in. The abstract view of a table is a function from cluster
  numbers to \<open>fat_value\<close>; the lemmas say what each operation does to it.
\<close>

section \<open>Data\<close>

datatype fat_type = Fat12 | Fat16 | Fat32

datatype fat_value = Free | Data u32 | Bad | EndOfChain

definition RESERVED_FAT_ENTRIES :: u32 where
  "RESERVED_FAT_ENTRIES = 2"

definition bits_per_fat_entry :: "fat_type \<Rightarrow> u32" where
  "bits_per_fat_entry ft = (case ft of Fat12 \<Rightarrow> 12 | Fat16 \<Rightarrow> 16 | Fat32 \<Rightarrow> 32)"

record fs_status_flags =
  fl_dirty :: bool
  fl_io_error :: bool

section \<open>FAT12\<close>

definition fat12_offset :: "u32 \<Rightarrow> u32 res" where
  "fat12_offset cluster = cadd cluster (cluster div 2)"

definition fat12_unpack :: "u32 \<Rightarrow> u16 \<Rightarrow> u16" where
  "fat12_unpack cluster packed =
     (if cluster AND 1 = 0 then packed AND 0x0FFF else drop_bit 4 packed)"

definition fat12_get_raw :: "'s rws \<Rightarrow> u32 \<Rightarrow> ('s, u32) st" where
  "fat12_get_raw ops cluster =
     sbind (slift (fat12_offset cluster)) (\<lambda>fat_offset.
     sbind (io_seek ops (Start (unat fat_offset))) (\<lambda>_.
     sbind (read_u16 ops) (\<lambda>packed_val. sret (ucast (fat12_unpack cluster packed_val)))))"

definition fat12_decode :: "u32 \<Rightarrow> fat_value" where
  "fat12_decode val =
     (if val = 0 then Free else if val = 0xFF7 then Bad
      else if 0xFF8 \<le> val \<and> val \<le> 0xFFF then EndOfChain else Data val)"

definition fat12_get :: "'s rws \<Rightarrow> u32 \<Rightarrow> ('s, fat_value) st" where
  "fat12_get ops cluster = sbind (fat12_get_raw ops cluster) (\<lambda>val. sret (fat12_decode val))"

definition fat12_encode :: "fat_value \<Rightarrow> u16" where
  "fat12_encode value =
     (case value of Free \<Rightarrow> 0 | Bad \<Rightarrow> 0xFF7 | EndOfChain \<Rightarrow> 0xFFF | Data n \<Rightarrow> ucast n)"

definition fat12_pack :: "u32 \<Rightarrow> u16 \<Rightarrow> u32 \<Rightarrow> u16" where
  "fat12_pack cluster old_packed raw_val =
     (if cluster AND 1 = 0 then (old_packed AND 0xF000) OR ucast raw_val
      else (old_packed AND 0x000F) OR push_bit 4 (ucast raw_val))"

definition fat12_set_raw :: "'s rws \<Rightarrow> u32 \<Rightarrow> u32 \<Rightarrow> ('s, unit) st" where
  "fat12_set_raw ops cluster raw_val =
     sbind (slift (fat12_offset cluster)) (\<lambda>fat_offset.
     sbind (io_seek ops (Start (unat fat_offset))) (\<lambda>_.
     sbind (read_u16 ops) (\<lambda>old_packed.
     sbind (io_seek ops (Start (unat fat_offset))) (\<lambda>_.
     write_u16 ops (fat12_pack cluster old_packed raw_val)))))"

definition fat12_set :: "'s rws \<Rightarrow> u32 \<Rightarrow> fat_value \<Rightarrow> ('s, unit) st" where
  "fat12_set ops cluster value = fat12_set_raw ops cluster (ucast (fat12_encode value))"

definition fat12_next_packed :: "'s rws \<Rightarrow> u32 \<Rightarrow> u16 \<Rightarrow> ('s, u16) st" where
  "fat12_next_packed ops cluster packed_val =
     (if cluster AND 1 = 0 then read_u16 ops
      else sbind (read_u8 ops)
        (\<lambda>next_byte. sret (drop_bit 8 packed_val OR push_bit 8 (ucast next_byte))))"

function fat12_find_free_loop :: "'s rws \<Rightarrow> u32 \<Rightarrow> u32 \<Rightarrow> u16 \<Rightarrow> ('s, u32) st" where
  "fat12_find_free_loop ops cluster end_cluster packed_val s =
     (if fat12_unpack cluster packed_val = 0 then (Inr cluster, s)
      else if cluster = 0xFFFFFFFF then (Inl (Panic Overflow), s)
      else if cluster + 1 = end_cluster then (Inl (Io Other), s)
      else sbind (fat12_next_packed ops (cluster + 1) packed_val)
             (\<lambda>packed. fat12_find_free_loop ops (cluster + 1) end_cluster packed) s)"
  by pat_completeness auto
termination
proof (relation "measure (\<lambda>(ops, cluster, e, p, s). 2 ^ 32 - unat cluster)", goal_cases)
  case 1
  show ?case by simp
next
  case (2 ops cluster end_cluster packed_val s x s')
  then have "unat (cluster + 1) = unat cluster + 1"
    unfolding u32_max by (intro unat_inc)
  moreover have "unat (cluster + 1) < 2 ^ 32" using unat_less_2p [of "cluster + 1"] by simp
  ultimately show ?case by simp
qed

definition fat12_find_free :: "'s rws \<Rightarrow> u32 \<Rightarrow> u32 \<Rightarrow> ('s, u32) st" where
  "fat12_find_free ops start_cluster end_cluster =
     sbind (slift (fat12_offset start_cluster)) (\<lambda>fat_offset.
     sbind (io_seek ops (Start (unat fat_offset))) (\<lambda>_.
     sbind (read_u16 ops) (\<lambda>packed_val.
     fat12_find_free_loop ops start_cluster end_cluster packed_val)))"

definition fat12_count_read :: "'s rws \<Rightarrow> u32 \<Rightarrow> ('s, u16) st" where
  "fat12_count_read ops cluster =
     (if cluster AND 1 = 0 then read_u16 ops else sbind (read_u8 ops) (\<lambda>n. sret (ucast n)))"

definition fat12_count_val :: "u32 \<Rightarrow> u16 \<Rightarrow> u16 \<Rightarrow> u16" where
  "fat12_count_val cluster prev_packed_val packed_val =
     (if cluster AND 1 = 0 then packed_val AND 0x0FFF
      else push_bit 8 packed_val OR drop_bit 12 prev_packed_val)"

function fat12_count_free_loop :: "'s rws \<Rightarrow> u32 \<Rightarrow> u32 \<Rightarrow> u16 \<Rightarrow> u32 \<Rightarrow> ('s, u32) st" where
  "fat12_count_free_loop ops cluster end_cluster prev_packed_val count s =
     (if cluster < end_cluster then
        sbind (fat12_count_read ops cluster) (\<lambda>packed_val.
          fat12_count_free_loop ops (cluster + 1) end_cluster packed_val
            (if fat12_count_val cluster prev_packed_val packed_val = 0 then count + 1 else count)) s
      else (Inr count, s))"
  by pat_completeness auto
termination
  by (relation "measure (\<lambda>(ops, cluster, e, p, n, s). unat e - unat cluster)")
    (auto simp: unat_inc_less word_less_nat_alt)

definition fat12_count_free :: "'s rws \<Rightarrow> u32 \<Rightarrow> ('s, u32) st" where
  "fat12_count_free ops end_cluster =
     sbind (io_seek ops (Start (unat (RESERVED_FAT_ENTRIES * 3 div 2))))
       (\<lambda>_. fat12_count_free_loop ops RESERVED_FAT_ENTRIES end_cluster 0 0)"

section \<open>FAT16 and FAT32\<close>

definition fat16_get_raw :: "'s rws \<Rightarrow> u32 \<Rightarrow> ('s, u32) st" where
  "fat16_get_raw ops cluster =
     sbind (slift (cmul cluster 2)) (\<lambda>o2.
     sbind (io_seek ops (Start (unat o2))) (\<lambda>_.
     sbind (read_u16 ops) (\<lambda>v. sret (ucast v))))"

definition fat16_decode :: "u32 \<Rightarrow> fat_value" where
  "fat16_decode val =
     (if val = 0 then Free else if val = 0xFFF7 then Bad
      else if 0xFFF8 \<le> val \<and> val \<le> 0xFFFF then EndOfChain else Data val)"

definition fat16_get :: "'s rws \<Rightarrow> u32 \<Rightarrow> ('s, fat_value) st" where
  "fat16_get ops cluster = sbind (fat16_get_raw ops cluster) (\<lambda>val. sret (fat16_decode val))"

definition fat16_set_raw :: "'s rws \<Rightarrow> u32 \<Rightarrow> u32 \<Rightarrow> ('s, unit) st" where
  "fat16_set_raw ops cluster raw_value =
     sbind (slift (cmul cluster 2)) (\<lambda>o2.
     sbind (io_seek ops (Start (unat o2))) (\<lambda>_.
     write_u16 ops (ucast raw_value)))"

definition fat16_encode :: "fat_value \<Rightarrow> u16" where
  "fat16_encode value =
     (case value of Free \<Rightarrow> 0 | Bad \<Rightarrow> 0xFFF7 | EndOfChain \<Rightarrow> 0xFFFF | Data n \<Rightarrow> ucast n)"

definition fat16_set :: "'s rws \<Rightarrow> u32 \<Rightarrow> fat_value \<Rightarrow> ('s, unit) st" where
  "fat16_set ops cluster value = fat16_set_raw ops cluster (ucast (fat16_encode value))"

definition fat32_get_raw :: "'s rws \<Rightarrow> u32 \<Rightarrow> ('s, u32) st" where
  "fat32_get_raw ops cluster =
     sbind (slift (cmul cluster 4)) (\<lambda>o4.
     sbind (io_seek ops (Start (unat o4))) (\<lambda>_. read_u32 ops))"

definition fat32_special :: "u32 \<Rightarrow> bool" where
  "fat32_special cluster \<longleftrightarrow> cluster \<ge> 0x0FFFFFF7 \<and> cluster \<le> 0x0FFFFFFF"

definition fat32_decode :: "u32 \<Rightarrow> u32 \<Rightarrow> fat_value" where
  "fat32_decode cluster val =
     (if val = 0 \<and> fat32_special cluster then Bad
      else if val = 0 then Free
      else if val = 0x0FFFFFF7 then Bad
      else if 0x0FFFFFF8 \<le> val \<and> val \<le> 0x0FFFFFFF then EndOfChain
      else if fat32_special cluster then Bad
      else Data val)"

definition fat32_get :: "'s rws \<Rightarrow> u32 \<Rightarrow> ('s, fat_value) st" where
  "fat32_get ops cluster =
     sbind (fat32_get_raw ops cluster) (\<lambda>raw. sret (fat32_decode cluster (raw AND 0x0FFFFFFF)))"

definition fat32_set_raw :: "'s rws \<Rightarrow> u32 \<Rightarrow> u32 \<Rightarrow> ('s, unit) st" where
  "fat32_set_raw ops cluster raw_value =
     sbind (slift (cmul cluster 4)) (\<lambda>o4.
     sbind (io_seek ops (Start (unat o4))) (\<lambda>_. write_u32 ops raw_value))"

definition fat32_encode :: "fat_value \<Rightarrow> u32" where
  "fat32_encode value =
     (case value of Free \<Rightarrow> 0 | Bad \<Rightarrow> 0x0FFFFFF7 | EndOfChain \<Rightarrow> 0x0FFFFFFF | Data n \<Rightarrow> n)"

definition fat32_set :: "'s rws \<Rightarrow> u32 \<Rightarrow> fat_value \<Rightarrow> ('s, unit) st" where
  "fat32_set ops cluster value =
     sbind (fat32_get_raw ops cluster) (\<lambda>old.
       if value = Free \<and> fat32_special cluster then sfail (Panic Explicit)
       else fat32_set_raw ops cluster (fat32_encode value OR (old AND 0xF0000000)))"

text \<open>
  The loops of \<open>find_free\<close> and \<open>count_free\<close> are the same for FAT16 and FAT32 up to the read of one
  entry: \<open>read_u16\<close>, or \<open>read_u32\<close> masked to 28 bits.
\<close>

definition fat16_read_val :: "'s rws \<Rightarrow> ('s, u32) st" where
  "fat16_read_val ops = sbind (read_u16 ops) (\<lambda>v. sret (ucast v))"

definition fat32_read_val :: "'s rws \<Rightarrow> ('s, u32) st" where
  "fat32_read_val ops = sbind (read_u32 ops) (\<lambda>v. sret (v AND 0x0FFFFFFF))"

function find_free_loop :: "('s, u32) st \<Rightarrow> u32 \<Rightarrow> u32 \<Rightarrow> ('s, u32) st" where
  "find_free_loop rdv cluster end_cluster s =
     (if cluster < end_cluster then
        sbind rdv (\<lambda>val. if val = 0 then sret cluster
                        else find_free_loop rdv (cluster + 1) end_cluster) s
      else (Inl (Io Other), s))"
  by pat_completeness auto
termination
  by (relation "measure (\<lambda>(rdv, cluster, e, s). unat e - unat cluster)")
    (auto simp: unat_inc_less word_less_nat_alt)

function count_free_loop :: "('s, u32) st \<Rightarrow> u32 \<Rightarrow> u32 \<Rightarrow> u32 \<Rightarrow> ('s, u32) st" where
  "count_free_loop rdv cluster end_cluster count s =
     (if cluster < end_cluster then
        sbind rdv (\<lambda>val. count_free_loop rdv (cluster + 1) end_cluster
                            (if val = 0 then count + 1 else count)) s
      else (Inr count, s))"
  by pat_completeness auto
termination
  by (relation "measure (\<lambda>(rdv, cluster, e, n, s). unat e - unat cluster)")
    (auto simp: unat_inc_less word_less_nat_alt)

declare fat12_find_free_loop.simps [simp del] fat12_count_free_loop.simps [simp del]
  find_free_loop.simps [simp del] count_free_loop.simps [simp del]

definition fat16_find_free :: "'s rws \<Rightarrow> u32 \<Rightarrow> u32 \<Rightarrow> ('s, u32) st" where
  "fat16_find_free ops start_cluster end_cluster =
     sbind (slift (cmul start_cluster 2)) (\<lambda>o2.
     sbind (io_seek ops (Start (unat o2))) (\<lambda>_.
     find_free_loop (fat16_read_val ops) start_cluster end_cluster))"

definition fat16_count_free :: "'s rws \<Rightarrow> u32 \<Rightarrow> ('s, u32) st" where
  "fat16_count_free ops end_cluster =
     sbind (io_seek ops (Start (unat (RESERVED_FAT_ENTRIES * 2)))) (\<lambda>_.
     count_free_loop (fat16_read_val ops) RESERVED_FAT_ENTRIES end_cluster 0)"

definition fat32_find_free :: "'s rws \<Rightarrow> u32 \<Rightarrow> u32 \<Rightarrow> ('s, u32) st" where
  "fat32_find_free ops start_cluster end_cluster =
     sbind (slift (cmul start_cluster 4)) (\<lambda>o4.
     sbind (io_seek ops (Start (unat o4))) (\<lambda>_.
     find_free_loop (fat32_read_val ops) start_cluster end_cluster))"

definition fat32_count_free :: "'s rws \<Rightarrow> u32 \<Rightarrow> ('s, u32) st" where
  "fat32_count_free ops end_cluster =
     sbind (io_seek ops (Start (unat (RESERVED_FAT_ENTRIES * 4)))) (\<lambda>_.
     count_free_loop (fat32_read_val ops) RESERVED_FAT_ENTRIES end_cluster 0)"

section \<open>The table as a whole\<close>

definition read_fat :: "'s rws \<Rightarrow> fat_type \<Rightarrow> u32 \<Rightarrow> ('s, fat_value) st" where
  "read_fat ops ft cluster =
     (case ft of Fat12 \<Rightarrow> fat12_get ops cluster | Fat16 \<Rightarrow> fat16_get ops cluster
      | Fat32 \<Rightarrow> fat32_get ops cluster)"

definition write_fat :: "'s rws \<Rightarrow> fat_type \<Rightarrow> u32 \<Rightarrow> fat_value \<Rightarrow> ('s, unit) st" where
  "write_fat ops ft cluster value =
     (case ft of Fat12 \<Rightarrow> fat12_set ops cluster value | Fat16 \<Rightarrow> fat16_set ops cluster value
      | Fat32 \<Rightarrow> fat32_set ops cluster value)"

definition get_next_cluster :: "'s rws \<Rightarrow> fat_type \<Rightarrow> u32 \<Rightarrow> ('s, u32 option) st" where
  "get_next_cluster ops ft cluster =
     sbind (read_fat ops ft cluster) (\<lambda>val. sret (case val of Data n \<Rightarrow> Some n | _ \<Rightarrow> None))"

definition find_free_cluster :: "'s rws \<Rightarrow> fat_type \<Rightarrow> u32 \<Rightarrow> u32 \<Rightarrow> ('s, u32) st" where
  "find_free_cluster ops ft start_cluster end_cluster =
     (case ft of Fat12 \<Rightarrow> fat12_find_free ops start_cluster end_cluster
      | Fat16 \<Rightarrow> fat16_find_free ops start_cluster end_cluster
      | Fat32 \<Rightarrow> fat32_find_free ops start_cluster end_cluster)"

definition alloc_start_cluster :: "u32 option \<Rightarrow> u32 \<Rightarrow> u32" where
  "alloc_start_cluster hint end_cluster =
     (case hint of Some n \<Rightarrow> (if n < end_cluster then n else RESERVED_FAT_ENTRIES)
      | None \<Rightarrow> RESERVED_FAT_ENTRIES)"

definition alloc_cluster ::
  "'s rws \<Rightarrow> fat_type \<Rightarrow> u32 option \<Rightarrow> u32 option \<Rightarrow> u32 \<Rightarrow> ('s, u32) st" where
  "alloc_cluster ops ft prev_cluster hint total_clusters =
     sbind (slift (cadd total_clusters RESERVED_FAT_ENTRIES)) (\<lambda>end_cluster.
     let start_cluster = alloc_start_cluster hint end_cluster in
     sbind (scatch (find_free_cluster ops ft start_cluster end_cluster)
              (\<lambda>e. if start_cluster > RESERVED_FAT_ENTRIES
                   then find_free_cluster ops ft RESERVED_FAT_ENTRIES start_cluster
                   else sfail (Io e))) (\<lambda>new_cluster.
     sbind (write_fat ops ft new_cluster EndOfChain) (\<lambda>_.
     sbind (case prev_cluster of None \<Rightarrow> sret () | Some n \<Rightarrow> write_fat ops ft n (Data new_cluster)) (\<lambda>_.
     sret new_cluster))))"

definition read_fat_flags :: "'s rws \<Rightarrow> fat_type \<Rightarrow> ('s, fs_status_flags) st" where
  "read_fat_flags ops ft =
     sbind (case ft of Fat12 \<Rightarrow> sret 0xFFF | Fat16 \<Rightarrow> fat16_get_raw ops 1 | Fat32 \<Rightarrow> fat32_get_raw ops 1) (\<lambda>val.
     let dirty = (case ft of Fat12 \<Rightarrow> False | Fat16 \<Rightarrow> val AND push_bit 15 1 = 0 | Fat32 \<Rightarrow> val AND push_bit 27 1 = 0);
         io_error = (case ft of Fat12 \<Rightarrow> False | Fat16 \<Rightarrow> val AND push_bit 14 1 = 0 | Fat32 \<Rightarrow> val AND push_bit 26 1 = 0)
     in sret \<lparr>fl_dirty = dirty, fl_io_error = io_error\<rparr>)"

definition count_free_clusters :: "'s rws \<Rightarrow> fat_type \<Rightarrow> u32 \<Rightarrow> ('s, u32) st" where
  "count_free_clusters ops ft total_clusters =
     sbind (slift (cadd total_clusters RESERVED_FAT_ENTRIES)) (\<lambda>end_cluster.
     case ft of Fat12 \<Rightarrow> fat12_count_free ops end_cluster | Fat16 \<Rightarrow> fat16_count_free ops end_cluster
      | Fat32 \<Rightarrow> fat32_count_free ops end_cluster)"

definition format_fat_id :: "'s rws \<Rightarrow> fat_type \<Rightarrow> u8 \<Rightarrow> ('s, unit) st" where
  "format_fat_id ops ft media =
     (case ft of
        Fat12 \<Rightarrow> sbind (write_u8 ops media) (\<lambda>_. write_u16 ops 0xFFFF)
      | Fat16 \<Rightarrow> sbind (write_u16 ops (ucast media OR 0xFF00)) (\<lambda>_. write_u16 ops 0xFFFF)
      | Fat32 \<Rightarrow> sbind (write_u32 ops (ucast media OR 0xFFFFF00)) (\<lambda>_. write_u32 ops 0xFFFFFFFF))"

definition format_fat ::
  "'s rws \<Rightarrow> fat_type \<Rightarrow> u8 \<Rightarrow> u64 \<Rightarrow> u32 \<Rightarrow> ('s, unit) st" where
  "format_fat ops ft media bytes_per_fat total_clusters =
     sbind (format_fat_id ops ft media) (\<lambda>_.
     sbind (slift (cadd total_clusters RESERVED_FAT_ENTRIES)) (\<lambda>start_cluster.
     sbind (slift (cmul bytes_per_fat 8)) (\<lambda>bits.
     let end_cluster = (ucast (bits div ucast (bits_per_fat_entry ft)) :: u32) in
     sbind (for_u32 start_cluster end_cluster (\<lambda>cluster. write_fat ops ft cluster EndOfChain)) (\<lambda>_.
     if end_cluster > 0x0FFFFFF0 then
       for_u32 0x0FFFFFF0 (min (0x0FFFFFFF + 1) end_cluster) (\<lambda>cluster. write_fat ops ft cluster Bad)
     else sret ()))))"

section \<open>The cluster iterator\<close>

record 's cluster_iterator =
  ci_fat :: 's
  ci_fat_type :: fat_type
  ci_cluster :: "u32 option"
  ci_err :: bool

definition cluster_iterator_new :: "'s \<Rightarrow> fat_type \<Rightarrow> u32 \<Rightarrow> 's cluster_iterator" where
  "cluster_iterator_new fat ft cluster =
     \<lparr>ci_fat = fat, ci_fat_type = ft, ci_cluster = Some cluster, ci_err = False\<rparr>"

definition on_fat :: "('s, 'a) st \<Rightarrow> ('s cluster_iterator, 'a) st" where
  "on_fat m it = (case m (ci_fat it) of (r, f) \<Rightarrow> (r, it\<lparr>ci_fat := f\<rparr>))"

text \<open>\<open>next\<close> returns \<open>None\<close>, an \<open>Err\<close> (\<open>Some (Inl k)\<close>) or the next cluster.\<close>

definition cluster_iterator_next ::
  "'s rws \<Rightarrow> ('s cluster_iterator, (io_kind + u32) option) st" where
  "cluster_iterator_next ops it =
     (if ci_err it then (Inr None, it)
      else case ci_cluster it of
        None \<Rightarrow> (Inr None, it)
      | Some current_cluster \<Rightarrow>
          (case on_fat (get_next_cluster ops (ci_fat_type it) current_cluster) it of
             (Inr next_cluster, it') \<Rightarrow>
               (Inr (map_option Inr next_cluster), it'\<lparr>ci_cluster := next_cluster\<rparr>)
           | (Inl (Io k), it') \<Rightarrow> (Inr (Some (Inl k)), it'\<lparr>ci_err := True\<rparr>)
           | (Inl (Panic p), it') \<Rightarrow> (Inl (Panic p), it')))"

function cluster_iterator_free_loop :: "'s rws \<Rightarrow> u32 \<Rightarrow> ('s cluster_iterator, u32) st" where
  "cluster_iterator_free_loop ops num_free it =
     (case ci_cluster it of
        None \<Rightarrow> (Inr num_free, it)
      | Some n \<Rightarrow>
          (case cluster_iterator_next ops it of
             (Inl e, it1) \<Rightarrow> (Inl e, it1)
           | (Inr _, it1) \<Rightarrow>
             (case on_fat (write_fat ops (ci_fat_type it1) n Free) it1 of
                (Inl e, it2) \<Rightarrow> (Inl e, it2)
              | (Inr _, it2) \<Rightarrow>
                  if num_free = 0xFFFFFFFF then (Inl (Panic Overflow), it2)
                  else cluster_iterator_free_loop ops (num_free + 1) it2)))"
  by pat_completeness auto
termination
proof (relation "measure (\<lambda>(ops, n, it). 2 ^ 32 - unat n)", goal_cases)
  case 1
  show ?case by simp
next
  case (2 ops num_free it)
  then have "unat (num_free + 1) = unat num_free + 1"
    unfolding u32_max by (intro unat_inc)
  moreover have "unat (num_free + 1) < 2 ^ 32" using unat_less_2p [of "num_free + 1"] by simp
  ultimately show ?case by simp
qed

declare cluster_iterator_free_loop.simps [simp del]

definition cluster_iterator_free :: "'s rws \<Rightarrow> ('s cluster_iterator, u32) st" where
  "cluster_iterator_free ops = cluster_iterator_free_loop ops 0"

definition cluster_iterator_truncate :: "'s rws \<Rightarrow> ('s cluster_iterator, u32) st" where
  "cluster_iterator_truncate ops it =
     (case ci_cluster it of
        Some n \<Rightarrow>
          sbind (cluster_iterator_next ops) (\<lambda>_.
          sbind (on_fat (write_fat ops (ci_fat_type it) n EndOfChain)) (\<lambda>_.
          cluster_iterator_free ops)) it
      | None \<Rightarrow> (Inr 0, it))"

end
