(* ===== verification/Fat_Spec.thy ===== *)
theory Fat_Spec
  imports Fat_Table
begin

text \<open>
  What the operations of \<open>fatfs/src/table.rs\<close> do to the table seen as a function from cluster
  numbers to \<open>fat_value\<close>. \<open>fat_entry ft b c\<close> is the value of entry \<open>c\<close> in the bytes \<open>b\<close> of a table;
  reading is application of this function, writing is its update, and the searches, the allocation
  and the chain operations are functions of it. The lemmas are proved for every stream that
  fulfils the contract \<open>byte_stream\<close> and so hold for a cursor and for a mirrored slice of one.
\<close>

unbundle bit_operations_syntax

section \<open>The table as a function\<close>

definition ent_off :: "fat_type \<Rightarrow> nat \<Rightarrow> nat" where
  "ent_off ft c = (case ft of Fat12 \<Rightarrow> c + c div 2 | Fat16 \<Rightarrow> 2 * c | Fat32 \<Rightarrow> 4 * c)"

definition ent_size :: "fat_type \<Rightarrow> nat" where
  "ent_size ft = (case ft of Fat12 \<Rightarrow> 2 | Fat16 \<Rightarrow> 2 | Fat32 \<Rightarrow> 4)"

definition fat_limit :: "fat_type \<Rightarrow> nat" where
  "fat_limit ft = (case ft of Fat12 \<Rightarrow> 0xFF7 | Fat16 \<Rightarrow> 0xFFF7 | Fat32 \<Rightarrow> 0x0FFFFFF7)"

definition fat_raw :: "fat_type \<Rightarrow> u8 list \<Rightarrow> nat \<Rightarrow> u32" where
  "fat_raw ft b c =
     (case ft of
        Fat12 \<Rightarrow> ucast (fat12_unpack (of_nat c) (of_le16 (window (c + c div 2) 2 b)))
      | Fat16 \<Rightarrow> ucast (of_le16 (window (2 * c) 2 b))
      | Fat32 \<Rightarrow> of_le32 (window (4 * c) 4 b) AND 0x0FFFFFFF)"

definition fat_entry :: "fat_type \<Rightarrow> u8 list \<Rightarrow> nat \<Rightarrow> fat_value" where
  "fat_entry ft b c =
     (case ft of Fat12 \<Rightarrow> fat12_decode (fat_raw ft b c) | Fat16 \<Rightarrow> fat16_decode (fat_raw ft b c)
      | Fat32 \<Rightarrow> fat32_decode (of_nat c) (fat_raw ft b c))"

text \<open>The first \<open>N\<close> entries lie in the bytes of the table, and \<open>N\<close> is below the reserved values.\<close>

definition fat_fits :: "fat_type \<Rightarrow> u8 list \<Rightarrow> nat \<Rightarrow> bool" where
  "fat_fits ft b N \<longleftrightarrow> N \<le> fat_limit ft \<and>
     (case ft of Fat12 \<Rightarrow> N + (N + 1) div 2 \<le> length b | Fat16 \<Rightarrow> 2 * N \<le> length b
      | Fat32 \<Rightarrow> 4 * N \<le> length b)"

definition value_fits :: "fat_type \<Rightarrow> fat_value \<Rightarrow> bool" where
  "value_fits ft v \<longleftrightarrow> (case v of Data n \<Rightarrow> 0 < unat n \<and> unat n < fat_limit ft | _ \<Rightarrow> True)"

definition fat_update :: "fat_type \<Rightarrow> nat \<Rightarrow> nat \<Rightarrow> fat_value \<Rightarrow> u8 list \<Rightarrow> u8 list \<Rightarrow> bool" where
  "fat_update ft N c v b b' \<longleftrightarrow> length b' = length b \<and>
     (\<forall>d < N. fat_entry ft b' d = (if d = c then v else fat_entry ft b d))"

lemma fat_fits_entry:
  assumes "fat_fits ft b N" "c < N"
  shows "ent_off ft c + ent_size ft \<le> length b" "c < 0x0FFFFFF7"
    "ft = Fat12 \<Longrightarrow> c + c div 2 + 2 \<le> length b"
    "ft = Fat16 \<Longrightarrow> 2 * c + 2 \<le> length b" "ft = Fat32 \<Longrightarrow> 4 * c + 4 \<le> length b"
  using assms by (auto simp: fat_fits_def ent_off_def ent_size_def fat_limit_def split: fat_type.splits)

lemma fat_fits_mono: "fat_fits ft b N \<Longrightarrow> M \<le> N \<Longrightarrow> fat_fits ft b M"
  by (cases ft) (auto simp: fat_fits_def intro: le_trans [rotated])

lemma fat_fits_length: "length b' = length b \<Longrightarrow> fat_fits ft b' N = fat_fits ft b N"
  by (cases ft) (auto simp: fat_fits_def)

section \<open>Encoding and packing of entries\<close>

lemma ucast_ucast_u16: "unat n < 0x10000 \<Longrightarrow> ucast (ucast n :: u16) = (n :: u32)"
  by (simp add: word_unat_eq_iff unat_ucast)

lemma fat12_decode_encode:
  "value_fits Fat12 v \<Longrightarrow> fat12_decode (ucast (fat12_encode v)) = v"
  by (cases v) (simp_all add: value_fits_def fat_limit_def fat12_decode_def fat12_encode_def
      ucast_ucast_u16 word_unat_eq_iff word_le_nat_alt)

lemma fat16_decode_encode:
  "value_fits Fat16 v \<Longrightarrow> fat16_decode (ucast (fat16_encode v)) = v"
  by (cases v) (simp_all add: value_fits_def fat_limit_def fat16_decode_def fat16_encode_def
      ucast_ucast_u16 word_unat_eq_iff word_le_nat_alt)

lemma fat12_encode_le: "value_fits Fat12 v \<Longrightarrow> take_bit 12 (fat12_encode v) = fat12_encode v"
  by (cases v) (simp_all add: value_fits_def fat_limit_def fat12_encode_def take_bit_eq_mod
      word_unat_eq_iff unat_ucast unat_mod)

lemma fat32_decode_encode:
  assumes "value_fits Fat32 v" "unat c < 0x0FFFFFF7"
  shows "fat32_decode c ((fat32_encode v OR (old AND 0xF0000000)) AND 0x0FFFFFFF) = v"
proof -
  have "(0xF0000000 :: u32) AND 0x0FFFFFFF = 0" by simp
  then have "(fat32_encode v OR (old AND 0xF0000000)) AND 0x0FFFFFFF = fat32_encode v AND mask 28"
    by (simp add: bit.conj_disj_distrib2 and.assoc mask_eq_exp_minus_1)
  also have "\<dots> = fat32_encode v"
    using assms(1) by (cases v) (simp_all add: value_fits_def fat_limit_def fat32_encode_def
      word_unat_eq_iff unat_mod take_bit_eq_mod flip: take_bit_eq_mask)
  also have "fat32_decode c \<dots> = v"
    using assms by (cases v) (simp_all add: value_fits_def fat_limit_def fat32_encode_def fat32_decode_def
      fat32_special_def word_unat_eq_iff word_le_nat_alt)
  finally show ?thesis .
qed

lemma fat12_masks:
  "(0xF000 :: u16) = NOT (mask 12)" "(0x0FFF :: u16) = mask 12" "(0x000F :: u16) = mask 4"
  by (simp_all add: mask_eq_exp_minus_1)

lemma take_bit_imp_less: "take_bit n v = v \<Longrightarrow> bit v i \<Longrightarrow> i < n" for v :: "'a::len word"
  by (metis bit_take_bit_iff)

lemma fat12_unpack_pack:
  "take_bit 12 v = v \<Longrightarrow> fat12_unpack c (fat12_pack c old (ucast v)) = v"
  unfolding fat12_unpack_def fat12_pack_def fat12_masks
  by (rule bit_word_eqI) (auto simp: bit_simps dest: take_bit_imp_less)

text \<open>Two neighbouring entries share a byte: writing one keeps the half of the other.\<close>

lemma fat12_pack_next:
  assumes "take_bit 12 v = v" "c AND 1 = 0"
  shows "drop_bit 4 (of_le16 [ucast (drop_bit 8 (fat12_pack c (of_le16 [x, y]) (ucast v))), z]) =
    drop_bit 4 (of_le16 [y, z])"
  using assms unfolding fat12_pack_def fat12_masks of_le16_def
  by (intro bit_word_eqI) (auto simp: bit_simps dest: take_bit_imp_less bit_imp_le_length)

lemma fat12_pack_prev:
  assumes "c AND 1 \<noteq> 0"
  shows "of_le16 [x, ucast (fat12_pack c (of_le16 [y, z]) (ucast v))] AND 0x0FFF =
    of_le16 [x, y] AND 0x0FFF"
  using assms unfolding fat12_pack_def fat12_masks of_le16_def
  by (intro bit_word_eqI) (auto simp: bit_simps)

section \<open>Reading and writing one entry\<close>

lemma fat12_offset_ok: "unat c < 0xFF7 \<Longrightarrow> fat12_offset c = Inr (c + c div 2) \<and> unat (c + c div 2) = unat c + unat c div 2"
  by (simp add: fat12_offset_def cadd_Inr unat_word_ariths unat_div)

lemma cmul_ok: "unat c * unat k < 2 ^ 32 \<Longrightarrow> cmul c k = Inr (c * k)" for c k :: u32
  by (simp add: cmul_Inr)

lemma window_2: "n + 2 \<le> length b \<Longrightarrow> window n 2 b = [b ! n, b ! (n + 1)]"
  by (rule nth_equalityI) (auto simp: less_Suc_eq numeral_2_eq_2)

text \<open>The bytes of the table after entry \<open>c\<close> is set.\<close>

definition fat_set_bytes :: "fat_type \<Rightarrow> nat \<Rightarrow> fat_value \<Rightarrow> u8 list \<Rightarrow> u8 list" where
  "fat_set_bytes ft c v b =
     (case ft of
        Fat12 \<Rightarrow> splice (c + c div 2)
          (le16 (fat12_pack (of_nat c) (of_le16 (window (c + c div 2) 2 b)) (ucast (fat12_encode v)))) b
      | Fat16 \<Rightarrow> splice (2 * c) (le16 (fat16_encode v)) b
      | Fat32 \<Rightarrow> splice (4 * c)
          (le32 (fat32_encode v OR (of_le32 (window (4 * c) 4 b) AND 0xF0000000))) b)"

lemma fat12_raw_even:
  assumes "c < 0xFF7" "even c" "c + c div 2 + 2 \<le> length b"
  shows "fat_raw Fat12 b c = ucast (of_le16 [b ! (c + c div 2), b ! (c + c div 2 + 1)] AND 0x0FFF)"
  using assms by (simp add: fat_raw_def fat12_unpack_def even_word_and_1 unat_of_nat window_2)

lemma fat12_raw_odd:
  assumes "c < 0xFF7" "odd c" "c + c div 2 + 2 \<le> length b"
  shows "fat_raw Fat12 b c = ucast (drop_bit 4 (of_le16 [b ! (c + c div 2), b ! (c + c div 2 + 1)]))"
  using assms by (simp add: fat_raw_def fat12_unpack_def even_word_and_1 unat_of_nat window_2)

lemma fat12_set_same:
  assumes "fat_fits Fat12 b N" "c < N" "value_fits Fat12 v"
  shows "fat_entry Fat12 (fat_set_bytes Fat12 c v b) c = v"
  using assms fat_fits_entry(3) [OF assms(1,2)]
  by (simp add: fat_entry_def fat_raw_def fat_set_bytes_def fat12_unpack_pack fat12_encode_le
      fat12_decode_encode)

lemma fat12_set_next:
  assumes "fat_fits Fat12 b N" "c + 1 < N" "value_fits Fat12 v" "even c"
  shows "fat_raw Fat12 (fat_set_bytes Fat12 c v b) (c + 1) = fat_raw Fat12 b (c + 1)"
proof -
  let ?o = "c + c div 2" and ?b' = "fat_set_bytes Fat12 c v b"
  have fit: "?o + 3 \<le> length b" "c + 1 < 0xFF7"
    using assms fat_fits_entry(3) [OF assms(1,2)] by (auto simp: fat_fits_def fat_limit_def)
  have o1: "c + 1 + (c + 1) div 2 = ?o + 1" using \<open>even c\<close> by simp
  have nth: "?b' ! (?o + 1) = ucast (drop_bit 8 (fat12_pack (of_nat c) (of_le16 [b ! ?o, b ! (?o + 1)])
      (ucast (fat12_encode v))))" "?b' ! (?o + 2) = b ! (?o + 2)"
    using fit by (simp_all add: fat_set_bytes_def nth_splice window_2 le16_def)
  have ev: "(of_nat c :: u32) AND 1 = 0"
    using fit \<open>even c\<close> by (simp add: even_word_and_1 unat_of_nat)
  have len: "length ?b' = length b" using fit by (simp add: fat_set_bytes_def)
  have r: "fat_raw Fat12 x (c + 1) = ucast (drop_bit 4 (of_le16 [x ! (?o + 1), x ! (?o + 2)]))"
    if "length x = length b" for x
    using that fat12_raw_odd [of "c + 1" x] fit \<open>even c\<close> unfolding o1 by simp
  show ?thesis
    unfolding r [OF len] r [OF refl] nth fat12_pack_next [OF fat12_encode_le [OF assms(3)] ev] ..
qed

lemma fat12_set_prev:
  assumes "fat_fits Fat12 b N" "c < N" "odd c"
  shows "fat_raw Fat12 (fat_set_bytes Fat12 c v b) (c - 1) = fat_raw Fat12 b (c - 1)"
proof -
  from \<open>odd c\<close> have "0 < c" by (rule odd_pos)
  define p where "p = c - 1 + (c - 1) div 2"
  have o1: "c + c div 2 = p + 1" using \<open>odd c\<close> unfolding p_def by (auto elim!: oddE)
  let ?b' = "fat_set_bytes Fat12 c v b"
  have fit: "p + 3 \<le> length b" "c < 0xFF7"
    using assms fat_fits_entry(3) [OF assms(1,2)] o1 by (auto simp: fat_fits_def fat_limit_def)
  have nth: "?b' ! (p + 1) = ucast (fat12_pack (of_nat c) (of_le16 [b ! (p + 1), b ! (p + 2)])
      (ucast (fat12_encode v)))" "?b' ! p = b ! p"
    using fit unfolding fat_set_bytes_def o1 by (simp_all add: nth_splice window_2 le16_def)
  have odd: "(of_nat c :: u32) AND 1 \<noteq> 0"
    using fit \<open>odd c\<close> by (simp add: even_word_and_1 unat_of_nat)
  have len: "length ?b' = length b" using fit unfolding fat_set_bytes_def o1 by simp
  have r: "fat_raw Fat12 x (c - 1) = ucast (of_le16 [x ! p, x ! (p + 1)] AND 0x0FFF)"
    if "length x = length b" for x
    using that fat12_raw_even [of "c - 1" x] fit \<open>odd c\<close> unfolding p_def by simp
  show ?thesis
    unfolding r [OF len] r [OF refl] nth fat12_pack_prev [OF odd] ..
qed

lemma fat12_set_far:
  assumes "fat_fits Fat12 b N" "c < N" "d < N" "d \<noteq> c"
    and "\<not> (even c \<and> d = c + 1)" "\<not> (odd c \<and> d = c - 1)"
  shows "fat_raw Fat12 (fat_set_bytes Fat12 c v b) d = fat_raw Fat12 b d"
proof -
  have "d + d div 2 + 2 \<le> c + c div 2 \<or> c + c div 2 + 2 \<le> d + d div 2"
  proof (cases "d < c")
    case True
    with assms(6) have "d + 1 < c \<or> (d + 1 = c \<and> even c)" by auto
    then show ?thesis by (auto elim!: evenE)
  next
    case False
    with assms(4,5) have "c + 1 < d \<or> (d = c + 1 \<and> odd c)" by auto
    then show ?thesis by (auto elim!: oddE)
  qed
  then show ?thesis
    using fat_fits_entry(3) [OF assms(1,2)] fat_fits_entry(3) [OF assms(1,3)]
    by (simp add: fat_raw_def fat_set_bytes_def window_splice_disjoint)
qed

lemma length_fat_set_bytes [simp]:
  "fat_fits ft b N \<Longrightarrow> c < N \<Longrightarrow> length (fat_set_bytes ft c v b) = length b"
  using fat_fits_entry [of ft b N c] by (cases ft) (auto simp: fat_set_bytes_def)

lemma fat_fits_set_bytes:
  "fat_fits ft b N \<Longrightarrow> c < N \<Longrightarrow> fat_fits ft (fat_set_bytes ft c v b) N"
  using fat_fits_length [OF length_fat_set_bytes] by blast

lemma fat_set_other:
  assumes "fat_fits ft b N" "c < N" "d < N" "d \<noteq> c" "value_fits ft v"
  shows "fat_raw ft (fat_set_bytes ft c v b) d = fat_raw ft b d"
proof (cases ft)
  case Fat12
  consider "even c" "d = c + 1" | "odd c" "d = c - 1" | "\<not> (even c \<and> d = c + 1)" "\<not> (odd c \<and> d = c - 1)"
    by blast
  then show ?thesis
    using assms unfolding Fat12
    by cases (simp_all only: fat12_set_next fat12_set_prev fat12_set_far not_False_eq_True)
next
  case Fat16
  have "2 * d + 2 \<le> 2 * c \<or> 2 * c + 2 \<le> 2 * d" using \<open>d \<noteq> c\<close> by arith
  with Fat16 fat_fits_entry(4) [OF assms(1,2)] fat_fits_entry(4) [OF assms(1,3)] show ?thesis
    by (simp add: fat_raw_def fat_set_bytes_def window_splice_disjoint)
next
  case Fat32
  have "4 * d + 4 \<le> 4 * c \<or> 4 * c + 4 \<le> 4 * d" using \<open>d \<noteq> c\<close> by arith
  with Fat32 fat_fits_entry(5) [OF assms(1,2)] fat_fits_entry(5) [OF assms(1,3)] show ?thesis
    by (simp add: fat_raw_def fat_set_bytes_def window_splice_disjoint)
qed

lemma fat_set_same:
  assumes "fat_fits ft b N" "c < N" "value_fits ft v"
  shows "fat_entry ft (fat_set_bytes ft c v b) c = v"
proof (cases ft)
  case Fat12
  with assms show ?thesis by (simp add: fat12_set_same)
next
  case Fat16
  with assms fat_fits_entry(4) [OF assms(1,2)] show ?thesis
    by (simp add: fat_entry_def fat_raw_def fat_set_bytes_def fat16_decode_encode)
next
  case Fat32
  with assms fat_fits_entry(2,5) [OF assms(1,2)] show ?thesis
    by (simp add: fat_entry_def fat_raw_def fat_set_bytes_def fat32_decode_encode unat_of_nat)
qed

lemma fat_set_bytes_update:
  assumes "fat_fits ft b N" "c < N" "value_fits ft v"
  shows "fat_update ft N c v b (fat_set_bytes ft c v b)"
  unfolding fat_update_def
  using assms fat_set_same [OF assms] fat_set_other [OF assms(1,2) _ _ assms(3)]
  by (auto simp: fat_entry_def split: fat_type.splits)

context byte_stream
begin

lemma fat12_get_raw_wp:
  assumes "holds b p s" "fat_fits Fat12 b N" "unat c < N"
    and "\<And>s' p'. holds b p' s' \<Longrightarrow> Q (fat_raw Fat12 b (unat c)) s'"
  shows "wp (fat12_get_raw ops c) Q E s"
proof -
  have o: "fat12_offset c = Inr (c + c div 2)" "unat (c + c div 2) = unat c + unat c div 2"
    using assms(2,3) fat12_offset_ok [of c] by (auto simp: fat_fits_def fat_limit_def)
  have fit: "unat c + unat c div 2 + 2 \<le> length b" using fat_fits_entry(3) [OF assms(2,3)] by simp
  show ?thesis
    unfolding fat12_get_raw_def o wp_sbind wp_slift_Inr
    by (rule seek_wp [OF assms(1)], use fit in simp, rule read_u16_wp, assumption, use fit in simp)
      (use assms(4) in \<open>simp add: fat_raw_def\<close>)
qed

lemma fat16_get_raw_wp:
  assumes "holds b p s" "fat_fits Fat16 b N" "unat c < N"
    and "\<And>s' p'. holds b p' s' \<Longrightarrow> Q (fat_raw Fat16 b (unat c)) s'"
  shows "wp (fat16_get_raw ops c) Q E s"
proof -
  have fit: "2 * unat c + 2 \<le> length b" and lim: "unat c < 0xFFF7"
    using fat_fits_entry(4) [OF assms(2,3)] assms(2,3) by (auto simp: fat_fits_def fat_limit_def)
  then have o: "cmul c 2 = Inr (c * 2)" "unat (c * 2) = 2 * unat c"
    by (simp_all add: cmul_Inr unat_mult_noof)
  show ?thesis
    unfolding fat16_get_raw_def o wp_sbind wp_slift_Inr
    by (rule seek_wp [OF assms(1)], use fit in simp, rule read_u16_wp, assumption, use fit in simp)
      (use assms(4) in \<open>simp add: fat_raw_def\<close>)
qed

lemma fat32_get_raw_wp:
  assumes "holds b p s" "fat_fits Fat32 b N" "unat c < N"
    and "\<And>s' p'. holds b p' s' \<Longrightarrow> Q (of_le32 (window (4 * unat c) 4 b)) s'"
  shows "wp (fat32_get_raw ops c) Q E s"
proof -
  have fit: "4 * unat c + 4 \<le> length b" and lim: "unat c < 0x0FFFFFF7"
    using fat_fits_entry(5) [OF assms(2,3)] assms(2,3) by (auto simp: fat_fits_def fat_limit_def)
  then have o: "cmul c 4 = Inr (c * 4)" "unat (c * 4) = 4 * unat c"
    by (simp_all add: cmul_Inr unat_mult_noof)
  show ?thesis
    unfolding fat32_get_raw_def o wp_sbind wp_slift_Inr
    by (rule seek_wp [OF assms(1)], use fit in simp, rule read_u32_wp, assumption, use fit in simp)
      (use assms(4) in simp)
qed

lemma read_fat_wp:
  assumes "holds b p s" "fat_fits ft b N" "unat c < N"
    and "\<And>s' p'. holds b p' s' \<Longrightarrow> Q (fat_entry ft b (unat c)) s'"
  shows "wp (read_fat ops ft c) Q E s"
proof (cases ft)
  case Fat12
  then show ?thesis
    using assms(4) unfolding read_fat_def fat12_get_def
    by (simp, intro fat12_get_raw_wp [OF assms(1) assms(2) [unfolded Fat12] assms(3)])
      (simp add: fat_entry_def)
next
  case Fat16
  then show ?thesis
    using assms(4) unfolding read_fat_def fat16_get_def
    by (simp, intro fat16_get_raw_wp [OF assms(1) assms(2) [unfolded Fat16] assms(3)])
      (simp add: fat_entry_def)
next
  case Fat32
  then show ?thesis
    using assms(4) unfolding read_fat_def fat32_get_def
    by (simp, intro fat32_get_raw_wp [OF assms(1) assms(2) [unfolded Fat32] assms(3)])
      (simp add: fat_entry_def fat_raw_def)
qed

lemma write_fat_wp:
  assumes "holds b p s" "fat_fits ft b N" "unat c < N"
    and "\<And>s' p'. holds (fat_set_bytes ft (unat c) v b) p' s' \<Longrightarrow> Q () s'"
  shows "wp (write_fat ops ft c v) Q E s"
proof (cases ft)
  case Fat12
  have o: "fat12_offset c = Inr (c + c div 2)" "unat (c + c div 2) = unat c + unat c div 2"
    using assms(2,3) fat12_offset_ok [of c] Fat12 by (auto simp: fat_fits_def fat_limit_def)
  have fit: "unat c + unat c div 2 + 2 \<le> length b"
    using fat_fits_entry(3) [OF assms(2,3)] Fat12 by simp
  have post: "holds (splice (unat c + unat c div 2) (le16 (fat12_pack c
      (of_le16 (window (unat c + unat c div 2) 2 b)) (ucast (fat12_encode v)))) b) q t \<Longrightarrow> Q () t" for q t
    using assms(4) [of q t] Fat12 by (simp add: fat_set_bytes_def)
  show ?thesis
    unfolding write_fat_def Fat12 fat_type.case fat12_set_def fat12_set_raw_def o wp_sbind wp_slift_Inr
    by (rule seek_wp [OF assms(1)], use fit in simp, rule read_u16_wp, assumption, use fit in simp,
        rule seek_wp, assumption, use fit in simp, rule write_u16_wp, assumption, use fit in simp)
      (rule post)
next
  case Fat16
  have fit: "2 * unat c + 2 \<le> length b" and lim: "unat c < 0xFFF7"
    using fat_fits_entry(4) [OF assms(2,3)] assms(2,3) Fat16 by (auto simp: fat_fits_def fat_limit_def)
  then have o: "cmul c 2 = Inr (c * 2)" "unat (c * 2) = 2 * unat c"
    by (simp_all add: cmul_Inr unat_mult_noof)
  have [simp]: "ucast (ucast (fat16_encode v) :: u32) = fat16_encode v"
    by (rule bit_word_eqI) (simp add: bit_simps)
  show ?thesis
    unfolding write_fat_def Fat16 fat_type.case fat16_set_def fat16_set_raw_def o wp_sbind wp_slift_Inr
    by (rule seek_wp [OF assms(1)], use fit in simp, rule write_u16_wp, assumption, use fit in simp)
      (use assms(4) Fat16 in \<open>simp add: fat_set_bytes_def\<close>)
next
  case Fat32
  have fit: "4 * unat c + 4 \<le> length b" and lim: "unat c < 0x0FFFFFF7"
    using fat_fits_entry(5) [OF assms(2,3)] assms(2,3) Fat32 by (auto simp: fat_fits_def fat_limit_def)
  then have o: "cmul c 4 = Inr (c * 4)" "unat (c * 4) = 4 * unat c" and sp: "\<not> fat32_special c"
    by (simp_all add: cmul_Inr unat_mult_noof fat32_special_def word_le_nat_alt)
  show ?thesis
    unfolding write_fat_def Fat32 fat_type.case fat32_set_def wp_sbind
    by (rule fat32_get_raw_wp [OF assms(1) assms(2) [unfolded Fat32] assms(3)],
        simp only: sp simp_thms if_False fat32_set_raw_def o wp_sbind wp_slift_Inr,
        rule seek_wp, assumption, use fit in simp, rule write_u32_wp, assumption, use fit in simp)
      (use assms(4) Fat32 in \<open>simp add: fat_set_bytes_def\<close>)
qed

lemma get_next_cluster_wp:
  assumes "holds b p s" "fat_fits ft b N" "unat c < N"
    and "\<And>s' p'. holds b p' s' \<Longrightarrow>
      Q (case fat_entry ft b (unat c) of Data n \<Rightarrow> Some n | _ \<Rightarrow> None) s'"
  shows "wp (get_next_cluster ops ft c) Q E s"
  unfolding get_next_cluster_def wp_sbind wp_sret
  by (rule read_fat_wp [OF assms(1-3)]) (rule assms(4))

end

section \<open>Searching and counting free entries\<close>

definition first_free :: "fat_type \<Rightarrow> u8 list \<Rightarrow> nat \<Rightarrow> nat \<Rightarrow> nat option" where
  "first_free ft b lo hi = find (\<lambda>c. fat_entry ft b c = Free) [lo..<hi]"

definition num_free :: "fat_type \<Rightarrow> u8 list \<Rightarrow> nat \<Rightarrow> nat \<Rightarrow> nat" where
  "num_free ft b lo hi = length (filter (\<lambda>c. fat_entry ft b c = Free) [lo..<hi])"

lemma first_free_Some:
  "first_free ft b lo hi = Some c \<longleftrightarrow>
     lo \<le> c \<and> c < hi \<and> fat_entry ft b c = Free \<and> (\<forall>d. lo \<le> d \<and> d < c \<longrightarrow> fat_entry ft b d \<noteq> Free)"
  (is "?l = ?r")
proof
  assume ?l
  then show ?r by (auto simp: first_free_def find_Some_iff le_iff_add)
next
  assume r: ?r
  show ?l unfolding first_free_def find_Some_iff
    by (rule exI [of _ "c - lo"]) (use r in auto)
qed

lemma first_free_None:
  "first_free ft b lo hi = None \<longleftrightarrow> (\<forall>c. lo \<le> c \<and> c < hi \<longrightarrow> fat_entry ft b c \<noteq> Free)"
  by (auto simp: first_free_def find_None_iff)

lemma first_free_step:
  "lo < hi \<Longrightarrow> first_free ft b lo hi =
     (if fat_entry ft b lo = Free then Some lo else first_free ft b (lo + 1) hi)"
  by (simp add: first_free_def upt_conv_Cons)

lemma num_free_step:
  "lo < hi \<Longrightarrow> num_free ft b lo hi =
     (if fat_entry ft b lo = Free then 1 else 0) + num_free ft b (lo + 1) hi"
  by (simp add: num_free_def upt_conv_Cons)

lemma num_free_empty [simp]: "hi \<le> lo \<Longrightarrow> num_free ft b lo hi = 0"
  by (simp add: num_free_def)

lemma num_free_card: "num_free ft b lo hi = card {c. lo \<le> c \<and> c < hi \<and> fat_entry ft b c = Free}"
proof -
  have "num_free ft b lo hi = card (set (filter (\<lambda>c. fat_entry ft b c = Free) [lo..<hi]))"
    unfolding num_free_def by (rule distinct_card [symmetric]) simp
  also have "set (filter (\<lambda>c. fat_entry ft b c = Free) [lo..<hi]) =
      {c. lo \<le> c \<and> c < hi \<and> fat_entry ft b c = Free}" by auto
  finally show ?thesis .
qed

lemma num_free_le: "num_free ft b lo hi \<le> hi - lo"
  unfolding num_free_def by (metis length_filter_le length_upt)

lemma fat_entry_Free:
  assumes "fat_fits ft b N" "c < N"
  shows "fat_entry ft b c = Free \<longleftrightarrow> fat_raw ft b c = 0"
  using fat_fits_entry(2) [OF assms]
  by (auto simp: fat_entry_def fat12_decode_def fat16_decode_def fat32_decode_def fat32_special_def
      word_le_nat_alt unat_of_nat split: fat_type.splits)

lemma find_free_loop_unfold:
  "find_free_loop rdv c e =
     (if c < e then sbind rdv (\<lambda>val. if val = 0 then sret c else find_free_loop rdv (c + 1) e)
      else sfail (Io Other))"
  by (rule ext) (simp add: find_free_loop.simps sfail_def)

lemma count_free_loop_unfold:
  "count_free_loop rdv c e n =
     (if c < e then sbind rdv (\<lambda>val. count_free_loop rdv (c + 1) e (if val = 0 then n + 1 else n))
      else sret n)"
  by (rule ext) (simp add: count_free_loop.simps sret_def)

context byte_stream
begin

lemma find_free_loop_wp:
  assumes rd: "\<And>c s Q E. holds b (k * c) s \<Longrightarrow> c < N \<Longrightarrow>
      (\<And>s'. holds b (k * (c + 1)) s' \<Longrightarrow> Q (fat_raw ft b c) s') \<Longrightarrow> wp rdv Q E s"
    and "fat_fits ft b N" "unat e \<le> N" "holds b (k * unat c) s"
    and "\<And>n s' p'. first_free ft b (unat c) (unat e) = Some n \<Longrightarrow> holds b p' s' \<Longrightarrow> Q (of_nat n) s'"
    and "\<And>s' p'. first_free ft b (unat c) (unat e) = None \<Longrightarrow> holds b p' s' \<Longrightarrow> E (Io Other) s'"
  shows "wp (find_free_loop rdv c e) Q E s"
  using assms(4-)
proof (induction "unat e - unat c" arbitrary: c s rule: less_induct)
  case less
  show ?case
  proof (cases "c < e")
    case False
    then have "first_free ft b (unat c) (unat e) = None"
      by (simp add: first_free_def word_less_nat_alt)
    with False less.prems(1,3) show ?thesis by (subst find_free_loop_unfold) simp
  next
    case True
    then have lt: "unat c < unat e" and inc: "unat (c + 1) = unat c + 1"
      by (simp_all add: word_less_nat_alt unat_inc_less [OF True])
    then have cN: "unat c < N" using assms(3) by simp
    note ff = first_free_step [OF lt, of ft b] and fe = fat_entry_Free [OF assms(2) cN]
    have "wp (sbind rdv (\<lambda>val. if val = 0 then sret c else find_free_loop rdv (c + 1) e)) Q E s"
      unfolding wp_sbind
    proof (rule rd [OF less.prems(1) cN])
      fix s' assume s': "holds b (k * (unat c + 1)) s'"
      show "wp (if fat_raw ft b (unat c) = 0 then sret c else find_free_loop rdv (c + 1) e) Q E s'"
      proof (cases "fat_raw ft b (unat c) = 0")
        case True
        with less.prems(2) [of "unat c" _ s', OF _ s'] ff fe show ?thesis by simp
      next
        case False
        then have "first_free ft b (unat (c + 1)) (unat e) = first_free ft b (unat c) (unat e)"
          using ff fe inc by simp
        with False less.hyps [of "c + 1" s'] less.prems(2,3) lt inc s' show ?thesis by simp
      qed
    qed
    with True show ?thesis by (subst find_free_loop_unfold) simp
  qed
qed

lemma count_free_loop_wp:
  assumes rd: "\<And>c s Q E. holds b (k * c) s \<Longrightarrow> c < N \<Longrightarrow>
      (\<And>s'. holds b (k * (c + 1)) s' \<Longrightarrow> Q (fat_raw ft b c) s') \<Longrightarrow> wp rdv Q E s"
    and "fat_fits ft b N" "unat e \<le> N" "holds b (k * unat c) s"
    and "\<And>s' p'. holds b p' s' \<Longrightarrow> Q (n + of_nat (num_free ft b (unat c) (unat e))) s'"
  shows "wp (count_free_loop rdv c e n) Q E s"
  using assms(4-)
proof (induction "unat e - unat c" arbitrary: c s n rule: less_induct)
  case less
  show ?case
  proof (cases "c < e")
    case False
    with less.prems show ?thesis by (subst count_free_loop_unfold) (simp add: word_less_nat_alt)
  next
    case True
    then have lt: "unat c < unat e" and inc: "unat (c + 1) = unat c + 1"
      by (simp_all add: word_less_nat_alt unat_inc_less [OF True])
    then have cN: "unat c < N" using assms(3) by simp
    note nf = num_free_step [OF lt, of ft b] and fe = fat_entry_Free [OF assms(2) cN]
    have "wp (sbind rdv (\<lambda>val. count_free_loop rdv (c + 1) e (if val = 0 then n + 1 else n))) Q E s"
      unfolding wp_sbind
    proof (rule rd [OF less.prems(1) cN])
      fix s' assume s': "holds b (k * (unat c + 1)) s'"
      show "wp (count_free_loop rdv (c + 1) e (if fat_raw ft b (unat c) = 0 then n + 1 else n)) Q E s'"
        by (rule less.hyps) (use less.prems(2) lt inc s' nf fe in \<open>auto simp: ac_simps\<close>)
    qed
    with True show ?thesis by (subst count_free_loop_unfold) simp
  qed
qed

lemma fat16_read_val_wp:
  assumes "fat_fits Fat16 b N" "holds b (2 * c) s" "c < N"
    "\<And>s'. holds b (2 * (c + 1)) s' \<Longrightarrow> Q (fat_raw Fat16 b c) s'"
  shows "wp (fat16_read_val ops) Q E s"
  unfolding fat16_read_val_def wp_sbind
  by (rule read_u16_wp [OF assms(2)])
    (use assms(4) fat_fits_entry(4) [OF assms(1,3)] in \<open>auto simp: fat_raw_def\<close>)

lemma fat32_read_val_wp:
  assumes "fat_fits Fat32 b N" "holds b (4 * c) s" "c < N"
    "\<And>s'. holds b (4 * (c + 1)) s' \<Longrightarrow> Q (fat_raw Fat32 b c) s'"
  shows "wp (fat32_read_val ops) Q E s"
  unfolding fat32_read_val_def wp_sbind
  by (rule read_u32_wp [OF assms(2)])
    (use assms(4) fat_fits_entry(5) [OF assms(1,3)] in \<open>auto simp: fat_raw_def add.commute\<close>)

end

text \<open>FAT12 reads its entries in pairs of three bytes and keeps the shared byte between rounds.\<close>

definition off12 :: "nat \<Rightarrow> nat" where
  "off12 c = c + c div 2"

definition packed12 :: "u8 list \<Rightarrow> nat \<Rightarrow> u16" where
  "packed12 b c = of_le16 (window (off12 c) 2 b)"

lemma off12_even: "even c \<Longrightarrow> off12 (c + 1) = off12 c + 1"
  by (auto simp: off12_def elim!: evenE)

lemma off12_odd: "odd c \<Longrightarrow> off12 (c + 1) = off12 c + 2"
  by (auto simp: off12_def elim!: oddE)

lemma fat12_fits_off: "fat_fits Fat12 b N \<Longrightarrow> c < N \<Longrightarrow> off12 c + 2 \<le> length b"
  using fat_fits_entry(3) [of Fat12 b N c] by (simp add: off12_def)

lemma fat_raw_packed12: "fat_raw Fat12 b c = ucast (fat12_unpack (of_nat c) (packed12 b c))"
  by (simp add: fat_raw_def packed12_def off12_def)

lemma ucast_u16_eq_0: "(ucast w :: u32) = 0 \<longleftrightarrow> w = 0" for w :: u16
  by (simp add: word_unat_eq_iff unat_ucast mod_less [OF less_trans [OF unsigned_less]])

lemma fat12_find_free_loop_unfold:
  "fat12_find_free_loop ops c e packed =
     (if fat12_unpack c packed = 0 then sret c
      else if c = 0xFFFFFFFF then sfail (Panic Overflow)
      else if c + 1 = e then sfail (Io Other)
      else sbind (fat12_next_packed ops (c + 1) packed) (\<lambda>p. fat12_find_free_loop ops (c + 1) e p))"
  by (rule ext) (simp add: fat12_find_free_loop.simps sret_def sfail_def)

lemma fat12_count_free_loop_unfold:
  "fat12_count_free_loop ops c e prev n =
     (if c < e then sbind (fat12_count_read ops c) (\<lambda>p. fat12_count_free_loop ops (c + 1) e p
            (if fat12_count_val c prev p = 0 then n + 1 else n))
      else sret n)"
  by (rule ext) (simp add: fat12_count_free_loop.simps sret_def)

lemma le16_shift: "drop_bit 8 (of_le16 [x, y]) OR push_bit 8 (ucast z) = of_le16 [y, z]"
  unfolding of_le16_def by (rule bit_word_eqI) (auto simp: bit_simps dest: bit_imp_le_length)

lemma push_ucast_eq_0: "k \<le> 8 \<Longrightarrow> push_bit k (ucast z :: u16) = 0 \<longleftrightarrow> z = 0" for z :: u8
proof
  assume k: "k \<le> 8" and *: "push_bit k (ucast z :: u16) = 0"
  show "z = 0"
  proof (rule bit_word_eqI)
    fix n assume "n < LENGTH(8)"
    then show "bit z n = bit 0 n"
      using k arg_cong [OF *, of "\<lambda>w. bit w (n + k)"] by (simp add: bit_simps)
  qed
qed simp

lemma fat12_odd_zero:
  "push_bit 8 (ucast z) OR drop_bit 12 (of_le16 [x, y]) = 0 \<longleftrightarrow> drop_bit 4 (of_le16 [y, z]) = 0"
proof -
  have "drop_bit 12 (of_le16 [x, y]) = drop_bit 4 (ucast y)"
    unfolding of_le16_def by (rule bit_word_eqI) (auto simp: bit_simps dest: bit_imp_le_length)
  moreover have "drop_bit 4 (of_le16 [y, z]) = drop_bit 4 (ucast y) OR push_bit 4 (ucast z)"
    unfolding of_le16_def by (rule bit_word_eqI) (auto simp: bit_simps dest: bit_imp_le_length)
  ultimately show ?thesis by (auto simp: or_eq_0_iff push_ucast_eq_0)
qed

lemma packed12_odd:
  assumes "even c" "off12 c + 3 \<le> length b"
  shows "drop_bit 8 (packed12 b c) OR push_bit 8 (ucast (b ! (off12 c + 2))) = packed12 b (c + 1)"
proof -
  have "packed12 b c = of_le16 [b ! off12 c, b ! (off12 c + 1)]"
    using assms by (simp add: packed12_def window_2)
  moreover have "packed12 b (c + 1) = of_le16 [b ! (off12 c + 1), b ! (off12 c + 2)]"
    using assms unfolding packed12_def off12_even [OF assms(1)] by (simp add: window_2)
  ultimately show ?thesis by (simp only: le16_shift)
qed

lemma fat12_count_val_odd:
  assumes "odd (unat c)" "unat c < N" "fat_fits Fat12 b N"
  shows "fat12_count_val c (packed12 b (unat c - 1)) (ucast (b ! (off12 (unat c) + 1))) = 0 \<longleftrightarrow>
    fat_raw Fat12 b (unat c) = 0"
proof -
  define o1 where "o1 = off12 (unat c - 1)"
  have o: "off12 (unat c) = o1 + 1"
    using off12_even [of "unat c - 1"] assms(1) odd_pos [OF assms(1)] by (simp add: o1_def)
  have fit: "o1 + 3 \<le> length b" using fat12_fits_off [OF assms(3,2)] o by simp
  have nz: "c AND 1 \<noteq> 0" using assms(1) by (simp add: even_word_and_1)
  have p: "packed12 b (unat c - 1) = of_le16 [b ! o1, b ! (o1 + 1)]"
    "packed12 b (unat c) = of_le16 [b ! (o1 + 1), b ! (o1 + 2)]"
    using fit unfolding packed12_def o o1_def [symmetric] by (simp_all add: window_2)
  show ?thesis
    using nz unfolding fat_raw_packed12 ucast_u16_eq_0 o p fat12_count_val_def
    by (simp add: fat12_unpack_def fat12_odd_zero)
qed

context byte_stream
begin

lemma fat12_next_packed_wp:
  assumes "fat_fits Fat12 b N" "unat c + 1 < N" "holds b (off12 (unat c) + 2) s"
    and "\<And>s'. holds b (off12 (unat c + 1) + 2) s' \<Longrightarrow> Q (packed12 b (unat c + 1)) s'"
  shows "wp (fat12_next_packed ops (c + 1) (packed12 b (unat c))) Q E s"
proof -
  have u: "unat (c + 1) = unat c + 1"
    using assms(1,2) by (intro u32_inc_small) (auto simp: fat_fits_def fat_limit_def)
  have fit: "off12 (unat c + 1) + 2 \<le> length b" by (rule fat12_fits_off [OF assms(1,2)])
  show ?thesis
  proof (cases "even (unat c)")
    case True
    then have "(c + 1) AND 1 \<noteq> 0" by (simp add: even_word_and_1 u)
    with True fit show ?thesis
      unfolding fat12_next_packed_def
      by (simp, intro read_u8_wp [OF assms(3)])
        (use assms(4) packed12_odd [OF True, of b] off12_even [OF True] in \<open>auto simp: add.assoc\<close>)
  next
    case False
    then have "(c + 1) AND 1 = 0" by (simp add: even_word_and_1 u)
    with False fit show ?thesis
      unfolding fat12_next_packed_def
      by (simp, intro read_u16_wp [OF assms(3)])
        (use assms(4) off12_odd [OF False] in \<open>auto simp: packed12_def\<close>)
  qed
qed

lemma fat12_find_free_loop_wp:
  assumes "fat_fits Fat12 b N" "unat e \<le> N" "unat c < unat e" "holds b (off12 (unat c) + 2) s"
    and "\<And>n s' p'. first_free Fat12 b (unat c) (unat e) = Some n \<Longrightarrow> holds b p' s' \<Longrightarrow> Q (of_nat n) s'"
    and "\<And>s' p'. first_free Fat12 b (unat c) (unat e) = None \<Longrightarrow> holds b p' s' \<Longrightarrow> E (Io Other) s'"
  shows "wp (fat12_find_free_loop ops c e (packed12 b (unat c))) Q E s"
  using assms(3-)
proof (induction "unat e - unat c" arbitrary: c s rule: less_induct)
  case less
  have cN: "unat c < N" using less.prems(1) assms(2) by simp
  have u: "unat (c + 1) = unat c + 1" "c \<noteq> 0xFFFFFFFF"
    using assms(1) cN u32_inc_small [of c] by (auto simp: fat_fits_def fat_limit_def)
  note ff = first_free_step [OF less.prems(1), of Fat12 b]
  have fe: "fat12_unpack c (packed12 b (unat c)) = 0 \<longleftrightarrow> fat_entry Fat12 b (unat c) = Free"
    by (simp add: fat_entry_Free [OF assms(1) cN] fat_raw_packed12 ucast_u16_eq_0)
  show ?case
  proof (cases "fat_entry Fat12 b (unat c) = Free")
    case True
    with fe less.prems(3) [of "unat c"] less.prems(2) ff show ?thesis
      by (subst fat12_find_free_loop_unfold) simp
  next
    case False
    show ?thesis
    proof (cases "c + 1 = e")
      case True
      with False u(1) ff have "first_free Fat12 b (unat c) (unat e) = None"
        by (auto simp: first_free_def)
      with True False fe u less.prems(2,4) show ?thesis
        by (subst fat12_find_free_loop_unfold) simp
    next
      case ne: False
      then have lt: "unat c + 1 < unat e" using less.prems(1) u(1) by (metis Suc_eq_plus1 Suc_lessI word_unat_eq_iff)
      have "wp (fat12_next_packed ops (c + 1) (packed12 b (unat c)))
          (\<lambda>p. wp (fat12_find_free_loop ops (c + 1) e p) Q E) E s"
      proof (rule fat12_next_packed_wp [OF assms(1) _ less.prems(2)])
        fix s' assume s': "holds b (off12 (unat c + 1) + 2) s'"
        show "wp (fat12_find_free_loop ops (c + 1) e (packed12 b (unat c + 1))) Q E s'"
          using less.hyps [of "c + 1" s'] lt s' less.prems(3,4) ff False by (simp add: u(1))
      qed (use lt assms(2) in simp)
      with ne False fe u show ?thesis by (subst fat12_find_free_loop_unfold) simp
    qed
  qed
qed

lemma fat12_count_read_wp:
  assumes "fat_fits Fat12 b N" "unat c < N" "unat c < 0xFFFFFFFF"
    and "holds b (off12 (unat c) + (if even (unat c) then 0 else 1)) s"
    and "odd (unat c) \<Longrightarrow> prev = packed12 b (unat c - 1)"
    and "\<And>s' packed. holds b (off12 (unat c + 1) + (if odd (unat c) then 0 else 1)) s' \<Longrightarrow>
      (even (unat c) \<Longrightarrow> packed = packed12 b (unat c)) \<Longrightarrow>
      (fat12_count_val c prev packed = 0 \<longleftrightarrow> fat_raw Fat12 b (unat c) = 0) \<Longrightarrow> Q packed s'"
  shows "wp (fat12_count_read ops c) Q E s"
proof (cases "even (unat c)")
  case True
  have v: "fat12_count_val c prev (packed12 b (unat c)) = 0 \<longleftrightarrow> fat_raw Fat12 b (unat c) = 0"
    using True unfolding fat_raw_packed12 ucast_u16_eq_0 fat12_count_val_def fat12_unpack_def
    by (simp add: even_word_and_1)
  from True show ?thesis
    unfolding fat12_count_read_def
    by (simp add: even_word_and_1, intro read_u16_wp [of b "off12 (unat c)"])
      (use assms(4,6) True v off12_even [OF True] fat12_fits_off [OF assms(1,2)] in
        \<open>auto simp: packed12_def\<close>)
next
  case False
  note o = off12_odd [OF False]
  show ?thesis
    using False unfolding fat12_count_read_def
    by (simp add: even_word_and_1, intro read_u8_wp [of b "off12 (unat c) + 1"])
      (use assms(4,5,6) False o fat12_count_val_odd [OF False assms(2,1)]
         fat12_fits_off [OF assms(1,2)] in auto)
qed

lemma fat12_count_free_loop_wp:
  assumes "fat_fits Fat12 b N" "unat e \<le> N"
    and "holds b (off12 (unat c) + (if even (unat c) then 0 else 1)) s"
    and "odd (unat c) \<Longrightarrow> prev = packed12 b (unat c - 1)"
    and "\<And>s' p'. holds b p' s' \<Longrightarrow> Q (n + of_nat (num_free Fat12 b (unat c) (unat e))) s'"
  shows "wp (fat12_count_free_loop ops c e prev n) Q E s"
  using assms(3-)
proof (induction "unat e - unat c" arbitrary: c s n prev rule: less_induct)
  case less
  show ?case
  proof (cases "c < e")
    case False
    with less.prems show ?thesis by (subst fat12_count_free_loop_unfold) (simp add: word_less_nat_alt)
  next
    case True
    then have lt: "unat c < unat e" and inc: "unat (c + 1) = unat c + 1"
      by (simp_all add: word_less_nat_alt unat_inc_less [OF True])
    then have cN: "unat c < N" and small: "unat c < 0xFFFFFFFF"
      using assms(1,2) by (auto simp: fat_fits_def fat_limit_def)
    note nf = num_free_step [OF lt, of Fat12 b] and fe = fat_entry_Free [OF assms(1) cN]
    have "wp (fat12_count_read ops c) (\<lambda>p. wp (fat12_count_free_loop ops (c + 1) e p
        (if fat12_count_val c prev p = 0 then n + 1 else n)) Q E) E s"
    proof (rule fat12_count_read_wp [OF assms(1) cN small less.prems(1,2)])
      fix s' packed
      assume s': "holds b (off12 (unat c + 1) + (if odd (unat c) then 0 else 1)) s'"
        and pk: "even (unat c) \<Longrightarrow> packed = packed12 b (unat c)"
        and val: "fat12_count_val c prev packed = 0 \<longleftrightarrow> fat_raw Fat12 b (unat c) = 0"
      show "wp (fat12_count_free_loop ops (c + 1) e packed
          (if fat12_count_val c prev packed = 0 then n + 1 else n)) Q E s'"
        by (rule less.hyps) (use less.prems(3) lt inc s' pk nf fe val in \<open>auto simp: ac_simps\<close>)
    qed
    with True show ?thesis by (subst fat12_count_free_loop_unfold) simp
  qed
qed

lemma find_free_cluster_wp:
  assumes "holds b p s" "fat_fits ft b N" "unat c < unat e" "unat e \<le> N"
    and "\<And>n s' p'. first_free ft b (unat c) (unat e) = Some n \<Longrightarrow> holds b p' s' \<Longrightarrow> Q (of_nat n) s'"
    and "\<And>s' p'. first_free ft b (unat c) (unat e) = None \<Longrightarrow> holds b p' s' \<Longrightarrow> E (Io Other) s'"
  shows "wp (find_free_cluster ops ft c e) Q E s"
proof (cases ft)
  case Fat12
  have cN: "unat c < N" using assms(3,4) by simp
  have o: "fat12_offset c = Inr (c + c div 2)" "unat (c + c div 2) = off12 (unat c)"
    using assms(2) cN fat12_offset_ok [of c] Fat12 by (auto simp: fat_fits_def fat_limit_def off12_def)
  have fit: "off12 (unat c) + 2 \<le> length b" using fat12_fits_off assms(2) cN Fat12 by blast
  have *: "wp (fat12_find_free_loop ops c e (packed12 b (unat c))) Q E t"
    if "holds b (off12 (unat c) + 2) t" for t
    by (rule fat12_find_free_loop_wp) (use assms that Fat12 in auto)
  show ?thesis
    unfolding find_free_cluster_def Fat12 fat_type.case fat12_find_free_def o wp_sbind wp_slift_Inr
    by (rule seek_wp [OF assms(1)], use fit in simp, rule read_u16_wp, assumption, use fit in simp)
      (use * in \<open>simp add: packed12_def\<close>)
next
  case Fat16
  then have fits: "fat_fits Fat16 b N" using assms(2) by simp
  have fit: "2 * unat c + 2 \<le> length b" and o: "cmul c 2 = Inr (c * 2)" "unat (c * 2) = 2 * unat c"
    using fat_fits_entry(2,4) [OF fits, of "unat c"] assms(3,4) by (simp_all add: cmul_Inr unat_mult_noof)
  have *: "wp (find_free_loop (fat16_read_val ops) c e) Q E t" if "holds b (2 * unat c) t" for t
    by (rule find_free_loop_wp [where k = 2 and ft = Fat16, OF fat16_read_val_wp [OF fits] fits assms(4) that])
      (use assms(5,6) Fat16 in auto)
  show ?thesis
    unfolding find_free_cluster_def Fat16 fat_type.case fat16_find_free_def o wp_sbind wp_slift_Inr
    by (rule seek_wp [OF assms(1)], use fit in simp) (use * in simp)
next
  case Fat32
  then have fits: "fat_fits Fat32 b N" using assms(2) by simp
  have fit: "4 * unat c + 4 \<le> length b" and o: "cmul c 4 = Inr (c * 4)" "unat (c * 4) = 4 * unat c"
    using fat_fits_entry(2,5) [OF fits, of "unat c"] assms(3,4) by (simp_all add: cmul_Inr unat_mult_noof)
  have *: "wp (find_free_loop (fat32_read_val ops) c e) Q E t" if "holds b (4 * unat c) t" for t
    by (rule find_free_loop_wp [where k = 4 and ft = Fat32, OF fat32_read_val_wp [OF fits] fits assms(4) that])
      (use assms(5,6) Fat32 in auto)
  show ?thesis
    unfolding find_free_cluster_def Fat32 fat_type.case fat32_find_free_def o wp_sbind wp_slift_Inr
    by (rule seek_wp [OF assms(1)], use fit in simp) (use * in simp)
qed

lemma count_free_clusters_wp:
  assumes "holds b p s" "fat_fits ft b (unat tot + 2)"
    and "\<And>s' p'. holds b p' s' \<Longrightarrow> Q (of_nat (num_free ft b 2 (unat tot + 2))) s'"
  shows "wp (count_free_clusters ops ft tot) Q E s"
proof -
  let ?e = "tot + 2" and ?N = "unat tot + 2"
  have "unat tot + 2 < 2 ^ 32" using assms(2)
    by (cases ft) (auto simp: fat_fits_def fat_limit_def)
  then have e: "cadd tot 2 = Inr ?e" "unat ?e = ?N" by (simp_all add: cadd_Inr unat_add_noof)
  show ?thesis
  proof (cases ft)
    case Fat12
    then have fits: "fat_fits Fat12 b ?N" using assms(2) by simp
    have *: "wp (fat12_count_free_loop ops 2 ?e 0 0) Q E t" if "holds b 3 t" for t
      by (rule fat12_count_free_loop_wp [OF fits]) (use that assms(3) e Fat12 in \<open>auto simp: off12_def\<close>)
    show ?thesis
      unfolding count_free_clusters_def Fat12 fat_type.case RESERVED_FAT_ENTRIES_def e
        fat12_count_free_def wp_sbind wp_slift_Inr
      by (rule seek_wp [OF assms(1)])
        (use fits * fat12_fits_off [OF fits, of 1] in \<open>simp_all add: off12_def\<close>)
  next
    case Fat16
    then have fits: "fat_fits Fat16 b ?N" using assms(2) by simp
    have *: "wp (count_free_loop (fat16_read_val ops) 2 ?e 0) Q E t" if "holds b 4 t" for t
      by (rule count_free_loop_wp [where k = 2 and ft = Fat16, OF fat16_read_val_wp [OF fits] fits])
        (use that assms(3) e Fat16 in auto)
    show ?thesis
      unfolding count_free_clusters_def Fat16 fat_type.case RESERVED_FAT_ENTRIES_def e
        fat16_count_free_def wp_sbind wp_slift_Inr
      by (rule seek_wp [OF assms(1)]) (use * fat_fits_entry(4) [OF fits, of 1] in simp_all)
  next
    case Fat32
    then have fits: "fat_fits Fat32 b ?N" using assms(2) by simp
    have *: "wp (count_free_loop (fat32_read_val ops) 2 ?e 0) Q E t" if "holds b 8 t" for t
      by (rule count_free_loop_wp [where k = 4 and ft = Fat32, OF fat32_read_val_wp [OF fits] fits])
        (use that assms(3) e Fat32 in auto)
    show ?thesis
      unfolding count_free_clusters_def Fat32 fat_type.case RESERVED_FAT_ENTRIES_def e
        fat32_count_free_def wp_sbind wp_slift_Inr
      by (rule seek_wp [OF assms(1)]) (use * fat_fits_entry(5) [OF fits, of 1] in simp_all)
  qed
qed

end

section \<open>Allocation\<close>

definition alloc_target :: "fat_type \<Rightarrow> u8 list \<Rightarrow> nat \<Rightarrow> nat \<Rightarrow> nat option" where
  "alloc_target ft b start N =
     (case first_free ft b start N of
        Some c \<Rightarrow> Some c
      | None \<Rightarrow> if 2 < start then first_free ft b 2 start else None)"

definition alloc_bytes :: "fat_type \<Rightarrow> u32 option \<Rightarrow> nat \<Rightarrow> u8 list \<Rightarrow> u8 list" where
  "alloc_bytes ft prev c b =
     (let b1 = fat_set_bytes ft c EndOfChain b in
      case prev of None \<Rightarrow> b1 | Some q \<Rightarrow> fat_set_bytes ft (unat q) (Data (of_nat c)) b1)"

lemma alloc_target_Some:
  "alloc_target ft b start N = Some c \<Longrightarrow> start \<le> N \<Longrightarrow>
     c < N \<and> fat_entry ft b c = Free \<and> min 2 start \<le> c"
  by (auto simp: alloc_target_def first_free_Some split: option.splits if_splits)

lemma alloc_target_None:
  assumes "alloc_target ft b start N = None" "2 \<le> c" "c < N"
  shows "fat_entry ft b c \<noteq> Free"
  using assms by (cases "start \<le> c")
    (auto simp: alloc_target_def first_free_None split: option.splits if_splits)

lemma alloc_bytes_entry:
  assumes "fat_fits ft b N" "c < N" "0 < c" "\<And>q. prev = Some q \<Longrightarrow> unat q < N" "d < N"
  shows "length (alloc_bytes ft prev c b) = length b"
    and "fat_entry ft (alloc_bytes ft prev c b) d =
      (if prev = Some (of_nat d) then Data (of_nat c) else if d = c then EndOfChain else fat_entry ft b d)"
proof -
  let ?b1 = "fat_set_bytes ft c EndOfChain b"
  have u1: "fat_update ft N c EndOfChain b ?b1"
    by (rule fat_set_bytes_update [OF assms(1,2)]) (simp add: value_fits_def)
  have fits1: "fat_fits ft ?b1 N" by (rule fat_fits_set_bytes [OF assms(1,2)])
  have cs: "c < fat_limit ft" "c < 0x0FFFFFF7" "d < 0x0FFFFFF7"
    using assms(1,2) fat_fits_entry(2) [OF assms(1)] assms(5) by (auto simp: fat_fits_def)
  then have vf: "value_fits ft (Data (of_nat c))" using assms(3)
    by (simp add: value_fits_def unat_of_nat)
  have du: "unat q = d \<longleftrightarrow> q = of_nat d" for q :: u32
    using cs(3) by (auto simp: unat_of_nat)
  show "length (alloc_bytes ft prev c b) = length b"
    using u1 assms(1,2,4) fits1 by (auto simp: alloc_bytes_def fat_update_def Let_def split: option.splits)
  show "fat_entry ft (alloc_bytes ft prev c b) d =
      (if prev = Some (of_nat d) then Data (of_nat c) else if d = c then EndOfChain else fat_entry ft b d)"
  proof (cases prev)
    case None
    with u1 assms(5) show ?thesis by (simp add: alloc_bytes_def fat_update_def)
  next
    case (Some q)
    with fat_set_bytes_update [OF fits1 assms(4) vf] u1 assms(5) du [of q] show ?thesis
      by (auto simp: alloc_bytes_def fat_update_def Let_def)
  qed
qed

context byte_stream
begin

lemma alloc_cluster_wp:
  assumes "holds b p s" "fat_fits ft b N" "N = unat tot + 2" "0 < unat tot"
    and "\<And>q. prev = Some q \<Longrightarrow> unat q < N"
    and "\<And>n s' p'. alloc_target ft b (unat (alloc_start_cluster hint (tot + 2))) N = Some n \<Longrightarrow>
       holds (alloc_bytes ft prev n b) p' s' \<Longrightarrow> Q (of_nat n) s'"
    and "\<And>s' p'. alloc_target ft b (unat (alloc_start_cluster hint (tot + 2))) N = None \<Longrightarrow>
       holds b p' s' \<Longrightarrow> E (Io Other) s'"
  shows "wp (alloc_cluster ops ft prev hint tot) Q E s"
proof -
  let ?e = "tot + 2" and ?st = "alloc_start_cluster hint (tot + 2)"
  have "N < 2 ^ 32" using assms(2) by (cases ft) (auto simp: fat_fits_def fat_limit_def)
  then have e: "cadd tot 2 = Inr ?e" "unat ?e = N"
    using assms(3) by (simp_all add: cadd_Inr unat_add_noof)
  have st: "unat ?st < N"
    using assms(3,4) e(2) by (auto simp: alloc_start_cluster_def RESERVED_FAT_ENTRIES_def
        word_less_nat_alt split: option.splits)
  define wr where "wr n = sbind (write_fat ops ft n EndOfChain) (\<lambda>_.
     sbind (case prev of None \<Rightarrow> sret () | Some q \<Rightarrow> write_fat ops ft q (Data n)) (\<lambda>_. sret n))" for n
  have wr: "wp (wr (of_nat n)) Q E t"
    if t: "holds b q t" and n: "alloc_target ft b (unat ?st) N = Some n" for n q t
  proof -
    have nN: "n < N" using alloc_target_Some [OF n] st by simp
    have un: "unat (of_nat n :: u32) = n" using nN \<open>N < 2 ^ 32\<close> by (simp add: unat_of_nat)
    have fits1: "fat_fits ft (fat_set_bytes ft n EndOfChain b) N"
      by (rule fat_fits_set_bytes [OF assms(2) nN])
    have "wp (case prev of None \<Rightarrow> sret () | Some q \<Rightarrow> write_fat ops ft q (Data (of_nat n)))
        (\<lambda>_. wp (sret (of_nat n)) Q E) E t'"
      if t': "holds (fat_set_bytes ft n EndOfChain b) q' t'" for q' t'
      using assms(6) [OF n] t' write_fat_wp [OF t' fits1 assms(5)]
      by (cases prev) (auto simp: alloc_bytes_def Let_def)
    then show ?thesis
      unfolding wr_def wp_sbind
      by (intro write_fat_wp [OF t assms(2)]) (use nN un in auto)
  qed
  have retry: "wp (find_free_cluster ops ft 2 ?st) (\<lambda>n. wp (wr n) Q E) E t"
    if t: "holds b q t" and no: "first_free ft b (unat ?st) N = None" "2 < unat ?st" for q t
    by (rule find_free_cluster_wp [OF t assms(2)])
      (use st no wr assms(7) in \<open>auto simp: alloc_target_def\<close>)
  have "wp (find_free_cluster ops ft ?st ?e) (\<lambda>n. wp (wr n) Q E)
      (\<lambda>e. case e of Io k \<Rightarrow> wp (if ?st > 2 then find_free_cluster ops ft 2 ?st else sfail (Io k)) (\<lambda>n. wp (wr n) Q E) E
         | Panic p \<Rightarrow> E (Panic p)) s"
  proof (rule find_free_cluster_wp [OF assms(1,2)])
    show "wp (wr (of_nat n)) Q E s'" if "first_free ft b (unat ?st) (unat ?e) = Some n" "holds b p' s'" for n s' p'
      using that wr e(2) by (simp add: alloc_target_def)
    show "(case Io Other of Io k \<Rightarrow> wp (if ?st > 2 then find_free_cluster ops ft 2 ?st else sfail (Io k)) (\<lambda>n. wp (wr n) Q E) E
         | Panic p \<Rightarrow> E (Panic p)) s'"
      if "first_free ft b (unat ?st) (unat ?e) = None" "holds b p' s'" for s' p'
      using that e(2) retry [OF that(2)] assms(7) by (auto simp: alloc_target_def word_less_nat_alt)
  qed (use st e in auto)
  moreover have "alloc_cluster ops ft prev hint tot = sbind (scatch (find_free_cluster ops ft ?st ?e)
      (\<lambda>k. if ?st > 2 then find_free_cluster ops ft 2 ?st else sfail (Io k))) wr"
    unfolding alloc_cluster_def RESERVED_FAT_ENTRIES_def e Let_def sbind_lift_Inr wr_def ..
  ultimately show ?thesis by (simp only: wp_sbind wp_scatch)
qed

end

section \<open>Chains\<close>

text \<open>\<open>fat_chain f cs\<close>: \<open>cs\<close> are the clusters of a chain, each entry points to the next one and the
  last does not point on.\<close>

fun fat_chain :: "(nat \<Rightarrow> fat_value) \<Rightarrow> u32 list \<Rightarrow> bool" where
  "fat_chain f [] \<longleftrightarrow> False"
| "fat_chain f [c] \<longleftrightarrow> (case f (unat c) of Data _ \<Rightarrow> False | _ \<Rightarrow> True)"
| "fat_chain f (c # d # cs) \<longleftrightarrow> f (unat c) = Data d \<and> fat_chain f (d # cs)"

lemma fat_chain_cong:
  "fat_chain f cs \<Longrightarrow> (\<And>c. c \<in> set cs \<Longrightarrow> f (unat c) = g (unat c)) \<Longrightarrow> fat_chain g cs"
  by (induction f cs rule: fat_chain.induct) auto

lemma fat_chain_snoc:
  assumes "fat_chain f cs" "distinct cs" "new \<notin> set cs"
    and "g (unat (last cs)) = Data new" "\<And>c. c \<in> set (butlast cs) \<Longrightarrow> g (unat c) = f (unat c)"
    and "case g (unat new) of Data _ \<Rightarrow> False | _ \<Rightarrow> True"
  shows "fat_chain g (cs @ [new])"
  using assms
proof (induction f cs rule: fat_chain.induct)
  case (3 f c d cs)
  have "fat_chain g ((d # cs) @ [new])"
    by (rule "3.IH") (use "3.prems" in \<open>auto split: if_splits\<close>)
  with "3.prems" show ?case by simp
qed auto

definition free_bytes :: "fat_type \<Rightarrow> u32 list \<Rightarrow> u8 list \<Rightarrow> u8 list" where
  "free_bytes ft cs b = fold (\<lambda>c. fat_set_bytes ft (unat c) Free) cs b"

lemma free_bytes_simps [simp]:
  "free_bytes ft [] b = b" "free_bytes ft (c # cs) b = free_bytes ft cs (fat_set_bytes ft (unat c) Free b)"
  by (simp_all add: free_bytes_def)

lemma free_bytes_entry:
  assumes "fat_fits ft b N" "\<And>c. c \<in> set cs \<Longrightarrow> unat c < N" "d < N"
  shows "fat_entry ft (free_bytes ft cs b) d = (if d \<in> unat ` set cs then Free else fat_entry ft b d)"
  using assms
proof (induction cs arbitrary: b)
  case (Cons c cs)
  let ?b1 = "fat_set_bytes ft (unat c) Free b"
  have c: "unat c < N" using Cons.prems by simp
  have "fat_entry ft (free_bytes ft cs ?b1) d =
      (if d \<in> unat ` set cs then Free else fat_entry ft ?b1 d)"
    by (rule Cons.IH) (use Cons.prems fat_fits_set_bytes [OF Cons.prems(1) c] in auto)
  moreover have "fat_entry ft ?b1 d = (if d = unat c then Free else fat_entry ft b d)"
    using fat_set_bytes_update [OF Cons.prems(1) c, of Free] Cons.prems(3)
    by (simp add: value_fits_def fat_update_def)
  ultimately show ?case by auto
qed simp

lemma length_free_bytes:
  "fat_fits ft b N \<Longrightarrow> (\<And>c. c \<in> set cs \<Longrightarrow> unat c < N) \<Longrightarrow> length (free_bytes ft cs b) = length b"
  by (induction cs arbitrary: b) (simp_all add: fat_fits_set_bytes)

lemma distinct_length_le:
  fixes cs :: "'a::len word list"
  assumes "distinct cs" "\<And>d. d \<in> set cs \<Longrightarrow> unat d < N"
  shows "length cs \<le> N"
proof -
  have "card (unat ` set cs) \<le> N"
    by (rule card_mono [of "{..<N}", simplified]) (use assms(2) in auto)
  then show ?thesis
    using assms(1) by (simp add: card_image distinct_card inj_on_def flip: word_unat_eq_iff)
qed

lemma chain_length:
  assumes "fat_fits ft b N" "distinct cs" "\<And>d. d \<in> set cs \<Longrightarrow> unat d < N"
  shows "length cs < 2 ^ 32"
  using distinct_length_le [OF assms(2,3)] assms(1) by (cases ft) (auto simp: fat_fits_def fat_limit_def)

context byte_stream
begin

definition it_holds :: "fat_type \<Rightarrow> u32 option \<Rightarrow> u8 list \<Rightarrow> 's cluster_iterator \<Rightarrow> bool" where
  "it_holds ft co b it \<longleftrightarrow> (\<exists>p. holds b p (ci_fat it)) \<and> ci_fat_type it = ft \<and> ci_cluster it = co \<and>
     \<not> ci_err it"

lemma on_fat_wp:
  "wp (on_fat m) Q E it = wp m (\<lambda>x f. Q x (it\<lparr>ci_fat := f\<rparr>)) (\<lambda>e f. E e (it\<lparr>ci_fat := f\<rparr>)) (ci_fat it)"
  by (auto simp: on_fat_def wp_def split: prod.splits sum.splits)

lemma iterator_next_eq:
  assumes "it_holds ft (Some c) b it" "fat_fits ft b N" "unat c < N"
    and nx: "nx = (case fat_entry ft b (unat c) of Data n \<Rightarrow> Some n | _ \<Rightarrow> None)"
  obtains it' where "cluster_iterator_next ops it = (Inr (map_option Inr nx), it')" "it_holds ft nx b it'"
proof -
  obtain p where p: "holds b p (ci_fat it)" using assms(1) by (auto simp: it_holds_def)
  have "wp (get_next_cluster ops ft c) (\<lambda>r f. r = nx \<and> (\<exists>p'. holds b p' f)) no_err (ci_fat it)"
    by (rule get_next_cluster_wp [OF p assms(2,3)]) (auto simp: nx)
  then obtain f p' where f: "get_next_cluster ops ft c (ci_fat it) = (Inr nx, f)" "holds b p' f"
    by (auto elim!: wp_no_errE)
  show thesis
    by (rule that [of "it\<lparr>ci_fat := f, ci_cluster := nx\<rparr>"])
      (use assms(1) f in \<open>auto simp: it_holds_def cluster_iterator_next_def on_fat_def\<close>)
qed

lemma iterator_write_eq:
  assumes "it_holds ft co b it" "fat_fits ft b N" "unat c < N"
  obtains it' where "on_fat (write_fat ops ft c v) it = (Inr (), it')"
    "it_holds ft co (fat_set_bytes ft (unat c) v b) it'"
proof -
  obtain p where p: "holds b p (ci_fat it)" using assms(1) by (auto simp: it_holds_def)
  have "wp (write_fat ops ft c v) (\<lambda>_ f. \<exists>p'. holds (fat_set_bytes ft (unat c) v b) p' f) no_err (ci_fat it)"
    by (rule write_fat_wp [OF p assms(2,3)]) auto
  then obtain f p' where f: "write_fat ops ft c v (ci_fat it) = (Inr (), f)"
    "holds (fat_set_bytes ft (unat c) v b) p' f"
    by (auto elim!: wp_no_errE)
  show thesis
    by (rule that [of "it\<lparr>ci_fat := f\<rparr>"]) (use assms(1) f in \<open>auto simp: it_holds_def on_fat_def\<close>)
qed

lemma free_loop_eq:
  assumes "it_holds ft (Some c) b it" "fat_fits ft b N"
    and "fat_chain (fat_entry ft b) (c # cs)" "distinct (c # cs)" "\<And>d. d \<in> set (c # cs) \<Longrightarrow> unat d < N"
    and "unat n + length (c # cs) < 2 ^ 32"
  obtains it' where "cluster_iterator_free_loop ops n it = (Inr (n + of_nat (length (c # cs))), it')"
    "it_holds ft None (free_bytes ft (c # cs) b) it'"
  using assms
proof (induction cs arbitrary: c b it n thesis)
  case Nil
  have nx: "(case fat_entry ft b (unat c) of Data n \<Rightarrow> Some n | _ \<Rightarrow> None) = None"
    using Nil.prems(4) by (auto split: fat_value.splits)
  have c: "unat c < N" using Nil.prems(6) by simp
  obtain it1 where it1: "cluster_iterator_next ops it = (Inr (map_option Inr None), it1)"
    "it_holds ft None b it1"
    by (rule iterator_next_eq [OF Nil.prems(2,3) c nx [symmetric]])
  obtain it2 where it2: "on_fat (write_fat ops ft c Free) it1 = (Inr (), it2)"
    "it_holds ft None (fat_set_bytes ft (unat c) Free b) it2"
    by (rule iterator_write_eq [OF it1(2) Nil.prems(3) c])
  have "n \<noteq> 0xFFFFFFFF" using Nil.prems(7) by (auto simp: u32_max)
  then show ?case
    using Nil.prems(1) [of it2] Nil.prems(2) it1 it2
    by (simp add: cluster_iterator_free_loop.simps [of ops n] cluster_iterator_free_loop.simps [of ops "n + 1"]
        it_holds_def)
next
  case (Cons d cs)
  have nx: "(case fat_entry ft b (unat c) of Data n \<Rightarrow> Some n | _ \<Rightarrow> None) = Some d"
    using Cons.prems(4) by simp
  have c: "unat c < N" using Cons.prems(6) by simp
  let ?b1 = "fat_set_bytes ft (unat c) Free b"
  obtain it1 where it1: "cluster_iterator_next ops it = (Inr (map_option Inr (Some d)), it1)"
    "it_holds ft (Some d) b it1"
    by (rule iterator_next_eq [OF Cons.prems(2,3) c nx [symmetric]])
  obtain it2 where it2: "on_fat (write_fat ops ft c Free) it1 = (Inr (), it2)"
    "it_holds ft (Some d) ?b1 it2"
    by (rule iterator_write_eq [OF it1(2) Cons.prems(3) c])
  have n: "n \<noteq> 0xFFFFFFFF" "unat (n + 1) = unat n + 1" using u32_inc_small [of n] Cons.prems(7) by auto
  have keep: "fat_entry ft b (unat x) = fat_entry ft ?b1 (unat x)" if "x \<in> set (d # cs)" for x
  proof -
    have "unat x < N" "unat x \<noteq> unat c"
      using that Cons.prems(5,6) by (auto simp flip: word_unat_eq_iff)
    with fat_set_bytes_update [OF Cons.prems(3) c, of Free] show ?thesis
      by (simp add: value_fits_def fat_update_def)
  qed
  have ch: "fat_chain (fat_entry ft ?b1) (d # cs)"
    by (rule fat_chain_cong [of "fat_entry ft b"]) (use Cons.prems(4) keep in simp_all)
  obtain it3 where it3: "cluster_iterator_free_loop ops (n + 1) it2 =
      (Inr (n + 1 + of_nat (length (d # cs))), it3)" "it_holds ft None (free_bytes ft (d # cs) ?b1) it3"
    by (rule Cons.IH [where n = "n + 1", OF _ it2(2) fat_fits_set_bytes [OF Cons.prems(3) c] ch])
      (use Cons.prems(5-7) n in auto)
  show ?case
    by (rule Cons.prems(1) [of it3])
      (use Cons.prems(2) it1 it2 it3 n in
        \<open>simp_all add: cluster_iterator_free_loop.simps [of ops n] it_holds_def ac_simps\<close>)
qed

lemma iterator_free_eq:
  assumes "it_holds ft (Some c) b it" "fat_fits ft b N"
    and "fat_chain (fat_entry ft b) (c # cs)" "distinct (c # cs)" "\<And>d. d \<in> set (c # cs) \<Longrightarrow> unat d < N"
  obtains it' where "cluster_iterator_free ops it = (Inr (of_nat (length (c # cs))), it')"
    "it_holds ft None (free_bytes ft (c # cs) b) it'"
proof -
  have len: "length (c # cs) < 2 ^ 32" by (rule chain_length [OF assms(2,4,5)])
  show thesis
    by (rule free_loop_eq [OF assms, of 0]) (use that len in \<open>auto simp: cluster_iterator_free_def\<close>)
qed

lemma iterator_truncate_eq:
  assumes "it_holds ft (Some c) b it" "fat_fits ft b N"
    and "fat_chain (fat_entry ft b) (c # cs)" "distinct (c # cs)" "\<And>d. d \<in> set (c # cs) \<Longrightarrow> unat d < N"
  obtains it' where "cluster_iterator_truncate ops it = (Inr (of_nat (length cs)), it')"
    "it_holds ft None (free_bytes ft cs (fat_set_bytes ft (unat c) EndOfChain b)) it'"
proof -
  let ?b1 = "fat_set_bytes ft (unat c) EndOfChain b"
  have c: "unat c < N" using assms(5) by simp
  define nx where "nx = (case fat_entry ft b (unat c) of Data n \<Rightarrow> Some n | _ \<Rightarrow> None)"
  have nx: "nx = (case cs of [] \<Rightarrow> None | d # _ \<Rightarrow> Some d)"
    using assms(3) by (auto simp: nx_def split: list.splits fat_value.splits)
  obtain it1 where it1: "cluster_iterator_next ops it = (Inr (map_option Inr nx), it1)" "it_holds ft nx b it1"
    by (rule iterator_next_eq [OF assms(1,2) c nx_def])
  obtain it2 where it2: "on_fat (write_fat ops ft c EndOfChain) it1 = (Inr (), it2)" "it_holds ft nx ?b1 it2"
    by (rule iterator_write_eq [OF it1(2) assms(2) c])
  have tr: "cluster_iterator_truncate ops it = cluster_iterator_free ops it2"
    using assms(1) it1 it2 by (simp add: cluster_iterator_truncate_def it_holds_def sbind_def)
  show thesis
  proof (cases cs)
    case Nil
    then show ?thesis using that [of it2] it2(2) nx tr
      by (simp add: cluster_iterator_free_def cluster_iterator_free_loop.simps it_holds_def)
  next
    case (Cons d ds)
    have keep: "fat_entry ft b (unat x) = fat_entry ft ?b1 (unat x)" if "x \<in> set cs" for x
    proof -
      have "unat x < N" "unat x \<noteq> unat c"
        using that assms(4,5) by (auto simp flip: word_unat_eq_iff)
      with fat_set_bytes_update [OF assms(2) c, of EndOfChain] show ?thesis
        by (simp add: value_fits_def fat_update_def)
    qed
    have ch: "fat_chain (fat_entry ft ?b1) (d # ds)"
      by (rule fat_chain_cong [of "fat_entry ft b"]) (use assms(3) keep Cons in simp_all)
    have it2': "it_holds ft (Some d) ?b1 it2" using it2(2) nx Cons by simp
    obtain it3 where "cluster_iterator_free ops it2 = (Inr (of_nat (length (d # ds))), it3)"
      "it_holds ft None (free_bytes ft (d # ds) ?b1) it3"
      by (rule iterator_free_eq [OF it2' fat_fits_set_bytes [OF assms(2) c] ch])
        (use assms(4,5) Cons in auto)
    with tr Cons that show ?thesis by simp
  qed
qed

end

end
