(* ===== verification/Fat_Effects.thy ===== *)
theory Fat_Effects
  imports Fat_Spec
begin

text \<open>
  What the operations on the file allocation table do, told on its entries only: the three ways the
  table changes, how the number of free clusters changes with them, and the outcome of an allocation.
\<close>

section \<open>What the operations do to the entries\<close>

text \<open>The three ways the table changes, on its first \<open>N\<close> entries.\<close>

definition alloc_entries :: "fat_type \<Rightarrow> nat \<Rightarrow> u32 option \<Rightarrow> u32 \<Rightarrow> u8 list \<Rightarrow> u8 list \<Rightarrow> bool" where
  "alloc_entries ft N prev c b b' \<longleftrightarrow> length b' = length b \<and>
     (\<forall>e < N. fat_entry ft b' e =
        (if prev = Some (of_nat e) then Data c else if e = unat c then EndOfChain else fat_entry ft b e))"

definition free_entries :: "fat_type \<Rightarrow> nat \<Rightarrow> u32 list \<Rightarrow> u8 list \<Rightarrow> u8 list \<Rightarrow> bool" where
  "free_entries ft N cs b b' \<longleftrightarrow> length b' = length b \<and>
     (\<forall>e < N. fat_entry ft b' e = (if e \<in> unat ` set cs then Free else fat_entry ft b e))"

definition truncate_entries :: "fat_type \<Rightarrow> nat \<Rightarrow> u32 \<Rightarrow> u32 list \<Rightarrow> u8 list \<Rightarrow> u8 list \<Rightarrow> bool" where
  "truncate_entries ft N c cs b b' \<longleftrightarrow> length b' = length b \<and>
     (\<forall>e < N. fat_entry ft b' e =
        (if e = unat c then EndOfChain else if e \<in> unat ` set cs then Free else fat_entry ft b e))"

lemma fat_fits_u32: "fat_fits ft b N \<Longrightarrow> N < 2 ^ 32"
  by (cases ft) (auto simp: fat_fits_def fat_limit_def)

lemma alloc_start_cluster_le:
  assumes "N = unat tot + 2" "N < 2 ^ 32"
  shows "unat (alloc_start_cluster hint (tot + 2)) \<le> N"
  using assms by (auto simp: alloc_start_cluster_def RESERVED_FAT_ENTRIES_def word_less_nat_alt
      unat_add_noof split: option.splits)

lemma alloc_bytes_entries:
  assumes "fat_fits ft b N" "n < N" "0 < n" "\<And>q. prev = Some q \<Longrightarrow> unat q < N"
  shows "alloc_entries ft N prev (of_nat n) b (alloc_bytes ft prev n b)"
proof -
  have "unat (of_nat n :: u32) = n" using assms(2) fat_fits_u32 [OF assms(1)] by (simp add: unat_of_nat)
  then show ?thesis
    using alloc_bytes_entry [OF assms(1-4)] assms(2) by (auto simp: alloc_entries_def)
qed

lemma free_bytes_entries:
  assumes "fat_fits ft b N" "\<And>x. x \<in> set cs \<Longrightarrow> unat x < N"
  shows "free_entries ft N cs b (free_bytes ft cs b)"
  using free_bytes_entry [OF assms] length_free_bytes [OF assms] by (simp add: free_entries_def)

lemma truncate_bytes_entries:
  assumes "fat_fits ft b N" "distinct (c # cs)" "\<And>x. x \<in> set (c # cs) \<Longrightarrow> unat x < N"
  shows "truncate_entries ft N c cs b (free_bytes ft cs (fat_set_bytes ft (unat c) EndOfChain b))"
proof -
  let ?b1 = "fat_set_bytes ft (unat c) EndOfChain b"
  have c: "unat c < N" using assms(3) by simp
  have u: "fat_update ft N (unat c) EndOfChain b ?b1"
    by (rule fat_set_bytes_update [OF assms(1) c]) (simp add: value_fits_def)
  have f: "free_entries ft N cs ?b1 (free_bytes ft cs ?b1)"
    by (rule free_bytes_entries [OF fat_fits_set_bytes [OF assms(1) c]]) (use assms(3) in simp)
  have "unat c \<notin> unat ` set cs" using assms(2) by (auto simp flip: word_unat_eq_iff)
  with u f show ?thesis by (auto simp: truncate_entries_def free_entries_def fat_update_def)
qed

subsection \<open>The number of free clusters\<close>

lemma num_free_alloc:
  assumes "alloc_entries ft N prev c b b'" "2 \<le> unat c" "unat c < N" "fat_entry ft b (unat c) = Free" "N \<le> 2 ^ 32"
    and "\<And>q. prev = Some q \<Longrightarrow> fat_entry ft b (unat q) \<noteq> Free"
  shows "num_free ft b 2 N = num_free ft b' 2 N + 1"
proof -
  let ?F = "\<lambda>b. {e. 2 \<le> e \<and> e < N \<and> fat_entry ft b e = Free}"
  have "e \<in> ?F b' \<longleftrightarrow> e \<in> ?F b \<and> e \<noteq> unat c" for e
  proof (cases "e < N")
    case True
    have u: "unat (of_nat e :: u32) = e" using True assms(5) by (simp add: unat_of_nat)
    have "fat_entry ft b e \<noteq> Free" if "prev = Some (of_nat e)" using assms(6) [OF that] u by simp
    moreover have "prev \<noteq> Some (of_nat e)" if "e = unat c" using that assms(4,6) u by auto
    ultimately show ?thesis using assms(1) True by (auto simp: alloc_entries_def)
  qed simp
  then have F: "?F b' = ?F b - {unat c}" by blast
  have "card (?F b) = Suc (card (?F b'))" unfolding F by (rule card_Suc_Diff1 [symmetric]) (use assms(2-4) in auto)
  then show ?thesis by (simp add: num_free_card)
qed

lemma num_free_free:
  assumes "free_entries ft N cs b b'" "distinct cs" "\<And>x. x \<in> set cs \<Longrightarrow> 2 \<le> unat x \<and> unat x < N"
    and "\<And>x. x \<in> set cs \<Longrightarrow> fat_entry ft b (unat x) \<noteq> Free"
  shows "num_free ft b' 2 N = num_free ft b 2 N + length cs"
proof -
  let ?F = "\<lambda>b. {e. 2 \<le> e \<and> e < N \<and> fat_entry ft b e = Free}"
  have cs: "2 \<le> e \<and> e < N" if "e \<in> unat ` set cs" for e using that assms(3) by auto
  have "e \<in> ?F b' \<longleftrightarrow> e \<in> ?F b \<union> unat ` set cs" for e
    using assms(1) cs [of e] by (cases "e < N") (auto simp: free_entries_def)
  then have "?F b' = ?F b \<union> unat ` set cs" by blast
  also have "card \<dots> = card (?F b) + card (unat ` set cs)"
    by (rule card_Un_disjoint) (use assms(4) in auto)
  also have "card (unat ` set cs) = length cs"
    using assms(2) by (simp add: card_image distinct_card inj_on_def flip: word_unat_eq_iff)
  finally show ?thesis by (simp add: num_free_card)
qed

lemma num_free_truncate:
  assumes "truncate_entries ft N c cs b b'" "distinct (c # cs)" "\<And>x. x \<in> set (c # cs) \<Longrightarrow> 2 \<le> unat x \<and> unat x < N"
    and "\<And>x. x \<in> set (c # cs) \<Longrightarrow> fat_entry ft b (unat x) \<noteq> Free"
  shows "num_free ft b' 2 N = num_free ft b 2 N + length cs"
proof -
  let ?F = "\<lambda>b. {e. 2 \<le> e \<and> e < N \<and> fat_entry ft b e = Free}"
  have c: "unat c \<notin> unat ` set cs" using assms(2) by (auto simp flip: word_unat_eq_iff)
  have cs: "2 \<le> e \<and> e < N" if "e \<in> unat ` set cs" for e using that assms(3) by auto
  have "e \<in> ?F b' \<longleftrightarrow> e \<in> ?F b \<union> unat ` set cs" for e
    using assms(1) c cs [of e] assms(4) [of c] by (cases "e < N") (auto simp: truncate_entries_def)
  then have "?F b' = ?F b \<union> unat ` set cs" by blast
  also have "card \<dots> = card (?F b) + card (unat ` set cs)"
    by (rule card_Un_disjoint) (use assms(4) in auto)
  also have "card (unat ` set cs) = length cs"
    using assms(2) by (simp add: card_image distinct_card inj_on_def flip: word_unat_eq_iff)
  finally show ?thesis by (simp add: num_free_card)
qed

context byte_stream
begin

lemma alloc_cluster_entries_wp:
  assumes "holds b p s" "fat_fits ft b (unat tot + 2)" "0 < unat tot"
    and "\<And>q. prev = Some q \<Longrightarrow> unat q < unat tot + 2" "\<And>h. hint = Some h \<Longrightarrow> 2 \<le> unat h"
  shows "wp (alloc_cluster ops ft prev hint tot)
    (\<lambda>c s'. \<exists>b' p'. holds b' p' s' \<and> 2 \<le> unat c \<and> unat c < unat tot + 2 \<and> fat_entry ft b (unat c) = Free \<and>
       alloc_entries ft (unat tot + 2) prev c b b')
    (\<lambda>e s'. e = Io Other \<and> (\<exists>p'. holds b p' s') \<and> num_free ft b 2 (unat tot + 2) = 0) s"
proof (rule alloc_cluster_wp [OF assms(1,2) refl assms(3,4)])
  let ?N = "unat tot + 2" and ?st = "unat (alloc_start_cluster hint (tot + 2))"
  note N = fat_fits_u32 [OF assms(2)]
  have st: "?st \<le> ?N" "2 \<le> ?st"
    using alloc_start_cluster_le [OF refl N] assms(5)
    by (auto simp: alloc_start_cluster_def RESERVED_FAT_ENTRIES_def split: option.splits)
  fix n s' p' assume n: "alloc_target ft b ?st ?N = Some n" and h: "holds (alloc_bytes ft prev n b) p' s'"
  from alloc_target_Some [OF n st(1)] st(2) have nn: "n < ?N" "fat_entry ft b n = Free" "2 \<le> n" "0 < n" by auto
  moreover have "unat (of_nat n :: u32) = n" using nn(1) N by (simp add: unat_of_nat)
  ultimately show "\<exists>b' p'. holds b' p' s' \<and> 2 \<le> unat (of_nat n :: u32) \<and> unat (of_nat n :: u32) < ?N \<and>
      fat_entry ft b (unat (of_nat n :: u32)) = Free \<and> alloc_entries ft ?N prev (of_nat n) b b'"
    using h alloc_bytes_entries [OF assms(2) nn(1,4) assms(4)] by auto
next
  fix s' p' assume n: "alloc_target ft b (unat (alloc_start_cluster hint (tot + 2))) (unat tot + 2) = None"
    and h: "holds b p' s'"
  have "num_free ft b 2 (unat tot + 2) = 0"
    using alloc_target_None [OF n] unfolding num_free_card by (simp add: card_eq_0_iff)
  with h show "Io Other = Io Other \<and> (\<exists>p'. holds b p' s') \<and> num_free ft b 2 (unat tot + 2) = 0" by blast
qed

end

end
