(* ===== verification/Fat_Props.thy ===== *)
theory Fat_Props
  imports Fat_Effects
begin

text \<open>
  The properties of the file allocation table, stated for the stream the file system uses: a
  \<open>DiskSlice\<close> with mirrors over a disk held in memory (\<open>disk_slice_ops cursor_ops\<close>). They rest on
  the facts of \<open>Fat_Spec\<close> through the interpretation of \<open>sliced_stream\<close> on the cursor.
\<close>

abbreviation fat_ops :: "cursor disk_slice rws" where
  "fat_ops \<equiv> disk_slice_ops cursor_ops"

text \<open>\<open>fat_slice d b\<close>: the slice lies on the disk with all its mirrors, and its first copy holds \<open>b\<close>.\<close>

definition fat_slice :: "cursor disk_slice \<Rightarrow> u8 list \<Rightarrow> bool" where
  "fat_slice d b \<longleftrightarrow> cursor_slice.slice_inv d \<and> cursor_slice.slice_bytes d = b"

lemma fat_slice_holds: "fat_slice d b \<Longrightarrow> cursor_slice.slice.holds b (ds_offset d) d"
  by (simp add: fat_slice_def cursor_slice.slice.holds_def)

lemma holds_fat_slice: "cursor_slice.slice.holds b p d \<Longrightarrow> fat_slice d b"
  by (simp add: fat_slice_def cursor_slice.slice.holds_def)

text \<open>A FAT16 of six entries with two mirrors, used to instantiate the properties.\<close>

definition demo_table :: "u8 list" where
  "demo_table = [0xF8, 0xFF, 0xFF, 0xFF, 3, 0, 0xFF, 0xFF, 0, 0, 0, 0]"

definition demo_slice :: "cursor disk_slice" where
  "demo_slice = disk_slice_new 2 12 2 \<lparr>cur_inner = [7, 7] @ demo_table @ demo_table, cur_pos = 0\<rparr>"

lemma demo_slice: "fat_slice demo_slice demo_table"
  by (simp add: fat_slice_def demo_slice_def demo_table_def cursor_slice.slice_inv_def
      cursor_slice.slice_bytes_def disk_slice_new_def window_def)

lemma demo_fits: "fat_fits Fat16 demo_table 6"
  by (simp add: fat_fits_def fat_limit_def demo_table_def)

lemma demo_entries:
  "fat_entry Fat16 demo_table 2 = Data 3" "fat_entry Fat16 demo_table 3 = EndOfChain"
  "fat_entry Fat16 demo_table 4 = Free" "fat_entry Fat16 demo_table 5 = Free"
  by (simp_all add: fat_entry_def fat_raw_def demo_table_def window_def of_le16_def fat16_decode_def)

section \<open>Writing and reading entries\<close>

text \<open>C24: \<open>write_fat\<close> updates exactly one entry: it succeeds, the entry of the cluster reads back as
  the value written, and every other entry of the table is unchanged, for all three widths of FAT.\<close>

theorem write_fat_updates_one_entry:
  assumes "fat_slice d b" "fat_fits ft b N" "unat c < N" "value_fits ft v"
  shows "\<exists>d' b'. write_fat fat_ops ft c v d = (Inr (), d') \<and> fat_slice d' b' \<and> length b' = length b \<and>
    (\<forall>e < N. fat_entry ft b' e = (if e = unat c then v else fat_entry ft b e)) \<and>
    (\<exists>d''. read_fat fat_ops ft c d' = (Inr v, d'') \<and> fat_slice d'' b')"
proof -
  let ?b' = "fat_set_bytes ft (unat c) v b"
  note up = fat_set_bytes_update [OF assms(2-4)] and fits = fat_fits_set_bytes [OF assms(2,3), of v]
  have "wp (write_fat fat_ops ft c v) (\<lambda>_ d'. \<exists>p. cursor_slice.slice.holds ?b' p d') no_err d"
    by (rule cursor_slice.slice.write_fat_wp [OF fat_slice_holds [OF assms(1)] assms(2,3)]) auto
  then obtain d' p where d': "write_fat fat_ops ft c v d = (Inr (), d')" "cursor_slice.slice.holds ?b' p d'"
    by (auto elim!: wp_no_errE)
  have "wp (read_fat fat_ops ft c) (\<lambda>r d''. r = v \<and> fat_slice d'' ?b') no_err d'"
    by (rule cursor_slice.slice.read_fat_wp [OF d'(2) fits assms(3)])
      (use up assms(3) in \<open>auto simp: fat_update_def intro: holds_fat_slice\<close>)
  then show ?thesis
    using d' up by (auto simp: fat_update_def intro: holds_fat_slice elim!: wp_no_errE)
qed

theorem write_fat_updates_one_entry_witness:
  "\<exists>d' b'. write_fat fat_ops Fat16 4 (Data 5) demo_slice = (Inr (), d') \<and> fat_slice d' b' \<and>
    fat_entry Fat16 b' 4 = Data 5 \<and> fat_entry Fat16 b' 2 = Data 3"
proof -
  have "value_fits Fat16 (Data 5)" by (simp add: value_fits_def fat_limit_def)
  from write_fat_updates_one_entry [OF demo_slice demo_fits _ this, of 4]
  show ?thesis by (force simp: demo_entries)
qed

section \<open>Allocation\<close>

lemma alloc_cluster_outcome:
  assumes "fat_slice d b" "fat_fits ft b N" "N = unat tot + 2" "0 < unat tot"
    and "\<And>q. prev = Some q \<Longrightarrow> unat q < N"
  shows "wp (alloc_cluster fat_ops ft prev hint tot)
    (\<lambda>r d'. \<exists>n. alloc_target ft b (unat (alloc_start_cluster hint (tot + 2))) N = Some n \<and>
       r = of_nat n \<and> fat_slice d' (alloc_bytes ft prev n b))
    (\<lambda>e d'. alloc_target ft b (unat (alloc_start_cluster hint (tot + 2))) N = None \<and>
       e = Io Other \<and> fat_slice d' b) d"
  by (rule cursor_slice.slice.alloc_cluster_wp [OF fat_slice_holds [OF assms(1)] assms(2-5)])
    (auto intro: holds_fat_slice)

text \<open>C22: \<open>alloc_cluster\<close> returns a cluster that was free, marks it end-of-chain, links the previous
  cluster to it and leaves every other entry alone. It fails only when no data cluster is free, with
  \<open>ErrorKind::Other\<close>, and then the table is unchanged.\<close>

theorem alloc_cluster_correct:
  assumes "fat_slice d b" "fat_fits ft b (unat tot + 2)" "0 < unat tot"
    and "\<And>q. prev = Some q \<Longrightarrow> unat q < unat tot + 2"
    and "\<And>h. hint = Some h \<Longrightarrow> 2 \<le> unat h"
  shows "case alloc_cluster fat_ops ft prev hint tot d of
      (Inr c, d') \<Rightarrow> 2 \<le> unat c \<and> unat c < unat tot + 2 \<and> fat_entry ft b (unat c) = Free \<and>
        (\<exists>b'. fat_slice d' b' \<and> length b' = length b \<and>
          (\<forall>e < unat tot + 2. fat_entry ft b' e =
             (if prev = Some (of_nat e) then Data c else if e = unat c then EndOfChain else fat_entry ft b e)))
    | (Inl err, d') \<Rightarrow> err = Io Other \<and> fat_slice d' b \<and>
        (\<forall>e. 2 \<le> e \<and> e < unat tot + 2 \<longrightarrow> fat_entry ft b e \<noteq> Free)"
proof -
  let ?N = "unat tot + 2"
  have "wp (alloc_cluster fat_ops ft prev hint tot)
    (\<lambda>c d'. \<exists>b' p'. cursor_slice.slice.holds b' p' d' \<and> 2 \<le> unat c \<and> unat c < ?N \<and> fat_entry ft b (unat c) = Free \<and>
       alloc_entries ft ?N prev c b b')
    (\<lambda>e d'. e = Io Other \<and> (\<exists>p'. cursor_slice.slice.holds b p' d') \<and> num_free ft b 2 ?N = 0) d"
    by (rule cursor_slice.slice.alloc_cluster_entries_wp [OF fat_slice_holds [OF assms(1)] assms(2-5)])
  moreover have "\<forall>e. 2 \<le> e \<and> e < ?N \<longrightarrow> fat_entry ft b e \<noteq> Free" if "num_free ft b 2 ?N = 0"
    using that by (auto simp: num_free_card card_eq_0_iff)
  ultimately show ?thesis
    by (auto simp: wp_def alloc_entries_def dest!: holds_fat_slice split: prod.splits sum.splits)
qed

theorem alloc_cluster_correct_witness:
  "\<exists>d' b'. alloc_cluster fat_ops Fat16 (Some 3) (Some 5) 4 demo_slice = (Inr 5, d') \<and> fat_slice d' b' \<and>
    fat_entry Fat16 b' 3 = Data 5 \<and> fat_entry Fat16 b' 5 = EndOfChain \<and> fat_entry Fat16 b' 4 = Free"
proof -
  have fits: "fat_fits Fat16 demo_table (unat (4 :: u32) + 2)" using demo_fits by simp
  have "wp (alloc_cluster fat_ops Fat16 (Some 3) (Some 5) 4) (\<lambda>r d'. r = 5) no_err demo_slice"
    by (rule wp_mono [OF alloc_cluster_outcome [OF demo_slice fits refl]])
      (auto simp: alloc_start_cluster_def alloc_target_def first_free_def demo_entries no_err_def upt_conv_Cons)
  then obtain d' where d': "alloc_cluster fat_ops Fat16 (Some 3) (Some 5) 4 demo_slice = (Inr 5, d')"
    by (auto elim!: wp_no_errE)
  have "case alloc_cluster fat_ops Fat16 (Some 3) (Some 5) 4 demo_slice of
      (Inr c, d') \<Rightarrow> 2 \<le> unat c \<and> unat c < unat (4 :: u32) + 2 \<and> fat_entry Fat16 demo_table (unat c) = Free \<and>
        (\<exists>b'. fat_slice d' b' \<and> length b' = length demo_table \<and>
          (\<forall>e < unat (4 :: u32) + 2. fat_entry Fat16 b' e =
             (if Some 3 = Some (of_nat e :: u32) then Data c else if e = unat c then EndOfChain
              else fat_entry Fat16 demo_table e)))
    | (Inl err, d') \<Rightarrow> err = Io Other \<and> fat_slice d' demo_table \<and>
        (\<forall>e. 2 \<le> e \<and> e < unat (4 :: u32) + 2 \<longrightarrow> fat_entry Fat16 demo_table e \<noteq> Free)"
    by (rule alloc_cluster_correct [OF demo_slice fits]) auto
  then show ?thesis unfolding d' by (force simp: demo_entries)
qed

text \<open>C32: allocating with the last cluster of a chain as predecessor extends the chain by the new
  cluster: following the table from the first cluster gives the old chain and then the new one.\<close>

theorem alloc_cluster_extends_chain:
  assumes "fat_slice d b" "fat_fits ft b (unat tot + 2)" "0 < unat tot"
    and "\<And>h. hint = Some h \<Longrightarrow> 2 \<le> unat h"
    and "fat_chain (fat_entry ft b) cs" "distinct cs" "\<And>x. x \<in> set cs \<Longrightarrow> unat x < unat tot + 2"
    and "\<And>x. x \<in> set cs \<Longrightarrow> fat_entry ft b (unat x) \<noteq> Free"
    and "alloc_cluster fat_ops ft (Some (last cs)) hint tot d = (Inr c, d')"
  shows "\<exists>b'. fat_slice d' b' \<and> fat_chain (fat_entry ft b') (cs @ [c])"
proof -
  let ?N = "unat tot + 2" and ?st = "unat (alloc_start_cluster hint (tot + 2))"
  note N = fat_fits_u32 [OF assms(2)]
  have cs: "cs \<noteq> []" using assms(5) by auto
  have last: "Some (last cs) = Some q \<Longrightarrow> unat q < ?N" for q using assms(7) cs by auto
  from alloc_cluster_outcome [where prev = "Some (last cs)" and hint = hint,
      OF assms(1,2) refl assms(3) last] assms(9)
  obtain n where n: "alloc_target ft b ?st ?N = Some n" "c = of_nat n"
    "fat_slice d' (alloc_bytes ft (Some (last cs)) n b)" by (auto simp: wp_def)
  from alloc_target_Some [OF n(1) alloc_start_cluster_le [OF refl N]]
  have nn: "n < ?N" "fat_entry ft b n = Free" "0 < n"
    using assms(4) by (auto simp: alloc_start_cluster_def RESERVED_FAT_ENTRIES_def split: option.splits if_splits)
  have un: "unat c = n" using n(2) nn(1) N by (simp add: unat_of_nat)
  let ?g = "fat_entry ft (alloc_bytes ft (Some (last cs)) n b)"
  have g: "?g e = (if last cs = of_nat e then Data c else if e = n then EndOfChain else fat_entry ft b e)"
    if "e < ?N" for e
    using alloc_bytes_entry(2) [where prev = "Some (last cs)", OF assms(2) nn(1,3) last that] n(2) by simp
  have new: "c \<notin> set cs" using assms(8) [of c] nn(2) un by auto
  have "fat_chain ?g (cs @ [c])"
  proof (rule fat_chain_snoc [OF assms(5,6) new])
    show "?g (unat (last cs)) = Data c" using g [of "unat (last cs)"] assms(7) cs by simp
    show "?g (unat x) = fat_entry ft b (unat x)" if x: "x \<in> set (butlast cs)" for x
    proof -
      have "x \<noteq> last cs" using assms(6) x cs
        by (metis append_butlast_last_id distinct_append disjoint_iff list.set_intros(1))
      moreover have "unat x \<noteq> n" using new un in_set_butlastD [OF x] by (auto simp flip: word_unat_eq_iff)
      ultimately show ?thesis using g [of "unat x"] assms(7) in_set_butlastD [OF x] by simp
    qed
    have "last cs \<noteq> c" using new cs last_in_set by blast
    then show "case ?g (unat c) of Data _ \<Rightarrow> False | _ \<Rightarrow> True" using g [of n] nn(1) n(2) un by simp
  qed
  with n(3) show ?thesis by blast
qed

theorem alloc_cluster_extends_chain_witness:
  "\<exists>c d' b'. alloc_cluster fat_ops Fat16 (Some 3) None 4 demo_slice = (Inr c, d') \<and> fat_slice d' b' \<and>
    fat_chain (fat_entry Fat16 b') [2, 3, c]"
proof -
  have fits: "fat_fits Fat16 demo_table (unat (4 :: u32) + 2)" using demo_fits by simp
  have "wp (alloc_cluster fat_ops Fat16 (Some 3) None 4) (\<lambda>r d'. True) no_err demo_slice"
    by (rule wp_mono [OF alloc_cluster_outcome [OF demo_slice fits refl]])
      (auto simp: alloc_start_cluster_def alloc_target_def first_free_def demo_entries no_err_def
         RESERVED_FAT_ENTRIES_def upt_conv_Cons)
  then obtain c d' where d': "alloc_cluster fat_ops Fat16 (Some (last [2, 3])) None 4 demo_slice = (Inr c, d')"
    by (auto elim!: wp_no_errE)
  have "\<exists>b'. fat_slice d' b' \<and> fat_chain (fat_entry Fat16 b') ([2, 3] @ [c])"
    by (rule alloc_cluster_extends_chain [OF demo_slice fits _ _ _ _ _ _ d']) (auto simp: demo_entries)
  then show ?thesis using d' by auto
qed

section \<open>Following, truncating and freeing chains\<close>

lemma iterator_on_slice:
  "fat_slice d b \<Longrightarrow> cursor_slice.slice.it_holds ft (Some c) b (cluster_iterator_new d ft c)"
  using fat_slice_holds by (auto simp: cursor_slice.slice.it_holds_def cluster_iterator_new_def)

lemma slice_of_iterator: "cursor_slice.slice.it_holds ft co b it \<Longrightarrow> fat_slice (ci_fat it) b"
  by (auto simp: cursor_slice.slice.it_holds_def intro: holds_fat_slice)

text \<open>C30: \<open>ClusterIterator::truncate\<close> at a cluster of an acyclic chain marks it end-of-chain, frees
  exactly the clusters after it, returns their number, and leaves every other entry alone.\<close>

theorem truncate_frees_tail:
  assumes "fat_slice d b" "fat_fits ft b N"
    and "fat_chain (fat_entry ft b) (c # cs)" "distinct (c # cs)" "\<And>x. x \<in> set (c # cs) \<Longrightarrow> unat x < N"
  shows "\<exists>it' b'. cluster_iterator_truncate fat_ops (cluster_iterator_new d ft c) =
      (Inr (of_nat (length cs)), it') \<and> fat_slice (ci_fat it') b' \<and> ci_cluster it' = None \<and>
    (\<forall>e < N. fat_entry ft b' e =
      (if e = unat c then EndOfChain else if e \<in> unat ` set cs then Free else fat_entry ft b e))"
proof -
  let ?b1 = "fat_set_bytes ft (unat c) EndOfChain b"
  obtain it' where it': "cluster_iterator_truncate fat_ops (cluster_iterator_new d ft c) =
      (Inr (of_nat (length cs)), it')" "cursor_slice.slice.it_holds ft None (free_bytes ft cs ?b1) it'"
    by (rule cursor_slice.slice.iterator_truncate_eq [OF iterator_on_slice [OF assms(1)] assms(2-5)])
  have "truncate_entries ft N c cs b (free_bytes ft cs ?b1)"
    by (rule truncate_bytes_entries [OF assms(2,4,5)])
  with it' slice_of_iterator [OF it'(2)] show ?thesis
    by (auto simp: cursor_slice.slice.it_holds_def truncate_entries_def)
qed

theorem truncate_frees_tail_witness:
  "\<exists>it' b'. cluster_iterator_truncate fat_ops (cluster_iterator_new demo_slice Fat16 2) = (Inr 1, it') \<and>
    fat_slice (ci_fat it') b' \<and> fat_entry Fat16 b' 2 = EndOfChain \<and> fat_entry Fat16 b' 3 = Free"
proof -
  have "\<exists>it' b'. cluster_iterator_truncate fat_ops (cluster_iterator_new demo_slice Fat16 2) =
      (Inr (of_nat (length [3 :: u32])), it') \<and> fat_slice (ci_fat it') b' \<and> ci_cluster it' = None \<and>
    (\<forall>e < 6. fat_entry Fat16 b' e = (if e = unat (2 :: u32) then EndOfChain
      else if e \<in> unat ` set [3 :: u32] then Free else fat_entry Fat16 demo_table e))"
    by (rule truncate_frees_tail [OF demo_slice demo_fits]) (auto simp: demo_entries)
  then show ?thesis by force
qed

text \<open>C31: \<open>ClusterIterator::free\<close> on an acyclic chain frees exactly the clusters of the chain and
  returns their number; the loop ends.\<close>

theorem free_frees_chain:
  assumes "fat_slice d b" "fat_fits ft b N"
    and "fat_chain (fat_entry ft b) (c # cs)" "distinct (c # cs)" "\<And>x. x \<in> set (c # cs) \<Longrightarrow> unat x < N"
  shows "\<exists>it' b'. cluster_iterator_free fat_ops (cluster_iterator_new d ft c) =
      (Inr (of_nat (length (c # cs))), it') \<and> fat_slice (ci_fat it') b' \<and>
    (\<forall>e < N. fat_entry ft b' e = (if e \<in> unat ` set (c # cs) then Free else fat_entry ft b e)) \<and>
    num_free ft b' 0 N = num_free ft b 0 N + length (filter (\<lambda>x. fat_entry ft b (unat x) \<noteq> Free) (c # cs))"
proof -
  let ?b' = "free_bytes ft (c # cs) b"
  obtain it' where it': "cluster_iterator_free fat_ops (cluster_iterator_new d ft c) =
      (Inr (of_nat (length (c # cs))), it')" "cursor_slice.slice.it_holds ft None ?b' it'"
    by (rule cursor_slice.slice.iterator_free_eq [OF iterator_on_slice [OF assms(1)] assms(2-5)])
  have e: "\<forall>e < N. fat_entry ft ?b' e = (if e \<in> unat ` set (c # cs) then Free else fat_entry ft b e)"
    using free_bytes_entry [OF assms(2,5)] by blast
  let ?F = "{e. e < N \<and> fat_entry ft b e = Free}" and ?C = "set (filter (\<lambda>x. fat_entry ft b (unat x) \<noteq> Free) (c # cs))"
  have "{e. e < N \<and> fat_entry ft ?b' e = Free} = ?F \<union> unat ` ?C"
    using e assms(5) by (auto split: if_splits)
  also have "card \<dots> = card ?F + card (unat ` ?C)"
    by (rule card_Un_disjoint) auto
  also have "card (unat ` ?C) = card ?C" by (rule card_image) (simp add: inj_on_def flip: word_unat_eq_iff)
  also have "card ?C = length (filter (\<lambda>x. fat_entry ft b (unat x) \<noteq> Free) (c # cs))"
    using assms(4) by (intro distinct_card distinct_filter)
  finally have "num_free ft ?b' 0 N =
      num_free ft b 0 N + length (filter (\<lambda>x. fat_entry ft b (unat x) \<noteq> Free) (c # cs))"
    by (simp add: num_free_card)
  with e it' slice_of_iterator [OF it'(2)] show ?thesis by blast
qed

theorem free_frees_chain_witness:
  "\<exists>it' b'. cluster_iterator_free fat_ops (cluster_iterator_new demo_slice Fat16 2) = (Inr 2, it') \<and>
    fat_slice (ci_fat it') b' \<and> fat_entry Fat16 b' 2 = Free \<and> fat_entry Fat16 b' 3 = Free"
proof -
  have "\<exists>it' b'. cluster_iterator_free fat_ops (cluster_iterator_new demo_slice Fat16 2) =
      (Inr (of_nat (length [2, 3 :: u32])), it') \<and> fat_slice (ci_fat it') b' \<and>
    (\<forall>e < 6. fat_entry Fat16 b' e = (if e \<in> unat ` set [2, 3 :: u32] then Free else fat_entry Fat16 demo_table e)) \<and>
    num_free Fat16 b' 0 6 = num_free Fat16 demo_table 0 6 +
      length (filter (\<lambda>x. fat_entry Fat16 demo_table (unat x) \<noteq> Free) [2, 3 :: u32])"
    by (rule free_frees_chain [OF demo_slice demo_fits]) (auto simp: demo_entries)
  then show ?thesis by force
qed

text \<open>\<open>count_free_clusters\<close> returns the number of free data clusters and changes nothing.\<close>

lemma count_free_clusters_correct:
  assumes "fat_slice d b" "fat_fits ft b (unat tot + 2)"
  shows "\<exists>n d'. count_free_clusters fat_ops ft tot d = (Inr n, d') \<and> fat_slice d' b \<and>
    unat n = card {c. 2 \<le> c \<and> c < unat tot + 2 \<and> fat_entry ft b c = Free}"
proof -
  let ?S = "{c. 2 \<le> c \<and> c < unat tot + 2 \<and> fat_entry ft b c = Free}"
  have "unat (of_nat (card ?S) :: u32) = card ?S"
    using num_free_le [of ft b 2 "unat tot + 2"] fat_fits_u32 [OF assms(2)] by (simp add: unat_of_nat num_free_card)
  moreover have "wp (count_free_clusters fat_ops ft tot) (\<lambda>r d'. r = of_nat (card ?S) \<and> fat_slice d' b) no_err d"
    by (rule cursor_slice.slice.count_free_clusters_wp [OF fat_slice_holds [OF assms(1)] assms(2)])
      (auto simp: num_free_card intro: holds_fat_slice)
  ultimately show ?thesis by (auto elim!: wp_no_errE)
qed

end
