(* ===== verification/Stream_Codec.thy ===== *)
theory Stream_Codec
  imports Byte_Stream
begin

text \<open>
  Encoders and decoders over a byte stream. \<open>emits m bs\<close> says that the computation \<open>m\<close> writes exactly
  the bytes \<open>bs\<close> at the position of the stream, \<open>parses m bs v\<close> that \<open>m\<close> reads \<open>v\<close> where the stream
  has the bytes \<open>bs\<close>. Both compose along the sequences of field accesses of \<open>serialize\<close> and
  \<open>deserialize\<close> functions; a round trip is then an equality of byte lists. \<open>read_u16_into\<close> and the
  loops that write an array complete the integers of \<open>fatfs/src/byteorder_core_io.rs\<close>.
\<close>

section \<open>Arrays of integers\<close>

fun of_le16s :: "u8 list \<Rightarrow> u16 list" where
  "of_le16s (a # b # bs) = of_le16 [a, b] # of_le16s bs"
| "of_le16s _ = []"

definition read_u16_into :: "'s rws \<Rightarrow> nat \<Rightarrow> ('s, u16 list) st" where
  "read_u16_into ops n = sbind (io_read_exact ops (2 * n)) (\<lambda>bs. sret (of_le16s bs))"

fun write_u16s :: "'s rws \<Rightarrow> u16 list \<Rightarrow> ('s, unit) st" where
  "write_u16s ops [] = sret ()"
| "write_u16s ops (x # xs) = sbind (write_u16 ops x) (\<lambda>_. write_u16s ops xs)"

lemma of_le16s_le16 [simp]: "of_le16s (le16 x @ bs) = x # of_le16s bs"
proof -
  have "of_le16s (le16 x @ bs) = of_le16 (le16 x) # of_le16s bs" by (simp add: le16_def)
  then show ?thesis by simp
qed

lemma of_le16s_concat [simp]: "of_le16s (concat (map le16 xs)) = xs"
  by (induction xs) simp_all

lemma length_concat_le16 [simp]: "length (concat (map le16 xs)) = 2 * length xs"
  by (induction xs) simp_all

lemma length_of_le16s [simp]: "length (of_le16s bs) = length bs div 2"
  by (induction bs rule: of_le16s.induct) simp_all

lemma concat_of_le16s: "even (length bs) \<Longrightarrow> concat (map le16 (of_le16s bs)) = bs"
proof (induction bs rule: of_le16s.induct)
  case (1 a b bs)
  have "le16 (of_le16 [a, b]) = [a, b]" by (rule le16_of_le16) simp
  with 1 show ?case by simp
qed auto

section \<open>Encoders and decoders\<close>

context exact_stream
begin

definition parses :: "('s, 'a) st \<Rightarrow> u8 list \<Rightarrow> 'a \<Rightarrow> bool" where
  "parses m bs v \<longleftrightarrow> (\<forall>b p s. holds b p s \<longrightarrow> p + length bs \<le> length b \<longrightarrow> window p (length bs) b = bs \<longrightarrow>
     wp m (\<lambda>r s'. r = v \<and> holds b (p + length bs) s') no_err s)"

lemma parsesD:
  "parses m bs v \<Longrightarrow> holds b p s \<Longrightarrow> p + length bs \<le> length b \<Longrightarrow> window p (length bs) b = bs \<Longrightarrow>
   \<exists>s'. m s = (Inr v, s') \<and> holds b (p + length bs) s'"
  unfolding parses_def wp_no_err_iff by blast

lemma parses_ret: "parses (sret x) [] x"
  by (simp add: parses_def)

lemma parses_reteq: "v = x \<Longrightarrow> parses (sret x) [] v"
  by (simp add: parses_def)

lemma parses_bind:
  assumes "parses m xs v" "parses (f v) ys w"
  shows "parses (sbind m f) (xs @ ys) w"
  unfolding parses_def
proof (intro allI impI)
  fix b p s assume h: "holds b p s" "p + length (xs @ ys) \<le> length b" "window p (length (xs @ ys)) b = xs @ ys"
  have "window p (length xs) b @ window (p + length xs) (length ys) b = xs @ ys"
    using h(3) by (simp add: window_append)
  then have w: "window p (length xs) b = xs" "window (p + length xs) (length ys) b = ys"
    using h(2) by (simp_all add: append_eq_append_conv)
  obtain s1 where m: "m s = (Inr v, s1)" "holds b (p + length xs) s1"
    using parsesD [OF assms(1) h(1)] h(2) w(1) by auto
  obtain s2 where f: "f v s1 = (Inr w, s2)" "holds b (p + length xs + length ys) s2"
    using parsesD [OF assms(2) m(2)] h(2) w(2) by auto
  from m f show "wp (sbind m f) (\<lambda>r s'. r = w \<and> holds b (p + length (xs @ ys)) s') no_err s"
    by (simp add: wp_def sbind_def add.assoc)
qed

lemma parses_map: "parses m xs v \<Longrightarrow> parses (sbind m (\<lambda>r. sret (g r))) xs (g v)"
  using parses_bind [of m xs v "\<lambda>r. sret (g r)" "[]" "g v"] parses_ret [of "g v"] by simp

lemma parses_read_exact: "length bs = n \<Longrightarrow> parses (io_read_exact ops n) bs bs"
  unfolding parses_def by (auto intro: read_exact_wp)

lemma parses_ints:
  "parses (read_u8 ops) [a] a" "parses (read_u16 ops) (le16 b) b" "parses (read_u32 ops) (le32 c) c"
  unfolding read_u8_def read_u16_def read_u32_def
  using parses_map [OF parses_read_exact [of "[a]" 1], of "\<lambda>bs. bs ! 0"]
    parses_map [OF parses_read_exact [of "le16 b" 2], of of_le16]
    parses_map [OF parses_read_exact [of "le32 c" 4], of of_le32] by simp_all

lemma parses_u16_into: "length xs = n \<Longrightarrow> parses (read_u16_into ops n) (concat (map le16 xs)) xs"
  unfolding read_u16_into_def
  using parses_map [OF parses_read_exact [of "concat (map le16 xs)" "2 * n"], of of_le16s] by simp

end

context byte_stream
begin

definition emits :: "('s, 'a) st \<Rightarrow> u8 list \<Rightarrow> bool" where
  "emits m bs \<longleftrightarrow> (\<forall>b p s. holds b p s \<longrightarrow> p + length bs \<le> length b \<longrightarrow>
     wp m (\<lambda>_ s'. holds (splice p bs b) (p + length bs) s') no_err s)"

lemma emitsD:
  "emits m bs \<Longrightarrow> holds b p s \<Longrightarrow> p + length bs \<le> length b \<Longrightarrow>
   \<exists>r s'. m s = (Inr r, s') \<and> holds (splice p bs b) (p + length bs) s'"
  unfolding emits_def wp_no_err_iff by blast

lemma emits_ret: "emits (sret x) []"
  by (simp add: emits_def)

lemma emits_bind:
  assumes "emits m xs" "\<And>r. emits (f r) ys"
  shows "emits (sbind m f) (xs @ ys)"
  unfolding emits_def
proof (intro allI impI)
  fix b p s assume h: "holds b p s" "p + length (xs @ ys) \<le> length b"
  obtain r s1 where m: "m s = (Inr r, s1)" "holds (splice p xs b) (p + length xs) s1"
    using emitsD [OF assms(1) h(1)] h(2) by auto
  obtain r2 s2 where f: "f r s1 = (Inr r2, s2)"
    "holds (splice (p + length xs) ys (splice p xs b)) (p + length xs + length ys) s2"
    using emitsD [OF assms(2) m(2), of r] h(2) by auto
  from m f h(2) show "wp (sbind m f) (\<lambda>_ s'. holds (splice p (xs @ ys) b) (p + length (xs @ ys)) s') no_err s"
    by (simp add: wp_def sbind_def splice_append add.assoc)
qed

lemma emits_write_all: "emits (io_write_all ops bs) bs"
  unfolding emits_def by (blast intro: write_all_wp)

lemma emits_ints:
  "emits (write_u8 ops a) [a]" "emits (write_u16 ops b) (le16 b)" "emits (write_u32 ops c) (le32 c)"
  unfolding write_u8_def write_u16_def write_u32_def by (rule emits_write_all)+

lemma emits_u16s: "emits (write_u16s ops xs) (concat (map le16 xs))"
  by (induction xs) (auto intro: emits_ret emits_bind emits_ints)

text \<open>What was emitted parses back.\<close>

lemma emits_parses:
  assumes "emits m bs" "parses r bs v" "holds b p s" "p + length bs \<le> length b"
  shows "wp (sbind m (\<lambda>_. sbind (io_seek ops (Start p)) (\<lambda>_. r)))
    (\<lambda>x s'. x = v \<and> holds (splice p bs b) (p + length bs) s') no_err s"
proof -
  obtain x s1 where m: "m s = (Inr x, s1)" "holds (splice p bs b) (p + length bs) s1"
    using emitsD [OF assms(1,3,4)] by blast
  have "wp (io_seek ops (Start p)) (\<lambda>_ s'. holds (splice p bs b) p s') no_err s1"
    by (rule seek_wp [OF m(2)]) (use assms(4) in auto)
  then obtain y s2 where sk: "io_seek ops (Start p) s1 = (Inr y, s2)" "holds (splice p bs b) p s2"
    by (auto elim!: wp_no_errE)
  obtain s3 where r: "r s2 = (Inr v, s3)" "holds (splice p bs b) (p + length bs) s3"
    using parsesD [OF assms(2) sk(2)] assms(4) by auto
  show ?thesis using m sk r by (simp add: wp_def sbind_def)
qed

end

end
