(* ===== verification/Fat_Time.thy ===== *)
theory Fat_Time
  imports Prelude
begin

text \<open>
  DOS dates and times, \<open>fatfs/src/time.rs\<close>: the packed 16-bit forms of the directory entries. The sums of
  the decoders cannot overflow, because the masked fields are small; the encoders check what the code
  checks. The default time provider, built without \<open>chrono\<close>, always answers the DOS epoch.
\<close>

unbundle bit_operations_syntax

record date =
  d_year :: u16
  d_month :: u16
  d_day :: u16

record time =
  t_hour :: u16
  t_min :: u16
  t_sec :: u16
  t_millis :: u16

record date_time =
  dt_date :: date
  dt_time :: time

definition date_decode :: "u16 \<Rightarrow> date" where
  "date_decode dos_date =
     \<lparr>d_year = drop_bit 9 dos_date + 1980, d_month = drop_bit 5 dos_date AND 0xF, d_day = dos_date AND 0x1F\<rparr>"

definition date_encode :: "date \<Rightarrow> u16 res" where
  "date_encode d = rbind (csub (d_year d) 1980) (\<lambda>y.
     Inr (push_bit 9 y OR push_bit 5 (d_month d) OR d_day d))"

definition time_decode :: "u16 \<Rightarrow> u8 \<Rightarrow> time" where
  "time_decode dos_time hi_res =
     \<lparr>t_hour = drop_bit 11 dos_time, t_min = drop_bit 5 dos_time AND 0x3F,
      t_sec = (dos_time AND 0x1F) * 2 + ucast hi_res div 100, t_millis = (ucast hi_res mod 100) * 10\<rparr>"

definition time_encode :: "time \<Rightarrow> u16 \<times> u8" where
  "time_encode t =
     (push_bit 11 (t_hour t) OR push_bit 5 (t_min t) OR (t_sec t div 2),
      ucast (t_millis t div 10 + (t_sec t mod 2) * 100))"

definition date_time_decode :: "u16 \<Rightarrow> u16 \<Rightarrow> u8 \<Rightarrow> date_time" where
  "date_time_decode dos_date dos_time hi_res =
     \<lparr>dt_date = date_decode dos_date, dt_time = time_decode dos_time hi_res\<rparr>"

definition get_current_date :: date where
  "get_current_date = date_decode 0"

definition get_current_date_time :: date_time where
  "get_current_date_time = date_time_decode 0 0 0"

text \<open>The dates and times that the format can hold, with the resolution of ten milliseconds.\<close>

definition dos_date_ok :: "date \<Rightarrow> bool" where
  "dos_date_ok d \<longleftrightarrow> 1980 \<le> d_year d \<and> d_year d \<le> 2107 \<and> d_month d < 16 \<and> d_day d < 32"

definition dos_time_ok :: "time \<Rightarrow> bool" where
  "dos_time_ok t \<longleftrightarrow> t_hour t < 32 \<and> t_min t < 64 \<and> t_sec t < 64 \<and> t_millis t < 1000"

lemma bit_less_pow:
  fixes x :: "'a::len word"
  assumes "unat x < 2 ^ k" "bit x n"
  shows "n < k"
proof (rule ccontr)
  assume "\<not> n < k"
  then have "unat x < 2 ^ n" using assms(1) by (meson le_less_trans not_less less_le_trans power_increasing one_le_numeral)
  moreover have "odd (unat x div 2 ^ n)" using assms(2) bit_iff_odd [of "unat x" n] by (simp add: bit_unsigned_iff)
  ultimately show False by simp
qed

lemma or3_fields:
  fixes a b c :: u16
  assumes "unat a < 2 ^ i" "unat b < 2 ^ j" "unat c < 2 ^ k" "k + j + i \<le> 16"
  shows "drop_bit (k + j) (push_bit (k + j) a OR push_bit k b OR c) = a"
    "drop_bit k (push_bit (k + j) a OR push_bit k b OR c) AND mask j = b"
    "(push_bit (k + j) a OR push_bit k b OR c) AND mask k = c"
  using bit_less_pow [OF assms(1)] bit_less_pow [OF assms(2)] bit_less_pow [OF assms(3)] assms(4)
  by (auto intro!: bit_word_eqI simp: bit_simps)
    (fastforce dest: bit_imp_le_length)+

lemma date_roundtrip:
  assumes "dos_date_ok d"
  shows "\<exists>x. date_encode d = Inr x \<and> date_decode x = d"
proof -
  let ?y = "d_year d - 1980"
  from assms have y: "1980 \<le> d_year d" "unat ?y < 2 ^ 7" and md: "unat (d_month d) < 2 ^ 4" "unat (d_day d) < 2 ^ 5"
    by (auto simp: dos_date_ok_def word_le_nat_alt word_less_nat_alt unat_sub_noof)
  note f = or3_fields [OF y(2) md, simplified]
  show ?thesis
    using y(1) f by (simp add: date_encode_def csub_def date_decode_def mask_eq_exp_minus_1)
qed

lemma date_decode_encode: "date_encode (date_decode x) = Inr x"
proof -
  let ?y = "drop_bit 9 x :: u16"
  have y: "unat ?y < 128" using unat_less_2p [of x] by (simp add: unat_drop_bit div_less_iff_less_mult)
  then have "1980 \<le> ?y + 1980" by (simp add: word_le_nat_alt unat_add_noof)
  moreover have "push_bit 9 ?y OR push_bit 5 (drop_bit 5 x AND mask 4) OR (x AND mask 5) = x"
  proof (rule bit_word_eqI)
    fix n assume "n < LENGTH(16)"
    then show "bit (push_bit 9 ?y OR push_bit 5 (drop_bit 5 x AND mask 4) OR (x AND mask 5)) n = bit x n"
      by (cases "n < 9") (auto simp: bit_simps)
  qed
  ultimately show ?thesis by (simp add: date_encode_def date_decode_def csub_def mask_eq_exp_minus_1)
qed

lemma time_roundtrip:
  assumes "dos_time_ok t"
  shows "case time_encode t of (x, y) \<Rightarrow> time_decode x y = t\<lparr>t_millis := t_millis t div 10 * 10\<rparr>"
proof -
  from assms have h: "unat (t_hour t) < 2 ^ 5" "unat (t_min t) < 2 ^ 6" "unat (t_sec t div 2) < 2 ^ 5"
    and sm: "unat (t_sec t) < 64" "unat (t_millis t) < 1000"
    by (auto simp: dos_time_ok_def word_less_nat_alt unat_div)
  note f = or3_fields [OF h, simplified]
  let ?z = "t_millis t div 10 + (t_sec t mod 2) * 100"
  have z: "unat ?z = unat (t_millis t) div 10 + unat (t_sec t) mod 2 * 100"
    using sm by (simp add: unat_add_noof unat_mult_noof unat_div unat_mod)
  have zl: "unat ?z < 256" using z sm by simp
  have zz: "ucast (ucast ?z :: u8) = ?z"
    using zl by (simp add: word_unat_eq_iff unat_ucast)
  have "(t_sec t div 2) * 2 + ?z div 100 = t_sec t"
    unfolding word_unat_eq_iff using sm z by (simp add: unat_word_ariths unat_div)
  moreover have "?z mod 100 * 10 = t_millis t div 10 * 10"
    unfolding word_unat_eq_iff using sm z by (simp add: unat_word_ariths unat_mod unat_div)
  ultimately show ?thesis
    using f zz by (simp add: time_encode_def time_decode_def mask_eq_exp_minus_1)
qed

text \<open>encoding and decoding are inverse: a date or time in the range of the format survives, a time
  down to ten milliseconds, and every packed date decodes to a date that encodes to it again.\<close>

lemma date_time_roundtrip:
  assumes "dos_date_ok d" "dos_time_ok t"
  shows "(\<exists>x. date_encode d = Inr x \<and> date_decode x = d) \<and>
    (case time_encode t of (x, y) \<Rightarrow> time_decode x y = t\<lparr>t_millis := t_millis t div 10 * 10\<rparr>) \<and>
    (\<forall>x. date_encode (date_decode x) = Inr x)"
  using assms date_roundtrip time_roundtrip date_decode_encode by simp

end
