(* ===== verification/Fat_Dir_Entry.thy ===== *)
theory Fat_Dir_Entry
  imports Stream_Codec Fat_Table Fat_Time
begin

text \<open>
  Directory entries, \<open>fatfs/src/dir_entry.rs\<close>: the short names, the two kinds of 32-byte entries with their
  serialised form, and the editor that keeps a modified entry until it is flushed to its place on the
  disk. \<open>entry_bytes\<close> is the specification of the format. A Rust \<open>char\<close> is its code point. The
  conversion of OEM characters and \<open>char::to_uppercase\<close> are parameters where they are used.
\<close>

unbundle bit_operations_syntax

section \<open>Attributes\<close>

definition ATTR_READ_ONLY :: u8 where "ATTR_READ_ONLY = 0x01"
definition ATTR_HIDDEN :: u8 where "ATTR_HIDDEN = 0x02"
definition ATTR_SYSTEM :: u8 where "ATTR_SYSTEM = 0x04"
definition ATTR_VOLUME_ID :: u8 where "ATTR_VOLUME_ID = 0x08"
definition ATTR_DIRECTORY :: u8 where "ATTR_DIRECTORY = 0x10"
definition ATTR_ARCHIVE :: u8 where "ATTR_ARCHIVE = 0x20"

definition ATTR_LFN :: u8 where
  "ATTR_LFN = ATTR_READ_ONLY OR ATTR_HIDDEN OR ATTR_SYSTEM OR ATTR_VOLUME_ID"

lemmas attr_defs = ATTR_READ_ONLY_def ATTR_HIDDEN_def ATTR_SYSTEM_def ATTR_VOLUME_ID_def ATTR_DIRECTORY_def
  ATTR_ARCHIVE_def ATTR_LFN_def

text \<open>\<open>from_bits_truncate\<close> and \<open>contains\<close> of \<open>bitflags\<close>.\<close>

definition attr_truncate :: "u8 \<Rightarrow> u8" where
  "attr_truncate b = b AND 0x3F"

definition attr_contains :: "u8 \<Rightarrow> u8 \<Rightarrow> bool" where
  "attr_contains a f \<longleftrightarrow> a AND f = f"

definition DIR_ENTRY_SIZE :: nat where "DIR_ENTRY_SIZE = 32"
definition DIR_ENTRY_DELETED_FLAG :: u8 where "DIR_ENTRY_DELETED_FLAG = 0xE5"
definition DIR_ENTRY_REALLY_E5_FLAG :: u8 where "DIR_ENTRY_REALLY_E5_FLAG = 0x05"
definition LFN_PART_LEN :: nat where "LFN_PART_LEN = 13"
definition LFN_ENTRY_LAST_FLAG :: u8 where "LFN_ENTRY_LAST_FLAG = 0x40"

section \<open>Short names\<close>

record short_name =
  sn_name :: "u8 list"
  sn_len :: nat

definition PADDING :: u8 where "PADDING = 0x20"

text \<open>\<open>Iterator::rposition\<close>: the last index whose element satisfies the predicate.\<close>

definition rposition :: "('a \<Rightarrow> bool) \<Rightarrow> 'a list \<Rightarrow> nat option" where
  "rposition P xs = (let is = filter (\<lambda>i. P (xs ! i)) [0..<length xs] in if is = [] then None else Some (last is))"

definition trimmed_len :: "u8 list \<Rightarrow> nat" where
  "trimmed_len xs = (case rposition (\<lambda>x. x \<noteq> PADDING) xs of None \<Rightarrow> 0 | Some p \<Rightarrow> p + 1)"

definition short_name_new :: "u8 list \<Rightarrow> short_name" where
  "short_name_new raw_name =
     (let name_len = trimmed_len (window 0 8 raw_name);
          ext_len = trimmed_len (window 8 3 raw_name);
          name = splice 0 (take name_len raw_name) (replicate 12 PADDING);
          (name, total_len) =
            (if ext_len > 0
             then (splice (name_len + 1) (window 8 ext_len raw_name) (name[name_len := 0x2E]), name_len + 1 + ext_len)
             else (name, name_len));
          name = (if name ! 0 = DIR_ENTRY_REALLY_E5_FLAG then name[0 := 0xE5] else name)
      in \<lparr>sn_name = name, sn_len = total_len\<rparr>)"

definition short_name_as_bytes :: "short_name \<Rightarrow> u8 list" where
  "short_name_as_bytes sn = take (sn_len sn) (sn_name sn)"

definition short_name_to_string :: "(u8 \<Rightarrow> nat) \<Rightarrow> short_name \<Rightarrow> nat list" where
  "short_name_to_string oem_decode sn = map oem_decode (short_name_as_bytes sn)"

definition short_name_eq_ignore_case :: "(u8 \<Rightarrow> nat) \<Rightarrow> (nat \<Rightarrow> nat list) \<Rightarrow> short_name \<Rightarrow> nat list \<Rightarrow> bool" where
  "short_name_eq_ignore_case oem_decode to_upper sn name \<longleftrightarrow>
     concat (map to_upper (short_name_to_string oem_decode sn)) = concat (map to_upper name)"

section \<open>File entries\<close>

record dir_file_entry_data =
  fe_name :: "u8 list"
  fe_attrs :: u8
  fe_reserved_0 :: u8
  fe_create_time_0 :: u8
  fe_create_time_1 :: u16
  fe_create_date :: u16
  fe_access_date :: u16
  fe_first_cluster_hi :: u16
  fe_modify_time :: u16
  fe_modify_date :: u16
  fe_first_cluster_lo :: u16
  fe_size :: u32

definition file_entry_default :: dir_file_entry_data where
  "file_entry_default =
     \<lparr>fe_name = replicate 11 0, fe_attrs = 0, fe_reserved_0 = 0, fe_create_time_0 = 0, fe_create_time_1 = 0,
      fe_create_date = 0, fe_access_date = 0, fe_first_cluster_hi = 0, fe_modify_time = 0, fe_modify_date = 0,
      fe_first_cluster_lo = 0, fe_size = 0\<rparr>"

definition file_entry_new :: "u8 list \<Rightarrow> u8 \<Rightarrow> dir_file_entry_data" where
  "file_entry_new name attrs = file_entry_default\<lparr>fe_name := name, fe_attrs := attrs\<rparr>"

definition file_entry_renamed :: "u8 list \<Rightarrow> dir_file_entry_data \<Rightarrow> dir_file_entry_data" where
  "file_entry_renamed new_name self = self\<lparr>fe_name := new_name\<rparr>"

definition to_ascii_lowercase :: "u8 \<Rightarrow> u8" where
  "to_ascii_lowercase c = (if 0x41 \<le> c \<and> c \<le> 0x5A then c + 32 else c)"

definition lowercase_basename :: "dir_file_entry_data \<Rightarrow> bool" where
  "lowercase_basename self \<longleftrightarrow> fe_reserved_0 self AND push_bit 3 1 \<noteq> 0"

definition lowercase_ext :: "dir_file_entry_data \<Rightarrow> bool" where
  "lowercase_ext self \<longleftrightarrow> fe_reserved_0 self AND push_bit 4 1 \<noteq> 0"

definition lowercase_name :: "dir_file_entry_data \<Rightarrow> short_name" where
  "lowercase_name self =
     (let base = take 8 (fe_name self); ext = drop 8 (fe_name self)
      in short_name_new ((if lowercase_basename self then map to_ascii_lowercase base else base) @
           (if lowercase_ext self then map to_ascii_lowercase ext else ext)))"

definition file_entry_first_cluster :: "fat_type \<Rightarrow> dir_file_entry_data \<Rightarrow> u32 option" where
  "file_entry_first_cluster ft self =
     (let hi = (if ft = Fat32 then fe_first_cluster_hi self else 0);
          n = push_bit 16 (ucast hi) OR ucast (fe_first_cluster_lo self)
      in if n = 0 then None else Some n)"

definition file_entry_set_first_cluster :: "u32 option \<Rightarrow> fat_type \<Rightarrow> dir_file_entry_data \<Rightarrow> dir_file_entry_data" where
  "file_entry_set_first_cluster cluster ft self =
     (let n = (case cluster of None \<Rightarrow> 0 | Some c \<Rightarrow> c);
          self = (if ft = Fat32 then self\<lparr>fe_first_cluster_hi := ucast (drop_bit 16 n)\<rparr> else self)
      in self\<lparr>fe_first_cluster_lo := ucast (n AND 0xFFFF)\<rparr>)"

definition file_entry_is_dir :: "dir_file_entry_data \<Rightarrow> bool" where
  "file_entry_is_dir self \<longleftrightarrow> attr_contains (fe_attrs self) ATTR_DIRECTORY"

definition file_entry_is_file :: "dir_file_entry_data \<Rightarrow> bool" where
  "file_entry_is_file self \<longleftrightarrow> \<not> file_entry_is_dir self"

definition file_entry_size :: "dir_file_entry_data \<Rightarrow> u32 option" where
  "file_entry_size self = (if file_entry_is_file self then Some (fe_size self) else None)"

definition file_entry_created :: "dir_file_entry_data \<Rightarrow> date_time" where
  "file_entry_created self = date_time_decode (fe_create_date self) (fe_create_time_1 self) (fe_create_time_0 self)"

definition file_entry_accessed :: "dir_file_entry_data \<Rightarrow> date" where
  "file_entry_accessed self = date_decode (fe_access_date self)"

definition file_entry_modified :: "dir_file_entry_data \<Rightarrow> date_time" where
  "file_entry_modified self = date_time_decode (fe_modify_date self) (fe_modify_time self) 0"

definition file_entry_set_created :: "date_time \<Rightarrow> dir_file_entry_data \<Rightarrow> dir_file_entry_data res" where
  "file_entry_set_created dt self =
     rbind (date_encode (dt_date dt)) (\<lambda>d.
     let (t1, t0) = time_encode (dt_time dt)
     in Inr (self\<lparr>fe_create_date := d, fe_create_time_1 := t1, fe_create_time_0 := t0\<rparr>))"

definition file_entry_set_accessed :: "date \<Rightarrow> dir_file_entry_data \<Rightarrow> dir_file_entry_data res" where
  "file_entry_set_accessed d self = rbind (date_encode d) (\<lambda>x. Inr (self\<lparr>fe_access_date := x\<rparr>))"

definition file_entry_set_modified :: "date_time \<Rightarrow> dir_file_entry_data \<Rightarrow> dir_file_entry_data res" where
  "file_entry_set_modified dt self =
     rbind (date_encode (dt_date dt)) (\<lambda>d.
     Inr (self\<lparr>fe_modify_date := d, fe_modify_time := fst (time_encode (dt_time dt))\<rparr>))"

definition file_entry_serialize :: "'s rws \<Rightarrow> dir_file_entry_data \<Rightarrow> ('s, unit) st" where
  "file_entry_serialize ops self =
     sbind (io_write_all ops (fe_name self)) (\<lambda>_.
     sbind (write_u8 ops (fe_attrs self)) (\<lambda>_.
     sbind (write_u8 ops (fe_reserved_0 self)) (\<lambda>_.
     sbind (write_u8 ops (fe_create_time_0 self)) (\<lambda>_.
     sbind (write_u16 ops (fe_create_time_1 self)) (\<lambda>_.
     sbind (write_u16 ops (fe_create_date self)) (\<lambda>_.
     sbind (write_u16 ops (fe_access_date self)) (\<lambda>_.
     sbind (write_u16 ops (fe_first_cluster_hi self)) (\<lambda>_.
     sbind (write_u16 ops (fe_modify_time self)) (\<lambda>_.
     sbind (write_u16 ops (fe_modify_date self)) (\<lambda>_.
     sbind (write_u16 ops (fe_first_cluster_lo self)) (\<lambda>_.
     write_u32 ops (fe_size self))))))))))))"

definition file_entry_is_deleted :: "dir_file_entry_data \<Rightarrow> bool" where
  "file_entry_is_deleted self \<longleftrightarrow> fe_name self ! 0 = DIR_ENTRY_DELETED_FLAG"

definition file_entry_set_deleted :: "dir_file_entry_data \<Rightarrow> dir_file_entry_data" where
  "file_entry_set_deleted self = self\<lparr>fe_name := (fe_name self)[0 := DIR_ENTRY_DELETED_FLAG]\<rparr>"

definition file_entry_is_end :: "dir_file_entry_data \<Rightarrow> bool" where
  "file_entry_is_end self \<longleftrightarrow> fe_name self ! 0 = 0"

definition file_entry_is_volume :: "dir_file_entry_data \<Rightarrow> bool" where
  "file_entry_is_volume self \<longleftrightarrow> attr_contains (fe_attrs self) ATTR_VOLUME_ID"

section \<open>Long name entries\<close>

record dir_lfn_entry_data =
  le_order :: u8
  le_name_0 :: "u16 list"
  le_attrs :: u8
  le_entry_type :: u8
  le_checksum :: u8
  le_name_1 :: "u16 list"
  le_reserved_0 :: u16
  le_name_2 :: "u16 list"

definition lfn_entry_default :: dir_lfn_entry_data where
  "lfn_entry_default =
     \<lparr>le_order = 0, le_name_0 = replicate 5 0, le_attrs = 0, le_entry_type = 0, le_checksum = 0,
      le_name_1 = replicate 6 0, le_reserved_0 = 0, le_name_2 = replicate 2 0\<rparr>"

definition lfn_entry_new :: "u8 \<Rightarrow> u8 \<Rightarrow> dir_lfn_entry_data" where
  "lfn_entry_new order checksum = lfn_entry_default\<lparr>le_order := order, le_checksum := checksum, le_attrs := ATTR_LFN\<rparr>"

definition lfn_copy_name_from_slice :: "u16 list \<Rightarrow> dir_lfn_entry_data \<Rightarrow> dir_lfn_entry_data" where
  "lfn_copy_name_from_slice part self =
     self\<lparr>le_name_0 := window 0 5 part, le_name_1 := window 5 6 part, le_name_2 := window 11 2 part\<rparr>"

definition lfn_copy_name_to_slice :: "dir_lfn_entry_data \<Rightarrow> u16 list" where
  "lfn_copy_name_to_slice self = le_name_0 self @ le_name_1 self @ le_name_2 self"

definition lfn_entry_serialize :: "'s rws \<Rightarrow> dir_lfn_entry_data \<Rightarrow> ('s, unit) st" where
  "lfn_entry_serialize ops self =
     sbind (write_u8 ops (le_order self)) (\<lambda>_.
     sbind (write_u16s ops (le_name_0 self)) (\<lambda>_.
     sbind (write_u8 ops (le_attrs self)) (\<lambda>_.
     sbind (write_u8 ops (le_entry_type self)) (\<lambda>_.
     sbind (write_u8 ops (le_checksum self)) (\<lambda>_.
     sbind (write_u16s ops (le_name_1 self)) (\<lambda>_.
     sbind (write_u16 ops (le_reserved_0 self)) (\<lambda>_.
     write_u16s ops (le_name_2 self))))))))"

definition lfn_entry_is_deleted :: "dir_lfn_entry_data \<Rightarrow> bool" where
  "lfn_entry_is_deleted self \<longleftrightarrow> le_order self = DIR_ENTRY_DELETED_FLAG"

definition lfn_entry_set_deleted :: "dir_lfn_entry_data \<Rightarrow> dir_lfn_entry_data" where
  "lfn_entry_set_deleted self = self\<lparr>le_order := DIR_ENTRY_DELETED_FLAG\<rparr>"

definition lfn_entry_is_end :: "dir_lfn_entry_data \<Rightarrow> bool" where
  "lfn_entry_is_end self \<longleftrightarrow> le_order self = 0"

section \<open>Entries of a directory\<close>

datatype dir_entry_data = File dir_file_entry_data | Lfn dir_lfn_entry_data

definition dir_entry_serialize :: "'s rws \<Rightarrow> dir_entry_data \<Rightarrow> ('s, unit) st" where
  "dir_entry_serialize ops self =
     (case self of File f \<Rightarrow> file_entry_serialize ops f | Lfn l \<Rightarrow> lfn_entry_serialize ops l)"

text \<open>The first eleven bytes split into the order and the first part of a long name, by a cursor over them.\<close>

definition lfn_split_name :: "u8 list \<Rightarrow> (u8 \<times> u16 list) res" where
  "lfn_split_name name =
     fst (sbind (read_u8 cursor_ops) (\<lambda>order.
          sbind (read_u16_into cursor_ops 5) (\<lambda>name_0. sret (order, name_0))) (cursor_new name))"

definition lfn_entry_read :: "'s rws \<Rightarrow> u8 list \<Rightarrow> u8 \<Rightarrow> ('s, dir_entry_data) st" where
  "lfn_entry_read ops name attrs =
     sbind (slift (lfn_split_name name)) (\<lambda>(order, name_0).
     sbind (read_u8 ops) (\<lambda>entry_type.
     sbind (read_u8 ops) (\<lambda>checksum.
     sbind (read_u16_into ops 6) (\<lambda>name_1.
     sbind (read_u16 ops) (\<lambda>reserved_0.
     sbind (read_u16_into ops 2) (\<lambda>name_2.
     sret (Lfn \<lparr>le_order = order, le_name_0 = name_0, le_attrs = attrs, le_entry_type = entry_type,
       le_checksum = checksum, le_name_1 = name_1, le_reserved_0 = reserved_0, le_name_2 = name_2\<rparr>)))))))"

definition file_entry_read :: "'s rws \<Rightarrow> u8 list \<Rightarrow> u8 \<Rightarrow> ('s, dir_entry_data) st" where
  "file_entry_read ops name attrs =
     sbind (read_u8 ops) (\<lambda>reserved_0.
     sbind (read_u8 ops) (\<lambda>create_time_0.
     sbind (read_u16 ops) (\<lambda>create_time_1.
     sbind (read_u16 ops) (\<lambda>create_date.
     sbind (read_u16 ops) (\<lambda>access_date.
     sbind (read_u16 ops) (\<lambda>first_cluster_hi.
     sbind (read_u16 ops) (\<lambda>modify_time.
     sbind (read_u16 ops) (\<lambda>modify_date.
     sbind (read_u16 ops) (\<lambda>first_cluster_lo.
     sbind (read_u32 ops) (\<lambda>size.
     sret (File \<lparr>fe_name = name, fe_attrs = attrs, fe_reserved_0 = reserved_0, fe_create_time_0 = create_time_0,
       fe_create_time_1 = create_time_1, fe_create_date = create_date, fe_access_date = access_date,
       fe_first_cluster_hi = first_cluster_hi, fe_modify_time = modify_time, fe_modify_date = modify_date,
       fe_first_cluster_lo = first_cluster_lo, fe_size = size\<rparr>)))))))))))"

definition dir_entry_read_rest :: "'s rws \<Rightarrow> u8 list \<Rightarrow> ('s, dir_entry_data) st" where
  "dir_entry_read_rest ops name =
     sbind (read_u8 ops) (\<lambda>b.
     let attrs = attr_truncate b in
     if attrs AND ATTR_LFN = ATTR_LFN then lfn_entry_read ops name attrs else file_entry_read ops name attrs)"

text \<open>A directory whose clusters are full has no end entry: the end of the stream reads as an empty entry.\<close>

definition dir_entry_deserialize :: "'s rws \<Rightarrow> ('s, dir_entry_data) st" where
  "dir_entry_deserialize ops s =
     (case io_read_exact ops 11 s of
        (Inl (Io UnexpectedEof), s') \<Rightarrow> (Inr (File file_entry_default), s')
      | (Inl e, s') \<Rightarrow> (Inl e, s')
      | (Inr name, s') \<Rightarrow> dir_entry_read_rest ops name s')"

definition dir_entry_is_deleted :: "dir_entry_data \<Rightarrow> bool" where
  "dir_entry_is_deleted self = (case self of File f \<Rightarrow> file_entry_is_deleted f | Lfn l \<Rightarrow> lfn_entry_is_deleted l)"

definition dir_entry_set_deleted :: "dir_entry_data \<Rightarrow> dir_entry_data" where
  "dir_entry_set_deleted self =
     (case self of File f \<Rightarrow> File (file_entry_set_deleted f) | Lfn l \<Rightarrow> Lfn (lfn_entry_set_deleted l))"

definition dir_entry_is_end :: "dir_entry_data \<Rightarrow> bool" where
  "dir_entry_is_end self = (case self of File f \<Rightarrow> file_entry_is_end f | Lfn l \<Rightarrow> lfn_entry_is_end l)"

section \<open>The editor of an entry\<close>

record dir_entry_editor =
  ed_data :: dir_file_entry_data
  ed_pos :: nat
  ed_dirty :: bool

definition editor_new :: "dir_file_entry_data \<Rightarrow> nat \<Rightarrow> dir_entry_editor" where
  "editor_new data pos = \<lparr>ed_data = data, ed_pos = pos, ed_dirty = False\<rparr>"

definition editor_set_first_cluster :: "u32 option \<Rightarrow> fat_type \<Rightarrow> dir_entry_editor \<Rightarrow> dir_entry_editor" where
  "editor_set_first_cluster cluster ft self =
     (if cluster \<noteq> file_entry_first_cluster ft (ed_data self)
      then self\<lparr>ed_data := file_entry_set_first_cluster cluster ft (ed_data self), ed_dirty := True\<rparr> else self)"

definition editor_set_size :: "u32 \<Rightarrow> dir_entry_editor \<Rightarrow> dir_entry_editor" where
  "editor_set_size sz self =
     (case file_entry_size (ed_data self) of
        Some n \<Rightarrow> if sz \<noteq> n then self\<lparr>ed_data := (ed_data self)\<lparr>fe_size := sz\<rparr>, ed_dirty := True\<rparr> else self
      | None \<Rightarrow> self)"

definition editor_set_created :: "date_time \<Rightarrow> dir_entry_editor \<Rightarrow> dir_entry_editor res" where
  "editor_set_created dt self =
     (if dt \<noteq> file_entry_created (ed_data self)
      then rbind (file_entry_set_created dt (ed_data self)) (\<lambda>d. Inr (self\<lparr>ed_data := d, ed_dirty := True\<rparr>))
      else Inr self)"

definition editor_set_accessed :: "date \<Rightarrow> dir_entry_editor \<Rightarrow> dir_entry_editor res" where
  "editor_set_accessed d self =
     (if d \<noteq> file_entry_accessed (ed_data self)
      then rbind (file_entry_set_accessed d (ed_data self)) (\<lambda>e. Inr (self\<lparr>ed_data := e, ed_dirty := True\<rparr>))
      else Inr self)"

definition editor_set_modified :: "date_time \<Rightarrow> dir_entry_editor \<Rightarrow> dir_entry_editor res" where
  "editor_set_modified dt self =
     (if dt \<noteq> file_entry_modified (ed_data self)
      then rbind (file_entry_set_modified dt (ed_data self)) (\<lambda>d. Inr (self\<lparr>ed_data := d, ed_dirty := True\<rparr>))
      else Inr self)"

definition editor_write :: "'s rws \<Rightarrow> dir_entry_editor \<Rightarrow> ('s, unit) st" where
  "editor_write disk self =
     sbind (io_seek disk (Start (ed_pos self))) (\<lambda>_. file_entry_serialize disk (ed_data self))"

text \<open>\<open>flush\<close> runs on the disk of the file system and on the editor.\<close>

definition editor_flush :: "'s rws \<Rightarrow> ('s \<times> dir_entry_editor, unit) st" where
  "editor_flush disk = (\<lambda>(s, self).
     if ed_dirty self then
       (case editor_write disk self s of
          (Inl e, s') \<Rightarrow> (Inl e, (s', self))
        | (Inr _, s') \<Rightarrow> (Inr (), (s', self\<lparr>ed_dirty := False\<rparr>)))
     else (Inr (), (s, self)))"

text \<open>What \<open>fstat\<close> and \<open>getdents64\<close> report of an entry. The size of \<open>DirEntryData\<close> is the compiler's choice.\<close>

record stat =
  st_dev :: u64
  st_ino :: nat
  st_mode :: u32
  st_nlink :: u32
  st_uid :: u32
  st_gid :: u32
  st_rdev :: u64
  st_size :: int
  st_blksize :: u32
  st_blocks :: u64
  st_atime_sec :: int
  st_mtime_sec :: int
  st_ctime_sec :: int

definition S_IFDIR :: u32 where "S_IFDIR = 0x4000"
definition S_IFREG :: u32 where "S_IFREG = 0x8000"
definition S_IFIFO :: u32 where "S_IFIFO = 0x1000"

definition editor_stat :: "dir_entry_editor \<Rightarrow> stat" where
  "editor_stat self =
     (let d = ed_data self in
      \<lparr>st_dev = 0, st_ino = ed_pos self,
       st_mode = (if attr_contains (fe_attrs d) ATTR_DIRECTORY then S_IFDIR else S_IFREG),
       st_nlink = 1, st_uid = 0, st_gid = 0, st_rdev = 0, st_size = uint (fe_size d), st_blksize = 512, st_blocks = 1,
       st_atime_sec = uint (fe_access_date d), st_mtime_sec = uint (fe_modify_time d),
       st_ctime_sec = uint (fe_create_time_1 d)\<rparr>)"

record linux_dirent64 =
  d_ino :: nat
  d_off :: int
  d_reclen :: u16
  d_type :: u8
  d_name :: "u8 list"

definition editor_dirent :: "nat \<Rightarrow> dir_entry_editor \<Rightarrow> linux_dirent64 res" where
  "editor_dirent entry_size self =
     (let off = sint (of_nat (ed_pos self) :: u64) + int entry_size in
      if off < 2 ^ 63 then Inr \<lparr>d_ino = ed_pos self, d_off = off, d_reclen = of_nat entry_size,
         d_type = fe_attrs (ed_data self), d_name = fe_name (ed_data self)\<rparr>
      else Inl (Panic Overflow))"

section \<open>Entries as they are read from a directory\<close>

record dir_entry =
  de_data :: dir_file_entry_data
  de_short_name :: short_name
  de_lfn_utf16 :: "u16 list"
  de_entry_pos :: nat
  de_offset_range :: "nat \<times> nat"

text \<open>\<open>String::from_utf16_lossy\<close>: surrogate pairs combine, an unpaired surrogate becomes U+FFFD.\<close>

fun from_utf16_lossy :: "u16 list \<Rightarrow> nat list" where
  "from_utf16_lossy [] = []"
| "from_utf16_lossy (u # us) =
     (if u < 0xD800 \<or> 0xDFFF < u then unat u # from_utf16_lossy us
      else if 0xDC00 \<le> u then 0xFFFD # from_utf16_lossy us
      else case us of
        [] \<Rightarrow> [0xFFFD]
      | v # vs \<Rightarrow>
          if v < 0xDC00 \<or> 0xDFFF < v then 0xFFFD # from_utf16_lossy us
          else (0x10000 + (unat u - 0xD800) * 1024 + (unat v - 0xDC00)) # from_utf16_lossy vs)"

definition dir_entry_file_name :: "(u8 \<Rightarrow> nat) \<Rightarrow> dir_entry \<Rightarrow> nat list" where
  "dir_entry_file_name oem_decode self =
     (if de_lfn_utf16 self = [] then short_name_to_string oem_decode (lowercase_name (de_data self))
      else from_utf16_lossy (de_lfn_utf16 self))"

definition dir_entry_eq_name :: "(u8 \<Rightarrow> nat) \<Rightarrow> (nat \<Rightarrow> nat list) \<Rightarrow> dir_entry \<Rightarrow> nat list \<Rightarrow> bool" where
  "dir_entry_eq_name oem_decode to_upper self name \<longleftrightarrow>
     concat (map to_upper (dir_entry_file_name oem_decode self)) = concat (map to_upper name) \<or>
     short_name_eq_ignore_case oem_decode to_upper (de_short_name self) name"

definition dir_entry_to_editor :: "dir_entry \<Rightarrow> dir_entry_editor" where
  "dir_entry_to_editor self = editor_new (de_data self) (de_entry_pos self)"

definition dir_entry_is_same_entry :: "dir_entry \<Rightarrow> dir_entry \<Rightarrow> bool" where
  "dir_entry_is_same_entry self other \<longleftrightarrow> de_entry_pos self = de_entry_pos other"

section \<open>The format\<close>

definition file_entry_bytes :: "dir_file_entry_data \<Rightarrow> u8 list" where
  "file_entry_bytes f =
     fe_name f @ [fe_attrs f] @ [fe_reserved_0 f] @ [fe_create_time_0 f] @ le16 (fe_create_time_1 f) @
     le16 (fe_create_date f) @ le16 (fe_access_date f) @ le16 (fe_first_cluster_hi f) @ le16 (fe_modify_time f) @
     le16 (fe_modify_date f) @ le16 (fe_first_cluster_lo f) @ le32 (fe_size f)"

definition lfn_entry_bytes :: "dir_lfn_entry_data \<Rightarrow> u8 list" where
  "lfn_entry_bytes l =
     [le_order l] @ concat (map le16 (le_name_0 l)) @ [le_attrs l] @ [le_entry_type l] @ [le_checksum l] @
     concat (map le16 (le_name_1 l)) @ le16 (le_reserved_0 l) @ concat (map le16 (le_name_2 l))"

definition entry_bytes :: "dir_entry_data \<Rightarrow> u8 list" where
  "entry_bytes d = (case d of File f \<Rightarrow> file_entry_bytes f | Lfn l \<Rightarrow> lfn_entry_bytes l)"

text \<open>What the Rust types guarantee of the arrays, and which of the two kinds the attributes say.\<close>

definition dir_entry_wf :: "dir_entry_data \<Rightarrow> bool" where
  "dir_entry_wf d = (case d of
     File f \<Rightarrow> length (fe_name f) = 11 \<and> attr_truncate (fe_attrs f) = fe_attrs f \<and>
       fe_attrs f AND ATTR_LFN \<noteq> ATTR_LFN
   | Lfn l \<Rightarrow> length (le_name_0 l) = 5 \<and> length (le_name_1 l) = 6 \<and> length (le_name_2 l) = 2 \<and>
       attr_truncate (le_attrs l) = le_attrs l \<and> le_attrs l AND ATTR_LFN = ATTR_LFN)"

lemma length_entry_bytes: "dir_entry_wf d \<Longrightarrow> length (entry_bytes d) = 32"
  by (auto simp: dir_entry_wf_def entry_bytes_def file_entry_bytes_def lfn_entry_bytes_def split: dir_entry_data.splits)

lemma lfn_split_name_bytes:
  assumes "length xs = 5"
  shows "lfn_split_name ([a] @ concat (map le16 xs)) = Inr (a, xs)"
proof -
  let ?bs = "[a] @ concat (map le16 xs)"
  let ?m = "sbind (read_u8 cursor_ops) (\<lambda>order. sbind (read_u16_into cursor_ops 5) (\<lambda>name_0. sret (order, name_0)))"
  have "cursor.parses ?m ?bs (a, xs)"
    by (rule cursor.parses_bind [OF cursor.parses_ints(1)])
      (rule cursor.parses_map [where g = "Pair a", OF cursor.parses_u16_into [OF assms]])
  moreover have "cursor.holds ?bs 0 (cursor_new ?bs)" by (simp add: cursor.holds_def cursor_new_def)
  ultimately obtain c where "?m (cursor_new ?bs) = (Inr (a, xs), c)"
    using cursor.parsesD [of ?m ?bs "(a, xs)" ?bs 0] by (auto simp: window_def)
  then show ?thesis unfolding lfn_split_name_def by (simp only: fst_conv)
qed

context byte_stream
begin

lemma emits_file_entry: "emits (file_entry_serialize ops f) (file_entry_bytes f)"
  unfolding file_entry_serialize_def file_entry_bytes_def
  by (intro emits_bind emits_ints emits_write_all)

lemma emits_lfn_entry: "emits (lfn_entry_serialize ops l) (lfn_entry_bytes l)"
  unfolding lfn_entry_serialize_def lfn_entry_bytes_def
  by (intro emits_bind emits_ints emits_u16s)

lemma emits_dir_entry: "emits (dir_entry_serialize ops d) (entry_bytes d)"
  by (cases d) (simp_all add: dir_entry_serialize_def entry_bytes_def emits_file_entry emits_lfn_entry)

end

context exact_stream
begin

lemma parses_file_entry:
  "parses (file_entry_read ops (fe_name f) (fe_attrs f))
    ([fe_reserved_0 f] @ [fe_create_time_0 f] @ le16 (fe_create_time_1 f) @ le16 (fe_create_date f) @
     le16 (fe_access_date f) @ le16 (fe_first_cluster_hi f) @ le16 (fe_modify_time f) @
     le16 (fe_modify_date f) @ le16 (fe_first_cluster_lo f) @ le32 (fe_size f) @ []) (File f)"
  unfolding file_entry_read_def by ((rule parses_bind parses_ints parses_reteq)+) simp

lemma parses_lfn_entry:
  assumes "length (le_name_0 l) = 5" "length (le_name_1 l) = 6" "length (le_name_2 l) = 2"
  shows "parses (lfn_entry_read ops ([le_order l] @ concat (map le16 (le_name_0 l))) (le_attrs l))
    ([le_entry_type l] @ [le_checksum l] @ concat (map le16 (le_name_1 l)) @ le16 (le_reserved_0 l) @
     concat (map le16 (le_name_2 l)) @ []) (Lfn l)"
  unfolding lfn_entry_read_def lfn_split_name_bytes [OF assms(1)] sbind_lift_Inr prod.case
  by ((rule parses_bind parses_ints parses_u16_into assms parses_reteq)+) simp

lemma parses_dir_entry:
  assumes "dir_entry_wf d"
  shows "parses (dir_entry_deserialize ops) (entry_bytes d) d"
proof -
  obtain name rest where b: "entry_bytes d = name @ rest" "length name = 11"
    and p: "parses (dir_entry_read_rest ops name) rest d"
  proof (cases d)
    case (File f)
    with assms have f: "length (fe_name f) = 11" "attr_truncate (fe_attrs f) = fe_attrs f" "fe_attrs f AND ATTR_LFN \<noteq> ATTR_LFN"
      by (auto simp: dir_entry_wf_def)
    have "parses (dir_entry_read_rest ops (fe_name f)) ([fe_attrs f] @ ([fe_reserved_0 f] @ [fe_create_time_0 f] @
        le16 (fe_create_time_1 f) @ le16 (fe_create_date f) @
        le16 (fe_access_date f) @ le16 (fe_first_cluster_hi f) @ le16 (fe_modify_time f) @
        le16 (fe_modify_date f) @ le16 (fe_first_cluster_lo f) @ le32 (fe_size f) @ [])) (File f)"
      unfolding dir_entry_read_rest_def
      by (rule parses_bind, rule parses_ints) (use f parses_file_entry [of f] in \<open>simp add: Let_def\<close>)
    with that [OF _ f(1)] File show thesis by (simp add: entry_bytes_def file_entry_bytes_def)
  next
    case (Lfn l)
    with assms have l: "length (le_name_0 l) = 5" "length (le_name_1 l) = 6" "length (le_name_2 l) = 2"
      "attr_truncate (le_attrs l) = le_attrs l" "le_attrs l AND ATTR_LFN = ATTR_LFN"
      by (auto simp: dir_entry_wf_def)
    have "parses (dir_entry_read_rest ops ([le_order l] @ concat (map le16 (le_name_0 l)))) ([le_attrs l] @
        ([le_entry_type l] @ [le_checksum l] @ concat (map le16 (le_name_1 l)) @ le16 (le_reserved_0 l) @
        concat (map le16 (le_name_2 l)) @ [])) (Lfn l)"
      unfolding dir_entry_read_rest_def
      by (rule parses_bind, rule parses_ints) (use l parses_lfn_entry [of l] in \<open>simp add: Let_def\<close>)
    with that [of "[le_order l] @ concat (map le16 (le_name_0 l))"] Lfn l(1) show thesis
      by (simp add: entry_bytes_def lfn_entry_bytes_def)
  qed
  have "parses (sbind (io_read_exact ops 11) (dir_entry_read_rest ops)) (entry_bytes d) d"
    unfolding b(1) by (rule parses_bind, rule parses_read_exact [OF b(2)], rule p)
  moreover have "dir_entry_deserialize ops s = (Inr v, s')"
    if "sbind (io_read_exact ops 11) (dir_entry_read_rest ops) s = (Inr v, s')" for s v s'
    using that by (auto simp: dir_entry_deserialize_def sbind_def split: prod.splits sum.splits err.splits)
  ultimately show ?thesis unfolding parses_def wp_no_err_iff by blast
qed

end

end
