(* ===== verification/Fat_Dir_Entry_Props.thy ===== *)
theory Fat_Dir_Entry_Props
  imports Fat_Dir_Entry
begin

text \<open>
  Properties of directory entries on an in-memory disk: the serialised form reads back, the editor writes
  what it holds and nothing else, its setters are visible through the accessors, and the raw short name
  decodes to the name with its extension.
\<close>

unbundle bit_operations_syntax

section \<open>Round trip\<close>

lemma cursor_holds: "cursor.holds b p c \<longleftrightarrow> c = \<lparr>cur_inner = b, cur_pos = p\<rparr>"
  by (cases c) (auto simp: cursor.holds_def)

lemma cursor_emits:
  assumes "cursor.emits m bs" "cur_pos c + length bs \<le> length (cur_inner c)"
  shows "\<exists>r. m c = (Inr r, \<lparr>cur_inner = splice (cur_pos c) bs (cur_inner c), cur_pos = cur_pos c + length bs\<rparr>)"
  using cursor.emitsD [OF assms(1), of "cur_inner c" "cur_pos c" c] assms(2) by (auto simp: cursor_holds)

lemma cursor_parses:
  assumes "cursor.parses m bs v" "p + length bs \<le> length b" "window p (length bs) b = bs"
  shows "m \<lparr>cur_inner = b, cur_pos = p\<rparr> = (Inr v, \<lparr>cur_inner = b, cur_pos = p + length bs\<rparr>)"
  using cursor.parsesD [OF assms(1), of b p] assms(2,3) by (auto simp: cursor_holds)

text \<open>C39: a serialised directory entry, short or long name, takes 32 bytes at the position of the disk, changes
  no other byte, and deserialises to the same entry.\<close>

theorem dir_entry_roundtrip:
  assumes "dir_entry_wf d" "p + 32 \<le> length b"
  shows "\<exists>b'. dir_entry_serialize cursor_ops d \<lparr>cur_inner = b, cur_pos = p\<rparr> =
      (Inr (), \<lparr>cur_inner = b', cur_pos = p + 32\<rparr>) \<and>
    (\<exists>bs. length bs = 32 \<and> b' = splice p bs b) \<and>
    dir_entry_deserialize cursor_ops \<lparr>cur_inner = b', cur_pos = p\<rparr> = (Inr d, \<lparr>cur_inner = b', cur_pos = p + 32\<rparr>)"
proof -
  note len = length_entry_bytes [OF assms(1)]
  let ?b = "splice p (entry_bytes d) b"
  have "dir_entry_serialize cursor_ops d \<lparr>cur_inner = b, cur_pos = p\<rparr> = (Inr (), \<lparr>cur_inner = ?b, cur_pos = p + 32\<rparr>)"
    using cursor_emits [OF cursor.emits_dir_entry [of d], of "\<lparr>cur_inner = b, cur_pos = p\<rparr>"] assms(2) len by simp
  moreover have "dir_entry_deserialize cursor_ops \<lparr>cur_inner = ?b, cur_pos = p\<rparr> = (Inr d, \<lparr>cur_inner = ?b, cur_pos = p + 32\<rparr>)"
    using cursor_parses [OF cursor.parses_dir_entry [OF assms(1)], of p ?b] assms(2) len by simp
  ultimately show ?thesis using len by blast
qed

definition demo_entry :: dir_file_entry_data where
  "demo_entry = (file_entry_new (map (of_nat \<circ> of_char) ''HELLO   TXT'') ATTR_ARCHIVE)\<lparr>fe_size := 0x1234, fe_first_cluster_lo := 7\<rparr>"

lemma demo_entry_wf: "dir_entry_wf (File demo_entry)"
  by (simp add: dir_entry_wf_def demo_entry_def file_entry_new_def attr_truncate_def attr_defs)

theorem dir_entry_roundtrip_witness:
  "\<exists>b'. dir_entry_serialize cursor_ops (File demo_entry) \<lparr>cur_inner = replicate 64 0, cur_pos = 32\<rparr> =
      (Inr (), \<lparr>cur_inner = b', cur_pos = 64\<rparr>) \<and>
    dir_entry_deserialize cursor_ops \<lparr>cur_inner = b', cur_pos = 32\<rparr> = (Inr (File demo_entry), \<lparr>cur_inner = b', cur_pos = 64\<rparr>)"
  using dir_entry_roundtrip [OF demo_entry_wf, of 32 "replicate 64 0"] by auto

section \<open>The editor\<close>

lemma editor_write_ok:
  assumes "dir_entry_wf (File (ed_data ed))" "ed_pos ed + 32 \<le> length (cur_inner c)"
  shows "editor_write cursor_ops ed c =
    (Inr (), \<lparr>cur_inner = splice (ed_pos ed) (file_entry_bytes (ed_data ed)) (cur_inner c), cur_pos = ed_pos ed + 32\<rparr>)"
proof -
  have len: "length (file_entry_bytes (ed_data ed)) = 32"
    using length_entry_bytes [OF assms(1)] by (simp add: entry_bytes_def)
  have "io_seek cursor_ops (Start (ed_pos ed)) c = (Inr (ed_pos ed), \<lparr>cur_inner = cur_inner c, cur_pos = ed_pos ed\<rparr>)"
    by (cases c) (simp add: cursor_ops_def cursor_seek_def)
  moreover have "file_entry_serialize cursor_ops (ed_data ed) \<lparr>cur_inner = cur_inner c, cur_pos = ed_pos ed\<rparr> =
      (Inr (), \<lparr>cur_inner = splice (ed_pos ed) (file_entry_bytes (ed_data ed)) (cur_inner c), cur_pos = ed_pos ed + 32\<rparr>)"
    using cursor_emits [OF cursor.emits_file_entry [of "ed_data ed"], of "\<lparr>cur_inner = cur_inner c, cur_pos = ed_pos ed\<rparr>"]
      assms(2) len by simp
  ultimately show ?thesis by (simp add: editor_write_def sbind_def)
qed

text \<open>An editor is in sync with the disk unless it is dirty.\<close>

definition editor_synced :: "u8 list \<Rightarrow> dir_entry_editor \<Rightarrow> bool" where
  "editor_synced b ed \<longleftrightarrow> ed_dirty ed \<or> window (ed_pos ed) 32 b = file_entry_bytes (ed_data ed)"

text \<open>C40: an editor never loses an update: every setter keeps it in sync with the disk or marks it dirty, and
  \<open>flush\<close> succeeds, writes the 32 bytes of the entry at its position and no other byte, and leaves a clean
  editor whose entry is what the disk holds.\<close>

theorem editor_flush_persists:
  assumes "dir_entry_wf (File (ed_data ed))" "ed_pos ed + 32 \<le> length (cur_inner c)" "editor_synced (cur_inner c) ed"
  shows "editor_synced (cur_inner c) (editor_set_size n ed) \<and>
    editor_synced (cur_inner c) (editor_set_first_cluster cl ft ed) \<and>
    (\<forall>ed'. editor_set_created dt ed = Inr ed' \<or> editor_set_accessed d ed = Inr ed' \<or> editor_set_modified dt ed = Inr ed' \<longrightarrow>
       editor_synced (cur_inner c) ed') \<and>
    (\<exists>c'. editor_flush cursor_ops (c, ed) = (Inr (), (c', ed\<lparr>ed_dirty := False\<rparr>)) \<and>
       editor_synced (cur_inner c') (ed\<lparr>ed_dirty := False\<rparr>) \<and> length (cur_inner c') = length (cur_inner c) \<and>
       (\<forall>i < length (cur_inner c). i \<notin> {ed_pos ed..<ed_pos ed + 32} \<longrightarrow> cur_inner c' ! i = cur_inner c ! i))"
proof -
  have len: "length (file_entry_bytes (ed_data ed)) = 32"
    using length_entry_bytes [OF assms(1)] by (simp add: entry_bytes_def)
  have "\<exists>c'. editor_flush cursor_ops (c, ed) = (Inr (), (c', ed\<lparr>ed_dirty := False\<rparr>)) \<and>
       editor_synced (cur_inner c') (ed\<lparr>ed_dirty := False\<rparr>) \<and> length (cur_inner c') = length (cur_inner c) \<and>
       (\<forall>i < length (cur_inner c). i \<notin> {ed_pos ed..<ed_pos ed + 32} \<longrightarrow> cur_inner c' ! i = cur_inner c ! i)"
  proof (cases "ed_dirty ed")
    case True
    let ?c = "\<lparr>cur_inner = splice (ed_pos ed) (file_entry_bytes (ed_data ed)) (cur_inner c), cur_pos = ed_pos ed + 32\<rparr>"
    show ?thesis
      by (rule exI [of _ ?c])
        (use True editor_write_ok [OF assms(1,2)] len assms(2) in \<open>auto simp: editor_flush_def editor_synced_def nth_splice\<close>)
  next
    case False
    then have "ed\<lparr>ed_dirty := False\<rparr> = ed" by (cases ed) simp
    with False assms(3) show ?thesis by (simp add: editor_flush_def editor_synced_def)
  qed
  then show ?thesis
    using assms(3)
    by (auto simp: editor_synced_def editor_set_size_def editor_set_first_cluster_def editor_set_created_def
        editor_set_accessed_def editor_set_modified_def split: option.splits if_splits)
qed

theorem editor_flush_persists_witness:
  "\<exists>c'. editor_flush cursor_ops (cursor_new (replicate 64 0), \<lparr>ed_data = demo_entry, ed_pos = 32, ed_dirty = True\<rparr>) =
    (Inr (), (c', editor_new demo_entry 32)) \<and> window 32 32 (cur_inner c') = file_entry_bytes demo_entry"
  using editor_flush_persists [of "\<lparr>ed_data = demo_entry, ed_pos = 32, ed_dirty = True\<rparr>" "cursor_new (replicate 64 0)" 0 None Fat32 get_current_date_time get_current_date]
  by (auto simp: demo_entry_wf cursor_new_def editor_synced_def editor_new_def)

lemma first_cluster_set:
  assumes "cl \<noteq> Some 0" "ft \<noteq> Fat32 \<Longrightarrow> \<forall>n. cl = Some n \<longrightarrow> unat n < 2 ^ 16"
  shows "file_entry_first_cluster ft (file_entry_set_first_cluster cl ft f) = cl"
proof (cases cl)
  case None
  then show ?thesis by (simp add: file_entry_first_cluster_def file_entry_set_first_cluster_def)
next
  case (Some n)
  have m: "(0xFFFF :: u32) = mask 16" by (simp add: mask_eq_exp_minus_1)
  have lo: "ucast (ucast (n AND 0xFFFF) :: u16) = n AND mask 16"
    unfolding m by (rule bit_word_eqI) (auto simp: bit_simps)
  show ?thesis
  proof (cases "ft = Fat32")
    case True
    have "push_bit 16 (ucast (ucast (drop_bit 16 n) :: u16)) OR (n AND mask 16) = n"
      by (rule bit_word_eqI) (auto simp: bit_simps)
    with True Some assms(1) lo show ?thesis
      by (simp add: file_entry_first_cluster_def file_entry_set_first_cluster_def Let_def)
  next
    case False
    with assms(2) Some have "n AND mask 16 = n" by (simp add: word_unat_eq_iff unat_and_mask)
    with False Some assms(1) lo show ?thesis
      by (simp add: file_entry_first_cluster_def file_entry_set_first_cluster_def Let_def)
  qed
qed

text \<open>what is set is read back: the size of a file, the first cluster within the range of the FAT type, and
  the access date; a directory has no size, and setting it changes nothing.\<close>

lemma editor_set_get:
  assumes "cl \<noteq> Some 0" "ft \<noteq> Fat32 \<longrightarrow> (\<forall>c. cl = Some c \<longrightarrow> unat c < 2 ^ 16)" "dos_date_ok d"
  shows "file_entry_size (ed_data (editor_set_size n ed)) = (if file_entry_is_dir (ed_data ed) then None else Some n) \<and>
    file_entry_first_cluster ft (ed_data (editor_set_first_cluster cl ft ed)) = cl \<and>
    (\<exists>ed'. editor_set_accessed d ed = Inr ed' \<and> file_entry_accessed (ed_data ed') = d) \<and>
    (file_entry_is_dir (ed_data ed) \<longrightarrow> editor_set_size n ed = ed)"
proof -
  obtain x where "date_encode d = Inr x" "date_decode x = d" using date_roundtrip [OF assms(3)] by blast
  then have "\<exists>ed'. editor_set_accessed d ed = Inr ed' \<and> file_entry_accessed (ed_data ed') = d"
    by (auto simp: editor_set_accessed_def file_entry_set_accessed_def file_entry_accessed_def)
  then show ?thesis
    using first_cluster_set [OF assms(1), of ft] assms(2)
    by (auto simp: editor_set_size_def file_entry_size_def file_entry_is_file_def file_entry_is_dir_def
        editor_set_first_cluster_def)
qed

section \<open>Short names\<close>

definition rstrip :: "u8 list \<Rightarrow> u8 list" where
  "rstrip xs = rev (dropWhile (\<lambda>x. x = PADDING) (rev xs))"

lemma rposition_snoc: "rposition P (xs @ [x]) = (if P x then Some (length xs) else rposition P xs)"
proof -
  have "filter (\<lambda>i. P ((xs @ [x]) ! i)) [0..<length xs] = filter (\<lambda>i. P (xs ! i)) [0..<length xs]"
    by (rule filter_cong) (auto simp: nth_append)
  then show ?thesis by (simp add: rposition_def)
qed

lemma trimmed_len_rstrip: "take (trimmed_len xs) xs = rstrip xs" "trimmed_len xs = length (rstrip xs)"
  "length (rstrip xs) \<le> length xs"
proof -
  have "take (trimmed_len xs) xs = rstrip xs \<and> trimmed_len xs = length (rstrip xs) \<and> length (rstrip xs) \<le> length xs"
  proof (induction xs rule: rev_induct)
    case Nil
    then show ?case by (simp add: trimmed_len_def rposition_def rstrip_def)
  next
    case (snoc x xs)
    show ?case
    proof (cases "x = PADDING")
      case True
      then have "trimmed_len (xs @ [x]) = trimmed_len xs" "rstrip (xs @ [x]) = rstrip xs"
        by (simp_all add: trimmed_len_def rposition_snoc rstrip_def)
      with snoc show ?thesis by auto
    next
      case False
      then show ?thesis by (simp add: trimmed_len_def rposition_snoc rstrip_def)
    qed
  qed
  then show "take (trimmed_len xs) xs = rstrip xs" "trimmed_len xs = length (rstrip xs)" "length (rstrip xs) \<le> length xs"
    by auto
qed

text \<open>the raw eleven bytes of an entry decode to the base name without its trailing spaces, followed by a dot
  and the extension when there is one; a leading 0x05 stands for 0xE5.\<close>

lemma short_name_decodes:
  assumes "length raw = 11"
  shows "short_name_as_bytes (short_name_new raw) =
    (let base = rstrip (take 8 raw); ext = rstrip (drop 8 raw);
         name = base @ (if ext = [] then [] else 0x2E # ext)
     in if name \<noteq> [] \<and> name ! 0 = 0x05 then name[0 := 0xE5] else name)"
proof -
  define base ext where be: "base = rstrip (take 8 raw)" "ext = rstrip (drop 8 raw)"
  have w: "window 0 8 raw = take 8 raw" "window 8 3 raw = drop 8 raw" using assms by (simp_all add: window_def)
  have bl: "length base \<le> 8" "length ext \<le> 3"
    using trimmed_len_rstrip(3) [of "take 8 raw"] trimmed_len_rstrip(3) [of "drop 8 raw"] assms by (simp_all add: be)
  have tl: "trimmed_len (take 8 raw) = length base" "trimmed_len (drop 8 raw) = length ext"
    by (simp_all add: be trimmed_len_rstrip(2))
  have tb: "take (length base) raw = base" "window 8 (length ext) raw = ext"
    using trimmed_len_rstrip(1) [of "take 8 raw"] trimmed_len_rstrip(1) [of "drop 8 raw"] bl(1)
    by (simp_all add: tl be [symmetric] window_def min_def)
  define full where "full = base @ (if ext = [] then [] else 0x2E # ext)"
  define name where "name = (if ext = [] then splice 0 base (replicate 12 PADDING)
    else splice (length base + 1) ext ((splice 0 base (replicate 12 PADDING))[length base := 0x2E]))"
  have n0: "splice 0 base (replicate 12 PADDING) = base @ replicate (12 - length base) PADDING"
    using bl(1) by (simp add: splice_def)
  have name: "name = full @ replicate (12 - length full) PADDING"
  proof (cases "ext = []")
    case True
    then show ?thesis by (simp add: name_def full_def n0)
  next
    case False
    obtain m where m: "12 - length base = Suc m" using bl(1) by (cases "12 - length base") auto
    have "(base @ replicate (Suc m) PADDING)[length base := 0x2E] = (base @ [0x2E]) @ replicate m PADDING" by simp
    with False m bl show ?thesis by (simp add: name_def full_def n0 splice_def)
  qed
  have sn: "short_name_new raw = \<lparr>sn_name = (if name ! 0 = 0x05 then name[0 := 0xE5] else name), sn_len = length full\<rparr>"
    unfolding short_name_new_def w tl tb Let_def by (simp add: name_def full_def tb DIR_ENTRY_REALLY_E5_FLAG_def)
  have "(name ! 0 = 0x05) = (full \<noteq> [] \<and> full ! 0 = 0x05)"
    by (cases full) (simp_all add: name PADDING_def)
  then have "short_name_as_bytes (short_name_new raw) = (if full \<noteq> [] \<and> full ! 0 = 0x05 then full[0 := 0xE5] else full)"
    by (cases full) (simp_all add: sn short_name_as_bytes_def name)
  then show ?thesis unfolding full_def be Let_def .
qed

end
