(* ===== verification/Fat_Boot_Sector.thy ===== *)
theory Fat_Boot_Sector
  imports Fat_Dir_Entry
begin

text \<open>
  The boot sector, \<open>fatfs/src/boot_sector.rs\<close>: the BIOS parameter block with its serialised form, the geometry
  it determines, the checks a mounted volume must pass, and the choice of the geometry when a volume is
  formatted. The number of clusters no longer decides the FAT type: \<open>FatType::from_clusters\<close> was changed to
  answer FAT32 always. Sums and products are the checked ones of the code; a multiplication that cannot overflow
  for the widths of its operands is written with the plain operator.
\<close>

unbundle bit_operations_syntax

section \<open>Arithmetic of the standard library\<close>

definition cdiv :: "'a::len word \<Rightarrow> 'a word \<Rightarrow> 'a word res" where
  "cdiv x y = (if y = 0 then Inl (Panic DivideByZero) else Inr (x div y))"

definition count_ones :: "'a::len word \<Rightarrow> nat" where
  "count_ones w = length (filter (bit w) [0..<LENGTH('a)])"

definition next_power_of_two :: "u64 \<Rightarrow> u64 res" where
  "next_power_of_two x =
     (case find (\<lambda>k. unat x \<le> 2 ^ k) [0..<64] of Some k \<Rightarrow> Inr (push_bit k 1) | None \<Rightarrow> Inl (Panic Overflow))"

lemma cdiv_Inr [arith_simps]: "cdiv x y = Inr z \<longleftrightarrow> y \<noteq> 0 \<and> z = x div y"
  by (auto simp: cdiv_def)

section \<open>FAT types\<close>

definition FAT16_MIN_CLUSTERS :: u32 where "FAT16_MIN_CLUSTERS = 4085"
definition FAT32_MIN_CLUSTERS :: u32 where "FAT32_MIN_CLUSTERS = 65525"
definition FAT32_MAX_CLUSTERS :: u32 where "FAT32_MAX_CLUSTERS = 0x0FFFFFF4"

definition from_clusters :: "u32 \<Rightarrow> fat_type" where
  "from_clusters total_clusters = Fat32"

definition min_clusters :: "fat_type \<Rightarrow> u32" where
  "min_clusters ft = (case ft of Fat12 \<Rightarrow> 0 | Fat16 \<Rightarrow> FAT16_MIN_CLUSTERS | Fat32 \<Rightarrow> FAT32_MIN_CLUSTERS)"

definition max_clusters :: "fat_type \<Rightarrow> u32" where
  "max_clusters ft =
     (case ft of Fat12 \<Rightarrow> FAT16_MIN_CLUSTERS - 1 | Fat16 \<Rightarrow> FAT32_MIN_CLUSTERS - 1 | Fat32 \<Rightarrow> FAT32_MAX_CLUSTERS)"

definition status_flags_encode :: "fs_status_flags \<Rightarrow> u8" where
  "status_flags_encode f = (if fl_dirty f then 1 else 0) OR (if fl_io_error f then 2 else 0)"

definition status_flags_decode :: "u8 \<Rightarrow> fs_status_flags" where
  "status_flags_decode flags = \<lparr>fl_dirty = (flags AND 1 \<noteq> 0), fl_io_error = (flags AND 2 \<noteq> 0)\<rparr>"

section \<open>The BIOS parameter block\<close>

record bpb =
  bytes_per_sector :: u16
  sectors_per_cluster :: u8
  bpb_reserved_sectors :: u16
  bpb_fats :: u8
  root_entries :: u16
  total_sectors_16 :: u16
  bpb_media :: u8
  sectors_per_fat_16 :: u16
  sectors_per_track :: u16
  bpb_heads :: u16
  hidden_sectors :: u32
  total_sectors_32 :: u32
  sectors_per_fat_32 :: u32
  extended_flags :: u16
  fs_version :: u16
  root_dir_first_cluster :: u32
  bpb_fs_info_sector :: u16
  bpb_backup_boot_sector :: u16
  bpb_reserved_0 :: "u8 list"
  drive_num :: u8
  bpb_reserved_1 :: u8
  ext_sig :: u8
  volume_id :: u32
  volume_label :: "u8 list"
  fs_type_label :: "u8 list"

definition bpb_default :: bpb where
  "bpb_default =
     \<lparr>bytes_per_sector = 0, sectors_per_cluster = 0, bpb_reserved_sectors = 0, bpb_fats = 0, root_entries = 0,
      total_sectors_16 = 0, bpb_media = 0, sectors_per_fat_16 = 0, sectors_per_track = 0, bpb_heads = 0,
      hidden_sectors = 0, total_sectors_32 = 0, sectors_per_fat_32 = 0, extended_flags = 0, fs_version = 0,
      root_dir_first_cluster = 0, bpb_fs_info_sector = 0, bpb_backup_boot_sector = 0,
      bpb_reserved_0 = replicate 12 0, drive_num = 0, bpb_reserved_1 = 0, ext_sig = 0, volume_id = 0,
      volume_label = replicate 11 0, fs_type_label = replicate 8 0\<rparr>"

definition bpb_is_fat32 :: "bpb \<Rightarrow> bool" where
  "bpb_is_fat32 self \<longleftrightarrow> sectors_per_fat_16 self = 0"

text \<open>The fields common to all FAT types, the FAT32 extension, and the fields after the extension.\<close>

definition bpb_read_base :: "'s rws \<Rightarrow> ('s, bpb) st" where
  "bpb_read_base ops =
     sbind (read_u16 ops) (\<lambda>f1.
     sbind (read_u8 ops) (\<lambda>f2.
     sbind (read_u16 ops) (\<lambda>f3.
     sbind (read_u8 ops) (\<lambda>f4.
     sbind (read_u16 ops) (\<lambda>f5.
     sbind (read_u16 ops) (\<lambda>f6.
     sbind (read_u8 ops) (\<lambda>f7.
     sbind (read_u16 ops) (\<lambda>f8.
     sbind (read_u16 ops) (\<lambda>f9.
     sbind (read_u16 ops) (\<lambda>f10.
     sbind (read_u32 ops) (\<lambda>f11.
     sbind (read_u32 ops) (\<lambda>f12.
     sret (bpb_default\<lparr>bytes_per_sector := f1, sectors_per_cluster := f2, bpb_reserved_sectors := f3, bpb_fats := f4,
       root_entries := f5, total_sectors_16 := f6, bpb_media := f7, sectors_per_fat_16 := f8,
       sectors_per_track := f9, bpb_heads := f10, hidden_sectors := f11, total_sectors_32 := f12\<rparr>)))))))))))))"

definition bpb_read_fat32 :: "'s rws \<Rightarrow> bpb \<Rightarrow> ('s, bpb) st" where
  "bpb_read_fat32 ops bpb =
     sbind (read_u32 ops) (\<lambda>f1.
     sbind (read_u16 ops) (\<lambda>f2.
     sbind (read_u16 ops) (\<lambda>f3.
     sbind (read_u32 ops) (\<lambda>f4.
     sbind (read_u16 ops) (\<lambda>f5.
     sbind (read_u16 ops) (\<lambda>f6.
     sbind (io_read_exact ops 12) (\<lambda>f7.
     sret (bpb\<lparr>sectors_per_fat_32 := f1, extended_flags := f2, fs_version := f3, root_dir_first_cluster := f4,
       bpb_fs_info_sector := f5, bpb_backup_boot_sector := f6, bpb_reserved_0 := f7\<rparr>))))))))"

definition bpb_read_tail :: "'s rws \<Rightarrow> bpb \<Rightarrow> ('s, bpb) st" where
  "bpb_read_tail ops bpb =
     sbind (read_u8 ops) (\<lambda>f1.
     sbind (read_u8 ops) (\<lambda>f2.
     sbind (read_u8 ops) (\<lambda>f3.
     sbind (read_u32 ops) (\<lambda>f4.
     sbind (io_read_exact ops 11) (\<lambda>f5.
     sbind (io_read_exact ops 8) (\<lambda>f6.
     sret (bpb\<lparr>drive_num := f1, bpb_reserved_1 := f2, ext_sig := f3, volume_id := f4, volume_label := f5,
       fs_type_label := f6\<rparr>)))))))"

definition bpb_clean :: "bpb \<Rightarrow> bpb" where
  "bpb_clean bpb =
     (if ext_sig bpb \<noteq> 0x29
      then bpb\<lparr>volume_id := 0, volume_label := replicate 11 0, fs_type_label := replicate 8 0\<rparr> else bpb)"

definition bpb_deserialize :: "'s rws \<Rightarrow> ('s, bpb) st" where
  "bpb_deserialize ops =
     sbind (bpb_read_base ops) (\<lambda>bpb.
     sbind (if bpb_is_fat32 bpb then bpb_read_fat32 ops bpb else sret bpb) (\<lambda>bpb.
     sbind (bpb_read_tail ops bpb) (\<lambda>bpb. sret (bpb_clean bpb))))"

definition bpb_write_base :: "'s rws \<Rightarrow> bpb \<Rightarrow> ('s, unit) st" where
  "bpb_write_base ops self =
     sbind (write_u16 ops (bytes_per_sector self)) (\<lambda>_.
     sbind (write_u8 ops (sectors_per_cluster self)) (\<lambda>_.
     sbind (write_u16 ops (bpb_reserved_sectors self)) (\<lambda>_.
     sbind (write_u8 ops (bpb_fats self)) (\<lambda>_.
     sbind (write_u16 ops (root_entries self)) (\<lambda>_.
     sbind (write_u16 ops (total_sectors_16 self)) (\<lambda>_.
     sbind (write_u8 ops (bpb_media self)) (\<lambda>_.
     sbind (write_u16 ops (sectors_per_fat_16 self)) (\<lambda>_.
     sbind (write_u16 ops (sectors_per_track self)) (\<lambda>_.
     sbind (write_u16 ops (bpb_heads self)) (\<lambda>_.
     sbind (write_u32 ops (hidden_sectors self)) (\<lambda>_.
     write_u32 ops (total_sectors_32 self))))))))))))"

definition bpb_write_fat32 :: "'s rws \<Rightarrow> bpb \<Rightarrow> ('s, unit) st" where
  "bpb_write_fat32 ops self =
     sbind (write_u32 ops (sectors_per_fat_32 self)) (\<lambda>_.
     sbind (write_u16 ops (extended_flags self)) (\<lambda>_.
     sbind (write_u16 ops (fs_version self)) (\<lambda>_.
     sbind (write_u32 ops (root_dir_first_cluster self)) (\<lambda>_.
     sbind (write_u16 ops (bpb_fs_info_sector self)) (\<lambda>_.
     sbind (write_u16 ops (bpb_backup_boot_sector self)) (\<lambda>_.
     io_write_all ops (bpb_reserved_0 self)))))))"

definition bpb_write_tail :: "'s rws \<Rightarrow> bpb \<Rightarrow> ('s, unit) st" where
  "bpb_write_tail ops self =
     sbind (write_u8 ops (drive_num self)) (\<lambda>_.
     sbind (write_u8 ops (bpb_reserved_1 self)) (\<lambda>_.
     sbind (write_u8 ops (ext_sig self)) (\<lambda>_.
     sbind (write_u32 ops (volume_id self)) (\<lambda>_.
     sbind (io_write_all ops (volume_label self)) (\<lambda>_.
     io_write_all ops (fs_type_label self))))))"

definition bpb_serialize :: "'s rws \<Rightarrow> bpb \<Rightarrow> ('s, unit) st" where
  "bpb_serialize ops self =
     sbind (bpb_write_base ops self) (\<lambda>_.
     sbind (if bpb_is_fat32 self then bpb_write_fat32 ops self else sret ()) (\<lambda>_.
     bpb_write_tail ops self))"

section \<open>Geometry\<close>

definition mirroring_enabled :: "bpb \<Rightarrow> bool" where
  "mirroring_enabled self \<longleftrightarrow> extended_flags self AND 0x80 = 0"

definition active_fat :: "bpb \<Rightarrow> u16" where
  "active_fat self = (if mirroring_enabled self then 0 else extended_flags self AND 0x0F)"

definition bpb_status_flags :: "bpb \<Rightarrow> fs_status_flags" where
  "bpb_status_flags self = status_flags_decode (bpb_reserved_1 self)"

definition sectors_per_fat :: "bpb \<Rightarrow> u32" where
  "sectors_per_fat self = (if bpb_is_fat32 self then sectors_per_fat_32 self else ucast (sectors_per_fat_16 self))"

definition total_sectors :: "bpb \<Rightarrow> u32" where
  "total_sectors self = (if total_sectors_16 self = 0 then total_sectors_32 self else ucast (total_sectors_16 self))"

definition reserved_sectors :: "bpb \<Rightarrow> u32" where
  "reserved_sectors self = ucast (bpb_reserved_sectors self)"

definition root_dir_sectors :: "bpb \<Rightarrow> u32 res" where
  "root_dir_sectors self =
     (let root_dir_bytes = ucast (root_entries self) * 32 in
      rbind (cadd root_dir_bytes (ucast (bytes_per_sector self))) (\<lambda>x.
      rbind (csub x 1) (\<lambda>y. cdiv y (ucast (bytes_per_sector self)))))"

definition sectors_per_all_fats :: "bpb \<Rightarrow> u32 res" where
  "sectors_per_all_fats self = cmul (ucast (bpb_fats self)) (sectors_per_fat self)"

definition first_data_sector :: "bpb \<Rightarrow> u32 res" where
  "first_data_sector self =
     rbind (root_dir_sectors self) (\<lambda>root_sectors.
     rbind (sectors_per_all_fats self) (\<lambda>fat_sectors.
     rbind (cadd (reserved_sectors self) fat_sectors) (\<lambda>x. cadd x root_sectors)))"

definition total_clusters :: "bpb \<Rightarrow> u32 res" where
  "total_clusters self =
     rbind (first_data_sector self) (\<lambda>first.
     rbind (csub (total_sectors self) first) (\<lambda>data_sectors.
     cdiv data_sectors (ucast (sectors_per_cluster self))))"

definition bytes_from_sectors :: "bpb \<Rightarrow> u32 \<Rightarrow> u64" where
  "bytes_from_sectors self sectors = ucast sectors * ucast (bytes_per_sector self)"

definition sectors_from_clusters :: "bpb \<Rightarrow> u32 \<Rightarrow> u32 res" where
  "sectors_from_clusters self clusters = cmul clusters (ucast (sectors_per_cluster self))"

definition bpb_cluster_size :: "bpb \<Rightarrow> u32" where
  "bpb_cluster_size self = ucast (sectors_per_cluster self) * ucast (bytes_per_sector self)"

text \<open>\<open>clusters_from_bytes\<close> computes in \<open>i64\<close> and truncates to \<open>u32\<close>; the division of Rust rounds towards zero.\<close>

definition clusters_from_bytes :: "bpb \<Rightarrow> u64 \<Rightarrow> u32 res" where
  "clusters_from_bytes self bytes =
     (let cs = uint (bpb_cluster_size self); x = sint bytes + cs in
      if x \<ge> 2 ^ 63 then Inl (Panic Overflow)
      else if cs = 0 then Inl (Panic DivideByZero)
      else Inr (word_of_int (if x - 1 < 0 then - ((1 - x) div cs) else (x - 1) div cs)))"

definition fs_info_sector :: "bpb \<Rightarrow> u32" where
  "fs_info_sector self = ucast (bpb_fs_info_sector self)"

definition backup_boot_sector :: "bpb \<Rightarrow> u32" where
  "backup_boot_sector self = ucast (bpb_backup_boot_sector self)"

section \<open>Validation\<close>

definition io_guard :: "bool \<Rightarrow> unit res" where
  "io_guard b = rguard b (Io Other)"

definition bpb_validate_sizes :: "bpb \<Rightarrow> unit res" where
  "bpb_validate_sizes self =
     rbind (io_guard (count_ones (bytes_per_sector self) = 1)) (\<lambda>_.
     rbind (io_guard (\<not> bytes_per_sector self < 512)) (\<lambda>_.
     rbind (io_guard (\<not> bytes_per_sector self > 4096)) (\<lambda>_.
     rbind (io_guard (count_ones (sectors_per_cluster self) = 1)) (\<lambda>_.
     rbind (io_guard (\<not> sectors_per_cluster self < 1)) (\<lambda>_.
     io_guard (\<not> sectors_per_cluster self > 128))))))"

definition bpb_validate_fields :: "bpb \<Rightarrow> unit res" where
  "bpb_validate_fields self =
     (let is_fat32 = bpb_is_fat32 self in
      rbind (io_guard (\<not> bpb_reserved_sectors self < 1)) (\<lambda>_.
      rbind (io_guard (bpb_fats self \<noteq> 0)) (\<lambda>_.
      rbind (io_guard (\<not> (is_fat32 \<and> root_entries self \<noteq> 0))) (\<lambda>_.
      rbind (io_guard (\<not> (\<not> is_fat32 \<and> root_entries self = 0))) (\<lambda>_.
      rbind (io_guard ((total_sectors_16 self = 0) \<noteq> (total_sectors_32 self = 0))) (\<lambda>_.
      rbind (io_guard (\<not> (is_fat32 \<and> sectors_per_fat_32 self = 0))) (\<lambda>_.
      io_guard (fs_version self = 0))))))))"

text \<open>The last check only warns when the FAT is too small, but the products it computes are checked ones.\<close>

definition bpb_validate_fat_size :: "bpb \<Rightarrow> fat_type \<Rightarrow> unit res" where
  "bpb_validate_fat_size self ft =
     rbind (cmul (sectors_per_fat self) (ucast (bytes_per_sector self))) (\<lambda>x.
     rbind (cmul x 8) (\<lambda>bits.
     rbind (cdiv bits (bits_per_fat_entry ft)) (\<lambda>total_fat_entries.
     rbind (csub total_fat_entries RESERVED_FAT_ENTRIES) (\<lambda>_. Inr ()))))"

definition bpb_validate :: "bpb \<Rightarrow> unit res" where
  "bpb_validate self =
     rbind (bpb_validate_sizes self) (\<lambda>_.
     rbind (bpb_validate_fields self) (\<lambda>_.
     rbind (first_data_sector self) (\<lambda>first.
     rbind (io_guard (\<not> total_sectors self \<le> first)) (\<lambda>_.
     rbind (io_guard (\<not> (bpb_is_fat32 self \<and> backup_boot_sector self \<ge> reserved_sectors self))) (\<lambda>_.
     rbind (io_guard (\<not> (bpb_is_fat32 self \<and> fs_info_sector self \<ge> reserved_sectors self))) (\<lambda>_.
     rbind (total_clusters self) (\<lambda>clusters.
     let ft = from_clusters clusters in
     rbind (io_guard (bpb_is_fat32 self = (ft = Fat32))) (\<lambda>_.
     rbind (io_guard (\<not> (ft = Fat32 \<and> clusters > 0x0FFFFFFF))) (\<lambda>_.
     bpb_validate_fat_size self ft)))))))))"

section \<open>The boot sector\<close>

record boot_sector =
  bootjmp :: "u8 list"
  oem_name :: "u8 list"
  boot_bpb :: bpb
  boot_code :: "u8 list"
  boot_sig :: "u8 list"

definition boot_code_len :: "bpb \<Rightarrow> nat" where
  "boot_code_len b = (if bpb_is_fat32 b then 420 else 448)"

definition boot_sector_default :: boot_sector where
  "boot_sector_default = \<lparr>bootjmp = replicate 3 0, oem_name = replicate 8 0, boot_bpb = bpb_default,
     boot_code = replicate 448 0, boot_sig = replicate 2 0\<rparr>"

definition boot_sector_deserialize :: "'s rws \<Rightarrow> ('s, boot_sector) st" where
  "boot_sector_deserialize ops =
     sbind (io_read_exact ops 3) (\<lambda>jmp.
     sbind (io_read_exact ops 8) (\<lambda>oem.
     sbind (bpb_deserialize ops) (\<lambda>bpb.
     sbind (io_read_exact ops (boot_code_len bpb)) (\<lambda>code.
     sbind (io_read_exact ops 2) (\<lambda>sig.
     sret \<lparr>bootjmp = jmp, oem_name = oem, boot_bpb = bpb, boot_code = splice 0 code (replicate 448 0), boot_sig = sig\<rparr>)))))"

definition boot_sector_serialize :: "'s rws \<Rightarrow> boot_sector \<Rightarrow> ('s, unit) st" where
  "boot_sector_serialize ops self =
     sbind (io_write_all ops (bootjmp self)) (\<lambda>_.
     sbind (io_write_all ops (oem_name self)) (\<lambda>_.
     sbind (bpb_serialize ops (boot_bpb self)) (\<lambda>_.
     sbind (io_write_all ops (take (boot_code_len (boot_bpb self)) (boot_code self))) (\<lambda>_.
     io_write_all ops (boot_sig self)))))"

definition boot_sector_validate :: "boot_sector \<Rightarrow> unit res" where
  "boot_sector_validate self =
     rbind (io_guard (boot_sig self = [0x55, 0xAA])) (\<lambda>_. bpb_validate (boot_bpb self))"

section \<open>Formatting\<close>

record format_volume_options =
  fo_bytes_per_sector :: "u16 option"
  fo_total_sectors :: "u32 option"
  fo_bytes_per_cluster :: "u32 option"
  fo_fat_type :: "fat_type option"
  fo_max_root_dir_entries :: "u16 option"
  fo_fats :: "u8 option"
  fo_media :: "u8 option"
  fo_sectors_per_track :: "u16 option"
  fo_heads :: "u16 option"
  fo_drive_num :: "u8 option"
  fo_volume_id :: "u32 option"
  fo_volume_label :: "u8 list option"

definition format_options_new :: format_volume_options where
  "format_options_new = \<lparr>fo_bytes_per_sector = None, fo_total_sectors = None, fo_bytes_per_cluster = None,
     fo_fat_type = None, fo_max_root_dir_entries = None, fo_fats = None, fo_media = None, fo_sectors_per_track = None,
     fo_heads = None, fo_drive_num = None, fo_volume_id = None, fo_volume_label = None\<rparr>"

definition unwrap_or :: "'a option \<Rightarrow> 'a \<Rightarrow> 'a" where
  "unwrap_or x d = (case x of None \<Rightarrow> d | Some v \<Rightarrow> v)"

definition fo_set_bytes_per_cluster :: "u32 \<Rightarrow> format_volume_options \<Rightarrow> format_volume_options res" where
  "fo_set_bytes_per_cluster n self =
     rbind (rguard (count_ones n = 1 \<and> n \<ge> 512) (Panic Assertion)) (\<lambda>_. Inr (self\<lparr>fo_bytes_per_cluster := Some n\<rparr>))"

definition fo_set_bytes_per_sector :: "u16 \<Rightarrow> format_volume_options \<Rightarrow> format_volume_options res" where
  "fo_set_bytes_per_sector n self =
     rbind (rguard (count_ones n = 1 \<and> n \<ge> 512) (Panic Assertion)) (\<lambda>_. Inr (self\<lparr>fo_bytes_per_sector := Some n\<rparr>))"

definition fo_set_fats :: "u8 \<Rightarrow> format_volume_options \<Rightarrow> format_volume_options res" where
  "fo_set_fats n self =
     rbind (rguard (n \<ge> 1 \<and> n \<le> 2) (Panic Assertion)) (\<lambda>_. Inr (self\<lparr>fo_fats := Some n\<rparr>))"

definition MB :: u64 where "MB = 0x100000"

definition estimate_fat_type :: "u64 \<Rightarrow> fat_type" where
  "estimate_fat_type total_bytes =
     (if total_bytes < 4 * MB then Fat12 else if total_bytes < 512 * MB then Fat16 else Fat32)"

definition determine_bytes_per_cluster :: "u64 \<Rightarrow> u16 \<Rightarrow> fat_type option \<Rightarrow> u32 res" where
  "determine_bytes_per_cluster total_bytes bps fat_type =
     (let ft = unwrap_or fat_type (estimate_fat_type total_bytes) in
      rbind (case ft of
          Fat12 \<Rightarrow> rbind (next_power_of_two total_bytes) (\<lambda>p. Inr (ucast (p div MB * 512)))
        | Fat16 \<Rightarrow>
            if total_bytes \<le> 16 * MB then Inr 1024
            else if total_bytes \<le> 128 * MB then Inr 2048
            else rbind (next_power_of_two total_bytes) (\<lambda>p. Inr (ucast (p div (64 * MB) * 1024)))
        | Fat32 \<Rightarrow>
            if total_bytes \<le> 260 * MB then Inr 512
            else if total_bytes \<le> 8 * 1024 * MB then Inr 4096
            else rbind (next_power_of_two total_bytes) (\<lambda>p. Inr (ucast (p div (2 * 1024 * MB) * 1024)))) (\<lambda>bpc :: u32.
      rbind (rguard (count_ones bpc = 1) (Panic Assertion)) (\<lambda>_.
      Inr (min (max bpc (ucast bps)) 32768))))"

definition determine_sectors_per_fat :: "u32 \<Rightarrow> u16 \<Rightarrow> u8 \<Rightarrow> fat_type \<Rightarrow> u16 \<Rightarrow> u32 \<Rightarrow> u8 \<Rightarrow> u32 res" where
  "determine_sectors_per_fat tot bps spc ft reserved root_sectors fats =
     rbind (csub tot (ucast reserved)) (\<lambda>x.
     rbind (csub x root_sectors) (\<lambda>t0.
     let t1 = (ucast t0 + ucast (2 * ucast spc :: u32) :: u64);
         bits_per_cluster = (ucast spc * ucast bps * 8 :: u32);
         t2 = (ucast (bits_per_cluster div bits_per_fat_entry ft + ucast fats) :: u64)
     in rbind (csub (t1 + t2) 1) (\<lambda>y. rbind (cdiv y t2) (\<lambda>z. Inr (ucast z)))))"

definition try_fs_geometry :: "u32 \<Rightarrow> u16 \<Rightarrow> u8 \<Rightarrow> fat_type \<Rightarrow> u32 \<Rightarrow> u8 \<Rightarrow> (u16 \<times> u32) res" where
  "try_fs_geometry tot bps spc ft root_sectors fats =
     (let reserved = (if ft = Fat32 then 8 else 1) in
      rbind (cadd (ucast reserved) root_sectors) (\<lambda>x.
      rbind (cadd x 8) (\<lambda>least.
      rbind (io_guard (\<not> tot \<le> least)) (\<lambda>_.
      rbind (determine_sectors_per_fat tot bps spc ft reserved root_sectors fats) (\<lambda>spf.
      rbind (csub tot (ucast reserved)) (\<lambda>d1.
      rbind (csub d1 root_sectors) (\<lambda>d2.
      rbind (cmul spf (ucast fats)) (\<lambda>all_fats.
      rbind (csub d2 all_fats) (\<lambda>data_sectors.
      rbind (cdiv data_sectors (ucast spc)) (\<lambda>clusters.
      rbind (io_guard (ft = from_clusters clusters)) (\<lambda>_.
      rbind (rguard (clusters \<ge> min_clusters ft) (Panic Assertion)) (\<lambda>_.
      rbind (io_guard (\<not> clusters > max_clusters ft)) (\<lambda>_.
      Inr (reserved, spf))))))))))))))"

definition determine_root_dir_sectors :: "u16 \<Rightarrow> u16 \<Rightarrow> fat_type \<Rightarrow> u32 res" where
  "determine_root_dir_sectors entries bps ft =
     (if ft = Fat32 then Inr 0
      else rbind (cadd (ucast entries * 32) (ucast bps)) (\<lambda>x. rbind (csub x 1) (\<lambda>y. cdiv y (ucast bps))))"

fun determine_fs_geometry_loop :: "fat_type list \<Rightarrow> u32 \<Rightarrow> u16 \<Rightarrow> u8 \<Rightarrow> u16 \<Rightarrow> u8 \<Rightarrow> (fat_type \<times> u16 \<times> u32) res" where
  "determine_fs_geometry_loop [] tot bps spc entries fats = Inl (Io Other)"
| "determine_fs_geometry_loop (ft # fts) tot bps spc entries fats =
     rbind (determine_root_dir_sectors entries bps ft) (\<lambda>root_sectors.
     case try_fs_geometry tot bps spc ft root_sectors fats of
       Inr (reserved, spf) \<Rightarrow> Inr (ft, reserved, spf)
     | Inl (Io _) \<Rightarrow> determine_fs_geometry_loop fts tot bps spc entries fats
     | Inl (Panic p) \<Rightarrow> Inl (Panic p))"

definition determine_fs_geometry :: "u32 \<Rightarrow> u16 \<Rightarrow> u8 \<Rightarrow> u16 \<Rightarrow> u8 \<Rightarrow> (fat_type \<times> u16 \<times> u32) res" where
  "determine_fs_geometry tot bps spc entries fats =
     determine_fs_geometry_loop [Fat32, Fat16, Fat12] tot bps spc entries fats"

definition ascii :: "string \<Rightarrow> u8 list" where
  "ascii s = map (of_nat \<circ> of_char) s"

definition fs_type_label_of :: "fat_type \<Rightarrow> u8 list" where
  "fs_type_label_of ft = ascii (case ft of Fat12 \<Rightarrow> ''FAT12   '' | Fat16 \<Rightarrow> ''FAT16   '' | Fat32 \<Rightarrow> ''FAT32   '')"

definition format_bpb_build ::
  "format_volume_options \<Rightarrow> u32 \<Rightarrow> u16 \<Rightarrow> u8 \<Rightarrow> u8 \<Rightarrow> u16 \<Rightarrow> fat_type \<Rightarrow> u16 \<Rightarrow> u32 \<Rightarrow> u16 \<Rightarrow> bpb" where
  "format_bpb_build options tot bps spc fats entries ft reserved spf spf16 =
     (let is_fat32 = (ft = Fat32) in
      \<lparr>bytes_per_sector = bps, sectors_per_cluster = spc, bpb_reserved_sectors = reserved, bpb_fats = fats,
       root_entries = (if is_fat32 then 0 else entries),
       total_sectors_16 = (if tot < 0x10000 then ucast tot else 0), bpb_media = unwrap_or (fo_media options) 0xF8,
       sectors_per_fat_16 = spf16, sectors_per_track = unwrap_or (fo_sectors_per_track options) 0x20,
       bpb_heads = unwrap_or (fo_heads options) 0x40, hidden_sectors = 0,
       total_sectors_32 = (if tot \<ge> 0x10000 then tot else 0),
       sectors_per_fat_32 = (if is_fat32 then spf else 0), extended_flags = 0, fs_version = 0,
       root_dir_first_cluster = (if is_fat32 then 2 else 0), bpb_fs_info_sector = (if is_fat32 then 1 else 0),
       bpb_backup_boot_sector = (if is_fat32 then 6 else 0), bpb_reserved_0 = replicate 12 0,
       drive_num = unwrap_or (fo_drive_num options) (if ft = Fat12 then 0 else 0x80), bpb_reserved_1 = 0,
       ext_sig = 0x29, volume_id = unwrap_or (fo_volume_id options) 0x12345678,
       volume_label = unwrap_or (fo_volume_label options) (ascii ''NO NAME    ''),
       fs_type_label = fs_type_label_of ft\<rparr>)"

definition format_bpb :: "format_volume_options \<Rightarrow> u32 \<Rightarrow> u16 \<Rightarrow> (bpb \<times> fat_type) res" where
  "format_bpb options tot bps =
     rbind (case fo_bytes_per_cluster options of
         Some n \<Rightarrow> Inr n
       | None \<Rightarrow> determine_bytes_per_cluster (ucast tot * ucast bps) bps (fo_fat_type options)) (\<lambda>bpc.
     rbind (cdiv bpc (ucast bps)) (\<lambda>spc32.
     rbind (rguard (spc32 \<le> 255) (Panic Assertion)) (\<lambda>_.
     let spc = ucast spc32; fats = unwrap_or (fo_fats options) 2;
         entries = unwrap_or (fo_max_root_dir_entries options) 512 in
     rbind (determine_fs_geometry tot bps spc entries fats) (\<lambda>(ft, reserved, spf).
     rbind (if ft = Fat32 then Inr 0
            else rbind (rguard (spf \<le> 0xFFFF) (Panic Assertion)) (\<lambda>_. Inr (ucast spf))) (\<lambda>spf16.
     let bpb = format_bpb_build options tot bps spc fats entries ft reserved spf spf16 in
     rbind (total_clusters bpb) (\<lambda>clusters.
     rbind (io_guard (from_clusters clusters = ft)) (\<lambda>_. Inr (bpb, ft))))))))"

definition boot_code_bytes :: "u8 list" where
  "boot_code_bytes =
     [0x0E, 0x1F, 0xBE, 0x77, 0x7C, 0xAC, 0x22, 0xC0, 0x74, 0x0B, 0x56, 0xB4, 0x0E, 0xBB, 0x07, 0x00, 0xCD, 0x10,
      0x5E, 0xEB, 0xF0, 0x32, 0xE4, 0xCD, 0x16, 0xCD, 0x19, 0xEB, 0xFE, 0x54, 0x68, 0x69, 0x73, 0x20, 0x69, 0x73,
      0x20, 0x6E, 0x6F, 0x74, 0x20, 0x61, 0x20, 0x62, 0x6F, 0x6F, 0x74, 0x61, 0x62, 0x6C, 0x65, 0x20, 0x64, 0x69,
      0x73, 0x6B, 0x2E, 0x20, 0x20, 0x50, 0x6C, 0x65, 0x61, 0x73, 0x65, 0x20, 0x69, 0x6E, 0x73, 0x65, 0x72, 0x74,
      0x20, 0x61, 0x20, 0x62, 0x6F, 0x6F, 0x74, 0x61, 0x62, 0x6C, 0x65, 0x20, 0x66, 0x6C, 0x6F, 0x70, 0x70, 0x79,
      0x20, 0x61, 0x6E, 0x64, 0x0D, 0x0A, 0x70, 0x72, 0x65, 0x73, 0x73, 0x20, 0x61, 0x6E, 0x79, 0x20, 0x6B, 0x65,
      0x79, 0x20, 0x74, 0x6F, 0x20, 0x74, 0x72, 0x79, 0x20, 0x61, 0x67, 0x61, 0x69, 0x6E, 0x20, 0x2E, 0x2E, 0x2E,
      0x20, 0x0D, 0x0A]"

definition format_boot_sector :: "format_volume_options \<Rightarrow> u32 \<Rightarrow> u16 \<Rightarrow> (boot_sector \<times> fat_type) res" where
  "format_boot_sector options tot bps =
     rbind (format_bpb options tot bps) (\<lambda>(bpb, ft).
     let boot = \<lparr>bootjmp = [0xEB, 0x58, 0x90], oem_name = ascii ''MSWIN4.1'', boot_bpb = bpb,
           boot_code = splice 0 boot_code_bytes (replicate 448 0), boot_sig = [0x55, 0xAA]\<rparr>;
         offset = 0x36 + 8;
         message = (ucast offset + 29 + 0x7C00 :: u16)
     in Inr (if ft \<noteq> Fat32
             then boot\<lparr>bootjmp := (bootjmp boot)[1 := offset - 2],
               boot_code := (boot_code boot)[3 := ucast (message AND 0xFF), 4 := ucast (drop_bit 8 message)]\<rparr>
             else boot, ft))"

end
