(* ===== verification/Fat_Boot_Props.thy ===== *)
theory Fat_Boot_Props
  imports Fat_Boot_Sector Fat_Dir_Entry_Props
begin

text \<open>
  Properties of the boot sector: its serialised form reads back, a volume that passes validation has a data area
  that lies inside it, the geometry chosen for a new volume has room in the FAT for every cluster, and what a
  changed \<open>from_clusters\<close> means for formatting.
\<close>

unbundle bit_operations_syntax

section \<open>Round trip\<close>

definition bpb_base_bytes :: "bpb \<Rightarrow> u8 list" where
  "bpb_base_bytes b = le16 (bytes_per_sector b) @ [sectors_per_cluster b] @ le16 (bpb_reserved_sectors b) @ [bpb_fats b] @
     le16 (root_entries b) @ le16 (total_sectors_16 b) @ [bpb_media b] @ le16 (sectors_per_fat_16 b) @
     le16 (sectors_per_track b) @ le16 (bpb_heads b) @ le32 (hidden_sectors b) @ le32 (total_sectors_32 b)"

definition bpb_fat32_bytes :: "bpb \<Rightarrow> u8 list" where
  "bpb_fat32_bytes b = le32 (sectors_per_fat_32 b) @ le16 (extended_flags b) @ le16 (fs_version b) @
     le32 (root_dir_first_cluster b) @ le16 (bpb_fs_info_sector b) @ le16 (bpb_backup_boot_sector b) @ bpb_reserved_0 b"

definition bpb_tail_bytes :: "bpb \<Rightarrow> u8 list" where
  "bpb_tail_bytes b = [drive_num b] @ [bpb_reserved_1 b] @ [ext_sig b] @ le32 (volume_id b) @ volume_label b @ fs_type_label b"

definition bpb_bytes :: "bpb \<Rightarrow> u8 list" where
  "bpb_bytes b = bpb_base_bytes b @ (if bpb_is_fat32 b then bpb_fat32_bytes b else []) @ bpb_tail_bytes b"

definition boot_bytes :: "boot_sector \<Rightarrow> u8 list" where
  "boot_bytes s = bootjmp s @ oem_name s @ bpb_bytes (boot_bpb s) @
     take (boot_code_len (boot_bpb s)) (boot_code s) @ boot_sig s"

text \<open>What the arrays of the Rust types and the reader guarantee: fields that are not stored are zero.\<close>

definition bpb_wf :: "bpb \<Rightarrow> bool" where
  "bpb_wf b \<longleftrightarrow> length (bpb_reserved_0 b) = 12 \<and> length (volume_label b) = 11 \<and> length (fs_type_label b) = 8 \<and>
     (ext_sig b \<noteq> 0x29 \<longrightarrow> volume_id b = 0 \<and> volume_label b = replicate 11 0 \<and> fs_type_label b = replicate 8 0) \<and>
     (\<not> bpb_is_fat32 b \<longrightarrow> sectors_per_fat_32 b = 0 \<and> extended_flags b = 0 \<and> fs_version b = 0 \<and>
        root_dir_first_cluster b = 0 \<and> bpb_fs_info_sector b = 0 \<and> bpb_backup_boot_sector b = 0 \<and>
        bpb_reserved_0 b = replicate 12 0)"

definition boot_wf :: "boot_sector \<Rightarrow> bool" where
  "boot_wf s \<longleftrightarrow> bpb_wf (boot_bpb s) \<and> length (bootjmp s) = 3 \<and> length (oem_name s) = 8 \<and>
     length (boot_code s) = 448 \<and> length (boot_sig s) = 2 \<and>
     drop (boot_code_len (boot_bpb s)) (boot_code s) = replicate (448 - boot_code_len (boot_bpb s)) 0"

lemma length_boot_bytes: "boot_wf s \<Longrightarrow> length (boot_bytes s) = 512"
  by (auto simp: boot_wf_def bpb_wf_def boot_bytes_def bpb_bytes_def bpb_base_bytes_def bpb_fat32_bytes_def
      bpb_tail_bytes_def boot_code_len_def)

context byte_stream
begin

lemma emits_bpb: "emits (bpb_serialize ops b) (bpb_bytes b)"
  unfolding bpb_serialize_def bpb_bytes_def
proof (intro emits_bind)
  show "emits (bpb_write_base ops b) (bpb_base_bytes b)"
    unfolding bpb_write_base_def bpb_base_bytes_def by (intro emits_bind emits_ints)
  show "emits (if bpb_is_fat32 b then bpb_write_fat32 ops b else sret ()) (if bpb_is_fat32 b then bpb_fat32_bytes b else [])"
    unfolding bpb_write_fat32_def bpb_fat32_bytes_def
    by (cases "bpb_is_fat32 b"; simp only: if_True if_False; intro emits_bind emits_ints emits_write_all emits_ret)
  show "emits (bpb_write_tail ops b) (bpb_tail_bytes b)"
    unfolding bpb_write_tail_def bpb_tail_bytes_def by (intro emits_bind emits_ints emits_write_all)
qed

lemma emits_boot_sector: "emits (boot_sector_serialize ops s) (boot_bytes s)"
  unfolding boot_sector_serialize_def boot_bytes_def by (intro emits_bind emits_bpb emits_write_all)

lemma parses_bpb:
  assumes "bpb_wf b"
  shows "parses (bpb_deserialize ops) (bpb_bytes b) b"
proof -
  let ?b1 = "bpb_default\<lparr>bytes_per_sector := bytes_per_sector b, sectors_per_cluster := sectors_per_cluster b,
     bpb_reserved_sectors := bpb_reserved_sectors b, bpb_fats := bpb_fats b,
     root_entries := root_entries b, total_sectors_16 := total_sectors_16 b, bpb_media := bpb_media b,
     sectors_per_fat_16 := sectors_per_fat_16 b, sectors_per_track := sectors_per_track b, bpb_heads := bpb_heads b,
     hidden_sectors := hidden_sectors b, total_sectors_32 := total_sectors_32 b\<rparr>"
  let ?b2 = "if bpb_is_fat32 b then ?b1\<lparr>sectors_per_fat_32 := sectors_per_fat_32 b, extended_flags := extended_flags b,
     fs_version := fs_version b, root_dir_first_cluster := root_dir_first_cluster b,
     bpb_fs_info_sector := bpb_fs_info_sector b, bpb_backup_boot_sector := bpb_backup_boot_sector b,
     bpb_reserved_0 := bpb_reserved_0 b\<rparr> else ?b1"
  let ?b3 = "?b2\<lparr>drive_num := drive_num b, bpb_reserved_1 := bpb_reserved_1 b, ext_sig := ext_sig b,
     volume_id := volume_id b, volume_label := volume_label b, fs_type_label := fs_type_label b\<rparr>"
  have len: "length (bpb_reserved_0 b) = 12" "length (volume_label b) = 11" "length (fs_type_label b) = 8"
    using assms by (auto simp: bpb_wf_def)
  have p1: "parses (bpb_read_base ops) (bpb_base_bytes b @ []) ?b1"
    unfolding bpb_read_base_def bpb_base_bytes_def append_assoc
    by ((rule parses_bind parses_ints parses_reteq)+) simp
  have f1: "bpb_is_fat32 ?b1 = bpb_is_fat32 b" by (simp add: bpb_is_fat32_def)
  have "parses (bpb_read_fat32 ops ?b1) (bpb_fat32_bytes b @ []) ?b2" if "bpb_is_fat32 b"
    unfolding bpb_read_fat32_def bpb_fat32_bytes_def append_assoc
    by ((rule parses_bind parses_ints parses_read_exact len parses_reteq)+) (simp add: that)
  then have p2: "parses (if bpb_is_fat32 ?b1 then bpb_read_fat32 ops ?b1 else sret ?b1)
      (if bpb_is_fat32 b then bpb_fat32_bytes b else []) ?b2"
    by (auto simp: f1 parses_ret)
  have p3: "parses (bpb_read_tail ops ?b2) (bpb_tail_bytes b @ []) ?b3"
    unfolding bpb_read_tail_def bpb_tail_bytes_def append_assoc
    by ((rule parses_bind parses_ints parses_read_exact len parses_reteq)+) simp
  have b: "bpb_clean ?b3 = b"
    using assms by (cases b) (auto simp: bpb_clean_def bpb_wf_def bpb_default_def bpb_is_fat32_def)
  have "parses (bpb_deserialize ops) ((bpb_base_bytes b @ []) @ (if bpb_is_fat32 b then bpb_fat32_bytes b else []) @
      (bpb_tail_bytes b @ []) @ []) (bpb_clean ?b3)"
    unfolding bpb_deserialize_def by (rule parses_bind [OF p1], rule parses_bind [OF p2], rule parses_bind [OF p3], rule parses_ret)
  then show ?thesis unfolding b by (simp add: bpb_bytes_def)
qed

lemma parses_boot_sector:
  assumes "boot_wf s"
  shows "parses (boot_sector_deserialize ops) (boot_bytes s) s"
proof -
  let ?n = "boot_code_len (boot_bpb s)"
  have w: "bpb_wf (boot_bpb s)" "length (bootjmp s) = 3" "length (oem_name s) = 8" "length (boot_sig s) = 2"
    and c: "length (boot_code s) = 448" "drop ?n (boot_code s) = replicate (448 - ?n) 0"
    using assms by (auto simp: boot_wf_def)
  have n: "length (take ?n (boot_code s)) = ?n" using c(1) by (simp add: boot_code_len_def)
  have "boot_code s = take ?n (boot_code s) @ replicate (448 - ?n) 0" using c(2) by (metis append_take_drop_id)
  then have code: "splice 0 (take ?n (boot_code s)) (replicate 448 0) = boot_code s"
    using n by (simp add: splice_def)
  have "parses (boot_sector_deserialize ops) (bootjmp s @ oem_name s @ bpb_bytes (boot_bpb s) @
     take ?n (boot_code s) @ boot_sig s @ []) s"
    unfolding boot_sector_deserialize_def
    by ((rule parses_bind parses_bpb parses_read_exact w n parses_reteq)+) (simp add: code)
  then show ?thesis by (simp add: boot_bytes_def)
qed

end

text \<open>C35: a boot sector serialises to 512 bytes, for every FAT type, and deserialises to itself.\<close>

theorem boot_sector_roundtrip:
  assumes "boot_wf s" "p + 512 \<le> length b"
  shows "\<exists>b'. boot_sector_serialize cursor_ops s \<lparr>cur_inner = b, cur_pos = p\<rparr> =
      (Inr (), \<lparr>cur_inner = b', cur_pos = p + 512\<rparr>) \<and>
    (\<exists>bs. length bs = 512 \<and> b' = splice p bs b) \<and>
    boot_sector_deserialize cursor_ops \<lparr>cur_inner = b', cur_pos = p\<rparr> = (Inr s, \<lparr>cur_inner = b', cur_pos = p + 512\<rparr>)"
proof -
  note len = length_boot_bytes [OF assms(1)]
  let ?b = "splice p (boot_bytes s) b"
  have "boot_sector_serialize cursor_ops s \<lparr>cur_inner = b, cur_pos = p\<rparr> = (Inr (), \<lparr>cur_inner = ?b, cur_pos = p + 512\<rparr>)"
    using cursor_emits [OF cursor.emits_boot_sector [of s], of "\<lparr>cur_inner = b, cur_pos = p\<rparr>"] assms(2) len by simp
  moreover have "boot_sector_deserialize cursor_ops \<lparr>cur_inner = ?b, cur_pos = p\<rparr> = (Inr s, \<lparr>cur_inner = ?b, cur_pos = p + 512\<rparr>)"
    using cursor_parses [OF cursor.parses_boot_sector [OF assms(1)], of p ?b] assms(2) len by simp
  ultimately show ?thesis using len by blast
qed

theorem boot_sector_roundtrip_witness:
  "\<exists>b'. boot_sector_serialize cursor_ops boot_sector_default (cursor_new (replicate 512 7)) =
      (Inr (), \<lparr>cur_inner = b', cur_pos = 512\<rparr>) \<and>
    boot_sector_deserialize cursor_ops (cursor_new b') = (Inr boot_sector_default, \<lparr>cur_inner = b', cur_pos = 512\<rparr>)"
proof -
  have "boot_wf boot_sector_default"
    by (simp add: boot_wf_def boot_sector_default_def bpb_wf_def bpb_default_def boot_code_len_def bpb_is_fat32_def)
  from boot_sector_roundtrip [OF this, of 0 "replicate 512 7"] show ?thesis by (auto simp: cursor_new_def)
qed

section \<open>Geometry\<close>

lemma io_guard_Inr [simp]: "io_guard b = Inr u \<longleftrightarrow> b"
  by (simp add: io_guard_def)

lemma unat_widen:
  assumes "LENGTH('a) \<le> LENGTH('b)"
  shows "unat (ucast (x :: 'a::len word) :: 'b::len word) = unat x"
proof -
  have "unat x < 2 ^ LENGTH('b)"
    using unat_less_2p [of x] power_increasing [OF assms, of "2 :: nat"] by linarith
  then show ?thesis by (simp only: unat_ucast mod_less)
qed

lemma unat_widen_u32 [simp]:
  "unat (ucast (x :: u8) :: u32) = unat x" "unat (ucast (y :: u16) :: u32) = unat y"
  "unat (ucast (z :: u32) :: u64) = unat z" "unat (ucast (y :: u16) :: u64) = unat y"
  by (rule unat_widen; simp)+

lemma total_clusters_unat:
  assumes "total_clusters b = Inr n"
  obtains first where "first_data_sector b = Inr first" "unat first \<le> unat (total_sectors b)"
    "0 < unat (sectors_per_cluster b)"
    "unat n = (unat (total_sectors b) - unat first) div unat (sectors_per_cluster b)"
proof -
  from assms obtain first d where f: "first_data_sector b = Inr first" "csub (total_sectors b) first = Inr d"
    "cdiv d (ucast (sectors_per_cluster b)) = Inr n"
    by (auto simp: total_clusters_def)
  from f(3) have z: "(ucast (sectors_per_cluster b) :: u32) \<noteq> 0" and n: "n = d div ucast (sectors_per_cluster b)"
    by (auto simp: cdiv_Inr)
  have "0 < unat (sectors_per_cluster b)"
    using z unat_widen_u32(1) [of "sectors_per_cluster b"] by (metis unat_eq_0 not_gr_zero)
  with csub_unat [OF f(2)] f(1) n show thesis by (intro that) (simp_all add: unat_div)
qed

lemma first_data_sector_unat:
  assumes "first_data_sector b = Inr first"
  shows "unat (reserved_sectors b) + unat (bpb_fats b) * unat (sectors_per_fat b) \<le> unat first"
proof -
  from assms obtain r f x where "root_dir_sectors b = Inr r" "sectors_per_all_fats b = Inr f"
    "cadd (reserved_sectors b) f = Inr x" "cadd x r = Inr first"
    by (auto simp: first_data_sector_def)
  then show ?thesis
    using cadd_unat [of "reserved_sectors b" f x] cadd_unat [of x r first]
      cmul_unat [of "ucast (bpb_fats b)" "sectors_per_fat b" f] by (simp add: sectors_per_all_fats_def)
qed

lemma bpb_validate_geometry:
  assumes "bpb_validate b = Inr ()"
  shows "\<exists>first n. first_data_sector b = Inr first \<and> total_clusters b = Inr n \<and> bpb_is_fat32 b \<and>
    unat n \<le> 0x0FFFFFFF \<and> 512 \<le> unat (bytes_per_sector b) \<and> unat (bytes_per_sector b) \<le> 4096 \<and>
    unat (reserved_sectors b) + unat (bpb_fats b) * unat (sectors_per_fat b) \<le> unat first \<and>
    fs_info_sector b < reserved_sectors b \<and> backup_boot_sector b < reserved_sectors b \<and>
    (\<forall>c. 2 \<le> unat c \<and> unat c < unat n + 2 \<longrightarrow>
       (\<exists>k sector. sectors_from_clusters b (c - 2) = Inr k \<and> cadd first k = Inr sector \<and>
          unat first \<le> unat sector \<and> unat sector + unat (sectors_per_cluster b) \<le> unat (total_sectors b)))"
proof -
  from assms obtain n where v: "bpb_validate_sizes b = Inr ()" "total_clusters b = Inr n" "bpb_is_fat32 b"
    "fs_info_sector b < reserved_sectors b" "backup_boot_sector b < reserved_sectors b" "n \<le> 0x0FFFFFFF"
    by (auto simp: bpb_validate_def from_clusters_def Let_def not_le not_less)
  have sz: "512 \<le> bytes_per_sector b" "bytes_per_sector b \<le> 4096"
    using v(1) by (auto simp: bpb_validate_sizes_def not_less)
  obtain first where f: "first_data_sector b = Inr first" "unat first \<le> unat (total_sectors b)"
    "0 < unat (sectors_per_cluster b)"
    "unat n = (unat (total_sectors b) - unat first) div unat (sectors_per_cluster b)"
    by (rule total_clusters_unat [OF v(2)])
  let ?spc = "unat (sectors_per_cluster b)"
  have c: "\<exists>k sector. sectors_from_clusters b (c - 2) = Inr k \<and> cadd first k = Inr sector \<and>
          unat first \<le> unat sector \<and> unat sector + ?spc \<le> unat (total_sectors b)"
    if "2 \<le> unat c" "unat c < unat n + 2" for c
  proof -
    have c2: "unat (c - 2) = unat c - 2" using that(1) by (simp add: unat_sub_noof word_le_nat_alt)
    have "(unat c - 2) * ?spc + ?spc \<le> unat n * ?spc"
    proof -
      have "Suc (unat c - 2) \<le> unat n" using that by simp
      then have "Suc (unat c - 2) * ?spc \<le> unat n * ?spc" by (rule mult_le_mono1)
      then show ?thesis by simp
    qed
    also have "\<dots> \<le> unat (total_sectors b) - unat first" unfolding f(4) by (rule div_times_less_eq_dividend)
    finally have le: "unat first + ((unat c - 2) * ?spc + ?spc) \<le> unat (total_sectors b)" using f(2) by simp
    moreover have "unat (total_sectors b) < 2 ^ 32" using unat_less_2p [of "total_sectors b"] by simp
    ultimately have b1: "unat (c - 2) * ?spc < 2 ^ 32" and b2: "unat first + (unat c - 2) * ?spc < 2 ^ 32"
      using c2 by simp_all
    obtain k where k: "sectors_from_clusters b (c - 2) = Inr k" "unat k = (unat c - 2) * ?spc"
      using b1 c2 by (simp add: sectors_from_clusters_def cmul_Inr unat_mult_noof)
    with b2 have "\<exists>sector. cadd first k = Inr sector \<and> unat sector = unat first + (unat c - 2) * ?spc"
      by (simp add: cadd_Inr unat_add_noof)
    with k le show ?thesis by fastforce
  qed
  show ?thesis
    using f(1) v sz first_data_sector_unat [OF f(1)] c by (intro exI [of _ first] exI [of _ n]) (simp add: word_le_nat_alt)
qed

text \<open>The type of a volume is no longer derived from its clusters (\<open>FatType::from_clusters\<close> answers FAT32 for every
  count), so that validation refuses each FAT12 and FAT16 volume.  The README of the crate and its tests
  (\<open>test_volume_metadata_fat12\<close>, \<open>test_volume_metadata_fat16\<close>, \<open>test_format_1mb\<close>, \<open>test_format_8mb_1fat\<close>,
  \<open>test_format_50mb\<close>) still expect such volumes to mount.\<close>

lemma validate_refuses_fat12_fat16: "\<not> bpb_is_fat32 b \<Longrightarrow> bpb_validate b \<noteq> Inr ()"
  by (auto simp: bpb_validate_def from_clusters_def Let_def io_guard_def rbind_def split: sum.splits if_splits)

text \<open>C34: on a volume that passes validation (which is a FAT32 volume: this code refuses FAT12 and FAT16 ones,
  \<open>validate_refuses_fat12_fat16\<close>, although the README and the tests of the crate want them accepted) the FATs lie
  between the reserved sectors and the data area, the FSInfo and backup sectors lie in the reserved area, and the
  sectors of every data cluster are computed without overflow and lie inside the volume.\<close>

theorem validated_volume_geometry:
  assumes "bpb_validate b = Inr ()"
  shows "\<exists>first n. first_data_sector b = Inr first \<and> total_clusters b = Inr n \<and> bpb_is_fat32 b \<and>
    unat n \<le> 0x0FFFFFFF \<and> 512 \<le> unat (bytes_per_sector b) \<and> unat (bytes_per_sector b) \<le> 4096 \<and>
    unat (reserved_sectors b) + unat (bpb_fats b) * unat (sectors_per_fat b) \<le> unat first \<and>
    fs_info_sector b < reserved_sectors b \<and> backup_boot_sector b < reserved_sectors b \<and>
    (\<forall>c. 2 \<le> unat c \<and> unat c < unat n + 2 \<longrightarrow>
       (\<exists>k sector. sectors_from_clusters b (c - 2) = Inr k \<and> cadd first k = Inr sector \<and>
          unat first \<le> unat sector \<and> unat sector + unat (sectors_per_cluster b) \<le> unat (total_sectors b)))"
  by (rule bpb_validate_geometry [OF assms])

definition demo_bpb :: bpb where
  "demo_bpb = bpb_default\<lparr>bytes_per_sector := 512, sectors_per_cluster := 1, bpb_reserved_sectors := 32, bpb_fats := 2,
     total_sectors_32 := 100000, sectors_per_fat_32 := 1000, bpb_fs_info_sector := 1, bpb_backup_boot_sector := 6,
     root_dir_first_cluster := 2\<rparr>"

lemma demo_bpb_geometry:
  "bpb_is_fat32 demo_bpb" "first_data_sector demo_bpb = Inr 2032" "total_clusters demo_bpb = Inr 97968"
  by (simp_all add: demo_bpb_def bpb_default_def bpb_is_fat32_def first_data_sector_def total_clusters_def
      root_dir_sectors_def sectors_per_all_fats_def sectors_per_fat_def total_sectors_def reserved_sectors_def
      cadd_def csub_def cmul_def cdiv_def)

lemma demo_bpb_sectors:
  "total_sectors demo_bpb = 100000" "reserved_sectors demo_bpb = 32" "fs_info_sector demo_bpb = 1" "backup_boot_sector demo_bpb = 6"
  by (simp_all add: demo_bpb_def bpb_default_def total_sectors_def backup_boot_sector_def reserved_sectors_def fs_info_sector_def)

lemma demo_bpb_valid: "bpb_validate demo_bpb = Inr ()"
proof -
  have "bpb_validate_sizes demo_bpb = Inr ()"
    by (simp add: bpb_validate_sizes_def demo_bpb_def bpb_default_def count_ones_def upt_conv_Cons)
  moreover have "bpb_validate_fields demo_bpb = Inr ()"
    by (simp add: bpb_validate_fields_def demo_bpb_def bpb_default_def bpb_is_fat32_def)
  moreover have "bpb_validate_fat_size demo_bpb Fat32 = Inr ()"
    by (simp add: bpb_validate_fat_size_def sectors_per_fat_def bpb_is_fat32_def demo_bpb_def bpb_default_def
        bits_per_fat_entry_def RESERVED_FAT_ENTRIES_def cmul_def cdiv_def csub_def)
  ultimately show ?thesis
    by (simp add: bpb_validate_def from_clusters_def io_guard_def demo_bpb_geometry demo_bpb_sectors word_le_nat_alt)
qed

theorem validated_volume_geometry_witness:
  "bpb_validate demo_bpb = Inr () \<and>
    (\<exists>k sector. sectors_from_clusters demo_bpb (97969 - 2) = Inr k \<and> cadd 2032 k = Inr sector \<and> unat sector < 100000)"
proof -
  have "\<exists>k sector. sectors_from_clusters demo_bpb (97969 - 2) = Inr k \<and> cadd 2032 k = Inr sector \<and>
      2032 \<le> unat sector \<and> unat sector + unat (sectors_per_cluster demo_bpb) \<le> unat (total_sectors demo_bpb)"
    using validated_volume_geometry [OF demo_bpb_valid] demo_bpb_geometry by (fastforce dest: spec [of _ 97969])
  then show ?thesis using demo_bpb_valid by (auto simp: demo_bpb_def bpb_default_def total_sectors_def)
qed

section \<open>Formatting\<close>

lemma fat_size_arith:
  fixes t0 spc bps bits fats spf :: nat
  assumes "0 < spc" "0 < bits" "t0 + 2 * spc \<le> spf * (spc * bps * 8 div bits + fats)" "spf * fats \<le> t0"
  shows "((t0 - spf * fats) div spc + 2) * bits \<le> spf * bps * 8"
proof -
  let ?X = "spc * bps * 8 div bits" and ?n = "(t0 - spf * fats) div spc"
  have "(?n + 2) * spc \<le> (t0 - spf * fats) + 2 * spc"
    using div_times_less_eq_dividend [of "t0 - spf * fats" spc] by (simp add: distrib_right)
  also have "\<dots> \<le> spf * ?X" using assms(3,4) by (simp add: distrib_left)
  finally have "(?n + 2) * spc * bits \<le> spf * ?X * bits" by (rule mult_le_mono1)
  also have "\<dots> \<le> spf * (spc * bps * 8)" using div_times_less_eq_dividend [of "spc * bps * 8" bits] by (simp add: mult.assoc)
  finally have "((?n + 2) * bits) * spc \<le> (spf * bps * 8) * spc" by (simp only: ac_simps)
  then show ?thesis using assms(1) by (simp only: mult_le_cancel2)
qed

lemma ceil_div: "0 < t2 \<Longrightarrow> t1 \<le> ((t1 + t2 - 1) div t2) * t2" for t1 t2 :: nat
  using div_mult_mod_eq [of "t1 + t2 - 1" t2] mod_less_divisor [of t2 "t1 + t2 - 1"] by linarith

lemma bits_per_fat_entry_pos: "12 \<le> unat (bits_per_fat_entry ft)" "unat (bits_per_fat_entry ft) \<le> 32"
  by (cases ft; simp add: bits_per_fat_entry_def)+

lemma determine_sectors_per_fat_unat:
  assumes "determine_sectors_per_fat tot bps spc ft reserved root fats = Inr spf" "512 \<le> unat bps" "0 < unat spc"
  defines "t0 \<equiv> unat tot - unat reserved - unat root"
    and "t2 \<equiv> unat spc * unat bps * 8 div unat (bits_per_fat_entry ft) + unat fats"
  shows "unat reserved + unat root \<le> unat tot" "unat spf = (t0 + 2 * unat spc + t2 - 1) div t2" "0 < t2"
proof -
  let ?bits = "unat (bits_per_fat_entry ft)"
  from assms(1) obtain x y where x: "csub tot (ucast reserved) = Inr x" "csub x root = Inr y"
    by (auto simp: determine_sectors_per_fat_def)
  note ux = csub_unat [OF x(1)] csub_unat [OF x(2)]
  then show le: "unat reserved + unat root \<le> unat tot" by auto
  have y: "unat y = t0" using ux by (simp add: t0_def)
  let ?t1 = "ucast y + ucast (2 * ucast spc :: u32) :: u64"
  let ?bpc = "ucast spc * ucast bps * 8 :: u32"
  let ?t2 = "ucast (?bpc div bits_per_fat_entry ft + ucast fats) :: u64"
  have small: "unat spc < 256" "unat bps < 65536" "unat fats < 256" "t0 < 2 ^ 32"
    using unat_less_2p [of spc] unat_less_2p [of bps] unat_less_2p [of fats] unat_less_2p [of y] y by simp_all
  have prod: "unat spc * unat bps \<le> 255 * 65535" using small by (intro mult_le_mono) auto
  have bpc: "unat ?bpc = unat spc * unat bps * 8"
  proof -
    have a: "unat (ucast spc * ucast bps :: u32) = unat spc * unat bps" using prod by (subst unat_mult_noof) simp_all
    have "unat bps * unat spc \<le> 255 * 65535" using prod by (simp add: mult.commute)
    then show ?thesis by (subst unat_mult_noof) (simp_all add: a)
  qed
  have dv: "unat spc * unat bps * 8 div ?bits \<le> 255 * 65535 * 8"
    by (rule order_trans [OF div_le_dividend]) (use prod in \<open>simp add: mult.commute\<close>)
  have ut2: "unat ?t2 = t2"
  proof -
    have "unat (?bpc div bits_per_fat_entry ft + ucast fats :: u32) = t2"
      using dv small(3) by (subst unat_add_noof) (simp_all add: unat_div bpc t2_def)
    then show ?thesis by simp
  qed
  have ut1: "unat ?t1 = t0 + 2 * unat spc"
  proof -
    have a: "unat (2 * ucast spc :: u32) = 2 * unat spc" using small(1) by (subst unat_mult_noof) simp_all
    show ?thesis using small(1,4) y by (subst unat_add_noof) (simp_all add: a)
  qed
  have "1 * 512 \<le> unat spc * unat bps" using assms(2,3) by (intro mult_le_mono) auto
  then have "512 * 8 div 32 \<le> unat spc * unat bps * 8 div 32" by (intro div_le_mono) linarith
  also have "\<dots> \<le> unat spc * unat bps * 8 div ?bits" using bits_per_fat_entry_pos [of ft] by (intro div_le_mono2) auto
  finally have "128 \<le> unat spc * unat bps * 8 div ?bits" by simp
  then have t2: "128 \<le> t2" by (simp add: t2_def)
  then show "0 < t2" by simp
  have t2b: "t2 < 2 ^ 31" using dv small(3) by (simp add: t2_def)
  have sum: "unat (?t1 + ?t2) = t0 + 2 * unat spc + t2"
    using ut1 ut2 t2b small by (subst unat_add_noof) simp_all
  have c1: "csub (?t1 + ?t2) 1 = Inr (?t1 + ?t2 - 1)" using sum t2 by (simp add: csub_def word_le_nat_alt)
  have u1: "unat (?t1 + ?t2 - 1) = t0 + 2 * unat spc + t2 - 1" using sum t2 by (subst unat_sub_noof) (simp_all add: word_le_nat_alt)
  have nz: "?t2 \<noteq> 0" using ut2 t2 by (metis unat_0 not_numeral_le_zero)
  from assms(1) x have spf: "spf = ucast ((?t1 + ?t2 - 1) div ?t2)"
    using nz by (simp add: determine_sectors_per_fat_def Let_def c1 cdiv_def)
  have uz: "unat ((?t1 + ?t2 - 1) div ?t2) = (t0 + 2 * unat spc + t2 - 1) div t2" by (simp only: unat_div u1 ut2)
  have "(t0 + 2 * unat spc + t2 - 1) div t2 \<le> (t0 + 2 * unat spc + t2 - 1) div 128" using t2 by (intro div_le_mono2) auto
  also have "\<dots> < 2 ^ 32" using small t2b by simp
  finally show "unat spf = (t0 + 2 * unat spc + t2 - 1) div t2" by (simp add: spf unat_ucast uz)
qed

text \<open>C37: the geometry chosen for a new volume has a FAT entry for every cluster: the FAT is at least as large as
  the entries of all data clusters and the two reserved ones, and the number of clusters is in the range of
  the FAT type.\<close>

theorem formatted_fat_covers_clusters:
  assumes "try_fs_geometry tot bps spc ft root fats = Inr (reserved, spf)" "512 \<le> unat bps"
  shows "\<exists>n. n = (unat tot - unat reserved - unat root - unat spf * unat fats) div unat spc \<and>
    (n + 2) * unat (bits_per_fat_entry ft) \<le> unat spf * unat bps * 8 \<and>
    unat (min_clusters ft) \<le> n \<and> n \<le> unat (max_clusters ft) \<and>
    unat reserved + unat root + unat spf * unat fats \<le> unat tot"
proof -
  from assms(1) obtain d1 d2 all d clusters where h: "determine_sectors_per_fat tot bps spc ft reserved root fats = Inr spf"
    "csub tot (ucast reserved) = Inr d1" "csub d1 root = Inr d2" "cmul spf (ucast fats) = Inr all"
    "csub d2 all = Inr d" "cdiv d (ucast spc) = Inr clusters" "min_clusters ft \<le> clusters" "clusters \<le> max_clusters ft"
    by (auto simp: try_fs_geometry_def Let_def not_less)
  have "(ucast spc :: u32) \<noteq> 0" using h(6) by (simp add: cdiv_Inr)
  then have spc: "0 < unat spc" using unat_widen_u32(1) [of spc] by (metis unat_eq_0 not_gr_zero)
  note ds = determine_sectors_per_fat_unat [OF h(1) assms(2) spc]
  let ?t0 = "unat tot - unat reserved - unat root"
  let ?t2 = "unat spc * unat bps * 8 div unat (bits_per_fat_entry ft) + unat fats"
  have all: "unat all = unat spf * unat fats" using cmul_unat [OF h(4)] by simp
  have d: "unat d = ?t0 - unat spf * unat fats" and le: "unat spf * unat fats \<le> ?t0"
    using csub_unat [OF h(2)] csub_unat [OF h(3)] csub_unat [OF h(5)] all by simp_all
  have n: "unat clusters = (?t0 - unat spf * unat fats) div unat spc" using h(6) d by (simp add: cdiv_Inr unat_div)
  have "?t0 + 2 * unat spc \<le> unat spf * ?t2" unfolding ds(2) by (rule ceil_div [OF ds(3)])
  then have "((?t0 - unat spf * unat fats) div unat spc + 2) * unat (bits_per_fat_entry ft) \<le> unat spf * unat bps * 8"
    using bits_per_fat_entry_pos [of ft] le by (intro fat_size_arith [OF spc]) auto
  then show ?thesis using n h(7,8) le ds(1) by (auto simp: word_le_nat_alt)
qed

theorem formatted_fat_covers_clusters_witness:
  "\<exists>spf. try_fs_geometry 1000000 512 8 Fat32 0 2 = Inr (8, spf) \<and>
    ((1000000 - 8 - unat spf * 2) div 8 + 2) * 32 \<le> unat spf * 512 * 8"
proof -
  have r: "try_fs_geometry 1000000 512 8 Fat32 0 2 = Inr (8, 975)"
    by (simp add: try_fs_geometry_def determine_sectors_per_fat_def bits_per_fat_entry_def Let_def cadd_def csub_def cmul_def
        cdiv_def io_guard_def from_clusters_def min_clusters_def max_clusters_def FAT32_MIN_CLUSTERS_def FAT32_MAX_CLUSTERS_def)
  from formatted_fat_covers_clusters [OF r] r show ?thesis by (auto simp: bits_per_fat_entry_def)
qed

lemma determine_sectors_per_fat_ok:
  assumes "unat reserved + unat root \<le> unat tot" "512 \<le> unat bps" "0 < unat spc"
  shows "\<exists>spf. determine_sectors_per_fat tot bps spc ft reserved root fats = Inr spf"
proof -
  have x: "csub tot (ucast reserved) = Inr (tot - ucast reserved)" using assms(1) by (simp add: csub_def word_le_nat_alt)
  have "unat (tot - ucast reserved) = unat tot - unat reserved"
    using assms(1) by (subst unat_sub_noof) (simp_all add: word_le_nat_alt)
  then have y: "csub (tot - ucast reserved) root = Inr (tot - ucast reserved - root)"
    using assms(1) by (simp add: csub_def word_le_nat_alt)
  let ?z = "ucast (ucast spc * ucast bps * 8 div bits_per_fat_entry ft + ucast fats :: u32) :: u64"
  let ?t1 = "ucast (tot - ucast reserved - root) + ucast (2 * ucast spc :: u32) :: u64"
  have small: "unat spc < 256" "unat bps < 65536" "unat fats < 256"
    using unat_less_2p [of spc] unat_less_2p [of bps] unat_less_2p [of fats] by simp_all
  have prod: "unat spc * unat bps \<le> 255 * 65535" "1 * 512 \<le> unat spc * unat bps"
    using small assms(2,3) mult_le_mono [of "unat spc" 255 "unat bps" 65535] mult_le_mono [of 1 "unat spc" 512 "unat bps"] by simp_all
  have m1: "unat (ucast spc * ucast bps :: u32) = unat spc * unat bps" using prod by (subst unat_mult_noof) simp_all
  have m2: "unat (ucast spc * ucast bps * 8 :: u32) = unat (ucast spc * ucast bps :: u32) * 8"
    by (subst unat_mult_noof) (use m1 prod in \<open>simp_all add: mult.commute\<close>)
  have "128 \<le> unat (ucast spc * ucast bps * 8 :: u32) div 32" unfolding m2 m1 using prod(2) by linarith
  also have "\<dots> \<le> unat (ucast spc * ucast bps * 8 :: u32) div unat (bits_per_fat_entry ft)"
    using bits_per_fat_entry_pos [of ft] by (intro div_le_mono2) auto
  finally have dv: "128 \<le> unat (ucast spc * ucast bps * 8 div bits_per_fat_entry ft :: u32)" by (simp add: unat_div)
  have dv2: "unat (ucast spc * ucast bps * 8 div bits_per_fat_entry ft :: u32) \<le> 255 * 65535 * 8"
    unfolding unat_div by (rule order_trans [OF div_le_dividend]) (use m1 m2 prod in linarith)
  have z: "128 \<le> unat ?z" "unat ?z < 2 ^ 32"
    using dv dv2 small(3) unat_add_noof [of "ucast spc * ucast bps * 8 div bits_per_fat_entry ft :: u32" "ucast fats"]
    by simp_all
  have t1: "unat ?t1 < 2 ^ 33"
  proof -
    have "unat (2 * ucast spc :: u32) = 2 * unat spc" using small(1) by (subst unat_mult_noof) simp_all
    then show ?thesis using small(1) unat_less_2p [of "tot - ucast reserved - root"] by (subst unat_add_noof) simp_all
  qed
  have "unat (?t1 + ?z) = unat ?t1 + unat ?z" using z t1 by (intro unat_add_noof) simp
  with z have "1 \<le> ?t1 + ?z" and nz: "?z \<noteq> 0" by (auto simp: word_le_nat_alt)
  then have c: "csub (?t1 + ?z) 1 = Inr (?t1 + ?z - 1)" by (simp add: csub_def)
  show ?thesis using nz by (simp add: determine_sectors_per_fat_def x y Let_def c cdiv_def)
qed

lemma fat_share_small: "9 \<le> m \<Longrightarrow> (m div 128 + 2) * 2 \<le> m" for m :: nat
proof -
  have "(q + 2) * 2 \<le> m" if "q * 128 \<le> m" "9 \<le> m" for q using that by simp
  then show "9 \<le> m \<Longrightarrow> (m div 128 + 2) * 2 \<le> m" using div_times_less_eq_dividend [of m 128] by blast
qed

text \<open>since \<open>from_clusters\<close> answers FAT32 for every size, formatting cannot choose FAT12 or FAT16: on a volume
  with room for the reserved sectors but for fewer than 65525 clusters the choice of the geometry ends in the
  failed assertion that a FAT32 volume has that many clusters.\<close>

lemma small_volume_format_panics:
  assumes "16 < unat tot" "unat tot \<le> 65525 * unat spc" "512 \<le> unat bps" "0 < unat spc" "fats = 1 \<or> fats = 2"
  shows "determine_fs_geometry tot bps spc entries fats = Inl (Panic Assertion)"
proof -
  obtain spf where spf: "determine_sectors_per_fat tot bps spc Fat32 8 0 fats = Inr spf"
    using determine_sectors_per_fat_ok [of 8 0 tot bps spc] assms by auto
  note ds = determine_sectors_per_fat_unat [OF spf assms(3,4)]
  define T where "T = unat spc * unat bps * 8 div unat (bits_per_fat_entry Fat32) + unat fats"
  let ?t0 = "unat tot - 8"
  have "unat spc * 512 \<le> unat spc * unat bps" using assms(3) by simp
  then have "128 * unat spc \<le> unat spc * unat bps * 8 div 32" by linarith
  then have t2: "128 * unat spc \<le> T" by (simp add: T_def bits_per_fat_entry_def)
  have uf: "unat fats \<le> 2" using assms(5) by auto
  have T: "unat spf = (?t0 + 2 * unat spc + T - 1) div T" "0 < T" using ds(2,3) by (simp_all add: T_def)
  have "unat spf * unat fats \<le> ?t0"
  proof -
    have "unat spf \<le> (?t0 + 2 * T) div T" unfolding T(1) using t2 by (intro div_le_mono) linarith
    also have "\<dots> = ?t0 div T + 2" using T(2) by simp
    also have "\<dots> \<le> ?t0 div 128 + 2" using t2 assms(4) by (intro add_right_mono div_le_mono2) linarith+
    finally have "unat spf * unat fats \<le> (?t0 div 128 + 2) * 2" using uf by (intro mult_le_mono)
    also have "\<dots> \<le> ?t0" using assms(1) by (intro fat_share_small) simp
    finally show ?thesis .
  qed
  then have le: "unat spf * unat fats \<le> ?t0" .
  have c1: "csub tot 8 = Inr (tot - 8)" "unat (tot - 8) = ?t0"
    using assms(1) by (simp_all add: csub_def word_le_nat_alt unat_sub_noof)
  have c2: "csub (tot - 8) 0 = Inr (tot - 8)" by (simp add: csub_def)
  have "unat spf * unat fats < 2 ^ 32" using le unat_less_2p [of tot] by simp
  then have c3: "cmul spf (ucast fats) = Inr (spf * ucast fats)" "unat (spf * ucast fats) = unat spf * unat fats"
    by (simp_all add: cmul_Inr unat_mult_noof)
  let ?d = "tot - 8 - spf * ucast fats"
  have c4: "csub (tot - 8) (spf * ucast fats) = Inr ?d" "unat ?d \<le> ?t0"
    using le c1 c3 by (simp_all add: csub_def word_le_nat_alt unat_sub_noof)
  have nz: "(ucast spc :: u32) \<noteq> 0" using assms(4) unat_widen_u32(1) [of spc] by (metis unat_0 less_irrefl)
  have "unat (?d div ucast spc) = unat ?d div unat spc" by (simp add: unat_div)
  also have "\<dots> < 65525" using c4(2) assms(1,2,4) by (simp add: div_less_iff_less_mult)
  finally have small: "\<not> FAT32_MIN_CLUSTERS \<le> ?d div ucast spc" by (simp add: FAT32_MIN_CLUSTERS_def word_le_nat_alt)
  have g: "\<not> tot \<le> 16" using assms(1) by (simp add: word_le_nat_alt)
  have "try_fs_geometry tot bps spc Fat32 0 fats = Inl (Panic Assertion)"
    using spf c1(1) c2 c3(1) c4(1) nz small g
    by (simp add: try_fs_geometry_def cadd_def io_guard_def cdiv_def from_clusters_def min_clusters_def)
  then show ?thesis by (simp add: determine_fs_geometry_def determine_root_dir_sectors_def)
qed

end
