(* ===== verification/Fat_Fs.thy ===== *)
theory Fat_Fs
  imports Fat_Effects Fat_Dir_Entry Fat_Boot_Sector
begin

text \<open>
  The mounted file system, \<open>fatfs/src/fs.rs\<close>: the FSInfo sector, the \<open>FileSystem\<close> object with the disk, the
  geometry and the status flags, \<open>FsIoAdapter\<close> (the disk as the FAT and the files see it, which marks the
  volume dirty on the first write), the cluster operations with their bookkeeping, unmounting and formatting.
  The file system is passed as a value that holds the disk; the cells of the Rust object are fields of it.
\<close>

section \<open>The FSInfo sector\<close>

record fsinfo =
  fi_free_cluster_count :: "u32 option"
  fi_next_free_cluster :: "u32 option"
  fi_dirty :: bool

definition LEAD_SIG :: u32 where "LEAD_SIG = 0x41615252"
definition STRUC_SIG :: u32 where "STRUC_SIG = 0x61417272"
definition TRAIL_SIG :: u32 where "TRAIL_SIG = 0xAA550000"

definition fs_info_default :: fsinfo where
  "fs_info_default = \<lparr>fi_free_cluster_count = None, fi_next_free_cluster = None, fi_dirty = False\<rparr>"

definition fs_info_deserialize :: "'s rws \<Rightarrow> ('s, fsinfo) st" where
  "fs_info_deserialize ops =
     sbind (read_u32 ops) (\<lambda>lead_sig.
     if lead_sig \<noteq> LEAD_SIG then sfail (Io Other) else
     sbind (io_read_exact ops 480) (\<lambda>_.
     sbind (read_u32 ops) (\<lambda>struc_sig.
     if struc_sig \<noteq> STRUC_SIG then sfail (Io Other) else
     sbind (read_u32 ops) (\<lambda>n.
     let free_cluster_count = (if n = 0xFFFFFFFF then None else Some n) in
     sbind (read_u32 ops) (\<lambda>n.
     let next_free_cluster = (if n = 0xFFFFFFFF \<or> n = 0 \<or> n = 1 then None else Some n) in
     sbind (io_read_exact ops 12) (\<lambda>_.
     sbind (read_u32 ops) (\<lambda>trail_sig.
     if trail_sig \<noteq> TRAIL_SIG then sfail (Io Other) else
     sret \<lparr>fi_free_cluster_count = free_cluster_count, fi_next_free_cluster = next_free_cluster, fi_dirty = False\<rparr>)))))))"

definition fs_info_serialize :: "'s rws \<Rightarrow> fsinfo \<Rightarrow> ('s, unit) st" where
  "fs_info_serialize ops self =
     sbind (write_u32 ops LEAD_SIG) (\<lambda>_.
     sbind (io_write_all ops (replicate 480 0)) (\<lambda>_.
     sbind (write_u32 ops STRUC_SIG) (\<lambda>_.
     sbind (write_u32 ops (unwrap_or (fi_free_cluster_count self) 0xFFFFFFFF)) (\<lambda>_.
     sbind (write_u32 ops (unwrap_or (fi_next_free_cluster self) 0xFFFFFFFF)) (\<lambda>_.
     sbind (io_write_all ops (replicate 12 0)) (\<lambda>_.
     write_u32 ops TRAIL_SIG))))))"

definition validate_and_fix :: "u32 \<Rightarrow> fsinfo \<Rightarrow> fsinfo res" where
  "validate_and_fix clusters self =
     rbind (cadd clusters RESERVED_FAT_ENTRIES) (\<lambda>max_valid_cluster_number.
     let self = (case fi_free_cluster_count self of
             Some n \<Rightarrow> if n > clusters then self\<lparr>fi_free_cluster_count := None\<rparr> else self | None \<Rightarrow> self);
         self = (case fi_next_free_cluster self of
             Some n \<Rightarrow> if n > max_valid_cluster_number then self\<lparr>fi_next_free_cluster := None\<rparr> else self | None \<Rightarrow> self)
     in Inr self)"

text \<open>The argument is an \<open>i32\<close>; the sum of two \<open>i32\<close> values is a checked one.\<close>

definition add_free_clusters :: "int \<Rightarrow> fsinfo \<Rightarrow> fsinfo res" where
  "add_free_clusters free_clusters self =
     (case fi_free_cluster_count self of
        None \<Rightarrow> Inr self
      | Some n \<Rightarrow>
          let v = sint n + free_clusters in
          if - (2 ^ 31) \<le> v \<and> v < 2 ^ 31
          then Inr (self\<lparr>fi_free_cluster_count := Some (word_of_int v), fi_dirty := True\<rparr>)
          else Inl (Panic Overflow))"

definition set_next_free_cluster :: "u32 \<Rightarrow> fsinfo \<Rightarrow> fsinfo" where
  "set_next_free_cluster cluster self = self\<lparr>fi_next_free_cluster := Some cluster, fi_dirty := True\<rparr>"

definition set_free_cluster_count :: "u32 \<Rightarrow> fsinfo \<Rightarrow> fsinfo" where
  "set_free_cluster_count n self = self\<lparr>fi_free_cluster_count := Some n, fi_dirty := True\<rparr>"

section \<open>The file system object\<close>

text \<open>The code page converter and the time provider of the options are given by their methods.\<close>

record fs_options =
  opt_update_accessed_date :: bool
  opt_oem_decode :: "u8 \<Rightarrow> nat"
  opt_oem_encode :: "nat \<Rightarrow> u8 option"
  opt_current_date :: date
  opt_current_date_time :: date_time

definition lossy_oem_decode :: "u8 \<Rightarrow> nat" where
  "lossy_oem_decode oem_char = (if oem_char \<le> 0x7F then unat oem_char else 0xFFFD)"

definition lossy_oem_encode :: "nat \<Rightarrow> u8 option" where
  "lossy_oem_encode uni_char = (if uni_char \<le> 0x7F then Some (of_nat uni_char) else None)"

definition fs_options_new :: fs_options where
  "fs_options_new =
     \<lparr>opt_update_accessed_date = False, opt_oem_decode = lossy_oem_decode, opt_oem_encode = lossy_oem_encode,
      opt_current_date = get_current_date, opt_current_date_time = get_current_date_time\<rparr>"

record 's file_system =
  fs_disk :: 's
  fs_options :: fs_options
  fs_fat_type :: fat_type
  fs_bpb :: bpb
  fs_first_data_sector :: u32
  fs_root_dir_sectors :: u32
  fs_total_clusters :: u32
  fs_info :: fsinfo
  fs_current_status_flags :: fs_status_flags

text \<open>Running an operation of the disk, and updating the FSInfo cell.\<close>

definition on_disk :: "('s, 'a) st \<Rightarrow> ('s file_system, 'a) st" where
  "on_disk m fs = (case m (fs_disk fs) of (r, d) \<Rightarrow> (r, fs\<lparr>fs_disk := d\<rparr>))"

definition on_fs_info :: "(fsinfo \<Rightarrow> fsinfo res) \<Rightarrow> ('s file_system, unit) st" where
  "on_fs_info f fs = (case f (fs_info fs) of Inl e \<Rightarrow> (Inl e, fs) | Inr i \<Rightarrow> (Inr (), fs\<lparr>fs_info := i\<rparr>))"

text \<open>What \<open>FileSystem::new\<close> reads from the disk.\<close>

definition read_boot_sector :: "'s rws \<Rightarrow> ('s, bpb) st" where
  "read_boot_sector ops =
     sbind (io_seek ops (Current 0)) (\<lambda>p.
     if p \<noteq> 0 then sfail (Panic Assertion) else
     sbind (boot_sector_deserialize ops) (\<lambda>boot.
     sbind (slift (boot_sector_validate boot)) (\<lambda>_. sret (boot_bpb boot))))"

definition read_fs_info :: "'s rws \<Rightarrow> fat_type \<Rightarrow> bpb \<Rightarrow> ('s, fsinfo) st" where
  "read_fs_info ops ft b =
     (if ft = Fat32
      then sbind (io_seek ops (Start (unat (bytes_from_sectors b (fs_info_sector b))))) (\<lambda>_. fs_info_deserialize ops)
      else sret fs_info_default)"

definition fs_new :: "'s rws \<Rightarrow> fs_options \<Rightarrow> 's \<Rightarrow> 's file_system res" where
  "fs_new ops options disk =
     (case read_boot_sector ops disk of
        (Inl e, _) \<Rightarrow> Inl e
      | (Inr b, disk) \<Rightarrow>
          rbind (root_dir_sectors b) (\<lambda>root_sectors.
          rbind (first_data_sector b) (\<lambda>first.
          rbind (total_clusters b) (\<lambda>clusters.
          let ft = from_clusters clusters in
          case read_fs_info ops ft b disk of
            (Inl e, _) \<Rightarrow> Inl e
          | (Inr info, disk) \<Rightarrow>
              let info = (if fl_dirty (bpb_status_flags b) then info\<lparr>fi_free_cluster_count := None\<rparr> else info) in
              rbind (validate_and_fix clusters info) (\<lambda>info.
              Inr \<lparr>fs_disk = disk, fs_options = options, fs_fat_type = ft, fs_bpb = b, fs_first_data_sector = first,
                   fs_root_dir_sectors = root_sectors, fs_total_clusters = clusters, fs_info = info,
                   fs_current_status_flags = bpb_status_flags b\<rparr>)))))"

definition volume_label_as_bytes :: "'s file_system \<Rightarrow> u8 list" where
  "volume_label_as_bytes self = (let label = volume_label (fs_bpb self) in take (trimmed_len label) label)"

definition fs_volume_label :: "'s file_system \<Rightarrow> nat list" where
  "fs_volume_label self = map (opt_oem_decode (fs_options self)) (volume_label_as_bytes self)"

section \<open>Sectors, clusters and offsets\<close>

definition offset_from_sector :: "'s file_system \<Rightarrow> u32 \<Rightarrow> u64" where
  "offset_from_sector self sector = bytes_from_sectors (fs_bpb self) sector"

definition sector_from_cluster :: "'s file_system \<Rightarrow> u32 \<Rightarrow> u32 res" where
  "sector_from_cluster self cluster =
     rbind (csub cluster RESERVED_FAT_ENTRIES) (\<lambda>c.
     rbind (sectors_from_clusters (fs_bpb self) c) (\<lambda>n.
     cadd (fs_first_data_sector self) n))"

definition cluster_size :: "'s file_system \<Rightarrow> u32" where
  "cluster_size self = bpb_cluster_size (fs_bpb self)"

definition offset_from_cluster :: "'s file_system \<Rightarrow> u32 \<Rightarrow> u64 res" where
  "offset_from_cluster self cluster =
     rbind (sector_from_cluster self cluster) (\<lambda>sector. Inr (offset_from_sector self sector))"

definition bytes_from_clusters :: "'s file_system \<Rightarrow> u32 \<Rightarrow> u64 res" where
  "bytes_from_clusters self clusters =
     rbind (sectors_from_clusters (fs_bpb self) clusters) (\<lambda>n. Inr (bytes_from_sectors (fs_bpb self) n))"

definition fs_clusters_from_bytes :: "'s file_system \<Rightarrow> u64 \<Rightarrow> u32 res" where
  "fs_clusters_from_bytes self n = clusters_from_bytes (fs_bpb self) n"

section \<open>Writing through the file system\<close>

definition set_dirty_flag :: "'s rws \<Rightarrow> bool \<Rightarrow> ('s file_system, unit) st" where
  "set_dirty_flag ops dirty self =
     (let flags = bpb_status_flags (fs_bpb self);
          flags = flags\<lparr>fl_dirty := (fl_dirty flags \<or> dirty)\<rparr>
      in if flags = fs_current_status_flags self then (Inr (), self)
         else let encoded = status_flags_encode flags;
                  offset = (if fs_fat_type self = Fat32 then 0x041 else 0x025)
         in sbind (on_disk (io_seek ops (Start offset))) (\<lambda>_.
            sbind (on_disk (write_u8 ops encoded)) (\<lambda>_ self.
              (Inr (), self\<lparr>fs_current_status_flags := flags\<rparr>))) self)"

definition fs_io_write :: "'s rws \<Rightarrow> u8 list \<Rightarrow> ('s file_system, nat) st" where
  "fs_io_write ops buf =
     sbind (on_disk (io_write ops buf)) (\<lambda>n.
     sbind (if n > 0 then set_dirty_flag ops True else sret ()) (\<lambda>_. sret n))"

definition fs_io_ops :: "'s rws \<Rightarrow> 's file_system rws" where
  "fs_io_ops ops =
     \<lparr>io_read = (\<lambda>n. on_disk (io_read ops n)),
      io_read_exact = default_read_exact (\<lambda>n. on_disk (io_read ops n)),
      io_write = fs_io_write ops,
      io_write_all = write_all (fs_io_write ops),
      io_seek = (\<lambda>p. on_disk (io_seek ops p)),
      io_flush = on_disk (io_flush ops)\<rparr>"

section \<open>The FAT of the volume\<close>

definition disk_slice_from_sectors :: "u32 \<Rightarrow> u32 \<Rightarrow> u8 \<Rightarrow> bpb \<Rightarrow> 's \<Rightarrow> 's disk_slice" where
  "disk_slice_from_sectors first_sector sector_count mirrors b inner =
     disk_slice_new (unat (bytes_from_sectors b first_sector)) (unat (bytes_from_sectors b sector_count)) (unat mirrors) inner"

definition bpb_fat_slice :: "'s \<Rightarrow> bpb \<Rightarrow> 's disk_slice res" where
  "bpb_fat_slice io b =
     rbind (if mirroring_enabled b then Inr (reserved_sectors b, bpb_fats b)
            else rbind (cmul (ucast (active_fat b)) (sectors_per_fat b)) (\<lambda>n.
                 rbind (cadd (reserved_sectors b) n) (\<lambda>first. Inr (first, 1)))) (\<lambda>(fat_first_sector, mirrors).
     Inr (disk_slice_from_sectors fat_first_sector (sectors_per_fat b) mirrors b io))"

text \<open>The dictionary of \<open>DiskSlice<FsIoAdapter>\<close>, and running an operation of it, or of a cluster iterator over it, on
  the FAT slice of the file system.\<close>

definition fs_fat_ops :: "'s rws \<Rightarrow> 's file_system disk_slice rws" where
  "fs_fat_ops ops = disk_slice_ops (fs_io_ops ops)"

definition fs_fat_slice :: "'s file_system \<Rightarrow> 's file_system disk_slice res" where
  "fs_fat_slice self = bpb_fat_slice self (fs_bpb self)"

definition with_fat_slice :: "('s file_system disk_slice, 'a) st \<Rightarrow> ('s file_system, 'a) st" where
  "with_fat_slice m self =
     (case fs_fat_slice self of
        Inl e \<Rightarrow> (Inl e, self)
      | Inr d \<Rightarrow> (case m d of (r, d') \<Rightarrow> (r, ds_inner d')))"

definition cluster_iter :: "'s file_system \<Rightarrow> u32 \<Rightarrow> 's file_system disk_slice cluster_iterator res" where
  "cluster_iter self cluster =
     rbind (fs_fat_slice self) (\<lambda>d. Inr (cluster_iterator_new d (fs_fat_type self) cluster))"

definition with_cluster_iter ::
  "u32 \<Rightarrow> ('s file_system disk_slice cluster_iterator, 'a) st \<Rightarrow> ('s file_system, 'a) st" where
  "with_cluster_iter cluster m self =
     (case cluster_iter self cluster of
        Inl e \<Rightarrow> (Inl e, self)
      | Inr it \<Rightarrow> (case m it of (r, it') \<Rightarrow> (r, ds_inner (ci_fat it'))))"

definition truncate_cluster_chain :: "'s rws \<Rightarrow> u32 \<Rightarrow> ('s file_system, unit) st" where
  "truncate_cluster_chain ops cluster =
     sbind (with_cluster_iter cluster (cluster_iterator_truncate (fs_fat_ops ops))) (\<lambda>num_free.
     on_fs_info (add_free_clusters (sint num_free)))"

definition free_cluster_chain :: "'s rws \<Rightarrow> u32 \<Rightarrow> ('s file_system, unit) st" where
  "free_cluster_chain ops cluster =
     sbind (with_cluster_iter cluster (cluster_iterator_free (fs_fat_ops ops))) (\<lambda>num_free.
     on_fs_info (add_free_clusters (sint num_free)))"

function write_zeros :: "'s rws \<Rightarrow> nat \<Rightarrow> ('s, unit) st" where
  "write_zeros ops len s =
     (if len = 0 then (Inr (), s)
      else let write_size = min len 512
      in sbind (io_write_all ops (replicate write_size 0)) (\<lambda>_. write_zeros ops (len - write_size)) s)"
  by pat_completeness auto
termination
  by (relation "measure (\<lambda>(ops, len, s). len)") auto

declare write_zeros.simps [simp del]

definition fs_alloc_cluster :: "'s rws \<Rightarrow> u32 option \<Rightarrow> bool \<Rightarrow> ('s file_system, u32) st" where
  "fs_alloc_cluster ops prev_cluster zero self =
     (let hint = fi_next_free_cluster (fs_info self) in
      sbind (with_fat_slice (alloc_cluster (fs_fat_ops ops) (fs_fat_type self) prev_cluster hint (fs_total_clusters self))) (\<lambda>cluster.
      sbind (if zero
             then sbind (slift (offset_from_cluster self cluster)) (\<lambda>offset.
                  sbind (on_disk (io_seek ops (Start (unat offset)))) (\<lambda>_.
                  on_disk (write_zeros ops (unat (cluster_size self)))))
             else sret ()) (\<lambda>_.
      sbind (slift (cadd cluster 1)) (\<lambda>next.
      sbind (on_fs_info (\<lambda>i. Inr (set_next_free_cluster next i))) (\<lambda>_.
      sbind (on_fs_info (add_free_clusters (- 1))) (\<lambda>_.
      sret cluster))))) self)"

section \<open>Status and statistics\<close>

definition read_status_flags :: "'s rws \<Rightarrow> ('s file_system, fs_status_flags) st" where
  "read_status_flags ops self =
     (let bpb_status = bpb_status_flags (fs_bpb self) in
      sbind (with_fat_slice (read_fat_flags (fs_fat_ops ops) (fs_fat_type self))) (\<lambda>fat_status.
      sret \<lparr>fl_dirty = fl_dirty bpb_status \<or> fl_dirty fat_status,
            fl_io_error = fl_io_error bpb_status \<or> fl_io_error fat_status\<rparr>) self)"

record file_system_stats =
  stats_cluster_size :: u32
  stats_total_clusters :: u32
  stats_free_clusters :: u32

definition recalc_free_clusters :: "'s rws \<Rightarrow> ('s file_system, u32) st" where
  "recalc_free_clusters ops self =
     sbind (with_fat_slice (count_free_clusters (fs_fat_ops ops) (fs_fat_type self) (fs_total_clusters self))) (\<lambda>n.
     sbind (on_fs_info (\<lambda>i. Inr (set_free_cluster_count n i))) (\<lambda>_. sret n)) self"

definition stats :: "'s rws \<Rightarrow> ('s file_system, file_system_stats) st" where
  "stats ops self =
     sbind (case fi_free_cluster_count (fs_info self) of Some n \<Rightarrow> sret n | None \<Rightarrow> recalc_free_clusters ops) (\<lambda>n.
     sret \<lparr>stats_cluster_size = cluster_size self, stats_total_clusters = fs_total_clusters self,
           stats_free_clusters = n\<rparr>) self"

section \<open>Unmounting\<close>

definition flush_fs_info :: "'s rws \<Rightarrow> ('s file_system, unit) st" where
  "flush_fs_info ops self =
     (if fs_fat_type self = Fat32 \<and> fi_dirty (fs_info self)
      then sbind (on_disk (io_seek ops (Start (unat (offset_from_sector self (ucast (bpb_fs_info_sector (fs_bpb self)))))))) (\<lambda>_.
           sbind (on_disk (fs_info_serialize ops (fs_info self))) (\<lambda>_.
           on_fs_info (\<lambda>i. Inr (i\<lparr>fi_dirty := False\<rparr>)))) self
      else (Inr (), self))"

definition unmount_internal :: "'s rws \<Rightarrow> ('s file_system, unit) st" where
  "unmount_internal ops = sbind (flush_fs_info ops) (\<lambda>_. set_dirty_flag ops False)"

section \<open>Formatting\<close>

definition write_zeros_until_end_of_sector :: "'s rws \<Rightarrow> u16 \<Rightarrow> ('s, unit) st" where
  "write_zeros_until_end_of_sector ops bps =
     sbind (io_seek ops (Current 0)) (\<lambda>pos.
     sbind (slift (if bps = 0 then Inl (Panic DivideByZero) else Inr (unat bps - pos mod unat bps))) (\<lambda>total_bytes_to_write.
     if total_bytes_to_write \<noteq> unat bps then write_zeros ops total_bytes_to_write else sret ()))"

definition format_total_sectors :: "'s rws \<Rightarrow> format_volume_options \<Rightarrow> u16 \<Rightarrow> ('s, u32) st" where
  "format_total_sectors ops options bps =
     (case fo_total_sectors options of
        Some n \<Rightarrow> sret n
      | None \<Rightarrow>
          sbind (io_seek ops (End 0)) (\<lambda>total_bytes.
          sbind (slift (if bps = 0 then Inl (Panic DivideByZero) else Inr (total_bytes div unat bps))) (\<lambda>total_sectors_64.
          sbind (io_seek ops (Start 0)) (\<lambda>_.
          if total_sectors_64 > 0xFFFFFFFF then sfail (Io Other) else sret (of_nat total_sectors_64)))))"

definition with_bpb_fat_slice :: "bpb \<Rightarrow> ('s disk_slice, 'a) st \<Rightarrow> ('s, 'a) st" where
  "with_bpb_fat_slice b m s =
     (case bpb_fat_slice s b of
        Inl e \<Rightarrow> (Inl e, s)
      | Inr d \<Rightarrow> (case m d of (r, d') \<Rightarrow> (r, ds_inner d')))"

definition format_fat32_sectors :: "'s rws \<Rightarrow> boot_sector \<Rightarrow> ('s, unit) st" where
  "format_fat32_sectors ops boot =
     (let b = boot_bpb boot in
      sbind (io_seek ops (Start (unat (bytes_from_sectors b (fs_info_sector b))))) (\<lambda>_.
      sbind (fs_info_serialize ops fs_info_default) (\<lambda>_.
      sbind (write_zeros_until_end_of_sector ops (bytes_per_sector b)) (\<lambda>_.
      sbind (io_seek ops (Start (unat (bytes_from_sectors b (backup_boot_sector b))))) (\<lambda>_.
      sbind (boot_sector_serialize ops boot) (\<lambda>_.
      write_zeros_until_end_of_sector ops (bytes_per_sector b)))))))"

definition format_root_dir :: "'s rws \<Rightarrow> bpb \<Rightarrow> fat_type \<Rightarrow> u32 \<Rightarrow> u32 \<Rightarrow> ('s, unit) st" where
  "format_root_dir ops b ft root_dir_first_sector root_sectors =
     (if ft = Fat32
      then sbind (with_bpb_fat_slice b (alloc_cluster (disk_slice_ops ops) ft None None 1)) (\<lambda>cluster.
           if cluster \<noteq> root_dir_first_cluster b then sfail (Panic Assertion) else
           sbind (slift (cadd root_dir_first_sector root_sectors)) (\<lambda>first.
           sbind (slift (csub cluster RESERVED_FAT_ENTRIES)) (\<lambda>c.
           sbind (slift (sectors_from_clusters b c)) (\<lambda>n.
           sbind (slift (cadd first n)) (\<lambda>sector.
           sbind (io_seek ops (Start (unat (bytes_from_sectors b sector)))) (\<lambda>_.
           write_zeros ops (unat (bpb_cluster_size b))))))))
      else sret ())"

definition format_volume :: "'s rws \<Rightarrow> format_volume_options \<Rightarrow> ('s, unit) st" where
  "format_volume ops options =
     sbind (io_seek ops (Current 0)) (\<lambda>p.
     if p \<noteq> 0 then sfail (Panic Assertion) else
     let bps = unwrap_or (fo_bytes_per_sector options) 512 in
     sbind (format_total_sectors ops options bps) (\<lambda>tot.
     sbind (slift (format_boot_sector options tot bps)) (\<lambda>(boot, ft).
     let b = boot_bpb boot in
     sbind (slift (boot_sector_validate boot)) (\<lambda>_.
     sbind (boot_sector_serialize ops boot) (\<lambda>_.
     sbind (write_zeros_until_end_of_sector ops (bytes_per_sector b)) (\<lambda>_.
     sbind (if bpb_is_fat32 b then format_fat32_sectors ops boot else sret ()) (\<lambda>_.
     sbind (slift (sectors_per_all_fats b)) (\<lambda>all_fats.
     sbind (io_seek ops (Start (unat (bytes_from_sectors b (reserved_sectors b))))) (\<lambda>_.
     sbind (write_zeros ops (unat (bytes_from_sectors b all_fats))) (\<lambda>_.
     sbind (slift (total_clusters b)) (\<lambda>clusters.
     sbind (with_bpb_fat_slice b (format_fat (disk_slice_ops ops) ft (bpb_media b)
              (bytes_from_sectors b (sectors_per_fat b)) clusters)) (\<lambda>_.
     sbind (slift (cadd (reserved_sectors b) all_fats)) (\<lambda>root_dir_first_sector.
     sbind (slift (root_dir_sectors b)) (\<lambda>root_sectors.
     sbind (io_seek ops (Start (unat (bytes_from_sectors b root_dir_first_sector)))) (\<lambda>_.
     sbind (write_zeros ops (unat (bytes_from_sectors b root_sectors))) (\<lambda>_.
     sbind (format_root_dir ops b ft root_dir_first_sector root_sectors) (\<lambda>_.
     sbind (io_seek ops (Start 0)) (\<lambda>_. sret ()))))))))))))))))))"

end
