(* ===== verification/Fat_Fs_Stream.thy ===== *)
theory Fat_Fs_Stream
  imports Fat_Fs
begin

text \<open>
  The disk as the FAT sees it. \<open>FsIoAdapter\<close> writes the dirty flag into the boot sector behind the back of
  its client and leaves the disk at another position, so it is no \<open>byte_stream\<close>; it is a \<open>region_stream\<close>
  beyond the status byte when the disk below writes whole buffers, and that is enough for the slice of
  the FAT. The invariant of the region also says that a changed volume is marked dirty on the disk.
\<close>

section \<open>Status flags\<close>

lemma status_flags_decode_encode [simp]: "status_flags_decode (status_flags_encode f) = f"
  by (cases f) (simp add: status_flags_decode_def status_flags_encode_def)

lemma status_flags_dirty [simp]: "fl_dirty (status_flags_decode x) \<longleftrightarrow> bit x 0"
  by (simp add: status_flags_decode_def and_one_eq bit_0 odd_iff_mod_2_eq_one flip: even_iff_mod_2_eq_zero)

section \<open>Disks that write whole buffers\<close>

text \<open>\<open>write\<close> on a disk may write less than it is given. \<open>FsIoAdapter\<close> relies on it writing everything: after
  a short write the flag would be written and the rest of the buffer would go behind it.\<close>

locale full_write_stream = byte_stream +
  assumes write_in:
    "inv s \<Longrightarrow> bs \<noteq> [] \<Longrightarrow> pos s + length bs \<le> length (bytes s) \<Longrightarrow>
     wp (io_write ops bs)
       (\<lambda>n s'. n = length bs \<and> inv s' \<and> bytes s' = splice (pos s) bs (bytes s) \<and> pos s' = pos s + length bs) no_err s"

interpretation cursor_full: full_write_stream cursor_ops cur_inner cur_pos "\<lambda>_. True"
  by unfold_locales (auto simp: cursor_ops_def vec_write_def wp_def Let_def)

context byte_stream
begin

lemma emits_write_zeros: "emits (write_zeros ops n) (replicate n 0)"
proof (induction n rule: less_induct)
  case (less n)
  have m: "emits (sbind (io_write_all ops (replicate (min n 512) 0)) (\<lambda>_. write_zeros ops (n - min n 512)))
      (replicate (min n 512) 0 @ replicate (n - min n 512) 0)" if "n \<noteq> 0"
    by (rule emits_bind [OF emits_write_all less.IH]) (use that in simp)
  have z: "write_zeros ops n = (if n = 0 then sret () else
      sbind (io_write_all ops (replicate (min n 512) 0)) (\<lambda>_. write_zeros ops (n - min n 512)))"
    by (rule ext) (subst write_zeros.simps, simp add: Let_def sret_def)
  have "replicate (min n 512) (0 :: u8) @ replicate (n - min n 512) 0 = replicate n 0"
    by (simp flip: replicate_add)
  with m show ?case by (subst z) (auto simp: emits_ret)
qed

end

section \<open>The region behind the status byte\<close>

definition flag_offset :: "fat_type \<Rightarrow> nat" where
  "flag_offset ft = (if ft = Fat32 then 0x41 else 0x25)"

definition region_lo :: nat where "region_lo = 0x42"

lemma flag_offset_less: "flag_offset ft < region_lo"
  by (simp add: flag_offset_def region_lo_def)

text \<open>\<open>f0\<close> is the file system before the operations on the region.\<close>

locale fs_on_disk = full_write_stream ops bytes pos inv
  for ops :: "'s rws" and bytes pos inv +
  fixes f0 :: "'s file_system"
begin

definition fs_view :: "'s file_system \<Rightarrow> u8 list" where
  "fs_view fs = replicate region_lo 0 @ drop region_lo (bytes (fs_disk fs))"

definition fs_pos :: "'s file_system \<Rightarrow> nat" where
  "fs_pos fs = pos (fs_disk fs)"

text \<open>The flags on the disk are the current ones, the other fields are those of \<open>f0\<close>, and the rest of the
  boot sector is as in \<open>f0\<close>.\<close>

definition fs_synced :: "'s file_system \<Rightarrow> bool" where
  "fs_synced fs \<longleftrightarrow> inv (fs_disk fs) \<and> region_lo \<le> length (bytes (fs_disk fs)) \<and>
     status_flags_decode (bytes (fs_disk fs) ! flag_offset (fs_fat_type f0)) = fs_current_status_flags fs \<and>
     fs\<lparr>fs_disk := fs_disk f0, fs_current_status_flags := fs_current_status_flags f0\<rparr> = f0 \<and>
     (\<forall>i < region_lo. i \<noteq> flag_offset (fs_fat_type f0) \<longrightarrow> bytes (fs_disk fs) ! i = bytes (fs_disk f0) ! i) \<and>
     length (bytes (fs_disk fs)) = length (bytes (fs_disk f0))"

definition fs_ok :: "'s file_system \<Rightarrow> bool" where
  "fs_ok fs \<longleftrightarrow> fs_synced fs \<and>
     (fs_view fs = fs_view f0 \<and> fs_current_status_flags fs = fs_current_status_flags f0 \<or> fl_dirty (fs_current_status_flags fs))"

lemma fs_static:
  assumes "fs_synced fs"
  shows "fs_fat_type fs = fs_fat_type f0" "fs_bpb fs = fs_bpb f0" "fs_info fs = fs_info f0"
    "fs_total_clusters fs = fs_total_clusters f0" "fs_first_data_sector fs = fs_first_data_sector f0"
proof -
  have e: "fs\<lparr>fs_disk := fs_disk f0, fs_current_status_flags := fs_current_status_flags f0\<rparr> = f0"
    using assms by (simp add: fs_synced_def)
  show "fs_fat_type fs = fs_fat_type f0" "fs_bpb fs = fs_bpb f0" "fs_info fs = fs_info f0"
    "fs_total_clusters fs = fs_total_clusters f0" "fs_first_data_sector fs = fs_first_data_sector f0"
    using arg_cong [OF e, of fs_fat_type] arg_cong [OF e, of fs_bpb] arg_cong [OF e, of fs_info]
      arg_cong [OF e, of fs_total_clusters] arg_cong [OF e, of fs_first_data_sector] by simp_all
qed

lemma length_fs_view [simp]: "fs_synced fs \<Longrightarrow> length (fs_view fs) = length (bytes (fs_disk fs))"
  by (simp add: fs_synced_def fs_view_def)

lemma window_fs_view:
  assumes "fs_synced fs" "region_lo \<le> p"
  shows "window p k (fs_view fs) = window p k (bytes (fs_disk fs))"
  using assms by (simp add: fs_view_def window_def drop_append)

lemma fs_view_splice:
  assumes "region_lo \<le> p" "p + length bs \<le> length b"
  shows "replicate region_lo 0 @ drop region_lo (splice p bs b) =
    splice p bs (replicate region_lo 0 @ drop region_lo b)"
  using assms by (simp add: splice_def min_def drop_append take_append drop_take)

lemma fs_synced_disk:
  assumes "fs_synced fs" "inv d" "length (bytes d) = length (bytes (fs_disk fs))"
    "\<And>i. i < region_lo \<Longrightarrow> bytes d ! i = bytes (fs_disk fs) ! i"
  shows "fs_synced (fs\<lparr>fs_disk := d\<rparr>)"
  using assms flag_offset_less by (simp add: fs_synced_def)

lemma on_disk_eq: "m (fs_disk fs) = (r, d) \<Longrightarrow> on_disk m fs = (r, fs\<lparr>fs_disk := d\<rparr>)"
  by (simp add: on_disk_def)

lemma set_dirty_flag_step:
  assumes "fs_synced fs"
  shows "\<exists>fs'. set_dirty_flag ops d fs = (Inr (), fs') \<and> fs_synced fs' \<and> fs_view fs' = fs_view fs \<and>
    fl_dirty (fs_current_status_flags fs') = (fl_dirty (bpb_status_flags (fs_bpb f0)) \<or> d)"
proof -
  define flags where "flags = bpb_status_flags (fs_bpb f0) \<lparr>fl_dirty := (fl_dirty (bpb_status_flags (fs_bpb f0)) \<or> d)\<rparr>"
  let ?o = "flag_offset (fs_fat_type f0)" and ?b = "bytes (fs_disk fs)"
  note st = fs_static [OF assms] and o = flag_offset_less [of "fs_fat_type f0"]
  have len: "region_lo \<le> length ?b" and h: "holds ?b (pos (fs_disk fs)) (fs_disk fs)"
    using assms by (auto simp: fs_synced_def holds_def)
  show ?thesis
  proof (cases "flags = fs_current_status_flags fs")
    case True
    then have "set_dirty_flag ops d fs = (Inr (), fs)" using st by (simp add: set_dirty_flag_def flags_def Let_def)
    moreover have "fl_dirty (fs_current_status_flags fs) = (fl_dirty (bpb_status_flags (fs_bpb f0)) \<or> d)"
      unfolding True [symmetric] by (simp add: flags_def)
    ultimately show ?thesis using assms by blast
  next
    case False
    obtain s1 where s1: "io_seek ops (Start ?o) (fs_disk fs) = (Inr ?o, s1)" "holds ?b ?o s1"
      using seek_wp [OF h, of ?o "\<lambda>r s. r = ?o \<and> holds ?b ?o s" no_err] o len by (auto elim!: wp_no_errE)
    obtain s2 where s2: "write_u8 ops (status_flags_encode flags) s1 = (Inr (), s2)"
      "holds (splice ?o [status_flags_encode flags] ?b) (?o + 1) s2"
      using write_u8_wp [OF s1(2), of "status_flags_encode flags" "\<lambda>r s. holds (splice ?o [status_flags_encode flags] ?b) (?o + 1) s" no_err]
        o len by (auto elim!: wp_no_errE)
    let ?fs = "fs\<lparr>fs_disk := s2, fs_current_status_flags := flags\<rparr>"
    have b2: "bytes s2 = ?b[?o := status_flags_encode flags]" "inv s2"
      using s2(2) o len by (auto simp: holds_def splice_def upd_conv_take_nth_drop)
    have "set_dirty_flag ops d fs = (Inr (), ?fs)"
      using False st s1(1) s2(1)
      by (simp add: set_dirty_flag_def flags_def [symmetric] Let_def flag_offset_def sbind_def on_disk_def)
    moreover have "fs_synced ?fs"
      using assms b2 o len by (auto simp: fs_synced_def nth_list_update)
    moreover have "fs_view ?fs = fs_view fs" using o by (simp add: fs_view_def b2)
    ultimately show ?thesis by (auto simp: flags_def)
  qed
qed

lemma fs_write_step:
  assumes "fs_ok fs" "region_lo \<le> fs_pos fs" "fs_pos fs + length bs \<le> length (fs_view fs)" "bs \<noteq> []"
  shows "\<exists>fs'. fs_io_write ops bs fs = (Inr (length bs), fs') \<and> fs_ok fs' \<and> fs_view fs' = splice (fs_pos fs) bs (fs_view fs)"
proof -
  let ?b = "bytes (fs_disk fs)" and ?p = "pos (fs_disk fs)"
  have sy: "fs_synced fs" using assms(1) by (simp add: fs_ok_def)
  have p: "region_lo \<le> ?p" "?p + length bs \<le> length ?b" using assms(2,3) sy by (simp_all add: fs_pos_def)
  have "inv (fs_disk fs)" using sy by (simp add: fs_synced_def)
  from write_in [OF this assms(4) p(2)] obtain d where d: "io_write ops bs (fs_disk fs) = (Inr (length bs), d)"
    "inv d" "bytes d = splice ?p bs ?b" by (auto elim!: wp_no_errE)
  have "fs_synced (fs\<lparr>fs_disk := d\<rparr>)"
    by (rule fs_synced_disk [OF sy d(2)]) (use d(3) p in \<open>simp_all add: nth_splice\<close>)
  from set_dirty_flag_step [OF this, of True] obtain fs' where
    fs': "set_dirty_flag ops True (fs\<lparr>fs_disk := d\<rparr>) = (Inr (), fs')" "fs_synced fs'"
    "fs_view fs' = fs_view (fs\<lparr>fs_disk := d\<rparr>)" "fl_dirty (fs_current_status_flags fs')" by auto
  have "fs_io_write ops bs fs = (Inr (length bs), fs')"
    using assms(4) d(1) fs'(1) by (simp add: fs_io_write_def sbind_def on_disk_def sret_def)
  moreover have "fs_view (fs\<lparr>fs_disk := d\<rparr>) = splice ?p bs (fs_view fs)"
    using p d(3) by (simp add: fs_view_def fs_view_splice)
  ultimately show ?thesis using fs' by (auto simp: fs_ok_def fs_pos_def)
qed

lemma fs_write_all_step:
  assumes "fs_ok fs" "region_lo \<le> fs_pos fs" "fs_pos fs + length bs \<le> length (fs_view fs)"
  shows "wp (write_all (fs_io_write ops) bs) (\<lambda>_ fs'. fs_ok fs' \<and> fs_view fs' = splice (fs_pos fs) bs (fs_view fs)) no_err fs"
proof (cases "bs = []")
  case True
  with assms(1) show ?thesis by (simp add: write_all.simps wp_def)
next
  case False
  with fs_write_step [OF assms False] show ?thesis
    by (auto simp: write_all.simps [of _ bs] write_all.simps [of _ "[]"] wp_def)
qed

lemma fs_seek_step:
  assumes "fs_ok fs" "n \<le> length (fs_view fs)"
  shows "wp (on_disk (io_seek ops (Start n))) (\<lambda>_ fs'. fs_ok fs' \<and> fs_view fs' = fs_view fs \<and> fs_pos fs' = n) no_err fs"
proof -
  have sy: "fs_synced fs" using assms(1) by (simp add: fs_ok_def)
  then have "inv (fs_disk fs)" "n \<le> length (bytes (fs_disk fs))" using assms(2) by (simp_all add: fs_synced_def)
  from seek_start [OF this] obtain d where d: "io_seek ops (Start n) (fs_disk fs) = (Inr n, d)" "inv d"
    "bytes d = bytes (fs_disk fs)" "pos d = n" by (auto elim!: wp_no_errE)
  have "fs_synced (fs\<lparr>fs_disk := d\<rparr>)" by (rule fs_synced_disk [OF sy d(2)]) (use d(3) in simp_all)
  moreover have "fs_view (fs\<lparr>fs_disk := d\<rparr>) = fs_view fs" using d(3) by (simp add: fs_view_def)
  ultimately show ?thesis using assms(1) d by (auto simp: wp_def on_disk_def fs_ok_def fs_pos_def)
qed

lemma fs_read_step:
  assumes "fs_ok fs" "region_lo \<le> fs_pos fs" "fs_pos fs \<le> length (fs_view fs)"
  shows "wp (on_disk (io_read ops n))
      (\<lambda>bs fs'. length bs \<le> n \<and> fs_pos fs + length bs \<le> length (fs_view fs) \<and>
         (0 < n \<and> fs_pos fs < length (fs_view fs) \<longrightarrow> bs \<noteq> []) \<and>
         bs = window (fs_pos fs) (length bs) (fs_view fs) \<and> fs_ok fs' \<and> fs_view fs' = fs_view fs) no_err fs"
proof -
  have sy: "fs_synced fs" using assms(1) by (simp add: fs_ok_def)
  then have i: "inv (fs_disk fs)" "pos (fs_disk fs) \<le> length (bytes (fs_disk fs))"
    using assms(3) by (simp_all add: fs_synced_def fs_pos_def)
  from read_in [OF i, of n] obtain bs d where d: "io_read ops n (fs_disk fs) = (Inr bs, d)" "inv d"
    "bytes d = bytes (fs_disk fs)" and bs: "length bs \<le> n" "pos (fs_disk fs) + length bs \<le> length (bytes (fs_disk fs))"
      "0 < n \<and> pos (fs_disk fs) < length (bytes (fs_disk fs)) \<longrightarrow> bs \<noteq> []"
      "bs = window (pos (fs_disk fs)) (length bs) (bytes (fs_disk fs))" by (auto elim!: wp_no_errE)
  have "fs_synced (fs\<lparr>fs_disk := d\<rparr>)" by (rule fs_synced_disk [OF sy d(2)]) (use d(3) in simp_all)
  moreover have "fs_view (fs\<lparr>fs_disk := d\<rparr>) = fs_view fs" using d(3) by (simp add: fs_view_def)
  moreover have "window (fs_pos fs) (length bs) (fs_view fs) = bs"
    using bs(4) assms(2) window_fs_view [OF sy] by (simp add: fs_pos_def)
  ultimately show ?thesis using assms(1) bs d sy by (auto simp: wp_def on_disk_def fs_ok_def fs_pos_def)
qed

end

sublocale fs_on_disk \<subseteq> fat: framed_slice "fs_io_ops ops" fs_view fs_pos fs_ok region_lo
    "case fs_fat_slice f0 of Inl _ \<Rightarrow> None | Inr d \<Rightarrow> Some d"
  by unfold_locales (simp_all add: fs_io_ops_def fs_seek_step fs_read_step fs_write_all_step)

end
