(* ===== verification/Fat_Fs_Props.thy ===== *)
theory Fat_Fs_Props
  imports Fat_Fs_Stream Fat_Boot_Props
begin

text \<open>
  The properties of a mounted volume on a disk held in memory: the bookkeeping of the cluster operations
  (the FSInfo counters stay exact, all copies of the FAT agree, nothing outside the FAT and the
  allocated cluster changes, a changed volume is marked dirty), and the FSInfo sector.
\<close>

interpretation vol: fs_on_disk cursor_ops cur_inner cur_pos "\<lambda>_. True" f0
  for f0 :: "cursor file_system"
  by unfold_locales

section \<open>A volume\<close>

abbreviation disk_bytes :: "cursor file_system \<Rightarrow> u8 list" where
  "disk_bytes fs \<equiv> cur_inner (fs_disk fs)"

text \<open>Where the copies of the FAT lie.\<close>

definition fat_at :: "cursor file_system \<Rightarrow> nat \<Rightarrow> nat \<Rightarrow> nat \<Rightarrow> bool" where
  "fat_at fs bgn sz mirrors \<longleftrightarrow> fs_fat_slice fs = Inr (disk_slice_new bgn sz mirrors fs)"

text \<open>\<open>volume fs b\<close>: the FAT lies on the disk behind the boot sector's status byte, all its copies are \<open>b\<close>, and
  the status byte agrees with the flags in memory.\<close>

definition volume :: "cursor file_system \<Rightarrow> u8 list \<Rightarrow> bool" where
  "volume fs b \<longleftrightarrow> region_lo \<le> length (disk_bytes fs) \<and>
     status_flags_decode (disk_bytes fs ! flag_offset (fs_fat_type fs)) = fs_current_status_flags fs \<and>
     (\<exists>bgn sz mirrors. fat_at fs bgn sz mirrors \<and> region_lo \<le> bgn \<and> 1 \<le> mirrors \<and> sz < 2 ^ 63 \<and>
        bgn + mirrors * sz \<le> length (disk_bytes fs) \<and>
        (\<forall>j < mirrors. window (bgn + j * sz) sz (disk_bytes fs) = b))"

text \<open>What an operation on the FAT leaves alone: every field but the disk and the flags, and every byte of
  the disk outside the FAT and the status byte; if anything changes, the volume is marked dirty.\<close>

definition fat_frame :: "cursor file_system \<Rightarrow> cursor file_system \<Rightarrow> bool" where
  "fat_frame fs fs' \<longleftrightarrow>
     fs'\<lparr>fs_disk := fs_disk fs, fs_current_status_flags := fs_current_status_flags fs\<rparr> = fs \<and>
     length (disk_bytes fs') = length (disk_bytes fs) \<and>
     (\<forall>bgn sz mirrors i. fat_at fs bgn sz mirrors \<and> i < length (disk_bytes fs) \<and> i \<noteq> flag_offset (fs_fat_type fs) \<and>
        (i < bgn \<or> bgn + mirrors * sz \<le> i) \<longrightarrow> disk_bytes fs' ! i = disk_bytes fs ! i) \<and>
     (drop region_lo (disk_bytes fs') \<noteq> drop region_lo (disk_bytes fs) \<longrightarrow> fl_dirty (fs_current_status_flags fs'))"

lemma fat_at_bpb: "fs_bpb fs' = fs_bpb fs \<Longrightarrow> fat_at fs' bgn sz mirrors \<longleftrightarrow> fat_at fs bgn sz mirrors"
  by (auto simp: fat_at_def fs_fat_slice_def bpb_fat_slice_def disk_slice_from_sectors_def disk_slice_new_def
      split: if_splits prod.splits)

lemma fat_at_unique: "fat_at fs bgn sz m \<Longrightarrow> fat_at fs bgn' sz' m' \<Longrightarrow> bgn' = bgn \<and> sz' = sz \<and> m' = m"
  by (simp add: fat_at_def disk_slice_new_def)

lemma volume_slice:
  assumes "volume fs b" "fs_fat_slice fs = Inr d"
  shows "vol.fat.slice.holds fs b 0 d" "vol.fat.slice_synced d" "ds_inner d = fs"
proof -
  from assms(1) obtain bgn sz mirrors where g: "fat_at fs bgn sz mirrors" "region_lo \<le> bgn" "1 \<le> mirrors" "sz < 2 ^ 63"
    "bgn + mirrors * sz \<le> length (disk_bytes fs)" "\<forall>j < mirrors. window (bgn + j * sz) sz (disk_bytes fs) = b"
    and len: "region_lo \<le> length (disk_bytes fs)"
    and fl: "status_flags_decode (disk_bytes fs ! flag_offset (fs_fat_type fs)) = fs_current_status_flags fs"
    unfolding volume_def by blast
  have d: "d = disk_slice_new bgn sz mirrors fs" using assms(2) g(1) by (simp add: fat_at_def)
  have sy: "vol.fs_synced fs fs" using len fl by (simp add: vol.fs_synced_def)
  then have ok: "vol.fs_ok fs fs" by (simp add: vol.fs_ok_def)
  have w: "window (bgn + j * sz) sz (vol.fs_view fs) = b" if "j < mirrors" for j
    using vol.window_fs_view [OF sy, of "bgn + j * sz" sz] g(2,6) that by simp
  have "vol.fat.slice_inv fs d"
    using ok g len by (simp add: d vol.fat.slice_inv_def disk_slice_new_def vol.length_fs_view [OF sy])
  moreover have sb: "vol.fat.slice_bytes d = b" using w [of 0] g(3) by (simp add: d vol.fat.slice_bytes_def disk_slice_new_def)
  ultimately show "vol.fat.slice.holds fs b 0 d"
    unfolding vol.fat.slice.holds_def vol.fat.framed_inv_def unfolding assms(2) by (simp add: d disk_slice_new_def)
  show "vol.fat.slice_synced d" using w sb by (simp add: vol.fat.slice_synced_def d disk_slice_new_def)
  show "ds_inner d = fs" by (simp add: d disk_slice_new_def)
qed

lemma slice_volume:
  assumes "volume fs b" "vol.fat.slice.holds fs b' p d'"
  shows "volume (ds_inner d') b'" "fat_frame fs (ds_inner d')"
proof -
  from assms(1) obtain bgn sz mirrors where g: "fat_at fs bgn sz mirrors" "region_lo \<le> bgn" "1 \<le> mirrors" "sz < 2 ^ 63"
    "bgn + mirrors * sz \<le> length (disk_bytes fs)" and len: "region_lo \<le> length (disk_bytes fs)"
    unfolding volume_def by blast
  define d where "d = disk_slice_new bgn sz mirrors fs"
  have sl: "fs_fat_slice fs = Inr d" using g(1) by (simp add: fat_at_def d_def)
  let ?f = "ds_inner d'"
  have i: "vol.fat.slice_inv fs d'" "vol.fat.slice_frame d d'" "vol.fat.slice_bytes d' = b'"
    using assms(2) unfolding vol.fat.slice.holds_def vol.fat.framed_inv_def unfolding sl by auto
  then have ok: "vol.fs_ok fs ?f" by (simp add: vol.fat.slice_inv_def)
  then have sy: "vol.fs_synced fs ?f" by (simp add: vol.fs_ok_def)
  have sy0: "vol.fs_synced fs fs" using assms(1) by (auto simp: vol.fs_synced_def volume_def)
  note st = vol.fs_static [OF sy]
  have geo: "ds_begin d' = bgn" "ds_size d' = sz" "ds_mirrors d' = mirrors"
    using i(2) by (auto simp: vol.fat.slice_frame_def d_def disk_slice_new_def)
  have syn: "vol.fat.slice_synced d'" using i(2) volume_slice(2) [OF assms(1) sl] by (simp add: vol.fat.slice_frame_def)
  have l: "length (disk_bytes ?f) = length (disk_bytes fs)" using sy by (simp add: vol.fs_synced_def)
  have w: "window (bgn + j * sz) sz (disk_bytes ?f) = b'" if "j < mirrors" for j
    using syn that i(3) geo vol.window_fs_view [OF sy, of "bgn + j * sz" sz] g(2) by (simp add: vol.fat.slice_synced_def)
  have at: "fat_at ?f bgn sz mirrors" using fat_at_bpb [OF st(2)] g(1) by simp
  show "volume ?f b'"
    unfolding volume_def using sy st at g(2-5) w l len by (simp add: vol.fs_synced_def) blast
  have b: "disk_bytes ?f ! i = disk_bytes fs ! i"
    if "i < length (disk_bytes fs)" "i \<noteq> flag_offset (fs_fat_type fs)" "i < bgn \<or> bgn + mirrors * sz \<le> i" for i
  proof (cases "i < region_lo")
    case True
    then show ?thesis using sy that(2) by (simp add: vol.fs_synced_def)
  next
    case False
    have "window i 1 (vol.fs_view ?f) = window i 1 (vol.fs_view fs)"
      using i(2) that vol.length_fs_view [OF sy0] by (auto simp: vol.fat.slice_frame_def d_def disk_slice_new_def)
    then have "window i 1 (disk_bytes ?f) = window i 1 (disk_bytes fs)"
      using vol.window_fs_view [OF sy, of i 1] vol.window_fs_view [OF sy0, of i 1] False by simp
    then show ?thesis using that(1) l nth_window [of 0 1 i "disk_bytes fs"] nth_window [of 0 1 i "disk_bytes ?f"] by simp
  qed
  have dirty: "fl_dirty (fs_current_status_flags ?f)" if "drop region_lo (disk_bytes ?f) \<noteq> drop region_lo (disk_bytes fs)"
    using ok that by (auto simp: vol.fs_ok_def vol.fs_view_def)
  show "fat_frame fs ?f"
    unfolding fat_frame_def using sy b l dirty fat_at_unique [OF g(1)] by (auto simp: vol.fs_synced_def)
qed

lemma with_fat_slice_wp:
  assumes "volume fs b"
    and "\<And>d. vol.fat.slice.holds fs b 0 d \<Longrightarrow>
       wp m (\<lambda>r d'. \<exists>b' p. vol.fat.slice.holds fs b' p d' \<and> Q r b') (\<lambda>e d'. \<exists>b' p. vol.fat.slice.holds fs b' p d' \<and> E e b') d"
  shows "wp (with_fat_slice m) (\<lambda>r fs'. \<exists>b'. volume fs' b' \<and> fat_frame fs fs' \<and> Q r b')
    (\<lambda>e fs'. \<exists>b'. volume fs' b' \<and> fat_frame fs fs' \<and> E e b') fs"
proof -
  obtain d where d: "fs_fat_slice fs = Inr d" using assms(1) by (auto simp: volume_def fat_at_def)
  from assms(2) [OF volume_slice(1) [OF assms(1) d]] d slice_volume [OF assms(1)] show ?thesis
    by (fastforce simp: wp_def with_fat_slice_def split: prod.splits sum.splits)
qed

lemma with_cluster_iter_eq:
  assumes "volume fs b"
    and "\<And>it. vol.fat.slice.it_holds fs (fs_fat_type fs) (Some c) b it \<Longrightarrow>
       \<exists>it'. m it = (Inr r, it') \<and> vol.fat.slice.it_holds fs (fs_fat_type fs) co b' it'"
  shows "\<exists>fs'. with_cluster_iter c m fs = (Inr r, fs') \<and> volume fs' b' \<and> fat_frame fs fs'"
proof -
  obtain d where d: "fs_fat_slice fs = Inr d" using assms(1) by (auto simp: volume_def fat_at_def)
  let ?it = "cluster_iterator_new d (fs_fat_type fs) c"
  have "vol.fat.slice.it_holds fs (fs_fat_type fs) (Some c) b ?it"
    using volume_slice(1) [OF assms(1) d] by (auto simp: vol.fat.slice.it_holds_def cluster_iterator_new_def)
  from assms(2) [OF this] obtain it' where it': "m ?it = (Inr r, it')" "vol.fat.slice.it_holds fs (fs_fat_type fs) co b' it'" by blast
  from it'(2) obtain p where "vol.fat.slice.holds fs b' p (ci_fat it')" unfolding vol.fat.slice.it_holds_def by blast
  from slice_volume [OF assms(1) this] it'(1) d show ?thesis
    by (simp add: with_cluster_iter_def cluster_iter_def)
qed

section \<open>The counters of the FSInfo sector\<close>

definition counters_exact :: "cursor file_system \<Rightarrow> u8 list \<Rightarrow> bool" where
  "counters_exact fs b \<longleftrightarrow>
     (\<forall>n. fi_free_cluster_count (fs_info fs) = Some n \<longrightarrow>
        unat n = num_free (fs_fat_type fs) b 2 (unat (fs_total_clusters fs) + 2)) \<and>
     (\<forall>h. fi_next_free_cluster (fs_info fs) = Some h \<longrightarrow> 2 \<le> unat h)"

lemma sint_small: "unat n < 2 ^ 31 \<Longrightarrow> sint n = int (unat n)" for n :: u32
proof -
  assume "unat n < 2 ^ 31"
  then have "int (unat n) < int (2 ^ 31)" by (simp only: of_nat_less_iff)
  then have "uint n < 2 ^ 31" by simp
  moreover have "- (2 ^ 31) \<le> uint n" by (rule order_trans [OF _ uint_ge_0]) simp
  ultimately have "signed_take_bit 31 (uint n) = uint n" by (intro signed_take_bit_int_eq_self)
  then show ?thesis by (simp add: sint_uint)
qed

lemma unat_word_of_int: "0 \<le> w \<Longrightarrow> w < 2 ^ 31 \<Longrightarrow> int (unat (word_of_int w :: u32)) = w"
  by (simp add: uint_word_of_int)

lemma add_free_clusters_exact:
  assumes "\<And>n. fi_free_cluster_count i = Some n \<Longrightarrow> unat n = k" "k < 2 ^ 31" "0 \<le> int k + v" "int k + v < 2 ^ 31"
  shows "\<exists>i'. add_free_clusters v i = Inr i' \<and> fi_next_free_cluster i' = fi_next_free_cluster i \<and>
    (fi_dirty i \<longrightarrow> fi_dirty i') \<and> (\<forall>n. fi_free_cluster_count i' = Some n \<longrightarrow> int (unat n) = int k + v) \<and>
    (fi_free_cluster_count i' = None \<longleftrightarrow> fi_free_cluster_count i = None)"
proof (cases "fi_free_cluster_count i")
  case None
  then show ?thesis by (simp add: add_free_clusters_def)
next
  case (Some n)
  have "sint n = int k" using assms(1) [OF Some] assms(2) by (simp add: sint_small)
  moreover have "int (unat (word_of_int (int k + v) :: u32)) = int k + v"
    using assms(3,4) by (rule unat_word_of_int)
  ultimately show ?thesis using Some assms(3,4) by (simp add: add_free_clusters_def Let_def)
qed

lemma num_free_small:
  assumes "fat_fits ft b N"
  shows "num_free ft b 2 N < 2 ^ 31"
proof -
  have "N < 2 ^ 31" using assms by (cases ft) (auto simp: fat_fits_def fat_limit_def)
  then show ?thesis using num_free_le [of ft b 2 N] by linarith
qed

lemma fat_frame_static:
  assumes "fat_frame fs fs'"
  shows "fs_fat_type fs' = fs_fat_type fs" "fs_bpb fs' = fs_bpb fs" "fs_info fs' = fs_info fs"
    "fs_total_clusters fs' = fs_total_clusters fs" "fs_first_data_sector fs' = fs_first_data_sector fs"
    "fs_options fs' = fs_options fs"
proof -
  have e: "fs'\<lparr>fs_disk := fs_disk fs, fs_current_status_flags := fs_current_status_flags fs\<rparr> = fs"
    using assms by (simp add: fat_frame_def)
  show "fs_fat_type fs' = fs_fat_type fs" "fs_bpb fs' = fs_bpb fs" "fs_info fs' = fs_info fs"
    "fs_total_clusters fs' = fs_total_clusters fs" "fs_first_data_sector fs' = fs_first_data_sector fs"
    "fs_options fs' = fs_options fs"
    using arg_cong [OF e, of fs_options] arg_cong [OF e, of fs_fat_type] arg_cong [OF e, of fs_bpb] arg_cong [OF e, of fs_info]
      arg_cong [OF e, of fs_total_clusters] arg_cong [OF e, of fs_first_data_sector] by simp_all
qed

lemma volume_info [simp]: "volume (fs\<lparr>fs_info := i\<rparr>) b = volume fs b"
  using fat_at_bpb [of "fs\<lparr>fs_info := i\<rparr>" fs] by (simp add: volume_def)

text \<open>Adding the number of clusters that became free keeps the counters exact.\<close>

lemma counters_step:
  assumes "counters_exact fs b" "fs_info fs' = fs_info fs" "fs_fat_type fs' = fs_fat_type fs"
    "fs_total_clusters fs' = fs_total_clusters fs"
    and "N = unat (fs_total_clusters fs) + 2" "fat_fits (fs_fat_type fs) b N" "fat_fits (fs_fat_type fs) b' N"
    and "int (num_free (fs_fat_type fs) b' 2 N) = int (num_free (fs_fat_type fs) b 2 N) + v"
  shows "\<exists>i. on_fs_info (add_free_clusters v) fs' = (Inr (), fs'\<lparr>fs_info := i\<rparr>) \<and> counters_exact (fs'\<lparr>fs_info := i\<rparr>) b' \<and>
    fi_next_free_cluster i = fi_next_free_cluster (fs_info fs)"
proof -
  let ?k = "num_free (fs_fat_type fs) b 2 N"
  have "int (num_free (fs_fat_type fs) b' 2 N) < 2 ^ 31" using num_free_small [OF assms(7)] by simp
  then have "0 \<le> int ?k + v" "int ?k + v < 2 ^ 31" using assms(8) by linarith+
  then obtain i where i: "add_free_clusters v (fs_info fs) = Inr i"
    "fi_next_free_cluster i = fi_next_free_cluster (fs_info fs)"
    "\<forall>n. fi_free_cluster_count i = Some n \<longrightarrow> int (unat n) = int ?k + v"
    using add_free_clusters_exact [of "fs_info fs" ?k v] num_free_small [OF assms(6)] assms(1,5)
    by (auto simp: counters_exact_def)
  have "unat n = num_free (fs_fat_type fs) b' 2 N" if "fi_free_cluster_count i = Some n" for n
  proof -
    have "int (unat n) = int (num_free (fs_fat_type fs) b' 2 N)" using i(3) that assms(8) by simp
    then show ?thesis by (simp only: of_nat_eq_iff)
  qed
  then have "counters_exact (fs'\<lparr>fs_info := i\<rparr>) b'"
    using i(2) assms(1,3-5) by (simp add: counters_exact_def)
  with i(1,2) assms(2) show ?thesis by (auto simp: on_fs_info_def)
qed

section \<open>Freeing and truncating chains\<close>

lemma chain_operation_finish:
  assumes "volume fs b" "fat_fits (fs_fat_type fs) b N" "N = unat (fs_total_clusters fs) + 2" "counters_exact fs b"
    and "\<And>it. vol.fat.slice.it_holds fs (fs_fat_type fs) (Some c) b it \<Longrightarrow>
        \<exists>it'. m it = (Inr (of_nat k :: u32), it') \<and> vol.fat.slice.it_holds fs (fs_fat_type fs) None b' it'"
    and "k \<le> N" "length b' = length b" "num_free (fs_fat_type fs) b' 2 N = num_free (fs_fat_type fs) b 2 N + k"
  shows "\<exists>fs' i. sbind (with_cluster_iter c m) (\<lambda>n. on_fs_info (add_free_clusters (sint n))) fs = (Inr (), fs'\<lparr>fs_info := i\<rparr>) \<and>
      fat_frame fs fs' \<and> volume (fs'\<lparr>fs_info := i\<rparr>) b' \<and> counters_exact (fs'\<lparr>fs_info := i\<rparr>) b'"
proof -
  have "N < 2 ^ 31" using assms(2) by (cases "fs_fat_type fs") (auto simp: fat_fits_def fat_limit_def)
  with assms(6) have sint: "sint (of_nat k :: u32) = int k" by (subst sint_small) (auto simp: unat_of_nat)
  have "\<exists>fs'. with_cluster_iter c m fs = (Inr (of_nat k), fs') \<and> volume fs' b' \<and> fat_frame fs fs'"
    by (rule with_cluster_iter_eq [where co = None, OF assms(1)]) (drule assms(5), assumption)
  then obtain fs' where fs': "with_cluster_iter c m fs = (Inr (of_nat k), fs')" "volume fs' b'" "fat_frame fs fs'" by blast
  have f: "fat_fits (fs_fat_type fs) b' N" using assms(2) fat_fits_length [OF assms(7)] by simp
  obtain i where "on_fs_info (add_free_clusters (int k)) fs' = (Inr (), fs'\<lparr>fs_info := i\<rparr>)"
    "counters_exact (fs'\<lparr>fs_info := i\<rparr>) b'"
    using counters_step [OF assms(4) fat_frame_static(3,1,4) [OF fs'(3)] assms(3,2) f] assms(8) by auto
  then show ?thesis using fs' sint by (auto simp: sbind_def)
qed

text \<open>C8: on a mounted volume, freeing or truncating a chain frees exactly its clusters, or those after the
  first, in every copy of the FAT, adds their number to the free counter so that it stays exact, marks the
  volume dirty when the disk changed, and leaves the rest of the disk alone.\<close>

theorem chain_operations_keep_counters:
  assumes "volume fs b" "fat_fits (fs_fat_type fs) b N" "N = unat (fs_total_clusters fs) + 2" "counters_exact fs b"
    and "fat_chain (fat_entry (fs_fat_type fs) b) (c # cs)" "distinct (c # cs)"
    and "\<And>x. x \<in> set (c # cs) \<Longrightarrow> 2 \<le> unat x \<and> unat x < N"
    and "\<And>x. x \<in> set (c # cs) \<Longrightarrow> fat_entry (fs_fat_type fs) b (unat x) \<noteq> Free"
  shows "(\<exists>b' fs' i. free_cluster_chain cursor_ops c fs = (Inr (), fs'\<lparr>fs_info := i\<rparr>) \<and> fat_frame fs fs' \<and>
      volume (fs'\<lparr>fs_info := i\<rparr>) b' \<and> counters_exact (fs'\<lparr>fs_info := i\<rparr>) b' \<and>
      free_entries (fs_fat_type fs) N (c # cs) b b') \<and>
    (\<exists>b' fs' i. truncate_cluster_chain cursor_ops c fs = (Inr (), fs'\<lparr>fs_info := i\<rparr>) \<and> fat_frame fs fs' \<and>
      volume (fs'\<lparr>fs_info := i\<rparr>) b' \<and> counters_exact (fs'\<lparr>fs_info := i\<rparr>) b' \<and>
      truncate_entries (fs_fat_type fs) N c cs b b')"
proof -
  let ?ft = "fs_fat_type fs"
  let ?bf = "free_bytes ?ft (c # cs) b" and ?bt = "free_bytes ?ft cs (fat_set_bytes ?ft (unat c) EndOfChain b)"
  have r: "x \<in> set (c # cs) \<Longrightarrow> unat x < N" for x using assms(7) by blast
  have len: "length (c # cs) \<le> N" "length cs \<le> N"
    using distinct_length_le [OF assms(6) r] by simp_all
  have fe: "free_entries ?ft N (c # cs) b ?bf" by (rule free_bytes_entries [OF assms(2)]) (rule r)
  have te: "truncate_entries ?ft N c cs b ?bt" by (rule truncate_bytes_entries [OF assms(2,6)]) (rule r)
  have lf: "length ?bf = length b" "length ?bt = length b"
    using fe te by (simp_all only: free_entries_def truncate_entries_def)
  have nf: "num_free ?ft ?bf 2 N = num_free ?ft b 2 N + length (c # cs)" "num_free ?ft ?bt 2 N = num_free ?ft b 2 N + length cs"
    by (rule num_free_free [OF fe assms(6)]; use assms(7,8) in blast)
      (rule num_free_truncate [OF te assms(6)]; use assms(7,8) in blast)
  have fi: "\<exists>it'. cluster_iterator_free (fs_fat_ops cursor_ops) it = (Inr (of_nat (length (c # cs))), it') \<and>
      vol.fat.slice.it_holds fs ?ft None ?bf it'" if "vol.fat.slice.it_holds fs ?ft (Some c) b it" for it
    unfolding fs_fat_ops_def by (rule vol.fat.slice.iterator_free_eq [OF that assms(2,5,6) r]) blast+
  have ti: "\<exists>it'. cluster_iterator_truncate (fs_fat_ops cursor_ops) it = (Inr (of_nat (length cs)), it') \<and>
      vol.fat.slice.it_holds fs ?ft None ?bt it'" if "vol.fat.slice.it_holds fs ?ft (Some c) b it" for it
    unfolding fs_fat_ops_def by (rule vol.fat.slice.iterator_truncate_eq [OF that assms(2,5,6) r]) blast+
  have "\<exists>fs' i. free_cluster_chain cursor_ops c fs = (Inr (), fs'\<lparr>fs_info := i\<rparr>) \<and> fat_frame fs fs' \<and>
      volume (fs'\<lparr>fs_info := i\<rparr>) ?bf \<and> counters_exact (fs'\<lparr>fs_info := i\<rparr>) ?bf"
    unfolding free_cluster_chain_def
    by (rule chain_operation_finish [OF assms(1-4) _ len(1) lf(1) nf(1)]) (rule fi)
  moreover have "\<exists>fs' i. truncate_cluster_chain cursor_ops c fs = (Inr (), fs'\<lparr>fs_info := i\<rparr>) \<and> fat_frame fs fs' \<and>
      volume (fs'\<lparr>fs_info := i\<rparr>) ?bt \<and> counters_exact (fs'\<lparr>fs_info := i\<rparr>) ?bt"
    unfolding truncate_cluster_chain_def
    by (rule chain_operation_finish [OF assms(1-4) _ len(2) lf(2) nf(2)]) (rule ti)
  ultimately show ?thesis using fe te by blast
qed

section \<open>Allocating a cluster\<close>

text \<open>The clusters lie behind the FAT and on the disk.\<close>

definition volume_data :: "cursor file_system \<Rightarrow> bool" where
  "volume_data fs \<longleftrightarrow> (\<forall>bgn sz mirrors c. fat_at fs bgn sz mirrors \<and> 2 \<le> unat c \<and> unat c < unat (fs_total_clusters fs) + 2 \<longrightarrow>
     (\<exists>off. offset_from_cluster fs c = Inr off \<and> bgn + mirrors * sz \<le> unat off \<and>
        unat off + unat (cluster_size fs) \<le> length (disk_bytes fs)))"

text \<open>Writing behind the FAT.\<close>

lemma volume_write:
  assumes "volume fs b" "fat_at fs bgn sz mirrors" "bgn + mirrors * sz \<le> off"
    "cur_inner d = splice off bs (disk_bytes fs)" "off + length bs \<le> length (disk_bytes fs)"
  shows "volume (fs\<lparr>fs_disk := d\<rparr>) b"
proof -
  from assms(1) fat_at_unique [OF assms(2)] have g: "region_lo \<le> bgn" "1 \<le> mirrors" "sz < 2 ^ 63"
    "\<forall>j < mirrors. window (bgn + j * sz) sz (disk_bytes fs) = b" unfolding volume_def by blast+
  have l: "length (cur_inner d) = length (disk_bytes fs)" using assms(4,5) by simp
  have w: "window (bgn + j * sz) sz (cur_inner d) = b" if "j < mirrors" for j
  proof -
    have "bgn + j * sz + sz \<le> off" using mult_le_mono1 [of "j + 1" mirrors sz] that assms(3) by simp
    then show ?thesis using g(4) that assms(5) window_splice_disjoint [of off bs "disk_bytes fs" "bgn + j * sz" sz]
      by (simp add: assms(4))
  qed
  have "flag_offset (fs_fat_type fs) < off" using flag_offset_less [of "fs_fat_type fs"] g(1) assms(3) by linarith
  then have "cur_inner d ! flag_offset (fs_fat_type fs) = disk_bytes fs ! flag_offset (fs_fat_type fs)"
    using assms(5) by (simp add: assms(4) nth_splice)
  with w g(1-3) l assms(1-3,5) fat_at_bpb [of "fs\<lparr>fs_disk := d\<rparr>" fs] show ?thesis
    unfolding volume_def by (simp, intro exI [of _ bgn] exI [of _ sz] exI [of _ mirrors]) simp
qed

definition zero_step :: "cursor file_system \<Rightarrow> bool \<Rightarrow> u32 \<Rightarrow> (cursor file_system, unit) st" where
  "zero_step fs zero c =
     (if zero
      then sbind (slift (offset_from_cluster fs c)) (\<lambda>offset.
           sbind (on_disk (io_seek cursor_ops (Start (unat offset)))) (\<lambda>_.
           on_disk (write_zeros cursor_ops (unat (cluster_size fs)))))
      else sret ())"

lemma zero_step_eq:
  assumes "volume fs' b" "fat_frame fs fs'" "offset_from_cluster fs c = Inr off" "fat_at fs bgn sz mirrors"
    "bgn + mirrors * sz \<le> unat off" "unat off + unat (cluster_size fs) \<le> length (disk_bytes fs)"
  shows "\<exists>d. zero_step fs zero c fs' = (Inr (), fs'\<lparr>fs_disk := d\<rparr>) \<and> volume (fs'\<lparr>fs_disk := d\<rparr>) b \<and>
    cur_inner d = (if zero then splice (unat off) (replicate (unat (cluster_size fs)) 0) (disk_bytes fs') else disk_bytes fs')"
proof (cases zero)
  case False
  with assms(1) show ?thesis by (intro exI [of _ "fs_disk fs'"]) (simp add: zero_step_def sret_def)
next
  case True
  let ?z = "replicate (unat (cluster_size fs)) 0 :: u8 list"
  let ?c = "(fs_disk fs')\<lparr>cur_pos := unat off\<rparr>"
  have l: "length (disk_bytes fs') = length (disk_bytes fs)" using assms(2) by (simp add: fat_frame_def)
  obtain d where d: "write_zeros cursor_ops (unat (cluster_size fs)) ?c = (Inr (), d)"
    "cur_inner d = splice (unat off) ?z (disk_bytes fs')"
    using cursor_emits [OF cursor.emits_write_zeros, of ?c "unat (cluster_size fs)"] assms(6) l by auto
  have "zero_step fs zero c fs' = (Inr (), fs'\<lparr>fs_disk := d\<rparr>)"
    using True d(1) assms(3) by (simp add: zero_step_def sbind_def on_disk_def cursor_ops_def cursor_seek_def slift_def)
  moreover have "volume (fs'\<lparr>fs_disk := d\<rparr>) b"
    by (rule volume_write [OF assms(1) _ assms(5) d(2)])
      (use assms(4,6) l fat_at_bpb [OF fat_frame_static(2) [OF assms(2)]] in simp_all)
  ultimately show ?thesis using True d(2) by auto
qed

lemma alloc_dirty:
  assumes "volume fs b" "volume fs' b'" "fat_frame fs fs'" "b' \<noteq> b"
  shows "fl_dirty (fs_current_status_flags fs')"
proof -
  from assms(1) obtain bgn sz mirrors where g: "fat_at fs bgn sz mirrors" "region_lo \<le> bgn" "1 \<le> mirrors"
    "\<forall>j < mirrors. window (bgn + j * sz) sz (disk_bytes fs) = b" unfolding volume_def by blast
  have "fat_at fs' bgn sz mirrors" using g(1) fat_at_bpb [OF fat_frame_static(2) [OF assms(3)]] by simp
  then have "\<forall>j < mirrors. window (bgn + j * sz) sz (disk_bytes fs') = b'"
    using assms(2) fat_at_unique unfolding volume_def by blast
  then have "window bgn sz (disk_bytes fs') \<noteq> window bgn sz (disk_bytes fs)" 
    using g(3,4) assms(4) spec [of _ 0] by (metis add_0_right mult_0 not_one_le_zero neq0_conv)
  moreover have "window bgn sz x = window (bgn - region_lo) sz (drop region_lo x)" for x :: "u8 list"
    using g(2) by (simp add: window_def)
  ultimately have "drop region_lo (disk_bytes fs') \<noteq> drop region_lo (disk_bytes fs)" by metis
  then show ?thesis using assms(3) by (simp add: fat_frame_def)
qed

lemma alloc_finish:
  assumes "volume fs1 b'" "fat_frame fs fs1" "counters_exact fs b" "N = unat (fs_total_clusters fs) + 2"
    "fat_fits (fs_fat_type fs) b N" "fat_fits (fs_fat_type fs) b' N" "2 \<le> unat c" "unat c < N"
    "num_free (fs_fat_type fs) b 2 N = num_free (fs_fat_type fs) b' 2 N + 1" "volume_data fs"
  shows "\<exists>off d i. offset_from_cluster fs c = Inr off \<and>
    sbind (zero_step fs zero c) (\<lambda>_. sbind (slift (cadd c 1)) (\<lambda>next.
      sbind (on_fs_info (\<lambda>i. Inr (set_next_free_cluster next i))) (\<lambda>_.
      sbind (on_fs_info (add_free_clusters (- 1))) (\<lambda>_. sret c)))) fs1 = (Inr c, fs1\<lparr>fs_disk := d, fs_info := i\<rparr>) \<and>
    volume (fs1\<lparr>fs_disk := d, fs_info := i\<rparr>) b' \<and> counters_exact (fs1\<lparr>fs_disk := d, fs_info := i\<rparr>) b' \<and>
    fi_next_free_cluster i = Some (c + 1) \<and>
    cur_inner d = (if zero then splice (unat off) (replicate (unat (cluster_size fs)) 0) (disk_bytes fs1) else disk_bytes fs1)"
proof -
  let ?i = "set_next_free_cluster (c + 1) (fs_info fs)"
  have "N < 2 ^ 31" using assms(5) by (cases "fs_fat_type fs") (auto simp: fat_fits_def fat_limit_def)
  with assms(8) have c: "unat (c + 1) = unat c + 1" "cadd c 1 = Inr (c + 1)" by (simp_all add: unat_add_noof cadd_Inr)
  from assms(1) obtain bgn sz mirrors where "fat_at fs1 bgn sz mirrors" unfolding volume_def by blast
  then have g: "fat_at fs bgn sz mirrors" using fat_at_bpb [OF fat_frame_static(2) [OF assms(2)]] by simp
  with assms(4,7,8,10) obtain off where off: "offset_from_cluster fs c = Inr off" "bgn + mirrors * sz \<le> unat off"
    "unat off + unat (cluster_size fs) \<le> length (disk_bytes fs)" unfolding volume_data_def by blast
  obtain d where d: "zero_step fs zero c fs1 = (Inr (), fs1\<lparr>fs_disk := d\<rparr>)" "volume (fs1\<lparr>fs_disk := d\<rparr>) b'"
    "cur_inner d = (if zero then splice (unat off) (replicate (unat (cluster_size fs)) 0) (disk_bytes fs1) else disk_bytes fs1)"
    using zero_step_eq [OF assms(1,2) off(1) g off(2,3)] by blast
  let ?f2 = "fs1\<lparr>fs_disk := d, fs_info := ?i\<rparr>"
  have "counters_exact (fs\<lparr>fs_info := ?i\<rparr>) b"
    using assms(3,7) c by (simp add: counters_exact_def set_next_free_cluster_def)
  then obtain i where i: "on_fs_info (add_free_clusters (- 1)) ?f2 = (Inr (), ?f2\<lparr>fs_info := i\<rparr>)"
    "counters_exact (?f2\<lparr>fs_info := i\<rparr>) b'" "fi_next_free_cluster i = fi_next_free_cluster ?i"
    using counters_step [of "fs\<lparr>fs_info := ?i\<rparr>" b ?f2 N b' "- 1"] fat_frame_static [OF assms(2)] assms(4-6,9) by auto
  have "fi_next_free_cluster i = Some (c + 1)" using i(3) by (simp add: set_next_free_cluster_def)
  moreover have "on_fs_info (\<lambda>i. Inr (set_next_free_cluster (c + 1) i)) (fs1\<lparr>fs_disk := d\<rparr>) = (Inr (), ?f2)"
    using fat_frame_static(3) [OF assms(2)] by (simp add: on_fs_info_def)
  ultimately show ?thesis
    using off(1) d i c by (intro exI [of _ off] exI [of _ d] exI [of _ i]) (simp add: sbind_def slift_def sret_def)
qed

text \<open>C4: on a mounted volume \<open>alloc_cluster\<close> returns a free cluster, links it in every copy of the FAT, zeroes
  exactly its bytes when asked to, keeps the free counter exact, moves the search hint behind the cluster,
  marks the volume dirty on the disk and leaves the rest of the disk alone; it fails only when no cluster
  is free, and then the volume is unchanged.\<close>

theorem fs_alloc_cluster_bookkeeping:
  assumes "volume fs b" "fat_fits (fs_fat_type fs) b N" "N = unat (fs_total_clusters fs) + 2" "2 < N"
    and "counters_exact fs b" "volume_data fs"
    and "\<And>q. prev = Some q \<Longrightarrow> unat q < N \<and> fat_entry (fs_fat_type fs) b (unat q) \<noteq> Free"
  shows "wp (fs_alloc_cluster cursor_ops prev zero)
    (\<lambda>c fs'. \<exists>b' fs1 off d i. volume fs' b' \<and> counters_exact fs' b' \<and> alloc_entries (fs_fat_type fs) N prev c b b' \<and>
       2 \<le> unat c \<and> unat c < N \<and> fat_entry (fs_fat_type fs) b (unat c) = Free \<and>
       fi_next_free_cluster (fs_info fs') = Some (c + 1) \<and> fl_dirty (fs_current_status_flags fs') \<and>
       fat_frame fs fs1 \<and> fs' = fs1\<lparr>fs_disk := d, fs_info := i\<rparr> \<and> offset_from_cluster fs c = Inr off \<and>
       disk_bytes fs' = (if zero then splice (unat off) (replicate (unat (cluster_size fs)) 0) (disk_bytes fs1)
                         else disk_bytes fs1))
    (\<lambda>e fs'. e = Io Other \<and> volume fs' b \<and> fat_frame fs fs' \<and> num_free (fs_fat_type fs) b 2 N = 0) fs"
proof -
  let ?ft = "fs_fat_type fs" and ?t = "fs_total_clusters fs"
  let ?al = "alloc_cluster (fs_fat_ops cursor_ops) ?ft prev (fi_next_free_cluster (fs_info fs)) ?t"
  have N: "fat_fits ?ft b (unat ?t + 2)" "0 < unat ?t" "N < 2 ^ 31"
    using assms(2-4) by (auto simp: fat_fits_def fat_limit_def split: fat_type.splits)
  obtain bgn sz mirrors where g: "fat_at fs bgn sz mirrors" using assms(1) by (auto simp: volume_def)
  have al: "wp (with_fat_slice ?al)
      (\<lambda>c fs1. \<exists>b'. volume fs1 b' \<and> fat_frame fs fs1 \<and> 2 \<le> unat c \<and> unat c < N \<and> fat_entry ?ft b (unat c) = Free \<and>
         alloc_entries ?ft N prev c b b')
      (\<lambda>e fs1. \<exists>b'. volume fs1 b' \<and> fat_frame fs fs1 \<and> b' = b \<and> e = Io Other \<and> num_free ?ft b 2 N = 0) fs"
  proof (rule with_fat_slice_wp [OF assms(1)])
    fix d assume d: "vol.fat.slice.holds fs b 0 d"
    show "wp ?al (\<lambda>c d'. \<exists>b' p. vol.fat.slice.holds fs b' p d' \<and> 2 \<le> unat c \<and> unat c < N \<and>
          fat_entry ?ft b (unat c) = Free \<and> alloc_entries ?ft N prev c b b')
        (\<lambda>e d'. \<exists>b' p. vol.fat.slice.holds fs b' p d' \<and> b' = b \<and> e = Io Other \<and> num_free ?ft b 2 N = 0) d"
      unfolding fs_fat_ops_def
      by (rule wp_mono [OF vol.fat.slice.alloc_cluster_entries_wp [OF d N(1,2)]])
        (use assms(3,5,7) in \<open>auto simp: counters_exact_def\<close>)
  qed
  show ?thesis
  proof (cases "with_fat_slice ?al fs")
    case (Pair r fs1)
    show ?thesis
    proof (cases r)
      case (Inl e)
      then show ?thesis using al Pair
        by (auto simp: wp_def fs_alloc_cluster_def sbind_def Let_def)
    next
      case (Inr c)
      with al Pair obtain b' where b': "volume fs1 b'" "fat_frame fs fs1" "2 \<le> unat c" "unat c < N"
        "fat_entry ?ft b (unat c) = Free" "alloc_entries ?ft N prev c b b'" by (auto simp: wp_def)
      have f: "fat_fits ?ft b' N" using assms(2) b'(6) fat_fits_length [of b' b] by (simp add: alloc_entries_def)
      have nf: "num_free ?ft b 2 N = num_free ?ft b' 2 N + 1"
        by (rule num_free_alloc [OF b'(6,3,4,5)]) (use N(3) assms(7) in auto)
      then have "b' \<noteq> b" by auto
      then have dirty: "fl_dirty (fs_current_status_flags fs1)" by (rule alloc_dirty [OF assms(1) b'(1,2)])
      obtain off d i where fin: "offset_from_cluster fs c = Inr off"
        "sbind (zero_step fs zero c) (\<lambda>_. sbind (slift (cadd c 1)) (\<lambda>next.
          sbind (on_fs_info (\<lambda>i. Inr (set_next_free_cluster next i))) (\<lambda>_.
          sbind (on_fs_info (add_free_clusters (- 1))) (\<lambda>_. sret c)))) fs1 = (Inr c, fs1\<lparr>fs_disk := d, fs_info := i\<rparr>)"
        "volume (fs1\<lparr>fs_disk := d, fs_info := i\<rparr>) b'" "counters_exact (fs1\<lparr>fs_disk := d, fs_info := i\<rparr>) b'"
        "fi_next_free_cluster i = Some (c + 1)"
        "cur_inner d = (if zero then splice (unat off) (replicate (unat (cluster_size fs)) 0) (disk_bytes fs1) else disk_bytes fs1)"
        using alloc_finish [OF b'(1,2) assms(5,3,2) f b'(3,4) nf assms(6), of zero] by blast
      have eq: "fs_alloc_cluster cursor_ops prev zero fs = (Inr c, fs1\<lparr>fs_disk := d, fs_info := i\<rparr>)"
        using Pair Inr fin(2) unfolding fs_alloc_cluster_def zero_step_def Let_def by (simp add: sbind_Inr)
      show ?thesis
        by (rule wp_no_errI [where m = "fs_alloc_cluster cursor_ops prev zero", OF eq], intro exI [of _ b'] exI [of _ fs1] exI [of _ off] exI [of _ d] exI [of _ i])
          (use b' dirty fin in simp)
    qed
  qed
qed

section \<open>A volume in memory\<close>

definition demo_fat :: "u8 list" where
  "demo_fat = [0xF8, 0xFF, 0xFF, 0xFF, 3, 0, 0xFF, 0xFF, 0, 0, 0, 0] @ replicate 500 0"

definition demo_disk :: "u8 list" where
  "demo_disk = replicate 512 0 @ demo_fat @ demo_fat @ replicate 2048 7"

definition demo_fs :: "cursor file_system" where
  "demo_fs =
     \<lparr>fs_disk = \<lparr>cur_inner = demo_disk, cur_pos = 0\<rparr>, fs_options = fs_options_new, fs_fat_type = Fat16,
      fs_bpb = bpb_default\<lparr>bytes_per_sector := 512, sectors_per_cluster := 1, bpb_reserved_sectors := 1, bpb_fats := 2,
        sectors_per_fat_16 := 1, total_sectors_16 := 7\<rparr>,
      fs_first_data_sector = 3, fs_root_dir_sectors = 0, fs_total_clusters = 4,
      fs_info = \<lparr>fi_free_cluster_count = Some 2, fi_next_free_cluster = Some 5, fi_dirty = False\<rparr>,
      fs_current_status_flags = \<lparr>fl_dirty = False, fl_io_error = False\<rparr>\<rparr>"

lemma length_demo [simp]: "length demo_fat = 512" "length demo_disk = 3584"
  by (simp_all add: demo_fat_def demo_disk_def)

lemma demo_fs_simps [simp]:
  "fs_fat_type demo_fs = Fat16" "fs_total_clusters demo_fs = 4" "disk_bytes demo_fs = demo_disk"
  "fs_info demo_fs = \<lparr>fi_free_cluster_count = Some 2, fi_next_free_cluster = Some 5, fi_dirty = False\<rparr>"
  by (simp_all add: demo_fs_def)

lemma demo_fat_at: "fat_at demo_fs 512 512 2"
  by (simp add: fat_at_def fs_fat_slice_def bpb_fat_slice_def demo_fs_def mirroring_enabled_def bpb_default_def
      reserved_sectors_def sectors_per_fat_def bpb_is_fat32_def disk_slice_from_sectors_def bytes_from_sectors_def)

lemma demo_volume: "volume demo_fs demo_fat"
proof -
  have "window (512 + j * 512) 512 demo_disk = demo_fat" if "j < 2" for j
    using that by (cases "j = 0") (auto simp: demo_disk_def window_def less_2_cases_iff)
  moreover have "demo_disk ! 0x25 = 0" by (simp add: demo_disk_def nth_append)
  moreover have "fs_current_status_flags demo_fs = \<lparr>fl_dirty = False, fl_io_error = False\<rparr>" by (simp add: demo_fs_def)
  ultimately show ?thesis unfolding volume_def using demo_fat_at
    by (simp add: region_lo_def flag_offset_def status_flags_decode_def)
      (intro exI [of _ "512 :: nat"] exI [of _ "2 :: nat"], simp)
qed

lemma demo_fat_fits: "fat_fits Fat16 demo_fat 6"
  by (simp add: fat_fits_def fat_limit_def)

lemma demo_fat_entries:
  "fat_entry Fat16 demo_fat 2 = Data 3" "fat_entry Fat16 demo_fat 3 = EndOfChain"
  "fat_entry Fat16 demo_fat 4 = Free" "fat_entry Fat16 demo_fat 5 = Free"
  by (simp_all add: fat_entry_def fat_raw_def demo_fat_def window_def of_le16_def fat16_decode_def)

lemma demo_counters: "counters_exact demo_fs demo_fat"
  by (simp add: counters_exact_def num_free_def upt_conv_Cons demo_fat_entries)

lemma demo_volume_data: "volume_data demo_fs"
proof -
  have "\<exists>off. offset_from_cluster demo_fs c = Inr off \<and> 1536 \<le> unat off \<and> unat off + unat (cluster_size demo_fs) \<le> 3584"
    if c: "2 \<le> unat c" "unat c < 6" for c
  proof -
    have "c \<in> {2, 3, 4, 5}" using c by (auto simp: word_unat_eq_iff)
    then show ?thesis
      by (auto simp: offset_from_cluster_def sector_from_cluster_def sectors_from_clusters_def offset_from_sector_def
          bytes_from_sectors_def cluster_size_def bpb_cluster_size_def demo_fs_def bpb_default_def csub_def cmul_def cadd_def
          RESERVED_FAT_ENTRIES_def)
  qed
  then show ?thesis unfolding volume_data_def using fat_at_unique [OF demo_fat_at] by fastforce
qed

theorem chain_operations_keep_counters_witness:
  "\<exists>b' fs' i. free_cluster_chain cursor_ops 2 demo_fs = (Inr (), fs'\<lparr>fs_info := i\<rparr>) \<and>
    counters_exact (fs'\<lparr>fs_info := i\<rparr>) b' \<and> volume (fs'\<lparr>fs_info := i\<rparr>) b' \<and>
    fat_entry Fat16 b' 2 = Free \<and> fat_entry Fat16 b' 3 = Free"
proof -
  have "(\<exists>b' fs' i. free_cluster_chain cursor_ops 2 demo_fs = (Inr (), fs'\<lparr>fs_info := i\<rparr>) \<and> fat_frame demo_fs fs' \<and>
      volume (fs'\<lparr>fs_info := i\<rparr>) b' \<and> counters_exact (fs'\<lparr>fs_info := i\<rparr>) b' \<and>
      free_entries (fs_fat_type demo_fs) 6 [2, 3] demo_fat b') \<and>
    (\<exists>b' fs' i. truncate_cluster_chain cursor_ops 2 demo_fs = (Inr (), fs'\<lparr>fs_info := i\<rparr>) \<and> fat_frame demo_fs fs' \<and>
      volume (fs'\<lparr>fs_info := i\<rparr>) b' \<and> counters_exact (fs'\<lparr>fs_info := i\<rparr>) b' \<and>
      truncate_entries (fs_fat_type demo_fs) 6 2 [3] demo_fat b')"
    by (rule chain_operations_keep_counters [OF demo_volume])
      (use demo_fat_fits demo_counters in \<open>auto simp: demo_fat_entries\<close>)
  then show ?thesis by (fastforce simp: free_entries_def)
qed

theorem fs_alloc_cluster_bookkeeping_witness:
  "\<exists>c fs' b'. fs_alloc_cluster cursor_ops (Some 3) True demo_fs = (Inr c, fs') \<and> volume fs' b' \<and> counters_exact fs' b' \<and>
    fat_entry Fat16 b' 3 = Data c \<and> fat_entry Fat16 b' (unat c) = EndOfChain \<and> fl_dirty (fs_current_status_flags fs')"
proof -
  have nf: "num_free Fat16 demo_fat 2 6 = 2" by (simp add: num_free_def upt_conv_Cons demo_fat_entries)
  have "wp (fs_alloc_cluster cursor_ops (Some 3) True)
    (\<lambda>c fs'. \<exists>b' fs1 off d i. volume fs' b' \<and> counters_exact fs' b' \<and>
       alloc_entries (fs_fat_type demo_fs) 6 (Some 3) c demo_fat b' \<and>
       2 \<le> unat c \<and> unat c < 6 \<and> fat_entry (fs_fat_type demo_fs) demo_fat (unat c) = Free \<and>
       fi_next_free_cluster (fs_info fs') = Some (c + 1) \<and> fl_dirty (fs_current_status_flags fs') \<and>
       fat_frame demo_fs fs1 \<and> fs' = fs1\<lparr>fs_disk := d, fs_info := i\<rparr> \<and> offset_from_cluster demo_fs c = Inr off \<and>
       disk_bytes fs' = (if True then splice (unat off) (replicate (unat (cluster_size demo_fs)) 0) (disk_bytes fs1)
                         else disk_bytes fs1))
    (\<lambda>e fs'. e = Io Other \<and> volume fs' demo_fat \<and> fat_frame demo_fs fs' \<and> num_free (fs_fat_type demo_fs) demo_fat 2 6 = 0) demo_fs"
    by (rule fs_alloc_cluster_bookkeeping [OF demo_volume])
      (use demo_fat_fits demo_counters demo_volume_data in \<open>auto simp: demo_fat_entries\<close>)
  then obtain c fs' b' where h: "fs_alloc_cluster cursor_ops (Some 3) True demo_fs = (Inr c, fs')" "volume fs' b'"
    "counters_exact fs' b'" "alloc_entries Fat16 6 (Some 3) c demo_fat b'" "unat c < 6"
    "fat_entry Fat16 demo_fat (unat c) = Free" "fl_dirty (fs_current_status_flags fs')"
    using nf by (auto simp: wp_def split: prod.splits sum.splits)
  moreover have "fat_entry Fat16 b' 3 = Data c" "fat_entry Fat16 b' (unat c) = EndOfChain"
    using h(4-6) by (auto simp: alloc_entries_def demo_fat_entries)
  ultimately show ?thesis by blast
qed

section \<open>The FSInfo sector on the disk\<close>

definition fs_info_bytes :: "fsinfo \<Rightarrow> u8 list" where
  "fs_info_bytes i =
     le32 LEAD_SIG @ replicate 480 0 @ le32 STRUC_SIG @ le32 (unwrap_or (fi_free_cluster_count i) 0xFFFFFFFF) @
     le32 (unwrap_or (fi_next_free_cluster i) 0xFFFFFFFF) @ replicate 12 0 @ le32 TRAIL_SIG"

text \<open>The values that stand for \<open>None\<close> or are reserved do not occur.\<close>

definition fs_info_wf :: "fsinfo \<Rightarrow> bool" where
  "fs_info_wf i \<longleftrightarrow> fi_free_cluster_count i \<noteq> Some 0xFFFFFFFF \<and>
     (\<forall>n. fi_next_free_cluster i = Some n \<longrightarrow> n \<noteq> 0xFFFFFFFF \<and> n \<noteq> 0 \<and> n \<noteq> 1)"

lemma length_fs_info_bytes [simp]: "length (fs_info_bytes i) = 512"
  by (simp add: fs_info_bytes_def)

context byte_stream
begin

lemma emits_fs_info: "emits (fs_info_serialize ops i) (fs_info_bytes i)"
  unfolding fs_info_serialize_def fs_info_bytes_def by (intro emits_bind emits_ints emits_write_all)

lemma parses_check: "parses m bs v \<Longrightarrow> parses (if x \<noteq> x then sfail e else m) bs v"
  by simp

lemma parses_fs_info:
  assumes "fs_info_wf i"
  shows "parses (fs_info_deserialize ops) (fs_info_bytes i) (i\<lparr>fi_dirty := False\<rparr>)"
proof -
  let ?c = "unwrap_or (fi_free_cluster_count i) 0xFFFFFFFF" and ?n = "unwrap_or (fi_next_free_cluster i) 0xFFFFFFFF"
  have v: "(if ?c = 0xFFFFFFFF then None else Some ?c) = fi_free_cluster_count i"
    "(if ?n = 0xFFFFFFFF \<or> ?n = 0 \<or> ?n = 1 then None else Some ?n) = fi_next_free_cluster i"
    using assms by (auto simp: fs_info_wf_def unwrap_or_def split: option.splits)
  have "parses (fs_info_deserialize ops) (le32 LEAD_SIG @ replicate 480 0 @ le32 STRUC_SIG @ le32 ?c @ le32 ?n @
      replicate 12 0 @ le32 TRAIL_SIG @ []) (i\<lparr>fi_dirty := False\<rparr>)"
    unfolding fs_info_deserialize_def Let_def
    by ((rule parses_bind parses_ints parses_check parses_read_exact length_replicate parses_reteq)+) (use v in simp)
  then show ?thesis by (simp only: fs_info_bytes_def append_Nil2)
qed

end

lemma flush_fs_info_eq:
  assumes "fs_fat_type fs = Fat32" "fi_dirty (fs_info fs)"
    and "p = unat (offset_from_sector fs (fs_info_sector (fs_bpb fs)))" "p + 512 \<le> length (disk_bytes fs)"
  shows "flush_fs_info cursor_ops fs =
    (Inr (), fs\<lparr>fs_disk := \<lparr>cur_inner = splice p (fs_info_bytes (fs_info fs)) (disk_bytes fs), cur_pos = p + 512\<rparr>,
       fs_info := (fs_info fs)\<lparr>fi_dirty := False\<rparr>\<rparr>)"
proof -
  have "fs_info_serialize cursor_ops (fs_info fs) ((fs_disk fs)\<lparr>cur_pos := p\<rparr>) =
      (Inr (), \<lparr>cur_inner = splice p (fs_info_bytes (fs_info fs)) (disk_bytes fs), cur_pos = p + 512\<rparr>)"
    using cursor_emits [OF cursor.emits_fs_info [of "fs_info fs"], of "(fs_disk fs)\<lparr>cur_pos := p\<rparr>"] assms(4) by simp
  then show ?thesis
    using assms(1-3) unfolding fs_info_sector_def
    by (simp add: flush_fs_info_def sbind_def on_disk_def on_fs_info_def cursor_ops_def cursor_seek_def)
qed

text \<open>C38: unmounting writes changed FSInfo counters to their sector, where mounting reads them back, restores the
  dirty flag the volume had when it was mounted, and changes no other byte of the disk.\<close>

theorem unmount_persists_counters:
  assumes "volume fs b" "fs_fat_type fs = Fat32" "fi_dirty (fs_info fs)" "fs_info_wf (fs_info fs)"
    and "p = unat (offset_from_sector fs (fs_info_sector (fs_bpb fs)))" "512 \<le> p" "p + 512 \<le> length (disk_bytes fs)"
  shows "\<exists>fs'. unmount_internal cursor_ops fs = (Inr (), fs') \<and>
    fs_info_deserialize cursor_ops \<lparr>cur_inner = disk_bytes fs', cur_pos = p\<rparr> =
      (Inr ((fs_info fs)\<lparr>fi_dirty := False\<rparr>), \<lparr>cur_inner = disk_bytes fs', cur_pos = p + 512\<rparr>) \<and>
    fl_dirty (status_flags_decode (disk_bytes fs' ! 0x41)) = fl_dirty (bpb_status_flags (fs_bpb fs)) \<and>
    length (disk_bytes fs') = length (disk_bytes fs) \<and>
    (\<forall>i < length (disk_bytes fs). i \<noteq> 0x41 \<and> (i < p \<or> p + 512 \<le> i) \<longrightarrow> disk_bytes fs' ! i = disk_bytes fs ! i)"
proof -
  let ?b1 = "splice p (fs_info_bytes (fs_info fs)) (disk_bytes fs)"
  define f1 where "f1 = fs\<lparr>fs_disk := \<lparr>cur_inner = ?b1, cur_pos = p + 512\<rparr>, fs_info := (fs_info fs)\<lparr>fi_dirty := False\<rparr>\<rparr>"
  have fl: "flush_fs_info cursor_ops fs = (Inr (), f1)" unfolding f1_def by (rule flush_fs_info_eq [OF assms(2,3,5,7)])
  have l: "length ?b1 = length (disk_bytes fs)" "disk_bytes f1 = ?b1" using assms(7) by (simp_all add: f1_def)
  have "?b1 ! 0x41 = disk_bytes fs ! 0x41" using assms(6,7) by (simp add: nth_splice)
  then have "vol.fs_synced f1 f1" using assms(1,2) l by (simp add: vol.fs_synced_def f1_def volume_def flag_offset_def)
  from vol.set_dirty_flag_step [OF this, of False] obtain fs' where
    fs': "set_dirty_flag cursor_ops False f1 = (Inr (), fs')" "vol.fs_synced f1 fs'" "vol.fs_view fs' = vol.fs_view f1"
      "fl_dirty (fs_current_status_flags fs') = fl_dirty (bpb_status_flags (fs_bpb fs))" by (auto simp: f1_def)
  have l': "length (disk_bytes fs') = length (disk_bytes fs)" using fs'(2) l by (simp add: vol.fs_synced_def)
  have hi: "drop region_lo (disk_bytes fs') = drop region_lo ?b1" using fs'(3) l by (simp add: vol.fs_view_def)
  have nth: "disk_bytes fs' ! i = ?b1 ! i" if "i < length (disk_bytes fs)" "i \<noteq> 0x41" for i
  proof (cases "i < region_lo")
    case True
    then show ?thesis using fs'(2) that l assms(2) by (simp add: vol.fs_synced_def f1_def flag_offset_def)
  next
    case False
    then show ?thesis
      using arg_cong [OF hi, of "\<lambda>xs. xs ! (i - region_lo)"] that l l' by (simp add: region_lo_def)
  qed
  have w: "window p 512 (disk_bytes fs') = fs_info_bytes (fs_info fs)"
  proof -
    have "window p 512 x = window (p - region_lo) 512 (drop region_lo x)" for x :: "u8 list"
      using assms(6) by (simp add: window_def region_lo_def)
    then have "window p 512 (disk_bytes fs') = window p 512 ?b1" using hi by simp
    then show ?thesis using assms(7) window_splice_same [of p "fs_info_bytes (fs_info fs)" "disk_bytes fs"] by simp
  qed
  have "fl_dirty (status_flags_decode (disk_bytes fs' ! 0x41)) = fl_dirty (bpb_status_flags (fs_bpb fs))"
    using fs'(2,4) assms(2) by (simp add: vol.fs_synced_def f1_def flag_offset_def del: status_flags_dirty)
  moreover have "unmount_internal cursor_ops fs = (Inr (), fs')" using fl fs'(1) by (simp add: unmount_internal_def sbind_def)
  moreover have "fs_info_deserialize cursor_ops \<lparr>cur_inner = disk_bytes fs', cur_pos = p\<rparr> =
      (Inr ((fs_info fs)\<lparr>fi_dirty := False\<rparr>), \<lparr>cur_inner = disk_bytes fs', cur_pos = p + 512\<rparr>)"
    using cursor_parses [OF cursor.parses_fs_info [OF assms(4)], of p "disk_bytes fs'"] w l' assms(7) by simp
  moreover have "disk_bytes fs' ! i = disk_bytes fs ! i"
    if "i < length (disk_bytes fs)" "i \<noteq> 0x41 \<and> (i < p \<or> p + 512 \<le> i)" for i
    using nth [OF that(1)] that assms(7) by (auto simp: nth_splice)
  ultimately show ?thesis using l' by blast
qed

definition demo32_fs :: "cursor file_system" where
  "demo32_fs = demo_fs\<lparr>fs_disk := \<lparr>cur_inner = replicate 512 0 @ demo_disk, cur_pos = 0\<rparr>, fs_fat_type := Fat32,
     fs_bpb := bpb_default\<lparr>bytes_per_sector := 512, sectors_per_cluster := 1, bpb_reserved_sectors := 2, bpb_fats := 2,
       sectors_per_fat_32 := 1, total_sectors_16 := 8, bpb_fs_info_sector := 1\<rparr>,
     fs_info := \<lparr>fi_free_cluster_count = Some 2, fi_next_free_cluster = Some 5, fi_dirty = True\<rparr>\<rparr>"

lemma demo32_fat_at: "fat_at demo32_fs 1024 512 2"
  by (simp add: fat_at_def fs_fat_slice_def bpb_fat_slice_def demo32_fs_def mirroring_enabled_def bpb_default_def
      reserved_sectors_def sectors_per_fat_def bpb_is_fat32_def disk_slice_from_sectors_def bytes_from_sectors_def)

lemma demo32_volume: "volume demo32_fs demo_fat"
proof -
  have "window (1024 + j * 512) 512 (disk_bytes demo32_fs) = demo_fat" if "j < 2" for j
    using that by (cases "j = 0") (auto simp: demo32_fs_def demo_disk_def window_def less_2_cases_iff)
  moreover have "disk_bytes demo32_fs ! 0x41 = 0" by (simp add: demo32_fs_def nth_append)
  moreover have "fs_current_status_flags demo32_fs = \<lparr>fl_dirty = False, fl_io_error = False\<rparr>"
    "fs_fat_type demo32_fs = Fat32" "length (disk_bytes demo32_fs) = 4096"
    by (simp_all add: demo32_fs_def demo_fs_def)
  ultimately show ?thesis unfolding volume_def using demo32_fat_at
    by (simp add: region_lo_def flag_offset_def status_flags_decode_def)
      (intro exI [of _ "1024 :: nat"] exI [of _ "512 :: nat"] exI [of _ "2 :: nat"], simp)
qed

theorem unmount_persists_counters_witness:
  "\<exists>fs'. unmount_internal cursor_ops demo32_fs = (Inr (), fs') \<and>
    fs_info_deserialize cursor_ops \<lparr>cur_inner = disk_bytes fs', cur_pos = 512\<rparr> =
      (Inr \<lparr>fi_free_cluster_count = Some 2, fi_next_free_cluster = Some 5, fi_dirty = False\<rparr>,
       \<lparr>cur_inner = disk_bytes fs', cur_pos = 1024\<rparr>)"
proof -
  have "fs_info demo32_fs = \<lparr>fi_free_cluster_count = Some 2, fi_next_free_cluster = Some 5, fi_dirty = True\<rparr>"
    "fs_fat_type demo32_fs = Fat32" "unat (offset_from_sector demo32_fs (fs_info_sector (fs_bpb demo32_fs))) = 512"
    "length (disk_bytes demo32_fs) = 4096"
    by (simp_all add: demo32_fs_def offset_from_sector_def bytes_from_sectors_def fs_info_sector_def)
  with unmount_persists_counters [OF demo32_volume, of 512] show ?thesis
    by (auto simp: fs_info_wf_def)
qed

section \<open>Mounting\<close>

text \<open>Reading does not change the disk.\<close>

definition reads_only :: "(cursor, 'a) st \<Rightarrow> bool" where
  "reads_only m \<longleftrightarrow> (\<forall>c. cur_inner (snd (m c)) = cur_inner c)"

lemma reads_only_bind: "reads_only m \<Longrightarrow> (\<And>x. reads_only (f x)) \<Longrightarrow> reads_only (sbind m f)"
  by (simp add: reads_only_def sbind_def split: prod.splits sum.splits) (metis snd_conv)

lemma reads_only_basic:
  "reads_only (sret x)" "reads_only (sfail e)" "reads_only (slift r)" "reads_only (io_seek cursor_ops p)"
  "reads_only (io_read_exact cursor_ops n)"
  by (auto simp: reads_only_def sret_def sfail_def slift_def cursor_ops_def cursor_seek_def cursor_read_exact_def Let_def
      split: seek_from.splits sum.splits)

lemma reads_only_if: "reads_only m \<Longrightarrow> reads_only m' \<Longrightarrow> reads_only (if b then m else m')"
  by simp

lemma reads_only_ints: "reads_only (read_u8 cursor_ops)" "reads_only (read_u16 cursor_ops)" "reads_only (read_u32 cursor_ops)"
  unfolding read_u8_def read_u16_def read_u32_def by (intro reads_only_bind reads_only_basic)+

lemmas reads_only_intros = reads_only_bind reads_only_if reads_only_ints reads_only_basic

lemma reads_only_boot: "reads_only (read_boot_sector cursor_ops)"
  unfolding read_boot_sector_def boot_sector_deserialize_def bpb_deserialize_def bpb_read_base_def bpb_read_fat32_def
    bpb_read_tail_def by (intro reads_only_intros)

lemma reads_only_fs_info: "reads_only (read_fs_info cursor_ops ft b)"
  unfolding read_fs_info_def fs_info_deserialize_def Let_def by (intro reads_only_intros)

lemma unat_bytes_from_sectors: "unat (bytes_from_sectors b n) = unat n * unat (bytes_per_sector b)"
proof -
  have "unat n * unat (bytes_per_sector b) < 2 ^ 32 * 2 ^ 16"
    using unat_less_2p [of n] unat_less_2p [of "bytes_per_sector b"] by (intro mult_strict_mono) simp_all
  then show ?thesis unfolding bytes_from_sectors_def by (subst unat_mult_noof) (simp_all add: unat_ucast)
qed

lemma unat_cluster_size: "unat (bpb_cluster_size b) = unat (sectors_per_cluster b) * unat (bytes_per_sector b)"
proof -
  have "unat (sectors_per_cluster b) * unat (bytes_per_sector b) < 2 ^ 8 * 2 ^ 16"
    using unat_less_2p [of "sectors_per_cluster b"] unat_less_2p [of "bytes_per_sector b"] by (intro mult_strict_mono) simp_all
  then show ?thesis unfolding bpb_cluster_size_def by (subst unat_mult_noof) (simp_all add: unat_ucast)
qed

lemma unat_ge_2: "n \<noteq> 0 \<Longrightarrow> n \<noteq> 1 \<Longrightarrow> 2 \<le> unat n" for n :: u32
  using unat_eq_0 [of n] word_unat_eq_iff [of n 1] by (cases "unat n = 0"; cases "unat n = 1") auto

lemma fs_info_deserialize_hint:
  assumes "fs_info_deserialize ops s = (Inr i, s')" "fi_next_free_cluster i = Some h"
  shows "2 \<le> unat h"
  using assms by (auto simp: fs_info_deserialize_def sbind_eq_Inr sfail_def sret_def Let_def unat_ge_2 split: if_splits)

lemma read_fs_info_hint:
  assumes "read_fs_info ops ft b s = (Inr i, s')" "fi_next_free_cluster i = Some h"
  shows "2 \<le> unat h"
  using assms fs_info_deserialize_hint
  by (auto simp: read_fs_info_def sbind_eq_Inr fs_info_default_def sret_def split: if_splits)

lemma read_boot_sector_valid: "read_boot_sector ops s = (Inr b, s') \<Longrightarrow> bpb_validate b = Inr ()"
  by (auto simp: read_boot_sector_def sbind_eq_Inr sfail_def sret_def slift_def boot_sector_validate_def split: if_splits)

lemma validate_and_fix_bounds:
  assumes "validate_and_fix n i = Inr i'"
  shows "\<And>k. fi_free_cluster_count i' = Some k \<Longrightarrow> k \<le> n"
    and "\<And>h. fi_next_free_cluster i' = Some h \<Longrightarrow> unat h \<le> unat n + 2 \<and> fi_next_free_cluster i = Some h"
  using assms by (auto simp: validate_and_fix_def RESERVED_FAT_ENTRIES_def cadd_Inr unat_add_noof word_le_nat_alt not_less
      Let_def split: option.splits if_splits)

lemma fs_new_Inr:
  assumes "fs_new cursor_ops options c = Inr fs"
  shows "bpb_validate (fs_bpb fs) = Inr ()" "disk_bytes fs = cur_inner c"
    "first_data_sector (fs_bpb fs) = Inr (fs_first_data_sector fs)" "total_clusters (fs_bpb fs) = Inr (fs_total_clusters fs)"
    "fs_fat_type fs = from_clusters (fs_total_clusters fs)"
    "\<And>k. fi_free_cluster_count (fs_info fs) = Some k \<Longrightarrow> k \<le> fs_total_clusters fs"
    "\<And>h. fi_next_free_cluster (fs_info fs) = Some h \<Longrightarrow> 2 \<le> unat h \<and> unat h \<le> unat (fs_total_clusters fs) + 2"
proof -
  obtain b c1 where b: "read_boot_sector cursor_ops c = (Inr b, c1)"
    using assms by (auto simp: fs_new_def split: prod.splits sum.splits)
  obtain first clusters root where g: "root_dir_sectors b = Inr root" "first_data_sector b = Inr first" "total_clusters b = Inr clusters"
    using assms b by (auto simp: fs_new_def)
  obtain i c2 where i: "read_fs_info cursor_ops (from_clusters clusters) b c1 = (Inr i, c2)"
    using assms b g by (auto simp: fs_new_def Let_def split: prod.splits sum.splits)
  let ?i = "if fl_dirty (bpb_status_flags b) then i\<lparr>fi_free_cluster_count := None\<rparr> else i"
  obtain info where info: "validate_and_fix clusters ?i = Inr info"
    using assms b g i by (auto simp: fs_new_def Let_def)
  have fs: "fs = \<lparr>fs_disk = c2, fs_options = options, fs_fat_type = from_clusters clusters, fs_bpb = b,
      fs_first_data_sector = first, fs_root_dir_sectors = root, fs_total_clusters = clusters, fs_info = info,
      fs_current_status_flags = bpb_status_flags b\<rparr>"
    using assms b g i info by (simp add: fs_new_def Let_def)
  have "cur_inner c1 = cur_inner c" "cur_inner c2 = cur_inner c1"
    using reads_only_boot reads_only_fs_info b i unfolding reads_only_def by (metis snd_conv)+
  then show "bpb_validate (fs_bpb fs) = Inr ()" "disk_bytes fs = cur_inner c"
    "first_data_sector (fs_bpb fs) = Inr (fs_first_data_sector fs)" "total_clusters (fs_bpb fs) = Inr (fs_total_clusters fs)"
    "fs_fat_type fs = from_clusters (fs_total_clusters fs)"
    using read_boot_sector_valid [OF b] g by (simp_all add: fs)
  show "\<And>k. fi_free_cluster_count (fs_info fs) = Some k \<Longrightarrow> k \<le> fs_total_clusters fs"
    using validate_and_fix_bounds(1) [OF info] by (simp add: fs)
  show "\<And>h. fi_next_free_cluster (fs_info fs) = Some h \<Longrightarrow> 2 \<le> unat h \<and> unat h \<le> unat (fs_total_clusters fs) + 2"
    using validate_and_fix_bounds(2) [OF info] read_fs_info_hint [OF i] by (auto simp: fs split: if_splits)
qed

text \<open>The FAT slice of a volume that passed validation and whose active FAT is one of its FATs: all copies with
  mirroring, the active one without.\<close>

lemma active_fat_inside:
  assumes "bpb_validate (fs_bpb fs) = Inr ()" "first_data_sector (fs_bpb fs) = Inr first"
    and "unat (active_fat (fs_bpb fs)) < unat (bpb_fats (fs_bpb fs))"
  shows "\<exists>bgn sz mirrors. fat_at fs bgn sz mirrors \<and> region_lo \<le> bgn \<and> 1 \<le> mirrors \<and> sz < 2 ^ 63 \<and>
    bgn + mirrors * sz \<le> unat first * unat (bytes_per_sector (fs_bpb fs))"
proof -
  let ?b = "fs_bpb fs"
  let ?bps = "unat (bytes_per_sector ?b)" and ?r = "unat (reserved_sectors ?b)" and ?spf = "unat (sectors_per_fat ?b)"
  let ?a = "unat (active_fat ?b)" and ?fats = "unat (bpb_fats ?b)"
  have geo: "512 \<le> ?bps" "?r + ?fats * ?spf \<le> unat first" using bpb_validate_geometry [OF assms(1)] assms(2) by auto
  have "bpb_reserved_sectors ?b \<noteq> 0"
    using assms(1) by (auto simp: bpb_validate_def bpb_validate_fields_def Let_def io_guard_def)
  then have r1: "1 \<le> ?r" by (simp add: reserved_sectors_def unat_ucast Suc_le_eq unat_gt_0)
  define m where "m = (if mirroring_enabled ?b then ?fats else 1)"
  have am: "?a + m \<le> ?fats" "1 \<le> m" using assms(3) by (auto simp: m_def active_fat_def)
  have "(?a + m) * ?spf \<le> ?fats * ?spf" using am(1) by simp
  then have le: "?r + ?a * ?spf + m * ?spf \<le> unat first" using geo(2) by (simp add: algebra_simps)
  then have nov: "?r + ?a * ?spf < 2 ^ 32" using unat_less_2p [of first] by (simp add: trans_le_add1)
  have u: "unat (ucast (active_fat ?b) :: u32) = ?a" using unat_less_2p [of "active_fat ?b"] by (simp add: unat_ucast)
  have "?spf * ?bps < 2 ^ 32 * 2 ^ 16"
    using unat_less_2p [of "sectors_per_fat ?b"] unat_less_2p [of "bytes_per_sector ?b"] by (intro mult_strict_mono) simp_all
  then have szb: "?spf * ?bps < 2 ^ 63" by simp
  have "fat_at fs ((?r + ?a * ?spf) * ?bps) (?spf * ?bps) m"
  proof (cases "mirroring_enabled ?b")
    case True
    then show ?thesis by (simp add: fat_at_def fs_fat_slice_def bpb_fat_slice_def disk_slice_from_sectors_def m_def
        active_fat_def unat_bytes_from_sectors)
  next
    case False
    have k: "cmul (ucast (active_fat ?b)) (sectors_per_fat ?b) = Inr (ucast (active_fat ?b) * sectors_per_fat ?b)"
      "unat (ucast (active_fat ?b) * sectors_per_fat ?b :: u32) = ?a * ?spf"
      using nov u by (simp_all add: cmul_Inr unat_mult_noof)
    then have "cadd (reserved_sectors ?b) (ucast (active_fat ?b) * sectors_per_fat ?b) =
        Inr (reserved_sectors ?b + ucast (active_fat ?b) * sectors_per_fat ?b)"
      "unat (reserved_sectors ?b + ucast (active_fat ?b) * sectors_per_fat ?b) = ?r + ?a * ?spf"
      using nov by (simp_all add: cadd_Inr unat_add_noof)
    with False k show ?thesis by (simp add: fat_at_def fs_fat_slice_def bpb_fat_slice_def disk_slice_from_sectors_def m_def
        unat_bytes_from_sectors)
  qed
  moreover have "region_lo \<le> (?r + ?a * ?spf) * ?bps"
    using mult_le_mono [OF _ geo(1), of 1 "?r + ?a * ?spf"] r1 by (simp add: region_lo_def)
  moreover have "(?r + ?a * ?spf) * ?bps + m * (?spf * ?bps) \<le> unat first * ?bps"
    using mult_le_mono1 [OF le, of ?bps] by (simp add: algebra_simps)
  ultimately show ?thesis using am(2) szb by blast
qed

text \<open>C21: a volume that mounts, and whose boot sector names one of its FATs as the active one, has a sound geometry
  on a disk as large as its boot sector says: the FAT it works on (all copies with mirroring, the active FAT without)
  lies behind the boot sector and on the disk, every cluster lies behind it and on the disk, the FSInfo counters are
  within the volume, and mounting writes nothing.  With mirroring the active FAT is the first one, so the condition
  holds; without, validation does not check it (\<open>validate_ignores_active_fat\<close>).\<close>

theorem mounted_volume_geometry:
  assumes "fs_new cursor_ops options c = Inr fs" "unat (active_fat (fs_bpb fs)) < unat (bpb_fats (fs_bpb fs))"
    and "unat (total_sectors (fs_bpb fs)) * unat (bytes_per_sector (fs_bpb fs)) \<le> length (cur_inner c)"
  shows "disk_bytes fs = cur_inner c \<and> fs_fat_type fs = Fat32 \<and> volume_data fs \<and>
    (\<exists>bgn sz mirrors. fat_at fs bgn sz mirrors \<and> region_lo \<le> bgn \<and> 1 \<le> mirrors \<and> sz < 2 ^ 63 \<and>
       bgn + mirrors * sz \<le> length (disk_bytes fs)) \<and>
    (\<forall>k. fi_free_cluster_count (fs_info fs) = Some k \<longrightarrow> k \<le> fs_total_clusters fs) \<and>
    (\<forall>h. fi_next_free_cluster (fs_info fs) = Some h \<longrightarrow> 2 \<le> unat h \<and> unat h \<le> unat (fs_total_clusters fs) + 2)"
proof -
  let ?b = "fs_bpb fs" and ?first = "fs_first_data_sector fs"
  let ?bps = "unat (bytes_per_sector ?b)"
  note n = fs_new_Inr [OF assms(1)]
  have cl: "\<And>c. 2 \<le> unat c \<Longrightarrow> unat c < unat (fs_total_clusters fs) + 2 \<Longrightarrow>
       \<exists>k sector. sectors_from_clusters ?b (c - 2) = Inr k \<and> cadd ?first k = Inr sector \<and>
          unat ?first \<le> unat sector \<and> unat sector + unat (sectors_per_cluster ?b) \<le> unat (total_sectors ?b)"
    using bpb_validate_geometry [OF n(1)] n(3,4) by auto
  have lt: "?first < total_sectors ?b"
    using n(1,3) by (auto simp: bpb_validate_def bpb_validate_fields_def Let_def io_guard_def not_less not_le)
  from active_fat_inside [OF n(1,3) assms(2)] obtain bgn sz m where at: "fat_at fs bgn sz m" "region_lo \<le> bgn" "1 \<le> m" "sz < 2 ^ 63"
    and fend: "bgn + m * sz \<le> unat ?first * ?bps" by blast
  moreover have "unat ?first * ?bps \<le> unat (total_sectors ?b) * ?bps" using lt by (simp add: word_less_nat_alt)
  ultimately have fin: "bgn + m * sz \<le> length (disk_bytes fs)" using assms(3) unfolding n(2) by linarith
  have "\<exists>off. offset_from_cluster fs c = Inr off \<and> bgn + m * sz \<le> unat off \<and>
      unat off + unat (cluster_size fs) \<le> length (disk_bytes fs)"
    if c: "2 \<le> unat c" "unat c < unat (fs_total_clusters fs) + 2" for c
  proof -
    obtain k sector where k: "sectors_from_clusters ?b (c - 2) = Inr k" "cadd ?first k = Inr sector"
      "unat ?first \<le> unat sector" "unat sector + unat (sectors_per_cluster ?b) \<le> unat (total_sectors ?b)" using cl [OF c] by blast
    have "offset_from_cluster fs c = Inr (bytes_from_sectors ?b sector)"
      using k(1,2) c(1) by (simp add: offset_from_cluster_def sector_from_cluster_def offset_from_sector_def csub_def
          RESERVED_FAT_ENTRIES_def word_le_nat_alt)
    moreover have "unat ?first * ?bps \<le> unat sector * ?bps" using k(3) by simp
    moreover have "unat sector * ?bps + unat (cluster_size fs) \<le> length (disk_bytes fs)"
      using mult_le_mono1 [OF k(4), of ?bps] assms(3) n(2)
      by (simp add: cluster_size_def unat_cluster_size algebra_simps)
    ultimately show ?thesis
      using order_trans [OF fend] by (intro exI [of _ "bytes_from_sectors ?b sector"] conjI) (simp_all only: unat_bytes_from_sectors)
  qed
  then have "volume_data fs" unfolding volume_data_def using fat_at_unique [OF at(1)] by blast
  with n at fin show ?thesis by (auto simp: from_clusters_def)
qed

definition demo_boot :: boot_sector where
  "demo_boot = \<lparr>bootjmp = [0xEB, 0x58, 0x90], oem_name = ascii ''MSWIN4.1'', boot_bpb = demo_bpb,
     boot_code = replicate 448 0, boot_sig = [0x55, 0xAA]\<rparr>"

definition demo_image :: "u8 list" where
  "demo_image = boot_bytes demo_boot @ fs_info_bytes fs_info_default @ replicate 51200000 0"

text \<open>Validation does not look at the flags that select the FAT.  With mirroring off and a number of the active FAT
  beyond the FATs of the volume, the boot sector passes and the FAT slice lies in the data area.\<close>

lemma validate_ignores_active_fat:
  fixes io :: cursor
  defines "b \<equiv> demo_bpb\<lparr>extended_flags := 0x8F\<rparr>"
  shows "bpb_validate b = Inr ()" "unat (bpb_fats b) \<le> unat (active_fat b)"
    "first_data_sector b = Inr 2032" "bpb_fat_slice io b = Inr (disk_slice_new (15032 * 512) (1000 * 512) 1 io)"
proof -
  have "bpb_validate b = bpb_validate demo_bpb" "first_data_sector b = first_data_sector demo_bpb"
    by (simp_all add: b_def bpb_validate_def bpb_validate_sizes_def bpb_validate_fields_def bpb_validate_fat_size_def
        first_data_sector_def total_clusters_def root_dir_sectors_def sectors_per_all_fats_def sectors_per_fat_def
        total_sectors_def reserved_sectors_def backup_boot_sector_def fs_info_sector_def bpb_is_fat32_def)
  then show "bpb_validate b = Inr ()" "first_data_sector b = Inr 2032" by (simp_all add: demo_bpb_valid demo_bpb_geometry)
  have a: "\<not> mirroring_enabled b" "active_fat b = 15" by (simp_all add: b_def mirroring_enabled_def active_fat_def)
  then show "unat (bpb_fats b) \<le> unat (active_fat b)" by (simp add: b_def demo_bpb_def)
  from a show "bpb_fat_slice io b = Inr (disk_slice_new (15032 * 512) (1000 * 512) 1 io)"
    by (simp add: bpb_fat_slice_def disk_slice_from_sectors_def unat_bytes_from_sectors b_def demo_bpb_def bpb_default_def
        sectors_per_fat_def reserved_sectors_def bpb_is_fat32_def cmul_def cadd_def)
qed

lemma demo_mounts:
  "\<exists>fs. fs_new cursor_ops fs_options_new (cursor_new demo_image) = Inr fs \<and> fs_bpb fs = demo_bpb"
proof -
  have wf: "boot_wf demo_boot"
    by (simp add: boot_wf_def bpb_wf_def demo_boot_def demo_bpb_def bpb_default_def ascii_def boot_code_len_def bpb_is_fat32_def)
  have len: "length (boot_bytes demo_boot) = 512" by (rule length_boot_bytes [OF wf])
  have "boot_sector_deserialize cursor_ops \<lparr>cur_inner = demo_image, cur_pos = 0\<rparr> =
      (Inr demo_boot, \<lparr>cur_inner = demo_image, cur_pos = 512\<rparr>)"
    using cursor_parses [OF cursor.parses_boot_sector [OF wf], of 0 demo_image] len
    by (simp add: demo_image_def window_def)
  moreover have "boot_sector_validate demo_boot = Inr ()" "boot_bpb demo_boot = demo_bpb"
    using demo_bpb_valid by (simp_all add: boot_sector_validate_def io_guard_def demo_boot_def)
  ultimately have b: "read_boot_sector cursor_ops (cursor_new demo_image) = (Inr demo_bpb, \<lparr>cur_inner = demo_image, cur_pos = 512\<rparr>)"
    by (simp add: read_boot_sector_def sbind_def slift_def sret_def cursor_ops_def cursor_seek_def cursor_new_def)
  have p: "unat (bytes_from_sectors demo_bpb (fs_info_sector demo_bpb)) = 512"
    by (simp add: unat_bytes_from_sectors fs_info_sector_def demo_bpb_def)
  have "fs_info_deserialize cursor_ops \<lparr>cur_inner = demo_image, cur_pos = 512\<rparr> =
      (Inr (fs_info_default\<lparr>fi_dirty := False\<rparr>), \<lparr>cur_inner = demo_image, cur_pos = 1024\<rparr>)"
    using cursor_parses [OF cursor.parses_fs_info [of fs_info_default], of 512 demo_image] len
    by (simp add: demo_image_def window_def fs_info_wf_def fs_info_default_def)
  then have i: "read_fs_info cursor_ops Fat32 demo_bpb \<lparr>cur_inner = demo_image, cur_pos = 512\<rparr> =
      (Inr fs_info_default, \<lparr>cur_inner = demo_image, cur_pos = 1024\<rparr>)"
    by (simp add: read_fs_info_def p sbind_def cursor_ops_def cursor_seek_def fs_info_default_def)
  have "root_dir_sectors demo_bpb = Inr 0"
    by (simp add: root_dir_sectors_def demo_bpb_def bpb_default_def cmul_def cadd_def csub_def cdiv_def)
  moreover have "fl_dirty (bpb_status_flags demo_bpb) = False"
    by (simp add: bpb_status_flags_def demo_bpb_def bpb_default_def)
  moreover have "validate_and_fix 97968 fs_info_default = Inr fs_info_default"
    by (simp add: validate_and_fix_def fs_info_default_def cadd_def RESERVED_FAT_ENTRIES_def)
  ultimately show ?thesis
    using b i demo_bpb_geometry by (simp add: fs_new_def Let_def from_clusters_def)
qed

theorem mounted_volume_geometry_witness:
  "\<exists>fs. fs_new cursor_ops fs_options_new (cursor_new demo_image) = Inr fs \<and> disk_bytes fs = demo_image \<and>
    fs_fat_type fs = Fat32 \<and> volume_data fs"
proof -
  obtain fs where fs: "fs_new cursor_ops fs_options_new (cursor_new demo_image) = Inr fs" "fs_bpb fs = demo_bpb"
    using demo_mounts by blast
  have m: "unat (active_fat (fs_bpb fs)) < unat (bpb_fats (fs_bpb fs))"
    by (simp add: fs(2) active_fat_def mirroring_enabled_def demo_bpb_def bpb_default_def)
  have "unat (total_sectors (fs_bpb fs)) * unat (bytes_per_sector (fs_bpb fs)) \<le> length (cur_inner (cursor_new demo_image))"
    unfolding fs(2) demo_bpb_sectors by (simp add: demo_image_def cursor_new_def demo_bpb_def)
  from mounted_volume_geometry [OF fs(1) m this] fs(1) show ?thesis by (auto simp: cursor_new_def)
qed

end
