(* ===== verification/Fat_File.thy ===== *)
theory Fat_File
  imports Fat_Fs
begin

text \<open>
  Files, \<open>fatfs/src/file.rs\<close>: a position in a chain of clusters with the editor of the directory entry, and
  the operations of the streams on it. The reference to the file system is the value \<open>f_fs\<close>, passed
  through every operation. A file without an entry is the root directory of a FAT32 volume.
\<close>

section \<open>The file object\<close>

definition MAX_FILE_SIZE :: u32 where "MAX_FILE_SIZE = 0xFFFFFFFF"

record 's fat_file =
  f_first_cluster :: "u32 option"
  f_current_cluster :: "u32 option"
  f_offset :: u32
  f_entry :: "dir_entry_editor option"
  f_fs :: "'s file_system"

definition file_new :: "u32 option \<Rightarrow> dir_entry_editor option \<Rightarrow> 's file_system \<Rightarrow> 's fat_file" where
  "file_new first_cluster entry fs =
     \<lparr>f_first_cluster = first_cluster, f_current_cluster = None, f_offset = 0, f_entry = entry, f_fs = fs\<rparr>"

text \<open>Running an operation of the file system, and updating the entry.\<close>

definition on_fs :: "('s file_system, 'a) st \<Rightarrow> ('s fat_file, 'a) st" where
  "on_fs m self = (case m (f_fs self) of (r, fs) \<Rightarrow> (r, self\<lparr>f_fs := fs\<rparr>))"

definition on_entry :: "(dir_entry_editor \<Rightarrow> dir_entry_editor res) \<Rightarrow> ('s fat_file, unit) st" where
  "on_entry f self =
     (case f_entry self of
        None \<Rightarrow> (Inr (), self)
      | Some e \<Rightarrow> (case f e of Inl err \<Rightarrow> (Inl err, self) | Inr e' \<Rightarrow> (Inr (), self\<lparr>f_entry := Some e'\<rparr>)))"

definition cmod :: "'a::len word \<Rightarrow> 'a word \<Rightarrow> 'a word res" where
  "cmod x y = (if y = 0 then Inl (Panic DivideByZero) else Inr (x mod y))"

definition stat_default :: stat where
  "stat_default = \<lparr>st_dev = 0, st_ino = 0, st_mode = 0, st_nlink = 0, st_uid = 0, st_gid = 0, st_rdev = 0, st_size = 0,
     st_blksize = 0, st_blocks = 0, st_atime_sec = 0, st_mtime_sec = 0, st_ctime_sec = 0\<rparr>"

definition linux_dirent64_default :: linux_dirent64 where
  "linux_dirent64_default = \<lparr>d_ino = 0, d_off = 0, d_reclen = 0, d_type = 0, d_name = replicate 11 0\<rparr>"

definition file_get_fstat :: "'s fat_file \<Rightarrow> stat" where
  "file_get_fstat self = (case f_entry self of Some e \<Rightarrow> editor_stat e | None \<Rightarrow> stat_default)"

definition file_get_dents64 :: "nat \<Rightarrow> 's fat_file \<Rightarrow> linux_dirent64 res" where
  "file_get_dents64 entry_size self =
     (case f_entry self of
        Some e \<Rightarrow> editor_dirent entry_size e
      | None \<Rightarrow> Inr (linux_dirent64_default\<lparr>d_name := (d_name linux_dirent64_default)[0 := 0x2F]\<rparr>))"

definition file_size :: "'s fat_file \<Rightarrow> u32 option" where
  "file_size self = (case f_entry self of Some e \<Rightarrow> file_entry_size (ed_data e) | None \<Rightarrow> None)"

definition file_is_dir :: "'s fat_file \<Rightarrow> bool" where
  "file_is_dir self = (case f_entry self of Some e \<Rightarrow> file_entry_is_dir (ed_data e) | None \<Rightarrow> False)"

definition bytes_left_in_file :: "'s fat_file \<Rightarrow> u32 option res" where
  "bytes_left_in_file self =
     (case file_size self of None \<Rightarrow> Inr None | Some s \<Rightarrow> rbind (csub s (f_offset self)) (\<lambda>n. Inr (Some n)))"

definition file_set_first_cluster :: "u32 \<Rightarrow> ('s fat_file, unit) st" where
  "file_set_first_cluster cluster self =
     on_entry (\<lambda>e. Inr (editor_set_first_cluster (Some cluster) (fs_fat_type (f_fs self)) e))
       (self\<lparr>f_first_cluster := Some cluster\<rparr>)"

definition file_set_created :: "date_time \<Rightarrow> ('s fat_file, unit) st" where
  "file_set_created dt = on_entry (editor_set_created dt)"

definition file_set_accessed :: "date \<Rightarrow> ('s fat_file, unit) st" where
  "file_set_accessed d = on_entry (editor_set_accessed d)"

definition file_set_modified :: "date_time \<Rightarrow> ('s fat_file, unit) st" where
  "file_set_modified dt = on_entry (editor_set_modified dt)"

definition update_dir_entry_after_write :: "('s fat_file, unit) st" where
  "update_dir_entry_after_write self =
     (let offset = f_offset self; now = opt_current_date_time (fs_options (f_fs self)) in
      on_entry (\<lambda>e.
        rbind (editor_set_modified now e) (\<lambda>e.
        Inr (case file_entry_size (ed_data e) of
               Some s \<Rightarrow> if offset > s then editor_set_size offset e else e
             | None \<Rightarrow> e))) self)"

definition file_abs_pos :: "'s fat_file \<Rightarrow> nat option res" where
  "file_abs_pos self =
     (case f_current_cluster self of
        None \<Rightarrow> Inr None
      | Some n \<Rightarrow>
          let cs = cluster_size (f_fs self) in
          rbind (cmod (f_offset self) cs) (\<lambda>offset_mod_cluster_size.
          let offset_in_cluster = (if offset_mod_cluster_size = 0 then cs else offset_mod_cluster_size) in
          rbind (offset_from_cluster (f_fs self) n) (\<lambda>off. Inr (Some (unat off + unat offset_in_cluster)))))"

section \<open>Truncating and flushing\<close>

definition file_truncate :: "'s rws \<Rightarrow> ('s fat_file, unit) st" where
  "file_truncate ops =
     sbind (\<lambda>self. on_entry (\<lambda>e.
         let e = editor_set_size (f_offset self) e in
         Inr (if f_offset self = 0 then editor_set_first_cluster None (fs_fat_type (f_fs self)) e else e)) self) (\<lambda>_ self.
     if f_offset self > 0
     then (case f_current_cluster self of
             None \<Rightarrow> (Inl (Panic Assertion), self)
           | Some n \<Rightarrow> on_fs (truncate_cluster_chain ops n) self)
     else if f_current_cluster self \<noteq> None then (Inl (Panic Assertion), self)
     else (case f_first_cluster self of
             None \<Rightarrow> (Inr (), self)
           | Some n \<Rightarrow> sbind (on_fs (free_cluster_chain ops n)) (\<lambda>_ self. (Inr (), self\<lparr>f_first_cluster := None\<rparr>)) self))"

definition flush_dir_entry :: "'s rws \<Rightarrow> ('s fat_file, unit) st" where
  "flush_dir_entry ops self =
     (case f_entry self of
        None \<Rightarrow> (Inr (), self)
      | Some e \<Rightarrow>
          (case editor_flush ops (fs_disk (f_fs self), e) of
             (r, (d, e')) \<Rightarrow> (r, self\<lparr>f_fs := (f_fs self)\<lparr>fs_disk := d\<rparr>, f_entry := Some e'\<rparr>)))"

definition file_flush :: "'s rws \<Rightarrow> ('s fat_file, unit) st" where
  "file_flush ops = sbind (flush_dir_entry ops) (\<lambda>_. on_fs (on_disk (io_flush ops)))"

section \<open>Reading and writing\<close>

text \<open>The cluster after the current one: the first one at the start, otherwise the next of the chain.\<close>

definition file_next_cluster :: "'s rws \<Rightarrow> ('s fat_file, u32 option) st" where
  "file_next_cluster ops self =
     (case f_current_cluster self of
        None \<Rightarrow> (Inr (f_first_cluster self), self)
      | Some n \<Rightarrow>
          sbind (on_fs (with_cluster_iter n (cluster_iterator_next (fs_fat_ops ops)))) (\<lambda>r.
            case r of Some (Inl err) \<Rightarrow> sfail (Io err) | Some (Inr c) \<Rightarrow> sret (Some c) | None \<Rightarrow> sret None) self)"

definition file_advance :: "nat \<Rightarrow> u32 \<Rightarrow> ('s fat_file, unit) st" where
  "file_advance n cluster self =
     (case cadd (f_offset self) (of_nat n) of
        Inl e \<Rightarrow> (Inl e, self)
      | Inr offset \<Rightarrow> (Inr (), self\<lparr>f_offset := offset, f_current_cluster := Some cluster\<rparr>))"

definition file_touch_accessed :: "('s fat_file, unit) st" where
  "file_touch_accessed self =
     (if opt_update_accessed_date (fs_options (f_fs self))
      then on_entry (editor_set_accessed (opt_current_date (fs_options (f_fs self)))) self
      else (Inr (), self))"

definition file_read :: "'s rws \<Rightarrow> nat \<Rightarrow> ('s fat_file, u8 list) st" where
  "file_read ops n self =
     (let cs = cluster_size (f_fs self) in
      sbind (slift (cmod (f_offset self) cs)) (\<lambda>offset_in_cluster.
      sbind (if offset_in_cluster = 0 then file_next_cluster ops else sret (f_current_cluster self)) (\<lambda>current_cluster_opt.
      case current_cluster_opt of
        None \<Rightarrow> sret []
      | Some current_cluster \<Rightarrow>
          let bytes_left_in_cluster = unat (cs - offset_in_cluster) in
          sbind (slift (bytes_left_in_file self)) (\<lambda>left.
          let left = (case left of Some k \<Rightarrow> unat k | None \<Rightarrow> bytes_left_in_cluster);
              read_size = min (min n bytes_left_in_cluster) left in
          if read_size = 0 then sret [] else
          sbind (slift (offset_from_cluster (f_fs self) current_cluster)) (\<lambda>off.
          sbind (on_fs (on_disk (io_seek ops (Start (unat off + unat offset_in_cluster))))) (\<lambda>_.
          sbind (on_fs (on_disk (io_read ops read_size))) (\<lambda>bs.
          if bs = [] then sret [] else
          sbind (file_advance (length bs) current_cluster) (\<lambda>_.
          sbind file_touch_accessed (\<lambda>_.
          sret bs)))))))) self)"

text \<open>The cluster to write to, allocating one at the end of the chain.\<close>

definition file_cluster_for_write :: "'s rws \<Rightarrow> u32 \<Rightarrow> ('s fat_file, u32) st" where
  "file_cluster_for_write ops offset_in_cluster self =
     (if offset_in_cluster = 0
      then sbind (file_next_cluster ops) (\<lambda>next_cluster.
           case next_cluster of
             Some n \<Rightarrow> sret n
           | None \<Rightarrow>
               sbind (\<lambda>self. on_fs (fs_alloc_cluster ops (f_current_cluster self) (file_is_dir self)) self) (\<lambda>new_cluster.
               sbind (\<lambda>self. if f_first_cluster self = None then file_set_first_cluster new_cluster self else (Inr (), self)) (\<lambda>_.
               sret new_cluster))) self
      else case f_current_cluster self of
             Some n \<Rightarrow> (Inr n, self)
           | None \<Rightarrow> (Inl (Panic Explicit), self))"

definition file_write :: "'s rws \<Rightarrow> u8 list \<Rightarrow> ('s fat_file, nat) st" where
  "file_write ops buf self =
     (let cs = cluster_size (f_fs self) in
      sbind (slift (cmod (f_offset self) cs)) (\<lambda>offset_in_cluster.
      let bytes_left_in_cluster = unat (cs - offset_in_cluster);
          bytes_left_until_max_file_size = unat (MAX_FILE_SIZE - f_offset self);
          write_size = min (min (length buf) bytes_left_in_cluster) bytes_left_until_max_file_size in
      if write_size = 0 then sret 0 else
      sbind (on_fs (set_dirty_flag ops True)) (\<lambda>_.
      sbind (file_cluster_for_write ops offset_in_cluster) (\<lambda>current_cluster.
      sbind (slift (offset_from_cluster (f_fs self) current_cluster)) (\<lambda>off.
      sbind (on_fs (on_disk (io_seek ops (Start (unat off + unat offset_in_cluster))))) (\<lambda>_.
      sbind (on_fs (on_disk (io_write ops (take write_size buf)))) (\<lambda>written_bytes.
      if written_bytes = 0 then sret 0 else
      sbind (file_advance written_bytes current_cluster) (\<lambda>_.
      sbind update_dir_entry_after_write (\<lambda>_.
      sret written_bytes)))))))) self)"

section \<open>Seeking\<close>

definition seek_target :: "'s fat_file \<Rightarrow> seek_from \<Rightarrow> int res" where
  "seek_target self pos =
     rbind (case pos of
              Current x \<Rightarrow> Inr (uint (f_offset self) + x)
            | Start x \<Rightarrow> Inr (as_i64 x)
            | End x \<Rightarrow> rbind (runwrap (file_size self)) (\<lambda>s. Inr (uint s + x))) (\<lambda>new_pos.
     if new_pos \<ge> 2 ^ 63 then Inl (Panic Overflow)
     else if new_pos < 0 then Inl (Io InvalidInput)
     else Inr (case file_size self of Some s \<Rightarrow> min new_pos (uint s) | None \<Rightarrow> new_pos))"

definition cluster_index :: "'s file_system \<Rightarrow> u32 \<Rightarrow> int res" where
  "cluster_index fs n =
     rbind (fs_clusters_from_bytes fs (ucast n)) (\<lambda>k.
     if sint k = - (2 ^ 31) then Inl (Panic Overflow) else Inr (sint k - 1))"

text \<open>The loop that follows the chain: it returns the cluster it reached and, when the chain ends early,
  the number of clusters of the chain.\<close>

fun seek_loop ::
  "'s rws \<Rightarrow> nat \<Rightarrow> u32 \<Rightarrow> u32 \<Rightarrow> ('s file_system disk_slice cluster_iterator, u32 \<times> u32 option) st" where
  "seek_loop ops 0 i cluster it = (Inr (cluster, None), it)"
| "seek_loop ops (Suc k) i cluster it =
     (case cluster_iterator_next (fs_fat_ops ops) it of
        (Inl e, it') \<Rightarrow> (Inl e, it')
      | (Inr (Some (Inl err)), it') \<Rightarrow> (Inl (Io err), it')
      | (Inr (Some (Inr c)), it') \<Rightarrow> seek_loop ops k (i + 1) c it'
      | (Inr None, it') \<Rightarrow> (Inr (cluster, Some (i + 1)), it'))"

text \<open>The new cluster and the position, which is moved back when the chain is too short.\<close>

definition seek_cluster :: "'s rws \<Rightarrow> u32 \<Rightarrow> int \<Rightarrow> int \<Rightarrow> ('s fat_file, u32 option \<times> u32) st" where
  "seek_cluster ops new_pos cluster_count old_cluster_count self =
     (if new_pos = 0 then (Inr (None, new_pos), self)
      else if cluster_count = old_cluster_count then (Inr (f_current_cluster self, new_pos), self)
      else case f_first_cluster self of
        None \<Rightarrow> (Inr (None, 0), self)
      | Some n \<Rightarrow>
          sbind (on_fs (with_cluster_iter n (seek_loop ops (nat cluster_count) 0 n))) (\<lambda>(cluster, short) self.
            case short of
              None \<Rightarrow> (Inr (Some cluster, new_pos), self)
            | Some k \<Rightarrow> (case bytes_from_clusters (f_fs self) k of
                Inl e \<Rightarrow> (Inl e, self)
              | Inr bytes \<Rightarrow> (Inr (Some cluster, ucast bytes), self))) self)"

definition file_seek :: "'s rws \<Rightarrow> seek_from \<Rightarrow> ('s fat_file, nat) st" where
  "file_seek ops pos self =
     sbind (slift (seek_target self pos)) (\<lambda>target.
     let new_pos = (word_of_int target :: u32) in
     if new_pos = f_offset self then sret (unat (f_offset self)) else
     sbind (slift (cluster_index (f_fs self) new_pos)) (\<lambda>cluster_count.
     sbind (slift (cluster_index (f_fs self) (f_offset self))) (\<lambda>old_cluster_count.
     sbind (seek_cluster ops new_pos cluster_count old_cluster_count) (\<lambda>(new_cluster, new_pos) self.
       (Inr (unat new_pos), self\<lparr>f_offset := new_pos, f_current_cluster := new_cluster\<rparr>))))) self"

definition file_ops :: "'s rws \<Rightarrow> 's fat_file rws" where
  "file_ops ops =
     \<lparr>io_read = file_read ops, io_read_exact = default_read_exact (file_read ops), io_write = file_write ops,
      io_write_all = write_all (file_write ops), io_seek = file_seek ops, io_flush = file_flush ops\<rparr>"

end
