(* ===== verification/Fat_File_Props.thy ===== *)
theory Fat_File_Props
  imports Fat_File Fat_Fs_Props
begin

text \<open>
  Files as byte sequences. The content of a file is the concatenation of its clusters cut to its size;
  \<open>file_ok b cs f\<close> says that the file object is consistent with a chain \<open>cs\<close> of the FAT \<open>b\<close>. Reading
  fulfils the contract \<open>read_stream\<close> on the content, and seeking moves within it.
\<close>

section \<open>Content\<close>

lemma window_concat:
  assumes "\<And>x. x \<in> set xs \<Longrightarrow> length x = cz" "k < length xs" "i + n \<le> cz"
  shows "window (k * cz + i) n (concat xs) = window i n (xs ! k)"
  using assms(1,2)
proof (induction xs arbitrary: k)
  case (Cons x xs)
  show ?case
  proof (cases k)
    case 0
    then show ?thesis using Cons.prems assms(3) by (simp add: window_def)
  next
    case (Suc j)
    have "window (j * cz + i) n (concat xs) = window i n (xs ! j)" by (rule Cons.IH) (use Cons.prems Suc in auto)
    then show ?thesis using Suc Cons.prems(1) [of x] by (simp add: window_def)
  qed
qed simp

lemma length_concat_uniform: "(\<And>x. x \<in> set xs \<Longrightarrow> length x = cz) \<Longrightarrow> length (concat xs) = length xs * cz"
  by (induction xs) auto

lemma window_take: "i + n \<le> m \<Longrightarrow> window i n (take m xs) = window i n xs"
  by (simp add: window_def drop_take min_def)

definition cluster_data :: "cursor file_system \<Rightarrow> u32 \<Rightarrow> u8 list" where
  "cluster_data fs c =
     (case offset_from_cluster fs c of Inr off \<Rightarrow> window (unat off) (unat (cluster_size fs)) (disk_bytes fs) | Inl _ \<Rightarrow> [])"

abbreviation csize :: "cursor fat_file \<Rightarrow> nat" where
  "csize f \<equiv> unat (cluster_size (f_fs f))"

definition file_len :: "u32 list \<Rightarrow> cursor fat_file \<Rightarrow> nat" where
  "file_len cs f = (case file_size f of Some s \<Rightarrow> unat s | None \<Rightarrow> length cs * csize f)"

definition file_bytes :: "u32 list \<Rightarrow> cursor fat_file \<Rightarrow> u8 list" where
  "file_bytes cs f = take (file_len cs f) (concat (map (cluster_data (f_fs f)) cs))"

abbreviation file_pos :: "cursor fat_file \<Rightarrow> nat" where
  "file_pos f \<equiv> unat (f_offset f)"

section \<open>Consistent files\<close>

text \<open>The volume of the file.\<close>

definition fs_ready :: "u8 list \<Rightarrow> cursor file_system \<Rightarrow> bool" where
  "fs_ready b fs \<longleftrightarrow> volume fs b \<and> fat_fits (fs_fat_type fs) b (unat (fs_total_clusters fs) + 2) \<and> volume_data fs \<and>
     512 \<le> unat (cluster_size fs) \<and>
     (opt_update_accessed_date (fs_options fs) \<longrightarrow> is_ok (date_encode (opt_current_date (fs_options fs))))"

text \<open>The clusters of the file.\<close>

definition chain_ok :: "u8 list \<Rightarrow> u32 list \<Rightarrow> cursor file_system \<Rightarrow> bool" where
  "chain_ok b cs fs \<longleftrightarrow> (cs \<noteq> [] \<longrightarrow> fat_chain (fat_entry (fs_fat_type fs) b) cs) \<and>
     (\<forall>c \<in> set cs. 2 \<le> unat c \<and> unat c < unat (fs_total_clusters fs) + 2) \<and> length cs * unat (cluster_size fs) < 2 ^ 32"

definition file_ok :: "u8 list \<Rightarrow> u32 list \<Rightarrow> cursor fat_file \<Rightarrow> bool" where
  "file_ok b cs f \<longleftrightarrow> fs_ready b (f_fs f) \<and> chain_ok b cs (f_fs f) \<and>
     f_first_cluster f = (case cs of [] \<Rightarrow> None | c # _ \<Rightarrow> Some c) \<and>
     file_pos f \<le> file_len cs f \<and> file_len cs f \<le> length cs * csize f \<and>
     f_current_cluster f = (if file_pos f = 0 then None else Some (cs ! ((file_pos f - 1) div csize f)))"

lemma fat_chain_nth:
  assumes "fat_chain g cs" "i < length cs"
  shows "(case g (unat (cs ! i)) of Data n \<Rightarrow> Some n | _ \<Rightarrow> None) = (if Suc i < length cs then Some (cs ! Suc i) else None)"
  using assms
proof (induction cs arbitrary: i rule: fat_chain.induct)
  case (3 g c d cs)
  then show ?case by (cases i) auto
qed (auto split: fat_value.splits)

lemma frame_data:
  assumes "volume fs b" "volume_data fs" "fat_frame fs fs'"
  shows "volume_data fs'" "\<And>c. 2 \<le> unat c \<Longrightarrow> unat c < unat (fs_total_clusters fs) + 2 \<Longrightarrow> cluster_data fs' c = cluster_data fs c"
proof -
  note st = fat_frame_static [OF assms(3)]
  have off: "offset_from_cluster fs' c = offset_from_cluster fs c" "cluster_size fs' = cluster_size fs" for c
    using st by (simp_all add: offset_from_cluster_def sector_from_cluster_def offset_from_sector_def cluster_size_def)
  have l: "length (disk_bytes fs') = length (disk_bytes fs)" using assms(3) by (simp add: fat_frame_def)
  show "volume_data fs'" using assms(2) st off l fat_at_bpb [OF st(2)] unfolding volume_data_def by simp
  fix c :: u32 assume c: "2 \<le> unat c" "unat c < unat (fs_total_clusters fs) + 2"
  obtain bgn sz m where g: "fat_at fs bgn sz m" "region_lo \<le> bgn" using assms(1) unfolding volume_def by blast
  obtain o' where o': "offset_from_cluster fs c = Inr o'" "bgn + m * sz \<le> unat o'"
    "unat o' + unat (cluster_size fs) \<le> length (disk_bytes fs)" using assms(2) g(1) c unfolding volume_data_def by blast
  have "window (unat o') (unat (cluster_size fs)) (disk_bytes fs') = window (unat o') (unat (cluster_size fs)) (disk_bytes fs)"
  proof (rule nth_equalityI)
    fix i assume "i < length (window (unat o') (unat (cluster_size fs)) (disk_bytes fs'))"
    then have i: "i < unat (cluster_size fs)" using o'(3) l by simp
    have "unat o' + i \<noteq> flag_offset (fs_fat_type fs)" using flag_offset_less [of "fs_fat_type fs"] g(2) o'(2) by linarith
    then have "disk_bytes fs' ! (unat o' + i) = disk_bytes fs ! (unat o' + i)"
      using assms(3) g(1) i o'(2,3) unfolding fat_frame_def by (meson add_le_mono le_add1 le_trans less_le_trans nat_add_left_cancel_less)
    then show "window (unat o') (unat (cluster_size fs)) (disk_bytes fs') ! i = window (unat o') (unat (cluster_size fs)) (disk_bytes fs) ! i"
      using i o'(3) l by (simp add: nth_window)
  qed (use o'(3) l in simp)
  then show "cluster_data fs' c = cluster_data fs c" using o'(1) by (simp add: cluster_data_def off)
qed

text \<open>What stays when the file system below a file is read: the volume, the chain and the content.\<close>

definition same_file :: "u8 list \<Rightarrow> u32 list \<Rightarrow> cursor file_system \<Rightarrow> cursor file_system \<Rightarrow> bool" where
  "same_file b cs fs fs' \<longleftrightarrow> fs_ready b fs' \<and> chain_ok b cs fs' \<and> fs_options fs' = fs_options fs \<and>
     cluster_size fs' = cluster_size fs \<and> (\<forall>c \<in> set cs. offset_from_cluster fs' c = offset_from_cluster fs c \<and> cluster_data fs' c = cluster_data fs c) \<and>
     length (disk_bytes fs') = length (disk_bytes fs)"

lemma same_file_refl: "fs_ready b fs \<Longrightarrow> chain_ok b cs fs \<Longrightarrow> same_file b cs fs fs"
  by (simp add: same_file_def)

lemma same_file_frame:
  assumes "fs_ready b fs" "chain_ok b cs fs" "volume fs' b" "fat_frame fs fs'"
  shows "same_file b cs fs fs'"
proof -
  have v: "volume fs b" "volume_data fs" using assms(1) by (auto simp: fs_ready_def)
  note st = fat_frame_static [OF assms(4)]
  have off: "offset_from_cluster fs' c = offset_from_cluster fs c" "cluster_size fs' = cluster_size fs" for c
    using st by (simp_all add: offset_from_cluster_def sector_from_cluster_def offset_from_sector_def cluster_size_def)
  have "chain_ok b cs fs'" using assms(2) st off by (simp add: chain_ok_def)
  moreover have "fs_ready b fs'" using assms(1,3) st off frame_data(1) [OF v assms(4)] by (simp add: fs_ready_def)
  moreover have "cluster_data fs' c = cluster_data fs c" if "c \<in> set cs" for c
    using frame_data(2) [OF v assms(4)] that assms(2) by (simp add: chain_ok_def)
  ultimately show ?thesis using st off assms(4) by (simp add: same_file_def fat_frame_def)
qed

lemma fs_ready_pos: "fs_ready b (fs\<lparr>fs_disk := (fs_disk fs)\<lparr>cur_pos := p\<rparr>\<rparr>) = fs_ready b fs"
proof -
  let ?f = "fs\<lparr>fs_disk := (fs_disk fs)\<lparr>cur_pos := p\<rparr>\<rparr>"
  have at: "fat_at ?f bgn sz m = fat_at fs bgn sz m" for bgn sz m by (rule fat_at_bpb) simp
  have "offset_from_cluster ?f c = offset_from_cluster fs c" "cluster_size ?f = cluster_size fs" for c
    by (simp_all add: offset_from_cluster_def sector_from_cluster_def offset_from_sector_def cluster_size_def)
  then show ?thesis using at by (simp add: fs_ready_def volume_def volume_data_def)
qed

lemma same_file_pos:
  assumes "same_file b cs fs fs'"
  shows "same_file b cs fs (fs'\<lparr>fs_disk := (fs_disk fs')\<lparr>cur_pos := p\<rparr>\<rparr>)"
proof -
  let ?f = "fs'\<lparr>fs_disk := (fs_disk fs')\<lparr>cur_pos := p\<rparr>\<rparr>"
  have off: "offset_from_cluster ?f c = offset_from_cluster fs' c" "cluster_size ?f = cluster_size fs'" for c
    by (simp_all add: offset_from_cluster_def sector_from_cluster_def offset_from_sector_def cluster_size_def)
  then have "cluster_data ?f c = cluster_data fs' c" "chain_ok b cs ?f = chain_ok b cs fs'" for c
    by (simp_all add: cluster_data_def chain_ok_def split: sum.split)
  with assms off fs_ready_pos [of b p fs'] show ?thesis by (simp add: same_file_def)
qed

lemma file_bytes_same:
  "same_file b cs (f_fs f) fs' \<Longrightarrow> file_size f' = file_size f \<Longrightarrow> f_fs f' = fs' \<Longrightarrow> file_bytes cs f' = file_bytes cs f"
  by (simp add: file_bytes_def file_len_def same_file_def cong: map_cong option.case_cong)

section \<open>The cluster at the position\<close>

lemma next_cluster_eq:
  assumes "fs_ready b (f_fs f)" "chain_ok b cs (f_fs f)" "i < length cs" "f_current_cluster f = Some (cs ! i)"
  shows "\<exists>fs'. file_next_cluster cursor_ops f = (Inr (if Suc i < length cs then Some (cs ! Suc i) else None), f\<lparr>f_fs := fs'\<rparr>) \<and>
    same_file b cs (f_fs f) fs'"
proof -
  let ?fs = "f_fs f" and ?nx = "if Suc i < length cs then Some (cs ! Suc i) else None"
  let ?N = "unat (fs_total_clusters ?fs) + 2"
  have v: "volume ?fs b" "fat_fits (fs_fat_type ?fs) b ?N" using assms(1) by (auto simp: fs_ready_def)
  have c: "unat (cs ! i) < ?N" using assms(2,3) by (auto simp: chain_ok_def)
  have "fat_chain (fat_entry (fs_fat_type ?fs) b) cs" using assms(2,3) by (auto simp: chain_ok_def)
  note nx = fat_chain_nth [OF this assms(3), symmetric]
  have "\<exists>it'. cluster_iterator_next (fs_fat_ops cursor_ops) it = (Inr (map_option Inr ?nx), it') \<and>
      vol.fat.slice.it_holds ?fs (fs_fat_type ?fs) ?nx b it'"
    if "vol.fat.slice.it_holds ?fs (fs_fat_type ?fs) (Some (cs ! i)) b it" for it
    unfolding fs_fat_ops_def by (rule vol.fat.slice.iterator_next_eq [OF that v(2) c nx]) blast
  then have "\<exists>fs'. with_cluster_iter (cs ! i) (cluster_iterator_next (fs_fat_ops cursor_ops)) ?fs = (Inr (map_option Inr ?nx), fs') \<and>
      volume fs' b \<and> fat_frame ?fs fs'"
    by (intro with_cluster_iter_eq [where co = ?nx, OF v(1)])
  then obtain fs' where fs': "with_cluster_iter (cs ! i) (cluster_iterator_next (fs_fat_ops cursor_ops)) ?fs = (Inr (map_option Inr ?nx), fs')"
    "volume fs' b" "fat_frame ?fs fs'" by blast
  have "file_next_cluster cursor_ops f = (Inr ?nx, f\<lparr>f_fs := fs'\<rparr>)"
    using assms(4) fs'(1) by (simp add: file_next_cluster_def sbind_def on_fs_def sret_def)
  with same_file_frame [OF assms(1,2) fs'(2,3)] show ?thesis by blast
qed

text \<open>The position determines the cluster, which is the next one of the chain at a boundary.\<close>

lemma div_pred:
  fixes o' z :: nat
  assumes "0 < z" "0 < o'"
  shows "(o' - 1) div z = (if o' mod z = 0 then o' div z - 1 else o' div z)"
proof -
  have e: "o' = z * (o' div z) + o' mod z" "o' mod z < z" using assms(1) by simp_all
  show ?thesis
  proof (cases "o' mod z = 0")
    case True
    with e assms obtain j where "o' div z = Suc j" by (cases "o' div z") auto
    with True e assms show ?thesis by (intro trans [OF div_nat_eqI [of z j]]) auto
  next
    case False
    have "z * (o' div z) \<le> o' - 1" using False e by linarith
    moreover have "o' - 1 < z * Suc (o' div z)" unfolding mult_Suc_right using e by linarith
    ultimately have "(o' - 1) div z = o' div z" by (rule div_nat_eqI)
    with False show ?thesis by simp
  qed
qed

lemma file_cluster_eq:
  assumes "file_ok b cs f" "oic = f_offset f mod cluster_size (f_fs f)"
  shows "\<exists>fs'. (if oic = 0 then file_next_cluster cursor_ops else sret (f_current_cluster f)) f =
      (Inr (if file_pos f div csize f < length cs then Some (cs ! (file_pos f div csize f)) else None), f\<lparr>f_fs := fs'\<rparr>) \<and>
    same_file b cs (f_fs f) fs'"
proof -
  let ?o = "file_pos f" and ?z = "csize f"
  have r: "fs_ready b (f_fs f)" "chain_ok b cs (f_fs f)" and z: "0 < ?z" and first: "f_first_cluster f = (case cs of [] \<Rightarrow> None | c # _ \<Rightarrow> Some c)"
    and cur: "f_current_cluster f = (if ?o = 0 then None else Some (cs ! ((?o - 1) div ?z)))" and le: "?o \<le> length cs * ?z"
    using assms(1) by (auto simp: file_ok_def fs_ready_def)
  have oic: "oic = 0 \<longleftrightarrow> ?o mod ?z = 0" by (simp add: assms(2) unat_mod flip: unat_eq_0)
  have id: "f\<lparr>f_fs := f_fs f\<rparr> = f" by simp
  show ?thesis
  proof (cases "?o mod ?z = 0")
    case False
    then have "0 < ?o" by (cases "?o = 0") auto
    have "?o \<noteq> length cs * ?z" using False by auto
    then have k: "?o div ?z < length cs" using le z by (simp add: less_mult_imp_div_less)
    have "f_current_cluster f = Some (cs ! (?o div ?z))" using cur div_pred [OF z \<open>0 < ?o\<close>] False \<open>0 < ?o\<close> by simp
    then show ?thesis using False k oic same_file_refl [OF r] id by (intro exI [of _ "f_fs f"]) (simp add: sret_def)
  next
    case True
    show ?thesis
    proof (cases "?o = 0")
      case True
      then show ?thesis
        using oic first cur same_file_refl [OF r] id
        by (intro exI [of _ "f_fs f"]) (simp add: file_next_cluster_def split: list.splits)
    next
      case False
      let ?i = "?o div ?z - 1"
      have "?o = ?o div ?z * ?z" using True by (metis mult_div_mod_eq add.right_neutral mult.commute)
      then have d: "0 < ?o div ?z" "?o div ?z \<le> length cs" using False le z by (metis gr0I mult_is_0, metis mult_le_cancel2)
      then have i: "?i < length cs" "Suc ?i = ?o div ?z" by linarith+
      have "f_current_cluster f = Some (cs ! ?i)" using cur div_pred [OF z] False True by simp
      from next_cluster_eq [OF r i(1) this] True oic show ?thesis unfolding i(2) by simp
    qed
  qed
qed

section \<open>Reading\<close>

lemma length_cluster_data:
  assumes "fs_ready b fs" "chain_ok b cs fs" "c \<in> set cs"
  shows "\<exists>off. offset_from_cluster fs c = Inr off \<and> unat off + unat (cluster_size fs) \<le> length (disk_bytes fs) \<and>
    cluster_data fs c = window (unat off) (unat (cluster_size fs)) (disk_bytes fs) \<and> length (cluster_data fs c) = unat (cluster_size fs)"
proof -
  obtain bgn sz m where g: "fat_at fs bgn sz m" using assms(1) unfolding fs_ready_def volume_def by blast
  obtain o' where "offset_from_cluster fs c = Inr o'" "unat o' + unat (cluster_size fs) \<le> length (disk_bytes fs)"
    using assms g unfolding fs_ready_def chain_ok_def volume_data_def by blast
  then show ?thesis by (simp add: cluster_data_def)
qed

lemma set_accessed_step:
  assumes "opt_update_accessed_date opts \<longrightarrow> is_ok (date_encode (opt_current_date opts))" "fs_options (f_fs f) = opts"
  shows "\<exists>e. file_touch_accessed f = (Inr (), f\<lparr>f_entry := e\<rparr>) \<and>
    file_size (f\<lparr>f_entry := e\<rparr>) = file_size f"
proof (cases "opt_update_accessed_date opts")
  case False
  with assms(2) show ?thesis by (intro exI [of _ "f_entry f"]) (simp add: file_touch_accessed_def)
next
  case True
  with assms(1) obtain x where x: "date_encode (opt_current_date opts) = Inr x" by (auto elim: is_okE)
  show ?thesis
  proof (cases "f_entry f")
    case None
    with True assms(2) show ?thesis by (intro exI [of _ None]) (simp add: file_touch_accessed_def on_entry_def file_size_def)
  next
    case (Some e)
    then show ?thesis using True assms(2) x
      by (auto simp: file_touch_accessed_def on_entry_def editor_set_accessed_def file_entry_set_accessed_def file_size_def file_entry_size_def
          file_entry_is_file_def file_entry_is_dir_def)
  qed
qed

lemma disk_read_step:
  assumes "p + k \<le> length (disk_bytes (f_fs f))"
  shows "sbind (on_fs (on_disk (io_seek cursor_ops (Start p)))) (\<lambda>_. sbind (on_fs (on_disk (io_read cursor_ops k))) g) f =
    g (window p k (disk_bytes (f_fs f))) (f\<lparr>f_fs := (f_fs f)\<lparr>fs_disk := (fs_disk (f_fs f))\<lparr>cur_pos := p + k\<rparr>\<rparr>\<rparr>)"
proof -
  have "min p (length (disk_bytes (f_fs f))) = p" "min k (length (disk_bytes (f_fs f)) - p) = k" using assms by auto
  then show ?thesis by (simp add: sbind_def on_fs_def on_disk_def cursor_ops_def cursor_seek_def cursor_read_def slice_read_def
      cursor_get_buf_def window_def Let_def)
qed

lemma file_ok_same:
  assumes "file_ok b cs f" "same_file b cs (f_fs f) fs'" "file_size f' = file_size f" "f_fs f' = fs'"
    "f_first_cluster f' = f_first_cluster f"
    and "file_pos f' \<le> file_len cs f" "f_current_cluster f' = (if file_pos f' = 0 then None else Some (cs ! ((file_pos f' - 1) div csize f)))"
  shows "file_ok b cs f'" "file_bytes cs f' = file_bytes cs f"
proof -
  have "file_len cs f' = file_len cs f" using assms(2-4) by (simp add: file_len_def same_file_def cong: option.case_cong)
  then show "file_ok b cs f'" using assms by (simp add: file_ok_def same_file_def)
  show "file_bytes cs f' = file_bytes cs f" by (rule file_bytes_same [OF assms(2-4)])
qed

text \<open>How much one \<open>read\<close> returns.\<close>

definition read_amount :: "u32 list \<Rightarrow> cursor fat_file \<Rightarrow> nat \<Rightarrow> nat" where
  "read_amount cs f n = min (min n (csize f - file_pos f mod csize f)) (file_len cs f - file_pos f)"

lemma read_window:
  assumes "fs_ready b fs" "chain_ok b cs fs" "q < length cs" "r + k \<le> unat (cluster_size fs)"
    "offset_from_cluster fs (cs ! q) = Inr off"
  shows "window (unat off + r) k (disk_bytes fs) = window (q * unat (cluster_size fs) + r) k (concat (map (cluster_data fs) cs))"
proof -
  let ?z = "unat (cluster_size fs)"
  have l: "length x = ?z" if "x \<in> set (map (cluster_data fs) cs)" for x
    using that length_cluster_data [OF assms(1,2)] by auto
  have "window (q * ?z + r) k (concat (map (cluster_data fs) cs)) = window r k (map (cluster_data fs) cs ! q)"
    by (rule window_concat) (use l assms(3,4) in auto)
  also have "\<dots> = window r k (window (unat off) ?z (disk_bytes fs))"
    using assms(3,5) by (simp add: cluster_data_def)
  also have "\<dots> = window (unat off + r) k (disk_bytes fs)" by (rule window_window [OF assms(4)])
  finally show ?thesis by simp
qed

lemma read_amount_in_cluster:
  assumes "file_ok b cs f" "file_pos f div csize f < length cs"
  shows "(case (case file_size f of None \<Rightarrow> None | Some s \<Rightarrow> Some (s - f_offset f)) of Some x \<Rightarrow> unat x
      | None \<Rightarrow> csize f - file_pos f mod csize f) = file_len cs f - file_pos f \<or>
    file_size f = None \<and> csize f - file_pos f mod csize f \<le> file_len cs f - file_pos f"
proof (cases "file_size f")
  case None
  let ?o = "file_pos f" and ?z = "csize f"
  have "Suc (?o div ?z) * ?z \<le> length cs * ?z" using assms(2) by (intro mult_le_mono1) simp
  moreover have "?o = ?o div ?z * ?z + ?o mod ?z" by simp
  ultimately have "?z - ?o mod ?z \<le> length cs * ?z - ?o" unfolding mult_Suc by linarith
  then show ?thesis using None by (simp add: file_len_def)
next
  case (Some s)
  then have "f_offset f \<le> s" using assms(1) by (simp add: file_ok_def file_len_def word_le_nat_alt)
  then show ?thesis using Some by (simp add: file_len_def unat_sub_noof)
qed

text \<open>The part of \<open>read\<close> after the cluster is known.\<close>

definition read_body :: "nat \<Rightarrow> nat \<Rightarrow> u32 \<Rightarrow> (cursor fat_file, u8 list) st" where
  "read_body p k c =
     sbind (on_fs (on_disk (io_seek cursor_ops (Start p)))) (\<lambda>_.
     sbind (on_fs (on_disk (io_read cursor_ops k))) (\<lambda>bs.
     if bs = [] then sret [] else
     sbind (file_advance (length bs) c) (\<lambda>_.
     sbind file_touch_accessed (\<lambda>_. sret bs))))"

lemma offset_in_cluster:
  assumes "file_ok b cs f"
  defines "oic \<equiv> f_offset f mod cluster_size (f_fs f)"
  shows "cmod (f_offset f) (cluster_size (f_fs f)) = Inr oic" "unat oic = file_pos f mod csize f"
    "unat (cluster_size (f_fs f) - oic) = csize f - file_pos f mod csize f" "file_pos f mod csize f < csize f"
proof -
  have z: "0 < csize f" using assms(1) by (auto simp: file_ok_def fs_ready_def)
  then show "cmod (f_offset f) (cluster_size (f_fs f)) = Inr oic" by (auto simp: cmod_def oic_def)
  show u: "unat oic = file_pos f mod csize f" by (simp add: oic_def unat_mod)
  show "file_pos f mod csize f < csize f" using z by simp
  then have "oic \<le> cluster_size (f_fs f)" by (simp add: word_le_nat_alt u less_imp_le)
  then show "unat (cluster_size (f_fs f) - oic) = csize f - file_pos f mod csize f" by (simp add: unat_sub_noof u)
qed

lemma file_read_unfold:
  assumes "file_ok b cs f" "oic = f_offset f mod cluster_size (f_fs f)" "file_pos f div csize f < length cs"
    and "(if oic = 0 then file_next_cluster cursor_ops else sret (f_current_cluster f)) f = (Inr (Some c), f1)"
    and "offset_from_cluster (f_fs f) c = Inr off"
  shows "file_read cursor_ops n f = (if read_amount cs f n = 0 then (Inr [], f1)
    else read_body (unat off + file_pos f mod csize f) (read_amount cs f n) c f1)"
proof -
  let ?cs = "cluster_size (f_fs f)" and ?k = "read_amount cs f n"
  note oic = offset_in_cluster [OF assms(1), folded assms(2)]
  have left: "bytes_left_in_file f = Inr (case file_size f of None \<Rightarrow> None | Some s \<Rightarrow> Some (s - f_offset f))"
    using assms(1) by (auto simp: bytes_left_in_file_def file_ok_def file_len_def csub_def word_le_nat_alt split: option.splits)
  have k: "min (min n (unat (?cs - oic))) (case (case file_size f of None \<Rightarrow> None | Some s \<Rightarrow> Some (s - f_offset f)) of
      Some x \<Rightarrow> unat x | None \<Rightarrow> unat (?cs - oic)) = ?k"
    unfolding oic(3) using read_amount_in_cluster [OF assms(1,3)] by (auto simp: read_amount_def min_def)
  show ?thesis
    using assms(4,5) oic(1,2) left k unfolding file_read_def read_body_def Let_def
    by (simp add: sbind_Inr slift_def sret_def)
qed

lemma read_body_eq:
  assumes "file_ok b cs f" "same_file b cs (f_fs f) fs1" "q = file_pos f div csize f" "q < length cs"
    and "offset_from_cluster (f_fs f) (cs ! q) = Inr off" "0 < k" "file_pos f mod csize f + k \<le> csize f" "file_pos f + k \<le> file_len cs f"
  shows "\<exists>f'. read_body (unat off + file_pos f mod csize f) k (cs ! q) (f\<lparr>f_fs := fs1\<rparr>) =
      (Inr (window (file_pos f) k (file_bytes cs f)), f') \<and> file_ok b cs f' \<and>
    file_bytes cs f' = file_bytes cs f \<and> file_pos f' = file_pos f + k \<and> same_file b cs (f_fs f) (f_fs f') \<and>
    (\<not> opt_update_accessed_date (fs_options (f_fs f)) \<longrightarrow> f_entry f' = f_entry f)"
proof -
  let ?o = "file_pos f" and ?z = "csize f"
  let ?p = "unat off + ?o mod ?z" and ?bs = "window ?o k (file_bytes cs f)"
  let ?fs2 = "fs1\<lparr>fs_disk := (fs_disk fs1)\<lparr>cur_pos := ?p + k\<rparr>\<rparr>"
  let ?f3 = "f\<lparr>f_fs := ?fs2, f_offset := f_offset f + of_nat k, f_current_cluster := Some (cs ! q)\<rparr>"
  have ok: "length cs * ?z < 2 ^ 32" "file_len cs f \<le> length cs * ?z" "fs_ready b (f_fs f)"
    using assms(1) by (auto simp: file_ok_def chain_ok_def)
  have r1: "fs_ready b fs1" "chain_ok b cs fs1" "cluster_size fs1 = cluster_size (f_fs f)" "offset_from_cluster fs1 (cs ! q) = Inr off"
    using assms(2,4,5) by (auto simp: same_file_def)
  have in_d: "unat off + ?z \<le> length (disk_bytes fs1)"
    using length_cluster_data [OF r1(1,2), of "cs ! q"] r1(3,4) assms(4) by auto
  have bs: "window ?p k (disk_bytes fs1) = ?bs"
  proof -
    have "window ?p k (disk_bytes fs1) = window ?o k (concat (map (cluster_data fs1) cs))"
      using read_window [OF r1(1,2) assms(4), of "?o mod ?z" k off] assms(3,7) r1(3,4) by simp
    also have "\<dots> = window ?o k (file_bytes cs (f\<lparr>f_fs := fs1\<rparr>))"
      unfolding file_bytes_def using assms(2,8)
      by (simp add: window_take file_len_def file_size_def same_file_def cong: option.case_cong)
    finally show ?thesis using file_bytes_same [OF assms(2), of "f\<lparr>f_fs := fs1\<rparr>"] by (simp add: file_size_def)
  qed
  have lbs: "length ?bs = k" using assms(7) in_d bs length_window [of ?p k "disk_bytes fs1"] by simp
  have "unat (of_nat k :: u32) = k" using assms(8) ok(1,2) by (simp add: unat_of_nat)
  then have adv: "cadd (f_offset f) (of_nat k) = Inr (f_offset f + of_nat k)" "unat (f_offset f + of_nat k) = ?o + k"
    using assms(8) ok(1,2) by (simp_all add: cadd_Inr unat_add_noof)
  have s2: "same_file b cs (f_fs f) ?fs2" by (rule same_file_pos [OF assms(2)])
  obtain e where e: "file_touch_accessed ?f3 = (Inr (), ?f3\<lparr>f_entry := e\<rparr>)"
    "file_size (?f3\<lparr>f_entry := e\<rparr>) = file_size ?f3"
    using set_accessed_step [of "fs_options (f_fs f)" ?f3] ok(3) s2 by (auto simp: fs_ready_def same_file_def)
  have e0: "e = f_entry f" if "\<not> opt_update_accessed_date (fs_options (f_fs f))"
    using e(1) that s2 by (auto simp: file_touch_accessed_def same_file_def dest: arg_cong [of _ _ f_entry])
  have "(?o + k - 1) div ?z = q"
  proof (rule div_nat_eqI)
    have "?o = ?z * q + ?o mod ?z" using assms(3) by simp
    then show "?z * q \<le> ?o + k - 1" "?o + k - 1 < ?z * Suc q"
      using assms(6,7) unfolding mult_Suc_right by linarith+
  qed
  then have "file_ok b cs (?f3\<lparr>f_entry := e\<rparr>) \<and> file_bytes cs (?f3\<lparr>f_entry := e\<rparr>) = file_bytes cs f"
    using file_ok_same [OF assms(1) s2, of "?f3\<lparr>f_entry := e\<rparr>"] e(2) assms(6,8) adv(2) by (simp add: file_size_def)
  moreover have "read_body ?p k (cs ! q) (f\<lparr>f_fs := fs1\<rparr>) = (Inr ?bs, ?f3\<lparr>f_entry := e\<rparr>)"
  proof -
    have "?p + k \<le> length (disk_bytes (f_fs (f\<lparr>f_fs := fs1\<rparr>)))" using assms(7) in_d by simp
    moreover have "?bs \<noteq> []" using lbs assms(6) by auto
    ultimately show ?thesis unfolding read_body_def using bs lbs adv(1) e(1)
      by (simp add: disk_read_step) (simp add: sbind_def file_advance_def sret_def)
  qed
  ultimately show ?thesis using adv(2) s2 e0 by (intro exI [of _ "?f3\<lparr>f_entry := e\<rparr>"]) simp
qed

text \<open>The outcome of one \<open>read\<close>.\<close>

lemma file_read_eq:
  assumes "file_ok b cs f"
  shows "\<exists>f'. file_read cursor_ops n f = (Inr (window (file_pos f) (read_amount cs f n) (file_bytes cs f)), f') \<and> file_ok b cs f' \<and>
    file_bytes cs f' = file_bytes cs f \<and> file_pos f' = file_pos f + read_amount cs f n \<and> same_file b cs (f_fs f) (f_fs f') \<and>
    (\<not> opt_update_accessed_date (fs_options (f_fs f)) \<longrightarrow> f_entry f' = f_entry f)"
proof -
  let ?o = "file_pos f" and ?z = "csize f" and ?k = "read_amount cs f n"
  define oic where "oic = f_offset f mod cluster_size (f_fs f)"
  note oic = offset_in_cluster [OF assms, folded oic_def]
  have ok: "fs_ready b (f_fs f)" "chain_ok b cs (f_fs f)" "?o \<le> file_len cs f" "file_len cs f \<le> length cs * ?z"
    using assms by (auto simp: file_ok_def)
  obtain fs1 where fs1: "(if oic = 0 then file_next_cluster cursor_ops else sret (f_current_cluster f)) f =
      (Inr (if ?o div ?z < length cs then Some (cs ! (?o div ?z)) else None), f\<lparr>f_fs := fs1\<rparr>)" "same_file b cs (f_fs f) fs1"
    using file_cluster_eq [OF assms oic_def] by blast
  have ok1: "file_ok b cs (f\<lparr>f_fs := fs1\<rparr>)" "file_bytes cs (f\<lparr>f_fs := fs1\<rparr>) = file_bytes cs f"
    by (rule file_ok_same [OF assms fs1(2)]; use assms in \<open>auto simp: file_ok_def file_size_def\<close>)+
  show ?thesis
  proof (cases "?o div ?z < length cs")
    case False
    then have "length cs * ?z \<le> ?o div ?z * ?z" by (intro mult_le_mono1) simp
    also have "\<dots> \<le> ?o" by simp
    finally have "?k = 0" using ok(3,4) by (simp add: read_amount_def)
    then show ?thesis using ok1 fs1 False oic(1)
      by (intro exI [of _ "f\<lparr>f_fs := fs1\<rparr>"]) (simp add: file_read_def Let_def sbind_def slift_def sret_def)
  next
    case True
    obtain off where off: "offset_from_cluster (f_fs f) (cs ! (?o div ?z)) = Inr off"
      using length_cluster_data [OF ok(1,2), of "cs ! (?o div ?z)"] True by auto
    have kz: "?o mod ?z + ?k \<le> ?z" "?o + ?k \<le> file_len cs f" using ok(3) oic(4) unfolding read_amount_def by linarith+
    have "file_read cursor_ops n f = (if ?k = 0 then (Inr [], f\<lparr>f_fs := fs1\<rparr>)
        else read_body (unat off + ?o mod ?z) ?k (cs ! (?o div ?z)) (f\<lparr>f_fs := fs1\<rparr>))"
      by (rule file_read_unfold [OF assms oic_def True _ off]) (use fs1(1) True in simp)
    with ok1 fs1(2) read_body_eq [OF assms fs1(2) refl True off _ kz] show ?thesis by (cases "?k = 0") auto
  qed
qed

lemma length_file_bytes:
  assumes "file_ok b cs f"
  shows "length (file_bytes cs f) = file_len cs f"
proof -
  have ok: "fs_ready b (f_fs f)" "chain_ok b cs (f_fs f)" "file_len cs f \<le> length cs * csize f" using assms by (auto simp: file_ok_def)
  have "length (concat (map (cluster_data (f_fs f)) cs)) = length (map (cluster_data (f_fs f)) cs) * csize f"
    by (rule length_concat_uniform) (use length_cluster_data [OF ok(1,2)] in auto)
  then show ?thesis using ok(3) by (simp add: file_bytes_def)
qed

interpretation file_rd: read_stream "file_read cursor_ops" "file_bytes cs" file_pos "file_ok b cs"
  for b cs
proof (unfold_locales, goal_cases)
  case (1 f n)
  let ?k = "read_amount cs f n"
  have z: "file_pos f mod csize f < csize f" using offset_in_cluster(4) [OF 1(1)] .
  have k: "?k \<le> n" "file_pos f + ?k \<le> length (file_bytes cs f)" "0 < n \<and> file_pos f < length (file_bytes cs f) \<longrightarrow> 0 < ?k"
    using 1 z by (auto simp: read_amount_def length_file_bytes [OF 1(1)])
  then have "length (window (file_pos f) ?k (file_bytes cs f)) = ?k" by simp
  with k file_read_eq [OF 1(1), of n] show ?case by (auto simp: wp_def)
qed

text \<open>C9: reading a file returns its content: on a consistent file \<open>read_exact\<close> of bytes inside the file
  succeeds, returns exactly these bytes of the chain of clusters, moves the position behind them, and
  leaves the content and the consistency of the file as they were.\<close>

theorem file_read_exact_correct:
  assumes "file_ok b cs f" "file_pos f + n \<le> file_len cs f"
  shows "\<exists>f'. io_read_exact (file_ops cursor_ops) n f = (Inr (window (file_pos f) n (file_bytes cs f)), f') \<and>
    file_ok b cs f' \<and> file_bytes cs f' = file_bytes cs f \<and> file_pos f' = file_pos f + n"
proof -
  have h: "file_rd.holds cs b (file_bytes cs f) (file_pos f) f" using assms(1) by (simp add: file_rd.holds_def)
  have "wp (default_read_exact (file_read cursor_ops) n)
      (\<lambda>bs f'. bs = window (file_pos f) n (file_bytes cs f) \<and> file_rd.holds cs b (file_bytes cs f) (file_pos f + n) f') no_err f"
    by (rule file_rd.default_read_exact_wp [OF h]) (use assms length_file_bytes [OF assms(1)] in auto)
  then show ?thesis by (auto simp: file_ops_def file_rd.holds_def elim!: wp_no_errE)
qed

section \<open>Seeking\<close>

lemma ceil_arith:
  fixes a z :: nat
  assumes "0 < z" "a < 4294967296" "z < 4294967296"
  shows "int a + int z < 2 ^ 63 \<and> \<not> int a + int z - 1 < 0 \<and> int z \<noteq> 0 \<and>
    int ((a + z - 1) div z) = (int a + int z - 1) div int z"
proof -
  have "int (a + z - 1) = int a + int z - 1" using assms(1) by linarith
  then have "int ((a + z - 1) div z) = (int a + int z - 1) div int z" by (simp add: zdiv_int)
  with assms show ?thesis by simp
qed

lemma cluster_index_eq:
  assumes "512 \<le> unat (cluster_size fs)" "unat n \<le> k * unat (cluster_size fs)" "k * unat (cluster_size fs) < 2 ^ 32"
  shows "cluster_index fs n = Inr (if n = 0 then - 1 else int ((unat n - 1) div unat (cluster_size fs)))"
proof -
  let ?z = "unat (cluster_size fs)" and ?w = "(unat n + unat (cluster_size fs) - 1) div unat (cluster_size fs)"
  have z: "0 < ?z" using assms(1) by linarith
  have zb: "?z < 4294967296" and nb: "unat n < 4294967296" using unat_less_2p [of "cluster_size fs"] unat_less_2p [of n] by simp_all
  have sb: "sint (ucast n :: u64) = int (unat n)"
  proof -
    have "unat (ucast n :: u64) = unat n" using unat_less_2p [of n] by (simp add: unat_ucast)
    from arg_cong [OF this, of int] have "uint (ucast n :: u64) = uint n" by (simp only: of_nat_unat)
    moreover have "uint n < 2 ^ 63" "- (2 ^ 63) \<le> uint n"
      using uint_lt2p [of n] by (auto intro: order_trans [OF _ uint_ge_0])
    ultimately have "signed_take_bit 63 (uint (ucast n :: u64)) = uint n" by (simp only: signed_take_bit_int_eq_self)
    then show ?thesis by (simp add: sint_uint)
  qed
  have "clusters_from_bytes (fs_bpb fs) (ucast n) = Inr (word_of_int (int ?w))"
  proof -
    have u: "uint (bpb_cluster_size (fs_bpb fs)) = int ?z" by (simp add: cluster_size_def)
    have x: "int (unat n) + int ?z < 2 ^ 63" "\<not> int (unat n) + int ?z - 1 < 0" "int ?z \<noteq> 0"
      and w: "int ?w = (int (unat n) + int ?z - 1) div int ?z"
      using ceil_arith [OF z nb zb] by blast+
    show ?thesis unfolding clusters_from_bytes_def sb u Let_def w using x by (simp only: if_False not_le [symmetric] simp_thms)
  qed
  moreover have "?w < 2 ^ 31"
  proof -
    have "?w \<le> (k * ?z + (?z - 1)) div ?z" using assms(2) z by (intro div_le_mono) linarith
    also have "\<dots> = k" by (rule div_nat_eqI) (use z in \<open>simp_all add: mult.commute\<close>)
    finally have "?w \<le> k" .
    moreover have "k * 512 \<le> k * ?z" using assms(1) by simp
    then have "k * 512 < 2 ^ 32" using assms(3) by (rule le_less_trans)
    then have "k < 2 ^ 31" by simp
    ultimately show ?thesis by (rule le_less_trans)
  qed
  then have "sint (word_of_int (int ?w) :: u32) = int ?w" by (subst sint_small) (simp_all add: unat_of_nat)
  moreover have "?w = (if n = 0 then 0 else Suc ((unat n - 1) div ?z))"
  proof (cases "n = 0")
    case False
    then have e: "unat n + ?z - 1 = (unat n - 1) + ?z" using unat_gt_0 [of n] by linarith
    have "?w = Suc ((unat n - 1) div ?z)" unfolding e using z by (subst div_add_self2) auto
    with False show ?thesis by simp
  qed (use z in simp)
  ultimately show ?thesis by (auto simp: cluster_index_def fs_clusters_from_bytes_def)
qed

lemma seek_loop_eq:
  assumes "fs_ready b fs" "chain_ok b cs fs" "j + k < length cs"
    and "vol.fat.slice.it_holds fs (fs_fat_type fs) (Some (cs ! j)) b it"
  shows "\<exists>it'. seek_loop cursor_ops k i (cs ! j) it = (Inr (cs ! (j + k), None), it') \<and>
    vol.fat.slice.it_holds fs (fs_fat_type fs) (Some (cs ! (j + k))) b it'"
  using assms(3,4)
proof (induction k arbitrary: i j it)
  case (Suc k)
  let ?N = "unat (fs_total_clusters fs) + 2"
  have f: "fat_fits (fs_fat_type fs) b ?N" using assms(1) by (simp add: fs_ready_def)
  have c: "unat (cs ! j) < ?N" "fat_chain (fat_entry (fs_fat_type fs) b) cs" using assms(2) Suc.prems(1) by (auto simp: chain_ok_def)
  have nx: "Some (cs ! Suc j) = (case fat_entry (fs_fat_type fs) b (unat (cs ! j)) of Data n \<Rightarrow> Some n | _ \<Rightarrow> None)"
    using fat_chain_nth [OF c(2), of j] Suc.prems(1) by simp
  obtain it1 where it1: "cluster_iterator_next (fs_fat_ops cursor_ops) it = (Inr (map_option Inr (Some (cs ! Suc j))), it1)"
    "vol.fat.slice.it_holds fs (fs_fat_type fs) (Some (cs ! Suc j)) b it1"
    unfolding fs_fat_ops_def by (rule vol.fat.slice.iterator_next_eq [OF Suc.prems(2) f c(1) nx])
  show ?case using Suc.IH [OF _ it1(2), of "i + 1"] it1(1) Suc.prems(1) by simp
qed auto

lemma seek_cluster_eq:
  assumes "file_ok b cs f" "unat n \<le> file_len cs f"
  shows "\<exists>fs'. seek_cluster cursor_ops n (if n = 0 then - 1 else int ((unat n - 1) div csize f))
        (if f_offset f = 0 then - 1 else int ((file_pos f - 1) div csize f)) f =
      (Inr (if n = 0 then None else Some (cs ! ((unat n - 1) div csize f)), n), f\<lparr>f_fs := fs'\<rparr>) \<and> same_file b cs (f_fs f) fs'"
proof -
  let ?z = "csize f" and ?fs = "f_fs f"
  note nlen = assms(2)
  have ok: "fs_ready b ?fs" "chain_ok b cs ?fs" "512 \<le> ?z" "file_len cs f \<le> length cs * ?z" "length cs * ?z < 2 ^ 32"
    "file_pos f \<le> file_len cs f" "f_first_cluster f = (case cs of [] \<Rightarrow> None | c # _ \<Rightarrow> Some c)"
    "f_current_cluster f = (if file_pos f = 0 then None else Some (cs ! ((file_pos f - 1) div ?z)))"
    using assms(1) by (auto simp: file_ok_def fs_ready_def chain_ok_def)
  have id: "f\<lparr>f_fs := ?fs\<rparr> = f" by simp
  consider "n = 0" | "n \<noteq> 0" "f_offset f \<noteq> 0" "(unat n - 1) div ?z = (file_pos f - 1) div ?z"
    | "n \<noteq> 0" "\<not> (f_offset f \<noteq> 0 \<and> (unat n - 1) div ?z = (file_pos f - 1) div ?z)" by blast
  then show ?thesis
  proof cases
    case 1
    then show ?thesis using same_file_refl [OF ok(1,2)] id by (intro exI [of _ ?fs]) (simp add: seek_cluster_def)
  next
    case 2
    then have "file_pos f \<noteq> 0" by (simp add: unat_eq_0)
    with 2 show ?thesis using same_file_refl [OF ok(1,2)] ok(8) id by (intro exI [of _ ?fs]) (simp add: seek_cluster_def)
  next
    case 3
    let ?k = "(unat n - 1) div ?z"
    have n0: "0 < unat n" using 3(1) by (simp add: unat_gt_0)
    then have k: "?k < length cs"
      using nlen ok(4) by (intro less_mult_imp_div_less) linarith
    then obtain c ds where cs: "cs = c # ds" by (cases cs) auto
    have "\<exists>it'. seek_loop cursor_ops ?k 0 c it = (Inr (cs ! ?k, None), it') \<and>
        vol.fat.slice.it_holds ?fs (fs_fat_type ?fs) (Some (cs ! ?k)) b it'"
      if "vol.fat.slice.it_holds ?fs (fs_fat_type ?fs) (Some c) b it" for it
      using seek_loop_eq [OF ok(1,2), of 0 ?k it 0] k that cs by simp
    then have "\<exists>fs'. with_cluster_iter c (seek_loop cursor_ops ?k 0 c) ?fs = (Inr (cs ! ?k, None), fs') \<and> volume fs' b \<and> fat_frame ?fs fs'"
      using ok(1) by (intro with_cluster_iter_eq [where co = "Some (cs ! ?k)"]) (auto simp: fs_ready_def)
    then obtain fs' where fs': "with_cluster_iter c (seek_loop cursor_ops ?k 0 c) ?fs = (Inr (cs ! ?k, None), fs')"
      "volume fs' b" "fat_frame ?fs fs'" by blast
    have ne: "int ?k \<noteq> (if f_offset f = 0 then - 1 else int ((file_pos f - 1) div ?z))" using 3(2) by auto
    have first: "f_first_cluster f = Some c" using ok(7) cs by simp
    have "seek_cluster cursor_ops n (int ?k) (if f_offset f = 0 then - 1 else int ((file_pos f - 1) div ?z)) f =
        (Inr (Some (cs ! ?k), n), f\<lparr>f_fs := fs'\<rparr>)"
      using 3(1) ne fs'(1) first unfolding seek_cluster_def by (simp add: sbind_def on_fs_def)
    then show ?thesis using 3(1) same_file_frame [OF ok(1,2) fs'(2,3)] by auto
  qed
qed

lemma file_seek_result:
  assumes "file_ok b cs f" "file_size f = Some s"
  shows "case seek_target f pos of
      Inl e \<Rightarrow> file_seek cursor_ops pos f = (Inl e, f)
    | Inr t \<Rightarrow> 0 \<le> t \<and> t \<le> uint s \<and> (\<exists>f'. file_seek cursor_ops pos f = (Inr (nat t), f') \<and> file_ok b cs f' \<and>
        file_bytes cs f' = file_bytes cs f \<and> file_pos f' = nat t)"
proof (cases "seek_target f pos")
  case (Inl e)
  then show ?thesis by (simp add: file_seek_def sfail_def)
next
  case (Inr t)
  then have t: "0 \<le> t" "t \<le> uint s" using assms(2) by (auto simp: seek_target_def split: if_splits)
  define n where "n = (word_of_int t :: u32)"
  have un: "unat n = nat t"
  proof -
    have "t < 2 ^ 32" using t(2) uint_lt2p [of s] by simp
    then have "uint n = t" using t(1) by (simp add: n_def uint_word_of_int)
    then show ?thesis using unat_eq_nat_uint [of n] by simp
  qed
  have nlen: "unat n \<le> file_len cs f" using nat_mono [OF t(2)] assms(2) by (simp add: un file_len_def)
  let ?z = "csize f" and ?fs = "f_fs f"
  have ok: "fs_ready b ?fs" "chain_ok b cs ?fs" "512 \<le> ?z" "file_len cs f \<le> length cs * ?z" "length cs * ?z < 2 ^ 32"
    "file_pos f \<le> file_len cs f"
    using assms(1) by (auto simp: file_ok_def fs_ready_def chain_ok_def)
  have ix: "cluster_index ?fs w = Inr (if w = 0 then - 1 else int ((unat w - 1) div ?z))" if "unat w \<le> file_len cs f" for w
    by (rule cluster_index_eq [OF ok(3) _ ok(5)]) (use that ok(4) in simp)
  have "\<exists>fs'. seek_cluster cursor_ops n (if n = 0 then - 1 else int ((unat n - 1) div ?z))
        (if f_offset f = 0 then - 1 else int ((file_pos f - 1) div ?z)) f =
      (Inr (if n = 0 then None else Some (cs ! ((unat n - 1) div ?z)), n), f\<lparr>f_fs := fs'\<rparr>) \<and> same_file b cs ?fs fs'"
    by (rule seek_cluster_eq [OF assms(1) nlen])
  then obtain fs' where fs': "seek_cluster cursor_ops n (if n = 0 then - 1 else int ((unat n - 1) div ?z))
        (if f_offset f = 0 then - 1 else int ((file_pos f - 1) div ?z)) f =
      (Inr (if n = 0 then None else Some (cs ! ((unat n - 1) div ?z)), n), f\<lparr>f_fs := fs'\<rparr>)" "same_file b cs ?fs fs'" by blast
  show ?thesis
  proof (cases "n = f_offset f")
    case True
    then have "file_seek cursor_ops pos f = (Inr (nat t), f)"
      using Inr un by (simp add: file_seek_def sbind_def slift_def sret_def n_def [symmetric] Let_def)
    then show ?thesis using Inr t assms(1) True un by auto
  next
    case False
    let ?f = "f\<lparr>f_fs := fs', f_offset := n, f_current_cluster := (if n = 0 then None else Some (cs ! ((unat n - 1) div ?z)))\<rparr>"
    have "file_seek cursor_ops pos f = (Inr (nat t), ?f)"
      using Inr un False ix [OF nlen] ix [OF ok(6)] fs'(1)
      by (simp add: file_seek_def sbind_def slift_def n_def [symmetric] Let_def)
    moreover have "file_ok b cs ?f \<and> file_bytes cs ?f = file_bytes cs f"
      using file_ok_same [OF assms(1) fs'(2), of ?f] nlen by (simp add: file_size_def unat_eq_0)
    ultimately show ?thesis using Inr t un by simp
  qed
qed

lemma seek_target_eq:
  assumes "file_size f = Some s"
    and "t = (case pos of Start n \<Rightarrow> if n < 2 ^ 63 then int n else int n - 2 ^ 64
                        | Current x \<Rightarrow> int (file_pos f) + x | End x \<Rightarrow> int (unat s) + x)"
  shows "seek_target f pos = (if t \<ge> 2 ^ 63 then Inl (Panic Overflow) else if t < 0 then Inl (Io InvalidInput)
    else Inr (min t (int (unat s))))"
  using assms by (cases pos) (simp_all add: seek_target_def as_i64_def)

text \<open>C13: seeking in a file computes its target from the request: the given offset read as a signed number, the
  position plus the given distance, or the size of the file plus the given distance.  A target from 0 to the largest
  signed number moves the position to the target, cut to the size of the file, and to the cluster that belongs to it,
  whatever the position was, and keeps the contents; a negative target is the error of an invalid input and changes
  nothing, and a sum over the largest signed number panics.\<close>

theorem file_seek_correct:
  assumes "file_ok b cs f" "file_size f = Some s"
    and "t = (case pos of Start n \<Rightarrow> if n < 2 ^ 63 then int n else int n - 2 ^ 64
                        | Current x \<Rightarrow> int (file_pos f) + x | End x \<Rightarrow> int (unat s) + x)"
  shows "if t \<ge> 2 ^ 63 then file_seek cursor_ops pos f = (Inl (Panic Overflow), f)
    else if t < 0 then file_seek cursor_ops pos f = (Inl (Io InvalidInput), f)
    else \<exists>f'. file_seek cursor_ops pos f = (Inr (min (nat t) (unat s)), f') \<and> file_ok b cs f' \<and>
      file_bytes cs f' = file_bytes cs f \<and> file_pos f' = min (nat t) (unat s)"
proof -
  have "nat (min t (int (unat s))) = min (nat t) (unat s)" by (simp add: min_def nat_le_iff)
  then show ?thesis
    using file_seek_result [OF assms(1,2), of pos] seek_target_eq [OF assms(2,3)] by (auto split: if_splits)
qed

section \<open>A file in memory\<close>

definition demo_file :: "cursor fat_file" where
  "demo_file = file_new (Some 2) (Some (editor_new ((file_entry_new (replicate 11 0x41) ATTR_ARCHIVE)\<lparr>fe_size := 600\<rparr>) 3072)) demo_fs"

lemma demo_file_simps [simp]:
  "f_fs demo_file = demo_fs" "f_offset demo_file = 0" "f_first_cluster demo_file = Some 2" "f_current_cluster demo_file = None"
  "file_size demo_file = Some 600" "unat (cluster_size demo_fs) = 512"
  by (simp_all add: demo_file_def file_new_def file_size_def editor_new_def file_entry_new_def file_entry_size_def
      file_entry_is_file_def file_entry_is_dir_def attr_contains_def attr_defs file_entry_default_def demo_fs_def
      cluster_size_def bpb_cluster_size_def bpb_default_def)

lemma demo_file_ok: "file_ok demo_fat [2, 3] demo_file"
proof -
  have "\<not> opt_update_accessed_date (fs_options demo_fs)" by (simp add: demo_fs_def fs_options_new_def)
  then have "fs_ready demo_fat demo_fs"
    using demo_volume demo_fat_fits demo_volume_data by (simp add: fs_ready_def)
  then show ?thesis by (simp add: file_ok_def chain_ok_def demo_fat_entries file_len_def)
qed

theorem file_read_exact_correct_witness:
  "\<exists>f'. io_read_exact (file_ops cursor_ops) 600 demo_file = (Inr (file_bytes [2, 3] demo_file), f') \<and>
    length (file_bytes [2, 3] demo_file) = 600 \<and> file_pos f' = 600"
proof -
  have l: "length (file_bytes [2, 3] demo_file) = 600" using length_file_bytes [OF demo_file_ok] by (simp add: file_len_def)
  then have "window 0 600 (file_bytes [2, 3] demo_file) = file_bytes [2, 3] demo_file" by (simp add: window_def)
  with l file_read_exact_correct [OF demo_file_ok, of 600] show ?thesis by (auto simp: file_len_def)
qed

theorem file_seek_correct_witness:
  "(\<exists>f'. file_seek cursor_ops (Start 550) demo_file = (Inr 550, f') \<and> file_ok demo_fat [2, 3] f' \<and> file_pos f' = 550) \<and>
    (\<exists>f'. file_seek cursor_ops (End (- 50)) demo_file = (Inr 550, f') \<and> file_pos f' = 550) \<and>
    (\<exists>f'. file_seek cursor_ops (Current 700) demo_file = (Inr 600, f') \<and> file_pos f' = 600) \<and>
    file_seek cursor_ops (Current (- 1)) demo_file = (Inl (Io InvalidInput), demo_file)"
  using file_seek_correct [OF demo_file_ok, of 600 550 "Start 550"] file_seek_correct [OF demo_file_ok, of 600 550 "End (- 50)"]
    file_seek_correct [OF demo_file_ok, of 600 700 "Current 700"] file_seek_correct [OF demo_file_ok, of 600 "- 1" "Current (- 1)"]
  by auto

end
