(* ===== verification/Fat_Names.thy ===== *)
theory Fat_Names
  imports Fat_Dir_Entry
begin

text \<open>
  File names, from \<open>fatfs/src/dir.rs\<close>: the split of a path, the check of a name, the long name entries that
  are generated for a name and the builder that assembles the name from them, and the generator of
  short names. A string is the list of its code points.
\<close>

section \<open>Strings\<close>

type_synonym str = "nat list"

text \<open>What a Rust \<open>str\<close> can hold: Unicode scalar values.\<close>

definition str_ok :: "str \<Rightarrow> bool" where
  "str_ok name \<longleftrightarrow> (\<forall>c \<in> set name. c < 0x110000 \<and> \<not> (0xD800 \<le> c \<and> c \<le> 0xDFFF))"

definition len_utf8 :: "nat \<Rightarrow> nat" where
  "len_utf8 c = (if c < 0x80 then 1 else if c < 0x800 then 2 else if c < 0x10000 then 3 else 4)"

definition str_len :: "str \<Rightarrow> nat" where
  "str_len name = sum_list (map len_utf8 name)"

definition encode_utf16_char :: "nat \<Rightarrow> u16 list" where
  "encode_utf16_char c =
     (if c < 0x10000 then [of_nat c]
      else [of_nat (0xD800 + (c - 0x10000) div 1024), of_nat (0xDC00 + (c - 0x10000) mod 1024)])"

definition encode_lfn_utf16 :: "str \<Rightarrow> u16 list" where
  "encode_lfn_utf16 name = concat (map encode_utf16_char name)"

section \<open>Paths\<close>

definition SLASH :: nat where "SLASH = 0x2F"
definition DOT :: nat where "DOT = 0x2E"

definition trim_matches :: "nat \<Rightarrow> str \<Rightarrow> str" where
  "trim_matches c s = rev (dropWhile (\<lambda>x. x = c) (rev (dropWhile (\<lambda>x. x = c) s)))"

definition split_path :: "str \<Rightarrow> str \<times> str option" where
  "split_path path =
     (let p = trim_matches SLASH path;
          comp = takeWhile (\<lambda>c. c \<noteq> SLASH) p;
          rest = dropWhile (\<lambda>c. c \<noteq> SLASH) p
      in (comp, if rest = [] then None else Some (tl rest)))"

section \<open>Checking a name\<close>

definition valid_name_char :: "nat \<Rightarrow> bool" where
  "valid_name_char c \<longleftrightarrow>
     0x61 \<le> c \<and> c \<le> 0x7A \<or> 0x41 \<le> c \<and> c \<le> 0x5A \<or> 0x30 \<le> c \<and> c \<le> 0x39 \<or>
     0x80 \<le> c \<and> c \<le> 0xFFFF \<or>
     c \<in> {0x24, 0x25, 0x27, 0x2D, 0x5F, 0x40, 0x7E, 0x60, 0x21, 0x28, 0x29, 0x7B, 0x7D, 0x2E, 0x20, 0x2B, 0x2C,
           0x3B, 0x3D, 0x5B, 0x5D, 0x5E, 0x23, 0x26}"

definition validate_long_name :: "str \<Rightarrow> unit res" where
  "validate_long_name name =
     (if name = [] then Inl (Io Other)
      else if str_len name > 255 then Inl (Io Other)
      else if list_all valid_name_char name then Inr ()
      else Inl (Io Other))"

definition lfn_checksum :: "u8 list \<Rightarrow> u8" where
  "lfn_checksum short_name = foldl (\<lambda>chksum b. push_bit 7 chksum + drop_bit 1 chksum + b) 0 short_name"

section \<open>Assembling a long name\<close>

record long_name_builder =
  lb_buf :: "u16 list"
  lb_chksum :: u8
  lb_index :: u8

definition lnb_new :: long_name_builder where
  "lnb_new = \<lparr>lb_buf = [], lb_chksum = 0, lb_index = 0\<rparr>"

definition lnb_clear :: "long_name_builder \<Rightarrow> long_name_builder" where
  "lnb_clear self = self\<lparr>lb_buf := [], lb_index := 0\<rparr>"

fun lfn_trim :: "u16 list \<Rightarrow> nat \<Rightarrow> nat" where
  "lfn_trim buf 0 = 0"
| "lfn_trim buf (Suc n) = (if buf ! n = 0xFFFF \<or> buf ! n = 0 then lfn_trim buf n else Suc n)"

definition lnb_truncate :: "long_name_builder \<Rightarrow> long_name_builder" where
  "lnb_truncate self = self\<lparr>lb_buf := take (lfn_trim (lb_buf self) (length (lb_buf self))) (lb_buf self)\<rparr>"

definition lnb_is_empty :: "long_name_builder \<Rightarrow> bool" where
  "lnb_is_empty self \<longleftrightarrow> lb_index self = 0"

definition lnb_into_vec :: "long_name_builder \<Rightarrow> u16 list" where
  "lnb_into_vec self =
     lb_buf (if lb_index self = 1 then lnb_truncate self else if \<not> lnb_is_empty self then lnb_clear self else self)"

text \<open>\<open>Vec::resize\<close> with zero.\<close>

definition resize_u16 :: "nat \<Rightarrow> u16 list \<Rightarrow> u16 list" where
  "resize_u16 n buf = take n buf @ replicate (n - length buf) 0"

definition lnb_copy :: "u8 \<Rightarrow> dir_lfn_entry_data \<Rightarrow> long_name_builder \<Rightarrow> long_name_builder res" where
  "lnb_copy index data self =
     (let pos = LFN_PART_LEN * (unat index - 1) in
      if pos + 13 \<le> length (lb_buf self)
      then Inr (self\<lparr>lb_buf := splice pos (lfn_copy_name_to_slice data) (lb_buf self)\<rparr>)
      else Inl (Panic OutOfBounds))"

definition lnb_process :: "dir_lfn_entry_data \<Rightarrow> long_name_builder \<Rightarrow> long_name_builder res" where
  "lnb_process data self =
     (let is_last = le_order data AND LFN_ENTRY_LAST_FLAG \<noteq> 0;
          index = le_order data AND 0x1F in
      if index = 0 then Inr (lnb_clear self)
      else if is_last
      then lnb_copy index data
             (self\<lparr>lb_index := index, lb_chksum := le_checksum data,
                lb_buf := resize_u16 (unat index * LFN_PART_LEN) (lb_buf self)\<rparr>)
      else if lb_index self = 0 \<or> index \<noteq> lb_index self - 1 \<or> le_checksum data \<noteq> lb_chksum self
      then Inr (lnb_clear self)
      else lnb_copy index data (self\<lparr>lb_index := lb_index self - 1\<rparr>))"

definition lnb_validate_chksum :: "u8 list \<Rightarrow> long_name_builder \<Rightarrow> long_name_builder" where
  "lnb_validate_chksum short_name self =
     (if lnb_is_empty self then self
      else if lfn_checksum short_name \<noteq> lb_chksum self then lnb_clear self else self)"

section \<open>Generating long name entries\<close>

function chunks :: "nat \<Rightarrow> 'a list \<Rightarrow> 'a list list" where
  "chunks n xs = (if n = 0 \<or> xs = [] then [] else take n xs # chunks n (drop n xs))"
  by pat_completeness auto
termination
  by (relation "measure (\<lambda>(n, xs). length xs)") auto

declare chunks.simps [simp del]

record lfn_entries_generator =
  lg_name_parts :: "u16 list list"
  lg_checksum :: u8
  lg_index :: nat
  lg_num :: nat
  lg_ended :: bool

definition lfn_gen_new :: "u16 list \<Rightarrow> u8 \<Rightarrow> lfn_entries_generator" where
  "lfn_gen_new name_utf16 checksum =
     \<lparr>lg_name_parts = rev (chunks LFN_PART_LEN name_utf16), lg_checksum = checksum, lg_index = 0,
      lg_num = (length name_utf16 + LFN_PART_LEN - 1) div LFN_PART_LEN, lg_ended = False\<rparr>"

definition lfn_pad_part :: "u16 list \<Rightarrow> u16 list" where
  "lfn_pad_part name_part =
     (let lfn_part = splice 0 name_part (replicate LFN_PART_LEN 0xFFFF)
      in if length name_part < LFN_PART_LEN then lfn_part[length name_part := 0] else lfn_part)"

definition lfn_gen_next :: "lfn_entries_generator \<Rightarrow> (dir_lfn_entry_data option \<times> lfn_entries_generator) res" where
  "lfn_gen_next self =
     (if lg_ended self then Inr (None, self)
      else case lg_name_parts self of
        [] \<Rightarrow> Inr (None, self\<lparr>lg_ended := True\<rparr>)
      | name_part # parts \<Rightarrow>
          if lg_num self < lg_index self then Inl (Panic Overflow) else
          let lfn_index = lg_num self - lg_index self;
              order = (of_nat lfn_index :: u8);
              order = (if lg_index self = 0 then order OR LFN_ENTRY_LAST_FLAG else order) in
          if order = 0 then Inl (Panic Assertion)
          else Inr (Some (lfn_copy_name_from_slice (lfn_pad_part name_part) (lfn_entry_new order (lg_checksum self))),
                 self\<lparr>lg_name_parts := parts, lg_index := lg_index self + 1\<rparr>))"

definition lfn_gen_len :: "lfn_entries_generator \<Rightarrow> nat" where
  "lfn_gen_len self = length (lg_name_parts self)"

text \<open>The entries in the order in which the iterator produces them.\<close>

function lfn_gen_collect :: "lfn_entries_generator \<Rightarrow> dir_lfn_entry_data list res" where
  "lfn_gen_collect self =
     (case lfn_gen_next self of
        Inl e \<Rightarrow> Inl e
      | Inr (None, _) \<Rightarrow> Inr []
      | Inr (Some x, self') \<Rightarrow> rbind (lfn_gen_collect self') (\<lambda>xs. Inr (x # xs)))"
  by pat_completeness auto
termination
  by (relation "measure lfn_gen_len")
    (auto simp: lfn_gen_next_def lfn_gen_len_def Let_def split: if_splits list.splits)

declare lfn_gen_collect.simps [simp del]

section \<open>Generating short names\<close>

definition SFN_PADDING :: u8 where "SFN_PADDING = 0x20"

record short_name_generator =
  sg_chksum :: u16
  sg_long_prefix_bitmap :: u16
  sg_prefix_chksum_bitmap :: u16
  sg_name_fits :: bool
  sg_lossy_conv :: bool
  sg_exact_match :: bool
  sg_basename_len :: u8
  sg_short_name :: "u8 list"

definition short_name_char :: "nat \<Rightarrow> nat" where
  "short_name_char c =
     (if 0x41 \<le> c \<and> c \<le> 0x5A \<or> 0x61 \<le> c \<and> c \<le> 0x7A \<or> 0x30 \<le> c \<and> c \<le> 0x39 \<or>
         c \<in> {0x21, 0x23, 0x24, 0x25, 0x26, 0x27, 0x28, 0x29, 0x2D, 0x40, 0x5E, 0x5F, 0x60, 0x7B, 0x7D, 0x7E}
      then c else 0x5F)"

definition to_ascii_uppercase :: "nat \<Rightarrow> nat" where
  "to_ascii_uppercase c = (if 0x61 \<le> c \<and> c \<le> 0x7A then c - 32 else c)"

text \<open>The bytes copied to the destination so far, the room in it, whether the name fits and whether it changed.\<close>

fun copy_short_name_loop :: "nat \<Rightarrow> u8 list \<Rightarrow> bool \<Rightarrow> str \<Rightarrow> u8 list \<times> bool \<times> bool" where
  "copy_short_name_loop cap dst lossy [] = (dst, True, lossy)"
| "copy_short_name_loop cap dst lossy (c # cs) =
     (if length dst = cap then (dst, False, lossy)
      else if c = 0x20 \<or> c = DOT then copy_short_name_loop cap dst True cs
      else let fixed_c = short_name_char c in
           copy_short_name_loop cap (dst @ [of_nat (to_ascii_uppercase fixed_c)]) (lossy \<or> fixed_c \<noteq> c) cs)"

definition copy_short_name_part :: "nat \<Rightarrow> str \<Rightarrow> u8 list \<times> bool \<times> bool" where
  "copy_short_name_part cap src = copy_short_name_loop cap [] False src"

text \<open>\<open>rfind\<close> of the dot, with the parts before and after it.\<close>

definition split_ext :: "str \<Rightarrow> (str \<times> str) option" where
  "split_ext name =
     (if DOT \<in> set name
      then let ext = rev (takeWhile (\<lambda>c. c \<noteq> DOT) (rev name)) in Some (take (length name - length ext - 1) name, ext)
      else None)"

definition sn_checksum :: "str \<Rightarrow> u16" where
  "sn_checksum name = foldl (\<lambda>chksum c. drop_bit 1 chksum + push_bit 15 chksum + of_nat c) 0 name"

definition sng_new :: "str \<Rightarrow> short_name_generator" where
  "sng_new name =
     (let (short_name, basename_len, name_fits, lossy_conv) =
        (case split_ext name of
           Some (base, ext) \<Rightarrow>
             let (b, b_fits, b_lossy) = copy_short_name_part 8 base;
                 (x, x_fits, x_lossy) = copy_short_name_part 3 ext
             in (splice 8 x (splice 0 b (replicate 11 SFN_PADDING)), length b, b_fits \<and> x_fits, b_lossy \<or> x_lossy)
         | None \<Rightarrow>
             let (b, b_fits, b_lossy) = copy_short_name_part 8 name
             in (splice 0 b (replicate 11 SFN_PADDING), length b, b_fits, b_lossy))
      in \<lparr>sg_chksum = sn_checksum name, sg_long_prefix_bitmap = 0, sg_prefix_chksum_bitmap = 0, sg_name_fits = name_fits,
          sg_lossy_conv = lossy_conv, sg_exact_match = False, sg_basename_len = of_nat basename_len,
          sg_short_name = short_name\<rparr>)"

definition generate_dot :: "u8 list" where
  "generate_dot = (replicate 11 SFN_PADDING)[0 := 0x2E]"

definition generate_dotdot :: "u8 list" where
  "generate_dotdot = (replicate 11 SFN_PADDING)[0 := 0x2E, 1 := 0x2E]"

definition digit_of :: "u8 \<Rightarrow> nat option" where
  "digit_of b = (if 0x30 \<le> b \<and> b \<le> 0x39 then Some (unat b - 0x30) else None)"

definition hex_digit_of :: "u8 \<Rightarrow> nat option" where
  "hex_digit_of b =
     (if 0x30 \<le> b \<and> b \<le> 0x39 then Some (unat b - 0x30)
      else if 0x41 \<le> b \<and> b \<le> 0x46 then Some (unat b - 0x41 + 10)
      else if 0x61 \<le> b \<and> b \<le> 0x66 then Some (unat b - 0x61 + 10)
      else None)"

text \<open>\<open>u16::from_str_radix\<close> of at most four bytes: an optional plus sign, then hexadecimal digits. Bytes that
  are not UTF-8 are no digits.\<close>

definition hex_digits_value :: "u8 list \<Rightarrow> u16 option" where
  "hex_digits_value bs =
     (if bs = [] \<or> None \<in> set (map hex_digit_of bs) then None
      else Some (of_nat (foldl (\<lambda>n b. n * 16 + the (hex_digit_of b)) 0 bs)))"

definition from_str_radix_16 :: "u8 list \<Rightarrow> u16 option" where
  "from_str_radix_16 bs = hex_digits_value (if bs \<noteq> [] \<and> hd bs = 0x2B then tl bs else bs)"

definition num_suffix_at :: "nat \<Rightarrow> u8 list \<Rightarrow> nat option" where
  "num_suffix_at p short_name = (if short_name ! p = 0x7E then digit_of (short_name ! (p + 1)) else None)"

text \<open>The collisions of an existing name: with the name itself, with its long prefix form (\<open>TEXTFI~1.TXT\<close>) and with
  its form with a checksum (\<open>TE021F~1.TXT\<close>).\<close>

definition add_exact_match :: "u8 list \<Rightarrow> short_name_generator \<Rightarrow> short_name_generator" where
  "add_exact_match short_name self =
     (if short_name = sg_short_name self then self\<lparr>sg_exact_match := True\<rparr> else self)"

definition add_long_prefix :: "u8 list \<Rightarrow> short_name_generator \<Rightarrow> short_name_generator" where
  "add_long_prefix short_name self =
     (let prefix_len = min (unat (sg_basename_len self)) 6 in
      case num_suffix_at prefix_len short_name of
        Some num \<Rightarrow>
          if take prefix_len short_name = take prefix_len (sg_short_name self) \<and>
             drop 8 short_name = drop 8 (sg_short_name self)
          then self\<lparr>sg_long_prefix_bitmap := sg_long_prefix_bitmap self OR push_bit num 1\<rparr> else self
      | None \<Rightarrow> self)"

definition add_prefix_chksum :: "u8 list \<Rightarrow> short_name_generator \<Rightarrow> short_name_generator" where
  "add_prefix_chksum short_name self =
     (let prefix_len = min (unat (sg_basename_len self)) 2 in
      case num_suffix_at (prefix_len + 4) short_name of
        Some num \<Rightarrow>
          if take prefix_len short_name = take prefix_len (sg_short_name self) \<and>
             drop 8 short_name = drop 8 (sg_short_name self) \<and>
             from_str_radix_16 (window prefix_len 4 short_name) = Some (sg_chksum self)
          then self\<lparr>sg_prefix_chksum_bitmap := sg_prefix_chksum_bitmap self OR push_bit num 1\<rparr> else self
      | None \<Rightarrow> self)"

definition sng_add_existing :: "u8 list \<Rightarrow> short_name_generator \<Rightarrow> short_name_generator" where
  "sng_add_existing short_name self =
     add_prefix_chksum short_name (add_long_prefix short_name (add_exact_match short_name self))"

definition hex_char :: "nat \<Rightarrow> u8" where
  "hex_char d = of_nat (if d < 10 then 0x30 + d else 0x41 + (d - 10))"

definition u16_to_u8_array :: "u16 \<Rightarrow> u8 list" where
  "u16_to_u8_array x =
     [hex_char (unat (drop_bit 12 x AND 0xF)), hex_char (unat (drop_bit 8 x AND 0xF)),
      hex_char (unat (drop_bit 4 x AND 0xF)), hex_char (unat (x AND 0xF))]"

definition build_prefixed_name :: "nat \<Rightarrow> bool \<Rightarrow> short_name_generator \<Rightarrow> u8 list" where
  "build_prefixed_name num with_chksum self =
     (let buf = replicate 11 SFN_PADDING;
          (buf, prefix_len) =
            (if with_chksum
             then let prefix_len = min (unat (sg_basename_len self)) 2;
                      buf = splice 0 (take prefix_len (sg_short_name self)) buf
                  in (splice prefix_len (u16_to_u8_array (sg_chksum self)) buf, prefix_len + 4)
             else let prefix_len = min (unat (sg_basename_len self)) 6
                  in (splice 0 (take prefix_len (sg_short_name self)) buf, prefix_len));
          buf = buf[prefix_len := 0x7E, prefix_len + 1 := hex_char num]
      in splice 8 (drop 8 (sg_short_name self)) buf)"

definition sng_generate :: "short_name_generator \<Rightarrow> u8 list res" where
  "sng_generate self =
     (if \<not> sg_lossy_conv self \<and> sg_name_fits self \<and> \<not> sg_exact_match self then Inr (sg_short_name self)
      else case find (\<lambda>i. sg_long_prefix_bitmap self AND push_bit i 1 = 0) [1..<5] of
        Some i \<Rightarrow> Inr (build_prefixed_name i False self)
      | None \<Rightarrow>
          (case find (\<lambda>i. sg_prefix_chksum_bitmap self AND push_bit i 1 = 0) [1..<10] of
             Some i \<Rightarrow> Inr (build_prefixed_name i True self)
           | None \<Rightarrow> Inl (Io AlreadyExists)))"

definition sng_next_iteration :: "short_name_generator \<Rightarrow> short_name_generator" where
  "sng_next_iteration self =
     self\<lparr>sg_chksum := sg_chksum self + 1, sg_long_prefix_bitmap := 0, sg_prefix_chksum_bitmap := 0\<rparr>"

end
