(* ===== verification/Fat_Dir.thy ===== *)
theory Fat_Dir
  imports Fat_File Fat_Names
begin

text \<open>
  Directories, \<open>fatfs/src/dir.rs\<close>: the stream of a directory (a file, or the fixed root region of a FAT12 or
  FAT16 volume), its iterator, and the operations that look up, create, remove and rename entries. What
  only needs a stream is written for any dictionary of stream operations; the operations of \<open>Dir\<close>
  are computations on the mounted file system. A stored stream is a value: the reference it holds in
  the code is the file system the operation runs on, and a clone is put on that file system when it is
  used and flushed when it is dropped. \<open>char::to_uppercase\<close> is the parameter \<open>to_upper\<close>.
\<close>

section \<open>The stream of a directory\<close>

datatype 's dir_raw_stream = FileStream "'s fat_file" | RootStream "'s file_system disk_slice"

type_synonym 's dir = "'s dir_raw_stream"

fun stream_abs_pos :: "'s dir_raw_stream \<Rightarrow> nat option res" where
  "stream_abs_pos (FileStream f) = file_abs_pos f"
| "stream_abs_pos (RootStream d) = Inr (Some (disk_slice_abs_pos d))"

fun stream_first_cluster :: "'s dir_raw_stream \<Rightarrow> u32 option" where
  "stream_first_cluster (FileStream f) = f_first_cluster f"
| "stream_first_cluster (RootStream d) = None"

text \<open>The dispatch of \<open>Read\<close>, \<open>Write\<close> and \<open>Seek\<close>.\<close>

definition on_stream ::
  "('s fat_file, 'a) st \<Rightarrow> ('s file_system disk_slice, 'a) st \<Rightarrow> ('s dir_raw_stream, 'a) st" where
  "on_stream mf mr self =
     (case self of
        FileStream f \<Rightarrow> (case mf f of (r, f') \<Rightarrow> (r, FileStream f'))
      | RootStream d \<Rightarrow> (case mr d of (r, d') \<Rightarrow> (r, RootStream d')))"

definition raw_stream_ops :: "'s rws \<Rightarrow> 's dir_raw_stream rws" where
  "raw_stream_ops ops =
     (let rd = (\<lambda>n. on_stream (file_read ops n) (disk_slice_read (fs_io_ops ops) n));
          wr = (\<lambda>buf. on_stream (file_write ops buf) (disk_slice_write (fs_io_ops ops) buf)) in
      \<lparr>io_read = rd, io_read_exact = default_read_exact rd, io_write = wr, io_write_all = write_all wr,
       io_seek = (\<lambda>p. on_stream (file_seek ops p) (disk_slice_seek p)),
       io_flush = on_stream (file_flush ops) (on_inner (on_disk (io_flush ops)))\<rparr>)"

fun stream_fs :: "'s dir_raw_stream \<Rightarrow> 's file_system" where
  "stream_fs (FileStream f) = f_fs f"
| "stream_fs (RootStream d) = ds_inner d"

fun stream_on_fs :: "'s file_system \<Rightarrow> 's dir_raw_stream \<Rightarrow> 's dir_raw_stream" where
  "stream_on_fs fs (FileStream f) = FileStream (f\<lparr>f_fs := fs\<rparr>)"
| "stream_on_fs fs (RootStream d) = RootStream (d\<lparr>ds_inner := fs\<rparr>)"

text \<open>Dropping a file flushes it; a failure to do so is only logged.\<close>

fun stream_drop :: "'s rws \<Rightarrow> 's dir_raw_stream \<Rightarrow> unit res \<times> 's file_system" where
  "stream_drop ops (FileStream f) =
     (case file_flush ops f of
        (Inl (Panic p), f') \<Rightarrow> (Inl (Panic p), f_fs f')
      | (_, f') \<Rightarrow> (Inr (), f_fs f'))"
| "stream_drop ops (RootStream d) = (Inr (), ds_inner d)"

definition with_stream :: "'s rws \<Rightarrow> 's dir \<Rightarrow> ('s dir_raw_stream, 'a) st \<Rightarrow> ('s file_system, 'a) st" where
  "with_stream ops stream m fs =
     (case m (stream_on_fs fs stream) of
        (Inl (Panic p), st) \<Rightarrow> (Inl (Panic p), stream_fs st)
      | (r, st) \<Rightarrow> (case stream_drop ops st of (Inl e, fs') \<Rightarrow> (Inl e, fs') | (Inr _, fs') \<Rightarrow> (r, fs')))"

definition drop_dir :: "'s rws \<Rightarrow> 's dir \<Rightarrow> ('s file_system, unit) st" where
  "drop_dir ops stream fs = stream_drop ops (stream_on_fs fs stream)"

definition with_dir :: "'s rws \<Rightarrow> 's dir \<Rightarrow> ('s file_system, 'a) st \<Rightarrow> ('s file_system, 'a) st" where
  "with_dir ops dir m fs =
     (case m fs of
        (Inl (Panic p), fs') \<Rightarrow> (Inl (Panic p), fs')
      | (r, fs') \<Rightarrow> (case drop_dir ops dir fs' of (Inl e, fs2) \<Rightarrow> (Inl e, fs2) | (Inr _, fs2) \<Rightarrow> (r, fs2)))"

fun dir_get_fstat :: "'s dir \<Rightarrow> stat res" where
  "dir_get_fstat (FileStream f) = Inr (file_get_fstat f)"
| "dir_get_fstat (RootStream d) = Inl (Panic Explicit)"

fun dir_get_dents64 :: "nat \<Rightarrow> 's dir \<Rightarrow> linux_dirent64 res" where
  "dir_get_dents64 entry_size (FileStream f) = file_get_dents64 entry_size f"
| "dir_get_dents64 entry_size (RootStream d) = Inl (Panic Explicit)"

definition root_dir :: "'s file_system \<Rightarrow> 's dir res" where
  "root_dir self =
     (if fs_fat_type self = Fat32
      then Inr (FileStream (file_new (Some (root_dir_first_cluster (fs_bpb self))) None self))
      else rbind (csub (fs_first_data_sector self) (fs_root_dir_sectors self)) (\<lambda>first.
           Inr (RootStream (disk_slice_from_sectors first (fs_root_dir_sectors self) 1 (fs_bpb self) self))))"

section \<open>Reading entries\<close>

text \<open>
  The number of 32-byte entries a directory stream can produce: the position of a file is a \<open>u32\<close>, and a
  fixed root has at most 65535 entries. A loop over the entries therefore ends before this bound.
\<close>

definition MAX_DIR_ENTRIES :: nat where "MAX_DIR_ENTRIES = 0x8000001"

definition should_ship_entry :: "bool \<Rightarrow> dir_entry_data \<Rightarrow> bool" where
  "should_ship_entry skip_volume raw_entry \<longleftrightarrow>
     dir_entry_is_deleted raw_entry \<or>
     (case raw_entry of File sfn_entry \<Rightarrow> skip_volume \<and> file_entry_is_volume sfn_entry | Lfn _ \<Rightarrow> False)"

text \<open>The position on the volume of the entry that was just read or written.\<close>

definition entry_abs_pos :: "('d \<Rightarrow> nat option res) \<Rightarrow> ('d, nat) st" where
  "entry_abs_pos abs_pos s =
     (case abs_pos s of
        Inl e \<Rightarrow> (Inl e, s)
      | Inr None \<Rightarrow> (Inl (Panic UnwrapNone), s)
      | Inr (Some p) \<Rightarrow> if p < DIR_ENTRY_SIZE then (Inl (Panic Overflow), s) else (Inr (p - DIR_ENTRY_SIZE), s))"

function read_dir_loop ::
  "'d rws \<Rightarrow> ('d \<Rightarrow> nat option res) \<Rightarrow> bool \<Rightarrow> nat \<Rightarrow> long_name_builder \<Rightarrow> nat \<Rightarrow> nat \<Rightarrow> ('d, dir_entry option) st" where
  "read_dir_loop ops abs_pos skip_volume fuel lfn_buf begin_offset offset s =
     (if fuel = 0 then (Inl (Panic NoReturn), s)
      else case dir_entry_deserialize ops s of
        (Inl e, s') \<Rightarrow> (Inl e, s')
      | (Inr raw_entry, s') \<Rightarrow>
          let offset = offset + DIR_ENTRY_SIZE in
          if dir_entry_is_end raw_entry then (Inr None, s')
          else if should_ship_entry skip_volume raw_entry
          then read_dir_loop ops abs_pos skip_volume (fuel - 1) (lnb_clear lfn_buf) offset offset s'
          else case raw_entry of
            File data \<Rightarrow>
              sbind (entry_abs_pos abs_pos) (\<lambda>entry_pos.
              sret (Some \<lparr>de_data = data, de_short_name = short_name_new (fe_name data),
                de_lfn_utf16 = lnb_into_vec (lnb_validate_chksum (fe_name data) lfn_buf), de_entry_pos = entry_pos,
                de_offset_range = (begin_offset, offset)\<rparr>)) s'
          | Lfn data \<Rightarrow>
              (case lnb_process data lfn_buf of
                 Inl e \<Rightarrow> (Inl e, s')
               | Inr lfn_buf \<Rightarrow> read_dir_loop ops abs_pos skip_volume (fuel - 1) lfn_buf begin_offset offset s'))"
  by pat_completeness auto
termination
  by (relation "measure (\<lambda>(ops, abs_pos, skip, fuel, lfn, b, off, s). fuel)") auto

declare read_dir_loop.simps [simp del]

definition read_dir_entry :: "'d rws \<Rightarrow> ('d \<Rightarrow> nat option res) \<Rightarrow> bool \<Rightarrow> ('d, dir_entry option) st" where
  "read_dir_entry ops abs_pos skip_volume =
     sbind (io_seek ops (Current 0)) (\<lambda>offset.
     read_dir_loop ops abs_pos skip_volume MAX_DIR_ENTRIES lnb_new offset offset)"

record 'd dir_iter =
  it_stream :: 'd
  it_skip_volume :: bool
  it_err :: bool

definition dir_iter_new :: "bool \<Rightarrow> 'd \<Rightarrow> 'd dir_iter" where
  "dir_iter_new skip_volume stream = \<lparr>it_stream = stream, it_skip_volume = skip_volume, it_err = False\<rparr>"

definition dir_iter_next :: "'d rws \<Rightarrow> ('d \<Rightarrow> nat option res) \<Rightarrow> ('d dir_iter, (io_kind + dir_entry) option) st" where
  "dir_iter_next ops abs_pos self =
     (if it_err self then (Inr None, self)
      else case read_dir_entry ops abs_pos (it_skip_volume self) (it_stream self) of
        (Inr (Some e), s') \<Rightarrow> (Inr (Some (Inr e)), self\<lparr>it_stream := s'\<rparr>)
      | (Inr None, s') \<Rightarrow> (Inr None, self\<lparr>it_stream := s'\<rparr>)
      | (Inl (Io k), s') \<Rightarrow> (Inr (Some (Inl k)), self\<lparr>it_stream := s', it_err := True\<rparr>)
      | (Inl (Panic p), s') \<Rightarrow> (Inl (Panic p), self\<lparr>it_stream := s'\<rparr>))"

text \<open>A \<open>for\<close> loop over the iterator that returns on the first error. The body gets a state of its own and
  either continues with a new one or leaves the loop.\<close>

function dir_iter_loop ::
  "'d rws \<Rightarrow> ('d \<Rightarrow> nat option res) \<Rightarrow> (dir_entry \<Rightarrow> 'x \<Rightarrow> 'x + 'r) \<Rightarrow> nat \<Rightarrow> 'x \<Rightarrow> ('d dir_iter, ('x \<times> io_kind option) + 'r) st" where
  "dir_iter_loop ops abs_pos body fuel x it =
     (if fuel = 0 then (Inl (Panic NoReturn), it)
      else case dir_iter_next ops abs_pos it of
        (Inl e, it') \<Rightarrow> (Inl e, it')
      | (Inr None, it') \<Rightarrow> (Inr (Inl (x, None)), it')
      | (Inr (Some (Inl k)), it') \<Rightarrow> (Inr (Inl (x, Some k)), it')
      | (Inr (Some (Inr e)), it') \<Rightarrow>
          (case body e x of
             Inl x' \<Rightarrow> dir_iter_loop ops abs_pos body (fuel - 1) x' it'
           | Inr r \<Rightarrow> (Inr (Inr r), it')))"
  by pat_completeness auto
termination
  by (relation "measure (\<lambda>(ops, abs_pos, body, fuel, x, it). fuel)") auto

declare dir_iter_loop.simps [simp del]

definition for_entries ::
  "'d rws \<Rightarrow> ('d \<Rightarrow> nat option res) \<Rightarrow> bool \<Rightarrow> (dir_entry \<Rightarrow> 'x \<Rightarrow> 'x + 'r) \<Rightarrow> 'x \<Rightarrow> ('d, ('x \<times> io_kind option) + 'r) st" where
  "for_entries ops abs_pos skip_volume body x s =
     (case dir_iter_loop ops abs_pos body MAX_DIR_ENTRIES x (dir_iter_new skip_volume s) of
        (r, it) \<Rightarrow> (r, it_stream it))"

section \<open>Looking up\<close>

definition find_entry_body ::
  "(dir_entry \<Rightarrow> bool) \<Rightarrow> bool option \<Rightarrow> dir_entry \<Rightarrow> short_name_generator option \<Rightarrow>
   short_name_generator option + (io_kind + dir_entry)" where
  "find_entry_body eq_name is_dir e gen =
     (if eq_name e
      then Inr (if is_dir \<noteq> None \<and> Some (file_entry_is_dir (de_data e)) \<noteq> is_dir then Inl Other else Inr e)
      else Inl (map_option (sng_add_existing (fe_name (de_data e))) gen))"

text \<open>The result of the lookup with the state of the short name generator, if there is one: the generator keeps
  what it learned when the entry is not found.\<close>

definition find_entry_gen ::
  "'s rws \<Rightarrow> (nat \<Rightarrow> nat list) \<Rightarrow> 's dir \<Rightarrow> str \<Rightarrow> bool option \<Rightarrow> short_name_generator option \<Rightarrow>
   ('s file_system, (io_kind + dir_entry) \<times> short_name_generator option) st" where
  "find_entry_gen ops to_upper self name is_dir gen fs =
     sbind (with_stream ops self (for_entries (raw_stream_ops ops) stream_abs_pos True
              (find_entry_body (\<lambda>e. dir_entry_eq_name (opt_oem_decode (fs_options fs)) to_upper e name) is_dir) gen)) (\<lambda>r.
       case r of
         Inl (gen, None) \<Rightarrow> sret (Inl NotFound, gen)
       | Inl (gen, Some k) \<Rightarrow> sret (Inl k, gen)
       | Inr found \<Rightarrow> sret (found, gen)) fs"

definition find_entry ::
  "'s rws \<Rightarrow> (nat \<Rightarrow> nat list) \<Rightarrow> 's dir \<Rightarrow> str \<Rightarrow> bool option \<Rightarrow> ('s file_system, dir_entry) st" where
  "find_entry ops to_upper self name is_dir =
     sbind (find_entry_gen ops to_upper self name is_dir None) (\<lambda>(r, _).
       case r of Inl k \<Rightarrow> sfail (Io k) | Inr e \<Rightarrow> sret e)"

definition find_volume_entry :: "'s rws \<Rightarrow> 's dir \<Rightarrow> ('s file_system, dir_entry option) st" where
  "find_volume_entry ops self =
     sbind (with_stream ops self (for_entries (raw_stream_ops ops) stream_abs_pos False
              (\<lambda>e _. if file_entry_is_volume (de_data e) then Inr e else Inl ()) ())) (\<lambda>r.
       case r of Inl (_, None) \<Rightarrow> sret None | Inl (_, Some k) \<Rightarrow> sfail (Io k) | Inr e \<Rightarrow> sret (Some e))"

definition read_volume_label_from_root_dir_as_bytes :: "'s rws \<Rightarrow> ('s file_system, u8 list option) st" where
  "read_volume_label_from_root_dir_as_bytes ops self =
     sbind (slift (root_dir self)) (\<lambda>d.
     sbind (with_dir ops d (find_volume_entry ops d)) (\<lambda>e. sret (map_option (\<lambda>e. fe_name (de_data e)) e))) self"

definition read_volume_label_from_root_dir :: "'s rws \<Rightarrow> ('s file_system, nat list option) st" where
  "read_volume_label_from_root_dir ops self =
     sbind (read_volume_label_from_root_dir_as_bytes ops) (\<lambda>label.
     sret (map_option (\<lambda>l. map (opt_oem_decode (fs_options self)) (take (trimmed_len l) l)) label)) self"

datatype dir_entry_or_short_name = DirEntry dir_entry | ShortName "u8 list"

text \<open>After 65536 rounds the checksum of the generator is the one of the first round again, so a search that
  has not ended then never ends.\<close>

function check_existence_loop ::
  "'s rws \<Rightarrow> (nat \<Rightarrow> nat list) \<Rightarrow> 's dir \<Rightarrow> str \<Rightarrow> bool option \<Rightarrow> nat \<Rightarrow> short_name_generator \<Rightarrow>
   ('s file_system, dir_entry_or_short_name) st" where
  "check_existence_loop ops to_upper self name is_dir rounds gen fs =
     (if rounds = 0 then (Inl (Panic NoReturn), fs)
      else case find_entry_gen ops to_upper self name is_dir (Some gen) fs of
        (Inl e, fs') \<Rightarrow> (Inl e, fs')
      | (Inr (Inr e, _), fs') \<Rightarrow> (Inr (DirEntry e), fs')
      | (Inr (Inl k, gen'), fs') \<Rightarrow>
          if k \<noteq> NotFound then (Inl (Io k), fs')
          else let gen' = (case gen' of Some g \<Rightarrow> g | None \<Rightarrow> gen) in
            case sng_generate gen' of
              Inr short_name \<Rightarrow> (Inr (ShortName short_name), fs')
            | Inl _ \<Rightarrow> check_existence_loop ops to_upper self name is_dir (rounds - 1) (sng_next_iteration gen') fs')"
  by pat_completeness auto
termination
  by (relation "measure (\<lambda>(ops, to_upper, self, name, is_dir, rounds, gen, fs). rounds)") auto

declare check_existence_loop.simps [simp del]

definition check_for_existence ::
  "'s rws \<Rightarrow> (nat \<Rightarrow> nat list) \<Rightarrow> 's dir \<Rightarrow> str \<Rightarrow> bool option \<Rightarrow> ('s file_system, dir_entry_or_short_name) st" where
  "check_for_existence ops to_upper self name is_dir =
     check_existence_loop ops to_upper self name is_dir 65536 (sng_new name)"

section \<open>Opening\<close>

definition entry_first_cluster :: "'s file_system \<Rightarrow> dir_entry \<Rightarrow> u32 option" where
  "entry_first_cluster fs e = file_entry_first_cluster (fs_fat_type fs) (de_data e)"

definition entry_to_file :: "'s file_system \<Rightarrow> dir_entry \<Rightarrow> 's fat_file res" where
  "entry_to_file fs e =
     (if file_entry_is_dir (de_data e) then Inl (Panic Assertion)
      else Inr (file_new (entry_first_cluster fs e) (Some (dir_entry_to_editor e)) fs))"

definition entry_to_dir :: "'s file_system \<Rightarrow> dir_entry \<Rightarrow> 's dir res" where
  "entry_to_dir fs e =
     (if \<not> file_entry_is_dir (de_data e) then Inl (Panic Assertion)
      else case entry_first_cluster fs e of
        Some n \<Rightarrow> Inr (FileStream (file_new (Some n) (Some (dir_entry_to_editor e)) fs))
      | None \<Rightarrow> root_dir fs)"

text \<open>\<open>self.find_entry(name, is_dir, None)?.to_dir()\<close>\<close>

definition find_dir :: "'s rws \<Rightarrow> (nat \<Rightarrow> nat list) \<Rightarrow> 's dir \<Rightarrow> str \<Rightarrow> ('s file_system, 's dir) st" where
  "find_dir ops to_upper self name =
     sbind (find_entry ops to_upper self name (Some True)) (\<lambda>e fs. (entry_to_dir fs e, fs))"

lemma split_path_shorter: "split_path path = (name, Some rest) \<Longrightarrow> length rest < length path"
proof -
  assume a: "split_path path = (name, Some rest)"
  let ?p = "trim_matches SLASH path"
  have "dropWhile (\<lambda>c. c \<noteq> SLASH) ?p \<noteq> []" "rest = tl (dropWhile (\<lambda>c. c \<noteq> SLASH) ?p)"
    using a by (auto simp: split_path_def Let_def split: if_splits)
  moreover have "length (dropWhile (\<lambda>c. c \<noteq> SLASH) ?p) \<le> length ?p" by (rule length_dropWhile_le)
  moreover have "length ?p \<le> length path"
    using length_dropWhile_le [of "\<lambda>x. x = SLASH" "rev (dropWhile (\<lambda>x. x = SLASH) path)"]
      length_dropWhile_le [of "\<lambda>x. x = SLASH" path] by (simp add: trim_matches_def)
  ultimately show ?thesis by (cases "dropWhile (\<lambda>c. c \<noteq> SLASH) ?p") simp_all
qed

function open_dir :: "'s rws \<Rightarrow> (nat \<Rightarrow> nat list) \<Rightarrow> 's dir \<Rightarrow> str \<Rightarrow> ('s file_system, 's dir) st" where
  "open_dir ops to_upper self path fs =
     (case split_path path of
        (name, Some rest) \<Rightarrow>
          sbind (find_dir ops to_upper self name) (\<lambda>d. with_dir ops d (\<lambda>fs. open_dir ops to_upper d rest fs)) fs
      | (name, None) \<Rightarrow> find_dir ops to_upper self name fs)"
  by pat_completeness auto
termination
  by (relation "measure (\<lambda>(ops, to_upper, self, path, fs). length path)") (auto dest: split_path_shorter [OF sym])

declare open_dir.simps [simp del]

function open_file :: "'s rws \<Rightarrow> (nat \<Rightarrow> nat list) \<Rightarrow> 's dir \<Rightarrow> str \<Rightarrow> ('s file_system, 's fat_file) st" where
  "open_file ops to_upper self path fs =
     (case split_path path of
        (name, Some rest) \<Rightarrow>
          sbind (find_dir ops to_upper self name) (\<lambda>d. with_dir ops d (\<lambda>fs. open_file ops to_upper d rest fs)) fs
      | (name, None) \<Rightarrow>
          sbind (find_entry ops to_upper self name (Some False)) (\<lambda>e fs. (entry_to_file fs e, fs)) fs)"
  by pat_completeness auto
termination
  by (relation "measure (\<lambda>(ops, to_upper, self, path, fs). length path)") (auto dest: split_path_shorter [OF sym])

declare open_file.simps [simp del]

section \<open>Writing entries\<close>

function free_slots_loop :: "'d rws \<Rightarrow> nat \<Rightarrow> nat \<Rightarrow> nat \<Rightarrow> nat \<Rightarrow> nat \<Rightarrow> ('d, unit) st" where
  "free_slots_loop ops num_entries fuel first_free_entry free_run i s =
     (if fuel = 0 then (Inl (Panic NoReturn), s)
      else case dir_entry_deserialize ops s of
        (Inl e, s') \<Rightarrow> (Inl e, s')
      | (Inr raw_entry, s') \<Rightarrow>
          let first = (if free_run = 0 then i else first_free_entry) in
          if dir_entry_is_end raw_entry
          then sbind (io_seek ops (Start (first * DIR_ENTRY_SIZE))) (\<lambda>_. sret ()) s'
          else if dir_entry_is_deleted raw_entry
          then if free_run + 1 = num_entries
               then sbind (io_seek ops (Start (first * DIR_ENTRY_SIZE))) (\<lambda>_. sret ()) s'
               else free_slots_loop ops num_entries (fuel - 1) first (free_run + 1) (i + 1) s'
          else free_slots_loop ops num_entries (fuel - 1) first_free_entry 0 (i + 1) s')"
  by pat_completeness auto
termination
  by (relation "measure (\<lambda>(ops, num, fuel, first, nf, i, s). fuel)") auto

declare free_slots_loop.simps [simp del]

text \<open>The stream is left at the place for the entries.\<close>

definition find_free_entries :: "'d rws \<Rightarrow> nat \<Rightarrow> ('d, unit) st" where
  "find_free_entries ops num_entries = free_slots_loop ops num_entries MAX_DIR_ENTRIES 0 0 0"

definition create_sfn_entry :: "'s file_system \<Rightarrow> u8 list \<Rightarrow> u8 \<Rightarrow> u32 option \<Rightarrow> dir_file_entry_data res" where
  "create_sfn_entry fs short_name attrs first_cluster =
     (let raw_entry = file_entry_set_first_cluster first_cluster (fs_fat_type fs) (file_entry_new short_name attrs);
          now = opt_current_date_time (fs_options fs) in
      rbind (file_entry_set_created now raw_entry) (\<lambda>raw_entry.
      rbind (file_entry_set_accessed (dt_date now) raw_entry) (\<lambda>raw_entry.
      file_entry_set_modified now raw_entry)))"

fun write_lfn_entries :: "'d rws \<Rightarrow> dir_lfn_entry_data list \<Rightarrow> ('d, unit) st" where
  "write_lfn_entries ops [] = sret ()"
| "write_lfn_entries ops (l # ls) = sbind (lfn_entry_serialize ops l) (\<lambda>_. write_lfn_entries ops ls)"

definition alloc_and_write_lfn_entries :: "'d rws \<Rightarrow> u16 list \<Rightarrow> u8 list \<Rightarrow> ('d, nat) st" where
  "alloc_and_write_lfn_entries ops lfn_utf16 short_name =
     (let lfn_iter = lfn_gen_new lfn_utf16 (lfn_checksum short_name) in
      sbind (find_free_entries ops (lfn_gen_len lfn_iter + 1)) (\<lambda>_.
      sbind (io_seek ops (Current 0)) (\<lambda>start_pos.
      sbind (slift (lfn_gen_collect lfn_iter)) (\<lambda>entries.
      sbind (write_lfn_entries ops entries) (\<lambda>_.
      sret start_pos)))))"

definition write_entry_stream ::
  "'d rws \<Rightarrow> ('d \<Rightarrow> nat option res) \<Rightarrow> str \<Rightarrow> dir_file_entry_data \<Rightarrow> ('d, dir_entry) st" where
  "write_entry_stream ops abs_pos name raw_entry =
     (let lfn_utf16 = encode_lfn_utf16 name in
      sbind (alloc_and_write_lfn_entries ops lfn_utf16 (fe_name raw_entry)) (\<lambda>start_pos.
      sbind (file_entry_serialize ops raw_entry) (\<lambda>_.
      sbind (io_seek ops (Current 0)) (\<lambda>end_pos.
      sbind (entry_abs_pos abs_pos) (\<lambda>entry_pos.
      sret \<lparr>de_data = raw_entry, de_short_name = short_name_new (fe_name raw_entry), de_lfn_utf16 = lfn_utf16,
        de_entry_pos = entry_pos, de_offset_range = (start_pos, end_pos)\<rparr>)))))"

definition write_entry :: "'s rws \<Rightarrow> 's dir \<Rightarrow> str \<Rightarrow> dir_file_entry_data \<Rightarrow> ('s file_system, dir_entry) st" where
  "write_entry ops self name raw_entry =
     sbind (slift (validate_long_name name)) (\<lambda>_.
     with_stream ops self (write_entry_stream (raw_stream_ops ops) stream_abs_pos name raw_entry))"

section \<open>Creating\<close>

function create_file :: "'s rws \<Rightarrow> (nat \<Rightarrow> nat list) \<Rightarrow> 's dir \<Rightarrow> str \<Rightarrow> ('s file_system, 's fat_file) st" where
  "create_file ops to_upper self path fs =
     (case split_path path of
        (name, Some rest) \<Rightarrow>
          sbind (find_dir ops to_upper self name) (\<lambda>d. with_dir ops d (\<lambda>fs. create_file ops to_upper d rest fs)) fs
      | (name, None) \<Rightarrow>
          sbind (check_for_existence ops to_upper self name (Some False)) (\<lambda>r.
            case r of
              ShortName short_name \<Rightarrow>
                sbind (\<lambda>fs. (create_sfn_entry fs short_name (attr_truncate 0) None, fs)) (\<lambda>sfn_entry.
                sbind (write_entry ops self name sfn_entry) (\<lambda>e fs. (entry_to_file fs e, fs)))
            | DirEntry e \<Rightarrow> (\<lambda>fs. (entry_to_file fs e, fs))) fs)"
  by pat_completeness auto
termination
  by (relation "measure (\<lambda>(ops, to_upper, self, path, fs). length path)") (auto dest: split_path_shorter [OF sym])

declare create_file.simps [simp del]

text \<open>The special entries of a new directory.\<close>

definition write_dot_entries :: "'s rws \<Rightarrow> 's dir \<Rightarrow> 's dir \<Rightarrow> dir_entry \<Rightarrow> ('s file_system, unit) st" where
  "write_dot_entries ops self dir entry =
     sbind (\<lambda>fs. (create_sfn_entry fs generate_dot ATTR_DIRECTORY (entry_first_cluster fs entry), fs)) (\<lambda>sfn_entry.
     sbind (write_entry ops dir [DOT] sfn_entry) (\<lambda>_.
     sbind (\<lambda>fs. (create_sfn_entry fs generate_dotdot ATTR_DIRECTORY (stream_first_cluster self), fs)) (\<lambda>sfn_entry.
     sbind (write_entry ops dir [DOT, DOT] sfn_entry) (\<lambda>_.
     sret ()))))"

function create_dir :: "'s rws \<Rightarrow> (nat \<Rightarrow> nat list) \<Rightarrow> 's dir \<Rightarrow> str \<Rightarrow> ('s file_system, 's dir) st" where
  "create_dir ops to_upper self path fs =
     (case split_path path of
        (name, Some rest) \<Rightarrow>
          sbind (find_dir ops to_upper self name) (\<lambda>d. with_dir ops d (\<lambda>fs. create_dir ops to_upper d rest fs)) fs
      | (name, None) \<Rightarrow>
          sbind (check_for_existence ops to_upper self name (Some True)) (\<lambda>r.
            case r of
              ShortName short_name \<Rightarrow>
                sbind (fs_alloc_cluster ops None True) (\<lambda>cluster.
                sbind (\<lambda>fs. (create_sfn_entry fs short_name ATTR_DIRECTORY (Some cluster), fs)) (\<lambda>sfn_entry.
                sbind (write_entry ops self name sfn_entry) (\<lambda>entry.
                sbind (\<lambda>fs. (entry_to_dir fs entry, fs)) (\<lambda>dir fs.
                case write_dot_entries ops self dir entry fs of
                  (Inl (Panic p), fs') \<Rightarrow> (Inl (Panic p), fs')
                | (Inl (Io k), fs') \<Rightarrow> with_dir ops dir (sfail (Io k)) fs'
                | (Inr _, fs') \<Rightarrow> (Inr dir, fs')))))
            | DirEntry e \<Rightarrow> (\<lambda>fs. (entry_to_dir fs e, fs))) fs)"
  by pat_completeness auto
termination
  by (relation "measure (\<lambda>(ops, to_upper, self, path, fs). length path)") (auto dest: split_path_shorter [OF sym])

declare create_dir.simps [simp del]

section \<open>Removing and renaming\<close>

definition is_empty :: "'s rws \<Rightarrow> 's dir \<Rightarrow> ('s file_system, bool) st" where
  "is_empty ops self =
     sbind (with_stream ops self (for_entries (raw_stream_ops ops) stream_abs_pos True
              (\<lambda>e _. let name = short_name_as_bytes (de_short_name e) in
                 if name \<noteq> [0x2E] \<and> name \<noteq> [0x2E, 0x2E] then Inr () else Inl ()) ())) (\<lambda>r.
       case r of Inl (_, None) \<Rightarrow> sret True | Inl (_, Some k) \<Rightarrow> sfail (Io k) | Inr _ \<Rightarrow> sret False)"

fun delete_entries :: "'d rws \<Rightarrow> nat \<Rightarrow> ('d, unit) st" where
  "delete_entries ops 0 = sret ()"
| "delete_entries ops (Suc n) =
     sbind (dir_entry_deserialize ops) (\<lambda>data.
     sbind (io_seek ops (Current (- int DIR_ENTRY_SIZE))) (\<lambda>_.
     sbind (dir_entry_serialize ops (dir_entry_set_deleted data)) (\<lambda>_.
     delete_entries ops n)))"

definition free_entries_of :: "'d rws \<Rightarrow> dir_entry \<Rightarrow> ('d, unit) st" where
  "free_entries_of ops e =
     sbind (io_seek ops (Start (fst (de_offset_range e)))) (\<lambda>_.
     if snd (de_offset_range e) < fst (de_offset_range e) then sfail (Panic Overflow)
     else delete_entries ops ((snd (de_offset_range e) - fst (de_offset_range e)) div DIR_ENTRY_SIZE))"

function remove :: "'s rws \<Rightarrow> (nat \<Rightarrow> nat list) \<Rightarrow> 's dir \<Rightarrow> str \<Rightarrow> ('s file_system, unit) st" where
  "remove ops to_upper self path fs =
     (case split_path path of
        (name, Some rest) \<Rightarrow>
          sbind (find_dir ops to_upper self name) (\<lambda>d. with_dir ops d (\<lambda>fs. remove ops to_upper d rest fs)) fs
      | (name, None) \<Rightarrow>
          sbind (find_entry ops to_upper self name None) (\<lambda>e.
          sbind (if file_entry_is_dir (de_data e)
                 then sbind (\<lambda>fs. (entry_to_dir fs e, fs)) (\<lambda>d. with_dir ops d (is_empty ops d))
                 else sret True) (\<lambda>empty.
          if \<not> empty then sfail (Io Other) else
          sbind (\<lambda>fs. case entry_first_cluster fs e of Some n \<Rightarrow> free_cluster_chain ops n fs | None \<Rightarrow> (Inr (), fs)) (\<lambda>_.
          with_stream ops self (free_entries_of (raw_stream_ops ops) e)))) fs)"
  by pat_completeness auto
termination
  by (relation "measure (\<lambda>(ops, to_upper, self, path, fs). length path)") (auto dest: split_path_shorter [OF sym])

declare remove.simps [simp del]

text \<open>A stream that is dropped after what follows.\<close>

definition with_stream_then ::
  "'s rws \<Rightarrow> 's dir \<Rightarrow> ('s dir_raw_stream, unit) st \<Rightarrow> ('s file_system, 'a) st \<Rightarrow> ('s file_system, 'a) st" where
  "with_stream_then ops stream m k fs =
     (case m (stream_on_fs fs stream) of
        (Inl (Panic p), st) \<Rightarrow> (Inl (Panic p), stream_fs st)
      | (Inl (Io e), st) \<Rightarrow> with_dir ops st (sfail (Io e)) (stream_fs st)
      | (Inr _, st) \<Rightarrow> with_dir ops st k (stream_fs st))"

definition rename_internal ::
  "'s rws \<Rightarrow> (nat \<Rightarrow> nat list) \<Rightarrow> 's dir \<Rightarrow> str \<Rightarrow> 's dir \<Rightarrow> str \<Rightarrow> ('s file_system, unit) st" where
  "rename_internal ops to_upper self src_name dst_dir dst_name =
     sbind (find_entry ops to_upper self src_name None) (\<lambda>e.
     sbind (check_for_existence ops to_upper dst_dir dst_name None) (\<lambda>r.
       case r of
         DirEntry dst_e \<Rightarrow> if dir_entry_is_same_entry e dst_e then sret () else sfail (Io AlreadyExists)
       | ShortName short_name \<Rightarrow>
           with_stream_then ops self (free_entries_of (raw_stream_ops ops) e)
             (sbind (write_entry ops dst_dir dst_name (file_entry_renamed short_name (de_data e))) (\<lambda>_. sret ()))))"

function rename ::
  "'s rws \<Rightarrow> (nat \<Rightarrow> nat list) \<Rightarrow> 's dir \<Rightarrow> str \<Rightarrow> 's dir \<Rightarrow> str \<Rightarrow> ('s file_system, unit) st" where
  "rename ops to_upper self src_path dst_dir dst_path fs =
     (case split_path src_path of
        (name, Some rest) \<Rightarrow>
          sbind (find_dir ops to_upper self name) (\<lambda>d.
            with_dir ops d (\<lambda>fs. rename ops to_upper d rest dst_dir dst_path fs)) fs
      | (_, None) \<Rightarrow>
          (case split_path dst_path of
             (name, Some rest) \<Rightarrow>
               sbind (find_dir ops to_upper dst_dir name) (\<lambda>d.
                 with_dir ops d (\<lambda>fs. rename ops to_upper self src_path d rest fs)) fs
           | (_, None) \<Rightarrow> rename_internal ops to_upper self src_path dst_dir dst_path fs))"
  by pat_completeness auto
termination
  by (relation "measure (\<lambda>(ops, to_upper, self, src_path, dst_dir, dst_path, fs). length src_path + length dst_path)")
    (auto dest: split_path_shorter [OF sym])

declare rename.simps [simp del]

end
