(* ===== verification/Fat_Names_Props.thy ===== *)
theory Fat_Names_Props
  imports Fat_Names
begin

text \<open>
  The names of a directory. Long names: the entries generated for a name are assembled to the same name
  again, and the builder never indexes outside its buffer, whatever entries it is given. Short names: a
  generated short name is different from every name the generator has seen, and the search for one
  ends.
\<close>

section \<open>The builder\<close>

definition lnb_ok :: "long_name_builder \<Rightarrow> bool" where
  "lnb_ok self \<longleftrightarrow> unat (lb_index self) * 13 \<le> length (lb_buf self)"

fun lnb_process_all :: "dir_lfn_entry_data list \<Rightarrow> long_name_builder \<Rightarrow> long_name_builder res" where
  "lnb_process_all [] self = Inr self"
| "lnb_process_all (x # xs) self = rbind (lnb_process x self) (lnb_process_all xs)"

lemma lnb_process_all_append:
  "lnb_process_all (xs @ ys) self = rbind (lnb_process_all xs self) (lnb_process_all ys)"
  by (induction xs arbitrary: self) (simp_all add: rbind_def split: sum.splits)

lemma length_resize_u16 [simp]: "length (resize_u16 n buf) = n"
  by (simp add: resize_u16_def)

definition lfn_entry_shape :: "dir_lfn_entry_data \<Rightarrow> bool" where
  "lfn_entry_shape l \<longleftrightarrow> length (lfn_copy_name_to_slice l) = 13"

lemma unat_pred_u8: "(x :: u8) \<noteq> 0 \<Longrightarrow> unat (x - 1) = unat x - 1"
  by (metis One_nat_def unat_minus_one unat_1)

lemma lnb_copy_ok:
  assumes "lfn_entry_shape l" "index \<noteq> 0" "unat index * 13 \<le> length (lb_buf self)"
  shows "lnb_copy index l self =
    Inr (self\<lparr>lb_buf := splice (13 * (unat index - 1)) (lfn_copy_name_to_slice l) (lb_buf self)\<rparr>)"
proof -
  have "0 < unat index" using assms(2) by (simp add: unat_gt_0)
  then have "13 * (unat index - 1) + 13 \<le> length (lb_buf self)" using assms(3) by (cases "unat index") auto
  then show ?thesis by (simp add: lnb_copy_def LFN_PART_LEN_def)
qed

lemma lnb_process_ok:
  assumes "lnb_ok self" "lfn_entry_shape l"
  shows "\<exists>self'. lnb_process l self = Inr self' \<and> lnb_ok self'"
proof -
  let ?i = "le_order l AND 0x1F"
  consider "?i = 0" | "?i \<noteq> 0" "le_order l AND LFN_ENTRY_LAST_FLAG \<noteq> 0"
    | "?i \<noteq> 0" "le_order l AND LFN_ENTRY_LAST_FLAG = 0"
        "lb_index self = 0 \<or> ?i \<noteq> lb_index self - 1 \<or> le_checksum l \<noteq> lb_chksum self"
    | "?i \<noteq> 0" "le_order l AND LFN_ENTRY_LAST_FLAG = 0" "lb_index self \<noteq> 0" "?i = lb_index self - 1"
        "le_checksum l = lb_chksum self"
    by blast
  then show ?thesis
  proof cases
    case 2
    let ?s = "self\<lparr>lb_index := ?i, lb_chksum := le_checksum l, lb_buf := resize_u16 (unat ?i * LFN_PART_LEN) (lb_buf self)\<rparr>"
    have "lnb_copy ?i l ?s = Inr (?s\<lparr>lb_buf := splice (13 * (unat ?i - 1)) (lfn_copy_name_to_slice l) (lb_buf ?s)\<rparr>)"
      by (rule lnb_copy_ok [OF assms(2) 2(1)]) (simp add: LFN_PART_LEN_def)
    moreover have "13 * (unat ?i - 1) + 13 \<le> unat ?i * 13" using 2(1) by (cases "unat ?i") (auto simp: unat_eq_0)
    ultimately show ?thesis using 2 assms(2)
      by (simp add: lnb_process_def lnb_ok_def LFN_PART_LEN_def lfn_entry_shape_def Let_def)
  next
    case 4
    let ?s = "self\<lparr>lb_index := lb_index self - 1\<rparr>"
    have u: "unat ?i = unat (lb_index self) - 1" using 4(3) by (simp add: 4(4) unat_pred_u8)
    then have le: "unat ?i * 13 \<le> length (lb_buf self)" using assms(1) by (simp add: lnb_ok_def)
    then have "lnb_copy ?i l ?s = Inr (?s\<lparr>lb_buf := splice (13 * (unat ?i - 1)) (lfn_copy_name_to_slice l) (lb_buf self)\<rparr>)"
      using lnb_copy_ok [OF assms(2) 4(1), of ?s] by simp
    moreover have "13 * (unat ?i - 1) + 13 \<le> length (lb_buf self)" using 4(1) le by (cases "unat ?i") (auto simp: unat_eq_0)
    ultimately show ?thesis using 4 assms(2) le u
      by (simp add: lnb_process_def lnb_ok_def lfn_entry_shape_def Let_def)
  qed (simp_all add: lnb_process_def lnb_ok_def lnb_clear_def)
qed

section \<open>The entries of a name\<close>

lemma length_lfn_pad_part [simp]: "length p \<le> 13 \<Longrightarrow> length (lfn_pad_part p) = 13"
  by (simp add: lfn_pad_part_def Let_def LFN_PART_LEN_def)

lemma lfn_pad_part_full: "length p = 13 \<Longrightarrow> lfn_pad_part p = p"
  by (simp add: lfn_pad_part_def Let_def LFN_PART_LEN_def splice_def)

lemma lfn_pad_part_short:
  assumes "length p < 13"
  shows "lfn_pad_part p = p @ 0 # replicate (12 - length p) 0xFFFF"
proof -
  have "(13 :: nat) - length p = Suc (12 - length p)" using assms by simp
  with assms show ?thesis
    by (simp add: lfn_pad_part_def Let_def LFN_PART_LEN_def splice_def list_update_append)
qed

lemma chunks_concat: "0 < n \<Longrightarrow> concat (chunks n xs) = xs"
  by (induction n xs rule: chunks.induct) (simp add: chunks.simps [of _ xs for xs])

lemma length_chunks_elem: "p \<in> set (chunks n xs) \<Longrightarrow> 0 < length p \<and> length p \<le> n"
proof (induction n xs rule: chunks.induct)
  case (1 n xs)
  from 1(2) have "p \<in> set (if n = 0 \<or> xs = [] then [] else take n xs # chunks n (drop n xs))"
    by (simp only: chunks.simps [of n xs])
  with 1(1) show ?case by (auto split: if_splits)
qed

lemma length_chunks: "0 < n \<Longrightarrow> length (chunks n xs) = (length xs + n - 1) div n"
proof (induction n xs rule: chunks.induct)
  case (1 n xs)
  show ?case
  proof (cases "xs = []")
    case False
    then have l: "0 < length xs" by simp
    have "length (chunks n xs) = Suc ((length (drop n xs) + n - 1) div n)"
      using 1 False by (subst chunks.simps) simp
    also have "\<dots> = (length xs + n - 1) div n"
    proof (cases "length xs \<le> n")
      case True
      with l have "(length xs + n - 1) div n = 1" by (intro div_nat_eqI) (unfold mult_Suc_right, linarith+)
      with True 1(2) show ?thesis by simp
    next
      case False
      then have e: "length xs + n - 1 = (length xs - n + n - 1) + n" using 1(2) by simp
      show ?thesis unfolding e using 1(2) by (simp only: div_add_self2 length_drop)
    qed
    finally show ?thesis .
  qed (use 1(2) in \<open>simp add: chunks.simps\<close>)
qed

lemma concat_pad_chunks:
  "\<exists>t. concat (map lfn_pad_part (chunks 13 xs)) = xs @ t \<and> set t \<subseteq> {0, 0xFFFF}"
proof (induction "13 :: nat" xs rule: chunks.induct)
  case (1 xs)
  show ?case
  proof (cases "xs = [] \<or> length xs < 13")
    case True
    then show ?thesis
      by (cases "xs = []") (auto simp: chunks.simps [of 13 xs] chunks.simps [of 13 "[]"] lfn_pad_part_short)
  next
    case False
    with 1 obtain t where t: "concat (map lfn_pad_part (chunks 13 (drop 13 xs))) = drop 13 xs @ t" "set t \<subseteq> {0, 0xFFFF}"
      by auto
    have "lfn_pad_part (take 13 xs) = take 13 xs" by (rule lfn_pad_part_full) (use False in simp)
    with t(1) False have "concat (map lfn_pad_part (chunks 13 xs)) = take 13 xs @ drop 13 xs @ t"
      by (simp add: chunks.simps [of 13 xs])
    with t(2) show ?thesis by (metis append.assoc append_take_drop_id)
  qed
qed

definition lfn_order :: "nat \<Rightarrow> nat \<Rightarrow> u8" where
  "lfn_order n i = (if Suc i = n then of_nat (Suc i) OR LFN_ENTRY_LAST_FLAG else of_nat (Suc i))"

definition lfn_entry_of :: "u8 \<Rightarrow> nat \<Rightarrow> nat \<Rightarrow> u16 list \<Rightarrow> dir_lfn_entry_data" where
  "lfn_entry_of chk n i p = lfn_copy_name_from_slice p (lfn_entry_new (lfn_order n i) chk)"

lemma order_bits:
  assumes "i < 31"
  shows "of_nat (Suc i) AND (0x1F :: u8) = of_nat (Suc i)" "of_nat (Suc i) AND LFN_ENTRY_LAST_FLAG = 0"
    "(of_nat (Suc i) OR LFN_ENTRY_LAST_FLAG) AND 0x1F = of_nat (Suc i)"
    "(of_nat (Suc i) OR LFN_ENTRY_LAST_FLAG) AND LFN_ENTRY_LAST_FLAG \<noteq> 0" "(of_nat (Suc i) :: u8) \<noteq> 0"
    "of_nat (Suc i) OR LFN_ENTRY_LAST_FLAG \<noteq> 0"
proof -
  have "list_all (\<lambda>i. of_nat (Suc i) AND (0x1F :: u8) = of_nat (Suc i) \<and> of_nat (Suc i) AND (0x40 :: u8) = 0 \<and>
      (of_nat (Suc i) OR 0x40) AND (0x1F :: u8) = of_nat (Suc i) \<and> (of_nat (Suc i) OR 0x40) AND (0x40 :: u8) \<noteq> 0 \<and>
      (of_nat (Suc i) :: u8) \<noteq> 0 \<and> of_nat (Suc i) OR (0x40 :: u8) \<noteq> 0) [0..<31]"
    by code_simp
  moreover have "i \<in> set [0..<31]" using assms by simp
  ultimately show "of_nat (Suc i) AND (0x1F :: u8) = of_nat (Suc i)" "of_nat (Suc i) AND LFN_ENTRY_LAST_FLAG = 0"
    "(of_nat (Suc i) OR LFN_ENTRY_LAST_FLAG) AND 0x1F = of_nat (Suc i)"
    "(of_nat (Suc i) OR LFN_ENTRY_LAST_FLAG) AND LFN_ENTRY_LAST_FLAG \<noteq> 0" "(of_nat (Suc i) :: u8) \<noteq> 0"
    "of_nat (Suc i) OR LFN_ENTRY_LAST_FLAG \<noteq> 0"
    unfolding list_all_iff LFN_ENTRY_LAST_FLAG_def by blast+
qed

lemma lfn_gen_collect_parts:
  assumes "k \<le> length ps" "length ps \<le> 31"
  shows "lfn_gen_collect \<lparr>lg_name_parts = rev (take k ps), lg_checksum = chk, lg_index = length ps - k,
      lg_num = length ps, lg_ended = False\<rparr> =
    Inr (rev (map (\<lambda>i. lfn_entry_of chk (length ps) i (lfn_pad_part (ps ! i))) [0..<k]))"
  using assms(1)
proof (induction k)
  case 0
  show ?case by (simp add: lfn_gen_collect.simps lfn_gen_next_def)
next
  case (Suc k)
  have r: "rev (take (Suc k) ps) = ps ! k # rev (take k ps)" using Suc.prems by (simp add: take_Suc_conv_app_nth)
  have n: "length ps - (length ps - Suc k) = Suc k" "Suc (length ps - Suc k) = length ps - k" using Suc.prems by simp_all
  have z: "length ps - Suc k = 0 \<longleftrightarrow> Suc k = length ps" using Suc.prems by auto
  note ob = order_bits [of k]
  have "lfn_gen_next \<lparr>lg_name_parts = rev (take (Suc k) ps), lg_checksum = chk, lg_index = length ps - Suc k,
      lg_num = length ps, lg_ended = False\<rparr> =
    Inr (Some (lfn_entry_of chk (length ps) k (lfn_pad_part (ps ! k))),
      \<lparr>lg_name_parts = rev (take k ps), lg_checksum = chk, lg_index = length ps - k, lg_num = length ps, lg_ended = False\<rparr>)"
    using ob(5,6) Suc.prems assms(2)
    by (simp add: lfn_gen_next_def Let_def r n z lfn_entry_of_def lfn_order_def not_less del: of_nat_Suc)
  then show ?case using Suc by (subst lfn_gen_collect.simps) simp
qed

lemma lfn_gen_collect_new:
  assumes "length xs \<le> 403"
  shows "lfn_gen_collect (lfn_gen_new xs chk) = (let ps = chunks 13 xs; n = length ps in
    Inr (rev (map (\<lambda>i. lfn_entry_of chk n i (lfn_pad_part (ps ! i))) [0..<n])))"
proof -
  have l: "length (chunks 13 xs) = (length xs + 13 - 1) div 13" by (rule length_chunks) simp
  with assms have "length (chunks 13 xs) \<le> 31" by simp
  from lfn_gen_collect_parts [OF order_refl this, of chk] l show ?thesis
    by (simp add: lfn_gen_new_def LFN_PART_LEN_def Let_def)
qed

lemma lfn_entry_of_simps:
  assumes "length p = 13"
  shows "lfn_copy_name_to_slice (lfn_entry_of chk n i p) = p" "le_order (lfn_entry_of chk n i p) = lfn_order n i"
    "le_checksum (lfn_entry_of chk n i p) = chk" "lfn_entry_shape (lfn_entry_of chk n i p)"
proof -
  have "take 5 p @ take 6 (drop 5 p) @ take 2 (drop 11 p) = take 5 p @ take 8 (drop 5 p)"
    by (simp add: take_add [of 6 2, simplified] add.commute)
  also have "\<dots> = p" using assms by simp
  finally show c: "lfn_copy_name_to_slice (lfn_entry_of chk n i p) = p"
    by (simp add: lfn_entry_of_def lfn_copy_name_to_slice_def lfn_copy_name_from_slice_def window_def)
  show "lfn_entry_shape (lfn_entry_of chk n i p)" by (simp add: lfn_entry_shape_def c assms)
qed (simp_all add: lfn_entry_of_def lfn_copy_name_from_slice_def lfn_entry_new_def)

section \<open>Round trip of long names\<close>

lemma drop_splice_at: "n \<le> length xs \<Longrightarrow> drop n (splice n ys xs) = ys @ drop (n + length ys) xs"
  by (simp add: splice_def)

text \<open>After the entries from the last down to number \<open>k\<close>.\<close>

lemma lnb_process_downto:
  assumes "\<forall>p \<in> set ps. length p = 13" "length ps \<le> 31" "k < length ps"
  shows "\<exists>b. lnb_process_all (rev (map (\<lambda>i. lfn_entry_of chk (length ps) i (ps ! i)) [k..<length ps])) b0 = Inr b \<and>
    lb_index b = of_nat (Suc k) \<and> lb_chksum b = chk \<and> length (lb_buf b) = 13 * length ps \<and>
    drop (13 * k) (lb_buf b) = concat (drop k ps)"
  using assms(3)
proof (induction "length ps - Suc k" arbitrary: k)
  case 0
  then have n: "length ps = Suc k" by simp
  let ?e = "lfn_entry_of chk (length ps) k (ps ! k)"
  have l: "length (ps ! k) = 13" using assms(1) n by simp
  note e = lfn_entry_of_simps [OF l, of chk "length ps" k]
  note ob = order_bits [of k]
  have k: "k < 31" using assms(2) n by simp
  have u: "unat (of_nat (Suc k) :: u8) = Suc k" using k by (simp add: unat_of_nat del: of_nat_Suc)
  let ?b = "b0\<lparr>lb_index := of_nat (Suc k), lb_chksum := chk, lb_buf := resize_u16 (Suc k * 13) (lb_buf b0)\<rparr>"
  have "lnb_copy (of_nat (Suc k)) ?e ?b = Inr (?b\<lparr>lb_buf := splice (13 * k) (ps ! k) (resize_u16 (Suc k * 13) (lb_buf b0))\<rparr>)"
    using lnb_copy_ok [OF e(4) ob(5) [OF k], of ?b] by (simp add: u e(1) del: of_nat_Suc)
  then have "lnb_process ?e b0 = Inr (?b\<lparr>lb_buf := splice (13 * k) (ps ! k) (resize_u16 (Suc k * 13) (lb_buf b0))\<rparr>)"
    unfolding lnb_process_def Let_def e lfn_order_def LFN_PART_LEN_def using n ob [OF k] u by (simp del: of_nat_Suc)
  moreover have "[k..<length ps] = [k]" using n by simp
  moreover have "drop k ps = [ps ! k]" using n by (simp add: Cons_nth_drop_Suc [symmetric])
  ultimately show ?case using l n by (simp add: drop_splice_at del: of_nat_Suc)
next
  case (Suc x)
  then have k: "Suc k < length ps" by simp
  obtain b where b: "lnb_process_all (rev (map (\<lambda>i. lfn_entry_of chk (length ps) i (ps ! i)) [Suc k..<length ps])) b0 = Inr b"
    "lb_index b = of_nat (Suc (Suc k))" "lb_chksum b = chk" "length (lb_buf b) = 13 * length ps"
    "drop (13 * Suc k) (lb_buf b) = concat (drop (Suc k) ps)"
  proof -
    have "x = length ps - Suc (Suc k)" using Suc(2) by linarith
    from Suc(1) [OF this k] that show thesis by blast
  qed
  let ?e = "lfn_entry_of chk (length ps) k (ps ! k)"
  have l: "length (ps ! k) = 13" using assms(1) k by simp
  note e = lfn_entry_of_simps [OF l, of chk "length ps" k]
  note ob = order_bits [of k]
  have k31: "k < 31" "Suc k < 31" using assms(2) k by simp_all
  have u: "unat (of_nat (Suc k) :: u8) = Suc k" using k31 by (simp add: unat_of_nat del: of_nat_Suc)
  have i: "lb_index b \<noteq> 0" "lb_index b - 1 = of_nat (Suc k)" using order_bits(5) [OF k31(2)] b(2) by simp_all
  let ?b = "b\<lparr>lb_index := of_nat (Suc k)\<rparr>"
  have "lnb_copy (of_nat (Suc k)) ?e ?b = Inr (?b\<lparr>lb_buf := splice (13 * k) (ps ! k) (lb_buf b)\<rparr>)"
    using lnb_copy_ok [OF e(4) ob(5) [OF k31(1)], of ?b] k b(4) by (simp add: u e(1) del: of_nat_Suc)
  then have "lnb_process ?e b = Inr (?b\<lparr>lb_buf := splice (13 * k) (ps ! k) (lb_buf b)\<rparr>)"
    unfolding lnb_process_def Let_def e lfn_order_def using k ob [OF k31(1)] i b(3) by (simp del: of_nat_Suc)
  moreover have "[k..<length ps] = k # [Suc k..<length ps]" using k by (simp add: upt_conv_Cons)
  moreover have "drop k ps = ps ! k # drop (Suc k) ps" using k by (simp add: Cons_nth_drop_Suc)
  ultimately show ?case using b(1,3,4) b(5) l k
    by (simp add: lnb_process_all_append drop_splice_at add.commute del: of_nat_Suc)
qed

text \<open>What the builder cuts off at the end of its buffer: the filler and the terminator of the entries.\<close>

definition cut_filler :: "u16 list \<Rightarrow> u16 list" where
  "cut_filler xs = rev (dropWhile (\<lambda>c. c = 0xFFFF \<or> c = 0) (rev xs))"

lemma lfn_trim_append: "n \<le> length xs \<Longrightarrow> lfn_trim (xs @ t) n = lfn_trim xs n"
  by (induction n) (simp_all add: nth_append)

lemma lfn_trim_take: "take (lfn_trim xs (length xs)) xs = cut_filler xs"
proof (induction xs rule: rev_induct)
  case (snoc x xs)
  have "lfn_trim xs n \<le> n" for n by (induction n) auto
  with snoc show ?case by (auto simp: cut_filler_def lfn_trim_append)
qed (simp add: cut_filler_def)

lemma cut_filler_append: "set t \<subseteq> {0, 0xFFFF} \<Longrightarrow> cut_filler (xs @ t) = cut_filler xs"
  unfolding cut_filler_def by (auto simp: dropWhile_append1 intro!: arg_cong [where f = rev] dropWhile_append2)

lemma lfn_assembles:
  assumes "xs \<noteq> []" "length xs \<le> 403"
  shows "\<exists>es b. lfn_gen_collect (lfn_gen_new xs chk) = Inr es \<and> length es = lfn_gen_len (lfn_gen_new xs chk) \<and>
    lnb_process_all es b0 = Inr b \<and> lb_index b = 1 \<and> lb_chksum b = chk \<and> lnb_into_vec b = cut_filler xs"
proof -
  define ps where "ps = map lfn_pad_part (chunks 13 xs)"
  have l: "length ps = (length xs + 13 - 1) div 13" unfolding ps_def using length_chunks [of 13 xs] by simp
  have ps: "\<forall>p \<in> set ps. length p = 13" "length ps \<le> 31" using assms(2) l length_chunks_elem [of _ 13 xs] by (auto simp: ps_def)
  have ps0: "0 < length ps" using assms(1) by (simp add: ps_def chunks.simps [of 13 xs])
  obtain b where b: "lnb_process_all (rev (map (\<lambda>i. lfn_entry_of chk (length ps) i (ps ! i)) [0..<length ps])) b0 = Inr b"
    "lb_index b = 1" "lb_chksum b = chk" "lb_buf b = concat ps"
    using lnb_process_downto [OF ps ps0, of chk b0] by auto
  have es: "lfn_gen_collect (lfn_gen_new xs chk) = Inr (rev (map (\<lambda>i. lfn_entry_of chk (length ps) i (ps ! i)) [0..<length ps]))"
    using lfn_gen_collect_new [OF assms(2), of chk] by (simp add: ps_def Let_def cong: map_cong)
  obtain t where t: "concat ps = xs @ t" "set t \<subseteq> {0, 0xFFFF}" using concat_pad_chunks [of xs] by (auto simp: ps_def)
  have "lnb_into_vec b = cut_filler xs"
    using cut_filler_append [OF t(2), of xs] lfn_trim_take [of "concat ps"] b(2,4) t(1)
    by (simp add: lnb_into_vec_def lnb_truncate_def)
  with b es show ?thesis by (simp add: lfn_gen_len_def lfn_gen_new_def LFN_PART_LEN_def ps_def)
qed

lemma encode_lfn_utf16_bmp: "\<forall>c \<in> set name. c < 0x10000 \<Longrightarrow> encode_lfn_utf16 name = map of_nat name"
  unfolding encode_lfn_utf16_def by (induction name) (auto simp: encode_utf16_char_def)

lemma validated_name:
  assumes "validate_long_name name = Inr ()" "str_ok name"
  shows "name \<noteq> []" "length name \<le> 255" "\<forall>c \<in> set name. 0 < c \<and> c < 0xD800 \<or> 0xDFFF < c \<and> c \<le> 0xFFFF"
    "encode_lfn_utf16 name = map of_nat name"
proof -
  have v: "name \<noteq> []" "str_len name \<le> 255" "list_all valid_name_char name"
    using assms(1) by (auto simp: validate_long_name_def split: if_splits)
  then show "name \<noteq> []" by simp
  have "length xs \<le> str_len xs" for xs
    by (induction xs) (auto simp: str_len_def len_utf8_def)
  with v(2) show "length name \<le> 255" using le_trans by blast
  have c: "0 < c \<and> c \<le> 0xFFFF" if "c \<in> set name" for c
  proof -
    have "valid_name_char c" using v(3) that by (simp add: list_all_iff)
    then show ?thesis unfolding valid_name_char_def by auto
  qed
  with assms(2) show "\<forall>c \<in> set name. 0 < c \<and> c < 0xD800 \<or> 0xDFFF < c \<and> c \<le> 0xFFFF"
    by (fastforce simp: str_ok_def)
  from c have "\<forall>c \<in> set name. c < 0x10000" by fastforce
  then show "encode_lfn_utf16 name = map of_nat name" by (rule encode_lfn_utf16_bmp)
qed

lemma from_utf16_lossy_bmp:
  assumes "\<forall>c \<in> set name. c < 0xD800 \<or> 0xDFFF < c \<and> c \<le> 0xFFFF"
  shows "from_utf16_lossy (map of_nat name) = name"
  using assms
proof (induction name)
  case (Cons c cs)
  have "c < 65536" using Cons.prems by auto
  then have u: "unat (of_nat c :: u16) = c" by (simp add: unat_of_nat)
  then have "(of_nat c :: u16) < 0xD800 \<or> 0xDFFF < (of_nat c :: u16)"
    using Cons.prems by (auto simp: word_less_nat_alt)
  with Cons u show ?case by simp
qed simp

lemma cut_filler_name:
  assumes "\<forall>c \<in> set name. 0 < c \<and> c \<le> 0xFFFF"
  shows "cut_filler (map of_nat name) = map of_nat (rev (dropWhile (\<lambda>c. c = 0xFFFF) (rev name)))"
proof -
  have u: "unat (of_nat c :: u16) = c" if "c \<in> set name" for c using assms that by (fastforce simp: unat_of_nat)
  have "((of_nat c :: u16) = 0xFFFF \<or> (of_nat c :: u16) = 0) = (c = 0xFFFF)" if "c \<in> set name" for c
    using u [OF that] assms that by auto
  then have "dropWhile ((\<lambda>c :: u16. c = 0xFFFF \<or> c = 0) \<circ> of_nat) (rev name) = dropWhile (\<lambda>c. c = 0xFFFF) (rev name)"
    by (intro dropWhile_cong) auto
  then show ?thesis by (simp add: cut_filler_def rev_map dropWhile_map)
qed

text \<open>C36: a long name survives the directory but for U+FFFF at its end: for every name that passes the check of the
  code, the entries that are generated for it and the checksum of its short name are assembled, after any entries
  before them, to the UTF-16 sequence of the name with the characters U+FFFF at its end cut off.  So a name that does
  not end in U+FFFF is read back as it was given, and one that does (the check accepts it) loses its end, because
  U+FFFF is the filler of the entries.  The UTF-16 sequence decodes to the name.\<close>

theorem long_name_roundtrip:
  assumes "validate_long_name name = Inr ()" "str_ok name"
  shows "\<exists>es b. lfn_gen_collect (lfn_gen_new (encode_lfn_utf16 name) (lfn_checksum sn)) = Inr es \<and>
    1 \<le> length es \<and> length es \<le> 20 \<and> lnb_process_all es b0 = Inr b \<and>
    lnb_into_vec (lnb_validate_chksum sn b) = encode_lfn_utf16 (rev (dropWhile (\<lambda>c. c = 0xFFFF) (rev name))) \<and>
    (last name \<noteq> 0xFFFF \<longrightarrow> lnb_into_vec (lnb_validate_chksum sn b) = encode_lfn_utf16 name) \<and>
    from_utf16_lossy (encode_lfn_utf16 name) = name"
proof -
  note v = validated_name [OF assms]
  let ?cut = "rev (dropWhile (\<lambda>c. c = 0xFFFF) (rev name))"
  obtain es b where es: "lfn_gen_collect (lfn_gen_new (map of_nat name) (lfn_checksum sn)) = Inr es"
    "length es = lfn_gen_len (lfn_gen_new (map of_nat name) (lfn_checksum sn))" "lnb_process_all es b0 = Inr b"
    "lb_index b = 1" "lb_chksum b = lfn_checksum sn" "lnb_into_vec b = cut_filler (map of_nat name)"
    using lfn_assembles [of "map of_nat name" "lfn_checksum sn" b0] v(1,2) by auto
  have "\<forall>c \<in> set name. 0 < c \<and> c \<le> 0xFFFF" using v(3) by fastforce
  from cut_filler_name [OF this] have cut: "lnb_into_vec b = map of_nat ?cut" using es(6) by simp
  have "set ?cut \<subseteq> set name" by (auto dest: set_dropWhileD)
  then have "\<forall>c \<in> set ?cut. c < 0x10000" using v(3) by fastforce
  then have enc: "encode_lfn_utf16 ?cut = map of_nat ?cut" by (rule encode_lfn_utf16_bmp)
  have same: "?cut = name" if "last name \<noteq> 0xFFFF" using v(1) that by (cases name rule: rev_cases) simp_all
  have "lnb_validate_chksum sn b = b" using es(5) by (simp add: lnb_validate_chksum_def)
  moreover have "length es = (length name + 13 - 1) div 13"
    using es(2) length_chunks [of 13 "map of_nat name :: u16 list"] by (simp add: lfn_gen_len_def lfn_gen_new_def LFN_PART_LEN_def)
  moreover have "from_utf16_lossy (map of_nat name) = name" by (rule from_utf16_lossy_bmp) (use v(3) in auto)
  moreover have "1 \<le> length name" using v(1) by (simp add: Suc_le_eq)
  ultimately show ?thesis using es(1,3) v(2,4) cut enc same by (intro exI [of _ es] exI [of _ b]) auto
qed

theorem long_name_roundtrip_witness:
  "(\<exists>es b. lfn_gen_collect (lfn_gen_new (encode_lfn_utf16 [0x61, 0x2E, 0x62]) (lfn_checksum (replicate 11 0x20))) = Inr es \<and>
    lnb_process_all es lnb_new = Inr b \<and>
    lnb_into_vec (lnb_validate_chksum (replicate 11 0x20) b) = [0x61, 0x2E, 0x62]) \<and>
   (\<exists>es b. lfn_gen_collect (lfn_gen_new (encode_lfn_utf16 [0x61, 0xFFFF]) (lfn_checksum (replicate 11 0x20))) = Inr es \<and>
    lnb_process_all es lnb_new = Inr b \<and> lnb_into_vec (lnb_validate_chksum (replicate 11 0x20) b) = [0x61])"
proof -
  have "validate_long_name [0x61, 0x2E, 0x62] = Inr ()" "validate_long_name [0x61, 0xFFFF] = Inr ()"
    by (simp_all add: validate_long_name_def str_len_def len_utf8_def valid_name_char_def)
  moreover have "str_ok [0x61, 0x2E, 0x62]" "str_ok [0x61, 0xFFFF]" by (simp_all add: str_ok_def)
  moreover have "encode_lfn_utf16 [0x61, 0x2E, 0x62] = [0x61, 0x2E, 0x62]" "encode_lfn_utf16 [0x61] = [0x61]"
    by (simp_all add: encode_lfn_utf16_def encode_utf16_char_def)
  ultimately show ?thesis
    using long_name_roundtrip [of "[0x61, 0x2E, 0x62]" "replicate 11 0x20" lnb_new]
      long_name_roundtrip [of "[0x61, 0xFFFF]" "replicate 11 0x20" lnb_new] by auto
qed

section \<open>Short names\<close>

definition sng_ok :: "short_name_generator \<Rightarrow> bool" where
  "sng_ok g \<longleftrightarrow> length (sg_short_name g) = 11 \<and> unat (sg_basename_len g) \<le> 8"

text \<open>The bit an existing name sets in each of the two bitmaps.\<close>

definition long_hit :: "short_name_generator \<Rightarrow> u8 list \<Rightarrow> u16" where
  "long_hit g n =
     (let p = min (unat (sg_basename_len g)) 6 in
      case num_suffix_at p n of
        Some i \<Rightarrow> if take p n = take p (sg_short_name g) \<and> drop 8 n = drop 8 (sg_short_name g) then push_bit i 1 else 0
      | None \<Rightarrow> 0)"

definition chksum_hit :: "short_name_generator \<Rightarrow> u8 list \<Rightarrow> u16" where
  "chksum_hit g n =
     (let p = min (unat (sg_basename_len g)) 2 in
      case num_suffix_at (p + 4) n of
        Some i \<Rightarrow> if take p n = take p (sg_short_name g) \<and> drop 8 n = drop 8 (sg_short_name g) \<and>
             from_str_radix_16 (window p 4 n) = Some (sg_chksum g) then push_bit i 1 else 0
      | None \<Rightarrow> 0)"

lemma add_collision_eqs:
  "add_exact_match n g = g\<lparr>sg_exact_match := (sg_exact_match g \<or> n = sg_short_name g)\<rparr>"
  "add_long_prefix n g = g\<lparr>sg_long_prefix_bitmap := sg_long_prefix_bitmap g OR long_hit g n\<rparr>"
  "add_prefix_chksum n g = g\<lparr>sg_prefix_chksum_bitmap := sg_prefix_chksum_bitmap g OR chksum_hit g n\<rparr>"
  by (auto simp: add_exact_match_def add_long_prefix_def add_prefix_chksum_def long_hit_def chksum_hit_def Let_def
      split: option.splits)

text \<open>What the additions leave alone, and what they collect.\<close>

definition same_name :: "short_name_generator \<Rightarrow> short_name_generator \<Rightarrow> bool" where
  "same_name g h \<longleftrightarrow> sg_chksum g = sg_chksum h \<and> sg_basename_len g = sg_basename_len h \<and>
     sg_short_name g = sg_short_name h"

lemma same_name_hits:
  assumes "same_name g h"
  shows "long_hit g = long_hit h" "chksum_hit g = chksum_hit h" "build_prefixed_name i b g = build_prefixed_name i b h"
    "sng_ok g = sng_ok h"
proof -
  have e: "sg_chksum g = sg_chksum h" "sg_basename_len g = sg_basename_len h" "sg_short_name g = sg_short_name h"
    using assms by (simp_all add: same_name_def)
  show "long_hit g = long_hit h" "chksum_hit g = chksum_hit h" "build_prefixed_name i b g = build_prefixed_name i b h"
    "sng_ok g = sng_ok h"
    unfolding fun_eq_iff long_hit_def chksum_hit_def build_prefixed_name_def sng_ok_def e by simp_all
qed

lemma sng_add_existing_eq:
  "sng_add_existing n g =
     g\<lparr>sg_exact_match := (sg_exact_match g \<or> n = sg_short_name g),
       sg_long_prefix_bitmap := sg_long_prefix_bitmap g OR long_hit g n,
       sg_prefix_chksum_bitmap := sg_prefix_chksum_bitmap g OR chksum_hit g n\<rparr>"
proof -
  have "long_hit (g\<lparr>sg_exact_match := b\<rparr>) = long_hit g"
    "chksum_hit (g\<lparr>sg_exact_match := b, sg_long_prefix_bitmap := w\<rparr>) = chksum_hit g" for b w
    by (rule same_name_hits; simp add: same_name_def)+
  then show ?thesis by (simp add: sng_add_existing_def add_collision_eqs)
qed

lemma same_name_add: "same_name (sng_add_existing n g) h \<longleftrightarrow> same_name g h"
  by (simp add: same_name_def sng_add_existing_eq)

lemma same_name_fold: "same_name (fold sng_add_existing ns g) h \<longleftrightarrow> same_name g h"
  by (induction ns arbitrary: g) (simp_all add: same_name_add)

lemma same_name_refl [simp]: "same_name g g"
  by (simp add: same_name_def)

lemma fold_add_existing:
  "(sg_exact_match (fold sng_add_existing ns g) \<longleftrightarrow> sg_exact_match g \<or> sg_short_name g \<in> set ns) \<and>
   (\<forall>i. bit (sg_long_prefix_bitmap (fold sng_add_existing ns g)) i \<longleftrightarrow>
     bit (sg_long_prefix_bitmap g) i \<or> (\<exists>n \<in> set ns. bit (long_hit g n) i)) \<and>
   (\<forall>i. bit (sg_prefix_chksum_bitmap (fold sng_add_existing ns g)) i \<longleftrightarrow>
     bit (sg_prefix_chksum_bitmap g) i \<or> (\<exists>n \<in> set ns. bit (chksum_hit g n) i))"
proof (induction ns arbitrary: g)
  case (Cons n ns)
  have s: "same_name (sng_add_existing n g) g" by (simp add: same_name_add)
  note h = same_name_hits(1,2) [OF s]
  have e: "sg_exact_match (sng_add_existing n g) \<longleftrightarrow> sg_exact_match g \<or> n = sg_short_name g"
    "sg_short_name (sng_add_existing n g) = sg_short_name g"
    "sg_long_prefix_bitmap (sng_add_existing n g) = sg_long_prefix_bitmap g OR long_hit g n"
    "sg_prefix_chksum_bitmap (sng_add_existing n g) = sg_prefix_chksum_bitmap g OR chksum_hit g n"
    by (simp_all add: sng_add_existing_eq)
  show ?case using Cons [of "sng_add_existing n g"] unfolding h e by (auto simp: bit_or_iff)
qed simp

lemma fold_add_existing_flags:
  "sg_lossy_conv (fold sng_add_existing ns g) = sg_lossy_conv g" "sg_name_fits (fold sng_add_existing ns g) = sg_name_fits g"
  by (induction ns arbitrary: g) (simp_all add: sng_add_existing_eq)

lemma and_exp_zero: "i < 16 \<Longrightarrow> (x :: u16) AND 2 ^ i = 0 \<longleftrightarrow> \<not> bit x i"
proof
  assume "i < 16" "x AND 2 ^ i = 0"
  then have "\<not> bit (x AND 2 ^ i) i" by simp
  with \<open>i < 16\<close> show "\<not> bit x i" by (simp add: bit_simps)
next
  assume "\<not> bit x i"
  then show "x AND 2 ^ i = 0" by (intro bit_word_eqI) (auto simp: bit_simps)
qed

lemma hex_char_digits:
  assumes "d < 16"
  shows "hex_digit_of (hex_char d) = Some d" "hex_char d \<noteq> 0x2B" "d < 10 \<Longrightarrow> digit_of (hex_char d) = Some d"
proof -
  have "list_all (\<lambda>d. hex_digit_of (hex_char d) = Some d \<and> hex_char d \<noteq> 0x2B \<and>
      (d < 10 \<longrightarrow> digit_of (hex_char d) = Some d)) [0..<16]"
    by code_simp
  moreover have "d \<in> set [0..<16]" using assms by simp
  ultimately show "hex_digit_of (hex_char d) = Some d" "hex_char d \<noteq> 0x2B" "d < 10 \<Longrightarrow> digit_of (hex_char d) = Some d"
    unfolding list_all_iff by blast+
qed

lemma nibbles:
  fixes x :: u16
  shows "((unat (drop_bit 12 x AND 0xF) * 16 + unat (drop_bit 8 x AND 0xF)) * 16 + unat (drop_bit 4 x AND 0xF)) * 16 +
    unat (x AND 0xF) = unat x"
proof -
  have a: "unat (drop_bit k x AND 0xF) = unat x div 2 ^ k mod 16" for k
  proof -
    have "unat (drop_bit k x AND 0xF) = unat (drop_bit k x) mod 16"
      using unat_and_mask [of "drop_bit k x" 4] by (simp add: mask_eq_exp_minus_1)
    then show ?thesis unfolding unat_drop_bit_eq by (simp add: drop_bit_eq_div)
  qed
  have b: "unat (x AND 0xF) = unat x mod 16" using a [of 0] by simp
  have n: "m div 16 * 16 + m mod 16 = m" for m :: nat by simp
  have d: "unat x div 256 div 16 = unat x div 4096" "unat x div 16 div 16 = unat x div 256"
    by (simp_all flip: div_mult2_eq)
  have "unat x < 65536" by (rule unsigned_less [of x, simplified])
  then have "unat x div 4096 mod 16 = unat x div 4096" by simp
  with n [of "unat x div 256"] n [of "unat x div 16"] n [of "unat x"] show ?thesis unfolding a b d by simp
qed

lemma from_str_radix_u16: "from_str_radix_16 (u16_to_u8_array x) = Some x"
proof -
  have d: "unat ((y :: u16) AND 0xF) < 16" for y
    using word_and_le1 [of y "0xF"] by (simp add: word_le_nat_alt)
  have "hd (u16_to_u8_array x) \<noteq> 0x2B" using hex_char_digits(2) [OF d] by (simp add: u16_to_u8_array_def)
  then show ?thesis using nibbles [of x] hex_char_digits(1) [OF d]
    by (simp add: from_str_radix_16_def hex_digits_value_def u16_to_u8_array_def)
qed

lemma length_u16_to_u8_array [simp]: "length (u16_to_u8_array x) = 4"
  by (simp add: u16_to_u8_array_def)

text \<open>The parts of a numbered name.\<close>

lemma build_long_parts:
  assumes "sng_ok g"
  defines "p \<equiv> min (unat (sg_basename_len g)) 6"
  shows "take p (build_prefixed_name i False g) = take p (sg_short_name g)" "build_prefixed_name i False g ! p = 0x7E"
    "build_prefixed_name i False g ! (p + 1) = hex_char i"
    "drop 8 (build_prefixed_name i False g) = drop 8 (sg_short_name g)" "length (build_prefixed_name i False g) = 11"
proof -
  have l: "length (sg_short_name g) = 11" "p \<le> 6" using assms by (simp_all add: sng_ok_def)
  let ?b = "(splice 0 (take p (sg_short_name g)) (replicate 11 SFN_PADDING))[p := 0x7E, p + 1 := hex_char i]"
  have b: "build_prefixed_name i False g = take 8 ?b @ drop 8 (sg_short_name g)"
    by (simp add: build_prefixed_name_def Let_def p_def splice_def [of 8] l(1))
  have lb: "length ?b = 11" using l by simp
  have "take p ?b = take p (splice 0 (take p (sg_short_name g)) (replicate 11 SFN_PADDING))" by simp
  also have "\<dots> = take p (sg_short_name g)" using l by (simp add: splice_def)
  finally show "take p (build_prefixed_name i False g) = take p (sg_short_name g)"
    using l unfolding b by (simp add: min_def)
  show "build_prefixed_name i False g ! p = 0x7E" "build_prefixed_name i False g ! (p + 1) = hex_char i"
    using l lb unfolding b by (simp_all add: nth_append)
  show "drop 8 (build_prefixed_name i False g) = drop 8 (sg_short_name g)" "length (build_prefixed_name i False g) = 11"
    using l lb unfolding b by simp_all
qed

lemma build_chksum_parts:
  assumes "sng_ok g"
  defines "p \<equiv> min (unat (sg_basename_len g)) 2"
  shows "take p (build_prefixed_name i True g) = take p (sg_short_name g)" "build_prefixed_name i True g ! (p + 4) = 0x7E"
    "build_prefixed_name i True g ! (p + 5) = hex_char i"
    "window p 4 (build_prefixed_name i True g) = u16_to_u8_array (sg_chksum g)"
    "drop 8 (build_prefixed_name i True g) = drop 8 (sg_short_name g)" "length (build_prefixed_name i True g) = 11"
proof -
  have l: "length (sg_short_name g) = 11" "p \<le> 2" using assms by (simp_all add: sng_ok_def)
  let ?c = "splice p (u16_to_u8_array (sg_chksum g)) (splice 0 (take p (sg_short_name g)) (replicate 11 SFN_PADDING))"
  let ?b = "?c[p + 4 := 0x7E, p + 5 := hex_char i]"
  have b: "build_prefixed_name i True g = take 8 ?b @ drop 8 (sg_short_name g)"
    by (simp add: build_prefixed_name_def Let_def p_def splice_def [of 8] l(1) add.commute)
  have lb: "length ?b = 11" using l by simp
  have "take (p + 4) ?b = take (p + 4) ?c" by simp
  also have "\<dots> = take p (sg_short_name g) @ u16_to_u8_array (sg_chksum g)" using l by (simp add: splice_def)
  finally have t: "take (p + 4) (build_prefixed_name i True g) = take p (sg_short_name g) @ u16_to_u8_array (sg_chksum g)"
    using l unfolding b by (simp add: min_def)
  have "take p (take (p + 4) (build_prefixed_name i True g)) = take p (build_prefixed_name i True g)" by (simp add: min_def)
  then show "take p (build_prefixed_name i True g) = take p (sg_short_name g)" unfolding t using l by simp
  have "drop p (take (p + 4) (build_prefixed_name i True g)) = window p 4 (build_prefixed_name i True g)"
    by (simp add: window_def take_drop add.commute)
  then show "window p 4 (build_prefixed_name i True g) = u16_to_u8_array (sg_chksum g)" unfolding t using l by simp
  show "build_prefixed_name i True g ! (p + 4) = 0x7E" "build_prefixed_name i True g ! (p + 5) = hex_char i"
    using l lb unfolding b by (simp_all add: nth_append)
  show "drop 8 (build_prefixed_name i True g) = drop 8 (sg_short_name g)" "length (build_prefixed_name i True g) = 11"
    using l lb unfolding b by simp_all
qed

lemma hit_built:
  assumes "sng_ok g" "i < 10"
  shows "bit (long_hit g (build_prefixed_name i False g)) i" "bit (chksum_hit g (build_prefixed_name i True g)) i"
proof -
  have d: "digit_of (hex_char i) = Some i" using hex_char_digits(3) [of i] assms(2) by simp
  show "bit (long_hit g (build_prefixed_name i False g)) i"
    using build_long_parts [OF assms(1), of i] d assms(2) by (simp add: long_hit_def Let_def num_suffix_at_def bit_simps)
  show "bit (chksum_hit g (build_prefixed_name i True g)) i"
    using build_chksum_parts [OF assms(1), of i] d assms(2) from_str_radix_u16
    by (simp add: chksum_hit_def Let_def num_suffix_at_def bit_simps add.commute)
qed

lemma find_SomeD: "find P xs = Some x \<Longrightarrow> x \<in> set xs \<and> P x"
  by (induction xs) (auto split: if_splits)

lemma generate_fresh:
  assumes "sng_ok g" "sng_generate (fold sng_add_existing ns g) = Inr n"
  shows "n \<notin> set ns" "length n = 11"
proof -
  let ?h = "fold sng_add_existing ns g"
  have s: "same_name ?h g" by (simp add: same_name_fold)
  note h = same_name_hits [OF s]
  consider "\<not> sg_exact_match ?h" "n = sg_short_name g"
    | i where "i \<in> {1..<5}" "\<not> bit (sg_long_prefix_bitmap ?h) i" "n = build_prefixed_name i False g"
    | i where "i \<in> {1..<10}" "\<not> bit (sg_prefix_chksum_bitmap ?h) i" "n = build_prefixed_name i True g"
    using assms(2) s
    by (fastforce simp: sng_generate_def h same_name_def and_exp_zero split: if_splits option.splits dest!: find_SomeD)
  then show "n \<notin> set ns" "length n = 11"
    using assms(1) hit_built [OF assms(1)] build_long_parts(5) [OF assms(1)] build_chksum_parts(6) [OF assms(1)]
    by (cases; auto simp: fold_add_existing sng_ok_def)+
qed

lemma length_copy_short_name: "length dst \<le> cap \<Longrightarrow> length (fst (copy_short_name_loop cap dst lossy cs)) \<le> cap"
  by (induction cap dst lossy cs rule: copy_short_name_loop.induct) (auto simp: Let_def Suc_le_eq)

lemma sng_new_ok: "sng_ok (sng_new name)"
proof -
  have l: "length b \<le> cap" if "copy_short_name_part cap cs = (b, r)" for b r cap cs
    using length_copy_short_name [of "[]" cap False cs] that by (simp add: copy_short_name_part_def)
  show ?thesis
  proof (cases "split_ext name")
    case None
    obtain b r where "copy_short_name_part 8 name = (b, r)" by (cases "copy_short_name_part 8 name")
    moreover obtain u v where "r = (u, v)" by (cases r)
    ultimately show ?thesis using None l [of 8 name b r] by (simp add: sng_new_def sng_ok_def unat_of_nat)
  next
    case (Some q)
    obtain base ext where q: "q = (base, ext)" by (cases q)
    obtain b u v where b: "copy_short_name_part 8 base = (b, u, v)" by (cases "copy_short_name_part 8 base")
    obtain x y z where x: "copy_short_name_part 3 ext = (x, y, z)" by (cases "copy_short_name_part 3 ext")
    show ?thesis using Some q b x l [OF b] l [OF x] by (simp add: sng_new_def sng_ok_def unat_of_nat)
  qed
qed

text \<open>The generator at the start of round \<open>k\<close> of the search, the names of the directory being added in every
  round.\<close>

fun sng_retry :: "u8 list list \<Rightarrow> nat \<Rightarrow> short_name_generator \<Rightarrow> short_name_generator" where
  "sng_retry ns 0 g = g"
| "sng_retry ns (Suc k) g = sng_next_iteration (fold sng_add_existing ns (sng_retry ns k g))"

lemma sng_retry_simps:
  "sg_chksum (sng_retry ns k g) = sg_chksum g + of_nat k" "sg_short_name (sng_retry ns k g) = sg_short_name g"
  "sg_basename_len (sng_retry ns k g) = sg_basename_len g"
  "sg_prefix_chksum_bitmap g = 0 \<Longrightarrow> sg_prefix_chksum_bitmap (sng_retry ns k g) = 0"
proof (induction k)
  case (Suc k)
  have "same_name (fold sng_add_existing ns (sng_retry ns k g)) (sng_retry ns k g)" by (simp add: same_name_fold)
  then have e: "sg_chksum (fold sng_add_existing ns (sng_retry ns k g)) = sg_chksum (sng_retry ns k g)"
    "sg_basename_len (fold sng_add_existing ns (sng_retry ns k g)) = sg_basename_len (sng_retry ns k g)"
    "sg_short_name (fold sng_add_existing ns (sng_retry ns k g)) = sg_short_name (sng_retry ns k g)"
    unfolding same_name_def by blast+
  {
    case 1 with e Suc show ?case by (simp add: sng_next_iteration_def)
  next
    case 2 with e Suc show ?case by (simp add: sng_next_iteration_def)
  next
    case 3 with e Suc show ?case by (simp add: sng_next_iteration_def)
  next
    case 4 show ?case by (simp add: sng_next_iteration_def)
  }
qed simp_all

lemma sng_retry_ok: "sng_ok (sng_retry ns k g) = sng_ok g"
  by (simp add: sng_ok_def sng_retry_simps)

lemma chksum_hitD:
  assumes "bit (chksum_hit g n) i"
  shows "from_str_radix_16 (window (min (unat (sg_basename_len g)) 2) 4 n) = Some (sg_chksum g) \<and>
    num_suffix_at (min (unat (sg_basename_len g)) 2 + 4) n = Some i"
  using assms by (auto simp: chksum_hit_def Let_def bit_simps split: option.splits if_splits)

lemma generate_fails:
  assumes "sg_prefix_chksum_bitmap g = 0" "sng_generate (fold sng_add_existing ns g) = Inl e" "i \<in> {1..<10}"
  shows "\<exists>n \<in> set ns. bit (chksum_hit g n) i"
proof -
  let ?h = "fold sng_add_existing ns g"
  have "find (\<lambda>i. sg_prefix_chksum_bitmap ?h AND push_bit i 1 = 0) [1..<10] = None"
    using assms(2) by (simp add: sng_generate_def split: if_splits option.splits)
  then have "\<forall>i \<in> set [1..<10]. \<not> sg_prefix_chksum_bitmap ?h AND push_bit i 1 = 0" by (simp only: find_None_iff) blast
  then have "bit (sg_prefix_chksum_bitmap ?h) i" using assms(3) by (simp add: and_exp_zero)
  then show ?thesis using assms(1) by (simp add: fold_add_existing)
qed

lemma search_succeeds:
  assumes "length ns < 9 * 65536" "sg_prefix_chksum_bitmap g = 0"
  shows "\<exists>k n. k \<le> length ns div 9 \<and> sng_generate (fold sng_add_existing ns (sng_retry ns k g)) = Inr n"
proof (rule ccontr)
  assume "\<not> ?thesis"
  then have f: "\<exists>e. sng_generate (fold sng_add_existing ns (sng_retry ns k g)) = Inl e" if "k \<le> length ns div 9" for k
    using that by (cases "sng_generate (fold sng_add_existing ns (sng_retry ns k g))") auto
  let ?p = "min (unat (sg_basename_len g)) 2" and ?K = "length ns div 9"
  let ?f = "\<lambda>n. (from_str_radix_16 (window ?p 4 n), num_suffix_at (?p + 4) n)"
  let ?g = "\<lambda>(k, i). (Some (sg_chksum g + of_nat k), Some i)"
  have "?g (k, i) \<in> ?f ` set ns" if k: "k \<le> ?K" and i: "i \<in> {1..<10}" for k i
  proof -
    obtain e where "sng_generate (fold sng_add_existing ns (sng_retry ns k g)) = Inl e" using f [OF k] by blast
    then obtain n where n: "n \<in> set ns" "bit (chksum_hit (sng_retry ns k g) n) i"
      using generate_fails [OF sng_retry_simps(4) [OF assms(2)] _ i] by blast
    with chksum_hitD [OF n(2)] show ?thesis by (force simp: sng_retry_simps)
  qed
  then have sub: "?g ` ({0..?K} \<times> {1..<10}) \<subseteq> ?f ` set ns" by auto
  have "inj_on ?g ({0..?K} \<times> {1..<10 :: nat})"
  proof (rule inj_onI, clarsimp)
    fix a b assume ab: "a \<le> ?K" "b \<le> ?K" "(word_of_nat a :: u16) = word_of_nat b"
    have "?K < 65536" using assms(1) by simp
    then have "unat (word_of_nat a :: u16) = a" "unat (word_of_nat b :: u16) = b" using ab(1,2) by (simp_all add: unat_of_nat)
    with ab(3) show "a = b" by metis
  qed
  then have "card ({0..?K} \<times> {1..<10 :: nat}) \<le> card (?f ` set ns)" using card_inj_on_le [OF _ sub] by simp
  also have "\<dots> \<le> length ns" using card_image_le [of "set ns" ?f] card_length [of ns] by simp
  finally have "9 * Suc ?K \<le> length ns" by (simp add: card_cartesian_product)
  then show False by simp
qed

text \<open>The search for a short name ends with a fresh one: for a directory with fewer than 9 * 65536 names the
  generator succeeds after at most one round for every nine names, and in whatever round it succeeds,
  the name has eleven bytes and is not among the names of the directory.\<close>

lemma short_name_found:
  assumes "length ns < 9 * 65536"
  shows "(\<exists>k n. k \<le> length ns div 9 \<and> sng_generate (fold sng_add_existing ns (sng_retry ns k (sng_new name))) = Inr n) \<and>
    (\<forall>k n. sng_generate (fold sng_add_existing ns (sng_retry ns k (sng_new name))) = Inr n \<longrightarrow> n \<notin> set ns \<and> length n = 11)"
proof -
  have "sg_prefix_chksum_bitmap (sng_new name) = 0" by (simp add: sng_new_def split: prod.splits option.splits)
  then show ?thesis using search_succeeds [OF assms] generate_fresh sng_retry_ok sng_new_ok by metis
qed

end
