(* ===== verification/Fat_Dir_Read.thy ===== *)
theory Fat_Dir_Read
  imports Fat_Dir Fat_Names_Props
begin

text \<open>
  Reading a directory. The content of a directory is a sequence of 32-byte slots; \<open>decode_slot\<close> says what a
  slot holds and \<open>list_entries\<close> which entries the slots make up. The locale \<open>entry_reader\<close> is what the
  reading operations of \<open>Fat_Dir\<close> need of a stream: on such a stream the iterator produces exactly the
  entries of the slots, and a loop over it is a fold over them.
\<close>

section \<open>Slots\<close>

definition decode_lfn_slot :: "u8 list \<Rightarrow> dir_lfn_entry_data" where
  "decode_lfn_slot w =
     \<lparr>le_order = w ! 0, le_name_0 = of_le16s (window 1 10 w), le_attrs = attr_truncate (w ! 11), le_entry_type = w ! 12,
      le_checksum = w ! 13, le_name_1 = of_le16s (window 14 12 w), le_reserved_0 = of_le16 (window 26 2 w),
      le_name_2 = of_le16s (window 28 4 w)\<rparr>"

definition decode_file_slot :: "u8 list \<Rightarrow> dir_file_entry_data" where
  "decode_file_slot w =
     \<lparr>fe_name = take 11 w, fe_attrs = attr_truncate (w ! 11), fe_reserved_0 = w ! 12, fe_create_time_0 = w ! 13,
      fe_create_time_1 = of_le16 (window 14 2 w), fe_create_date = of_le16 (window 16 2 w),
      fe_access_date = of_le16 (window 18 2 w), fe_first_cluster_hi = of_le16 (window 20 2 w),
      fe_modify_time = of_le16 (window 22 2 w), fe_modify_date = of_le16 (window 24 2 w),
      fe_first_cluster_lo = of_le16 (window 26 2 w), fe_size = of_le32 (window 28 4 w)\<rparr>"

definition decode_slot :: "u8 list \<Rightarrow> dir_entry_data" where
  "decode_slot w =
     (if attr_truncate (w ! 11) AND ATTR_LFN = ATTR_LFN then Lfn (decode_lfn_slot w) else File (decode_file_slot w))"

lemmas decode_slot_defs = decode_slot_def decode_lfn_slot_def decode_file_slot_def

lemma drop_window: "drop p w = window p k w @ drop (p + k) w"
  by (metis add.commute append_take_drop_id drop_drop window_def)

lemma drop_nth: "p < length w \<Longrightarrow> drop p w = [w ! p] @ drop (p + 1) w"
  by (simp add: Cons_nth_drop_Suc)

lemma decode_slot_shape: "length w = 32 \<Longrightarrow> decode_slot w = Lfn l \<Longrightarrow> lfn_entry_shape l"
  by (auto simp: decode_slot_defs lfn_entry_shape_def lfn_copy_name_to_slice_def split: if_splits)

lemma decode_slot_end: "length w = 32 \<Longrightarrow> dir_entry_is_end (decode_slot w) \<longleftrightarrow> w ! 0 = 0"
  by (simp add: decode_slot_defs dir_entry_is_end_def file_entry_is_end_def lfn_entry_is_end_def)

lemma decode_slot_deleted: "length w = 32 \<Longrightarrow> dir_entry_is_deleted (decode_slot w) \<longleftrightarrow> w ! 0 = DIR_ENTRY_DELETED_FLAG"
  by (simp add: decode_slot_defs dir_entry_is_deleted_def file_entry_is_deleted_def lfn_entry_is_deleted_def)

lemma slot_fields:
  assumes "length w = 32"
  shows "drop 12 w = [w ! 12] @ [w ! 13] @ window 14 2 w @ window 16 2 w @ window 18 2 w @ window 20 2 w @ window 22 2 w @
      window 24 2 w @ window 26 2 w @ window 28 4 w @ []"
    "drop 12 w = [w ! 12] @ [w ! 13] @ window 14 12 w @ window 26 2 w @ window 28 4 w @ []"
    "take 11 w = [w ! 0] @ window 1 10 w" "w = take 11 w @ [w ! 11] @ drop 12 w"
proof -
  have "drop 32 w = []" using assms by simp
  then show "drop 12 w = [w ! 12] @ [w ! 13] @ window 14 2 w @ window 16 2 w @ window 18 2 w @ window 20 2 w @ window 22 2 w @
      window 24 2 w @ window 26 2 w @ window 28 4 w @ []"
    "drop 12 w = [w ! 12] @ [w ! 13] @ window 14 12 w @ window 26 2 w @ window 28 4 w @ []"
    using assms drop_nth [of 12 w] drop_nth [of 13 w] drop_window [of 14 w 2] drop_window [of 16 w 2] drop_window [of 18 w 2]
      drop_window [of 20 w 2] drop_window [of 22 w 2] drop_window [of 24 w 2] drop_window [of 26 w 2] drop_window [of 28 w 4]
      drop_window [of 14 w 12]
    by simp_all
  show "take 11 w = [w ! 0] @ window 1 10 w" using assms by (cases w) (simp_all add: window_def)
  show "w = take 11 w @ [w ! 11] @ drop 12 w" using drop_nth [of 11 w] append_take_drop_id [of 11 w] assms by simp
qed

context exact_stream
begin

lemma parses_u16_window: "length bs = 2 \<Longrightarrow> parses (read_u16 ops) bs (of_le16 bs)"
  using parses_ints(2) [of "of_le16 bs"] by simp

lemma parses_slot:
  assumes "length w = 32"
  shows "parses (dir_entry_deserialize ops) w (decode_slot w)"
proof -
  have rest: "parses (dir_entry_read_rest ops (take 11 w)) ([w ! 11] @ drop 12 w) (decode_slot w)"
  proof (cases "attr_truncate (w ! 11) AND ATTR_LFN = ATTR_LFN")
    case True
    let ?l = "decode_lfn_slot w"
    have "parses (lfn_entry_read ops ([le_order ?l] @ concat (map le16 (le_name_0 ?l))) (le_attrs ?l))
      ([le_entry_type ?l] @ [le_checksum ?l] @ concat (map le16 (le_name_1 ?l)) @ le16 (le_reserved_0 ?l) @
       concat (map le16 (le_name_2 ?l)) @ []) (Lfn ?l)"
      by (rule parses_lfn_entry) (use assms in \<open>simp_all add: decode_lfn_slot_def\<close>)
    then have "parses (lfn_entry_read ops (take 11 w) (attr_truncate (w ! 11))) (drop 12 w) (decode_slot w)"
      unfolding slot_fields(2,3) [OF assms] using assms True by (simp add: concat_of_le16s decode_slot_def decode_lfn_slot_def)
    with True show ?thesis unfolding dir_entry_read_rest_def
      by (intro parses_bind [OF parses_ints(1)]) (simp add: Let_def)
  next
    case False
    have "parses (file_entry_read ops (take 11 w) (attr_truncate (w ! 11))) (drop 12 w) (decode_slot w)"
      using parses_file_entry [of "decode_file_slot w"] assms False unfolding slot_fields(1) [OF assms]
      by (simp add: decode_slot_def decode_file_slot_def)
    with False show ?thesis unfolding dir_entry_read_rest_def
      by (intro parses_bind [OF parses_ints(1)]) (simp add: Let_def)
  qed
  have "parses (sbind (io_read_exact ops 11) (dir_entry_read_rest ops)) (take 11 w @ [w ! 11] @ drop 12 w) (decode_slot w)"
    by (rule parses_bind, rule parses_read_exact, simp add: assms, rule rest)
  then have "parses (sbind (io_read_exact ops 11) (dir_entry_read_rest ops)) w (decode_slot w)"
    using slot_fields(4) [OF assms] by simp
  moreover have "dir_entry_deserialize ops s = (Inr v, s')"
    if "sbind (io_read_exact ops 11) (dir_entry_read_rest ops) s = (Inr v, s')" for s v s'
    using that by (auto simp: dir_entry_deserialize_def sbind_def split: prod.splits sum.splits err.splits)
  ultimately show ?thesis unfolding parses_def wp_no_err_iff by blast
qed

end

definition dir_slots :: "u8 list \<Rightarrow> dir_entry_data list" where
  "dir_slots b = map (\<lambda>i. decode_slot (window (32 * i) 32 b)) [0..<length b div 32]"

lemma length_dir_slots [simp]: "length (dir_slots b) = length b div 32"
  by (simp add: dir_slots_def)

lemma dir_slots_drop:
  assumes "drop i (dir_slots b) = x # xs"
  shows "32 * i + 32 \<le> length b" "x = decode_slot (window (32 * i) 32 b)" "drop (Suc i) (dir_slots b) = xs"
proof -
  have i: "i < length (dir_slots b)" using assms by (metis drop_all linorder_not_le list.distinct(1))
  then have "i < length b div 32" by simp
  then show "32 * i + 32 \<le> length b" by linarith
  have "drop i (dir_slots b) = dir_slots b ! i # drop (Suc i) (dir_slots b)" by (rule Cons_nth_drop_Suc [OF i, symmetric])
  then show "x = decode_slot (window (32 * i) 32 b)" "drop (Suc i) (dir_slots b) = xs" using assms i by (auto simp: dir_slots_def)
qed

section \<open>The entries of a sequence of slots\<close>

text \<open>The next entry from slot number \<open>i\<close> on, with the number of the slot behind it and the slots from there on.
  \<open>place\<close> maps positions of the directory to positions of the volume.\<close>

fun next_entry ::
  "bool \<Rightarrow> (nat \<Rightarrow> nat) \<Rightarrow> nat \<Rightarrow> nat \<Rightarrow> long_name_builder \<Rightarrow> dir_entry_data list \<Rightarrow>
   (dir_entry \<times> nat \<times> dir_entry_data list) option" where
  "next_entry skip place i first lfn [] = None"
| "next_entry skip place i first lfn (x # xs) =
     (if dir_entry_is_end x then None
      else if should_ship_entry skip x then next_entry skip place (Suc i) (32 * Suc i) (lnb_clear lfn) xs
      else case x of
        File d \<Rightarrow>
          Some (\<lparr>de_data = d, de_short_name = short_name_new (fe_name d),
                 de_lfn_utf16 = lnb_into_vec (lnb_validate_chksum (fe_name d) lfn),
                 de_entry_pos = place (32 * Suc i) - 32, de_offset_range = (first, 32 * Suc i)\<rparr>, Suc i, xs)
      | Lfn l \<Rightarrow> (case lnb_process l lfn of Inl _ \<Rightarrow> None | Inr lfn' \<Rightarrow> next_entry skip place (Suc i) first lfn' xs))"

lemma next_entry_rest:
  assumes "next_entry skip place i first lfn xs = Some (e, j, rest)"
  shows "length rest < length xs \<and> (\<forall>ys. xs = drop i ys \<longrightarrow> rest = drop j ys)"
  using assms
proof (induction skip place i first lfn xs rule: next_entry.induct)
  case (2 skip place i first lfn x xs)
  have t: "xs = drop (Suc i) ys" if "x # xs = drop i ys" for ys
    using that by (metis drop_Suc list.sel(3) tl_drop)
  consider "should_ship_entry skip x" "next_entry skip place (Suc i) (32 * Suc i) (lnb_clear lfn) xs = Some (e, j, rest)"
    "\<not> dir_entry_is_end x"
    | "rest = xs" "j = Suc i"
    | l lfn' where "x = Lfn l" "lnb_process l lfn = Inr lfn'" "next_entry skip place (Suc i) first lfn' xs = Some (e, j, rest)"
      "\<not> should_ship_entry skip x" "\<not> dir_entry_is_end x"
    using 2(3) by (auto split: if_splits dir_entry_data.splits sum.splits)
  then show ?case
  proof cases
    case 1
    with 2(1) t show ?thesis by fastforce
  next
    case 2
    with t show ?thesis by auto
  next
    case 3
    with 2(2) t show ?thesis by fastforce
  qed
qed simp

function list_entries :: "bool \<Rightarrow> (nat \<Rightarrow> nat) \<Rightarrow> nat \<Rightarrow> dir_entry_data list \<Rightarrow> dir_entry list" where
  "list_entries skip place i xs =
     (case next_entry skip place i (32 * i) lnb_new xs of
        None \<Rightarrow> []
      | Some (e, j, rest) \<Rightarrow> e # list_entries skip place j rest)"
  by pat_completeness auto
termination
  by (relation "measure (\<lambda>(skip, place, i, xs). length xs)") (auto dest: next_entry_rest)

declare list_entries.simps [simp del]

fun fold_entries :: "(dir_entry \<Rightarrow> 'x \<Rightarrow> 'x + 'r) \<Rightarrow> 'x \<Rightarrow> dir_entry list \<Rightarrow> 'x + 'r" where
  "fold_entries body x [] = Inl x"
| "fold_entries body x (e # es) = (case body e x of Inl x' \<Rightarrow> fold_entries body x' es | Inr r \<Rightarrow> Inr r)"

section \<open>Streams of entries\<close>

locale entry_reader = exact_stream ops bytes pos inv
  for ops :: "'s rws" and bytes :: "'s \<Rightarrow> u8 list" and pos :: "'s \<Rightarrow> nat" and inv :: "'s \<Rightarrow> bool" +
  fixes abs_pos :: "'s \<Rightarrow> nat option res" and place :: "nat \<Rightarrow> nat"
  assumes exact_default: "io_read_exact ops = default_read_exact (io_read ops)"
    and tell: "inv s \<Longrightarrow> wp (io_seek ops (Current 0)) (\<lambda>r s'. r = pos s \<and> inv s' \<and> bytes s' = bytes s \<and> pos s' = pos s) no_err s"
    and abs_pos_in: "inv s \<Longrightarrow> 0 < pos s \<Longrightarrow> abs_pos s = Inr (Some (place (pos s))) \<and> 32 \<le> place (pos s)"
    and slots_in: "inv s \<Longrightarrow> 32 dvd length (bytes s) \<and> length (bytes s) \<le> 2 ^ 32"
begin

lemma deserialize_slot:
  assumes "holds b p s" "p + 32 \<le> length b"
  shows "\<exists>s'. dir_entry_deserialize ops s = (Inr (decode_slot (window p 32 b)), s') \<and> holds b (p + 32) s'"
proof -
  have l: "length (window p 32 b) = 32" using assms(2) by simp
  from parsesD [OF parses_slot [OF l] assms(1)] l assms(2) show ?thesis by simp
qed

lemma deserialize_end:
  assumes "holds b (length b) s"
  shows "\<exists>s'. dir_entry_deserialize ops s = (Inr (File file_entry_default), s') \<and> holds b (length b) s'"
proof -
  have "wp (io_read ops 11) (\<lambda>bs s'. bs = [] \<and> holds b (length b) s') no_err s"
    by (rule read_wp [OF assms]) auto
  then obtain s' where "io_read ops 11 s = (Inr [], s')" "holds b (length b) s'" by (auto elim!: wp_no_errE)
  then show ?thesis by (simp add: dir_entry_deserialize_def exact_default default_read_exact.simps [of _ 11])
qed

lemma entry_abs_pos_in: "holds b p s \<Longrightarrow> 0 < p \<Longrightarrow> entry_abs_pos abs_pos s = (Inr (place p - 32), s)"
  using abs_pos_in [of s] by (simp add: holds_def entry_abs_pos_def DIR_ENTRY_SIZE_def)

text \<open>The outcome of the loop for a given next entry.\<close>

definition reads_next :: "u8 list \<Rightarrow> (dir_entry \<times> nat \<times> dir_entry_data list) option \<Rightarrow> (dir_entry option res \<times> 's) \<Rightarrow> bool" where
  "reads_next b n r \<longleftrightarrow>
     (case n of
        None \<Rightarrow> \<exists>s' p. r = (Inr None, s') \<and> holds b p s'
      | Some (e, j, _) \<Rightarrow> \<exists>s'. r = (Inr (Some e), s') \<and> holds b (32 * j) s' \<and> j \<le> length b div 32)"

lemma read_dir_loop_eq:
  assumes "drop i (dir_slots b) = xs" "holds b (32 * i) s" "32 dvd length b" "i \<le> length b div 32" "length xs < fuel" "lnb_ok lfn"
  shows "reads_next b (next_entry skip place i first lfn xs) (read_dir_loop ops abs_pos skip fuel lfn first (32 * i) s)"
  using assms
proof (induction xs arbitrary: i first lfn s fuel)
  case Nil
  have "32 * i = length b" using Nil(1,3,4) by auto
  then obtain s' where s': "dir_entry_deserialize ops s = (Inr (File file_entry_default), s')" "holds b (length b) s'"
    using deserialize_end Nil(2) by metis
  have "dir_entry_is_end (File file_entry_default)"
    by (simp add: dir_entry_is_end_def file_entry_is_end_def file_entry_default_def)
  with s' Nil(5) show ?case by (auto simp: read_dir_loop.simps [of _ _ _ fuel] reads_next_def)
next
  case (Cons x xs)
  note sl = dir_slots_drop [OF Cons(2)]
  obtain s' where s': "dir_entry_deserialize ops s = (Inr x, s')" "holds b (32 * Suc i) s'"
    using deserialize_slot [OF Cons(3) sl(1)] sl(2) by (auto simp: add.commute)
  have f: "fuel \<noteq> 0" "length xs < fuel - 1" using Cons(6) by auto
  have le: "Suc i \<le> length b div 32" using sl(1) by linarith
  have off: "32 * i + DIR_ENTRY_SIZE = 32 * Suc i" by (simp add: DIR_ENTRY_SIZE_def)
  note step = read_dir_loop.simps [of ops abs_pos skip fuel lfn first "32 * i" s, unfolded off Let_def s'(1)]
  note IH = Cons(1) [OF sl(3) s'(2) Cons(4) le f(2)]
  consider "dir_entry_is_end x" | "\<not> dir_entry_is_end x" "should_ship_entry skip x"
    | d where "\<not> dir_entry_is_end x" "\<not> should_ship_entry skip x" "x = File d"
    | l where "\<not> dir_entry_is_end x" "\<not> should_ship_entry skip x" "x = Lfn l"
    by (cases x) blast+
  then show ?case
  proof cases
    case 1
    then show ?thesis using s' f(1) by (auto simp: step reads_next_def)
  next
    case 2
    have "lnb_ok (lnb_clear lfn)" by (simp add: lnb_ok_def lnb_clear_def)
    from IH [OF this, of "32 * Suc i"] 2 f(1) show ?thesis by (simp add: step del: mult_Suc_right)
  next
    case 3
    have "entry_abs_pos abs_pos s' = (Inr (place (32 * Suc i) - 32), s')" by (rule entry_abs_pos_in [OF s'(2)]) simp
    with 3 f(1) s'(2) le show ?thesis by (simp add: step reads_next_def sbind_def sret_def del: mult_Suc_right)
  next
    case 4
    have "lfn_entry_shape l" using decode_slot_shape [of "window (32 * i) 32 b" l] sl(1,2) 4(3) by simp
    then obtain lfn' where l': "lnb_process l lfn = Inr lfn'" "lnb_ok lfn'" using lnb_process_ok [OF Cons(7)] by blast
    from IH [OF l'(2), of first] 4 l'(1) f(1) show ?thesis by (simp add: step del: mult_Suc_right)
  qed
qed

lemma read_dir_entry_eq:
  assumes "holds b (32 * i) s" "i \<le> length b div 32"
  shows "reads_next b (next_entry skip place i (32 * i) lnb_new (drop i (dir_slots b))) (read_dir_entry ops abs_pos skip s)"
proof -
  have d: "32 dvd length b" "length b \<le> 2 ^ 32" using slots_in [of s] assms(1) by (auto simp: holds_def)
  obtain s1 where s1: "io_seek ops (Current 0) s = (Inr (32 * i), s1)" "holds b (32 * i) s1"
    using tell [of s] assms(1) by (auto simp: holds_def elim!: wp_no_errE)
  have "length (drop i (dir_slots b)) < MAX_DIR_ENTRIES" using d(2) by (simp add: MAX_DIR_ENTRIES_def)
  from read_dir_loop_eq [OF refl s1(2) d(1) assms(2) this, of lnb_new skip "32 * i"] s1(1) show ?thesis
    by (simp add: read_dir_entry_def sbind_def lnb_ok_def lnb_new_def)
qed

lemma dir_iter_loop_eq:
  assumes "drop i (dir_slots b) = xs" "holds b (32 * i) (it_stream it)" "i \<le> length b div 32" "\<not> it_err it" "it_skip_volume it = skip"
    "length xs < fuel"
  shows "\<exists>it' p. dir_iter_loop ops abs_pos body fuel x it =
      (Inr (case fold_entries body x (list_entries skip place i xs) of Inl x' \<Rightarrow> Inl (x', None) | Inr r \<Rightarrow> Inr r), it') \<and>
    holds b p (it_stream it')"
  using assms
proof (induction "length xs" arbitrary: i xs x it fuel rule: less_induct)
  case (less xs)
  note rd = read_dir_entry_eq [OF less(3,4), of skip, unfolded less(2)]
  have f: "fuel \<noteq> 0" using less(7) by simp
  show ?case
  proof (cases "next_entry skip place i (32 * i) lnb_new xs")
    case None
    with rd obtain s' p where "read_dir_entry ops abs_pos skip (it_stream it) = (Inr None, s')" "holds b p s'"
      by (auto simp: reads_next_def)
    with None f less(5,6) show ?thesis
      by (auto simp: dir_iter_loop.simps [of _ _ _ fuel] dir_iter_next_def list_entries.simps [of _ _ i xs])
  next
    case (Some n)
    obtain e j rest where n: "n = (e, j, rest)" by (cases n)
    with rd Some obtain s' where s': "read_dir_entry ops abs_pos skip (it_stream it) = (Inr (Some e), s')" "holds b (32 * j) s'"
      "j \<le> length b div 32" by (auto simp: reads_next_def)
    have "length rest < length xs \<and> (\<forall>ys. xs = drop i ys \<longrightarrow> rest = drop j ys)"
      by (rule next_entry_rest) (use Some n in simp)
    then have r: "drop j (dir_slots b) = rest" "length rest < length xs" "length rest < fuel - 1" using less(2,7) by auto
    let ?it = "it\<lparr>it_stream := s'\<rparr>"
    have "dir_iter_next ops abs_pos it = (Inr (Some (Inr e)), ?it)" using s'(1) less(5,6) by (simp add: dir_iter_next_def)
    then have step: "dir_iter_loop ops abs_pos body fuel x it = (case body e x of
        Inl x' \<Rightarrow> dir_iter_loop ops abs_pos body (fuel - 1) x' ?it | Inr r \<Rightarrow> (Inr (Inr r), ?it))"
      using f by (simp add: dir_iter_loop.simps [of _ _ _ fuel])
    have l: "list_entries skip place i xs = e # list_entries skip place j rest"
      using Some n by (simp add: list_entries.simps [of _ _ i xs])
    show ?thesis
    proof (cases "body e x")
      case (Inl x')
      have "\<exists>it' p. dir_iter_loop ops abs_pos body (fuel - 1) x' ?it =
          (Inr (case fold_entries body x' (list_entries skip place j rest) of Inl x' \<Rightarrow> Inl (x', None) | Inr r \<Rightarrow> Inr r), it') \<and>
          holds b p (it_stream it')"
        by (rule less(1) [OF r(2,1)]) (use s' less(5,6) r(3) in simp_all)
      with step l Inl show ?thesis by simp
    next
      case (Inr r)
      with step l s'(2) show ?thesis by auto
    qed
  qed
qed

lemma for_entries_eq:
  assumes "holds b 0 s"
  shows "\<exists>s' p. for_entries ops abs_pos skip body x s =
      (Inr (case fold_entries body x (list_entries skip place 0 (dir_slots b)) of Inl x' \<Rightarrow> Inl (x', None) | Inr r \<Rightarrow> Inr r), s') \<and>
    holds b p s'"
proof -
  have "length b \<le> 2 ^ 32" using slots_in [of s] assms by (simp add: holds_def)
  then have "length (dir_slots b) < MAX_DIR_ENTRIES" by (simp add: MAX_DIR_ENTRIES_def)
  then have "\<exists>it' p. dir_iter_loop ops abs_pos body MAX_DIR_ENTRIES x (dir_iter_new skip s) =
      (Inr (case fold_entries body x (list_entries skip place 0 (dir_slots b)) of Inl x' \<Rightarrow> Inl (x', None) | Inr r \<Rightarrow> Inr r), it') \<and>
    holds b p (it_stream it')"
    using dir_iter_loop_eq [of 0 b "dir_slots b" "dir_iter_new skip s" skip MAX_DIR_ENTRIES body x] assms by (simp add: dir_iter_new_def)
  then show ?thesis by (auto simp: for_entries_def)
qed

end

section \<open>Lookup in a list of entries\<close>

definition lookup_entry :: "(dir_entry \<Rightarrow> bool) \<Rightarrow> bool option \<Rightarrow> dir_entry list \<Rightarrow> io_kind + dir_entry" where
  "lookup_entry eq is_dir es =
     (case find eq es of
        None \<Rightarrow> Inl NotFound
      | Some e \<Rightarrow> if is_dir = None \<or> is_dir = Some (file_entry_is_dir (de_data e)) then Inr e else Inl Other)"

lemma fold_find_entry:
  "fold_entries (find_entry_body eq is_dir) gen es =
     (case find eq es of
        None \<Rightarrow> Inl (map_option (fold sng_add_existing (map (\<lambda>e. fe_name (de_data e)) es)) gen)
      | Some _ \<Rightarrow> Inr (lookup_entry eq is_dir es))"
proof (induction es arbitrary: gen)
  case (Cons e es)
  show ?case
  proof (cases "eq e")
    case True
    then show ?thesis by (auto simp: find_entry_body_def lookup_entry_def)
  next
    case False
    have "lookup_entry eq is_dir (e # es) = lookup_entry eq is_dir es" using False by (simp add: lookup_entry_def)
    then show ?thesis using False Cons
      by (cases gen) (simp_all add: find_entry_body_def split: option.splits)
  qed
qed (simp add: option.map_id0)

end
