(* ===== verification/Fat_Dir_Props.thy ===== *)
theory Fat_Dir_Props
  imports Fat_Dir_Read Fat_File_Props
begin

text \<open>
  Directories that are files, as the root of a FAT32 volume and every other directory are: they fulfil the
  contract \<open>entry_reader\<close>, so looking up an entry searches the list of entries of the directory.
\<close>

section \<open>A directory as a stream of entries\<close>

lemma same_file_trans: "same_file b cs fs fs1 \<Longrightarrow> same_file b cs fs1 fs2 \<Longrightarrow> same_file b cs fs fs2"
  by (simp add: same_file_def)

text \<open>The open file of a directory of the file system \<open>fs\<close> with the entry \<open>e\<close>.\<close>

definition dir_file :: "u8 list \<Rightarrow> u32 list \<Rightarrow> cursor file_system \<Rightarrow> dir_entry_editor option \<Rightarrow> cursor fat_file \<Rightarrow> bool" where
  "dir_file b cs fs e f \<longleftrightarrow> file_ok b cs f \<and> same_file b cs fs (f_fs f) \<and> f_entry f = e \<and> file_size f = None \<and>
     32 dvd csize f \<and> \<not> opt_update_accessed_date (fs_options fs)"

lemma dir_file_read:
  assumes "dir_file b cs fs e f"
  shows "\<exists>f'. file_read cursor_ops n f = (Inr (window (file_pos f) (read_amount cs f n) (file_bytes cs f)), f') \<and>
    dir_file b cs fs e f' \<and> file_bytes cs f' = file_bytes cs f \<and> file_pos f' = file_pos f + read_amount cs f n"
proof -
  have a: "file_ok b cs f" "same_file b cs fs (f_fs f)" "f_entry f = e" "file_size f = None" "32 dvd csize f"
    "\<not> opt_update_accessed_date (fs_options (f_fs f))" "\<not> opt_update_accessed_date (fs_options fs)"
    using assms by (auto simp: dir_file_def same_file_def)
  obtain f' where f': "file_read cursor_ops n f = (Inr (window (file_pos f) (read_amount cs f n) (file_bytes cs f)), f')"
    "file_ok b cs f'" "file_bytes cs f' = file_bytes cs f" "file_pos f' = file_pos f + read_amount cs f n"
    "same_file b cs (f_fs f) (f_fs f')" "f_entry f' = f_entry f"
    using file_read_eq [OF a(1), of n] a(6) by blast
  have "dir_file b cs fs e f'"
    using f' a same_file_trans [OF a(2) f'(5)] by (simp add: dir_file_def file_size_def same_file_def)
  with f' show ?thesis by blast
qed

text \<open>Where a position of the directory lies on the disk: a position between two clusters counts as the end of
  the first one.\<close>

definition dir_place :: "u32 list \<Rightarrow> cursor file_system \<Rightarrow> nat \<Rightarrow> nat" where
  "dir_place cs fs p =
     (let z = unat (cluster_size fs) in
      case offset_from_cluster fs (cs ! ((p - 1) div z)) of
        Inr off \<Rightarrow> unat off + (if p mod z = 0 then z else p mod z)
      | Inl _ \<Rightarrow> 0)"

fun stream_bytes :: "u32 list \<Rightarrow> cursor dir_raw_stream \<Rightarrow> u8 list" where
  "stream_bytes cs (FileStream f) = file_bytes cs f"
| "stream_bytes cs (RootStream d) = []"

fun stream_pos :: "cursor dir_raw_stream \<Rightarrow> nat" where
  "stream_pos (FileStream f) = file_pos f"
| "stream_pos (RootStream d) = ds_offset d"

fun stream_ok :: "u8 list \<Rightarrow> u32 list \<Rightarrow> cursor file_system \<Rightarrow> dir_entry_editor option \<Rightarrow> cursor dir_raw_stream \<Rightarrow> bool" where
  "stream_ok b cs fs e (FileStream f) = dir_file b cs fs e f"
| "stream_ok b cs fs e (RootStream d) = False"

lemma raw_stream_read:
  "io_read (raw_stream_ops ops) n (FileStream f) = (case file_read ops n f of (r, f') \<Rightarrow> (r, FileStream f'))"
  by (simp add: raw_stream_ops_def Let_def on_stream_def)

interpretation dir_rd: read_stream "io_read (raw_stream_ops cursor_ops)" "stream_bytes cs" stream_pos "stream_ok b cs fs e"
  for b cs fs e
proof (unfold_locales, goal_cases)
  case (1 s n)
  then obtain f where s: "s = FileStream f" and f: "dir_file b cs fs e f" by (cases s) auto
  then have ok: "file_ok b cs f" by (simp add: dir_file_def)
  let ?k = "read_amount cs f n"
  have z: "file_pos f mod csize f < csize f" using offset_in_cluster(4) [OF ok] .
  have k: "?k \<le> n" "file_pos f + ?k \<le> length (file_bytes cs f)" "0 < n \<and> file_pos f < length (file_bytes cs f) \<longrightarrow> 0 < ?k"
    using 1 z s by (auto simp: read_amount_def length_file_bytes [OF ok])
  then have "length (window (file_pos f) ?k (file_bytes cs f)) = ?k" by simp
  with k s dir_file_read [OF f, of n] show ?case by (auto simp: wp_def raw_stream_read)
qed

lemma dir_seek_current:
  assumes "dir_file b cs fs e f"
  shows "file_seek cursor_ops (Current 0) f = (Inr (file_pos f), f)"
proof -
  have "uint (f_offset f) < 2 ^ 32" using uint_lt2p [of "f_offset f"] by simp
  then have "seek_target f (Current 0) = Inr (uint (f_offset f))"
    using assms by (simp add: seek_target_def dir_file_def)
  then show ?thesis by (simp add: file_seek_def sbind_def slift_def sret_def)
qed

lemma cluster_behind_fat:
  assumes "fs_ready b fs" "chain_ok b cs fs" "c \<in> set cs" "offset_from_cluster fs c = Inr off"
  shows "region_lo \<le> unat off"
proof -
  obtain bgn sz m where g: "fat_at fs bgn sz m" "region_lo \<le> bgn" using assms(1) unfolding fs_ready_def volume_def by blast
  have "bgn + m * sz \<le> unat off"
    using assms g(1) unfolding fs_ready_def chain_ok_def volume_data_def by fastforce
  with g(2) show ?thesis by linarith
qed

lemma dir_abs_pos:
  assumes "dir_file b cs fs e f" "0 < file_pos f"
  shows "file_abs_pos f = Inr (Some (dir_place cs fs (file_pos f)))" "32 \<le> dir_place cs fs (file_pos f)"
proof -
  let ?z = "csize f" and ?p = "file_pos f"
  let ?c = "cs ! ((?p - 1) div ?z)"
  have a: "file_ok b cs f" "same_file b cs fs (f_fs f)" "512 \<le> ?z" "cluster_size (f_fs f) = cluster_size fs"
    using assms(1) by (auto simp: dir_file_def same_file_def file_ok_def fs_ready_def)
  have len: "?p \<le> length cs * ?z" using a(1) by (auto simp: file_ok_def)
  then have "(?p - 1) div ?z < length cs" using assms(2) a(3) by (simp add: div_less_iff_less_mult)
  then have c: "?c \<in> set cs" by simp
  obtain off where off: "offset_from_cluster (f_fs f) ?c = Inr off"
    using length_cluster_data [OF _ _ c] a(1) by (auto simp: file_ok_def)
  then have off0: "offset_from_cluster fs ?c = Inr off" using a(2) c by (simp add: same_file_def)
  have lo: "region_lo \<le> unat off" using cluster_behind_fat [OF _ _ c off] a(1) by (auto simp: file_ok_def)
  have cur: "f_current_cluster f = Some ?c" using a(1) assms(2) by (simp add: file_ok_def)
  have z: "cluster_size (f_fs f) \<noteq> 0" using a(3) by auto
  have m: "f_offset f mod cluster_size (f_fs f) = 0 \<longleftrightarrow> ?p mod ?z = 0" by (simp add: unat_eq_0 [symmetric] unat_mod)
  show "file_abs_pos f = Inr (Some (dir_place cs fs ?p))"
    using cur off off0 z m a(4) by (simp add: file_abs_pos_def dir_place_def Let_def cmod_def unat_mod)
  show "32 \<le> dir_place cs fs ?p" using off0 lo a(4) by (simp add: dir_place_def Let_def region_lo_def)
qed

interpretation dirf: entry_reader "raw_stream_ops cursor_ops" "stream_bytes cs" stream_pos "stream_ok b cs fs e"
    stream_abs_pos "dir_place cs fs"
  for b cs fs e
proof (unfold_locales, goal_cases)
  case (1 s n)
  have "dir_rd.holds cs b fs e (stream_bytes cs s) (stream_pos s) s" using 1 by (simp add: dir_rd.holds_def)
  from dir_rd.default_read_exact_wp [OF this 1(2)] show ?case
    by (simp add: raw_stream_ops_def Let_def dir_rd.holds_def)
next
  case 2
  show ?case by (simp add: raw_stream_ops_def Let_def)
next
  case (3 s)
  then obtain f where s: "s = FileStream f" and f: "dir_file b cs fs e f" by (cases s) auto
  then show ?case using dir_seek_current [OF f] by (simp add: wp_def raw_stream_ops_def Let_def on_stream_def)
next
  case (4 s)
  then obtain f where s: "s = FileStream f" and f: "dir_file b cs fs e f" by (cases s) auto
  then show ?case using dir_abs_pos [OF f] 4 by simp
next
  case (5 s)
  then obtain f where s: "s = FileStream f" and f: "dir_file b cs fs e f" by (cases s) auto
  then have "length (file_bytes cs f) = length cs * csize f" "length cs * csize f < 2 ^ 32" "32 dvd csize f"
    using length_file_bytes [of b cs f] by (auto simp: dir_file_def file_len_def file_ok_def chain_ok_def)
  with s show ?case by simp
qed

section \<open>Looking up\<close>

text \<open>A directory of the mounted file system: its stored file is at the start and its entry has no pending changes.\<close>

definition dir_ok :: "u8 list \<Rightarrow> u32 list \<Rightarrow> cursor file_system \<Rightarrow> cursor fat_file \<Rightarrow> bool" where
  "dir_ok b cs fs f \<longleftrightarrow> file_ok b cs (f\<lparr>f_fs := fs\<rparr>) \<and> file_pos f = 0 \<and> file_size f = None \<and> 32 dvd unat (cluster_size fs) \<and>
     \<not> opt_update_accessed_date (fs_options fs) \<and> (\<forall>e. f_entry f = Some e \<longrightarrow> \<not> ed_dirty e)"

definition dir_entries :: "u32 list \<Rightarrow> cursor file_system \<Rightarrow> cursor fat_file \<Rightarrow> dir_entry list" where
  "dir_entries cs fs f = list_entries True (dir_place cs fs) 0 (dir_slots (file_bytes cs (f\<lparr>f_fs := fs\<rparr>)))"

abbreviation name_is :: "(nat \<Rightarrow> nat list) \<Rightarrow> cursor file_system \<Rightarrow> str \<Rightarrow> dir_entry \<Rightarrow> bool" where
  "name_is up fs name \<equiv> \<lambda>e. dir_entry_eq_name (opt_oem_decode (fs_options fs)) up e name"

lemma dir_place_same:
  assumes "same_file b cs fs fs'" "0 < p" "p \<le> length cs * unat (cluster_size fs)" "0 < unat (cluster_size fs)"
  shows "dir_place cs fs' p = dir_place cs fs p"
proof -
  have "(p - 1) div unat (cluster_size fs) < length cs" using assms(2-4) by (simp add: div_less_iff_less_mult)
  then have "cs ! ((p - 1) div unat (cluster_size fs)) \<in> set cs" by simp
  then show ?thesis using assms(1) by (simp add: dir_place_def same_file_def Let_def)
qed

lemma next_entry_place:
  assumes "\<And>j. i \<le> j \<Longrightarrow> j < i + length xs \<Longrightarrow> pl (32 * Suc j) = pl' (32 * Suc j)"
  shows "next_entry skip pl i first lfn xs = next_entry skip pl' i first lfn xs"
  using assms
proof (induction xs arbitrary: i first lfn)
  case (Cons x xs)
  have "next_entry skip pl (Suc i) f l xs = next_entry skip pl' (Suc i) f l xs" for f l
    by (rule Cons.IH) (use Cons.prems in auto)
  moreover have "pl (32 * Suc i) = pl' (32 * Suc i)" by (rule Cons.prems) auto
  ultimately show ?case by (auto split: dir_entry_data.split sum.split)
qed simp

lemma next_entry_index: "next_entry skip pl i first lfn xs = Some (e, j, rest) \<Longrightarrow> j + length rest = i + length xs"
  by (induction skip pl i first lfn xs rule: next_entry.induct)
    (auto split: if_splits dir_entry_data.splits sum.splits)

lemma list_entries_place:
  assumes "\<And>j. i \<le> j \<Longrightarrow> j < i + length xs \<Longrightarrow> pl (32 * Suc j) = pl' (32 * Suc j)"
  shows "list_entries skip pl i xs = list_entries skip pl' i xs"
  using assms
proof (induction "length xs" arbitrary: i xs rule: less_induct)
  case (less xs)
  have n: "next_entry skip pl i (32 * i) lnb_new xs = next_entry skip pl' i (32 * i) lnb_new xs"
    by (rule next_entry_place) (use less(2) in blast)
  show ?case
  proof (cases "next_entry skip pl' i (32 * i) lnb_new xs")
    case None
    with n show ?thesis by (simp add: list_entries.simps [of _ _ i xs])
  next
    case (Some a)
    obtain e j rest where a: "a = (e, j, rest)" by (cases a)
    have r: "length rest < length xs" "j + length rest = i + length xs"
      using next_entry_rest [of skip pl' i] next_entry_index [of skip pl' i] Some a by blast+
    have "list_entries skip pl j rest = list_entries skip pl' j rest"
      by (rule less(1) [OF r(1)]) (use r less(2) in auto)
    with Some a n show ?thesis by (simp add: list_entries.simps [of _ _ i xs])
  qed
qed

lemma dir_ok_same:
  assumes "dir_ok b cs fs f" "same_file b cs fs fs'"
  shows "dir_ok b cs fs' f" "dir_entries cs fs' f = dir_entries cs fs f"
proof -
  have a: "file_ok b cs (f\<lparr>f_fs := fs\<rparr>)" "file_pos f = 0" using assms(1) by (auto simp: dir_ok_def)
  have ok: "file_ok b cs (f\<lparr>f_fs := fs'\<rparr>)" "file_bytes cs (f\<lparr>f_fs := fs'\<rparr>) = file_bytes cs (f\<lparr>f_fs := fs\<rparr>)"
    by (rule file_ok_same [OF a(1)]; use assms(2) a in \<open>auto simp: file_ok_def file_size_def\<close>)+
  then show "dir_ok b cs fs' f" using assms by (simp add: dir_ok_def same_file_def)
  have z: "512 \<le> unat (cluster_size fs)" using a(1) by (simp add: file_ok_def fs_ready_def)
  let ?bs = "file_bytes cs (f\<lparr>f_fs := fs\<rparr>)"
  have "length ?bs = length cs * unat (cluster_size fs)"
    using length_file_bytes [OF a(1)] assms(1) by (simp add: dir_ok_def file_len_def file_size_def)
  then have "list_entries True (dir_place cs fs') 0 (dir_slots ?bs) = list_entries True (dir_place cs fs) 0 (dir_slots ?bs)"
    using z by (intro list_entries_place dir_place_same [OF assms(2)]) auto
  then show "dir_entries cs fs' f = dir_entries cs fs f" by (simp add: dir_entries_def ok(2))
qed

lemma for_entries_dir:
  assumes "dir_ok b cs fs f"
  shows "\<exists>fs'. with_stream cursor_ops (FileStream f) (for_entries (raw_stream_ops cursor_ops) stream_abs_pos True body x) fs =
      (Inr (case fold_entries body x (dir_entries cs fs f) of Inl x' \<Rightarrow> Inl (x', None) | Inr r \<Rightarrow> Inr r), fs') \<and>
    same_file b cs fs fs'"
proof -
  let ?f = "f\<lparr>f_fs := fs\<rparr>"
  have "same_file b cs fs fs" using assms by (intro same_file_refl) (auto simp: dir_ok_def file_ok_def)
  then have d: "dir_file b cs fs (f_entry f) ?f" using assms by (simp add: dir_ok_def dir_file_def file_size_def)
  then have "dir_rd.holds cs b fs (f_entry f) (file_bytes cs ?f) 0 (FileStream ?f)"
    using assms by (simp add: dir_rd.holds_def dir_ok_def)
  from dirf.for_entries_eq [OF this, of True body x] obtain s' p where
    s': "for_entries (raw_stream_ops cursor_ops) stream_abs_pos True body x (FileStream ?f) =
      (Inr (case fold_entries body x (dir_entries cs fs f) of Inl x' \<Rightarrow> Inl (x', None) | Inr r \<Rightarrow> Inr r), s')"
    "dir_rd.holds cs b fs (f_entry f) (file_bytes cs ?f) p s'"
    by (auto simp: dir_entries_def)
  then obtain f' where f': "s' = FileStream f'" "dir_file b cs fs (f_entry f) f'" by (cases s') (auto simp: dir_rd.holds_def)
  then have e: "f_entry f' = f_entry f" "same_file b cs fs (f_fs f')" by (simp_all add: dir_file_def)
  have "file_flush cursor_ops f' = (Inr (), f')"
  proof (cases "f_entry f'")
    case None
    then show ?thesis by (simp add: file_flush_def flush_dir_entry_def sbind_def on_fs_def on_disk_def cursor_ops_def sret_def)
  next
    case (Some ed)
    then have "\<not> ed_dirty ed" using assms e(1) by (simp add: dir_ok_def)
    then have "flush_dir_entry cursor_ops f' = (Inr (), f')" using Some by (simp add: flush_dir_entry_def editor_flush_def)
    then show ?thesis by (simp add: file_flush_def sbind_def on_fs_def on_disk_def cursor_ops_def sret_def)
  qed
  with s'(1) f'(1) e(2) show ?thesis by (simp add: with_stream_def)
qed

lemma find_entry_gen_eq:
  assumes "dir_ok b cs fs f"
  shows "\<exists>fs'. find_entry_gen cursor_ops up (FileStream f) name is_dir gen fs =
      (Inr (lookup_entry (name_is up fs name) is_dir (dir_entries cs fs f),
        if find (name_is up fs name) (dir_entries cs fs f) = None
        then map_option (fold sng_add_existing (map (\<lambda>e. fe_name (de_data e)) (dir_entries cs fs f))) gen else gen), fs') \<and>
    same_file b cs fs fs'"
proof -
  obtain fs' where fs': "with_stream cursor_ops (FileStream f) (for_entries (raw_stream_ops cursor_ops) stream_abs_pos True
      (find_entry_body (name_is up fs name) is_dir) gen) fs =
      (Inr (case fold_entries (find_entry_body (name_is up fs name) is_dir) gen (dir_entries cs fs f) of
        Inl x' \<Rightarrow> Inl (x', None) | Inr r \<Rightarrow> Inr r), fs')" "same_file b cs fs fs'"
    using for_entries_dir [OF assms, of "find_entry_body (name_is up fs name) is_dir" gen] by (elim exE conjE) simp
  show ?thesis
  proof (cases "find (name_is up fs name) (dir_entries cs fs f)")
    case None
    then have "lookup_entry (name_is up fs name) is_dir (dir_entries cs fs f) = Inl NotFound" by (simp add: lookup_entry_def)
    with fs' None show ?thesis by (simp add: find_entry_gen_def fold_find_entry sbind_def sret_def)
  next
    case (Some e)
    with fs' show ?thesis by (simp add: find_entry_gen_def fold_find_entry sbind_def sret_def)
  qed
qed

text \<open>C15: opening a file in a directory searches the entries of the directory: an entry of that name that is a
  file gives a file object at its first cluster, an entry of a directory is refused, a name without an
  entry is not found, and the directory keeps its content.\<close>

theorem open_file_correct:
  assumes "dir_ok b cs fs f" "split_path path = (name, None)"
  shows "\<exists>fs'. open_file cursor_ops up (FileStream f) path fs =
      (case lookup_entry (name_is up fs name) (Some False) (dir_entries cs fs f) of
         Inl k \<Rightarrow> Inl (Io k)
       | Inr e \<Rightarrow> Inr (file_new (file_entry_first_cluster (fs_fat_type fs') (de_data e)) (Some (dir_entry_to_editor e)) fs'), fs') \<and>
    dir_ok b cs fs' f \<and> dir_entries cs fs' f = dir_entries cs fs f"
proof -
  let ?l = "lookup_entry (name_is up fs name) (Some False) (dir_entries cs fs f)"
  obtain g fs' where fs': "find_entry_gen cursor_ops up (FileStream f) name (Some False) None fs = (Inr (?l, g), fs')"
    "same_file b cs fs fs'"
    using find_entry_gen_eq [OF assms(1), of up name "Some False" None] by blast
  have "\<not> file_entry_is_dir (de_data e)" if "?l = Inr e" for e
    using that by (auto simp: lookup_entry_def split: option.splits if_splits)
  then have "open_file cursor_ops up (FileStream f) path fs =
      (case ?l of Inl k \<Rightarrow> Inl (Io k)
       | Inr e \<Rightarrow> Inr (file_new (file_entry_first_cluster (fs_fat_type fs') (de_data e)) (Some (dir_entry_to_editor e)) fs'), fs')"
    using fs'(1) assms(2)
    by (cases ?l) (simp_all add: open_file.simps [of _ _ _ path] find_entry_def sbind_def sret_def sfail_def entry_to_file_def
      entry_first_cluster_def)
  with dir_ok_same [OF assms(1) fs'(2)] show ?thesis by blast
qed

section \<open>Finding a name for a new entry\<close>

lemma sng_retry_shift: "sng_retry ns k (sng_next_iteration (fold sng_add_existing ns g)) = sng_retry ns (Suc k) g"
  by (induction k) simp_all

lemma find_entry_gen_missing:
  assumes "dir_ok b cs fs f" "find (name_is up fs name) (dir_entries cs fs f) = None"
    "ns = map (\<lambda>e. fe_name (de_data e)) (dir_entries cs fs f)"
  shows "\<exists>fs'. find_entry_gen cursor_ops up (FileStream f) name is_dir (Some g) fs =
      (Inr (Inl NotFound, Some (fold sng_add_existing ns g)), fs') \<and> same_file b cs fs fs'"
  using find_entry_gen_eq [OF assms(1), of up name is_dir "Some g"] assms(2,3) by (auto simp: lookup_entry_def)

lemma check_existence_search:
  assumes "dir_ok b cs fs f" "find (name_is up fs name) (dir_entries cs fs f) = None"
    "ns = map (\<lambda>e. fe_name (de_data e)) (dir_entries cs fs f)"
    "sng_generate (fold sng_add_existing ns (sng_retry ns k g)) = Inr n" "k < rounds"
  shows "\<exists>fs' j m. check_existence_loop cursor_ops up (FileStream f) name is_dir rounds g fs = (Inr (ShortName m), fs') \<and>
    same_file b cs fs fs' \<and> sng_generate (fold sng_add_existing ns (sng_retry ns j g)) = Inr m"
  using assms
proof (induction k arbitrary: g rounds fs)
  case 0
  obtain fs1 where "find_entry_gen cursor_ops up (FileStream f) name is_dir (Some g) fs =
      (Inr (Inl NotFound, Some (fold sng_add_existing ns g)), fs1)" "same_file b cs fs fs1"
    using find_entry_gen_missing [OF 0(1-3)] by blast
  with 0(4,5) show ?case
    by (intro exI [of _ fs1] exI [of _ 0] exI [of _ n]) (simp add: check_existence_loop.simps [of _ _ _ _ _ rounds])
next
  case (Suc k)
  let ?h = "fold sng_add_existing ns g"
  obtain fs1 where fs1: "find_entry_gen cursor_ops up (FileStream f) name is_dir (Some g) fs =
      (Inr (Inl NotFound, Some ?h), fs1)" "same_file b cs fs fs1"
    using find_entry_gen_missing [OF Suc(2-4)] by blast
  show ?case
  proof (cases "sng_generate ?h")
    case (Inr m)
    with fs1 Suc(6) show ?thesis
      by (intro exI [of _ fs1] exI [of _ 0] exI [of _ m]) (simp add: check_existence_loop.simps [of _ _ _ _ _ rounds])
  next
    case (Inl err)
    let ?g = "sng_next_iteration ?h"
    note ok = dir_ok_same [OF Suc(2) fs1(2)]
    have o: "fs_options fs1 = fs_options fs" using fs1(2) by (simp add: same_file_def)
    have "\<exists>fs' j m. check_existence_loop cursor_ops up (FileStream f) name is_dir (rounds - 1) ?g fs1 = (Inr (ShortName m), fs') \<and>
      same_file b cs fs1 fs' \<and> sng_generate (fold sng_add_existing ns (sng_retry ns j ?g)) = Inr m"
      by (rule Suc.IH [OF ok(1)]) (use Suc(3,4,5,6) ok(2) o sng_retry_shift [of ns k g] in simp_all)
    then obtain fs' j m where r: "check_existence_loop cursor_ops up (FileStream f) name is_dir (rounds - 1) ?g fs1 = (Inr (ShortName m), fs')"
      "same_file b cs fs1 fs'" "sng_generate (fold sng_add_existing ns (sng_retry ns j ?g)) = Inr m" by blast
    have "check_existence_loop cursor_ops up (FileStream f) name is_dir rounds g fs = (Inr (ShortName m), fs')"
      using fs1(1) Inl r(1) Suc(6) by (simp add: check_existence_loop.simps [of _ _ _ _ _ rounds])
    with r(3) same_file_trans [OF fs1(2) r(2)] sng_retry_shift [of ns j g] show ?thesis by metis
  qed
qed

text \<open>C16: in a directory with fewer than 9 * 65536 entries the check before an entry is created ends, and ends well: it
  returns the entry of that name if there is one of the right kind, refuses one of the wrong kind, and otherwise
  returns a short name of eleven bytes that no entry of the directory has; the directory keeps its content.  The
  bound is a condition of the statement: the generator tries nine numbers for each of the 65536 values of its
  checksum, the code does not limit the entries of a directory, and in one that uses up all those names the search
  for a free one does not end.\<close>

theorem check_for_existence_correct:
  assumes "dir_ok b cs fs f" "length (dir_entries cs fs f) < 9 * 65536"
  shows "\<exists>r fs'. check_for_existence cursor_ops up (FileStream f) name is_dir fs = (r, fs') \<and>
    dir_ok b cs fs' f \<and> dir_entries cs fs' f = dir_entries cs fs f \<and>
    (case lookup_entry (name_is up fs name) is_dir (dir_entries cs fs f) of
       Inr e \<Rightarrow> r = Inr (DirEntry e)
     | Inl NotFound \<Rightarrow> \<exists>n. r = Inr (ShortName n) \<and> length n = 11 \<and> n \<notin> (\<lambda>e. fe_name (de_data e)) ` set (dir_entries cs fs f)
     | Inl k \<Rightarrow> r = Inl (Io k))"
proof -
  let ?es = "dir_entries cs fs f" and ?g = "sng_new name"
  let ?l = "lookup_entry (name_is up fs name) is_dir ?es"
  define ns where "ns = map (\<lambda>e. fe_name (de_data e)) ?es"
  show ?thesis
  proof (cases "find (name_is up fs name) ?es")
    case None
    then have l: "?l = Inl NotFound" by (simp add: lookup_entry_def)
    have ln: "length ns < 9 * 65536" using assms(2) by (simp add: ns_def)
    obtain k n where k: "k \<le> length ns div 9" "sng_generate (fold sng_add_existing ns (sng_retry ns k ?g)) = Inr n"
      using short_name_found [OF ln] by blast
    have "k < 65536" using k(1) ln by simp
    from check_existence_search [OF assms(1) None ns_def k(2) this, of is_dir] obtain fs' j m where
      m: "check_existence_loop cursor_ops up (FileStream f) name is_dir 65536 ?g fs = (Inr (ShortName m), fs')"
      "same_file b cs fs fs'" "sng_generate (fold sng_add_existing ns (sng_retry ns j ?g)) = Inr m" by blast
    have "m \<notin> set ns" "length m = 11" using short_name_found [OF ln] m(3) by blast+
    with m(1) l dir_ok_same [OF assms(1) m(2)] show ?thesis by (auto simp: check_for_existence_def ns_def)
  next
    case (Some e)
    obtain g fs' where fs': "find_entry_gen cursor_ops up (FileStream f) name is_dir (Some ?g) fs = (Inr (?l, g), fs')"
      "same_file b cs fs fs'"
      using find_entry_gen_eq [OF assms(1), of up name is_dir "Some ?g"] by blast
    have "?l = Inr e \<or> ?l = Inl Other" using Some by (auto simp: lookup_entry_def)
    with fs'(1) dir_ok_same [OF assms(1) fs'(2)] show ?thesis
      by (auto simp: check_for_existence_def check_existence_loop.simps [of _ _ _ _ _ 65536])
  qed
qed

section \<open>Witnesses\<close>

lemma length_list_entries: "length (list_entries skip pl i xs) \<le> length xs"
proof (induction "length xs" arbitrary: i xs rule: less_induct)
  case (less xs)
  show ?case
  proof (cases "next_entry skip pl i (32 * i) lnb_new xs")
    case (Some a)
    obtain e j rest where a: "a = (e, j, rest)" by (cases a)
    have "length rest < length xs" using next_entry_rest [of skip pl i] Some a by blast
    with less [of rest j] Some a show ?thesis by (simp add: list_entries.simps [of _ _ i xs])
  qed (simp add: list_entries.simps)
qed

definition demo_dir :: "cursor fat_file" where
  "demo_dir = file_new (Some 2) None demo_fs"

lemma demo_dir_ok: "dir_ok demo_fat [2, 3] demo_fs demo_dir"
proof -
  have o: "\<not> opt_update_accessed_date (fs_options demo_fs)" by (simp add: demo_fs_def fs_options_new_def)
  have "fs_ready demo_fat demo_fs" using demo_file_ok by (simp add: file_ok_def)
  moreover have "chain_ok demo_fat [2, 3] demo_fs" using demo_file_ok by (simp add: file_ok_def)
  ultimately have "file_ok demo_fat [2, 3] demo_dir"
    by (simp add: file_ok_def demo_dir_def file_new_def file_len_def file_size_def)
  with o show ?thesis by (simp add: dir_ok_def demo_dir_def file_new_def file_size_def)
qed

theorem open_file_correct_witness:
  "\<exists>r fs'. open_file cursor_ops (\<lambda>c. [c]) (FileStream demo_dir) [0x41] demo_fs = (r, fs') \<and> dir_ok demo_fat [2, 3] fs' demo_dir"
proof -
  have "split_path [0x41] = ([0x41], None)" by (simp add: split_path_def trim_matches_def SLASH_def)
  from open_file_correct [OF demo_dir_ok this] show ?thesis by blast
qed

theorem check_for_existence_correct_witness:
  "\<exists>r fs'. check_for_existence cursor_ops (\<lambda>c. [c]) (FileStream demo_dir) [0x41] None demo_fs = (r, fs') \<and>
    (\<forall>p. r \<noteq> Inl (Panic p)) \<and> dir_ok demo_fat [2, 3] fs' demo_dir"
proof -
  have "length (file_bytes [2, 3] demo_dir) = 1024"
    using length_file_bytes [of demo_fat "[2, 3]" demo_dir] demo_dir_ok
    by (simp add: dir_ok_def demo_dir_def file_new_def file_len_def file_size_def)
  then have "length (dir_entries [2, 3] demo_fs demo_dir) < 9 * 65536"
    using length_list_entries [of True "dir_place [2, 3] demo_fs" 0 "dir_slots (file_bytes [2, 3] demo_dir)"]
    by (simp add: dir_entries_def demo_dir_def file_new_def)
  from check_for_existence_correct [OF demo_dir_ok this, of "\<lambda>c. [c]" "[0x41]" None] show ?thesis
    by (fastforce split: sum.splits io_kind.splits)
qed

end
