(* ===== verification/Kernel_Block.thy ===== *)
theory Kernel_Block
  imports Byte_Stream
begin

text \<open>
  The buffered block device of \<open>kernel/src/drivers/block/mod.rs\<close>, the stream the root file system of
  the kernel is mounted on. The trait \<open>BlockDevice\<close> is a dictionary of operations on a device state;
  \<open>BufBlkDeviceInner\<close> keeps one sector in a buffer, remembers whether the buffer was written to, and
  writes it back before another sector is loaded. \<open>BufBlockDevice\<close> puts a lock around it and adds
  nothing to the sequential behaviour.

  The accesses the buffer supports are those that stay inside one sector and do not end one byte
  before its end (\<open>sector_access\<close>): for any sequence of them the device is equivalent to an array of
  bytes. Two lemmas show what happens at the border.
\<close>

section \<open>The device\<close>

definition BLOCK_SZ :: nat where
  "BLOCK_SZ = 512"

record 'd block_device =
  read_block :: "nat \<Rightarrow> ('d, u8 list) st"
  write_block :: "nat \<Rightarrow> u8 list \<Rightarrow> ('d, unit) st"

text \<open>\<open>VirtIOBlock\<close> forwards to the driver of the \<open>virtio_drivers\<close> crate and panics on its errors; the
  two functions of the crate are arguments (\<open>None\<close> is an \<open>Err\<close>).\<close>

definition virtio_block ::
  "(nat \<Rightarrow> 'd \<Rightarrow> u8 list option \<times> 'd) \<Rightarrow> (nat \<Rightarrow> u8 list \<Rightarrow> 'd \<Rightarrow> unit option \<times> 'd) \<Rightarrow>
   'd block_device" where
  "virtio_block rd wr =
     \<lparr>read_block = (\<lambda>block_id d. case rd block_id d of (r, d') \<Rightarrow> (runwrap r, d')),
      write_block = (\<lambda>block_id buf d. case wr block_id buf d of (r, d') \<Rightarrow> (runwrap r, d'))\<rparr>"

record 'd buf_blk_device =
  bd_device :: 'd
  bd_buf :: "u8 list"
  bd_pos :: nat
  bd_block_id :: nat
  bd_modified :: bool

definition on_device :: "('d, 'a) st \<Rightarrow> ('d buf_blk_device, 'a) st" where
  "on_device m s = (case m (bd_device s) of (r, d) \<Rightarrow> (r, s\<lparr>bd_device := d\<rparr>))"

definition bd_upd :: "('d buf_blk_device \<Rightarrow> 'd buf_blk_device) \<Rightarrow> ('d buf_blk_device, unit) st" where
  "bd_upd f s = (Inr (), f s)"

definition bd_get :: "('d buf_blk_device \<Rightarrow> 'a) \<Rightarrow> ('d buf_blk_device, 'a) st" where
  "bd_get f s = (Inr (f s), s)"

definition fill_buf :: "'d block_device \<Rightarrow> ('d buf_blk_device, unit) st" where
  "fill_buf dev =
     sbind (bd_get bd_block_id) (\<lambda>id.
     sbind (on_device (read_block dev id)) (\<lambda>bs.
     bd_upd (\<lambda>s. s\<lparr>bd_buf := bs\<rparr>)))"

definition flush_buf :: "'d block_device \<Rightarrow> ('d buf_blk_device, unit) st" where
  "flush_buf dev s = on_device (write_block dev (bd_block_id s) (bd_buf s)) s"

definition buf_blk_new :: "'d block_device \<Rightarrow> 'd \<Rightarrow> unit res \<times> 'd buf_blk_device" where
  "buf_blk_new dev device =
     fill_buf dev \<lparr>bd_device = device, bd_buf = replicate BLOCK_SZ 0, bd_pos = 0, bd_block_id = 0,
                   bd_modified = False\<rparr>"

definition bd_flush :: "'d block_device \<Rightarrow> ('d buf_blk_device, unit) st" where
  "bd_flush dev s =
     (if bd_modified s then sbind (flush_buf dev) (\<lambda>_. bd_upd (\<lambda>s. s\<lparr>bd_modified := False\<rparr>)) s
      else (Inr (), s))"

section \<open>Reading and writing\<close>

text \<open>
  \<open>read\<close> fills the caller's buffer \<open>buf\<close> and always claims \<open>buf.len()\<close> bytes, so the model returns the
  buffer as the call leaves it. The direct transfer of whole sectors indexes \<open>buf\<close> (a panic out of its
  bounds) and hands the device the 512 bytes from there; when fewer than 512 are left the real code
  touches memory behind the slice, which the model turns into the same panic.
\<close>

fun read_sectors :: "'d block_device \<Rightarrow> nat \<Rightarrow> nat list \<Rightarrow> u8 list \<Rightarrow> ('d buf_blk_device, u8 list) st" where
  "read_sectors dev n [] buf = sret buf"
| "read_sectors dev n (i # is) buf =
     sbind (bd_upd (\<lambda>s. s\<lparr>bd_block_id := bd_block_id s + 1\<rparr>)) (\<lambda>_.
     sbind (slift (rguard (n + i * BLOCK_SZ + BLOCK_SZ \<le> length buf) (Panic OutOfBounds))) (\<lambda>_.
     sbind (bd_get bd_block_id) (\<lambda>id.
     sbind (on_device (read_block dev id)) (\<lambda>bs.
     read_sectors dev n is (splice (n + i * BLOCK_SZ) bs buf)))))"

definition bd_read :: "'d block_device \<Rightarrow> u8 list \<Rightarrow> ('d buf_blk_device, nat \<times> u8 list) st" where
  "bd_read dev buf =
     sbind (bd_get (\<lambda>s. slice_read (drop (bd_pos s) (bd_buf s)) (length buf))) (\<lambda>bs.
     let n = length bs; buf1 = splice 0 bs buf in
     sbind (bd_upd (\<lambda>s. s\<lparr>bd_pos := bd_pos s + n\<rparr>)) (\<lambda>_.
     sbind (bd_get bd_pos) (\<lambda>p.
     if p = BLOCK_SZ - 1 then
       sbind (bd_flush dev) (\<lambda>_.
       let size = (length buf - n) div BLOCK_SZ in
       sbind (read_sectors dev n [0..<size] buf1) (\<lambda>buf2.
       sbind (bd_upd (\<lambda>s. s\<lparr>bd_block_id := bd_block_id s + 1\<rparr>)) (\<lambda>_.
       sbind (fill_buf dev) (\<lambda>_.
       sbind (bd_get (\<lambda>s. slice_read (bd_buf s) (length buf - (n + size * BLOCK_SZ)))) (\<lambda>rest.
       sbind (bd_upd (\<lambda>s. s\<lparr>bd_pos := length rest\<rparr>)) (\<lambda>_.
       sret (length buf, splice (n + size * BLOCK_SZ) rest buf2)))))))
     else sret (length buf, buf1))))"

fun write_sectors :: "'d block_device \<Rightarrow> nat \<Rightarrow> nat list \<Rightarrow> u8 list \<Rightarrow> ('d buf_blk_device, unit) st" where
  "write_sectors dev n [] buf = sret ()"
| "write_sectors dev n (i # is) buf =
     sbind (bd_upd (\<lambda>s. s\<lparr>bd_block_id := bd_block_id s + 1\<rparr>)) (\<lambda>_.
     sbind (slift (rguard (n + i * BLOCK_SZ + BLOCK_SZ \<le> length buf) (Panic OutOfBounds))) (\<lambda>_.
     sbind (bd_get bd_block_id) (\<lambda>id.
     sbind (on_device (write_block dev id (window (n + i * BLOCK_SZ) BLOCK_SZ buf))) (\<lambda>_.
     write_sectors dev n is buf))))"

text \<open>\<open>write\<close> copies as much as fits behind the position. The number of whole sectors is computed as
  \<open>buf.len() - n / BLOCK_SZ\<close>, without the parentheses of \<open>read\<close>.\<close>

definition bd_write :: "'d block_device \<Rightarrow> u8 list \<Rightarrow> ('d buf_blk_device, nat) st" where
  "bd_write dev buf =
     sbind (bd_get (\<lambda>s. min (length (drop (bd_pos s) (bd_buf s))) (length buf))) (\<lambda>n.
     sbind (bd_upd (\<lambda>s. s\<lparr>bd_buf := splice (bd_pos s) (take n buf) (bd_buf s),
                          bd_pos := bd_pos s + n, bd_modified := (n > 0 \<or> bd_modified s)\<rparr>)) (\<lambda>_.
     sbind (bd_get bd_pos) (\<lambda>p.
     if p = BLOCK_SZ - 1 then
       sbind (bd_flush dev) (\<lambda>_.
       let size = length buf - n div BLOCK_SZ in
       sbind (write_sectors dev n [0..<size] buf) (\<lambda>_.
       sbind (bd_upd (\<lambda>s. s\<lparr>bd_block_id := bd_block_id s + 1\<rparr>)) (\<lambda>_.
       sbind (fill_buf dev) (\<lambda>_.
       sbind (slift (rguard (n + size * BLOCK_SZ \<le> length buf) (Panic OutOfBounds))) (\<lambda>_.
       let rest = take BLOCK_SZ (drop (n + size * BLOCK_SZ) buf) in
       sbind (bd_upd (\<lambda>s. s\<lparr>bd_buf := splice 0 rest (bd_buf s), bd_pos := length rest,
                            bd_modified := (rest \<noteq> [] \<or> bd_modified s)\<rparr>)) (\<lambda>_.
       sret (length buf)))))))
     else sret (length buf))))"

section \<open>Seeking\<close>

definition bd_seek_to :: "'d block_device \<Rightarrow> nat \<Rightarrow> ('d buf_blk_device, nat) st" where
  "bd_seek_to dev i =
     sbind (bd_upd (\<lambda>s. s\<lparr>bd_pos := i mod BLOCK_SZ\<rparr>)) (\<lambda>_.
     sbind (bd_get bd_block_id) (\<lambda>id.
     if id \<noteq> i div BLOCK_SZ then
       sbind (bd_flush dev) (\<lambda>_.
       sbind (bd_upd (\<lambda>s. s\<lparr>bd_block_id := i div BLOCK_SZ\<rparr>)) (\<lambda>_.
       sbind (fill_buf dev) (\<lambda>_. sret i)))
     else sret i))"

text \<open>\<open>Current\<close> adds in \<open>i64\<close> (an overflow panics) and reads the sum back as \<open>u64\<close>, so a target in front
  of the device becomes a huge position.\<close>

definition signed64 :: "int \<Rightarrow> int" where
  "signed64 x = (if x mod 2 ^ 64 < 2 ^ 63 then x mod 2 ^ 64 else x mod 2 ^ 64 - 2 ^ 64)"

definition bd_seek :: "'d block_device \<Rightarrow> seek_from \<Rightarrow> ('d buf_blk_device, nat) st" where
  "bd_seek dev sf =
     (case sf of
        Start i \<Rightarrow> bd_seek_to dev i
      | End _ \<Rightarrow> sfail (Panic Todo)
      | Current i \<Rightarrow>
          sbind (bd_get (\<lambda>s. signed64 (int (bd_block_id s * BLOCK_SZ + bd_pos s)) + i)) (\<lambda>j.
          if - (2 ^ 63) \<le> j \<and> j < 2 ^ 63 then bd_seek_to dev (nat (j mod 2 ^ 64))
          else sfail (Panic Overflow)))"

section \<open>The contract of a device\<close>

text \<open>
  What the buffer relies on: below the capacity \<open>cap\<close> a sector has 512 bytes, reading returns the
  sector last written and changes nothing, writing changes exactly that sector. \<open>blocks\<close> is the
  content of the device, \<open>ok\<close> its own invariant. The client lemmas are about the buffered device.
\<close>

locale block_store =
  fixes dev :: "'d block_device" and cap :: nat
    and blocks :: "'d \<Rightarrow> nat \<Rightarrow> u8 list" and ok :: "'d \<Rightarrow> bool"
  assumes block_length: "ok d \<Longrightarrow> k < cap \<Longrightarrow> length (blocks d k) = BLOCK_SZ"
    and read_law: "ok d \<Longrightarrow> k < cap \<Longrightarrow>
      \<exists>d'. read_block dev k d = (Inr (blocks d k), d') \<and> ok d' \<and> blocks d' = blocks d"
    and write_law: "ok d \<Longrightarrow> k < cap \<Longrightarrow> length bs = BLOCK_SZ \<Longrightarrow>
      \<exists>d'. write_block dev k bs d = (Inr (), d') \<and> ok d' \<and> blocks d' = (blocks d)(k := bs)"

text \<open>The content a client sees: the buffered sector shadows the one on the device.\<close>

definition bd_view :: "('d \<Rightarrow> nat \<Rightarrow> u8 list) \<Rightarrow> 'd buf_blk_device \<Rightarrow> nat \<Rightarrow> u8 list" where
  "bd_view blocks s = (blocks (bd_device s))(bd_block_id s := bd_buf s)"

definition bd_bytes :: "('d \<Rightarrow> nat \<Rightarrow> u8 list) \<Rightarrow> 'd buf_blk_device \<Rightarrow> nat \<Rightarrow> u8" where
  "bd_bytes blocks s a = bd_view blocks s (a div BLOCK_SZ) ! (a mod BLOCK_SZ)"

definition bd_inv :: "nat \<Rightarrow> ('d \<Rightarrow> nat \<Rightarrow> u8 list) \<Rightarrow> ('d \<Rightarrow> bool) \<Rightarrow> 'd buf_blk_device \<Rightarrow> bool" where
  "bd_inv cap blocks ok s \<longleftrightarrow>
     ok (bd_device s) \<and> length (bd_buf s) = BLOCK_SZ \<and> bd_pos s \<le> BLOCK_SZ \<and> bd_block_id s < cap \<and>
     (\<not> bd_modified s \<longrightarrow> blocks (bd_device s) (bd_block_id s) = bd_buf s)"

lemma BLOCK_SZ_pos [simp]: "0 < BLOCK_SZ" "BLOCK_SZ \<noteq> 0"
  by (simp_all add: BLOCK_SZ_def)

lemmas bd_monad = bd_get_def bd_upd_def on_device_def sbind_def sret_def

context block_store
begin

lemma flush_eq:
  assumes "bd_inv cap blocks ok s"
  shows "\<exists>d'. bd_flush dev s = (Inr (), s\<lparr>bd_device := d', bd_modified := False\<rparr>) \<and> ok d' \<and>
    blocks d' = bd_view blocks s"
proof (cases "bd_modified s")
  case True
  obtain d' where "write_block dev (bd_block_id s) (bd_buf s) (bd_device s) = (Inr (), d')" "ok d'"
    "blocks d' = bd_view blocks s"
    using assms write_law [of "bd_device s" "bd_block_id s" "bd_buf s"]
    by (auto simp: bd_inv_def bd_view_def)
  with True show ?thesis by (auto simp: bd_flush_def flush_buf_def bd_monad)
next
  case False
  with assms show ?thesis
    by (intro exI [of _ "bd_device s"]) (auto simp: bd_flush_def bd_inv_def bd_view_def)
qed

lemma fill_eq:
  assumes "ok (bd_device s)" "bd_block_id s < cap"
  shows "\<exists>d'. fill_buf dev s = (Inr (), s\<lparr>bd_device := d', bd_buf := blocks (bd_device s) (bd_block_id s)\<rparr>)
    \<and> ok d' \<and> blocks d' = blocks (bd_device s)"
proof -
  obtain d' where "read_block dev (bd_block_id s) (bd_device s) =
      (Inr (blocks (bd_device s) (bd_block_id s)), d')" "ok d'" "blocks d' = blocks (bd_device s)"
    using read_law [OF assms] by blast
  then show ?thesis by (auto simp: fill_buf_def bd_monad)
qed

text \<open>A new device sees the content of the hardware.\<close>

lemma new_ok:
  assumes "ok d" "0 < cap"
  shows "\<exists>s. buf_blk_new dev d = (Inr (), s) \<and> bd_inv cap blocks ok s \<and> bd_view blocks s = blocks d"
proof -
  let ?s = "\<lparr>bd_device = d, bd_buf = replicate BLOCK_SZ 0, bd_pos = 0, bd_block_id = 0, bd_modified = False\<rparr>"
  obtain d' where "fill_buf dev ?s = (Inr (), ?s\<lparr>bd_device := d', bd_buf := blocks d 0\<rparr>)" "ok d'"
    "blocks d' = blocks d"
    using fill_eq [of ?s] assms by auto
  with assms show ?thesis
    by (auto simp: buf_blk_new_def bd_inv_def bd_view_def block_length)
qed

lemma seek_ok:
  assumes "bd_inv cap blocks ok s" "i div BLOCK_SZ < cap"
  shows "\<exists>s'. bd_seek dev (Start i) s = (Inr i, s') \<and> bd_inv cap blocks ok s' \<and>
    bd_view blocks s' = bd_view blocks s \<and> bd_block_id s' = i div BLOCK_SZ \<and> bd_pos s' = i mod BLOCK_SZ"
proof (cases "bd_block_id s = i div BLOCK_SZ")
  case True
  with assms show ?thesis
    by (auto simp: bd_seek_def bd_seek_to_def bd_monad bd_inv_def bd_view_def less_imp_le)
next
  case False
  let ?s = "s\<lparr>bd_pos := i mod BLOCK_SZ\<rparr>"
  have "bd_inv cap blocks ok ?s" using assms by (simp add: bd_inv_def less_imp_le)
  from flush_eq [OF this] obtain d1 where d1: "bd_flush dev ?s = (Inr (), ?s\<lparr>bd_device := d1, bd_modified := False\<rparr>)"
    "ok d1" "blocks d1 = bd_view blocks s"
    by (auto simp: bd_view_def)
  let ?t = "?s\<lparr>bd_device := d1, bd_modified := False, bd_block_id := i div BLOCK_SZ\<rparr>"
  obtain d2 where d2: "fill_buf dev ?t = (Inr (), ?t\<lparr>bd_device := d2, bd_buf := blocks d1 (i div BLOCK_SZ)\<rparr>)"
    "ok d2" "blocks d2 = blocks d1"
    using fill_eq [of ?t] d1(2) assms(2) by auto
  have "bd_seek dev (Start i) s = (Inr i, ?t\<lparr>bd_device := d2, bd_buf := blocks d1 (i div BLOCK_SZ)\<rparr>)"
    using False d1(1) d2(1) by (simp add: bd_seek_def bd_seek_to_def bd_monad)
  moreover have "bd_inv cap blocks ok (?t\<lparr>bd_device := d2, bd_buf := blocks d1 (i div BLOCK_SZ)\<rparr>)"
    using d1(2) d2(2,3) assms(2) block_length [of d1] by (simp add: bd_inv_def less_imp_le)
  moreover have "bd_view blocks (?t\<lparr>bd_device := d2, bd_buf := blocks d1 (i div BLOCK_SZ)\<rparr>) = bd_view blocks s"
    using d1(3) d2(3) by (simp add: bd_view_def fun_eq_iff)
  ultimately show ?thesis by fastforce
qed

end

section \<open>Accesses inside a sector\<close>

text \<open>The accesses the buffer serves: inside one sector, not ending right before its last byte.\<close>

definition sector_access :: "nat \<Rightarrow> nat \<Rightarrow> nat \<Rightarrow> bool" where
  "sector_access cap i n \<longleftrightarrow>
     i div BLOCK_SZ < cap \<and> i mod BLOCK_SZ + n \<le> BLOCK_SZ \<and> i mod BLOCK_SZ + n \<noteq> BLOCK_SZ - 1"

lemma bd_read_inside:
  assumes "length (bd_buf s) = BLOCK_SZ" "bd_pos s + length buf \<le> BLOCK_SZ"
    "bd_pos s + length buf \<noteq> BLOCK_SZ - 1"
  shows "bd_read dev buf s =
    (Inr (length buf, window (bd_pos s) (length buf) (bd_buf s)), s\<lparr>bd_pos := bd_pos s + length buf\<rparr>)"
  using assms by (simp add: bd_read_def bd_monad slice_read_def splice_def window_def Let_def)

lemma bd_write_inside:
  assumes "length (bd_buf s) = BLOCK_SZ" "bd_pos s + length buf \<le> BLOCK_SZ"
    "bd_pos s + length buf \<noteq> BLOCK_SZ - 1"
  shows "bd_write dev buf s =
    (Inr (length buf), s\<lparr>bd_buf := splice (bd_pos s) buf (bd_buf s), bd_pos := bd_pos s + length buf,
       bd_modified := (buf \<noteq> [] \<or> bd_modified s)\<rparr>)"
proof -
  have "min (length (bd_buf s) - bd_pos s) (length buf) = length buf" using assms by linarith
  moreover have "(0 < length buf) = (buf \<noteq> [])" by simp
  ultimately show ?thesis using assms by (simp add: bd_write_def bd_monad)
qed

lemma div_mod_inside:
  fixes a b i n :: nat
  assumes "i mod b + n \<le> b" "i \<le> a" "a < i + n"
  shows "a div b = i div b \<and> a mod b = i mod b + (a - i)"
proof -
  have "a = (i mod b + (a - i)) + b * (i div b)" using assms(2) by simp
  moreover have "i mod b + (a - i) < b" using assms by linarith
  ultimately show ?thesis
    by (metis add.right_neutral div_less div_mult_self2 mod_less mod_mult_self2 less_nat_zero_code
        add.commute add_0)
qed

section \<open>Equivalence with an array of bytes\<close>

datatype blk_op = ReadAt nat nat | WriteAt nat "u8 list"

definition op_access :: "nat \<Rightarrow> blk_op \<Rightarrow> bool" where
  "op_access cap x = (case x of ReadAt i n \<Rightarrow> sector_access cap i n
                       | WriteAt i bs \<Rightarrow> sector_access cap i (length bs))"

text \<open>A client that seeks and transfers, and the same requests on an array.\<close>

definition bd_op :: "'d block_device \<Rightarrow> blk_op \<Rightarrow> ('d buf_blk_device, u8 list) st" where
  "bd_op dev x =
     (case x of
        ReadAt i n \<Rightarrow> sbind (bd_seek dev (Start i)) (\<lambda>_. sbind (bd_read dev (replicate n 0)) (\<lambda>r. sret (snd r)))
      | WriteAt i bs \<Rightarrow> sbind (bd_seek dev (Start i)) (\<lambda>_. sbind (bd_write dev bs) (\<lambda>_. sret [])))"

fun bd_run :: "'d block_device \<Rightarrow> blk_op list \<Rightarrow> ('d buf_blk_device, u8 list list) st" where
  "bd_run dev [] = sret []"
| "bd_run dev (x # xs) = sbind (bd_op dev x) (\<lambda>r. sbind (bd_run dev xs) (\<lambda>rs. sret (r # rs)))"

definition array_op :: "blk_op \<Rightarrow> (nat \<Rightarrow> u8) \<Rightarrow> u8 list \<times> (nat \<Rightarrow> u8)" where
  "array_op x f =
     (case x of
        ReadAt i n \<Rightarrow> (map f [i..<i + n], f)
      | WriteAt i bs \<Rightarrow> ([], (\<lambda>a. if i \<le> a \<and> a < i + length bs then bs ! (a - i) else f a)))"

fun array_run :: "blk_op list \<Rightarrow> (nat \<Rightarrow> u8) \<Rightarrow> u8 list list \<times> (nat \<Rightarrow> u8)" where
  "array_run [] f = ([], f)"
| "array_run (x # xs) f =
     (let (r, f') = array_op x f; (rs, f'') = array_run xs f' in (r # rs, f''))"

context block_store
begin

lemma op_equiv:
  assumes "bd_inv cap blocks ok s" "op_access cap x"
  shows "\<exists>s'. bd_op dev x s = (Inr (fst (array_op x (bd_bytes blocks s))), s') \<and>
    bd_inv cap blocks ok s' \<and> bd_bytes blocks s' = snd (array_op x (bd_bytes blocks s))"
proof (cases x)
  case (ReadAt i n)
  then have acc: "i div BLOCK_SZ < cap" "i mod BLOCK_SZ + n \<le> BLOCK_SZ" "i mod BLOCK_SZ + n \<noteq> BLOCK_SZ - 1"
    using assms(2) by (simp_all add: op_access_def sector_access_def)
  obtain t where t: "bd_seek dev (Start i) s = (Inr i, t)" "bd_inv cap blocks ok t"
    "bd_view blocks t = bd_view blocks s" "bd_block_id t = i div BLOCK_SZ" "bd_pos t = i mod BLOCK_SZ"
    using seek_ok [OF assms(1) acc(1)] by blast
  have len: "length (bd_buf t) = BLOCK_SZ" using t(2) by (simp add: bd_inv_def)
  have "window (i mod BLOCK_SZ) n (bd_buf t) = map (bd_bytes blocks s) [i..<i + n]"
  proof (rule nth_equalityI)
    fix k assume "k < length (window (i mod BLOCK_SZ) n (bd_buf t))"
    then have k: "k < n" using acc len by simp
    then show "window (i mod BLOCK_SZ) n (bd_buf t) ! k = map (bd_bytes blocks s) [i..<i + n] ! k"
      using acc len div_mod_inside [OF acc(2), of "i + k"] t(4)
      by (simp add: bd_bytes_def flip: t(3)) (simp add: bd_view_def)
  qed (use acc len in simp)
  moreover have "bd_read dev (replicate n 0) t =
      (Inr (n, window (i mod BLOCK_SZ) n (bd_buf t)), t\<lparr>bd_pos := i mod BLOCK_SZ + n\<rparr>)"
    using bd_read_inside [OF len, of "replicate n 0"] acc t(5) by simp
  moreover have "bd_inv cap blocks ok (t\<lparr>bd_pos := i mod BLOCK_SZ + n\<rparr>)"
    using t(2) acc by (simp add: bd_inv_def)
  moreover have "bd_bytes blocks (t\<lparr>bd_pos := i mod BLOCK_SZ + n\<rparr>) = bd_bytes blocks s"
    using t(3) by (simp add: bd_bytes_def bd_view_def fun_eq_iff)
  ultimately show ?thesis using ReadAt t(1)
    by (auto simp: bd_op_def array_op_def sbind_def sret_def)
next
  case (WriteAt i bs)
  then have acc: "i div BLOCK_SZ < cap" "i mod BLOCK_SZ + length bs \<le> BLOCK_SZ"
    "i mod BLOCK_SZ + length bs \<noteq> BLOCK_SZ - 1"
    using assms(2) by (simp_all add: op_access_def sector_access_def)
  obtain t where t: "bd_seek dev (Start i) s = (Inr i, t)" "bd_inv cap blocks ok t"
    "bd_view blocks t = bd_view blocks s" "bd_block_id t = i div BLOCK_SZ" "bd_pos t = i mod BLOCK_SZ"
    using seek_ok [OF assms(1) acc(1)] by blast
  have len: "length (bd_buf t) = BLOCK_SZ" using t(2) by (simp add: bd_inv_def)
  let ?t = "t\<lparr>bd_buf := splice (i mod BLOCK_SZ) bs (bd_buf t), bd_pos := i mod BLOCK_SZ + length bs,
       bd_modified := (bs \<noteq> [] \<or> bd_modified t)\<rparr>"
  have wr: "bd_write dev bs t = (Inr (length bs), ?t)"
    using bd_write_inside [OF len, of bs] acc t(5) by simp
  have "bd_bytes blocks ?t a = (if i \<le> a \<and> a < i + length bs then bs ! (a - i) else bd_bytes blocks s a)" for a
  proof (cases "i \<le> a \<and> a < i + length bs")
    case True
    then obtain k where k: "a = i + k" "k < length bs" by (auto simp: le_iff_add)
    with div_mod_inside [OF acc(2), of a] have "a div BLOCK_SZ = i div BLOCK_SZ" "a mod BLOCK_SZ = i mod BLOCK_SZ + k"
      by auto
    with k t(4) acc len show ?thesis by (simp add: bd_bytes_def bd_view_def nth_splice)
  next
    case False
    have "a div BLOCK_SZ \<noteq> i div BLOCK_SZ"
      if "i mod BLOCK_SZ \<le> a mod BLOCK_SZ \<and> a mod BLOCK_SZ < i mod BLOCK_SZ + length bs"
    proof
      assume "a div BLOCK_SZ = i div BLOCK_SZ"
      with div_mult_mod_eq [of a BLOCK_SZ] div_mult_mod_eq [of i BLOCK_SZ]
      have "a + i mod BLOCK_SZ = i + a mod BLOCK_SZ"
        by (metis add.assoc add.commute)
      with that False show False by linarith
    qed
    with False t(4) acc len show ?thesis
      by (simp add: bd_bytes_def flip: t(3)) (auto simp: bd_view_def nth_splice)
  qed
  then have "bd_bytes blocks ?t = snd (array_op x (bd_bytes blocks s))"
    using WriteAt by (auto simp: array_op_def)
  moreover have "bd_inv cap blocks ok ?t" using t(2) acc len by (auto simp: bd_inv_def)
  ultimately show ?thesis using WriteAt t(1) wr by (auto simp: bd_op_def array_op_def sbind_def sret_def)
qed

lemma run_equiv:
  assumes "bd_inv cap blocks ok s" "list_all (op_access cap) xs"
  shows "\<exists>s'. bd_run dev xs s = (Inr (fst (array_run xs (bd_bytes blocks s))), s') \<and>
    bd_inv cap blocks ok s' \<and> bd_bytes blocks s' = snd (array_run xs (bd_bytes blocks s))"
  using assms
proof (induction xs arbitrary: s)
  case (Cons x xs)
  from op_equiv [OF Cons.prems(1)] Cons.prems(2) obtain t where t: "bd_op dev x s = (Inr (fst (array_op x (bd_bytes blocks s))), t)"
    "bd_inv cap blocks ok t" "bd_bytes blocks t = snd (array_op x (bd_bytes blocks s))"
    by auto
  from Cons.IH [OF t(2)] Cons.prems(2) obtain u where
    "bd_run dev xs t = (Inr (fst (array_run xs (bd_bytes blocks t))), u)"
    "bd_inv cap blocks ok u" "bd_bytes blocks u = snd (array_run xs (bd_bytes blocks t))"
    by auto
  with t show ?case by (auto simp: sbind_def sret_def Let_def split: prod.splits)
qed (simp add: sret_def)

end

subsection \<open>The borders of a sector\<close>

lemma write_to_border_panics:
  assumes "block_store dev cap blocks ok" "bd_inv cap blocks ok s" "bs \<noteq> []"
    "bd_pos s + length bs = BLOCK_SZ - 1"
  shows "fst (bd_write dev bs s) = Inl (Panic OutOfBounds)"
proof -
  have len: "length (bd_buf s) = BLOCK_SZ" using assms(2) by (simp add: bd_inv_def)
  have lt: "length bs < BLOCK_SZ" using assms(4) by (simp add: BLOCK_SZ_def)
  have n: "min (length (bd_buf s) - bd_pos s) (length bs) = length bs" using assms(4) len by linarith
  let ?s = "s\<lparr>bd_buf := splice (bd_pos s) bs (bd_buf s), bd_pos := BLOCK_SZ - 1, bd_modified := True\<rparr>"
  have "bd_inv cap blocks ok ?s" using assms(2,4) len by (simp add: bd_inv_def)
  from block_store.flush_eq [OF assms(1) this] obtain d where
    fl: "bd_flush dev ?s = (Inr (), ?s\<lparr>bd_device := d, bd_modified := False\<rparr>)" by blast
  have "[0..<length bs] = 0 # [1..<length bs]" using assms(3) by (simp add: upt_conv_Cons)
  with n lt fl assms(3,4) show ?thesis
    by (simp add: bd_write_def bd_monad sfail_def)
qed

lemma read_to_border_skips_byte:
  assumes "block_store dev cap blocks ok" "bd_inv cap blocks ok s" "bd_block_id s + 1 < cap"
    "bd_pos s + length buf = BLOCK_SZ - 1"
  shows "\<exists>s'. bd_read dev buf s = (Inr (length buf, window (bd_pos s) (length buf) (bd_buf s)), s') \<and>
    bd_block_id s' = bd_block_id s + 1 \<and> bd_pos s' = 0"
proof -
  have len: "length (bd_buf s) = BLOCK_SZ" using assms(2) by (simp add: bd_inv_def)
  have n: "slice_read (drop (bd_pos s) (bd_buf s)) (length buf) = window (bd_pos s) (length buf) (bd_buf s)"
    "bd_pos s + length buf \<le> length (bd_buf s)"
    using assms(4) len by (auto simp: slice_read_def window_def)
  let ?s = "s\<lparr>bd_pos := BLOCK_SZ - 1\<rparr>"
  have "bd_inv cap blocks ok ?s" using assms(2,4) by (simp add: bd_inv_def)
  from block_store.flush_eq [OF assms(1) this] obtain d where
    fl: "bd_flush dev ?s = (Inr (), ?s\<lparr>bd_device := d, bd_modified := False\<rparr>)" "ok d" by blast
  let ?t = "?s\<lparr>bd_device := d, bd_modified := False, bd_block_id := bd_block_id s + 1\<rparr>"
  obtain d' where "fill_buf dev ?t = (Inr (), ?t\<lparr>bd_device := d', bd_buf := blocks d (bd_block_id s + 1)\<rparr>)"
    using block_store.fill_eq [OF assms(1), of ?t] fl(2) assms(3) by auto
  with n fl(1) assms(4) show ?thesis
    by (simp add: bd_read_def bd_monad Let_def slice_read_def splice_def)
qed

lemma read_across_sectors_is_short:
  assumes "length (bd_buf s) = BLOCK_SZ" "bd_pos s \<le> BLOCK_SZ" "bd_pos s + length buf > BLOCK_SZ"
  shows "bd_read dev buf s =
    (Inr (length buf, drop (bd_pos s) (bd_buf s) @ drop (BLOCK_SZ - bd_pos s) buf), s\<lparr>bd_pos := BLOCK_SZ\<rparr>)"
  using assms by (simp add: bd_read_def bd_monad Let_def slice_read_def splice_def BLOCK_SZ_def)

section \<open>A device in memory\<close>

text \<open>The driver functions of a disk that is a list of sectors.\<close>

definition ram_read :: "nat \<Rightarrow> u8 list list \<Rightarrow> u8 list option \<times> u8 list list" where
  "ram_read k d = (if k < length d then (Some (d ! k), d) else (None, d))"

definition ram_write :: "nat \<Rightarrow> u8 list \<Rightarrow> u8 list list \<Rightarrow> unit option \<times> u8 list list" where
  "ram_write k bs d = (if k < length d then (Some (), d[k := bs]) else (None, d))"

definition ram_ok :: "nat \<Rightarrow> u8 list list \<Rightarrow> bool" where
  "ram_ok n d \<longleftrightarrow> length d = n \<and> list_all (\<lambda>b. length b = BLOCK_SZ) d"

interpretation ram: block_store "virtio_block ram_read ram_write" n nth "ram_ok n" for n
proof unfold_locales
  fix d :: "u8 list list" and k assume "ram_ok n d" "k < n"
  then show "length (d ! k) = BLOCK_SZ" "\<exists>d'. read_block (virtio_block ram_read ram_write) k d = (Inr (d ! k), d') \<and>
      ram_ok n d' \<and> (!) d' = (!) d"
    by (auto simp: ram_ok_def list_all_length virtio_block_def ram_read_def)
next
  fix d :: "u8 list list" and k and bs :: "u8 list"
  assume "ram_ok n d" "k < n" "length bs = BLOCK_SZ"
  then show "\<exists>d'. write_block (virtio_block ram_read ram_write) k bs d = (Inr (), d') \<and>
      ram_ok n d' \<and> (!) d' = ((!) d)(k := bs)"
    by (auto simp: ram_ok_def list_all_length virtio_block_def ram_write_def nth_list_update fun_eq_iff)
qed

definition demo_blk :: "u8 list list buf_blk_device" where
  "demo_blk = \<lparr>bd_device = replicate 4 (replicate BLOCK_SZ 0), bd_buf = replicate BLOCK_SZ 0,
     bd_pos = 0, bd_block_id = 0, bd_modified = False\<rparr>"

text \<open>C19: Equivalence with an array of bytes. On any device that stores its sectors, every sequence of
  seek-and-transfer requests, each inside one sector and none ending exactly one byte before the end of its sector,
  returns what the same requests return on the array of bytes the client sees, however the requests switch between
  sectors; afterwards the visible content is the array's, and a flush writes all of it to the device.  The requests
  left out are those on which the code differs from an array: \<open>write_to_border_panics\<close> and
  \<open>read_to_border_skips_byte\<close> for the last byte of a sector, \<open>read_across_sectors_is_short\<close> beyond it.\<close>

theorem buffered_device_is_byte_array:
  assumes "block_store dev cap blocks ok" "bd_inv cap blocks ok s" "list_all (op_access cap) xs"
  shows "\<exists>s'. bd_run dev xs s = (Inr (fst (array_run xs (bd_bytes blocks s))), s') \<and>
    bd_bytes blocks s' = snd (array_run xs (bd_bytes blocks s)) \<and>
    (\<exists>s''. bd_flush dev s' = (Inr (), s'') \<and>
       (\<lambda>a. blocks (bd_device s'') (a div BLOCK_SZ) ! (a mod BLOCK_SZ)) = bd_bytes blocks s')"
proof -
  obtain s' where s': "bd_run dev xs s = (Inr (fst (array_run xs (bd_bytes blocks s))), s')"
    "bd_inv cap blocks ok s'" "bd_bytes blocks s' = snd (array_run xs (bd_bytes blocks s))"
    using block_store.run_equiv [OF assms] by blast
  obtain d where "bd_flush dev s' = (Inr (), s'\<lparr>bd_device := d, bd_modified := False\<rparr>)"
    "blocks d = bd_view blocks s'"
    using block_store.flush_eq [OF assms(1) s'(2)] by blast
  with s' show ?thesis by (auto simp: bd_bytes_def fun_eq_iff)
qed

theorem buffered_device_is_byte_array_witness:
  "\<exists>s'. bd_run (virtio_block ram_read ram_write)
      [WriteAt 1022 [7, 9], WriteAt 3 [5], ReadAt 1021 3, ReadAt 3 2] demo_blk = (Inr [[], [], [0, 7, 9], [5, 0]], s')"
proof -
  let ?ops = "[WriteAt 1022 [7, 9], WriteAt 3 [5], ReadAt 1021 3, ReadAt 3 2]"
  have "bd_inv 4 (!) (ram_ok 4) demo_blk" "list_all (op_access 4) ?ops"
    by (simp_all add: bd_inv_def demo_blk_def ram_ok_def list_all_iff op_access_def sector_access_def BLOCK_SZ_def)
  from buffered_device_is_byte_array [OF ram.block_store_axioms this]
  show ?thesis
    by (auto simp: array_op_def bd_bytes_def bd_view_def demo_blk_def BLOCK_SZ_def upt_rec)
qed

end
