(* ===== verification/Kernel_Sdcard.thy ===== *)
theory Kernel_Sdcard
  imports Kernel_Block
begin

text \<open>
  The SD card driver of the K210 board (\<open>kernel/src/drivers/block/sdcard.rs\<close>), which talks to the card over
  SPI. The SPI controller and the card behind it are a dictionary of bus operations on a state \<open>'w\<close>. The
  locale \<open>sd_card\<close> is what the driver needs of a card in SPI mode, in the words of the SD
  specification: how it answers \<open>CMD17\<close> and \<open>CMD24\<close> byte by byte. Under it the driver is a \<open>block_store\<close>,
  the contract the sector buffer of \<open>Kernel_Block\<close> is verified against.
\<close>

section \<open>The bus\<close>

text \<open>Of the nine arguments of \<open>configure\<close> only the last, the transfer mode, ever differs.\<close>

datatype tmod = TRANS | RECV

record 'w spi =
  spi_configure :: "tmod \<Rightarrow> 'w \<Rightarrow> 'w"
  spi_send_data :: "u8 list \<Rightarrow> 'w \<Rightarrow> 'w"
  spi_recv_data :: "nat \<Rightarrow> 'w \<Rightarrow> u8 list \<times> 'w"
  spi_set_clk_rate :: "nat \<Rightarrow> 'w \<Rightarrow> 'w"
  spi_set_output :: "'w \<Rightarrow> 'w"
  spi_set_pin :: "bool \<Rightarrow> 'w \<Rightarrow> 'w"

definition on_bus :: "('w \<Rightarrow> 'w) \<Rightarrow> ('w, unit) st" where
  "on_bus f w = (Inr (), f w)"

definition SD_START_DATA_SINGLE_BLOCK_READ :: u8 where "SD_START_DATA_SINGLE_BLOCK_READ = 0xFE"
definition SD_START_DATA_SINGLE_BLOCK_WRITE :: u8 where "SD_START_DATA_SINGLE_BLOCK_WRITE = 0xFE"
definition SD_START_DATA_MULTIPLE_BLOCK_WRITE :: u8 where "SD_START_DATA_MULTIPLE_BLOCK_WRITE = 0xFC"
definition SEC_LEN :: nat where "SEC_LEN = 512"

datatype sd_cmd =
    CMD0 | CMD8 | CMD9 | CMD10 | CMD12 | CMD16 | CMD17 | CMD18 | ACMD23 | CMD24 | CMD25 | ACMD41 | CMD55 | CMD58 | CMD59

fun cmd_code :: "sd_cmd \<Rightarrow> u8" where
  "cmd_code CMD0 = 0" | "cmd_code CMD8 = 8" | "cmd_code CMD9 = 9" | "cmd_code CMD10 = 10"
| "cmd_code CMD12 = 12" | "cmd_code CMD16 = 16" | "cmd_code CMD17 = 17" | "cmd_code CMD18 = 18"
| "cmd_code ACMD23 = 23" | "cmd_code CMD24 = 24" | "cmd_code CMD25 = 25" | "cmd_code ACMD41 = 41"
| "cmd_code CMD55 = 55" | "cmd_code CMD58 = 58" | "cmd_code CMD59 = 59"

datatype init_error = CMDFailed sd_cmd u8 | CardCapacityStatusNotSet "u8 list" | CannotGetCardInfo

definition CS_HIGH :: "'w spi \<Rightarrow> ('w, unit) st" where
  "CS_HIGH spi = on_bus (spi_set_pin spi True)"

definition CS_LOW :: "'w spi \<Rightarrow> ('w, unit) st" where
  "CS_LOW spi = on_bus (spi_set_pin spi False)"

definition HIGH_SPEED_ENABLE :: "'w spi \<Rightarrow> ('w, unit) st" where
  "HIGH_SPEED_ENABLE spi = on_bus (spi_set_clk_rate spi 10000000)"

definition lowlevel_init :: "'w spi \<Rightarrow> ('w, unit) st" where
  "lowlevel_init spi = sbind (on_bus (spi_set_output spi)) (\<lambda>_. on_bus (spi_set_clk_rate spi 200000))"

definition write_data :: "'w spi \<Rightarrow> u8 list \<Rightarrow> ('w, unit) st" where
  "write_data spi data = sbind (on_bus (spi_configure spi TRANS)) (\<lambda>_. on_bus (spi_send_data spi data))"

definition read_data :: "'w spi \<Rightarrow> nat \<Rightarrow> ('w, u8 list) st" where
  "read_data spi n =
     sbind (on_bus (spi_configure spi RECV)) (\<lambda>_ w. case spi_recv_data spi n w of (bs, w') \<Rightarrow> (Inr bs, w'))"

section \<open>Commands and responses\<close>

definition cmd_frame :: "sd_cmd \<Rightarrow> u32 \<Rightarrow> u8 \<Rightarrow> u8 list" where
  "cmd_frame cmd arg crc =
     [cmd_code cmd OR 0x40, ucast (drop_bit 24 arg), ucast (drop_bit 16 arg AND 0xFF),
      ucast (drop_bit 8 arg AND 0xFF), ucast (arg AND 0xFF), crc]"

definition send_cmd :: "'w spi \<Rightarrow> sd_cmd \<Rightarrow> u32 \<Rightarrow> u8 \<Rightarrow> ('w, unit) st" where
  "send_cmd spi cmd arg crc = sbind (CS_LOW spi) (\<lambda>_. write_data spi (cmd_frame cmd arg crc))"

definition end_cmd :: "'w spi \<Rightarrow> ('w, unit) st" where
  "end_cmd spi = sbind (CS_HIGH spi) (\<lambda>_. write_data spi [0xFF])"

fun response_loop :: "'w spi \<Rightarrow> nat \<Rightarrow> ('w, u8) st" where
  "response_loop spi 0 = sret 0xFF"
| "response_loop spi (Suc timeout) =
     sbind (read_data spi 1) (\<lambda>result.
     if result ! 0 \<noteq> 0xFF then sret (result ! 0) else response_loop spi timeout)"

definition get_response :: "'w spi \<Rightarrow> ('w, u8) st" where
  "get_response spi = response_loop spi 0x0FFF"

text \<open>The card holds the line low while it is busy; nothing bounds the wait, so the loop has fuel.\<close>

fun wait_busy :: "'w spi \<Rightarrow> nat \<Rightarrow> u8 \<Rightarrow> ('w, unit) st" where
  "wait_busy spi fuel b =
     (if b = 0 then
        (case fuel of 0 \<Rightarrow> sfail (Panic NoReturn)
         | Suc fuel' \<Rightarrow> sbind (read_data spi 1) (\<lambda>response. wait_busy spi fuel' (response ! 0)))
      else sret ())"

declare wait_busy.simps [simp del]

definition get_dataresponse :: "'w spi \<Rightarrow> nat \<Rightarrow> ('w, u8) st" where
  "get_dataresponse spi fuel =
     sbind (read_data spi 1) (\<lambda>response.
     if response ! 0 AND 0x1F \<noteq> 0x05 then sret 0xFF
     else
       sbind (read_data spi 1) (\<lambda>response.
       sbind (wait_busy spi fuel (response ! 0)) (\<lambda>_. sret 0)))"

section \<open>Card registers\<close>

record sd_csd =
  CSDStruct :: u8
  SysSpecVersion :: u8
  csd_Reserved1 :: u8
  TAAC :: u8
  NSAC :: u8
  MaxBusClkFrec :: u8
  CardComdClasses :: u16
  RdBlockLen :: u8
  PartBlockRead :: u8
  WrBlockMisalign :: u8
  RdBlockMisalign :: u8
  DSRImpl :: u8
  csd_Reserved2 :: u8
  DeviceSize :: u32
  EraseGrSize :: u8
  EraseGrMul :: u8
  WrProtectGrSize :: u8
  WrProtectGrEnable :: u8
  ManDeflECC :: u8
  WrSpeedFact :: u8
  MaxWrBlockLen :: u8
  WriteBlockPaPartial :: u8
  csd_Reserved3 :: u8
  ContentProtectAppli :: u8
  FileFormatGroup :: u8
  CopyFlag :: u8
  PermWrProtect :: u8
  TempWrProtect :: u8
  FileFormat :: u8
  csd_ECC :: u8
  CSD_CRC :: u8
  csd_Reserved4 :: u8

definition csd_of_bytes :: "u8 list \<Rightarrow> sd_csd" where
  "csd_of_bytes t =
     \<lparr>CSDStruct = drop_bit 6 (t ! 0 AND 0xC0), SysSpecVersion = drop_bit 2 (t ! 0 AND 0x3C),
      csd_Reserved1 = t ! 0 AND 0x03, TAAC = t ! 1, NSAC = t ! 2, MaxBusClkFrec = t ! 3,
      CardComdClasses = push_bit 4 (ucast (t ! 4)) OR drop_bit 4 (ucast (t ! 5) AND 0xF0),
      RdBlockLen = t ! 5 AND 0x0F, PartBlockRead = drop_bit 7 (t ! 6 AND 0x80),
      WrBlockMisalign = drop_bit 6 (t ! 6 AND 0x40), RdBlockMisalign = drop_bit 5 (t ! 6 AND 0x20),
      DSRImpl = drop_bit 4 (t ! 6 AND 0x10), csd_Reserved2 = 0,
      DeviceSize = push_bit 16 (ucast (t ! 7) AND 0x3F) OR push_bit 8 (ucast (t ! 8)) OR ucast (t ! 9),
      EraseGrSize = drop_bit 6 (t ! 10 AND 0x40),
      EraseGrMul = push_bit 1 (t ! 10 AND 0x3F) OR drop_bit 7 (t ! 11 AND 0x80),
      WrProtectGrSize = t ! 11 AND 0x7F, WrProtectGrEnable = drop_bit 7 (t ! 12 AND 0x80),
      ManDeflECC = drop_bit 5 (t ! 12 AND 0x60), WrSpeedFact = drop_bit 2 (t ! 12 AND 0x1C),
      MaxWrBlockLen = push_bit 2 (t ! 12 AND 0x03) OR drop_bit 6 (t ! 13 AND 0xC0),
      WriteBlockPaPartial = drop_bit 5 (t ! 13 AND 0x20), csd_Reserved3 = 0,
      ContentProtectAppli = t ! 13 AND 0x01, FileFormatGroup = drop_bit 7 (t ! 14 AND 0x80),
      CopyFlag = drop_bit 6 (t ! 14 AND 0x40), PermWrProtect = drop_bit 5 (t ! 14 AND 0x20),
      TempWrProtect = drop_bit 4 (t ! 14 AND 0x10), FileFormat = drop_bit 2 (t ! 14 AND 0x0C),
      csd_ECC = t ! 14 AND 0x03, CSD_CRC = drop_bit 1 (t ! 15 AND 0xFE), csd_Reserved4 = 1\<rparr>"

record sd_cid =
  ManufacturerID :: u8
  OEM_AppliID :: u16
  ProdName1 :: u32
  ProdName2 :: u8
  ProdRev :: u8
  ProdSN :: u32
  cid_Reserved1 :: u8
  ManufactDate :: u16
  CID_CRC :: u8
  cid_Reserved2 :: u8

definition cid_of_bytes :: "u8 list \<Rightarrow> sd_cid" where
  "cid_of_bytes t =
     \<lparr>ManufacturerID = t ! 0, OEM_AppliID = push_bit 8 (ucast (t ! 1)) OR ucast (t ! 2),
      ProdName1 = push_bit 24 (ucast (t ! 3)) OR push_bit 16 (ucast (t ! 4)) OR push_bit 8 (ucast (t ! 5)) OR ucast (t ! 6),
      ProdName2 = t ! 7, ProdRev = t ! 8,
      ProdSN = push_bit 24 (ucast (t ! 9)) OR push_bit 16 (ucast (t ! 10)) OR push_bit 8 (ucast (t ! 11)) OR ucast (t ! 12),
      cid_Reserved1 = drop_bit 4 (t ! 13 AND 0xF0),
      ManufactDate = push_bit 8 (ucast (t ! 13) AND 0x0F) OR ucast (t ! 14),
      CID_CRC = drop_bit 1 (t ! 15 AND 0xFE), cid_Reserved2 = 1\<rparr>"

text \<open>A register is read as a block of 16 bytes and two of CRC. \<open>None\<close> is \<open>Err(())\<close>.\<close>

definition read_register :: "'w spi \<Rightarrow> sd_cmd \<Rightarrow> ('w, u8 list option) st" where
  "read_register spi cmd =
     sbind (send_cmd spi cmd 0 0) (\<lambda>_.
     sbind (get_response spi) (\<lambda>r.
     if r \<noteq> 0x00 then sbind (end_cmd spi) (\<lambda>_. sret None)
     else
       sbind (get_response spi) (\<lambda>r.
       if r \<noteq> SD_START_DATA_SINGLE_BLOCK_READ then sbind (end_cmd spi) (\<lambda>_. sret None)
       else
         sbind (read_data spi 18) (\<lambda>tab.
         sbind (end_cmd spi) (\<lambda>_. sret (Some tab))))))"

definition get_csdregister :: "'w spi \<Rightarrow> ('w, sd_csd option) st" where
  "get_csdregister spi = sbind (read_register spi CMD9) (\<lambda>r. sret (map_option csd_of_bytes r))"

definition get_cidregister :: "'w spi \<Rightarrow> ('w, sd_cid option) st" where
  "get_cidregister spi = sbind (read_register spi CMD10) (\<lambda>r. sret (map_option cid_of_bytes r))"

record sd_card_info =
  SD_csd :: sd_csd
  SD_cid :: sd_cid
  CardCapacity :: u64
  CardBlockSize :: u64

text \<open>The multiplications of the capacity are checked; \<open>1 << n\<close> panics for \<open>n\<close> beyond the width.\<close>

definition card_block_size :: "sd_csd \<Rightarrow> u64 res" where
  "card_block_size csd =
     (if unat (RdBlockLen csd) < 64 then Inr (push_bit (unat (RdBlockLen csd)) 1) else Inl (Panic Overflow))"

definition card_capacity :: "sd_csd \<Rightarrow> u64 res" where
  "card_capacity csd =
     rbind (card_block_size csd) (\<lambda>bs.
     rbind (cadd (ucast (DeviceSize csd)) 1) (\<lambda>n.
     rbind (cmul n 1024) (\<lambda>n.
     cmul n bs)))"

definition get_cardinfo :: "'w spi \<Rightarrow> ('w, sd_card_info option) st" where
  "get_cardinfo spi =
     sbind (get_csdregister spi) (\<lambda>r. case r of None \<Rightarrow> sret None | Some csd \<Rightarrow>
     sbind (get_cidregister spi) (\<lambda>r. case r of None \<Rightarrow> sret None | Some cid \<Rightarrow>
     sbind (slift (card_block_size csd)) (\<lambda>bs.
     sbind (slift (card_capacity csd)) (\<lambda>cap.
     sret (Some \<lparr>SD_csd = csd, SD_cid = cid, CardCapacity = cap, CardBlockSize = bs\<rparr>)))))"

section \<open>Initialization\<close>

text \<open>The two loops of \<open>init\<close> count down from 255; the result is \<open>True\<close> when the loop was left by its
  \<open>break\<close>. A failed \<open>CMD55\<close> returns at once.\<close>

fun acmd41_loop :: "'w spi \<Rightarrow> nat \<Rightarrow> ('w, init_error + bool) st" where
  "acmd41_loop spi 0 = sret (Inr False)"
| "acmd41_loop spi (Suc index) =
     sbind (send_cmd spi CMD55 0 0) (\<lambda>_.
     sbind (get_response spi) (\<lambda>result.
     sbind (end_cmd spi) (\<lambda>_.
     if result \<noteq> 0x01 then sret (Inl (CMDFailed CMD55 result))
     else
       sbind (send_cmd spi ACMD41 0x40000000 0) (\<lambda>_.
       sbind (get_response spi) (\<lambda>result.
       sbind (end_cmd spi) (\<lambda>_.
       if result = 0x00 then sret (Inr True) else acmd41_loop spi index))))))"

fun ocr_loop :: "'w spi \<Rightarrow> nat \<Rightarrow> u8 list \<Rightarrow> ('w, bool \<times> u8 list) st" where
  "ocr_loop spi 0 frame = sret (False, frame)"
| "ocr_loop spi (Suc index) frame =
     sbind (send_cmd spi CMD58 0 1) (\<lambda>_.
     sbind (get_response spi) (\<lambda>result.
     sbind (read_data spi 4) (\<lambda>frame.
     sbind (end_cmd spi) (\<lambda>_.
     if result = 0 then sret (True, frame) else ocr_loop spi index frame))))"

text \<open>The errors for \<open>ACMD41\<close> and \<open>CMD58\<close> carry the response to \<open>CMD8\<close>, the last \<open>result\<close> in scope.\<close>

definition sd_init :: "'w spi \<Rightarrow> ('w, init_error + sd_card_info) st" where
  "sd_init spi =
     sbind (lowlevel_init spi) (\<lambda>_.
     sbind (CS_HIGH spi) (\<lambda>_.
     sbind (write_data spi (replicate 10 0xFF)) (\<lambda>_.
     sbind (send_cmd spi CMD0 0 0x95) (\<lambda>_.
     sbind (get_response spi) (\<lambda>result.
     sbind (end_cmd spi) (\<lambda>_.
     if result \<noteq> 0x01 then sret (Inl (CMDFailed CMD0 result))
     else
       sbind (send_cmd spi CMD8 0x01AA 0x87) (\<lambda>_.
       sbind (get_response spi) (\<lambda>result.
       sbind (read_data spi 4) (\<lambda>frame.
       sbind (end_cmd spi) (\<lambda>_.
       if result \<noteq> 0x01 then sret (Inl (CMDFailed CMD8 result))
       else
         sbind (acmd41_loop spi 255) (\<lambda>r. case r of
           Inl e \<Rightarrow> sret (Inl e)
         | Inr False \<Rightarrow> sret (Inl (CMDFailed ACMD41 result))
         | Inr True \<Rightarrow>
             sbind (ocr_loop spi 255 (replicate 4 0)) (\<lambda>(ok, frame).
             if \<not> ok then sret (Inl (CMDFailed CMD58 result))
             else if frame ! 0 AND 0x40 = 0 then sret (Inl (CardCapacityStatusNotSet frame))
             else
               sbind (HIGH_SPEED_ENABLE spi) (\<lambda>_.
               sbind (get_cardinfo spi) (\<lambda>i. case i of
                 None \<Rightarrow> sret (Inl CannotGetCardInfo)
               | Some info \<Rightarrow> sret (Inr info)))))))))))))))"

definition init_sdcard :: "'w spi \<Rightarrow> ('w, unit) st" where
  "init_sdcard spi =
     sbind (sd_init spi) (\<lambda>r. case r of
       Inl e \<Rightarrow> sfail (Panic UnwrapNone)
     | Inr info \<Rightarrow> slift (rguard (CardCapacity info div 512 > 0) (Panic Assertion)))"

section \<open>Sectors\<close>

fun read_chunks :: "'w spi \<Rightarrow> nat \<Rightarrow> ('w, u8 list option) st" where
  "read_chunks spi 0 = sret (Some [])"
| "read_chunks spi (Suc n) =
     sbind (get_response spi) (\<lambda>r.
     if r \<noteq> SD_START_DATA_SINGLE_BLOCK_READ then sret None
     else
       sbind (read_data spi SEC_LEN) (\<lambda>chunk.
       sbind (read_data spi 2) (\<lambda>_.
       sbind (read_chunks spi n) (\<lambda>rest. sret (map_option (\<lambda>bs. chunk @ bs) rest)))))"

text \<open>\<open>read_sector\<close> fills a buffer of \<open>len\<close> bytes.\<close>

definition read_sector :: "'w spi \<Rightarrow> nat \<Rightarrow> u32 \<Rightarrow> ('w, u8 list option) st" where
  "read_sector spi len sector =
     sbind (slift (rguard (len \<ge> SEC_LEN \<and> len mod SEC_LEN = 0) (Panic Assertion))) (\<lambda>_.
     let flag = (len \<noteq> SEC_LEN) in
     sbind (send_cmd spi (if flag then CMD18 else CMD17) sector 0) (\<lambda>_.
     sbind (get_response spi) (\<lambda>r.
     if r \<noteq> 0x00 then sbind (end_cmd spi) (\<lambda>_. sret None)
     else
       sbind (read_chunks spi (len div SEC_LEN)) (\<lambda>data.
       sbind (end_cmd spi) (\<lambda>_.
       sbind (if flag then
                sbind (send_cmd spi CMD12 0 0) (\<lambda>_.
                sbind (get_response spi) (\<lambda>_.
                sbind (end_cmd spi) (\<lambda>_. end_cmd spi)))
              else sret ()) (\<lambda>_.
       sret data))))))"

fun write_chunks :: "'w spi \<Rightarrow> nat \<Rightarrow> u8 list \<Rightarrow> u8 list list \<Rightarrow> ('w, unit option) st" where
  "write_chunks spi fuel frame [] = sbind (end_cmd spi) (\<lambda>_. sbind (end_cmd spi) (\<lambda>_. sret (Some ())))"
| "write_chunks spi fuel frame (c # cs) =
     sbind (write_data spi frame) (\<lambda>_.
     sbind (write_data spi c) (\<lambda>_.
     sbind (write_data spi [0xFF, 0xFF]) (\<lambda>_.
     sbind (get_dataresponse spi fuel) (\<lambda>r.
     if r \<noteq> 0x00 then sbind (end_cmd spi) (\<lambda>_. sret None)
     else write_chunks spi fuel frame cs))))"

definition chunks :: "nat \<Rightarrow> 'a list \<Rightarrow> 'a list list" where
  "chunks n xs = map (\<lambda>i. window (i * n) n xs) [0..<length xs div n]"

definition write_sector :: "'w spi \<Rightarrow> nat \<Rightarrow> u8 list \<Rightarrow> u32 \<Rightarrow> ('w, unit option) st" where
  "write_sector spi fuel data sector =
     sbind (slift (rguard (length data \<ge> SEC_LEN \<and> length data mod SEC_LEN = 0) (Panic Assertion))) (\<lambda>_.
     sbind (if length data = SEC_LEN then
              sbind (send_cmd spi CMD24 sector 0) (\<lambda>_. sret [0xFF, SD_START_DATA_SINGLE_BLOCK_WRITE])
            else
              sbind (slift (rguard (length data div SEC_LEN < 2 ^ 32) (Panic UnwrapNone))) (\<lambda>_.
              sbind (send_cmd spi ACMD23 (of_nat (length data div SEC_LEN)) 0) (\<lambda>_.
              sbind (get_response spi) (\<lambda>_.
              sbind (end_cmd spi) (\<lambda>_.
              sbind (send_cmd spi CMD25 sector 0) (\<lambda>_. sret [0xFF, SD_START_DATA_MULTIPLE_BLOCK_WRITE])))))) (\<lambda>frame.
     sbind (get_response spi) (\<lambda>r.
     if r \<noteq> 0x00 then sbind (end_cmd spi) (\<lambda>_. sret None)
     else write_chunks spi fuel frame (chunks SEC_LEN data))))"

text \<open>\<open>SDCardWrapper\<close>. The number of the block is cut to 32 bits.\<close>

definition sd_block_device :: "'w spi \<Rightarrow> nat \<Rightarrow> 'w block_device" where
  "sd_block_device spi fuel =
     \<lparr>read_block = (\<lambda>block_id. sbind (read_sector spi BLOCK_SZ (of_nat block_id)) (\<lambda>r. slift (runwrap r))),
      write_block = (\<lambda>block_id buf. sbind (write_sector spi fuel buf (of_nat block_id)) (\<lambda>r. slift (runwrap r)))\<rparr>"

section \<open>A card in SPI mode\<close>

text \<open>What the driver does to the bus in one go: sending, receiving, a command with the card selected, and
  the deselection behind it.\<close>

definition bus_send :: "'w spi \<Rightarrow> u8 list \<Rightarrow> 'w \<Rightarrow> 'w" where
  "bus_send spi bs w = spi_send_data spi bs (spi_configure spi TRANS w)"

definition bus_recv :: "'w spi \<Rightarrow> nat \<Rightarrow> 'w \<Rightarrow> u8 list \<times> 'w" where
  "bus_recv spi n w = spi_recv_data spi n (spi_configure spi RECV w)"

definition bus_cmd :: "'w spi \<Rightarrow> sd_cmd \<Rightarrow> u32 \<Rightarrow> u8 \<Rightarrow> 'w \<Rightarrow> 'w" where
  "bus_cmd spi cmd arg crc w = bus_send spi (cmd_frame cmd arg crc) (spi_set_pin spi False w)"

definition bus_end :: "'w spi \<Rightarrow> 'w \<Rightarrow> 'w" where
  "bus_end spi w = bus_send spi [0xFF] (spi_set_pin spi True w)"

lemma write_data_eq: "write_data spi bs w = (Inr (), bus_send spi bs w)"
  by (simp add: write_data_def sbind_def on_bus_def bus_send_def)

lemma read_data_eq: "read_data spi n w = (case bus_recv spi n w of (bs, w') \<Rightarrow> (Inr bs, w'))"
  by (simp add: read_data_def sbind_def on_bus_def bus_recv_def)

lemma send_cmd_eq: "send_cmd spi cmd arg crc w = (Inr (), bus_cmd spi cmd arg crc w)"
  by (simp add: send_cmd_def sbind_def CS_LOW_def on_bus_def write_data_eq bus_cmd_def)

lemma end_cmd_eq: "end_cmd spi w = (Inr (), bus_end spi w)"
  by (simp add: end_cmd_def sbind_def CS_HIGH_def on_bus_def write_data_eq bus_end_def)

lemma wp_write_data [simp]: "wp (write_data spi bs) Q E w = Q () (bus_send spi bs w)"
  by (simp add: wp_def write_data_eq)

lemma wp_send_cmd [simp]: "wp (send_cmd spi cmd arg crc) Q E w = Q () (bus_cmd spi cmd arg crc w)"
  by (simp add: wp_def send_cmd_eq)

lemma wp_end_cmd [simp]: "wp (end_cmd spi) Q E w = Q () (bus_end spi w)"
  by (simp add: wp_def end_cmd_eq)

text \<open>
  \<open>out w\<close>: the bytes the selected card is going to shift out. \<open>target w = Some k\<close>: the card has accepted \<open>CMD24\<close>
  for the block \<open>k\<close> and waits for the data. A response comes within the 4095 bytes the driver waits for, a write
  keeps the card busy for at most \<open>fuel\<close> bytes, and the block numbers fit the argument of a command.
\<close>

locale sd_card =
  fixes spi :: "'w spi" and cap fuel :: nat and blocks :: "'w \<Rightarrow> nat \<Rightarrow> u8 list" and ready :: "'w \<Rightarrow> bool"
    and out :: "'w \<Rightarrow> u8 list" and target :: "'w \<Rightarrow> nat option"
  assumes sector_length: "ready w \<Longrightarrow> k < cap \<Longrightarrow> length (blocks w k) = SEC_LEN"
    and shift_out: "n \<le> length (out w) \<Longrightarrow>
      \<exists>w'. bus_recv spi n w = (take n (out w), w') \<and> out w' = drop n (out w) \<and> blocks w' = blocks w \<and> target w' = target w"
    and read_single_block: "ready w \<Longrightarrow> k < cap \<Longrightarrow> w' = bus_cmd spi CMD17 (of_nat k) 0 w \<Longrightarrow>
      \<exists>a b crc. out w' = replicate a 0xFF @ [0] @ replicate b 0xFF @ [SD_START_DATA_SINGLE_BLOCK_READ] @ blocks w k @ crc \<and>
        a < 0x0FFF \<and> b < 0x0FFF \<and> length crc = 2 \<and> blocks w' = blocks w \<and> target w' = None"
    and write_single_block: "ready w \<Longrightarrow> k < cap \<Longrightarrow> w' = bus_cmd spi CMD24 (of_nat k) 0 w \<Longrightarrow>
      \<exists>a. out w' = replicate a 0xFF @ [0] \<and> a < 0x0FFF \<and> blocks w' = blocks w \<and> target w' = Some k"
    and write_data_block: "target w = Some k \<Longrightarrow> out w = [] \<Longrightarrow> length bs = SEC_LEN \<Longrightarrow>
      w' = bus_send spi [0xFF, 0xFF] (bus_send spi bs (bus_send spi [0xFF, SD_START_DATA_SINGLE_BLOCK_WRITE] w)) \<Longrightarrow>
      \<exists>resp c x. out w' = resp # replicate c 0 @ [x] \<and> resp AND 0x1F = 0x05 \<and> x \<noteq> 0 \<and> c \<le> fuel \<and>
        blocks w' = (blocks w)(k := bs) \<and> target w' = None"
    and deselect: "out w = [] \<Longrightarrow> target w = None \<Longrightarrow> ready (bus_end spi w) \<and> blocks (bus_end spi w) = blocks w"
    and ready_idle: "ready w \<Longrightarrow> out w = [] \<and> target w = None"
begin

lemma wp_read_data:
  assumes "n \<le> length (out w)"
    "\<And>w'. out w' = drop n (out w) \<Longrightarrow> blocks w' = blocks w \<Longrightarrow> target w' = target w \<Longrightarrow> Q (take n (out w)) w'"
  shows "wp (read_data spi n) Q E w"
  using shift_out [OF assms(1)] assms(2) by (auto simp: wp_def read_data_eq)

lemma wp_response:
  assumes "out w = replicate a 0xFF @ r # rest" "r \<noteq> 0xFF" "a < t"
    "\<And>w'. out w' = rest \<Longrightarrow> blocks w' = blocks w \<Longrightarrow> target w' = target w \<Longrightarrow> Q r w'"
  shows "wp (response_loop spi t) Q E w"
  using assms
proof (induction a arbitrary: t w)
  case 0
  then obtain u where t: "t = Suc u" by (cases t) auto
  show ?case unfolding t response_loop.simps wp_sbind
    by (rule wp_read_data) (use 0 in auto)
next
  case (Suc a)
  then obtain u where t: "t = Suc u" by (cases t) auto
  show ?case unfolding t response_loop.simps wp_sbind
  proof (rule wp_read_data)
    fix w' assume w': "out w' = drop 1 (out w)" "blocks w' = blocks w" "target w' = target w"
    have "wp (response_loop spi u) Q E w'" by (rule Suc.IH) (use Suc.prems w' t in auto)
    then show "wp (if take 1 (out w) ! 0 \<noteq> 0xFF then sret (take 1 (out w) ! 0) else response_loop spi u) Q E w'"
      using Suc.prems(1) by simp
  qed (use Suc.prems(1) in simp)
qed

lemmas wp_get_response = wp_response [where t = "0x0FFF", folded get_response_def]

lemma wp_wait_busy:
  assumes "out w = replicate c 0 @ [x]" "x \<noteq> 0" "c < m"
    "\<And>w'. out w' = [] \<Longrightarrow> blocks w' = blocks w \<Longrightarrow> target w' = target w \<Longrightarrow> Q () w'"
  shows "wp (wait_busy spi m 0) Q E w"
  using assms
proof (induction c arbitrary: m w)
  case 0
  then obtain u where m: "m = Suc u" by (cases m) auto
  show ?case unfolding m wait_busy.simps [of spi "Suc u"] if_P [OF refl] nat.case wp_sbind
    by (rule wp_read_data) (use 0 in \<open>auto simp: wait_busy.simps [of _ _ x]\<close>)
next
  case (Suc c)
  then obtain u where m: "m = Suc u" by (cases m) auto
  show ?case unfolding m wait_busy.simps [of spi "Suc u"] if_P [OF refl] nat.case wp_sbind
  proof (rule wp_read_data)
    fix w' assume w': "out w' = drop 1 (out w)" "blocks w' = blocks w" "target w' = target w"
    have "wp (wait_busy spi u 0) Q E w'" by (rule Suc.IH) (use Suc.prems w' m in auto)
    then show "wp (wait_busy spi u (take 1 (out w) ! 0)) Q E w'" using Suc.prems(1) by simp
  qed (use Suc.prems(1) in simp)
qed

lemma wp_get_dataresponse:
  assumes "out w = resp # replicate c 0 @ [x]" "resp AND 0x1F = 0x05" "x \<noteq> 0" "c \<le> m"
    "\<And>w'. out w' = [] \<Longrightarrow> blocks w' = blocks w \<Longrightarrow> target w' = target w \<Longrightarrow> Q 0 w'"
  shows "wp (get_dataresponse spi m) Q E w"
  unfolding get_dataresponse_def wp_sbind
proof (rule wp_read_data)
  fix w1 assume w1: "out w1 = drop 1 (out w)" "blocks w1 = blocks w" "target w1 = target w"
  have busy: "wp (sbind (wait_busy spi m (take 1 (out w1) ! 0)) (\<lambda>_. sret 0)) Q E w2"
    if w2: "out w2 = drop 1 (out w1)" "blocks w2 = blocks w1" "target w2 = target w1" for w2
  proof (cases c)
    case 0
    then show ?thesis using assms w1 w2 by (simp add: wait_busy.simps)
  next
    case (Suc c')
    then have "take 1 (out w1) ! 0 = 0" using assms(1) w1 by simp
    moreover have "wp (wait_busy spi m 0) (\<lambda>_. wp (sret 0) Q E) E w2"
      by (rule wp_wait_busy [of _ c' x]) (use assms w1 w2 Suc in auto)
    ultimately show ?thesis by simp
  qed
  have "wp (read_data spi 1) (\<lambda>response. wp (sbind (wait_busy spi m (response ! 0)) (\<lambda>_. sret 0)) Q E) E w1"
    by (rule wp_read_data) (use assms(1) w1 busy in auto)
  then show "wp (if take 1 (out w) ! 0 AND 0x1F \<noteq> 0x05 then sret 0xFF
      else sbind (read_data spi 1) (\<lambda>response. sbind (wait_busy spi m (response ! 0)) (\<lambda>_. sret 0))) Q E w1"
    using assms(1,2) by simp
qed (use assms(1) in simp)

lemma wp_read_sector:
  assumes w: "ready w" and k: "k < cap"
    and Q: "\<And>w'. ready w' \<Longrightarrow> blocks w' = blocks w \<Longrightarrow> Q (Some (blocks w k)) w'"
  shows "wp (read_sector spi SEC_LEN (of_nat k)) Q E w"
proof -
  let ?w1 = "bus_cmd spi CMD17 (of_nat k) 0 w" and ?d = "blocks w k"
  obtain a b crc where w1: "out ?w1 = replicate a 0xFF @ 0 # replicate b 0xFF @ SD_START_DATA_SINGLE_BLOCK_READ # ?d @ crc"
    "a < 0x0FFF" "b < 0x0FFF" "length crc = 2" "blocks ?w1 = blocks w" "target ?w1 = None"
    using read_single_block [OF w k refl] by auto
  have d: "length ?d = SEC_LEN" by (rule sector_length [OF w k])
  let ?done = "\<lambda>w'. out w' = [] \<and> blocks w' = blocks w \<and> target w' = None"
  have chunk: "wp (read_chunks spi 1) (\<lambda>r w'. r = Some ?d \<and> ?done w') E w2"
    if w2: "out w2 = replicate b 0xFF @ SD_START_DATA_SINGLE_BLOCK_READ # ?d @ crc" "blocks w2 = blocks w" "target w2 = None" for w2
    unfolding One_nat_def read_chunks.simps wp_sbind
  proof (rule wp_get_response [OF w2(1) _ w1(3)])
    fix w3 assume w3: "out w3 = ?d @ crc" "blocks w3 = blocks w2" "target w3 = target w2"
    have "wp (read_data spi SEC_LEN) (\<lambda>chunk. wp (sbind (read_data spi 2) (\<lambda>_. sret (Some chunk)))
        (\<lambda>r w'. r = Some ?d \<and> ?done w') E) E w3"
      by (rule wp_read_data, simp add: w3 d, unfold wp_sbind, rule wp_read_data) (use w1(4) w2 w3 d in auto)
    then show "wp (if SD_START_DATA_SINGLE_BLOCK_READ \<noteq> SD_START_DATA_SINGLE_BLOCK_READ then sret None
        else sbind (read_data spi SEC_LEN) (\<lambda>chunk. sbind (read_data spi 2) (\<lambda>_. sbind (sret (Some []))
          (\<lambda>rest. sret (map_option (\<lambda>bs. chunk @ bs) rest))))) (\<lambda>r w'. r = Some ?d \<and> ?done w') E w3"
      by simp
  qed (simp add: SD_START_DATA_SINGLE_BLOCK_READ_def)
  have body: "wp (sbind (read_chunks spi 1) (\<lambda>data. sbind (end_cmd spi) (\<lambda>_. sret data))) Q E w2"
    if w2: "out w2 = replicate b 0xFF @ SD_START_DATA_SINGLE_BLOCK_READ # ?d @ crc" "blocks w2 = blocks w" "target w2 = None" for w2
    unfolding wp_sbind [of "read_chunks _ _"]
    by (rule wp_mono [OF chunk [OF w2]]) (use deselect Q in auto)
  have "wp (get_response spi) (\<lambda>r. wp (if r \<noteq> 0 then sbind (end_cmd spi) (\<lambda>_. sret None)
      else sbind (read_chunks spi 1) (\<lambda>data. sbind (end_cmd spi) (\<lambda>_. sret data))) Q E) E ?w1"
    by (rule wp_get_response [OF w1(1) _ w1(2)]) (use body w1(5,6) in \<open>simp_all del: wp_sbind read_chunks.simps\<close>)
  then show ?thesis by (simp add: read_sector_def SEC_LEN_def del: read_chunks.simps cong: if_cong)
qed

lemma wp_write_sector:
  assumes w: "ready w" and k: "k < cap" and bs: "length bs = SEC_LEN"
    and Q: "\<And>w'. ready w' \<Longrightarrow> blocks w' = (blocks w)(k := bs) \<Longrightarrow> Q (Some ()) w'"
  shows "wp (write_sector spi fuel bs (of_nat k)) Q E w"
proof -
  let ?w1 = "bus_cmd spi CMD24 (of_nat k) 0 w" and ?frame = "[0xFF, SD_START_DATA_SINGLE_BLOCK_WRITE]"
  obtain a where w1: "out ?w1 = replicate a 0xFF @ [0]" "a < 0x0FFF" "blocks ?w1 = blocks w" "target ?w1 = Some k"
    using write_single_block [OF w k refl] by auto
  have twice: "ready (bus_end spi (bus_end spi w'))" "blocks (bus_end spi (bus_end spi w')) = blocks w'"
    if "out w' = []" "target w' = None" for w'
    using deselect [OF that] deselect [of "bus_end spi w'"] ready_idle [of "bus_end spi w'"] by auto
  have chunk: "wp (write_chunks spi fuel ?frame [bs]) Q E w2"
    if w2: "out w2 = []" "blocks w2 = blocks w" "target w2 = Some k" for w2
  proof -
    let ?w3 = "bus_send spi [0xFF, 0xFF] (bus_send spi bs (bus_send spi ?frame w2))"
    obtain resp c x where w3: "out ?w3 = resp # replicate c 0 @ [x]" "resp AND 0x1F = 0x05" "x \<noteq> 0" "c \<le> fuel"
      "blocks ?w3 = (blocks w)(k := bs)" "target ?w3 = None"
      using write_data_block [OF w2(3,1) bs refl] w2(2) by auto
    have "wp (get_dataresponse spi fuel) (\<lambda>r. wp (if r \<noteq> 0 then sbind (end_cmd spi) (\<lambda>_. sret None)
        else write_chunks spi fuel ?frame []) Q E) E ?w3"
      by (rule wp_get_dataresponse [OF w3(1-4)]) (simp add: Q twice w3)
    then show ?thesis by simp
  qed
  have c: "chunks SEC_LEN bs = [bs]" using bs by (simp add: chunks_def window_def SEC_LEN_def)
  have "wp (get_response spi) (\<lambda>r. wp (if r \<noteq> 0 then sbind (end_cmd spi) (\<lambda>_. sret None)
      else write_chunks spi fuel ?frame [bs]) Q E) E ?w1"
    by (rule wp_get_response [of ?w1 a 0 "[]"]) (use w1 chunk in \<open>auto simp del: write_chunks.simps\<close>)
  with bs show ?thesis unfolding write_sector_def c by (simp del: write_chunks.simps)
qed

end

sublocale sd_card \<subseteq> store: block_store "sd_block_device spi fuel" cap blocks ready
proof unfold_locales
  fix d k assume d: "ready d" "k < cap"
  show "length (blocks d k) = BLOCK_SZ" using sector_length [OF d] by (simp add: SEC_LEN_def BLOCK_SZ_def)
  have "wp (read_block (sd_block_device spi fuel) k) (\<lambda>r d'. r = blocks d k \<and> ready d' \<and> blocks d' = blocks d) no_err d"
    by (simp add: sd_block_device_def BLOCK_SZ_def SEC_LEN_def [symmetric])
      (rule wp_read_sector [OF d], simp)
  then show "\<exists>d'. read_block (sd_block_device spi fuel) k d = (Inr (blocks d k), d') \<and> ready d' \<and> blocks d' = blocks d"
    by (auto simp: wp_no_err_iff)
next
  fix d k and bs :: "u8 list" assume d: "ready d" "k < cap" "length bs = BLOCK_SZ"
  have "wp (write_block (sd_block_device spi fuel) k bs) (\<lambda>_ d'. ready d' \<and> blocks d' = (blocks d)(k := bs)) no_err d"
    using d(3) by (simp add: sd_block_device_def) (rule wp_write_sector [OF d(1,2)], simp_all add: BLOCK_SZ_def SEC_LEN_def)
  then show "\<exists>d'. write_block (sd_block_device spi fuel) k bs d = (Inr (), d') \<and> ready d' \<and> blocks d' = (blocks d)(k := bs)"
    by (auto simp: wp_no_err_iff)
qed

context sd_card
begin

lemma write_then_read:
  assumes "ready w" "k < cap" "j < cap" "length bs = BLOCK_SZ"
  shows "\<exists>w1 w2. write_block (sd_block_device spi fuel) k bs w = (Inr (), w1) \<and>
    read_block (sd_block_device spi fuel) j w1 = (Inr (if j = k then bs else blocks w j), w2) \<and>
    ready w2 \<and> blocks w2 = (blocks w)(k := bs)"
proof -
  obtain w1 where w1: "write_block (sd_block_device spi fuel) k bs w = (Inr (), w1)" "ready w1" "blocks w1 = (blocks w)(k := bs)"
    using store.write_law [OF assms(1,2,4)] by blast
  obtain w2 where "read_block (sd_block_device spi fuel) j w1 = (Inr (blocks w1 j), w2)" "ready w2" "blocks w2 = blocks w1"
    using store.read_law [OF w1(2) assms(3)] by blast
  with w1 show ?thesis by auto
qed

end

section \<open>A reference card\<close>

text \<open>A card in SPI mode that knows the two commands and answers them with the least delay.\<close>

datatype card_phase = Command "u8 list" | AwaitToken nat | Receive nat "u8 list"

record ref_card =
  rc_blocks :: "nat \<Rightarrow> u8 list"
  rc_out :: "u8 list"
  rc_phase :: card_phase
  rc_selected :: bool

definition rc_sector :: "ref_card \<Rightarrow> nat \<Rightarrow> u8 list" where
  "rc_sector c k = take SEC_LEN (rc_blocks c k @ replicate SEC_LEN 0)"

definition be_arg :: "u8 list \<Rightarrow> nat" where
  "be_arg f = unat (f ! 1) * 2 ^ 24 + unat (f ! 2) * 2 ^ 16 + unat (f ! 3) * 2 ^ 8 + unat (f ! 4)"

definition rc_command :: "u8 list \<Rightarrow> ref_card \<Rightarrow> ref_card" where
  "rc_command f c =
     (if f ! 0 = 0x51 then
        c\<lparr>rc_phase := Command [], rc_out := [0xFF, 0, 0xFF, 0xFE] @ rc_sector c (be_arg f) @ [0, 0]\<rparr>
      else if f ! 0 = 0x58 then c\<lparr>rc_phase := AwaitToken (be_arg f), rc_out := [0xFF, 0]\<rparr>
      else c\<lparr>rc_phase := Command [], rc_out := [0xFF, 0x04]\<rparr>)"

definition rc_byte :: "u8 \<Rightarrow> ref_card \<Rightarrow> ref_card" where
  "rc_byte b c =
     (if \<not> rc_selected c then c
      else case rc_phase c of
        Command f \<Rightarrow>
          if f = [] \<and> b = 0xFF then c
          else if length f = 5 then rc_command (f @ [b]) c
          else c\<lparr>rc_phase := Command (f @ [b])\<rparr>
      | AwaitToken k \<Rightarrow> if b = 0xFE then c\<lparr>rc_phase := Receive k []\<rparr> else c
      | Receive k bs \<Rightarrow>
          if length bs = SEC_LEN + 1
          then c\<lparr>rc_blocks := (rc_blocks c)(k := take SEC_LEN bs), rc_phase := Command [], rc_out := [0xE5, 0, 0xFF]\<rparr>
          else c\<lparr>rc_phase := Receive k (bs @ [b])\<rparr>)"

definition rc_spi :: "ref_card spi" where
  "rc_spi =
     \<lparr>spi_configure = (\<lambda>t c. c), spi_send_data = fold rc_byte,
      spi_recv_data = (\<lambda>n c. (take n (rc_out c @ replicate n 0xFF), c\<lparr>rc_out := drop n (rc_out c)\<rparr>)),
      spi_set_clk_rate = (\<lambda>r c. c), spi_set_output = (\<lambda>c. c),
      spi_set_pin = (\<lambda>high c. if high then c\<lparr>rc_selected := False, rc_phase := Command [], rc_out := []\<rparr>
                              else c\<lparr>rc_selected := True\<rparr>)\<rparr>"

definition rc_ready :: "ref_card \<Rightarrow> bool" where
  "rc_ready c \<longleftrightarrow> rc_phase c = Command [] \<and> rc_out c = []"

definition rc_target :: "ref_card \<Rightarrow> nat option" where
  "rc_target c = (case rc_phase c of AwaitToken k \<Rightarrow> if rc_selected c then Some k else None | _ \<Rightarrow> None)"

lemma be_arg_frame:
  assumes "k < 2 ^ 32"
  shows "be_arg (cmd_frame cmd (of_nat k) crc) = k"
proof -
  have m: "(0xFF :: u32) = mask 8" by (simp add: mask_eq_exp_minus_1)
  have k: "unat (of_nat k :: u32) = k" using assms by (simp add: unat_of_nat)
  have "be_arg (cmd_frame cmd (of_nat k) crc) =
      k div 2 ^ 24 mod 256 * 2 ^ 24 + k div 2 ^ 16 mod 256 * 2 ^ 16 + k div 2 ^ 8 mod 256 * 2 ^ 8 + k mod 256"
    unfolding be_arg_def cmd_frame_def m
    by (simp add: unat_ucast unat_and_mask unat_drop_bit k del: mask_numeral)
  also have "\<dots> = k"
  proof -
    have e: "k div 16777216 mod 256 = k div 16777216" using assms by (simp add: less_mult_imp_div_less)
    have "k div 65536 = k div 16777216 * 256 + k div 65536 mod 256" "k div 256 = k div 65536 * 256 + k div 256 mod 256"
      using div_mult2_eq [of k 65536 256] div_mult2_eq [of k 256 256] by simp_all
    then have "k div 16777216 * 16777216 + k div 65536 mod 256 * 65536 + k div 256 mod 256 * 256 + k mod 256 = k"
      using div_mult_mod_eq [of k 256] by linarith
    with e show ?thesis by simp
  qed
  finally show ?thesis .
qed

lemma rc_send_frame:
  assumes "rc_phase c = Command []" "rc_selected c" "cmd_code cmd OR 0x40 \<noteq> 0xFF"
  shows "fold rc_byte (cmd_frame cmd arg crc) c = rc_command (cmd_frame cmd arg crc) c"
  using assms by (simp add: cmd_frame_def rc_byte_def rc_command_def rc_sector_def)

lemma rc_receive:
  assumes "rc_phase c = Receive k bs" "rc_selected c" "length bs + length xs \<le> SEC_LEN + 1"
  shows "fold rc_byte xs c = c\<lparr>rc_phase := Receive k (bs @ xs)\<rparr>"
  using assms
proof (induction xs arbitrary: c bs)
  case (Cons x xs)
  have "rc_byte x c = c\<lparr>rc_phase := Receive k (bs @ [x])\<rparr>" using Cons.prems by (simp add: rc_byte_def)
  moreover have "fold rc_byte xs (c\<lparr>rc_phase := Receive k (bs @ [x])\<rparr>) =
      c\<lparr>rc_phase := Receive k (bs @ [x])\<rparr>\<lparr>rc_phase := Receive k ((bs @ [x]) @ xs)\<rparr>"
    by (rule Cons.IH) (use Cons.prems in auto)
  ultimately show ?case by simp
qed simp

lemmas rc_bus_defs = bus_cmd_def bus_send_def bus_recv_def bus_end_def rc_spi_def

lemma rc_write_block:
  assumes "rc_target c = Some k" "length bs = SEC_LEN"
  shows "bus_send rc_spi [0xFF, 0xFF] (bus_send rc_spi bs (bus_send rc_spi [0xFF, SD_START_DATA_SINGLE_BLOCK_WRITE] c)) =
    c\<lparr>rc_blocks := (rc_blocks c)(k := bs), rc_phase := Command [], rc_out := [0xE5, 0, 0xFF]\<rparr>"
proof -
  have c: "rc_phase c = AwaitToken k" "rc_selected c" using assms(1) by (auto simp: rc_target_def split: card_phase.splits if_splits)
  let ?c1 = "c\<lparr>rc_phase := Receive k []\<rparr>" and ?c2 = "c\<lparr>rc_phase := Receive k bs\<rparr>"
  have "fold rc_byte [0xFF, SD_START_DATA_SINGLE_BLOCK_WRITE] c = ?c1"
    using c by (simp add: rc_byte_def SD_START_DATA_SINGLE_BLOCK_WRITE_def)
  moreover have "fold rc_byte bs ?c1 = ?c2"
    using rc_receive [of ?c1 k "[]" bs] c assms(2) by simp
  moreover have "fold rc_byte [0xFF, 0xFF] ?c2 =
      c\<lparr>rc_blocks := (rc_blocks c)(k := bs), rc_phase := Command [], rc_out := [0xE5, 0, 0xFF]\<rparr>"
    using c assms(2) by (simp add: rc_byte_def)
  ultimately show ?thesis by (simp add: rc_bus_defs)
qed

interpretation rc: sd_card rc_spi "2 ^ 32" 1 rc_sector rc_ready rc_out rc_target
proof unfold_locales
  fix w :: ref_card and k :: nat assume "rc_ready w" "k < 2 ^ 32"
  show "length (rc_sector w k) = SEC_LEN" by (simp add: rc_sector_def)
next
  fix n and w :: ref_card assume "n \<le> length (rc_out w)"
  then show "\<exists>w'. bus_recv rc_spi n w = (take n (rc_out w), w') \<and> rc_out w' = drop n (rc_out w) \<and>
      rc_sector w' = rc_sector w \<and> rc_target w' = rc_target w"
    by (simp add: rc_bus_defs rc_sector_def rc_target_def fun_eq_iff cong: card_phase.case_cong)
next
  fix w w' :: ref_card and k assume w: "rc_ready w" "k < 2 ^ 32" "w' = bus_cmd rc_spi CMD17 (of_nat k) 0 w"
  then have "w' = rc_command (cmd_frame CMD17 (of_nat k) 0) (w\<lparr>rc_selected := True\<rparr>)"
    using rc_send_frame [of "w\<lparr>rc_selected := True\<rparr>" CMD17] by (simp add: rc_ready_def rc_bus_defs)
  moreover have "cmd_frame CMD17 (of_nat k) 0 ! 0 = 0x51" by (simp add: cmd_frame_def)
  ultimately have w': "w' = w\<lparr>rc_selected := True, rc_phase := Command [], rc_out := [0xFF, 0, 0xFF, 0xFE] @ rc_sector w k @ [0, 0]\<rparr>"
    by (simp add: rc_command_def be_arg_frame [OF w(2)] rc_sector_def)
  show "\<exists>a b crc. rc_out w' = replicate a 0xFF @ [0] @ replicate b 0xFF @ [SD_START_DATA_SINGLE_BLOCK_READ] @ rc_sector w k @ crc \<and>
      a < 0x0FFF \<and> b < 0x0FFF \<and> length crc = 2 \<and> rc_sector w' = rc_sector w \<and> rc_target w' = None"
    by (rule exI [of _ 1], rule exI [of _ 1], rule exI [of _ "[0, 0]"])
      (simp add: w' rc_sector_def rc_target_def fun_eq_iff SD_START_DATA_SINGLE_BLOCK_READ_def)
next
  fix w w' :: ref_card and k assume w: "rc_ready w" "k < 2 ^ 32" "w' = bus_cmd rc_spi CMD24 (of_nat k) 0 w"
  then have "w' = rc_command (cmd_frame CMD24 (of_nat k) 0) (w\<lparr>rc_selected := True\<rparr>)"
    using rc_send_frame [of "w\<lparr>rc_selected := True\<rparr>" CMD24] by (simp add: rc_ready_def rc_bus_defs)
  moreover have "cmd_frame CMD24 (of_nat k) 0 ! 0 = 0x58" by (simp add: cmd_frame_def)
  ultimately have w': "w' = w\<lparr>rc_selected := True, rc_phase := AwaitToken k, rc_out := [0xFF, 0]\<rparr>"
    by (simp add: rc_command_def be_arg_frame [OF w(2)])
  show "\<exists>a. rc_out w' = replicate a 0xFF @ [0] \<and> a < 0x0FFF \<and> rc_sector w' = rc_sector w \<and> rc_target w' = Some k"
    by (rule exI [of _ 1]) (simp add: w' rc_sector_def rc_target_def fun_eq_iff)
next
  fix w w' :: ref_card and k and bs :: "u8 list"
  assume w: "rc_target w = Some k" "rc_out w = []" "length bs = SEC_LEN"
    "w' = bus_send rc_spi [0xFF, 0xFF] (bus_send rc_spi bs (bus_send rc_spi [0xFF, SD_START_DATA_SINGLE_BLOCK_WRITE] w))"
  have w': "w' = w\<lparr>rc_blocks := (rc_blocks w)(k := bs), rc_phase := Command [], rc_out := [0xE5, 0, 0xFF]\<rparr>"
    using rc_write_block [OF w(1,3)] w(4) by simp
  have "rc_sector w' = (rc_sector w)(k := bs)" using w(3) by (auto simp: w' rc_sector_def fun_eq_iff)
  then show "\<exists>resp c x. rc_out w' = resp # replicate c 0 @ [x] \<and> resp AND 0x1F = 0x05 \<and> x \<noteq> 0 \<and> c \<le> 1 \<and>
      rc_sector w' = (rc_sector w)(k := bs) \<and> rc_target w' = None"
    by (intro exI [of _ "0xE5"] exI [of _ "1 :: nat"] exI [of _ "0xFF"]) (simp add: w' rc_target_def)
next
  fix w :: ref_card
  show "rc_ready (bus_end rc_spi w) \<and> rc_sector (bus_end rc_spi w) = rc_sector w"
    by (simp add: rc_bus_defs rc_ready_def rc_byte_def rc_sector_def fun_eq_iff)
  assume "rc_ready w"
  then show "rc_out w = [] \<and> rc_target w = None" by (simp add: rc_ready_def rc_target_def)
qed

section \<open>What the driver guarantees\<close>

text \<open>C20: The SD card driver is a block device. For every card in SPI mode that keeps to the protocol of
  \<open>sd_card\<close>, whatever delays it has, writing a block of 512 bytes succeeds, ends the wait for the busy card,
  and afterwards reading any block returns the bytes written, or what the block held before when it is another
  one; the card is left ready for the next command and no other block has changed.\<close>

theorem sd_write_read_roundtrip:
  assumes "sd_card spi cap fuel blocks ready out target" "ready w" "k < cap" "j < cap" "length bs = BLOCK_SZ"
  shows "\<exists>w1 w2. write_block (sd_block_device spi fuel) k bs w = (Inr (), w1) \<and>
    read_block (sd_block_device spi fuel) j w1 = (Inr (if j = k then bs else blocks w j), w2) \<and>
    ready w2 \<and> blocks w2 = (blocks w)(k := bs)"
  by (rule sd_card.write_then_read [OF assms])

definition blank_card :: ref_card where
  "blank_card = \<lparr>rc_blocks = (\<lambda>_. []), rc_out = [], rc_phase = Command [], rc_selected = False\<rparr>"

theorem sd_write_read_roundtrip_witness:
  "\<exists>w1 w2. write_block (sd_block_device rc_spi 1) 7 (replicate 512 0xAB) blank_card = (Inr (), w1) \<and>
    read_block (sd_block_device rc_spi 1) 7 w1 = (Inr (replicate 512 0xAB), w2) \<and>
    rc_ready w2 \<and> rc_sector w2 = (rc_sector blank_card)(7 := replicate 512 0xAB)"
  using sd_write_read_roundtrip [OF rc.sd_card_axioms, of blank_card 7 7 "replicate 512 0xAB"]
  by (simp add: blank_card_def rc_ready_def BLOCK_SZ_def)

text \<open>The capacity the driver computes is the one of the register and never overflows.\<close>

lemma unat_take_bit_less: "unat (take_bit n x) < 2 ^ n" for x :: "'a::len word"
  by (simp add: unsigned_take_bit_eq)

lemma card_capacity_exact:
  "\<exists>c. card_capacity (csd_of_bytes t) = Inr c \<and>
     unat c = (unat (DeviceSize (csd_of_bytes t)) + 1) * 1024 * 2 ^ unat (RdBlockLen (csd_of_bytes t)) \<and> unat c \<le> 2 ^ 47"
proof -
  let ?d = "DeviceSize (csd_of_bytes t)" and ?b = "RdBlockLen (csd_of_bytes t)"
  have "?d = push_bit 16 (ucast (t ! 7) AND mask 6) OR push_bit 8 (ucast (t ! 8)) OR ucast (t ! 9)"
    by (simp add: csd_of_bytes_def mask_eq_exp_minus_1)
  also have "\<dots> = take_bit 22 (push_bit 16 (ucast (t ! 7) AND mask 6) OR push_bit 8 (ucast (t ! 8)) OR ucast (t ! 9))"
  proof (rule bit_word_eqI)
    have small: "\<not> bit (x :: u8) n" if "8 \<le> n" for x n using that bit_imp_le_length [of x n] by auto
    fix n :: nat assume "n < LENGTH(32)"
    show "bit (push_bit 16 (ucast (t ! 7) AND mask 6) OR push_bit 8 (ucast (t ! 8)) OR ucast (t ! 9) :: u32) n =
        bit (take_bit 22 (push_bit 16 (ucast (t ! 7) AND mask 6) OR push_bit 8 (ucast (t ! 8)) OR ucast (t ! 9)) :: u32) n"
      using small [of "n - 8"] small [of n] by (auto simp: bit_simps simp del: mask_numeral)
  qed
  finally have d: "unat ?d < 2 ^ 22" by (metis unat_take_bit_less)
  have "?b = t ! 5 AND mask 4" by (simp add: csd_of_bytes_def mask_eq_exp_minus_1)
  then have b: "unat ?b < 2 ^ 4" by (simp add: unat_and_mask del: mask_numeral)
  then have p: "(2 :: nat) ^ unat ?b \<le> 2 ^ 15" by (intro power_increasing) auto
  have bs: "card_block_size (csd_of_bytes t) = Inr (push_bit (unat ?b) 1)" using b by (simp add: card_block_size_def)
  have ub: "unat (push_bit (unat ?b) 1 :: u64) = 2 ^ unat ?b"
    using b unat_push_bit [of "unat ?b" "1 :: u64"] p by (simp del: push_bit_of_1)
  have n1: "unat (ucast ?d :: u64) = unat ?d" using d by (simp add: unat_ucast)
  have n2: "unat (ucast ?d + 1 :: u64) = unat ?d + 1" using d n1 by (subst unat_add_noof) auto
  have n3: "unat ((ucast ?d + 1) * 1024 :: u64) = (unat ?d + 1) * 1024" using d n2 by (subst unat_mult_noof) auto
  have le: "(unat ?d + 1) * 1024 * 2 ^ unat ?b \<le> 2 ^ 47"
    using mult_le_mono [OF _ p, of "(unat ?d + 1) * 1024" "2 ^ 32"] d by simp
  have "cadd (ucast ?d :: u64) 1 = Inr (ucast ?d + 1)" unfolding cadd_Inr n1 using d by simp
  moreover have "cmul (ucast ?d + 1 :: u64) 1024 = Inr ((ucast ?d + 1) * 1024)" unfolding cmul_Inr n2 using d by simp
  moreover have m: "cmul ((ucast ?d + 1) * 1024 :: u64) (push_bit (unat ?b) 1) = Inr ((ucast ?d + 1) * 1024 * push_bit (unat ?b) 1)"
    unfolding cmul_Inr n3 ub using le by simp
  ultimately have "card_capacity (csd_of_bytes t) = Inr ((ucast ?d + 1) * 1024 * push_bit (unat ?b) 1)"
    unfolding card_capacity_def bs by (simp del: push_bit_of_1)
  moreover have "unat ((ucast ?d + 1) * 1024 * push_bit (unat ?b) 1 :: u64) = (unat ?d + 1) * 1024 * 2 ^ unat ?b"
    using cmul_unat [OF m] unfolding n3 ub .
  ultimately show ?thesis using le by auto
qed

end
