(* ===== verification/Kernel_Address.thy ===== *)
theory Kernel_Address
  imports Prelude
begin

text \<open>
  Addresses and page numbers of the kernel, \<open>kernel/src/mm/address.rs\<close>, and the memory layout of the
  two boards, \<open>kernel/boards/*/config.rs\<close> with the derived constants of the trait \<open>Config\<close> in
  \<open>kernel/src/mm/mod.rs\<close>. The newtypes \<open>PA\<close>, \<open>VA\<close>, \<open>PPN\<close> and \<open>VPN\<close> are 64-bit words; their checked
  operations return a result. The lemmas give the arithmetic meaning of \<open>floor\<close>, \<open>ceil\<close>, \<open>indexes\<close>
  and the linear map, and say when the comparison of \<open>VARangeOrd\<close> orders ranges.
\<close>

unbundle bit_operations_syntax

type_synonym pa = usize
type_synonym va = usize
type_synonym ppn = usize
type_synonym vpn = usize

section \<open>Board configuration\<close>

datatype board = K210 | Qemu_virt_rv64

definition KERNEL_MAP_OFFSET :: usize where
  "KERNEL_MAP_OFFSET = 0xFFFFFFC000000000"

definition PAGE_SIZE_BITS :: nat where
  "PAGE_SIZE_BITS = 12"

definition PAGE_SIZE :: usize where
  "PAGE_SIZE = push_bit PAGE_SIZE_BITS 1"

definition USER_STACK_SIZE :: usize where
  "USER_STACK_SIZE = push_bit 13 1"

definition KERNEL_STACK_ALIGN_SIZE :: usize where
  "KERNEL_STACK_ALIGN_SIZE = push_bit 14 1"

definition KERNEL_STACK_SIZE :: usize where
  "KERNEL_STACK_SIZE = push_bit 13 1"

definition KERNEL_STACK_GUARD_PAGE_SIZE :: usize where
  "KERNEL_STACK_GUARD_PAGE_SIZE = KERNEL_STACK_ALIGN_SIZE - KERNEL_STACK_SIZE"

definition KERNEL_STACK_TOP :: usize where
  "KERNEL_STACK_TOP = 0xFFFFFFFFFFFFFFFF - KERNEL_STACK_ALIGN_SIZE + 1"

definition KERNEL_HEAP_SIZE :: "board \<Rightarrow> usize" where
  "KERNEL_HEAP_SIZE bd = (case bd of K210 \<Rightarrow> 0x200000 | Qemu_virt_rv64 \<Rightarrow> 0x300000)"

definition MEMORY_START :: usize where
  "MEMORY_START = 0xFFFFFFC080000000"

definition MEMORY_SIZE :: usize where
  "MEMORY_SIZE = 0x800000"

definition MEMORY_END :: usize where
  "MEMORY_END = MEMORY_START + MEMORY_SIZE"

definition MMIO :: "board \<Rightarrow> (usize \<times> usize) list" where
  "MMIO bd = (case bd of
     K210 \<Rightarrow> [(0x0C000000, 0x3000), (0x0C200000, 0x1000), (0x38000000, 0x1000), (0x38001000, 0x1000),
       (0x50200000, 0x1000), (0x50240000, 0x1000), (0x502B0000, 0x1000), (0x502D0000, 0x1000),
       (0x502E0000, 0x1000), (0x502F0000, 0x1000), (0x50440000, 0x1000), (0x52000000, 0x1000),
       (0x53000000, 0x1000), (0x54000000, 0x1000)]
   | Qemu_virt_rv64 \<Rightarrow> [(0x10001000, 0x1000)])"

lemmas config_simps = PAGE_SIZE_def PAGE_SIZE_BITS_def KERNEL_MAP_OFFSET_def

section \<open>Conversions\<close>

definition vpn_of_ppn :: "ppn \<Rightarrow> vpn res" where
  "vpn_of_ppn p = cadd p (drop_bit PAGE_SIZE_BITS KERNEL_MAP_OFFSET)"

definition ppn_of_vpn :: "vpn \<Rightarrow> ppn res" where
  "ppn_of_vpn v = csub v (drop_bit PAGE_SIZE_BITS KERNEL_MAP_OFFSET)"

definition va_of_pa :: "pa \<Rightarrow> va res" where
  "va_of_pa p = cadd p KERNEL_MAP_OFFSET"

definition pa_of_va :: "va \<Rightarrow> pa res" where
  "pa_of_va v = csub v KERNEL_MAP_OFFSET"

definition addr_of_page :: "usize \<Rightarrow> usize" where
  "addr_of_page n = push_bit PAGE_SIZE_BITS n"

definition addr_floor :: "usize \<Rightarrow> usize" where
  "addr_floor a = drop_bit PAGE_SIZE_BITS a"

definition addr_ceil :: "usize \<Rightarrow> usize res" where
  "addr_ceil a = rbind (csub a 1) (\<lambda>b. rbind (cadd b PAGE_SIZE) (\<lambda>c. Inr (drop_bit PAGE_SIZE_BITS c)))"

definition page_offset :: "usize \<Rightarrow> usize" where
  "page_offset a = a AND (PAGE_SIZE - 1)"

text \<open>\<open>VPN::indexes\<close> fills the array from the last index on, shifting the page number by nine bits.\<close>

fun indexes_loop :: "nat \<Rightarrow> usize \<Rightarrow> usize list \<Rightarrow> usize list" where
  "indexes_loop 0 vpn idx = idx"
| "indexes_loop (Suc i) vpn idx = indexes_loop i (drop_bit 9 vpn) (idx[i := vpn AND 511])"

definition vpn_indexes :: "vpn \<Rightarrow> usize list" where
  "vpn_indexes v = indexes_loop 3 v [0, 0, 0]"

definition round_down :: "usize \<Rightarrow> usize \<Rightarrow> usize res" where
  "round_down value boundary = rbind (csub boundary 1) (\<lambda>m. Inr (value AND NOT m))"

definition round_up :: "usize \<Rightarrow> usize \<Rightarrow> usize res" where
  "round_up value boundary =
     rbind (cadd value boundary) (\<lambda>s. rbind (csub s 1) (\<lambda>t. rbind (csub boundary 1) (\<lambda>m.
       Inr (t AND NOT m))))"

section \<open>Ranges\<close>

text \<open>\<open>VARange\<close> is a half-open range; \<open>VARangeOrd\<close> compares ranges by containment and start.\<close>

record va_range =
  rg_start :: va
  rg_end :: va

definition vpn_range :: "va_range \<Rightarrow> (vpn \<times> vpn) res" where
  "vpn_range r = rbind (addr_ceil (rg_end r)) (\<lambda>e. Inr (addr_floor (rg_start r), e))"

text \<open>The page numbers a \<open>for vpn in start..end\<close> loop visits, in order.\<close>

definition range_list :: "usize \<Rightarrow> usize \<Rightarrow> usize list" where
  "range_list s e = map of_nat [unat s..<unat e]"

datatype ordering = Less | Equal | Greater

definition va_range_eq :: "va_range \<Rightarrow> va_range \<Rightarrow> bool" where
  "va_range_eq a b \<longleftrightarrow>
     (rg_start a \<le> rg_start b \<and> rg_end b \<le> rg_end a) \<or> (rg_start b \<le> rg_start a \<and> rg_end a \<le> rg_end b)"

definition va_range_cmp :: "va_range \<Rightarrow> va_range \<Rightarrow> ordering" where
  "va_range_cmp a b =
     (if va_range_eq a b then Equal else if rg_start a < rg_start b then Less else Greater)"

section \<open>Arithmetic meaning\<close>

lemma unat_addr_floor: "unat (addr_floor a) = unat a div 4096"
  by (simp add: addr_floor_def PAGE_SIZE_BITS_def unat_drop_bit)

lemma unat_PAGE_SIZE [simp]: "unat PAGE_SIZE = 4096"
  by (simp add: config_simps)

lemma page_offset_mask: "page_offset a = a AND mask 12"
  by (simp add: page_offset_def config_simps mask_eq_exp_minus_1)

lemma unat_page_offset: "unat (page_offset a) = unat a mod 4096"
  by (simp add: page_offset_mask unat_and_mask)

lemma addr_of_page_floor_offset: "addr_of_page (addr_floor a) + page_offset a = a"
proof -
  have "unat (addr_of_page (addr_floor a)) = unat a div 4096 * 4096"
    using unat_less_2p [of a] by (simp add: addr_of_page_def PAGE_SIZE_BITS_def unat_push_bit unat_addr_floor)
  then show ?thesis
    using unat_less_2p [of a] by (simp add: word_unat_eq_iff unat_word_ariths unat_page_offset)
qed

lemma addr_ceil_Inr:
  assumes "0 < unat a" "unat a \<le> 2 ^ 64 - 4096"
  obtains c where "addr_ceil a = Inr c" "unat c = (unat a + 4095) div 4096"
proof -
  have 1: "csub a 1 = Inr (a - 1)" "unat (a - 1) = unat a - 1"
    using assms(1) by (simp_all add: csub_Inr word_le_nat_alt unat_sub_noof)
  have 2: "unat (a - 1) + 4096 < 2 ^ 64" using 1 assms by simp
  then have 3: "cadd (a - 1) PAGE_SIZE = Inr (a - 1 + PAGE_SIZE)" "unat (a - 1 + PAGE_SIZE) = unat a + 4095"
    using 1 assms(1) by (simp_all add: cadd_Inr unat_add_noof)
  show thesis
    by (rule that [of "drop_bit PAGE_SIZE_BITS (a - 1 + PAGE_SIZE)"])
      (simp_all add: addr_ceil_def 1 3 PAGE_SIZE_BITS_def unat_drop_bit)
qed

lemma addr_ceil_unat: "addr_ceil a = Inr c \<Longrightarrow> unat c = (unat a + 4095) div 4096 \<and> 0 < unat a"
  by (auto simp: addr_ceil_def csub_Inr cadd_Inr PAGE_SIZE_BITS_def unat_drop_bit unat_add_noof
      unat_sub_noof word_le_nat_alt)

lemma vpn_indexes_eq: "vpn_indexes v = [drop_bit 18 v AND 511, drop_bit 9 v AND 511, v AND 511]"
  by (simp add: vpn_indexes_def numeral_3_eq_3)

lemma and_511: "a AND 511 = a AND mask 9" for a :: usize
  by (simp add: mask_eq_exp_minus_1)

lemma unat_vpn_indexes:
  "map unat (vpn_indexes v) = [unat v div 2 ^ 18 mod 512, unat v div 512 mod 512, unat v mod 512]"
  by (simp add: vpn_indexes_eq and_511 unat_and_mask unat_drop_bit)

text \<open>A page number below \<open>2 ^ 27\<close> (what Sv39 translates) is determined by its three indexes.\<close>

lemma vpn_indexes_inj:
  assumes "unat v < 2 ^ 27" "unat w < 2 ^ 27" "vpn_indexes v = vpn_indexes w"
  shows "v = w"
proof -
  have "map unat (vpn_indexes v) = map unat (vpn_indexes w)" using assms(3) by simp
  then have "unat v div 2 ^ 18 mod 512 = unat w div 2 ^ 18 mod 512" "unat v div 512 mod 512 = unat w div 512 mod 512"
    "unat v mod 512 = unat w mod 512"
    unfolding unat_vpn_indexes by auto
  moreover have "n = n div 2 ^ 18 mod 512 * 2 ^ 18 + n div 512 mod 512 * 512 + n mod 512"
    if "n < 2 ^ 27" for n :: nat
  proof -
    have d: "n div 2 ^ 18 = n div 512 div 512" by (simp flip: div_mult2_eq)
    have "n div 512 div 512 < 512" using that by (simp add: less_mult_imp_div_less)
    then have "n div 2 ^ 18 mod 512 = n div 512 div 512" unfolding d by simp
    moreover have "(n div 512 div 512 * 512 + n div 512 mod 512) * 512 + n mod 512 = n"
      by (simp only: div_mult_mod_eq)
    ultimately show ?thesis by (simp only: add_mult_distrib) simp
  qed
  ultimately show ?thesis using assms(1,2) by (metis word_unat_eq_iff)
qed

lemma va_range_eq_sym: "va_range_eq a b = va_range_eq b a"
  by (auto simp: va_range_eq_def)

lemma set_range_list: "set (range_list s e) = {v. s \<le> v \<and> v < e}"
proof -
  have "v \<in> set (range_list s e)" if "s \<le> v" "v < e" for v
    using that by (auto simp: range_list_def word_le_nat_alt word_less_nat_alt image_iff intro: bexI [of _ "unat v"])
  moreover have "s \<le> v \<and> v < e" if v: "v \<in> set (range_list s e)" for v
  proof -
    from v obtain n where "unat s \<le> n" "n < unat e" "v = of_nat n" by (auto simp: range_list_def)
    moreover have "unat (of_nat n :: usize) = n"
      using \<open>n < unat e\<close> unat_less_2p [of e] by (simp add: unat_of_nat)
    ultimately show ?thesis by (simp add: word_le_nat_alt word_less_nat_alt)
  qed
  ultimately show ?thesis by auto
qed

section \<open>Properties\<close>

text \<open>the linear map of the kernel is a bijection between the physical pages below 256 GiB and
  the kernel half of the address space: converting a physical page number to a virtual one and back is the
  identity, the page of a converted address is the converted page, and the offset is kept.\<close>

lemma linear_map_roundtrip:
  assumes "unat p < 2 ^ 26"
  shows "\<exists>v. vpn_of_ppn p = Inr v \<and> ppn_of_vpn v = Inr p \<and> unat v < 2 ^ 52 \<and>
    (\<forall>n < 4096. addr_floor (addr_of_page v + of_nat n) = v \<and>
       pa_of_va (addr_of_page v + of_nat n) = Inr (addr_of_page p + of_nat n))"
proof -
  let ?o = "drop_bit PAGE_SIZE_BITS KERNEL_MAP_OFFSET" and ?v = "p + drop_bit PAGE_SIZE_BITS KERNEL_MAP_OFFSET"
  have o: "unat ?o = 0xFFFFFFC000000" by (simp add: config_simps)
  have v: "vpn_of_ppn p = Inr ?v" "unat ?v = unat p + 0xFFFFFFC000000"
    using assms o by (simp_all add: vpn_of_ppn_def cadd_Inr unat_add_noof)
  have inv_v: "ppn_of_vpn ?v = Inr p"
    using v(2) o by (simp add: ppn_of_vpn_def csub_Inr word_le_nat_alt)
  have va_n: "unat (addr_of_page ?v + of_nat n) = unat ?v * 4096 + n"
    and pa_n: "unat (addr_of_page p + of_nat n) = unat p * 4096 + n" if "n < 4096" for n
    using that assms v(2)
    by (simp_all add: addr_of_page_def PAGE_SIZE_BITS_def unat_push_bit unat_word_ariths unat_of_nat)
  have "addr_floor (addr_of_page ?v + of_nat n) = ?v" if "n < 4096" for n
    using va_n [OF that] that by (simp add: word_unat_eq_iff [of _ ?v] unat_addr_floor)
  moreover have "pa_of_va (addr_of_page ?v + of_nat n) = Inr (addr_of_page p + of_nat n)" if "n < 4096" for n
    using va_n [OF that] pa_n [OF that] v(2)
    by (simp add: pa_of_va_def csub_Inr KERNEL_MAP_OFFSET_def word_le_nat_alt word_unat_eq_iff unat_sub_noof)
  ultimately show ?thesis
    using v inv_v assms by (intro exI [of _ ?v]) auto
qed

text \<open>\<open>floor\<close>, \<open>ceil\<close> and \<open>page_offset\<close> are division by the page size: the pages of a range that
  \<open>vpn_range\<close> gives are exactly the pages that contain a byte of the range.\<close>

lemma vpn_range_covers:
  assumes "rg_start r < rg_end r" "unat (rg_end r) \<le> 2 ^ 64 - 4096"
  shows "\<exists>s e. vpn_range r = Inr (s, e) \<and>
    set (range_list s e) = {v. \<exists>a. rg_start r \<le> a \<and> a < rg_end r \<and> addr_floor a = v}"
proof -
  let ?s = "rg_start r" and ?e = "rg_end r"
  have lt: "unat ?s < unat ?e" using assms(1) by (simp add: word_less_nat_alt)
  obtain c where c: "addr_ceil ?e = Inr c" "unat c = (unat ?e + 4095) div 4096"
    by (rule addr_ceil_Inr [of ?e]) (use lt assms(2) in auto)
  have "(\<exists>a. ?s \<le> a \<and> a < ?e \<and> addr_floor a = v) \<longleftrightarrow> addr_floor ?s \<le> v \<and> v < c" for v
  proof
    assume "\<exists>a. ?s \<le> a \<and> a < ?e \<and> addr_floor a = v"
    then obtain a where "unat ?s \<le> unat a" "unat a < unat ?e" "addr_floor a = v"
      by (auto simp: word_le_nat_alt word_less_nat_alt)
    then show "addr_floor ?s \<le> v \<and> v < c"
      by (auto simp: word_le_nat_alt word_less_nat_alt unat_addr_floor c(2) intro: div_le_mono)
  next
    assume "addr_floor ?s \<le> v \<and> v < c"
    then have v: "unat ?s div 4096 \<le> unat v" "unat v < (unat ?e + 4095) div 4096"
      by (auto simp: word_le_nat_alt word_less_nat_alt unat_addr_floor c(2))
    define n where "n = max (unat ?s) (unat v * 4096)"
    have n: "unat ?s \<le> n" "n < unat ?e" "n div 4096 = unat v" using v lt unfolding n_def by (auto simp: max_def)
    then have "unat (of_nat n :: usize) = n" using unat_less_2p [of ?e] by (simp add: unat_of_nat)
    with n show "\<exists>a. ?s \<le> a \<and> a < ?e \<and> addr_floor a = v"
      by (intro exI [of _ "of_nat n"]) (simp add: word_le_nat_alt word_less_nat_alt word_unat_eq_iff unat_addr_floor)
  qed
  then show ?thesis
    using c(1) by (intro exI [of _ "addr_floor ?s"] exI [of _ c]) (simp add: vpn_range_def set_range_list)
qed

text \<open>on ranges that do not overlap and do not touch, \<open>VARangeOrd\<close> orders by position, and the key
  \<open>va..va\<close> compares equal to a range exactly when the address lies in it or is its end.\<close>

lemma va_range_cmp_position:
  assumes "rg_start a < rg_end a" "rg_start b < rg_end b" "rg_end a < rg_start b"
  shows "va_range_cmp a b = Less \<and> va_range_cmp b a = Greater \<and>
    (\<forall>va. va_range_cmp a \<lparr>rg_start = va, rg_end = va\<rparr> = Equal \<longleftrightarrow> rg_start a \<le> va \<and> va \<le> rg_end a)"
  using assms by (auto simp: va_range_cmp_def va_range_eq_def)

end
