(* ===== verification/Kernel_Thread.thy ===== *)
theory Kernel_Thread
  imports Kernel_Address
begin

text \<open>
  Threads of the kernel: the allocator of thread ids and the place of a thread's kernel stack
  (\<open>kernel/src/process/thread.rs\<close>), the status of a thread and condition variables
  (\<open>kernel/src/sync/condvar.rs\<close>), timers (\<open>kernel/src/timer.rs\<close>, \<open>kernel/arch/riscv/timer.rs\<close>) and
  \<open>sys_nanosleep\<close> (\<open>kernel/src/syscall/misc.rs\<close>).

  A live thread is a key of a table (its identity, which is the address of the \<open>Arc\<close> and not the
  recycled thread id); upgrading a \<open>Weak<Thread>\<close> is a lookup. The properties: in every state reached
  by allocating and dropping ids the live threads have distinct ids and disjoint kernel stacks, and
  \<open>get_cur_kernel_stack_top\<close> finds the stack the stack pointer is in; \<open>expire\<close> runs exactly the callbacks
  that are due, in order of their deadlines.
\<close>

section \<open>Thread ids\<close>

record tid_allocator =
  ta_current :: usize
  ta_recycled :: "usize list"

definition tid_allocator_new :: tid_allocator where
  "tid_allocator_new = \<lparr>ta_current = 0, ta_recycled = []\<rparr>"

definition tid_alloc :: "(tid_allocator, usize) st" where
  "tid_alloc s =
     (if ta_recycled s \<noteq> [] then
        (Inr (last (ta_recycled s)), s\<lparr>ta_recycled := butlast (ta_recycled s)\<rparr>)
      else case cadd (ta_current s) 1 of
          Inl e \<Rightarrow> (Inl e, s)
        | Inr c \<Rightarrow> (Inr (c - 1), s\<lparr>ta_current := c\<rparr>))"

text \<open>\<open>dealloc\<close> is what dropping a \<open>Tid\<close> calls.\<close>

definition tid_dealloc :: "usize \<Rightarrow> (tid_allocator, unit) st" where
  "tid_dealloc tid s =
     (if \<not> tid < ta_current s then (Inl (Panic Assertion), s)
      else if tid \<in> set (ta_recycled s) then (Inl (Panic Assertion), s)
      else (Inr (), s\<lparr>ta_recycled := ta_recycled s @ [tid]\<rparr>))"

section \<open>Kernel stacks\<close>

definition get_kernel_stack_range :: "usize \<Rightarrow> va_range res" where
  "get_kernel_stack_range tid =
     rbind (cmul tid KERNEL_STACK_ALIGN_SIZE) (\<lambda>d.
     rbind (csub KERNEL_STACK_TOP d) (\<lambda>kernel_stack_top.
     rbind (csub kernel_stack_top KERNEL_STACK_SIZE) (\<lambda>start.
     Inr \<lparr>rg_start = start, rg_end = kernel_stack_top\<rparr>)))"

definition get_cur_kernel_stack_top :: "usize \<Rightarrow> va res" where
  "get_cur_kernel_stack_top sp = round_up sp KERNEL_STACK_ALIGN_SIZE"

definition THREAD_PTR_OFFSET :: usize where
  "THREAD_PTR_OFFSET = 8"

text \<open>The trap frame holds 32 registers, \<open>sstatus\<close> and \<open>sepc\<close>. \<open>Sstatus\<close> of the \<open>riscv\<close> crate is one
  register.\<close>

definition TRAP_FRAME_OFFSET :: usize where
  "TRAP_FRAME_OFFSET = THREAD_PTR_OFFSET + 34 * 8"

section \<open>Status and condition variables\<close>

datatype thread_status = Ready | Running | Waiting | Zombie

record thread_inner =
  th_status :: thread_status
  th_cycles :: u64
  th_set_child_tid :: usize
  th_clear_child_tid :: usize

type_synonym threads = "nat \<Rightarrow> thread_inner option"

text \<open>\<open>thread.inner.lock().status = st\<close>, on an upgraded weak reference: nothing happens when the thread is
  gone.\<close>

definition set_status :: "nat \<Rightarrow> thread_status \<Rightarrow> threads \<Rightarrow> threads" where
  "set_status r st ths = (case ths r of None \<Rightarrow> ths | Some i \<Rightarrow> ths(r \<mapsto> i\<lparr>th_status := st\<rparr>))"

type_synonym condvar = "nat list"

definition condvar_wait :: "nat \<Rightarrow> condvar \<times> threads \<Rightarrow> condvar \<times> threads" where
  "condvar_wait cur = (\<lambda>(q, ths). (q @ [cur], set_status cur Waiting ths))"

fun condvar_notify_one :: "condvar \<times> threads \<Rightarrow> condvar \<times> threads" where
  "condvar_notify_one ([], ths) = ([], ths)"
| "condvar_notify_one (r # q, ths) = (q, set_status r Ready ths)"

fun condvar_notify_all :: "condvar \<times> threads \<Rightarrow> condvar \<times> threads" where
  "condvar_notify_all ([], ths) = ([], ths)"
| "condvar_notify_all (r # q, ths) = condvar_notify_all (q, set_status r Ready ths)"

section \<open>Timers\<close>

text \<open>
  A \<open>Duration\<close> is its number of nanoseconds, below \<open>2 ^ 64\<close> seconds; an addition past that panics. The
  events are the entries of a \<open>BTreeMap\<close>, sorted by deadline; \<open>'cb\<close> is the type of the callbacks.
\<close>

definition DURATION_LIMIT :: nat where
  "DURATION_LIMIT = 2 ^ 64 * 1000000000"

definition duration_add :: "nat \<Rightarrow> nat \<Rightarrow> nat res" where
  "duration_add a b = (if a + b < DURATION_LIMIT then Inr (a + b) else Inl (Panic Overflow))"

type_synonym 'cb timer = "(nat \<times> 'cb) list"

fun timer_insert :: "nat \<Rightarrow> 'cb \<Rightarrow> 'cb timer \<Rightarrow> 'cb timer" where
  "timer_insert k cb [] = [(k, cb)]"
| "timer_insert k cb ((j, c) # es) =
     (if k < j then (k, cb) # (j, c) # es
      else if k = j then (k, cb) # es
      else (j, c) # timer_insert k cb es)"

function timer_free_key :: "nat \<Rightarrow> 'cb timer \<Rightarrow> nat res" where
  "timer_free_key deadline es =
     (if deadline \<in> set (map fst es) then
        (if deadline + 1 < DURATION_LIMIT then timer_free_key (deadline + 1) es else Inl (Panic Overflow))
      else Inr deadline)"
  by pat_completeness auto
termination
  by (relation "measure (\<lambda>(d, es). DURATION_LIMIT - d)") auto

declare timer_free_key.simps [simp del]

definition timer_register :: "nat \<Rightarrow> 'cb \<Rightarrow> 'cb timer \<Rightarrow> 'cb timer res" where
  "timer_register deadline cb es = rbind (timer_free_key deadline es) (\<lambda>k. Inr (timer_insert k cb es))"

text \<open>\<open>run\<close> calls a callback.\<close>

fun timer_expire :: "('cb \<Rightarrow> 's \<Rightarrow> 's) \<Rightarrow> nat \<Rightarrow> 'cb timer \<times> 's \<Rightarrow> 'cb timer \<times> 's" where
  "timer_expire run now ([], s) = ([], s)"
| "timer_expire run now ((k, cb) # es, s) =
     (if k > now then ((k, cb) # es, s) else timer_expire run now (es, run cb s))"

subsection \<open>The clock\<close>

definition CLOCK_FREQ :: "board \<Rightarrow> nat" where
  "CLOCK_FREQ bd = (case bd of K210 \<Rightarrow> 403000000 div 62 | Qemu_virt_rv64 \<Rightarrow> 10000000)"

definition INTERVAL :: "board \<Rightarrow> nat" where
  "INTERVAL bd = CLOCK_FREQ bd div 100 - 1"

definition get_time_ms :: "board \<Rightarrow> nat \<Rightarrow> nat" where
  "get_time_ms bd t = t div (CLOCK_FREQ bd div 1000)"

definition get_time :: "board \<Rightarrow> nat \<Rightarrow> nat \<times> nat" where
  "get_time bd t = (let usec = t div (CLOCK_FREQ bd div 1000000) in (usec div 1000000, usec mod 1000000))"

text \<open>The counter \<open>t\<close> times a million is computed in \<open>u64\<close>.\<close>

definition get_duration :: "board \<Rightarrow> nat \<Rightarrow> nat res" where
  "get_duration bd t =
     (if t * 1000000 < 2 ^ 64 then Inr (t * 1000000 div (CLOCK_FREQ bd div 1000)) else Inl (Panic Overflow))"

section \<open>Sleeping\<close>

text \<open>
  The callbacks that \<open>sys_nanosleep\<close> registers wake one thread. The system call first registers the
  callback and then marks the thread as waiting; interrupts are enabled in between, so the timer
  interrupt is a step of its own.
\<close>

record sleepers =
  sl_ticks :: nat
  sl_timer :: "nat timer"
  sl_threads :: threads

definition wake :: "nat \<Rightarrow> threads \<Rightarrow> threads" where
  "wake r ths = set_status r Ready ths"

definition nanosleep_register :: "board \<Rightarrow> nat \<Rightarrow> nat \<Rightarrow> nat \<Rightarrow> (sleepers, unit) st" where
  "nanosleep_register bd cur req t s =
     (case rbind (get_duration bd t) (\<lambda>now. rbind (duration_add req now) (\<lambda>d.
        timer_register d cur (sl_timer s))) of
        Inl e \<Rightarrow> (Inl e, s)
      | Inr es \<Rightarrow> (Inr (), s\<lparr>sl_timer := es\<rparr>))"

definition nanosleep_sleep :: "nat \<Rightarrow> sleepers \<Rightarrow> sleepers" where
  "nanosleep_sleep cur s = s\<lparr>sl_threads := set_status cur Waiting (sl_threads s)\<rparr>"

definition tick :: "board \<Rightarrow> nat \<Rightarrow> (sleepers, unit) st" where
  "tick bd t s =
     (let s1 = s\<lparr>sl_ticks := sl_ticks s + 1\<rparr> in
      case get_duration bd t of
        Inl e \<Rightarrow> (Inl e, s1)
      | Inr now \<Rightarrow>
          let (es, ths) = timer_expire wake now (sl_timer s1, sl_threads s1)
          in (Inr (), s1\<lparr>sl_timer := es, sl_threads := ths\<rparr>))"

section \<open>Ids and stacks of live threads\<close>

text \<open>The states reached by creating threads and dropping live ones, with the list of live ids.\<close>

inductive tid_reach :: "tid_allocator \<Rightarrow> usize list \<Rightarrow> bool" where
  init: "tid_reach tid_allocator_new []"
| alloc: "tid_reach s live \<Longrightarrow> tid_alloc s = (Inr t, s') \<Longrightarrow> tid_reach s' (t # live)"
| drop: "tid_reach s live \<Longrightarrow> t \<in> set live \<Longrightarrow> tid_dealloc t s = (Inr (), s') \<Longrightarrow>
    tid_reach s' (remove1 t live)"

definition tid_inv :: "tid_allocator \<Rightarrow> usize list \<Rightarrow> bool" where
  "tid_inv s live \<longleftrightarrow> distinct (live @ ta_recycled s) \<and>
     set (live @ ta_recycled s) = {t. t < ta_current s}"

lemma less_inc_iff: "c \<noteq> - 1 \<Longrightarrow> t < c + 1 \<longleftrightarrow> t = c \<or> t < c" for c t :: "'a::len word"
  by (auto simp: word_less_nat_alt unat_inc word_unat_eq_iff)

lemma tid_inv_alloc:
  assumes "tid_inv s live" "tid_alloc s = (Inr t, s')"
  shows "tid_inv s' (t # live)"
proof (cases "ta_recycled s = []")
  case True
  with assms(2) have c: "unat (ta_current s) + 1 < 2 ^ 64" "t = ta_current s" "s' = s\<lparr>ta_current := ta_current s + 1\<rparr>"
    by (auto simp: tid_alloc_def cadd_Inr split: sum.splits)
  then have "ta_current s \<noteq> - 1" by (auto simp: unsigned_minus_1_eq_mask mask_eq_exp_minus_1)
  with assms(1) True c show ?thesis by (auto simp: tid_inv_def less_inc_iff)
next
  case False
  with assms(2) have t: "t = last (ta_recycled s)" "s' = s\<lparr>ta_recycled := butlast (ta_recycled s)\<rparr>"
    by (auto simp: tid_alloc_def)
  have "ta_recycled s = butlast (ta_recycled s) @ [t]" using False t(1) by simp
  then have "distinct (live @ butlast (ta_recycled s) @ [t])"
    "set (live @ butlast (ta_recycled s) @ [t]) = {t. t < ta_current s}"
    using assms(1) by (simp_all add: tid_inv_def)
  then show ?thesis by (auto simp: tid_inv_def t(2))
qed

lemma tid_inv_dealloc:
  assumes "tid_inv s live" "t \<in> set live"
  shows "\<exists>s'. tid_dealloc t s = (Inr (), s') \<and> tid_inv s' (remove1 t live)"
proof -
  have "t < ta_current s" "t \<notin> set (ta_recycled s)" using assms by (auto simp: tid_inv_def)
  then have "tid_dealloc t s = (Inr (), s\<lparr>ta_recycled := ta_recycled s @ [t]\<rparr>)" by (simp add: tid_dealloc_def)
  moreover have "tid_inv (s\<lparr>ta_recycled := ta_recycled s @ [t]\<rparr>) (remove1 t live)"
    using assms by (auto simp: tid_inv_def)
  ultimately show ?thesis by blast
qed

lemma tid_reach_inv: "tid_reach s live \<Longrightarrow> tid_inv s live"
proof (induction rule: tid_reach.induct)
  case init
  show ?case by (simp add: tid_inv_def tid_allocator_new_def)
next
  case (alloc s live t s')
  then show ?case by (blast intro: tid_inv_alloc)
next
  case (drop s live t s')
  then show ?case using tid_inv_dealloc [of s live t] by auto
qed

lemmas stack_consts = KERNEL_STACK_ALIGN_SIZE_def KERNEL_STACK_SIZE_def KERNEL_STACK_TOP_def

lemma stack_range_unat:
  assumes "get_kernel_stack_range t = Inr r"
  shows "unat t < 2 ^ 50 - 1" "unat (rg_end r) = 2 ^ 64 - 2 ^ 14 * (unat t + 1)"
    "unat (rg_start r) = unat (rg_end r) - 2 ^ 13" "2 ^ 13 \<le> unat (rg_end r)"
proof -
  have c: "unat KERNEL_STACK_ALIGN_SIZE = 2 ^ 14" "unat KERNEL_STACK_SIZE = 2 ^ 13"
    "unat KERNEL_STACK_TOP = 2 ^ 64 - 2 ^ 14"
    by (simp_all add: stack_consts)
  from assms obtain d top st where e: "cmul t KERNEL_STACK_ALIGN_SIZE = Inr d" "csub KERNEL_STACK_TOP d = Inr top"
    "csub top KERNEL_STACK_SIZE = Inr st" "r = \<lparr>rg_start = st, rg_end = top\<rparr>"
    by (auto simp: get_kernel_stack_range_def)
  note u = cmul_unat [OF e(1)] csub_unat [OF e(2)] csub_unat [OF e(3)]
  have "8192 \<le> 18446744073709535232 - unat t * 16384" using u c by simp
  then show "unat t < 2 ^ 50 - 1" by simp
  show "unat (rg_end r) = 2 ^ 64 - 2 ^ 14 * (unat t + 1)"
    "unat (rg_start r) = unat (rg_end r) - 2 ^ 13" "2 ^ 13 \<le> unat (rg_end r)"
    using u c e(4) by simp_all
qed

lemma stack_range_ok:
  assumes "unat t < 2 ^ 50 - 1"
  shows "\<exists>r. get_kernel_stack_range t = Inr r"
proof -
  have c: "unat KERNEL_STACK_ALIGN_SIZE = 2 ^ 14" "unat KERNEL_STACK_SIZE = 2 ^ 13"
    "unat KERNEL_STACK_TOP = 2 ^ 64 - 2 ^ 14"
    by (simp_all add: stack_consts)
  have d: "cmul t KERNEL_STACK_ALIGN_SIZE = Inr (t * KERNEL_STACK_ALIGN_SIZE)"
    "unat (t * KERNEL_STACK_ALIGN_SIZE) = unat t * 2 ^ 14"
    using assms c by (simp_all add: cmul_Inr unat_mult_noof)
  let ?top = "KERNEL_STACK_TOP - t * KERNEL_STACK_ALIGN_SIZE"
  have top: "csub KERNEL_STACK_TOP (t * KERNEL_STACK_ALIGN_SIZE) = Inr ?top" "unat ?top \<ge> 2 ^ 13"
    using assms c d(2) by (simp_all add: csub_Inr word_le_nat_alt unat_sub_noof)
  then have "csub ?top KERNEL_STACK_SIZE = Inr (?top - KERNEL_STACK_SIZE)"
    using c by (simp add: csub_Inr word_le_nat_alt)
  with d top show ?thesis by (simp add: get_kernel_stack_range_def)
qed

text \<open>Rounding the stack pointer up to the alignment finds the top of the stack it is in.\<close>

lemma cur_stack_top:
  assumes "get_kernel_stack_range t = Inr r" "rg_start r < sp" "sp < rg_end r"
  shows "get_cur_kernel_stack_top sp = Inr (rg_end r)"
proof -
  note u = stack_range_unat [OF assms(1)]
  have sp: "unat (rg_start r) < unat sp" "unat sp < unat (rg_end r)"
    using assms(2,3) by (simp_all add: word_less_nat_alt)
  have a: "unat KERNEL_STACK_ALIGN_SIZE = 2 ^ 14" "KERNEL_STACK_ALIGN_SIZE - 1 = mask 14"
    by (simp_all add: stack_consts mask_eq_exp_minus_1)
  have s1: "cadd sp KERNEL_STACK_ALIGN_SIZE = Inr (sp + KERNEL_STACK_ALIGN_SIZE)"
    "unat (sp + KERNEL_STACK_ALIGN_SIZE) = unat sp + 2 ^ 14"
    using sp u(2) a(1) by (simp_all add: cadd_Inr unat_add_noof)
  have s2: "csub (sp + KERNEL_STACK_ALIGN_SIZE) 1 = Inr (sp + KERNEL_STACK_ALIGN_SIZE - 1)"
    "unat (sp + KERNEL_STACK_ALIGN_SIZE - 1) = unat sp + 2 ^ 14 - 1"
    using s1(2) by (simp_all add: csub_Inr word_le_nat_alt unat_sub_noof)
  have s3: "csub KERNEL_STACK_ALIGN_SIZE 1 = Inr (mask 14)"
    using a by (simp add: csub_Inr word_le_nat_alt)
  obtain m where m: "unat (rg_end r) = 2 ^ 14 * m" "0 < m"
  proof
    show "unat (rg_end r) = 2 ^ 14 * (2 ^ 50 - (unat t + 1))" "0 < 2 ^ 50 - (unat t + 1)"
      using u(1,2) by (simp_all add: diff_mult_distrib2)
  qed
  have "(unat sp + 2 ^ 14 - 1) div 2 ^ 14 = m"
    using sp u(3,4) m by (intro div_nat_eqI) auto
  then have "unat ((sp + KERNEL_STACK_ALIGN_SIZE - 1) AND NOT (mask 14)) = unat (rg_end r)"
    unfolding unat_and_not_mask s2(2) m(1) by simp
  then have "(sp + KERNEL_STACK_ALIGN_SIZE - 1) AND NOT (mask 14) = rg_end r"
    by (rule word_unat_eq_iff [THEN iffD2])
  then show ?thesis
    by (simp only: get_cur_kernel_stack_top_def round_up_def s1(1) s2(1) s3 rbind_simps)
qed

lemma stack_ranges_apart:
  assumes "get_kernel_stack_range t = Inr r" "get_kernel_stack_range u = Inr q" "t < u"
  shows "unat (rg_end q) + 2 ^ 13 \<le> unat (rg_start r)"
proof -
  have "unat t + 1 \<le> unat u" using assms(3) by (simp add: word_less_nat_alt)
  then show ?thesis
    using stack_range_unat [OF assms(1)] stack_range_unat [OF assms(2)] by simp
qed

text \<open>Two stacks are distinct entries of the area map of the kernel, also for the key with which the
  stack of a dropped thread is removed.\<close>

definition stacks_apart :: "va_range \<Rightarrow> va_range \<Rightarrow> bool" where
  "stacks_apart r q \<longleftrightarrow>
     (unat (rg_end q) + unat KERNEL_STACK_GUARD_PAGE_SIZE \<le> unat (rg_start r) \<or>
      unat (rg_end r) + unat KERNEL_STACK_GUARD_PAGE_SIZE \<le> unat (rg_start q)) \<and>
     va_range_cmp r q \<noteq> Equal \<and> va_range_cmp q \<lparr>rg_start = rg_end r, rg_end = rg_end r\<rparr> \<noteq> Equal"

lemma distinct_threads_stacks:
  assumes r: "get_kernel_stack_range t = Inr r" and q: "get_kernel_stack_range u = Inr q" and "t \<noteq> u"
  shows "stacks_apart r q"
proof -
  have "t < u \<or> u < t" using assms(3) by auto
  then have apart: "unat (rg_end q) + 2 ^ 13 \<le> unat (rg_start r) \<or> unat (rg_end r) + 2 ^ 13 \<le> unat (rg_start q)"
    using stack_ranges_apart r q by blast
  have g: "unat KERNEL_STACK_GUARD_PAGE_SIZE = 2 ^ 13"
    by (simp add: KERNEL_STACK_GUARD_PAGE_SIZE_def stack_consts)
  show ?thesis
    using apart stack_range_unat(3,4) [OF r] stack_range_unat(3,4) [OF q]
    by (auto simp: stacks_apart_def g va_range_cmp_def va_range_eq_def word_le_nat_alt)
qed

text \<open>C17: Thread ids and kernel stacks. In every state reached by creating threads and dropping live
  ones the live threads have distinct ids, a new id is not the id of a live thread, and dropping a
  live thread never trips the assertions of the allocator. The kernel stacks of two live threads do
  not overlap and keep the guard distance, so the kernel's area map holds both and the key with which
  a thread's stack is removed selects its own area only; and from any stack pointer inside a stack
  \<open>get_cur_kernel_stack_top\<close> finds the top of that stack.\<close>

theorem live_threads_have_own_stacks:
  assumes "tid_reach s live"
  shows "distinct live \<and>
    (\<forall>t s'. tid_alloc s = (Inr t, s') \<longrightarrow> t \<notin> set live) \<and>
    (\<forall>t \<in> set live. \<exists>s'. tid_dealloc t s = (Inr (), s')) \<and>
    (\<forall>t \<in> set live. \<forall>u \<in> set live. \<forall>r q. t \<noteq> u \<longrightarrow> get_kernel_stack_range t = Inr r \<longrightarrow>
       get_kernel_stack_range u = Inr q \<longrightarrow> stacks_apart r q) \<and>
    (\<forall>t \<in> set live. \<forall>r sp. get_kernel_stack_range t = Inr r \<longrightarrow> rg_start r < sp \<longrightarrow> sp < rg_end r \<longrightarrow>
       get_cur_kernel_stack_top sp = Inr (rg_end r))"
proof -
  have inv: "tid_inv s live" by (rule tid_reach_inv [OF assms])
  then have "distinct live" by (simp add: tid_inv_def)
  moreover have "t \<notin> set live" if "tid_alloc s = (Inr t, s')" for t s'
    using tid_inv_alloc [OF inv that] by (simp add: tid_inv_def)
  ultimately show ?thesis
    using tid_inv_dealloc [OF inv] distinct_threads_stacks cur_stack_top by blast
qed

text \<open>Three threads, the middle one dropped, its id reused.\<close>

lemma demo_tids: "tid_reach \<lparr>ta_current = 3, ta_recycled = []\<rparr> [1, 2, 0]"
proof -
  note a = tid_reach.alloc
  have "tid_reach \<lparr>ta_current = 1, ta_recycled = []\<rparr> [0]"
    by (rule a [OF tid_reach.init]) (simp add: tid_alloc_def tid_allocator_new_def cadd_def)
  then have "tid_reach \<lparr>ta_current = 2, ta_recycled = []\<rparr> [1, 0]"
    by (rule a) (simp add: tid_alloc_def cadd_def)
  then have "tid_reach \<lparr>ta_current = 3, ta_recycled = []\<rparr> [2, 1, 0]"
    by (rule a) (simp add: tid_alloc_def cadd_def)
  then have "tid_reach \<lparr>ta_current = 3, ta_recycled = [1]\<rparr> (remove1 1 [2, 1, 0])"
    by (rule tid_reach.drop) (simp_all add: tid_dealloc_def)
  then have "tid_reach \<lparr>ta_current = 3, ta_recycled = [1]\<rparr> [2, 0]" by simp
  then show ?thesis by (rule a) (simp add: tid_alloc_def)
qed

theorem live_threads_have_own_stacks_witness:
  "\<exists>r q. get_kernel_stack_range 1 = Inr r \<and> get_kernel_stack_range 2 = Inr q \<and>
    stacks_apart r q \<and> get_cur_kernel_stack_top (rg_end r - 8) = Inr (rg_end r)"
proof -
  obtain r q where rq: "get_kernel_stack_range 1 = Inr r" "get_kernel_stack_range 2 = Inr q"
    using stack_range_ok [of 1] stack_range_ok [of 2] by auto
  have "rg_start r < rg_end r - 8" "rg_end r - 8 < rg_end r"
    using rq(1) by (auto simp: get_kernel_stack_range_def cmul_def csub_def stack_consts)
  with rq live_threads_have_own_stacks [OF demo_tids] show ?thesis by auto
qed

section \<open>Timers\<close>

definition timer_ok :: "'cb timer \<Rightarrow> bool" where
  "timer_ok es \<longleftrightarrow> sorted (map fst es) \<and> distinct (map fst es)"

lemma timer_ok_Cons: "timer_ok ((k, cb) # es) \<longleftrightarrow> timer_ok es \<and> (\<forall>j \<in> fst ` set es. k < j)"
  by (force simp: timer_ok_def order_le_less)

lemma set_timer_insert:
  "timer_ok es \<Longrightarrow> k \<notin> fst ` set es \<Longrightarrow> set (timer_insert k cb es) = insert (k, cb) (set es)"
  by (induction k cb es rule: timer_insert.induct) (auto simp: timer_ok_Cons)

lemma timer_ok_insert: "timer_ok es \<Longrightarrow> k \<notin> fst ` set es \<Longrightarrow> timer_ok (timer_insert k cb es)"
proof (induction es)
  case Nil
  show ?case by (simp add: timer_ok_def)
next
  case (Cons e es)
  obtain j c where e: "e = (j, c)" by (cases e)
  have ok: "timer_ok es" "\<forall>i \<in> fst ` set es. j < i" and new: "k \<noteq> j" "k \<notin> fst ` set es"
    using Cons.prems by (auto simp: e timer_ok_Cons)
  show ?case
  proof (cases "k < j")
    case True
    then show ?thesis using Cons.prems(1) ok(2) by (auto simp: e timer_ok_Cons)
  next
    case False
    have "fst ` set (timer_insert k cb es) = insert k (fst ` set es)"
      by (simp add: set_timer_insert [OF ok(1) new(2)])
    then show ?thesis using False new Cons.IH [OF ok(1) new(2)] ok(2) by (simp add: e timer_ok_Cons)
  qed
qed

text \<open>The search for a free deadline passes only taken ones.\<close>

lemma timer_free_key_spec:
  assumes "timer_free_key d es = Inr k"
  shows "d \<le> k \<and> k \<notin> fst ` set es \<and> (\<forall>j. d \<le> j \<and> j < k \<longrightarrow> j \<in> fst ` set es)"
  using assms
proof (induction d es rule: timer_free_key.induct)
  case (1 d es)
  show ?case
  proof (cases "d \<in> set (map fst es)")
    case True
    with "1.prems" have "d + 1 < DURATION_LIMIT" "timer_free_key (d + 1) es = Inr k"
      by (auto simp: timer_free_key.simps [of d] split: if_splits)
    note ih = "1.IH" [OF True this]
    have "j \<in> fst ` set es" if "d \<le> j" "j < k" for j
      using that ih True by (cases "j = d") auto
    with ih show ?thesis by simp
  next
    case False
    with "1.prems" show ?thesis by (auto simp: timer_free_key.simps [of d])
  qed
qed

lemma timer_expire_eq:
  assumes "timer_ok es"
  shows "timer_expire run now (es, s) =
    (filter (\<lambda>e. now < fst e) es, fold run (map snd (filter (\<lambda>e. fst e \<le> now) es)) s)"
  using assms
proof (induction es arbitrary: s)
  case (Cons e es)
  obtain k cb where e: "e = (k, cb)" by (cases e)
  have ok: "timer_ok es" "\<forall>j \<in> fst ` set es. k < j" using Cons.prems by (auto simp: e timer_ok_Cons)
  show ?case
  proof (cases "now < k")
    case True
    then have "filter (\<lambda>e. now < fst e) es = es" "filter (\<lambda>e. fst e \<le> now) es = []"
      using ok(2) by (force simp: filter_id_conv filter_empty_conv)+
    with True show ?thesis by (simp add: e)
  next
    case False
    then show ?thesis using Cons.IH [OF ok(1)] by (simp add: e)
  qed
qed simp

text \<open>C28: Timers. Registering keeps every event that was there and adds the callback under the first
  free deadline at or after the requested one; a tick then runs exactly the callbacks whose deadline
  has passed, in the order of the deadlines, removes them and keeps the rest.\<close>

theorem timer_register_expire:
  assumes "timer_ok es" "timer_register d cb es = Inr es'"
  shows "timer_ok es' \<and>
    (\<exists>k \<ge> d. set es' = insert (k, cb) (set es) \<and> k \<notin> fst ` set es \<and>
       (\<forall>j. d \<le> j \<and> j < k \<longrightarrow> j \<in> fst ` set es)) \<and>
    timer_expire run now (es', s) =
      (filter (\<lambda>e. now < fst e) es', fold run (map snd (filter (\<lambda>e. fst e \<le> now) es')) s)"
proof -
  obtain k where k: "timer_free_key d es = Inr k" "es' = timer_insert k cb es"
    using assms(2) by (auto simp: timer_register_def)
  note spec = timer_free_key_spec [OF k(1)]
  have ok: "timer_ok es'" using timer_ok_insert [OF assms(1)] spec k(2) by simp
  moreover have "set es' = insert (k, cb) (set es)"
    using set_timer_insert [OF assms(1)] spec k(2) by simp
  ultimately show ?thesis using spec by (simp only: timer_expire_eq [OF ok]) blast
qed

theorem timer_register_expire_witness:
  "\<exists>es'. timer_register 5 ''b'' [(3, ''a''), (5, ''c''), (8, ''d'')] = Inr es' \<and>
    timer_expire (#) 6 (es', []) = ([(8, ''d'')], [''b'', ''c'', ''a''])"
proof -
  let ?es = "[(3, ''a''), (5, ''c''), (8, ''d'')]"
  have "timer_free_key 6 ?es = Inr 6" by (subst timer_free_key.simps) simp
  then have "timer_free_key 5 ?es = Inr 6" by (subst timer_free_key.simps) (simp add: DURATION_LIMIT_def)
  then have r: "timer_register 5 ''b'' ?es = Inr [(3, ''a''), (5, ''c''), (6, ''b''), (8, ''d'')]"
    by (simp add: timer_register_def)
  have "timer_ok ?es" by (simp add: timer_ok_def)
  from timer_register_expire [OF this r, of "(#)" 6 "[]"] r show ?thesis by simp
qed

subsection \<open>Sleeping\<close>

lemma set_status_other [simp]: "r \<noteq> r' \<Longrightarrow> set_status r st ths r' = ths r'"
  by (simp add: set_status_def split: option.splits)

lemma set_status_same: "ths r = Some i \<Longrightarrow> set_status r st ths r = Some (i\<lparr>th_status := st\<rparr>)"
  by (simp add: set_status_def)

lemma wake_all:
  assumes "ths r = Some i"
  shows "\<exists>i'. fold wake rs ths r = Some i' \<and> th_status i' = (if r \<in> set rs then Ready else th_status i)"
  using assms
proof (induction rs arbitrary: ths i)
  case (Cons x rs)
  have "\<exists>i'. wake x ths r = Some i' \<and> th_status i' = (if x = r then Ready else th_status i)"
    using Cons.prems by (cases "x = r") (auto simp: wake_def set_status_same)
  then obtain i' where i': "wake x ths r = Some i'" "th_status i' = (if x = r then Ready else th_status i)" by blast
  from Cons.IH [of "wake x ths", OF i'(1)] i'(2) show ?case by (auto split: if_splits)
qed simp

text \<open>A thread that went to sleep is woken by the first tick at or after its deadline and by none before,
  unless another timer of the same thread fires.\<close>

lemma tick_wakes_sleeper:
  assumes "timer_ok (sl_timer s)" "(k, r) \<in> set (sl_timer s)" "sl_threads s r = Some i"
    "\<forall>j. (j, r) \<in> set (sl_timer s) \<longrightarrow> j = k" "get_duration bd t = Inr now"
  shows "\<exists>s' i'. tick bd t s = (Inr (), s') \<and> sl_threads s' r = Some i' \<and>
    th_status i' = (if k \<le> now then Ready else th_status i) \<and> ((k, r) \<in> set (sl_timer s') \<longleftrightarrow> now < k)"
proof -
  let ?rs = "map snd (filter (\<lambda>e. fst e \<le> now) (sl_timer s))"
  let ?s = "s\<lparr>sl_ticks := sl_ticks s + 1, sl_timer := filter (\<lambda>e. now < fst e) (sl_timer s),
     sl_threads := fold wake ?rs (sl_threads s)\<rparr>"
  have "r \<in> set ?rs \<longleftrightarrow> (\<exists>j \<le> now. (j, r) \<in> set (sl_timer s))" by (force simp: image_iff)
  also have "\<dots> \<longleftrightarrow> k \<le> now" using assms(2,4) by blast
  finally have due: "r \<in> set ?rs \<longleftrightarrow> k \<le> now" .
  obtain i' where i': "fold wake ?rs (sl_threads s) r = Some i'"
    "th_status i' = (if r \<in> set ?rs then Ready else th_status i)"
    using wake_all [of "sl_threads s" r i ?rs] assms(3) by blast
  have "tick bd t s = (Inr (), ?s)"
    using assms(5) by (simp add: tick_def timer_expire_eq [OF assms(1)])
  moreover have "sl_threads ?s r = Some i'" "th_status i' = (if k \<le> now then Ready else th_status i)"
    using i' by (simp_all only: due) simp
  moreover have "(k, r) \<in> set (sl_timer ?s) \<longleftrightarrow> now < k" using assms(2) by simp
  ultimately show ?thesis by blast
qed

text \<open>The two steps of \<open>sys_nanosleep\<close> can be separated by a tick. If the deadline has passed by then
  the wake-up is lost: the thread waits and no timer is left to wake it.\<close>

lemma nanosleep_lost_wakeup:
  assumes "sl_timer s = []" "sl_threads s r = Some i" "nanosleep_register bd r req t s = (Inr (), s1)"
    "tick bd t' s1 = (Inr (), s2)" "get_duration bd t = Inr d" "get_duration bd t' = Inr now" "d + req \<le> now"
  shows "sl_timer (nanosleep_sleep r s2) = [] \<and>
    (\<exists>i'. sl_threads (nanosleep_sleep r s2) r = Some i' \<and> th_status i' = Waiting)"
proof -
  have "s1 = s\<lparr>sl_timer := [(req + d, r)]\<rparr>"
    using assms(1,3,5)
    by (auto simp: nanosleep_register_def duration_add_def timer_register_def timer_free_key.simps
        split: sum.splits if_splits)
  with assms(2,4,6,7) have "s2 = s1\<lparr>sl_ticks := sl_ticks s + 1, sl_timer := [], sl_threads := wake r (sl_threads s)\<rparr>"
    by (auto simp: tick_def Let_def split: if_splits)
  with assms(2) show ?thesis by (simp add: nanosleep_sleep_def wake_def set_status_same)
qed

text \<open>\<open>gettimeofday\<close> divides the counter by whole ticks per microsecond: on the K210 (6.5 ticks) a second
  of the counter is reported as more than a second.\<close>

lemma k210_clock_runs_fast: "get_time K210 (CLOCK_FREQ K210) = (1, 83333)"
  by (simp add: get_time_def CLOCK_FREQ_def)

text \<open>The counter times a million leaves \<open>u64\<close> after \<open>2 ^ 64 / 10 ^ 6\<close> ticks (about 21 days at 10 MHz):
  every tick then panics.\<close>

lemma tick_overflows:
  assumes "2 ^ 64 \<le> t * 1000000"
  shows "fst (tick bd t s) = Inl (Panic Overflow)"
  using assms by (simp add: tick_def get_duration_def)

end
