(* ===== verification/Kernel_Pipe.thy ===== *)
theory Kernel_Pipe
  imports Kernel_Thread Byte_Stream
begin

text \<open>
  Pipes, \<open>kernel/src/fs/pipe.rs\<close>. The two ends share the queue of bytes and a condition variable; the
  read end owns the queue (\<open>Arc\<close>), the write end has a weak reference to it, so the number of weak
  references tells the reader whether the write end still exists and an upgrade tells the writer
  whether the read end does. \<open>read\<close> blocks: one turn of its loop either returns or marks the thread as
  waiting and gives up the processor.

  The kernel runs on one hart and a thread in the kernel is not preempted (the timer interrupt
  switches threads only when it came from user mode), so a turn of the loop is one step of the
  state machine \<open>pipe_step\<close>; between two turns any other step may happen. The invariant of the
  reachable states: bytes arrive in the order they were written, none is lost or duplicated, and no
  reader sleeps while there are bytes.
\<close>

section \<open>The two ends\<close>

record pipe =
  pp_data :: "u8 list"
  pp_reader :: bool
  pp_writer :: bool
  pp_cond :: condvar

definition pipe_new :: pipe where
  "pipe_new = \<lparr>pp_data = [], pp_reader = True, pp_writer = True, pp_cond = []\<rparr>"

text \<open>The copy loop in the critical section of \<open>read\<close>: the bytes stored in the buffer and the queue.\<close>

fun pipe_take :: "nat \<Rightarrow> u8 list \<Rightarrow> u8 list \<times> u8 list" where
  "pipe_take 0 data = ([], data)"
| "pipe_take (Suc n) [] = ([], [])"
| "pipe_take (Suc n) (b # data) = (let (bs, rest) = pipe_take n data in (b # bs, rest))"

text \<open>One turn of \<open>PipeRead::read\<close> by the thread \<open>cur\<close> with a buffer of \<open>n\<close> bytes. \<open>None\<close>: the thread
  yields and tries again when it is scheduled.\<close>

definition pipe_read :: "nat \<Rightarrow> nat \<Rightarrow> pipe \<times> threads \<Rightarrow> u8 list option \<times> pipe \<times> threads" where
  "pipe_read n cur = (\<lambda>(p, ths).
     if n = 0 then (Some [], p, ths)
     else
       let (bs, rest) = pipe_take n (pp_data p);
           p1 = p\<lparr>pp_data := rest\<rparr>;
           (p2, ths2) = (if bs = [] then let (q, ths') = condvar_wait cur (pp_cond p1, ths) in (p1\<lparr>pp_cond := q\<rparr>, ths')
                         else (p1, ths))
       in if bs \<noteq> [] then (Some bs, p2, ths2)
          else if \<not> pp_writer p2 then (Some [], p2, ths2)
          else (None, p2, ths2))"

fun push_back_all :: "u8 list \<Rightarrow> u8 list \<Rightarrow> u8 list" where
  "push_back_all [] data = data"
| "push_back_all (b # bs) data = push_back_all bs (data @ [b])"

definition pipe_write :: "u8 list \<Rightarrow> pipe \<times> threads \<Rightarrow> nat res \<times> pipe \<times> threads" where
  "pipe_write buf = (\<lambda>(p, ths).
     if pp_reader p then
       let (q, ths') = condvar_notify_all (pp_cond p, ths)
       in (Inr (length buf), p\<lparr>pp_data := push_back_all buf (pp_data p), pp_cond := q\<rparr>, ths')
     else (Inl (Io BrokenPipe), p, ths))"

text \<open>The operations the ends do not have.\<close>

definition pipe_read_end_write :: "u8 list \<Rightarrow> nat res" where
  "pipe_read_end_write buf = Inl (Io PermissionDenied)"

definition pipe_write_end_read :: "nat \<Rightarrow> nat res" where
  "pipe_write_end_read n = Inl (Io PermissionDenied)"

definition pipe_flush :: "unit res" where
  "pipe_flush = Inl (Io PermissionDenied)"

definition pipe_seek :: "seek_from \<Rightarrow> nat res" where
  "pipe_seek sf = Inr 0"

definition pipe_get_fstat :: "unit res" where
  "pipe_get_fstat = Inl (Panic Todo)"

definition pipe_get_dents64 :: "unit res" where
  "pipe_get_dents64 = Inl (Panic Todo)"

text \<open>Dropping an end. The queue dies with the read end; nothing is notified.\<close>

definition pipe_drop_read :: "pipe \<Rightarrow> pipe" where
  "pipe_drop_read p = p\<lparr>pp_data := [], pp_reader := False\<rparr>"

definition pipe_drop_write :: "pipe \<Rightarrow> pipe" where
  "pipe_drop_write p = p\<lparr>pp_writer := False\<rparr>"

section \<open>What a turn does\<close>

lemma pipe_take_eq: "pipe_take n data = (take n data, drop n data)"
  by (induction n data rule: pipe_take.induct) auto

lemma push_back_all_eq: "push_back_all bs data = data @ bs"
  by (induction bs arbitrary: data) auto

lemma notify_all_eq:
  "condvar_notify_all (q, ths) = ([], fold (\<lambda>r. set_status r Ready) q ths)"
  by (induction q arbitrary: ths) auto

lemma fold_ready:
  assumes "ths r = Some i"
  shows "\<exists>i'. fold (\<lambda>r. set_status r Ready) q ths r = Some i' \<and>
    th_status i' = (if r \<in> set q then Ready else th_status i)"
  using wake_all [of ths r i q] assms by (simp add: wake_def [abs_def])

lemma pipe_read_data:
  "n \<noteq> 0 \<Longrightarrow> pp_data p \<noteq> [] \<Longrightarrow>
   pipe_read n cur (p, ths) = (Some (take n (pp_data p)), p\<lparr>pp_data := drop n (pp_data p)\<rparr>, ths)"
  by (simp add: pipe_read_def pipe_take_eq)

lemma pipe_read_empty:
  "n \<noteq> 0 \<Longrightarrow> pp_data p = [] \<Longrightarrow>
   pipe_read n cur (p, ths) =
     (if pp_writer p then None else Some [], p\<lparr>pp_data := [], pp_cond := pp_cond p @ [cur]\<rparr>, set_status cur Waiting ths)"
  by (simp add: pipe_read_def pipe_take_eq condvar_wait_def)

lemma pipe_write_eq:
  "pipe_write buf (p, ths) =
     (if pp_reader p then
        (Inr (length buf), p\<lparr>pp_data := pp_data p @ buf, pp_cond := []\<rparr>, fold (\<lambda>r. set_status r Ready) (pp_cond p) ths)
      else (Inl (Io BrokenPipe), p, ths))"
  by (simp add: pipe_write_def push_back_all_eq notify_all_eq)

section \<open>Readers and writers\<close>

text \<open>
  \<open>ps_asleep r = Some n\<close>: the thread \<open>r\<close> yielded inside a read of \<open>n\<close> bytes. \<open>ps_written\<close> and \<open>ps_read\<close> record
  the bytes that writes accepted and reads returned. A sleeping thread runs again only when its status
  is \<open>Ready\<close>; \<open>Other_wake\<close> is a wake-up from elsewhere.
\<close>

record pipe_sys =
  ps_pipe :: pipe
  ps_threads :: threads
  ps_asleep :: "nat \<Rightarrow> nat option"
  ps_written :: "u8 list"
  ps_read :: "u8 list"

definition is_ready :: "threads \<Rightarrow> nat \<Rightarrow> bool" where
  "is_ready ths r \<longleftrightarrow> (\<exists>i. ths r = Some i \<and> th_status i = Ready)"

definition after_turn :: "nat \<Rightarrow> nat \<Rightarrow> pipe_sys \<Rightarrow> pipe_sys" where
  "after_turn n r s =
     (let (res, p, ths) = pipe_read n r (ps_pipe s, ps_threads s)
      in s\<lparr>ps_pipe := p, ps_threads := ths,
           ps_asleep := (ps_asleep s)(r := (case res of None \<Rightarrow> Some n | Some _ \<Rightarrow> None)),
           ps_read := ps_read s @ (case res of None \<Rightarrow> [] | Some bs \<Rightarrow> bs)\<rparr>)"

inductive pipe_step :: "pipe_sys \<Rightarrow> pipe_sys \<Rightarrow> bool" where
  Read: "pp_reader (ps_pipe s) \<Longrightarrow> ps_asleep s r = None \<Longrightarrow> ps_threads s r \<noteq> None \<Longrightarrow>
    pipe_step s (after_turn n r s)"
| Resume: "pp_reader (ps_pipe s) \<Longrightarrow> ps_asleep s r = Some n \<Longrightarrow> is_ready (ps_threads s) r \<Longrightarrow>
    pipe_step s (after_turn n r s)"
| Write: "pp_writer (ps_pipe s) \<Longrightarrow> pipe_write bs (ps_pipe s, ps_threads s) = (Inr k, p, ths) \<Longrightarrow>
    pipe_step s (s\<lparr>ps_pipe := p, ps_threads := ths, ps_written := ps_written s @ bs\<rparr>)"
| Close_write: "pipe_step s (s\<lparr>ps_pipe := pipe_drop_write (ps_pipe s)\<rparr>)"
| Other_wake: "pipe_step s (s\<lparr>ps_threads := set_status r Ready (ps_threads s)\<rparr>)"

inductive pipe_reach :: "pipe_sys \<Rightarrow> bool" where
  init: "(\<And>r i. ths r = Some i \<Longrightarrow> th_status i = Ready) \<Longrightarrow>
    pipe_reach \<lparr>ps_pipe = pipe_new, ps_threads = ths, ps_asleep = Map.empty, ps_written = [], ps_read = []\<rparr>"
| step: "pipe_reach s \<Longrightarrow> pipe_step s s' \<Longrightarrow> pipe_reach s'"

inductive_cases pipe_stepE: "pipe_step s s'"

text \<open>The invariant: a reader that is not ready is in the queue of the condition variable, and the queue is
  empty whenever there are bytes.\<close>

definition pipe_inv :: "pipe_sys \<Rightarrow> bool" where
  "pipe_inv s \<longleftrightarrow>
     pp_reader (ps_pipe s) \<and>
     ps_written s = ps_read s @ pp_data (ps_pipe s) \<and>
     (\<forall>r n. ps_asleep s r = Some n \<longrightarrow> n \<noteq> 0 \<and> ps_threads s r \<noteq> None) \<and>
     (\<forall>r i. ps_threads s r = Some i \<longrightarrow> th_status i = Ready \<or> r \<in> set (pp_cond (ps_pipe s))) \<and>
     (pp_data (ps_pipe s) \<noteq> [] \<longrightarrow> pp_cond (ps_pipe s) = [])"

lemma set_status_None [simp]: "set_status r st ths r' = None \<longleftrightarrow> ths r' = None"
  by (simp add: set_status_def split: option.splits)

lemma fold_status_None: "fold (\<lambda>r. set_status r st) q ths r' = None \<longleftrightarrow> ths r' = None"
  by (induction q arbitrary: ths) auto

lemma after_turn_inv:
  assumes inv: "pipe_inv s" and alive: "ps_threads s r \<noteq> None"
  shows "pipe_inv (after_turn n r s)"
proof (cases "n = 0 \<or> pp_data (ps_pipe s) \<noteq> []")
  case True
  then have "after_turn n r s = s\<lparr>ps_pipe := (ps_pipe s)\<lparr>pp_data := drop n (pp_data (ps_pipe s))\<rparr>,
      ps_asleep := (ps_asleep s)(r := None), ps_read := ps_read s @ take n (pp_data (ps_pipe s))\<rparr>"
  proof (cases "n = 0")
    case True
    then show ?thesis by (simp add: after_turn_def pipe_read_def)
  qed (simp add: after_turn_def pipe_read_data)
  with inv show ?thesis by (auto simp: pipe_inv_def)
next
  case False
  let ?p = "ps_pipe s"
  have e: "after_turn n r s = s\<lparr>ps_pipe := ?p\<lparr>pp_data := [], pp_cond := pp_cond ?p @ [r]\<rparr>,
      ps_threads := set_status r Waiting (ps_threads s),
      ps_asleep := (ps_asleep s)(r := if pp_writer ?p then Some n else None)\<rparr>"
    using False by (auto simp: after_turn_def pipe_read_empty)
  have "r' = r \<or> ps_threads s r' = Some i" if "set_status r Waiting (ps_threads s) r' = Some i" for r' i
    using that by (cases "r = r'") auto
  then have "\<forall>r' i. set_status r Waiting (ps_threads s) r' = Some i \<longrightarrow>
      th_status i = Ready \<or> r' \<in> set (pp_cond ?p @ [r])"
    using inv unfolding pipe_inv_def by (metis in_set_conv_decomp set_append Un_iff append_Nil2)
  with inv False alive show ?thesis by (auto simp: e pipe_inv_def)
qed

lemma write_inv:
  assumes inv: "pipe_inv s" and wr: "pipe_write bs (ps_pipe s, ps_threads s) = (Inr k, p, ths)"
  shows "pipe_inv (s\<lparr>ps_pipe := p, ps_threads := ths, ps_written := ps_written s @ bs\<rparr>)"
proof -
  let ?f = "fold (\<lambda>r. set_status r Ready) (pp_cond (ps_pipe s))"
  from inv wr have p: "p = (ps_pipe s)\<lparr>pp_data := pp_data (ps_pipe s) @ bs, pp_cond := []\<rparr>" "ths = ?f (ps_threads s)"
    by (auto simp: pipe_write_eq pipe_inv_def)
  have "th_status i = Ready" if i: "?f (ps_threads s) r = Some i" for r i
  proof -
    obtain j where j: "ps_threads s r = Some j" using i fold_status_None [of Ready "pp_cond (ps_pipe s)" "ps_threads s" r]
      by (cases "ps_threads s r") auto
    then have "th_status j = Ready \<or> r \<in> set (pp_cond (ps_pipe s))" using inv by (auto simp: pipe_inv_def)
    with fold_ready [of "ps_threads s" r j "pp_cond (ps_pipe s)"] i j show ?thesis by (auto split: if_splits)
  qed
  with inv show ?thesis by (auto simp: p pipe_inv_def fold_status_None)
qed

lemma other_wake_inv: "pipe_inv s \<Longrightarrow> pipe_inv (s\<lparr>ps_threads := set_status r Ready (ps_threads s)\<rparr>)"
  unfolding pipe_inv_def set_status_def by (auto split: option.splits)

lemma pipe_step_inv: "pipe_step s s' \<Longrightarrow> pipe_inv s \<Longrightarrow> pipe_inv s'"
proof (induction rule: pipe_step.induct)
  case (Read s r n)
  then show ?case by (simp add: after_turn_inv)
next
  case (Resume s r n)
  then have "ps_threads s r \<noteq> None" by (auto simp: is_ready_def)
  with Resume show ?case by (simp add: after_turn_inv)
next
  case (Write s bs k p ths)
  then show ?case by (simp add: write_inv)
next
  case (Close_write s)
  then show ?case by (auto simp: pipe_inv_def pipe_drop_write_def)
next
  case (Other_wake s r)
  then show ?case by (rule other_wake_inv)
qed

lemma pipe_reach_inv: "pipe_reach s \<Longrightarrow> pipe_inv s"
proof (induction rule: pipe_reach.induct)
  case (init ths)
  then show ?case by (auto simp: pipe_inv_def pipe_new_def)
next
  case (step s s')
  then show ?case by (blast intro: pipe_step_inv)
qed

text \<open>C5: Pipes under every interleaving of reads, writes, wake-ups and the closing of the write end: the
  bytes returned so far followed by the bytes in the pipe are exactly the bytes written, in order; a
  reader that sleeps while there are bytes has been made ready, and when it runs again its read
  returns the next bytes, at least one and at most as many as it asked for. A read of a positive
  number of bytes that returns none does so only on an empty pipe without a write end, and a thread is
  put to sleep only while the pipe is empty and has a write end.\<close>

theorem pipe_fifo_and_wakeup:
  assumes "pipe_reach s"
  shows "ps_written s = ps_read s @ pp_data (ps_pipe s) \<and>
    (\<forall>r n. ps_asleep s r = Some n \<longrightarrow> pp_data (ps_pipe s) \<noteq> [] \<longrightarrow>
       is_ready (ps_threads s) r \<and>
       (\<exists>bs p ths. pipe_read n r (ps_pipe s, ps_threads s) = (Some bs, p, ths) \<and>
          bs = take n (pp_data (ps_pipe s)) \<and> bs \<noteq> [] \<and> pp_data p = drop n (pp_data (ps_pipe s)))) \<and>
    (\<forall>r n p ths. 0 < n \<longrightarrow> pipe_read n r (ps_pipe s, ps_threads s) = (Some [], p, ths) \<longrightarrow>
       pp_data (ps_pipe s) = [] \<and> \<not> pp_writer (ps_pipe s)) \<and>
    (\<forall>r n p ths. pipe_read n r (ps_pipe s, ps_threads s) = (None, p, ths) \<longrightarrow>
       pp_data (ps_pipe s) = [] \<and> pp_writer (ps_pipe s))"
proof -
  have inv: "pipe_inv s" by (rule pipe_reach_inv [OF assms])
  let ?d = "pp_data (ps_pipe s)"
  have asleep: "is_ready (ps_threads s) r" "n \<noteq> 0" if a: "ps_asleep s r = Some n" and d: "?d \<noteq> []" for r n
  proof -
    show "n \<noteq> 0" using inv a by (auto simp: pipe_inv_def)
    obtain i where "ps_threads s r = Some i" using inv a by (fastforce simp: pipe_inv_def)
    moreover from inv d have "pp_cond (ps_pipe s) = []" by (simp add: pipe_inv_def)
    ultimately show "is_ready (ps_threads s) r" using inv by (auto simp: is_ready_def pipe_inv_def)
  qed
  have eof: "?d = [] \<and> \<not> pp_writer (ps_pipe s)"
    if "0 < n" "pipe_read n r (ps_pipe s, ps_threads s) = (Some [], p, ths)" for r n p ths
    using that pipe_read_data [of n "ps_pipe s" r "ps_threads s"] pipe_read_empty [of n "ps_pipe s" r "ps_threads s"]
    by (cases "?d = []") (auto split: if_splits)
  have sleep: "?d = [] \<and> pp_writer (ps_pipe s)"
    if "pipe_read n r (ps_pipe s, ps_threads s) = (None, p, ths)" for r n p ths
  proof (cases "n = 0")
    case True
    with that show ?thesis by (simp add: pipe_read_def)
  next
    case False
    then show ?thesis
      using that pipe_read_data [of n "ps_pipe s" r "ps_threads s"] pipe_read_empty [of n "ps_pipe s" r "ps_threads s"]
      by (cases "?d = []") (auto split: if_splits)
  qed
  have "\<exists>bs p ths. pipe_read n r (ps_pipe s, ps_threads s) = (Some bs, p, ths) \<and>
          bs = take n ?d \<and> bs \<noteq> [] \<and> pp_data p = drop n ?d" if "ps_asleep s r = Some n" "?d \<noteq> []" for r n
    using asleep(2) [OF that] that(2) by (simp add: pipe_read_data)
  moreover have "ps_written s = ps_read s @ ?d" using inv by (simp add: pipe_inv_def)
  ultimately show ?thesis using asleep(1) eof sleep by blast
qed

text \<open>A reader goes to sleep on an empty pipe and a writer fills it.\<close>

definition demo_threads :: threads where
  "demo_threads = Map.empty(1 \<mapsto> \<lparr>th_status = Ready, th_cycles = 0, th_set_child_tid = 0, th_clear_child_tid = 0\<rparr>,
     2 \<mapsto> \<lparr>th_status = Ready, th_cycles = 0, th_set_child_tid = 0, th_clear_child_tid = 0\<rparr>)"

definition demo_pipe0 :: pipe_sys where
  "demo_pipe0 = \<lparr>ps_pipe = pipe_new, ps_threads = demo_threads, ps_asleep = Map.empty, ps_written = [], ps_read = []\<rparr>"

definition demo_pipe :: pipe_sys where
  "demo_pipe = (let s = after_turn 4 1 demo_pipe0; (_, p, ths) = pipe_write [10, 20, 30] (ps_pipe s, ps_threads s)
     in s\<lparr>ps_pipe := p, ps_threads := ths, ps_written := ps_written s @ [10, 20, 30]\<rparr>)"

lemmas demo_pipe_simps = demo_pipe_def demo_pipe0_def demo_threads_def after_turn_def pipe_read_def
  pipe_write_def condvar_wait_def pipe_new_def set_status_def eval_nat_numeral

lemma demo_pipe_reach: "pipe_reach demo_pipe"
proof -
  have "pipe_reach demo_pipe0"
    unfolding demo_pipe0_def by (rule pipe_reach.init) (auto simp: demo_threads_def split: if_splits)
  moreover have "pipe_step demo_pipe0 (after_turn 4 1 demo_pipe0)"
    by (rule pipe_step.Read) (auto simp: demo_pipe0_def pipe_new_def demo_threads_def)
  ultimately have r: "pipe_reach (after_turn 4 1 demo_pipe0)" by (rule pipe_reach.step)
  let ?s = "after_turn 4 1 demo_pipe0"
  obtain p ths where w: "pipe_write [10, 20, 30] (ps_pipe ?s, ps_threads ?s) = (Inr 3, p, ths)"
    by (simp add: demo_pipe_simps)
  have "pipe_step ?s (?s\<lparr>ps_pipe := p, ps_threads := ths, ps_written := ps_written ?s @ [10, 20, 30]\<rparr>)"
    by (rule pipe_step.Write [OF _ w]) (simp add: demo_pipe_simps)
  with r have "pipe_reach (?s\<lparr>ps_pipe := p, ps_threads := ths, ps_written := ps_written ?s @ [10, 20, 30]\<rparr>)"
    by (rule pipe_reach.step)
  with w show ?thesis by (simp add: demo_pipe_def Let_def)
qed

theorem pipe_fifo_and_wakeup_witness:
  "ps_asleep demo_pipe 1 = Some 4 \<and> is_ready (ps_threads demo_pipe) 1 \<and>
   fst (pipe_read 4 1 (ps_pipe demo_pipe, ps_threads demo_pipe)) = Some [10, 20, 30]"
proof -
  have "ps_asleep demo_pipe 1 = Some 4" "pp_data (ps_pipe demo_pipe) = [10, 20, 30]"
    by (simp_all add: demo_pipe_simps)
  with pipe_fifo_and_wakeup [OF demo_pipe_reach] obtain bs p ths where
    "is_ready (ps_threads demo_pipe) 1" "pipe_read 4 1 (ps_pipe demo_pipe, ps_threads demo_pipe) = (Some bs, p, ths)"
    "bs = take 4 [10, 20, 30]"
    by (metis list.distinct(1))
  with \<open>ps_asleep demo_pipe 1 = Some 4\<close> show ?thesis by simp
qed

section \<open>The end of a pipe\<close>

text \<open>Dropping the write end wakes nobody: a reader that sleeps then stays asleep, whatever the pipe does.\<close>

lemma close_write_strands_reader:
  assumes "\<not> pp_writer (ps_pipe s)" "ps_asleep s r = Some n" "ps_threads s r = Some i" "th_status i = Waiting"
    "pipe_step s s'" "\<forall>r'. s' \<noteq> s\<lparr>ps_threads := set_status r' Ready (ps_threads s)\<rparr>"
  shows "\<not> pp_writer (ps_pipe s') \<and> ps_asleep s' r = Some n \<and>
    (\<exists>i'. ps_threads s' r = Some i' \<and> th_status i' = Waiting)"
proof -
  have turn: "\<not> pp_writer (ps_pipe (after_turn m r' s)) \<and> ps_asleep (after_turn m r' s) r = Some n \<and>
      ps_threads (after_turn m r' s) r = Some i" if "r' \<noteq> r" for m r'
    using that assms(1-3)
    by (cases "pp_data (ps_pipe s) = []"; cases "m = 0")
      (auto simp: after_turn_def pipe_read_empty pipe_read_data, auto simp: pipe_read_def)
  from assms(5) show ?thesis
  proof (cases rule: pipe_step.cases)
    case (Read r' m)
    with assms(2) have "r' \<noteq> r" by auto
    with turn assms(4) Read show ?thesis by blast
  next
    case (Resume r' m)
    with assms(3,4) have "r' \<noteq> r" by (auto simp: is_ready_def)
    with turn assms(4) Resume show ?thesis by blast
  next
    case (Write bs k p ths)
    with assms(1) show ?thesis by simp
  next
    case Close_write
    with assms(2,3,4) show ?thesis by (simp add: pipe_drop_write_def)
  next
    case (Other_wake r')
    with assms(6) show ?thesis by blast
  qed
qed

text \<open>A read that reports the end of the pipe returns with the thread marked as waiting.\<close>

lemma eof_leaves_thread_waiting:
  assumes "0 < n" "pp_data p = []" "\<not> pp_writer p" "ths r = Some i"
  shows "\<exists>p' ths' i'. pipe_read n r (p, ths) = (Some [], p', ths') \<and> ths' r = Some i' \<and> th_status i' = Waiting"
  using assms by (auto simp: pipe_read_empty set_status_same)

end
