(* ===== verification/Kernel_Path.thy ===== *)
theory Kernel_Path
  imports Prelude
begin

text \<open>
  Paths and mount points of the kernel: \<open>OpenFlags\<close> of \<open>kernel/src/fs/file.rs\<close>, \<open>normalize_path\<close> of
  \<open>kernel/src/syscall/fs.rs\<close>, and the table of mounted file systems of \<open>kernel/src/fs/mod.rs\<close> with
  \<open>filesystem_lookup\<close>, \<open>regeister_file_system\<close>, \<open>mount\<close> and \<open>umount\<close>. A path is its bytes. The table has four
  slots; a slot holds the mount point and the file system \<open>'fs\<close> behind it. The lookup is proved
  equivalent to its specification: the longest mount point that is a prefix of the path at a
  component boundary, and the first slot when there is none.
\<close>

section \<open>Open flags\<close>

definition O_RDONLY :: usize where "O_RDONLY = 0"
definition O_WRONLY :: usize where "O_WRONLY = 1"
definition O_RDWR :: usize where "O_RDWR = 2"
definition O_CREAT :: usize where "O_CREAT = 64"
definition O_APPEND :: usize where "O_APPEND = 1024"
definition O_CLOEXEC :: usize where "O_CLOEXEC = 0x80000"
definition O_DIRECTORY :: usize where "O_DIRECTORY = 0x200000"

definition flags_contain :: "usize \<Rightarrow> usize \<Rightarrow> bool" where
  "flags_contain f g \<longleftrightarrow> f AND g = g"

definition flags_readable :: "usize \<Rightarrow> bool" where
  "flags_readable f \<longleftrightarrow> f AND (O_RDONLY OR O_RDWR) \<noteq> O_WRONLY"

definition flags_writable :: "usize \<Rightarrow> bool" where
  "flags_writable f \<longleftrightarrow> f AND (O_WRONLY OR O_RDWR) \<noteq> O_RDONLY"

section \<open>Normalizing a path\<close>

text \<open>\<open>str::trim_start_matches\<close> and \<open>str::trim_end_matches\<close>. A trim with an empty pattern never occurs.\<close>

function trim_start_matches :: "string \<Rightarrow> string \<Rightarrow> string" where
  "trim_start_matches pat s =
     (if pat \<noteq> [] \<and> take (length pat) s = pat then trim_start_matches pat (drop (length pat) s) else s)"
  by pat_completeness auto
termination
proof (relation "measure (\<lambda>(pat, s). length s)")
  fix pat s :: string assume "pat \<noteq> [] \<and> take (length pat) s = pat"
  then have "pat \<noteq> []" "s \<noteq> []" by auto
  then show "((pat, drop (length pat) s), pat, s) \<in> measure (\<lambda>(pat, s). length s)"
    by (simp add: diff_less)
qed simp

declare trim_start_matches.simps [simp del]

definition trim_end_matches :: "char \<Rightarrow> string \<Rightarrow> string" where
  "trim_end_matches c s = rev (dropWhile (\<lambda>x. x = c) (rev s))"

text \<open>\<open>dir\<close> is the directory the descriptor stands for: the current directory of the process for \<open>AT_FDCWD\<close>, else
  the full path of the descriptor.\<close>

definition normalize_path :: "string \<Rightarrow> string \<Rightarrow> string" where
  "normalize_path dir path =
     (if take 1 path = ''/'' then path
      else let path' = trim_end_matches (CHR ''.'') (trim_start_matches ''./'' path)
           in trim_end_matches (CHR ''/'') dir @ ''/'' @ path')"

section \<open>The table of file systems\<close>

definition MAX_FILE_SYSTEM :: nat where
  "MAX_FILE_SYSTEM = 4"

type_synonym 'fs fs_table = "(string \<times> 'fs) option list"

definition file_system_table_new :: "'fs fs_table" where
  "file_system_table_new = replicate MAX_FILE_SYSTEM None"

text \<open>The loop of the lookup over the slots behind the first: the index of the current slot, the best slot
  so far and its length.\<close>

fun lookup_loop :: "string \<Rightarrow> 'fs fs_table \<Rightarrow> nat \<Rightarrow> nat \<Rightarrow> nat \<Rightarrow> nat" where
  "lookup_loop path [] i ret prev_len = ret"
| "lookup_loop path (None # es) i ret prev_len = lookup_loop path es (i + 1) ret prev_len"
| "lookup_loop path (Some (mp, fs) # es) i ret prev_len =
     (let fspath_len = length mp in
      if fspath_len \<le> length path \<and> fspath_len > prev_len \<and> take fspath_len path = mp then
        (if fspath_len = length path \<or> path ! fspath_len = CHR ''/''
         then lookup_loop path es (i + 1) i fspath_len
         else lookup_loop path es (i + 1) ret prev_len)
      else lookup_loop path es (i + 1) ret prev_len)"

definition filesystem_lookup :: "string \<Rightarrow> 'fs fs_table \<Rightarrow> nat" where
  "filesystem_lookup path tab = lookup_loop path (drop 1 tab) 1 0 0"

fun register_loop :: "string \<times> 'fs \<Rightarrow> 'fs fs_table \<Rightarrow> 'fs fs_table option" where
  "register_loop fs [] = None"
| "register_loop fs (None # es) = Some (Some fs # es)"
| "register_loop fs (Some e # es) = map_option ((#) (Some e)) (register_loop fs es)"

definition regeister_file_system :: "string \<times> 'fs \<Rightarrow> 'fs fs_table \<Rightarrow> 'fs fs_table res" where
  "regeister_file_system fs tab =
     (case register_loop fs tab of None \<Rightarrow> Inl (Panic Explicit) | Some tab' \<Rightarrow> Inr tab')"

text \<open>\<open>mount\<close> opens the target as a directory of the file system it lies in (a failure panics) and registers
  that file system again under the target. \<open>open_dir\<close> is the method of the root directory of a file
  system, given the path behind the mount point.\<close>

definition mount :: "('fs \<Rightarrow> string \<Rightarrow> bool) \<Rightarrow> string \<Rightarrow> 'fs fs_table \<Rightarrow> 'fs fs_table res" where
  "mount open_dir path tab =
     (case tab ! filesystem_lookup path tab of
        None \<Rightarrow> Inl (Panic Assertion)
      | Some (mp, fs) \<Rightarrow>
          rbind (rguard (length mp \<le> length path) (Panic OutOfBounds)) (\<lambda>_.
          rbind (rguard (open_dir fs (drop (length mp) path)) (Panic UnwrapNone)) (\<lambda>_.
          regeister_file_system (path, fs) tab)))"

definition umount :: "string \<Rightarrow> 'fs fs_table \<Rightarrow> 'fs fs_table res" where
  "umount path tab =
     (let i = filesystem_lookup path tab in
      case tab ! i of None \<Rightarrow> Inl (Panic Assertion) | Some _ \<Rightarrow> Inr (tab[i := None]))"

section \<open>The specification of the lookup\<close>

definition path_prefix :: "string \<Rightarrow> string \<Rightarrow> bool" where
  "path_prefix mp path \<longleftrightarrow> mp \<noteq> [] \<and> (\<exists>rest. path = mp @ rest \<and> (rest = [] \<or> hd rest = CHR ''/''))"

text \<open>\<open>covers path tab i k\<close>: slot \<open>i\<close> has a mount point of length \<open>k\<close> the path lies under.\<close>

definition covers :: "string \<Rightarrow> 'fs fs_table \<Rightarrow> nat \<Rightarrow> nat \<Rightarrow> bool" where
  "covers path tab i k \<longleftrightarrow>
     i < length tab \<and> (\<exists>mp fs. tab ! i = Some (mp, fs) \<and> path_prefix mp path \<and> length mp = k)"

lemma path_prefix_iff:
  "path_prefix mp path \<longleftrightarrow> mp \<noteq> [] \<and> length mp \<le> length path \<and> take (length mp) path = mp \<and>
     (length mp = length path \<or> path ! length mp = CHR ''/'')"
proof (cases "length mp \<le> length path \<and> take (length mp) path = mp")
  case True
  then obtain rest where "path = mp @ rest" by (metis append_take_drop_id)
  then show ?thesis by (cases rest) (auto simp: path_prefix_def nth_append)
next
  case False
  then show ?thesis by (auto simp: path_prefix_def)
qed

text \<open>The loop keeps the best slot so far unless a longer mount point covers the path.\<close>

lemma lookup_loop_spec:
  "(lookup_loop path es i ret p = ret \<and> (\<forall>j k. covers path es j k \<longrightarrow> k \<le> p)) \<or>
   (\<exists>j k. lookup_loop path es i ret p = i + j \<and> covers path es j k \<and> p < k \<and>
      (\<forall>j' k'. covers path es j' k' \<longrightarrow> k' < k \<or> (k' = k \<and> j \<le> j')))"
proof (induction path es i ret p rule: lookup_loop.induct)
  case (1 path i ret p)
  show ?case by (simp add: covers_def)
next
  case (2 path es i ret p)
  have c: "covers path (None # es) j k \<longleftrightarrow> (\<exists>j'. j = Suc j' \<and> covers path es j' k)" for j k
    by (cases j) (auto simp: covers_def)
  from 2 show ?case unfolding c by (simp, metis Suc_le_mono add_Suc_right)
next
  case (3 path mp fs es i ret p)
  let ?c = "path_prefix mp path"
  have c: "covers path (Some (mp, fs) # es) j k \<longleftrightarrow>
      (j = 0 \<and> ?c \<and> k = length mp) \<or> (\<exists>j'. j = Suc j' \<and> covers path es j' k)" for j k
    by (cases j) (auto simp: covers_def)
  show ?case
  proof (cases "?c \<and> p < length mp")
    case True
    then have e: "lookup_loop path (Some (mp, fs) # es) i ret p = lookup_loop path es (i + 1) i (length mp)"
      by (auto simp: path_prefix_iff)
    have cond: "length mp \<le> length path \<and> p < length mp \<and> take (length mp) path = mp"
      "length mp = length path \<or> path ! length mp = CHR ''/''"
      using True by (auto simp: path_prefix_iff)
    from "3.IH"(1) [OF refl cond] show ?thesis
    proof (elim disjE exE conjE)
      assume a: "lookup_loop path es (i + 1) i (length mp) = i" "\<forall>j k. covers path es j k \<longrightarrow> k \<le> length mp"
      show ?thesis
        by (rule disjI2, rule exI [of _ 0], rule exI [of _ "length mp"]) (use a True e c in \<open>auto simp: le_less\<close>)
    next
      fix j k
      assume a: "lookup_loop path es (i + 1) i (length mp) = i + 1 + j" "covers path es j k" "length mp < k"
        "\<forall>j' k'. covers path es j' k' \<longrightarrow> k' < k \<or> (k' = k \<and> j \<le> j')"
      show ?thesis
        by (rule disjI2, rule exI [of _ "Suc j"], rule exI [of _ k]) (use a True e c in auto)
    qed
  next
    case False
    then have no: "\<not> (length mp \<le> length path \<and> p < length mp \<and> take (length mp) path = mp \<and>
        (length mp = length path \<or> path ! length mp = CHR ''/''))"
      by (auto simp: path_prefix_iff)
    then have e: "lookup_loop path (Some (mp, fs) # es) i ret p = lookup_loop path es (i + 1) ret p"
      by (auto simp: Let_def)
    have ih: "(lookup_loop path es (i + 1) ret p = ret \<and> (\<forall>j k. covers path es j k \<longrightarrow> k \<le> p)) \<or>
       (\<exists>j k. lookup_loop path es (i + 1) ret p = i + 1 + j \<and> covers path es j k \<and> p < k \<and>
          (\<forall>j' k'. covers path es j' k' \<longrightarrow> k' < k \<or> (k' = k \<and> j \<le> j')))"
      using "3.IH"(2,3) [OF refl] no by blast
    then show ?thesis
    proof (elim disjE exE conjE)
      fix j k
      assume a: "lookup_loop path es (i + 1) ret p = i + 1 + j" "covers path es j k" "p < k"
        "\<forall>j' k'. covers path es j' k' \<longrightarrow> k' < k \<or> (k' = k \<and> j \<le> j')"
      show ?thesis
        by (rule disjI2, rule exI [of _ "Suc j"], rule exI [of _ k]) (use a False e c in auto)
    qed (use e c False in auto)
  qed
qed

lemma covers_drop: "covers path (drop 1 tab) j k \<longleftrightarrow> covers path tab (Suc j) k"
  by (auto simp: covers_def)

lemma covers_pos: "covers path tab i k \<Longrightarrow> 0 < k"
  by (auto simp: covers_def path_prefix_def)

lemma filesystem_lookup_spec:
  "(filesystem_lookup path tab = 0 \<and> (\<forall>i k. \<not> (0 < i \<and> covers path tab i k))) \<or>
   (\<exists>i k. filesystem_lookup path tab = i \<and> 0 < i \<and> covers path tab i k \<and>
      (\<forall>j k'. 0 < j \<and> covers path tab j k' \<longrightarrow> k' < k \<or> (k' = k \<and> i \<le> j)))"
proof -
  have c: "0 < i \<and> covers path tab i k \<longleftrightarrow> (\<exists>j. i = Suc j \<and> covers path (drop 1 tab) j k)" for i k
    by (cases i) (simp_all only: covers_drop, auto)
  from lookup_loop_spec [of path "drop 1 tab" 1 0 0] show ?thesis
  proof (elim disjE exE conjE)
    assume "lookup_loop path (drop 1 tab) 1 0 0 = 0" "\<forall>j k. covers path (drop 1 tab) j k \<longrightarrow> k \<le> 0"
    then show ?thesis using covers_pos unfolding filesystem_lookup_def c by fastforce
  next
    fix j k
    assume l: "lookup_loop path (drop 1 tab) 1 0 0 = 1 + j" and o: "covers path (drop 1 tab) j k"
      and max: "\<forall>j' k'. covers path (drop 1 tab) j' k' \<longrightarrow> k' < k \<or> (k' = k \<and> j \<le> j')"
    have "k' < k \<or> (k' = k \<and> Suc j \<le> i)" if "0 < i \<and> covers path tab i k'" for i k'
      using that max unfolding c by auto
    moreover have "covers path tab (Suc j) k" using o by (simp only: covers_drop)
    ultimately show ?thesis using l unfolding filesystem_lookup_def by auto
  qed
qed

text \<open>C29: The lookup of the file system of a path. The result is a slot behind the first one whose mount
  point is the longest that covers the path (it equals the path or is followed by a slash in it; the
  first such slot when a mount point occurs twice), and the first slot, which holds the root file
  system, exactly when no mount point covers the path.\<close>

theorem filesystem_lookup_longest_mount:
  "(filesystem_lookup path tab = 0 \<and> (\<forall>i k. \<not> (0 < i \<and> covers path tab i k))) \<or>
   (\<exists>i k. filesystem_lookup path tab = i \<and> 0 < i \<and> covers path tab i k \<and>
      (\<forall>j k'. 0 < j \<and> covers path tab j k' \<longrightarrow> k' < k \<or> (k' = k \<and> i \<le> j)))"
  by (rule filesystem_lookup_spec)

definition demo_mounts :: "nat fs_table" where
  "demo_mounts = [Some (''/'', 0), Some (''/mnt'', 1), Some (''/mnt/usb'', 2), None]"

theorem filesystem_lookup_longest_mount_witness:
  "filesystem_lookup ''/mnt/usb/a'' demo_mounts = 2 \<and> filesystem_lookup ''/mntx'' demo_mounts = 0"
proof -
  have cov: "covers ''/mnt/usb/a'' demo_mounts 2 8" "covers ''/mnt/usb/a'' demo_mounts 1 4"
    by (simp_all add: covers_def demo_mounts_def path_prefix_iff)
  have i: "i = 0 \<or> i = 1 \<or> i = 2 \<or> i = 3" if "i < length demo_mounts" for i
    using that by (auto simp: demo_mounts_def)
  have "\<not> (0 < i \<and> covers ''/mntx'' demo_mounts i k)" for i k
    using i [of i] by (auto simp: covers_def demo_mounts_def path_prefix_iff)
  with filesystem_lookup_longest_mount [of "''/mntx''" demo_mounts]
  have "filesystem_lookup ''/mntx'' demo_mounts = 0" by blast
  moreover have "filesystem_lookup ''/mnt/usb/a'' demo_mounts = 2"
  proof -
    have only: "i = 1 \<and> k = 4 \<or> i = 2 \<and> k = 8" if "covers ''/mnt/usb/a'' demo_mounts i k" "0 < i" for i k
      using i [of i] that by (auto simp: covers_def demo_mounts_def)
    obtain i k where "filesystem_lookup ''/mnt/usb/a'' demo_mounts = i" "0 < i"
      "covers ''/mnt/usb/a'' demo_mounts i k" "8 < k \<or> (8 = k \<and> i \<le> 2)"
      using filesystem_lookup_longest_mount [of "''/mnt/usb/a''" demo_mounts] cov(1)
      by (metis zero_less_numeral)
    with only [of i k] show ?thesis by auto
  qed
  ultimately show ?thesis by simp
qed

section \<open>Mounting\<close>

lemma register_loop_Some:
  assumes "register_loop fs tab = Some tab'"
  obtains i where "i < length tab" "tab ! i = None" "tab' = tab[i := Some fs]" "\<And>j. j < i \<Longrightarrow> tab ! j \<noteq> None"
proof -
  have "\<exists>i < length tab. tab ! i = None \<and> tab' = tab[i := Some fs] \<and> (\<forall>j < i. tab ! j \<noteq> None)"
    using assms
  proof (induction fs tab arbitrary: tab' rule: register_loop.induct)
    case (3 fs e es)
    then obtain es' where es': "register_loop fs es = Some es'" "tab' = Some e # es'" by auto
    from "3.IH" [OF es'(1)] obtain i where i: "i < length es" "es ! i = None" "es' = es[i := Some fs]"
      "\<forall>j < i. es ! j \<noteq> None" by blast
    then show ?case using es'(2) by (intro exI [of _ "Suc i"]) (auto simp: less_Suc_eq_0_disj)
  qed auto
  then show thesis using that by blast
qed

text \<open>Mounting on a path that is no mount point yet and unmounting it again restores the table, as long as
  the slot taken is not the first.\<close>

lemma mount_umount_roundtrip:
  assumes "mount open_dir path tab = Inr tab'" "path \<noteq> []" "tab \<noteq> []" "hd tab \<noteq> None"
    "\<forall>j k. 0 < j \<longrightarrow> covers path tab j k \<longrightarrow> k < length path"
  shows "umount path tab' = Inr tab"
proof -
  obtain mp fs where reg: "regeister_file_system (path, fs) tab = Inr tab'"
    using assms(1) by (auto simp: mount_def split: option.splits)
  then have "register_loop (path, fs) tab = Some tab'"
    by (simp add: regeister_file_system_def split: option.splits)
  then obtain i where i: "i < length tab" "tab ! i = None" and tab': "tab' = tab[i := Some (path, fs)]"
    by (rule register_loop_Some)
  have i0: "0 < i" using i(2) assms(3,4) by (cases i) (auto simp: hd_conv_nth)
  have own: "covers path tab' i (length path)"
    using i assms(2) by (simp add: covers_def tab' path_prefix_def)
  have other: "k < length path" if "0 < j" "covers path tab' j k" "j \<noteq> i" for j k
    using that assms(5) by (auto simp: covers_def tab')
  have "filesystem_lookup path tab' = i"
    using filesystem_lookup_spec [of path tab'] own other i0 by (metis less_irrefl less_asym)
  with i show ?thesis by (simp add: umount_def tab' Let_def) (metis list_update_id)
qed

text \<open>A path that is not under any mount point unmounts the root file system.\<close>

lemma umount_elsewhere_drops_root:
  assumes "\<forall>i k. \<not> (0 < i \<and> covers path tab i k)" "tab \<noteq> []" "hd tab \<noteq> None"
  shows "umount path tab = Inr (tab[0 := None])"
proof -
  have "filesystem_lookup path tab = 0" using assms(1) filesystem_lookup_spec [of path tab] by blast
  with assms(2,3) show ?thesis by (auto simp: umount_def Let_def hd_conv_nth)
qed


section \<open>Permissions\<close>

text \<open>The mask of \<open>readable\<close> is the bit of \<open>RDWR\<close> alone and never equals \<open>WRONLY\<close>: every descriptor is
  readable, one opened write-only too.\<close>

lemma every_descriptor_is_readable: "flags_readable f"
  unfolding flags_readable_def
proof
  assume "f AND (O_RDONLY OR O_RDWR) = O_WRONLY"
  then have "bit (f AND 2) 0" by (simp add: O_RDONLY_def O_RDWR_def O_WRONLY_def)
  then show False by (simp add: bit_simps)
qed

section \<open>Normalized paths\<close>

lemma trim_end_absolute:
  assumes "take 1 dir = ''/''"
  shows "take 1 (trim_end_matches (CHR ''/'') dir @ ''/'' @ path) = ''/''"
proof (cases "trim_end_matches (CHR ''/'') dir")
  case (Cons c cs)
  have "rev (dropWhile P (rev dir)) @ rev (takeWhile P (rev dir)) = dir" for P
    by (metis rev_append rev_rev_ident takeWhile_dropWhile_id)
  with Cons assms show ?thesis unfolding trim_end_matches_def by (metis append_Cons take_Suc_Cons take0 One_nat_def)
qed simp

text \<open>Relative to an absolute directory every path is normalized to an absolute one.\<close>

lemma normalize_path_absolute:
  "take 1 dir = ''/'' \<Longrightarrow> take 1 (normalize_path dir path) = ''/''"
  unfolding normalize_path_def Let_def by (simp only: trim_end_absolute if_cancel split: if_split) simp

text \<open>The trailing dots are removed also when they are the name of the parent directory: \<open>..\<close> is the
  directory itself.\<close>

lemma parent_is_not_resolved: "normalize_path ''/a/b'' ''..'' = ''/a/b/''"
  by (simp add: normalize_path_def trim_end_matches_def trim_start_matches.simps)

end
