(* ===== verification/Kernel_File.thy ===== *)
theory Kernel_File
  imports Kernel_Pipe Kernel_Path
begin

text \<open>
  Open files of the kernel: the file descriptor tables of the processes
  (\<open>kernel/src/process/process.rs\<close>), the shared \<open>FileDescriptor\<close> objects and vnodes
  (\<open>kernel/src/fs/file.rs\<close>, \<open>kernel/src/fs/vnode.rs\<close>) and the system calls on descriptors
  (\<open>kernel/src/syscall/fs.rs\<close>).

  Objects behind an \<open>Arc\<close> live in lists indexed by their identity; an identity is never reused and a
  dropped object is \<open>None\<close>. The references to a \<open>FileDescriptor\<close> are the slots of the descriptor tables,
  the two statics \<open>STDIN\<close> and \<open>STDOUT\<close> and the references the running system call holds in local
  variables (\<open>k_held\<close>); the references to a vnode are the descriptors, the entries of \<open>VNODE_HASHSET\<close> and
  the static of the console. Dropping the last reference to a descriptor drops its vnode reference, and
  the last reference to the vnode of a pipe end closes that end. The inodes of the file systems are
  values \<open>'o\<close> with the operations of the trait \<open>Inode\<close>; \<open>'w\<close> is the state of the file systems.
\<close>

section \<open>Objects\<close>

datatype 'o inode = Console | PipeReadEnd nat | PipeWriteEnd nat | FileNode 'o

record 'o vnode =
  vn_full_path :: string
  vn_inode :: "'o inode"

record file_descriptor =
  fd_flags :: usize
  fd_pos :: nat
  fd_vnode :: nat

record proc_files =
  pf_cwd :: string
  pf_fds :: "nat option list"

record ('o, 'fs, 'w) kfiles =
  k_fs_table :: "'fs fs_table"
  k_files :: "file_descriptor option list"
  k_vnodes :: "'o vnode option list"
  k_vset :: "(string \<times> nat) list"
  k_pipes :: "pipe list"
  k_procs :: "proc_files option list"
  k_held :: "nat list"
  k_threads :: threads
  k_console :: "u8 list"
  k_world :: 'w

definition kget :: "(('o, 'fs, 'w) kfiles \<Rightarrow> 'a) \<Rightarrow> (('o, 'fs, 'w) kfiles, 'a) st" where
  "kget f s = (Inr (f s), s)"

definition kupd :: "(('o, 'fs, 'w) kfiles \<Rightarrow> ('o, 'fs, 'w) kfiles) \<Rightarrow> (('o, 'fs, 'w) kfiles, unit) st" where
  "kupd f s = (Inr (), f s)"

definition lookup_at :: "'a option list \<Rightarrow> nat \<Rightarrow> 'a option" where
  "lookup_at xs i = (if i < length xs then xs ! i else None)"

definition STDIN :: nat where "STDIN = 0"
definition STDOUT :: nat where "STDOUT = 1"
definition CONSOLE_VNODE :: nat where "CONSOLE_VNODE = 0"

text \<open>The state after the statics are created.\<close>

definition kfiles_init :: "threads \<Rightarrow> 'w \<Rightarrow> ('o, 'fs, 'w) kfiles" where
  "kfiles_init ths w =
     \<lparr>k_fs_table = file_system_table_new,
      k_files = [Some \<lparr>fd_flags = O_RDONLY, fd_pos = 0, fd_vnode = CONSOLE_VNODE\<rparr>,
                 Some \<lparr>fd_flags = O_WRONLY, fd_pos = 0, fd_vnode = CONSOLE_VNODE\<rparr>],
      k_vnodes = [Some \<lparr>vn_full_path = [], vn_inode = Console\<rparr>],
      k_vset = [], k_pipes = [], k_procs = [], k_held = [], k_threads = ths, k_console = [], k_world = w\<rparr>"

section \<open>References\<close>

text \<open>A descriptor is still referenced.\<close>

definition file_used :: "('o, 'fs, 'w) kfiles \<Rightarrow> nat \<Rightarrow> bool" where
  "file_used s f \<longleftrightarrow> f = STDIN \<or> f = STDOUT \<or> f \<in> set (k_held s) \<or>
     list_ex (\<lambda>p. case p of None \<Rightarrow> False | Some t \<Rightarrow> Some f \<in> set (pf_fds t)) (k_procs s)"

text \<open>\<open>Arc::strong_count\<close> of a vnode.\<close>

definition vnode_refs :: "('o, 'fs, 'w) kfiles \<Rightarrow> nat \<Rightarrow> nat" where
  "vnode_refs s v =
     length (filter (\<lambda>f. case f of None \<Rightarrow> False | Some d \<Rightarrow> fd_vnode d = v) (k_files s)) +
     length (filter (\<lambda>e. snd e = v) (k_vset s)) + (if v = CONSOLE_VNODE then 1 else 0)"

definition drop_inode :: "'o inode \<Rightarrow> pipe list \<Rightarrow> pipe list" where
  "drop_inode i ps =
     (case i of
        PipeReadEnd k \<Rightarrow> ps[k := pipe_drop_read (ps ! k)]
      | PipeWriteEnd k \<Rightarrow> ps[k := pipe_drop_write (ps ! k)]
      | _ \<Rightarrow> ps)"

text \<open>What the drop of an \<open>Arc<Vnode>\<close> does when the reference is already gone from the state.\<close>

definition release_vnode :: "nat \<Rightarrow> ('o, 'fs, 'w) kfiles \<Rightarrow> ('o, 'fs, 'w) kfiles" where
  "release_vnode v s =
     (if vnode_refs s v > 0 then s
      else case lookup_at (k_vnodes s) v of
          None \<Rightarrow> s
        | Some x \<Rightarrow> s\<lparr>k_vnodes := (k_vnodes s)[v := None], k_pipes := drop_inode (vn_inode x) (k_pipes s)\<rparr>)"

definition vset_remove :: "string \<Rightarrow> ('o, 'fs, 'w) kfiles \<Rightarrow> ('o, 'fs, 'w) kfiles" where
  "vset_remove path s =
     (case map_of (k_vset s) path of
        None \<Rightarrow> s
      | Some v \<Rightarrow> release_vnode v (s\<lparr>k_vset := filter (\<lambda>e. fst e \<noteq> path) (k_vset s)\<rparr>))"

text \<open>\<open>FileDescriptor::drop\<close>, followed by the drop of its fields.\<close>

definition file_descriptor_drop :: "nat \<Rightarrow> file_descriptor \<Rightarrow> (('o, 'fs, 'w) kfiles, unit) st" where
  "file_descriptor_drop f d s =
     (let v = fd_vnode d in
      if vnode_refs s v = 2 then
        (case lookup_at (k_vnodes s) v of
           None \<Rightarrow> (Inl (Panic Assertion), s)
         | Some x \<Rightarrow>
             let s1 = vset_remove (vn_full_path x) s in
             if vnode_refs s1 v = 1 then (Inr (), release_vnode v (s1\<lparr>k_files := (k_files s1)[f := None]\<rparr>))
             else (Inl (Panic Assertion), s1))
      else (Inr (), release_vnode v (s\<lparr>k_files := (k_files s)[f := None]\<rparr>)))"

text \<open>The drop of an \<open>Arc<FileDescriptor>\<close>, its reference already gone from the state.\<close>

definition release_file :: "nat \<Rightarrow> (('o, 'fs, 'w) kfiles, unit) st" where
  "release_file f s =
     (if file_used s f then (Inr (), s)
      else case lookup_at (k_files s) f of None \<Rightarrow> (Inr (), s) | Some d \<Rightarrow> file_descriptor_drop f d s)"

text \<open>Local references of the running system call: a clone, a drop, and a new object.\<close>

definition arc_clone :: "nat \<Rightarrow> (('o, 'fs, 'w) kfiles, unit) st" where
  "arc_clone f = kupd (\<lambda>s. s\<lparr>k_held := f # k_held s\<rparr>)"

definition arc_drop :: "nat \<Rightarrow> (('o, 'fs, 'w) kfiles, unit) st" where
  "arc_drop f = sbind (kupd (\<lambda>s. s\<lparr>k_held := remove1 f (k_held s)\<rparr>)) (\<lambda>_. release_file f)"

definition descriptor_new :: "file_descriptor \<Rightarrow> (('o, 'fs, 'w) kfiles, nat) st" where
  "descriptor_new d s = (Inr (length (k_files s)),
     s\<lparr>k_files := k_files s @ [Some d], k_held := length (k_files s) # k_held s\<rparr>)"

section \<open>Descriptor tables\<close>

definition MAX_FD :: nat where
  "MAX_FD = 128"

text \<open>The first free slot among the given ones.\<close>

fun free_slot :: "nat list \<Rightarrow> nat option list \<Rightarrow> nat option" where
  "free_slot [] t = None"
| "free_slot (j # js) t = (if t ! j = None then Some j else free_slot js t)"

definition fd_alloc :: "nat option list \<Rightarrow> int \<times> nat option list" where
  "fd_alloc t =
     (case free_slot [3..<length t] t of
        Some i \<Rightarrow> (int i, t)
      | None \<Rightarrow> if length t = MAX_FD then (- 1, t) else (int (length t), t @ [None]))"

definition fd_alloc_from :: "nat \<Rightarrow> nat option list \<Rightarrow> int \<times> nat option list" where
  "fd_alloc_from m t =
     (if m \<ge> MAX_FD then (- 1, t)
      else if m \<ge> length t then (int m, t @ replicate (m + 1 - length t) None)
      else case free_slot [m..<length t] t of
          Some i \<Rightarrow> (int i, t)
        | None \<Rightarrow> if length t = MAX_FD then (- 1, t) else (int (length t), t @ [None]))"

text \<open>The current process is \<open>q\<close>; it is live. Reading and assigning its table; an assignment drops what
  was in the slot.\<close>

definition get_proc :: "nat \<Rightarrow> (('o, 'fs, 'w) kfiles, proc_files) st" where
  "get_proc q = sbind (kget (\<lambda>s. lookup_at (k_procs s) q)) (\<lambda>p. slift (runwrap p))"

definition put_fds :: "nat \<Rightarrow> nat option list \<Rightarrow> (('o, 'fs, 'w) kfiles, unit) st" where
  "put_fds q t = kupd (\<lambda>s. s\<lparr>k_procs := (k_procs s)[q := map_option (\<lambda>p. p\<lparr>pf_fds := t\<rparr>) (k_procs s ! q)]\<rparr>)"

definition slot_clear :: "nat \<Rightarrow> nat \<Rightarrow> (('o, 'fs, 'w) kfiles, unit) st" where
  "slot_clear q i =
     sbind (get_proc q) (\<lambda>p.
     sbind (slift (rguard (i < length (pf_fds p)) (Panic OutOfBounds))) (\<lambda>_.
     sbind (put_fds q ((pf_fds p)[i := None])) (\<lambda>_.
     case pf_fds p ! i of None \<Rightarrow> sret () | Some f \<Rightarrow> release_file f)))"

text \<open>\<open>fd_table[i] = Some(f)\<close> moves a local reference into the table.\<close>

definition slot_put :: "nat \<Rightarrow> nat \<Rightarrow> nat \<Rightarrow> (('o, 'fs, 'w) kfiles, unit) st" where
  "slot_put q i f =
     sbind (get_proc q) (\<lambda>p.
     sbind (slift (rguard (i < length (pf_fds p)) (Panic OutOfBounds))) (\<lambda>_.
     sbind (put_fds q ((pf_fds p)[i := Some f])) (\<lambda>_.
     sbind (kupd (\<lambda>s. s\<lparr>k_held := remove1 f (k_held s)\<rparr>)) (\<lambda>_.
     case pf_fds p ! i of None \<Rightarrow> sret () | Some g \<Rightarrow> release_file g))))"

definition alloc_slot :: "nat \<Rightarrow> (nat option list \<Rightarrow> int \<times> nat option list) \<Rightarrow> (('o, 'fs, 'w) kfiles, int) st" where
  "alloc_slot q al =
     sbind (get_proc q) (\<lambda>p. let (i, t) = al (pf_fds p) in sbind (put_fds q t) (\<lambda>_. sret i))"

section \<open>System calls on descriptors\<close>

definition sys_close :: "nat \<Rightarrow> nat \<Rightarrow> (('o, 'fs, 'w) kfiles, int) st" where
  "sys_close q fd =
     sbind (get_proc q) (\<lambda>p.
     sbind (slift (rguard (fd < length (pf_fds p)) (Panic UnwrapNone))) (\<lambda>_.
     sbind (slot_clear q fd) (\<lambda>_. sret 0)))"

definition sys_dup :: "nat \<Rightarrow> nat \<Rightarrow> (('o, 'fs, 'w) kfiles, int) st" where
  "sys_dup q oldfd =
     sbind (get_proc q) (\<lambda>p.
     sbind (slift (rguard (oldfd < length (pf_fds p)) (Panic OutOfBounds))) (\<lambda>_.
     case pf_fds p ! oldfd of
       None \<Rightarrow> sret (- 1)
     | Some f \<Rightarrow>
         sbind (arc_clone f) (\<lambda>_.
         sbind (alloc_slot q fd_alloc) (\<lambda>newfd.
         if newfd \<ge> 0 then sbind (slot_put q (nat newfd) f) (\<lambda>_. sret newfd)
         else sbind (arc_drop f) (\<lambda>_. sret (- 1))))))"

definition sys_dup3 :: "nat \<Rightarrow> nat \<Rightarrow> nat \<Rightarrow> (('o, 'fs, 'w) kfiles, int) st" where
  "sys_dup3 q oldfd newfd =
     sbind (get_proc q) (\<lambda>p.
     sbind (slift (rguard (oldfd < length (pf_fds p)) (Panic OutOfBounds))) (\<lambda>_.
     case pf_fds p ! oldfd of
       None \<Rightarrow> sret (- 1)
     | Some f \<Rightarrow>
         sbind (arc_clone f) (\<lambda>_.
         if newfd < MAX_FD then
           sbind (if newfd \<ge> length (pf_fds p)
                  then put_fds q (pf_fds p @ replicate (newfd + 1 - length (pf_fds p)) None) else sret ()) (\<lambda>_.
           sbind (slot_put q newfd f) (\<lambda>_. sret (int newfd)))
         else sbind (arc_drop f) (\<lambda>_. sret (- 1)))))"

datatype fcntl_cmd = F_DUPFD | F_GETFD | F_SETFD | F_GETFL | F_SETFL | F_GETLK | F_SETLK | F_SETLKW | F_DUPFD_CLOEXEC

definition FD_CLOEXEC :: usize where "FD_CLOEXEC = 1"

definition file_insert_flags :: "nat \<Rightarrow> usize \<Rightarrow> (('o, 'fs, 'w) kfiles, unit) st" where
  "file_insert_flags f g = kupd (\<lambda>s. s\<lparr>k_files := (k_files s)[f := map_option (\<lambda>d. d\<lparr>fd_flags := fd_flags d OR g\<rparr>) (k_files s ! f)]\<rparr>)"

definition sys_fcntl :: "nat \<Rightarrow> nat \<Rightarrow> fcntl_cmd \<Rightarrow> usize \<Rightarrow> (('o, 'fs, 'w) kfiles, int) st" where
  "sys_fcntl q fd cmd arg =
     sbind (get_proc q) (\<lambda>p.
     sbind (slift (rguard (fd < length (pf_fds p)) (Panic UnwrapNone))) (\<lambda>_.
     case pf_fds p ! fd of
       None \<Rightarrow> sret (- 1)
     | Some f \<Rightarrow>
         (case cmd of
            F_DUPFD \<Rightarrow>
              sbind (arc_clone f) (\<lambda>_.
              sbind (alloc_slot q (fd_alloc_from (unat arg))) (\<lambda>newfd.
              if newfd \<ge> 0 then sbind (slot_put q (nat newfd) f) (\<lambda>_. sret newfd)
              else sbind (arc_drop f) (\<lambda>_. sret (- 1))))
          | F_DUPFD_CLOEXEC \<Rightarrow>
              sbind (arc_clone f) (\<lambda>_.
              sbind (alloc_slot q (fd_alloc_from (unat arg))) (\<lambda>newfd.
              if newfd \<ge> 0 then
                sbind (file_insert_flags f O_CLOEXEC) (\<lambda>_.
                sbind (slot_put q (nat newfd) f) (\<lambda>_. sret newfd))
              else sbind (arc_drop f) (\<lambda>_. sret (- 1))))
          | F_GETFD \<Rightarrow> kget (\<lambda>s. case lookup_at (k_files s) f of None \<Rightarrow> 0 | Some d \<Rightarrow> uint (fd_flags d))
          | F_SETFD \<Rightarrow>
              sbind (if flags_contain arg FD_CLOEXEC then file_insert_flags f O_CLOEXEC else sret ()) (\<lambda>_. sret (- 1))
          | _ \<Rightarrow> sret (- 1))))"

text \<open>\<open>create_pipe_pair\<close>: a pipe, a vnode and a descriptor for each end, held by a local array.\<close>

definition vnode_new :: "'o vnode \<Rightarrow> (('o, 'fs, 'w) kfiles, nat) st" where
  "vnode_new x s = (Inr (length (k_vnodes s)), s\<lparr>k_vnodes := k_vnodes s @ [Some x]\<rparr>)"

definition create_pipe_pair :: "(('o, 'fs, 'w) kfiles, nat \<times> nat) st" where
  "create_pipe_pair =
     sbind (kget (\<lambda>s. length (k_pipes s))) (\<lambda>k.
     sbind (kupd (\<lambda>s. s\<lparr>k_pipes := k_pipes s @ [pipe_new]\<rparr>)) (\<lambda>_.
     sbind (vnode_new \<lparr>vn_full_path = ''pipe read end'', vn_inode = PipeReadEnd k\<rparr>) (\<lambda>v.
     sbind (descriptor_new \<lparr>fd_flags = O_RDONLY, fd_pos = 0, fd_vnode = v\<rparr>) (\<lambda>rf.
     sbind (vnode_new \<lparr>vn_full_path = ''pipe write end'', vn_inode = PipeWriteEnd k\<rparr>) (\<lambda>w.
     sbind (descriptor_new \<lparr>fd_flags = O_WRONLY, fd_pos = 0, fd_vnode = w\<rparr>) (\<lambda>wf.
     sret (rf, wf)))))))"

text \<open>The result is the pair of descriptors stored for the user and the return value.\<close>

definition sys_pipe2 :: "nat \<Rightarrow> (('o, 'fs, 'w) kfiles, int \<times> (int \<times> int) option) st" where
  "sys_pipe2 q =
     sbind create_pipe_pair (\<lambda>(rf, wf).
     sbind (alloc_slot q fd_alloc) (\<lambda>read_fd.
     if read_fd \<ge> 0 then
       sbind (arc_clone rf) (\<lambda>_.
       sbind (slot_put q (nat read_fd) rf) (\<lambda>_.
       sbind (alloc_slot q fd_alloc) (\<lambda>write_fd.
       if write_fd \<ge> 0 then
         sbind (arc_clone wf) (\<lambda>_.
         sbind (slot_put q (nat write_fd) wf) (\<lambda>_.
         sbind (arc_drop rf) (\<lambda>_. sbind (arc_drop wf) (\<lambda>_. sret (0, Some (read_fd, write_fd))))))
       else
         sbind (slot_clear q (nat read_fd)) (\<lambda>_.
         sbind (arc_drop rf) (\<lambda>_. sbind (arc_drop wf) (\<lambda>_. sret (- 1, None)))))))
     else sbind (arc_drop rf) (\<lambda>_. sbind (arc_drop wf) (\<lambda>_. sret (- 1, None)))))"

section \<open>Reading and writing\<close>

text \<open>The methods of \<open>Inode\<close> for the inodes of a file system (the structures of \<open>get_fstat\<close> and \<open>get_dents64\<close>
  as the bytes they have in memory, \<open>None\<close> for a panic), and the methods of its root directory.\<close>

record ('o, 'w) inode_ops =
  in_read :: "nat \<Rightarrow> ('o \<times> 'w, u8 list) st"
  in_write :: "u8 list \<Rightarrow> ('o \<times> 'w, nat) st"
  in_seek :: "seek_from \<Rightarrow> ('o \<times> 'w, nat) st"
  in_flush :: "('o \<times> 'w, unit) st"
  in_get_fstat :: "'o \<Rightarrow> u8 list option"
  in_get_dents64 :: "'o \<Rightarrow> u8 list option"

record ('o, 'fs, 'w) vfs =
  vfs_create_file :: "'fs \<Rightarrow> string \<Rightarrow> ('w, 'o) st"
  vfs_open_file :: "'fs \<Rightarrow> string \<Rightarrow> ('w, 'o) st"
  vfs_open_dir :: "'fs \<Rightarrow> string \<Rightarrow> ('w, 'o) st"
  vfs_create_dir :: "'fs \<Rightarrow> string \<Rightarrow> ('w, 'o) st"
  vfs_remove :: "'fs \<Rightarrow> string \<Rightarrow> ('w, unit) st"
  vfs_root_dir :: "'fs \<Rightarrow> 'o"

definition on_world :: "('w, 'a) st \<Rightarrow> (('o, 'fs, 'w) kfiles, 'a) st" where
  "on_world m s = (case m (k_world s) of (r, w) \<Rightarrow> (r, s\<lparr>k_world := w\<rparr>))"

definition on_node :: "nat \<Rightarrow> 'o \<Rightarrow> ('o \<times> 'w, 'a) st \<Rightarrow> (('o, 'fs, 'w) kfiles, 'a) st" where
  "on_node v o1 m s =
     (case m (o1, k_world s) of (r, (o2, w)) \<Rightarrow>
        (r, s\<lparr>k_world := w, k_vnodes := (k_vnodes s)[v := map_option (\<lambda>x. x\<lparr>vn_inode := FileNode o2\<rparr>) (k_vnodes s ! v)]\<rparr>))"

definition sunwrap :: "('s, 'a) st \<Rightarrow> ('s, 'a) st" where
  "sunwrap m = scatch m (\<lambda>_. sfail (Panic UnwrapNone))"

definition vnode_inode :: "nat \<Rightarrow> (('o, 'fs, 'w) kfiles, 'o inode) st" where
  "vnode_inode v = sbind (kget (\<lambda>s. lookup_at (k_vnodes s) v)) (\<lambda>x. sbind (slift (runwrap x)) (\<lambda>x. sret (vn_inode x)))"

definition inode_seek :: "('o, 'w) inode_ops \<Rightarrow> nat \<Rightarrow> seek_from \<Rightarrow> (('o, 'fs, 'w) kfiles, nat) st" where
  "inode_seek ops v sf =
     sbind (vnode_inode v) (\<lambda>i. case i of
        Console \<Rightarrow> sret 0
      | PipeReadEnd k \<Rightarrow> slift (pipe_seek sf)
      | PipeWriteEnd k \<Rightarrow> slift (pipe_seek sf)
      | FileNode o1 \<Rightarrow> on_node v o1 (in_seek ops sf))"

text \<open>\<open>None\<close>: the thread \<open>cur\<close> was put to sleep by a pipe.\<close>

definition inode_read :: "('o, 'w) inode_ops \<Rightarrow> nat \<Rightarrow> nat \<Rightarrow> nat \<Rightarrow> (('o, 'fs, 'w) kfiles, u8 list option) st" where
  "inode_read ops cur v n =
     sbind (vnode_inode v) (\<lambda>i. case i of
        Console \<Rightarrow> sret (Some [])
      | PipeReadEnd k \<Rightarrow> (\<lambda>s.
          case pipe_read n cur (k_pipes s ! k, k_threads s) of (r, p, ths) \<Rightarrow>
            (Inr r, s\<lparr>k_pipes := (k_pipes s)[k := p], k_threads := ths\<rparr>))
      | PipeWriteEnd k \<Rightarrow> sbind (slift (pipe_write_end_read n)) (\<lambda>_. sret (Some []))
      | FileNode o1 \<Rightarrow> sbind (on_node v o1 (in_read ops n)) (\<lambda>bs. sret (Some bs)))"

definition inode_write :: "('o, 'w) inode_ops \<Rightarrow> nat \<Rightarrow> u8 list \<Rightarrow> (('o, 'fs, 'w) kfiles, nat) st" where
  "inode_write ops v buf =
     sbind (vnode_inode v) (\<lambda>i. case i of
        Console \<Rightarrow> sbind (kupd (\<lambda>s. s\<lparr>k_console := k_console s @ buf\<rparr>)) (\<lambda>_. sret (length buf))
      | PipeReadEnd k \<Rightarrow> slift (pipe_read_end_write buf)
      | PipeWriteEnd k \<Rightarrow> (\<lambda>s.
          case pipe_write buf (k_pipes s ! k, k_threads s) of (r, p, ths) \<Rightarrow>
            (r, s\<lparr>k_pipes := (k_pipes s)[k := p], k_threads := ths\<rparr>))
      | FileNode o1 \<Rightarrow> on_node v o1 (in_write ops buf))"

definition inode_flush :: "('o, 'w) inode_ops \<Rightarrow> nat \<Rightarrow> (('o, 'fs, 'w) kfiles, unit) st" where
  "inode_flush ops v =
     sbind (vnode_inode v) (\<lambda>i. case i of
        Console \<Rightarrow> sfail (Panic Todo)
      | PipeReadEnd k \<Rightarrow> slift pipe_flush
      | PipeWriteEnd k \<Rightarrow> slift pipe_flush
      | FileNode o1 \<Rightarrow> on_node v o1 (in_flush ops))"

definition inode_get_fstat :: "('o, 'w) inode_ops \<Rightarrow> nat \<Rightarrow> (('o, 'fs, 'w) kfiles, u8 list) st" where
  "inode_get_fstat ops v =
     sbind (vnode_inode v) (\<lambda>i. case i of
        Console \<Rightarrow> sfail (Panic Todo)
      | PipeReadEnd k \<Rightarrow> sbind (slift pipe_get_fstat) (\<lambda>_. sret [])
      | PipeWriteEnd k \<Rightarrow> sbind (slift pipe_get_fstat) (\<lambda>_. sret [])
      | FileNode o1 \<Rightarrow> (case in_get_fstat ops o1 of None \<Rightarrow> sfail (Panic Explicit) | Some bs \<Rightarrow> sret bs))"

definition inode_get_dents64 :: "('o, 'w) inode_ops \<Rightarrow> nat \<Rightarrow> (('o, 'fs, 'w) kfiles, u8 list) st" where
  "inode_get_dents64 ops v =
     sbind (vnode_inode v) (\<lambda>i. case i of
        Console \<Rightarrow> sfail (Panic Todo)
      | PipeReadEnd k \<Rightarrow> sbind (slift pipe_get_dents64) (\<lambda>_. sret [])
      | PipeWriteEnd k \<Rightarrow> sbind (slift pipe_get_dents64) (\<lambda>_. sret [])
      | FileNode o1 \<Rightarrow> (case in_get_dents64 ops o1 of None \<Rightarrow> sfail (Panic Explicit) | Some bs \<Rightarrow> sret bs))"

definition get_file :: "nat \<Rightarrow> (('o, 'fs, 'w) kfiles, file_descriptor) st" where
  "get_file f = sbind (kget (\<lambda>s. lookup_at (k_files s) f)) (\<lambda>d. slift (runwrap d))"

definition file_advance_pos :: "nat \<Rightarrow> nat \<Rightarrow> (('o, 'fs, 'w) kfiles, unit) st" where
  "file_advance_pos f n = kupd (\<lambda>s. s\<lparr>k_files := (k_files s)[f := map_option (\<lambda>d. d\<lparr>fd_pos := fd_pos d + n\<rparr>) (k_files s ! f)]\<rparr>)"

definition fd_read :: "('o, 'w) inode_ops \<Rightarrow> nat \<Rightarrow> nat \<Rightarrow> nat \<Rightarrow> (('o, 'fs, 'w) kfiles, u8 list option) st" where
  "fd_read ops cur f n =
     sbind (get_file f) (\<lambda>d.
     if flags_readable (fd_flags d) then
       sbind (sunwrap (inode_seek ops (fd_vnode d) (Start (fd_pos d)))) (\<lambda>_.
       sbind (inode_read ops cur (fd_vnode d) n) (\<lambda>r.
       case r of None \<Rightarrow> sret None
       | Some bs \<Rightarrow> sbind (file_advance_pos f (length bs)) (\<lambda>_. sret (Some bs))))
     else sfail (Io PermissionDenied))"

definition fd_write :: "('o, 'w) inode_ops \<Rightarrow> nat \<Rightarrow> u8 list \<Rightarrow> (('o, 'fs, 'w) kfiles, nat) st" where
  "fd_write ops f buf =
     sbind (get_file f) (\<lambda>d.
     if flags_writable (fd_flags d) then
       sbind (sunwrap (inode_seek ops (fd_vnode d) (Start (fd_pos d)))) (\<lambda>_.
       sbind (inode_write ops (fd_vnode d) buf) (\<lambda>n.
       sbind (file_advance_pos f n) (\<lambda>_. sret n)))
     else sfail (Io PermissionDenied))"

definition fd_flush :: "('o, 'w) inode_ops \<Rightarrow> nat \<Rightarrow> (('o, 'fs, 'w) kfiles, unit) st" where
  "fd_flush ops f = sbind (get_file f) (\<lambda>d. inode_flush ops (fd_vnode d))"

definition fd_seek :: "('o, 'w) inode_ops \<Rightarrow> nat \<Rightarrow> seek_from \<Rightarrow> (('o, 'fs, 'w) kfiles, nat) st" where
  "fd_seek ops f sf = sbind (get_file f) (\<lambda>d. inode_seek ops (fd_vnode d) sf)"

text \<open>The descriptor of a read or write: \<open>fd_table.get_mut(fd).unwrap()\<close>.\<close>

definition get_fd :: "nat \<Rightarrow> nat \<Rightarrow> (('o, 'fs, 'w) kfiles, nat option) st" where
  "get_fd q fd =
     sbind (get_proc q) (\<lambda>p.
     sbind (slift (rguard (fd < length (pf_fds p)) (Panic UnwrapNone))) (\<lambda>_. sret (pf_fds p ! fd)))"

definition sys_write :: "('o, 'w) inode_ops \<Rightarrow> nat \<Rightarrow> nat \<Rightarrow> u8 list \<Rightarrow> (('o, 'fs, 'w) kfiles, int) st" where
  "sys_write ops q fd buf =
     sbind (get_fd q fd) (\<lambda>r. case r of
        None \<Rightarrow> sret (- 1)
      | Some f \<Rightarrow> scatch (sbind (fd_write ops f buf) (\<lambda>n. sret (int n))) (\<lambda>_. sret (- 1)))"

definition sys_writev :: "('o, 'w) inode_ops \<Rightarrow> nat \<Rightarrow> nat \<Rightarrow> u8 list list \<Rightarrow> (('o, 'fs, 'w) kfiles, int) st" where
  "sys_writev ops q fd iovecs = sys_write ops q fd (concat iovecs)"

text \<open>The bytes stored in the buffer of the user and the return value; \<open>None\<close> when the thread sleeps.\<close>

definition sys_read :: "('o, 'w) inode_ops \<Rightarrow> nat \<Rightarrow> nat \<Rightarrow> nat \<Rightarrow> nat \<Rightarrow> (('o, 'fs, 'w) kfiles, (u8 list \<times> int) option) st" where
  "sys_read ops q cur fd n =
     sbind (get_fd q fd) (\<lambda>r. case r of
        None \<Rightarrow> sret (Some ([], - 1))
      | Some f \<Rightarrow> scatch (sbind (fd_read ops cur f n) (\<lambda>x. sret (map_option (\<lambda>bs. (bs, int (length bs))) x)))
          (\<lambda>_. sret (Some ([], - 1))))"

text \<open>The bytes stored for the user and the return value.\<close>

definition sys_getdents64 :: "('o, 'w) inode_ops \<Rightarrow> nat \<Rightarrow> nat \<Rightarrow> (('o, 'fs, 'w) kfiles, u8 list \<times> int) st" where
  "sys_getdents64 ops q fd =
     sbind (get_fd q fd) (\<lambda>r. case r of
        None \<Rightarrow> sret ([], - 1)
      | Some f \<Rightarrow>
          sbind (get_file f) (\<lambda>d.
          sbind (inode_get_dents64 ops (fd_vnode d)) (\<lambda>bs. sret (bs, int (length bs)))))"

definition sys_fstat :: "('o, 'w) inode_ops \<Rightarrow> nat \<Rightarrow> nat \<Rightarrow> (('o, 'fs, 'w) kfiles, u8 list \<times> int) st" where
  "sys_fstat ops q fd =
     sbind (get_fd q fd) (\<lambda>r. case r of
        None \<Rightarrow> sret ([], - 1)
      | Some f \<Rightarrow>
          sbind (get_file f) (\<lambda>d.
          sbind (inode_get_fstat ops (fd_vnode d)) (\<lambda>bs. sret (bs, 0))))"

text \<open>\<open>sys_sendfile\<close>: \<open>None\<close> when the loop has used up its fuel or the thread sleeps in a pipe. \<open>attempt\<close> is
  \<open>if let Ok(x) = ...\<close>.\<close>

definition BLK_SIZE :: nat where
  "BLK_SIZE = 512"

definition attempt :: "('s, 'a) st \<Rightarrow> ('s, 'a option) st" where
  "attempt m = scatch (sbind m (\<lambda>x. sret (Some x))) (\<lambda>_. sret None)"

fun sendfile_loop ::
  "('o, 'w) inode_ops \<Rightarrow> nat \<Rightarrow> nat \<Rightarrow> nat \<Rightarrow> nat \<Rightarrow> nat \<Rightarrow> (('o, 'fs, 'w) kfiles, nat option) st" where
  "sendfile_loop ops cur in_f out_f 0 remain = sret None"
| "sendfile_loop ops cur in_f out_f (Suc fuel) remain =
     (if remain = 0 then sret (Some remain)
      else
        let read_count = (if remain \<ge> BLK_SIZE then BLK_SIZE else remain) in
        sbind (attempt (fd_read ops cur in_f read_count)) (\<lambda>r. case r of
          None \<Rightarrow> sendfile_loop ops cur in_f out_f fuel remain
        | Some None \<Rightarrow> sret None
        | Some (Some bs) \<Rightarrow>
            sbind (attempt (fd_write ops out_f bs)) (\<lambda>w. case w of
              None \<Rightarrow> sendfile_loop ops cur in_f out_f fuel remain
            | Some n \<Rightarrow>
                sbind (slift (rguard (n \<le> remain) (Panic Overflow))) (\<lambda>_.
                if length bs \<noteq> BLK_SIZE \<and> (length bs \<noteq> read_count \<or> length bs \<noteq> n) then sret (Some (remain - n))
                else sendfile_loop ops cur in_f out_f fuel (remain - n)))))"

definition sys_sendfile ::
  "('o, 'w) inode_ops \<Rightarrow> ('o, 'fs, 'w) vfs \<Rightarrow> nat \<Rightarrow> nat \<Rightarrow> nat \<Rightarrow> nat \<Rightarrow> nat \<Rightarrow> nat \<Rightarrow> nat \<Rightarrow> (('o, 'fs, 'w) kfiles, int option) st" where
  "sys_sendfile ops vf fuel q cur out_fd in_fd offset count =
     sbind (slift (rguard (offset = 0) (Panic Assertion))) (\<lambda>_.
     sbind (get_fd q out_fd) (\<lambda>r. case r of
       None \<Rightarrow> sret (Some (- 1))
     | Some out_f \<Rightarrow>
         sbind (get_fd q in_fd) (\<lambda>r. case r of
           None \<Rightarrow> sret (Some (- 1))
         | Some in_f \<Rightarrow>
             sbind (get_file in_f) (\<lambda>d.
             sbind (kget (\<lambda>s. lookup_at (k_vnodes s) (fd_vnode d))) (\<lambda>x.
             sbind (slift (runwrap x)) (\<lambda>x.
             sbind (kget (\<lambda>s. k_fs_table s ! 0)) (\<lambda>e.
             sbind (slift (runwrap e)) (\<lambda>(mp, fs).
             sbind (sunwrap (on_world (vfs_open_file vf fs (vn_full_path x)))) (\<lambda>_.
             sbind (sendfile_loop ops cur in_f out_f fuel count) (\<lambda>r.
             sret (map_option (\<lambda>remain. int (count - remain)) r)))))))))))"

section \<open>Opening\<close>

definition AT_FDCWD :: usize where
  "AT_FDCWD = - 100"

definition full_path :: "nat \<Rightarrow> usize \<Rightarrow> string \<Rightarrow> (('o, 'fs, 'w) kfiles, string) st" where
  "full_path q dirfd path =
     (if take 1 path = ''/'' then sret path
      else
        sbind (get_proc q) (\<lambda>p.
        if dirfd = AT_FDCWD then sret (normalize_path (pf_cwd p) path)
        else
          sbind (slift (rguard (unat dirfd < length (pf_fds p)) (Panic OutOfBounds))) (\<lambda>_.
          sbind (slift (runwrap (pf_fds p ! unat dirfd))) (\<lambda>f.
          sbind (get_file f) (\<lambda>d.
          sbind (kget (\<lambda>s. lookup_at (k_vnodes s) (fd_vnode d))) (\<lambda>x.
          sbind (slift (runwrap x)) (\<lambda>x. sret (normalize_path (vn_full_path x) path))))))))"

definition fs_of_path :: "string \<Rightarrow> (('o, 'fs, 'w) kfiles, 'fs) st" where
  "fs_of_path path =
     sbind (kget (\<lambda>s. k_fs_table s ! filesystem_lookup path (k_fs_table s))) (\<lambda>e.
     case e of None \<Rightarrow> sfail (Panic Assertion) | Some (mp, fs) \<Rightarrow> sret fs)"

text \<open>The vnode of a path: the one in the set, or a new one that is put there.\<close>

definition open_vnode :: "('o, 'fs, 'w) vfs \<Rightarrow> string \<Rightarrow> usize \<Rightarrow> (('o, 'fs, 'w) kfiles, nat) st" where
  "open_vnode vf path flags =
     sbind (kget (\<lambda>s. map_of (k_vset s) path)) (\<lambda>r. case r of
        Some v \<Rightarrow> sret v
      | None \<Rightarrow>
          sbind (fs_of_path path) (\<lambda>fs.
          sbind (on_world (if flags_contain flags O_CREAT then vfs_create_file vf fs path
                           else if flags_contain flags O_DIRECTORY then vfs_open_dir vf fs path
                           else vfs_open_file vf fs path)) (\<lambda>node.
          sbind (vnode_new \<lparr>vn_full_path = path, vn_inode = FileNode node\<rparr>) (\<lambda>v.
          sbind (kupd (\<lambda>s. s\<lparr>k_vset := (path, v) # k_vset s\<rparr>)) (\<lambda>_. sret v)))))"

definition file_open ::
  "('o, 'w) inode_ops \<Rightarrow> ('o, 'fs, 'w) vfs \<Rightarrow> string \<Rightarrow> usize \<Rightarrow> (('o, 'fs, 'w) kfiles, nat) st" where
  "file_open ops vf path flags =
     sbind (open_vnode vf path flags) (\<lambda>v.
     sbind (if flags_contain flags O_APPEND then sunwrap (inode_seek ops v (End 0)) else sret 0) (\<lambda>pos.
     descriptor_new \<lparr>fd_flags = flags, fd_pos = pos, fd_vnode = v\<rparr>))"

definition sys_openat ::
  "('o, 'w) inode_ops \<Rightarrow> ('o, 'fs, 'w) vfs \<Rightarrow> nat \<Rightarrow> usize \<Rightarrow> string \<Rightarrow> usize \<Rightarrow> (('o, 'fs, 'w) kfiles, int) st" where
  "sys_openat ops vf q dirfd path flags =
     sbind (full_path q dirfd path) (\<lambda>fp.
     scatch
       (sbind (file_open ops vf fp flags) (\<lambda>f.
        sbind (alloc_slot q fd_alloc) (\<lambda>newfd.
        if newfd \<ge> 0 then sbind (slot_put q (nat newfd) f) (\<lambda>_. sret newfd)
        else sbind (arc_drop f) (\<lambda>_. sret (- 1)))))
       (\<lambda>_. sret (- 1)))"

definition sys_fstatat ::
  "('o, 'w) inode_ops \<Rightarrow> ('o, 'fs, 'w) vfs \<Rightarrow> nat \<Rightarrow> usize \<Rightarrow> string \<Rightarrow> (('o, 'fs, 'w) kfiles, u8 list \<times> int) st" where
  "sys_fstatat ops vf q dirfd path =
     sbind (full_path q dirfd path) (\<lambda>fp.
     sbind (attempt (file_open ops vf fp 0)) (\<lambda>r. case r of
       None \<Rightarrow> sret ([], - 1)
     | Some f \<Rightarrow>
         sbind (get_file f) (\<lambda>d.
         sbind (inode_get_fstat ops (fd_vnode d)) (\<lambda>bs.
         sbind (arc_drop f) (\<lambda>_. sret (bs, 0))))))"

definition file_unlink :: "('o, 'fs, 'w) vfs \<Rightarrow> string \<Rightarrow> (('o, 'fs, 'w) kfiles, unit) st" where
  "file_unlink vf fp = sbind (fs_of_path fp) (\<lambda>fs. on_world (vfs_remove vf fs fp))"

definition sys_unlinkat :: "('o, 'fs, 'w) vfs \<Rightarrow> nat \<Rightarrow> usize \<Rightarrow> string \<Rightarrow> (('o, 'fs, 'w) kfiles, int) st" where
  "sys_unlinkat vf q dirfd path =
     sbind (full_path q dirfd path) (\<lambda>fp.
     scatch (sbind (file_unlink vf fp) (\<lambda>_. sret 0)) (\<lambda>_. sret (- 1)))"

definition mkdir :: "('o, 'fs, 'w) vfs \<Rightarrow> string \<Rightarrow> (('o, 'fs, 'w) kfiles, int) st" where
  "mkdir vf fp =
     sbind (fs_of_path fp) (\<lambda>fs.
     scatch (sbind (on_world (vfs_create_dir vf fs fp)) (\<lambda>_. sret 0)) (\<lambda>_. sret (- 1)))"

definition sys_mkdirat :: "('o, 'fs, 'w) vfs \<Rightarrow> nat \<Rightarrow> usize \<Rightarrow> string \<Rightarrow> (('o, 'fs, 'w) kfiles, int) st" where
  "sys_mkdirat vf q dirfd path = sbind (full_path q dirfd path) (mkdir vf)"

definition sys_chdir :: "nat \<Rightarrow> string \<Rightarrow> (('o, 'fs, 'w) kfiles, int) st" where
  "sys_chdir q path =
     sbind (full_path q AT_FDCWD path) (\<lambda>fp.
     sbind (kupd (\<lambda>s. s\<lparr>k_procs := (k_procs s)[q := map_option (\<lambda>p. p\<lparr>pf_cwd := fp\<rparr>) (k_procs s ! q)]\<rparr>)) (\<lambda>_. sret 0))"

text \<open>The bytes stored in a buffer of \<open>len\<close> bytes; slicing panics when the directory does not fit.\<close>

definition sys_getcwd :: "nat \<Rightarrow> nat \<Rightarrow> (('o, 'fs, 'w) kfiles, string) st" where
  "sys_getcwd q len =
     sbind (get_proc q) (\<lambda>p.
     sbind (slift (rguard (length (pf_cwd p) < len) (Panic OutOfBounds))) (\<lambda>_. sret (pf_cwd p @ [CHR 0x00])))"

section \<open>Mounting, forking, exiting\<close>

text \<open>Registration also puts a vnode for the mount point into the set, in place of the one that is there.\<close>

definition vset_insert :: "string \<Rightarrow> nat \<Rightarrow> ('o, 'fs, 'w) kfiles \<Rightarrow> ('o, 'fs, 'w) kfiles" where
  "vset_insert path v s =
     (let s1 = s\<lparr>k_vset := (path, v) # filter (\<lambda>e. fst e \<noteq> path) (k_vset s)\<rparr>
      in case map_of (k_vset s) path of None \<Rightarrow> s1 | Some w \<Rightarrow> release_vnode w s1)"

definition k_register :: "('o, 'fs, 'w) vfs \<Rightarrow> string \<Rightarrow> 'fs \<Rightarrow> (('o, 'fs, 'w) kfiles, unit) st" where
  "k_register vf path fs =
     sbind (kget (\<lambda>s. regeister_file_system (path, fs) (k_fs_table s))) (\<lambda>r.
     sbind (slift r) (\<lambda>tab.
     sbind (kupd (\<lambda>s. s\<lparr>k_fs_table := tab\<rparr>)) (\<lambda>_.
     sbind (vnode_new \<lparr>vn_full_path = path, vn_inode = FileNode (vfs_root_dir vf fs)\<rparr>) (\<lambda>v.
     kupd (vset_insert path v)))))"

text \<open>\<open>fs::init\<close> mounts the file system of the block device; \<open>new\<close> is \<open>FatFs::new\<close> on it.\<close>

definition fs_init :: "('o, 'fs, 'w) vfs \<Rightarrow> ('w, 'fs) st \<Rightarrow> (('o, 'fs, 'w) kfiles, unit) st" where
  "fs_init vf new = sbind (sunwrap (on_world new)) (\<lambda>fs. k_register vf ''/'' fs)"

definition sys_mount :: "('o, 'fs, 'w) vfs \<Rightarrow> nat \<Rightarrow> string \<Rightarrow> (('o, 'fs, 'w) kfiles, int) st" where
  "sys_mount vf q target =
     sbind (full_path q AT_FDCWD target) (\<lambda>fp.
     sbind (kget (\<lambda>s. k_fs_table s ! filesystem_lookup fp (k_fs_table s))) (\<lambda>e.
     case e of
       None \<Rightarrow> sfail (Panic Assertion)
     | Some (mp, fs) \<Rightarrow>
         sbind (slift (rguard (length mp \<le> length fp) (Panic OutOfBounds))) (\<lambda>_.
         sbind (sunwrap (on_world (vfs_open_dir vf fs (drop (length mp) fp)))) (\<lambda>_.
         sbind (k_register vf fp fs) (\<lambda>_. sret 0)))))"

definition sys_umount2 :: "nat \<Rightarrow> string \<Rightarrow> (('o, 'fs, 'w) kfiles, int) st" where
  "sys_umount2 q target =
     sbind (full_path q AT_FDCWD target) (\<lambda>fp.
     sbind (kget (\<lambda>s. umount fp (k_fs_table s))) (\<lambda>r.
     sbind (slift r) (\<lambda>tab.
     sbind (kupd (\<lambda>s. s\<lparr>k_fs_table := tab\<rparr>)) (\<lambda>_. sret 0))))"

text \<open>A process from an ELF file starts with the console in its first three slots; \<open>fork\<close> clones the table
  of its parent; when the process object is dropped its slots are dropped in order.\<close>

definition proc_new :: "(('o, 'fs, 'w) kfiles, nat) st" where
  "proc_new s = (Inr (length (k_procs s)),
     s\<lparr>k_procs := k_procs s @ [Some \<lparr>pf_cwd = ''/'', pf_fds = [Some STDIN, Some STDOUT, Some STDOUT]\<rparr>]\<rparr>)"

definition proc_fork :: "nat \<Rightarrow> (('o, 'fs, 'w) kfiles, nat) st" where
  "proc_fork q =
     sbind (get_proc q) (\<lambda>p.
     (\<lambda>s. (Inr (length (k_procs s)), s\<lparr>k_procs := k_procs s @ [Some p]\<rparr>)))"

fun clear_slots :: "nat \<Rightarrow> nat list \<Rightarrow> (('o, 'fs, 'w) kfiles, unit) st" where
  "clear_slots q [] = sret ()"
| "clear_slots q (i # is) = sbind (slot_clear q i) (\<lambda>_. clear_slots q is)"

definition proc_drop :: "nat \<Rightarrow> (('o, 'fs, 'w) kfiles, unit) st" where
  "proc_drop q =
     sbind (get_proc q) (\<lambda>p.
     sbind (clear_slots q [0..<length (pf_fds p)]) (\<lambda>_.
     kupd (\<lambda>s. s\<lparr>k_procs := (k_procs s)[q := None]\<rparr>)))"

end
