(* ===== verification/Kernel_File_Inv.thy ===== *)
theory Kernel_File_Inv
  imports Kernel_File
begin

text \<open>
  The invariant of open files: every slot of every descriptor table refers to a live descriptor, every
  live descriptor is referenced, its vnode is live, the vnode set knows exactly the vnodes of files,
  and an end of a pipe exists exactly as long as its vnode does. Each primitive step on references keeps
  the invariant, stated as a rule for the weakest precondition of the step.
\<close>

section \<open>Lists of objects\<close>

lemma lookup_at_append [simp]:
  "lookup_at (xs @ [x]) i = (if i = length xs then x else lookup_at xs i)"
  by (auto simp: lookup_at_def nth_append)

lemma lookup_at_update:
  "lookup_at (xs[i := y]) j = (if i = j \<and> i < length xs then y else lookup_at xs j)"
  by (auto simp: lookup_at_def)

lemma lookup_at_Some: "lookup_at xs i = Some x \<Longrightarrow> i < length xs \<and> xs ! i = Some x"
  by (auto simp: lookup_at_def split: if_splits)

lemma lookup_at_clear: "lookup_at (xs[i := None]) j = Some y \<longleftrightarrow> j \<noteq> i \<and> lookup_at xs j = Some y"
  by (auto simp: lookup_at_update) (simp add: lookup_at_def)

lemma length_filter_update:
  assumes "i < length xs"
  shows "length (filter P (xs[i := y])) + (if P (xs ! i) then 1 else 0) = length (filter P xs) + (if P y then 1 else 0)"
  using assms
proof (induction xs arbitrary: i)
  case (Cons x xs)
  then show ?case by (cases i) (auto split: if_splits)
qed simp

lemma length_filter_pos: "0 < length (filter P xs) \<longleftrightarrow> (\<exists>x \<in> set xs. P x)"
  by (induction xs) auto

lemma lookup_at_in_set: "lookup_at xs i = Some x \<Longrightarrow> Some x \<in> set xs"
  by (auto simp: lookup_at_def split: if_splits) (metis nth_mem)

lemma in_set_lookup_at: "Some x \<in> set xs \<longleftrightarrow> (\<exists>i. lookup_at xs i = Some x)"
  by (auto simp: lookup_at_def in_set_conv_nth)

section \<open>The invariant\<close>

definition on_vnode :: "nat \<Rightarrow> file_descriptor option \<Rightarrow> bool" where
  "on_vnode v f = (case f of None \<Rightarrow> False | Some d \<Rightarrow> fd_vnode d = v)"

definition nfiles :: "('o, 'fs, 'w) kfiles \<Rightarrow> nat \<Rightarrow> nat" where
  "nfiles s v = length (filter (on_vnode v) (k_files s))"

definition nset :: "('o, 'fs, 'w) kfiles \<Rightarrow> nat \<Rightarrow> nat" where
  "nset s v = length (filter (\<lambda>e. snd e = v) (k_vset s))"

lemma vnode_refs_eq: "vnode_refs s v = nfiles s v + nset s v + (if v = 0 then 1 else 0)"
  by (simp add: vnode_refs_def nfiles_def nset_def CONSOLE_VNODE_def on_vnode_def [abs_def])

lemma nfiles_pos: "0 < nfiles s v \<longleftrightarrow> (\<exists>f d. lookup_at (k_files s) f = Some d \<and> fd_vnode d = v)"
proof -
  have "on_vnode v x \<longleftrightarrow> (\<exists>d. x = Some d \<and> fd_vnode d = v)" for x
    by (auto simp: on_vnode_def split: option.splits)
  then show ?thesis unfolding nfiles_def length_filter_pos by (metis in_set_lookup_at)
qed

definition slot_ok :: "('o, 'fs, 'w) kfiles \<Rightarrow> bool" where
  "slot_ok s \<longleftrightarrow>
     (\<forall>q p. lookup_at (k_procs s) q = Some p \<longrightarrow> length (pf_fds p) \<le> MAX_FD \<and>
        (\<forall>f. Some f \<in> set (pf_fds p) \<longrightarrow> lookup_at (k_files s) f \<noteq> None)) \<and>
     (\<forall>f \<in> set (k_held s). lookup_at (k_files s) f \<noteq> None)"

definition files_ok :: "nat set \<Rightarrow> ('o, 'fs, 'w) kfiles \<Rightarrow> bool" where
  "files_ok F s \<longleftrightarrow>
     (\<forall>f d. lookup_at (k_files s) f = Some d \<longrightarrow> (f \<in> F \<or> file_used s f) \<and> lookup_at (k_vnodes s) (fd_vnode d) \<noteq> None \<and>
        (fd_vnode d = CONSOLE_VNODE \<longrightarrow> f = STDIN \<or> f = STDOUT))"

definition is_pipe :: "'o inode \<Rightarrow> bool" where
  "is_pipe i = (case i of PipeReadEnd k \<Rightarrow> True | PipeWriteEnd k \<Rightarrow> True | _ \<Rightarrow> False)"

definition vnode_ok :: "('o, 'fs, 'w) kfiles \<Rightarrow> nat \<Rightarrow> 'o vnode \<Rightarrow> bool" where
  "vnode_ok s v x \<longleftrightarrow>
     (case vn_inode x of
        Console \<Rightarrow> v = CONSOLE_VNODE
      | PipeReadEnd k \<Rightarrow> v \<noteq> CONSOLE_VNODE \<and> k < length (k_pipes s) \<and> nfiles s v = 1
      | PipeWriteEnd k \<Rightarrow> v \<noteq> CONSOLE_VNODE \<and> k < length (k_pipes s) \<and> nfiles s v = 1
      | FileNode o1 \<Rightarrow> v \<noteq> CONSOLE_VNODE \<and> (vn_full_path x, v) \<in> set (k_vset s))"

definition vset_ok :: "('o, 'fs, 'w) kfiles \<Rightarrow> bool" where
  "vset_ok s \<longleftrightarrow> distinct (map fst (k_vset s)) \<and>
     (\<forall>p v. (p, v) \<in> set (k_vset s) \<longrightarrow>
        (\<exists>x o1. lookup_at (k_vnodes s) v = Some x \<and> vn_full_path x = p \<and> vn_inode x = FileNode o1))"

text \<open>The vnodes with the inode \<open>i\<close>.\<close>

definition nodes :: "('o, 'fs, 'w) kfiles \<Rightarrow> 'o inode \<Rightarrow> nat set" where
  "nodes s i = {v. \<exists>x. lookup_at (k_vnodes s) v = Some x \<and> vn_inode x = i}"

definition pipes_ok :: "('o, 'fs, 'w) kfiles \<Rightarrow> bool" where
  "pipes_ok s \<longleftrightarrow>
     (\<forall>k < length (k_pipes s).
        (pp_reader (k_pipes s ! k) \<longleftrightarrow> nodes s (PipeReadEnd k) \<noteq> {}) \<and>
        (pp_writer (k_pipes s ! k) \<longleftrightarrow> nodes s (PipeWriteEnd k) \<noteq> {})) \<and>
     (\<forall>i v v'. is_pipe i \<longrightarrow> v \<in> nodes s i \<longrightarrow> v' \<in> nodes s i \<longrightarrow> v = v')"

definition statics_ok :: "('o, 'fs, 'w) kfiles \<Rightarrow> bool" where
  "statics_ok s \<longleftrightarrow> (\<exists>x. lookup_at (k_vnodes s) CONSOLE_VNODE = Some x \<and> vn_inode x = Console) \<and>
     (\<exists>d. lookup_at (k_files s) STDIN = Some d \<and> fd_vnode d = CONSOLE_VNODE) \<and>
     (\<exists>d. lookup_at (k_files s) STDOUT = Some d \<and> fd_vnode d = CONSOLE_VNODE)"

text \<open>\<open>kwf F s\<close>: the invariant, where the descriptors in \<open>F\<close> may have lost their last reference.\<close>

definition kwf :: "nat set \<Rightarrow> ('o, 'fs, 'w) kfiles \<Rightarrow> bool" where
  "kwf F s \<longleftrightarrow> slot_ok s \<and> files_ok F s \<and> vset_ok s \<and> pipes_ok s \<and> statics_ok s \<and>
     (\<forall>v x. lookup_at (k_vnodes s) v = Some x \<longrightarrow> vnode_ok s v x)"

lemmas kwf_defs = kwf_def slot_ok_def files_ok_def vset_ok_def pipes_ok_def statics_ok_def

lemma vset_member:
  assumes "kwf F s" "(p, v) \<in> set (k_vset s)"
  shows "\<exists>x o1. lookup_at (k_vnodes s) v = Some x \<and> vn_full_path x = p \<and> vn_inode x = FileNode o1"
  using assms unfolding kwf_def vset_ok_def by blast

lemma file_vnode:
  assumes "kwf F s" "lookup_at (k_files s) f = Some d"
  shows "\<exists>x. lookup_at (k_vnodes s) (fd_vnode d) = Some x"
proof -
  have "lookup_at (k_vnodes s) (fd_vnode d) \<noteq> None" using assms unfolding kwf_def files_ok_def by blast
  then show ?thesis by blast
qed

lemma kwf_init:
  fixes w :: 'w
  shows "kwf {} (kfiles_init ths w :: ('o, 'fs, 'w) kfiles)"
proof -
  let ?s = "kfiles_init ths w :: ('o, 'fs, 'w) kfiles"
  have f: "lookup_at (k_files ?s) f = Some d \<Longrightarrow> (f = 0 \<or> f = 1) \<and> fd_vnode d = 0" for f d
    by (auto simp: kfiles_init_def lookup_at_def CONSOLE_VNODE_def less_Suc_eq split: if_splits)
  have v: "lookup_at (k_vnodes ?s) v = Some x \<Longrightarrow> v = 0 \<and> vn_inode x = Console" for v x
    by (auto simp: kfiles_init_def lookup_at_def split: if_splits)
  have v0: "lookup_at (k_vnodes ?s) 0 = Some \<lparr>vn_full_path = [], vn_inode = Console\<rparr>"
    by (simp add: kfiles_init_def lookup_at_def)
  have "slot_ok ?s" by (simp add: slot_ok_def kfiles_init_def lookup_at_def)
  moreover have "files_ok {} ?s" using f v0 by (force simp: files_ok_def file_used_def STDIN_def STDOUT_def)
  moreover have "vset_ok ?s" "statics_ok ?s"
    by (simp_all add: vset_ok_def statics_ok_def kfiles_init_def lookup_at_def STDIN_def STDOUT_def CONSOLE_VNODE_def)
  moreover have "pipes_ok ?s"
    using v by (force simp: pipes_ok_def nodes_def is_pipe_def kfiles_init_def split: inode.splits)
  moreover have "vnode_ok ?s v x" if "lookup_at (k_vnodes ?s) v = Some x" for v x
    using v [OF that] by (simp add: vnode_ok_def CONSOLE_VNODE_def)
  ultimately show ?thesis by (simp add: kwf_def)
qed

section \<open>Dropping references\<close>

lemma nfiles_update:
  assumes "lookup_at (k_files s) f = Some d" "k_files s' = (k_files s)[f := e]"
  shows "nfiles s' v + (if fd_vnode d = v then 1 else 0) = nfiles s v + (if on_vnode v e then 1 else 0)"
  using length_filter_update [of f "k_files s" "on_vnode v" e] lookup_at_Some [OF assms(1)] assms(2)
  by (simp add: nfiles_def on_vnode_def)

lemma nfiles_unique:
  assumes "nfiles s v = 1" "lookup_at (k_files s) f = Some d" "lookup_at (k_files s) g = Some e"
    "fd_vnode d = v" "fd_vnode e = v"
  shows "f = g"
proof (rule ccontr)
  assume ne: "f \<noteq> g"
  let ?s = "s\<lparr>k_files := (k_files s)[f := None]\<rparr>"
  have "nfiles ?s v = 0"
    using nfiles_update [of s f d ?s None v] assms(1,2,4) by (simp add: on_vnode_def)
  moreover have "lookup_at (k_files ?s) g = Some e" using assms(3) ne by (simp add: lookup_at_update)
  ultimately show False using nfiles_pos [of ?s v] assms(5) by auto
qed

text \<open>A vnode of a file is in the set once, any other is not in it.\<close>

lemma nset_eq:
  assumes "kwf F s" "lookup_at (k_vnodes s) v = Some x"
  shows "nset s v = (case vn_inode x of FileNode o1 \<Rightarrow> 1 | _ \<Rightarrow> 0)"
proof -
  have vs: "distinct (map fst (k_vset s))" and
    mem: "\<And>p v. (p, v) \<in> set (k_vset s) \<Longrightarrow> \<exists>x o1. lookup_at (k_vnodes s) v = Some x \<and> vn_full_path x = p \<and> vn_inode x = FileNode o1"
    using assms(1) vset_member [OF assms(1)] by (simp add: kwf_def vset_ok_def, blast)
  have only: "e = (vn_full_path x, v) \<and> (\<exists>o1. vn_inode x = FileNode o1)" if "e \<in> set (k_vset s)" "snd e = v" for e
    using mem [of "fst e" "snd e"] that assms(2) by (cases e) auto
  have "nset s v = card (set (filter (\<lambda>e. snd e = v) (k_vset s)))"
    unfolding nset_def using vs by (intro distinct_card [symmetric]) (simp add: distinct_map)
  also have "\<dots> = (if (vn_full_path x, v) \<in> set (k_vset s) then 1 else 0)"
  proof (cases "(vn_full_path x, v) \<in> set (k_vset s)")
    case True
    have "set (filter (\<lambda>e. snd e = v) (k_vset s)) = {(vn_full_path x, v)}"
    proof
      show "set (filter (\<lambda>e. snd e = v) (k_vset s)) \<subseteq> {(vn_full_path x, v)}" using only by fastforce
    qed (use True in simp)
    with True show ?thesis by simp
  next
    case False
    have "filter (\<lambda>e. snd e = v) (k_vset s) = []" unfolding filter_empty_conv using only False by fastforce
    with False show ?thesis by simp
  qed
  finally have "nset s v = (if (vn_full_path x, v) \<in> set (k_vset s) then 1 else 0)" .
  moreover have "vnode_ok s v x" using assms by (simp add: kwf_def)
  ultimately show ?thesis using only [of "(vn_full_path x, v)"] by (auto simp: vnode_ok_def split: inode.splits)
qed

lemma file_used_cong:
  "k_held s' = k_held s \<Longrightarrow> k_procs s' = k_procs s \<Longrightarrow> file_used s' f = file_used s f"
  by (simp add: file_used_def)

text \<open>Removing a descriptor that nothing refers to, together with the vnode when it was its last user.\<close>

lemma remove_file_slots:
  assumes "kwf {f} s" "\<not> file_used s f" "k_files s' = (k_files s)[f := None]" "k_procs s' = k_procs s" "k_held s' = k_held s"
  shows "slot_ok s'"
proof -
  have "\<not> (\<exists>q p. lookup_at (k_procs s) q = Some p \<and> Some f \<in> set (pf_fds p))" "f \<notin> set (k_held s)"
    using assms(2) by (auto simp: file_used_def list_ex_iff dest!: lookup_at_in_set)
  with assms(1,3-5) show ?thesis by (fastforce simp: kwf_def slot_ok_def lookup_at_update)
qed

lemma remove_file_keep_vnode:
  assumes wf: "kwf {f} s" and unused: "\<not> file_used s f" and f: "lookup_at (k_files s) f = Some d"
    and x: "lookup_at (k_vnodes s) (fd_vnode d) = Some x" "vn_inode x = FileNode o1"
  shows "kwf {} (s\<lparr>k_files := (k_files s)[f := None]\<rparr>)" (is "kwf {} ?s")
proof -
  have n: "nfiles ?s v = nfiles s v" if "v \<noteq> fd_vnode d" for v
    using nfiles_update [OF f, of ?s None v] that by (simp add: on_vnode_def)
  have "vnode_ok ?s v y" if y: "lookup_at (k_vnodes s) v = Some y" for v y
  proof (cases "v = fd_vnode d")
    case True
    have "vnode_ok s v y" using wf y by (simp add: kwf_def)
    with True y x show ?thesis by (simp add: vnode_ok_def)
  next
    case False
    have "vnode_ok s v y" using wf y by (simp add: kwf_def)
    with n [OF False] show ?thesis by (simp add: vnode_ok_def split: inode.splits)
  qed
  moreover have "slot_ok ?s" by (rule remove_file_slots [OF wf unused]) simp_all
  moreover have "files_ok {} ?s"
    using wf by (auto simp: kwf_def files_ok_def lookup_at_clear file_used_cong [of ?s s])
  moreover have "f \<noteq> STDIN" "f \<noteq> STDOUT" using unused by (auto simp: file_used_def)
  then have "statics_ok ?s" using wf by (simp add: kwf_def statics_ok_def lookup_at_update)
  moreover have "vset_ok ?s" "pipes_ok ?s" using wf by (simp_all add: kwf_def vset_ok_def pipes_ok_def nodes_def)
  ultimately show ?thesis by (simp add: kwf_def)
qed

lemma remove_last_file:
  assumes wf: "kwf {f} s" and unused: "\<not> file_used s f" and f: "lookup_at (k_files s) f = Some d"
    and x: "lookup_at (k_vnodes s) (fd_vnode d) = Some x" "vn_inode x = FileNode o1" and last: "nfiles s (fd_vnode d) = 1"
  shows "kwf {} (s\<lparr>k_vset := filter (\<lambda>e. fst e \<noteq> vn_full_path x) (k_vset s), k_files := (k_files s)[f := None],
    k_vnodes := (k_vnodes s)[fd_vnode d := None]\<rparr>)" (is "kwf {} ?s")
proof -
  let ?v = "fd_vnode d"
  have lv: "lookup_at (k_vnodes ?s) v = Some y \<longleftrightarrow> v \<noteq> ?v \<and> lookup_at (k_vnodes s) v = Some y" for v y
    using lookup_at_Some [OF x(1)] by (auto simp: lookup_at_update)
  have path: "vn_full_path y \<noteq> vn_full_path x" if "lookup_at (k_vnodes s) v = Some y" "vn_inode y = FileNode o2" "v \<noteq> ?v" for v y o2
  proof
    assume eq: "vn_full_path y = vn_full_path x"
    have "vnode_ok s v y" "vnode_ok s ?v x" using wf that(1) x(1) by (auto simp: kwf_def)
    then have "(vn_full_path x, v) \<in> set (k_vset s)" "(vn_full_path x, ?v) \<in> set (k_vset s)"
      using that(2) x(2) eq by (auto simp: vnode_ok_def)
    moreover have "distinct (map fst (k_vset s))" using wf by (simp add: kwf_def vset_ok_def)
    ultimately show False using that(3) eq_key_imp_eq_value by fastforce
  qed
  have "vnode_ok ?s v y" if "lookup_at (k_vnodes ?s) v = Some y" for v y
  proof -
    have y: "lookup_at (k_vnodes s) v = Some y" "v \<noteq> ?v" using that lv by auto
    have "nfiles ?s v = nfiles s v" using nfiles_update [OF f, of ?s None v] y(2) by (simp add: on_vnode_def)
    moreover have "vnode_ok s v y" using wf y(1) by (simp add: kwf_def)
    ultimately show ?thesis using path [OF y(1)] y(2) by (auto simp: vnode_ok_def split: inode.splits)
  qed
  moreover have "slot_ok ?s" by (rule remove_file_slots [OF wf unused]) simp_all
  moreover have "files_ok {} ?s"
  proof -
    have "fd_vnode e \<noteq> ?v" if "lookup_at (k_files s) g = Some e" "g \<noteq> f" for g e
      using nfiles_unique [OF last f that(1)] that(2) by auto
    moreover have "files_ok {f} s" using wf by (simp add: kwf_def)
    ultimately show ?thesis unfolding files_ok_def
      by (auto simp: lookup_at_clear file_used_cong [of ?s s] not_None_eq simp del: not_None_eq)
        (auto simp: lookup_at_update)
  qed
  moreover have "f \<noteq> STDIN" "f \<noteq> STDOUT" using unused by (auto simp: file_used_def)
  then have "statics_ok ?s" using wf x by (auto simp: kwf_def statics_ok_def lookup_at_update)
  moreover have "vset_ok ?s"
  proof -
    have "\<exists>y o1. lookup_at (k_vnodes ?s) v = Some y \<and> vn_full_path y = p \<and> vn_inode y = FileNode o1"
      if "(p, v) \<in> set (k_vset s)" "p \<noteq> vn_full_path x" for p v
    proof -
      note mem = that
      obtain y o2 where y: "lookup_at (k_vnodes s) v = Some y" "vn_full_path y = p" "vn_inode y = FileNode o2"
        using vset_member [OF wf mem(1)] by blast
      with mem(2) x(1) have "v \<noteq> ?v" by auto
      with y lv show ?thesis by blast
    qed
    moreover have "distinct (map fst (k_vset s))" using wf by (simp add: kwf_def vset_ok_def)
    ultimately show ?thesis by (auto simp: vset_ok_def distinct_map_filter)
  qed
  moreover have "pipes_ok ?s"
  proof -
    have "nodes ?s i = nodes s i" if "is_pipe i" for i
      using that x(2) lv by (auto simp: nodes_def is_pipe_def x(1))
    then show ?thesis using wf by (simp add: kwf_def pipes_ok_def is_pipe_def)
  qed
  ultimately show ?thesis by (simp add: kwf_def)
qed

lemma drop_inode_flags:
  assumes "k < length ps" "\<exists>j < length ps. i = PipeReadEnd j \<or> i = PipeWriteEnd j"
  shows "pp_reader (drop_inode i ps ! k) \<longleftrightarrow> pp_reader (ps ! k) \<and> i \<noteq> PipeReadEnd k"
    and "pp_writer (drop_inode i ps ! k) \<longleftrightarrow> pp_writer (ps ! k) \<and> i \<noteq> PipeWriteEnd k"
proof -
  obtain j where "j < length ps" "i = PipeReadEnd j \<or> i = PipeWriteEnd j" using assms(2) by blast
  with assms(1) show "pp_reader (drop_inode i ps ! k) \<longleftrightarrow> pp_reader (ps ! k) \<and> i \<noteq> PipeReadEnd k"
    "pp_writer (drop_inode i ps ! k) \<longleftrightarrow> pp_writer (ps ! k) \<and> i \<noteq> PipeWriteEnd k"
    by (cases "j = k"; auto simp: drop_inode_def pipe_drop_read_def pipe_drop_write_def)+
qed

lemma length_drop_inode [simp]: "length (drop_inode i ps) = length ps"
  by (simp add: drop_inode_def split: inode.splits)

lemma remove_pipe_end:
  assumes wf: "kwf {f} s" and unused: "\<not> file_used s f" and f: "lookup_at (k_files s) f = Some d"
    and x: "lookup_at (k_vnodes s) (fd_vnode d) = Some x" "is_pipe (vn_inode x)"
  shows "kwf {} (s\<lparr>k_files := (k_files s)[f := None], k_vnodes := (k_vnodes s)[fd_vnode d := None],
    k_pipes := drop_inode (vn_inode x) (k_pipes s)\<rparr>)" (is "kwf {} ?s")
proof -
  let ?v = "fd_vnode d" and ?i = "vn_inode x"
  have ok: "vnode_ok s ?v x" using wf x(1) by (simp add: kwf_def)
  have last: "nfiles s ?v = 1" and range: "\<exists>j < length (k_pipes s). ?i = PipeReadEnd j \<or> ?i = PipeWriteEnd j"
    and v0: "?v \<noteq> CONSOLE_VNODE"
    using ok x(2) by (auto simp: vnode_ok_def is_pipe_def split: inode.splits)
  have lv: "lookup_at (k_vnodes ?s) v = Some y \<longleftrightarrow> v \<noteq> ?v \<and> lookup_at (k_vnodes s) v = Some y" for v y
    by (simp add: lookup_at_clear)
  have nodes: "nodes ?s j = (if j = ?i then {} else nodes s j)" if "is_pipe j" for j
  proof (cases "j = ?i")
    case True
    have "v = ?v" if "v \<in> nodes s ?i" for v
      using wf x that unfolding kwf_def pipes_ok_def by (auto simp: nodes_def)
    with True lv show ?thesis by (auto simp: nodes_def)
  next
    case False
    with lv x(1) show ?thesis by (auto simp: nodes_def)
  qed
  have "vnode_ok ?s v y" if "lookup_at (k_vnodes ?s) v = Some y" for v y
  proof -
    have y: "lookup_at (k_vnodes s) v = Some y" "v \<noteq> ?v" using that lv by auto
    have "nfiles ?s v = nfiles s v" using nfiles_update [OF f, of ?s None v] y(2) by (simp add: on_vnode_def)
    moreover have "vnode_ok s v y" using wf y(1) by (simp add: kwf_def)
    ultimately show ?thesis by (simp add: vnode_ok_def split: inode.splits)
  qed
  moreover have "slot_ok ?s" by (rule remove_file_slots [OF wf unused]) simp_all
  moreover have "files_ok {} ?s"
  proof -
    have "fd_vnode e \<noteq> ?v" if "lookup_at (k_files s) g = Some e" "g \<noteq> f" for g e
      using nfiles_unique [OF last f that(1)] that(2) by auto
    moreover have "files_ok {f} s" using wf by (simp add: kwf_def)
    ultimately show ?thesis unfolding files_ok_def
      by (auto simp: lookup_at_clear file_used_cong [of ?s s] not_None_eq simp del: not_None_eq)
        (auto simp: lookup_at_update)
  qed
  moreover have "f \<noteq> STDIN" "f \<noteq> STDOUT" using unused by (auto simp: file_used_def)
  then have "statics_ok ?s" using wf v0 by (auto simp: kwf_def statics_ok_def lookup_at_update)
  moreover have "vset_ok ?s"
  proof -
    have "v \<noteq> ?v" if "(p, v) \<in> set (k_vset s)" for p v
      using vset_member [OF wf that] x by (auto simp: is_pipe_def)
    with wf show ?thesis unfolding kwf_def vset_ok_def lv by (simp add: lookup_at_clear)
  qed
  moreover have "pipes_ok ?s"
  proof -
    have p: "is_pipe (PipeReadEnd k)" "is_pipe (PipeWriteEnd k)" for k by (simp_all add: is_pipe_def)
    have old: "pipes_ok s" using wf by (simp add: kwf_def)
    have "(pp_reader (k_pipes ?s ! k) \<longleftrightarrow> nodes ?s (PipeReadEnd k) \<noteq> {}) \<and>
        (pp_writer (k_pipes ?s ! k) \<longleftrightarrow> nodes ?s (PipeWriteEnd k) \<noteq> {})" if "k < length (k_pipes s)" for k
      using old that unfolding nodes [OF p(1)] nodes [OF p(2)]
      by (auto simp: pipes_ok_def drop_inode_flags [OF that range])
    moreover have "v = v'" if "is_pipe i" "v \<in> nodes ?s i" "v' \<in> nodes ?s i" for i v v'
      using old that unfolding nodes [OF that(1)] pipes_ok_def by (auto split: if_splits)
    ultimately show ?thesis unfolding pipes_ok_def by simp
  qed
  ultimately show ?thesis by (simp add: kwf_def)
qed

text \<open>Dropping a reference never fails and restores the invariant.\<close>

definition same_slots :: "('o, 'fs, 'w) kfiles \<Rightarrow> ('o, 'fs, 'w) kfiles \<Rightarrow> bool" where
  "same_slots s s' \<longleftrightarrow> k_procs s' = k_procs s \<and> k_held s' = k_held s"

lemma map_of_vset:
  assumes "kwf F s" "lookup_at (k_vnodes s) v = Some x" "vn_inode x = FileNode o1"
  shows "map_of (k_vset s) (vn_full_path x) = Some v"
proof -
  have "vnode_ok s v x" "distinct (map fst (k_vset s))" using assms(1,2) by (auto simp: kwf_def vset_ok_def)
  then show ?thesis using assms(3) by (simp add: vnode_ok_def)
qed

lemma release_file_ok:
  assumes wf: "kwf {f} s"
  shows "\<exists>s'. release_file f s = (Inr (), s') \<and> kwf {} s' \<and> same_slots s s'"
proof (cases "file_used s f \<or> lookup_at (k_files s) f = None")
  case True
  then have "release_file f s = (Inr (), s)" by (auto simp: release_file_def)
  moreover have "kwf {} s" using wf True by (fastforce simp: kwf_def files_ok_def)
  ultimately show ?thesis by (simp add: same_slots_def)
next
  case False
  then obtain d where f: "lookup_at (k_files s) f = Some d" and unused: "\<not> file_used s f" by auto
  have rel: "release_file f s = file_descriptor_drop f d s" using f unused by (simp add: release_file_def)
  let ?v = "fd_vnode d"
  obtain x where x: "lookup_at (k_vnodes s) ?v = Some x" using file_vnode [OF wf f] by blast
  have ok: "vnode_ok s ?v x" using wf x by (simp add: kwf_def)
  have v0: "?v \<noteq> 0"
    using wf f unused by (auto simp: kwf_def files_ok_def file_used_def CONSOLE_VNODE_def)
  have refs: "vnode_refs s ?v = nfiles s ?v + (case vn_inode x of FileNode o1 \<Rightarrow> 1 | _ \<Rightarrow> 0)"
    using v0 nset_eq [OF wf x] by (simp add: vnode_refs_eq)
  have pos: "0 < nfiles s ?v" using nfiles_pos f by blast
  let ?s = "s\<lparr>k_files := (k_files s)[f := None]\<rparr>"
  have less: "nfiles ?s ?v + 1 = nfiles s ?v"
    using nfiles_update [OF f, of ?s None ?v] by (simp add: on_vnode_def)
  consider (pipe) "is_pipe (vn_inode x)" | (node) o1 where "vn_inode x = FileNode o1"
    using ok v0 by (cases "vn_inode x") (auto simp: is_pipe_def vnode_ok_def CONSOLE_VNODE_def)
  then show ?thesis
  proof cases
    case pipe
    then have n: "nfiles s ?v = 1" "vnode_refs s ?v = 1"
      using ok refs by (auto simp: vnode_ok_def is_pipe_def split: inode.splits)
    then have "nset s ?v = 0" using v0 by (simp add: vnode_refs_eq)
    then have "vnode_refs ?s ?v = 0" using less n(1) v0 by (simp add: vnode_refs_eq nset_def)
    then have "release_file f s = (Inr (), ?s\<lparr>k_vnodes := (k_vnodes s)[?v := None],
        k_pipes := drop_inode (vn_inode x) (k_pipes s)\<rparr>)"
      using n(2) x by (simp add: rel file_descriptor_drop_def release_vnode_def)
    then show ?thesis using remove_pipe_end [OF wf unused f x pipe] by (simp add: same_slots_def)
  next
    case (node o1)
    then have refs': "vnode_refs s ?v = nfiles s ?v + 1" using refs by simp
    show ?thesis
    proof (cases "nfiles s ?v = 1")
      case True
      let ?t = "s\<lparr>k_vset := filter (\<lambda>e. fst e \<noteq> vn_full_path x) (k_vset s)\<rparr>"
      have nt: "nset ?t ?v = 0"
      proof -
        have "snd e \<noteq> ?v" if "e \<in> set (k_vset s)" "fst e \<noteq> vn_full_path x" for e
          using vset_member [OF wf, of "fst e" "snd e"] that x by auto
        then show ?thesis by (auto simp: nset_def filter_empty_conv)
      qed
      have t: "vnode_refs ?t ?v = 1" using True v0 nt by (simp add: vnode_refs_eq nfiles_def)
      then have "vset_remove (vn_full_path x) s = ?t"
        using map_of_vset [OF wf x node] by (simp add: vset_remove_def release_vnode_def)
      moreover have "vnode_refs (?t\<lparr>k_files := (k_files s)[f := None]\<rparr>) ?v = 0"
        using less True nt v0 by (simp add: vnode_refs_eq nfiles_def nset_def)
      ultimately have "release_file f s = (Inr (), s\<lparr>k_vset := filter (\<lambda>e. fst e \<noteq> vn_full_path x) (k_vset s),
          k_files := (k_files s)[f := None], k_vnodes := (k_vnodes s)[?v := None]\<rparr>)"
        using refs' True t x node
        by (simp add: rel file_descriptor_drop_def release_vnode_def drop_inode_def)
      then show ?thesis using remove_last_file [OF wf unused f x node True] by (simp add: same_slots_def)
    next
      case False
      have "vnode_refs ?s ?v \<noteq> 0" using False less pos by (simp add: vnode_refs_eq)
      then have "release_file f s = (Inr (), ?s)"
        using refs' False by (simp add: rel file_descriptor_drop_def release_vnode_def)
      then show ?thesis using remove_file_keep_vnode [OF wf unused f x node] by (simp add: same_slots_def)
    qed
  qed
qed

section \<open>Steps that keep the invariant\<close>

lemma file_used_iff:
  "file_used s f \<longleftrightarrow> f = STDIN \<or> f = STDOUT \<or> f \<in> set (k_held s) \<or>
     (\<exists>q p. lookup_at (k_procs s) q = Some p \<and> Some f \<in> set (pf_fds p))"
proof -
  have "list_ex (\<lambda>p. case p of None \<Rightarrow> False | Some t \<Rightarrow> Some f \<in> set (pf_fds t)) ps \<longleftrightarrow>
      (\<exists>p. Some p \<in> set ps \<and> Some f \<in> set (pf_fds p))" for ps
    by (force simp: list_ex_iff split: option.splits)
  then show ?thesis unfolding file_used_def by (metis in_set_lookup_at)
qed

lemma kwf_used: "kwf (insert f F) s \<Longrightarrow> file_used s f \<Longrightarrow> kwf F s"
  by (fastforce simp: kwf_def files_ok_def)

lemma kwf_held_cons:
  assumes "kwf F s" "lookup_at (k_files s) f \<noteq> None"
  shows "kwf F (s\<lparr>k_held := f # k_held s\<rparr>)"
  using assms
  by (auto simp: kwf_defs vnode_ok_def nodes_def nfiles_def file_used_def cong: inode.case_cong)

lemma kwf_held_remove:
  assumes "kwf F s"
  shows "kwf (insert f F) (s\<lparr>k_held := remove1 f (k_held s)\<rparr>)" (is "kwf _ ?s")
proof -
  have "file_used s g \<Longrightarrow> g = f \<or> file_used ?s g" for g
    by (auto simp: file_used_def)
  moreover have "set (remove1 f (k_held s)) \<subseteq> set (k_held s)" by (rule set_remove1_subset)
  ultimately show ?thesis using assms
    by (auto simp: kwf_defs vnode_ok_def nodes_def nfiles_def cong: inode.case_cong) blast+
qed

text \<open>Assigning the table of a process: the descriptors of slots that lose them are excused.\<close>

lemma kwf_set_fds:
  assumes wf: "kwf F s" and p: "lookup_at (k_procs s) q = Some p" and len: "length t \<le> MAX_FD"
    and live: "\<And>f. Some f \<in> set t \<Longrightarrow> lookup_at (k_files s) f \<noteq> None"
    and lost: "\<And>f. Some f \<in> set (pf_fds p) \<Longrightarrow> Some f \<in> set t \<or> f \<in> G"
  shows "kwf (F \<union> G) (s\<lparr>k_procs := (k_procs s)[q := Some (p\<lparr>pf_fds := t\<rparr>)]\<rparr>)" (is "kwf _ ?s")
proof -
  have q: "q < length (k_procs s)" "k_procs s ! q = Some p" using lookup_at_Some [OF p] by auto
  have lp: "lookup_at (k_procs ?s) r = (if r = q then Some (p\<lparr>pf_fds := t\<rparr>) else lookup_at (k_procs s) r)" for r
    using q(1) by (simp add: lookup_at_update)
  have used: "f \<in> G \<or> file_used ?s f" if u: "file_used s f" for f
  proof (cases "\<exists>r u. lookup_at (k_procs s) r = Some u \<and> Some f \<in> set (pf_fds u)")
    case True
    then obtain r u where r: "lookup_at (k_procs s) r = Some u" "Some f \<in> set (pf_fds u)" by blast
    then have "f \<in> G \<or> (\<exists>u'. lookup_at (k_procs ?s) r = Some u' \<and> Some f \<in> set (pf_fds u'))"
      using p lost [of f] unfolding lp by (cases "r = q") auto
    then show ?thesis unfolding file_used_iff by blast
  next
    case False
    with u show ?thesis unfolding file_used_iff by auto
  qed
  have "slot_ok ?s" using wf p q(1) len live unfolding kwf_def slot_ok_def
    by (auto simp: lookup_at_update split: if_splits)
  moreover have "files_ok (F \<union> G) ?s" using wf used by (auto simp: kwf_def files_ok_def)
  ultimately show ?thesis using wf
    by (simp add: kwf_def vset_ok_def pipes_ok_def statics_ok_def nodes_def vnode_ok_def nfiles_def cong: inode.case_cong)
qed

definition kst :: "('o, 'fs, 'w) kfiles \<Rightarrow> bool" where
  "kst s \<longleftrightarrow> kwf {} s \<and> k_held s = []"

lemma kstD: "kst s \<Longrightarrow> kwf {} s" "kst s \<Longrightarrow> k_held s = []"
  by (simp_all add: kst_def)

text \<open>The error postcondition of a system call: an \<open>io::Error\<close> leaves the invariant intact.\<close>

definition kerr :: "err \<Rightarrow> ('o, 'fs, 'w) kfiles \<Rightarrow> bool" where
  "kerr e s \<longleftrightarrow> (\<forall>k. e = Io k \<longrightarrow> kst s)"

lemma kerr_panic [simp]: "kerr (Panic p) s"
  by (simp add: kerr_def)

definition kpres :: "(('o, 'fs, 'w) kfiles, 'a) st \<Rightarrow> bool" where
  "kpres m \<longleftrightarrow> (\<forall>s. kst s \<longrightarrow> wp m (\<lambda>_. kst) kerr s)"

named_theorems kpres_intros \<open>system calls that keep the invariant of open files\<close>

lemma kpresI: "(\<And>s. kst s \<Longrightarrow> wp m (\<lambda>_. kst) kerr s) \<Longrightarrow> kpres m"
  by (simp add: kpres_def)

lemma kpresD: "kpres m \<Longrightarrow> kst s \<Longrightarrow> m s = (Inr x, s') \<Longrightarrow> kst s'"
  by (force simp: kpres_def wp_def)

lemma kpresD_wp: "kst s \<Longrightarrow> kpres m \<Longrightarrow> wp m (\<lambda>_. kst) kerr s"
  by (simp add: kpres_def)

lemma kpres_sret [kpres_intros]: "kpres (sret x)"
  by (simp add: kpres_def)

lemma kpres_sfail [kpres_intros]: "kpres (sfail e)"
  by (simp add: kpres_def kerr_def)

lemma kpres_slift [kpres_intros]: "kpres (slift r)"
  by (cases r) (simp_all add: kpres_def kerr_def)

lemma kpres_kget [kpres_intros]: "kpres (kget f)"
  by (simp add: kpres_def wp_def kget_def)

lemma kpres_bind [kpres_intros]:
  assumes "kpres m" "\<And>x. kpres (f x)"
  shows "kpres (sbind m f)"
  using assms unfolding kpres_def wp_sbind by (blast intro: wp_mono)

lemma kpres_catch [kpres_intros]:
  fixes m :: "(('o, 'fs, 'w) kfiles, 'a) st"
  assumes "kpres m" "\<And>k. kpres (h k)"
  shows "kpres (scatch m h)"
proof (rule kpresI)
  fix s :: "('o, 'fs, 'w) kfiles" assume "kst s"
  with assms(1) have "wp m (\<lambda>_. kst) kerr s" by (simp add: kpres_def)
  then show "wp (scatch m h) (\<lambda>_. kst) kerr s" unfolding wp_scatch
    by (rule wp_mono) (use assms(2) in \<open>auto simp: kpres_def kerr_def split: err.splits\<close>)
qed

lemma kpres_if [kpres_intros]: "kpres m \<Longrightarrow> kpres m' \<Longrightarrow> kpres (if b then m else m')"
  by simp

lemma kpres_option [kpres_intros]:
  "kpres m \<Longrightarrow> (\<And>x. kpres (f x)) \<Longrightarrow> kpres (case r of None \<Rightarrow> m | Some x \<Rightarrow> f x)"
  by (simp split: option.splits)

lemma kpres_prod [kpres_intros]: "(\<And>a b. kpres (f a b)) \<Longrightarrow> kpres (case r of (a, b) \<Rightarrow> f a b)"
  by (simp split: prod.splits)

lemma kpres_sunwrap [kpres_intros]: "kpres m \<Longrightarrow> kpres (sunwrap m)"
  unfolding sunwrap_def by (intro kpres_intros)

text \<open>The invariant does not look at the contents of files and pipes, nor at the working directories.\<close>

lemma kst_cong:
  assumes "kst s" "k_files s' = k_files s" "k_vnodes s' = k_vnodes s" "k_vset s' = k_vset s"
    "k_procs s' = k_procs s" "k_held s' = k_held s" "length (k_pipes s') = length (k_pipes s)"
    "\<And>k. k < length (k_pipes s) \<Longrightarrow> pp_reader (k_pipes s' ! k) = pp_reader (k_pipes s ! k) \<and>
       pp_writer (k_pipes s' ! k) = pp_writer (k_pipes s ! k)"
  shows "kst s'"
proof -
  have eq: "nodes s' i = nodes s i" "nfiles s' v = nfiles s v" "file_used s' f = file_used s f" for i v f
    using assms(2-6) by (simp_all add: nodes_def nfiles_def file_used_def)
  have "pipes_ok s'"
    using assms(1,7,8) by (simp add: kst_def kwf_def pipes_ok_def eq)
  with assms(1-7) show ?thesis
    by (simp add: kst_def kwf_def slot_ok_def files_ok_def vset_ok_def statics_ok_def vnode_ok_def eq cong: inode.case_cong)
qed

lemma kpres_on_world [kpres_intros]: "kpres (on_world m :: (('o, 'fs, 'w) kfiles, 'a) st)"
proof (rule kpresI)
  fix s :: "('o, 'fs, 'w) kfiles" assume s: "kst s"
  have "kst (s\<lparr>k_world := w\<rparr>)" for w by (rule kst_cong [OF s]) simp_all
  then show "wp (on_world m) (\<lambda>_. kst) kerr s"
    by (auto simp: wp_def on_world_def kerr_def split: prod.splits sum.splits)
qed

lemma kwf_file_update:
  assumes wf: "kwf {} s" and f: "lookup_at (k_files s) f = Some d" "fd_vnode d' = fd_vnode d"
  shows "kwf {} (s\<lparr>k_files := (k_files s)[f := Some d']\<rparr>)" (is "kwf {} ?s")
proof -
  have n: "nfiles ?s v = nfiles s v" for v
    using nfiles_update [OF f(1), of ?s "Some d'" v] f(2) by (auto simp: on_vnode_def split: if_splits)
  have lf: "lookup_at (k_files ?s) g = (if g = f then Some d' else lookup_at (k_files s) g)" for g
    using lookup_at_Some [OF f(1)] by (simp add: lookup_at_update)
  have "slot_ok ?s" using wf f unfolding kwf_def slot_ok_def lf by auto
  moreover have "files_ok {} ?s" using wf f unfolding kwf_def files_ok_def lf
    by (auto simp: file_used_cong [of ?s s] split: if_splits)
  moreover have "statics_ok ?s" using wf f unfolding kwf_def statics_ok_def lf by auto
  ultimately show ?thesis using wf
    by (simp add: kwf_def vset_ok_def pipes_ok_def nodes_def vnode_ok_def n cong: inode.case_cong)
qed

lemma kst_map_file:
  assumes "kst s" "\<And>d. fd_vnode (g d) = fd_vnode d"
  shows "kst (s\<lparr>k_files := (k_files s)[f := map_option g (k_files s ! f)]\<rparr>)"
proof (cases "lookup_at (k_files s) f")
  case None
  then have "(k_files s)[f := map_option g (k_files s ! f)] = k_files s"
    by (cases "f < length (k_files s)") (auto simp: lookup_at_def list_update_same_conv list_update_beyond)
  with assms(1) show ?thesis by simp
next
  case (Some d)
  with kwf_file_update [OF kstD(1) [OF assms(1)] Some assms(2)] assms(1) show ?thesis
    by (simp add: kst_def lookup_at_Some)
qed

lemma kst_node_update:
  assumes s: "kst s" and x: "lookup_at (k_vnodes s) v = Some x" "vn_inode x = FileNode o1"
  shows "kst (s\<lparr>k_world := w, k_vnodes := (k_vnodes s)[v := Some (x\<lparr>vn_inode := FileNode o2\<rparr>)]\<rparr>)" (is "kst ?s")
proof -
  have lv: "lookup_at (k_vnodes ?s) u = (if u = v then Some (x\<lparr>vn_inode := FileNode o2\<rparr>) else lookup_at (k_vnodes s) u)" for u
    using lookup_at_Some [OF x(1)] by (simp add: lookup_at_update)
  have wf: "kwf {} s" using s by (simp add: kst_def)
  have nodes: "nodes ?s i = nodes s i" if "is_pipe i" for i
    using that x unfolding nodes_def lv by (auto simp: is_pipe_def)
  have "files_ok {} ?s" using wf x unfolding kwf_def files_ok_def lv by (auto simp: file_used_cong [of ?s s])
  moreover have "vset_ok ?s"
  proof -
    have "\<exists>y o1. lookup_at (k_vnodes ?s) u = Some y \<and> vn_full_path y = p \<and> vn_inode y = FileNode o1"
      if "(p, u) \<in> set (k_vset s)" for p u
      using vset_member [OF wf that] x unfolding lv by auto
    moreover have "distinct (map fst (k_vset s))" using wf by (simp add: kwf_def vset_ok_def)
    ultimately show ?thesis unfolding vset_ok_def by simp
  qed
  moreover have "pipes_ok ?s" using wf by (simp add: kwf_def pipes_ok_def nodes is_pipe_def)
  moreover have "statics_ok ?s" using wf x unfolding kwf_def statics_ok_def lv by auto
  moreover have "vnode_ok ?s u y" if "lookup_at (k_vnodes ?s) u = Some y" for u y
  proof (cases "u = v")
    case True
    have "vnode_ok s v x" using wf x(1) by (simp add: kwf_def)
    with True that lv x(2) show ?thesis by (auto simp: vnode_ok_def)
  next
    case False
    with that lv wf have "vnode_ok s u y" by (simp add: kwf_def)
    then show ?thesis by (simp add: vnode_ok_def nfiles_def cong: inode.case_cong)
  qed
  ultimately show ?thesis using s by (simp add: kst_def kwf_def slot_ok_def)
qed

section \<open>Descriptor tables\<close>

lemma free_slot_Some: "free_slot js t = Some i \<Longrightarrow> i \<in> set js \<and> t ! i = None"
  by (induction js) (auto split: if_splits)

lemma free_slot_first:
  "sorted js \<Longrightarrow> free_slot js t = Some i \<Longrightarrow> j \<in> set js \<Longrightarrow> j < i \<Longrightarrow> t ! j \<noteq> None"
  by (induction js) (auto split: if_splits)

lemma free_slot_None: "free_slot js t = None \<longleftrightarrow> (\<forall>j \<in> set js. t ! j \<noteq> None)"
  by (induction js) auto

text \<open>The allocators extend the table by empty slots up to the limit; a descriptor they return is the lowest
  free one at or behind the start (3 for \<open>fd_alloc\<close>, also when the first three are free).\<close>

definition allocates :: "nat \<Rightarrow> (nat option list \<Rightarrow> int \<times> nat option list) \<Rightarrow> bool" where
  "allocates m al \<longleftrightarrow> (\<forall>t. length t \<le> MAX_FD \<longrightarrow>
     (\<exists>n. snd (al t) = t @ replicate n None \<and> length t + n \<le> MAX_FD) \<and>
     (fst (al t) \<ge> 0 \<longrightarrow>
        nat (fst (al t)) < length (snd (al t)) \<and> snd (al t) ! nat (fst (al t)) = None \<and>
        (\<forall>j. m \<le> j \<longrightarrow> int j < fst (al t) \<longrightarrow> j < length t \<and> t ! j \<noteq> None)))"

lemma fd_alloc_allocates: "allocates 3 fd_alloc"
proof -
  have "(\<exists>n. snd (fd_alloc t) = t @ replicate n None \<and> length t + n \<le> MAX_FD) \<and>
     (fst (fd_alloc t) \<ge> 0 \<longrightarrow>
        nat (fst (fd_alloc t)) < length (snd (fd_alloc t)) \<and> snd (fd_alloc t) ! nat (fst (fd_alloc t)) = None \<and>
        (\<forall>j. 3 \<le> j \<longrightarrow> int j < fst (fd_alloc t) \<longrightarrow> j < length t \<and> t ! j \<noteq> None))"
    if len: "length t \<le> MAX_FD" for t
  proof (cases "free_slot [3..<length t] t")
    case None
    then have "\<forall>j. 3 \<le> j \<longrightarrow> j < length t \<longrightarrow> t ! j \<noteq> None" by (auto simp: free_slot_None)
    with None len show ?thesis
      by (auto simp: fd_alloc_def intro: exI [of _ 0] exI [of _ "Suc 0"])
  next
    case (Some i)
    then have "i < length t" "t ! i = None" using free_slot_Some [OF Some] by auto
    moreover have "\<forall>j. 3 \<le> j \<longrightarrow> j < i \<longrightarrow> j < length t \<and> t ! j \<noteq> None"
      using free_slot_first [OF _ Some] \<open>i < length t\<close> by auto
    ultimately show ?thesis using Some len by (auto simp: fd_alloc_def intro: exI [of _ 0])
  qed
  then show ?thesis by (simp add: allocates_def)
qed

lemma fd_alloc_from_allocates: "allocates m (fd_alloc_from m)"
proof -
  have "(\<exists>n. snd (fd_alloc_from m t) = t @ replicate n None \<and> length t + n \<le> MAX_FD) \<and>
     (fst (fd_alloc_from m t) \<ge> 0 \<longrightarrow>
        nat (fst (fd_alloc_from m t)) < length (snd (fd_alloc_from m t)) \<and>
        snd (fd_alloc_from m t) ! nat (fst (fd_alloc_from m t)) = None \<and>
        (\<forall>j. m \<le> j \<longrightarrow> int j < fst (fd_alloc_from m t) \<longrightarrow> j < length t \<and> t ! j \<noteq> None))"
    if len: "length t \<le> MAX_FD" for t
  proof (cases "m < MAX_FD \<and> m < length t")
    case False
    then show ?thesis using len
      by (auto simp: fd_alloc_from_def nth_append intro: exI [of _ 0] exI [of _ "Suc m - length t"])
  next
    case m: True
    show ?thesis
    proof (cases "free_slot [m..<length t] t")
      case None
      then have "\<forall>j. m \<le> j \<longrightarrow> j < length t \<longrightarrow> t ! j \<noteq> None" by (auto simp: free_slot_None)
      with None len m show ?thesis
        by (auto simp: fd_alloc_from_def intro: exI [of _ 0] exI [of _ "Suc 0"])
    next
      case (Some i)
      then have "i < length t" "t ! i = None" using free_slot_Some [OF Some] by auto
      moreover have "\<forall>j. m \<le> j \<longrightarrow> j < i \<longrightarrow> j < length t \<and> t ! j \<noteq> None"
        using free_slot_first [OF _ Some] \<open>i < length t\<close> by auto
      ultimately show ?thesis using Some len m by (auto simp: fd_alloc_from_def intro: exI [of _ 0])
    qed
  qed
  then show ?thesis by (simp add: allocates_def)
qed

lemma get_proc_eq: "lookup_at (k_procs s) q = Some p \<Longrightarrow> get_proc q s = (Inr p, s)"
  by (simp add: get_proc_def sbind_def kget_def slift_def)

lemma wp_get_proc: "(\<And>p. lookup_at (k_procs s) q = Some p \<Longrightarrow> Q p s) \<Longrightarrow> wp (get_proc q) Q kerr s"
  by (cases "lookup_at (k_procs s) q") (simp_all add: wp_def get_proc_def sbind_def kget_def slift_def)

lemma wp_guard: "(b \<Longrightarrow> Q () s) \<Longrightarrow> wp (slift (rguard b (Panic k))) Q kerr s"
  by (cases b) simp_all

lemma put_fds_eq:
  "lookup_at (k_procs s) q = Some p \<Longrightarrow>
   put_fds q t s = (Inr (), s\<lparr>k_procs := (k_procs s)[q := Some (p\<lparr>pf_fds := t\<rparr>)]\<rparr>)"
  by (simp add: put_fds_def kupd_def lookup_at_Some)

lemma wp_put_fds:
  "lookup_at (k_procs s) q = Some p \<Longrightarrow> Q () (s\<lparr>k_procs := (k_procs s)[q := Some (p\<lparr>pf_fds := t\<rparr>)]\<rparr>) \<Longrightarrow>
   wp (put_fds q t) Q E s"
  by (simp add: wp_def put_fds_eq)

lemma wp_release:
  assumes "kwf {f} s" "\<And>s'. kwf {} s' \<Longrightarrow> same_slots s s' \<Longrightarrow> Q () s'"
  shows "wp (release_file f) Q E s"
  using release_file_ok [OF assms(1)] assms(2) by (auto simp: wp_def)

text \<open>A held descriptor is live.\<close>

lemma held_live: "kwf F s \<Longrightarrow> f \<in> set (k_held s) \<Longrightarrow> lookup_at (k_files s) f \<noteq> None"
  unfolding kwf_def slot_ok_def by blast

lemma slot_live:
  "kwf F s \<Longrightarrow> lookup_at (k_procs s) q = Some p \<Longrightarrow> Some f \<in> set (pf_fds p) \<Longrightarrow> lookup_at (k_files s) f \<noteq> None"
  unfolding kwf_def slot_ok_def by blast

lemma table_length: "kwf F s \<Longrightarrow> lookup_at (k_procs s) q = Some p \<Longrightarrow> length (pf_fds p) \<le> MAX_FD"
  unfolding kwf_def slot_ok_def by blast

lemma wp_arc_clone:
  assumes "kwf {} s" "lookup_at (k_files s) f \<noteq> None"
    "\<And>s'. kwf {} s' \<Longrightarrow> k_held s' = f # k_held s \<Longrightarrow> k_procs s' = k_procs s \<Longrightarrow> k_files s' = k_files s \<Longrightarrow> Q () s'"
  shows "wp (arc_clone f) Q E s"
proof -
  have "Q () (s\<lparr>k_held := f # k_held s\<rparr>)"
    by (rule assms(3)) (use kwf_held_cons [OF assms(1,2)] in auto)
  then show ?thesis by (simp add: arc_clone_def wp_def kupd_def)
qed

lemma wp_arc_drop:
  assumes "kwf {} s" "\<And>s'. kwf {} s' \<Longrightarrow> k_held s' = remove1 f (k_held s) \<Longrightarrow> k_procs s' = k_procs s \<Longrightarrow> Q () s'"
  shows "wp (arc_drop f) Q E s"
proof -
  let ?s = "s\<lparr>k_held := remove1 f (k_held s)\<rparr>"
  have "kwf {f} ?s" by (rule kwf_held_remove [OF assms(1)])
  then have "wp (release_file f) Q E ?s"
    by (rule wp_release) (use assms(2) in \<open>auto simp: same_slots_def\<close>)
  then show ?thesis by (simp add: arc_drop_def) (simp add: wp_def [of "kupd _"] kupd_def)
qed

lemma wp_slot_clear:
  assumes "kwf {} s"
    "\<And>s' p. kwf {} s' \<Longrightarrow> k_held s' = k_held s \<Longrightarrow> lookup_at (k_procs s) q = Some p \<Longrightarrow>
       k_procs s' = (k_procs s)[q := Some (p\<lparr>pf_fds := (pf_fds p)[i := None]\<rparr>)] \<Longrightarrow> Q () s'"
  shows "wp (slot_clear q i) Q kerr s"
  unfolding slot_clear_def wp_sbind
proof (rule wp_get_proc, rule wp_guard)
  fix p assume p: "lookup_at (k_procs s) q = Some p" and i: "i < length (pf_fds p)"
  let ?s = "s\<lparr>k_procs := (k_procs s)[q := Some (p\<lparr>pf_fds := (pf_fds p)[i := None]\<rparr>)]\<rparr>"
  let ?G = "case pf_fds p ! i of None \<Rightarrow> {} | Some f \<Rightarrow> {f}"
  have live: "lookup_at (k_files s) f \<noteq> None" if "Some f \<in> set ((pf_fds p)[i := None])" for f
    using that set_update_subset_insert [of "pf_fds p" i None] slot_live [OF assms(1) p] by blast
  have lost: "Some f \<in> set ((pf_fds p)[i := None]) \<or> f \<in> ?G" if m: "Some f \<in> set (pf_fds p)" for f
  proof -
    obtain j where j: "j < length (pf_fds p)" "pf_fds p ! j = Some f" using m by (auto simp: in_set_conv_nth)
    then show ?thesis
      by (cases "j = i") (auto simp: in_set_conv_nth intro!: exI [of _ j])
  qed
  have "kwf ({} \<union> ?G) ?s"
    by (rule kwf_set_fds [OF assms(1) p]) (use live lost table_length [OF assms(1) p] in auto)
  then have wf: "kwf ?G ?s" by simp
  have Q: "Q () s'" if "kwf {} s'" "same_slots ?s s'" for s'
    by (rule assms(2)) (use that p in \<open>auto simp: same_slots_def\<close>)
  have "wp (case pf_fds p ! i of None \<Rightarrow> sret () | Some f \<Rightarrow> release_file f) Q kerr ?s"
  proof (cases "pf_fds p ! i")
    case None
    with wf show ?thesis by (auto intro: Q simp: same_slots_def)
  next
    case (Some f)
    with wf show ?thesis by (auto intro!: wp_release Q)
  qed
  then show "wp (put_fds q ((pf_fds p)[i := None]))
      (\<lambda>_. wp (case pf_fds p ! i of None \<Rightarrow> sret () | Some f \<Rightarrow> release_file f) Q kerr) kerr s"
    by (rule wp_put_fds [OF p])
qed

lemma wp_slot_put:
  assumes "kwf {} s" "f \<in> set (k_held s)"
    "\<And>s' p. kwf {} s' \<Longrightarrow> k_held s' = remove1 f (k_held s) \<Longrightarrow> lookup_at (k_procs s) q = Some p \<Longrightarrow>
       k_procs s' = (k_procs s)[q := Some (p\<lparr>pf_fds := (pf_fds p)[i := Some f]\<rparr>)] \<Longrightarrow> Q () s'"
  shows "wp (slot_put q i f) Q kerr s"
  unfolding slot_put_def wp_sbind
proof (rule wp_get_proc, rule wp_guard)
  fix p assume p: "lookup_at (k_procs s) q = Some p" and i: "i < length (pf_fds p)"
  let ?t = "(pf_fds p)[i := Some f]"
  let ?s = "s\<lparr>k_procs := (k_procs s)[q := Some (p\<lparr>pf_fds := ?t\<rparr>)]\<rparr>"
  let ?u = "?s\<lparr>k_held := remove1 f (k_held ?s)\<rparr>"
  let ?G = "case pf_fds p ! i of None \<Rightarrow> {} | Some g \<Rightarrow> {g}"
  have live: "lookup_at (k_files s) g \<noteq> None" if "Some g \<in> set ?t" for g
    using that set_update_subset_insert [of "pf_fds p" i "Some f"] slot_live [OF assms(1) p]
      held_live [OF assms(1,2)] by blast
  have lost: "Some g \<in> set ?t \<or> g \<in> ?G" if m: "Some g \<in> set (pf_fds p)" for g
  proof -
    obtain j where j: "j < length (pf_fds p)" "pf_fds p ! j = Some g" using m by (auto simp: in_set_conv_nth)
    then show ?thesis
      by (cases "j = i") (auto simp: in_set_conv_nth intro!: exI [of _ j])
  qed
  have "kwf ({} \<union> ?G) ?s"
    by (rule kwf_set_fds [OF assms(1) p]) (use live lost table_length [OF assms(1) p] in auto)
  then have "kwf (insert f ?G) ?u" by (intro kwf_held_remove) simp
  moreover have "file_used ?u f"
  proof -
    have "lookup_at (k_procs ?u) q = Some (p\<lparr>pf_fds := ?t\<rparr>)"
      using lookup_at_Some [OF p] by (simp add: lookup_at_update)
    moreover have "Some f \<in> set (pf_fds (p\<lparr>pf_fds := ?t\<rparr>))" using i by (simp add: set_update_memI)
    ultimately show ?thesis unfolding file_used_iff by blast
  qed
  ultimately have wf: "kwf ?G ?u" by (rule kwf_used)
  have Q: "Q () s'" if "kwf {} s'" "same_slots ?u s'" for s'
    by (rule assms(3)) (use that p in \<open>auto simp: same_slots_def\<close>)
  have "wp (case pf_fds p ! i of None \<Rightarrow> sret () | Some g \<Rightarrow> release_file g) Q kerr ?u"
  proof (cases "pf_fds p ! i")
    case None
    with wf show ?thesis by (auto intro: Q simp: same_slots_def)
  next
    case (Some g)
    with wf show ?thesis by (auto intro!: wp_release Q)
  qed
  then show "wp (put_fds q ?t) (\<lambda>_. wp (kupd (\<lambda>s. s\<lparr>k_held := remove1 f (k_held s)\<rparr>))
      (\<lambda>_. wp (case pf_fds p ! i of None \<Rightarrow> sret () | Some g \<Rightarrow> release_file g) Q kerr) kerr) kerr s"
    by (intro wp_put_fds [OF p]) (simp add: wp_def [of "kupd _"] kupd_def)
qed

lemma kwf_extend:
  assumes "kwf {} s" "lookup_at (k_procs s) q = Some p" "length (pf_fds p) + n \<le> MAX_FD"
  shows "kwf {} (s\<lparr>k_procs := (k_procs s)[q := Some (p\<lparr>pf_fds := pf_fds p @ replicate n None\<rparr>)]\<rparr>)"
  using kwf_set_fds [OF assms(1,2), of "pf_fds p @ replicate n None" "{}"] assms(3) slot_live [OF assms(1,2)]
  by (auto simp: in_set_replicate)

lemma wp_alloc_slot:
  assumes "kwf {} s" "allocates m al"
    "\<And>i s'. kwf {} s' \<Longrightarrow> k_held s' = k_held s \<Longrightarrow> k_files s' = k_files s \<Longrightarrow> Q i s'"
  shows "wp (alloc_slot q al) Q kerr s"
  unfolding alloc_slot_def wp_sbind
proof (rule wp_get_proc)
  fix p assume p: "lookup_at (k_procs s) q = Some p"
  obtain i t where al: "al (pf_fds p) = (i, t)" by (cases "al (pf_fds p)")
  obtain n where n: "t = pf_fds p @ replicate n None" "length (pf_fds p) + n \<le> MAX_FD"
    using assms(2) table_length [OF assms(1) p] al unfolding allocates_def by (metis snd_conv)
  let ?s = "s\<lparr>k_procs := (k_procs s)[q := Some (p\<lparr>pf_fds := t\<rparr>)]\<rparr>"
  have "Q i ?s" by (rule assms(3)) (use kwf_extend [OF assms(1) p n(2)] n(1) in auto)
  then show "wp (let (i, t) = al (pf_fds p) in sbind (put_fds q t) (\<lambda>_. sret i)) Q kerr s"
    by (simp add: al wp_put_fds [OF p])
qed

end
