(* ===== verification/Kernel_File_Props.thy ===== *)
theory Kernel_File_Props
  imports Kernel_File_Inv
begin

text \<open>
  Every system call on descriptors keeps the invariant of open files. Hence in every state the system
  calls reach, the ends of a pipe are open exactly while some process has a descriptor for them.
\<close>

section \<open>System calls\<close>

lemma kpres_get_proc [kpres_intros]: "kpres (get_proc q)"
  unfolding get_proc_def by (intro kpres_intros)

lemma kpres_get_file [kpres_intros]: "kpres (get_file f)"
  unfolding get_file_def by (intro kpres_intros)

lemma kpres_slot_clear [kpres_intros]: "kpres (slot_clear q i)"
  by (rule kpresI, rule wp_slot_clear) (auto simp: kst_def)

lemma kpres_sys_close [kpres_intros]: "kpres (sys_close q fd)"
  unfolding sys_close_def by (intro kpres_intros)

text \<open>Duplicating a descriptor: a clone is held while a slot is allocated and moved into it, or dropped.\<close>

lemma wp_install:
  assumes "kwf {} s" "k_held s = [f]"
  shows "wp (if (newfd :: int) \<ge> 0 then sbind (slot_put q (nat newfd) f) (\<lambda>_. sret newfd)
      else sbind (arc_drop f) (\<lambda>_. sret (- 1))) (\<lambda>_. kst) kerr s"
proof (cases "newfd \<ge> 0")
  case True
  then show ?thesis using assms by (auto intro!: wp_slot_put simp: kst_def)
next
  case False
  then show ?thesis using assms by (auto intro!: wp_arc_drop simp: kst_def)
qed

lemma kpres_sys_dup [kpres_intros]: "kpres (sys_dup q oldfd)"
proof (rule kpresI)
  fix s :: "('o, 'fs, 'w) kfiles" assume s: "kst s"
  show "wp (sys_dup q oldfd) (\<lambda>_. kst) kerr s"
    unfolding sys_dup_def wp_sbind
  proof (rule wp_get_proc, rule wp_guard)
    fix p assume p: "lookup_at (k_procs s) q = Some p" and i: "oldfd < length (pf_fds p)"
    show "wp (case pf_fds p ! oldfd of None \<Rightarrow> sret (- 1)
       | Some f \<Rightarrow> sbind (arc_clone f) (\<lambda>_. sbind (alloc_slot q fd_alloc) (\<lambda>newfd.
           if 0 \<le> newfd then sbind (slot_put q (nat newfd) f) (\<lambda>_. sret newfd)
           else sbind (arc_drop f) (\<lambda>_. sret (- 1))))) (\<lambda>_. kst) kerr s"
    proof (cases "pf_fds p ! oldfd")
      case (Some f)
      have "lookup_at (k_files s) f \<noteq> None"
        using slot_live [OF kstD(1) [OF s] p, of f] i Some by (metis nth_mem)
      with Some kstD [OF s] show ?thesis
        by (auto intro!: wp_arc_clone wp_alloc_slot [OF _ fd_alloc_allocates] wp_install simp del: wp_sbind simp: wp_sbind)
    qed (use s in simp)
  qed
qed

lemma kpres_sys_dup3 [kpres_intros]: "kpres (sys_dup3 q oldfd newfd)"
proof (rule kpresI)
  fix s :: "('o, 'fs, 'w) kfiles" assume s: "kst s"
  show "wp (sys_dup3 q oldfd newfd) (\<lambda>_. kst) kerr s"
    unfolding sys_dup3_def wp_sbind
  proof (rule wp_get_proc, rule wp_guard)
    fix p assume p: "lookup_at (k_procs s) q = Some p" and i: "oldfd < length (pf_fds p)"
    let ?grow = "\<lambda>s'. s'\<lparr>k_procs := (k_procs s')[q := Some (p\<lparr>pf_fds := pf_fds p @ replicate (newfd + 1 - length (pf_fds p)) None\<rparr>)]\<rparr>"
    show "wp (case pf_fds p ! oldfd of None \<Rightarrow> sret (- 1)
       | Some f \<Rightarrow> sbind (arc_clone f) (\<lambda>_.
           if newfd < MAX_FD then
             sbind (if length (pf_fds p) \<le> newfd
                    then put_fds q (pf_fds p @ replicate (newfd + 1 - length (pf_fds p)) None) else sret ()) (\<lambda>_.
             sbind (slot_put q newfd f) (\<lambda>_. sret (int newfd)))
           else sbind (arc_drop f) (\<lambda>_. sret (- 1)))) (\<lambda>_. kst) kerr s"
    proof (cases "pf_fds p ! oldfd")
      case (Some f)
      have live: "lookup_at (k_files s) f \<noteq> None"
        using slot_live [OF kstD(1) [OF s] p, of f] i Some by (metis nth_mem)
      have put: "wp (slot_put q newfd f) (\<lambda>_. wp (sret (int newfd)) (\<lambda>_. kst) kerr) kerr t"
        if "kwf {} t" "k_held t = [f]" for t
        by (rule wp_slot_put [OF that(1)]) (use that in \<open>auto simp: kst_def\<close>)
      have grow: "kwf {} (?grow t)" if "kwf {} t" "k_procs t = k_procs s" "newfd < MAX_FD" "length (pf_fds p) \<le> newfd" for t
        by (rule kwf_extend) (use that p in auto)
      have "wp (if newfd < MAX_FD then
             sbind (if length (pf_fds p) \<le> newfd
                    then put_fds q (pf_fds p @ replicate (newfd + 1 - length (pf_fds p)) None) else sret ()) (\<lambda>_.
             sbind (slot_put q newfd f) (\<lambda>_. sret (int newfd)))
           else sbind (arc_drop f) (\<lambda>_. sret (- 1))) (\<lambda>_. kst) kerr t"
        if t: "kwf {} t" "k_held t = [f]" "k_procs t = k_procs s" for t
      proof (cases "newfd < MAX_FD")
        case True
        show ?thesis
        proof (cases "length (pf_fds p) \<le> newfd")
          case len: True
          have "wp (slot_put q newfd f) (\<lambda>_. wp (sret (int newfd)) (\<lambda>_. kst) kerr) kerr (?grow t)"
            by (rule put) (use grow [OF t(1,3) True len] t(2) in auto)
          then show ?thesis using True len t(3) p
            by (simp add: wp_put_fds [of t q p] del: wp_sret)
        qed (use True put [OF t(1,2)] in \<open>simp del: wp_sret\<close>)
      next
        case False
        then show ?thesis using t by (auto intro!: wp_arc_drop simp: kst_def)
      qed
      with Some kstD [OF s] live show ?thesis by (auto intro!: wp_arc_clone)
    qed (use s in simp)
  qed
qed

lemma file_flags_kst: "kwf {} s \<Longrightarrow> k_held s = [f] \<Longrightarrow>
  wp (file_insert_flags f g) (\<lambda>_ s'. kwf {} s' \<and> k_held s' = [f]) kerr s"
proof -
  assume s: "kwf {} s" "k_held s = [f]"
  obtain d where d: "lookup_at (k_files s) f = Some d" using held_live [OF s(1), of f] s(2) by auto
  let ?d = "d\<lparr>fd_flags := fd_flags d OR g\<rparr>"
  have "kwf {} (s\<lparr>k_files := (k_files s)[f := Some ?d]\<rparr>)"
    using kwf_file_update [OF s(1) d, of ?d] by simp
  then show ?thesis using d s(2) by (simp add: file_insert_flags_def wp_def kupd_def lookup_at_Some)
qed

text \<open>\<open>F_DUPFD\<close> and \<open>F_DUPFD_CLOEXEC\<close>.\<close>

lemma wp_dup_from:
  assumes s: "kst s" and p: "lookup_at (k_procs s) q = Some p" and fd: "fd < length (pf_fds p)" "pf_fds p ! fd = Some f"
    and pre: "\<And>t. kwf {} t \<Longrightarrow> k_held t = [f] \<Longrightarrow> wp m (\<lambda>_ s'. kwf {} s' \<and> k_held s' = [f]) kerr t"
  shows "wp (sbind (arc_clone f) (\<lambda>_. sbind (alloc_slot q (fd_alloc_from n)) (\<lambda>newfd.
      if newfd \<ge> 0 then sbind m (\<lambda>_. sbind (slot_put q (nat newfd) f) (\<lambda>_. sret newfd))
      else sbind (arc_drop f) (\<lambda>_. sret (- 1))))) (\<lambda>_. kst) kerr s"
proof -
  have live: "lookup_at (k_files s) f \<noteq> None"
    using slot_live [OF kstD(1) [OF s] p, of f] fd by (metis nth_mem)
  have "wp (if newfd \<ge> 0 then sbind m (\<lambda>_. sbind (slot_put q (nat newfd) f) (\<lambda>_. sret newfd))
      else sbind (arc_drop f) (\<lambda>_. sret (- 1))) (\<lambda>_. kst) kerr t"
    if t: "kwf {} t" "k_held t = [f]" for t newfd
  proof (cases "newfd \<ge> 0")
    case True
    have "wp m (\<lambda>_. wp (sbind (slot_put q (nat newfd) f) (\<lambda>_. sret newfd)) (\<lambda>_. kst) kerr) kerr t"
      by (rule wp_mono [OF pre [OF t]]) (use True wp_install [of _ f newfd q] in auto)
    with True show ?thesis by simp
  qed (use wp_install [OF t, of newfd q] in simp)
  then show ?thesis using kstD [OF s] live
    by (auto intro!: wp_arc_clone wp_alloc_slot [OF _ fd_alloc_from_allocates])
qed

lemma kpres_insert_flags [kpres_intros]: "kpres (file_insert_flags f g)"
  by (rule kpresI) (simp add: file_insert_flags_def wp_def kupd_def kst_map_file)

lemma kpres_sys_fcntl [kpres_intros]: "kpres (sys_fcntl q fd cmd arg)"
proof (rule kpresI)
  fix s :: "('o, 'fs, 'w) kfiles" assume s: "kst s"
  show "wp (sys_fcntl q fd cmd arg) (\<lambda>_. kst) kerr s"
    unfolding sys_fcntl_def wp_sbind
  proof (rule wp_get_proc, rule wp_guard)
    fix p assume p: "lookup_at (k_procs s) q = Some p" and i: "fd < length (pf_fds p)"
    let ?body = "\<lambda>f. case cmd of
            F_DUPFD \<Rightarrow>
              sbind (arc_clone f) (\<lambda>_.
              sbind (alloc_slot q (fd_alloc_from (unat arg))) (\<lambda>newfd.
              if newfd \<ge> 0 then sbind (slot_put q (nat newfd) f) (\<lambda>_. sret newfd)
              else sbind (arc_drop f) (\<lambda>_. sret (- 1))))
          | F_DUPFD_CLOEXEC \<Rightarrow>
              sbind (arc_clone f) (\<lambda>_.
              sbind (alloc_slot q (fd_alloc_from (unat arg))) (\<lambda>newfd.
              if newfd \<ge> 0 then
                sbind (file_insert_flags f O_CLOEXEC) (\<lambda>_.
                sbind (slot_put q (nat newfd) f) (\<lambda>_. sret newfd))
              else sbind (arc_drop f) (\<lambda>_. sret (- 1))))
          | F_GETFD \<Rightarrow> kget (\<lambda>s. case lookup_at (k_files s) f of None \<Rightarrow> 0 | Some d \<Rightarrow> uint (fd_flags d))
          | F_SETFD \<Rightarrow>
              sbind (if flags_contain arg FD_CLOEXEC then file_insert_flags f O_CLOEXEC else sret ()) (\<lambda>_. sret (- 1))
          | _ \<Rightarrow> sret (- 1)"
    have "wp (?body f) (\<lambda>_. kst) kerr s" if f: "pf_fds p ! fd = Some f" for f
    proof (cases cmd)
      case F_DUPFD
      then show ?thesis using wp_dup_from [OF s p i f, of "sret ()" "unat arg"]
        by (simp cong: if_cong)
    next
      case F_DUPFD_CLOEXEC
      then show ?thesis using wp_dup_from [OF s p i f file_flags_kst [where g = O_CLOEXEC], where n = "unat arg"] by simp
    next
      case F_SETFD
      have "kpres (sbind (if flags_contain arg FD_CLOEXEC then file_insert_flags f O_CLOEXEC else sret ()) (\<lambda>_. sret (- 1 :: int))
          :: (('o, 'fs, 'w) kfiles, int) st)"
        by (intro kpres_intros)
      with F_SETFD s show ?thesis by (simp add: kpres_def)
    qed (use s in \<open>auto simp: wp_def [of "kget _"] kget_def\<close>)
    then show "wp (case pf_fds p ! fd of None \<Rightarrow> sret (- 1) | Some f \<Rightarrow> ?body f) (\<lambda>_. kst) kerr s"
      by (cases "pf_fds p ! fd") (use s in auto)
  qed
qed

text \<open>Reading and writing.\<close>

lemma pipe_read_ends:
  assumes "pipe_read n cur (p, ths) = (r, p', ths')"
  shows "pp_reader p' = pp_reader p \<and> pp_writer p' = pp_writer p"
proof (cases "n = 0")
  case True
  with assms show ?thesis by (auto simp: pipe_read_def)
next
  case False
  with assms show ?thesis
    by (cases "pp_data p = []") (auto simp: pipe_read_data pipe_read_empty)
qed

lemma pipe_write_ends:
  assumes "pipe_write buf (p, ths) = (r, p', ths')"
  shows "pp_reader p' = pp_reader p \<and> pp_writer p' = pp_writer p"
  using assms by (auto simp: pipe_write_eq split: if_splits)

lemma kst_pipe_update:
  assumes "kst s" "pp_reader p = pp_reader (k_pipes s ! k) \<and> pp_writer p = pp_writer (k_pipes s ! k)"
  shows "kst (s\<lparr>k_pipes := (k_pipes s)[k := p], k_threads := ths\<rparr>)"
proof (rule kst_cong [OF assms(1)])
  fix j assume "j < length (k_pipes s)"
  then show "pp_reader (k_pipes (s\<lparr>k_pipes := (k_pipes s)[k := p], k_threads := ths\<rparr>) ! j) = pp_reader (k_pipes s ! j) \<and>
      pp_writer (k_pipes (s\<lparr>k_pipes := (k_pipes s)[k := p], k_threads := ths\<rparr>) ! j) = pp_writer (k_pipes s ! j)"
    using assms(2) by (cases "j = k") simp_all
qed simp_all

text \<open>An operation on the inode of a live vnode; \<open>v\<close> stays a vnode of a file.\<close>

definition file_vnode_at :: "('o, 'fs, 'w) kfiles \<Rightarrow> nat \<Rightarrow> bool" where
  "file_vnode_at s v \<longleftrightarrow> (\<exists>x o1. lookup_at (k_vnodes s) v = Some x \<and> vn_inode x = FileNode o1)"

lemma wp_on_node:
  assumes s: "kst s" and x: "lookup_at (k_vnodes s) v = Some x" "vn_inode x = FileNode o1"
    and Q: "\<And>r s'. kst s' \<Longrightarrow> file_vnode_at s' v \<Longrightarrow> Q r s'"
  shows "wp (on_node v o1 m) Q kerr s"
proof -
  let ?t = "\<lambda>w o2. s\<lparr>k_world := w, k_vnodes := (k_vnodes s)[v := Some (x\<lparr>vn_inode := FileNode o2\<rparr>)]\<rparr>"
  have v: "v < length (k_vnodes s)" "k_vnodes s ! v = Some x" using lookup_at_Some [OF x(1)] by auto
  have "kst (?t w o2)" "file_vnode_at (?t w o2) v" for w o2
    using kst_node_update [OF s x] v by (auto simp: file_vnode_at_def lookup_at_update)
  then show ?thesis using Q v(2)
    by (auto simp: wp_def on_node_def kerr_def split: prod.splits sum.splits)
qed

lemma wp_vnode_inode:
  "(\<And>x. lookup_at (k_vnodes s) v = Some x \<Longrightarrow> Q (vn_inode x) s) \<Longrightarrow> wp (vnode_inode v) Q kerr s"
  by (cases "lookup_at (k_vnodes s) v")
    (simp_all add: wp_def vnode_inode_def sbind_def kget_def slift_def sret_def sfail_def)

lemma wp_slift_kst: "kst s \<Longrightarrow> wp (slift r) (\<lambda>_. kst) kerr s"
  by (cases r) (simp_all add: kerr_def)

lemma kpres_inode_seek [kpres_intros]:
  fixes ops :: "('o, 'w) inode_ops"
  shows "kpres (inode_seek ops v sf :: (('o, 'fs, 'w) kfiles, nat) st)"
  unfolding inode_seek_def
proof (rule kpresI, unfold wp_sbind, rule wp_vnode_inode)
  fix s :: "('o, 'fs, 'w) kfiles" and x assume s: "kst s" and x: "lookup_at (k_vnodes s) v = Some x"
  show "wp (case vn_inode x of Console \<Rightarrow> sret 0 | PipeReadEnd k \<Rightarrow> slift (pipe_seek sf)
      | PipeWriteEnd k \<Rightarrow> slift (pipe_seek sf) | FileNode o1 \<Rightarrow> on_node v o1 (in_seek ops sf)) (\<lambda>_. kst) kerr s"
    using s by (cases "vn_inode x") (auto intro: wp_on_node [OF s x] wp_slift_kst)
qed

lemma kpres_inode_read [kpres_intros]:
  fixes ops :: "('o, 'w) inode_ops"
  shows "kpres (inode_read ops cur v n :: (('o, 'fs, 'w) kfiles, u8 list option) st)"
  unfolding inode_read_def
proof (rule kpresI, unfold wp_sbind, rule wp_vnode_inode)
  fix s :: "('o, 'fs, 'w) kfiles" and x assume s: "kst s" and x: "lookup_at (k_vnodes s) v = Some x"
  show "wp (case vn_inode x of
        Console \<Rightarrow> sret (Some [])
      | PipeReadEnd k \<Rightarrow> (\<lambda>s.
          case pipe_read n cur (k_pipes s ! k, k_threads s) of (r, p, ths) \<Rightarrow>
            (Inr r, s\<lparr>k_pipes := (k_pipes s)[k := p], k_threads := ths\<rparr>))
      | PipeWriteEnd k \<Rightarrow> sbind (slift (pipe_write_end_read n)) (\<lambda>_. sret (Some []))
      | FileNode o1 \<Rightarrow> sbind (on_node v o1 (in_read ops n)) (\<lambda>bs. sret (Some bs))) (\<lambda>_. kst) kerr s"
  proof (cases "vn_inode x")
    case (PipeReadEnd k)
    then show ?thesis
      using kst_pipe_update [OF s pipe_read_ends] by (auto simp: wp_def split: prod.split)
  next
    case (PipeWriteEnd k)
    then show ?thesis by (cases "pipe_write_end_read n") (simp_all add: kerr_def s)
  next
    case (FileNode o1)
    then show ?thesis using s by (auto intro: wp_on_node [OF s x])
  qed (use s in simp)
qed

lemma kpres_inode_write [kpres_intros]:
  fixes ops :: "('o, 'w) inode_ops"
  shows "kpres (inode_write ops v buf :: (('o, 'fs, 'w) kfiles, nat) st)"
  unfolding inode_write_def
proof (rule kpresI, unfold wp_sbind, rule wp_vnode_inode)
  fix s :: "('o, 'fs, 'w) kfiles" and x assume s: "kst s" and x: "lookup_at (k_vnodes s) v = Some x"
  show "wp (case vn_inode x of
        Console \<Rightarrow> sbind (kupd (\<lambda>s. s\<lparr>k_console := k_console s @ buf\<rparr>)) (\<lambda>_. sret (length buf))
      | PipeReadEnd k \<Rightarrow> slift (pipe_read_end_write buf)
      | PipeWriteEnd k \<Rightarrow> (\<lambda>s.
          case pipe_write buf (k_pipes s ! k, k_threads s) of (r, p, ths) \<Rightarrow>
            (r, s\<lparr>k_pipes := (k_pipes s)[k := p], k_threads := ths\<rparr>))
      | FileNode o1 \<Rightarrow> on_node v o1 (in_write ops buf)) (\<lambda>_. kst) kerr s"
  proof (cases "vn_inode x")
    case Console
    moreover have "kst (s\<lparr>k_console := k_console s @ buf\<rparr>)" by (rule kst_cong [OF s]) simp_all
    ultimately show ?thesis by (simp add: wp_def [of "kupd _"] kupd_def)
  next
    case (PipeReadEnd k)
    then show ?thesis by (simp add: wp_slift_kst [OF s])
  next
    case (PipeWriteEnd k)
    then show ?thesis
      using kst_pipe_update [OF s pipe_write_ends] by (auto simp: wp_def kerr_def split: prod.split sum.split)
  next
    case (FileNode o1)
    then show ?thesis using s by (auto intro: wp_on_node [OF s x])
  qed
qed

lemma kpres_inode_flush [kpres_intros]:
  fixes ops :: "('o, 'w) inode_ops"
  shows "kpres (inode_flush ops v :: (('o, 'fs, 'w) kfiles, unit) st)"
  unfolding inode_flush_def
proof (rule kpresI, unfold wp_sbind, rule wp_vnode_inode)
  fix s :: "('o, 'fs, 'w) kfiles" and x assume s: "kst s" and x: "lookup_at (k_vnodes s) v = Some x"
  show "wp (case vn_inode x of Console \<Rightarrow> sfail (Panic Todo) | PipeReadEnd k \<Rightarrow> slift pipe_flush
      | PipeWriteEnd k \<Rightarrow> slift pipe_flush | FileNode o1 \<Rightarrow> on_node v o1 (in_flush ops)) (\<lambda>_. kst) kerr s"
    using s by (cases "vn_inode x") (auto intro: wp_on_node [OF s x] wp_slift_kst)
qed

lemma kpres_inode [kpres_intros]:
  "kpres a \<Longrightarrow> (\<And>k. kpres (r k)) \<Longrightarrow> (\<And>k. kpres (w k)) \<Longrightarrow> (\<And>o1. kpres (n o1)) \<Longrightarrow>
   kpres (case i of Console \<Rightarrow> a | PipeReadEnd k \<Rightarrow> r k | PipeWriteEnd k \<Rightarrow> w k | FileNode o1 \<Rightarrow> n o1)"
  by (simp split: inode.splits)

lemma kpres_vnode_inode [kpres_intros]: "kpres (vnode_inode v)"
  unfolding vnode_inode_def by (intro kpres_intros)

lemma kpres_get_fstat [kpres_intros]: "kpres (inode_get_fstat ops v)"
  unfolding inode_get_fstat_def by (intro kpres_intros)

lemma kpres_get_dents64 [kpres_intros]: "kpres (inode_get_dents64 ops v)"
  unfolding inode_get_dents64_def by (intro kpres_intros)

lemma kpres_advance [kpres_intros]: "kpres (file_advance_pos f n)"
  by (rule kpresI) (simp add: file_advance_pos_def wp_def kupd_def kst_map_file)

lemma kpres_fd_read [kpres_intros]: "kpres (fd_read ops cur f n)"
  unfolding fd_read_def by (intro kpres_intros)

lemma kpres_fd_write [kpres_intros]: "kpres (fd_write ops f buf)"
  unfolding fd_write_def by (intro kpres_intros)

lemma kpres_get_fd [kpres_intros]: "kpres (get_fd q fd)"
  unfolding get_fd_def by (intro kpres_intros)

lemma kpres_sys_write [kpres_intros]: "kpres (sys_write ops q fd buf)"
  unfolding sys_write_def by (intro kpres_intros)

lemma kpres_sys_writev [kpres_intros]: "kpres (sys_writev ops q fd iovecs)"
  unfolding sys_writev_def by (intro kpres_intros)

lemma kpres_sys_read [kpres_intros]: "kpres (sys_read ops q cur fd n)"
  unfolding sys_read_def by (intro kpres_intros)

lemma kpres_sys_fstat [kpres_intros]: "kpres (sys_fstat ops q fd)"
  unfolding sys_fstat_def by (intro kpres_intros)

lemma kpres_sys_getdents64 [kpres_intros]: "kpres (sys_getdents64 ops q fd)"
  unfolding sys_getdents64_def by (intro kpres_intros)

lemma kpres_attempt [kpres_intros]: "kpres m \<Longrightarrow> kpres (attempt m)"
  unfolding attempt_def by (intro kpres_intros)

lemma kpres_sendfile_loop [kpres_intros]: "kpres (sendfile_loop ops cur in_f out_f fuel remain)"
proof (induction fuel arbitrary: remain)
  case (Suc fuel)
  show ?case unfolding sendfile_loop.simps Let_def by (intro kpres_intros Suc.IH)
qed (simp add: kpres_sret)

lemma kpres_sys_sendfile [kpres_intros]: "kpres (sys_sendfile ops vf fuel q cur out_fd in_fd offset count)"
  unfolding sys_sendfile_def by (intro kpres_intros)

text \<open>New vnodes and descriptors.\<close>

lemma lookup_at_length: "lookup_at xs (length xs) = None"
  by (simp add: lookup_at_def)

lemma lookup_at_less: "lookup_at xs i \<noteq> None \<Longrightarrow> i < length xs"
  by (auto simp: lookup_at_def split: if_splits)

lemma statics_less:
  assumes "kwf F s"
  shows "STDIN < length (k_files s)" "STDOUT < length (k_files s)"
proof -
  have "lookup_at (k_files s) STDIN \<noteq> None" "lookup_at (k_files s) STDOUT \<noteq> None"
    using assms by (auto simp: kwf_def statics_ok_def)
  then show "STDIN < length (k_files s)" "STDOUT < length (k_files s)" by (simp_all add: lookup_at_less)
qed

lemma kst_new_vnode:
  assumes s: "kst s" and new: "map_of (k_vset s) path = None"
  shows "kst (s\<lparr>k_vnodes := k_vnodes s @ [Some \<lparr>vn_full_path = path, vn_inode = FileNode o1\<rparr>],
    k_vset := (path, length (k_vnodes s)) # k_vset s\<rparr>)" (is "kst ?s")
proof -
  let ?n = "length (k_vnodes s)"
  have wf: "kwf {} s" using s by (simp add: kst_def)
  have lv: "lookup_at (k_vnodes ?s) v = (if v = ?n then Some \<lparr>vn_full_path = path, vn_inode = FileNode o1\<rparr> else lookup_at (k_vnodes s) v)" for v
    by simp
  have old: "v \<noteq> ?n" if "lookup_at (k_vnodes s) v \<noteq> None" for v
    using lookup_at_less [OF that] by simp
  have nodes: "nodes ?s i = nodes s i" if "is_pipe i" for i
    using that old unfolding nodes_def lv by (auto simp: is_pipe_def)
  have "files_ok {} ?s" using wf unfolding kwf_def files_ok_def lv by (auto simp: file_used_cong [of ?s s])
  moreover have "vset_ok ?s"
  proof -
    have "\<exists>y o1. lookup_at (k_vnodes ?s) u = Some y \<and> vn_full_path y = p \<and> vn_inode y = FileNode o1"
      if "(p, u) \<in> set (k_vset s)" for p u
      using vset_member [OF wf that] old unfolding lv by auto
    moreover have "distinct (map fst (k_vset s))" using wf by (simp add: kwf_def vset_ok_def)
    moreover have "path \<notin> fst ` set (k_vset s)" using new by (simp add: map_of_eq_None_iff)
    ultimately show ?thesis unfolding vset_ok_def by auto
  qed
  moreover have "pipes_ok ?s" using wf by (simp add: kwf_def pipes_ok_def nodes is_pipe_def)
  moreover have "statics_ok ?s" using wf old unfolding kwf_def statics_ok_def lv by auto
  moreover have "vnode_ok ?s u y" if "lookup_at (k_vnodes ?s) u = Some y" for u y
  proof (cases "u = ?n")
    case True
    have "?n \<noteq> 0" using wf lookup_at_less [of "k_vnodes s" 0] by (auto simp: kwf_def statics_ok_def CONSOLE_VNODE_def)
    with True that show ?thesis by (auto simp: vnode_ok_def CONSOLE_VNODE_def)
  next
    case False
    with that lv wf have "vnode_ok s u y" by (simp add: kwf_def)
    then show ?thesis by (simp add: vnode_ok_def nfiles_def split: inode.splits)
  qed
  ultimately show ?thesis using s by (simp add: kst_def kwf_def slot_ok_def)
qed

lemma kwf_new_descriptor:
  assumes s: "kst s" and v: "file_vnode_at s (fd_vnode d)"
  shows "kwf {} (s\<lparr>k_files := k_files s @ [Some d], k_held := [length (k_files s)]\<rparr>)" (is "kwf _ ?s")
proof -
  let ?n = "length (k_files s)"
  have wf: "kwf {} s" "k_held s = []" using s by (simp_all add: kst_def)
  have lf: "lookup_at (k_files ?s) f = (if f = ?n then Some d else lookup_at (k_files s) f)" for f by simp
  obtain x o1 where x: "lookup_at (k_vnodes s) (fd_vnode d) = Some x" "vn_inode x = FileNode o1"
    using v by (auto simp: file_vnode_at_def)
  then have v0: "fd_vnode d \<noteq> CONSOLE_VNODE" using wf(1) by (auto simp: kwf_def statics_ok_def)
  have used: "file_used ?s f \<longleftrightarrow> f = ?n \<or> file_used s f" for f
    using wf(2) by (auto simp: file_used_def)
  have n: "nfiles ?s u = nfiles s u" if "u \<noteq> fd_vnode d" for u
    using that by (simp add: nfiles_def on_vnode_def)
  have "slot_ok ?s" using wf unfolding kwf_def slot_ok_def lf by auto
  moreover have "files_ok {} ?s" using wf(1) x v0 unfolding kwf_def files_ok_def lf used by auto
  moreover have "statics_ok ?s" using wf(1) statics_less [OF wf(1)] unfolding kwf_def statics_ok_def lf by auto
  moreover have "vset_ok ?s" "pipes_ok ?s" using wf(1) by (simp_all add: kwf_def vset_ok_def pipes_ok_def nodes_def)
  moreover have "vnode_ok ?s u y" if y: "lookup_at (k_vnodes s) u = Some y" for u y
  proof (cases "u = fd_vnode d")
    case True
    have "vnode_ok s u y" using wf(1) y by (simp add: kwf_def)
    with True x y show ?thesis by (simp add: vnode_ok_def)
  next
    case False
    have "vnode_ok s u y" using wf(1) y by (simp add: kwf_def)
    with n [OF False] show ?thesis by (simp add: vnode_ok_def split: inode.splits)
  qed
  ultimately show ?thesis by (simp add: kwf_def)
qed

text \<open>The two ends of a new pipe.\<close>

abbreviation pipe_end_vnodes :: "nat \<Rightarrow> 'o vnode option list" where
  "pipe_end_vnodes k \<equiv> [Some \<lparr>vn_full_path = ''pipe read end'', vn_inode = PipeReadEnd k\<rparr>,
     Some \<lparr>vn_full_path = ''pipe write end'', vn_inode = PipeWriteEnd k\<rparr>]"

abbreviation pipe_end_files :: "nat \<Rightarrow> file_descriptor option list" where
  "pipe_end_files v \<equiv> [Some \<lparr>fd_flags = O_RDONLY, fd_pos = 0, fd_vnode = v\<rparr>,
     Some \<lparr>fd_flags = O_WRONLY, fd_pos = 0, fd_vnode = Suc v\<rparr>]"

definition with_pipe :: "('o, 'fs, 'w) kfiles \<Rightarrow> ('o, 'fs, 'w) kfiles" where
  "with_pipe s = s\<lparr>k_pipes := k_pipes s @ [pipe_new], k_vnodes := k_vnodes s @ pipe_end_vnodes (length (k_pipes s)),
     k_files := k_files s @ pipe_end_files (length (k_vnodes s)),
     k_held := [Suc (length (k_files s)), length (k_files s)]\<rparr>"

lemma create_pipe_pair_eq:
  "k_held s = [] \<Longrightarrow> create_pipe_pair s = (Inr (length (k_files s), Suc (length (k_files s))), with_pipe s)"
  by (simp add: create_pipe_pair_def sbind_def kget_def kupd_def vnode_new_def descriptor_new_def sret_def with_pipe_def)

lemma lookup_at_append2:
  "lookup_at (xs @ [x, y]) i = (if i = length xs then x else if i = Suc (length xs) then y else lookup_at xs i)"
  by (auto simp: lookup_at_def nth_append nth_Cons')

lemma kwf_with_pipe:
  assumes s: "kst s"
  shows "kwf {} (with_pipe s)" (is "kwf _ ?s")
proof -
  let ?n = "length (k_files s)" and ?v = "length (k_vnodes s)" and ?k = "length (k_pipes s)"
  have wf: "kwf {} s" "k_held s = []" using s by (simp_all add: kst_def)
  have lf: "lookup_at (k_files ?s) f = (if f = ?n then Some \<lparr>fd_flags = O_RDONLY, fd_pos = 0, fd_vnode = ?v\<rparr>
      else if f = Suc ?n then Some \<lparr>fd_flags = O_WRONLY, fd_pos = 0, fd_vnode = Suc ?v\<rparr> else lookup_at (k_files s) f)" for f
    by (simp add: with_pipe_def lookup_at_append2)
  have lv: "lookup_at (k_vnodes ?s) v = (if v = ?v then Some \<lparr>vn_full_path = ''pipe read end'', vn_inode = PipeReadEnd ?k\<rparr>
      else if v = Suc ?v then Some \<lparr>vn_full_path = ''pipe write end'', vn_inode = PipeWriteEnd ?k\<rparr>
      else lookup_at (k_vnodes s) v)" for v
    by (simp add: with_pipe_def lookup_at_append2)
  have old: "v < ?v" if "lookup_at (k_vnodes s) v = Some y" for v y
    using that lookup_at_less [of "k_vnodes s" v] by simp
  have v0: "0 < ?v" using wf(1) old by (auto simp: kwf_def statics_ok_def CONSOLE_VNODE_def)
  have fv: "fd_vnode d < ?v" if "lookup_at (k_files s) f = Some d" for f d
    using file_vnode [OF wf(1) that] old by blast
  have same: "k_procs ?s = k_procs s" "k_vset ?s = k_vset s" "k_held ?s = [Suc ?n, ?n]" "length (k_pipes ?s) = Suc ?k"
    by (simp_all add: with_pipe_def)
  have used: "file_used ?s f \<longleftrightarrow> f = ?n \<or> f = Suc ?n \<or> file_used s f" for f
    using wf(2) same by (auto simp: file_used_def)
  have n: "nfiles ?s u = nfiles s u + (if u = ?v \<or> u = Suc ?v then 1 else 0)" for u
    by (simp add: nfiles_def on_vnode_def with_pipe_def)
  have n0: "nfiles s u = 0" if "?v \<le> u" for u
    using nfiles_pos [of s u] fv that by (metis leD gr0I)
  have "slot_ok ?s" using wf unfolding kwf_def slot_ok_def lf same by auto
  moreover have "files_ok {} ?s"
    using wf(1) v0 unfolding kwf_def files_ok_def lf lv used by (auto simp: CONSOLE_VNODE_def)
  moreover have "statics_ok ?s" using wf(1) v0 statics_less [OF wf(1)] unfolding kwf_def statics_ok_def lf lv
    by (auto simp: CONSOLE_VNODE_def)
  moreover have "vset_ok ?s"
  proof -
    have "\<exists>y o1. lookup_at (k_vnodes ?s) u = Some y \<and> vn_full_path y = p \<and> vn_inode y = FileNode o1"
      if "(p, u) \<in> set (k_vset s)" for p u
      using vset_member [OF wf(1) that] old unfolding lv by fastforce
    moreover have "distinct (map fst (k_vset s))" using wf(1) by (simp add: kwf_def vset_ok_def)
    ultimately show ?thesis unfolding vset_ok_def same by auto
  qed
  moreover have "vnode_ok ?s u y" if y: "lookup_at (k_vnodes ?s) u = Some y" for u y
  proof (cases "u < ?v")
    case True
    with y have "vnode_ok s u y" using wf(1) unfolding lv by (simp add: kwf_def)
    with True show ?thesis by (simp add: vnode_ok_def n same split: inode.splits)
  next
    case False
    with y v0 n0 [of u] show ?thesis using old unfolding lv
      by (auto simp: vnode_ok_def n same CONSOLE_VNODE_def split: if_splits)
  qed
  moreover have "pipes_ok ?s"
  proof -
    have range: "k < ?k" if m: "v \<in> nodes s (PipeReadEnd k) \<or> v \<in> nodes s (PipeWriteEnd k)" for k v
    proof -
      obtain x where "lookup_at (k_vnodes s) v = Some x" "vn_inode x = PipeReadEnd k \<or> vn_inode x = PipeWriteEnd k"
        using m by (auto simp: nodes_def)
      moreover from this have "vnode_ok s v x" using wf(1) by (simp add: kwf_def)
      ultimately show ?thesis by (auto simp: vnode_ok_def)
    qed
    have nodes: "nodes ?s i = (if i = PipeReadEnd ?k then {?v} else if i = PipeWriteEnd ?k then {Suc ?v} else nodes s i)"
      if "is_pipe i" for i
      using range old that unfolding nodes_def lv by (auto simp: nodes_def) fastforce+
    have ends: "is_pipe (PipeReadEnd k)" "is_pipe (PipeWriteEnd k)" for k by (simp_all add: is_pipe_def)
    have pk: "k_pipes ?s ! k = (if k = ?k then pipe_new else k_pipes s ! k)" if "k \<le> ?k" for k
      using that by (simp add: with_pipe_def nth_append)
    have oldp: "pipes_ok s" using wf(1) by (simp add: kwf_def)
    have "(pp_reader (k_pipes ?s ! k) \<longleftrightarrow> nodes ?s (PipeReadEnd k) \<noteq> {}) \<and>
        (pp_writer (k_pipes ?s ! k) \<longleftrightarrow> nodes ?s (PipeWriteEnd k) \<noteq> {})" if "k < Suc ?k" for k
      using oldp that pk [of k] unfolding nodes [OF ends(1)] nodes [OF ends(2)]
      by (auto simp: pipes_ok_def pipe_new_def)
    moreover have "v = v'" if "is_pipe i" "v \<in> nodes ?s i" "v' \<in> nodes ?s i" for i v v'
      using oldp that unfolding nodes [OF that(1)] pipes_ok_def by (auto split: if_splits)
    ultimately show ?thesis unfolding pipes_ok_def same by blast
  qed
  ultimately show ?thesis by (simp add: kwf_def)
qed

lemma wp_drop_both:
  assumes "kwf {} s" "set (k_held s) \<subseteq> {a, b}" "distinct (k_held s)"
  shows "wp (sbind (arc_drop a) (\<lambda>_. sbind (arc_drop b) (\<lambda>_. sret x))) (\<lambda>_. kst) kerr s"
proof -
  have "remove1 b (remove1 a (k_held s)) = []"
    using assms(2,3) by (auto simp: set_remove1_eq simp flip: set_empty)
  then show ?thesis using assms(1)
    by (auto intro!: wp_arc_drop simp: kst_def)
qed

lemma kpres_sys_pipe2 [kpres_intros]: "kpres (sys_pipe2 q)"
proof (rule kpresI)
  fix s :: "('o, 'fs, 'w) kfiles" assume s: "kst s"
  let ?rf = "length (k_files s)" and ?wf = "Suc (length (k_files s))"
  let ?ok = "\<lambda>t :: ('o, 'fs, 'w) kfiles. kwf {} t \<and> k_held t = [?wf, ?rf]"
  have drop: "wp (sbind (arc_drop ?rf) (\<lambda>_. sbind (arc_drop ?wf) (\<lambda>_. sret x))) (\<lambda>_. kst) kerr t" if "?ok t" for t x
    by (rule wp_drop_both) (use that in auto)
  have put: "wp (sbind (arc_clone f) (\<lambda>_. sbind (slot_put q i f) (\<lambda>_. m))) (\<lambda>_. kst) kerr t"
    if "?ok t" "f \<in> {?rf, ?wf}" "\<And>t'. ?ok t' \<Longrightarrow> wp m (\<lambda>_. kst) kerr t'" for t f i and m :: "(_, int \<times> _) st"
    unfolding wp_sbind
  proof (rule wp_arc_clone)
    show "lookup_at (k_files t) f \<noteq> None" by (rule held_live [of "{}"]) (use that in auto)
    fix t' :: "('o, 'fs, 'w) kfiles" assume t': "kwf {} t'" "k_held t' = f # k_held t"
    then show "wp (slot_put q i f) (\<lambda>_. wp m (\<lambda>_. kst) kerr) kerr t'"
      by (intro wp_slot_put) (use that in auto)
  qed (use that in simp)
  have alloc: "wp (sbind (alloc_slot q fd_alloc) m) (\<lambda>_. kst) kerr t"
    if "?ok t" "\<And>i t'. ?ok t' \<Longrightarrow> wp (m i) (\<lambda>_. kst) kerr t'" for t and m :: "int \<Rightarrow> (_, int \<times> _) st"
    unfolding wp_sbind by (rule wp_alloc_slot [OF _ fd_alloc_allocates]) (use that in auto)
  have clear: "wp (sbind (slot_clear q i) (\<lambda>_. m)) (\<lambda>_. kst) kerr t"
    if "?ok t" "\<And>t'. ?ok t' \<Longrightarrow> wp m (\<lambda>_. kst) kerr t'" for t i and m :: "(_, int \<times> _) st"
    unfolding wp_sbind by (rule wp_slot_clear) (use that in auto)
  have cond: "wp (if b then m else m') (\<lambda>_. kst) kerr t"
    if "wp m (\<lambda>_. kst) kerr t" "wp m' (\<lambda>_. kst) kerr t" for b t and m m' :: "(_, int \<times> _) st"
    using that by simp
  have start: "?ok (with_pipe s)" using kwf_with_pipe [OF s] by (simp add: with_pipe_def)
  show "wp (sys_pipe2 q) (\<lambda>_. kst) kerr s"
    unfolding sys_pipe2_def wp_sbind [of create_pipe_pair]
    unfolding wp_def [of create_pipe_pair] create_pipe_pair_eq [OF kstD(2) [OF s]] prod.case sum.case
    by (intro put alloc clear drop cond start) auto
qed

text \<open>Opening a file.\<close>

lemma kpres_full_path [kpres_intros]: "kpres (full_path q dirfd path)"
  unfolding full_path_def by (intro kpres_intros)

lemma kpres_fs_of_path [kpres_intros]: "kpres (fs_of_path path)"
  unfolding fs_of_path_def by (intro kpres_intros)

lemma wp_open_vnode:
  fixes s :: "('o, 'fs, 'w) kfiles"
  assumes s: "kst s"
  shows "wp (open_vnode vf path flags) (\<lambda>v s'. kst s' \<and> file_vnode_at s' v) kerr s"
proof (cases "map_of (k_vset s) path")
  case (Some v)
  have "file_vnode_at s v"
    using vset_member [OF kstD(1) [OF s] map_of_SomeD [OF Some]] by (auto simp: file_vnode_at_def)
  with Some s show ?thesis by (simp add: wp_def open_vnode_def sbind_def kget_def sret_def)
next
  case None
  let ?call = "\<lambda>fs. if flags_contain flags O_CREAT then vfs_create_file vf fs path
      else if flags_contain flags O_DIRECTORY then vfs_open_dir vf fs path else vfs_open_file vf fs path"
  let ?add = "\<lambda>node. sbind (vnode_new \<lparr>vn_full_path = path, vn_inode = FileNode node\<rparr>) (\<lambda>v.
      sbind (kupd (\<lambda>s. s\<lparr>k_vset := (path, v) # k_vset s\<rparr>)) (\<lambda>_. sret v))"
  have add: "wp (?add node) (\<lambda>v s'. kst s' \<and> file_vnode_at s' v) kerr t"
    if "kst t" "map_of (k_vset t) path = None" for t :: "('o, 'fs, 'w) kfiles" and node
    using kst_new_vnode [OF that, of node]
    by (simp add: wp_def sbind_def vnode_new_def kupd_def sret_def file_vnode_at_def)
  have call: "wp (on_world m) (\<lambda>x t. kst t \<and> map_of (k_vset t) path = None) kerr s" for m :: "('w, 'o) st"
  proof -
    have "kst (s\<lparr>k_world := w\<rparr>)" for w by (rule kst_cong [OF s]) simp_all
    then show ?thesis using None by (auto simp: wp_def on_world_def kerr_def split: prod.split sum.split)
  qed
  have fs: "wp (fs_of_path path) (\<lambda>_ t. t = s) kerr s"
    by (auto simp: wp_def fs_of_path_def sbind_def kget_def sret_def sfail_def split: option.split prod.split)
  have "wp (sbind (fs_of_path path) (\<lambda>fs. sbind (on_world (?call fs)) ?add)) (\<lambda>v s'. kst s' \<and> file_vnode_at s' v) kerr s"
    unfolding wp_sbind
    by (rule wp_mono [OF fs]) (auto intro!: wp_mono [OF call] add [unfolded wp_sbind])
  then show ?thesis using None by (simp add: open_vnode_def wp_def [of "kget _"] kget_def)
qed

lemma wp_file_open:
  fixes s :: "('o, 'fs, 'w) kfiles"
  assumes "kst s"
  shows "wp (file_open ops vf path flags) (\<lambda>f s'. kwf {} s' \<and> k_held s' = [f]) kerr s"
proof -
  let ?seek = "\<lambda>v. if flags_contain flags O_APPEND then sunwrap (inode_seek ops v (End 0)) else sret 0"
  have seek: "wp (?seek v) (\<lambda>_ t. kst t \<and> file_vnode_at t v) kerr t"
    if t: "kst t" "file_vnode_at t v" for t :: "('o, 'fs, 'w) kfiles" and v
  proof -
    obtain x o1 where x: "lookup_at (k_vnodes t) v = Some x" "vn_inode x = FileNode o1"
      using t(2) by (auto simp: file_vnode_at_def)
    have "wp (inode_seek ops v (End 0)) (\<lambda>_ t. kst t \<and> file_vnode_at t v) kerr t"
      unfolding inode_seek_def wp_sbind by (rule wp_vnode_inode) (use x in \<open>auto intro: wp_on_node [OF t(1) x]\<close>)
    then have "wp (sunwrap (inode_seek ops v (End 0))) (\<lambda>_ t. kst t \<and> file_vnode_at t v) kerr t"
      unfolding sunwrap_def wp_scatch by (rule wp_mono) (auto split: err.split)
    with t show ?thesis by simp
  qed
  have new: "wp (descriptor_new d) (\<lambda>f s'. kwf {} s' \<and> k_held s' = [f]) kerr t"
    if "kst t" "file_vnode_at t (fd_vnode d)" for t :: "('o, 'fs, 'w) kfiles" and d
    using kwf_new_descriptor [OF that] kstD(2) [OF that(1)] by (simp add: wp_def descriptor_new_def)
  show ?thesis unfolding file_open_def wp_sbind
    by (rule wp_mono [OF wp_open_vnode [OF assms]], rule wp_mono [OF seek]) (simp_all add: new)
qed

lemma kpres_sys_openat [kpres_intros]:
  fixes ops :: "('o, 'w) inode_ops"
  shows "kpres (sys_openat ops vf q dirfd path flags :: (('o, 'fs, 'w) kfiles, int) st)"
proof -
  have body: "kpres (sbind (file_open ops vf fp flags) (\<lambda>f. sbind (alloc_slot q fd_alloc) (\<lambda>newfd.
      if newfd \<ge> 0 then sbind (slot_put q (nat newfd) f) (\<lambda>_. sret newfd) else sbind (arc_drop f) (\<lambda>_. sret (- 1))))
      :: (('o, 'fs, 'w) kfiles, int) st)" for fp
  proof (rule kpresI, unfold wp_sbind, rule wp_mono [OF wp_file_open])
    fix f and t :: "('o, 'fs, 'w) kfiles" assume t: "kwf {} t \<and> k_held t = [f]"
    show "wp (alloc_slot q fd_alloc) (\<lambda>newfd. wp (if newfd \<ge> 0 then sbind (slot_put q (nat newfd) f) (\<lambda>_. sret newfd)
        else sbind (arc_drop f) (\<lambda>_. sret (- 1))) (\<lambda>_. kst) kerr) kerr t"
      by (rule wp_alloc_slot [OF _ fd_alloc_allocates], use t in simp, rule wp_install) (use t in auto)
  qed
  show ?thesis unfolding sys_openat_def
    by (rule kpres_bind [OF kpres_full_path], rule kpres_catch [OF body], rule kpres_sret)
qed

lemma wp_get_file: "(\<And>d. lookup_at (k_files s) f = Some d \<Longrightarrow> Q d s) \<Longrightarrow> wp (get_file f) Q kerr s"
  by (cases "lookup_at (k_files s) f")
    (simp_all add: wp_def get_file_def sbind_def kget_def slift_def sfail_def sret_def)

lemma wp_get_fstat: "(\<And>bs. Q bs s) \<Longrightarrow> wp (inode_get_fstat ops v) Q kerr s"
  unfolding inode_get_fstat_def wp_sbind
  by (rule wp_vnode_inode) (auto simp: pipe_get_fstat_def split: inode.split option.split)

lemma kpres_sys_fstatat [kpres_intros]:
  fixes ops :: "('o, 'w) inode_ops"
  shows "kpres (sys_fstatat ops vf q dirfd path :: (('o, 'fs, 'w) kfiles, u8 list \<times> int) st)"
proof -
  let ?stat = "\<lambda>f. sbind (get_file f) (\<lambda>d. sbind (inode_get_fstat ops (fd_vnode d)) (\<lambda>bs.
      sbind (arc_drop f) (\<lambda>_. sret (bs, 0 :: int)))) :: (('o, 'fs, 'w) kfiles, u8 list \<times> int) st"
  have stat: "wp (?stat f) (\<lambda>_. kst) kerr t" if "kwf {} t" "k_held t = [f]" for f t
    unfolding wp_sbind by (rule wp_get_file, rule wp_get_fstat) (use that in \<open>auto intro!: wp_arc_drop simp: kst_def\<close>)
  have "kpres (sbind (attempt (file_open ops vf fp 0)) (\<lambda>r. case r of None \<Rightarrow> sret ([], - 1) | Some f \<Rightarrow> ?stat f))" for fp
  proof (rule kpresI)
    fix s :: "('o, 'fs, 'w) kfiles" assume "kst s"
    then have "wp (file_open ops vf fp 0) (\<lambda>f t. kwf {} t \<and> k_held t = [f]) kerr s" by (rule wp_file_open)
    then have "wp (attempt (file_open ops vf fp 0))
        (\<lambda>r t. case r of None \<Rightarrow> kst t | Some f \<Rightarrow> kwf {} t \<and> k_held t = [f]) kerr s"
      unfolding attempt_def wp_scatch wp_sbind
      by (rule wp_mono) (auto simp: kerr_def split: err.split)
    then show "wp (sbind (attempt (file_open ops vf fp 0)) (\<lambda>r. case r of None \<Rightarrow> sret ([], - 1) | Some f \<Rightarrow> ?stat f))
        (\<lambda>_. kst) kerr s"
      unfolding wp_sbind [of "attempt _"] by (rule wp_mono) (auto intro: stat split: option.splits simp del: wp_sbind)
  qed
  then show ?thesis unfolding sys_fstatat_def by (rule kpres_bind [OF kpres_full_path])
qed

lemma kpres_sys_unlinkat [kpres_intros]: "kpres (sys_unlinkat vf q dirfd path)"
  unfolding sys_unlinkat_def file_unlink_def by (intro kpres_intros)

lemma kpres_sys_mkdirat [kpres_intros]: "kpres (sys_mkdirat vf q dirfd path)"
  unfolding sys_mkdirat_def mkdir_def by (intro kpres_intros)

lemma kpres_sys_getcwd [kpres_intros]: "kpres (sys_getcwd q len)"
  unfolding sys_getcwd_def by (intro kpres_intros)

text \<open>The working directory, processes and mount points.\<close>

lemma kst_set_proc:
  assumes s: "kst s" and p: "lookup_at (k_procs s) q = Some p" and t: "pf_fds t = pf_fds p"
  shows "kst (s\<lparr>k_procs := (k_procs s)[q := Some t]\<rparr>)" (is "kst ?s")
proof -
  have lp: "lookup_at (k_procs ?s) r = (if r = q then Some t else lookup_at (k_procs s) r)" for r
    using lookup_at_Some [OF p] by (simp add: lookup_at_update)
  have "(\<exists>r u. lookup_at (k_procs ?s) r = Some u \<and> Some f \<in> set (pf_fds u)) \<longleftrightarrow>
      (\<exists>r u. lookup_at (k_procs s) r = Some u \<and> Some f \<in> set (pf_fds u))" for f
  proof -
    have "(\<exists>u. lookup_at (k_procs ?s) r = Some u \<and> Some f \<in> set (pf_fds u)) \<longleftrightarrow>
        (\<exists>u. lookup_at (k_procs s) r = Some u \<and> Some f \<in> set (pf_fds u))" for r
      unfolding lp using p t by (cases "r = q") simp_all
    then show ?thesis by simp
  qed
  then have used: "file_used ?s f \<longleftrightarrow> file_used s f" for f
    unfolding file_used_iff by simp
  have "slot_ok ?s" using s p t unfolding kst_def kwf_def slot_ok_def lp by (auto split: if_splits)
  moreover have "files_ok {} ?s" using s used by (simp add: kst_def kwf_def files_ok_def)
  ultimately show ?thesis using s
    by (simp add: kst_def kwf_def vset_ok_def pipes_ok_def statics_ok_def nodes_def vnode_ok_def nfiles_def cong: inode.case_cong)
qed

lemma kpres_sys_chdir [kpres_intros]: "kpres (sys_chdir q path)"
proof -
  let ?g = "\<lambda>fp p. p\<lparr>pf_cwd := fp\<rparr>"
  have "kpres (kupd (\<lambda>s. s\<lparr>k_procs := (k_procs s)[q := map_option (?g fp) (k_procs s ! q)]\<rparr>)
      :: (('o, 'fs, 'w) kfiles, unit) st)" for fp
  proof (rule kpresI)
    fix s :: "('o, 'fs, 'w) kfiles" assume s: "kst s"
    have "kst (s\<lparr>k_procs := (k_procs s)[q := map_option (?g fp) (k_procs s ! q)]\<rparr>)"
    proof (cases "lookup_at (k_procs s) q")
      case None
      then have "(k_procs s)[q := map_option (?g fp) (k_procs s ! q)] = k_procs s"
        by (cases "q < length (k_procs s)") (auto simp: lookup_at_def list_update_same_conv list_update_beyond)
      with s show ?thesis by simp
    next
      case (Some p)
      then show ?thesis using kst_set_proc [OF s Some, of "?g fp p"] by (simp add: lookup_at_Some)
    qed
    then show "wp (kupd (\<lambda>s. s\<lparr>k_procs := (k_procs s)[q := map_option (?g fp) (k_procs s ! q)]\<rparr>)) (\<lambda>_. kst) kerr s"
      by (simp add: wp_def kupd_def)
  qed
  then show ?thesis unfolding sys_chdir_def by (intro kpres_intros)
qed

lemma kst_add_proc:
  assumes s: "kst s" and p: "length (pf_fds p) \<le> MAX_FD" "\<And>f. Some f \<in> set (pf_fds p) \<Longrightarrow> lookup_at (k_files s) f \<noteq> None"
  shows "kst (s\<lparr>k_procs := k_procs s @ [Some p]\<rparr>)" (is "kst ?s")
proof -
  have lp: "lookup_at (k_procs ?s) r = (if r = length (k_procs s) then Some p else lookup_at (k_procs s) r)" for r by simp
  have used: "file_used s f \<Longrightarrow> file_used ?s f" for f by (auto simp: file_used_def)
  have "slot_ok ?s" using s p unfolding kst_def kwf_def slot_ok_def lp by (auto split: if_splits)
  moreover have "files_ok {} ?s" using s used by (auto simp: kst_def kwf_def files_ok_def)
  ultimately show ?thesis using s
    by (simp add: kst_def kwf_def vset_ok_def pipes_ok_def statics_ok_def nodes_def vnode_ok_def nfiles_def cong: inode.case_cong)
qed

lemma kpres_proc_new [kpres_intros]: "kpres proc_new"
proof (rule kpresI)
  fix s :: "('o, 'fs, 'w) kfiles" assume s: "kst s"
  have "kst (s\<lparr>k_procs := k_procs s @ [Some \<lparr>pf_cwd = ''/'', pf_fds = [Some STDIN, Some STDOUT, Some STDOUT]\<rparr>]\<rparr>)"
    by (rule kst_add_proc [OF s]) (use s in \<open>auto simp: MAX_FD_def kst_def kwf_def statics_ok_def\<close>)
  then show "wp proc_new (\<lambda>_. kst) kerr s" by (simp add: wp_def proc_new_def)
qed

lemma kpres_proc_fork [kpres_intros]: "kpres (proc_fork q)"
  unfolding proc_fork_def
proof (rule kpresI, unfold wp_sbind, rule wp_get_proc)
  fix s :: "('o, 'fs, 'w) kfiles" and p assume s: "kst s" and p: "lookup_at (k_procs s) q = Some p"
  have "kst (s\<lparr>k_procs := k_procs s @ [Some p]\<rparr>)"
    by (rule kst_add_proc [OF s]) (use slot_live [OF kstD(1) [OF s] p] table_length [OF kstD(1) [OF s] p] in auto)
  then show "wp (\<lambda>s. (Inr (length (k_procs s)), s\<lparr>k_procs := k_procs s @ [Some p]\<rparr>)) (\<lambda>_. kst) kerr s"
    by (simp add: wp_def)
qed

lemma kst_remove_proc:
  assumes s: "kst s" and p: "lookup_at (k_procs s) q = Some p" "\<And>f. Some f \<notin> set (pf_fds p)"
  shows "kst (s\<lparr>k_procs := (k_procs s)[q := None]\<rparr>)" (is "kst ?s")
proof -
  have lp: "lookup_at (k_procs ?s) r = Some t \<longleftrightarrow> r \<noteq> q \<and> lookup_at (k_procs s) r = Some t" for r t
    by (simp add: lookup_at_clear)
  have "(\<exists>u. lookup_at (k_procs ?s) r = Some u \<and> Some f \<in> set (pf_fds u)) \<longleftrightarrow>
      (\<exists>u. lookup_at (k_procs s) r = Some u \<and> Some f \<in> set (pf_fds u))" for r f
    unfolding lp using p by (cases "r = q") simp_all
  then have used: "file_used ?s f \<longleftrightarrow> file_used s f" for f
    unfolding file_used_iff by simp
  have "slot_ok ?s" using s unfolding kst_def kwf_def slot_ok_def lp by auto
  moreover have "files_ok {} ?s" using s used by (simp add: kst_def kwf_def files_ok_def)
  ultimately show ?thesis using s
    by (simp add: kst_def kwf_def vset_ok_def pipes_ok_def statics_ok_def nodes_def vnode_ok_def nfiles_def cong: inode.case_cong)
qed

lemma wp_clear_slots:
  fixes s :: "('o, 'fs, 'w) kfiles"
  assumes "kst s" "lookup_at (k_procs s) q = Some p" "\<And>i. i < length (pf_fds p) \<Longrightarrow> i \<in> set is \<or> pf_fds p ! i = None"
  shows "wp (clear_slots q is) (\<lambda>_ s'. kst s' \<and> (\<exists>p'. lookup_at (k_procs s') q = Some p' \<and> (\<forall>f. Some f \<notin> set (pf_fds p')))) kerr s"
  using assms
proof (induction "is" arbitrary: s p)
  case Nil
  then have "\<forall>f. Some f \<notin> set (pf_fds p)" by (auto simp: in_set_conv_nth)
  with Nil show ?case by simp
next
  case (Cons i "is")
  show ?case unfolding clear_slots.simps wp_sbind
  proof (rule wp_slot_clear)
    fix s' :: "('o, 'fs, 'w) kfiles" and p' assume s': "kwf {} s'" "k_held s' = k_held s" "lookup_at (k_procs s) q = Some p'"
      "k_procs s' = (k_procs s)[q := Some (p'\<lparr>pf_fds := (pf_fds p')[i := None]\<rparr>)]"
    have "lookup_at (k_procs s') q = Some (p\<lparr>pf_fds := (pf_fds p)[i := None]\<rparr>)"
      using s'(3,4) Cons.prems(2) lookup_at_Some [OF s'(3)] by (simp add: lookup_at_update)
    moreover have "kst s'" using s'(1,2) Cons.prems(1) by (simp add: kst_def)
    moreover have "j \<in> set is \<or> pf_fds (p\<lparr>pf_fds := (pf_fds p)[i := None]\<rparr>) ! j = None"
      if "j < length (pf_fds (p\<lparr>pf_fds := (pf_fds p)[i := None]\<rparr>))" for j
      using Cons.prems(3) [of j] that by (cases "j = i") auto
    ultimately show "wp (clear_slots q is) (\<lambda>_ s'. kst s' \<and> (\<exists>p'. lookup_at (k_procs s') q = Some p' \<and> (\<forall>f. Some f \<notin> set (pf_fds p')))) kerr s'"
      by (intro Cons.IH)
  qed (use Cons.prems(1) kstD in blast)
qed

lemma kpres_proc_drop [kpres_intros]: "kpres (proc_drop q)"
  unfolding proc_drop_def
proof (rule kpresI, unfold wp_sbind, rule wp_get_proc)
  fix s :: "('o, 'fs, 'w) kfiles" and p assume s: "kst s" and p: "lookup_at (k_procs s) q = Some p"
  have "wp (clear_slots q [0..<length (pf_fds p)])
      (\<lambda>_ s'. kst s' \<and> (\<exists>p'. lookup_at (k_procs s') q = Some p' \<and> (\<forall>f. Some f \<notin> set (pf_fds p')))) kerr s"
    by (rule wp_clear_slots [OF s p]) simp
  then show "wp (clear_slots q [0..<length (pf_fds p)])
      (\<lambda>_. wp (kupd (\<lambda>s. s\<lparr>k_procs := (k_procs s)[q := None]\<rparr>)) (\<lambda>_. kst) kerr) kerr s"
    by (rule wp_mono) (auto simp: wp_def kupd_def intro: kst_remove_proc)
qed

text \<open>Mounting, when the vnode set has no vnode for the mount point yet.\<close>

lemma kst_register:
  fixes s :: "('o, 'fs, 'w) kfiles"
  assumes s: "kst s" and new: "map_of (k_vset s) path = None"
  shows "wp (k_register vf path fs) (\<lambda>_. kst) kerr s"
proof (cases "regeister_file_system (path, fs) (k_fs_table s)")
  case (Inl e)
  with s show ?thesis by (simp add: k_register_def wp_def sbind_def kget_def slift_def sfail_def kerr_def)
next
  case (Inr tab)
  let ?o = "vfs_root_dir vf fs"
  let ?t = "s\<lparr>k_vnodes := k_vnodes s @ [Some \<lparr>vn_full_path = path, vn_inode = FileNode ?o\<rparr>],
      k_vset := (path, length (k_vnodes s)) # k_vset s\<rparr>"
  have "filter (\<lambda>e. fst e \<noteq> path) (k_vset s) = k_vset s"
    using new by (auto simp: map_of_eq_None_iff filter_id_conv)
  then have "k_register vf path fs s = (Inr (), ?t\<lparr>k_fs_table := tab\<rparr>)"
    using Inr new by (simp add: k_register_def sbind_def kget_def slift_def sret_def kupd_def vnode_new_def vset_insert_def)
  moreover have "kst (?t\<lparr>k_fs_table := tab\<rparr>)"
    by (rule kst_cong [OF kst_new_vnode [OF s new, of ?o]]) simp_all
  ultimately show ?thesis by (simp add: wp_def)
qed

lemma kpres_sys_umount2 [kpres_intros]: "kpres (sys_umount2 q target)"
proof -
  have "kpres (kupd (\<lambda>s. s\<lparr>k_fs_table := tab\<rparr>) :: (('o, 'fs, 'w) kfiles, unit) st)" for tab
  proof (rule kpresI)
    fix s :: "('o, 'fs, 'w) kfiles" assume s: "kst s"
    have "kst (s\<lparr>k_fs_table := tab\<rparr>)" by (rule kst_cong [OF s]) simp_all
    then show "wp (kupd (\<lambda>s. s\<lparr>k_fs_table := tab\<rparr>)) (\<lambda>_. kst) kerr s" by (simp add: wp_def kupd_def)
  qed
  then show ?thesis unfolding sys_umount2_def by (intro kpres_intros)
qed

section \<open>Sequences of system calls\<close>

text \<open>The calls of the processes on descriptors, in the order they happen, after the root file system was
  mounted; a call that panics ends the sequence.\<close>

datatype kcall =
    CSpawn | CFork nat | CExit nat | CClose nat nat | CDup nat nat | CDup3 nat nat nat
  | CFcntl nat nat fcntl_cmd usize | CPipe2 nat | CRead nat nat nat nat | CWrite nat nat "u8 list"
  | CWritev nat nat "u8 list list" | COpenat nat usize string usize | CUnlinkat nat usize string
  | CMkdirat nat usize string | CChdir nat string | CGetcwd nat nat | CUmount nat string
  | CFstat nat nat | CFstatat nat usize string | CGetdents64 nat nat | CSendfile nat nat nat nat nat nat nat
  | CMount nat string

fun kcall_exec ::
  "('o, 'w) inode_ops \<Rightarrow> ('o, 'fs, 'w) vfs \<Rightarrow> kcall \<Rightarrow> (('o, 'fs, 'w) kfiles, unit) st" where
  "kcall_exec ops vf CSpawn = sbind proc_new (\<lambda>_. sret ())"
| "kcall_exec ops vf (CFork q) = sbind (proc_fork q) (\<lambda>_. sret ())"
| "kcall_exec ops vf (CExit q) = proc_drop q"
| "kcall_exec ops vf (CClose q fd) = sbind (sys_close q fd) (\<lambda>_. sret ())"
| "kcall_exec ops vf (CDup q fd) = sbind (sys_dup q fd) (\<lambda>_. sret ())"
| "kcall_exec ops vf (CDup3 q fd fd') = sbind (sys_dup3 q fd fd') (\<lambda>_. sret ())"
| "kcall_exec ops vf (CFcntl q fd cmd arg) = sbind (sys_fcntl q fd cmd arg) (\<lambda>_. sret ())"
| "kcall_exec ops vf (CPipe2 q) = sbind (sys_pipe2 q) (\<lambda>_. sret ())"
| "kcall_exec ops vf (CRead q cur fd n) = sbind (sys_read ops q cur fd n) (\<lambda>_. sret ())"
| "kcall_exec ops vf (CWrite q fd buf) = sbind (sys_write ops q fd buf) (\<lambda>_. sret ())"
| "kcall_exec ops vf (CWritev q fd bufs) = sbind (sys_writev ops q fd bufs) (\<lambda>_. sret ())"
| "kcall_exec ops vf (COpenat q dirfd path flags) = sbind (sys_openat ops vf q dirfd path flags) (\<lambda>_. sret ())"
| "kcall_exec ops vf (CUnlinkat q dirfd path) = sbind (sys_unlinkat vf q dirfd path) (\<lambda>_. sret ())"
| "kcall_exec ops vf (CMkdirat q dirfd path) = sbind (sys_mkdirat vf q dirfd path) (\<lambda>_. sret ())"
| "kcall_exec ops vf (CChdir q path) = sbind (sys_chdir q path) (\<lambda>_. sret ())"
| "kcall_exec ops vf (CGetcwd q len) = sbind (sys_getcwd q len) (\<lambda>_. sret ())"
| "kcall_exec ops vf (CUmount q path) = sbind (sys_umount2 q path) (\<lambda>_. sret ())"
| "kcall_exec ops vf (CFstat q fd) = sbind (sys_fstat ops q fd) (\<lambda>_. sret ())"
| "kcall_exec ops vf (CFstatat q dirfd path) = sbind (sys_fstatat ops vf q dirfd path) (\<lambda>_. sret ())"
| "kcall_exec ops vf (CGetdents64 q fd) = sbind (sys_getdents64 ops q fd) (\<lambda>_. sret ())"
| "kcall_exec ops vf (CSendfile fuel q cur out_fd in_fd offset count) =
     sbind (sys_sendfile ops vf fuel q cur out_fd in_fd offset count) (\<lambda>_. sret ())"
| "kcall_exec ops vf (CMount q path) = sbind (sys_mount vf q path) (\<lambda>_. sret ())"

fun kcalls_exec ::
  "('o, 'w) inode_ops \<Rightarrow> ('o, 'fs, 'w) vfs \<Rightarrow> kcall list \<Rightarrow> (('o, 'fs, 'w) kfiles, unit) st" where
  "kcalls_exec ops vf [] = sret ()"
| "kcalls_exec ops vf (c # cs) = sbind (kcall_exec ops vf c) (\<lambda>_. kcalls_exec ops vf cs)"

definition kernel_run ::
  "('o, 'w) inode_ops \<Rightarrow> ('o, 'fs, 'w) vfs \<Rightarrow> ('w, 'fs) st \<Rightarrow> kcall list \<Rightarrow> threads \<Rightarrow> 'w \<Rightarrow> unit res \<times> ('o, 'fs, 'w) kfiles" where
  "kernel_run ops vf new cs ths w = sbind (fs_init vf new) (\<lambda>_. kcalls_exec ops vf cs) (kfiles_init ths w)"

text \<open>Mounting on a path that has a vnode, of an open file or of a mount point, replaces that vnode in the set and breaks
  the invariant (last section). \<open>mount_fresh\<close> tells that a call is no such mount, \<open>mounts_fresh\<close> that none of a sequence
  is.\<close>

definition mount_fresh :: "kcall \<Rightarrow> ('o, 'fs, 'w) kfiles \<Rightarrow> bool" where
  "mount_fresh c s = (case c of
     CMount q path \<Rightarrow> (case fst (full_path q AT_FDCWD path s) of Inl e \<Rightarrow> True | Inr fp \<Rightarrow> map_of (k_vset s) fp = None)
   | _ \<Rightarrow> True)"

fun mounts_fresh :: "('o, 'w) inode_ops \<Rightarrow> ('o, 'fs, 'w) vfs \<Rightarrow> kcall list \<Rightarrow> ('o, 'fs, 'w) kfiles \<Rightarrow> bool" where
  "mounts_fresh ops vf [] s = True"
| "mounts_fresh ops vf (c # cs) s = (mount_fresh c s \<and> mounts_fresh ops vf cs (snd (kcall_exec ops vf c s)))"

lemma full_path_state: "snd (full_path q dirfd path s) = s"
  by (auto simp: full_path_def get_proc_def get_file_def sbind_def kget_def slift_def sret_def sfail_def
      split: option.splits sum.splits if_splits)

lemma wp_on_world:
  fixes s :: "('o, 'fs, 'w) kfiles"
  assumes "kst s" "map_of (k_vset s) path = None"
  shows "wp (sunwrap (on_world m)) (\<lambda>_ t. kst t \<and> map_of (k_vset t) path = None) kerr s"
proof -
  have "kst (s\<lparr>k_world := w\<rparr>)" for w by (rule kst_cong [OF assms(1)]) simp_all
  then have "wp (on_world m) (\<lambda>_ t. kst t \<and> map_of (k_vset t) path = None) (\<lambda>e t. True) s"
    using assms(2) by (auto simp: wp_def on_world_def split: prod.split sum.split)
  then show ?thesis unfolding sunwrap_def wp_scatch by (rule wp_mono) (auto split: err.split)
qed

lemma wp_mount:
  fixes s :: "('o, 'fs, 'w) kfiles"
  assumes s: "kst s" and new: "mount_fresh (CMount q path) s"
  shows "wp (sys_mount vf q path) (\<lambda>_. kst) kerr s"
proof -
  have "wp (full_path q AT_FDCWD path) (\<lambda>_. kst) kerr s" by (rule kpresD_wp [OF s kpres_full_path])
  then have fp: "wp (full_path q AT_FDCWD path) (\<lambda>fp t. t = s \<and> map_of (k_vset s) fp = None) kerr s"
    using full_path_state [of q AT_FDCWD path s] new by (auto simp: wp_def mount_fresh_def split: prod.splits sum.splits)
  have reg: "wp (sbind (sunwrap (on_world m)) (\<lambda>_. sbind (k_register vf fp fs) (\<lambda>_. sret (0 :: int)))) (\<lambda>_. kst) kerr s"
    if "map_of (k_vset s) fp = None" for fp fs and m :: "('w, 'o) st"
    unfolding wp_sbind by (rule wp_mono [OF wp_on_world [OF s that]]) (auto intro: wp_mono [OF kst_register])
  have rest: "wp (case e of None \<Rightarrow> sfail (Panic Assertion) | Some (mp, fs) \<Rightarrow>
      sbind (slift (rguard (length mp \<le> length fp) (Panic OutOfBounds))) (\<lambda>_.
      sbind (sunwrap (on_world (vfs_open_dir vf fs (drop (length mp) fp)))) (\<lambda>_.
      sbind (k_register vf fp fs) (\<lambda>_. sret (0 :: int))))) (\<lambda>_. kst) kerr s"
    if "map_of (k_vset s) fp = None" for e fp
    using reg [OF that] by (auto simp: rguard_def simp del: wp_sbind split: option.split prod.split)
  show ?thesis unfolding sys_mount_def wp_sbind [of "full_path q AT_FDCWD path"]
    by (rule wp_mono [OF fp]) (use rest in \<open>auto simp: wp_sbind [of "kget _"] wp_def [of "kget _"] kget_def simp del: wp_sbind\<close>)
qed

lemma kpres_kcall: "\<nexists>q path. c = CMount q path \<Longrightarrow> kpres (kcall_exec ops vf c)"
  by (cases c) (simp_all, (intro kpres_intros)+)

lemma kcall_kst:
  assumes "kst s" "mount_fresh c s"
  shows "wp (kcall_exec ops vf c) (\<lambda>_. kst) kerr s"
proof (cases "\<exists>q path. c = CMount q path")
  case True
  then obtain q path where c: "c = CMount q path" by blast
  have "wp (sys_mount vf q path) (\<lambda>_. kst) kerr s" by (rule wp_mount) (use assms c in simp_all)
  then show ?thesis unfolding c kcall_exec.simps wp_sbind by (rule wp_mono) simp_all
qed (use assms(1) kpres_kcall in \<open>blast intro: kpresD_wp\<close>)

lemma kcalls_kst: "kst s \<Longrightarrow> mounts_fresh ops vf cs s \<Longrightarrow> wp (kcalls_exec ops vf cs) (\<lambda>_. kst) kerr s"
proof (induction cs arbitrary: s)
  case (Cons c cs)
  then have "wp (kcall_exec ops vf c) (\<lambda>_. kst) kerr s" "mounts_fresh ops vf cs (snd (kcall_exec ops vf c s))"
    by (simp_all add: kcall_kst)
  with Cons.IH show ?case
    unfolding kcalls_exec.simps wp_sbind by (auto simp: wp_def [of "kcall_exec ops vf c"] split: prod.splits sum.splits)
qed simp

section \<open>What a process can rely on\<close>

text \<open>A descriptor refers to the inode; a slot of some process does.\<close>

definition fd_refers :: "('o, 'fs, 'w) kfiles \<Rightarrow> 'o inode \<Rightarrow> nat option \<Rightarrow> bool" where
  "fd_refers s i x =
     (case x of None \<Rightarrow> False | Some f \<Rightarrow>
       (case lookup_at (k_files s) f of None \<Rightarrow> False | Some d \<Rightarrow>
         (case lookup_at (k_vnodes s) (fd_vnode d) of None \<Rightarrow> False | Some y \<Rightarrow> vn_inode y = i)))"

definition in_use :: "('o, 'fs, 'w) kfiles \<Rightarrow> 'o inode \<Rightarrow> bool" where
  "in_use s i = list_ex (\<lambda>p. case p of None \<Rightarrow> False | Some t \<Rightarrow> list_ex (fd_refers s i) (pf_fds t)) (k_procs s)"

lemma fd_refers_iff:
  "fd_refers s i x \<longleftrightarrow> (\<exists>f d y. x = Some f \<and> lookup_at (k_files s) f = Some d \<and>
     lookup_at (k_vnodes s) (fd_vnode d) = Some y \<and> vn_inode y = i)"
  by (auto simp: fd_refers_def split: option.splits)

lemma in_use_iff:
  "in_use s i \<longleftrightarrow> (\<exists>q p f. lookup_at (k_procs s) q = Some p \<and> Some f \<in> set (pf_fds p) \<and> fd_refers s i (Some f))"
proof -
  have "in_use s i \<longleftrightarrow> (\<exists>p. Some p \<in> set (k_procs s) \<and> (\<exists>x \<in> set (pf_fds p). fd_refers s i x))"
    by (force simp: in_use_def list_ex_iff split: option.splits)
  also have "\<dots> \<longleftrightarrow> (\<exists>p. Some p \<in> set (k_procs s) \<and> (\<exists>f. Some f \<in> set (pf_fds p) \<and> fd_refers s i (Some f)))"
    by (metis fd_refers_iff)
  finally show ?thesis by (metis in_set_lookup_at)
qed

lemma pipe_end_in_use:
  assumes s: "kst s" and i: "is_pipe i"
  shows "nodes s i \<noteq> {} \<longleftrightarrow> in_use s i"
proof
  assume "nodes s i \<noteq> {}"
  then obtain v x where x: "lookup_at (k_vnodes s) v = Some x" "vn_inode x = i" by (auto simp: nodes_def)
  have wf: "kwf {} s" "k_held s = []" using s by (simp_all add: kst_def)
  have "vnode_ok s v x" using wf(1) x by (simp add: kwf_def)
  then have "0 < nfiles s v" "v \<noteq> CONSOLE_VNODE"
    using x i by (auto simp: vnode_ok_def is_pipe_def split: inode.splits)
  then obtain f d where f: "lookup_at (k_files s) f = Some d" "fd_vnode d = v" unfolding nfiles_pos by blast
  then have "f \<noteq> STDIN" "f \<noteq> STDOUT" using wf(1) \<open>v \<noteq> CONSOLE_VNODE\<close> by (auto simp: kwf_def statics_ok_def)
  moreover have "file_used s f" using wf(1) f(1) by (simp add: kwf_def files_ok_def)
  ultimately obtain q p where "lookup_at (k_procs s) q = Some p" "Some f \<in> set (pf_fds p)"
    using wf(2) unfolding file_used_iff by auto
  with f x show "in_use s i" unfolding in_use_iff fd_refers_iff by blast
next
  assume "in_use s i"
  then show "nodes s i \<noteq> {}" unfolding in_use_iff fd_refers_iff nodes_def by blast
qed

lemma kst_init: "kst (kfiles_init ths w)"
  unfolding kst_def using kwf_init by (simp add: kfiles_init_def)

lemma kernel_run_kst:
  fixes w :: 'w and s :: "('o, 'fs, 'w) kfiles"
  assumes "kernel_run ops vf new cs ths w = (Inr (), s)" "mounts_fresh ops vf cs (snd (fs_init vf new (kfiles_init ths w)))"
  shows "kst s"
proof -
  let ?i = "kfiles_init ths w :: ('o, 'fs, 'w) kfiles"
  have "map_of (k_vset ?i) ''/'' = None" by (simp add: kfiles_init_def)
  then have "wp (fs_init vf new) (\<lambda>_. kst) kerr ?i"
    unfolding fs_init_def wp_sbind by (intro wp_mono [OF wp_on_world [OF kst_init]]) (auto intro: kst_register)
  moreover obtain t where t: "fs_init vf new ?i = (Inr (), t)" "kcalls_exec ops vf cs t = (Inr (), s)"
    using assms(1) by (auto simp: kernel_run_def sbind_def split: prod.splits sum.splits)
  ultimately show ?thesis using kcalls_kst [of t ops vf cs] assms(2) by (simp add: wp_def)
qed

lemma kst_pipe_ends:
  assumes "kst s" "k < length (k_pipes s)"
  shows "pp_reader (k_pipes s ! k) = in_use s (PipeReadEnd k) \<and> pp_writer (k_pipes s ! k) = in_use s (PipeWriteEnd k)"
  using assms pipe_end_in_use [OF assms(1), of "PipeReadEnd k"] pipe_end_in_use [OF assms(1), of "PipeWriteEnd k"]
  by (simp add: is_pipe_def kst_def kwf_def pipes_ok_def)

text \<open>C6: After any sequence of system calls of any processes that starts with the booted kernel, in which no call panics
  and no mount goes onto a path that has a vnode already (an open file or a mount point, \<open>mounts_fresh\<close>), the read end of every pipe is open exactly while a slot of some live process refers to
  a descriptor for it, and the write end likewise: closing, duplicating over, forking and exiting neither lose
  nor leak an end, so a writer gets \<open>BrokenPipe\<close> and a reader the end of the file when, and only when, the
  other side is gone.\<close>

theorem pipe_ends_follow_descriptors:
  assumes "kernel_run ops vf new cs ths w = (Inr (), s)" "mounts_fresh ops vf cs (snd (fs_init vf new (kfiles_init ths w)))"
  shows "\<forall>k < length (k_pipes s).
     pp_reader (k_pipes s ! k) = in_use s (PipeReadEnd k) \<and> pp_writer (k_pipes s ! k) = in_use s (PipeWriteEnd k)"
  using kst_pipe_ends [OF kernel_run_kst [OF assms]] by blast

definition sample_ops :: "(unit, unit) inode_ops" where
  "sample_ops = \<lparr>in_read = \<lambda>n. sret [], in_write = \<lambda>b. sret (length b), in_seek = \<lambda>f. sret 0, in_flush = sret (),
     in_get_fstat = \<lambda>n. Some [], in_get_dents64 = \<lambda>n. Some []\<rparr>"

definition sample_vfs :: "(unit, unit, unit) vfs" where
  "sample_vfs = \<lparr>vfs_create_file = \<lambda>fs p. sret (), vfs_open_file = \<lambda>fs p. sret (), vfs_open_dir = \<lambda>fs p. sret (),
     vfs_create_dir = \<lambda>fs p. sret (), vfs_remove = \<lambda>fs p. sret (), vfs_root_dir = \<lambda>fs. ()\<rparr>"

text \<open>A process mounts, a parent writes, its child reads and exits.\<close>

definition sample_calls :: "kcall list" where
  "sample_calls = [CSpawn, CMount 0 ''/m'', CPipe2 0, CFork 0, CClose 0 3, CClose 1 4, CWrite 0 4 [7, 8], CRead 1 0 3 1, CExit 1]"

definition sample_run :: "(err + unit) \<times> (unit, unit, unit) kfiles" where
  "sample_run = kernel_run sample_ops sample_vfs (sret ()) sample_calls (\<lambda>_. None) ()"

lemma sample_mounts:
  "mounts_fresh sample_ops sample_vfs sample_calls (snd (fs_init sample_vfs (sret ()) (kfiles_init (\<lambda>_. None) ())))"
  by code_simp

theorem pipe_ends_follow_descriptors_witness:
  "fst sample_run = Inr () \<and> length (k_pipes (snd sample_run)) = 1 \<and>
   \<not> in_use (snd sample_run) (PipeReadEnd 0) \<and> in_use (snd sample_run) (PipeWriteEnd 0) \<and>
   \<not> pp_reader (k_pipes (snd sample_run) ! 0) \<and> pp_writer (k_pipes (snd sample_run) ! 0)"
proof -
  have run: "fst sample_run = Inr ()" "length (k_pipes (snd sample_run)) = 1"
    "\<not> in_use (snd sample_run) (PipeReadEnd 0)" "in_use (snd sample_run) (PipeWriteEnd 0)"
    by code_simp+
  then have "kernel_run sample_ops sample_vfs (sret ()) sample_calls (\<lambda>_. None) () = (Inr (), snd sample_run)"
    by (simp add: sample_run_def prod_eq_iff)
  from pipe_ends_follow_descriptors [OF this sample_mounts] run show ?thesis by simp
qed




section \<open>Divergences from POSIX\<close>

text \<open>\<open>F_SETFD\<close> reports an error after it has set the flag.\<close>

lemma fcntl_setfd_reports_error:
  assumes "lookup_at (k_procs s) q = Some p" "fd < length (pf_fds p)" "pf_fds p ! fd = Some f"
  shows "fst (sys_fcntl q fd F_SETFD FD_CLOEXEC s) = Inr (- 1) \<and>
    (\<forall>d. lookup_at (k_files s) f = Some d \<longrightarrow>
       lookup_at (k_files (snd (sys_fcntl q fd F_SETFD FD_CLOEXEC s))) f = Some (d\<lparr>fd_flags := fd_flags d OR O_CLOEXEC\<rparr>))"
proof -
  have "flags_contain FD_CLOEXEC FD_CLOEXEC" by (simp add: flags_contain_def)
  with assms show ?thesis
    by (auto simp: sys_fcntl_def sbind_def get_proc_eq slift_def rguard_def sret_def file_insert_flags_def kupd_def
        lookup_at_update dest: lookup_at_Some)
qed

text \<open>A file system mounted on a directory that is open in two descriptors: the first \<open>close\<close> fails the assertion
  of \<open>FileDescriptor::drop\<close>.\<close>

definition mounted_over_open :: "(err + int) \<times> (unit, unit, unit) kfiles" where
  "mounted_over_open =
     sbind (fs_init sample_vfs (sret ())) (\<lambda>_.
     sbind proc_new (\<lambda>q.
     sbind (sys_openat sample_ops sample_vfs q AT_FDCWD ''/a'' O_DIRECTORY) (\<lambda>fd.
     sbind (sys_openat sample_ops sample_vfs q AT_FDCWD ''/a'' O_DIRECTORY) (\<lambda>fd'.
     sbind (sys_mount sample_vfs q ''/a'') (\<lambda>_.
     sys_close q (nat fd)))))) (kfiles_init (\<lambda>_. None) ())"

lemma mount_over_open_directory_panics: "fst mounted_over_open = Inl (Panic Assertion)"
  by code_simp

text \<open>\<open>sendfile\<close> to a descriptor that is not writable never returns, whatever the input file does: the failed
  write is tried again for ever.\<close>

definition unwritable :: "nat \<Rightarrow> ('o, 'fs, 'w) kfiles \<Rightarrow> bool" where
  "unwritable f s \<longleftrightarrow> (\<exists>d. lookup_at (k_files s) f = Some d \<and> \<not> flags_writable (fd_flags d))"

definition keeps :: "('s \<Rightarrow> bool) \<Rightarrow> ('s, 'a) st \<Rightarrow> bool" where
  "keeps P m \<longleftrightarrow> (\<forall>s. P s \<longrightarrow> wp m (\<lambda>_. P) (\<lambda>_. P) s)"

lemma keepsI: "(\<And>s. P s \<Longrightarrow> P (snd (m s))) \<Longrightarrow> keeps P m"
  by (simp add: keeps_def wp_def split: prod.split sum.split) (metis snd_conv)

lemma keeps_bind: "keeps P m \<Longrightarrow> (\<And>x. keeps P (f x)) \<Longrightarrow> keeps P (sbind m f)"
  unfolding keeps_def wp_sbind by (blast intro: wp_post)

lemma keeps_unwrap: "keeps P m \<Longrightarrow> keeps P (sunwrap m)"
  unfolding keeps_def sunwrap_def wp_scatch
  by (intro allI impI) (drule spec, drule mp, assumption, erule wp_mono, auto split: err.split)

lemma keeps_id: "(\<And>s. snd (m s) = s) \<Longrightarrow> keeps P m"
  by (rule keepsI) simp

lemma keeps_ret: "keeps P (sret x)" "keeps P (sfail e)" "keeps P (slift r)"
  by (auto intro!: keeps_id simp: sret_def sfail_def slift_def split: sum.split)

lemma keeps_files: "(\<And>s. k_files (snd (m s)) = k_files s) \<Longrightarrow> keeps (unwritable f) m"
  by (rule keepsI) (simp add: unwritable_def)

lemma fd_read_keeps_unwritable: "keeps (unwritable f) (fd_read ops cur g n)"
proof -
  have get: "keeps (unwritable f) (get_file g)"
    by (rule keeps_id) (auto simp: get_file_def sbind_def kget_def slift_def sret_def sfail_def split: option.split sum.split)
  have seek: "keeps (unwritable f) (inode_seek ops v sf)" for v sf
    by (rule keeps_files)
      (auto simp: inode_seek_def vnode_inode_def sbind_def kget_def slift_def sret_def sfail_def on_node_def
        split: option.split sum.split prod.split inode.split)
  have read: "keeps (unwritable f) (inode_read ops cur v n)" for v
    by (rule keeps_files)
      (auto simp: inode_read_def vnode_inode_def sbind_def kget_def slift_def sret_def sfail_def on_node_def
        split: option.split sum.split prod.split inode.split)
  have adv: "keeps (unwritable f) (file_advance_pos g k)" for k
    by (rule keepsI) (auto simp: unwritable_def file_advance_pos_def kupd_def lookup_at_update dest: lookup_at_Some)
  have if_keeps: "keeps P (if b then m else m')" if "keeps P m" "keeps P m'" for P b and m m' :: "(_, u8 list option) st"
    using that by simp
  have opt: "keeps P (case r of None \<Rightarrow> m | Some x \<Rightarrow> h x)"
    if "keeps P m" "\<And>x. keeps P (h x)" for P and r :: "u8 list option" and m :: "(_, u8 list option) st" and h
    using that by (cases r) simp_all
  show ?thesis unfolding fd_read_def
    by (intro keeps_bind get if_keeps keeps_unwrap seek read opt adv keeps_ret)
qed

lemma sendfile_loop_unwritable:
  fixes s :: "('o, 'fs, 'w) kfiles"
  assumes "unwritable out_f s" "remain \<noteq> 0"
  shows "wp (sendfile_loop ops cur in_f out_f fuel remain) (\<lambda>r s'. r = None) (\<lambda>_ _. True) s"
  using assms
proof (induction fuel arbitrary: s)
  case (Suc fuel)
  have wr: "attempt (fd_write ops out_f bs) t = (Inr None, t)" if "unwritable out_f t" for t bs
    using that by (auto simp: unwritable_def attempt_def scatch_def fd_write_def get_file_def sbind_def kget_def slift_def
        sret_def sfail_def)
  have rd: "wp (attempt (fd_read ops cur in_f n)) (\<lambda>_. unwritable out_f) (\<lambda>_ _. True) s" for n
    unfolding attempt_def wp_scatch wp_sbind
    using fd_read_keeps_unwritable [of out_f ops cur in_f n] Suc.prems(1)
    by (auto simp: keeps_def elim!: wp_mono split: err.split)
  have "wp (case r of None \<Rightarrow> sendfile_loop ops cur in_f out_f fuel remain | Some None \<Rightarrow> sret None
      | Some (Some bs) \<Rightarrow> sbind (attempt (fd_write ops out_f bs)) (\<lambda>w. case w of
          None \<Rightarrow> sendfile_loop ops cur in_f out_f fuel remain | Some n \<Rightarrow> k bs n)) (\<lambda>r s'. r = None) (\<lambda>_ _. True) t"
    if "unwritable out_f t" for r k and t :: "('o, 'fs, 'w) kfiles"
    using Suc.IH [OF that Suc.prems(2)] wr [OF that]
    by (auto simp: wp_def [of "attempt (fd_write _ _ _)"] split: option.split)
  then show ?case unfolding sendfile_loop.simps Let_def if_not_P [OF Suc.prems(2)] wp_sbind [of "attempt (fd_read _ _ _ _)"]
    by (rule wp_mono [OF rd]) simp
qed simp

lemma sendfile_never_returns:
  assumes "unwritable out_f s" "remain \<noteq> 0"
  shows "fst (sendfile_loop ops cur in_f out_f fuel remain s) \<noteq> Inr (Some r)"
  using sendfile_loop_unwritable [OF assms, of ops cur in_f fuel] by (auto simp: wp_def split: prod.splits)

end
