(* ===== verification/Kernel_Heap.thy ===== *)
theory Kernel_Heap
  imports Prelude
begin

text \<open>
  The heap of the kernel (\<open>kernel/src/mm/heap\<close>): the page allocator \<open>page.rs\<close>, a list of free stretches of
  pages kept inside them, and the slab allocator \<open>slab.rs\<close> on top of it, which cuts zones of pages into
  chunks of 72 sizes.

  Addresses are natural numbers. The static variables are a record. A linked list is the list of its nodes
  (\<open>Forward_List\<close> relates the two), a \<open>SlabZoneNode\<close> in memory is an entry of \<open>hp_zones\<close> under its address,
  and \<open>hp_usage\<close> is the array \<open>PAGE_USAGE_ARRAY\<close>; the number of pages of a large allocation is kept there as a \<open>u32\<close>. The size of a \<open>SlabZoneNode\<close> is chosen by the compiler and a
  parameter of \<open>heap_init\<close>.
\<close>

section \<open>Pages\<close>

definition HPAGE_SIZE :: nat where
  "HPAGE_SIZE = 4096"

text \<open>The macros \<open>round_up!\<close> and \<open>round_down!\<close>, whose second argument is a power of two here.  \<open>round_up!\<close> adds its
  arguments first, and the sum of two \<open>usize\<close> panics when it overflows.\<close>

definition hround_down :: "nat \<Rightarrow> nat \<Rightarrow> nat" where
  "hround_down x b = x div b * b"

definition hround_up :: "nat \<Rightarrow> nat \<Rightarrow> nat res" where
  "hround_up x b = rbind (rguard (x + b < 2 ^ 64) (Panic Overflow)) (\<lambda>_. Inr ((x + b - 1) div b * b))"

type_synonym free_list = "(nat \<times> nat) list"

text \<open>The address behind a stretch; pointer arithmetic wraps.\<close>

definition get_right_ptr :: "nat \<Rightarrow> nat \<Rightarrow> nat" where
  "get_right_ptr a n = (a + n * HPAGE_SIZE) mod 2 ^ 64"

text \<open>\<open>page_free\<close> compares the end of the freed stretch \<open>cur\<close> before it has written its length: \<open>stale\<close> is what the
  memory holds there. When the list ends before a place is found, nothing is inserted.\<close>

fun page_free :: "nat \<Rightarrow> nat \<Rightarrow> nat \<Rightarrow> free_list \<Rightarrow> free_list" where
  "page_free cur npages stale [] = []"
| "page_free cur npages stale ((a, n) # fs) =
     (if get_right_ptr a n = cur then
        (case fs of
           (b, m) # gs \<Rightarrow>
             if get_right_ptr a (n + npages) = b then (a, n + npages + m) # gs else (a, n + npages) # fs
         | [] \<Rightarrow> [(a, n + npages)])
      else if get_right_ptr cur stale = a then (cur, n + npages) # fs
      else if get_right_ptr cur stale < a then (cur, npages) # (a, n) # fs
      else (a, n) # page_free cur npages stale fs)"

fun page_alloc_loop :: "nat \<Rightarrow> free_list \<Rightarrow> nat \<times> free_list" where
  "page_alloc_loop npages [] = (0, [])"
| "page_alloc_loop npages ((a, n) # fs) =
     (if n > npages then (a, (a + npages * HPAGE_SIZE, n - npages) # fs)
      else if n = npages then (a, fs)
      else case page_alloc_loop npages fs of (r, gs) \<Rightarrow> (r, (a, n) # gs))"

definition page_alloc :: "nat \<Rightarrow> free_list \<Rightarrow> nat \<times> free_list" where
  "page_alloc npages fl = (if npages = 0 then (0, fl) else page_alloc_loop npages fl)"

definition page_init :: "nat \<Rightarrow> nat \<Rightarrow> free_list" where
  "page_init addr npages = [(addr, npages)]"

section \<open>Slabs\<close>

record slab_zone =
  z_magic :: nat
  z_nfree :: nat
  z_nmax :: nat
  z_uindex :: nat
  z_baseptr :: nat
  z_zoneindex :: nat
  z_freechunk :: "nat list"

datatype page_usage = UFree | UZone nat | UPage nat

record slab_heap =
  hp_free_pages :: free_list
  hp_usage :: "nat \<Rightarrow> page_usage"
  hp_start :: nat
  hp_end :: nat
  hp_zones :: "nat \<Rightarrow> slab_zone option"
  hp_zone_array :: "nat list list"
  hp_zone_free :: "nat list"
  hp_zone_free_cnt :: nat
  hp_chunk_limit :: nat
  hp_zone_size :: nat
  hp_zone_page_cnt :: nat
  hp_node_size :: nat

definition NZONES :: nat where "NZONES = 72"
definition ZONE_FREE_CNT_LIMIT :: nat where "ZONE_FREE_CNT_LIMIT = 4"
definition ZALLOC_SLAB_MAGIC :: nat where "ZALLOC_SLAB_MAGIC = 0x51ab51ab"
definition SIZE_OF_PAGE_USAGE :: nat where "SIZE_OF_PAGE_USAGE = 16"

definition btokup :: "slab_heap \<Rightarrow> nat \<Rightarrow> nat" where
  "btokup s addr = (addr - hp_start s) div 4096"

function zone_size_loop :: "nat \<Rightarrow> nat \<Rightarrow> nat" where
  "zone_size_loop limsize zs =
     (if 0 < zs \<and> zs < 128 * 1024 \<and> zs * 2 < limsize div 1024 then zone_size_loop limsize (zs * 2) else zs)"
  by pat_completeness auto
termination
  by (relation "measure (\<lambda>(l, zs). 128 * 1024 - zs)") auto

declare zone_size_loop.simps [simp del]

definition heap_init :: "nat \<Rightarrow> nat \<Rightarrow> nat \<Rightarrow> slab_heap res" where
  "heap_init node_size start end =
     rbind (hround_up start HPAGE_SIZE) (\<lambda>hs.
      let he = hround_down end HPAGE_SIZE in
      rbind (rguard (hs < he) (Panic Assertion)) (\<lambda>_.
      let limsize = he - hs; npages = limsize div HPAGE_SIZE;
          zone_size = zone_size_loop limsize (32 * 1024)
      in rbind (hround_up (npages * SIZE_OF_PAGE_USAGE) HPAGE_SIZE) (\<lambda>usage_size.
         let (usage, fl) = page_alloc (usage_size div HPAGE_SIZE) (page_init hs npages)
         in Inr \<lparr>hp_free_pages = fl, hp_usage = (\<lambda>_. UFree), hp_start = hs, hp_end = he, hp_zones = (\<lambda>_. None),
              hp_zone_array = replicate NZONES [], hp_zone_free = [], hp_zone_free_cnt = 0,
              hp_chunk_limit = min (zone_size div 4) (16 * 1024), hp_zone_size = zone_size,
              hp_zone_page_cnt = zone_size div HPAGE_SIZE, hp_node_size = node_size\<rparr>)))"

text \<open>The number of bits of a number: 64 minus its leading zeros.\<close>

fun bit_length :: "nat \<Rightarrow> nat" where
  "bit_length n = (if n = 0 then 0 else Suc (bit_length (n div 2)))"

declare bit_length.simps [simp del]

text \<open>\<open>zone_index\<close> returns the index and, through its pointer, the rounded size.\<close>

definition zone_index :: "nat \<Rightarrow> (nat \<times> nat) res" where
  "zone_index bytes =
     (let i = max 7 (bit_length bytes) - 1 - 3
      in rbind (hround_up bytes (2 ^ i)) (\<lambda>n. Inr (n div 2 ^ i + 8 * (i - 3) - 1, n)))"

definition hget :: "(slab_heap \<Rightarrow> 'a) \<Rightarrow> (slab_heap, 'a) st" where
  "hget f s = (Inr (f s), s)"

definition hupd :: "(slab_heap \<Rightarrow> slab_heap) \<Rightarrow> (slab_heap, unit) st" where
  "hupd f s = (Inr (), f s)"

definition heap_page_alloc :: "nat \<Rightarrow> (slab_heap, nat) st" where
  "heap_page_alloc npages s =
     (case page_alloc npages (hp_free_pages s) of (p, fl) \<Rightarrow> (Inr p, s\<lparr>hp_free_pages := fl\<rparr>))"

definition set_zone :: "nat \<Rightarrow> slab_zone \<Rightarrow> slab_heap \<Rightarrow> slab_heap" where
  "set_zone a z s = s\<lparr>hp_zones := (hp_zones s)(a := Some z)\<rparr>"

text \<open>A chunk from a zone with a free one. The lists of \<open>ZONE_ARRAY\<close> are indexed by \<open>zi\<close>.\<close>

definition alloc_from_zone :: "nat \<Rightarrow> nat \<Rightarrow> nat \<Rightarrow> (slab_heap, nat) st" where
  "alloc_from_zone zi sz zn =
     sbind (hget (\<lambda>s. hp_zones s zn)) (\<lambda>z.
     sbind (slift (runwrap z)) (\<lambda>z.
     sbind (slift (rguard (z_nfree z > 0) (Panic Overflow))) (\<lambda>_.
     let z = z\<lparr>z_nfree := z_nfree z - 1\<rparr> in
     sbind (if z_nfree z = 0 then hupd (\<lambda>s. s\<lparr>hp_zone_array := (hp_zone_array s)[zi := tl (hp_zone_array s ! zi)]\<rparr>)
            else sret ()) (\<lambda>_.
     if z_uindex z \<noteq> z_nmax z then
       sbind (hupd (set_zone zn (z\<lparr>z_uindex := z_uindex z + 1\<rparr>))) (\<lambda>_.
       sret (z_baseptr z + z_uindex z * sz))
     else
       (case z_freechunk z of
          [] \<Rightarrow> sfail (Panic UnwrapNone)
        | c # cs \<Rightarrow> sbind (hupd (set_zone zn (z\<lparr>z_freechunk := cs\<rparr>))) (\<lambda>_. sret c))))))"

text \<open>A zone to cut: a spare one or new pages; 0 when there are none.\<close>

definition get_zone :: "(slab_heap, nat) st" where
  "get_zone =
     sbind (hget hp_zone_free) (\<lambda>zf. case zf of
       zn # rest \<Rightarrow>
         sbind (hget hp_zone_free_cnt) (\<lambda>c.
         sbind (slift (rguard (c > 0) (Panic Overflow))) (\<lambda>_.
         sbind (hupd (\<lambda>s. s\<lparr>hp_zone_free := rest, hp_zone_free_cnt := c - 1\<rparr>)) (\<lambda>_. sret zn)))
     | [] \<Rightarrow>
         sbind (hget (\<lambda>s. hp_zone_size s div HPAGE_SIZE)) (\<lambda>np.
         sbind (heap_page_alloc np) (\<lambda>zn.
         if zn = 0 then sret 0
         else
           sbind (hupd (\<lambda>s. s\<lparr>hp_usage := (\<lambda>i. if btokup s zn \<le> i \<and> i < btokup s zn + hp_zone_page_cnt s
                                              then UZone (i - btokup s zn) else hp_usage s i)\<rparr>)) (\<lambda>_. sret zn))))"

definition first_chunk_offset :: "nat \<Rightarrow> nat \<Rightarrow> nat res" where
  "first_chunk_offset node_size sz =
     (if (sz OR (sz - 1)) + 1 = sz * 2 then hround_up node_size sz else hround_up node_size 8)"

definition init_zone :: "nat \<Rightarrow> nat \<Rightarrow> nat \<Rightarrow> (slab_heap, nat) st" where
  "init_zone zi sz zn =
     sbind (hget (\<lambda>s. (hp_zone_size s, hp_node_size s))) (\<lambda>(zs, node_size).
     sbind (slift (first_chunk_offset node_size sz)) (\<lambda>off.
     sbind (slift (rguard (off \<le> zs) (Panic Overflow))) (\<lambda>_.
     let nmax = (zs - off) div sz in
     sbind (slift (rguard (nmax > 0) (Panic Overflow))) (\<lambda>_.
     sbind (hupd (\<lambda>s. (set_zone zn
          \<lparr>z_magic = ZALLOC_SLAB_MAGIC, z_nfree = nmax - 1, z_nmax = nmax, z_uindex = 1, z_baseptr = zn + off,
           z_zoneindex = zi, z_freechunk = []\<rparr> s)\<lparr>hp_zone_array := (hp_zone_array s)[zi := [zn]]\<rparr>)) (\<lambda>_.
     sret (zn + off))))))"

definition heap_malloc :: "nat \<Rightarrow> (slab_heap, nat) st" where
  "heap_malloc sz =
     (if sz = 0 then sret 0
      else
        sbind (hget hp_chunk_limit) (\<lambda>limit.
        if sz > limit then
          sbind (slift (hround_up sz HPAGE_SIZE)) (\<lambda>bytes.
           let npages = bytes div HPAGE_SIZE in
           sbind (heap_page_alloc npages) (\<lambda>chunk.
           if chunk = 0 then sret 0
           else
             sbind (hupd (\<lambda>s. s\<lparr>hp_usage := (hp_usage s)(btokup s chunk := UPage (npages mod 2 ^ 32))\<rparr>)) (\<lambda>_. sret chunk)))
        else
          sbind (slift (zone_index sz)) (\<lambda>(zi, sz).
           sbind (slift (rguard (zi < NZONES) (Panic Assertion))) (\<lambda>_.
           sbind (hget (\<lambda>s. hp_zone_array s ! zi)) (\<lambda>l. case l of
             zn # _ \<Rightarrow> alloc_from_zone zi sz zn
           | [] \<Rightarrow>
               sbind get_zone (\<lambda>zn.
               if zn = 0 then sret 0 else init_zone zi sz zn))))))"

text \<open>\<open>dealloc\<close>. A zone all of whose chunks are free again is put aside or given back when its list has
  another zone.\<close>

definition release_zone :: "nat \<Rightarrow> nat \<Rightarrow> slab_zone \<Rightarrow> (slab_heap, unit) st" where
  "release_zone stale zn z =
     sbind (hupd (\<lambda>s. (set_zone zn (z\<lparr>z_magic := 0\<rparr>) s)
        \<lparr>hp_zone_array := (hp_zone_array s)[z_zoneindex z := remove1 zn (hp_zone_array s ! z_zoneindex z)]\<rparr>)) (\<lambda>_.
     sbind (hget hp_zone_free_cnt) (\<lambda>c.
     if c < ZONE_FREE_CNT_LIMIT then
       hupd (\<lambda>s. s\<lparr>hp_zone_free := zn # hp_zone_free s, hp_zone_free_cnt := c + 1\<rparr>)
     else
       hupd (\<lambda>s. s\<lparr>hp_usage := (\<lambda>i. if btokup s zn \<le> i \<and> i < btokup s zn + hp_zone_page_cnt s
                                    then UFree else hp_usage s i),
                   hp_zones := (hp_zones s)(zn := None),
                   hp_free_pages := page_free zn (hp_zone_size s div HPAGE_SIZE) stale (hp_free_pages s)\<rparr>)))"

definition free_chunk :: "nat \<Rightarrow> nat \<Rightarrow> nat \<Rightarrow> (slab_heap, unit) st" where
  "free_chunk stale chunk zn =
     sbind (hget (\<lambda>s. hp_zones s zn)) (\<lambda>z.
     sbind (slift (runwrap z)) (\<lambda>z.
     sbind (slift (rguard (z_magic z = ZALLOC_SLAB_MAGIC) (Panic Assertion))) (\<lambda>_.
     let z = z\<lparr>z_freechunk := chunk # z_freechunk z, z_nfree := z_nfree z + 1\<rparr>; zi = z_zoneindex z in
     sbind (hupd (set_zone zn z)) (\<lambda>_.
     if z_nfree z = 1 then
       hupd (\<lambda>s. s\<lparr>hp_zone_array := (hp_zone_array s)[zi := zn # hp_zone_array s ! zi]\<rparr>)
     else
       sbind (hget (\<lambda>s. hp_zone_array s ! zi)) (\<lambda>l.
       if z_nfree z = z_nmax z \<and> (last l \<noteq> zn \<or> hd l \<noteq> zn) then release_zone stale zn z else sret ())))))"

definition heap_free :: "nat \<Rightarrow> nat \<Rightarrow> (slab_heap, unit) st" where
  "heap_free stale chunk =
     (if chunk = 0 then sret ()
      else
        sbind (hget (\<lambda>s. hp_usage s (btokup s chunk))) (\<lambda>u. case u of
          UFree \<Rightarrow> sfail (Panic Explicit)
        | UZone off \<Rightarrow> free_chunk stale chunk (hround_down chunk HPAGE_SIZE - off * HPAGE_SIZE)
        | UPage n \<Rightarrow>
            hupd (\<lambda>s. s\<lparr>hp_free_pages := page_free chunk n stale (hp_free_pages s),
                        hp_usage := (hp_usage s)(btokup s chunk := UFree)\<rparr>)))"

text \<open>\<open>GlobalAlloc\<close> for a layout.\<close>

definition heap_alloc :: "nat \<Rightarrow> nat \<Rightarrow> (slab_heap, nat) st" where
  "heap_alloc sz align = heap_malloc (max sz align)"

definition heap_dealloc :: "nat \<Rightarrow> nat \<Rightarrow> (slab_heap, unit) st" where
  "heap_dealloc = heap_free"

end
