(* ===== verification/Kernel_Heap_Pages.thy ===== *)
theory Kernel_Heap_Pages
  imports Kernel_Heap
begin

text \<open>
  The page allocator of the kernel heap and the size classes of its slabs. Allocating takes a stretch of pages out of the
  free list, freeing puts it back, provided the word \<open>page_free\<close> reads too early does not happen to lead to a free
  stretch; the rounded size of a request depends on the index of its class alone.
\<close>

section \<open>Stretches of pages\<close>

definition span :: "nat \<times> nat \<Rightarrow> nat set" where
  "span = (\<lambda>(a, n). {a..<a + n * HPAGE_SIZE})"

definition disj :: "nat \<times> nat \<Rightarrow> nat \<times> nat \<Rightarrow> bool" where
  "disj x y \<longleftrightarrow> span x \<inter> span y = {}"

definition fl_cover :: "free_list \<Rightarrow> nat set" where
  "fl_cover fl = \<Union> (span ` set fl)"

lemma span_simp [simp]: "span (a, n) = {a..<a + n * HPAGE_SIZE}"
  by (simp add: span_def)

lemma fl_cover_simps [simp]:
  "fl_cover [] = {}" "fl_cover (x # xs) = span x \<union> fl_cover xs"
  by (simp_all add: fl_cover_def)

lemma disj_sym: "disj x y \<Longrightarrow> disj y x"
  by (auto simp: disj_def)

lemma HPAGE_pos [simp]: "0 < HPAGE_SIZE"
  by (simp add: HPAGE_SIZE_def)

text \<open>A list of free stretches of a heap that ends before \<open>e\<close>.\<close>

definition fl_ok :: "nat \<Rightarrow> nat \<Rightarrow> free_list \<Rightarrow> bool" where
  "fl_ok b e fl \<longleftrightarrow> sorted_wrt disj fl \<and>
     (\<forall>(a, n) \<in> set fl. 0 < n \<and> HPAGE_SIZE dvd a \<and> b \<le> a \<and> a + n * HPAGE_SIZE \<le> e)"

lemma fl_ok_Cons:
  "fl_ok b e ((a, n) # fl) \<longleftrightarrow> fl_ok b e fl \<and> span (a, n) \<inter> fl_cover fl = {} \<and>
     0 < n \<and> HPAGE_SIZE dvd a \<and> b \<le> a \<and> a + n * HPAGE_SIZE \<le> e"
  by (auto simp: fl_ok_def disj_def fl_cover_def)

lemma fl_ok_Nil [simp]: "fl_ok b e []"
  by (simp add: fl_ok_def)

lemma span_split: "m \<le> n \<Longrightarrow> {a..<a + n * HPAGE_SIZE} = {a..<a + m * HPAGE_SIZE} \<union> {a + m * HPAGE_SIZE..<a + m * HPAGE_SIZE + (n - m) * HPAGE_SIZE}"
proof -
  assume "m \<le> n"
  then have "n * HPAGE_SIZE = m * HPAGE_SIZE + (n - m) * HPAGE_SIZE" by (metis add_mult_distrib le_add_diff_inverse)
  then show ?thesis by auto
qed

text \<open>Allocating pages takes them out of the list.\<close>

lemma page_alloc_loop_ok:
  assumes "fl_ok b e fl" "0 < np" "page_alloc_loop np fl = (p, fl')" "0 < b"
  shows "fl_ok b e fl' \<and> (p = 0 \<longrightarrow> fl' = fl) \<and>
    (p \<noteq> 0 \<longrightarrow> HPAGE_SIZE dvd p \<and> b \<le> p \<and> p + np * HPAGE_SIZE \<le> e \<and> span (p, np) \<subseteq> fl_cover fl \<and>
       fl_cover fl' = fl_cover fl - span (p, np))"
  using assms
proof (induction fl arbitrary: p fl')
  case (Cons x fs)
  obtain a n where x: "x = (a, n)" by (cases x)
  have ok: "fl_ok b e fs" "span (a, n) \<inter> fl_cover fs = {}" "0 < n" "HPAGE_SIZE dvd a" "b \<le> a" "a + n * HPAGE_SIZE \<le> e"
    using Cons.prems(1) unfolding x fl_ok_Cons by auto
  consider (more) "n > np" | (same) "n = np" | (less) "n < np" by linarith
  then show ?case
  proof cases
    case more
    then have r: "p = a" "fl' = (a + np * HPAGE_SIZE, n - np) # fs" using Cons.prems(3) x by auto
    have s: "span (a, n) = span (a, np) \<union> span (a + np * HPAGE_SIZE, n - np)"
      using span_split [of np n a] more by simp
    have d: "span (a, np) \<inter> span (a + np * HPAGE_SIZE, n - np) = {}" by auto
    have "a + np * HPAGE_SIZE + (n - np) * HPAGE_SIZE = a + n * HPAGE_SIZE"
      using more by (metis add.assoc add_mult_distrib le_add_diff_inverse less_imp_le)
    moreover have "np * HPAGE_SIZE \<le> n * HPAGE_SIZE" using more by (intro mult_le_mono1) simp
    ultimately show ?thesis using ok s d more Cons.prems(4) unfolding r x fl_ok_Cons
      by (simp del: span_simp) blast
  next
    case same
    then have r: "p = a" "fl' = fs" using Cons.prems(3) x by auto
    show ?thesis using ok same Cons.prems(4) unfolding r x by (simp del: span_simp) blast
  next
    case less
    obtain gs where r: "page_alloc_loop np fs = (p, gs)" "fl' = (a, n) # gs"
      using Cons.prems(3) less x by (auto split: prod.splits)
    note IH = Cons.IH [OF ok(1) Cons.prems(2) r(1) Cons.prems(4)]
    have "fl_cover gs \<subseteq> fl_cover fs" using IH by (cases "p = 0") auto
    then have "fl_ok b e fl'" using IH ok unfolding r fl_ok_Cons by (simp del: span_simp) blast
    moreover have "fl_cover fl' = fl_cover (x # fs) - span (p, np) \<and> span (p, np) \<subseteq> fl_cover (x # fs)" if "p \<noteq> 0"
      using IH ok(2) that unfolding r x by (simp del: span_simp) blast
    ultimately show ?thesis using IH r x by auto
  qed
qed simp

lemma page_alloc_ok:
  assumes "fl_ok b e fl" "page_alloc np fl = (p, fl')" "0 < b"
  shows "fl_ok b e fl'" "p = 0 \<Longrightarrow> fl' = fl"
    and "p \<noteq> 0 \<Longrightarrow> HPAGE_SIZE dvd p \<and> b \<le> p \<and> p + np * HPAGE_SIZE \<le> e \<and> 0 < np \<and> span (p, np) \<subseteq> fl_cover fl \<and>
       fl_cover fl' = fl_cover fl - span (p, np)"
  using page_alloc_loop_ok [OF assms(1) _ _ assms(3), of np p fl'] assms
  by (auto simp: page_alloc_def split: if_splits)


text \<open>Freeing pages puts them back, or loses them, provided the length read too early does not lead to a free
  stretch that is not the neighbour.\<close>

definition stale_ok :: "free_list \<Rightarrow> nat \<Rightarrow> nat \<Rightarrow> nat \<Rightarrow> bool" where
  "stale_ok fl cur np stale \<longleftrightarrow> (\<forall>(a, n) \<in> set fl. get_right_ptr cur stale = a \<longrightarrow> a = cur + np * HPAGE_SIZE)"

lemma get_right_ptr_inside: "a + n * HPAGE_SIZE \<le> e \<Longrightarrow> e < 2 ^ 64 \<Longrightarrow> get_right_ptr a n = a + n * HPAGE_SIZE"
  by (simp add: get_right_ptr_def)

lemma span_append: "span (a, n) \<union> span (a + n * HPAGE_SIZE, m) = span (a, n + m)"
  by (auto simp: add_mult_distrib)

lemma span_nonempty: "0 < n \<Longrightarrow> a \<in> span (a, n)"
  by simp

lemma page_free_ok:
  assumes "fl_ok b e fl" "fl_ok b e [(cur, np)]" "span (cur, np) \<inter> fl_cover fl = {}" "e < 2 ^ 64"
    and "stale_ok fl cur np stale"
  shows "fl_ok b e (page_free cur np stale fl) \<and>
    fl_cover (page_free cur np stale fl) \<subseteq> fl_cover fl \<union> span (cur, np)"
  using assms
proof (induction fl)
  case (Cons x fs)
  obtain a n where x: "x = (a, n)" by (cases x)
  have ok: "fl_ok b e fs" "span (a, n) \<inter> fl_cover fs = {}" "0 < n" "HPAGE_SIZE dvd a" "b \<le> a" "a + n * HPAGE_SIZE \<le> e"
    using Cons.prems(1) unfolding x fl_ok_Cons by auto
  have c: "0 < np" "HPAGE_SIZE dvd cur" "b \<le> cur" "cur + np * HPAGE_SIZE \<le> e" using Cons.prems(2) by (auto simp: fl_ok_Cons)
  have dis: "span (cur, np) \<inter> span (a, n) = {}" "span (cur, np) \<inter> fl_cover fs = {}"
    using Cons.prems(3) unfolding x by (simp_all del: span_simp) blast+
  have st: "stale_ok fs cur np stale" "get_right_ptr cur stale = a \<Longrightarrow> a = cur + np * HPAGE_SIZE"
    using Cons.prems(5) unfolding x by (auto simp: stale_ok_def)
  note IH = Cons.IH [OF ok(1) Cons.prems(2) dis(2) Cons.prems(4) st(1)]
  consider (left) "get_right_ptr a n = cur"
    | (right) "get_right_ptr a n \<noteq> cur" "get_right_ptr cur stale = a"
    | (ins) "get_right_ptr a n \<noteq> cur" "get_right_ptr cur stale \<noteq> a" "get_right_ptr cur stale < a"
    | (next_one) "get_right_ptr a n \<noteq> cur" "get_right_ptr cur stale \<noteq> a" "\<not> get_right_ptr cur stale < a" by blast
  then show ?case
  proof cases
    case left
    then have cur: "cur = a + n * HPAGE_SIZE" using get_right_ptr_inside [OF ok(6) Cons.prems(4)] by simp
    have j: "span (a, n) \<union> span (cur, np) = span (a, n + np)" using span_append [of a n np] cur by simp
    have e: "a + (n + np) * HPAGE_SIZE \<le> e" using c(4) cur by (simp add: add_mult_distrib)
    note r = get_right_ptr_inside [OF e Cons.prems(4)]
    show ?thesis
    proof (cases "\<exists>b' m gs. fs = (b', m) # gs \<and> a + (n + np) * HPAGE_SIZE = b'")
      case True
      then obtain m gs where fs: "fs = (a + (n + np) * HPAGE_SIZE, m) # gs" by blast
      have res: "page_free cur np stale (x # fs) = (a, n + np + m) # gs" using left r x fs by simp
      have j2: "span (a, n + np) \<union> span (a + (n + np) * HPAGE_SIZE, m) = span (a, n + np + m)" by (rule span_append)
      have g: "fl_ok b e gs" "span (a + (n + np) * HPAGE_SIZE, m) \<inter> fl_cover gs = {}" "a + (n + np + m) * HPAGE_SIZE \<le> e"
        using ok(1) unfolding fs by (simp_all add: fl_ok_Cons add_mult_distrib)
      have u: "span (a, n + np + m) = span (a, n) \<union> span (cur, np) \<union> span (a + (n + np) * HPAGE_SIZE, m)"
        unfolding j j2 ..
      have "fl_cover gs \<subseteq> fl_cover fs" unfolding fs by auto
      then have "span (a, n + np + m) \<inter> fl_cover gs = {}" using ok(2) dis(2) g(2) unfolding u by blast
      then have "fl_ok b e ((a, n + np + m) # gs)" using g ok unfolding fl_ok_Cons by simp
      moreover have "fl_cover ((a, n + np + m) # gs) = fl_cover (x # fs) \<union> span (cur, np)"
        unfolding fl_cover_simps(2) u x fs by blast
      ultimately show ?thesis unfolding res by simp
    next
      case False
      then have "page_free cur np stale (x # fs) = (a, n + np) # fs"
        using left r x by (cases fs) auto
      then show ?thesis using ok dis j e unfolding x
        by (simp add: fl_ok_Cons del: span_simp) blast
    qed
  next
    case right
    have j: "span (cur, np) \<union> span (a, n) = span (cur, np + n)" using span_append [of cur np n] st(2) [OF right(2)] by simp
    have "cur + (np + n) * HPAGE_SIZE \<le> e" using ok(6) st(2) [OF right(2)] by (simp add: add_mult_distrib)
    moreover have "page_free cur np stale (x # fs) = (cur, np + n) # fs" using right x by simp
    ultimately show ?thesis using ok c dis j unfolding x
      by (simp add: fl_ok_Cons del: span_simp) blast
  next
    case ins
    then have "page_free cur np stale (x # fs) = (cur, np) # x # fs" using x by simp
    then show ?thesis using ok c dis unfolding x by (simp add: fl_ok_Cons del: span_simp) blast
  next
    case next_one
    then have "page_free cur np stale (x # fs) = x # page_free cur np stale fs" using x by simp
    then show ?thesis using ok dis IH unfolding x by (simp add: fl_ok_Cons del: span_simp) blast
  qed
qed simp

section \<open>Sizes of chunks\<close>

lemma bit_length_bounds: "n < 2 ^ bit_length n \<and> (0 < n \<longrightarrow> 2 ^ (bit_length n - 1) \<le> n)"
proof (induction n rule: bit_length.induct)
  case (1 n)
  show ?case
  proof (cases "n < 2")
    case True
    then show ?thesis by (cases n) (auto simp: bit_length.simps [of 0] bit_length.simps [of "Suc 0"])
  next
    case False
    then have b: "bit_length n = Suc (bit_length (n div 2))" "0 < n div 2" "n \<noteq> 0" by (auto simp: bit_length.simps [of n])
    have IH: "n div 2 < 2 ^ bit_length (n div 2)" "2 ^ (bit_length (n div 2) - 1) \<le> n div 2" using 1 b by auto
    have "bit_length (n div 2) = Suc (bit_length (n div 2) - 1)" using b(2) by (simp add: bit_length.simps [of "n div 2"])
    then have "(2::nat) ^ bit_length (n div 2) = 2 * 2 ^ (bit_length (n div 2) - 1)" by (metis power_Suc)
    moreover have "2 * (n div 2) \<le> n" "n < 2 * (n div 2) + 2" by linarith+
    ultimately show ?thesis using IH unfolding b(1) by (simp del: mult_Suc) linarith
  qed
qed

definition chunk_size :: "nat \<Rightarrow> nat" where
  "chunk_size zi = (let k = (zi + 1) div 8; m = (zi + 1) mod 8 in if k = 0 then 8 * m else (8 + m) * 2 ^ (k + 2))"

text \<open>The value of \<open>round_up!\<close>, the place \<open>zone_index\<close> computes with it, and when the sum does not overflow.\<close>

definition round_up_nat :: "nat \<Rightarrow> nat \<Rightarrow> nat" where
  "round_up_nat x b = (x + b - 1) div b * b"

definition zone_place :: "nat \<Rightarrow> nat \<times> nat" where
  "zone_place n = (let i = max 7 (bit_length n) - 1 - 3; m = round_up_nat n (2 ^ i) in (m div 2 ^ i + 8 * (i - 3) - 1, m))"

lemma hround_up_run: "hround_up x b = (if x + b < 2 ^ 64 then Inr (round_up_nat x b) else Inl (Panic Overflow))"
  by (simp add: hround_up_def round_up_nat_def)

lemma round_up_nat_bounds: "0 < b \<Longrightarrow> x \<le> round_up_nat x b \<and> round_up_nat x b < x + b"
proof -
  assume "0 < b"
  then have "(x + b - 1) div b * b + (x + b - 1) mod b = x + b - 1" "(x + b - 1) mod b < b" by simp_all
  then show ?thesis using \<open>0 < b\<close> unfolding round_up_nat_def by linarith
qed


lemma round_up_nat_least: "0 < b \<Longrightarrow> x \<le> q * b \<Longrightarrow> round_up_nat x b \<le> q * b"
proof -
  assume "0 < b" "x \<le> q * b"
  then have "(x + b - 1) div b < q + 1" by (intro less_mult_imp_div_less) (simp add: add_mult_distrib)
  then show ?thesis unfolding round_up_nat_def by (intro mult_le_mono1) simp
qed

lemma chunk_size_eq:
  assumes "3 \<le> i" "q \<le> 16" "8 \<le> q \<or> i = 3 \<and> 0 < q"
  shows "chunk_size (q + 8 * (i - 3) - 1) = q * 2 ^ i"
proof -
  have zi: "q + 8 * (i - 3) - 1 + 1 = q + 8 * (i - 3)" using assms by auto
  consider (small) "q < 8" "i = 3" | (mid) "8 \<le> q" "q < 16" | (top) "q = 16" using assms by linarith
  then show ?thesis
  proof cases
    case mid
    then have "(q + 8 * (i - 3)) div 8 = i - 2" "(q + 8 * (i - 3)) mod 8 = q - 8" using assms(1) by (linarith, presburger)
    moreover obtain j where "i = j + 3" using assms(1) by (metis le_add_diff_inverse2)
    ultimately show ?thesis unfolding chunk_size_def zi using mid by (simp add: Let_def power_add)
  next
    case top
    then have "(q + 8 * (i - 3)) div 8 = i - 1" "(q + 8 * (i - 3)) mod 8 = 0" using assms(1) by (linarith, simp)
    moreover obtain j where "i = j + 3" using assms(1) by (metis le_add_diff_inverse2)
    ultimately show ?thesis unfolding chunk_size_def zi using top by (simp add: Let_def power_add)
  next
    case small
    then show ?thesis unfolding chunk_size_def zi using assms(3) by (simp add: Let_def)
  qed
qed

text \<open>The size classes: the rounded size depends on the index alone, there are 72 of them, and rounding does not
  exceed a limit that is a power of two.\<close>

lemma zone_place_ok:
  assumes "0 < n" "n \<le> 2 ^ k" "k \<le> 14" "3 \<le> k" "zone_place n = (zi, sz)"
  shows "zi < NZONES \<and> n \<le> sz \<and> sz \<le> 2 ^ k \<and> sz = chunk_size zi"
proof -
  define i where "i = max 7 (bit_length n) - 4"
  have i3: "3 \<le> i" by (simp add: i_def)
  have ii: "max 7 (bit_length n) - 1 - 3 = i" by (simp add: i_def)
  define q where "q = round_up_nat n (2 ^ i) div 2 ^ i"
  have q: "round_up_nat n (2 ^ i) = q * 2 ^ i" by (simp add: q_def round_up_nat_def)
  have r: "zi = q + 8 * (i - 3) - 1" "sz = q * 2 ^ i" using assms(5) q unfolding zone_place_def ii q_def by (auto simp: Let_def)
  have bl: "n < 2 ^ bit_length n" "2 ^ (bit_length n - 1) \<le> n" using bit_length_bounds [of n] assms(1) by auto
  have up: "n \<le> sz" using round_up_nat_bounds [of "2 ^ i" n] q r by simp
  have "n \<le> 2 ^ (i + 4)"
  proof -
    have "bit_length n \<le> i + 4" by (simp add: i_def)
    then have "(2::nat) ^ bit_length n \<le> 2 ^ (i + 4)" by (intro power_increasing) auto
    then show ?thesis using bl(1) by linarith
  qed
  then have "sz \<le> 16 * 2 ^ i" using round_up_nat_least [of "2 ^ i" n 16] q r by (simp add: power_add)
  then have q16: "q \<le> 16" using r by simp
  have lo: "8 \<le> q \<or> i = 3 \<and> 0 < q"
  proof (cases "i = 3")
    case True
    then show ?thesis using up assms(1) r by (cases q) auto
  next
    case False
    then have "bit_length n - 1 = i + 3" by (auto simp: i_def max_def split: if_splits)
    then have "2 ^ i * 8 \<le> n" using bl(2) by (simp add: power_add)
    then have "8 * 2 ^ i \<le> q * 2 ^ i" using up r by linarith
    then show ?thesis by simp
  qed
  have lim: "sz \<le> 2 ^ k \<and> (i < k - 3 \<or> i = k - 3 \<and> q \<le> 8 \<or> i = 3)"
  proof (cases "i + 4 \<le> k")
    case True
    then have "(2::nat) ^ (i + 4) \<le> 2 ^ k" by (intro power_increasing) auto
    moreover have "i < k - 3" using True by linarith
    ultimately show ?thesis using \<open>sz \<le> 16 * 2 ^ i\<close> by (simp add: power_add)
  next
    case False
    show ?thesis
    proof (cases "i = 3")
      case True
      have k: "(2::nat) ^ k = 2 ^ (k - 3) * 2 ^ i" using True assms(4) by (metis le_add_diff_inverse2 power_add)
      then have "round_up_nat n (2 ^ i) \<le> 2 ^ (k - 3) * 2 ^ i"
        using assms(2) by (intro round_up_nat_least) simp_all
      then show ?thesis using True q r k by simp
    next
      case False
      then have b: "bit_length n = i + 4" by (auto simp: i_def max_def split: if_splits)
      then have "bit_length n - 1 = i + 3" by simp
      then have "(2::nat) ^ (i + 3) \<le> 2 ^ k" using bl(2) assms(2) by (metis order_trans)
      then have "i + 3 \<le> k" using power_le_imp_le_exp [of 2 "i + 3" k] by simp
      then have k: "k = i + 3" using \<open>\<not> i + 4 \<le> k\<close> by simp
      then have "round_up_nat n (2 ^ i) \<le> 8 * 2 ^ i" using assms(2) by (intro round_up_nat_least) (simp_all add: power_add)
      then show ?thesis using q r k by (simp add: power_add)
    qed
  qed
  then have "zi < NZONES" using r(1) q16 assms(3) i3 unfolding NZONES_def by auto
  then show ?thesis using up lim chunk_size_eq [OF i3 q16 lo] r by simp
qed

lemma zone_index_run:
  assumes "0 < n" "n \<le> 2 ^ 14"
  shows "zone_index n = Inr (zone_place n)"
proof -
  have "bit_length n - 1 \<le> 14"
    using bit_length_bounds [of n] assms power_le_imp_le_exp [of "2 :: nat" "bit_length n - 1" 14] by fastforce
  then have "max 7 (bit_length n) - 1 - 3 \<le> 11" by auto
  then have "(2 :: nat) ^ (max 7 (bit_length n) - 1 - 3) \<le> 2 ^ 11" by (intro power_increasing) simp_all
  then have "n + 2 ^ (max 7 (bit_length n) - 1 - 3) \<le> 2 ^ 14 + 2 ^ 11" using assms(2) by (rule add_mono [rotated])
  then have "n + 2 ^ (max 7 (bit_length n) - 1 - 3) < 2 ^ 64" by (rule order.strict_trans1) simp
  then show ?thesis unfolding zone_index_def zone_place_def hround_up_run Let_def by simp
qed

end
