(* ===== verification/Kernel_Heap_Inv.thy ===== *)
theory Kernel_Heap_Inv
  imports Kernel_Heap_Pages
begin

text \<open>
  The invariant of the kernel heap. \<open>heap_live\<close> is the set of the allocations that are out, read off the data structures
  of the allocator; \<open>hwf\<close> is their invariant, under which live allocations do not overlap and lie inside the heap.
  Pages taken for a large allocation or for a zone keep it.
\<close>

section \<open>The invariant\<close>

definition params_wf :: "slab_heap \<Rightarrow> bool" where
  "params_wf s \<longleftrightarrow> HPAGE_SIZE dvd hp_start s \<and> 0 < hp_start s \<and> hp_end s < 2 ^ 64 \<and> hp_end s - hp_start s < 2 ^ 44 \<and>
     hp_zone_size s \<in> {32768, 65536, 131072} \<and> hp_zone_page_cnt s = hp_zone_size s div HPAGE_SIZE \<and>
     hp_chunk_limit s = min (hp_zone_size s div 4) 16384 \<and> 0 < hp_node_size s \<and> hp_node_size s \<le> 4096"

text \<open>The usage of every page: free pages are marked free, the pages of a zone with their offset, the first page of a
  large allocation with its length and the others as free.\<close>

definition free_wf :: "slab_heap \<Rightarrow> bool" where
  "free_wf s \<longleftrightarrow> fl_ok (hp_start s) (hp_end s) (hp_free_pages s) \<and>
     (\<forall>a \<in> fl_cover (hp_free_pages s). hp_usage s (btokup s a) = UFree)"

definition zone_pages_wf :: "slab_heap \<Rightarrow> nat \<Rightarrow> bool" where
  "zone_pages_wf s zn \<longleftrightarrow> fl_ok (hp_start s) (hp_end s) [(zn, hp_zone_page_cnt s)] \<and>
     (\<forall>i < hp_zone_page_cnt s. hp_usage s (btokup s zn + i) = UZone i)"

definition big_wf :: "slab_heap \<Rightarrow> nat \<Rightarrow> nat \<Rightarrow> bool" where
  "big_wf s i n \<longleftrightarrow> fl_ok (hp_start s) (hp_end s) [(hp_start s + i * HPAGE_SIZE, n)] \<and>
     (\<forall>k. 0 < k \<longrightarrow> k < n \<longrightarrow> hp_usage s (i + k) = UFree) \<and>
     span (hp_start s + i * HPAGE_SIZE, n) \<inter> fl_cover (hp_free_pages s) = {}"

text \<open>A zone in use: its chunks, those given out at least once, and those given back.\<close>

definition zone_chunks :: "slab_zone \<Rightarrow> nat set" where
  "zone_chunks z = (\<lambda>k. z_baseptr z + k * chunk_size (z_zoneindex z)) ` {..<z_uindex z}"

definition zone_wf :: "slab_heap \<Rightarrow> nat \<Rightarrow> slab_zone \<Rightarrow> bool" where
  "zone_wf s zn z \<longleftrightarrow> z_magic z = ZALLOC_SLAB_MAGIC \<and> z_zoneindex z < NZONES \<and> 0 < chunk_size (z_zoneindex z) \<and>
     zn < z_baseptr z \<and> z_baseptr z + z_nmax z * chunk_size (z_zoneindex z) \<le> zn + hp_zone_size s \<and>
     2 \<le> z_nmax z \<and> z_uindex z \<le> z_nmax z \<and>
     distinct (z_freechunk z) \<and> set (z_freechunk z) \<subseteq> zone_chunks z \<and>
     z_nfree z = z_nmax z - z_uindex z + length (z_freechunk z)"

definition lists_wf :: "slab_heap \<Rightarrow> bool" where
  "lists_wf s \<longleftrightarrow> length (hp_zone_array s) = NZONES \<and> distinct (hp_zone_free s) \<and>
     hp_zone_free_cnt s = length (hp_zone_free s) \<and> set (hp_zone_free s) \<subseteq> dom (hp_zones s) \<and>
     (\<forall>zi < NZONES. distinct (hp_zone_array s ! zi) \<and> (\<forall>zn \<in> set (hp_zone_array s ! zi).
        zn \<notin> set (hp_zone_free s) \<and> (\<exists>z. hp_zones s zn = Some z \<and> z_zoneindex z = zi \<and> 0 < z_nfree z))) \<and>
     (\<forall>zn z. hp_zones s zn = Some z \<longrightarrow> zn \<notin> set (hp_zone_free s) \<longrightarrow>
        zone_wf s zn z \<and> (0 < z_nfree z \<longrightarrow> zn \<in> set (hp_zone_array s ! z_zoneindex z)))"

definition hwf :: "slab_heap \<Rightarrow> bool" where
  "hwf s \<longleftrightarrow> params_wf s \<and> free_wf s \<and> (\<forall>zn \<in> dom (hp_zones s). zone_pages_wf s zn) \<and>
     (\<forall>i n. hp_usage s i = UPage n \<longrightarrow> big_wf s i n) \<and> lists_wf s"

text \<open>The allocations that are out, as pairs of address and size.\<close>

definition zone_live :: "slab_heap \<Rightarrow> nat \<Rightarrow> (nat \<times> nat) set" where
  "zone_live s zn = (case hp_zones s zn of
     Some z \<Rightarrow> if zn \<in> set (hp_zone_free s) then {}
               else (\<lambda>c. (c, chunk_size (z_zoneindex z))) ` (zone_chunks z - set (z_freechunk z))
   | None \<Rightarrow> {})"

definition big_live :: "slab_heap \<Rightarrow> (nat \<times> nat) set" where
  "big_live s = {(hp_start s + i * HPAGE_SIZE, n * HPAGE_SIZE) | i n. hp_usage s i = UPage n}"

definition heap_live :: "slab_heap \<Rightarrow> (nat \<times> nat) set" where
  "heap_live s = (\<Union>zn. zone_live s zn) \<union> big_live s"

definition bytes :: "nat \<times> nat \<Rightarrow> nat set" where
  "bytes = (\<lambda>(p, len). {p..<p + len})"

lemma bytes_simp [simp]: "bytes (p, len) = {p..<p + len}"
  by (simp add: bytes_def)

section \<open>Allocations do not overlap\<close>

text \<open>An address of a stretch of pages, by the index of its page.\<close>

lemma btokup_page [simp]: "btokup s (hp_start s + i * HPAGE_SIZE) = i"
  by (simp add: btokup_def HPAGE_SIZE_def)

lemma page_of_btokup:
  assumes "HPAGE_SIZE dvd hp_start s" "HPAGE_SIZE dvd p" "hp_start s \<le> p"
  shows "p = hp_start s + btokup s p * HPAGE_SIZE"
  using assms dvd_diff_nat [OF assms(2,1)] by (simp add: btokup_def HPAGE_SIZE_def)

lemma btokup_span:
  assumes "HPAGE_SIZE dvd hp_start s" "HPAGE_SIZE dvd p" "hp_start s \<le> p"
  shows "a \<in> span (p, n) \<longleftrightarrow> hp_start s \<le> a \<and> btokup s p \<le> btokup s a \<and> btokup s a < btokup s p + n"
proof -
  have "hp_start s \<le> a \<Longrightarrow> btokup s a * 4096 + (a - hp_start s) mod 4096 = a - hp_start s"
    "(a - hp_start s) mod 4096 < 4096"
    by (simp_all add: btokup_def)
  moreover have "p = hp_start s + btokup s p * 4096" using page_of_btokup [OF assms] by (simp add: HPAGE_SIZE_def)
  ultimately show ?thesis unfolding span_simp HPAGE_SIZE_def by auto
qed

lemma zone_pageD:
  assumes "params_wf s" "zone_pages_wf s zn" "a \<in> span (zn, hp_zone_page_cnt s)"
  shows "hp_usage s (btokup s a) = UZone (btokup s a - btokup s zn)" "btokup s zn \<le> btokup s a" "hp_start s \<le> a"
    and "btokup s a < btokup s zn + hp_zone_page_cnt s"
proof -
  have z: "HPAGE_SIZE dvd hp_start s" "HPAGE_SIZE dvd zn" "hp_start s \<le> zn"
    using assms(1,2) by (auto simp: params_wf_def zone_pages_wf_def fl_ok_Cons)
  show le: "btokup s zn \<le> btokup s a" and lt: "btokup s a < btokup s zn + hp_zone_page_cnt s" and "hp_start s \<le> a"
    using btokup_span [OF z, of a] assms(3) by blast+
  have "\<forall>i < hp_zone_page_cnt s. hp_usage s (btokup s zn + i) = UZone i" using assms(2) by (simp add: zone_pages_wf_def)
  then have "hp_usage s (btokup s zn + (btokup s a - btokup s zn)) = UZone (btokup s a - btokup s zn)"
    using le lt by (metis less_diff_conv2 add.commute)
  then show "hp_usage s (btokup s a) = UZone (btokup s a - btokup s zn)" using le by simp
qed

lemma zone_pages_disjoint:
  assumes "params_wf s" "zone_pages_wf s zn" "zone_pages_wf s zm" "zn \<noteq> zm"
  shows "span (zn, hp_zone_page_cnt s) \<inter> span (zm, hp_zone_page_cnt s) = {}"
proof -
  have False if "a \<in> span (zn, hp_zone_page_cnt s)" "a \<in> span (zm, hp_zone_page_cnt s)" for a
  proof -
    have "btokup s zn = btokup s zm"
      using zone_pageD [OF assms(1,2) that(1)] zone_pageD [OF assms(1,3) that(2)] by simp
    moreover have "zn = hp_start s + btokup s zn * HPAGE_SIZE" "zm = hp_start s + btokup s zm * HPAGE_SIZE"
      using assms by (intro page_of_btokup; auto simp: params_wf_def zone_pages_wf_def fl_ok_Cons)+
    ultimately show False using assms(4) by simp
  qed
  then show ?thesis by blast
qed

lemma big_wf_inner: "big_wf s i n \<Longrightarrow> i < j \<Longrightarrow> j < i + n \<Longrightarrow> hp_usage s j = UFree"
proof -
  assume "big_wf s i n" "i < j" "j < i + n"
  moreover obtain k where "j = i + k" "0 < k" using \<open>i < j\<close> less_imp_add_positive by metis
  ultimately show ?thesis unfolding big_wf_def by simp
qed

lemma big_pageD:
  assumes "params_wf s" "hp_usage s i = UPage n" "big_wf s i n" "a \<in> span (hp_start s + i * HPAGE_SIZE, n)"
  shows "i \<le> btokup s a" "btokup s a < i + n" "hp_usage s (btokup s a) = (if btokup s a = i then UPage n else UFree)"
proof -
  have z: "HPAGE_SIZE dvd hp_start s" "HPAGE_SIZE dvd hp_start s + i * HPAGE_SIZE" "hp_start s \<le> hp_start s + i * HPAGE_SIZE"
    using assms(1) by (auto simp: params_wf_def)
  show le: "i \<le> btokup s a" and lt: "btokup s a < i + n"
    using btokup_span [OF z, of a n] assms(4) unfolding btokup_page by blast+
  show "hp_usage s (btokup s a) = (if btokup s a = i then UPage n else UFree)"
    using le lt assms(2) big_wf_inner [OF assms(3)] by auto
qed

lemma big_zone_disjoint:
  assumes "params_wf s" "hp_usage s i = UPage n" "big_wf s i n" "zone_pages_wf s zn"
  shows "span (hp_start s + i * HPAGE_SIZE, n) \<inter> span (zn, hp_zone_page_cnt s) = {}"
  using big_pageD(3) [OF assms(1-3)] zone_pageD(1) [OF assms(1,4)]
  by (metis (no_types, lifting) disjoint_iff page_usage.distinct)

lemma big_big_disjoint:
  assumes "params_wf s" "hp_usage s i = UPage n" "big_wf s i n" "hp_usage s j = UPage m" "big_wf s j m" "i \<noteq> j"
  shows "span (hp_start s + i * HPAGE_SIZE, n) \<inter> span (hp_start s + j * HPAGE_SIZE, m) = {}"
proof -
  have False if a: "a \<in> span (hp_start s + i * HPAGE_SIZE, n)" and b: "a \<in> span (hp_start s + j * HPAGE_SIZE, m)" for a
  proof -
    note i = big_pageD [OF assms(1-3) a] and j = big_pageD [OF assms(1,4,5) b]
    consider "i < j" "j < i + n" | "j < i" "i < j + m" using i j assms(6) by linarith
    then show False
      by cases (use big_wf_inner [OF assms(3)] big_wf_inner [OF assms(5)] assms(2,4) in auto)
  qed
  then show ?thesis by blast
qed


lemma hwfD:
  assumes "hwf s"
  shows "params_wf s" "free_wf s" "lists_wf s" "hp_zones s zn = Some z \<Longrightarrow> zone_pages_wf s zn"
    and "hp_usage s i = UPage n \<Longrightarrow> big_wf s i n"
    and "hp_zones s zn = Some z \<Longrightarrow> zn \<notin> set (hp_zone_free s) \<Longrightarrow> zone_wf s zn z"
    and "hp_zones s zn = Some z \<Longrightarrow> zn \<notin> set (hp_zone_free s) \<Longrightarrow> 0 < z_nfree z \<Longrightarrow> zn \<in> set (hp_zone_array s ! z_zoneindex z)"
  using assms by (auto simp: hwf_def lists_wf_def)

lemma zone_live_iff:
  "x \<in> zone_live s zn \<longleftrightarrow> (\<exists>z c. hp_zones s zn = Some z \<and> zn \<notin> set (hp_zone_free s) \<and> c \<in> zone_chunks z \<and>
     c \<notin> set (z_freechunk z) \<and> x = (c, chunk_size (z_zoneindex z)))"
  by (auto simp: zone_live_def split: option.splits)

lemma zone_size_pages: "params_wf s \<Longrightarrow> hp_zone_page_cnt s * HPAGE_SIZE = hp_zone_size s"
  by (auto simp: params_wf_def HPAGE_SIZE_def)

lemma zone_chunk_inside:
  assumes "params_wf s" "zone_wf s zn z" "c \<in> zone_chunks z"
  shows "bytes (c, chunk_size (z_zoneindex z)) \<subseteq> span (zn, hp_zone_page_cnt s)" "zn < c"
    and "c + chunk_size (z_zoneindex z) \<le> zn + hp_zone_size s" "c \<in> span (zn, hp_zone_page_cnt s)"
proof -
  let ?sz = "chunk_size (z_zoneindex z)"
  obtain k where k: "c = z_baseptr z + k * ?sz" "k < z_uindex z" using assms(3) by (auto simp: zone_chunks_def)
  then have "Suc k \<le> z_nmax z" using assms(2) by (simp add: zone_wf_def)
  then have "Suc k * ?sz \<le> z_nmax z * ?sz" by (rule mult_le_mono1)
  then show le: "c + ?sz \<le> zn + hp_zone_size s" and gt: "zn < c" using assms(2) k by (auto simp: zone_wf_def)
  then show "bytes (c, ?sz) \<subseteq> span (zn, hp_zone_page_cnt s)" "c \<in> span (zn, hp_zone_page_cnt s)"
    using zone_size_pages [OF assms(1)] assms(2) by (auto simp: zone_wf_def)
qed

lemma zone_chunks_disjoint:
  assumes "c \<in> zone_chunks z" "d \<in> zone_chunks z" "c \<noteq> d"
  shows "bytes (c, chunk_size (z_zoneindex z)) \<inter> bytes (d, chunk_size (z_zoneindex z)) = {}"
proof -
  let ?sz = "chunk_size (z_zoneindex z)"
  obtain k l where kl: "c = z_baseptr z + k * ?sz" "d = z_baseptr z + l * ?sz" using assms by (auto simp: zone_chunks_def)
  then consider "Suc k \<le> l" | "Suc l \<le> k" using assms(3) by (metis not_less_eq_eq le_antisym)
  then show ?thesis
  proof cases
    case 1
    then have "Suc k * ?sz \<le> l * ?sz" by (rule mult_le_mono1)
    then show ?thesis using kl by auto
  next
    case 2
    then have "Suc l * ?sz \<le> k * ?sz" by (rule mult_le_mono1)
    then show ?thesis using kl by auto
  qed
qed

lemma live_cases:
  assumes "x \<in> heap_live s"
  obtains (chunk) zn z c where "hp_zones s zn = Some z" "zn \<notin> set (hp_zone_free s)" "c \<in> zone_chunks z"
      "c \<notin> set (z_freechunk z)" "x = (c, chunk_size (z_zoneindex z))"
    | (big) i n where "hp_usage s i = UPage n" "x = (hp_start s + i * HPAGE_SIZE, n * HPAGE_SIZE)"
  using assms by (auto simp: heap_live_def zone_live_iff big_live_def)

lemma live_disjoint:
  assumes "hwf s" "x \<in> heap_live s" "y \<in> heap_live s" "x \<noteq> y"
  shows "bytes x \<inter> bytes y = {}"
proof -
  note W = hwfD [OF assms(1)]
  show ?thesis using assms(2)
proof (cases rule: live_cases)
  case x: (chunk zn z c)
  note xin = zone_chunk_inside(1) [OF W(1) W(6) [OF x(1,2)] x(3)]
  show ?thesis using assms(3)
  proof (cases rule: live_cases)
    case y: (chunk zm w d)
    note yin = zone_chunk_inside(1) [OF W(1) W(6) [OF y(1,2)] y(3)]
    show ?thesis
    proof (cases "zn = zm")
      case True
      then show ?thesis using zone_chunks_disjoint [of c z d] x y assms(4) by auto
    next
      case False
      then show ?thesis
        using zone_pages_disjoint [OF W(1) W(4) [OF x(1)] W(4) [OF y(1)]] xin yin x(5) y(5) by blast
    qed
  next
    case y: (big i n)
    then show ?thesis using big_zone_disjoint [OF W(1) y(1) W(5) [OF y(1)] W(4) [OF x(1)]] xin x(5)
      by auto
  qed
next
  case x: (big i n)
  show ?thesis using assms(3)
  proof (cases rule: live_cases)
    case y: (chunk zm w d)
    note yin = zone_chunk_inside(1) [OF W(1) W(6) [OF y(1,2)] y(3)]
    then show ?thesis using big_zone_disjoint [OF W(1) x(1) W(5) [OF x(1)] W(4) [OF y(1)]] y(5) x(2)
      by auto
  next
    case y: (big j m)
    then have "i \<noteq> j" using x assms(4) by auto
    then show ?thesis
      using big_big_disjoint [OF W(1) x(1) W(5) [OF x(1)] y(1) W(5) [OF y(1)]] x(2) y(2)
      by simp
  qed
qed
qed

lemma live_inside:
  assumes "hwf s" "(p, len) \<in> heap_live s"
  shows "hp_start s \<le> p" "p + len \<le> hp_end s" "0 < len" "0 < p"
proof -
  note W = hwfD [OF assms(1)]
  have "0 < hp_start s" using W(1) by (simp add: params_wf_def)
  moreover have "hp_start s \<le> p \<and> p + len \<le> hp_end s \<and> 0 < len" using assms(2)
  proof (cases rule: live_cases)
    case (chunk zn z c)
    then show ?thesis
      using zone_chunk_inside(2,3) [OF W(1) W(6) [OF chunk(1,2)] chunk(3)]
        W(4) [OF chunk(1)] W(6) [OF chunk(1,2)] zone_size_pages [OF W(1)]
      by (auto simp: zone_pages_wf_def fl_ok_Cons zone_wf_def)
  next
    case (big i n)
    then show ?thesis using W(5) [OF big(1)] by (auto simp: big_wf_def fl_ok_Cons)
  qed
  ultimately show "hp_start s \<le> p" "p + len \<le> hp_end s" "0 < len" "0 < p" by auto
qed


section \<open>Taking pages\<close>

lemma params_wf_cong [simp]:
  "params_wf (s\<lparr>hp_free_pages := fl\<rparr>) = params_wf s" "params_wf (s\<lparr>hp_usage := u\<rparr>) = params_wf s"
  "params_wf (s\<lparr>hp_zones := Z\<rparr>) = params_wf s" "params_wf (s\<lparr>hp_zone_array := A\<rparr>) = params_wf s"
  "params_wf (s\<lparr>hp_zone_free := zf\<rparr>) = params_wf s" "params_wf (s\<lparr>hp_zone_free_cnt := c\<rparr>) = params_wf s"
  by (simp_all add: params_wf_def)

lemma btokup_cong [simp]:
  "btokup (s\<lparr>hp_free_pages := fl\<rparr>) = btokup s" "btokup (s\<lparr>hp_usage := u\<rparr>) = btokup s"
  "btokup (s\<lparr>hp_zones := Z\<rparr>) = btokup s" "btokup (s\<lparr>hp_zone_array := A\<rparr>) = btokup s"
  "btokup (s\<lparr>hp_zone_free := zf\<rparr>) = btokup s" "btokup (s\<lparr>hp_zone_free_cnt := c\<rparr>) = btokup s"
  by (simp_all add: btokup_def fun_eq_iff)

lemma zone_wf_cong [simp]:
  "zone_wf (s\<lparr>hp_free_pages := fl\<rparr>) = zone_wf s" "zone_wf (s\<lparr>hp_usage := u\<rparr>) = zone_wf s"
  "zone_wf (s\<lparr>hp_zones := Z\<rparr>) = zone_wf s" "zone_wf (s\<lparr>hp_zone_array := A\<rparr>) = zone_wf s"
  "zone_wf (s\<lparr>hp_zone_free := zf\<rparr>) = zone_wf s" "zone_wf (s\<lparr>hp_zone_free_cnt := c\<rparr>) = zone_wf s"
  by (simp_all add: zone_wf_def fun_eq_iff)

lemma pages_wf_cong [simp]:
  "zone_pages_wf (s\<lparr>hp_free_pages := fl\<rparr>) = zone_pages_wf s" "zone_pages_wf (s\<lparr>hp_zones := Z\<rparr>) = zone_pages_wf s"
  "zone_pages_wf (s\<lparr>hp_zone_array := A\<rparr>) = zone_pages_wf s" "zone_pages_wf (s\<lparr>hp_zone_free := zf\<rparr>) = zone_pages_wf s"
  "zone_pages_wf (s\<lparr>hp_zone_free_cnt := c\<rparr>) = zone_pages_wf s"
  "big_wf (s\<lparr>hp_zones := Z\<rparr>) = big_wf s" "big_wf (s\<lparr>hp_zone_array := A\<rparr>) = big_wf s"
  "big_wf (s\<lparr>hp_zone_free := zf\<rparr>) = big_wf s" "big_wf (s\<lparr>hp_zone_free_cnt := c\<rparr>) = big_wf s"
  "free_wf (s\<lparr>hp_zones := Z\<rparr>) = free_wf s" "free_wf (s\<lparr>hp_zone_array := A\<rparr>) = free_wf s"
  "free_wf (s\<lparr>hp_zone_free := zf\<rparr>) = free_wf s" "free_wf (s\<lparr>hp_zone_free_cnt := c\<rparr>) = free_wf s"
  by (simp_all add: zone_pages_wf_def big_wf_def free_wf_def fun_eq_iff)

lemma lists_wf_cong [simp]:
  "lists_wf (s\<lparr>hp_free_pages := fl\<rparr>) = lists_wf s" "lists_wf (s\<lparr>hp_usage := u\<rparr>) = lists_wf s"
  by (simp_all add: lists_wf_def)

lemma free_pages_usage:
  assumes "hwf s" "fl_ok (hp_start s) (hp_end s) [(p, np)]" "span (p, np) \<subseteq> fl_cover (hp_free_pages s)"
    and "btokup s p \<le> j" "j < btokup s p + np"
  shows "hp_usage s j = UFree" "hp_start s + j * HPAGE_SIZE \<in> fl_cover (hp_free_pages s)"
proof -
  have "HPAGE_SIZE dvd hp_start s" "HPAGE_SIZE dvd p" "hp_start s \<le> p"
    using assms(2) hwfD(1) [OF assms(1)] by (auto simp: fl_ok_Cons params_wf_def)
  from btokup_span [OF this, of "hp_start s + j * HPAGE_SIZE" np]
  have "hp_start s + j * HPAGE_SIZE \<in> span (p, np)" using assms(4,5) by (simp del: span_simp)
  then show c: "hp_start s + j * HPAGE_SIZE \<in> fl_cover (hp_free_pages s)" using assms(3) by blast
  have "\<forall>a \<in> fl_cover (hp_free_pages s). hp_usage s (btokup s a) = UFree"
    using hwfD(2) [OF assms(1)] by (simp add: free_wf_def)
  then have "hp_usage s (btokup s (hp_start s + j * HPAGE_SIZE)) = UFree" using c by blast
  then show "hp_usage s j = UFree" by simp
qed

lemma fl_ok_inside: "fl_ok b e fl \<Longrightarrow> a \<in> fl_cover fl \<Longrightarrow> b \<le> a"
  by (fastforce simp: fl_ok_def fl_cover_def)

text \<open>What stays true when pages leave the free list and only their usage changes.\<close>

lemma take_pages:
  assumes "hwf s" "page_alloc np (hp_free_pages s) = (p, fl')" "p \<noteq> 0"
    and u: "\<And>j. j < btokup s p \<or> btokup s p + np \<le> j \<Longrightarrow> u j = hp_usage s j"
  defines "s' \<equiv> s\<lparr>hp_free_pages := fl', hp_usage := u\<rparr>"
  shows "fl_ok (hp_start s) (hp_end s) [(p, np)]" "free_wf s'"
    and "hp_zones s zn = Some z \<Longrightarrow> zone_pages_wf s' zn" "hp_usage s i = UPage n \<Longrightarrow> big_wf s' i n \<and> u i = UPage n"
    and "btokup s p \<le> j \<Longrightarrow> j < btokup s p + np \<Longrightarrow> hp_usage s j = UFree"
    and "span (p, np) \<inter> fl_cover fl' = {}"
proof -
  note W = hwfD [OF assms(1)]
  have par: "HPAGE_SIZE dvd hp_start s" "0 < hp_start s" using W(1) by (auto simp: params_wf_def)
  have fw: "fl_ok (hp_start s) (hp_end s) (hp_free_pages s)" "\<forall>a \<in> fl_cover (hp_free_pages s). hp_usage s (btokup s a) = UFree"
    using W(2) by (auto simp: free_wf_def)
  note pa = page_alloc_ok [OF fw(1) assms(2) par(2)]
  note pa3 = pa(3) [OF assms(3)]
  show ok: "fl_ok (hp_start s) (hp_end s) [(p, np)]" using pa3 by (simp add: fl_ok_Cons)
  have cov: "span (p, np) \<subseteq> fl_cover (hp_free_pages s)" "fl_cover fl' = fl_cover (hp_free_pages s) - span (p, np)"
    using pa3 by blast+
  then show "span (p, np) \<inter> fl_cover fl' = {}" by blast
  note free = free_pages_usage [OF assms(1) ok cov(1)]
  show "btokup s p \<le> j \<Longrightarrow> j < btokup s p + np \<Longrightarrow> hp_usage s j = UFree" by (rule free(1))
  have bs: "a \<in> span (p, np) \<longleftrightarrow> hp_start s \<le> a \<and> btokup s p \<le> btokup s a \<and> btokup s a < btokup s p + np" for a
    using pa3 par by (intro btokup_span) auto
  have "u (btokup s a) = UFree" if "a \<in> fl_cover fl'" for a
  proof -
    have "a \<in> fl_cover (hp_free_pages s)" "a \<notin> span (p, np)" "hp_start s \<le> a"
      using that fl_ok_inside [OF fw(1)] unfolding cov(2) by blast+
    then show ?thesis using bs fw(2) u [of "btokup s a"] by (metis not_le)
  qed
  then show "free_wf s'" using pa(1) by (simp add: free_wf_def s'_def)
  have used: "u j = hp_usage s j" if "hp_usage s j \<noteq> UFree" for j using that free(1) u [of j] by (metis not_le)
  show "zone_pages_wf s' zn" if "hp_zones s zn = Some z"
    using W(4) [OF that] used by (simp add: zone_pages_wf_def s'_def)
  show "big_wf s' i n \<and> u i = UPage n" if "hp_usage s i = UPage n"
  proof -
    note B = W(5) [OF that]
    have "u (i + k) = UFree" if k: "0 < k" "k < n" for k
    proof -
      have out: "hp_start s + (i + k) * HPAGE_SIZE \<notin> fl_cover (hp_free_pages s)"
      proof -
        have "k * HPAGE_SIZE < n * HPAGE_SIZE" using k by simp
        then have "hp_start s + (i + k) * HPAGE_SIZE \<in> span (hp_start s + i * HPAGE_SIZE, n)" by (simp add: add_mult_distrib)
        then show ?thesis using B unfolding big_wf_def by blast
      qed
      then have "u (i + k) = hp_usage s (i + k)" using free(2) [of "i + k"] u [of "i + k"] by (metis not_le)
      then show ?thesis using B k unfolding big_wf_def by simp
    qed
    then show ?thesis using B used [of i] that cov(2) by (auto simp: big_wf_def s'_def)
  qed
qed


lemma live_cong:
  assumes "\<And>zm. zm \<noteq> zn \<Longrightarrow> zone_live s' zm = zone_live s zm" "big_live s' = big_live s"
  shows "heap_live s' = (\<Union>zm \<in> - {zn}. zone_live s zm) \<union> zone_live s' zn \<union> big_live s"
    "heap_live s = (\<Union>zm \<in> - {zn}. zone_live s zm) \<union> zone_live s zn \<union> big_live s"
proof -
  have "(\<Union>zm. f zm) = (\<Union>zm \<in> - {zn}. f zm) \<union> f zn" for f :: "nat \<Rightarrow> (nat \<times> nat) set" by auto
  from this [of "zone_live s'"] this [of "zone_live s"]
  show "heap_live s' = (\<Union>zm \<in> - {zn}. zone_live s zm) \<union> zone_live s' zn \<union> big_live s"
    "heap_live s = (\<Union>zm \<in> - {zn}. zone_live s zm) \<union> zone_live s zn \<union> big_live s"
    using assms unfolding heap_live_def by auto
qed

lemma zone_live_cong [simp]:
  "zone_live (s\<lparr>hp_free_pages := fl\<rparr>) = zone_live s" "zone_live (s\<lparr>hp_usage := u\<rparr>) = zone_live s"
  "zone_live (s\<lparr>hp_zone_array := A\<rparr>) = zone_live s" "zone_live (s\<lparr>hp_zone_free_cnt := c\<rparr>) = zone_live s"
  by (simp_all add: zone_live_def fun_eq_iff split: option.splits)

lemma big_live_cong [simp]:
  "big_live (s\<lparr>hp_free_pages := fl\<rparr>) = big_live s" "big_live (s\<lparr>hp_zones := Z\<rparr>) = big_live s"
  "big_live (s\<lparr>hp_zone_array := A\<rparr>) = big_live s" "big_live (s\<lparr>hp_zone_free_cnt := c\<rparr>) = big_live s"
  "big_live (s\<lparr>hp_zone_free := zf\<rparr>) = big_live s"
  by (simp_all add: big_live_def)

text \<open>A large allocation.\<close>

lemma big_alloc_ok:
  assumes "hwf s" "page_alloc np (hp_free_pages s) = (p, fl')" "p \<noteq> 0"
  defines "s' \<equiv> s\<lparr>hp_free_pages := fl', hp_usage := (hp_usage s)(btokup s p := UPage np)\<rparr>"
  shows "hwf s'" "heap_live s' = insert (p, np * HPAGE_SIZE) (heap_live s)" "(p, np * HPAGE_SIZE) \<notin> heap_live s" "np < 2 ^ 32"
proof -
  note W = hwfD [OF assms(1)]
  let ?u = "(hp_usage s)(btokup s p := UPage np)"
  have u: "?u j = hp_usage s j" if "j < btokup s p \<or> btokup s p + np \<le> j" for j
    using that assms(2,3) by (cases "np = 0") (auto simp: page_alloc_def)
  note T = take_pages [OF assms(1-3) u, folded s'_def]
  have np: "0 < np" "HPAGE_SIZE dvd p" "hp_start s \<le> p" using T(1) by (auto simp: fl_ok_Cons)
  have "np * HPAGE_SIZE < 2 ^ 44" using T(1) W(1) by (auto simp: fl_ok_Cons params_wf_def)
  then show "np < 2 ^ 32" by (simp add: HPAGE_SIZE_def)
  have p: "hp_start s + btokup s p * HPAGE_SIZE = p"
    using page_of_btokup [OF _ np(2,3)] W(1) by (simp add: params_wf_def)
  have "big_wf s' (btokup s p) np" using T(1,5,6) np p by (simp add: big_wf_def s'_def)
  then have "hp_usage s' i = UPage n \<Longrightarrow> big_wf s' i n" for i n
    using T(4) by (cases "i = btokup s p") (auto simp: s'_def)
  then show "hwf s'" using W(1,3) T(2,3) by (auto simp: hwf_def s'_def)
  have free: "hp_usage s (btokup s p) = UFree" using T(5) [of "btokup s p"] np by simp
  then have "big_live s' = insert (p, np * HPAGE_SIZE) (big_live s)"
    unfolding big_live_def s'_def using p by (auto; metis page_usage.distinct(4))
  then show "heap_live s' = insert (p, np * HPAGE_SIZE) (heap_live s)" by (simp add: heap_live_def s'_def)
  show "(p, np * HPAGE_SIZE) \<notin> heap_live s"
  proof
    assume "(p, np * HPAGE_SIZE) \<in> heap_live s"
    then show False
    proof (cases rule: live_cases)
      case (chunk zn z c)
      have "p \<in> span (zn, hp_zone_page_cnt s)"
        using zone_chunk_inside(4) [OF W(1) W(6) [OF chunk(1,2)] chunk(3)] chunk(5) by simp
      then show False using zone_pageD(1) [OF W(1) W(4) [OF chunk(1)]] free by simp
    next
      case (big i n)
      then show False using free by auto
    qed
  qed
qed

lemma lists_wfD:
  assumes "lists_wf s" "zi < NZONES" "zn \<in> set (hp_zone_array s ! zi)"
  obtains z where "hp_zones s zn = Some z" "z_zoneindex z = zi" "0 < z_nfree z" "zn \<notin> set (hp_zone_free s)"
  using assms unfolding lists_wf_def by blast

text \<open>New pages for a zone: as if the zone had been put aside before.\<close>

lemma fresh_zone_ok:
  fixes z :: slab_zone
  assumes "hwf s" "hp_zone_free s = []" "page_alloc (hp_zone_page_cnt s) (hp_free_pages s) = (p, fl')" "p \<noteq> 0"
  defines "s' \<equiv> s\<lparr>hp_free_pages := fl', hp_usage := (\<lambda>i. if btokup s p \<le> i \<and> i < btokup s p + hp_zone_page_cnt s
      then UZone (i - btokup s p) else hp_usage s i), hp_zones := (hp_zones s)(p := Some z),
      hp_zone_free := [p], hp_zone_free_cnt := 1\<rparr>"
  shows "hwf s' \<and> heap_live s' = heap_live s"
proof -
  note W = hwfD [OF assms(1)]
  let ?u = "\<lambda>i. if btokup s p \<le> i \<and> i < btokup s p + hp_zone_page_cnt s then UZone (i - btokup s p) else hp_usage s i"
  let ?t = "s\<lparr>hp_free_pages := fl', hp_usage := ?u\<rparr>"
  have u: "?u j = hp_usage s j" if "j < btokup s p \<or> btokup s p + hp_zone_page_cnt s \<le> j" for j
    using that by auto
  note T = take_pages [OF assms(1,3,4) u]
  have pos: "0 < hp_zone_page_cnt s" using T(1) by (simp add: fl_ok_Cons)
  have free: "hp_usage s (btokup s p) = UFree" using T(5) [of "btokup s p"] pos by simp
  have new: "hp_zones s p = None"
  proof (cases "hp_zones s p")
    case (Some z)
    then have "hp_usage s (btokup s p + 0) = UZone 0" using W(4) [OF Some] pos unfolding zone_pages_wf_def by blast
    then show ?thesis using free by simp
  qed
  have ux: "?u i = UPage n \<longleftrightarrow> hp_usage s i = UPage n" for i n using T(5) [of i] by auto
  have "zone_pages_wf ?t p" using T(1) by (simp add: zone_pages_wf_def)
  then have "\<forall>zn \<in> dom (hp_zones s'). zone_pages_wf s' zn"
    using T(3) by (simp add: s'_def dom_def) blast
  moreover have "\<forall>i n. hp_usage s' i = UPage n \<longrightarrow> big_wf s' i n"
    using T(4) ux by (simp add: s'_def)
  moreover have "p \<notin> set (hp_zone_array s ! zi)" if "zi < NZONES" for zi
    using lists_wfD [OF W(3) that, of p] new by (metis option.distinct(1))
  then have "lists_wf s'" using W(3) new assms(2) unfolding lists_wf_def s'_def by (auto split: if_splits)
  moreover have "free_wf s'" using T(2) by (simp add: s'_def)
  ultimately have "hwf s'" using W(1) by (simp add: hwf_def) (simp add: s'_def)
  moreover have "zone_live s' zm = zone_live s zm" for zm
    using new assms(2) by (cases "zm = p") (auto simp: zone_live_def s'_def split: option.splits)
  then have "heap_live s' = heap_live s" using ux by (simp add: heap_live_def big_live_def s'_def)
  ultimately show ?thesis by blast
qed

end
