(* ===== verification/Kernel_Heap_Ops.thy ===== *)
theory Kernel_Heap_Ops
  imports Kernel_Heap_Inv
begin

text \<open>
  \<open>malloc\<close> adds one allocation and \<open>free\<close> removes it again; neither panics and both keep the invariant.
\<close>

section \<open>Zones\<close>

text \<open>A zone in use changes, and with it the list it is in.\<close>

definition zone_array_upd :: "slab_heap \<Rightarrow> nat \<Rightarrow> slab_zone \<Rightarrow> nat list list \<Rightarrow> bool" where
  "zone_array_upd s zn z A \<longleftrightarrow> length A = NZONES \<and> (\<forall>zi < NZONES. distinct (A ! zi) \<and>
     set (A ! zi) - {zn} = set (hp_zone_array s ! zi) - {zn} \<and> (zn \<in> set (A ! zi) \<longleftrightarrow> zi = z_zoneindex z \<and> 0 < z_nfree z))"

lemma zone_update_ok:
  assumes "hwf s" "hp_zones s zn = Some z" "zn \<notin> set (hp_zone_free s)" "zone_wf s zn z'"
    and "zone_array_upd s zn z' A"
  shows "hwf (s\<lparr>hp_zones := (hp_zones s)(zn := Some z'), hp_zone_array := A\<rparr>)"
proof -
  note W = hwfD [OF assms(1)]
  let ?s = "s\<lparr>hp_zones := (hp_zones s)(zn := Some z'), hp_zone_array := A\<rparr>"
  have A: "distinct (A ! zi)" "zm \<noteq> zn \<Longrightarrow> zm \<in> set (A ! zi) \<longleftrightarrow> zm \<in> set (hp_zone_array s ! zi)"
    "zn \<in> set (A ! zi) \<longleftrightarrow> zi = z_zoneindex z' \<and> 0 < z_nfree z'" if "zi < NZONES" for zi zm
    using assms(5) that unfolding zone_array_upd_def by blast+
  have "zm \<notin> set (hp_zone_free s) \<and> (\<exists>y. hp_zones ?s zm = Some y \<and> z_zoneindex y = zi \<and> 0 < z_nfree y)"
    if "zi < NZONES" "zm \<in> set (A ! zi)" for zi zm
  proof (cases "zm = zn")
    case True
    then show ?thesis using A(3) [OF that(1)] that(2) assms(3) by simp
  next
    case False
    then have "zm \<in> set (hp_zone_array s ! zi)" using A(2) that by blast
    from lists_wfD [OF W(3) that(1) this] obtain y
      where "hp_zones s zm = Some y" "z_zoneindex y = zi" "0 < z_nfree y" "zm \<notin> set (hp_zone_free s)" .
    then show ?thesis using False by simp
  qed
  moreover have "zone_wf s zm y \<and> (0 < z_nfree y \<longrightarrow> zm \<in> set (A ! z_zoneindex y))"
    if "hp_zones ?s zm = Some y" "zm \<notin> set (hp_zone_free s)" for zm y
  proof (cases "zm = zn")
    case True
    then show ?thesis using that assms(4) A(3) [of "z_zoneindex z'"] by (auto simp: zone_wf_def)
  next
    case False
    then show ?thesis using that W(6,7) [of zm y] A(2) [of "z_zoneindex y" zm] by (auto simp: zone_wf_def)
  qed
  moreover have "set (hp_zone_free s) \<subseteq> dom (hp_zones ?s)" "distinct (hp_zone_free s)"
    "hp_zone_free_cnt s = length (hp_zone_free s)" "length A = NZONES"
    using W(3) assms(2,5) by (auto simp: lists_wf_def zone_array_upd_def)
  ultimately have "lists_wf ?s" using A(1) unfolding lists_wf_def by simp
  moreover have "zone_pages_wf s zm" if "zm \<in> insert zn (dom (hp_zones s))" for zm using that W(4) assms(2) by blast
  ultimately show ?thesis using W(1,2,5) by (simp add: hwf_def)
qed

lemma zone_update_live:
  assumes "s' = s\<lparr>hp_zones := (hp_zones s)(zn := Some z'), hp_zone_array := A\<rparr>" "zn \<notin> set (hp_zone_free s)"
  shows "heap_live s' = (\<Union>zm \<in> - {zn}. zone_live s zm) \<union>
    (\<lambda>c. (c, chunk_size (z_zoneindex z'))) ` (zone_chunks z' - set (z_freechunk z')) \<union> big_live s"
proof -
  have "zone_live s' zm = zone_live s zm" if "zm \<noteq> zn" for zm using that assms(1)
    by (simp add: zone_live_def split: option.splits)
  moreover have "big_live s' = big_live s" using assms(1) by simp
  ultimately show ?thesis using live_cong(1) [of zn s' s] assms by (simp add: zone_live_def)
qed

lemma zone_live_split:
  assumes "hp_zones s zn = Some z" "zn \<notin> set (hp_zone_free s)"
  shows "heap_live s = (\<Union>zm \<in> - {zn}. zone_live s zm) \<union>
    (\<lambda>c. (c, chunk_size (z_zoneindex z))) ` (zone_chunks z - set (z_freechunk z)) \<union> big_live s"
  using live_cong(2) [of zn s s] assms by (simp add: zone_live_def)

text \<open>A chunk belongs to one zone only.\<close>

lemma chunk_not_elsewhere:
  assumes "hwf s" "hp_zones s zn = Some z" "c \<in> span (zn, hp_zone_page_cnt s)"
  shows "(c, len) \<notin> (\<Union>zm \<in> - {zn}. zone_live s zm) \<union> big_live s"
proof
  note W = hwfD [OF assms(1)]
  assume "(c, len) \<in> (\<Union>zm \<in> - {zn}. zone_live s zm) \<union> big_live s"
  then consider (zone) zm where "zm \<noteq> zn" "(c, len) \<in> zone_live s zm" | (big) "(c, len) \<in> big_live s" by blast
  then show False
  proof cases
    case zone
    then obtain w where w: "hp_zones s zm = Some w" "zm \<notin> set (hp_zone_free s)" "c \<in> zone_chunks w" "len = chunk_size (z_zoneindex w)"
      unfolding zone_live_iff by blast
    note zone_chunk_inside(4) [OF W(1) W(6) [OF w(1,2)] w(3)]
    then show False using zone_pages_disjoint [OF W(1) W(4) [OF w(1)] W(4) [OF assms(2)] zone(1)] assms(3) by blast
  next
    case big
    then obtain i n where b: "hp_usage s i = UPage n" "c = hp_start s + i * HPAGE_SIZE" unfolding big_live_def by blast
    then show False using zone_pageD(1) [OF W(1) W(4) [OF assms(2)] assms(3)] by simp
  qed
qed


lemma hget_hupd [simp]:
  "sbind (hget f) k s = k (f s) s" "sbind (hupd g) k' s = k' () (g s)" "hget f s = (Inr (f s), s)" "hupd g s = (Inr (), g s)"
  by (simp_all add: sbind_def hget_def hupd_def)

lemma heap_swap: "s\<lparr>hp_zone_array := A, hp_zones := Z\<rparr> = s\<lparr>hp_zones := Z, hp_zone_array := A\<rparr>"
  by simp

definition allocates :: "slab_heap \<Rightarrow> nat \<Rightarrow> nat \<Rightarrow> slab_heap \<Rightarrow> bool" where
  "allocates s c len s' \<longleftrightarrow> hwf s' \<and> c \<noteq> 0 \<and> heap_live s' = insert (c, len) (heap_live s) \<and> (c, len) \<notin> heap_live s"

text \<open>Handing out a chunk of a zone in use: it is a chunk of the zone afterwards and was not out before.\<close>

lemma allocates_chunk:
  assumes "hwf s" "hp_zones s zn = Some z" "zn \<notin> set (hp_zone_free s)" "zone_wf s zn z'" "zone_array_upd s zn z' A"
    and "z_zoneindex z' = z_zoneindex z"
    and "zone_chunks z' - set (z_freechunk z') = insert c (zone_chunks z - set (z_freechunk z))"
    and "c \<notin> zone_chunks z - set (z_freechunk z)"
  shows "allocates s c (chunk_size (z_zoneindex z)) (s\<lparr>hp_zones := (hp_zones s)(zn := Some z'), hp_zone_array := A\<rparr>)"
proof -
  note W = hwfD [OF assms(1)]
  have "c \<in> zone_chunks z'" using assms(7) by blast
  from zone_chunk_inside(2,4) [OF W(1) assms(4) this]
  have c: "zn < c" "c \<in> span (zn, hp_zone_page_cnt s)" by auto
  have "(c, chunk_size (z_zoneindex z)) \<notin> heap_live s"
    using chunk_not_elsewhere [OF assms(1,2) c(2)] assms(8) unfolding zone_live_split [OF assms(2,3)] by blast
  then show ?thesis
    using zone_update_ok [OF assms(1-5)] c(1) zone_update_live [OF refl assms(3), of A z'] assms(6,7)
    unfolding allocates_def zone_live_split [OF assms(2,3)] by auto
qed

lemma zone_array_pop:
  assumes "hwf s" "zi < NZONES" "hp_zone_array s ! zi = zn # rest" "z_zoneindex z' = zi"
    and "A = (if z_nfree z' = 0 then (hp_zone_array s)[zi := rest] else hp_zone_array s)"
  shows "zone_array_upd s zn z' A"
proof -
  have len: "length (hp_zone_array s) = NZONES" using hwfD(3) [OF assms(1)] by (simp add: lists_wf_def)
  have d: "distinct (hp_zone_array s ! zj)" if "zj < NZONES" for zj
    using that hwfD(3) [OF assms(1)] by (auto simp: lists_wf_def)
  have only: "zn \<notin> set (hp_zone_array s ! zj)" if "zj < NZONES" "zj \<noteq> zi" for zj
    using lists_wfD [OF hwfD(3) [OF assms(1)] that(1), of zn] lists_wfD [OF hwfD(3) [OF assms(1)] assms(2), of zn] that(2) assms(3)
    by (metis list.set_intros(1) option.inject)
  have "distinct (zn # rest)" using d [OF assms(2)] assms(3) by simp
  then show ?thesis using assms(2-4) d only len unfolding zone_array_upd_def assms(5)
    by (auto simp: nth_list_update split: if_splits)
qed

lemma zone_chunks_Suc: "zone_chunks (z\<lparr>z_nfree := n, z_uindex := Suc (z_uindex z)\<rparr>) =
    insert (z_baseptr z + z_uindex z * chunk_size (z_zoneindex z)) (zone_chunks z)"
  by (simp add: zone_chunks_def lessThan_Suc)

lemma zone_chunks_upd [simp]:
  "zone_chunks (z\<lparr>z_nfree := n\<rparr>) = zone_chunks z" "zone_chunks (z\<lparr>z_freechunk := cs\<rparr>) = zone_chunks z"
  "zone_chunks (z\<lparr>z_magic := mg\<rparr>) = zone_chunks z"
  by (simp_all add: zone_chunks_def)

lemma fresh_chunk: "0 < chunk_size (z_zoneindex z) \<Longrightarrow> z_baseptr z + z_uindex z * chunk_size (z_zoneindex z) \<notin> zone_chunks z"
  by (auto simp: zone_chunks_def)

lemma alloc_from_zone_ok:
  assumes "hwf s" "zi < NZONES" "hp_zone_array s ! zi = zn # rest"
  shows "\<exists>c s'. alloc_from_zone zi (chunk_size zi) zn s = (Inr c, s') \<and> allocates s c (chunk_size zi) s'"
proof -
  note W = hwfD [OF assms(1)]
  have "zn \<in> set (hp_zone_array s ! zi)" using assms(3) by simp
  from lists_wfD [OF W(3) assms(2) this] obtain z
    where z: "hp_zones s zn = Some z" "z_zoneindex z = zi" "0 < z_nfree z" "zn \<notin> set (hp_zone_free s)" .
  note zw = W(6) [OF z(1,4)]
  define A where "A = (if z_nfree z - 1 = 0 then (hp_zone_array s)[zi := rest] else hp_zone_array s)"
  show ?thesis
  proof (cases "z_uindex z = z_nmax z")
    case False
    let ?z = "z\<lparr>z_nfree := z_nfree z - 1, z_uindex := Suc (z_uindex z)\<rparr>"
    let ?c = "z_baseptr z + z_uindex z * chunk_size zi"
    have nc: "?c \<notin> zone_chunks z" using fresh_chunk [of z] zw z(2) by (simp add: zone_wf_def)
    have zw': "zone_wf s zn ?z" using zw False z(3) unfolding zone_wf_def zone_chunks_Suc by auto
    have up: "zone_array_upd s zn ?z A" by (rule zone_array_pop [OF assms]) (simp_all add: z(2) A_def)
    have ch: "zone_chunks ?z - set (z_freechunk ?z) = insert ?c (zone_chunks z - set (z_freechunk z))"
      unfolding zone_chunks_Suc using nc zw z(2) by (auto simp: zone_wf_def)
    have "allocates s ?c (chunk_size (z_zoneindex z)) (s\<lparr>hp_zones := (hp_zones s)(zn := Some ?z), hp_zone_array := A\<rparr>)"
      by (rule allocates_chunk [OF assms(1) z(1,4) zw' up _ ch]) (use nc in simp_all)
    then show ?thesis using z False assms(3) by (auto simp: alloc_from_zone_def A_def set_zone_def Let_def sret_apply heap_swap)
  next
    case True
    then obtain c cs where f: "z_freechunk z = c # cs" using zw z(3) by (cases "z_freechunk z") (auto simp: zone_wf_def)
    let ?z = "z\<lparr>z_nfree := z_nfree z - 1, z_freechunk := cs\<rparr>"
    have zw': "zone_wf s zn ?z" using zw True f unfolding zone_wf_def by auto
    have up: "zone_array_upd s zn ?z A" by (rule zone_array_pop [OF assms]) (simp_all add: z(2) A_def)
    have ch: "zone_chunks ?z - set (z_freechunk ?z) = insert c (zone_chunks z - set (z_freechunk z))"
      using zw f by (auto simp: zone_wf_def)
    have "allocates s c (chunk_size (z_zoneindex z)) (s\<lparr>hp_zones := (hp_zones s)(zn := Some ?z), hp_zone_array := A\<rparr>)"
      by (rule allocates_chunk [OF assms(1) z(1,4) zw' up _ ch]) (use f in simp_all)
    then show ?thesis using z True f assms(3) by (auto simp: alloc_from_zone_def A_def set_zone_def Let_def sret_apply heap_swap)
  qed
qed


text \<open>A zone that was put aside is taken into use.\<close>

lemma spare_init_lists:
  assumes "lists_wf s" "hp_zone_free s = zn # rest" "hp_zone_array s ! zi = []" "zi < NZONES"
    and "zone_wf s zn z" "z_zoneindex z = zi" "0 < z_nfree z"
  shows "lists_wf (s\<lparr>hp_zone_free := rest, hp_zone_free_cnt := length rest, hp_zones := (hp_zones s)(zn := Some z),
    hp_zone_array := (hp_zone_array s)[zi := [zn]]\<rparr>)"
proof -
  have len: "length (hp_zone_array s) = NZONES" and zf: "zn \<notin> set rest" "distinct rest" "set rest \<subseteq> dom (hp_zones s)"
    using assms(1,2) by (auto simp: lists_wf_def)
  have arr: "distinct (hp_zone_array s ! zj)" if "zj < NZONES" for zj using assms(1) that by (simp add: lists_wf_def)
  have mem: "zm \<noteq> zn \<and> zm \<notin> set rest \<and> (\<exists>w. hp_zones s zm = Some w \<and> z_zoneindex w = zj \<and> 0 < z_nfree w)"
    if "zj < NZONES" "zm \<in> set (hp_zone_array s ! zj)" for zj zm
    using lists_wfD [OF assms(1) that] assms(2) by (metis list.set_intros set_ConsD)
  have use: "zone_wf s zm w \<and> (0 < z_nfree w \<longrightarrow> zm \<in> set (hp_zone_array s ! z_zoneindex w)) \<and> z_zoneindex w < NZONES"
    if "hp_zones s zm = Some w" "zm \<noteq> zn" "zm \<notin> set rest" for zm w
  proof -
    have "zm \<notin> set (hp_zone_free s)" using that assms(2) by simp
    then show ?thesis using assms(1) that(1) by (auto simp: lists_wf_def zone_wf_def)
  qed
  have "zm \<notin> set rest \<and> (\<exists>w. ((hp_zones s)(zn := Some z)) zm = Some w \<and> z_zoneindex w = zj \<and> 0 < z_nfree w)"
    if "zj < NZONES" "zm \<in> set ((hp_zone_array s)[zi := [zn]] ! zj)" for zj zm
    using mem [OF that(1), of zm] that assms(4,6,7) zf(1) len by (cases "zj = zi") auto
  moreover have "zone_wf s zm w \<and> (0 < z_nfree w \<longrightarrow> zm \<in> set ((hp_zone_array s)[zi := [zn]] ! z_zoneindex w))"
    if "((hp_zones s)(zn := Some z)) zm = Some w" "zm \<notin> set rest" for zm w
    using use [of zm w] that assms(3-6) len by (cases "zm = zn"; cases "z_zoneindex w = zi") auto
  moreover have "distinct ((hp_zone_array s)[zi := [zn]] ! zj)" if "zj < NZONES" for zj
    using arr [OF that] that len by (cases "zj = zi") auto
  ultimately show ?thesis using zf len by (auto simp: lists_wf_def)
qed

lemma spare_init_ok:
  assumes "hwf s" "hp_zone_free s = zn # rest" "hp_zone_array s ! zi = []" "zi < NZONES"
    and "zone_wf s zn z" "z_zoneindex z = zi" "0 < z_nfree z" "z_uindex z = 1" "z_freechunk z = []"
  shows "allocates s (z_baseptr z) (chunk_size zi)
    (s\<lparr>hp_zone_free := rest, hp_zone_free_cnt := length rest, hp_zones := (hp_zones s)(zn := Some z),
       hp_zone_array := (hp_zone_array s)[zi := [zn]]\<rparr>)" (is "allocates s ?c ?len ?s")
proof -
  note W = hwfD [OF assms(1)]
  have "zn \<in> set (hp_zone_free s)" using assms(2) by simp
  then obtain w where w: "hp_zones s zn = Some w" using W(3) by (auto simp: lists_wf_def)
  have ch: "zone_chunks z = {?c}" using assms(8) by (auto simp: zone_chunks_def)
  have c: "zn < ?c" "?c \<in> span (zn, hp_zone_page_cnt s)"
    using zone_chunk_inside(2,4) [OF W(1) assms(5), of ?c] ch by auto
  have "hwf ?s" using W(1,2,4,5) w spare_init_lists [OF W(3) assms(2-7)] by (auto simp: hwf_def)
  moreover have "zn \<notin> set rest" using W(3) assms(2) by (simp add: lists_wf_def)
  then have live: "zone_live ?s zn = {(?c, ?len)}" using ch assms(6,9) by (simp add: zone_live_def)
  have none: "zone_live s zn = {}" using w assms(2) by (simp add: zone_live_def)
  have "zone_live ?s zm = zone_live s zm" if "zm \<noteq> zn" for zm
    using that assms(2) by (simp add: zone_live_def split: option.splits)
  from live_cong [OF this, of zn] live none
  have "heap_live ?s = insert (?c, ?len) (heap_live s)" by auto
  moreover have "(?c, ?len) \<notin> heap_live s"
    using chunk_not_elsewhere [OF assms(1) w c(2)] none live_cong(2) [of zn s s] by blast
  ultimately show ?thesis using c(1) by (auto simp: allocates_def)
qed

definition first_chunk :: "nat \<Rightarrow> nat \<Rightarrow> nat" where
  "first_chunk ns sz = (if (sz OR (sz - 1)) + 1 = sz * 2 then round_up_nat ns sz else round_up_nat ns 8)"

lemma first_chunk_offset_run:
  assumes "ns \<le> 4096" "sz \<le> 2 ^ 14"
  shows "first_chunk_offset ns sz = Inr (first_chunk ns sz)"
  using assms unfolding first_chunk_offset_def first_chunk_def hround_up_run by simp

lemma first_chunk_bounds: "0 < sz \<Longrightarrow> ns \<le> first_chunk ns sz \<and> first_chunk ns sz < ns + max sz 8"
  using round_up_nat_bounds [of sz ns] round_up_nat_bounds [of 8 ns] by (auto simp: first_chunk_def)

lemma new_zone_room:
  assumes "params_wf s" "0 < sz" "sz \<le> hp_chunk_limit s"
  defines "off \<equiv> first_chunk (hp_node_size s) sz"
  shows "off \<le> hp_zone_size s" "2 \<le> (hp_zone_size s - off) div sz" "0 < off"
proof -
  have b: "hp_node_size s \<le> off" "off < hp_node_size s + max sz 8"
    using first_chunk_bounds [OF assms(2), of "hp_node_size s"] unfolding off_def by auto
  have p: "hp_zone_size s \<ge> 32768" "sz \<le> hp_zone_size s div 4" "0 < hp_node_size s" "hp_node_size s \<le> 4096"
    using assms(1,3) by (auto simp: params_wf_def)
  then have "off + 2 * sz \<le> hp_zone_size s" using b by linarith
  then have "2 * sz \<le> hp_zone_size s - off" by linarith
  then show "2 \<le> (hp_zone_size s - off) div sz" using assms(2) by (simp add: less_eq_div_iff_mult_less_eq)
  show "off \<le> hp_zone_size s" "0 < off" using b p \<open>off + 2 * sz \<le> _\<close> by linarith+
qed

definition new_zone :: "slab_heap \<Rightarrow> nat \<Rightarrow> nat \<Rightarrow> slab_zone" where
  "new_zone s zi zn = (let sz = chunk_size zi; off = first_chunk (hp_node_size s) sz; n = (hp_zone_size s - off) div sz
     in \<lparr>z_magic = ZALLOC_SLAB_MAGIC, z_nfree = n - 1, z_nmax = n, z_uindex = 1, z_baseptr = zn + off,
         z_zoneindex = zi, z_freechunk = []\<rparr>)"

lemma new_zone_ok:
  assumes "params_wf s" "0 < chunk_size zi" "chunk_size zi \<le> hp_chunk_limit s" "zi < NZONES"
  shows "zone_wf s zn (new_zone s zi zn)" "0 < z_nfree (new_zone s zi zn)"
proof -
  note R = new_zone_room [OF assms(1-3)]
  show "0 < z_nfree (new_zone s zi zn)" using R(2) by (simp add: new_zone_def Let_def)
  have "o' + (hp_zone_size s - o') div sz * sz \<le> hp_zone_size s" if "o' \<le> hp_zone_size s" for o' sz
    using that div_times_less_eq_dividend [of "hp_zone_size s - o'" sz] by linarith
  then show "zone_wf s zn (new_zone s zi zn)"
    using R assms(2,4) by (auto simp: new_zone_def Let_def zone_wf_def)
qed

lemma init_zone_run:
  assumes "params_wf s" "0 < chunk_size zi" "chunk_size zi \<le> hp_chunk_limit s"
  shows "init_zone zi (chunk_size zi) zn s = (Inr (z_baseptr (new_zone s zi zn)),
    s\<lparr>hp_zones := (hp_zones s)(zn := Some (new_zone s zi zn)), hp_zone_array := (hp_zone_array s)[zi := [zn]]\<rparr>)"
proof -
  have "first_chunk_offset (hp_node_size s) (chunk_size zi) = Inr (first_chunk (hp_node_size s) (chunk_size zi))"
    by (rule first_chunk_offset_run) (use assms in \<open>auto simp: params_wf_def\<close>)
  then show ?thesis
    using new_zone_room [OF assms] by (simp add: init_zone_def new_zone_def Let_def set_zone_def sret_apply)
qed


lemma page_alloc_none:
  assumes "fl_ok b e fl" "0 < b" "page_alloc np fl = (0, fl')" "0 < np"
  shows "fl' = fl \<and> (\<forall>(a, n) \<in> set fl. n < np)"
proof -
  have "page_alloc_loop np fl = (0, fl') \<Longrightarrow> \<forall>(a, n) \<in> set fl. n < np"
    using assms(1,2) by (induction fl arbitrary: fl') (auto simp: fl_ok_Cons split: if_splits prod.splits)
  then show ?thesis using page_alloc_ok(2) [OF assms(1,3,2)] assms(3,4) by (simp add: page_alloc_def)
qed

text \<open>\<open>malloc\<close> of a size that can be rounded up to pages does not panic. It adds one allocation of at least the size asked
  for, or fails when every free stretch is too short. A larger size panics.\<close>

definition out_of_pages :: "nat \<Rightarrow> slab_heap \<Rightarrow> bool" where
  "out_of_pages np s \<longleftrightarrow> (\<forall>(a, n) \<in> set (hp_free_pages s). n < np)"

definition pages_needed :: "nat \<Rightarrow> slab_heap \<Rightarrow> nat" where
  "pages_needed n s = (if n > hp_chunk_limit s then round_up_nat n HPAGE_SIZE div HPAGE_SIZE else hp_zone_page_cnt s)"

lemma zone_malloc_ok:
  assumes "hwf s" "hp_zone_array s ! zi = []" "zi < NZONES" "0 < chunk_size zi" "chunk_size zi \<le> hp_chunk_limit s"
  shows "\<exists>p s'. sbind get_zone (\<lambda>zn. if zn = 0 then sret 0 else init_zone zi (chunk_size zi) zn) s = (Inr p, s') \<and>
    (p = 0 \<and> s' = s \<and> out_of_pages (hp_zone_page_cnt s) s \<or> allocates s p (chunk_size zi) s')"
proof -
  note W = hwfD [OF assms(1)]
  have fw: "fl_ok (hp_start s) (hp_end s) (hp_free_pages s)" "0 < hp_start s" using W(1,2) by (auto simp: free_wf_def params_wf_def)
  have pc: "hp_zone_size s div HPAGE_SIZE = hp_zone_page_cnt s" "0 < hp_zone_page_cnt s"
    using W(1) by (auto simp: params_wf_def HPAGE_SIZE_def)
  show ?thesis
  proof (cases "hp_zone_free s")
    case (Cons zn rest)
    have cnt: "hp_zone_free_cnt s = Suc (length rest)" using W(3) Cons by (simp add: lists_wf_def)
    obtain w where "hp_zones s zn = Some w" using W(3) Cons by (auto simp: lists_wf_def)
    then have zn: "zn \<noteq> 0" using W(4) [of zn w] fw(2) by (auto simp: zone_pages_wf_def fl_ok_Cons)
    let ?t = "s\<lparr>hp_zone_free := rest, hp_zone_free_cnt := length rest\<rparr>"
    have t: "params_wf ?t" "chunk_size zi \<le> hp_chunk_limit ?t" "new_zone ?t zi zn = new_zone s zi zn"
      using W(1) assms(5) by (auto simp: new_zone_def)
    show ?thesis
      using spare_init_ok [OF assms(1) Cons assms(2,3) new_zone_ok(1) [OF W(1) assms(4,5,3)]] new_zone_ok(2) [OF W(1) assms(4,5,3)]
        init_zone_run [OF t(1) assms(4) t(2), of zn] Cons cnt zn t(3)
      by (simp add: get_zone_def sbind_assoc new_zone_def Let_def)
  next
    case Nil
    obtain zn fl' where pa: "page_alloc (hp_zone_page_cnt s) (hp_free_pages s) = (zn, fl')" by fastforce
    show ?thesis
    proof (cases "zn = 0")
      case True
      then show ?thesis using page_alloc_none [OF fw _ pc(2)] pa Nil pc(1)
        by (auto simp: get_zone_def sbind_assoc heap_page_alloc_def out_of_pages_def sbind_def hget_def sret_apply)
    next
      case False
      let ?u = "\<lambda>i. if btokup s zn \<le> i \<and> i < btokup s zn + hp_zone_page_cnt s then UZone (i - btokup s zn) else hp_usage s i"
      let ?t = "s\<lparr>hp_free_pages := fl', hp_usage := ?u\<rparr>"
      let ?g = "s\<lparr>hp_free_pages := fl', hp_usage := ?u, hp_zones := (hp_zones s)(zn := Some (new_zone s zi zn)),
        hp_zone_free := [zn], hp_zone_free_cnt := 1\<rparr>"
      have g: "hwf ?g" "heap_live ?g = heap_live s"
        using fresh_zone_ok [OF assms(1) Nil pa False, of "new_zone s zi zn"] by auto
      have t: "params_wf ?t" "chunk_size zi \<le> hp_chunk_limit ?t" "new_zone ?t zi zn = new_zone s zi zn"
        using W(1) assms(5) by (auto simp: new_zone_def)
      have "allocates ?g (z_baseptr (new_zone s zi zn)) (chunk_size zi) (?g\<lparr>hp_zone_free := [], hp_zone_free_cnt := length ([]::nat list),
          hp_zones := (hp_zones ?g)(zn := Some (new_zone s zi zn)), hp_zone_array := (hp_zone_array ?g)[zi := [zn]]\<rparr>)"
        using new_zone_ok [OF W(1) assms(4,5,3), of zn] assms(2,3)
        by (intro spare_init_ok [OF g(1)]) (simp_all add: new_zone_def Let_def)
      moreover have "?g\<lparr>hp_zone_free := [], hp_zone_free_cnt := length ([]::nat list),
          hp_zones := (hp_zones ?g)(zn := Some (new_zone s zi zn)), hp_zone_array := (hp_zone_array ?g)[zi := [zn]]\<rparr> =
        ?t\<lparr>hp_zones := (hp_zones s)(zn := Some (new_zone s zi zn)), hp_zone_array := (hp_zone_array s)[zi := [zn]]\<rparr>"
        using Nil W(3) by (simp add: lists_wf_def)
      ultimately have "allocates s (z_baseptr (new_zone s zi zn)) (chunk_size zi)
          (?t\<lparr>hp_zones := (hp_zones s)(zn := Some (new_zone s zi zn)), hp_zone_array := (hp_zone_array s)[zi := [zn]]\<rparr>)"
        using g(2) unfolding allocates_def by metis
      then show ?thesis using Nil pa pc(1) False init_zone_run [OF t(1) assms(4) t(2), of zn] t(3)
        by (simp add: get_zone_def sbind_assoc heap_page_alloc_def sbind_def hget_def hupd_def sret_apply cong: if_cong)
    qed
  qed
qed


lemma malloc_overflow: "hwf s \<Longrightarrow> 2 ^ 64 \<le> n + HPAGE_SIZE \<Longrightarrow> heap_malloc n s = (Inl (Panic Overflow), s)"
  using hwfD(1) [of s]
  by (auto simp: heap_malloc_def hround_up_run params_wf_def HPAGE_SIZE_def sbind_def hget_def slift_def sfail_def)

lemma malloc_ok:
  assumes "hwf s" "n + HPAGE_SIZE < 2 ^ 64"
  shows "\<exists>p s'. heap_malloc n s = (Inr p, s') \<and>
    (p = 0 \<and> s' = s \<and> (n = 0 \<or> out_of_pages (pages_needed n s) s) \<or> (\<exists>len. n \<le> len \<and> allocates s p len s'))"
proof -
  note W = hwfD [OF assms(1)]
  have fw: "fl_ok (hp_start s) (hp_end s) (hp_free_pages s)" "0 < hp_start s" using W(1,2) by (auto simp: free_wf_def params_wf_def)
  consider (zero) "n = 0" | (big) "0 < n" "hp_chunk_limit s < n" | (small) "0 < n" "n \<le> hp_chunk_limit s" by linarith
  then show ?thesis
  proof cases
    case zero
    then show ?thesis by (auto simp: heap_malloc_def sret_apply)
  next
    case big
    let ?np = "round_up_nat n HPAGE_SIZE div HPAGE_SIZE"
    obtain p fl' where pa: "page_alloc ?np (hp_free_pages s) = (p, fl')" by fastforce
    have np: "?np * HPAGE_SIZE = round_up_nat n HPAGE_SIZE" by (simp add: round_up_nat_def)
    then have len: "n \<le> ?np * HPAGE_SIZE" using round_up_nat_bounds [of HPAGE_SIZE n] by simp
    then have "0 < ?np" using big(1) by (cases "?np") auto
    then have "p = 0 \<Longrightarrow> fl' = hp_free_pages s \<and> out_of_pages ?np s"
      using page_alloc_none [OF fw, of ?np fl'] pa by (simp add: out_of_pages_def)
    moreover have "p \<noteq> 0 \<Longrightarrow> allocates s p (?np * HPAGE_SIZE) (s\<lparr>hp_free_pages := fl', hp_usage := (hp_usage s)(btokup s p := UPage (?np mod 2 ^ 32))\<rparr>)"
      using big_alloc_ok [OF assms(1) pa] by (simp add: allocates_def)
    moreover have "hround_up n HPAGE_SIZE = Inr (round_up_nat n HPAGE_SIZE)" using assms(2) by (simp add: hround_up_run)
    ultimately show ?thesis using big pa len
      by (auto simp: pages_needed_def heap_malloc_def heap_page_alloc_def sbind_def hget_def hupd_def sret_apply slift_apply Let_def)
  next
    case small
    obtain zi sz where zi: "zone_place n = (zi, sz)" by fastforce
    have "hp_chunk_limit s = 2 ^ 13 \<or> hp_chunk_limit s = 2 ^ 14" using W(1) by (auto simp: params_wf_def)
    then have ok: "zi < NZONES" "n \<le> sz" "sz \<le> hp_chunk_limit s" "sz = chunk_size zi"
      using zone_place_ok [OF small(1) _ _ _ zi, of 13] zone_place_ok [OF small(1) _ _ _ zi, of 14] small(2) by auto
    have "zone_index n = Inr (zi, sz)"
      unfolding zi [symmetric] by (rule zone_index_run [OF small(1)]) (use small(2) \<open>hp_chunk_limit s = _ \<or> _\<close> in auto)
    with ok have run: "heap_malloc n s = (case hp_zone_array s ! zi of zn # _ \<Rightarrow> alloc_from_zone zi (chunk_size zi) zn s
        | [] \<Rightarrow> sbind get_zone (\<lambda>zn. if zn = 0 then sret 0 else init_zone zi (chunk_size zi) zn) s)"
      using small by (simp add: heap_malloc_def slift_apply split: list.splits)
    show ?thesis
    proof (cases "hp_zone_array s ! zi")
      case Nil
      then show ?thesis using zone_malloc_ok [OF assms(1) Nil ok(1)] ok small unfolding run by (fastforce simp: pages_needed_def)
    next
      case (Cons zn rest)
      then show ?thesis using alloc_from_zone_ok [OF assms(1) ok(1) Cons] ok unfolding run by fastforce
    qed
  qed
qed

section \<open>Freeing\<close>

definition frees :: "slab_heap \<Rightarrow> (nat \<times> nat) \<Rightarrow> slab_heap \<Rightarrow> bool" where
  "frees s x s' \<longleftrightarrow> hwf s' \<and> heap_live s' = heap_live s - {x}"

text \<open>Putting pages back: what stays true when only the usage of the pages given back changes.\<close>

lemma give_pages:
  assumes "hwf s" "fl_ok (hp_start s) (hp_end s) [(p, np)]" "span (p, np) \<inter> fl_cover (hp_free_pages s) = {}"
    and "stale_ok (hp_free_pages s) p np stale"
    and u: "\<And>j. u j = (if btokup s p \<le> j \<and> j < btokup s p + np then UFree else hp_usage s j)"
  defines "s' \<equiv> s\<lparr>hp_free_pages := page_free p np stale (hp_free_pages s), hp_usage := u\<rparr>"
  shows "free_wf s'"
    and "zone_pages_wf s zn \<Longrightarrow> span (zn, hp_zone_page_cnt s) \<inter> span (p, np) = {} \<Longrightarrow> zone_pages_wf s' zn"
    and "hp_usage s i = UPage n \<Longrightarrow> span (hp_start s + i * HPAGE_SIZE, n) \<inter> span (p, np) = {} \<Longrightarrow> big_wf s' i n \<and> u i = UPage n"
proof -
  note W = hwfD [OF assms(1)]
  have par: "HPAGE_SIZE dvd hp_start s" "hp_end s < 2 ^ 64" using W(1) by (auto simp: params_wf_def)
  have fw: "fl_ok (hp_start s) (hp_end s) (hp_free_pages s)" "\<forall>a \<in> fl_cover (hp_free_pages s). hp_usage s (btokup s a) = UFree"
    using W(2) by (auto simp: free_wf_def)
  note pf = page_free_ok [OF fw(1) assms(2,3) par(2) assms(4)]
  have bs: "a \<in> span (p, np) \<longleftrightarrow> hp_start s \<le> a \<and> btokup s p \<le> btokup s a \<and> btokup s a < btokup s p + np" for a
    using assms(2) par by (intro btokup_span) (auto simp: fl_ok_Cons)
  have "u (btokup s a) = UFree" if "a \<in> fl_cover (page_free p np stale (hp_free_pages s))" for a
    using that pf bs [of a] fw(2) unfolding u by auto
  then show "free_wf s'" using pf by (simp add: free_wf_def s'_def)
  have page: "hp_start s + j * HPAGE_SIZE \<in> span (p, np) \<longleftrightarrow> btokup s p \<le> j \<and> j < btokup s p + np" for j
    using bs [of "hp_start s + j * HPAGE_SIZE"] by (simp del: span_simp)
  show "zone_pages_wf s' zn" if z: "zone_pages_wf s zn" and d: "span (zn, hp_zone_page_cnt s) \<inter> span (p, np) = {}"
  proof -
    have "u (btokup s zn + k) = UZone k" if "k < hp_zone_page_cnt s" for k
    proof -
      have "hp_start s + (btokup s zn + k) * HPAGE_SIZE \<in> span (zn, hp_zone_page_cnt s)"
        using z par(1) that by (subst btokup_span [of s]) (auto simp: zone_pages_wf_def fl_ok_Cons simp del: span_simp)
      then have "\<not> (btokup s p \<le> btokup s zn + k \<and> btokup s zn + k < btokup s p + np)"
        using d page by blast
      then show ?thesis using z that unfolding u zone_pages_wf_def by simp
    qed
    then show ?thesis using z by (simp add: zone_pages_wf_def s'_def)
  qed
  show "big_wf s' i n \<and> u i = UPage n" if b: "hp_usage s i = UPage n" and d: "span (hp_start s + i * HPAGE_SIZE, n) \<inter> span (p, np) = {}"
  proof -
    note B = W(5) [OF b]
    have "0 < n" using B by (simp add: big_wf_def fl_ok_Cons)
    then have "hp_start s + i * HPAGE_SIZE \<in> span (hp_start s + i * HPAGE_SIZE, n)" by simp
    then have "u i = UPage n" using d page [of i] b unfolding u by (auto simp del: span_simp)
    moreover have "u (i + k) = UFree" if "0 < k" "k < n" for k using B that unfolding u big_wf_def by simp
    moreover have "span (hp_start s + i * HPAGE_SIZE, n) \<inter> fl_cover (page_free p np stale (hp_free_pages s)) = {}"
      using pf d B unfolding big_wf_def by blast
    ultimately show ?thesis using B by (simp add: big_wf_def s'_def)
  qed
qed


lemma big_free_ok:
  assumes "hwf s" "hp_usage s i = UPage n" "stale_ok (hp_free_pages s) p n stale" "p = hp_start s + i * HPAGE_SIZE"
  shows "frees s (p, n * HPAGE_SIZE)
    (s\<lparr>hp_free_pages := page_free p n stale (hp_free_pages s), hp_usage := (hp_usage s)(i := UFree)\<rparr>)" (is "frees s ?x ?s")
proof -
  note W = hwfD [OF assms(1)]
  note B = W(5) [OF assms(2)]
  have b: "fl_ok (hp_start s) (hp_end s) [(p, n)]" "span (p, n) \<inter> fl_cover (hp_free_pages s) = {}" "btokup s p = i" "0 < n"
    using B by (auto simp: big_wf_def assms(4) fl_ok_Cons)
  have u: "((hp_usage s)(i := UFree)) j = (if btokup s p \<le> j \<and> j < btokup s p + n then UFree else hp_usage s j)" for j
    using big_wf_inner [OF B, of j] b(3,4) by auto
  note G = give_pages [where u = "(hp_usage s)(i := UFree)", OF assms(1) b(1,2) assms(3) u]
  have "zone_pages_wf ?s zn" if "hp_zones s zn = Some z" for zn z
    using G(2) W(4) [OF that] big_zone_disjoint [OF W(1) assms(2) B W(4) [OF that]] assms(4) by (simp add: Int_commute del: span_simp)
  moreover have "big_wf ?s j m" if "hp_usage ?s j = UPage m" for j m
  proof -
    have j: "j \<noteq> i" "hp_usage s j = UPage m" using that by (auto split: if_splits)
    then show ?thesis using G(3) [OF j(2)] big_big_disjoint [OF W(1) j(2) W(5) [OF j(2)] assms(2) B j(1)] assms(4) by simp
  qed
  ultimately have "hwf ?s" using W(1,3) G(1) by (auto simp: hwf_def)
  moreover have "?x \<notin> zone_live s zn" for zn
  proof
    assume "?x \<in> zone_live s zn"
    then obtain z where z: "hp_zones s zn = Some z" "zn \<notin> set (hp_zone_free s)" "p \<in> zone_chunks z" unfolding zone_live_iff by blast
    show False
      using zone_pageD(1) [OF W(1) W(4) [OF z(1)] zone_chunk_inside(4) [OF W(1) W(6) [OF z(1,2)] z(3)]] b(3) assms(2) by simp
  qed
  moreover have "big_live ?s = big_live s - {?x}" using assms(2,4)
    by (auto simp: big_live_def HPAGE_SIZE_def; metis page_usage.inject(2))
  ultimately show ?thesis by (auto simp: frees_def heap_live_def)
qed

text \<open>A zone that was put aside gives its pages back.\<close>

lemma drop_spare_ok:
  assumes "hwf s" "hp_zone_free s = zn # rest" "stale_ok (hp_free_pages s) zn (hp_zone_page_cnt s) stale"
  defines "s' \<equiv> s\<lparr>hp_free_pages := page_free zn (hp_zone_page_cnt s) stale (hp_free_pages s),
      hp_usage := (\<lambda>i. if btokup s zn \<le> i \<and> i < btokup s zn + hp_zone_page_cnt s then UFree else hp_usage s i),
      hp_zones := (hp_zones s)(zn := None), hp_zone_free := rest, hp_zone_free_cnt := length rest\<rparr>"
  shows "hwf s' \<and> heap_live s' = heap_live s"
proof -
  note W = hwfD [OF assms(1)]
  obtain z where z: "hp_zones s zn = Some z" using W(3) assms(2) by (auto simp: lists_wf_def)
  note Z = W(4) [OF z]
  have fw: "\<forall>a \<in> fl_cover (hp_free_pages s). hp_usage s (btokup s a) = UFree" using W(2) by (simp add: free_wf_def)
  have d: "fl_ok (hp_start s) (hp_end s) [(zn, hp_zone_page_cnt s)]" using Z by (simp add: zone_pages_wf_def)
  have e: "span (zn, hp_zone_page_cnt s) \<inter> fl_cover (hp_free_pages s) = {}"
    using zone_pageD(1) [OF W(1) Z] fw by (metis (no_types, lifting) disjoint_iff page_usage.distinct(1))
  note G = give_pages [OF assms(1) d e assms(3) refl]
  have "zone_pages_wf s' zm" if "hp_zones s zm = Some w" "zm \<noteq> zn" for zm w
    using G(2) [OF W(4) [OF that(1)] zone_pages_disjoint [OF W(1) W(4) [OF that(1)] Z that(2)]] by (simp add: s'_def)
  then have zp: "\<forall>zm \<in> dom (hp_zones s'). zone_pages_wf s' zm" by (auto simp: s'_def)
  have b1: "big_wf s' j m \<and> hp_usage s' j = UPage m" if "hp_usage s j = UPage m" for j m
    using G(3) [OF that big_zone_disjoint [OF W(1) that W(5) [OF that] Z]] by (simp add: s'_def)
  have b2: "hp_usage s' j = UPage m \<Longrightarrow> hp_usage s j = UPage m" for j m by (simp add: s'_def split: if_splits)
  have ux: "hp_usage s' j = UPage m \<longleftrightarrow> hp_usage s j = UPage m" for j m using b1 b2 by blast
  then have bw: "\<forall>j m. hp_usage s' j = UPage m \<longrightarrow> big_wf s' j m" using b1 by blast
  have "hp_start s' = hp_start s" by (simp add: s'_def)
  then have bl: "big_live s' = big_live s" unfolding big_live_def ux by simp
  have "zn \<notin> set (hp_zone_array s ! zi)" if "zi < NZONES" for zi
    using lists_wfD [OF W(3) that, of zn] assms(2) by (metis list.set_intros(1))
  moreover have "zn \<notin> set rest" "set rest \<subseteq> dom (hp_zones s)" "distinct rest" using W(3) assms(2) by (auto simp: lists_wf_def)
  ultimately have "lists_wf s'" using W(3) assms(2) unfolding lists_wf_def s'_def by (auto split: if_splits)
  then have "hwf s'" using W(1) G(1) zp bw by (simp add: hwf_def) (simp add: s'_def)
  moreover have "zone_live s' zm = zone_live s zm" for zm
    using assms(2) z by (cases "zm = zn") (auto simp: zone_live_def s'_def split: option.splits)
  then have "heap_live s' = heap_live s" using bl by (simp add: heap_live_def)
  ultimately show ?thesis by blast
qed


text \<open>A zone in use all of whose chunks are back is put aside.\<close>

lemma zone_all_free:
  assumes "zone_wf s zn z" "z_nfree z = z_nmax z"
  shows "zone_chunks z \<subseteq> set (z_freechunk z)"
proof -
  have "card (zone_chunks z) \<le> z_uindex z" using card_image_le [of "{..<z_uindex z}"] by (simp add: zone_chunks_def)
  moreover have "card (set (z_freechunk z)) = z_uindex z"
    using assms by (auto simp: zone_wf_def distinct_card)
  moreover have "set (z_freechunk z) \<subseteq> zone_chunks z" "finite (zone_chunks z)" using assms(1) by (auto simp: zone_wf_def zone_chunks_def)
  ultimately show ?thesis using card_seteq [of "zone_chunks z" "set (z_freechunk z)"] by simp
qed

lemma put_aside_ok:
  fixes z' :: slab_zone
  assumes "hwf s" "hp_zones s zn = Some z" "zn \<notin> set (hp_zone_free s)" "z_nfree z = z_nmax z" "z_zoneindex z = zi"
  defines "s' \<equiv> s\<lparr>hp_zones := (hp_zones s)(zn := Some z'),
      hp_zone_array := (hp_zone_array s)[zi := remove1 zn (hp_zone_array s ! zi)],
      hp_zone_free := zn # hp_zone_free s, hp_zone_free_cnt := hp_zone_free_cnt s + 1\<rparr>"
  shows "hwf s' \<and> heap_live s' = heap_live s"
proof -
  note W = hwfD [OF assms(1)]
  note zw = W(6) [OF assms(2,3)]
  have len: "length (hp_zone_array s) = NZONES" and zi: "zi < NZONES" using W(3) zw assms(5) by (auto simp: lists_wf_def zone_wf_def)
  have dist: "distinct (hp_zone_array s ! zj)" if "zj < NZONES" for zj using W(3) that by (simp add: lists_wf_def)
  have mem: "zm \<notin> set (hp_zone_free s) \<and> (\<exists>w. hp_zones s zm = Some w \<and> z_zoneindex w = zj \<and> 0 < z_nfree w) \<and> (zm = zn \<longrightarrow> zj = zi)"
    if "zj < NZONES" "zm \<in> set (hp_zone_array s ! zj)" for zj zm
    using lists_wfD [OF W(3) that] assms(2,5) by (metis option.inject)
  let ?A = "(hp_zone_array s)[zi := remove1 zn (hp_zone_array s ! zi)]"
  have A: "set (?A ! zj) = set (hp_zone_array s ! zj) - {zn}" "distinct (?A ! zj)" if "zj < NZONES" for zj
  proof -
    have "zn \<notin> set (hp_zone_array s ! zj)" if "zj \<noteq> zi" using mem \<open>zj < NZONES\<close> that by blast
    then show "set (?A ! zj) = set (hp_zone_array s ! zj) - {zn}" "distinct (?A ! zj)"
      using dist [OF that] zi len by (cases "zj = zi"; simp)+
  qed
  have "zm \<noteq> zn \<and> zm \<notin> set (hp_zone_free s) \<and> (\<exists>w. hp_zones s zm = Some w \<and> z_zoneindex w = zj \<and> 0 < z_nfree w)"
    if "zj < NZONES" "zm \<in> set (?A ! zj)" for zj zm
    using mem [OF that(1), of zm] that(2) unfolding A(1) [OF that(1)] by auto
  moreover have "zone_wf s zm w \<and> (0 < z_nfree w \<longrightarrow> zm \<in> set (?A ! z_zoneindex w))"
    if "hp_zones s' zm = Some w" "zm \<notin> insert zn (set (hp_zone_free s))" for zm w
    using that W(6,7) [of zm w] A(1) [of "z_zoneindex w"] by (auto simp: s'_def zone_wf_def)
  ultimately have "lists_wf s'" using W(3) assms(2,3) A(2) len by (auto simp: lists_wf_def s'_def)
  moreover have "\<forall>zm \<in> dom (hp_zones s'). zone_pages_wf s' zm" using W(4) assms(2) by (auto simp: s'_def)
  ultimately have "hwf s'" using W(1,2,5) by (simp add: hwf_def) (simp add: s'_def)
  moreover have "zone_live s' zm = zone_live s zm" for zm
    using zone_all_free [OF zw assms(4)] assms(2,3) by (cases "zm = zn") (auto simp: zone_live_def s'_def split: option.splits)
  then have "heap_live s' = heap_live s" by (simp add: heap_live_def) (simp add: s'_def)
  ultimately show ?thesis by blast
qed

text \<open>A chunk is given back to its zone.\<close>

lemma push_chunk_ok:
  assumes "hwf s" "hp_zones s zn = Some z" "zn \<notin> set (hp_zone_free s)" "c \<in> zone_chunks z" "c \<notin> set (z_freechunk z)"
  defines "z' \<equiv> z\<lparr>z_freechunk := c # z_freechunk z, z_nfree := z_nfree z + 1\<rparr>"
    and "A \<equiv> (if z_nfree z = 0 then (hp_zone_array s)[z_zoneindex z := zn # hp_zone_array s ! z_zoneindex z] else hp_zone_array s)"
  shows "frees s (c, chunk_size (z_zoneindex z)) (s\<lparr>hp_zones := (hp_zones s)(zn := Some z'), hp_zone_array := A\<rparr>)"
proof -
  note W = hwfD [OF assms(1)]
  note zw = W(6) [OF assms(2,3)]
  have zw': "zone_wf s zn z'" using zw assms(4,5) by (auto simp: zone_wf_def z'_def)
  have len: "length (hp_zone_array s) = NZONES" using W(3) by (simp add: lists_wf_def)
  have mem: "zn \<in> set (hp_zone_array s ! zj) \<longleftrightarrow> zj = z_zoneindex z \<and> 0 < z_nfree z" if "zj < NZONES" for zj
    using lists_wfD [OF W(3) that, of zn] W(7) [OF assms(2,3)] assms(2) by (metis option.inject)
  have dist: "distinct (hp_zone_array s ! zj)" if "zj < NZONES" for zj using W(3) that by (simp add: lists_wf_def)
  have "zone_array_upd s zn z' A"
    using mem dist len zw by (auto simp: zone_array_upd_def A_def z'_def nth_list_update zone_wf_def split: if_splits)
  note hw = zone_update_ok [OF assms(1-3) zw' this]
  have "c \<in> span (zn, hp_zone_page_cnt s)" using zone_chunk_inside(4) [OF W(1) zw assms(4)] .
  note el = chunk_not_elsewhere [OF assms(1,2) this, of "chunk_size (z_zoneindex z)"]
  let ?f = "\<lambda>c. (c, chunk_size (z_zoneindex z))"
  have "?f ` (zone_chunks z' - set (z_freechunk z')) = ?f ` (zone_chunks z - set (z_freechunk z)) - {?f c}"
    unfolding z'_def by auto
  then show ?thesis
    using hw el zone_update_live [OF refl assms(3), of A z'] unfolding frees_def zone_live_split [OF assms(2,3)]
    by (auto simp: z'_def)
qed


lemma release_zone_ok:
  assumes "hwf s" "hp_zones s zn = Some z" "zn \<notin> set (hp_zone_free s)" "z_nfree z = z_nmax z"
    and "stale_ok (hp_free_pages s) zn (hp_zone_page_cnt s) stale"
  shows "\<exists>s'. release_zone stale zn z s = (Inr (), s') \<and> hwf s' \<and> heap_live s' = heap_live s"
proof -
  let ?zi = "z_zoneindex z"
  let ?p = "s\<lparr>hp_zones := (hp_zones s)(zn := Some (z\<lparr>z_magic := 0\<rparr>)),
      hp_zone_array := (hp_zone_array s)[?zi := remove1 zn (hp_zone_array s ! ?zi)],
      hp_zone_free := zn # hp_zone_free s, hp_zone_free_cnt := hp_zone_free_cnt s + 1\<rparr>"
  have p: "hwf ?p" "heap_live ?p = heap_live s" using put_aside_ok [OF assms(1-4) refl, of "z\<lparr>z_magic := 0\<rparr>"] by auto
  have cnt: "hp_zone_free_cnt s = length (hp_zone_free s)" using hwfD(3) [OF assms(1)] by (simp add: lists_wf_def)
  have pc: "hp_zone_size s div HPAGE_SIZE = hp_zone_page_cnt s" using hwfD(1) [OF assms(1)] by (simp add: params_wf_def)
  show ?thesis
  proof (cases "hp_zone_free_cnt s < ZONE_FREE_CNT_LIMIT")
    case True
    then show ?thesis using p by (simp add: release_zone_def set_zone_def)
  next
    case False
    have "hp_zone_free ?p = zn # hp_zone_free s" by simp
    note d = drop_spare_ok [OF p(1) this, of stale]
    let ?u = "\<lambda>i. if btokup s zn \<le> i \<and> i < btokup s zn + hp_zone_page_cnt s then UFree else hp_usage s i"
    let ?f = "s\<lparr>hp_zone_array := (hp_zone_array s)[?zi := remove1 zn (hp_zone_array s ! ?zi)], hp_usage := ?u,
      hp_zones := (hp_zones s)(zn := None), hp_free_pages := page_free zn (hp_zone_page_cnt s) stale (hp_free_pages s)\<rparr>"
    have eq: "?p\<lparr>hp_free_pages := page_free zn (hp_zone_page_cnt ?p) stale (hp_free_pages ?p),
      hp_usage := (\<lambda>i. if btokup ?p zn \<le> i \<and> i < btokup ?p zn + hp_zone_page_cnt ?p then UFree else hp_usage ?p i),
      hp_zones := (hp_zones ?p)(zn := None), hp_zone_free := hp_zone_free s, hp_zone_free_cnt := length (hp_zone_free s)\<rparr> = ?f"
      unfolding cnt [symmetric] by (simp cong: if_cong)
    have "hwf ?f \<and> heap_live ?f = heap_live s" using d assms(5) p(2) unfolding eq by simp
    moreover have "release_zone stale zn z s = (Inr (), ?f)"
      using False pc by (simp add: release_zone_def set_zone_def cong: if_cong)
    ultimately show ?thesis by blast
  qed
qed

lemma zone_of_chunk:
  assumes "params_wf s" "zone_pages_wf s zn" "c \<in> span (zn, hp_zone_page_cnt s)"
  shows "hp_usage s (btokup s c) = UZone (btokup s c - btokup s zn)"
    "hround_down c HPAGE_SIZE - (btokup s c - btokup s zn) * HPAGE_SIZE = zn"
proof -
  note P = zone_pageD [OF assms]
  show "hp_usage s (btokup s c) = UZone (btokup s c - btokup s zn)" by (rule P(1))
  have zn: "zn = hp_start s + btokup s zn * HPAGE_SIZE"
    using assms(1,2) by (intro page_of_btokup) (auto simp: params_wf_def zone_pages_wf_def fl_ok_Cons)
  obtain m where m: "hp_start s = HPAGE_SIZE * m" using assms(1) by (auto simp: params_wf_def)
  have "c = HPAGE_SIZE * m + (c - hp_start s)" using P(3) m by simp
  then have "c div HPAGE_SIZE = m + btokup s c" unfolding btokup_def
    by (metis HPAGE_SIZE_def HPAGE_pos div_mult_self4 less_numeral_extra(3))
  then have "hround_down c HPAGE_SIZE = hp_start s + btokup s c * HPAGE_SIZE"
    using m by (simp add: hround_down_def add_mult_distrib)
  moreover have "btokup s c * HPAGE_SIZE = btokup s zn * HPAGE_SIZE + (btokup s c - btokup s zn) * HPAGE_SIZE"
    using P(2) by (metis add_mult_distrib le_add_diff_inverse)
  ultimately show "hround_down c HPAGE_SIZE - (btokup s c - btokup s zn) * HPAGE_SIZE = zn" using zn by simp
qed

lemma free_chunk_ok:
  assumes "hwf s" "hp_zones s zn = Some z" "zn \<notin> set (hp_zone_free s)" "c \<in> zone_chunks z" "c \<notin> set (z_freechunk z)"
    and "stale_ok (hp_free_pages s) zn (hp_zone_page_cnt s) stale"
  shows "\<exists>s'. free_chunk stale c zn s = (Inr (), s') \<and> frees s (c, chunk_size (z_zoneindex z)) s'"
proof -
  note zw = hwfD(6) [OF assms(1-3)]
  have mg: "z_magic z = ZALLOC_SLAB_MAGIC" using zw by (simp add: zone_wf_def)
  let ?z = "z\<lparr>z_freechunk := c # z_freechunk z, z_nfree := z_nfree z + 1\<rparr>"
  note P = push_chunk_ok [OF assms(1-5)]
  show ?thesis
  proof (cases "z_nfree z = 0")
    case True
    then show ?thesis using P assms(2) mg by (simp add: free_chunk_def set_zone_def Let_def)
  next
    case False
    let ?s = "s\<lparr>hp_zones := (hp_zones s)(zn := Some ?z)\<rparr>"
    have fr: "frees s (c, chunk_size (z_zoneindex z)) ?s" using P False by simp
    have run: "free_chunk stale c zn s = (if z_nfree z + 1 = z_nmax z \<and>
        (last (hp_zone_array s ! z_zoneindex z) \<noteq> zn \<or> hd (hp_zone_array s ! z_zoneindex z) \<noteq> zn)
        then release_zone stale zn ?z ?s else (Inr (), ?s))"
      using False assms(2) mg by (auto simp: free_chunk_def set_zone_def Let_def sret_apply)
    have "\<exists>s'. release_zone stale zn ?z ?s = (Inr (), s') \<and> hwf s' \<and> heap_live s' = heap_live ?s" if "z_nfree z + 1 = z_nmax z"
      using fr assms(3,6) that by (intro release_zone_ok) (auto simp: frees_def)
    then show ?thesis using fr unfolding run by (auto simp: frees_def)
  qed
qed

definition free_stale_ok :: "nat \<Rightarrow> nat \<Rightarrow> slab_heap \<Rightarrow> bool" where
  "free_stale_ok stale chunk s = (case hp_usage s (btokup s chunk) of
     UFree \<Rightarrow> True
   | UZone off \<Rightarrow> stale_ok (hp_free_pages s) (hround_down chunk HPAGE_SIZE - off * HPAGE_SIZE) (hp_zone_page_cnt s) stale
   | UPage n \<Rightarrow> stale_ok (hp_free_pages s) chunk n stale)"

lemma free_ok:
  assumes "hwf s" "(p, len) \<in> heap_live s" "free_stale_ok stale p s"
  shows "\<exists>s'. heap_free stale p s = (Inr (), s') \<and> frees s (p, len) s'"
proof -
  note W = hwfD [OF assms(1)]
  have p: "p \<noteq> 0" using live_inside(4) [OF assms(1,2)] by simp
  from assms(2) show ?thesis
  proof (cases rule: live_cases)
    case (chunk zn z c)
    note Z = zone_of_chunk [OF W(1) W(4) [OF chunk(1)] zone_chunk_inside(4) [OF W(1) W(6) [OF chunk(1,2)] chunk(3)]]
    have "stale_ok (hp_free_pages s) zn (hp_zone_page_cnt s) stale"
      using assms(3) Z chunk(5) by (simp add: free_stale_ok_def)
    from free_chunk_ok [OF assms(1) chunk(1-4) this] show ?thesis using p Z chunk(5) by (simp add: heap_free_def)
  next
    case (big i n)
    then have "stale_ok (hp_free_pages s) p n stale" using assms(3) by (simp add: free_stale_ok_def)
    from big_free_ok [OF assms(1) big(1) this]
    have "frees s (p, len) (s\<lparr>hp_free_pages := page_free p n stale (hp_free_pages s), hp_usage := (hp_usage s)(i := UFree)\<rparr>)"
      using big(2) by simp
    moreover have "btokup s p = i" using big(2) by simp
    ultimately show ?thesis using p big(1) by (simp add: heap_free_def)
  qed
qed

end
