(* ===== verification/Kernel_Heap_Props.thy ===== *)
theory Kernel_Heap_Props
  imports Kernel_Heap_Ops
begin

text \<open>
  The kernel heap as its clients see it: the interface \<open>allocator\<close>, its interpretation on the slab allocator, all runs
  of allocations and deallocations, and examples where the allocator goes wrong outside the conditions of the theorems.
\<close>

section \<open>Runs of the allocator\<close>

lemma zone_size_loop_32K: "zone_size_loop l 32768 \<in> {32768, 65536, 131072}"
  by (simp add: zone_size_loop.simps [of l 32768] zone_size_loop.simps [of l 65536] zone_size_loop.simps [of l 131072])

lemma heap_init_ok:
  assumes "heap_init ns start end = Inr s" "0 < ns" "ns \<le> 4096" "0 < start" "end < 2 ^ 64" "end < start + 2 ^ 44"
  shows "hwf s" "heap_live s = {}"
proof -
  let ?hs = "round_up_nat start HPAGE_SIZE" and ?he = "hround_down end HPAGE_SIZE"
  let ?np = "(?he - ?hs) div HPAGE_SIZE"
  let ?k = "round_up_nat (?np * SIZE_OF_PAGE_USAGE) HPAGE_SIZE div HPAGE_SIZE"
  have lt: "?hs < ?he" and up: "hround_up start HPAGE_SIZE = Inr ?hs" "hround_up (?np * SIZE_OF_PAGE_USAGE) HPAGE_SIZE = Inr (round_up_nat (?np * SIZE_OF_PAGE_USAGE) HPAGE_SIZE)"
    using assms(1) by (auto simp: heap_init_def hround_up_run Let_def rbind_def split: if_splits sum.splits prod.splits)
  have he: "?he < 2 ^ 64" using assms(5) div_times_less_eq_dividend [of "end" HPAGE_SIZE] unfolding hround_down_def by linarith
  have "?he \<le> end" unfolding hround_down_def by simp
  moreover have "start \<le> ?hs" using round_up_nat_bounds [of HPAGE_SIZE start] by (simp add: HPAGE_SIZE_def)
  ultimately have "?he < 2 ^ 44 + ?hs" using assms(6) by linarith
  then have small: "?he - ?hs < 2 ^ 44" using lt by (simp add: less_diff_conv2)
  have hs: "0 < ?hs" using round_up_nat_bounds [of HPAGE_SIZE start] assms(4) by simp
  have d: "HPAGE_SIZE dvd ?hs" "HPAGE_SIZE dvd ?he" by (simp_all add: round_up_nat_def hround_down_def)
  then have sz: "?np * HPAGE_SIZE = ?he - ?hs" by (simp add: dvd_diff_nat)
  then have "fl_ok ?hs ?he (page_init ?hs ?np)" using lt d by (cases "?np") (auto simp: page_init_def fl_ok_Cons)
  moreover obtain p fl where pa: "page_alloc ?k (page_init ?hs ?np) = (p, fl)" by fastforce
  ultimately have fl: "fl_ok ?hs ?he fl" using page_alloc_ok(1) hs by blast
  have s: "s = \<lparr>hp_free_pages = fl, hp_usage = (\<lambda>_. UFree), hp_start = ?hs, hp_end = ?he, hp_zones = (\<lambda>_. None),
      hp_zone_array = replicate NZONES [], hp_zone_free = [], hp_zone_free_cnt = 0,
      hp_chunk_limit = min (zone_size_loop (?he - ?hs) 32768 div 4) 16384, hp_zone_size = zone_size_loop (?he - ?hs) 32768,
      hp_zone_page_cnt = zone_size_loop (?he - ?hs) 32768 div HPAGE_SIZE, hp_node_size = ns\<rparr>"
    using assms(1) lt pa up by (simp add: heap_init_def Let_def)
  show "heap_live s = {}" by (simp add: s heap_live_def zone_live_def big_live_def)
  show "hwf s" using hs he small d(1) fl assms(2,3) zone_size_loop_32K [of "?he - ?hs"]
    by (simp add: s hwf_def params_wf_def free_wf_def lists_wf_def)
qed

text \<open>What a client may rely on: blocks that are out do not overlap. \<open>tracks\<close> relates the blocks a client holds, with
  the sizes it asked for, to the allocations of the allocator.\<close>

definition tracks :: "('s \<Rightarrow> bool) \<Rightarrow> ('s \<Rightarrow> (nat \<times> nat) set) \<Rightarrow> 's \<Rightarrow> (nat \<times> nat) list \<Rightarrow> bool" where
  "tracks ok live s L \<longleftrightarrow> ok s \<and> distinct (map fst L) \<and> (\<forall>(p, n) \<in> set L. \<exists>len. n \<le> len \<and> (p, len) \<in> live s)"

locale allocator =
  fixes ok :: "'s \<Rightarrow> bool" and live :: "'s \<Rightarrow> (nat \<times> nat) set"
    and alloc :: "nat \<Rightarrow> nat \<Rightarrow> ('s, nat) st" and dealloc :: "nat \<Rightarrow> nat \<Rightarrow> ('s, unit) st"
    and safe :: "nat \<Rightarrow> nat \<Rightarrow> 's \<Rightarrow> bool" and fits :: "nat \<Rightarrow> nat \<Rightarrow> bool"
  assumes disjoint: "ok s \<Longrightarrow> x \<in> live s \<Longrightarrow> y \<in> live s \<Longrightarrow> x \<noteq> y \<Longrightarrow> bytes x \<inter> bytes y = {}"
    and nonempty: "ok s \<Longrightarrow> (p, len) \<in> live s \<Longrightarrow> 0 < len"
    and alloc_fits: "ok s \<Longrightarrow> alloc n al s = (Inr p, s') \<Longrightarrow> fits n al"
    and alloc: "ok s \<Longrightarrow> fits n al \<Longrightarrow> \<exists>p s'. alloc n al s = (Inr p, s') \<and> ok s' \<and> (if p = 0 then live s' = live s
      else \<exists>len. n \<le> len \<and> (p, len) \<notin> live s \<and> live s' = insert (p, len) (live s))"
    and dealloc: "ok s \<Longrightarrow> (p, len) \<in> live s \<Longrightarrow> safe w p s \<Longrightarrow>
      \<exists>s'. dealloc w p s = (Inr (), s') \<and> ok s' \<and> live s' = live s - {(p, len)}"
begin

lemma tracks_alloc:
  assumes "tracks ok live s L" "alloc n al s = (Inr p, s')"
  shows "tracks ok live s' (if p = 0 then L else (p, n) # L)"
proof -
  have a: "ok s'" "if p = 0 then live s' = live s else \<exists>len. n \<le> len \<and> (p, len) \<notin> live s \<and> live s' = insert (p, len) (live s)"
    using alloc [of s n al] alloc_fits [of s n al] assms by (auto simp: tracks_def)
  show ?thesis
  proof (cases "p = 0")
    case True
    then show ?thesis using assms(1) a by (simp add: tracks_def)
  next
    case False
    then obtain len where l: "n \<le> len" "(p, len) \<notin> live s" "live s' = insert (p, len) (live s)" using a(2) by auto
    have "p \<notin> fst ` set L"
    proof
      assume "p \<in> fst ` set L"
      then obtain k where "(p, k) \<in> live s" using assms(1) by (auto simp: tracks_def)
      then have "(p, k) \<noteq> (p, len)" "(p, k) \<in> live s'" "(p, len) \<in> live s'" using l(2,3) by auto
      then show False using disjoint [OF a(1), of "(p, k)" "(p, len)"] nonempty [OF a(1)] by (auto simp: disjoint_iff)
    qed
    then show ?thesis using assms(1) a(1) l False by (auto simp: tracks_def)
  qed
qed

lemma tracks_dealloc:
  assumes "tracks ok live s L" "(p, n) \<in> set L" "safe x p s"
  shows "\<exists>s'. dealloc x p s = (Inr (), s') \<and> tracks ok live s' (remove1 (p, n) L)"
proof -
  have d: "ok s" "distinct (map fst L)" using assms(1) by (auto simp: tracks_def)
  obtain len where "(p, len) \<in> live s" using assms(1,2) by (auto simp: tracks_def)
  from dealloc [OF d(1) this assms(3)] obtain s' where s': "dealloc x p s = (Inr (), s')" "ok s'" "live s' = live s - {(p, len)}"
    by blast
  have dl: "distinct L" "inj_on fst (set L)" using d(2) by (auto simp: distinct_map)
  have "q \<noteq> p" if "(q, m) \<in> set (remove1 (p, n) L)" for q m
    using that dl(1) inj_onD [OF dl(2), of "(p, n)" "(p, m)"] assms(2) by auto
  moreover have "distinct (map fst (remove1 (p, n) L))"
    using dl by (auto simp: distinct_map intro: inj_on_subset)
  ultimately have "tracks ok live s' (remove1 (p, n) L)"
    using assms(1) s'(2,3) dl(1) unfolding tracks_def by fastforce
  then show ?thesis using s'(1) by blast
qed

lemma tracks_disjoint:
  assumes "tracks ok live s L"
  shows "sorted_wrt (\<lambda>x y. bytes x \<inter> bytes y = {}) L"
proof -
  have "bytes (p, n) \<inter> bytes (q, m) = {}" if "(p, n) \<in> set L" "(q, m) \<in> set L" "p \<noteq> q" for p n q m
  proof -
    have "\<exists>k l. n \<le> k \<and> (p, k) \<in> live s \<and> m \<le> l \<and> (q, l) \<in> live s"
      using assms that(1,2) unfolding tracks_def by blast
    then obtain k l where kl: "n \<le> k" "(p, k) \<in> live s" "m \<le> l" "(q, l) \<in> live s" by blast
    have "bytes (p, k) \<inter> bytes (q, l) = {}" using disjoint [OF _ kl(2,4)] assms that(3) by (simp add: tracks_def)
    moreover have "bytes (p, n) \<subseteq> bytes (p, k)" "bytes (q, m) \<subseteq> bytes (q, l)" using kl by auto
    ultimately show ?thesis by blast
  qed
  then have dj: "bytes x \<inter> bytes y = {}" if "x \<in> set L" "y \<in> set L" "fst x \<noteq> fst y" for x y
    using that by (cases x; cases y) (simp del: bytes_simp)
  have "distinct (map fst L)" using assms by (simp add: tracks_def)
  then show ?thesis
    unfolding sorted_wrt_iff_nth_less distinct_conv_nth
    by (intro allI impI dj) (simp_all add: less_imp_neq)
qed

end

text \<open>A request that can be rounded up to whole pages without an overflow.\<close>

definition request_fits :: "nat \<Rightarrow> nat \<Rightarrow> bool" where
  "request_fits n al \<longleftrightarrow> max n al + HPAGE_SIZE < 2 ^ 64"

lemma alloc_overflow: "hwf s \<Longrightarrow> \<not> request_fits n al \<Longrightarrow> heap_alloc n al s = (Inl (Panic Overflow), s)"
  using malloc_overflow [of s "max n al"] by (simp add: request_fits_def heap_alloc_def not_less)

lemma alloc_ok:
  assumes "hwf s" "request_fits n al"
  shows "\<exists>p s'. heap_alloc n al s = (Inr p, s') \<and> hwf s' \<and>
    (if p = 0 then heap_live s' = heap_live s \<and> (max n al = 0 \<or> out_of_pages (pages_needed (max n al) s) s)
     else \<exists>len. n \<le> len \<and> (p, len) \<notin> heap_live s \<and> heap_live s' = insert (p, len) (heap_live s))"
  using malloc_ok [OF assms(1), of "max n al"] assms by (fastforce simp: heap_alloc_def allocates_def request_fits_def)

interpretation hp: allocator hwf heap_live heap_alloc heap_dealloc free_stale_ok request_fits
proof unfold_locales
  show "\<exists>p s'. heap_alloc n al s = (Inr p, s') \<and> hwf s' \<and> (if p = 0 then heap_live s' = heap_live s
      else \<exists>len. n \<le> len \<and> (p, len) \<notin> heap_live s \<and> heap_live s' = insert (p, len) (heap_live s))" if "hwf s" "request_fits n al" for s n al
    using alloc_ok [OF that] by (metis (no_types, lifting))
  show "request_fits n al" if "hwf s" "heap_alloc n al s = (Inr p, s')" for s n al p s'
    using alloc_overflow [OF that(1), of n al] that(2) by auto
  show "\<exists>s'. heap_dealloc x p s = (Inr (), s') \<and> hwf s' \<and> heap_live s' = heap_live s - {(p, len)}"
    if "hwf s" "(p, len) \<in> heap_live s" "free_stale_ok x p s" for s p len x
    using free_ok [OF that] by (simp add: heap_dealloc_def frees_def)
qed (auto intro: live_inside(3) dest: live_disjoint)

text \<open>Allocations and deallocations in any order, and the blocks that are out: what was asked for, under the address
  that was returned.  A deallocation reads a word of the pages it gives back before it writes it, which may be anything the
  client left there; the flag tells whether at every deallocation so far that word was harmless (\<open>free_stale_ok\<close>: read as
  a number of pages, it does not lead to the start of a free stretch other than the one right behind the freed pages).\<close>

inductive heap_run :: "bool \<Rightarrow> slab_heap \<Rightarrow> (nat \<times> nat) list \<Rightarrow> bool" where
  init: "heap_init ns start end = Inr s \<Longrightarrow> 0 < ns \<Longrightarrow> ns \<le> 4096 \<Longrightarrow> 0 < start \<Longrightarrow> end < 2 ^ 64 \<Longrightarrow> end < start + 2 ^ 44 \<Longrightarrow>
    heap_run True s []"
| alloc: "heap_run c s L \<Longrightarrow> heap_alloc n align s = (Inr p, s') \<Longrightarrow> heap_run c s' (if p = 0 then L else (p, n) # L)"
| dealloc: "heap_run c s L \<Longrightarrow> (p, n) \<in> set L \<Longrightarrow> heap_dealloc stale p s = (Inr (), s') \<Longrightarrow>
    heap_run (c \<and> free_stale_ok stale p s) s' (remove1 (p, n) L)"

lemma heap_run_tracks: "heap_run c s L \<Longrightarrow> c \<Longrightarrow> tracks hwf heap_live s L"
proof (induction rule: heap_run.induct)
  case (init ns start "end" s)
  then show ?case using heap_init_ok [OF init.hyps] by (simp add: tracks_def)
next
  case (alloc c s L n align p s')
  show ?case by (rule hp.tracks_alloc [OF alloc.IH [OF alloc.prems] alloc.hyps(2)])
next
  case (dealloc c s L p n stale s')
  then show ?case using hp.tracks_dealloc [OF dealloc.IH dealloc.hyps(2), of stale] by auto
qed

text \<open>C10: memory is not given out twice, as long as the words that \<open>page_free\<close> reads too early are harmless.  After
  allocations and deallocations in any order, at each of which the word that is read before it is written does not lead to
  the start of a free stretch other than the neighbour (the flag of \<open>heap_run\<close> is true), the blocks that are out, with the
  sizes that were asked for, do not overlap.  The code does not establish that condition, and without it pages in use are
  freed (\<open>page_free_stale_overlap\<close>).\<close>

theorem heap_blocks_disjoint:
  assumes "heap_run True s L"
  shows "sorted_wrt (\<lambda>x y. bytes x \<inter> bytes y = {}) L"
  by (rule hp.tracks_disjoint [OF heap_run_tracks [OF assms TrueI]])

definition hw0 :: slab_heap where
  "hw0 = \<lparr>hp_free_pages = [(8192, 62)], hp_usage = (\<lambda>_. UFree), hp_start = 4096, hp_end = 262144, hp_zones = (\<lambda>_. None),
     hp_zone_array = replicate 72 [], hp_zone_free = [], hp_zone_free_cnt = 0, hp_chunk_limit = 8192,
     hp_zone_size = 32768, hp_zone_page_cnt = 8, hp_node_size = 64\<rparr>"

definition hw1 :: slab_heap where
  "hw1 = hw0\<lparr>hp_free_pages := [(40960, 54)], hp_usage := (\<lambda>i. if 1 \<le> i \<and> i < 9 then UZone (i - 1) else UFree),
     hp_zones := [8192 \<mapsto> \<lparr>z_magic = ZALLOC_SLAB_MAGIC, z_nfree = 816, z_nmax = 817, z_uindex = 1, z_baseptr = 8256,
       z_zoneindex = 4, z_freechunk = []\<rparr>], hp_zone_array := (replicate 72 [])[4 := [8192]]\<rparr>"

lemma hw0_run: "heap_run True hw0 []"
proof -
  have "heap_init 64 4096 262144 = Inr hw0"
    by (simp add: heap_init_def Let_def hround_up_def hround_down_def HPAGE_SIZE_def page_init_def page_alloc_def SIZE_OF_PAGE_USAGE_def
      zone_size_loop.simps hw0_def NZONES_def)
  then show ?thesis by (rule heap_run.init) simp_all
qed

lemma zone_index_40: "zone_index 40 = Inr (4, 40)"
  by (simp add: zone_index_def bit_length.simps hround_up_def)

lemmas heap_eval = heap_alloc_def heap_malloc_def zone_index_40 hround_up_def hround_down_def HPAGE_SIZE_def
  get_zone_def heap_page_alloc_def page_alloc_def init_zone_def first_chunk_offset_def set_zone_def NZONES_def btokup_def
  sret_apply slift_apply Let_def

lemma hw1_alloc: "heap_alloc 40 8 hw0 = (Inr 8256, hw1)"
  by (simp add: heap_eval sbind_assoc hw0_def hw1_def sbind_def cong: if_cong)

lemma hw2_alloc: "\<exists>s. heap_alloc 20000 8 hw1 = (Inr 40960, s)"
  by (simp add: heap_eval sbind_assoc hw0_def hw1_def sbind_def cong: if_cong)

theorem heap_blocks_disjoint_witness:
  "\<exists>s. heap_run True s [(40960, 20000), (8256, 40)] \<and> sorted_wrt (\<lambda>x y. bytes x \<inter> bytes y = {}) [(40960, 20000), (8256, 40)]"
proof -
  obtain s where "heap_alloc 20000 8 hw1 = (Inr 40960, s)" using hw2_alloc by blast
  from heap_run.alloc [OF heap_run.alloc [OF hw0_run hw1_alloc] this]
  have "heap_run True s [(40960, 20000), (8256, 40)]" by simp
  with heap_blocks_disjoint show ?thesis by blast
qed

text \<open>C12: when the allocator panics.  In every state reached by allocations and deallocations that were all harmless in the
  sense of \<open>heap_run\<close>, an allocation whose size and alignment stay at least a page below \<open>2 ^ 64\<close> returns, and returns null
  only for size and alignment 0 or when every free stretch is shorter than the pages it needs; a larger request panics on
  the overflow of \<open>round_up!\<close> and changes nothing.  Every block that is out can be given back, again if the word that is
  read too early is harmless.\<close>

theorem heap_never_panics:
  assumes "heap_run True s L"
  shows "(if max n al + 4096 < 2 ^ 64
     then \<exists>p s'. heap_alloc n al s = (Inr p, s') \<and> (p = 0 \<longrightarrow> max n al = 0 \<or> out_of_pages (pages_needed (max n al) s) s)
     else heap_alloc n al s = (Inl (Panic Overflow), s)) \<and>
    (\<forall>(p, m) \<in> set L. free_stale_ok stale p s \<longrightarrow> (\<exists>s'. heap_dealloc stale p s = (Inr (), s')))"
proof -
  note T = heap_run_tracks [OF assms TrueI]
  then have "hwf s" by (simp add: tracks_def)
  then have "if max n al + 4096 < 2 ^ 64
    then \<exists>p s'. heap_alloc n al s = (Inr p, s') \<and> (p = 0 \<longrightarrow> max n al = 0 \<or> out_of_pages (pages_needed (max n al) s) s)
    else heap_alloc n al s = (Inl (Panic Overflow), s)"
    using alloc_ok [of s n al] alloc_overflow [of s n al] by (fastforce simp: request_fits_def HPAGE_SIZE_def)
  moreover have "\<forall>(p, m) \<in> set L. free_stale_ok stale p s \<longrightarrow> (\<exists>s'. heap_dealloc stale p s = (Inr (), s'))"
    using hp.tracks_dealloc [OF T] by blast
  ultimately show ?thesis by blast
qed

theorem heap_never_panics_witness:
  "(\<exists>s'. heap_dealloc 0 8256 hw1 = (Inr (), s')) \<and> (\<exists>p s'. heap_alloc 1 1 hw1 = (Inr p, s')) \<and>
    heap_alloc (2 ^ 64 - 1) 1 hw1 = (Inl (Panic Overflow), hw1)"
proof -
  have run: "heap_run True hw1 [(8256, 40)]" using heap_run.alloc [OF hw0_run hw1_alloc] by simp
  have "free_stale_ok 0 8256 hw1"
    by (simp add: free_stale_ok_def stale_ok_def get_right_ptr_def hw1_def hw0_def btokup_def hround_down_def HPAGE_SIZE_def)
  with heap_never_panics [OF run, of 1 1 0] heap_never_panics [OF run, of "2 ^ 64 - 1" 1 0]
  show ?thesis by auto
qed

section \<open>Where the allocator goes wrong\<close>

text \<open>\<open>page_free\<close> reads the length of the stretch it frees before it writes it. Here the memory holds 2, the stretch is
  one page long, and the free stretch starts two pages on: the page in between, in use, becomes free and is given out.\<close>

lemma page_free_stale_overlap:
  "page_free 4096 1 2 [(12288, 5)] = [(4096, 6)]" "fst (page_alloc 2 (page_free 4096 1 2 [(12288, 5)])) = 4096"
  by (simp_all add: get_right_ptr_def HPAGE_SIZE_def page_alloc_def)

text \<open>A stretch behind the last free one that does not touch it is lost, and every stretch when the list is empty.\<close>

lemma page_free_lost:
  "(\<And>a n. (a, n) \<in> set fl \<Longrightarrow> get_right_ptr a n \<noteq> cur \<and> a < get_right_ptr cur stale) \<Longrightarrow> page_free cur np stale fl = fl"
  by (induction cur np stale fl rule: page_free.induct) fastforce+

text \<open>The alignment is only asked for as a size: the second block of 40 bytes aligned to 16 is not.\<close>

lemma alloc_misaligned: "\<exists>s. heap_alloc 40 16 hw1 = (Inr 8296, s) \<and> \<not> 16 dvd (8296 :: nat)"
  by (simp add: heap_eval alloc_from_zone_def sbind_assoc hw0_def hw1_def sbind_def cong: if_cong)

end
