(* ===== verification/Forward_List.thy ===== *)
theory Forward_List
  imports Prelude
begin

text \<open>
  The intrusive singly linked list of \<open>kernel/src/mm/heap/slab_allocator/linked_list/forward_list.rs\<close>:
  a head pointer and the \<open>next\<close> fields of the nodes, which live in the memory the list manages. A
  list is represented by the store of its \<open>next\<close> fields, indexed by the address of the node, and its
  head. \<open>fl_rep nx h xs\<close> says that the nodes reached from \<open>h\<close> are \<open>xs\<close>; the operations refine the
  operations on \<open>xs\<close>.
\<close>

type_synonym next_store = "usize \<Rightarrow> usize"

definition fl_new :: usize where
  "fl_new = 0"

definition fl_get_head :: "usize \<Rightarrow> usize" where
  "fl_get_head h = h"

definition fl_set_head :: "usize \<Rightarrow> usize \<Rightarrow> usize" where
  "fl_set_head new h = new"

definition fl_push_front :: "usize \<Rightarrow> next_store \<times> usize \<Rightarrow> next_store \<times> usize" where
  "fl_push_front new = (\<lambda>(nx, h). (nx(new := h), new))"

definition fl_pop_front :: "next_store \<times> usize \<Rightarrow> next_store \<times> usize" where
  "fl_pop_front = (\<lambda>(nx, h). (nx(h := 0), nx h))"

text \<open>\<open>remove\<close> walks a reference to a pointer cell: the head of the list or the \<open>next\<close> field of a node.
  The walk only returns when it meets the node, so it is partial; following a null pointer is the
  value \<open>None\<close> too.\<close>

datatype cell = HeadCell | NextCell usize

definition deref :: "next_store \<times> usize \<Rightarrow> cell \<Rightarrow> usize" where
  "deref l c = (case c of HeadCell \<Rightarrow> snd l | NextCell a \<Rightarrow> fst l a)"

definition assign :: "cell \<Rightarrow> usize \<Rightarrow> next_store \<times> usize \<Rightarrow> next_store \<times> usize" where
  "assign c v l = (case c of HeadCell \<Rightarrow> (fst l, v) | NextCell a \<Rightarrow> ((fst l)(a := v), snd l))"

partial_function (option) fl_remove_walk :: "next_store \<times> usize \<Rightarrow> usize \<Rightarrow> cell \<Rightarrow> cell option" where
  "fl_remove_walk l node prev =
     (if deref l prev = node then Some prev
      else if deref l prev = 0 then None
      else fl_remove_walk l node (NextCell (deref l prev)))"

definition fl_remove :: "usize \<Rightarrow> next_store \<times> usize \<Rightarrow> (next_store \<times> usize) option" where
  "fl_remove node l =
     (case fl_remove_walk l node HeadCell of
        None \<Rightarrow> None
      | Some prev \<Rightarrow> Some (assign prev (fst l node) l))"

definition fl_insert_after :: "usize \<Rightarrow> usize \<Rightarrow> next_store \<Rightarrow> next_store" where
  "fl_insert_after self new nx = nx(new := nx self, self := new)"

definition fl_erase_after :: "usize \<Rightarrow> next_store \<Rightarrow> next_store" where
  "fl_erase_after self nx = nx(self := nx (nx self))"

definition fl_has_next :: "usize \<Rightarrow> next_store \<Rightarrow> bool" where
  "fl_has_next self nx \<longleftrightarrow> nx self \<noteq> 0"

definition fl_get_next :: "usize \<Rightarrow> next_store \<Rightarrow> usize" where
  "fl_get_next self nx = nx self"

section \<open>The list a head stands for\<close>

fun fl_rep :: "next_store \<Rightarrow> usize \<Rightarrow> usize list \<Rightarrow> bool" where
  "fl_rep nx h [] \<longleftrightarrow> h = 0"
| "fl_rep nx h (x # xs) \<longleftrightarrow> h = x \<and> x \<noteq> 0 \<and> fl_rep nx (nx x) xs"

lemma fl_rep_cong:
  "fl_rep nx h xs \<Longrightarrow> (\<And>x. x \<in> set xs \<Longrightarrow> nx' x = nx x) \<Longrightarrow> fl_rep nx' h xs"
  by (induction xs arbitrary: h) auto

lemma fl_rep_fun_upd [simp]: "a \<notin> set xs \<Longrightarrow> fl_rep (nx(a := v)) h xs = fl_rep nx h xs"
  by (induction xs arbitrary: h) auto

lemma fl_rep_null: "fl_rep nx 0 xs \<longleftrightarrow> xs = []"
  by (cases xs) auto

lemma fl_rep_nonzero: "fl_rep nx h xs \<Longrightarrow> 0 \<notin> set xs"
  by (induction xs arbitrary: h) auto

lemma fl_rep_det: "fl_rep nx h xs \<Longrightarrow> fl_rep nx h ys \<Longrightarrow> xs = ys"
proof (induction xs arbitrary: h ys)
  case Nil
  then show ?case by (cases ys) auto
next
  case (Cons x xs)
  then show ?case by (cases ys) auto
qed

lemma fl_push_front_rep:
  assumes "fl_rep nx h xs" "new \<noteq> 0" "new \<notin> set xs"
  shows "case fl_push_front new (nx, h) of (nx', h') \<Rightarrow> fl_rep nx' h' (new # xs)"
  using assms by (simp add: fl_push_front_def)

lemma fl_pop_front_rep:
  assumes "fl_rep nx h (x # xs)" "x \<notin> set xs"
  shows "case fl_pop_front (nx, h) of (nx', h') \<Rightarrow> fl_rep nx' h' xs"
  using assms by (simp add: fl_pop_front_def)

text \<open>The walk ends at the cell that points to the node.\<close>

lemma fl_remove_walk_found:
  assumes "fl_rep nx (deref (nx, h) c) xs" "node \<in> set xs" "distinct xs"
  shows "\<exists>ys zs. xs = ys @ node # zs \<and>
    fl_remove_walk (nx, h) node c = Some (if ys = [] then c else NextCell (last ys))"
  using assms
proof (induction xs arbitrary: c)
  case (Cons x xs)
  show ?case
  proof (cases "x = node")
    case True
    with Cons.prems(1) show ?thesis
      by (intro exI [of _ "[]"] exI [of _ xs]) (simp add: fl_remove_walk.simps [of _ _ c])
  next
    case False
    with Cons.prems have "fl_rep nx (deref (nx, h) (NextCell x)) xs" "node \<in> set xs" "distinct xs"
      by (auto simp: deref_def)
    from Cons.IH [OF this] obtain ys zs where yz: "xs = ys @ node # zs"
      "fl_remove_walk (nx, h) node (NextCell x) = Some (if ys = [] then NextCell x else NextCell (last ys))"
      by blast
    moreover have "fl_remove_walk (nx, h) node c = fl_remove_walk (nx, h) node (NextCell x)"
      using Cons.prems(1) False by (simp add: fl_remove_walk.simps [of _ _ c])
    ultimately show ?thesis by (intro exI [of _ "x # ys"] exI [of _ zs]) simp
  qed
qed simp

lemma fl_rep_unlink:
  assumes "fl_rep nx h (ys @ node # zs)" "distinct (ys @ node # zs)" "ys \<noteq> []"
  shows "fl_rep (nx(last ys := nx node)) h (ys @ zs)"
  using assms
proof (induction ys arbitrary: h)
  case (Cons y ys)
  show ?case
  proof (cases "ys = []")
    case True
    with Cons.prems show ?thesis by (auto intro: fl_rep_cong)
  next
    case False
    have "fl_rep (nx(last ys := nx node)) (nx y) (ys @ zs)"
      by (rule Cons.IH) (use Cons.prems False in auto)
    moreover have "y \<noteq> last ys" using Cons.prems(2) False by auto
    ultimately show ?thesis using Cons.prems(1) False by (simp add: fun_upd_def)
  qed
qed simp

lemma fl_remove_rep:
  assumes "fl_rep nx h xs" "distinct xs" "node \<in> set xs"
  obtains nx' h' where "fl_remove node (nx, h) = Some (nx', h')" "fl_rep nx' h' (remove1 node xs)"
    "\<And>a. a \<notin> set xs \<Longrightarrow> nx' a = nx a"
proof -
  have "fl_rep nx (deref (nx, h) HeadCell) xs" using assms(1) by (simp add: deref_def)
  from fl_remove_walk_found [OF this assms(3,2)] obtain ys zs where yz: "xs = ys @ node # zs"
    "fl_remove_walk (nx, h) node HeadCell = Some (if ys = [] then HeadCell else NextCell (last ys))"
    by blast
  have r: "remove1 node xs = ys @ zs" using yz(1) assms(2) by (simp add: remove1_append)
  show thesis
  proof (cases "ys = []")
    case True
    with yz assms(1) r show thesis
      by (intro that [of nx "nx node"]) (auto simp: fl_remove_def assign_def)
  next
    case False
    with yz assms(1,2) r fl_rep_unlink [of nx h ys node zs] show thesis
      by (intro that [of "nx(last ys := nx node)" h]) (auto simp: fl_remove_def assign_def)
  qed
qed

end
