(* ===== verification/Frame_Alloc.thy ===== *)
theory Frame_Alloc
  imports Kernel_Address Forward_List "HOL-Library.Multiset"
begin

text \<open>
  The allocator of physical pages, \<open>kernel/src/mm/physical_page.rs\<close>. Its state is the memory it
  manages (one 64-bit word per aligned address), the head of the free list, whose links are the first
  words of the free pages, and the array of reference counts. A \<open>FrameTracker\<close> is the number of
  its page; \<open>Clone\<close> and \<open>Drop\<close> are the operations \<open>frame_clone\<close> and \<open>frame_dealloc\<close>.

  \<open>frame_inv\<close> is the invariant, \<open>frame_reach\<close> the states a client can reach that only holds
  trackers the allocator gave it and writes only to pages it holds.
\<close>

record mm =
  mm_mem :: "va \<Rightarrow> usize"
  mm_head :: usize
  mm_usage :: "usize list"
  mm_start :: ppn

definition usage_index :: "mm \<Rightarrow> ppn \<Rightarrow> nat res" where
  "usage_index s p =
     rbind (csub p (mm_start s)) (\<lambda>i. if unat i < length (mm_usage s) then Inr (unat i)
       else Inl (Panic OutOfBounds))"

fun frame_init_loop :: "vpn list \<Rightarrow> (va \<Rightarrow> usize) \<times> usize \<Rightarrow> (va \<Rightarrow> usize) \<times> usize" where
  "frame_init_loop [] l = l"
| "frame_init_loop (v # vs) l = frame_init_loop vs (fl_push_front (addr_of_page v) l)"

text \<open>\<open>ekernel\<close> is the symbol of the linker script; the zeroed array of counts comes from the heap.\<close>

definition frame_allocator_init :: "va \<Rightarrow> (mm, unit) st" where
  "frame_allocator_init ekernel s =
     sbind (slift (addr_ceil ekernel)) (\<lambda>start.
     let end_vpn = addr_floor MEMORY_END in
     sbind (slift (csub end_vpn start)) (\<lambda>n.
     sbind (slift (ppn_of_vpn start)) (\<lambda>start_ppn s.
       let (mem, head) = frame_init_loop (rev (range_list start end_vpn)) (mm_mem s, mm_head s)
       in (Inr (), s\<lparr>mm_mem := mem, mm_head := head, mm_usage := replicate (unat n) 0,
            mm_start := start_ppn\<rparr>)))) s"

definition frame_alloc :: "(mm, ppn option) st" where
  "frame_alloc s =
     (let page = fl_get_head (mm_head s) in
      if page = 0 then (Inr None, s)
      else
        let (mem, head) = fl_pop_front (mm_mem s, mm_head s);
            s1 = s\<lparr>mm_mem := mem, mm_head := head\<rparr>
        in sbind (slift (ppn_of_vpn (addr_floor page))) (\<lambda>p.
           sbind (slift (usage_index s1 p)) (\<lambda>i.
           sbind (slift (rguard (mm_usage s1 ! i = 0) (Panic Assertion))) (\<lambda>_ s.
             (Inr (Some p), s\<lparr>mm_usage := (mm_usage s)[i := 1]\<rparr>)))) s1)"

definition frame_dealloc :: "ppn \<Rightarrow> (mm, unit) st" where
  "frame_dealloc p s =
     sbind (slift (usage_index s p)) (\<lambda>i.
     sbind (slift (rguard (mm_usage s ! i > 0) (Panic Assertion))) (\<lambda>_.
     sbind (slift (csub (mm_usage s ! i) 1)) (\<lambda>n s.
       let s1 = s\<lparr>mm_usage := (mm_usage s)[i := n]\<rparr> in
       if n = 0 then
         sbind (slift (vpn_of_ppn p)) (\<lambda>v.
         let page = addr_of_page v in
         sbind (slift (rguard (page \<noteq> 0) (Panic Assertion))) (\<lambda>_ s.
           let (mem, head) = fl_push_front page (mm_mem s, mm_head s)
           in (Inr (), s\<lparr>mm_mem := mem, mm_head := head\<rparr>))) s1
       else (Inr (), s1)))) s"

definition frame_clone :: "ppn \<Rightarrow> (mm, ppn) st" where
  "frame_clone p s =
     sbind (slift (usage_index s p)) (\<lambda>i.
     sbind (slift (rguard (mm_usage s ! i > 0) (Panic Assertion))) (\<lambda>_.
     sbind (slift (cadd (mm_usage s ! i) 1)) (\<lambda>n s.
       (Inr p, s\<lparr>mm_usage := (mm_usage s)[i := n]\<rparr>)))) s"

definition frame_get_ref_count :: "ppn \<Rightarrow> (mm, usize) st" where
  "frame_get_ref_count p s =
     sbind (slift (usage_index s p)) (\<lambda>i.
     sbind (slift (rguard (mm_usage s ! i > 0) (Panic Assertion))) (\<lambda>_ s.
       (Inr (mm_usage s ! i), s))) s"

section \<open>Pages of the linear map\<close>

definition kpage :: "ppn \<Rightarrow> va" where
  "kpage p = addr_of_page (p + 0xFFFFFFC000000)"

lemma kmap_page: "drop_bit PAGE_SIZE_BITS KERNEL_MAP_OFFSET = 0xFFFFFFC000000"
  by (simp add: config_simps)

lemma unat_kvpn: "unat p < 2 ^ 26 \<Longrightarrow> unat (p + 0xFFFFFFC000000 :: usize) = unat p + 0xFFFFFFC000000"
  by (simp add: unat_add_noof)

lemma vpn_of_ppn_kpage: "unat p < 2 ^ 26 \<Longrightarrow> vpn_of_ppn p = Inr (p + 0xFFFFFFC000000)"
  by (simp add: vpn_of_ppn_def kmap_page cadd_Inr)

lemma unat_kpage: "unat p < 2 ^ 26 \<Longrightarrow> unat (kpage p) = (unat p + 0xFFFFFFC000000) * 4096"
  by (simp add: kpage_def addr_of_page_def PAGE_SIZE_BITS_def unat_push_bit unat_kvpn)

lemma kpage_nonzero: "unat p < 2 ^ 26 \<Longrightarrow> kpage p \<noteq> 0"
  using unat_kpage [of p] by auto

lemma kpage_inj: "unat p < 2 ^ 26 \<Longrightarrow> unat q < 2 ^ 26 \<Longrightarrow> kpage p = kpage q \<longleftrightarrow> p = q"
  using unat_kpage [of p] unat_kpage [of q] by (auto simp: word_unat_eq_iff)

lemma ppn_of_kpage: "unat p < 2 ^ 26 \<Longrightarrow> ppn_of_vpn (addr_floor (kpage p)) = Inr p"
proof -
  assume p: "unat p < 2 ^ 26"
  then have "addr_floor (kpage p) = p + 0xFFFFFFC000000"
    by (simp add: word_unat_eq_iff [of "addr_floor _"] unat_addr_floor unat_kpage unat_kvpn)
  with p show ?thesis
    by (simp add: ppn_of_vpn_def kmap_page csub_Inr word_le_nat_alt unat_kvpn)
qed

text \<open>The address of word \<open>i\<close> of page \<open>p\<close>: \<open>VPN::from(ppn).get_array::<usize>()[i]\<close>.\<close>

definition kword :: "ppn \<Rightarrow> nat \<Rightarrow> va" where
  "kword p i = kpage p + of_nat (8 * i)"

lemma unat_kword: "unat p < 2 ^ 26 \<Longrightarrow> i < 512 \<Longrightarrow> unat (kword p i) = unat (kpage p) + 8 * i"
  by (simp add: kword_def unat_word_ariths unat_kpage unat_of_nat)

lemma kword_inj:
  assumes "unat p < 2 ^ 26" "unat q < 2 ^ 26" "i < 512" "j < 512"
  shows "kword p i = kword q j \<longleftrightarrow> p = q \<and> i = j"
proof
  assume "kword p i = kword q j"
  then have eq: "unat (kpage p) + 8 * i = unat (kpage q) + 8 * j"
    using assms by (metis unat_kword)
  then have "unat p = unat q" using assms by (simp add: unat_kpage)
  with eq assms show "p = q \<and> i = j" by (simp add: unat_kpage word_unat_eq_iff)
qed simp

lemma kword_0 [simp]: "kword p 0 = kpage p"
  by (simp add: kword_def)

section \<open>Invariant\<close>

definition managed :: "mm \<Rightarrow> ppn \<Rightarrow> bool" where
  "managed s p \<longleftrightarrow> mm_start s \<le> p \<and> unat p < unat (mm_start s) + length (mm_usage s)"

definition ref_count :: "mm \<Rightarrow> ppn \<Rightarrow> nat" where
  "ref_count s p = (if managed s p then unat (mm_usage s ! (unat p - unat (mm_start s))) else 0)"

definition frame_inv :: "mm \<Rightarrow> bool" where
  "frame_inv s \<longleftrightarrow> unat (mm_start s) + length (mm_usage s) \<le> 2 ^ 26 \<and>
     (\<exists>ps. distinct ps \<and> fl_rep (mm_mem s) (mm_head s) (map kpage ps) \<and>
        set ps = {p. managed s p \<and> ref_count s p = 0})"

lemma managed_bound: "frame_inv s \<Longrightarrow> managed s p \<Longrightarrow> unat p < 2 ^ 26"
  by (auto simp: frame_inv_def managed_def)

lemma usage_index_managed:
  "managed s p \<Longrightarrow> usage_index s p = Inr (unat p - unat (mm_start s))"
  by (auto simp: usage_index_def managed_def csub_def unat_sub_noof word_le_nat_alt)

lemma managed_index: "managed s p \<Longrightarrow> unat p - unat (mm_start s) < length (mm_usage s)"
  by (auto simp: managed_def word_le_nat_alt)

lemma managed_cong:
  "length (mm_usage s') = length (mm_usage s) \<Longrightarrow> mm_start s' = mm_start s \<Longrightarrow> managed s' = managed s"
  by (auto simp: managed_def)

lemma ref_count_update:
  assumes "managed s p" "mm_start s' = mm_start s" "mm_usage s' = (mm_usage s)[unat p - unat (mm_start s) := n]"
  shows "ref_count s' = (ref_count s)(p := unat n)"
proof
  fix q
  have "unat q - unat (mm_start s) = unat p - unat (mm_start s) \<longleftrightarrow> q = p" if "managed s q"
    using that assms(1) by (auto simp: managed_def word_le_nat_alt word_unat_eq_iff)
  then show "ref_count s' q = ((ref_count s)(p := unat n)) q"
    using assms managed_cong [of s' s] managed_index [OF assms(1)]
    by (auto simp: ref_count_def nth_list_update)
qed

lemma managed_mem [simp]: "managed (s\<lparr>mm_mem := mem\<rparr>) = managed s"
  by (simp add: fun_eq_iff managed_def)

lemma ref_count_mem [simp]: "ref_count (s\<lparr>mm_mem := mem\<rparr>) = ref_count s"
  by (simp add: fun_eq_iff ref_count_def)

lemma frame_inv_mem:
  assumes "frame_inv s" "\<And>p. managed s p \<Longrightarrow> ref_count s p = 0 \<Longrightarrow> mem (kpage p) = mm_mem s (kpage p)"
  shows "frame_inv (s\<lparr>mm_mem := mem\<rparr>)"
proof -
  from assms(1) obtain ps where ps: "distinct ps" "fl_rep (mm_mem s) (mm_head s) (map kpage ps)"
    "set ps = {p. managed s p \<and> ref_count s p = 0}" and b: "unat (mm_start s) + length (mm_usage s) \<le> 2 ^ 26"
    by (auto simp: frame_inv_def)
  have "fl_rep mem (mm_head s) (map kpage ps)"
    by (rule fl_rep_cong [OF ps(2)]) (use assms(2) ps(3) in auto)
  with ps b show ?thesis by (auto simp: frame_inv_def)
qed

text \<open>What an operation keeps: the managed pages and the memory outside the given pages.\<close>

definition frame_same :: "ppn set \<Rightarrow> mm \<Rightarrow> mm \<Rightarrow> bool" where
  "frame_same ps s s' \<longleftrightarrow> mm_start s' = mm_start s \<and> length (mm_usage s') = length (mm_usage s) \<and>
     (\<forall>a. a \<notin> kpage ` ps \<longrightarrow> mm_mem s' a = mm_mem s a)"

lemma frame_same_managed: "frame_same ps s s' \<Longrightarrow> managed s' = managed s"
  by (rule managed_cong) (simp_all add: frame_same_def)

lemma frame_alloc_cases:
  assumes "frame_inv s"
  obtains (none) "frame_alloc s = (Inr None, s)" "\<And>p. managed s p \<Longrightarrow> 0 < ref_count s p"
  | (some) p s' where "frame_alloc s = (Inr (Some p), s')" "managed s p" "ref_count s p = 0"
      "frame_inv s'" "ref_count s' = (ref_count s)(p := 1)" "frame_same {p} s s'"
proof -
  from assms obtain ps where ps: "distinct ps" "fl_rep (mm_mem s) (mm_head s) (map kpage ps)"
    "set ps = {p. managed s p \<and> ref_count s p = 0}" and b: "unat (mm_start s) + length (mm_usage s) \<le> 2 ^ 26"
    by (auto simp: frame_inv_def)
  show thesis
  proof (cases ps)
    case Nil
    with ps(2) have "frame_alloc s = (Inr None, s)" by (simp add: frame_alloc_def fl_get_head_def)
    moreover have "0 < ref_count s p" if "managed s p" for p using that ps(3) Nil by auto
    ultimately show thesis by (rule none)
  next
    case (Cons p qs)
    let ?i = "unat p - unat (mm_start s)"
    have p: "managed s p" "ref_count s p = 0" using ps(3) Cons by auto
    note pb = managed_bound [OF assms p(1)]
    have head: "mm_head s = kpage p" using ps(2) Cons by simp
    define s' where "s' = s\<lparr>mm_mem := (mm_mem s)(kpage p := 0), mm_head := mm_mem s (kpage p),
      mm_usage := (mm_usage s)[?i := 1]\<rparr>"
    have z: "mm_usage s ! ?i = 0" using p by (simp add: ref_count_def unat_eq_0)
    let ?s1 = "s\<lparr>mm_mem := (mm_mem s)(kpage p := 0), mm_head := mm_mem s (kpage p)\<rparr>"
    have ui: "usage_index ?s1 p = Inr ?i"
      using usage_index_managed [of ?s1 p] p(1) by (simp add: managed_def)
    have al: "frame_alloc s = (Inr (Some p), s')"
      using kpage_nonzero [OF pb] ppn_of_kpage [OF pb] ui z head
      by (simp add: frame_alloc_def fl_get_head_def fl_pop_front_def Let_def s'_def)
    have rc: "ref_count s' = (ref_count s)(p := 1)"
      using ref_count_update [OF p(1), of s' 1] by (simp add: s'_def)
    have m: "managed s' = managed s" by (rule managed_cong) (simp_all add: s'_def)
    have pq: "kpage p \<notin> set (map kpage qs)"
    proof
      assume "kpage p \<in> set (map kpage qs)"
      then obtain q where "q \<in> set qs" "kpage p = kpage q" by auto
      moreover have "managed s q" using ps(3) Cons \<open>q \<in> set qs\<close> by auto
      ultimately have "q = p" using kpage_inj pb managed_bound [OF assms] by blast
      with \<open>q \<in> set qs\<close> ps(1) Cons show False by auto
    qed
    have "fl_rep ((mm_mem s)(kpage p := 0)) (mm_mem s (kpage p)) (map kpage qs)"
      using ps(2) Cons pq by simp
    moreover have "set qs = {q. managed s' q \<and> ref_count s' q = 0}"
      using ps(1,3) Cons unfolding m rc by auto
    ultimately have inv: "frame_inv s'"
      using ps(1) Cons b unfolding frame_inv_def by (intro conjI exI [of _ qs]) (auto simp: s'_def)
    have "frame_same {p} s s'" by (simp add: frame_same_def s'_def)
    with al p inv rc show thesis by (rule some)
  qed
qed

lemma frame_dealloc_ok:
  assumes "frame_inv s" "managed s p" "0 < ref_count s p"
  obtains s' where "frame_dealloc p s = (Inr (), s')" "frame_inv s'"
    "ref_count s' = (ref_count s)(p := ref_count s p - 1)" "frame_same {p} s s'"
    "1 < ref_count s p \<Longrightarrow> mm_mem s' = mm_mem s"
proof -
  from assms obtain ps where ps: "distinct ps" "fl_rep (mm_mem s) (mm_head s) (map kpage ps)"
    "set ps = {p. managed s p \<and> ref_count s p = 0}" and b: "unat (mm_start s) + length (mm_usage s) \<le> 2 ^ 26"
    by (auto simp: frame_inv_def)
  let ?i = "unat p - unat (mm_start s)"
  let ?n = "mm_usage s ! ?i - 1"
  note pb = managed_bound [OF assms(1,2)]
  have rc: "ref_count s p = unat (mm_usage s ! ?i)" using assms(2) by (simp add: ref_count_def)
  then have pos: "0 < mm_usage s ! ?i" "csub (mm_usage s ! ?i) 1 = Inr ?n" and n: "unat ?n = ref_count s p - 1"
    using assms(3) by (simp_all add: word_less_nat_alt csub_Inr word_le_nat_alt unat_sub_noof)
  define s1 where "s1 = s\<lparr>mm_usage := (mm_usage s)[?i := ?n]\<rparr>"
  have rc1: "ref_count s1 = (ref_count s)(p := ref_count s p - 1)"
    using ref_count_update [OF assms(2), of s1 ?n] n by (simp add: s1_def)
  have m1: "managed s1 = managed s" by (rule managed_cong) (simp_all add: s1_def)
  show thesis
  proof (cases "ref_count s p = 1")
    case False
    then have "?n \<noteq> 0" using n assms(3) by auto
    with pos have de: "frame_dealloc p s = (Inr (), s1)"
      by (simp add: frame_dealloc_def usage_index_managed [OF assms(2)] s1_def Let_def)
    have "set ps = {q. managed s1 q \<and> ref_count s1 q = 0}"
      using ps(3) False assms(3) unfolding m1 rc1 by auto
    with ps b have "frame_inv s1"
      unfolding frame_inv_def by (intro conjI exI [of _ ps]) (auto simp: s1_def)
    with de rc1 show thesis by (intro that [of s1]) (auto simp: frame_same_def s1_def)
  next
    case True
    define s2 where "s2 = s1\<lparr>mm_mem := (mm_mem s)(kpage p := mm_head s), mm_head := kpage p\<rparr>"
    have n0: "?n = 0" using n True by (simp add: unat_eq_0)
    have de: "frame_dealloc p s = (Inr (), s2)"
      using pos n0 kpage_nonzero [OF pb]
      by (simp add: frame_dealloc_def usage_index_managed [OF assms(2)] vpn_of_ppn_kpage [OF pb]
          fl_push_front_def Let_def s2_def s1_def flip: kpage_def)
    have "managed s2 = managed s" by (rule managed_cong) (simp_all add: s2_def s1_def)
    moreover have "ref_count s2 = (ref_count s)(p := 0)"
      using ref_count_update [OF assms(2), of s2 ?n] n True by (simp add: s2_def s1_def)
    ultimately have m2: "managed s2 = managed s" "ref_count s2 = (ref_count s)(p := 0)" .
    have pps: "p \<notin> set ps" using ps(3) assms(3) by auto
    have "kpage p \<notin> set (map kpage ps)"
    proof
      assume "kpage p \<in> set (map kpage ps)"
      then obtain q where "q \<in> set ps" "kpage p = kpage q" by auto
      moreover have "managed s q" using ps(3) \<open>q \<in> set ps\<close> by auto
      ultimately have "q = p" using kpage_inj pb managed_bound [OF assms(1)] by blast
      with \<open>q \<in> set ps\<close> pps show False by auto
    qed
    then have "fl_rep (mm_mem s2) (mm_head s2) (map kpage (p # ps))"
      using ps(2) kpage_nonzero [OF pb] by (simp add: s2_def)
    moreover have "set (p # ps) = {q. managed s2 q \<and> ref_count s2 q = 0}"
      using ps(3) assms(2) unfolding m2 by auto
    ultimately have "frame_inv s2"
      using ps(1) pps b unfolding frame_inv_def
      by (intro conjI exI [of _ "p # ps"]) (auto simp: s2_def s1_def)
    with de m2 True show thesis by (intro that [of s2]) (auto simp: frame_same_def s2_def s1_def)
  qed
qed

lemma frame_clone_ok:
  assumes "frame_inv s" "managed s p" "0 < ref_count s p" "ref_count s p < 2 ^ 64 - 1"
  obtains s' where "frame_clone p s = (Inr p, s')" "frame_inv s'"
    "ref_count s' = (ref_count s)(p := ref_count s p + 1)" "frame_same {} s s'" "mm_mem s' = mm_mem s"
proof -
  let ?i = "unat p - unat (mm_start s)"
  let ?n = "mm_usage s ! ?i + 1"
  have rc: "ref_count s p = unat (mm_usage s ! ?i)" using assms(2) by (simp add: ref_count_def)
  then have pos: "0 < mm_usage s ! ?i" "cadd (mm_usage s ! ?i) 1 = Inr ?n" and n: "unat ?n = ref_count s p + 1"
    using assms(3,4) by (simp_all add: word_less_nat_alt cadd_Inr unat_add_noof)
  define s1 where "s1 = s\<lparr>mm_usage := (mm_usage s)[?i := ?n]\<rparr>"
  have rc1: "ref_count s1 = (ref_count s)(p := ref_count s p + 1)"
    using ref_count_update [OF assms(2), of s1 ?n] n by (simp add: s1_def)
  have m1: "managed s1 = managed s" by (rule managed_cong) (simp_all add: s1_def)
  have "{q. managed s1 q \<and> ref_count s1 q = 0} = {q. managed s q \<and> ref_count s q = 0}"
    using assms(3) unfolding m1 rc1 by auto
  with assms(1) have "frame_inv s1" unfolding frame_inv_def by (simp add: s1_def)
  moreover have "frame_clone p s = (Inr p, s1)"
    using pos by (simp add: frame_clone_def usage_index_managed [OF assms(2)] s1_def)
  ultimately show thesis using rc1 by (intro that [of s1]) (auto simp: frame_same_def s1_def)
qed

lemma frame_get_ref_count_ok:
  assumes "managed s p" "0 < ref_count s p"
  shows "frame_get_ref_count p s = (Inr (of_nat (ref_count s p)), s)"
  using assms by (simp add: frame_get_ref_count_def usage_index_managed ref_count_def word_less_nat_alt)

section \<open>Initialisation\<close>

lemma frame_init_loop_rep:
  assumes "fl_rep nx h xs" "distinct (map addr_of_page vs)" "0 \<notin> set (map addr_of_page vs)"
    "set (map addr_of_page vs) \<inter> set xs = {}"
  shows "case frame_init_loop vs (nx, h) of (nx', h') \<Rightarrow> fl_rep nx' h' (rev (map addr_of_page vs) @ xs)"
  using assms
proof (induction vs arbitrary: nx h xs)
  case (Cons v vs)
  have "case frame_init_loop vs (nx(addr_of_page v := h), addr_of_page v) of (nx', h') \<Rightarrow>
      fl_rep nx' h' (rev (map addr_of_page vs) @ addr_of_page v # xs)"
    by (rule Cons.IH) (use Cons.prems in \<open>auto intro: fl_rep_cong\<close>)
  then show ?case by (simp add: fl_push_front_def)
qed simp

lemma distinct_range_list: "distinct (range_list s e)"
proof -
  have "inj_on (of_nat :: nat \<Rightarrow> usize) {unat s..<unat e}"
  proof (rule inj_onI)
    fix x y assume xy: "x \<in> {unat s..<unat e}" "y \<in> {unat s..<unat e}" "(of_nat x :: usize) = of_nat y"
    then have "unat (of_nat x :: usize) = unat (of_nat y :: usize)" by simp
    then show "x = y" using xy(1,2) unat_less_2p [of e] by (simp add: unat_of_nat)
  qed
  then show ?thesis by (simp add: range_list_def distinct_map)
qed

lemma MEMORY_END_page: "addr_floor MEMORY_END = 0xFFFFFFC080800"
  by (simp add: addr_floor_def MEMORY_END_def MEMORY_START_def MEMORY_SIZE_def PAGE_SIZE_BITS_def)

lemma frame_allocator_init_ok:
  assumes "mm_head s0 = fl_new" "MEMORY_START \<le> ekernel" "ekernel \<le> MEMORY_END"
  obtains s where "frame_allocator_init ekernel s0 = (Inr (), s)" "frame_inv s" "\<And>p. ref_count s p = 0"
    "length (mm_usage s) = (unat MEMORY_END - unat ekernel) div 4096"
    "\<And>p. managed s p \<Longrightarrow> ekernel \<le> kpage p \<and> kpage p < MEMORY_END"
proof -
  let ?off = "0xFFFFFFC000000 :: usize" and ?e = "0xFFFFFFC080800 :: usize"
  have ek: "0xFFFFFFC080000000 \<le> unat ekernel" "unat ekernel \<le> 0xFFFFFFC080800000"
    using assms(2,3) by (simp_all add: word_le_nat_alt MEMORY_END_def MEMORY_START_def MEMORY_SIZE_def)
  obtain st where st: "addr_ceil ekernel = Inr st" "unat st = (unat ekernel + 4095) div 4096"
    by (rule addr_ceil_Inr [of ekernel]) (use ek in auto)
  have stb: "0xFFFFFFC080000 \<le> unat st" "unat st \<le> 0xFFFFFFC080800" using st(2) ek by auto
  have n: "csub ?e st = Inr (?e - st)" "unat (?e - st) = 0xFFFFFFC080800 - unat st"
    and p: "ppn_of_vpn st = Inr (st - ?off)" "unat (st - ?off) = unat st - 0xFFFFFFC000000"
    using stb by (simp_all add: csub_Inr word_le_nat_alt unat_sub_noof ppn_of_vpn_def kmap_page)
  let ?vs = "range_list st ?e"
  have ub: "0xFFFFFFC080000 \<le> unat v \<and> unat v < 0xFFFFFFC080800 \<and> unat st \<le> unat v" if "v \<in> set ?vs" for v
    using that stb by (auto simp: set_range_list word_le_nat_alt word_less_nat_alt)
  have ua: "unat (addr_of_page v) = unat v * 4096" if "v \<in> set ?vs" for v
    using ub [OF that] by (simp add: addr_of_page_def PAGE_SIZE_BITS_def unat_push_bit)
  have dist: "distinct (map addr_of_page (rev ?vs))"
    using distinct_range_list ua by (auto simp: distinct_map inj_on_def word_unat_eq_iff)
  have nz: "0 \<notin> set (map addr_of_page (rev ?vs))" using ua ub by fastforce
  obtain mem hd where il: "frame_init_loop (rev ?vs) (mm_mem s0, mm_head s0) = (mem, hd)" by fastforce
  have rep: "fl_rep mem hd (map addr_of_page ?vs)"
    using frame_init_loop_rep [of "mm_mem s0" "mm_head s0" "[]" "rev ?vs"] dist nz assms(1) il
    by (simp add: fl_new_def rev_map)
  define s where "s = s0\<lparr>mm_mem := mem, mm_head := hd, mm_usage := replicate (unat (?e - st)) 0, mm_start := st - ?off\<rparr>"
  have init: "frame_allocator_init ekernel s0 = (Inr (), s)"
    by (simp add: frame_allocator_init_def st(1) MEMORY_END_page Let_def n(1) p(1) il s_def)
  have rc: "ref_count s q = 0" for q using managed_index [of s q] by (simp add: ref_count_def s_def)
  have mg: "managed s q \<longleftrightarrow> q + ?off \<in> set ?vs \<and> unat q < 2 ^ 26" for q
    using n(2) p(2) stb unat_kvpn [of q]
    by (auto simp: managed_def s_def set_range_list word_le_nat_alt word_less_nat_alt)
  let ?ps = "map (\<lambda>v. v - ?off) ?vs"
  have rep': "fl_rep mem hd (map kpage ?ps)" using rep by (simp add: kpage_def o_def)
  have "set ?ps = {q. managed s q \<and> ref_count s q = 0}"
  proof -
    have "q \<in> set ?ps \<longleftrightarrow> managed s q" for q
    proof
      assume "q \<in> set ?ps"
      then obtain v where v: "v \<in> set ?vs" "q = v - ?off" by auto
      then have "unat q = unat v - 0xFFFFFFC000000" using ub [OF v(1)] by (simp add: unat_sub_noof word_le_nat_alt)
      then have "unat q < 2 ^ 26" using ub [OF v(1)] by auto
      with v show "managed s q" by (simp add: mg)
    next
      assume "managed s q"
      then show "q \<in> set ?ps" using mg by (force intro: image_eqI [of _ _ "q + ?off"])
    qed
    then show ?thesis using rc by auto
  qed
  moreover have "distinct ?ps" using distinct_range_list by (simp add: distinct_map inj_on_def)
  ultimately have inv: "frame_inv s"
    using rep' n(2) p(2) stb unfolding frame_inv_def
    by (intro conjI exI [of _ ?ps]) (simp_all add: s_def del: map_map)
  have len: "length (mm_usage s) = (unat MEMORY_END - unat ekernel) div 4096"
    using n(2) st(2) ek by (simp add: s_def MEMORY_END_def MEMORY_START_def MEMORY_SIZE_def)
  have "ekernel \<le> kpage q \<and> kpage q < MEMORY_END" if "managed s q" for q
    using that ub [of "q + ?off"] ua [of "q + ?off"] st(2) mg [of q] ek
    by (auto simp: word_le_nat_alt word_less_nat_alt kpage_def MEMORY_END_def MEMORY_START_def MEMORY_SIZE_def)
  with init inv rc len show thesis by (rule that)
qed

section \<open>Reachable states\<close>

text \<open>
  \<open>frame_reach s L\<close>: the allocator can be in state \<open>s\<close> while the kernel holds the trackers \<open>L\<close>
  (a multiset: a cloned tracker counts twice). The kernel gets trackers from \<open>alloc\<close> and \<open>clone\<close>, drops
  each once, and writes only to pages it holds a tracker of.
\<close>

inductive frame_reach :: "mm \<Rightarrow> ppn multiset \<Rightarrow> bool" where
  init: "frame_allocator_init ekernel s0 = (Inr (), s) \<Longrightarrow> mm_head s0 = fl_new \<Longrightarrow>
    MEMORY_START \<le> ekernel \<Longrightarrow> ekernel \<le> MEMORY_END \<Longrightarrow> frame_reach s {#}"
| alloc: "frame_reach s L \<Longrightarrow> frame_alloc s = (Inr (Some p), s') \<Longrightarrow> frame_reach s' (add_mset p L)"
| clone: "frame_reach s L \<Longrightarrow> p \<in># L \<Longrightarrow> size L < 2 ^ 64 - 1 \<Longrightarrow> frame_clone p s = (Inr q, s') \<Longrightarrow>
    frame_reach s' (add_mset q L)"
| drop: "frame_reach s L \<Longrightarrow> p \<in># L \<Longrightarrow> frame_dealloc p s = (Inr (), s') \<Longrightarrow> frame_reach s' (L - {#p#})"
| store: "frame_reach s L \<Longrightarrow> p \<in># L \<Longrightarrow> i < 512 \<Longrightarrow>
    frame_reach (s\<lparr>mm_mem := (mm_mem s)(kword p i := v)\<rparr>) L"

definition frame_held :: "mm \<Rightarrow> ppn multiset \<Rightarrow> bool" where
  "frame_held s L \<longleftrightarrow> frame_inv s \<and> (\<forall>p. ref_count s p = count L p)"

lemma frame_held_managed: "frame_held s L \<Longrightarrow> p \<in># L \<Longrightarrow> managed s p \<and> 0 < ref_count s p"
  by (metis frame_held_def count_greater_zero_iff less_irrefl ref_count_def)

lemma frame_held_alloc:
  assumes "frame_held s L" "frame_alloc s = (Inr (Some p), s')"
  shows "frame_held s' (add_mset p L) \<and> p \<notin># L \<and> managed s p \<and> frame_same {p} s s'"
proof -
  have inv: "frame_inv s" using assms(1) by (simp add: frame_held_def)
  from inv show ?thesis
  proof (cases rule: frame_alloc_cases)
    case none
    with assms(2) show ?thesis by simp
  next
    case (some q t)
    with assms have "q = p" "t = s'" "count L p = 0" by (auto simp: frame_held_def)
    with some assms(1) show ?thesis by (auto simp: frame_held_def not_in_iff)
  qed
qed

lemma frame_held_drop:
  assumes "frame_held s L" "p \<in># L"
  obtains s' where "frame_dealloc p s = (Inr (), s')" "frame_held s' (L - {#p#})" "frame_same {p} s s'"
    "1 < count L p \<Longrightarrow> mm_mem s' = mm_mem s"
proof -
  note m = frame_held_managed [OF assms]
  have inv: "frame_inv s" using assms(1) by (simp add: frame_held_def)
  obtain s' where "frame_dealloc p s = (Inr (), s')" "frame_inv s'"
    "ref_count s' = (ref_count s)(p := ref_count s p - 1)" "frame_same {p} s s'"
    "1 < ref_count s p \<Longrightarrow> mm_mem s' = mm_mem s"
    using frame_dealloc_ok [OF inv] m by blast
  with assms(1) show thesis by (intro that [of s']) (auto simp: frame_held_def)
qed

lemma frame_held_clone:
  assumes "frame_held s L" "p \<in># L" "size L < 2 ^ 64 - 1"
  obtains s' where "frame_clone p s = (Inr p, s')" "frame_held s' (add_mset p L)" "mm_mem s' = mm_mem s"
proof -
  note m = frame_held_managed [OF assms(1,2)]
  have inv: "frame_inv s" using assms(1) by (simp add: frame_held_def)
  have "ref_count s p < 2 ^ 64 - 1"
    using assms(1,3) count_le_size [of L p] by (simp add: frame_held_def)
  then obtain s' where "frame_clone p s = (Inr p, s')" "frame_inv s'"
    "ref_count s' = (ref_count s)(p := ref_count s p + 1)" "mm_mem s' = mm_mem s"
    using frame_clone_ok [OF inv] m by blast
  with assms(1) show thesis by (intro that [of s']) (auto simp: frame_held_def)
qed

lemma frame_held_write:
  assumes "frame_held s L" "p \<in># L" "i < 512"
  shows "frame_held (s\<lparr>mm_mem := (mm_mem s)(kword p i := v)\<rparr>) L"
proof -
  note m = frame_held_managed [OF assms(1,2)]
  have inv: "frame_inv s" using assms(1) by (simp add: frame_held_def)
  have "((mm_mem s)(kword p i := v)) (kpage q) = mm_mem s (kpage q)" if "managed s q" "ref_count s q = 0" for q
    using that m kword_inj [of q p 0 i] managed_bound [OF inv] assms(3) by auto
  with frame_inv_mem [OF inv] have "frame_inv (s\<lparr>mm_mem := (mm_mem s)(kword p i := v)\<rparr>)" by blast
  then show ?thesis using assms(1) by (simp add: frame_held_def)
qed

lemma frame_reach_held: "frame_reach s L \<Longrightarrow> frame_held s L"
proof (induction rule: frame_reach.induct)
  case (init ekernel s0 s)
  show ?case
    by (rule frame_allocator_init_ok [OF init(2-4)]) (use init(1) in \<open>simp add: frame_held_def\<close>)
next
  case (alloc s L p s')
  then show ?case using frame_held_alloc by blast
next
  case (clone s L p q s')
  then show ?case using frame_held_clone [of s L p] by (metis Pair_inject sum.inject(2))
next
  case (drop s L p s')
  then show ?case using frame_held_drop [of s L p] by (metis Pair_inject)
next
  case (store s L p i v)
  then show ?case using frame_held_write by blast
qed

section \<open>Properties\<close>

text \<open>C2: in every reachable state the reference count of a page is the number of trackers held,
  and no operation panics: \<open>alloc\<close> returns a page nobody holds, or \<open>None\<close> when every managed page is
  held; \<open>clone\<close> and \<open>drop\<close> of a held tracker succeed.\<close>

theorem frames_are_exclusive:
  assumes "frame_reach s L"
  shows "(\<forall>p. ref_count s p = count L p) \<and>
    (case frame_alloc s of
       (Inr (Some p), s') \<Rightarrow> p \<notin># L \<and> managed s p
     | (Inr None, s') \<Rightarrow> s' = s \<and> (\<forall>p. managed s p \<longrightarrow> p \<in># L)
     | (Inl e, s') \<Rightarrow> False) \<and>
    (\<forall>p \<in># L. \<exists>s'. frame_dealloc p s = (Inr (), s')) \<and>
    (\<forall>p \<in># L. size L < 2 ^ 64 - 1 \<longrightarrow> (\<exists>s'. frame_clone p s = (Inr p, s')))"
proof -
  have held: "frame_held s L" by (rule frame_reach_held [OF assms])
  then have inv: "frame_inv s" and rc: "\<forall>p. ref_count s p = count L p" by (auto simp: frame_held_def)
  have "case frame_alloc s of
       (Inr (Some p), s') \<Rightarrow> p \<notin># L \<and> managed s p
     | (Inr None, s') \<Rightarrow> s' = s \<and> (\<forall>p. managed s p \<longrightarrow> p \<in># L)
     | (Inl e, s') \<Rightarrow> False"
    using inv
  proof (cases rule: frame_alloc_cases)
    case none
    with rc show ?thesis by simp
  next
    case (some p s')
    with rc show ?thesis by (simp add: not_in_iff)
  qed
  moreover have "\<forall>p \<in># L. \<exists>s'. frame_dealloc p s = (Inr (), s')" using frame_held_drop [OF held] by metis
  moreover have "\<forall>p \<in># L. size L < 2 ^ 64 - 1 \<longrightarrow> (\<exists>s'. frame_clone p s = (Inr p, s'))"
    using frame_held_clone [OF held] by metis
  ultimately show ?thesis using rc by blast
qed

definition demo_mm :: mm where
  "demo_mm = \<lparr>mm_mem = \<lambda>_. 0, mm_head = 0, mm_usage = [], mm_start = 1\<rparr>"

lemma demo_frames: "\<exists>s. frame_reach s {#} \<and> length (mm_usage s) = 2 \<and> frame_inv s"
proof -
  obtain s where "frame_allocator_init 0xFFFFFFC0807FE000 demo_mm = (Inr (), s)" "frame_inv s"
    "length (mm_usage s) = (unat MEMORY_END - unat (0xFFFFFFC0807FE000 :: va)) div 4096"
    by (rule frame_allocator_init_ok [of demo_mm "0xFFFFFFC0807FE000"])
      (simp_all add: demo_mm_def fl_new_def MEMORY_START_def MEMORY_END_def MEMORY_SIZE_def)
  moreover have "frame_reach s {#}"
    by (rule frame_reach.init [OF calculation(1)])
      (simp_all add: demo_mm_def fl_new_def MEMORY_START_def MEMORY_END_def MEMORY_SIZE_def)
  ultimately show ?thesis by (auto simp: MEMORY_START_def MEMORY_END_def MEMORY_SIZE_def)
qed

theorem frames_are_exclusive_witness:
  "\<exists>s p s'. frame_reach s {#} \<and> frame_alloc s = (Inr (Some p), s') \<and> managed s p"
proof -
  from demo_frames obtain s where s: "frame_reach s {#}" "length (mm_usage s) = 2" "frame_inv s" by blast
  have "managed s (mm_start s)" using s(2) by (simp add: managed_def)
  with frames_are_exclusive [OF s(1)] s show ?thesis
    by (auto split: prod.splits sum.splits option.splits)
qed

text \<open>C26: the allocator never touches the contents of a page that stays held: allocating a page, and
  dropping one tracker while others remain, leave every word of every held page as it was.\<close>

theorem held_pages_keep_contents:
  assumes "frame_reach s L" "q \<in># L" "i < 512"
  shows "(\<forall>p s'. frame_alloc s = (Inr (Some p), s') \<longrightarrow> mm_mem s' (kword q i) = mm_mem s (kword q i)) \<and>
    (\<forall>p s'. p \<in># L \<longrightarrow> q \<in># L - {#p#} \<longrightarrow> frame_dealloc p s = (Inr (), s') \<longrightarrow>
       mm_mem s' (kword q i) = mm_mem s (kword q i))"
proof -
  have held: "frame_held s L" by (rule frame_reach_held [OF assms(1)])
  then have inv: "frame_inv s" by (simp add: frame_held_def)
  have qb: "unat q < 2 ^ 26" using managed_bound [OF inv] frame_held_managed [OF held assms(2)] by blast
  have ne: "kword q i \<notin> kpage ` {p}" if "p \<noteq> q" "managed s p" for p
    using that kword_inj [of q p i 0] qb managed_bound [OF inv that(2)] assms(3) by auto
  have "mm_mem s' (kword q i) = mm_mem s (kword q i)" if "frame_alloc s = (Inr (Some p), s')" for p s'
    using frame_held_alloc [OF held that] assms(2) ne [of p] by (auto simp: frame_same_def)
  moreover have "mm_mem s' (kword q i) = mm_mem s (kword q i)"
    if p: "p \<in># L" "q \<in># L - {#p#}" and de: "frame_dealloc p s = (Inr (), s')" for p s'
  proof -
    obtain t where "frame_dealloc p s = (Inr (), t)" "frame_same {p} s t" "1 < count L p \<Longrightarrow> mm_mem t = mm_mem s"
      using frame_held_drop [OF held p(1)] by metis
    then have t: "frame_same {p} s s'" "1 < count L p \<Longrightarrow> mm_mem s' = mm_mem s" using de by auto
    show ?thesis
    proof (cases "p = q")
      case True
      have "0 < count (L - {#p#}) p" using p(2) True by (simp only: count_greater_zero_iff)
      then show ?thesis using t(2) by simp
    next
      case False
      then show ?thesis using t(1) ne [of p] frame_held_managed [OF held p(1)] by (auto simp: frame_same_def)
    qed
  qed
  ultimately show ?thesis by blast
qed

theorem held_pages_keep_contents_witness:
  "\<exists>s q. frame_reach s {#q#} \<and>
    (\<forall>p s'. frame_alloc s = (Inr (Some p), s') \<longrightarrow> mm_mem s' (kword q 3) = mm_mem s (kword q 3))"
proof -
  from demo_frames obtain s where s: "frame_reach s {#}" "length (mm_usage s) = 2" "frame_inv s" by blast
  have m: "managed s (mm_start s)" using s(2) by (simp add: managed_def)
  have "ref_count s (mm_start s) = 0" using frame_reach_held [OF s(1)] by (simp add: frame_held_def)
  with s(3) m obtain q s' where "frame_alloc s = (Inr (Some q), s')"
    by (cases rule: frame_alloc_cases) (metis less_irrefl, blast)
  then have "frame_reach s' {#q#}" using frame_reach.alloc [OF s(1)] by simp
  with held_pages_keep_contents [OF this, of q 3] show ?thesis by auto
qed

end
