(* ===== verification/Page_Table.thy ===== *)
theory Page_Table
  imports Frame_Alloc
begin

text \<open>
  Sv39 page tables, \<open>kernel/arch/riscv/page_table.rs\<close>, and the operations of the trait \<open>PageTable\<close> in
  \<open>kernel/src/mm/page_table.rs\<close>. Tables live in the pages of the frame allocator; a reference to a
  table entry is its address. The root and the frames of the inner tables are kept in the record
  \<open>page_table\<close>. The abstract view of a table is \<open>pt_lookup\<close>, a partial function from page numbers to
  entries; the lemmas show that mapping and unmapping a page update this function at one point.
\<close>

unbundle bit_operations_syntax

section \<open>Entries\<close>

type_synonym pte = usize

definition PTE_EMPTY :: pte where "PTE_EMPTY = 0"
definition PTE_VALID :: pte where "PTE_VALID = 1"
definition PTE_READABLE :: pte where "PTE_READABLE = 2"
definition PTE_WRITABLE :: pte where "PTE_WRITABLE = 4"
definition PTE_EXECUTABLE :: pte where "PTE_EXECUTABLE = 8"
definition PTE_USER :: pte where "PTE_USER = 16"
definition PTE_GLOBAL :: pte where "PTE_GLOBAL = 32"
definition PTE_ACCESSED :: pte where "PTE_ACCESSED = 64"
definition PTE_DIRTY :: pte where "PTE_DIRTY = 128"
definition PTE_COW :: pte where "PTE_COW = 256"

lemmas pte_flags = PTE_EMPTY_def PTE_VALID_def PTE_READABLE_def PTE_WRITABLE_def PTE_EXECUTABLE_def
  PTE_USER_def PTE_GLOBAL_def PTE_ACCESSED_def PTE_DIRTY_def PTE_COW_def

text \<open>\<open>from_bits_truncate\<close> keeps the declared flags; the bit flag operations \<open>contains\<close>, \<open>insert\<close> and
  \<open>remove\<close> are bitwise.\<close>

definition pte_truncate :: "usize \<Rightarrow> pte" where
  "pte_truncate bits = bits AND 0x1FF"

definition pte_contains :: "pte \<Rightarrow> pte \<Rightarrow> bool" where
  "pte_contains e f \<longleftrightarrow> e AND f = f"

definition pte_insert :: "pte \<Rightarrow> pte \<Rightarrow> pte" where
  "pte_insert e f = e OR f"

definition pte_remove :: "pte \<Rightarrow> pte \<Rightarrow> pte" where
  "pte_remove e f = e AND NOT f"

definition pte_new :: "ppn \<Rightarrow> pte \<Rightarrow> pte" where
  "pte_new p flags = push_bit 10 p OR pte_truncate flags"

definition pte_set_ppn :: "ppn \<Rightarrow> pte \<Rightarrow> pte" where
  "pte_set_ppn p e = push_bit 10 p OR pte_truncate e"

definition pte_ppn :: "board \<Rightarrow> pte \<Rightarrow> ppn" where
  "pte_ppn bd e = drop_bit 10 e AND (case bd of K210 \<Rightarrow> push_bit 38 1 - 1 | Qemu_virt_rv64 \<Rightarrow> push_bit 44 1 - 1)"

definition pte_is_valid :: "pte \<Rightarrow> bool" where
  "pte_is_valid e \<longleftrightarrow> e AND PTE_VALID \<noteq> PTE_EMPTY"

section \<open>Tables\<close>

record page_table =
  pt_root :: ppn
  pt_frames :: "ppn list"

type_synonym pts = "mm \<times> page_table"

text \<open>\<open>VPN::from(ppn).get_array()[idx]\<close>: the address of an entry.\<close>

definition entry_addr :: "ppn \<Rightarrow> usize \<Rightarrow> va res" where
  "entry_addr p idx =
     rbind (vpn_of_ppn p) (\<lambda>v. if idx < 512 then Inr (addr_of_page v + 8 * idx) else Inl (Panic OutOfBounds))"

definition fill_page :: "ppn \<Rightarrow> usize \<Rightarrow> (va \<Rightarrow> usize) \<Rightarrow> (va \<Rightarrow> usize)" where
  "fill_page p v mem = fold (\<lambda>i m. m(kword p i := v)) [0..<512] mem"

definition on_mm :: "(mm, 'a) st \<Rightarrow> (mm \<times> 'p, 'a) st" where
  "on_mm m s = (case m (fst s) of (r, t) \<Rightarrow> (r, (t, snd s)))"

definition store_word :: "va \<Rightarrow> usize \<Rightarrow> (mm, unit) st" where
  "store_word a v s = (Inr (), s\<lparr>mm_mem := (mm_mem s)(a := v)\<rparr>)"

definition load_word :: "va \<Rightarrow> (mm, usize) st" where
  "load_word a s = (Inr (mm_mem s a), s)"

text \<open>\<open>frame_alloc().unwrap()\<close> followed by clearing the page.\<close>

definition alloc_zeroed_table :: "(mm, ppn) st" where
  "alloc_zeroed_table =
     sbind frame_alloc (\<lambda>f. sbind (slift (runwrap f)) (\<lambda>frame.
     sbind (slift (vpn_of_ppn frame)) (\<lambda>_ s.
       (Inr frame, s\<lparr>mm_mem := fill_page frame PTE_EMPTY (mm_mem s)\<rparr>))))"

fun find_pte_create_loop :: "board \<Rightarrow> usize list \<Rightarrow> va \<Rightarrow> (pts, va) st" where
  "find_pte_create_loop bd [] pte = sret pte"
| "find_pte_create_loop bd (idx # idxs) pte =
     sbind (on_mm (load_word pte)) (\<lambda>e.
     sbind (if pte_is_valid e then sret ()
            else sbind (on_mm alloc_zeroed_table) (\<lambda>frame.
                 sbind (on_mm (store_word pte (pte_new frame PTE_VALID))) (\<lambda>_ (s, pt).
                   (Inr (), (s, pt\<lparr>pt_frames := pt_frames pt @ [frame]\<rparr>))))) (\<lambda>_.
     sbind (on_mm (load_word pte)) (\<lambda>e'.
     sbind (slift (entry_addr (pte_ppn bd e') idx)) (\<lambda>pte'.
     find_pte_create_loop bd idxs pte'))))"

definition find_pte_create :: "board \<Rightarrow> vpn \<Rightarrow> (pts, va) st" where
  "find_pte_create bd v s =
     (let idxs = vpn_indexes v in
      sbind (slift (entry_addr (pt_root (snd s)) (idxs ! 0))) (\<lambda>pte.
      find_pte_create_loop bd (drop 1 idxs) pte) s)"

fun find_pte_loop :: "board \<Rightarrow> usize list \<Rightarrow> va \<Rightarrow> (mm, va option) st" where
  "find_pte_loop bd [] pte = sbind (load_word pte) (\<lambda>e. sret (if pte_is_valid e then Some pte else None))"
| "find_pte_loop bd (idx # idxs) pte =
     sbind (load_word pte) (\<lambda>e.
     if \<not> pte_is_valid e then sret None
     else sbind (slift (entry_addr (pte_ppn bd e) idx)) (\<lambda>pte'. find_pte_loop bd idxs pte'))"

definition find_pte :: "board \<Rightarrow> ppn \<Rightarrow> vpn \<Rightarrow> (mm, va option) st" where
  "find_pte bd root v =
     (let idxs = vpn_indexes v in
      sbind (slift (entry_addr root (idxs ! 0))) (\<lambda>pte. find_pte_loop bd (drop 1 idxs) pte))"

definition translate_va :: "board \<Rightarrow> ppn \<Rightarrow> va \<Rightarrow> (mm, pa option) st" where
  "translate_va bd root a =
     sbind (find_pte bd root (addr_floor a)) (\<lambda>r.
     case r of None \<Rightarrow> sret None
     | Some pte \<Rightarrow> sbind (load_word pte) (\<lambda>e.
         sbind (slift (cadd (addr_of_page (pte_ppn bd e)) (page_offset a))) (\<lambda>p. sret (Some p))))"

text \<open>\<open>remap_one\<close>, \<open>modify_flags\<close> and \<open>unmap_one\<close> find an existing entry, check it, and overwrite it.\<close>

definition found_pte :: "board \<Rightarrow> ppn \<Rightarrow> vpn \<Rightarrow> (mm, va) st" where
  "found_pte bd root v =
     sbind (find_pte bd root v) (\<lambda>r. sbind (slift (runwrap r)) (\<lambda>pte.
     sbind (load_word pte) (\<lambda>e.
     sbind (slift (rguard (pte_is_valid e) (Panic Assertion))) (\<lambda>_. sret pte))))"

definition remap_one :: "board \<Rightarrow> ppn \<Rightarrow> vpn \<Rightarrow> ppn \<Rightarrow> pte \<Rightarrow> (mm, unit) st" where
  "remap_one bd root v p flags =
     sbind (found_pte bd root v) (\<lambda>pte. store_word pte (pte_new p (flags OR PTE_VALID)))"

definition modify_flags :: "board \<Rightarrow> ppn \<Rightarrow> vpn \<Rightarrow> pte \<Rightarrow> (mm, unit) st" where
  "modify_flags bd root v flags =
     sbind (found_pte bd root v) (\<lambda>pte. sbind (load_word pte) (\<lambda>e.
     store_word pte (pte_new (pte_ppn bd e) (flags OR PTE_VALID))))"

definition unmap_one :: "board \<Rightarrow> ppn \<Rightarrow> vpn \<Rightarrow> (mm, unit) st" where
  "unmap_one bd root v = sbind (found_pte bd root v) (\<lambda>pte. store_word pte PTE_EMPTY)"

definition map_one :: "board \<Rightarrow> vpn \<Rightarrow> ppn \<Rightarrow> pte \<Rightarrow> (pts, unit) st" where
  "map_one bd v p flags =
     sbind (find_pte_create bd v) (\<lambda>pte.
     sbind (on_mm (load_word pte)) (\<lambda>e.
     sbind (slift (rguard (\<not> pte_is_valid e) (Panic Assertion))) (\<lambda>_.
     on_mm (store_word pte (pte_new p (flags OR PTE_VALID))))))"

text \<open>\<open>PageTableImpl::new_kernel\<close>: the upper half of the root is copied from the kernel's root.\<close>

definition copy_upper_half :: "ppn \<Rightarrow> ppn \<Rightarrow> (va \<Rightarrow> usize) \<Rightarrow> (va \<Rightarrow> usize)" where
  "copy_upper_half kroot p mem =
     fold (\<lambda>i m. m(kword p i := if i < 256 then PTE_EMPTY else mem (kword kroot i))) [0..<512] mem"

definition page_table_new_kernel :: "ppn \<Rightarrow> (mm, page_table) st" where
  "page_table_new_kernel kroot =
     sbind frame_alloc (\<lambda>f. sbind (slift (runwrap f)) (\<lambda>frame.
     sbind (slift (vpn_of_ppn frame)) (\<lambda>_. sbind (slift (vpn_of_ppn kroot)) (\<lambda>_ s.
       (Inr \<lparr>pt_root = frame, pt_frames = []\<rparr>, s\<lparr>mm_mem := copy_upper_half kroot frame (mm_mem s)\<rparr>)))))"

definition satp_value :: "board \<Rightarrow> page_table \<Rightarrow> usize" where
  "satp_value bd pt = (case bd of K210 \<Rightarrow> pt_root pt AND (push_bit 38 1 - 1)
     | Qemu_virt_rv64 \<Rightarrow> push_bit 60 8 OR pt_root pt)"

section \<open>Entry fields\<close>

lemma bit_literals: "(0x1FF :: usize) = mask 9"
  by (simp add: mask_eq_exp_minus_1)

lemma ppn_mask: "(case bd of K210 \<Rightarrow> push_bit 38 1 - 1 | Qemu_virt_rv64 \<Rightarrow> push_bit 44 1 - 1) =
    (mask (case bd of K210 \<Rightarrow> 38 | Qemu_virt_rv64 \<Rightarrow> 44) :: usize)"
  by (cases bd) (simp_all add: mask_eq_exp_minus_1)

lemma small_ppn_bits: "unat p < 2 ^ n \<Longrightarrow> bit p i \<Longrightarrow> i < n" for p :: usize
proof -
  assume "unat p < 2 ^ n" "bit p i"
  then have "take_bit n p = p" by (simp add: word_unat_eq_iff unsigned_take_bit_eq take_bit_nat_eq_self)
  with \<open>bit p i\<close> show "i < n" by (metis bit_take_bit_iff)
qed

lemma pte_ppn_new: "unat p < 2 ^ 38 \<Longrightarrow> pte_ppn bd (pte_new p flags) = p"
  unfolding pte_ppn_def pte_new_def pte_truncate_def ppn_mask bit_literals
  by (cases bd; intro bit_word_eqI) (auto simp: bit_simps dest: small_ppn_bits [of p 38, simplified])

lemma pte_truncate_new: "pte_truncate (pte_new p flags) = pte_truncate flags"
  unfolding pte_new_def pte_truncate_def bit_literals
  by (rule bit_word_eqI) (auto simp: bit_simps)

lemma pte_set_ppn_new: "pte_set_ppn p e = pte_new p e"
  by (simp add: pte_set_ppn_def pte_new_def)

lemma pte_is_valid_bit: "pte_is_valid e \<longleftrightarrow> bit e 0"
  by (simp add: pte_is_valid_def PTE_VALID_def PTE_EMPTY_def and_one_eq bit_0 mod_2_eq_odd)

lemma pte_valid_new: "pte_is_valid (pte_new p flags) \<longleftrightarrow> bit flags 0"
  unfolding pte_is_valid_bit pte_new_def pte_truncate_def bit_literals by (simp add: bit_simps)

lemma pte_valid_new_VALID [simp]: "pte_is_valid (pte_new p (flags OR PTE_VALID))" "pte_is_valid (pte_new p PTE_VALID)"
  by (simp_all add: pte_valid_new PTE_VALID_def bit_simps)

lemma pte_empty_invalid [simp]: "\<not> pte_is_valid PTE_EMPTY"
  by (simp add: pte_is_valid_def PTE_EMPTY_def)

lemma pte_zero_invalid [simp]: "\<not> pte_is_valid 0"
  using pte_empty_invalid by (simp add: PTE_EMPTY_def)

lemma page_fold_other:
  "(\<And>i. i < k \<Longrightarrow> a \<noteq> kword p i) \<Longrightarrow> fold (\<lambda>i m. m(kword p i := f i)) [0..<k] mem a = mem a"
  by (induction k) auto

lemma page_fold_word:
  assumes "unat p < 2 ^ 26" "i < k" "k \<le> 512"
  shows "fold (\<lambda>i m. m(kword p i := f i)) [0..<k] mem (kword p i) = f i"
  using assms(2,3)
proof (induction k)
  case (Suc k)
  then show ?case using kword_inj [of p p i k] assms(1) by (cases "i = k") auto
qed simp

lemma fill_page_word: "unat p < 2 ^ 26 \<Longrightarrow> i < 512 \<Longrightarrow> fill_page p v mem (kword p i) = v"
  unfolding fill_page_def by (rule page_fold_word) simp_all

lemma fill_page_other: "(\<And>i. i < 512 \<Longrightarrow> a \<noteq> kword p i) \<Longrightarrow> fill_page p v mem a = mem a"
  unfolding fill_page_def by (rule page_fold_other) simp

lemma fill_page_other_page:
  "unat p < 2 ^ 26 \<Longrightarrow> unat q < 2 ^ 26 \<Longrightarrow> p \<noteq> q \<Longrightarrow> j < 512 \<Longrightarrow> fill_page p v mem (kword q j) = mem (kword q j)"
  by (rule fill_page_other) (simp add: kword_inj)

section \<open>Walking the tables\<close>

text \<open>\<open>pt_walk\<close> follows valid entries from a table along a path of indexes; the tables of a tree are the
  ends of the paths of length at most two, and \<open>pt_lookup\<close> is the valid entry a page number selects.\<close>

definition entry :: "mm \<Rightarrow> ppn \<Rightarrow> nat \<Rightarrow> pte" where
  "entry s t i = mm_mem s (kword t i)"

fun pt_walk :: "board \<Rightarrow> mm \<Rightarrow> ppn \<Rightarrow> nat list \<Rightarrow> ppn option" where
  "pt_walk bd s t [] = Some t"
| "pt_walk bd s t (i # is) =
     (if pte_is_valid (entry s t i) then pt_walk bd s (pte_ppn bd (entry s t i)) is else None)"

definition vpn_path :: "vpn \<Rightarrow> nat list" where
  "vpn_path v = map unat (vpn_indexes v)"

definition pt_lookup :: "board \<Rightarrow> mm \<Rightarrow> ppn \<Rightarrow> vpn \<Rightarrow> pte option" where
  "pt_lookup bd s root v =
     (case pt_walk bd s root (take 2 (vpn_path v)) of
        None \<Rightarrow> None
      | Some t \<Rightarrow> let e = entry s t (vpn_path v ! 2) in if pte_is_valid e then Some e else None)"

definition pt_paths :: "nat set \<Rightarrow> nat list set" where
  "pt_paths D = {is. length is \<le> 2 \<and> (\<forall>i \<in> set is. i < 512) \<and> (is \<noteq> [] \<longrightarrow> hd is \<in> D)}"

text \<open>The tables below the root entries \<open>D\<close> form a tree of held pages: no page is reached by two paths.\<close>

definition pt_wf :: "board \<Rightarrow> nat set \<Rightarrow> mm \<Rightarrow> ppn \<Rightarrow> bool" where
  "pt_wf bd D s root \<longleftrightarrow> frame_inv s \<and> D \<subseteq> {..<512} \<and>
     (\<forall>is \<in> pt_paths D. \<forall>t. pt_walk bd s root is = Some t \<longrightarrow> managed s t \<and> 0 < ref_count s t) \<and>
     (\<forall>is \<in> pt_paths D. \<forall>js \<in> pt_paths D. \<forall>t.
        pt_walk bd s root is = Some t \<longrightarrow> pt_walk bd s root js = Some t \<longrightarrow> is = js)"

lemma vpn_path_eq: "vpn_path v = [unat v div 2 ^ 18 mod 512, unat v div 512 mod 512, unat v mod 512]"
  unfolding vpn_path_def by (rule unat_vpn_indexes)

lemma vpn_path_less: "i \<in> set (vpn_path v) \<Longrightarrow> i < 512"
  by (auto simp: vpn_path_eq)

lemma vpn_path_inj: "unat v < 2 ^ 27 \<Longrightarrow> unat w < 2 ^ 27 \<Longrightarrow> vpn_path v = vpn_path w \<Longrightarrow> v = w"
  unfolding vpn_path_def by (rule vpn_indexes_inj) (auto simp: inj_map_eq_map inj_def word_unat_eq_iff)

lemma pt_walk_append:
  "pt_walk bd s t (is @ js) = (case pt_walk bd s t is of None \<Rightarrow> None | Some t' \<Rightarrow> pt_walk bd s t' js)"
  by (induction "is" arbitrary: t) auto

lemma entry_addr_kword:
  assumes "unat p < 2 ^ 26" "unat idx < 512"
  shows "entry_addr p idx = Inr (kword p (unat idx))"
proof -
  have "(8 * idx :: usize) = of_nat (8 * unat idx)" by simp
  then show ?thesis
    using assms by (simp add: entry_addr_def vpn_of_ppn_kpage kword_def kpage_def word_less_nat_alt)
qed

lemma pt_pathsI: "i \<in> D \<Longrightarrow> i < 512 \<Longrightarrow> j < 512 \<Longrightarrow> [] \<in> pt_paths D \<and> [i] \<in> pt_paths D \<and> [i, j] \<in> pt_paths D"
  by (auto simp: pt_paths_def)

lemma pt_paths_cases:
  assumes "is \<in> pt_paths D"
  obtains "is = []" | i where "is = [i]" "i \<in> D" "i < 512" | i j where "is = [i, j]" "i \<in> D" "i < 512" "j < 512"
  using assms by (cases "is" rule: list.exhaust; cases "tl is" rule: list.exhaust)
    (auto simp: pt_paths_def)

lemma pt_wf_table:
  assumes "pt_wf bd D s root" "is \<in> pt_paths D" "pt_walk bd s root is = Some t"
  shows "managed s t" "0 < ref_count s t" "unat t < 2 ^ 26"
  using assms managed_bound [of s t] by (auto simp: pt_wf_def)

lemma pt_wf_unique:
  "pt_wf bd D s root \<Longrightarrow> is \<in> pt_paths D \<Longrightarrow> js \<in> pt_paths D \<Longrightarrow> pt_walk bd s root is = Some t \<Longrightarrow>
   pt_walk bd s root js = Some t \<Longrightarrow> is = js"
  by (auto simp: pt_wf_def)

lemma pt_lookup_Some:
  "pt_lookup bd s root v = Some e \<longleftrightarrow>
     (\<exists>t. pt_walk bd s root (take 2 (vpn_path v)) = Some t \<and> entry s t (vpn_path v ! 2) = e \<and> pte_is_valid e)"
  by (auto simp: pt_lookup_def Let_def split: option.splits)

lemma vpn_path_take2: "take 2 (vpn_path v) = [vpn_path v ! 0, vpn_path v ! 1]"
  by (simp add: vpn_path_eq)

lemma vpn_path_nth_less: "k < 3 \<Longrightarrow> vpn_path v ! k < 512"
  by (rule vpn_path_less [of _ v], rule nth_mem) (simp add: vpn_path_eq)

lemma unat_index: "k < 3 \<Longrightarrow> unat (vpn_indexes v ! k) = vpn_path v ! k"
  by (simp add: vpn_path_def vpn_indexes_eq less_Suc_eq numeral_3_eq_3 numeral_2_eq_2) auto

lemma drop_indexes: "drop 1 (vpn_indexes v) = [vpn_indexes v ! 1, vpn_indexes v ! 2]"
  by (simp add: vpn_indexes_eq)

text \<open>A state change that keeps the entries of a table apart from one entry.\<close>

lemma pt_wf_paths:
  assumes "pt_wf bd D s root" "vpn_path v ! 0 \<in> D"
  shows "[] \<in> pt_paths D" "[vpn_path v ! 0] \<in> pt_paths D" "[vpn_path v ! 0, vpn_path v ! 1] \<in> pt_paths D"
  using pt_pathsI [OF assms(2)] vpn_path_nth_less [of 0 v] vpn_path_nth_less [of 1 v] by auto

lemma find_pte_eq:
  assumes "pt_wf bd D s root" "vpn_path v ! 0 \<in> D"
  shows "find_pte bd root v s = (Inr (case pt_lookup bd s root v of None \<Rightarrow> None
      | Some e \<Rightarrow> map_option (\<lambda>t. kword t (vpn_path v ! 2)) (pt_walk bd s root (take 2 (vpn_path v)))), s)"
proof -
  let ?a = "vpn_path v ! 0" and ?b = "vpn_path v ! 1" and ?c = "vpn_path v ! 2"
  note ps = pt_wf_paths [OF assms] and tb = pt_wf_table [OF assms(1)]
  have lt: "?a < 512" "?b < 512" "?c < 512" by (simp_all add: vpn_path_nth_less)
  have ui: "unat (vpn_indexes v ! 0) = ?a" "unat (vpn_indexes v ! 1) = ?b" "unat (vpn_indexes v ! 2) = ?c"
    by (simp_all add: unat_index)
  have r: "unat root < 2 ^ 26" using tb(3) [OF ps(1), of root] by simp
  have 0: "entry_addr root (vpn_indexes v ! 0) = Inr (kword root ?a)"
    using entry_addr_kword [OF r] ui lt by metis
  have unf: "find_pte bd root v s = find_pte_loop bd [vpn_indexes v ! 1, vpn_indexes v ! 2] (kword root ?a) s"
    unfolding find_pte_def Let_def 0 drop_indexes sbind_lift_Inr ..
  show ?thesis
  proof (cases "pte_is_valid (entry s root ?a)")
    case False
    then show ?thesis unfolding unf
      by (simp add: sbind_def load_word_def sret_def pt_lookup_def vpn_path_take2 entry_def)
  next
    case True
    let ?t = "pte_ppn bd (entry s root ?a)"
    have "unat ?t < 2 ^ 26" using tb(3) [OF ps(2), of ?t] True by simp
    then have 1: "entry_addr ?t (vpn_indexes v ! 1) = Inr (kword ?t ?b)"
      using entry_addr_kword ui lt by metis
    show ?thesis
    proof (cases "pte_is_valid (entry s ?t ?b)")
      case False
      with True 1 show ?thesis unfolding unf
        by (simp add: sbind_def load_word_def sret_def slift_def pt_lookup_def vpn_path_take2 entry_def)
    next
      case v2: True
      let ?u = "pte_ppn bd (entry s ?t ?b)"
      have "unat ?u < 2 ^ 26" using tb(3) [OF ps(3), of ?u] True v2 by simp
      then have 2: "entry_addr ?u (vpn_indexes v ! 2) = Inr (kword ?u ?c)"
        using entry_addr_kword ui lt by metis
      with True v2 1 show ?thesis unfolding unf
        by (simp add: sbind_def load_word_def sret_def slift_def pt_lookup_def vpn_path_take2 entry_def Let_def)
    qed
  qed
qed

lemma pt_wf_frame_inv: "pt_wf bd D s root \<Longrightarrow> frame_inv s"
  by (simp add: pt_wf_def)

text \<open>Overwriting an entry of a last-level table changes the lookup of one page number only.\<close>

lemma leaf_store_walk:
  assumes "pt_wf bd D s root" "[a, b] \<in> pt_paths D" "pt_walk bd s root [a, b] = Some t" "c < 512"
    and "is \<in> pt_paths D"
  shows "pt_walk bd (s\<lparr>mm_mem := (mm_mem s)(kword t c := e)\<rparr>) root is = pt_walk bd s root is"
proof -
  let ?s' = "s\<lparr>mm_mem := (mm_mem s)(kword t c := e)\<rparr>"
  have tb: "unat t < 2 ^ 26" by (rule pt_wf_table [OF assms(1-3)])
  have same: "entry ?s' q j = entry s q j"
    if "js \<in> pt_paths D" "length js < 2" "pt_walk bd s root js = Some q" "j < 512" for q j js
  proof -
    have "q \<noteq> t" using pt_wf_unique [OF assms(1) that(1) assms(2), of q] that(2,3) assms(3) by auto
    then show ?thesis
      using kword_inj [of q t j c] tb pt_wf_table(3) [OF assms(1) that(1,3)] that(4) assms(4)
      by (auto simp: entry_def)
  qed
  show ?thesis
    using assms(5)
  proof (cases rule: pt_paths_cases)
    case (2 i)
    then show ?thesis using same [of "[]" root i] by (simp add: pt_paths_def)
  next
    case (3 i j)
    then show ?thesis
      using same [of "[]" root i] same [of "[i]" "pte_ppn bd (entry s root i)" j] by (simp add: pt_paths_def)
  qed simp
qed

lemma leaf_store:
  assumes "pt_wf bd D s root" "vpn_path v ! 0 \<in> D"
    and "pt_walk bd s root (take 2 (vpn_path v)) = Some t"
    and s': "s' = s\<lparr>mm_mem := (mm_mem s)(kword t (vpn_path v ! 2) := e)\<rparr>"
  shows "pt_wf bd D s' root"
    and "pt_lookup bd s' root v = (if pte_is_valid e then Some e else None)"
    and "vpn_path w ! 0 \<in> D \<Longrightarrow> vpn_path w \<noteq> vpn_path v \<Longrightarrow> pt_lookup bd s' root w = pt_lookup bd s root w"
proof -
  let ?c = "vpn_path v ! 2"
  note ps = pt_wf_paths [OF assms(1,2)]
  have t: "pt_walk bd s root [vpn_path v ! 0, vpn_path v ! 1] = Some t" using assms(3) by (simp add: vpn_path_take2)
  have c: "?c < 512" by (simp add: vpn_path_nth_less)
  have walk: "pt_walk bd s' root is = pt_walk bd s root is" if "is \<in> pt_paths D" for "is"
    unfolding s' by (rule leaf_store_walk [OF assms(1) ps(3) t c that])
  note tb = pt_wf_table [OF assms(1) ps(3) t]
  have rc: "managed s' = managed s" "ref_count s' = ref_count s"
    by (simp_all add: s')
  have "frame_inv s'"
    unfolding s'
  proof (rule frame_inv_mem [OF pt_wf_frame_inv [OF assms(1)]])
    fix q assume "managed s q" "ref_count s q = 0"
    then show "((mm_mem s)(kword t ?c := e)) (kpage q) = mm_mem s (kpage q)"
      using kword_inj [of q t 0 ?c] tb c managed_bound [OF pt_wf_frame_inv [OF assms(1)]] by auto
  qed
  then show "pt_wf bd D s' root"
    using assms(1) walk unfolding pt_wf_def rc by simp
  show "pt_lookup bd s' root v = (if pte_is_valid e then Some e else None)"
    using walk [OF ps(3)] t by (simp add: pt_lookup_def vpn_path_take2 entry_def s')
  assume w: "vpn_path w ! 0 \<in> D" "vpn_path w \<noteq> vpn_path v"
  note pw = pt_wf_paths [OF assms(1) w(1)]
  have "entry s' u (vpn_path w ! 2) = entry s u (vpn_path w ! 2)"
    if u: "pt_walk bd s root [vpn_path w ! 0, vpn_path w ! 1] = Some u" for u
  proof -
    have "u \<noteq> t \<or> vpn_path w ! 2 \<noteq> ?c"
      using pt_wf_unique [OF assms(1) pw(3) ps(3) u] t w(2) by (auto simp: vpn_path_eq)
    then show ?thesis
      using kword_inj [of u t "vpn_path w ! 2" ?c] pt_wf_table(3) [OF assms(1) pw(3) u] tb c vpn_path_nth_less [of 2 w]
      by (auto simp: entry_def s')
  qed
  then show "pt_lookup bd s' root w = pt_lookup bd s root w"
    using walk [OF pw(3)] by (auto simp: pt_lookup_def vpn_path_take2 Let_def split: option.splits)
qed

lemma pt_lookup_cong: "vpn_path w = vpn_path v \<Longrightarrow> pt_lookup bd s root w = pt_lookup bd s root v"
  by (simp only: pt_lookup_def)

lemma leaf_store_lookup:
  assumes "pt_wf bd D s root" "vpn_path v ! 0 \<in> D"
    and "pt_walk bd s root (take 2 (vpn_path v)) = Some t"
    and s': "s' = s\<lparr>mm_mem := (mm_mem s)(kword t (vpn_path v ! 2) := e)\<rparr>"
    and w: "vpn_path w ! 0 \<in> D"
  shows "pt_lookup bd s' root w =
    (if vpn_path w = vpn_path v then if pte_is_valid e then Some e else None else pt_lookup bd s root w)"
proof (cases "vpn_path w = vpn_path v")
  case True
  then show ?thesis using leaf_store(2) [OF assms(1-4)] pt_lookup_cong [OF True, of bd s' root] by simp
next
  case False
  then show ?thesis using leaf_store(3) [OF assms(1-4) w False] by simp
qed

section \<open>Creating tables\<close>

definition fresh_zero_page :: "mm \<Rightarrow> ppn \<Rightarrow> mm \<Rightarrow> bool" where
  "fresh_zero_page s p s' \<longleftrightarrow> managed s p \<and> ref_count s p = 0 \<and> frame_inv s' \<and> managed s' = managed s \<and>
     ref_count s' = (ref_count s)(p := 1) \<and> (\<forall>i < 512. entry s' p i = 0) \<and>
     (\<forall>q i. unat q < 2 ^ 26 \<and> q \<noteq> p \<and> i < 512 \<longrightarrow> entry s' q i = entry s q i)"

lemma alloc_zeroed_table_cases:
  assumes "frame_inv s"
  obtains (none) "alloc_zeroed_table s = (Inl (Panic UnwrapNone), s)" "\<And>p. managed s p \<Longrightarrow> 0 < ref_count s p"
  | (some) p s' where "alloc_zeroed_table s = (Inr p, s')" "fresh_zero_page s p s'"
  using assms
proof (cases rule: frame_alloc_cases)
  case none
  then show thesis by (intro that(1)) (simp_all add: alloc_zeroed_table_def sbind_def slift_def sfail_def)
next
  case (some p s1)
  have pb: "unat p < 2 ^ 26" by (rule managed_bound [OF assms some(2)])
  define s2 where "s2 = s1\<lparr>mm_mem := fill_page p PTE_EMPTY (mm_mem s1)\<rparr>"
  have al: "alloc_zeroed_table s = (Inr p, s2)"
    using some(1) vpn_of_ppn_kpage [OF pb] by (simp add: alloc_zeroed_table_def sbind_def slift_def s2_def)
  have m: "managed s1 = managed s" by (rule frame_same_managed [OF some(6)])
  have m2: "managed s2 = managed s" "ref_count s2 = ref_count s1"
    using m by (simp_all add: s2_def)
  have "frame_inv s2"
    unfolding s2_def
  proof (rule frame_inv_mem [OF some(4)])
    fix q assume "managed s1 q" "ref_count s1 q = 0"
    then show "fill_page p PTE_EMPTY (mm_mem s1) (kpage q) = mm_mem s1 (kpage q)"
      using fill_page_other_page [of p q 0] pb managed_bound [OF some(4)] some(5) by (auto split: if_splits)
  qed
  moreover have "entry s2 p i = 0" if "i < 512" for i
    using fill_page_word [OF pb that] by (simp add: entry_def s2_def PTE_EMPTY_def)
  moreover have "entry s2 q i = entry s q i" if "unat q < 2 ^ 26" "q \<noteq> p" "i < 512" for q i
    using that fill_page_other_page [OF pb that(1)] some(6) kword_inj [of q p i 0] pb
    by (auto simp: entry_def s2_def frame_same_def)
  ultimately have "fresh_zero_page s p s2" using some m2 by (auto simp: fresh_zero_page_def)
  with al show thesis by (rule that(2))
qed

lemma link_table_walk:
  assumes wf: "pt_wf bd D s root" and fz: "fresh_zero_page s p s1"
    and pi: "\<pi> \<in> pt_paths D" "length \<pi> < 2" "pt_walk bd s root \<pi> = Some t"
    and i: "\<pi> @ [i] \<in> pt_paths D" "\<not> pte_is_valid (entry s t i)"
    and s': "s' = s1\<lparr>mm_mem := (mm_mem s1)(kword t i := pte_new p PTE_VALID)\<rparr>"
    and "is \<in> pt_paths D"
  shows "pt_walk bd s' root is = (if is = \<pi> @ [i] then Some p else pt_walk bd s root is)"
proof -
  have p: "unat p < 2 ^ 26" "managed s p" "ref_count s p = 0"
    using fz managed_bound [OF pt_wf_frame_inv [OF wf]] by (auto simp: fresh_zero_page_def)
  have ib: "i < 512" using i(1) by (simp add: pt_paths_def)
  note tb = pt_wf_table [OF wf]
  have table_ne: "q \<noteq> p" if "js \<in> pt_paths D" "pt_walk bd s root js = Some q" for js q
    using tb(2) [OF that] p(3) by auto
  have e: "entry s' q j = (if js = \<pi> \<and> j = i then pte_new p PTE_VALID else entry s q j)"
    if js: "js \<in> pt_paths D" "pt_walk bd s root js = Some q" and j: "j < 512" for js q j
  proof -
    have "kword q j = kword t i \<longleftrightarrow> js = \<pi> \<and> j = i"
      using kword_inj [of q t j i] tb(3) [OF js] tb(3) [OF pi(1,3)] j ib pt_wf_unique [OF wf js(1) pi(1) js(2)] js(2) pi(3)
      by auto
    moreover have "entry s1 q j = entry s q j"
      using fz tb(3) [OF js] table_ne [OF js] j by (simp add: fresh_zero_page_def)
    ultimately show ?thesis by (auto simp: entry_def s')
  qed
  have ep: "\<not> pte_is_valid (entry s' p j)" if "j < 512" for j
    using fz that kword_inj [of p t j i] p(1) tb(3) [OF pi(1,3)] ib table_ne [OF pi(1,3)]
    by (auto simp: entry_def s' fresh_zero_page_def)
  have new: "pte_ppn bd (pte_new p PTE_VALID) = p" using p(1) by (simp add: pte_ppn_new)
  show ?thesis
    using assms(9)
  proof (cases rule: pt_paths_cases)
    case 1
    then show ?thesis by simp
  next
    case (2 a)
    then show ?thesis using e [of "[]" root a] new by (auto simp: pt_paths_def)
  next
    case (3 a b)
    show ?thesis
    proof (cases "\<pi> = [] \<and> a = i")
      case True
      then have "t = root" using pi(3) by simp
      with True 3 e [of "[]" root a] new ep [of b] i(2) show ?thesis by (simp add: pt_paths_def)
    next
      case False
      then have "entry s' root a = entry s root a" using e [of "[]" root a] 3 by (auto simp: pt_paths_def)
      with 3 e [of "[a]" "pte_ppn bd (entry s root a)" b] new i(2) pi(3) show ?thesis
        by (auto simp: pt_paths_def split: if_splits)
    qed
  qed
qed

lemma link_table:
  assumes wf: "pt_wf bd D s root" and fz: "fresh_zero_page s p s1"
    and pi: "\<pi> \<in> pt_paths D" "length \<pi> < 2" "pt_walk bd s root \<pi> = Some t"
    and i: "\<pi> @ [i] \<in> pt_paths D" "\<not> pte_is_valid (entry s t i)"
    and s': "s' = s1\<lparr>mm_mem := (mm_mem s1)(kword t i := pte_new p PTE_VALID)\<rparr>"
  shows "pt_wf bd D s' root" "pt_walk bd s' root (\<pi> @ [i]) = Some p"
    and "\<And>w. vpn_path w ! 0 \<in> D \<Longrightarrow> pt_lookup bd s' root w = pt_lookup bd s root w"
    and "ref_count s' = (ref_count s)(p := 1)"
proof -
  have walk: "pt_walk bd s' root is = (if is = \<pi> @ [i] then Some p else pt_walk bd s root is)" if "is \<in> pt_paths D" for "is"
    by (rule link_table_walk [OF assms that])
  have inv: "frame_inv s1" and m1: "managed s1 = managed s" and rc1: "ref_count s1 = (ref_count s)(p := 1)"
    and p: "managed s p" "ref_count s p = 0" using fz by (auto simp: fresh_zero_page_def)
  have m: "managed s' = managed s" "ref_count s' = (ref_count s)(p := 1)"
    using m1 rc1 by (simp_all add: s')
  then show "ref_count s' = (ref_count s)(p := 1)" by simp
  note tb = pt_wf_table [OF wf] and pb = managed_bound [OF pt_wf_frame_inv [OF wf] p(1)]
  have ib: "i < 512" using i(1) by (simp add: pt_paths_def)
  show "pt_walk bd s' root (\<pi> @ [i]) = Some p" using walk [OF i(1)] by simp
  have inv': "frame_inv s'"
    unfolding s'
  proof (rule frame_inv_mem [OF inv])
    fix q assume "managed s1 q" "ref_count s1 q = 0"
    then show "((mm_mem s1)(kword t i := pte_new p PTE_VALID)) (kpage q) = mm_mem s1 (kpage q)"
      using kword_inj [of q t 0 i] tb [OF pi(1,3)] ib rc1 managed_bound [OF inv, of q] by (auto split: if_splits)
  qed
  have tables: "managed s' q \<and> 0 < ref_count s' q" if "is \<in> pt_paths D" "pt_walk bd s' root is = Some q" for "is" q
    using that walk [OF that(1)] tb [of "is" q] p(1) unfolding m by (auto split: if_splits)
  have uniq: "is = js" if "is \<in> pt_paths D" "js \<in> pt_paths D" "pt_walk bd s' root is = Some q"
    "pt_walk bd s' root js = Some q" for "is" js q
    using that walk [OF that(1)] walk [OF that(2)] tb(2) [of "is" q] tb(2) [of js q] p(2) pt_wf_unique [OF wf that(1,2)]
    by (auto split: if_splits)
  show "pt_wf bd D s' root"
    unfolding pt_wf_def using inv' tables uniq wf [unfolded pt_wf_def] by blast
  fix w assume w: "vpn_path w ! 0 \<in> D"
  let ?w = "[vpn_path w ! 0, vpn_path w ! 1]" and ?c = "vpn_path w ! 2"
  note pw = pt_wf_paths [OF wf w]
  have c: "?c < 512" by (simp add: vpn_path_nth_less)
  show "pt_lookup bd s' root w = pt_lookup bd s root w"
  proof (cases "?w = \<pi> @ [i]")
    case True
    have "entry s' p ?c = 0"
      using fz c kword_inj [of p t ?c i] tb [OF pi(1,3)] ib pb p(2) by (auto simp: entry_def s' fresh_zero_page_def)
    moreover have "pt_walk bd s root ?w = None"
      using i(2) pi(3) unfolding True pt_walk_append by simp
    ultimately show ?thesis
      using walk [OF pw(3)] True by (simp add: pt_lookup_def vpn_path_take2 Let_def del: pt_walk.simps)
  next
    case False
    have "entry s' u ?c = entry s u ?c" if u: "pt_walk bd s root ?w = Some u" for u
    proof -
      have "u \<noteq> t" using pt_wf_unique [OF wf pw(3) pi(1) u] pi(2,3) by auto
      moreover have "u \<noteq> p" using tb(2) [OF pw(3) u] p(2) by auto
      ultimately show ?thesis
        using kword_inj [of u t ?c i] tb(3) [OF pw(3) u] tb(3) [OF pi(1,3)] c ib fz
        by (auto simp: entry_def s' fresh_zero_page_def)
    qed
    with False walk [OF pw(3)] show ?thesis
      by (auto simp: pt_lookup_def vpn_path_take2 Let_def split: option.splits)
  qed
qed

text \<open>One round of the creating walk: afterwards the entry is valid and leads to a table.\<close>

definition ensure_table :: "va \<Rightarrow> (pts, unit) st" where
  "ensure_table pte =
     sbind (on_mm (load_word pte)) (\<lambda>e.
     if pte_is_valid e then sret ()
     else sbind (on_mm alloc_zeroed_table) (\<lambda>frame.
          sbind (on_mm (store_word pte (pte_new frame PTE_VALID))) (\<lambda>_ (s, pt).
            (Inr (), (s, pt\<lparr>pt_frames := pt_frames pt @ [frame]\<rparr>)))))"

lemma find_pte_create_loop_Cons:
  "find_pte_create_loop bd (idx # idxs) pte =
     sbind (ensure_table pte) (\<lambda>_. sbind (on_mm (load_word pte)) (\<lambda>e'.
     sbind (slift (entry_addr (pte_ppn bd e') idx)) (\<lambda>pte'. find_pte_create_loop bd idxs pte')))"
  by (simp add: ensure_table_def sbind_assoc)

text \<open>The pages a table tree consists of.\<close>

definition pt_tables :: "board \<Rightarrow> nat set \<Rightarrow> mm \<Rightarrow> ppn \<Rightarrow> ppn set" where
  "pt_tables bd D s root = {t. \<exists>is \<in> pt_paths D. pt_walk bd s root is = Some t}"

lemma pt_wf_held: "pt_wf bd D s root \<Longrightarrow> t \<in> pt_tables bd D s root \<Longrightarrow> managed s t \<and> 0 < ref_count s t"
  by (auto simp: pt_wf_def pt_tables_def)

lemma pt_tablesI: "is \<in> pt_paths D \<Longrightarrow> pt_walk bd s root is = Some t \<Longrightarrow> t \<in> pt_tables bd D s root"
  by (auto simp: pt_tables_def)

lemma root_in_tables: "root \<in> pt_tables bd D s root"
  by (rule pt_tablesI [of "[]"]) (simp_all add: pt_paths_def)

text \<open>The pages that are held and no tables stay so and keep their words.\<close>

definition pt_keeps :: "board \<Rightarrow> nat set \<Rightarrow> ppn \<Rightarrow> mm \<Rightarrow> mm \<Rightarrow> bool" where
  "pt_keeps bd D root s s' \<longleftrightarrow> (\<forall>q. managed s q \<and> 0 < ref_count s q \<and> q \<notin> pt_tables bd D s root \<longrightarrow>
     q \<notin> pt_tables bd D s' root \<and> (\<forall>i < 512. entry s' q i = entry s q i))"

lemma pt_keepsD:
  assumes "pt_keeps bd D root s s'" "managed s q" "0 < ref_count s q" "q \<notin> pt_tables bd D s root"
  shows "q \<notin> pt_tables bd D s' root" "i < 512 \<Longrightarrow> entry s' q i = entry s q i"
  using assms by (auto simp: pt_keeps_def)

lemma pt_keeps_trans:
  assumes "pt_keeps bd D root s s1" "pt_keeps bd D root s1 s2" "managed s1 = managed s"
    "\<And>q. managed s q \<Longrightarrow> 0 < ref_count s q \<Longrightarrow> 0 < ref_count s1 q"
  shows "pt_keeps bd D root s s2"
  using assms unfolding pt_keeps_def by metis

text \<open>Storing a word in a table keeps all pages that are no tables.\<close>

lemma entry_store_other:
  assumes "unat q < 2 ^ 26" "unat t < 2 ^ 26" "q \<noteq> t" "i < 512" "j < 512"
  shows "entry (s\<lparr>mm_mem := (mm_mem s)(kword t j := e)\<rparr>) q i = entry s q i"
  using kword_inj [OF assms(1,2,4,5)] assms(3) by (simp add: entry_def)

text \<open>The tables of \<open>s\<close> are still there in \<open>s'\<close>, the lookups are the same, and the frames of the tables
  that were added are recorded in the page table.
  Pages that are held and no tables are left alone.\<close>

definition pt_extends :: "board \<Rightarrow> nat set \<Rightarrow> ppn \<Rightarrow> pts \<Rightarrow> pts \<Rightarrow> bool" where
  "pt_extends bd D root = (\<lambda>(s, pt) (s', pt'). pt_wf bd D s' root \<and> pt_root pt' = pt_root pt \<and>
     managed s' = managed s \<and> pt_keeps bd D root s s' \<and>
     (\<forall>w. vpn_path w ! 0 \<in> D \<longrightarrow> pt_lookup bd s' root w = pt_lookup bd s root w) \<and>
     (\<exists>new. pt_frames pt' = pt_frames pt @ new \<and> distinct new \<and> (\<forall>p \<in> set new. managed s p \<and> ref_count s p = 0) \<and>
        ref_count s' = (\<lambda>p. if p \<in> set new then 1 else ref_count s p)))"

lemma pt_extends_refl: "pt_wf bd D s root \<Longrightarrow> pt_extends bd D root (s, pt) (s, pt)"
  unfolding pt_extends_def pt_keeps_def by (auto intro!: exI [of _ "[]"])

lemma pt_extends_trans:
  assumes "pt_extends bd D root x y" "pt_extends bd D root y z"
  shows "pt_extends bd D root x z"
proof -
  obtain s pt s1 pt1 s2 pt2 where xyz: "x = (s, pt)" "y = (s1, pt1)" "z = (s2, pt2)" by (metis surj_pair)
  from assms obtain n1 n2 where
    n1: "pt_frames pt1 = pt_frames pt @ n1" "distinct n1" "\<forall>p \<in> set n1. managed s p \<and> ref_count s p = 0"
      "ref_count s1 = (\<lambda>p. if p \<in> set n1 then 1 else ref_count s p)" and
    n2: "pt_frames pt2 = pt_frames pt1 @ n2" "distinct n2" "\<forall>p \<in> set n2. managed s1 p \<and> ref_count s1 p = 0"
      "ref_count s2 = (\<lambda>p. if p \<in> set n2 then 1 else ref_count s1 p)" and m: "managed s1 = managed s"
    unfolding xyz pt_extends_def by auto
  have "set n1 \<inter> set n2 = {}" using n1(4) n2(3) by force
  moreover have "\<forall>p \<in> set n2. managed s p \<and> ref_count s p = 0" using n1(4) n2(3) m by (auto split: if_splits)
  ultimately have "\<exists>new. pt_frames pt2 = pt_frames pt @ new \<and> distinct new \<and>
      (\<forall>p \<in> set new. managed s p \<and> ref_count s p = 0) \<and>
      ref_count s2 = (\<lambda>p. if p \<in> set new then 1 else ref_count s p)"
    using n1 n2 by (intro exI [of _ "n1 @ n2"]) (auto simp: fun_eq_iff)
  moreover have "pt_keeps bd D root s s2"
    by (rule pt_keeps_trans [of _ _ _ _ s1]) (use assms n1(4) m xyz in \<open>auto simp: pt_extends_def\<close>)
  ultimately show ?thesis using assms unfolding xyz pt_extends_def by simp
qed

lemma ensure_table_ok:
  assumes wf: "pt_wf bd D s root"
    and pi: "\<pi> \<in> pt_paths D" "length \<pi> < 2" "pt_walk bd s root \<pi> = Some t" "\<pi> @ [i] \<in> pt_paths D"
  obtains (full) "ensure_table (kword t i) (s, pt) = (Inl (Panic UnwrapNone), (s, pt))"
      "\<And>p. managed s p \<Longrightarrow> 0 < ref_count s p"
  | (ok) s' pt' u where "ensure_table (kword t i) (s, pt) = (Inr (), (s', pt'))"
      "pt_extends bd D root (s, pt) (s', pt')" "pt_walk bd s' root \<pi> = Some t" "pt_walk bd s' root (\<pi> @ [i]) = Some u"
      "pte_ppn bd (mm_mem s' (kword t i)) = u"
proof (cases "pte_is_valid (entry s t i)")
  case True
  then have "ensure_table (kword t i) (s, pt) = (Inr (), (s, pt))"
    by (simp add: ensure_table_def sbind_def on_mm_def load_word_def entry_def sret_def)
  moreover have "pt_walk bd s root (\<pi> @ [i]) = Some (pte_ppn bd (mm_mem s (kword t i)))"
    using True pi(3) unfolding pt_walk_append by (simp add: entry_def)
  ultimately show thesis using pi(3) by (intro ok [OF _ pt_extends_refl [OF wf]]) auto
next
  case False
  from pt_wf_frame_inv [OF wf] show thesis
  proof (cases rule: alloc_zeroed_table_cases)
    case none
    then show thesis using False
      by (intro full) (simp_all add: ensure_table_def sbind_def on_mm_def load_word_def entry_def)
  next
    case (some p s1)
    define s' where "s' = s1\<lparr>mm_mem := (mm_mem s1)(kword t i := pte_new p PTE_VALID)\<rparr>"
    define pt' where "pt' = pt\<lparr>pt_frames := pt_frames pt @ [p]\<rparr>"
    note lk = link_table [OF wf some(2) pi(1-4) False s'_def]
    have run: "ensure_table (kword t i) (s, pt) = (Inr (), (s', pt'))"
      using False some(1)
      by (simp add: ensure_table_def sbind_def on_mm_def load_word_def store_word_def entry_def s'_def pt'_def)
    have p: "managed s p" "ref_count s p = 0" "unat p < 2 ^ 26"
      using some(2) managed_bound [OF pt_wf_frame_inv [OF wf]] by (auto simp: fresh_zero_page_def)
    have m: "managed s' = managed s" using some(2) by (simp add: s'_def fresh_zero_page_def)
    have "pt_walk bd s' root \<pi> = Some t"
      using link_table_walk [OF wf some(2) pi(1-4) False s'_def pi(1)] pi(3) by simp
    moreover have "pt_keeps bd D root s s'"
      unfolding pt_keeps_def
    proof (intro allI impI)
      fix q assume q: "managed s q \<and> 0 < ref_count s q \<and> q \<notin> pt_tables bd D s root"
      then have "q \<noteq> p" "q \<noteq> t" "unat q < 2 ^ 26" "unat t < 2 ^ 26" "i < 512"
        using p pt_tablesI [OF pi(1,3)] managed_bound [OF pt_wf_frame_inv [OF wf]] pt_wf_table(3) [OF wf pi(1,3)] pi(4)
        by (auto simp: pt_paths_def)
      moreover from this have "q \<notin> pt_tables bd D s' root"
        using q link_table_walk [OF wf some(2) pi(1-4) False s'_def] by (auto simp: pt_tables_def split: if_splits)
      ultimately show "q \<notin> pt_tables bd D s' root \<and> (\<forall>i < 512. entry s' q i = entry s q i)"
        using some(2) entry_store_other [of q t _ i s1] unfolding s'_def fresh_zero_page_def by simp
    qed
    ultimately have "pt_extends bd D root (s, pt) (s', pt')" "pt_walk bd s' root \<pi> = Some t"
      unfolding pt_extends_def using lk p m by (auto simp: pt'_def fun_eq_iff intro!: exI [of _ "[p]"])
    then show thesis
      using run lk(2) pte_ppn_new [of p bd PTE_VALID] p(3) by (intro ok) (auto simp: s'_def)
  qed
qed

lemma find_pte_create_ok:
  assumes wf: "pt_wf bd D s root" and v: "vpn_path v ! 0 \<in> D" and root: "pt_root pt = root"
  obtains (full) s' pt' where "find_pte_create bd v (s, pt) = (Inl (Panic UnwrapNone), (s', pt'))"
      "pt_extends bd D root (s, pt) (s', pt')" "\<And>p. managed s' p \<Longrightarrow> 0 < ref_count s' p"
  | (ok) s' pt' t where "find_pte_create bd v (s, pt) = (Inr (kword t (vpn_path v ! 2)), (s', pt'))"
      "pt_extends bd D root (s, pt) (s', pt')" "pt_walk bd s' root (take 2 (vpn_path v)) = Some t"
proof -
  let ?a = "vpn_path v ! 0" and ?b = "vpn_path v ! 1" and ?c = "vpn_path v ! 2"
  note ps = pt_wf_paths [OF wf v]
  have ui: "unat (vpn_indexes v ! 0) = ?a" "unat (vpn_indexes v ! 1) = ?b" "unat (vpn_indexes v ! 2) = ?c"
    by (simp_all add: unat_index)
  have lt: "?a < 512" "?b < 512" "?c < 512" by (simp_all add: vpn_path_nth_less)
  have r: "unat root < 2 ^ 26" using pt_wf_table(3) [OF wf ps(1), of root] by simp
  have 0: "entry_addr root (vpn_indexes v ! 0) = Inr (kword root ?a)"
    using entry_addr_kword [OF r] ui lt by metis
  have unf: "find_pte_create bd v (s, pt) =
      find_pte_create_loop bd [vpn_indexes v ! 1, vpn_indexes v ! 2] (kword root ?a) (s, pt)"
    unfolding find_pte_create_def Let_def snd_conv root 0 drop_indexes sbind_lift_Inr ..
  have 1: "pt_walk bd s root [] = Some root" by simp
  show thesis
  proof (cases rule: ensure_table_ok [OF wf ps(1) _ 1, of ?a pt])
    case 3
    then show thesis
    proof (intro full [of s pt])
      show "find_pte_create bd v (s, pt) = (Inl (Panic UnwrapNone), (s, pt))"
        unfolding unf find_pte_create_loop_Cons by (simp add: sbind_def 3)
    qed (use 3 pt_extends_refl [OF wf] in auto)
  next
    case (4 s1 pt1 u)
    then have wf1: "pt_wf bd D s1 root" by (simp add: pt_extends_def)
    have wu: "pt_walk bd s1 root [?a] = Some u" using 4 by simp
    have ub: "unat u < 2 ^ 26" by (rule pt_wf_table(3) [OF wf1 ps(2) wu])
    have au: "entry_addr u (vpn_indexes v ! 1) = Inr (kword u ?b)"
      using entry_addr_kword [OF ub] ui lt by metis
    have unf1: "find_pte_create bd v (s, pt) = find_pte_create_loop bd [vpn_indexes v ! 2] (kword u ?b) (s1, pt1)"
      unfolding unf find_pte_create_loop_Cons [of bd _ "[_]"]
      by (simp add: sbind_def [of "ensure_table _"] 4 sbind_def [of "on_mm _"] on_mm_def load_word_def au [unfolded One_nat_def]
          del: find_pte_create_loop.simps)
    show thesis
    proof (cases rule: ensure_table_ok [OF wf1 ps(2) _ wu, of ?b pt1])
      case 3
      then show thesis
      proof (intro full [of s1 pt1])
        show "find_pte_create bd v (s, pt) = (Inl (Panic UnwrapNone), (s1, pt1))"
          unfolding unf1 find_pte_create_loop_Cons sbind_def 3 by simp
      qed (use 4 in auto)
    next
      case b: (4 s2 pt2 t)
      then have wf2: "pt_wf bd D s2 root" by (simp add: pt_extends_def)
      have wt: "pt_walk bd s2 root [?a, ?b] = Some t" using b by simp
      have tb: "unat t < 2 ^ 26" by (rule pt_wf_table(3) [OF wf2 ps(3) wt])
      have at: "entry_addr t (vpn_indexes v ! 2) = Inr (kword t ?c)"
        using entry_addr_kword [OF tb] ui lt by metis
      have "find_pte_create bd v (s, pt) = (Inr (kword t ?c), (s2, pt2))"
        unfolding unf1 find_pte_create_loop_Cons
        unfolding sbind_def [of "ensure_table _"] b
        by (simp add: sbind_def [of "on_mm _"] on_mm_def load_word_def b(5) [unfolded One_nat_def] at sret_def)
      then show thesis
        using wt pt_extends_trans [OF 4(2) b(2)] by (intro ok) (auto simp: vpn_path_take2)
    qed (use ps in auto)
  qed (use ps in auto)
qed

lemma leaf_store_keeps:
  assumes "pt_wf bd D s root" "vpn_path v ! 0 \<in> D" "pt_walk bd s root (take 2 (vpn_path v)) = Some t"
  shows "pt_keeps bd D root s (s\<lparr>mm_mem := (mm_mem s)(kword t (vpn_path v ! 2) := e)\<rparr>)" (is "pt_keeps _ _ _ _ ?s'")
  unfolding pt_keeps_def
proof (intro allI impI)
  fix q assume q: "managed s q \<and> 0 < ref_count s q \<and> q \<notin> pt_tables bd D s root"
  note ps = pt_wf_paths [OF assms(1,2)] and t = assms(3) [unfolded vpn_path_take2] and c = vpn_path_nth_less [of 2 v, simplified]
  have "q \<noteq> t" "unat q < 2 ^ 26" "unat t < 2 ^ 26"
    using q pt_tablesI [OF ps(3) t] managed_bound [OF pt_wf_frame_inv [OF assms(1)]] pt_wf_table(3) [OF assms(1) ps(3) t] by auto
  then show "q \<notin> pt_tables bd D ?s' root \<and> (\<forall>i < 512. entry ?s' q i = entry s q i)"
    using q leaf_store_walk [OF assms(1) ps(3) t c, of _ e] entry_store_other [of q t _ "vpn_path v ! 2" s e] c
    by (simp add: pt_tables_def)
qed

lemma map_one_ok:
  assumes wf: "pt_wf bd D s root" and v: "vpn_path v ! 0 \<in> D" and root: "pt_root pt = root"
    and free: "pt_lookup bd s root v = None"
  obtains (full) s' pt' where "map_one bd v p flags (s, pt) = (Inl (Panic UnwrapNone), (s', pt'))"
      "pt_extends bd D root (s, pt) (s', pt')" "\<And>q. managed s' q \<Longrightarrow> 0 < ref_count s' q"
  | (ok) s' pt' s1 where "map_one bd v p flags (s, pt) = (Inr (), (s', pt'))"
      "pt_extends bd D root (s, pt) (s1, pt')" "ref_count s' = ref_count s1" "managed s' = managed s1"
      "pt_wf bd D s' root"
      "\<And>w. vpn_path w ! 0 \<in> D \<Longrightarrow> pt_lookup bd s' root w =
         (if vpn_path w = vpn_path v then Some (pte_new p (flags OR PTE_VALID)) else pt_lookup bd s root w)"
      "pt_keeps bd D root s s'"
proof (cases rule: find_pte_create_ok [OF wf v root])
  case (1 s' pt')
  then show thesis by (intro full) (simp_all add: map_one_def sbind_def)
next
  case (2 s1 pt1 t)
  then have wf1: "pt_wf bd D s1 root" and lk: "pt_lookup bd s1 root v = None"
    and keep: "\<And>w. vpn_path w ! 0 \<in> D \<Longrightarrow> pt_lookup bd s1 root w = pt_lookup bd s root w"
    using free v by (auto simp: pt_extends_def)
  let ?a = "kword t (vpn_path v ! 2)" and ?e = "pte_new p (flags OR PTE_VALID)"
  have nv: "\<not> pte_is_valid (mm_mem s1 ?a)"
    using lk 2(3) by (auto simp: pt_lookup_def entry_def Let_def split: if_splits)
  define s' where "s' = s1\<lparr>mm_mem := (mm_mem s1)(?a := ?e)\<rparr>"
  have run: "map_one bd v p flags (s, pt) = (Inr (), (s', pt1))"
    using 2(1) nv by (simp add: map_one_def sbind_def on_mm_def load_word_def store_word_def slift_def s'_def)
  have "pt_keeps bd D root s1 s'" unfolding s'_def by (rule leaf_store_keeps [OF wf1 v 2(3)])
  then have "pt_keeps bd D root s s'"
    by (rule pt_keeps_trans [rotated]) (use 2(2) in \<open>auto simp: pt_extends_def\<close>)
  then show thesis
    by (rule ok [OF run 2(2) _ _ leaf_store(1) [OF wf1 v 2(3) s'_def], rotated 3])
      (use leaf_store_lookup [OF wf1 v 2(3) s'_def] keep in \<open>simp_all add: s'_def\<close>)
qed

lemma found_pte_ok:
  assumes wf: "pt_wf bd D s root" and v: "vpn_path v ! 0 \<in> D" and e: "pt_lookup bd s root v = Some e"
  obtains t where "found_pte bd root v s = (Inr (kword t (vpn_path v ! 2)), s)"
    "pt_walk bd s root (take 2 (vpn_path v)) = Some t" "mm_mem s (kword t (vpn_path v ! 2)) = e"
proof -
  from e obtain t where t: "pt_walk bd s root (take 2 (vpn_path v)) = Some t"
    "entry s t (vpn_path v ! 2) = e" "pte_is_valid e" by (auto simp: pt_lookup_Some)
  have "find_pte bd root v s = (Inr (Some (kword t (vpn_path v ! 2))), s)"
    using find_pte_eq [OF wf v] e t(1) by simp
  then have "found_pte bd root v s = (Inr (kword t (vpn_path v ! 2)), s)"
    using t by (simp add: found_pte_def sbind_def slift_def load_word_def sret_def entry_def)
  with t show thesis by (intro that) (auto simp: entry_def)
qed

lemma found_pte_none:
  assumes wf: "pt_wf bd D s root" and v: "vpn_path v ! 0 \<in> D" and e: "pt_lookup bd s root v = None"
  shows "found_pte bd root v s = (Inl (Panic UnwrapNone), s)"
  using find_pte_eq [OF wf v] e by (simp add: found_pte_def sbind_def slift_def sfail_def)

section \<open>New tables\<close>

lemma pt_wf_empty:
  assumes "frame_inv s" "managed s p" "0 < ref_count s p" "D \<subseteq> {..<512}"
    and "\<And>i. i \<in> D \<Longrightarrow> \<not> pte_is_valid (entry s p i)"
  shows "pt_wf bd D s p" "vpn_path w ! 0 \<in> D \<Longrightarrow> pt_lookup bd s p w = None"
proof -
  have walk: "pt_walk bd s p is = (if is = [] then Some p else None)" if "is \<in> pt_paths D" for "is"
    using that by (cases rule: pt_paths_cases) (use assms(5) in auto)
  show "pt_wf bd D s p"
    using assms(1-4) by (auto simp: pt_wf_def walk split: if_splits)
  show "pt_lookup bd s p w = None" if "vpn_path w ! 0 \<in> D"
    using assms(5) [OF that] by (simp add: pt_lookup_def vpn_path_take2)
qed

lemma pt_wf_fresh:
  "fresh_zero_page s p s' \<Longrightarrow> D \<subseteq> {..<512} \<Longrightarrow> pt_wf bd D s' p"
  by (rule pt_wf_empty(1)) (auto simp: fresh_zero_page_def)

lemma copy_upper_half_word:
  "unat p < 2 ^ 26 \<Longrightarrow> i < 512 \<Longrightarrow>
   copy_upper_half k p mem (kword p i) = (if i < 256 then PTE_EMPTY else mem (kword k i))"
  unfolding copy_upper_half_def
  by (rule page_fold_word [where f = "\<lambda>i. if i < 256 then PTE_EMPTY else mem (kword k i)"]) simp_all

lemma copy_upper_half_other:
  "unat p < 2 ^ 26 \<Longrightarrow> unat q < 2 ^ 26 \<Longrightarrow> p \<noteq> q \<Longrightarrow> j < 512 \<Longrightarrow>
   copy_upper_half k p mem (kword q j) = mem (kword q j)"
  unfolding copy_upper_half_def
  by (rule page_fold_other [where f = "\<lambda>i. if i < 256 then PTE_EMPTY else mem (kword k i)"]) (simp add: kword_inj)

lemma page_table_new_kernel_ok:
  assumes inv: "frame_inv s" and k: "managed s k" "0 < ref_count s k"
  obtains (none) "page_table_new_kernel k s = (Inl (Panic UnwrapNone), s)" "\<And>p. managed s p \<Longrightarrow> 0 < ref_count s p"
  | (some) p s' where "page_table_new_kernel k s = (Inr \<lparr>pt_root = p, pt_frames = []\<rparr>, s')"
      "managed s p" "ref_count s p = 0" "frame_inv s'" "managed s' = managed s"
      "ref_count s' = (ref_count s)(p := 1)"
      "\<And>i. i < 512 \<Longrightarrow> entry s' p i = (if i < 256 then PTE_EMPTY else entry s k i)"
      "\<And>q i. unat q < 2 ^ 26 \<Longrightarrow> q \<noteq> p \<Longrightarrow> i < 512 \<Longrightarrow> entry s' q i = entry s q i"
      "\<And>a. (\<And>i. i < 512 \<Longrightarrow> a \<noteq> kword p i) \<Longrightarrow> mm_mem s' a = mm_mem s a"
  using inv
proof (cases rule: frame_alloc_cases)
  case none
  then show thesis by (intro that(1)) (simp_all add: page_table_new_kernel_def sbind_def slift_def sfail_def)
next
  case (some p s1)
  have pb: "unat p < 2 ^ 26" and kb: "unat k < 2 ^ 26" and pk: "p \<noteq> k"
    using managed_bound [OF inv] some(2,3) k by auto
  define s2 where "s2 = s1\<lparr>mm_mem := copy_upper_half k p (mm_mem s1)\<rparr>"
  have run: "page_table_new_kernel k s = (Inr \<lparr>pt_root = p, pt_frames = []\<rparr>, s2)"
    using some(1) vpn_of_ppn_kpage [OF pb] vpn_of_ppn_kpage [OF kb]
    by (simp add: page_table_new_kernel_def sbind_def slift_def s2_def)
  have m: "managed s1 = managed s" by (rule frame_same_managed [OF some(6)])
  have keep: "mm_mem s1 (kword q i) = mm_mem s (kword q i)" if "unat q < 2 ^ 26" "q \<noteq> p" "i < 512" for q i
    using some(6) kword_inj [of q p i 0] that pb by (auto simp: frame_same_def)
  have "frame_inv s2"
    unfolding s2_def
  proof (rule frame_inv_mem [OF some(4)])
    fix q assume "managed s1 q" "ref_count s1 q = 0"
    then show "copy_upper_half k p (mm_mem s1) (kpage q) = mm_mem s1 (kpage q)"
      using copy_upper_half_other [of p q 0] pb managed_bound [OF some(4)] some(5) by (auto split: if_splits)
  qed
  moreover have "mm_mem s2 a = mm_mem s a" if "\<And>i. i < 512 \<Longrightarrow> a \<noteq> kword p i" for a
  proof -
    have "copy_upper_half k p (mm_mem s1) a = mm_mem s1 a"
      unfolding copy_upper_half_def using that
      by (rule page_fold_other [where f = "\<lambda>i. if i < 256 then PTE_EMPTY else mm_mem s1 (kword k i)"])
    moreover have "a \<notin> kpage ` {p}" using that [of 0] by simp
    ultimately show ?thesis using some(6) by (simp add: s2_def frame_same_def)
  qed
  ultimately show thesis
    by (intro that(2) [OF run some(2,3)])
      (use m some(5) keep kb pk copy_upper_half_word [OF pb] copy_upper_half_other [OF pb] in
        \<open>auto simp: s2_def entry_def\<close>)
qed

section \<open>Framing\<close>

text \<open>A change of state that leaves the words of the tables and keeps them held leaves the tree and its
  lookups.\<close>

lemma pt_walk_frame:
  assumes "\<And>t i. t \<in> pt_tables bd D s root \<Longrightarrow> i < 512 \<Longrightarrow> entry s' t i = entry s t i"
    and "is \<in> pt_paths D"
  shows "pt_walk bd s' root is = pt_walk bd s root is"
  using assms(2)
proof (cases rule: pt_paths_cases)
  case (2 i)
  with root_in_tables assms(1) show ?thesis by simp
next
  case (3 i j)
  have "pte_ppn bd (entry s root i) \<in> pt_tables bd D s root" if "pte_is_valid (entry s root i)"
    by (rule pt_tablesI [of "[i]"]) (use that 3 in \<open>simp_all add: pt_paths_def\<close>)
  with 3 assms(1) root_in_tables [of root] show ?thesis by simp
qed simp

lemma pt_wf_frame:
  assumes wf: "pt_wf bd D s root" and inv: "frame_inv s'" and m: "managed s' = managed s"
    and e: "\<And>t i. t \<in> pt_tables bd D s root \<Longrightarrow> i < 512 \<Longrightarrow> entry s' t i = entry s t i"
    and h: "\<And>t. t \<in> pt_tables bd D s root \<Longrightarrow> 0 < ref_count s' t"
  shows "pt_wf bd D s' root" "pt_tables bd D s' root = pt_tables bd D s root"
    and "\<And>w. vpn_path w ! 0 \<in> D \<Longrightarrow> pt_lookup bd s' root w = pt_lookup bd s root w"
    and "\<And>is. is \<in> pt_paths D \<Longrightarrow> pt_walk bd s' root is = pt_walk bd s root is"
proof -
  show walk: "\<And>is. is \<in> pt_paths D \<Longrightarrow> pt_walk bd s' root is = pt_walk bd s root is"
    by (rule pt_walk_frame [OF e])
  show "pt_tables bd D s' root = pt_tables bd D s root" by (auto simp: pt_tables_def walk)
  show "pt_wf bd D s' root"
    using wf inv h unfolding pt_wf_def m by (auto simp: walk pt_tables_def)
  fix w assume w: "vpn_path w ! 0 \<in> D"
  note pw = pt_wf_paths [OF wf w]
  have "entry s' t (vpn_path w ! 2) = entry s t (vpn_path w ! 2)"
    if "pt_walk bd s root [vpn_path w ! 0, vpn_path w ! 1] = Some t" for t
    by (rule e [OF pt_tablesI [OF pw(3) that]]) (simp add: vpn_path_nth_less)
  then show "pt_lookup bd s' root w = pt_lookup bd s root w"
    using walk [OF pw(3)]
    by (auto simp: pt_lookup_def vpn_path_take2 Let_def simp del: pt_walk.simps split: option.splits)
qed

section \<open>How many frames\<close>

text \<open>The frames that are left, and how many of them a walk that creates tables takes: at most one for every level
  below the root, and fewer when it fails for want of one.\<close>

definition free_frames :: "mm \<Rightarrow> ppn set" where
  "free_frames s = {p. managed s p \<and> ref_count s p = 0}"

lemma ensure_table_frames:
  assumes "ensure_table pte (s, pt) = (r, (s', pt'))"
  shows "length (pt_frames pt') \<le> Suc (length (pt_frames pt))" "r = Inl e \<Longrightarrow> pt_frames pt' = pt_frames pt"
  using assms
  by (auto simp: ensure_table_def sbind_def on_mm_def load_word_def store_word_def sret_def split: prod.splits sum.splits if_splits)

lemma find_pte_create_loop_frames:
  assumes "find_pte_create_loop bd idxs pte (s, pt) = (r, (s', pt'))"
  shows "length (pt_frames pt') \<le> length (pt_frames pt) + length idxs \<and>
    (r = Inl (Panic UnwrapNone) \<longrightarrow> length (pt_frames pt') < length (pt_frames pt) + length idxs)"
  using assms
proof (induction idxs arbitrary: pte s pt)
  case Nil
  then show ?case by (auto simp: sret_def)
next
  case (Cons idx idxs)
  obtain r1 s1 pt1 where e: "ensure_table pte (s, pt) = (r1, (s1, pt1))" by (metis prod.exhaust)
  note le = ensure_table_frames [OF e]
  show ?case
  proof (cases r1)
    case (Inl err)
    with Cons.prems e le show ?thesis unfolding find_pte_create_loop_Cons by (auto simp: sbind_def)
  next
    case (Inr u)
    let ?a = "entry_addr (pte_ppn bd (mm_mem s1 pte)) idx"
    have run: "find_pte_create_loop bd (idx # idxs) pte (s, pt) = sbind (slift ?a) (find_pte_create_loop bd idxs) (s1, pt1)"
      unfolding find_pte_create_loop_Cons using e Inr by (simp add: sbind_def on_mm_def load_word_def)
    show ?thesis
    proof (cases ?a)
      case (Inl err)
      then have "err \<noteq> Panic UnwrapNone"
        by (auto simp: entry_addr_def vpn_of_ppn_def cadd_def rbind_def split: sum.splits if_splits)
      with Inl Cons.prems le(1) show ?thesis unfolding run by (auto simp: sbind_def slift_def sfail_def)
    next
      case (Inr pte')
      with Cons.prems have "find_pte_create_loop bd idxs pte' (s1, pt1) = (r, (s', pt'))" unfolding run by (simp add: sbind_def slift_def)
      from Cons.IH [OF this] le(1) show ?thesis by auto
    qed
  qed
qed

lemma map_one_frames:
  assumes "map_one bd v p flags (s, pt) = (r, (s', pt'))"
  shows "length (pt_frames pt') \<le> length (pt_frames pt) + 2"
    "r = Inl (Panic UnwrapNone) \<Longrightarrow> length (pt_frames pt') \<le> Suc (length (pt_frames pt))"
proof -
  obtain r1 s1 pt1 where f: "find_pte_create bd v (s, pt) = (r1, (s1, pt1))" by (metis prod.exhaust)
  have l: "length (pt_frames pt1) \<le> length (pt_frames pt) + 2 \<and>
      (r1 = Inl (Panic UnwrapNone) \<longrightarrow> length (pt_frames pt1) < length (pt_frames pt) + 2)"
  proof (cases "entry_addr (pt_root pt) (vpn_indexes v ! 0)")
    case (Inl err)
    then have "err \<noteq> Panic UnwrapNone"
      by (auto simp: entry_addr_def vpn_of_ppn_def cadd_def rbind_def split: sum.splits if_splits)
    with Inl f show ?thesis by (auto simp: find_pte_create_def Let_def sbind_def slift_def sfail_def)
  next
    case (Inr a)
    with f have "find_pte_create_loop bd [vpn_indexes v ! 1, vpn_indexes v ! 2] a (s, pt) = (r1, (s1, pt1))"
      unfolding find_pte_create_def Let_def snd_conv Inr sbind_lift_Inr drop_indexes by simp
    from find_pte_create_loop_frames [OF this] show ?thesis by simp
  qed
  have pt': "pt' = pt1" and "r = Inl (Panic UnwrapNone) \<Longrightarrow> r1 = Inl (Panic UnwrapNone)"
    using assms f
    by (auto simp: map_one_def sbind_def on_mm_def load_word_def store_word_def slift_def rguard_def split: sum.splits if_splits)
  with l show "length (pt_frames pt') \<le> length (pt_frames pt) + 2"
    "r = Inl (Panic UnwrapNone) \<Longrightarrow> length (pt_frames pt') \<le> Suc (length (pt_frames pt))" by auto
qed

lemma free_frames_taken:
  assumes "managed s' = managed s" "ref_count s' = (\<lambda>p. if p \<in> set new then 1 else ref_count s p)"
  shows "card (free_frames s) \<le> card (free_frames s') + length new"
proof -
  have "free_frames s \<subseteq> free_frames s' \<union> set new" using assms by (auto simp: free_frames_def)
  then have "card (free_frames s) \<le> card (free_frames s' \<union> set new)" by (intro card_mono) auto
  also have "\<dots> \<le> card (free_frames s') + card (set new)" by (rule card_Un_le)
  finally show ?thesis using card_length [of new] by linarith
qed

lemma free_frames_none: "(\<And>q. managed s q \<Longrightarrow> 0 < ref_count s q) \<Longrightarrow> free_frames s = {}"
  by (fastforce simp: free_frames_def)

lemma map_one_full:
  assumes "map_one bd v p flags (s, pt) = (Inl (Panic UnwrapNone), (s', pt'))" "pt_extends bd D root (s, pt) (s', pt')"
    and "\<And>q. managed s' q \<Longrightarrow> 0 < ref_count s' q"
  shows "card (free_frames s) < 2"
proof -
  from assms(2) obtain new where new: "pt_frames pt' = pt_frames pt @ new" "managed s' = managed s"
    "ref_count s' = (\<lambda>q. if q \<in> set new then 1 else ref_count s q)"
    by (auto simp: pt_extends_def)
  have "length new \<le> 1" using map_one_frames(2) [OF assms(1)] new(1) by simp
  moreover have "free_frames s' = {}" using assms(3) by (rule free_frames_none)
  ultimately show ?thesis using free_frames_taken [OF new(2,3)] by simp
qed

section \<open>Properties\<close>

text \<open>C3: \<open>map_one\<close> implements the update of a partial map at a point that is not yet mapped: on
  success the page number maps to the entry built from the frame and the flags, every other
  page number of the region maps as before, and the tables stay a tree. It panics only when the
  page number is mapped already or when fewer than two frames are free and none is left for a table, and then no
  mapping changed.\<close>

theorem map_one_refines_map_update:
  assumes "pt_wf bd D s (pt_root pt)" "vpn_path v ! 0 \<in> D"
  shows "case map_one bd v p flags (s, pt) of
      (Inr _, (s', pt')) \<Rightarrow> pt_lookup bd s (pt_root pt) v = None \<and>
        pt_root pt' = pt_root pt \<and> pt_wf bd D s' (pt_root pt) \<and>
        (\<forall>w. vpn_path w ! 0 \<in> D \<longrightarrow> pt_lookup bd s' (pt_root pt) w =
           (if vpn_path w = vpn_path v then Some (pte_new p (flags OR PTE_VALID)) else pt_lookup bd s (pt_root pt) w))
    | (Inl e, (s', pt')) \<Rightarrow>
        (e = Panic Assertion \<and> pt_lookup bd s (pt_root pt) v \<noteq> None \<or>
         e = Panic UnwrapNone \<and> card (free_frames s) < 2 \<and> (\<forall>q. managed s' q \<longrightarrow> 0 < ref_count s' q)) \<and>
        pt_root pt' = pt_root pt \<and> pt_wf bd D s' (pt_root pt) \<and>
        (\<forall>w. vpn_path w ! 0 \<in> D \<longrightarrow> pt_lookup bd s' (pt_root pt) w = pt_lookup bd s (pt_root pt) w)"
proof -
  let ?r = "pt_root pt"
  show ?thesis
  proof (cases "pt_lookup bd s ?r v")
    case None
    show ?thesis
    proof (cases rule: map_one_ok [OF assms refl None, of p flags])
      case (1 s' pt')
      with map_one_full [OF 1] show ?thesis by (auto simp: pt_extends_def)
    next
      case (2 s' pt' s1)
      then show ?thesis using None by (auto simp: pt_extends_def)
    qed
  next
    case (Some e)
    show ?thesis
    proof (cases rule: find_pte_create_ok [OF assms refl])
      case (1 s' pt')
      then have run: "map_one bd v p flags (s, pt) = (Inl (Panic UnwrapNone), (s', pt'))" by (simp add: map_one_def sbind_def)
      with 1(2,3) map_one_full [OF run 1(2,3)] show ?thesis by (auto simp: pt_extends_def)
    next
      case (2 s1 pt1 t)
      then have lk: "pt_lookup bd s1 ?r v = Some e" using Some assms(2) by (auto simp: pt_extends_def)
      then have "pte_is_valid (mm_mem s1 (kword t (vpn_path v ! 2)))"
        using 2(3) by (auto simp: pt_lookup_Some entry_def)
      then have "map_one bd v p flags (s, pt) = (Inl (Panic Assertion), (s1, pt1))"
        using 2(1) by (simp add: map_one_def sbind_def on_mm_def load_word_def slift_def sfail_def)
      with 2(2) Some show ?thesis by (auto simp: pt_extends_def)
    qed
  qed
qed

text \<open>A memory of sixteen frames, all free but the one that is the root of an empty table.\<close>

lemma demo_memory:
  "\<exists>s p. pt_wf bd {..<256} s p \<and> (\<forall>w. vpn_path w ! 0 < 256 \<longrightarrow> pt_lookup bd s p w = None) \<and>
    (\<forall>q. managed s q \<longrightarrow> kpage q < MEMORY_END) \<and> card (free_frames s) = 15"
proof -
  obtain s where s: "frame_inv s" "\<And>p. ref_count s p = 0" "\<And>p. managed s p \<Longrightarrow> kpage p < MEMORY_END"
    "length (mm_usage s) = (unat MEMORY_END - unat (0xFFFFFFC0807F0000 :: va)) div 4096"
    by (rule frame_allocator_init_ok [of demo_mm "0xFFFFFFC0807F0000"])
      (simp_all add: demo_mm_def fl_new_def MEMORY_START_def MEMORY_END_def MEMORY_SIZE_def)
  have len: "length (mm_usage s) = 16" using s(4) by (simp add: MEMORY_START_def MEMORY_END_def MEMORY_SIZE_def)
  have m: "managed s (mm_start s)" using len by (simp add: managed_def)
  have c: "card (Collect (managed s)) = 16"
  proof -
    have b: "unat (mm_start s) + 16 \<le> 2 ^ 26" using s(1) len by (auto simp: frame_inv_def)
    have "unat ` Collect (managed s) = {unat (mm_start s)..<unat (mm_start s) + 16}"
    proof (intro equalityI subsetI)
      fix n assume n: "n \<in> {unat (mm_start s)..<unat (mm_start s) + 16}"
      then have "unat (of_nat n :: ppn) = n" using b by (simp add: unat_of_nat)
      with n len show "n \<in> unat ` Collect (managed s)"
        by (intro image_eqI [of _ _ "of_nat n"]) (auto simp: managed_def word_le_nat_alt)
    qed (use len in \<open>auto simp: managed_def word_le_nat_alt\<close>)
    moreover have "inj_on unat (Collect (managed s))" by (auto intro!: inj_onI simp: word_unat_eq_iff)
    ultimately show ?thesis by (metis card_image card_atLeastLessThan add_diff_cancel_left')
  qed
  from s(1) show ?thesis
  proof (cases rule: alloc_zeroed_table_cases)
    case none
    with m s(2) show ?thesis by fastforce
  next
    case (some p s')
    have "free_frames s' = Collect (managed s) - {p}" "managed s p"
      using some(2) s(2) by (auto simp: fresh_zero_page_def free_frames_def)
    then have "card (free_frames s') = 15" using c by simp
    moreover have "pt_wf bd {..<256} s' p" by (rule pt_wf_fresh [OF some(2)]) auto
    moreover have "pt_lookup bd s' p w = None" if "vpn_path w ! 0 < 256" for w
      using some(2) that by (simp add: fresh_zero_page_def pt_lookup_def vpn_path_take2)
    moreover have "kpage q < MEMORY_END" if "managed s' q" for q
      using some(2) that s(3) by (simp add: fresh_zero_page_def)
    ultimately show ?thesis by blast
  qed
qed

lemma demo_mapping:
  "\<exists>s (pt :: page_table). pt_wf bd {..<256} s (pt_root pt) \<and> pt_lookup bd s (pt_root pt) 0x10 = None \<and> 2 \<le> card (free_frames s)"
proof -
  from demo_memory [of bd] obtain s p where s: "pt_wf bd {..<256} s p"
    "\<forall>w. vpn_path w ! 0 < 256 \<longrightarrow> pt_lookup bd s p w = None" "card (free_frames s) = 15" by blast
  have "vpn_path 0x10 ! 0 < 256" by (simp add: vpn_path_eq)
  with s show ?thesis by (intro exI [of _ s] exI [of _ "\<lparr>pt_root = p, pt_frames = []\<rparr>"]) simp
qed

theorem map_one_refines_map_update_witness:
  "\<exists>s pt s' pt'. pt_wf K210 {..<256} s (pt_root pt) \<and>
    map_one K210 0x10 0x80001 (PTE_READABLE OR PTE_USER) (s, pt) = (Inr (), (s', pt')) \<and>
    pt_lookup K210 s' (pt_root pt) 0x10 = Some (pte_new 0x80001 ((PTE_READABLE OR PTE_USER) OR PTE_VALID))"
proof -
  from demo_mapping [of K210] obtain s and pt :: page_table where s: "pt_wf K210 {..<256} s (pt_root pt)"
    "pt_lookup K210 s (pt_root pt) 0x10 = None" "2 \<le> card (free_frames s)" by blast
  have v: "vpn_path 0x10 ! 0 \<in> {..<256}" by (simp add: vpn_path_eq)
  obtain x s' pt' where run: "map_one K210 0x10 0x80001 (PTE_READABLE OR PTE_USER) (s, pt) = (x, (s', pt'))" by (metis prod.exhaust)
  note T = map_one_refines_map_update [OF s(1) v, of "0x80001" "PTE_READABLE OR PTE_USER", unfolded run prod.case]
  then have x: "x = Inr ()" using s(2,3) by (cases x) auto
  then have "pt_lookup K210 s' (pt_root pt) 0x10 = Some (pte_new 0x80001 ((PTE_READABLE OR PTE_USER) OR PTE_VALID))"
    using T v by simp
  with s(1) run [unfolded x] show ?thesis by blast
qed

text \<open>C23: \<open>unmap_one\<close> and \<open>remap_one\<close> implement removal and overwriting in the partial map: a mapped page
  number is removed, or maps to the new entry, and all others keep their entry; on an unmapped page
  number both panic and change nothing.\<close>

theorem unmap_remap_refine_map:
  assumes "pt_wf bd D s root" "vpn_path v ! 0 \<in> D"
  shows "case pt_lookup bd s root v of
      None \<Rightarrow> unmap_one bd root v s = (Inl (Panic UnwrapNone), s) \<and>
        remap_one bd root v p flags s = (Inl (Panic UnwrapNone), s)
    | Some _ \<Rightarrow>
        (\<exists>s'. unmap_one bd root v s = (Inr (), s') \<and> pt_wf bd D s' root \<and>
          (\<forall>w. vpn_path w ! 0 \<in> D \<longrightarrow>
            pt_lookup bd s' root w = (if vpn_path w = vpn_path v then None else pt_lookup bd s root w))) \<and>
        (\<exists>s'. remap_one bd root v p flags s = (Inr (), s') \<and> pt_wf bd D s' root \<and>
          (\<forall>w. vpn_path w ! 0 \<in> D \<longrightarrow> pt_lookup bd s' root w =
            (if vpn_path w = vpn_path v then Some (pte_new p (flags OR PTE_VALID)) else pt_lookup bd s root w)))"
proof (cases "pt_lookup bd s root v")
  case None
  with found_pte_none [OF assms None] show ?thesis by (simp add: unmap_one_def remap_one_def sbind_def)
next
  case (Some e)
  obtain t where t: "found_pte bd root v s = (Inr (kword t (vpn_path v ! 2)), s)"
    "pt_walk bd s root (take 2 (vpn_path v)) = Some t" using found_pte_ok [OF assms Some] by metis
  note wf = leaf_store(1) [OF assms t(2) refl] and lk = leaf_store_lookup [OF assms t(2) refl]
  have "\<exists>s'. unmap_one bd root v s = (Inr (), s') \<and> pt_wf bd D s' root \<and>
      (\<forall>w. vpn_path w ! 0 \<in> D \<longrightarrow>
        pt_lookup bd s' root w = (if vpn_path w = vpn_path v then None else pt_lookup bd s root w))"
    using wf [of PTE_EMPTY] lk [of _ PTE_EMPTY] t(1) by (simp add: unmap_one_def sbind_def store_word_def)
  moreover have "\<exists>s'. remap_one bd root v p flags s = (Inr (), s') \<and> pt_wf bd D s' root \<and>
      (\<forall>w. vpn_path w ! 0 \<in> D \<longrightarrow> pt_lookup bd s' root w =
        (if vpn_path w = vpn_path v then Some (pte_new p (flags OR PTE_VALID)) else pt_lookup bd s root w))"
    using wf [of "pte_new p (flags OR PTE_VALID)"] lk [of _ "pte_new p (flags OR PTE_VALID)"] t(1)
    by (simp add: remap_one_def sbind_def store_word_def)
  ultimately show ?thesis using Some by simp
qed

theorem unmap_remap_refine_map_witness:
  "\<exists>s p s1 s2. pt_wf K210 {..<256} s p \<and> pt_lookup K210 s p 0x10 \<noteq> None \<and>
    unmap_one K210 p 0x10 s = (Inr (), s1) \<and> pt_lookup K210 s1 p 0x10 = None \<and>
    remap_one K210 p 0x10 0x80002 PTE_READABLE s = (Inr (), s2) \<and>
    pt_lookup K210 s2 p 0x10 = Some (pte_new 0x80002 (PTE_READABLE OR PTE_VALID))"
proof -
  from demo_mapping [of K210] obtain s and pt :: page_table where s: "pt_wf K210 {..<256} s (pt_root pt)"
    "pt_lookup K210 s (pt_root pt) 0x10 = None" "2 \<le> card (free_frames s)" by blast
  have v: "vpn_path 0x10 ! 0 \<in> {..<256}" by (simp add: vpn_path_eq)
  obtain t where t: "pt_wf K210 {..<256} t (pt_root pt)" "pt_lookup K210 t (pt_root pt) 0x10 \<noteq> None"
  proof (cases rule: map_one_ok [OF s(1) v refl s(2), of "0x80001" PTE_READABLE])
    case (1 s' pt')
    with map_one_full [OF 1] s(3) show thesis by simp
  next
    case (2 s' pt' s1)
    with v show thesis by (intro that [of s']) simp_all
  qed
  note T = unmap_remap_refine_map [OF t(1) v, of "0x80002" PTE_READABLE]
  obtain s1 where "unmap_one K210 (pt_root pt) 0x10 t = (Inr (), s1)" "pt_lookup K210 s1 (pt_root pt) 0x10 = None"
    using T t(2) v by force
  moreover obtain s2 where "remap_one K210 (pt_root pt) 0x10 0x80002 PTE_READABLE t = (Inr (), s2)"
    "pt_lookup K210 s2 (pt_root pt) 0x10 = Some (pte_new 0x80002 (PTE_READABLE OR PTE_VALID))"
    using T t(2) v by force
  ultimately show ?thesis using t by blast
qed

text \<open>C25: a new process page table shares the kernel half: every page number of the upper half
  translates as in the kernel's table and the lower half is empty.  The root is a frame that was free and is now held
  once, no other frame is taken or given back, and only the words of the new root are written: every address of memory
  outside them, in particular every word of every other page, keeps its value.\<close>

theorem new_kernel_shares_upper_half:
  assumes "pt_wf bd {256..<512} s k" "page_table_new_kernel k s = (Inr pt, s')"
  shows "pt_wf bd {..<256} s' (pt_root pt) \<and>
    (\<forall>w. vpn_path w ! 0 < 256 \<longrightarrow> pt_lookup bd s' (pt_root pt) w = None) \<and>
    (\<forall>w. 256 \<le> vpn_path w ! 0 \<longrightarrow> pt_lookup bd s' (pt_root pt) w = pt_lookup bd s k w \<and>
       pt_lookup bd s' k w = pt_lookup bd s k w) \<and>
    ref_count s (pt_root pt) = 0 \<and> ref_count s' = (ref_count s)(pt_root pt := 1) \<and> managed s' = managed s \<and>
    (\<forall>q i. unat q < 2 ^ 26 \<longrightarrow> q \<noteq> pt_root pt \<longrightarrow> i < 512 \<longrightarrow> entry s' q i = entry s q i) \<and>
    (\<forall>a. (\<forall>i < 512. a \<noteq> kword (pt_root pt) i) \<longrightarrow> mm_mem s' a = mm_mem s a)"
proof -
  have wk: "pt_walk bd s k [] = Some k" by simp
  have e: "[] \<in> pt_paths {256..<512}" by (simp add: pt_paths_def)
  note kt = pt_wf_table [OF assms(1) e wk] and inv = pt_wf_frame_inv [OF assms(1)]
  from inv kt(1,2) show ?thesis
  proof (cases rule: page_table_new_kernel_ok)
    case none
    with assms(2) show ?thesis by simp
  next
    case (some p t)
    with assms(2) have pt: "pt_root pt = p" "s' = t" by auto
    have inval: "\<not> pte_is_valid (entry t p i)" if "i \<in> {..<256}" for i using some(7) that by simp
    note lower = pt_wf_empty [where D = "{..<256}", OF some(4), of p]
    have up: "pt_lookup bd t p w = pt_lookup bd s k w \<and> pt_lookup bd t k w = pt_lookup bd s k w"
      if w: "256 \<le> vpn_path w ! 0" for w
    proof -
      let ?a = "vpn_path w ! 0" and ?b = "vpn_path w ! 1" and ?c = "vpn_path w ! 2"
      have lt: "?a < 512" "?b < 512" "?c < 512" by (simp_all add: vpn_path_nth_less)
      have D: "?a \<in> {256..<512}" using w lt by simp
      note pw = pt_wf_paths [OF assms(1) D]
      have ne: "q \<noteq> p \<and> unat q < 2 ^ 26" if "is \<in> pt_paths {256..<512}" "pt_walk bd s k is = Some q" for "is" q
        using pt_wf_table [OF assms(1) that] some(3) by auto
      have ek: "entry t k ?a = entry s k ?a" "entry t p ?a = entry s k ?a"
        using some(7,8) ne [OF pw(1) wk] lt w by auto
      show ?thesis
      proof (cases "pte_is_valid (entry s k ?a)")
        case False
        with ek show ?thesis by (simp add: pt_lookup_def vpn_path_take2)
      next
        case True
        let ?q = "pte_ppn bd (entry s k ?a)"
        have eq: "entry t ?q ?b = entry s ?q ?b" using ne [OF pw(2), of ?q] True some(8) lt by simp
        show ?thesis
        proof (cases "pte_is_valid (entry s ?q ?b)")
          case False
          with ek eq True show ?thesis by (simp add: pt_lookup_def vpn_path_take2)
        next
          case v2: True
          let ?u = "pte_ppn bd (entry s ?q ?b)"
          have "entry t ?u ?c = entry s ?u ?c" using ne [OF pw(3), of ?u] True v2 some(8) lt by simp
          with ek eq True v2 show ?thesis by (simp add: pt_lookup_def vpn_path_take2)
        qed
      qed
    qed
    have "managed t p" "0 < ref_count t p" using some(2,5,6) by auto
    then show ?thesis using lower inval up some(3,5,6,8,9) unfolding pt by auto
  qed
qed

theorem new_kernel_shares_upper_half_witness:
  "\<exists>s k pt s'. pt_wf K210 {256..<512} s k \<and> page_table_new_kernel k s = (Inr pt, s') \<and>
    pt_wf K210 {..<256} s' (pt_root pt)"
proof -
  from demo_frames obtain s where s: "frame_reach s {#}" "length (mm_usage s) = 2" "frame_inv s" by blast
  have b: "unat (mm_start s) + 2 \<le> 2 ^ 26" using s by (auto simp: frame_inv_def)
  let ?p0 = "mm_start s" and ?p1 = "mm_start s + 1"
  have u1: "unat ?p1 = unat ?p0 + 1" using b by (simp add: unat_add_noof)
  have m: "managed s ?p0" "managed s ?p1" "?p0 \<noteq> ?p1"
    using s(2) u1 by (auto simp: managed_def word_le_nat_alt)
  have z: "ref_count s p = 0" for p using frame_reach_held [OF s(1)] by (simp add: frame_held_def)
  from s(3) obtain k s1 where k: "fresh_zero_page s k s1"
    by (cases rule: alloc_zeroed_table_cases) (use m(1) z in fastforce)+
  have wf: "pt_wf K210 {256..<512} s1 k" by (rule pt_wf_fresh [OF k]) auto
  have inv1: "frame_inv s1" and mk: "managed s1 k" "0 < ref_count s1 k" using k by (auto simp: fresh_zero_page_def)
  have "\<exists>p. managed s1 p \<and> ref_count s1 p = 0"
  proof (cases "k = ?p0")
    case True
    with k m z show ?thesis by (intro exI [of _ ?p1]) (simp add: fresh_zero_page_def)
  next
    case False
    with k m z show ?thesis by (intro exI [of _ ?p0]) (simp add: fresh_zero_page_def)
  qed
  with inv1 mk obtain pt s2 where new: "page_table_new_kernel k s1 = (Inr pt, s2)"
    by (cases rule: page_table_new_kernel_ok) (metis less_irrefl, blast)
  from new_kernel_shares_upper_half [OF wf new] wf new show ?thesis by blast
qed

end
