(* ===== verification/Address_Space.thy ===== *)
theory Address_Space
  imports Page_Table Byte_Stream
begin

text \<open>
  The address space of a process, \<open>kernel/src/mm/address_space.rs\<close>, with \<open>PageTable::map\<close> and
  \<open>kernel_page_table\<close> of \<open>kernel/src/mm/page_table.rs\<close> and the memory system calls of
  \<open>kernel/src/syscall/mm.rs\<close> that only touch it. An operation runs on the frame allocator with its
  memory and the address space. Dropping a \<open>FrameTracker\<close> is written out where the code drops it.
  The \<open>sfence\<close> instructions, which only flush translation caches, have no counterpart: a memory access
  reads the tables directly.
\<close>

unbundle bit_operations_syntax

section \<open>Ordered maps\<close>

text \<open>
  \<open>BTreeMap\<close> as a list of entries in key order. The search compares the key with the entries of a
  node from left to right and stops at the first one that is not smaller; an insertion under an equal
  key replaces the value and keeps the key that was there.
\<close>

fun bt_find :: "('k \<Rightarrow> 'k \<Rightarrow> ordering) \<Rightarrow> 'k \<Rightarrow> ('k \<times> 'v) list \<Rightarrow> ('k \<times> 'v) option" where
  "bt_find c k [] = None"
| "bt_find c k ((k', v) # xs) =
     (case c k k' of Greater \<Rightarrow> bt_find c k xs | Equal \<Rightarrow> Some (k', v) | Less \<Rightarrow> None)"

fun bt_insert :: "('k \<Rightarrow> 'k \<Rightarrow> ordering) \<Rightarrow> 'k \<Rightarrow> 'v \<Rightarrow> ('k \<times> 'v) list \<Rightarrow> ('k \<times> 'v) list" where
  "bt_insert c k v [] = [(k, v)]"
| "bt_insert c k v ((k', v') # xs) =
     (case c k k' of Greater \<Rightarrow> (k', v') # bt_insert c k v xs | Equal \<Rightarrow> (k', v) # xs
      | Less \<Rightarrow> (k, v) # (k', v') # xs)"

fun bt_remove :: "('k \<Rightarrow> 'k \<Rightarrow> ordering) \<Rightarrow> 'k \<Rightarrow> ('k \<times> 'v) list \<Rightarrow> ('k \<times> 'v) list" where
  "bt_remove c k [] = []"
| "bt_remove c k ((k', v') # xs) =
     (case c k k' of Greater \<Rightarrow> (k', v') # bt_remove c k xs | Equal \<Rightarrow> xs | Less \<Rightarrow> (k', v') # xs)"

definition usize_cmp :: "usize \<Rightarrow> usize \<Rightarrow> ordering" where
  "usize_cmp a b = (if a < b then Less else if a = b then Equal else Greater)"

section \<open>State\<close>

datatype map_type = Linear | Framed | Device | KernelStack

record map_area =
  ma_frames :: "(vpn \<times> ppn) list"
  ma_type :: map_type
  ma_perm :: pte

record address_space =
  as_pt :: page_table
  as_areas :: "(va_range \<times> map_area) list"
  as_data_end :: va
  as_data_max :: va

definition BRK_MAX :: usize where
  "BRK_MAX = 0x3000"

type_synonym ass = "mm \<times> address_space"

definition on_pt :: "(pts, 'a) st \<Rightarrow> (ass, 'a) st" where
  "on_pt m s = (case m (fst s, as_pt (snd s)) of (r, (t, pt)) \<Rightarrow> (r, (t, (snd s)\<lparr>as_pt := pt\<rparr>)))"

text \<open>The key \<open>VARangeOrd(va..va)\<close>.\<close>

definition va_key :: "va \<Rightarrow> va_range" where
  "va_key a = \<lparr>rg_start = a, rg_end = a\<rparr>"

section \<open>Mapping an area\<close>

text \<open>
  \<open>PageTable::map\<close>. The frames of the pages are added to \<open>data_frames\<close> of the area. With data the
  framed case is \<open>todo!()\<close> in the source; empty data clears the new pages.
\<close>

fun map_linear :: "board \<Rightarrow> pte \<Rightarrow> vpn list \<Rightarrow> (pts, unit) st" where
  "map_linear bd perm [] = sret ()"
| "map_linear bd perm (v # vs) =
     sbind (slift (ppn_of_vpn v)) (\<lambda>p. sbind (map_one bd v p perm) (\<lambda>_. map_linear bd perm vs))"

fun map_device :: "board \<Rightarrow> pte \<Rightarrow> vpn list \<Rightarrow> (pts, unit) st" where
  "map_device bd perm [] = sret ()"
| "map_device bd perm (v # vs) = sbind (map_one bd v v perm) (\<lambda>_. map_device bd perm vs)"

definition clear_page :: "ppn \<Rightarrow> (mm, unit) st" where
  "clear_page p = sbind (slift (vpn_of_ppn p)) (\<lambda>_ s. (Inr (), s\<lparr>mm_mem := fill_page p 0 (mm_mem s)\<rparr>))"

fun map_framed :: "board \<Rightarrow> bool \<Rightarrow> pte \<Rightarrow> vpn list \<Rightarrow> (vpn \<times> ppn) list \<Rightarrow> (pts, (vpn \<times> ppn) list) st" where
  "map_framed bd clear perm [] frames = sret frames"
| "map_framed bd clear perm (v # vs) frames =
     sbind (on_mm frame_alloc) (\<lambda>f. sbind (slift (runwrap f)) (\<lambda>frame.
     sbind (map_one bd v frame perm) (\<lambda>_.
     sbind (if clear then on_mm (clear_page frame) else sret ()) (\<lambda>_.
     map_framed bd clear perm vs (bt_insert usize_cmp v frame frames)))))"

text \<open>Bytes in the word memory of a little-endian machine.\<close>

definition store_byte :: "va \<Rightarrow> u8 \<Rightarrow> (va \<Rightarrow> usize) \<Rightarrow> (va \<Rightarrow> usize)" where
  "store_byte a x mem =
     (let w = a AND NOT 7; k = 8 * unat (a AND 7)
      in mem(w := (mem w AND NOT (push_bit k 0xFF)) OR push_bit k (ucast x)))"

definition load_byte :: "va \<Rightarrow> (va \<Rightarrow> usize) \<Rightarrow> u8" where
  "load_byte a mem = ucast (drop_bit (8 * unat (a AND 7)) (mem (a AND NOT 7)))"

fun store_bytes :: "va \<Rightarrow> u8 list \<Rightarrow> (va \<Rightarrow> usize) \<Rightarrow> (va \<Rightarrow> usize)" where
  "store_bytes a [] mem = mem"
| "store_bytes a (x # xs) mem = store_bytes (a + 1) xs (store_byte a x mem)"

definition with_vpns :: "va_range \<Rightarrow> (vpn list \<Rightarrow> ('s, 'a) st) \<Rightarrow> ('s, 'a) st" where
  "with_vpns r body = sbind (slift (vpn_range r)) (\<lambda>(s, e). body (range_list s e))"

definition map_area_framed :: "board \<Rightarrow> bool \<Rightarrow> va_range \<Rightarrow> map_area \<Rightarrow> (pts, map_area) st" where
  "map_area_framed bd clear r area = with_vpns r (\<lambda>vs.
     sbind (map_framed bd clear (ma_perm area) vs (ma_frames area)) (\<lambda>fs. sret (area\<lparr>ma_frames := fs\<rparr>)))"

definition page_table_map :: "board \<Rightarrow> va_range \<Rightarrow> map_area \<Rightarrow> u8 list option \<Rightarrow> (pts, map_area) st" where
  "page_table_map bd r area data =
     (case ma_type area of
       Linear \<Rightarrow> sbind (with_vpns r (map_linear bd (ma_perm area))) (\<lambda>_.
          case data of
            None \<Rightarrow> sret area
          | Some bs \<Rightarrow> (\<lambda>(s, pt). (Inr area, (s\<lparr>mm_mem := store_bytes (rg_start r) bs (mm_mem s)\<rparr>, pt))))
     | Framed \<Rightarrow>
         (case data of
            Some bs \<Rightarrow> if length bs \<noteq> 0 then sfail (Panic Todo) else map_area_framed bd True r area
          | None \<Rightarrow> map_area_framed bd False r area)
     | Device \<Rightarrow> sbind (with_vpns r (map_device bd (ma_perm area))) (\<lambda>_. sret area)
     | KernelStack \<Rightarrow> sbind (slift (rguard (data = None) (Panic Assertion))) (\<lambda>_. map_area_framed bd False r area))"

fun map_mmio :: "board \<Rightarrow> (usize \<times> usize) list \<Rightarrow> (pts, unit) st" where
  "map_mmio bd [] = sret ()"
| "map_mmio bd ((a, n) # ps) =
     sbind (slift (cadd a n)) (\<lambda>e.
     sbind (page_table_map bd \<lparr>rg_start = a, rg_end = e\<rparr>
       \<lparr>ma_frames = [], ma_type = Device, ma_perm = PTE_READABLE OR PTE_WRITABLE\<rparr> None) (\<lambda>_.
     map_mmio bd ps))"

text \<open>\<open>kernel_page_table\<close>; the five sections of the kernel image are the symbols of the linker script.\<close>

fun map_sections :: "board \<Rightarrow> (va_range \<times> pte) list \<Rightarrow> (pts, unit) st" where
  "map_sections bd [] = sret ()"
| "map_sections bd ((r, perm) # ss) =
     sbind (page_table_map bd r \<lparr>ma_frames = [], ma_type = Linear, ma_perm = perm\<rparr> None) (\<lambda>_.
     map_sections bd ss)"

definition kernel_page_table :: "board \<Rightarrow> (va_range \<times> pte) list \<Rightarrow> (mm, page_table) st" where
  "kernel_page_table bd sections =
     sbind alloc_zeroed_table (\<lambda>root s.
       case sbind (map_sections bd sections) (\<lambda>_.
            sbind (map_mmio bd (MMIO bd)) (\<lambda>_.
            sbind (slift (entry_addr root (vpn_indexes (addr_floor KERNEL_STACK_TOP) ! 0))) (\<lambda>pte.
            sbind (on_mm alloc_zeroed_table) (\<lambda>frame.
            sbind (on_mm (store_word pte (pte_new frame PTE_VALID))) (\<lambda>_ (s, pt).
              (Inr (), (s, pt\<lparr>pt_frames := pt_frames pt @ [frame]\<rparr>)))))))
            (s, \<lparr>pt_root = root, pt_frames = []\<rparr>) of
         (Inl e, (s', pt)) \<Rightarrow> (Inl e, s')
       | (Inr _, (s', pt)) \<Rightarrow> (Inr pt, s'))"

section \<open>Operations of AddressSpace\<close>

definition address_space_new_kernel :: "board \<Rightarrow> ppn \<Rightarrow> (mm, address_space) st" where
  "address_space_new_kernel bd kroot =
     sbind (page_table_new_kernel kroot) (\<lambda>pt s.
       case map_mmio bd (MMIO bd) (s, pt) of
         (Inl e, (s', pt')) \<Rightarrow> (Inl e, s')
       | (Inr _, (s', pt')) \<Rightarrow> (Inr \<lparr>as_pt = pt', as_areas = [], as_data_end = 1, as_data_max = 1\<rparr>, s'))"

text \<open>
  \<open>fork\<close> runs on the parent and the child being built. For an area that is writable (or
  copy-on-write) every page is mapped into the child and remapped in the parent without the write
  permission; other areas are mapped with their own permission. The trackers of the area are cloned.
\<close>

type_synonym forks = "mm \<times> address_space \<times> address_space"

definition fork_map_child :: "board \<Rightarrow> vpn \<Rightarrow> ppn \<Rightarrow> pte \<Rightarrow> (forks, unit) st" where
  "fork_map_child bd v p flags = (\<lambda>(s, parent, child).
     case map_one bd v p flags (s, as_pt child) of
       (r, (s', pt)) \<Rightarrow> (r, (s', parent, child\<lparr>as_pt := pt\<rparr>)))"

definition fork_remap_parent :: "board \<Rightarrow> vpn \<Rightarrow> ppn \<Rightarrow> pte \<Rightarrow> (forks, unit) st" where
  "fork_remap_parent bd v p flags = (\<lambda>(s, parent, child).
     case remap_one bd (pt_root (as_pt parent)) v p flags s of (r, s') \<Rightarrow> (r, (s', parent, child)))"

fun fork_pages :: "board \<Rightarrow> bool \<Rightarrow> pte \<Rightarrow> (vpn \<times> ppn) list \<Rightarrow> (forks, unit) st" where
  "fork_pages bd cow flags [] = sret ()"
| "fork_pages bd cow flags ((v, p) # fs) =
     sbind (fork_map_child bd v p flags) (\<lambda>_.
     sbind (if cow then fork_remap_parent bd v p flags else sret ()) (\<lambda>_.
     fork_pages bd cow flags fs))"

fun clone_frames :: "(vpn \<times> ppn) list \<Rightarrow> (mm, (vpn \<times> ppn) list) st" where
  "clone_frames [] = sret []"
| "clone_frames ((v, p) # fs) =
     sbind (frame_clone p) (\<lambda>q. sbind (clone_frames fs) (\<lambda>rest. sret ((v, q) # rest)))"

definition fork_area :: "board \<Rightarrow> va_range \<Rightarrow> map_area \<Rightarrow> (forks, unit) st" where
  "fork_area bd r area =
     (let cow = pte_contains (ma_perm area) PTE_WRITABLE \<or> pte_contains (ma_perm area) PTE_COW;
          flags = (if cow then pte_insert (pte_remove (ma_perm area) PTE_WRITABLE) PTE_COW else ma_perm area)
      in sbind (fork_pages bd cow flags (ma_frames area)) (\<lambda>_ (s, parent, child).
           case clone_frames (ma_frames area) s of
             (Inl e, s') \<Rightarrow> (Inl e, (s', parent, child))
           | (Inr fs, s') \<Rightarrow> (Inr (), (s', parent,
               child\<lparr>as_areas := bt_insert va_range_cmp r (area\<lparr>ma_frames := fs\<rparr>) (as_areas child)\<rparr>))))"

fun fork_areas :: "board \<Rightarrow> (va_range \<times> map_area) list \<Rightarrow> (forks, unit) st" where
  "fork_areas bd [] = sret ()"
| "fork_areas bd ((r, area) # rs) = sbind (fork_area bd r area) (\<lambda>_. fork_areas bd rs)"

definition address_space_fork :: "board \<Rightarrow> ppn \<Rightarrow> (ass, address_space) st" where
  "address_space_fork bd kroot = (\<lambda>(s, self).
     case address_space_new_kernel bd kroot s of
       (Inl e, s') \<Rightarrow> (Inl e, (s', self))
     | (Inr new_as, s') \<Rightarrow>
         (case fork_areas bd (as_areas self) (s', self, new_as) of
            (Inl e, (s2, self', new')) \<Rightarrow> (Inl e, (s2, self'))
          | (Inr _, (s2, self', new')) \<Rightarrow>
              (Inr (new'\<lparr>as_data_end := as_data_end self', as_data_max := as_data_max self'\<rparr>), (s2, self'))))"

text \<open>
  \<open>handle_pagefault\<close>. The page is copied through its virtual address, which the active table, the one
  of this address space, translates to the frame in the entry. Overwriting the tracker of the area drops
  the old one.
\<close>

definition copy_page :: "ppn \<Rightarrow> ppn \<Rightarrow> (va \<Rightarrow> usize) \<Rightarrow> (va \<Rightarrow> usize)" where
  "copy_page src dst mem = fold (\<lambda>i m. m(kword dst i := mem (kword src i))) [0..<512] mem"

definition area_set_frame :: "vpn \<Rightarrow> ppn \<Rightarrow> map_area \<Rightarrow> map_area" where
  "area_set_frame v p area = area\<lparr>ma_frames := bt_insert usize_cmp v p (ma_frames area)\<rparr>"

definition pagefault_entry :: "board \<Rightarrow> vpn \<Rightarrow> (ass, va) st" where
  "pagefault_entry bd v = (\<lambda>(s, self).
     case sbind (find_pte bd (pt_root (as_pt self)) v) (\<lambda>r. slift (runwrap r)) s of (r, s') \<Rightarrow> (r, (s', self)))"

definition pagefault_frame :: "va \<Rightarrow> vpn \<Rightarrow> (ass, va_range \<times> map_area \<times> ppn) st" where
  "pagefault_frame a v = (\<lambda>(s, self).
     (rbind (runwrap (bt_find va_range_cmp (va_key a) (as_areas self))) (\<lambda>(r, area).
      rbind (runwrap (bt_find usize_cmp v (ma_frames area))) (\<lambda>(_, frame). Inr (r, area, frame))), (s, self)))"

definition pagefault_copy :: "board \<Rightarrow> va \<Rightarrow> va \<Rightarrow> vpn \<Rightarrow> va_range \<times> map_area \<times> ppn \<Rightarrow> (ass, unit) st" where
  "pagefault_copy bd a pte v = (\<lambda>(r, area, frame).
     sbind (on_mm frame_alloc) (\<lambda>f. sbind (slift (runwrap f)) (\<lambda>new_frame.
     sbind (slift (vpn_of_ppn new_frame)) (\<lambda>_.
     sbind (\<lambda>(s, self). let src = pte_ppn bd (mm_mem s pte);
                mem = copy_page src new_frame (mm_mem s);
                mem' = mem(pte := pte_set_ppn new_frame (mem pte))
              in (Inr (), (s\<lparr>mm_mem := mem'\<rparr>,
                   self\<lparr>as_areas := bt_insert va_range_cmp r (area_set_frame v new_frame area) (as_areas self)\<rparr>)))
       (\<lambda>_. on_mm (frame_dealloc frame))))))"

definition handle_pagefault :: "board \<Rightarrow> va \<Rightarrow> (ass, unit) st" where
  "handle_pagefault bd a =
     (let v = addr_floor a in
      sbind (pagefault_entry bd v) (\<lambda>pte.
      sbind (on_mm (load_word pte)) (\<lambda>e.
      if \<not> pte_contains e PTE_COW then sfail (Panic Explicit)
      else
        sbind (on_mm (store_word pte (pte_insert (pte_remove e PTE_COW) PTE_WRITABLE))) (\<lambda>_.
        sbind (pagefault_frame a v) (\<lambda>(r, area, frame).
        sbind (on_mm (frame_get_ref_count frame)) (\<lambda>n.
        if n > 1 then pagefault_copy bd a pte v (r, area, frame) else sret ()))))))"

fun unmap_all :: "board \<Rightarrow> ppn \<Rightarrow> vpn list \<Rightarrow> (mm, unit) st" where
  "unmap_all bd root [] = sret ()"
| "unmap_all bd root (v # vs) = sbind (unmap_one bd root v) (\<lambda>_. unmap_all bd root vs)"

fun drop_frames :: "ppn list \<Rightarrow> (mm, unit) st" where
  "drop_frames [] = sret ()"
| "drop_frames (p # ps) = sbind (frame_dealloc p) (\<lambda>_. drop_frames ps)"

text \<open>\<open>remove_area\<close>: the removed area lives until the loop over its pages is over, then its trackers drop.\<close>

definition remove_area :: "board \<Rightarrow> va \<Rightarrow> (ass, unit) st" where
  "remove_area bd a = (\<lambda>(s, self).
     case bt_find va_range_cmp (va_key a) (as_areas self) of
       None \<Rightarrow> (Inl (Panic UnwrapNone), (s, self))
     | Some (r, area) \<Rightarrow>
         sbind (slift (vpn_range r)) (\<lambda>(st, en).
         sbind (on_mm (unmap_all bd (pt_root (as_pt self)) (range_list st en))) (\<lambda>_.
         on_mm (drop_frames (map snd (ma_frames area)))))
         (s, self\<lparr>as_areas := bt_remove va_range_cmp (va_key a) (as_areas self)\<rparr>))"

text \<open>An insertion under an equal key drops the area that was there.\<close>

definition areas_insert :: "va_range \<Rightarrow> map_area \<Rightarrow> (ass, unit) st" where
  "areas_insert r area = (\<lambda>(s, self).
     let self' = self\<lparr>as_areas := bt_insert va_range_cmp r area (as_areas self)\<rparr>
     in case bt_find va_range_cmp r (as_areas self) of
          None \<Rightarrow> (Inr (), (s, self'))
        | Some (_, old) \<Rightarrow> on_mm (drop_frames (map snd (ma_frames old))) (s, self'))"

definition insert_area :: "board \<Rightarrow> va_range \<Rightarrow> map_area \<Rightarrow> u8 list option \<Rightarrow> (ass, unit) st" where
  "insert_area bd r area data =
     sbind (on_pt (page_table_map bd r area data)) (\<lambda>area'. areas_insert r area')"

definition insert_framed_area :: "board \<Rightarrow> va_range \<Rightarrow> pte \<Rightarrow> u8 list option \<Rightarrow> (ass, unit) st" where
  "insert_framed_area bd r perm data =
     insert_area bd r \<lparr>ma_frames = [], ma_type = Framed, ma_perm = perm\<rparr> data"

definition insert_kernel_stack_area :: "board \<Rightarrow> va_range \<Rightarrow> (ass, unit) st" where
  "insert_kernel_stack_area bd r =
     insert_area bd r \<lparr>ma_frames = [], ma_type = KernelStack, ma_perm = PTE_READABLE OR PTE_WRITABLE\<rparr> None"

text \<open>\<open>alloc_user_area\<close> walks the areas in key order.\<close>

fun alloc_user_area_loop :: "usize \<Rightarrow> va_range list \<Rightarrow> va \<Rightarrow> va res" where
  "alloc_user_area_loop sz [] va_end = Inr va_end"
| "alloc_user_area_loop sz (r # rs) va_end =
     rbind (cadd va_end PAGE_SIZE) (\<lambda>g.
     if g \<le> rg_start r then Inr va_end
     else rbind (round_up (rg_end r) PAGE_SIZE) (\<lambda>e. rbind (cadd e PAGE_SIZE) (\<lambda>e1. rbind (cadd e1 sz) (\<lambda>e2.
          alloc_user_area_loop sz rs (max va_end e2)))))"

definition alloc_user_area :: "usize \<Rightarrow> address_space \<Rightarrow> va res" where
  "alloc_user_area sz self =
     rbind (cadd (as_data_max self) PAGE_SIZE) (\<lambda>b. rbind (cadd b sz) (\<lambda>va_end.
     alloc_user_area_loop sz (map fst (as_areas self)) va_end))"

definition brk :: "board \<Rightarrow> va \<Rightarrow> (ass, int) st" where
  "brk bd addr = (\<lambda>(s, self).
     sbind (slift (round_up (as_data_end self) PAGE_SIZE)) (\<lambda>cur_end.
     if addr = 0 then sret (sint cur_end)
     else if addr > as_data_max self then sret (- 1)
     else case bt_find va_range_cmp (va_key (as_data_end self)) (as_areas self) of
       None \<Rightarrow> sfail (Panic UnwrapNone)
     | Some (r, area) \<Rightarrow> (\<lambda>(s, self).
         sbind (if addr \<ge> cur_end then
                  sbind (slift (vpn_range \<lparr>rg_start = cur_end, rg_end = addr\<rparr>)) (\<lambda>(st, en).
                  on_pt (map_framed bd False (ma_perm area) (range_list st en) (ma_frames area)))
                else sret (ma_frames area)) (\<lambda>fs.
         sbind (\<lambda>(s, self). (Inr (), (s, self\<lparr>as_data_end := addr\<rparr>))) (\<lambda>_.
         sbind (areas_insert (r\<lparr>rg_end := addr\<rparr>) (area\<lparr>ma_frames := fs\<rparr>)) (\<lambda>_. sret (sint addr))))
         (s, self\<lparr>as_areas := bt_remove va_range_cmp (va_key (as_data_end self)) (as_areas self)\<rparr>))) (s, self))"

section \<open>Loading a program\<close>

text \<open>
  \<open>from_elf\<close>. The headers are what the ELF parser of \<open>xmas_elf\<close> returns for the file; the file itself is
  read as a byte stream. \<open>ph_load\<close> says that the segment has type \<open>Load\<close>.
\<close>

record program_header =
  ph_load :: bool
  ph_vaddr :: usize
  ph_mem_size :: usize
  ph_offset :: nat
  ph_file_size :: usize
  ph_read :: bool
  ph_write :: bool
  ph_exec :: bool

definition pte_set :: "pte \<Rightarrow> bool \<Rightarrow> pte \<Rightarrow> pte" where
  "pte_set f b e = (if b then pte_insert e f else pte_remove e f)"

definition segment_perm :: "program_header \<Rightarrow> pte" where
  "segment_perm ph = pte_set PTE_EXECUTABLE (ph_exec ph) (pte_set PTE_WRITABLE (ph_write ph)
     (pte_set PTE_READABLE (ph_read ph) PTE_USER))"

type_synonym elfs = "(mm \<times> page_table) \<times> cursor"

definition on_file :: "(cursor, 'a) st \<Rightarrow> (elfs, 'a) st" where
  "on_file m s = (case m (snd s) of (r, f) \<Rightarrow> (r, (fst s, f)))"

definition on_pts :: "(pts, 'a) st \<Rightarrow> (elfs, 'a) st" where
  "on_pts m s = (case m (fst s) of (r, t) \<Rightarrow> (r, (t, snd s)))"

text \<open>An \<open>Err\<close> that is unwrapped panics.\<close>

definition unwrap_io :: "('s, 'a) st \<Rightarrow> ('s, 'a) st" where
  "unwrap_io m s = (case m s of (Inl (Io k), s') \<Rightarrow> (Inl (Panic UnwrapNone), s') | r \<Rightarrow> r)"

definition segment_data_end :: "vpn \<Rightarrow> va \<Rightarrow> usize" where
  "segment_data_end v bss_start =
     (if addr_of_page (v + 1) \<le> bss_start then 4096
      else if addr_of_page v \<ge> bss_start then 0 else page_offset bss_start)"

definition segment_zero_end :: "vpn \<Rightarrow> va \<Rightarrow> usize" where
  "segment_zero_end v va_end = (if addr_of_page (v + 1) \<le> va_end then 4096 else page_offset va_end)"

definition fill_segment_page :: "ppn \<Rightarrow> nat \<Rightarrow> u8 list \<Rightarrow> nat \<Rightarrow> nat \<Rightarrow> (va \<Rightarrow> usize) \<Rightarrow> (va \<Rightarrow> usize)" where
  "fill_segment_page p st bs e1 e2 mem =
     store_bytes (kpage p + of_nat e1) (replicate (e2 - e1) 0) (store_bytes (kpage p + of_nat st) bs mem)"

fun load_pages :: "board \<Rightarrow> pte \<Rightarrow> va \<Rightarrow> va \<Rightarrow> nat \<Rightarrow> vpn list \<Rightarrow> (vpn \<times> ppn) list \<Rightarrow>
    (elfs, (vpn \<times> ppn) list) st" where
  "load_pages bd perm bss_start va_end st [] frames = sret frames"
| "load_pages bd perm bss_start va_end st (v # vs) frames =
     sbind (on_pts (on_mm frame_alloc)) (\<lambda>f. sbind (slift (runwrap f)) (\<lambda>frame.
     sbind (slift (vpn_of_ppn frame)) (\<lambda>_.
     sbind (slift (cadd v 1)) (\<lambda>_.
     let e1 = unat (segment_data_end v bss_start); e2 = unat (segment_zero_end v va_end) in
     if st > e1 then sfail (Panic OutOfBounds)
     else sbind (unwrap_io (on_file (cursor_read_exact (e1 - st)))) (\<lambda>bs.
     if e1 > e2 then sfail (Panic OutOfBounds)
     else sbind (\<lambda>((s, pt), file).
            (Inr (), ((s\<lparr>mm_mem := fill_segment_page frame st bs e1 e2 (mm_mem s)\<rparr>, pt), file))) (\<lambda>_.
     sbind (on_pts (map_one bd v frame perm)) (\<lambda>_.
     load_pages bd perm bss_start va_end 0 vs (bt_insert usize_cmp v frame frames))))))))"

definition load_segment :: "board \<Rightarrow> program_header \<Rightarrow> (elfs, va_range \<times> map_area) st" where
  "load_segment bd ph =
     sbind (slift (cadd (ph_vaddr ph) (ph_mem_size ph))) (\<lambda>va_end.
     sbind (slift (cadd (ph_vaddr ph) (ph_file_size ph))) (\<lambda>bss_start.
     let r = \<lparr>rg_start = ph_vaddr ph, rg_end = va_end\<rparr>; perm = segment_perm ph in
     sbind (unwrap_io (on_file (cursor_seek (Start (ph_offset ph))))) (\<lambda>_.
     sbind (slift (vpn_range r)) (\<lambda>(s, e).
     sbind (load_pages bd perm bss_start va_end (unat (page_offset (ph_vaddr ph))) (range_list s e) []) (\<lambda>fs.
     sret (r, \<lparr>ma_frames = fs, ma_type = Framed, ma_perm = perm\<rparr>))))))"

fun load_segments :: "board \<Rightarrow> program_header list \<Rightarrow> (ass \<times> cursor, unit) st" where
  "load_segments bd [] s = (Inr (), s)"
| "load_segments bd (ph # phs) ((s, self), file) =
     (if \<not> ph_load ph then load_segments bd phs ((s, self), file)
      else case load_segment bd ph ((s, as_pt self), file) of
        (Inl e, ((s', pt), file')) \<Rightarrow> (Inl e, ((s', self\<lparr>as_pt := pt\<rparr>), file'))
      | (Inr (r, area), ((s', pt), file')) \<Rightarrow>
          (case areas_insert r area (s', self\<lparr>as_pt := pt, as_data_end := rg_end r\<rparr>) of
             (Inl e, s2) \<Rightarrow> (Inl e, (s2, file'))
           | (Inr _, s2) \<Rightarrow> load_segments bd phs (s2, file')))"

definition address_space_from_elf ::
  "board \<Rightarrow> ppn \<Rightarrow> program_header list \<Rightarrow> u8 list \<Rightarrow> (mm, address_space) st" where
  "address_space_from_elf bd kroot phs bytes =
     sbind (address_space_new_kernel bd kroot) (\<lambda>self s.
       case load_segments bd phs ((s, self), cursor_new bytes) of
         (Inl e, ((s', self'), _)) \<Rightarrow> (Inl e, s')
       | (Inr _, ((s', self'), _)) \<Rightarrow>
           (rbind (round_up (as_data_end self') PAGE_SIZE) (\<lambda>e. rbind (cadd e BRK_MAX) (\<lambda>m.
              Inr (self'\<lparr>as_data_max := m\<rparr>))), s'))"

section \<open>System calls\<close>

definition prot_perm :: "usize \<Rightarrow> pte" where
  "prot_perm prot = pte_set PTE_EXECUTABLE (prot AND 4 = 4) (pte_set PTE_WRITABLE (prot AND 2 = 2)
     (pte_set PTE_READABLE (prot AND 1 = 1) PTE_USER))"

fun modify_all :: "board \<Rightarrow> ppn \<Rightarrow> pte \<Rightarrow> vpn list \<Rightarrow> (mm, unit) st" where
  "modify_all bd root perm [] = sret ()"
| "modify_all bd root perm (v # vs) = sbind (modify_flags bd root v perm) (\<lambda>_. modify_all bd root perm vs)"

definition sys_mprotect :: "va \<Rightarrow> int" where
  "sys_mprotect addr = (if addr = 0 then - 22 else 0)"

definition sys_munmap :: "board \<Rightarrow> va \<Rightarrow> (ass, int) st" where
  "sys_munmap bd addr = sbind (remove_area bd addr) (\<lambda>_. sret 0)"

definition sys_brk :: "board \<Rightarrow> va \<Rightarrow> (ass, int) st" where
  "sys_brk bd addr = brk bd addr"

end
