(* ===== verification/Kernel_Process.thy ===== *)
theory Kernel_Process
  imports Kernel_Thread Address_Space
begin

text \<open>
  Processes of the kernel: the tree of processes (\<open>kernel/src/process/process.rs\<close>), creating, leaving and waiting for them
  (\<open>kernel/src/syscall/process.rs\<close>, \<open>Thread::fork\<close> and \<open>switch_to\<close> of \<open>kernel/src/process/thread.rs\<close>), the accounting of time at
  the borders of the kernel (\<open>kernel/src/syscall/mod.rs\<close>, \<open>kernel/src/syscall/misc.rs\<close>) and the order in which threads run
  (\<open>schedule\<close> of \<open>kernel/src/lib.rs\<close> on the \<open>FifoScheduler\<close> of \<open>vendor/algorithm\<close>).

  \<open>CLONE_THREAD\<close> is unimplemented, so a process has one thread and both go by the same number here, the identity of the
  \<open>Arc\<close>; a weak reference is such a number, and upgrading it is a lookup. Number 0 is the kernel process, which has no
  thread of the scheduler. Address spaces and descriptors of processes are the subject of \<open>Address_Space\<close> and \<open>Kernel_File\<close>;
  \<open>sys_exit\<close>, which gives the user stack back, works on the tables here and on the memory and address space of its process.
  A thread that waits in \<open>wait4\<close> is between two rounds of its loop; \<open>kp_wait\<close> holds what it waits for. \<open>now\<close> is the cycle
  counter. The kernel is not preempted, so a round is one step.
\<close>

section \<open>State\<close>

record process =
  pr_pid :: usize
  pr_parent :: "nat option"
  pr_child :: "nat list"
  pr_exited :: "(usize \<times> nat \<times> u32) list"
  pr_wake :: "nat list"
  pr_utime :: u64
  pr_stime :: u64
  pr_cutime :: u64
  pr_cstime :: u64

record kproc =
  kp_tids :: tid_allocator
  kp_threads :: threads
  kp_procs :: "nat \<Rightarrow> process option"
  kp_pool :: "nat list"
  kp_wait :: "nat \<Rightarrow> int option"
  kp_next :: nat

definition new_process :: "usize \<Rightarrow> nat option \<Rightarrow> process" where
  "new_process pid parent = \<lparr>pr_pid = pid, pr_parent = parent, pr_child = [], pr_exited = [], pr_wake = [],
     pr_utime = 0, pr_stime = 0, pr_cutime = 0, pr_cstime = 0\<rparr>"

text \<open>The state when the scheduler thread starts: it has taken the first thread id and belongs to the kernel process.\<close>

definition kp_init :: kproc where
  "kp_init = \<lparr>kp_tids = \<lparr>ta_current = 1, ta_recycled = []\<rparr>, kp_threads = (\<lambda>_. None), kp_procs = [0 \<mapsto> new_process 0 None],
     kp_pool = [], kp_wait = (\<lambda>_. None), kp_next = 1\<rparr>"

definition kget :: "(kproc \<Rightarrow> 'a) \<Rightarrow> (kproc, 'a) st" where
  "kget f s = (Inr (f s), s)"

definition kupd :: "(kproc \<Rightarrow> kproc) \<Rightarrow> (kproc, unit) st" where
  "kupd f s = (Inr (), f s)"

definition upd_proc :: "nat \<Rightarrow> (process \<Rightarrow> process) \<Rightarrow> kproc \<Rightarrow> kproc" where
  "upd_proc r f s = s\<lparr>kp_procs := (kp_procs s)(r := map_option f (kp_procs s r))\<rparr>"

definition upd_thread :: "nat \<Rightarrow> (thread_inner \<Rightarrow> thread_inner) \<Rightarrow> kproc \<Rightarrow> kproc" where
  "upd_thread r f s = s\<lparr>kp_threads := (kp_threads s)(r := map_option f (kp_threads s r))\<rparr>"

definition thread_status_to :: "nat \<Rightarrow> thread_status \<Rightarrow> kproc \<Rightarrow> kproc" where
  "thread_status_to r st s = s\<lparr>kp_threads := set_status r st (kp_threads s)\<rparr>"

definition cur_thread :: "nat \<Rightarrow> (kproc, thread_inner) st" where
  "cur_thread r = sbind (kget (\<lambda>s. kp_threads s r)) (\<lambda>t. slift (runwrap t))"

definition cur_process :: "nat \<Rightarrow> (kproc, process) st" where
  "cur_process r = sbind (kget (\<lambda>s. kp_procs s r)) (\<lambda>p. slift (runwrap p))"

section \<open>The scheduler\<close>

definition add_thread :: "nat \<Rightarrow> nat list \<Rightarrow> nat list" where
  "add_thread t pool = pool @ [t]"

fun get_next :: "nat list \<Rightarrow> nat option \<times> nat list" where
  "get_next [] = (None, [])"
| "get_next (t # pool) = (Some t, pool @ [t])"

definition remove_thread :: "nat \<Rightarrow> nat list \<Rightarrow> nat list res" where
  "remove_thread t pool =
     (if length (filter (\<lambda>u. u = t) pool) = 1 then Inr (filter (\<lambda>u. u \<noteq> t) pool) else Inl (Panic Assertion))"

text \<open>One round of the loop of \<open>schedule\<close>: the thread that runs next, if the one whose turn it is can run.\<close>

definition schedule_round :: "kproc \<Rightarrow> nat option \<times> kproc" where
  "schedule_round s =
     (case get_next (kp_pool s) of
        (None, pool) \<Rightarrow> (None, s\<lparr>kp_pool := pool\<rparr>)
      | (Some t, pool) \<Rightarrow>
          (case kp_threads s t of
             Some i \<Rightarrow> if th_status i = Ready then Some t else None
           | None \<Rightarrow> None, s\<lparr>kp_pool := pool\<rparr>))"

section \<open>Time\<close>

text \<open>The time since the thread last crossed the border of the kernel, charged to the user or to the system; the counters
  are atomic and wrap.\<close>

definition charge :: "(u64 \<Rightarrow> process \<Rightarrow> process) \<Rightarrow> nat \<Rightarrow> u64 \<Rightarrow> (kproc, unit) st" where
  "charge add r now =
     sbind (cur_thread r) (\<lambda>t.
     sbind (slift (csub now (th_cycles t))) (\<lambda>d.
     sbind (kupd (upd_proc r (add d))) (\<lambda>_.
     kupd (upd_thread r (\<lambda>t. t\<lparr>th_cycles := now\<rparr>)))))"

definition add_utime :: "u64 \<Rightarrow> process \<Rightarrow> process" where
  "add_utime d p = p\<lparr>pr_utime := pr_utime p + d\<rparr>"

definition add_stime :: "u64 \<Rightarrow> process \<Rightarrow> process" where
  "add_stime d p = p\<lparr>pr_stime := pr_stime p + d\<rparr>"

definition syscall_enter :: "nat \<Rightarrow> u64 \<Rightarrow> (kproc, unit) st" where
  "syscall_enter = charge add_utime"

definition syscall_leave :: "nat \<Rightarrow> u64 \<Rightarrow> (kproc, unit) st" where
  "syscall_leave = charge add_stime"

text \<open>\<open>switch_to\<close>, up to the switch and after it.\<close>

definition switch_away :: "nat \<Rightarrow> u64 \<Rightarrow> (kproc, unit) st" where
  "switch_away = charge add_stime"

definition switch_back :: "nat \<Rightarrow> u64 \<Rightarrow> (kproc, unit) st" where
  "switch_back r now = kupd (upd_thread r (\<lambda>t. t\<lparr>th_cycles := now\<rparr>))"

definition sys_times :: "board \<Rightarrow> nat \<Rightarrow> (kproc, nat list) st" where
  "sys_times bd r =
     sbind (cur_process r) (\<lambda>p.
     sret (map (\<lambda>t. unat t div INTERVAL bd) [pr_utime p, pr_stime p, pr_cutime p, pr_cstime p]))"

section \<open>Creating processes\<close>

definition fresh_thread :: "usize \<Rightarrow> usize \<Rightarrow> thread_inner" where
  "fresh_thread set_tid clear_tid =
     \<lparr>th_status = Ready, th_cycles = 0, th_set_child_tid = set_tid, th_clear_child_tid = clear_tid\<rparr>"

definition on_tids :: "(tid_allocator, 'a) st \<Rightarrow> (kproc, 'a) st" where
  "on_tids m s = (case m (kp_tids s) of (r, t) \<Rightarrow> (r, s\<lparr>kp_tids := t\<rparr>))"

text \<open>\<open>Thread::new_thread\<close>, called by the scheduler thread, and \<open>add_thread\<close>.\<close>

definition new_thread :: "(kproc, nat) st" where
  "new_thread =
     sbind (on_tids tid_alloc) (\<lambda>tid.
     sbind (kget kp_next) (\<lambda>r.
     sbind (kupd (\<lambda>s. s\<lparr>kp_next := r + 1, kp_procs := (kp_procs s)(r \<mapsto> new_process tid (Some 0)),
        kp_threads := (kp_threads s)(r \<mapsto> fresh_thread 0 0), kp_wait := (kp_wait s)(r := None),
        kp_pool := add_thread r (kp_pool s)\<rparr>)) (\<lambda>_.
     sret r)))"

definition CLONE_THREAD :: u64 where "CLONE_THREAD = 0x10000"
definition CLONE_CHILD_CLEARTID :: u64 where "CLONE_CHILD_CLEARTID = 0x200000"
definition CLONE_CHILD_SETTID :: u64 where "CLONE_CHILD_SETTID = 0x1000000"

definition flags_contain :: "u64 \<Rightarrow> u64 \<Rightarrow> bool" where
  "flags_contain fl f \<longleftrightarrow> fl AND f = f"

text \<open>\<open>Thread::fork\<close>. \<open>mapped\<close> tells whether the child's id can be written where the caller asks for it.\<close>

definition thread_fork :: "nat \<Rightarrow> u64 \<Rightarrow> usize \<Rightarrow> bool \<Rightarrow> (kproc, nat) st" where
  "thread_fork cur flags child_tid mapped =
     sbind (on_tids tid_alloc) (\<lambda>tid.
     sbind (kget kp_next) (\<lambda>r.
     sbind (kupd (\<lambda>s. s\<lparr>kp_next := r + 1, kp_procs := (kp_procs s)(r \<mapsto> new_process tid (Some cur))\<rparr>)) (\<lambda>_.
     sbind (kupd (upd_proc cur (\<lambda>p. p\<lparr>pr_child := pr_child p @ [r]\<rparr>))) (\<lambda>_.
     let clear_tid = (if flags_contain flags CLONE_CHILD_CLEARTID then child_tid else 0);
         set_tid = (if flags_contain flags CLONE_CHILD_SETTID then child_tid else 0) in
     sbind (slift (rguard (flags_contain flags CLONE_CHILD_SETTID \<longrightarrow> mapped) (Panic UnwrapNone))) (\<lambda>_.
     sbind (slift (rguard (\<not> flags_contain flags CLONE_THREAD) (Panic Explicit))) (\<lambda>_.
     sbind (kupd (\<lambda>s. s\<lparr>kp_threads := (kp_threads s)(r \<mapsto> fresh_thread set_tid clear_tid), kp_wait := (kp_wait s)(r := None)\<rparr>)) (\<lambda>_.
     sret r)))))))"

text \<open>\<open>sys_clone\<close>: the new thread runs first. The stack and entry point of the new thread are registers of its trap frame.\<close>

definition sys_clone :: "nat \<Rightarrow> u64 \<Rightarrow> usize \<Rightarrow> bool \<Rightarrow> u64 \<Rightarrow> (kproc, int) st" where
  "sys_clone cur flags child_tid mapped now =
     sbind (thread_fork cur flags child_tid mapped) (\<lambda>r.
     sbind (kupd (\<lambda>s. s\<lparr>kp_pool := add_thread r (kp_pool s)\<rparr>)) (\<lambda>_.
     sbind (kupd (thread_status_to cur Ready)) (\<lambda>_.
     sbind (switch_away cur now) (\<lambda>_.
     sbind (cur_process r) (\<lambda>pr.
     sret (sint (pr_pid pr)))))))"

section \<open>Leaving and waiting\<close>

text \<open>The last callback of the parent is taken and called: it makes the thread that waits ready.\<close>

definition wake_parent :: "nat \<Rightarrow> kproc \<Rightarrow> kproc" where
  "wake_parent p s =
     (case kp_procs s p of
        None \<Rightarrow> s
      | Some pp \<Rightarrow>
          if pr_wake pp = [] then s
          else thread_status_to (last (pr_wake pp)) Ready (upd_proc p (\<lambda>pp. pp\<lparr>pr_wake := butlast (pr_wake pp)\<rparr>) s))"

definition notify_parent :: "nat \<Rightarrow> process \<Rightarrow> u32 \<Rightarrow> nat \<Rightarrow> kproc \<Rightarrow> kproc" where
  "notify_parent cur pr status p s = wake_parent p
     (upd_proc p (\<lambda>pp. pp\<lparr>pr_cutime := pr_cutime pp + pr_utime pr, pr_cstime := pr_cstime pp + pr_stime pr,
        pr_exited := pr_exited pp @ [(pr_pid pr, cur, status AND 0xFF)]\<rparr>) s)"

text \<open>Calls on the two halves of the state: the tables of processes, and the memory with the address space of the caller.\<close>

definition on_kp :: "(kproc, 'a) st \<Rightarrow> (kproc \<times> ass, 'a) st" where
  "on_kp m s = (case m (fst s) of (r, k) \<Rightarrow> (r, (k, snd s)))"

definition on_space :: "(ass, 'a) st \<Rightarrow> (kproc \<times> ass, 'a) st" where
  "on_space m s = (case m (snd s) of (r, a) \<Rightarrow> (r, (fst s, a)))"

definition dealloc_user_stack :: "board \<Rightarrow> va \<Rightarrow> (ass, unit) st" where
  "dealloc_user_stack bd user_stack_top = remove_area bd user_stack_top"

definition sys_exit :: "board \<Rightarrow> va \<Rightarrow> nat \<Rightarrow> u32 \<Rightarrow> u64 \<Rightarrow> (kproc \<times> ass, unit) st" where
  "sys_exit bd user_stack_top cur status now =
     sbind (on_kp (kupd (thread_status_to cur Zombie))) (\<lambda>_.
     sbind (on_kp (kget kp_pool)) (\<lambda>pool.
     sbind (slift (remove_thread cur pool)) (\<lambda>pool.
     sbind (on_kp (kupd (\<lambda>s. s\<lparr>kp_pool := pool\<rparr>))) (\<lambda>_.
     sbind (on_space (dealloc_user_stack bd user_stack_top)) (\<lambda>_.
     sbind (on_kp (cur_process cur)) (\<lambda>pr.
     sbind (case pr_parent pr of
          None \<Rightarrow> sret ()
        | Some p \<Rightarrow> on_kp (kupd (\<lambda>s. if kp_procs s p = None then s else notify_parent cur pr status p s))) (\<lambda>_.
     on_kp (switch_away cur now))))))))"

text \<open>A round of the loop of \<open>sys_wait4\<close>. The entries that match are taken out of the list, and the last one is the result.\<close>

definition wait_match :: "int \<Rightarrow> usize \<times> nat \<times> u32 \<Rightarrow> bool" where
  "wait_match pid e \<longleftrightarrow> fst e = word_of_int pid"

definition take_exited :: "int \<Rightarrow> (usize \<times> nat \<times> u32) list \<Rightarrow> ((usize \<times> nat \<times> u32) option \<times> (usize \<times> nat \<times> u32) list)" where
  "take_exited pid es =
     (if pid = - 1 then (if es = [] then (None, []) else (Some (last es), butlast es))
      else
        let ms = filter (wait_match pid) es
        in (if ms = [] then None else Some (last ms), filter (\<lambda>e. \<not> wait_match pid e) es))"

definition wait4_round :: "nat \<Rightarrow> int \<Rightarrow> u64 \<Rightarrow> (kproc, (int \<times> u32) option) st" where
  "wait4_round cur pid now =
     sbind (cur_process cur) (\<lambda>pr.
     case take_exited pid (pr_exited pr) of
       (Some (cpid, child, status), es) \<Rightarrow>
         sbind (kupd (upd_proc cur (\<lambda>p. p\<lparr>pr_exited := es, pr_child := filter (\<lambda>c. c \<noteq> child) (pr_child p)\<rparr>))) (\<lambda>_.
         sbind (kupd (\<lambda>s. s\<lparr>kp_wait := (kp_wait s)(cur := None)\<rparr>)) (\<lambda>_.
         sret (Some (if pid = - 1 then sint cpid else pid, status))))
     | (None, es) \<Rightarrow>
         sbind (kupd (upd_proc cur (\<lambda>p. p\<lparr>pr_exited := es\<rparr>))) (\<lambda>_.
         sbind (kupd (upd_proc cur (\<lambda>p. p\<lparr>pr_wake := pr_wake p @ [cur]\<rparr>))) (\<lambda>_.
         sbind (kupd (thread_status_to cur Waiting)) (\<lambda>_.
         sbind (kupd (\<lambda>s. s\<lparr>kp_wait := (kp_wait s)(cur \<mapsto> pid)\<rparr>)) (\<lambda>_.
         sbind (switch_away cur now) (\<lambda>_.
         sret None))))))"

text \<open>What is written to \<open>*wstatus\<close>.\<close>

definition wait_status :: "u32 \<Rightarrow> u32" where
  "wait_status st = push_bit 8 st"

text \<open>The last reference to a thread that has left goes: its id is recycled and its process disappears.\<close>

definition drop_thread :: "nat \<Rightarrow> (kproc, unit) st" where
  "drop_thread r =
     sbind (cur_process r) (\<lambda>pr.
     sbind (kupd (\<lambda>s. s\<lparr>kp_threads := (kp_threads s)(r := None), kp_procs := (kp_procs s)(r := None)\<rparr>)) (\<lambda>_.
     on_tids (tid_dealloc (pr_pid pr))))"

section \<open>Asking for ids\<close>

definition sys_getpid :: "nat \<Rightarrow> (kproc, int) st" where
  "sys_getpid cur = sbind (cur_process cur) (\<lambda>pr. sret (sint (pr_pid pr)))"

definition sys_getppid :: "nat \<Rightarrow> (kproc, int) st" where
  "sys_getppid cur =
     sbind (cur_process cur) (\<lambda>pr.
     sbind (kget (\<lambda>s. case pr_parent pr of None \<Rightarrow> None | Some p \<Rightarrow> kp_procs s p)) (\<lambda>parent.
     sret (case parent of
         Some pp \<Rightarrow> if sint (pr_pid pp) = 0 then 1 else sint (pr_pid pp)
       | None \<Rightarrow> - 1)))"

definition sys_set_tid_address :: "nat \<Rightarrow> usize \<Rightarrow> (kproc, int) st" where
  "sys_set_tid_address cur tidptr =
     sbind (kupd (upd_thread cur (\<lambda>t. t\<lparr>th_clear_child_tid := tidptr\<rparr>))) (\<lambda>_.
     sys_getpid cur)"

definition sys_sched_yield :: "nat \<Rightarrow> u64 \<Rightarrow> (kproc, int) st" where
  "sys_sched_yield cur now = sbind (switch_away cur now) (\<lambda>_. sret 0)"

end
