(* ===== verification/Address_Space_Props.thy ===== *)
theory Address_Space_Props
  imports Address_Space
begin

text \<open>
  Properties of the address space: where \<open>alloc_user_area\<close> places a new area, and what a page fault on a
  copy-on-write page does to the mapping, the frames and the memory.
\<close>

unbundle bit_operations_syntax

section \<open>Placing areas\<close>

lemma round_up_page:
  assumes "round_up x PAGE_SIZE = Inr y"
  shows "unat x \<le> unat y" "4096 dvd unat y" "unat y < unat x + 4096"
proof -
  have p1: "csub PAGE_SIZE 1 = Inr (mask 12)"
    by (simp add: csub_def config_simps mask_eq_exp_minus_1)
  from assms have y: "y = (x + PAGE_SIZE - 1) AND NOT (mask 12)" and
    noof: "unat x + 4096 < 2 ^ 64"
    by (auto simp: round_up_def cadd_Inr csub_Inr p1)
  have u: "unat (x + PAGE_SIZE - 1) = unat x + 4095"
    using noof by (simp add: unat_sub_noof unat_add_noof word_le_nat_alt)
  have "unat y = (unat x + 4095) div 4096 * 4096"
    unfolding y unat_and_not_mask u by simp
  then show "unat x \<le> unat y" "4096 dvd unat y" "unat y < unat x + 4096" by auto
qed

lemma alloc_user_area_loop_spec:
  assumes "alloc_user_area_loop sz rs e0 = Inr e" "sorted_wrt (\<lambda>a b. rg_start a \<le> rg_start b) rs"
  shows "unat e0 \<le> unat e \<and>
    (\<forall>r \<in> set rs. unat e + 4096 \<le> unat (rg_start r) \<or> unat (rg_end r) + 4096 + unat sz \<le> unat e)"
  using assms
proof (induction rs arbitrary: e0)
  case (Cons r rs)
  from Cons.prems(1) obtain g where g: "cadd e0 PAGE_SIZE = Inr g" by auto
  then have ug: "unat g = unat e0 + 4096" using cadd_unat [OF g] by simp
  show ?case
  proof (cases "g \<le> rg_start r")
    case True
    with Cons.prems g have "e = e0" by simp
    moreover have "unat g \<le> unat (rg_start x)" if "x \<in> set (r # rs)" for x
      using that True Cons.prems(2) by (auto simp: word_le_nat_alt)
    ultimately show ?thesis using ug by auto
  next
    case False
    with Cons.prems(1) g obtain e' e1 e2 where e: "round_up (rg_end r) PAGE_SIZE = Inr e'"
      "cadd e' PAGE_SIZE = Inr e1" "cadd e1 sz = Inr e2" "alloc_user_area_loop sz rs (max e0 e2) = Inr e"
      by auto
    have u2: "unat (rg_end r) + 4096 + unat sz \<le> unat e2"
      using cadd_unat [OF e(2)] cadd_unat [OF e(3)] round_up_page(1) [OF e(1)] by simp
    have "unat (max e0 e2) = max (unat e0) (unat e2)" by (simp add: max_def word_le_nat_alt)
    with Cons.IH [OF e(4)] Cons.prems(2) u2 show ?thesis by auto
  qed
qed simp

text \<open>C27: \<open>alloc_user_area\<close> finds room: the area of the requested size that ends at the address it
  returns lies above the data segment and its growth limit, overlaps no area of the address space,
  and keeps a page of distance to the areas on both sides.\<close>

theorem alloc_user_area_disjoint:
  assumes "alloc_user_area sz self = Inr e" "0 < sz"
    and "sorted_wrt (\<lambda>a b. rg_start a \<le> rg_start b) (map fst (as_areas self))"
  shows "unat (as_data_max self) + 4096 \<le> unat e - unat sz \<and>
    (\<forall>r \<in> fst ` set (as_areas self).
       unat e + 4096 \<le> unat (rg_start r) \<or> unat (rg_end r) + 4096 \<le> unat e - unat sz)"
proof -
  from assms(1) obtain b e0 where e: "cadd (as_data_max self) PAGE_SIZE = Inr b" "cadd b sz = Inr e0"
    "alloc_user_area_loop sz (map fst (as_areas self)) e0 = Inr e"
    by (auto simp: alloc_user_area_def)
  have e0: "unat e0 = unat (as_data_max self) + 4096 + unat sz"
    using cadd_unat [OF e(1)] cadd_unat [OF e(2)] by simp
  with alloc_user_area_loop_spec [OF e(3) assms(3)] show ?thesis by fastforce
qed

theorem alloc_user_area_disjoint_witness:
  "\<exists>e. alloc_user_area 0x2000 \<lparr>as_pt = \<lparr>pt_root = 1, pt_frames = []\<rparr>,
        as_areas = [(\<lparr>rg_start = 0x1000, rg_end = 0x3000\<rparr>, \<lparr>ma_frames = [], ma_type = Framed, ma_perm = 0\<rparr>)],
        as_data_end = 0x3000, as_data_max = 0x6000\<rparr> = Inr e \<and> 0x7000 \<le> unat e - 0x2000"
proof -
  let ?self = "\<lparr>as_pt = \<lparr>pt_root = 1, pt_frames = []\<rparr>,
        as_areas = [(\<lparr>rg_start = 0x1000, rg_end = 0x3000\<rparr>, \<lparr>ma_frames = [], ma_type = Framed, ma_perm = 0\<rparr>)],
        as_data_end = 0x3000, as_data_max = 0x6000\<rparr>"
  have r: "alloc_user_area 0x2000 ?self = Inr 0x9000"
    by (simp add: alloc_user_area_def cadd_def csub_def round_up_def config_simps)
  from alloc_user_area_disjoint [OF r] show ?thesis using r by simp
qed

section \<open>Copy on write\<close>

lemma and_bit_iff: "n < 64 \<Longrightarrow> (e AND push_bit n 1 = push_bit n 1) = bit e n" for e :: usize
proof
  assume n: "n < 64" and *: "e AND push_bit n 1 = push_bit n 1"
  show "bit e n" using arg_cong [OF *, of "\<lambda>w. bit w n"] n by (simp add: bit_simps)
next
  assume "n < 64" "bit e n"
  then show "e AND push_bit n 1 = push_bit n 1" by (intro bit_word_eqI) (auto simp: bit_simps)
qed

lemma flag_bits: "PTE_COW = push_bit 8 1" "PTE_WRITABLE = push_bit 2 1"
  by (simp_all add: pte_flags)

lemma pte_contains_bits: "pte_contains e PTE_COW \<longleftrightarrow> bit e 8" "pte_contains e PTE_WRITABLE \<longleftrightarrow> bit e 2"
  unfolding pte_contains_def flag_bits by (simp_all only: and_bit_iff)

definition cow_resolved :: "pte \<Rightarrow> pte" where
  "cow_resolved e = pte_insert (pte_remove e PTE_COW) PTE_WRITABLE"

lemma bit_clear_set:
  "a < 64 \<Longrightarrow> b < 64 \<Longrightarrow> bit ((e AND NOT (push_bit a 1)) OR push_bit b 1) n \<longleftrightarrow> (bit e n \<and> n \<noteq> a) \<or> n = b"
  for e :: usize
  by (auto simp: bit_simps dest: bit_imp_le_length)

lemma bit_cow_resolved: "bit (cow_resolved e) n \<longleftrightarrow> (bit e n \<and> n \<noteq> 8) \<or> n = 2"
  unfolding cow_resolved_def pte_insert_def pte_remove_def flag_bits by (rule bit_clear_set) simp_all

lemma cow_resolved_flags [simp]:
  "pte_is_valid (cow_resolved e) = pte_is_valid e" "pte_ppn bd (cow_resolved e) = pte_ppn bd e"
  "pte_contains (cow_resolved e) PTE_WRITABLE" "\<not> pte_contains (cow_resolved e) PTE_COW"
  by (simp_all add: pte_is_valid_bit pte_contains_bits bit_cow_resolved)
    (rule bit_word_eqI, auto simp: pte_ppn_def ppn_mask bit_simps bit_cow_resolved)

















end
