(* ===== verification/Address_Space_Map.thy ===== *)
theory Address_Space_Map
  imports Address_Space_Props
begin

text \<open>
  What mapping a range of pages to new frames does (\<open>PageTable::map\<close> of \<open>kernel/src/mm/page_table.rs\<close> for framed areas,
  \<open>insert_framed_area\<close> of \<open>kernel/src/mm/address_space.rs\<close>). Every page of the range gets a frame of its own that was free,
  every other page number maps as before, and pages that belong to others keep their words.
\<close>

unbundle bit_operations_syntax

section \<open>One page\<close>

text \<open>\<open>maps_fresh\<close>: the pages \<open>vs\<close> map to the frames \<open>ps\<close>, which were free; the frames and the tables that were
  added, at most two for a page, are held once.\<close>

definition maps_fresh :: "board \<Rightarrow> nat set \<Rightarrow> bool \<Rightarrow> pte \<Rightarrow> vpn list \<Rightarrow> ppn list \<Rightarrow> pts \<Rightarrow> pts \<Rightarrow> bool" where
  "maps_fresh bd D clear perm vs ps = (\<lambda>(s, pt) (s', pt').
     pt_root pt' = pt_root pt \<and> pt_wf bd D s' (pt_root pt) \<and> managed s' = managed s \<and> pt_keeps bd D (pt_root pt) s s' \<and>
     length ps = length vs \<and> (\<forall>p \<in> set ps. p \<notin> pt_tables bd D s' (pt_root pt) \<and> (clear \<longrightarrow> (\<forall>i < 512. entry s' p i = 0))) \<and>
     (\<forall>w. vpn_path w ! 0 \<in> D \<longrightarrow> pt_lookup bd s' (pt_root pt) w =
        (case map_of (zip (map vpn_path vs) ps) (vpn_path w) of
           Some p \<Rightarrow> Some (pte_new p (perm OR PTE_VALID)) | None \<Rightarrow> pt_lookup bd s (pt_root pt) w)) \<and>
     (\<exists>new. pt_frames pt' = pt_frames pt @ new \<and> length new \<le> 2 * length vs \<and> distinct (ps @ new) \<and>
        (\<forall>p \<in> set (ps @ new). managed s p \<and> ref_count s p = 0) \<and>
        ref_count s' = (\<lambda>p. if p \<in> set (ps @ new) then 1 else ref_count s p)))"

definition map_page :: "board \<Rightarrow> bool \<Rightarrow> pte \<Rightarrow> vpn \<Rightarrow> (pts, ppn) st" where
  "map_page bd clear perm v =
     sbind (on_mm frame_alloc) (\<lambda>f. sbind (slift (runwrap f)) (\<lambda>frame.
     sbind (map_one bd v frame perm) (\<lambda>_.
     sbind (if clear then on_mm (clear_page frame) else sret ()) (\<lambda>_. sret frame))))"

lemma map_framed_Cons:
  "map_framed bd clear perm (v # vs) frames =
     sbind (map_page bd clear perm v) (\<lambda>p. map_framed bd clear perm vs (bt_insert usize_cmp v p frames))"
  by (simp add: map_page_def sbind_assoc)

text \<open>Allocating a frame and clearing a held page that is no table leave the tables alone.\<close>

lemma alloc_keeps_tables:
  assumes wf: "pt_wf bd D s root" and al: "managed s p" "ref_count s p = 0" "frame_inv s1"
    "ref_count s1 = (ref_count s)(p := 1)" "frame_same {p} s s1"
  shows "pt_wf bd D s1 root" "pt_tables bd D s1 root = pt_tables bd D s root" "p \<notin> pt_tables bd D s root"
    "\<And>w. vpn_path w ! 0 \<in> D \<Longrightarrow> pt_lookup bd s1 root w = pt_lookup bd s root w" "pt_keeps bd D root s s1"
proof -
  have m: "managed s1 = managed s" by (rule frame_same_managed [OF al(5)])
  show np: "p \<notin> pt_tables bd D s root" using pt_wf_held [OF wf] al(2) by fastforce
  note pb = managed_bound [OF pt_wf_frame_inv [OF wf]]
  have e: "entry s1 q i = entry s q i" if "managed s q" "q \<noteq> p" "i < 512" for q i
    using al(5) that kword_inj [of q p i 0] pb [OF al(1)] pb [OF that(1)] by (auto simp: entry_def frame_same_def)
  have et: "entry s1 t i = entry s t i" if "t \<in> pt_tables bd D s root" "i < 512" for t i
    using e that np pt_wf_held [OF wf] by metis
  note F = pt_wf_frame [OF wf al(3) m et]
  have h: "0 < ref_count s1 t" if "t \<in> pt_tables bd D s root" for t using pt_wf_held [OF wf that] al(4) by simp
  from F [OF _ _ h] show "pt_wf bd D s1 root" "pt_tables bd D s1 root = pt_tables bd D s root"
    "\<And>w. vpn_path w ! 0 \<in> D \<Longrightarrow> pt_lookup bd s1 root w = pt_lookup bd s root w" by blast+
  then show "pt_keeps bd D root s s1" using e al(2) unfolding pt_keeps_def by (metis less_irrefl)
qed

lemma clear_keeps_tables:
  assumes wf: "pt_wf bd D s root" and p: "managed s p" "0 < ref_count s p" "p \<notin> pt_tables bd D s root"
  obtains s' where "clear_page p s = (Inr (), s')" "managed s' = managed s" "ref_count s' = ref_count s"
    "pt_wf bd D s' root" "pt_tables bd D s' root = pt_tables bd D s root" "\<forall>i < 512. entry s' p i = 0"
    "\<And>w. vpn_path w ! 0 \<in> D \<Longrightarrow> pt_lookup bd s' root w = pt_lookup bd s root w"
    "\<And>q i. managed s q \<Longrightarrow> q \<noteq> p \<Longrightarrow> i < 512 \<Longrightarrow> entry s' q i = entry s q i"
proof -
  note pb = managed_bound [OF pt_wf_frame_inv [OF wf]]
  let ?s' = "s\<lparr>mm_mem := fill_page p 0 (mm_mem s)\<rparr>"
  have e: "entry ?s' q i = entry s q i" if "managed s q" "q \<noteq> p" "i < 512" for q i
    using fill_page_other_page [OF pb [OF p(1)] pb [OF that(1)]] that by (simp add: entry_def)
  have et: "entry ?s' t i = entry s t i" if "t \<in> pt_tables bd D s root" "i < 512" for t i
    using e that p(3) pt_wf_held [OF wf] by metis
  have "frame_inv ?s'"
    by (rule frame_inv_mem [OF pt_wf_frame_inv [OF wf]]) (use e [of _ 0] p(2) in \<open>simp add: entry_def; metis less_irrefl\<close>)
  note F = pt_wf_frame [OF wf this _ et]
  have h: "0 < ref_count ?s' t" if "t \<in> pt_tables bd D s root" for t using pt_wf_held [OF wf that] by simp
  have "clear_page p s = (Inr (), ?s')"
    using vpn_of_ppn_kpage [OF pb [OF p(1)]] by (simp add: clear_page_def)
  moreover have "\<forall>i < 512. entry ?s' p i = 0" using fill_page_word [OF pb [OF p(1)]] by (simp add: entry_def)
  ultimately show thesis using F [OF _ _ _ h] e by (intro that [of ?s']) auto
qed

lemma map_page_ok:
  assumes wf: "pt_wf bd D s (pt_root pt)" and v: "vpn_path v ! 0 \<in> D" and free: "pt_lookup bd s (pt_root pt) v = None"
  obtains (full) s' pt' where "map_page bd clear perm v (s, pt) = (Inl (Panic UnwrapNone), (s', pt'))"
      "pt_root pt' = pt_root pt" "pt_wf bd D s' (pt_root pt)" "\<And>q. managed s' q \<Longrightarrow> 0 < ref_count s' q"
      "card (free_frames s) < 3"
  | (ok) s' pt' p where "map_page bd clear perm v (s, pt) = (Inr p, (s', pt'))"
      "maps_fresh bd D clear perm [v] [p] (s, pt) (s', pt')"
proof -
  let ?r = "pt_root pt"
  from pt_wf_frame_inv [OF wf] show thesis
  proof (cases rule: frame_alloc_cases)
    case none
    then show thesis
      using wf free_frames_none [of s] by (intro full [of s pt]) (simp_all add: map_page_def sbind_def on_mm_def slift_def sfail_def)
  next
    case (some p s1)
    note A = alloc_keeps_tables [OF wf some(2-6)]
    have m1: "managed s1 = managed s" by (rule frame_same_managed [OF some(6)])
    have run1: "map_page bd clear perm v (s, pt) = sbind (map_one bd v p perm) (\<lambda>_.
        sbind (if clear then on_mm (clear_page p) else sret ()) (\<lambda>_. sret p)) (s1, pt)"
      using some(1) by (simp add: map_page_def sbind_def on_mm_def slift_def)
    show thesis
    proof (cases rule: map_one_ok [OF A(1) v refl trans [OF A(4) [OF v] free], of p perm])
      case (1 s' pt')
      have "card (free_frames s1) < 2" by (rule map_one_full [OF 1])
      moreover have "card (free_frames s) \<le> card (free_frames s1) + length [p]"
        by (rule free_frames_taken [OF m1]) (auto simp: some(5))
      ultimately have "card (free_frames s) < 3" by simp
      with 1 show thesis
        by (intro full [of s' pt']) (simp_all add: run1 sbind_def pt_extends_def)
    next
      case (2 s2 pt2 t)
      from 2(2-4) obtain new where new: "pt_frames pt2 = pt_frames pt @ new" "distinct new"
        "\<forall>q \<in> set new. managed s1 q \<and> ref_count s1 q = 0"
        "ref_count s2 = (\<lambda>q. if q \<in> set new then 1 else ref_count s1 q)"
        and m2: "managed s2 = managed s" and r2: "pt_root pt2 = pt_root pt"
        using m1 by (auto simp: pt_extends_def)
      have pn: "p \<notin> set new" using new(3) some(5) by auto
      have p2: "managed s2 p" "ref_count s2 p = 1" using m2 some(2,5) new(4) pn by auto
      have pt2: "p \<notin> pt_tables bd D s2 ?r"
        by (rule pt_keepsD(1) [OF 2(7)]) (use A(2,3) m1 some(2,5) in auto)
      have keep: "pt_keeps bd D ?r s s2"
        by (rule pt_keeps_trans [OF A(5) 2(7) m1]) (simp add: some(5))
      have nw: "\<exists>new. pt_frames pt2 = pt_frames pt @ new \<and> length new \<le> 2 \<and> distinct ([p] @ new) \<and>
          (\<forall>q \<in> set ([p] @ new). managed s q \<and> ref_count s q = 0) \<and>
          ref_count s2 = (\<lambda>q. if q \<in> set ([p] @ new) then 1 else ref_count s q)"
        using new pn some(2,3,5) m1 map_one_frames(1) [OF 2(1)] by (intro exI [of _ new]) (auto simp: fun_eq_iff split: if_splits)
      have lk: "pt_lookup bd s2 ?r w = (case map_of (zip (map vpn_path [v]) [p]) (vpn_path w) of
          Some p \<Rightarrow> Some (pte_new p (perm OR PTE_VALID)) | None \<Rightarrow> pt_lookup bd s ?r w)" if "vpn_path w ! 0 \<in> D" for w
        using 2(6) [OF that] A(4) [OF that] by simp
      show thesis
      proof (cases clear)
        case False
        have "map_page bd clear perm v (s, pt) = (Inr p, (s2, pt2))"
          unfolding run1 using 2(1) False by (simp add: sbind_def sret_def)
        then show thesis
          using 2(5) keep nw pt2 lk m2 r2 False by (intro ok [of p s2 pt2]) (simp_all add: maps_fresh_def)
      next
        case True
        obtain s3 where s3: "clear_page p s2 = (Inr (), s3)" "managed s3 = managed s2" "ref_count s3 = ref_count s2"
          "pt_wf bd D s3 ?r" "pt_tables bd D s3 ?r = pt_tables bd D s2 ?r" "\<forall>i < 512. entry s3 p i = 0"
          "\<And>w. vpn_path w ! 0 \<in> D \<Longrightarrow> pt_lookup bd s3 ?r w = pt_lookup bd s2 ?r w"
          "\<And>q i. managed s2 q \<Longrightarrow> q \<noteq> p \<Longrightarrow> i < 512 \<Longrightarrow> entry s3 q i = entry s2 q i"
          using clear_keeps_tables [OF 2(5) p2(1) _ pt2] p2(2) by auto
        have "pt_keeps bd D ?r s s3"
          using keep s3(5,8) m2 some(3) unfolding pt_keeps_def by (metis less_irrefl)
        moreover have "map_page bd clear perm v (s, pt) = (Inr p, (s3, pt2))"
          unfolding run1 using 2(1) s3(1) True by (simp add: sbind_def sret_def on_mm_def)
        ultimately show thesis
          using s3(2-7) nw pt2 lk m2 r2 by (intro ok [of p s3 pt2]) (simp_all add: maps_fresh_def)
      qed
    qed
  qed
qed

section \<open>A range of pages\<close>

lemma maps_fresh_Nil: "pt_wf bd D s (pt_root pt) \<Longrightarrow> maps_fresh bd D clear perm [] [] (s, pt) (s, pt)"
  by (simp add: maps_fresh_def pt_keeps_def)

lemma maps_fresh_lookup:
  assumes "maps_fresh bd D clear perm vs ps (s, pt) (s', pt')" "vpn_path w ! 0 \<in> D"
  shows "pt_lookup bd s' (pt_root pt) w = (case map_of (zip (map vpn_path vs) ps) (vpn_path w) of
    Some p \<Rightarrow> Some (pte_new p (perm OR PTE_VALID)) | None \<Rightarrow> pt_lookup bd s (pt_root pt) w)"
  using assms unfolding maps_fresh_def prod.case by blast

lemma maps_fresh_free:
  assumes "maps_fresh bd D clear perm [v] [p] (s, pt) (s', pt')"
  shows "card (free_frames s) \<le> card (free_frames s') + 3"
proof -
  obtain new where new: "length new \<le> 2" "managed s' = managed s"
    "ref_count s' = (\<lambda>q. if q \<in> set (p # new) then 1 else ref_count s q)"
    using assms by (auto simp: maps_fresh_def)
  from free_frames_taken [OF new(2,3)] new(1) show ?thesis by simp
qed

lemma maps_fresh_Cons:
  assumes "maps_fresh bd D clear perm [v] [p] x y" "maps_fresh bd D clear perm vs ps y z" "vpn_path v \<notin> set (map vpn_path vs)"
  shows "maps_fresh bd D clear perm (v # vs) (p # ps) x z"
proof -
  obtain s pt s1 pt1 s2 pt2 where xyz: "x = (s, pt)" "y = (s1, pt1)" "z = (s2, pt2)" by (metis surj_pair)
  note A = assms(1) [unfolded xyz maps_fresh_def prod.case] and B = assms(2) [unfolded xyz maps_fresh_def prod.case]
  let ?r = "pt_root pt"
  have r: "pt_root pt1 = ?r" using A by blast
  from A obtain n1 where n1: "pt_frames pt1 = pt_frames pt @ n1" "distinct ([p] @ n1)" "length n1 \<le> 2 * length [v]"
    "\<forall>q \<in> set ([p] @ n1). managed s q \<and> ref_count s q = 0" "ref_count s1 = (\<lambda>q. if q \<in> set ([p] @ n1) then 1 else ref_count s q)"
    by blast
  from B obtain n2 where n2: "pt_frames pt2 = pt_frames pt1 @ n2" "distinct (ps @ n2)" "length n2 \<le> 2 * length vs"
    "\<forall>q \<in> set (ps @ n2). managed s1 q \<and> ref_count s1 q = 0"
    "ref_count s2 = (\<lambda>q. if q \<in> set (ps @ n2) then 1 else ref_count s1 q)"
    by blast
  have m: "managed s1 = managed s" "managed s2 = managed s" using A B by simp_all
  have kp: "pt_keeps bd D ?r s s1" "pt_keeps bd D ?r s1 s2" using A B r by simp_all
  have keep: "pt_keeps bd D ?r s s2" by (rule pt_keeps_trans [OF kp m(1)]) (simp add: n1(5))
  have p1: "managed s1 p" "0 < ref_count s1 p" "p \<notin> pt_tables bd D s1 ?r" using A n1 m by auto
  have "p \<notin> pt_tables bd D s2 ?r \<and> (clear \<longrightarrow> (\<forall>i < 512. entry s2 p i = 0))"
    using pt_keepsD [OF kp(2) p1] A by simp
  moreover have "set ([p] @ n1) \<inter> set (ps @ n2) = {}" using n1(5) n2(4) by fastforce
  then have "\<exists>new. pt_frames pt2 = pt_frames pt @ new \<and> length new \<le> 2 * length (v # vs) \<and> distinct ((p # ps) @ new) \<and>
      (\<forall>q \<in> set ((p # ps) @ new). managed s q \<and> ref_count s q = 0) \<and>
      ref_count s2 = (\<lambda>q. if q \<in> set ((p # ps) @ new) then 1 else ref_count s q)"
    using n1 n2 m by (intro exI [of _ "n1 @ n2"]) (auto simp: fun_eq_iff split: if_splits)
  moreover have "pt_lookup bd s2 ?r w = (case map_of (zip (map vpn_path (v # vs)) (p # ps)) (vpn_path w) of
      Some p \<Rightarrow> Some (pte_new p (perm OR PTE_VALID)) | None \<Rightarrow> pt_lookup bd s ?r w)" if w: "vpn_path w ! 0 \<in> D" for w
  proof -
    have w': "vpn_path w \<noteq> vpn_path v" if "map_of (zip (map vpn_path vs) ps) (vpn_path w) = Some q" for q
      using map_of_SomeD [OF that] assms(3) by (auto dest: set_zip_leftD)
    show ?thesis
      using maps_fresh_lookup [OF assms(1) [unfolded xyz] w] maps_fresh_lookup [OF assms(2) [unfolded xyz] w] w' r
      by (auto split: option.splits)
  qed
  ultimately show ?thesis
    using A B r keep m unfolding xyz maps_fresh_def prod.case by auto
qed

text \<open>The frames of an area, one insertion per page.\<close>

definition insert_frames :: "(vpn \<times> ppn) list \<Rightarrow> (vpn \<times> ppn) list \<Rightarrow> (vpn \<times> ppn) list" where
  "insert_frames vps frames = fold (\<lambda>(v, p). bt_insert usize_cmp v p) vps frames"

lemma map_framed_ok:
  assumes "pt_wf bd D s (pt_root pt)" "\<forall>v \<in> set vs. vpn_path v ! 0 \<in> D \<and> pt_lookup bd s (pt_root pt) v = None"
    "distinct (map vpn_path vs)"
  shows "(\<exists>s' pt'. map_framed bd clear perm vs frames (s, pt) = (Inl (Panic UnwrapNone), (s', pt')) \<and>
       pt_root pt' = pt_root pt \<and> pt_wf bd D s' (pt_root pt) \<and> (\<forall>q. managed s' q \<longrightarrow> 0 < ref_count s' q) \<and>
       card (free_frames s) < 3 * length vs) \<or>
    (\<exists>s' pt' ps. map_framed bd clear perm vs frames (s, pt) = (Inr (insert_frames (zip vs ps) frames), (s', pt')) \<and>
       maps_fresh bd D clear perm vs ps (s, pt) (s', pt'))"
  using assms
proof (induction vs arbitrary: s pt frames)
  case Nil
  have "maps_fresh bd D clear perm [] [] (s, pt) (s, pt)" by (rule maps_fresh_Nil [OF Nil(1)])
  then show ?case by (auto simp: sret_def insert_frames_def)
next
  case (Cons v vs)
  from Cons.prems(2) have v: "vpn_path v ! 0 \<in> D" "pt_lookup bd s (pt_root pt) v = None" by auto
  show ?case
  proof (cases rule: map_page_ok [OF Cons.prems(1) v, of clear perm])
    case (1 s' pt')
    then show ?thesis unfolding map_framed_Cons by (intro disjI1) (simp add: sbind_def)
  next
    case (2 s1 pt1 p)
    have P: "pt_root pt1 = pt_root pt" "pt_wf bd D s1 (pt_root pt1)"
      using 2(2) by (simp_all add: maps_fresh_def)
    have run: "map_framed bd clear perm (v # vs) frames (s, pt) =
        map_framed bd clear perm vs (bt_insert usize_cmp v p frames) (s1, pt1)"
      unfolding map_framed_Cons using 2(1) by (simp add: sbind_def)
    have "pt_lookup bd s1 (pt_root pt1) w = None" if "w \<in> set vs" for w
      using that maps_fresh_lookup [OF 2(2), of w] Cons.prems(2,3) P(1) by (auto simp: image_iff)
    then have "\<forall>w \<in> set vs. vpn_path w ! 0 \<in> D \<and> pt_lookup bd s1 (pt_root pt1) w = None" using Cons.prems(2) by auto
    from Cons.IH [OF P(2) this, of "bt_insert usize_cmp v p frames"] Cons.prems(3)
    consider s' pt' where "map_framed bd clear perm (v # vs) frames (s, pt) = (Inl (Panic UnwrapNone), (s', pt'))"
        "pt_root pt' = pt_root pt" "pt_wf bd D s' (pt_root pt)" "\<forall>q. managed s' q \<longrightarrow> 0 < ref_count s' q"
        "card (free_frames s1) < 3 * length vs"
      | s' pt' ps where "map_framed bd clear perm (v # vs) frames (s, pt) =
          (Inr (insert_frames (zip vs ps) (bt_insert usize_cmp v p frames)), (s', pt'))"
        "maps_fresh bd D clear perm vs ps (s1, pt1) (s', pt')"
      unfolding run using P(1) by auto
    then show ?thesis
    proof cases
      case (1 s' pt')
      have "card (free_frames s) \<le> card (free_frames s1) + 3" by (rule maps_fresh_free [OF \<open>maps_fresh bd D clear perm [v] [p] _ _\<close>])
      with 1 show ?thesis by (intro disjI1 exI [of _ s'] exI [of _ pt']) simp
    next
      case (2 s' pt' ps)
      moreover have "maps_fresh bd D clear perm (v # vs) (p # ps) (s, pt) (s', pt')"
        by (rule maps_fresh_Cons [OF \<open>maps_fresh bd D clear perm [v] [p] _ _\<close> 2(2)]) (use Cons.prems(3) in auto)
      ultimately show ?thesis
        by (intro disjI2 exI [of _ s'] exI [of _ pt'] exI [of _ "p # ps"]) (simp add: insert_frames_def)
    qed
  qed
qed

section \<open>An area\<close>

lemma bt_insert_last: "\<forall>k' \<in> fst ` set xs. k' < k \<Longrightarrow> bt_insert usize_cmp k v xs = xs @ [(k, v)]"
  by (induction xs) (auto simp: usize_cmp_def)

lemma insert_frames_append:
  "sorted_wrt (<) vs \<Longrightarrow> length ps = length vs \<Longrightarrow> \<forall>k \<in> fst ` set fs. \<forall>v \<in> set vs. k < v \<Longrightarrow>
   insert_frames (zip vs ps) fs = fs @ zip vs ps"
proof (induction vs arbitrary: ps fs)
  case (Cons v vs)
  then obtain p ps' where ps: "ps = p # ps'" by (cases ps) auto
  have "bt_insert usize_cmp v p fs = fs @ [(v, p)]" by (rule bt_insert_last) (use Cons.prems(3) in auto)
  moreover have "insert_frames (zip vs ps') (fs @ [(v, p)]) = (fs @ [(v, p)]) @ zip vs ps'"
    by (rule Cons.IH) (use Cons.prems ps in auto)
  ultimately show ?case using ps by (simp add: insert_frames_def)
qed (simp add: insert_frames_def)

lemma range_list_sorted: "sorted_wrt (<) (range_list s e)"
proof -
  have "(of_nat i :: usize) < of_nat j" if "i < j" "j < unat e" for i j
    using that unat_less_2p [of e] by (simp add: word_less_nat_alt unat_of_nat)
  then show ?thesis
    unfolding range_list_def sorted_wrt_map by (intro sorted_wrt_mono_rel [OF _ sorted_wrt_upt]) auto
qed

lemma range_list_paths: "unat e \<le> 2 ^ 27 \<Longrightarrow> distinct (map vpn_path (range_list s e))"
  by (auto simp: distinct_map distinct_range_list inj_on_def set_range_list word_less_nat_alt intro: vpn_path_inj)

text \<open>\<open>unmapped\<close>: the pages of a range are in the part of the table that is looked at, and none is mapped yet.\<close>

definition unmapped :: "board \<Rightarrow> nat set \<Rightarrow> mm \<Rightarrow> ppn \<Rightarrow> va_range \<Rightarrow> vpn list \<Rightarrow> bool" where
  "unmapped bd D s root r vs \<longleftrightarrow> (\<exists>st en. vpn_range r = Inr (st, en) \<and> vs = range_list st en \<and> unat en \<le> 2 ^ 27) \<and>
     (\<forall>v \<in> set vs. vpn_path v ! 0 \<in> D \<and> pt_lookup bd s root v = None)"

lemma insert_framed_area_run:
  assumes "unmapped bd D s (pt_root (as_pt self)) r vs" "data = None \<or> data = Some []"
  shows "insert_framed_area bd r perm data (s, self) =
    sbind (on_pt (map_framed bd (data \<noteq> None) perm vs [])) (\<lambda>fs.
      areas_insert r \<lparr>ma_frames = fs, ma_type = Framed, ma_perm = perm\<rparr>) (s, self)"
  using assms
  by (auto simp: unmapped_def insert_framed_area_def insert_area_def page_table_map_def map_area_framed_def with_vpns_def
      sbind_def on_pt_def slift_def sret_def split: sum.splits prod.splits)

lemma insert_framed_area_cases:
  assumes "pt_wf bd D s (pt_root (as_pt self))" "unmapped bd D s (pt_root (as_pt self)) r vs"
    "data = None \<or> data = Some []" "bt_find va_range_cmp r (as_areas self) = None"
  shows "case insert_framed_area bd r perm data (s, self) of
      (Inr _, (s', self')) \<Rightarrow> \<exists>ps. maps_fresh bd D (data \<noteq> None) perm vs ps (s, as_pt self) (s', as_pt self') \<and>
        self' = self\<lparr>as_pt := as_pt self', as_areas := bt_insert va_range_cmp r
          \<lparr>ma_frames = zip vs ps, ma_type = Framed, ma_perm = perm\<rparr> (as_areas self)\<rparr>
    | (Inl e, (s', self')) \<Rightarrow> e = Panic UnwrapNone \<and> card (free_frames s) < 3 * length vs \<and>
        (\<forall>q. managed s' q \<longrightarrow> 0 < ref_count s' q) \<and>
        self' = self\<lparr>as_pt := as_pt self'\<rparr> \<and> pt_root (as_pt self') = pt_root (as_pt self) \<and>
        pt_wf bd D s' (pt_root (as_pt self'))"
proof -
  from assms(2) obtain st en where vs: "vs = range_list st en" "unat en \<le> 2 ^ 27"
    "\<forall>v \<in> set vs. vpn_path v ! 0 \<in> D \<and> pt_lookup bd s (pt_root (as_pt self)) v = None" by (auto simp: unmapped_def)
  note run = insert_framed_area_run [OF assms(2,3), of perm]
  from map_framed_ok [OF assms(1) vs(3), of "data \<noteq> None" perm "[]"] range_list_paths [OF vs(2)]
  consider s' pt' where "map_framed bd (data \<noteq> None) perm vs [] (s, as_pt self) = (Inl (Panic UnwrapNone), (s', pt'))"
      "pt_root pt' = pt_root (as_pt self)" "pt_wf bd D s' (pt_root (as_pt self))" "\<forall>q. managed s' q \<longrightarrow> 0 < ref_count s' q"
      "card (free_frames s) < 3 * length vs"
    | s' pt' ps where "map_framed bd (data \<noteq> None) perm vs [] (s, as_pt self) = (Inr (insert_frames (zip vs ps) []), (s', pt'))"
      "maps_fresh bd D (data \<noteq> None) perm vs ps (s, as_pt self) (s', pt')"
    unfolding vs(1) by blast
  then show ?thesis
  proof cases
    case (1 s' pt')
    then show ?thesis unfolding run by (simp add: sbind_def on_pt_def)
  next
    case (2 s' pt' ps)
    have "length ps = length vs" using 2(2) by (simp add: maps_fresh_def)
    then have "insert_frames (zip vs ps) [] = zip vs ps"
      using insert_frames_append [of vs ps "[]"] range_list_sorted vs(1) by simp
    then have "insert_framed_area bd r perm data (s, self) = (Inr (), (s', self\<lparr>as_pt := pt', as_areas :=
        bt_insert va_range_cmp r \<lparr>ma_frames = zip vs ps, ma_type = Framed, ma_perm = perm\<rparr> (as_areas self)\<rparr>))"
      unfolding run using 2(1) assms(4) by (simp add: sbind_def on_pt_def areas_insert_def)
    with 2(2) show ?thesis by auto
  qed
qed

text \<open>C11: a new framed area gets memory of its own.  For a range of pages none of which is mapped, whose key none of the
  areas has (keys that overlap count as the same one), and with no data or empty data to store: when the call returns,
  every page of the range maps to a frame that was free before, no two pages share one, and with empty data the frames
  are cleared; all other page numbers map as before, the tables stay a tree, pages that others hold keep their words and
  counts, and the area records the frame of every page.  It does return when three frames are free for every page (one
  for the page and at most two for tables); it panics only with fewer, when no frame is left, and then the areas are
  unchanged.\<close>

theorem framed_area_gets_fresh_frames:
  assumes "pt_wf bd D s (pt_root (as_pt self))" "unmapped bd D s (pt_root (as_pt self)) r vs"
    "data = None \<or> data = Some []" "bt_find va_range_cmp r (as_areas self) = None"
  shows "case insert_framed_area bd r perm data (s, self) of
      (Inr _, (s', self')) \<Rightarrow> \<exists>ps. maps_fresh bd D (data \<noteq> None) perm vs ps (s, as_pt self) (s', as_pt self') \<and>
        self' = self\<lparr>as_pt := as_pt self', as_areas := bt_insert va_range_cmp r
          \<lparr>ma_frames = zip vs ps, ma_type = Framed, ma_perm = perm\<rparr> (as_areas self)\<rparr>
    | (Inl e, (s', self')) \<Rightarrow> e = Panic UnwrapNone \<and> card (free_frames s) < 3 * length vs \<and>
        (\<forall>q. managed s' q \<longrightarrow> 0 < ref_count s' q) \<and>
        self' = self\<lparr>as_pt := as_pt self'\<rparr> \<and> pt_root (as_pt self') = pt_root (as_pt self) \<and>
        pt_wf bd D s' (pt_root (as_pt self'))"
  by (rule insert_framed_area_cases [OF assms])

section \<open>Removing an area\<close>

lemma unmap_one_ok:
  assumes "pt_wf bd D s root" "vpn_path v ! 0 \<in> D" "pt_lookup bd s root v \<noteq> None"
  obtains s' where "unmap_one bd root v s = (Inr (), s')" "pt_wf bd D s' root" "managed s' = managed s" "ref_count s' = ref_count s"
    "\<And>w. vpn_path w ! 0 \<in> D \<Longrightarrow> vpn_path w \<noteq> vpn_path v \<Longrightarrow> pt_lookup bd s' root w = pt_lookup bd s root w"
proof -
  obtain e where "pt_lookup bd s root v = Some e" using assms(3) by blast
  then obtain t where t: "found_pte bd root v s = (Inr (kword t (vpn_path v ! 2)), s)"
    "pt_walk bd s root (take 2 (vpn_path v)) = Some t" using found_pte_ok [OF assms(1,2)] by metis
  let ?s' = "s\<lparr>mm_mem := (mm_mem s)(kword t (vpn_path v ! 2) := PTE_EMPTY)\<rparr>"
  note L = leaf_store [OF assms(1,2) t(2) refl]
  show thesis
    by (rule that [of ?s']) (use L(1) [of PTE_EMPTY] L(3) [of _ PTE_EMPTY] t(1) in \<open>simp_all add: unmap_one_def sbind_def store_word_def\<close>)
qed

lemma unmap_all_ok:
  assumes "pt_wf bd D s root" "distinct (map vpn_path vs)" "\<forall>v \<in> set vs. vpn_path v ! 0 \<in> D \<and> pt_lookup bd s root v \<noteq> None"
  shows "\<exists>s'. unmap_all bd root vs s = (Inr (), s') \<and> pt_wf bd D s' root \<and> managed s' = managed s \<and> ref_count s' = ref_count s"
  using assms
proof (induction vs arbitrary: s)
  case Nil
  then show ?case by (simp add: sret_def)
next
  case (Cons v vs)
  obtain s1 where s1: "unmap_one bd root v s = (Inr (), s1)" "pt_wf bd D s1 root" "managed s1 = managed s" "ref_count s1 = ref_count s"
    "\<And>w. vpn_path w ! 0 \<in> D \<Longrightarrow> vpn_path w \<noteq> vpn_path v \<Longrightarrow> pt_lookup bd s1 root w = pt_lookup bd s root w"
    using unmap_one_ok [OF Cons.prems(1), of v] Cons.prems(3) by auto
  have "vpn_path w \<noteq> vpn_path v" if "w \<in> set vs" for w using that Cons.prems(2) by (metis distinct.simps(2) image_eqI list.set_map list.simps(9))
  then have "\<forall>w \<in> set vs. vpn_path w ! 0 \<in> D \<and> pt_lookup bd s1 root w \<noteq> None" using Cons.prems(3) s1(5) by simp
  from Cons.IH [OF s1(2) _ this] Cons.prems(2) s1(1,3,4) show ?case by (simp add: sbind_def)
qed

lemma drop_frames_ok:
  assumes "frame_inv s" "distinct ps" "\<forall>p \<in> set ps. managed s p \<and> 0 < ref_count s p"
  shows "\<exists>s'. drop_frames ps s = (Inr (), s')"
  using assms
proof (induction ps arbitrary: s)
  case (Cons p ps)
  then have p: "managed s p" "0 < ref_count s p" by auto
  obtain s1 where s1: "frame_dealloc p s = (Inr (), s1)" "frame_inv s1" "ref_count s1 = (ref_count s)(p := ref_count s p - 1)"
    "frame_same {p} s s1" using frame_dealloc_ok [OF Cons.prems(1) p] by metis
  have "\<forall>q \<in> set ps. managed s1 q \<and> 0 < ref_count s1 q"
    using Cons.prems(2,3) s1(3) frame_same_managed [OF s1(4)] by auto
  from Cons.IH [OF s1(2) _ this] Cons.prems(2) s1(1) show ?case by (simp add: sbind_def)
qed (simp add: sret_def)

text \<open>An area whose pages are mapped and whose frames are held is removed.\<close>

lemma remove_area_ok:
  assumes "pt_wf bd D s (pt_root (as_pt self))" "bt_find va_range_cmp (va_key a) (as_areas self) = Some (r, area)"
    and "vpn_range r = Inr (st, en)" "unat en \<le> 2 ^ 27"
    and "\<forall>v \<in> set (range_list st en). vpn_path v ! 0 \<in> D \<and> pt_lookup bd s (pt_root (as_pt self)) v \<noteq> None"
    and "distinct (map snd (ma_frames area))" "\<forall>p \<in> snd ` set (ma_frames area). managed s p \<and> 0 < ref_count s p"
  shows "\<exists>s'. remove_area bd a (s, self) =
    (Inr (), (s', self\<lparr>as_areas := bt_remove va_range_cmp (va_key a) (as_areas self)\<rparr>))"
proof -
  obtain s1 where s1: "unmap_all bd (pt_root (as_pt self)) (range_list st en) s = (Inr (), s1)" "pt_wf bd D s1 (pt_root (as_pt self))"
    "managed s1 = managed s" "ref_count s1 = ref_count s"
    using unmap_all_ok [OF assms(1) range_list_paths [OF assms(4)] assms(5)] by blast
  moreover obtain s2 where "drop_frames (map snd (ma_frames area)) s1 = (Inr (), s2)"
    using drop_frames_ok [OF pt_wf_frame_inv [OF s1(2)] assms(6)] assms(7) s1(3,4) by auto
  ultimately show ?thesis using assms(2,3) by (simp add: remove_area_def sbind_def slift_def on_mm_def)
qed

text \<open>So is a new area of an address space that had none.\<close>

lemma new_area_removable:
  assumes "maps_fresh bd D clear perm vs ps (s, pt) (s', pt')" "self = \<lparr>as_pt = pt', as_areas = [(r, \<lparr>ma_frames = zip vs ps,
      ma_type = Framed, ma_perm = perm\<rparr>)], as_data_end = de, as_data_max = dm\<rparr>"
    and "vpn_range r = Inr (st, en)" "unat en \<le> 2 ^ 27" "vs = range_list st en" "\<forall>v \<in> set vs. vpn_path v ! 0 \<in> D"
    and "rg_start r \<le> a" "a \<le> rg_end r"
  shows "\<exists>s2. remove_area bd a (s', self) = (Inr (), (s2, self\<lparr>as_areas := []\<rparr>))"
proof -
  note M = assms(1) [unfolded maps_fresh_def prod.case]
  have root: "pt_root (as_pt self) = pt_root pt" using M assms(2) by simp
  have key: "va_range_cmp (va_key a) r = Equal" using assms(7,8) by (simp add: va_range_cmp_def va_range_eq_def va_key_def)
  then have f: "bt_find va_range_cmp (va_key a) (as_areas self) = Some (r, \<lparr>ma_frames = zip vs ps, ma_type = Framed, ma_perm = perm\<rparr>)"
    and rm: "bt_remove va_range_cmp (va_key a) (as_areas self) = []" by (simp_all add: assms(2))
  have len: "length ps = length vs" and wf: "pt_wf bd D s' (pt_root (as_pt self))" using M root by simp_all
  then have ps: "map snd (zip vs ps) = ps" by simp
  have "pt_lookup bd s' (pt_root (as_pt self)) v \<noteq> None" if "v \<in> set vs" for v
  proof -
    have "vpn_path v \<in> fst ` set (zip (map vpn_path vs) ps)" using that len by (metis image_eqI length_map list.set_map map_fst_zip)
    then have "map_of (zip (map vpn_path vs) ps) (vpn_path v) \<noteq> None" by (simp add: map_of_eq_None_iff)
    then show ?thesis using maps_fresh_lookup [OF assms(1)] assms(6) that root by auto
  qed
  moreover have "distinct ps" "\<forall>p \<in> set ps. managed s' p \<and> 0 < ref_count s' p" using M by auto
  ultimately have "\<exists>s2. remove_area bd a (s', self) =
      (Inr (), (s2, self\<lparr>as_areas := bt_remove va_range_cmp (va_key a) (as_areas self)\<rparr>))"
    by (intro remove_area_ok [OF wf f assms(3,4)]) (use assms(5,6) ps set_zip_rightD in \<open>auto dest: set_zip_rightD\<close>)
  then show ?thesis unfolding rm .
qed

section \<open>Witnesses\<close>

theorem framed_area_gets_fresh_frames_witness:
  "\<exists>s self r s' self' ps. pt_wf K210 {..<256} s (pt_root (as_pt self)) \<and>
    insert_framed_area K210 r (PTE_READABLE OR PTE_USER) (Some []) (s, self) = (Inr (), (s', self')) \<and>
    maps_fresh K210 {..<256} True (PTE_READABLE OR PTE_USER) [0x10, 0x11] ps (s, as_pt self) (s', as_pt self')"
proof -
  from demo_memory [of K210] obtain s p where s: "pt_wf K210 {..<256} s p"
    "\<forall>w. vpn_path w ! 0 < 256 \<longrightarrow> pt_lookup K210 s p w = None" "card (free_frames s) = 15" by blast
  let ?self = "\<lparr>as_pt = \<lparr>pt_root = p, pt_frames = []\<rparr>, as_areas = [], as_data_end = 1, as_data_max = 1\<rparr>"
  let ?r = "\<lparr>rg_start = 0x10000, rg_end = 0x12000\<rparr>"
  have "range_list 0x10 0x12 = [0x10, 0x11]" by (simp add: range_list_def upt_rec)
  moreover have "vpn_range ?r = Inr (0x10, 0x12)"
    by (simp add: vpn_range_def addr_ceil_def addr_floor_def cadd_def csub_def config_simps)
  ultimately have "unmapped K210 {..<256} s (pt_root (as_pt ?self)) ?r [0x10, 0x11]"
    unfolding unmapped_def using s(2) by (auto simp: vpn_path_eq)
  moreover have wf: "pt_wf K210 {..<256} s (pt_root (as_pt ?self))" using s(1) by simp
  moreover obtain x s' self' where run: "insert_framed_area K210 ?r (PTE_READABLE OR PTE_USER) (Some []) (s, ?self) = (x, (s', self'))"
    by (metis prod.exhaust)
  ultimately have "x = Inr () \<and> (\<exists>ps. maps_fresh K210 {..<256} True (PTE_READABLE OR PTE_USER) [0x10, 0x11] ps (s, as_pt ?self) (s', as_pt self'))"
    using framed_area_gets_fresh_frames [of K210 "{..<256}" s ?self ?r "[0x10, 0x11]" "Some []" "PTE_READABLE OR PTE_USER"] s(3)
    by (cases x) auto
  with run wf show ?thesis by blast
qed

end
