(* ===== verification/Kernel_Process_Props.thy ===== *)
theory Kernel_Process_Props
  imports Kernel_Process Address_Space_Map
begin

text \<open>
  Processes keep their invariant \<open>kpwf\<close> under every step of the kernel: live processes have different ids, the scheduler
  holds exactly the threads that have not left, and a thread that sleeps in \<open>wait4\<close> has its callback registered and
  nothing to collect. So a child that leaves wakes its parent, which then returns the child's id and status, provided its
  stack can be given back; otherwise the kernel panics before the parent hears of it.
\<close>

section \<open>Steps\<close>

lemma kmonad [simp]:
  "sbind (kget f) k s = k (f s) s" "sbind (kupd g) k' s = k' () (g s)" "kget f s = (Inr (f s), s)" "kupd g s = (Inr (), g s)"
  by (simp_all add: sbind_def kget_def kupd_def)

lemma cur_simps [simp]:
  "sbind (cur_thread r) k s = (case kp_threads s r of None \<Rightarrow> (Inl (Panic UnwrapNone), s) | Some t \<Rightarrow> k t s)"
  "sbind (cur_process r) k' s = (case kp_procs s r of None \<Rightarrow> (Inl (Panic UnwrapNone), s) | Some p \<Rightarrow> k' p s)"
  by (simp_all add: cur_thread_def cur_process_def sbind_assoc sfail_apply split: option.splits)

lemma on_tids_bind [simp]:
  "sbind (on_tids f) k s = (case f (kp_tids s) of (Inl e, t) \<Rightarrow> (Inl e, s\<lparr>kp_tids := t\<rparr>) | (Inr x, t) \<Rightarrow> k x (s\<lparr>kp_tids := t\<rparr>))"
  by (auto simp: on_tids_def sbind_def split: prod.splits sum.splits)

lemma on_halves_bind [simp]:
  "sbind (on_kp m) k (s, a) = (case m s of (Inl e, s') \<Rightarrow> (Inl e, (s', a)) | (Inr x, s') \<Rightarrow> k x (s', a))"
  "sbind (on_space m') k' (s, a) = (case m' a of (Inl e, a') \<Rightarrow> (Inl e, (s, a')) | (Inr x, a') \<Rightarrow> k' x (s, a'))"
  by (auto simp: on_kp_def on_space_def sbind_def split: prod.splits sum.splits)

lemma guard_bind [simp]: "sbind (slift (rguard b e)) k s = (if b then k () s else (Inl e, s))"
  by (simp add: sfail_apply)

definition status_of :: "kproc \<Rightarrow> nat \<Rightarrow> thread_status option" where
  "status_of s r = map_option th_status (kp_threads s r)"

definition runs :: "kproc \<Rightarrow> nat \<Rightarrow> bool" where
  "runs s r \<longleftrightarrow> r \<in> set (kp_pool s) \<and> status_of s r = Some Ready"

definition in_wait :: "kproc \<Rightarrow> nat \<Rightarrow> int \<Rightarrow> bool" where
  "in_wait s r pid \<longleftrightarrow> kp_wait s r = Some pid \<and> status_of s r = Some Waiting"

text \<open>The steps of the kernel on processes. A thread sleeps elsewhere (for a pipe or a timer) and is woken from there
  only outside \<open>wait4\<close>; a thread that sleeps in \<open>wait4\<close> goes on with its next round once it is ready.\<close>

inductive kp_step :: "kproc \<Rightarrow> kproc \<Rightarrow> bool" where
  new: "new_thread s = (Inr r, s') \<Longrightarrow> kp_step s s'"
| clone: "runs s r \<Longrightarrow> kp_wait s r = None \<Longrightarrow> sys_clone r flags tid mapped now s = (Inr c, s') \<Longrightarrow> kp_step s s'"
| exit: "runs s r \<Longrightarrow> kp_wait s r = None \<Longrightarrow> sys_exit bd utop r status now (s, a) = (Inr (), (s', a')) \<Longrightarrow> kp_step s s'"
| wait: "runs s r \<Longrightarrow> kp_wait s r = None \<or> kp_wait s r = Some pid \<Longrightarrow> wait4_round r pid now s = (Inr res, s') \<Longrightarrow> kp_step s s'"
| sleep: "runs s r \<Longrightarrow> kp_wait s r = None \<Longrightarrow> kp_step s (thread_status_to r Waiting s)"
| wake: "status_of s r = Some Waiting \<Longrightarrow> kp_wait s r = None \<Longrightarrow> kp_step s (thread_status_to r Ready s)"
| drop: "status_of s r = Some Zombie \<Longrightarrow> drop_thread r s = (Inr (), s') \<Longrightarrow> kp_step s s'"
| charge: "charge add r now s = (Inr (), s') \<Longrightarrow> add = add_utime \<or> add = add_stime \<Longrightarrow> kp_step s s'"
| resume: "kp_step s (upd_thread r (\<lambda>t. t\<lparr>th_cycles := now\<rparr>) s)"
| address: "sys_set_tid_address r p s = (Inr res, s') \<Longrightarrow> kp_step s s'"
| schedule: "schedule_round s = (t, s') \<Longrightarrow> kp_step s s'"

inductive kp_reach :: "kproc \<Rightarrow> bool" where
  init: "kp_reach kp_init"
| step: "kp_reach s \<Longrightarrow> kp_step s s' \<Longrightarrow> kp_reach s'"

section \<open>The invariant\<close>

definition pid_of :: "kproc \<Rightarrow> nat \<Rightarrow> usize" where
  "pid_of s r = pr_pid (the (kp_procs s r))"

definition ids_wf :: "kproc \<Rightarrow> bool" where
  "ids_wf s \<longleftrightarrow> (\<exists>L. distinct L \<and> set L = dom (kp_procs s) \<and> tid_inv (kp_tids s) (map (pid_of s) L))"

definition pool_wf :: "kproc \<Rightarrow> bool" where
  "pool_wf s \<longleftrightarrow> dom (kp_procs s) = insert 0 (dom (kp_threads s)) \<and> 0 \<notin> dom (kp_threads s) \<and> (\<forall>r \<in> dom (kp_procs s). r < kp_next s) \<and>
     distinct (kp_pool s) \<and> set (kp_pool s) = {r. status_of s r \<noteq> None \<and> status_of s r \<noteq> Some Zombie}"

definition proc_wf :: "kproc \<Rightarrow> nat \<Rightarrow> process \<Rightarrow> bool" where
  "proc_wf s r pr \<longleftrightarrow> pr_wake pr = (if \<exists>pid. in_wait s r pid then [r] else []) \<and>
     (\<forall>pid. in_wait s r pid \<longrightarrow> fst (take_exited pid (pr_exited pr)) = None) \<and>
     distinct (map (fst \<circ> snd) (pr_exited pr)) \<and>
     (\<forall>e \<in> set (pr_exited pr). fst (snd e) < kp_next s \<and> (status_of s (fst (snd e)) = None \<or> status_of s (fst (snd e)) = Some Zombie))"

definition kpwf :: "kproc \<Rightarrow> bool" where
  "kpwf s \<longleftrightarrow> ids_wf s \<and> pool_wf s \<and> (\<forall>r pr. kp_procs s r = Some pr \<longrightarrow> proc_wf s r pr)"

text \<open>Times and addresses do not matter.\<close>

definition pcore :: "process \<Rightarrow> usize \<times> nat option \<times> (usize \<times> nat \<times> u32) list \<times> nat list" where
  "pcore p = (pr_pid p, pr_parent p, pr_exited p, pr_wake p)"

definition same_core :: "kproc \<Rightarrow> kproc \<Rightarrow> bool" where
  "same_core s s' \<longleftrightarrow> kp_tids s' = kp_tids s \<and> kp_wait s' = kp_wait s \<and> kp_next s' = kp_next s \<and>
     distinct (kp_pool s') = distinct (kp_pool s) \<and> set (kp_pool s') = set (kp_pool s) \<and>
     status_of s' = status_of s \<and> (\<forall>r. map_option pcore (kp_procs s' r) = map_option pcore (kp_procs s r))"

lemma status_dom: "dom (kp_threads s) = dom (status_of s)"
  by (auto simp: status_of_def dom_def)

lemma same_core_kpwf:
  assumes "same_core s s'" "kpwf s"
  shows "kpwf s'"
proof -
  have p: "map_option pcore (kp_procs s' r) = map_option pcore (kp_procs s r)" for r using assms(1) by (simp add: same_core_def)
  have d: "dom (kp_procs s') = dom (kp_procs s)"
  proof -
    have "kp_procs s' r = None \<longleftrightarrow> kp_procs s r = None" for r using p [of r] by (metis map_option_is_None)
    then show ?thesis by (auto simp: dom_def)
  qed
  have st: "status_of s' = status_of s" and w: "in_wait s' = in_wait s" using assms(1) by (auto simp: same_core_def in_wait_def fun_eq_iff)
  have "pid_of s' r = pid_of s r" if "r \<in> dom (kp_procs s)" for r
    using p [of r] that by (auto simp: pid_of_def pcore_def)
  then have "map (pid_of s') L = map (pid_of s) L" if "set L = dom (kp_procs s)" for L using that by simp
  moreover obtain L where L: "distinct L" "set L = dom (kp_procs s)" "tid_inv (kp_tids s) (map (pid_of s) L)"
    using assms(2) by (auto simp: kpwf_def ids_wf_def)
  moreover have "kp_tids s' = kp_tids s" using assms(1) by (simp add: same_core_def)
  ultimately have "ids_wf s'" using d unfolding ids_wf_def by (intro exI [of _ L]) metis
  moreover have "pool_wf s'" using assms d st unfolding kpwf_def pool_wf_def same_core_def status_dom by simp
  moreover have "proc_wf s' r pr" if "kp_procs s' r = Some pr" for r pr
  proof -
    have "map_option pcore (Some pr) = map_option pcore (kp_procs s r)" using p [of r] that by simp
    then obtain q where q: "kp_procs s r = Some q" "pcore pr = pcore q" by (cases "kp_procs s r") simp_all
    then have "proc_wf s r q" using assms(2) by (simp add: kpwf_def)
    then show ?thesis using q(2) st w assms(1) by (simp add: proc_wf_def pcore_def same_core_def)
  qed
  ultimately show ?thesis by (simp add: kpwf_def)
qed


lemma status_simps [simp]:
  "(\<And>t. th_status (f t) = th_status t) \<Longrightarrow> status_of (upd_thread r f s) = status_of s"
  "status_of (upd_proc r g s) = status_of s"
  "status_of (thread_status_to r st s) = (if status_of s r = None then status_of s else (status_of s)(r \<mapsto> st))"
  by (auto simp: status_of_def upd_thread_def upd_proc_def thread_status_to_def set_status_def fun_eq_iff map_option.compositionality
      option.map_comp comp_def split: option.splits)

lemma same_core_trans: "same_core s s' \<Longrightarrow> same_core s' s'' \<Longrightarrow> same_core s s''"
  by (simp add: same_core_def)

lemma same_core_refl: "same_core s s"
  by (simp add: same_core_def)

lemma same_core_thread: "(\<And>t. th_status (f t) = th_status t) \<Longrightarrow> same_core s (upd_thread r f s)"
  by (simp add: same_core_def) (simp add: upd_thread_def)

lemma same_core_proc: "(\<And>p. pcore (f p) = pcore p) \<Longrightarrow> same_core s (upd_proc r f s)"
  by (simp add: same_core_def) (simp add: upd_proc_def option.map_comp comp_def)

lemma same_core_charge:
  assumes "charge add r now s = (res, s')" "add = add_utime \<or> add = add_stime"
  shows "same_core s s'"
proof -
  have "pcore (add d p) = pcore p" for d p using assms(2) by (auto simp: pcore_def add_utime_def add_stime_def)
  then have "same_core s (upd_thread r (\<lambda>t. t\<lparr>th_cycles := now\<rparr>) (upd_proc r (add d) s))" for d
    by (intro same_core_trans [OF same_core_proc same_core_thread]) simp_all
  then show ?thesis using assms(1) same_core_refl [of s]
    by (cases "kp_threads s r"; cases "csub now (th_cycles (the (kp_threads s r)))") (auto simp: charge_def sfail_apply)
qed

lemma same_core_rotate: "schedule_round s = (t, s') \<Longrightarrow> same_core s s'"
  by (cases "kp_pool s") (auto simp: schedule_round_def same_core_def status_of_def split: option.splits)


section \<open>New processes\<close>

definition with_new :: "usize \<Rightarrow> tid_allocator \<Rightarrow> process \<Rightarrow> thread_inner \<Rightarrow> kproc \<Rightarrow> kproc" where
  "with_new tid ts pr t s = s\<lparr>kp_tids := ts, kp_next := Suc (kp_next s), kp_procs := (kp_procs s)(kp_next s \<mapsto> pr),
     kp_threads := (kp_threads s)(kp_next s \<mapsto> t), kp_wait := (kp_wait s)(kp_next s := None), kp_pool := kp_pool s @ [kp_next s]\<rparr>"

lemma kpwf_new:
  assumes "kpwf s" "tid_alloc (kp_tids s) = (Inr tid, ts)" "pr_pid pr = tid" "pr_exited pr = []" "pr_wake pr = []" "th_status t = Ready"
  shows "kpwf (with_new tid ts pr t s)" (is "kpwf ?s")
proof -
  let ?n = "kp_next s"
  have P: "pool_wf s" "ids_wf s" "\<And>r pr. kp_procs s r = Some pr \<Longrightarrow> proc_wf s r pr" using assms(1) by (auto simp: kpwf_def)
  have new: "?n \<notin> dom (kp_procs s)" "?n \<notin> dom (kp_threads s)" using P(1) by (auto simp: pool_wf_def)
  have st: "status_of ?s = (status_of s)(?n \<mapsto> Ready)" using assms(6) by (auto simp: status_of_def with_new_def fun_eq_iff)
  have sn: "status_of s ?n = None" using new(2) by (auto simp: status_of_def)
  have w: "in_wait ?s r pid \<longleftrightarrow> r \<noteq> ?n \<and> in_wait s r pid" for r pid using st by (auto simp: in_wait_def with_new_def)
  obtain L where L: "distinct L" "set L = dom (kp_procs s)" "tid_inv (kp_tids s) (map (pid_of s) L)" using P(2) by (auto simp: ids_wf_def)
  have "map (pid_of ?s) L = map (pid_of s) L" using L(2) new(1) by (auto simp: pid_of_def with_new_def)
  moreover have "pid_of ?s ?n = tid" using assms(3) by (simp add: pid_of_def with_new_def)
  ultimately have "tid_inv (kp_tids ?s) (map (pid_of ?s) (?n # L))" using tid_inv_alloc [OF L(3) assms(2)]
    by (simp only: list.map(2)) (simp add: with_new_def)
  then have "ids_wf ?s" using L(1,2) new(1) unfolding ids_wf_def by (intro exI [of _ "?n # L"]) (auto simp: with_new_def)
  moreover have "pool_wf ?s"
  proof -
    have "set (kp_pool ?s) = {r. status_of ?s r \<noteq> None \<and> status_of ?s r \<noteq> Some Zombie}"
      using P(1) st sn by (auto simp: pool_wf_def with_new_def)
    moreover have "distinct (kp_pool ?s)" using P(1) sn by (auto simp: pool_wf_def with_new_def)
    moreover have "?n \<noteq> 0" using P(1) by (auto simp: pool_wf_def)
    ultimately show ?thesis using P(1) unfolding pool_wf_def by (auto simp: with_new_def less_Suc_eq)
  qed
  moreover have "proc_wf ?s r q" if "kp_procs ?s r = Some q" for r q
  proof (cases "r = ?n")
    case True
    then have "q = pr" using that by (simp add: with_new_def)
    then show ?thesis using True assms(4,5) w by (simp add: proc_wf_def)
  next
    case False
    then have "proc_wf s r q" using that P(3) by (simp add: with_new_def)
    then show ?thesis using False w st by (auto simp: proc_wf_def with_new_def less_Suc_eq)
  qed
  ultimately show ?thesis by (simp add: kpwf_def)
qed

lemma new_thread_run:
  "new_thread s = (case tid_alloc (kp_tids s) of (Inl e, ts) \<Rightarrow> (Inl e, s\<lparr>kp_tids := ts\<rparr>)
     | (Inr tid, ts) \<Rightarrow> (Inr (kp_next s), with_new tid ts (new_process tid (Some 0)) (fresh_thread 0 0) s))"
  by (auto simp: new_thread_def on_tids_def sbind_def kget_def kupd_def sret_apply add_thread_def with_new_def split: prod.splits sum.splits)

lemma kpwf_new_thread: "kpwf s \<Longrightarrow> new_thread s = (Inr r, s') \<Longrightarrow> kpwf s'"
  by (auto simp: new_thread_run new_process_def fresh_thread_def split: prod.splits sum.splits intro!: kpwf_new)

lemma clone_run:
  assumes "sys_clone cur flags ct mapped now s = (Inr c, s')" "cur < kp_next s"
  obtains tid ts t where "tid_alloc (kp_tids s) = (Inr tid, ts)" "th_status t = Ready"
    "\<exists>res. switch_away cur now (thread_status_to cur Ready (upd_proc cur (\<lambda>p. p\<lparr>pr_child := pr_child p @ [kp_next s]\<rparr>)
       (with_new tid ts (new_process tid (Some cur)) t s))) = (res, s')"
proof -
  obtain tid ts where ta: "tid_alloc (kp_tids s) = (Inr tid, ts)"
    using assms(1) by (cases "tid_alloc (kp_tids s)"; cases "fst (tid_alloc (kp_tids s))")
      (auto simp: sys_clone_def thread_fork_def sbind_assoc)
  let ?t = "fresh_thread (if flags_contain flags CLONE_CHILD_SETTID then ct else 0) (if flags_contain flags CLONE_CHILD_CLEARTID then ct else 0)"
  let ?w = "with_new tid ts (new_process tid (Some cur)) ?t s"
  let ?u = "thread_status_to cur Ready (upd_proc cur (\<lambda>p. p\<lparr>pr_child := pr_child p @ [kp_next s]\<rparr>) ?w)"
  have g: "flags_contain flags CLONE_CHILD_SETTID \<longrightarrow> mapped" "\<not> flags_contain flags CLONE_THREAD"
    using assms(1) ta by (auto simp: sys_clone_def thread_fork_def sbind_assoc Let_def split: if_splits)
  let ?f = "(upd_proc cur (\<lambda>p. p\<lparr>pr_child := pr_child p @ [kp_next s]\<rparr>) ?w)\<lparr>kp_pool := kp_pool s\<rparr>"
  have "thread_fork cur flags ct mapped s = (Inr (kp_next s), ?f)"
    using ta g by (simp add: thread_fork_def Let_def upd_proc_def with_new_def sret_apply)
  note B = sbind_Inr [where m = "thread_fork cur flags ct mapped", OF this]
  have pe: "?f\<lparr>kp_pool := add_thread (kp_next s) (kp_pool ?f)\<rparr> = upd_proc cur (\<lambda>p. p\<lparr>pr_child := pr_child p @ [kp_next s]\<rparr>) ?w"
    by (simp add: add_thread_def upd_proc_def with_new_def)
  have "sys_clone cur flags ct mapped now s = sbind (switch_away cur now) (\<lambda>_. sbind (cur_process (kp_next s)) (\<lambda>pr. sret (sint (pr_pid pr)))) ?u"
    unfolding sys_clone_def B by (simp only: kmonad pe)
  then have "\<exists>res. switch_away cur now ?u = (res, s')" using assms(1)
    by (cases "switch_away cur now ?u") (auto simp: sbind_def cur_process_def slift_apply sret_apply split: sum.splits option.splits)
  moreover have "th_status ?t = Ready" by (simp add: fresh_thread_def)
  ultimately show thesis using that ta by blast
qed


lemma kpwf_clone:
  assumes "kpwf s" "runs s cur" "sys_clone cur flags ct mapped now s = (Inr c, s')"
  shows "kpwf s'"
proof -
  have st: "status_of s cur = Some Ready" using assms(2) by (simp add: runs_def)
  then have "cur \<in> dom (kp_procs s)" using assms(1) by (auto simp: kpwf_def pool_wf_def status_of_def dom_def)
  then have cur: "cur < kp_next s" using assms(1) by (auto simp: kpwf_def pool_wf_def)
  obtain tid ts t where ta: "tid_alloc (kp_tids s) = (Inr tid, ts)" "th_status t = Ready"
    and "\<exists>res. switch_away cur now (thread_status_to cur Ready (upd_proc cur (\<lambda>p. p\<lparr>pr_child := pr_child p @ [kp_next s]\<rparr>)
       (with_new tid ts (new_process tid (Some cur)) t s))) = (res, s')" by (rule clone_run [OF assms(3) cur])
  then obtain res where sw: "switch_away cur now (thread_status_to cur Ready (upd_proc cur (\<lambda>p. p\<lparr>pr_child := pr_child p @ [kp_next s]\<rparr>)
       (with_new tid ts (new_process tid (Some cur)) t s))) = (res, s')" by blast
  let ?w = "with_new tid ts (new_process tid (Some cur)) t s"
  let ?p = "upd_proc cur (\<lambda>p. p\<lparr>pr_child := pr_child p @ [kp_next s]\<rparr>) ?w"
  have "kpwf ?w" using kpwf_new [OF assms(1) ta(1) _ _ _ ta(2)] by (simp add: new_process_def)
  moreover have "same_core ?w ?p" by (rule same_core_proc) (simp add: pcore_def)
  moreover have "same_core ?p (thread_status_to cur Ready ?p)"
  proof -
    have "status_of ?p cur = Some Ready" using st cur by (simp add: status_of_def with_new_def)
    then have "status_of (thread_status_to cur Ready ?p) = status_of ?p" by (auto simp: fun_eq_iff)
    then show ?thesis by (simp add: same_core_def) (simp add: thread_status_to_def)
  qed
  moreover have "same_core (thread_status_to cur Ready ?p) s'" using same_core_charge [of add_stime] sw by (simp add: switch_away_def)
  ultimately show ?thesis by (meson same_core_kpwf)
qed


section \<open>Sleeping, leaving, waiting\<close>

lemma kpwfD:
  assumes "kpwf s"
  shows "ids_wf s" "pool_wf s" "kp_procs s r = Some pr \<Longrightarrow> proc_wf s r pr"
  using assms by (auto simp: kpwf_def)

lemma live_proc:
  assumes "kpwf s" "status_of s r = Some st"
  obtains pr where "kp_procs s r = Some pr" "r < kp_next s"
proof -
  have "r \<in> dom (kp_threads s)" using assms(2) by (auto simp: status_of_def)
  then have "r \<in> dom (kp_procs s)" using kpwfD(2) [OF assms(1)] by (simp add: pool_wf_def)
  moreover have "\<forall>r \<in> dom (kp_procs s). r < kp_next s" using kpwfD(2) [OF assms(1)] unfolding pool_wf_def by blast
  ultimately show thesis using that by blast
qed

lemma ids_wf_cong:
  assumes "ids_wf s" "kp_tids s' = kp_tids s" "\<And>r. map_option pr_pid (kp_procs s' r) = map_option pr_pid (kp_procs s r)"
  shows "ids_wf s'"
proof -
  obtain L where L: "distinct L" "set L = dom (kp_procs s)" "tid_inv (kp_tids s) (map (pid_of s) L)" using assms(1) by (auto simp: ids_wf_def)
  have "kp_procs s' r = None \<longleftrightarrow> kp_procs s r = None" for r using assms(3) [of r] by (metis map_option_is_None)
  then have d: "dom (kp_procs s') = dom (kp_procs s)" by (auto simp: dom_def)
  have "pid_of s' r = pid_of s r" if "r \<in> dom (kp_procs s)" for r using assms(3) [of r] that by (auto simp: pid_of_def)
  then have "map (pid_of s') L = map (pid_of s) L" using L(2) by simp
  then show ?thesis using L d assms(2) unfolding ids_wf_def by (intro exI [of _ L]) metis
qed

lemma dom_upd_proc [simp]: "dom (kp_procs (upd_proc r f s)) = dom (kp_procs s)"
  by (auto simp: upd_proc_def)

lemma upd_proc_fields [simp]:
  "kp_tids (upd_proc r f s) = kp_tids s" "kp_threads (upd_proc r f s) = kp_threads s" "kp_pool (upd_proc r f s) = kp_pool s"
  "kp_wait (upd_proc r f s) = kp_wait s" "kp_next (upd_proc r f s) = kp_next s"
  by (simp_all add: upd_proc_def)

lemma status_to_fields [simp]:
  "kp_tids (thread_status_to r st s) = kp_tids s" "kp_procs (thread_status_to r st s) = kp_procs s"
  "kp_pool (thread_status_to r st s) = kp_pool s" "kp_wait (thread_status_to r st s) = kp_wait s"
  "kp_next (thread_status_to r st s) = kp_next s"
  by (simp_all add: thread_status_to_def)

lemma in_wait_upd_proc [simp]: "in_wait (upd_proc r f s) = in_wait s"
  by (simp add: in_wait_def fun_eq_iff)

lemma kpwf_status:
  assumes "kpwf s" "status_of s r = Some old" "old \<noteq> Zombie" "kp_wait s r = None" "st \<noteq> Zombie"
  shows "kpwf (thread_status_to r st s)" (is "kpwf ?s")
proof -
  have st: "status_of ?s = (status_of s)(r \<mapsto> st)" using assms(2) by simp
  have w: "in_wait ?s = in_wait s" using assms(4) st by (auto simp: in_wait_def fun_eq_iff)
  have "ids_wf ?s" by (rule ids_wf_cong [OF kpwfD(1) [OF assms(1)]]) simp_all
  moreover have "pool_wf ?s" using kpwfD(2) [OF assms(1)] assms(2,3,5) st unfolding pool_wf_def status_dom by auto
  moreover have "proc_wf ?s q pr" if "kp_procs ?s q = Some pr" for q pr
    using kpwfD(3) [OF assms(1), of q pr] that w st assms(2,3) by (auto simp: proc_wf_def)
  ultimately show ?thesis by (simp add: kpwf_def)
qed

text \<open>Leaving, up to the message to the parent.\<close>

lemma kpwf_leave:
  assumes "kpwf s" "runs s cur" "kp_wait s cur = None"
  shows "kpwf ((thread_status_to cur Zombie s)\<lparr>kp_pool := filter (\<lambda>u. u \<noteq> cur) (kp_pool s)\<rparr>)" (is "kpwf ?s")
proof -
  have r: "status_of s cur = Some Ready" using assms(2) by (simp add: runs_def)
  have pool: "status_of (u\<lparr>kp_pool := pl\<rparr>) = status_of u" "in_wait (u\<lparr>kp_pool := pl\<rparr>) = in_wait u" for u pl
    by (simp_all add: status_of_def in_wait_def fun_eq_iff)
  have st: "status_of ?s = (status_of s)(cur \<mapsto> Zombie)" using r by (simp add: pool)
  have w: "in_wait ?s = in_wait s" using assms(3) st by (auto simp: in_wait_def fun_eq_iff)
  have "ids_wf ?s" by (rule ids_wf_cong [OF kpwfD(1) [OF assms(1)]]) simp_all
  moreover have "pool_wf ?s" using kpwfD(2) [OF assms(1)] r st unfolding pool_wf_def status_dom by auto
  moreover have "proc_wf ?s q pr" if "kp_procs ?s q = Some pr" for q pr
    using kpwfD(3) [OF assms(1), of q pr] that w st r by (auto simp: proc_wf_def)
  ultimately show ?thesis by (simp add: kpwf_def)
qed

text \<open>The message.\<close>

lemma kpwf_notify:
  assumes "kpwf s" "status_of s cur = Some Zombie" "kp_procs s p = Some pp" "cur < kp_next s"
    and "cur \<notin> (fst \<circ> snd) ` set (pr_exited pp)"
  shows "kpwf (notify_parent cur pr status p s)" (is "kpwf ?s")
    and "in_wait s p pid \<Longrightarrow> status_of (notify_parent cur pr status p s) p = Some Ready"
proof -
  let ?e = "\<lambda>pp. pp\<lparr>pr_cutime := pr_cutime pp + pr_utime pr, pr_cstime := pr_cstime pp + pr_stime pr,
      pr_exited := pr_exited pp @ [(pr_pid pr, cur, status AND 0xFF)]\<rparr>"
  let ?u = "upd_proc p ?e s"
  have u: "kp_procs ?u p = Some (?e pp)" using assms(3) by (simp add: upd_proc_def)
  have P: "proc_wf s p pp" using kpwfD(3) [OF assms(1,3)] .
  note D = kpwfD [OF assms(1)]
  have ids: "ids_wf ?s"
    by (rule ids_wf_cong [OF D(1)])
      (auto simp: notify_parent_def wake_parent_def upd_proc_def thread_status_to_def option.map_comp comp_def split: option.splits)
  have "kpwf ?s \<and> (in_wait s p pid \<longrightarrow> status_of ?s p = Some Ready)"
  proof (cases "\<exists>pid. in_wait s p pid")
    case False
    then have wk: "pr_wake pp = []" using P by (simp add: proc_wf_def)
    then have s: "?s = ?u" using u by (simp add: notify_parent_def wake_parent_def)
    have "pool_wf ?u" using D(2) unfolding pool_wf_def by simp
    moreover have "proc_wf ?u q qq" if "kp_procs ?u q = Some qq" for q qq
    proof (cases "q = p")
      case True
      then have "qq = ?e pp" using that u by simp
      then show ?thesis using True P False assms(2,4,5) wk by (auto simp: proc_wf_def)
    next
      case False
      then have "kp_procs s q = Some qq" using that by (simp add: upd_proc_def)
      then show ?thesis using D(3) [of q qq] by (simp add: proc_wf_def)
    qed
    ultimately show ?thesis using ids s False by (auto simp: kpwf_def)
  next
    case True
    then obtain pid' where iw: "in_wait s p pid'" by blast
    then have stp: "status_of s p = Some Waiting" by (simp add: in_wait_def)
    have wk: "pr_wake pp = [p]" using P iw by (auto simp: proc_wf_def)
    let ?v = "upd_proc p (\<lambda>pp. pp\<lparr>pr_wake := butlast (pr_wake pp)\<rparr>) ?u"
    have s: "?s = thread_status_to p Ready ?v" using u wk by (simp add: notify_parent_def wake_parent_def)
    have st: "status_of ?s = (status_of s)(p \<mapsto> Ready)" using stp unfolding s by simp
    have w: "in_wait ?s q d \<longleftrightarrow> q \<noteq> p \<and> in_wait s q d" for q d using st unfolding in_wait_def s by auto
    have pw: "pool_wf ?s" using D(2) stp st unfolding pool_wf_def status_dom by (auto simp: s)
    have "proc_wf ?s q qq" if "kp_procs ?s q = Some qq" for q qq
    proof (cases "q = p")
      case True
      then have "qq = (?e pp)\<lparr>pr_wake := []\<rparr>" using that assms(3) wk unfolding s by (simp add: upd_proc_def)
      then show ?thesis using True P assms(2,4,5) w st stp by (auto simp: proc_wf_def s)
    next
      case False
      then have "kp_procs s q = Some qq" using that unfolding s by (simp add: upd_proc_def)
      then show ?thesis using D(3) [of q qq] False w st stp by (auto simp: proc_wf_def s)
    qed
    then show ?thesis using ids pw st by (simp add: kpwf_def)
  qed
  then show "kpwf ?s" "in_wait s p pid \<Longrightarrow> status_of ?s p = Some Ready" by auto
qed


text \<open>\<open>sys_exit\<close> of a thread that runs: what its parent sees.\<close>

lemma remove_thread_ok: "distinct pool \<Longrightarrow> t \<in> set pool \<Longrightarrow> remove_thread t pool = Inr (filter (\<lambda>u. u \<noteq> t) pool)"
proof -
  assume "distinct pool" "t \<in> set pool"
  then have "length (filter (\<lambda>u. u = t) pool) = 1" by (induction pool) (auto simp: filter_empty_conv)
  then show ?thesis by (simp add: remove_thread_def)
qed

definition left :: "nat \<Rightarrow> u32 \<Rightarrow> kproc \<Rightarrow> kproc" where
  "left cur status s = (let s1 = (thread_status_to cur Zombie s)\<lparr>kp_pool := filter (\<lambda>u. u \<noteq> cur) (kp_pool s)\<rparr> in
     case kp_procs s cur of None \<Rightarrow> s1 | Some pr \<Rightarrow>
     case pr_parent pr of None \<Rightarrow> s1 | Some p \<Rightarrow> if kp_procs s p = None then s1 else notify_parent cur pr status p s1)"

lemma exit_run:
  assumes "kpwf s" "runs s cur"
  shows "sys_exit bd utop cur status now (s, a) = (case remove_area bd utop a of
      (Inl e, a') \<Rightarrow> (Inl e, ((thread_status_to cur Zombie s)\<lparr>kp_pool := filter (\<lambda>u. u \<noteq> cur) (kp_pool s)\<rparr>, a'))
    | (Inr _, a') \<Rightarrow> (case switch_away cur now (left cur status s) of (r, s') \<Rightarrow> (r, (s', a'))))"
proof -
  have pool: "remove_thread cur (kp_pool s) = Inr (filter (\<lambda>u. u \<noteq> cur) (kp_pool s))"
    using assms by (intro remove_thread_ok) (auto simp: runs_def kpwf_def pool_wf_def)
  obtain pr where "kp_procs s cur = Some pr" using live_proc [OF assms(1), of cur Ready] assms(2) by (auto simp: runs_def)
  then show ?thesis using pool
    by (cases "remove_area bd utop a")
      (auto simp: sys_exit_def dealloc_user_stack_def left_def Let_def slift_def cur_process_def on_kp_def split: option.splits sum.splits)
qed

lemma kpwf_left:
  assumes "kpwf s" "runs s cur" "kp_wait s cur = None"
  shows "kpwf (left cur status s)"
proof -
  let ?s1 = "(thread_status_to cur Zombie s)\<lparr>kp_pool := filter (\<lambda>u. u \<noteq> cur) (kp_pool s)\<rparr>"
  have r: "status_of s cur = Some Ready" using assms(2) by (simp add: runs_def)
  have k1: "kpwf ?s1" by (rule kpwf_leave [OF assms])
  have st: "status_of ?s1 cur = Some Zombie" using r by (auto simp: status_of_def thread_status_to_def set_status_def split: option.splits)
  have cur: "cur < kp_next ?s1" using live_proc [OF assms(1) r] by auto
  have "kpwf (notify_parent cur pr status p ?s1)" if "kp_procs s p = Some pp" for pr p pp
  proof -
    have "cur \<notin> (fst \<circ> snd) ` set (pr_exited pp)" using kpwfD(3) [OF assms(1) that] r by (auto simp: proc_wf_def)
    then show ?thesis using kpwf_notify(1) [OF k1 st _ cur, of p pp] that by simp
  qed
  then show ?thesis using k1 by (auto simp: left_def Let_def split: option.splits)
qed

lemma kpwf_exit:
  assumes "kpwf s" "runs s cur" "kp_wait s cur = None" "sys_exit bd utop cur status now (s, a) = (res, (s', a'))"
  shows "kpwf s'"
  using assms(4) same_core_charge [of add_stime cur now "left cur status s"] same_core_kpwf kpwf_left [OF assms(1-3)]
    kpwf_leave [OF assms(1-3)]
  unfolding exit_run [OF assms(1,2)] switch_away_def by (auto split: prod.splits sum.splits)

text \<open>\<open>wait4\<close>.\<close>

lemma take_exited_subset:
  assumes "take_exited pid es = (r, es')"
  shows "set es' \<subseteq> set es" "distinct (map f es) \<Longrightarrow> distinct (map f es')" "r = None \<Longrightarrow> es' = es"
proof -
  show "set es' \<subseteq> set es" using assms by (auto simp: take_exited_def Let_def split: if_splits dest: in_set_butlastD)
  show "distinct (map f es')" if "distinct (map f es)"
    using assms that by (auto simp: take_exited_def Let_def map_butlast distinct_butlast distinct_map_filter split: if_splits)
  show "es' = es" if "r = None" using assms that
    by (auto simp: take_exited_def Let_def filter_id_conv filter_empty_conv split: if_splits)
qed

lemma kpwf_wait:
  assumes "kpwf s" "runs s cur" "wait4_round cur pid now s = (Inr res, s')"
  shows "kpwf s'"
proof -
  have r: "status_of s cur = Some Ready" using assms(2) by (simp add: runs_def)
  obtain pr where pr: "kp_procs s cur = Some pr" by (rule live_proc [OF assms(1) r])
  note P = kpwfD(3) [OF assms(1) pr] and D = kpwfD [OF assms(1)]
  obtain found es where t: "take_exited pid (pr_exited pr) = (found, es)" by fastforce
  have wk: "pr_wake pr = []" using P r by (auto simp: proc_wf_def in_wait_def)
  show ?thesis
  proof (cases found)
    case (Some e)
    obtain cpid child st where e: "e = (cpid, child, st)" by (cases e)
    let ?f = "\<lambda>p. p\<lparr>pr_exited := es, pr_child := filter (\<lambda>c. c \<noteq> child) (pr_child p)\<rparr>"
    have s': "s' = (upd_proc cur ?f s)\<lparr>kp_wait := (kp_wait s)(cur := None)\<rparr>"
      using assms(3) pr t Some e by (simp add: wait4_round_def sret_apply)
    have st: "status_of s' = status_of s" by (simp add: s' status_of_def fun_eq_iff)
    have w: "in_wait s' = in_wait s" using r st by (auto simp: in_wait_def s' fun_eq_iff)
    have "ids_wf s'" by (rule ids_wf_cong [OF D(1)]) (auto simp: s' upd_proc_def option.map_comp comp_def)
    moreover have "pool_wf s'" using D(2) st unfolding pool_wf_def status_dom by (simp add: s')
    moreover have "proc_wf s' q qq" if "kp_procs s' q = Some qq" for q qq
    proof (cases "q = cur")
      case True
      then have "qq = ?f pr" using that pr by (simp add: s' upd_proc_def)
      moreover have "\<not> in_wait s cur d" for d using r by (simp add: in_wait_def)
      ultimately show ?thesis using True P w st wk take_exited_subset [OF t] by (auto simp: proc_wf_def s')
    next
      case False
      then have "kp_procs s q = Some qq" using that by (simp add: s' upd_proc_def)
      then show ?thesis using D(3) [of q qq] w st by (simp add: proc_wf_def s')
    qed
    ultimately show ?thesis by (simp add: kpwf_def)
  next
    case None
    have es: "es = pr_exited pr" using take_exited_subset(3) [OF t None] .
    let ?v = "(thread_status_to cur Waiting (upd_proc cur (\<lambda>p. p\<lparr>pr_wake := pr_wake p @ [cur]\<rparr>)
      (upd_proc cur (\<lambda>p. p\<lparr>pr_exited := es\<rparr>) s)))\<lparr>kp_wait := (kp_wait s)(cur \<mapsto> pid)\<rparr>"
    have "\<exists>res. switch_away cur now ?v = (res, s')"
      using assms(3) pr t None by (cases "switch_away cur now ?v") (auto simp: wait4_round_def sbind_def cur_process_def sret_apply slift_apply kget_def kupd_def split: sum.splits)
    then have sc: "same_core ?v s'" using same_core_charge [of add_stime] by (auto simp: switch_away_def)
    have st: "status_of ?v = (status_of s)(cur \<mapsto> Waiting)" using r
      by (auto simp: status_of_def fun_eq_iff thread_status_to_def set_status_def split: option.splits)
    have w: "in_wait ?v q d \<longleftrightarrow> (if q = cur then d = pid else in_wait s q d)" for q d using st by (auto simp: in_wait_def)
    have "ids_wf ?v" by (rule ids_wf_cong [OF D(1)]) (auto simp: upd_proc_def option.map_comp comp_def)
    moreover have "pool_wf ?v" using D(2) st r unfolding pool_wf_def status_dom by auto
    moreover have "proc_wf ?v q qq" if "kp_procs ?v q = Some qq" for q qq
    proof (cases "q = cur")
      case True
      then have "qq = pr\<lparr>pr_exited := es, pr_wake := [cur]\<rparr>" using that pr wk by (simp add: upd_proc_def)
      then show ?thesis using True P w st r es t None by (auto simp: proc_wf_def)
    next
      case False
      then have "kp_procs s q = Some qq" using that by (simp add: upd_proc_def)
      then show ?thesis using D(3) [of q qq] w st r False by (auto simp: proc_wf_def)
    qed
    ultimately have "kpwf ?v" by (simp add: kpwf_def)
    then show ?thesis using same_core_kpwf [OF sc] by blast
  qed
qed


lemma map_remove1_inj: "inj_on f (set xs) \<Longrightarrow> x \<in> set xs \<Longrightarrow> map f (remove1 x xs) = remove1 (f x) (map f xs)"
  by (induction xs) (auto simp: inj_on_def)

lemma kpwf_drop:
  assumes "kpwf s" "status_of s r = Some Zombie" "drop_thread r s = (Inr (), s')"
  shows "kpwf s'"
proof -
  obtain pr where pr: "kp_procs s r = Some pr" by (rule live_proc [OF assms(1,2)])
  note D = kpwfD [OF assms(1)]
  obtain L where L: "distinct L" "set L = dom (kp_procs s)" "tid_inv (kp_tids s) (map (pid_of s) L)" using D(1) by (auto simp: ids_wf_def)
  have "r \<in> set L" using L(2) pr by auto
  have pid: "pid_of s r = pr_pid pr" using pr by (simp add: pid_of_def)
  then have "pr_pid pr \<in> set (map (pid_of s) L)" using \<open>r \<in> set L\<close> by force
  from tid_inv_dealloc [OF L(3) this] obtain ts where ts: "tid_dealloc (pr_pid pr) (kp_tids s) = (Inr (), ts)"
    "tid_inv ts (remove1 (pr_pid pr) (map (pid_of s) L))" by blast
  have s': "s' = s\<lparr>kp_threads := (kp_threads s)(r := None), kp_procs := (kp_procs s)(r := None), kp_tids := ts\<rparr>"
    using assms(3) pr ts(1) by (simp add: drop_thread_def on_tids_def)
  have st: "status_of s' = (status_of s)(r := None)" by (simp add: s' status_of_def fun_eq_iff)
  have w: "in_wait s' = in_wait s" using assms(2) st by (auto simp: in_wait_def s' fun_eq_iff)
  have r0: "r \<noteq> 0" using D(2) assms(2) unfolding pool_wf_def status_dom by auto
  have "inj_on (pid_of s) (set L)" using L(1,3) by (auto simp: tid_inv_def distinct_map)
  then have "remove1 (pr_pid pr) (map (pid_of s) L) = map (pid_of s) (remove1 r L)"
    using map_remove1_inj [of "pid_of s" L r] \<open>r \<in> set L\<close> pid by simp
  moreover have "map (pid_of s') (remove1 r L) = map (pid_of s) (remove1 r L)" using L(1) by (auto simp: pid_of_def s')
  moreover have "kp_tids s' = ts" "dom (kp_procs s') = dom (kp_procs s) - {r}" by (auto simp: s')
  ultimately have "ids_wf s'" using ts(2) L(1,2) unfolding ids_wf_def
    by (intro exI [of _ "remove1 r L"]) (metis distinct_remove1 set_remove1_eq)
  moreover have "pool_wf s'" using D(2) st assms(2) r0 unfolding pool_wf_def status_dom by (auto simp: s')
  moreover have "proc_wf s' q qq" if "kp_procs s' q = Some qq" for q qq
  proof -
    have "q \<noteq> r" "kp_procs s q = Some qq" using that by (auto simp: s' split: if_splits)
    then show ?thesis using D(3) [of q qq] w st by (auto simp: proc_wf_def s')
  qed
  ultimately show ?thesis by (simp add: kpwf_def)
qed


section \<open>All reachable states\<close>

lemma kpwf_step:
  assumes "kp_step s s'" "kpwf s"
  shows "kpwf s'"
  using assms
proof (cases rule: kp_step.cases)
  case (new r)
  then show ?thesis using kpwf_new_thread assms(2) by blast
next
  case (clone r flags tid mapped now c)
  then show ?thesis using kpwf_clone assms(2) by blast
next
  case (exit r bd utop status now a a')
  then show ?thesis using kpwf_exit assms(2) by blast
next
  case (wait r pid now res)
  then show ?thesis using kpwf_wait assms(2) by blast
next
  case (sleep r)
  then show ?thesis using kpwf_status [OF assms(2), of r Ready Waiting] by (simp add: runs_def)
next
  case (wake r)
  then show ?thesis using kpwf_status [OF assms(2), of r Waiting Ready] by simp
next
  case (drop r)
  then show ?thesis using kpwf_drop assms(2) by blast
next
  case (charge add r now)
  then show ?thesis using same_core_charge same_core_kpwf assms(2) by blast
next
  case (resume r now)
  then show ?thesis using same_core_kpwf [OF same_core_thread assms(2)] by simp
next
  case (address r p res)
  then have "s' = upd_thread r (\<lambda>t. t\<lparr>th_clear_child_tid := p\<rparr>) s"
    by (auto simp: sys_set_tid_address_def sys_getpid_def sret_apply split: option.splits)
  then show ?thesis using same_core_kpwf [OF same_core_thread assms(2)] by simp
next
  case (schedule t)
  then show ?thesis using same_core_rotate same_core_kpwf assms(2) by blast
qed

lemma kpwf_init: "kpwf kp_init"
proof -
  have "tid_inv (kp_tids kp_init) (map (pid_of kp_init) [0])"
    by (auto simp: kp_init_def tid_inv_def pid_of_def new_process_def word_less_nat_alt unat_eq_0)
  then have "ids_wf kp_init" unfolding ids_wf_def by (intro exI [of _ "[0]"]) (auto simp: kp_init_def)
  then show ?thesis by (auto simp: kpwf_def pool_wf_def proc_wf_def status_of_def in_wait_def kp_init_def new_process_def split: if_splits)
qed

lemma kp_reach_wf: "kp_reach s \<Longrightarrow> kpwf s"
  by (induction rule: kp_reach.induct) (auto intro: kpwf_init kpwf_step)

lemma notify_exited:
  assumes "kp_procs s p = Some pp"
  shows "\<exists>q. kp_procs (notify_parent cur pr status p s) p = Some q \<and> pr_exited q = pr_exited pp @ [(pr_pid pr, cur, status AND 0xFF)]"
  using assms by (auto simp: notify_parent_def wake_parent_def upd_proc_def thread_status_to_def)

text \<open>The calling thread is marked and off the queue, and its stack cannot be removed: nobody else notices.\<close>

lemma left_early:
  assumes "p \<noteq> c" "in_wait s p pid"
  shows "in_wait ((thread_status_to c Zombie s)\<lparr>kp_pool := pl\<rparr>) p pid"
  using assms by (auto simp: in_wait_def status_of_def thread_status_to_def set_status_def split: option.splits)

lemma left_wakes_parent:
  assumes "kpwf s" "runs s c" "kp_wait s c = None" "kp_procs s c = Some pr" "pr_parent pr = Some p" "p \<noteq> c" "in_wait s p pid"
    and "pid = - 1 \<or> pid = sint (pr_pid pr)" "kp_threads s c = Some t" "th_cycles t \<le> now"
  shows "\<exists>s1. switch_away c now (left c status s) = (Inr (), s1) \<and> runs s1 p \<and>
    (\<exists>s2. wait4_round p pid now' s1 = (Inr (Some (sint (pr_pid pr), status AND 0xFF)), s2))"
proof -
  note K = assms(1)
  have st: "status_of s c = Some Ready" using assms(2) by (simp add: runs_def)
  have stp: "status_of s p = Some Waiting" using assms(7) by (simp add: in_wait_def)
  obtain pp where pp: "kp_procs s p = Some pp" by (rule live_proc [OF K stp])
  let ?s1 = "(thread_status_to c Zombie s)\<lparr>kp_pool := filter (\<lambda>u. u \<noteq> c) (kp_pool s)\<rparr>"
  let ?l = "notify_parent c pr status p ?s1"
  have l: "left c status s = ?l" using assms(4,5) pp by (simp add: left_def Let_def)
  have none: "fst (take_exited pid (pr_exited pp)) = None" using kpwfD(3) [OF K pp] assms(7) by (simp add: proc_wf_def)
  have wk: "pr_wake pp = [p]" using kpwfD(3) [OF K pp] assms(7) by (auto simp: proc_wf_def)
  have tc: "kp_threads ?l c = Some (t\<lparr>th_status := Zombie\<rparr>)"
    using assms(6,9) pp wk
    by (auto simp: notify_parent_def wake_parent_def upd_proc_def thread_status_to_def set_status_def split: option.splits)
  obtain q where q: "kp_procs ?l p = Some q" "pr_exited q = pr_exited pp @ [(pr_pid pr, c, status AND 0xFF)]"
    using notify_exited [of ?s1 p pp c pr status] pp by auto
  let ?s2 = "upd_thread c (\<lambda>t. t\<lparr>th_cycles := now\<rparr>) (upd_proc c (add_stime (now - th_cycles t)) ?l)"
  have cs: "csub now (th_cycles t) = Inr (now - th_cycles t)" using assms(10) by (simp add: csub_Inr)
  have ex: "switch_away c now ?l = (Inr (), ?s2)" using tc cs by (simp add: switch_away_def charge_def)
  note w1 = left_early [OF assms(6,7), of "filter (\<lambda>u. u \<noteq> c) (kp_pool s)"]
  have "status_of ?s1 c = Some Zombie" using st by (auto simp: status_of_def thread_status_to_def set_status_def split: option.splits)
  moreover have "c < kp_next ?s1" using live_proc [OF K st] by auto
  moreover have "c \<notin> (fst \<circ> snd) ` set (pr_exited pp)" using kpwfD(3) [OF K pp] st by (auto simp: proc_wf_def)
  ultimately have "status_of ?l p = Some Ready" using w1 kpwf_notify(2) [OF kpwf_leave [OF K assms(2,3)]] pp by simp
  then have sp: "status_of ?s2 p = Some Ready" by simp
  have "kpwf ?s2"
    using same_core_kpwf [OF same_core_charge [of add_stime c now ?l]] ex kpwf_left [OF K assms(2,3), of status] l by (simp add: switch_away_def)
  then have ru: "runs ?s2 p" using sp by (auto simp: runs_def dest!: kpwfD(2) simp: pool_wf_def)
  have q2: "kp_procs ?s2 p = Some q" using q(1) assms(6) by (simp add: upd_thread_def upd_proc_def)
  have "\<exists>es. take_exited pid (pr_exited q) = (Some (pr_pid pr, c, status AND 0xFF), es)"
    using assms(8) unfolding q(2) by (auto simp: take_exited_def wait_match_def Let_def)
  then have "\<exists>s3. wait4_round p pid now' ?s2 = (Inr (Some (sint (pr_pid pr), status AND 0xFF)), s3)"
    using q2 assms(8) by (auto simp: wait4_round_def sret_apply)
  then show ?thesis using ex ru l by auto
qed

text \<open>C14: a child that leaves is noticed, if its stack can be given back.  When a thread sleeps in \<open>wait4\<close> for any child, or
  for this one, and the child calls \<open>exit\<close>: if \<open>remove_area\<close> of the address of the top of its stack returns, the call
  succeeds, the sleeping parent is ready again, and its next round returns the id of the child and the low byte of its
  status; if \<open>remove_area\<close> panics (the program has unmapped its stack, \<open>exit_after_munmap_panics\<close>), so does the call,
  and the parent still sleeps.\<close>

theorem exit_wakes_waiting_parent:
  assumes "kp_reach s" "runs s c" "kp_wait s c = None" "kp_procs s c = Some pr" "pr_parent pr = Some p" "p \<noteq> c" "in_wait s p pid"
    and "pid = - 1 \<or> pid = sint (pr_pid pr)" "kp_threads s c = Some t" "th_cycles t \<le> now"
  shows "case remove_area bd utop a of
      (Inr _, a') \<Rightarrow> \<exists>s1. sys_exit bd utop c status now (s, a) = (Inr (), (s1, a')) \<and> runs s1 p \<and>
        (\<exists>s2. wait4_round p pid now' s1 = (Inr (Some (sint (pr_pid pr), status AND 0xFF)), s2))
    | (Inl e, a') \<Rightarrow> \<exists>s1. sys_exit bd utop c status now (s, a) = (Inl e, (s1, a')) \<and> in_wait s1 p pid"
proof -
  note K = kp_reach_wf [OF assms(1)]
  note L = left_wakes_parent [OF K assms(2-10), of status now'] and E = left_early [OF assms(6,7)]
  show ?thesis unfolding exit_run [OF K assms(2)] using L E by (auto split: prod.splits sum.splits)
qed

definition kw1 :: kproc where
  "kw1 = \<lparr>kp_tids = \<lparr>ta_current = 2, ta_recycled = []\<rparr>, kp_threads = [1 \<mapsto> fresh_thread 0 0],
     kp_procs = [0 \<mapsto> new_process 0 None, 1 \<mapsto> new_process 1 (Some 0)], kp_pool = [1], kp_wait = (\<lambda>_. None), kp_next = 2\<rparr>"

definition kw2 :: kproc where
  "kw2 = \<lparr>kp_tids = \<lparr>ta_current = 3, ta_recycled = []\<rparr>, kp_threads = [1 \<mapsto> (fresh_thread 0 0)\<lparr>th_cycles := 100\<rparr>, 2 \<mapsto> fresh_thread 0 0],
     kp_procs = [0 \<mapsto> new_process 0 None, 1 \<mapsto> (new_process 1 (Some 0))\<lparr>pr_child := [2], pr_stime := 100\<rparr>, 2 \<mapsto> new_process 2 (Some 1)],
     kp_pool = [1, 2], kp_wait = (\<lambda>_. None), kp_next = 3\<rparr>"

definition kw3 :: kproc where
  "kw3 = kw2\<lparr>kp_threads := [1 \<mapsto> (fresh_thread 0 0)\<lparr>th_cycles := 200, th_status := Waiting\<rparr>, 2 \<mapsto> fresh_thread 0 0],
     kp_procs := [0 \<mapsto> new_process 0 None, 1 \<mapsto> (new_process 1 (Some 0))\<lparr>pr_child := [2], pr_stime := 200, pr_wake := [1]\<rparr>,
       2 \<mapsto> new_process 2 (Some 1)], kp_wait := [1 \<mapsto> - 1]\<rparr>"

lemmas kw_eval = kw1_def kw2_def kw3_def kp_init_def tid_alloc_def cadd_def csub_def sret_apply fresh_thread_def new_process_def
  upd_proc_def upd_thread_def thread_status_to_def set_status_def switch_away_def charge_def add_stime_def sbind_assoc Let_def

lemma kw1_run: "new_thread kp_init = (Inr 1, kw1)"
  by (simp add: new_thread_run with_new_def kw_eval fun_eq_iff)

lemma kw2_run: "sys_clone 1 0 0 False 100 kw1 = (Inr 2, kw2)"
proof -
  have "thread_fork 1 0 0 False kw1 = (Inr 2, kw2\<lparr>kp_pool := [1], kp_threads := [1 \<mapsto> fresh_thread 0 0, 2 \<mapsto> fresh_thread 0 0],
      kp_procs := [0 \<mapsto> new_process 0 None, 1 \<mapsto> (new_process 1 (Some 0))\<lparr>pr_child := [2]\<rparr>, 2 \<mapsto> new_process 2 (Some 1)]\<rparr>)"
    by (simp add: thread_fork_def flags_contain_def CLONE_THREAD_def CLONE_CHILD_SETTID_def CLONE_CHILD_CLEARTID_def kw_eval fun_eq_iff)
  note B = sbind_Inr [where m = "thread_fork 1 0 0 False", OF this]
  show ?thesis unfolding sys_clone_def B by (simp add: add_thread_def kw_eval fun_eq_iff)
qed

lemma kw3_run: "wait4_round 1 (- 1) 200 kw2 = (Inr None, kw3)"
  by (simp add: wait4_round_def take_exited_def kw_eval fun_eq_iff)


lemma kw3_reach: "kp_reach kw3"
proof -
  have "kp_step kp_init kw1" by (rule kp_step.new [OF kw1_run])
  moreover have "kp_step kw1 kw2" by (rule kp_step.clone [OF _ _ kw2_run]) (simp_all add: runs_def status_of_def kw_eval)
  moreover have "kp_step kw2 kw3" by (rule kp_step.wait [OF _ _ kw3_run]) (simp_all add: runs_def status_of_def kw_eval)
  ultimately show ?thesis by (meson kp_reach.intros)
qed

text \<open>An address space that has nothing but a stack of two pages below 0x12000.\<close>

lemma demo_stack:
  "\<exists>a a'. remove_area K210 0x12000 a = (Inr (), a')"
proof -
  from demo_memory [of K210] obtain s p where s: "pt_wf K210 {..<256} s p"
    "\<forall>w. vpn_path w ! 0 < 256 \<longrightarrow> pt_lookup K210 s p w = None" "card (free_frames s) = 15" by blast
  let ?self = "\<lparr>as_pt = \<lparr>pt_root = p, pt_frames = []\<rparr>, as_areas = [], as_data_end = 1, as_data_max = 1\<rparr>"
  let ?r = "\<lparr>rg_start = 0x10000, rg_end = 0x12000\<rparr>" and ?perm = "PTE_READABLE OR PTE_WRITABLE OR PTE_USER"
  have vs: "range_list 0x10 0x12 = [0x10, 0x11]" by (simp add: range_list_def upt_rec)
  have vr: "vpn_range ?r = Inr (0x10, 0x12)"
    by (simp add: vpn_range_def addr_ceil_def addr_floor_def cadd_def csub_def config_simps)
  have D: "\<forall>v \<in> set [0x10, 0x11 :: vpn]. vpn_path v ! 0 \<in> {..<256}" by (simp add: vpn_path_eq)
  then have un: "unmapped K210 {..<256} s (pt_root (as_pt ?self)) ?r [0x10, 0x11]"
    unfolding unmapped_def using s(2) vs vr by auto
  obtain x s' self' where run: "insert_framed_area K210 ?r ?perm None (s, ?self) = (x, (s', self'))" by (metis prod.exhaust)
  have "pt_wf K210 {..<256} s (pt_root (as_pt ?self))" using s(1) by simp
  from insert_framed_area_cases [OF this un, of None ?perm, unfolded run prod.case] s(3) obtain ps where
    ps: "maps_fresh K210 {..<256} False ?perm [0x10, 0x11] ps (s, as_pt ?self) (s', as_pt self')"
    "self' = \<lparr>as_pt = as_pt self', as_areas = [(?r, \<lparr>ma_frames = zip [0x10, 0x11] ps, ma_type = Framed, ma_perm = ?perm\<rparr>)],
       as_data_end = 1, as_data_max = 1\<rparr>" by (cases x) auto
  from new_area_removable [OF ps vr _ vs [symmetric] D, of "0x12000"] show ?thesis by auto
qed

theorem exit_wakes_waiting_parent_witness:
  "\<exists>a a' s1. sys_exit K210 0x12000 2 7 300 (kw3, a) = (Inr (), (s1, a')) \<and> runs s1 1 \<and>
    (\<exists>s2. wait4_round 1 (- 1) 400 s1 = (Inr (Some (2, 7)), s2))"
proof -
  obtain a a' where a: "remove_area K210 0x12000 a = (Inr (), a')" using demo_stack by blast
  have "runs kw3 2" "kp_wait kw3 2 = None" "in_wait kw3 1 (- 1)" "kp_procs kw3 2 = Some (new_process 2 (Some 1))"
    "kp_threads kw3 2 = Some (fresh_thread 0 0)"
    by (simp_all add: runs_def in_wait_def status_of_def kw_eval)
  then have "\<exists>s1. sys_exit K210 0x12000 2 7 300 (kw3, a) = (Inr (), (s1, a')) \<and> runs s1 1 \<and>
      (\<exists>s2. wait4_round 1 (- 1) 400 s1 = (Inr (Some (2, 7)), s2))"
    using exit_wakes_waiting_parent [OF kw3_reach, of 2 "new_process 2 (Some 1)" 1 "- 1" "fresh_thread 0 0" 300 K210 "0x12000" 7 a 400] a
    by (simp add: new_process_def fresh_thread_def)
  then show ?thesis by blast
qed

section \<open>The order of threads\<close>

text \<open>The scheduler asks every thread in turn: the thread at position \<open>i\<close> of the queue is asked in round \<open>i\<close>, and runs if it is
  ready.\<close>

fun schedule_rounds :: "nat \<Rightarrow> kproc \<Rightarrow> kproc" where
  "schedule_rounds 0 s = s"
| "schedule_rounds (Suc n) s = schedule_rounds n (snd (schedule_round s))"

lemma schedule_rounds_pool: "i \<le> length (kp_pool s) \<Longrightarrow>
  kp_pool (schedule_rounds i s) = drop i (kp_pool s) @ take i (kp_pool s) \<and> kp_threads (schedule_rounds i s) = kp_threads s"
proof (induction i arbitrary: s)
  case (Suc i)
  obtain t ts where p: "kp_pool s = t # ts" using Suc.prems by (cases "kp_pool s") auto
  have r: "kp_pool (snd (schedule_round s)) = ts @ [t]" "kp_threads (snd (schedule_round s)) = kp_threads s"
    using p by (simp_all add: schedule_round_def)
  then show ?case using Suc.IH [of "snd (schedule_round s)"] Suc.prems p by simp
qed simp

lemma scheduler_fair:
  assumes "kp_reach s" "runs s r"
  shows "\<exists>i < length (kp_pool s). fst (schedule_round (schedule_rounds i s)) = Some r"
proof -
  obtain i where i: "i < length (kp_pool s)" "kp_pool s ! i = r" using assms(2) by (auto simp: runs_def in_set_conv_nth)
  note P = schedule_rounds_pool [of i s]
  have "kp_pool (schedule_rounds i s) = r # drop (Suc i) (kp_pool s) @ take i (kp_pool s)" using P i by (simp add: Cons_nth_drop_Suc [symmetric])
  moreover obtain t where "kp_threads s r = Some t" "th_status t = Ready" using assms(2) by (auto simp: runs_def status_of_def)
  ultimately have "fst (schedule_round (schedule_rounds i s)) = Some r" using P i by (simp add: schedule_round_def)
  then show ?thesis using i by blast
qed

section \<open>Where processes go wrong\<close>

text \<open>A process without children sleeps in \<open>wait4\<close> until one turns up, which never happens.\<close>

lemma wait4_without_children_sleeps:
  assumes "kp_procs s r = Some pr" "pr_exited pr = []" "kp_threads s r = Some t" "th_cycles t \<le> now"
  shows "\<exists>s'. wait4_round r (- 1) now s = (Inr None, s') \<and> status_of s' r = Some Waiting"
proof -
  have "csub now (th_cycles t) = Inr (now - th_cycles t)" using assms(4) by (simp add: csub_Inr)
  then show ?thesis using assms(1-3)
    by (simp add: wait4_round_def take_exited_def sbind_assoc switch_away_def charge_def upd_proc_def thread_status_to_def set_status_def
        upd_thread_def status_of_def sret_apply)
qed

text \<open>A program that unmaps the area with its stack and then leaves takes the kernel down: there is no area to remove.  Its
  parent is not told.\<close>

lemma exit_after_munmap_panics:
  assumes "kpwf s" "runs s c" "as_areas (snd a) = [(r, area)]" "rg_start r \<le> addr" "addr \<le> rg_end r"
    and "sys_munmap bd addr a = (Inr n, a')"
  shows "\<exists>s1. sys_exit bd utop c status now (s, a') = (Inl (Panic UnwrapNone), (s1, a')) \<and>
    (\<forall>p pid. p \<noteq> c \<longrightarrow> in_wait s p pid \<longrightarrow> in_wait s1 p pid)"
proof -
  obtain m sp where a: "a = (m, sp)" by (cases a)
  have "va_range_cmp (va_key addr) r = Equal" using assms(4,5) by (simp add: va_range_cmp_def va_range_eq_def va_key_def)
  then have "as_areas (snd a') = []"
    using assms(3,6) a by (auto simp: sys_munmap_def remove_area_def sbind_def slift_def sfail_def on_mm_def sret_def
        split: sum.splits prod.splits if_splits)
  then have "remove_area bd utop a' = (Inl (Panic UnwrapNone), a')" by (cases a') (simp add: remove_area_def)
  then show ?thesis using left_early unfolding exit_run [OF assms(1,2)] by fastforce
qed

text \<open>Thread ids are reused while exited children wait to be collected: waiting for an id returns the last child that had
  it and forgets the others.\<close>

lemma wait4_forgets_reused_pid: "take_exited 5 [(5, a, 1), (5, b, 2)] = (Some (5, b, 2), [])"
  by (simp add: take_exited_def wait_match_def Let_def)

text \<open>A thread that was cloned starts with the cycle count 0: its first system call charges it for the time since boot.\<close>

lemma cloned_thread_charged_since_boot:
  assumes "kp_threads s r = Some (fresh_thread a b)" "kp_procs s r = Some pr"
  shows "\<exists>s'. syscall_enter r now s = (Inr (), s') \<and> map_option pr_utime (kp_procs s' r) = Some (pr_utime pr + now)"
  using assms by (simp add: syscall_enter_def charge_def csub_def fresh_thread_def upd_proc_def upd_thread_def add_utime_def)

end
