(* ===== verification/Kernel_User_Stack.thy ===== *)
theory Kernel_User_Stack
  imports Prelude
begin

text \<open>
  The first stack of a user program (\<open>alloc_user_stack\<close> of \<open>kernel/src/process/process.rs\<close>) and the registers it starts
  with (\<open>kernel/arch/riscv/trap_context.rs\<close>).

  Addresses are natural numbers and a subtraction below zero panics. Memory maps kernel addresses to bytes; the code
  writes at a user address plus \<open>off\<close>, the distance to the kernel address of the top page. The size of the stack, its
  place (\<open>alloc_user_area\<close>, \<open>insert_framed_area\<close> of \<open>Address_Space\<close>) and the translation of its top are arguments, and so
  are the fields of the ELF header that \<open>xmas_elf\<close> parses.

  The start-up code of a C library finds the argument strings, the environment and the auxiliary vector where the
  registers and the stack say.
\<close>

section \<open>Registers\<close>

datatype spp = User | Supervisor

record trap_frame =
  tf_x :: "nat list"
  tf_spp :: spp
  tf_spie :: bool
  tf_sepc :: nat

definition tf_default :: trap_frame where
  "tf_default = \<lparr>tf_x = replicate 32 0, tf_spp = User, tf_spie = False, tf_sepc = 0\<rparr>"

definition tf_sp :: "trap_frame \<Rightarrow> nat" where
  "tf_sp f = tf_x f ! 2"

definition tf_set_sp :: "nat \<Rightarrow> trap_frame \<Rightarrow> trap_frame" where
  "tf_set_sp v f = f\<lparr>tf_x := (tf_x f)[2 := v]\<rparr>"

definition tf_ra :: "trap_frame \<Rightarrow> nat" where
  "tf_ra f = tf_x f ! 1"

definition tf_set_ra :: "nat \<Rightarrow> trap_frame \<Rightarrow> trap_frame" where
  "tf_set_ra v f = f\<lparr>tf_x := (tf_x f)[1 := v]\<rparr>"

definition tf_set_return_value :: "nat \<Rightarrow> trap_frame \<Rightarrow> trap_frame" where
  "tf_set_return_value v f = f\<lparr>tf_x := (tf_x f)[10 := v]\<rparr>"

definition tf_set_entry_point :: "nat \<Rightarrow> trap_frame \<Rightarrow> trap_frame" where
  "tf_set_entry_point v f = f\<lparr>tf_sepc := v\<rparr>"

definition tf_set_arguments :: "nat list \<Rightarrow> trap_frame \<Rightarrow> trap_frame res" where
  "tf_set_arguments args f =
     rbind (rguard (length args \<le> 8) (Panic Assertion)) (\<lambda>_.
     Inr (f\<lparr>tf_x := take 10 (tf_x f) @ args @ drop (10 + length args) (tf_x f)\<rparr>))"

definition tf_init :: "nat \<Rightarrow> nat \<Rightarrow> nat list option \<Rightarrow> bool \<Rightarrow> trap_frame \<Rightarrow> trap_frame res" where
  "tf_init stack_top entry_point arguments is_user f =
     rbind (tf_set_arguments (case arguments of Some args \<Rightarrow> args | None \<Rightarrow> replicate 4 0) (tf_set_sp stack_top f)) (\<lambda>f.
     Inr (f\<lparr>tf_sepc := entry_point, tf_spp := (if is_user then User else Supervisor), tf_spie := True\<rparr>))"

section \<open>Memory\<close>

type_synonym mem = "nat \<Rightarrow> u8"

definition write_bytes :: "nat \<Rightarrow> u8 list \<Rightarrow> mem \<Rightarrow> mem" where
  "write_bytes a xs m j = (if a \<le> j \<and> j < a + length xs then xs ! (j - a) else m j)"

definition usize_bytes :: "nat \<Rightarrow> u8 list" where
  "usize_bytes v = map (\<lambda>i. of_nat (v div 256 ^ i)) [0..<8]"

section \<open>The stack\<close>

text \<open>The keys of the auxiliary vector that are used.\<close>

definition AT_NULL :: nat where "AT_NULL = 0"
definition AT_PHDR :: nat where "AT_PHDR = 3"
definition AT_PHENT :: nat where "AT_PHENT = 4"
definition AT_PHNUM :: nat where "AT_PHNUM = 5"
definition AT_PAGESZ :: nat where "AT_PAGESZ = 6"
definition AT_BASE :: nat where "AT_BASE = 7"
definition AT_ENTRY :: nat where "AT_ENTRY = 9"

record elf_program =
  ep_load :: bool
  ep_offset :: nat
  ep_vaddr :: nat

record elf_header =
  eh_ph_offset :: nat
  eh_ph_entry_size :: nat
  eh_ph_count :: nat
  eh_entry :: nat
  eh_programs :: "elf_program list"

text \<open>The strings, each below the one before.\<close>

fun push_strings :: "nat \<Rightarrow> u8 list list \<Rightarrow> nat \<Rightarrow> mem \<Rightarrow> (nat \<times> nat list \<times> mem) res" where
  "push_strings off [] sp m = Inr (sp, [], m)"
| "push_strings off (s # ss) sp m =
     rbind (rguard (length s + 1 \<le> sp) (Panic Overflow)) (\<lambda>_.
     let sp = sp - (length s + 1) in
     rbind (push_strings off ss sp (write_bytes (sp + off) (s @ [0]) m)) (\<lambda>(sp', ps, m).
     Inr (sp', sp # ps, m)))"

text \<open>The address of the program headers in memory: the first loaded segment that starts at or before them.\<close>

fun ph_head_addr :: "elf_program list \<Rightarrow> nat \<Rightarrow> nat res" where
  "ph_head_addr [] a = Inr a"
| "ph_head_addr (p # ps) a =
     (if ep_load p \<and> ep_offset p \<le> a then
        rbind (rguard (ep_offset p \<le> ep_vaddr p) (Panic Overflow)) (\<lambda>_. Inr (a + (ep_vaddr p - ep_offset p)))
      else ph_head_addr ps a)"

definition auxv :: "elf_header \<Rightarrow> (nat \<times> nat) list res" where
  "auxv elf =
     rbind (ph_head_addr (eh_programs elf) (eh_ph_offset elf)) (\<lambda>a.
     Inr [(AT_PHDR, a), (AT_PHENT, eh_ph_entry_size elf), (AT_PHNUM, eh_ph_count elf), (AT_PAGESZ, 4096),
          (AT_BASE, 0), (AT_ENTRY, eh_entry elf), (AT_NULL, 0)])"

fun write_usizes :: "nat \<Rightarrow> nat list \<Rightarrow> mem \<Rightarrow> mem" where
  "write_usizes a [] m = m"
| "write_usizes a (v # vs) m = write_usizes (a + 8) vs (write_bytes a (usize_bytes v) m)"

text \<open>Room for an array of words below the stack pointer, and the array.\<close>

definition push_usizes :: "nat \<Rightarrow> nat list \<Rightarrow> nat \<Rightarrow> mem \<Rightarrow> (nat \<times> mem) res" where
  "push_usizes off vs sp m =
     rbind (rguard (8 * length vs \<le> sp) (Panic Overflow)) (\<lambda>_.
     let sp = sp - 8 * length vs in Inr (sp, write_usizes (sp + off) vs m))"

record user_stack =
  us_mem :: mem
  us_sp :: nat
  us_argv :: nat
  us_envp :: nat
  us_auxv :: nat
  us_frame :: trap_frame

definition alloc_user_stack :: "u8 list list \<Rightarrow> u8 list list \<Rightarrow> elf_header \<Rightarrow> nat \<Rightarrow> nat \<Rightarrow> trap_frame \<Rightarrow> mem \<Rightarrow> user_stack res" where
  "alloc_user_stack arguments environments elf user_stack_top off cx m =
     rbind (rguard (8 \<le> user_stack_top) (Panic Overflow)) (\<lambda>_.
     rbind (push_strings off environments (user_stack_top - 8) m) (\<lambda>(sp, envp, m).
     rbind (push_strings off arguments sp m) (\<lambda>(sp, argv, m).
     rbind (auxv elf) (\<lambda>aux.
     let sp = sp - sp mod 16 in
     rbind (push_usizes off (concat (map (\<lambda>(k, v). [k, v]) aux)) sp m) (\<lambda>(auxv_base, m).
     rbind (push_usizes off (envp @ [0]) auxv_base m) (\<lambda>(envp_base, m).
     rbind (push_usizes off (argv @ [0]) envp_base m) (\<lambda>(argv_base, m).
     rbind (push_usizes off [length arguments] argv_base m) (\<lambda>(sp, m).
     rbind (tf_init sp (eh_entry elf) (Some [length arguments, argv_base, envp_base, auxv_base]) True cx) (\<lambda>cx.
     Inr \<lparr>us_mem = m, us_sp = sp, us_argv = argv_base, us_envp = envp_base, us_auxv = auxv_base, us_frame = cx\<rparr>)))))))))"

section \<open>What the program reads\<close>

text \<open>A C program reads words, zero-terminated strings and arrays of pointers that end with a null pointer.\<close>

definition read_usize :: "nat \<Rightarrow> mem \<Rightarrow> nat" where
  "read_usize a m = (\<Sum>i<8. unat (m (a + i)) * 256 ^ i)"

fun read_cstr :: "nat \<Rightarrow> nat \<Rightarrow> mem \<Rightarrow> u8 list option" where
  "read_cstr 0 a m = None"
| "read_cstr (Suc fuel) a m = (if m a = 0 then Some [] else map_option (\<lambda>cs. m a # cs) (read_cstr fuel (a + 1) m))"

fun read_ptrs :: "nat \<Rightarrow> nat \<Rightarrow> mem \<Rightarrow> nat list option" where
  "read_ptrs 0 a m = None"
| "read_ptrs (Suc fuel) a m =
     (let p = read_usize a m in if p = 0 then Some [] else map_option (\<lambda>ps. p # ps) (read_ptrs fuel (a + 8) m))"

fun read_auxv :: "nat \<Rightarrow> nat \<Rightarrow> mem \<Rightarrow> (nat \<times> nat) list option" where
  "read_auxv 0 a m = None"
| "read_auxv (Suc fuel) a m =
     (let k = read_usize a m; v = read_usize (a + 8) m
      in if k = AT_NULL then Some [] else map_option (\<lambda>kvs. (k, v) # kvs) (read_auxv fuel (a + 16) m))"

section \<open>Writing and reading\<close>

definition holds :: "mem \<Rightarrow> nat \<Rightarrow> u8 list \<Rightarrow> bool" where
  "holds m a xs \<longleftrightarrow> (\<forall>i < length xs. m (a + i) = xs ! i)"

lemma holds_write: "holds (write_bytes a xs m) a xs"
  by (simp add: holds_def write_bytes_def)

lemma holds_write_below: "b + length ys \<le> a \<Longrightarrow> holds (write_bytes b ys m) a xs = holds m a xs"
  by (simp add: holds_def write_bytes_def)

lemma holds_append: "holds m a (xs @ ys) \<longleftrightarrow> holds m a xs \<and> holds m (a + length xs) ys"
  unfolding holds_def
  by (auto simp: nth_append add.assoc) (metis add_less_cancel_left le_add_diff_inverse not_le)

lemma holds_Cons: "holds m a (x # xs) \<longleftrightarrow> m a = x \<and> holds m (Suc a) xs"
  unfolding holds_def by (auto simp: less_Suc_eq_0_disj)

lemma holds_Nil [simp]: "holds m a []"
  by (simp add: holds_def)

text \<open>\<open>below\<close>: only memory in an interval has changed.\<close>

definition changed_in :: "nat \<Rightarrow> nat \<Rightarrow> mem \<Rightarrow> mem \<Rightarrow> bool" where
  "changed_in a b m m' \<longleftrightarrow> (\<forall>j. j < a \<or> b \<le> j \<longrightarrow> m' j = m j)"

lemma changed_in_holds: "changed_in a b m m' \<Longrightarrow> b \<le> c \<Longrightarrow> holds m' c xs = holds m c xs"
  by (simp add: changed_in_def holds_def)

lemma changed_in_trans: "changed_in b c m m' \<Longrightarrow> changed_in a b m' m'' \<Longrightarrow> a \<le> b \<Longrightarrow> b \<le> c \<Longrightarrow> changed_in a c m m''"
  by (auto simp: changed_in_def)

lemma changed_in_up: "changed_in a b m m' \<Longrightarrow> changed_in b c m' m'' \<Longrightarrow> a \<le> b \<Longrightarrow> b \<le> c \<Longrightarrow> changed_in a c m m''"
  by (auto simp: changed_in_def)

lemma changed_in_mono: "changed_in a b m m' \<Longrightarrow> a' \<le> a \<Longrightarrow> b \<le> b' \<Longrightarrow> changed_in a' b' m m'"
  by (auto simp: changed_in_def)

lemma changed_in_write: "a \<le> c \<Longrightarrow> c + length xs \<le> b \<Longrightarrow> changed_in a b m (write_bytes c xs m)"
  by (auto simp: changed_in_def write_bytes_def)

lemma read_cstr_holds: "holds m a (s @ [0]) \<Longrightarrow> 0 \<notin> set s \<Longrightarrow> length s < fuel \<Longrightarrow> read_cstr fuel a m = Some s"
proof (induction s arbitrary: a fuel)
  case (Cons c s)
  obtain f where "fuel = Suc f" using Cons.prems(3) by (cases fuel) auto
  then show ?case using Cons.IH [of "Suc a" f] Cons.prems by (auto simp: holds_Cons)
next
  case Nil
  then show ?case by (cases fuel) (auto simp: holds_Cons)
qed

lemma digits_sum: "(\<Sum>i<n. (v div 256 ^ i mod 256) * 256 ^ i) = v mod 256 ^ n" for v :: nat
proof (induction n)
  case (Suc n)
  have "v mod 256 ^ Suc n = v div 256 ^ n mod 256 * 256 ^ n + v mod 256 ^ n"
    using mod_mult2_eq [of v "256 ^ n" 256] by (simp add: mult.commute)
  then show ?case using Suc by simp
qed simp

lemma read_usize_holds:
  assumes "holds m a (usize_bytes v)" "v < 2 ^ 64"
  shows "read_usize a m = v"
proof -
  have "unat (m (a + i)) = v div 256 ^ i mod 256" if "i < 8" for i
    using assms(1) that by (simp add: holds_def usize_bytes_def unat_of_nat)
  then have "read_usize a m = (\<Sum>i<8. (v div 256 ^ i mod 256) * 256 ^ i)" unfolding read_usize_def by (intro sum.cong) auto
  then have "read_usize a m = v mod 256 ^ 8" by (simp only: digits_sum)
  then show ?thesis using assms(2) by simp
qed


lemma length_usize_bytes [simp]: "length (usize_bytes v) = 8"
  by (simp add: usize_bytes_def)

lemma write_usizes_ok:
  "changed_in a (a + 8 * length vs) m (write_usizes a vs m)" "holds (write_usizes a vs m) a (concat (map usize_bytes vs))"
proof (induction vs arbitrary: a m)
  case (Cons v vs)
  {
    case 1
    have "changed_in a (a + 8) m (write_bytes a (usize_bytes v) m)" by (intro changed_in_write) auto
    from changed_in_up [OF this Cons(1)] show ?case by (simp add: ac_simps)
  next
    case 2
    have "holds (write_usizes (a + 8) vs (write_bytes a (usize_bytes v) m)) a (usize_bytes v)"
      using Cons(1) [of "a + 8" "write_bytes a (usize_bytes v) m"] holds_write [of a "usize_bytes v" m]
      by (simp add: changed_in_def holds_def)
    then show ?case using Cons(2) [of "a + 8"] by (simp add: holds_append)
  }
qed (auto simp: changed_in_def)

lemma read_ptrs_holds:
  assumes "holds m a (concat (map usize_bytes (ps @ [0])))" "\<forall>p \<in> set ps. p \<noteq> 0 \<and> p < 2 ^ 64" "length ps < fuel"
  shows "read_ptrs fuel a m = Some ps"
  using assms
proof (induction ps arbitrary: a fuel)
  case (Cons p ps)
  obtain f where "fuel = Suc f" using Cons.prems(3) by (cases fuel) auto
  then show ?case using Cons.IH [of "a + 8" f] Cons.prems read_usize_holds [of m a p] by (simp add: holds_append)
next
  case Nil
  then show ?case using read_usize_holds [of m a 0] by (cases fuel) (auto simp: holds_append)
qed

lemma read_auxv_holds:
  assumes "holds m a (concat (map usize_bytes (concat (map (\<lambda>(k, v). [k, v]) (kvs @ [(AT_NULL, 0)])))))"
    and "\<forall>(k, v) \<in> set kvs. k \<noteq> AT_NULL \<and> k < 2 ^ 64 \<and> v < 2 ^ 64" "length kvs < fuel"
  shows "read_auxv fuel a m = Some kvs"
  using assms
proof (induction kvs arbitrary: a fuel)
  case (Cons kv kvs)
  obtain f k v where fk: "fuel = Suc f" "kv = (k, v)" using Cons.prems(3) by (cases fuel; cases kv) auto
  have "read_usize a m = k" "read_usize (a + 8) m = v"
    using Cons.prems(1,2) fk(2) by (auto simp: holds_append intro: read_usize_holds)
  moreover have "read_auxv f (a + 16) m = Some kvs"
    using Cons.prems fk by (intro Cons.IH) (auto simp: holds_append ac_simps)
  ultimately show ?case using Cons.prems(2) fk by simp
next
  case Nil
  then have "read_usize a m = AT_NULL" by (intro read_usize_holds) (auto simp: holds_append AT_NULL_def)
  then show ?case using Nil by (cases fuel) auto
qed

text \<open>The strings lie between the new and the old stack pointer.\<close>

definition strings_at :: "mem \<Rightarrow> nat \<Rightarrow> nat \<Rightarrow> nat \<Rightarrow> u8 list list \<Rightarrow> nat list \<Rightarrow> bool" where
  "strings_at m off lo hi ss ps \<longleftrightarrow>
     list_all2 (\<lambda>s p. lo \<le> p \<and> p + length s < hi \<and> holds m (p + off) (s @ [0])) ss ps"

lemma strings_at_changed:
  "strings_at m off lo hi ss ps \<Longrightarrow> changed_in a (lo + off) m m' \<Longrightarrow> lo' \<le> lo \<Longrightarrow> hi \<le> hi' \<Longrightarrow> strings_at m' off lo' hi' ss ps"
  unfolding strings_at_def by (erule list_all2_mono) (auto simp: changed_in_holds)

lemma push_strings_ok:
  assumes "push_strings off ss sp m = Inr (sp', ps, m')"
  shows "sp' \<le> sp \<and> changed_in (sp' + off) (sp + off) m m' \<and> strings_at m' off sp' sp ss ps"
  using assms
proof (induction ss arbitrary: sp m ps)
  case (Cons s ss)
  let ?sp = "sp - (length s + 1)" and ?m = "write_bytes (sp - (length s + 1) + off) (s @ [0]) m"
  obtain qs where le: "length s + 1 \<le> sp" and r: "push_strings off ss ?sp ?m = Inr (sp', qs, m')" "ps = ?sp # qs"
    using Cons.prems by (auto simp: Let_def)
  note IH = Cons.IH [OF r(1)]
  have "changed_in (?sp + off) (sp + off) m ?m" using le by (intro changed_in_write) auto
  then have "changed_in (sp' + off) (sp + off) m m'" using IH by (auto intro: changed_in_trans)
  moreover have "holds m' (?sp + off) (s @ [0])"
    using changed_in_holds [of "sp' + off" "?sp + off" ?m m' "?sp + off" "s @ [0]"] IH holds_write by blast
  moreover have "strings_at m' off sp' sp ss qs"
    by (rule strings_at_changed [of m' _ sp' ?sp _ _ 0]) (use IH in \<open>auto simp: changed_in_def\<close>)
  ultimately show ?case using IH le r(2) by (auto simp: strings_at_def)
qed (auto simp: changed_in_def strings_at_def)

lemma push_usizes_ok:
  assumes "push_usizes off vs sp m = Inr (sp', m')"
  shows "sp = sp' + 8 * length vs \<and> changed_in (sp' + off) (sp + off) m m' \<and> holds m' (sp' + off) (concat (map usize_bytes vs))"
proof -
  have "8 * length vs \<le> sp" "sp' = sp - 8 * length vs" "m' = write_usizes (sp' + off) vs m"
    using assms by (auto simp: push_usizes_def Let_def)
  then show ?thesis using write_usizes_ok [of "sp' + off" vs m] by (simp add: add.commute add.left_commute)
qed

definition read_strings :: "nat \<Rightarrow> nat \<Rightarrow> nat \<Rightarrow> nat \<Rightarrow> mem \<Rightarrow> u8 list list option" where
  "read_strings n fuel a off m =
     (case read_ptrs n (a + off) m of None \<Rightarrow> None | Some ps \<Rightarrow> those (map (\<lambda>p. read_cstr fuel (p + off) m) ps))"

lemma those_strings:
  assumes "strings_at m off lo hi ss ps" "\<forall>s \<in> set ss. 0 \<notin> set s \<and> length s < fuel"
  shows "those (map (\<lambda>p. read_cstr fuel (p + off) m) ps) = Some ss"
  using assms unfolding strings_at_def
  by (induction ss ps rule: list_all2_induct) (auto simp: read_cstr_holds)

lemma read_strings_ok:
  assumes "strings_at m off lo hi ss ps" "\<forall>s \<in> set ss. 0 \<notin> set s \<and> length s < fuel"
    and "holds m (a + off) (concat (map usize_bytes (ps @ [0])))" "hi \<le> 2 ^ 64" "0 < lo"
  shows "read_strings (Suc (length ss)) fuel a off m = Some ss"
proof -
  have "length ps = length ss" using assms(1) unfolding strings_at_def by (simp add: list_all2_lengthD)
  moreover have "\<forall>p \<in> set ps. lo \<le> p \<and> p < hi"
    using assms(1) unfolding strings_at_def list_all2_conv_all_nth by (metis add_lessD1 in_set_conv_nth)
  ultimately have "read_ptrs (Suc (length ss)) (a + off) m = Some ps"
    using assms(3-5) by (intro read_ptrs_holds) auto
  then show ?thesis using those_strings [OF assms(1,2)] by (simp add: read_strings_def)
qed


lemma tf_init_ok:
  assumes "tf_init tp entry (Some args) u cx = Inr f" "length (tf_x cx) = 32"
  shows "tf_sp f = tp" "tf_sepc f = entry" "take (length args) (drop 10 (tf_x f)) = args" "tf_spp f = (if u then User else Supervisor)"
  using assms by (auto simp: tf_init_def tf_set_arguments_def tf_set_sp_def tf_sp_def nth_append min_def)

lemma auxv_keys:
  assumes "auxv elf = Inr aux" "eh_ph_entry_size elf < 2 ^ 64" "eh_ph_count elf < 2 ^ 64" "eh_entry elf < 2 ^ 64"
    and "\<forall>a. ph_head_addr (eh_programs elf) (eh_ph_offset elf) = Inr a \<longrightarrow> a < 2 ^ 64"
  shows "aux = butlast aux @ [(AT_NULL, 0)]" "length aux = 7"
    "\<forall>(k, v) \<in> set (butlast aux). k \<noteq> AT_NULL \<and> k < 2 ^ 64 \<and> v < 2 ^ 64"
  using assms by (auto simp: auxv_def AT_NULL_def AT_PHDR_def AT_PHENT_def AT_PHNUM_def AT_PAGESZ_def AT_BASE_def AT_ENTRY_def)

text \<open>The parts of the stack, from the bottom: the number of arguments, the arrays of pointers, the auxiliary vector and
  the strings.\<close>

definition stack_parts :: "u8 list list \<Rightarrow> u8 list list \<Rightarrow> (nat \<times> nat) list \<Rightarrow> nat \<Rightarrow> nat \<Rightarrow> mem \<Rightarrow> user_stack \<Rightarrow> bool" where
  "stack_parts args envs aux tp off m us \<longleftrightarrow> (\<exists>argv envp lo. 0 < lo \<and> us_auxv us + 16 * length aux \<le> lo \<and>
     us_argv us = us_sp us + 8 \<and> us_envp us = us_argv us + 8 * Suc (length args) \<and>
     us_auxv us = us_envp us + 8 * Suc (length envs) \<and> lo \<le> tp - 8 \<and> us_auxv us mod 16 = 0 \<and>
     changed_in (us_sp us + off) (tp - 8 + off) m (us_mem us) \<and>
     strings_at (us_mem us) off lo (tp - 8) args argv \<and> strings_at (us_mem us) off lo (tp - 8) envs envp \<and>
     holds (us_mem us) (us_sp us + off) (usize_bytes (length args)) \<and>
     holds (us_mem us) (us_argv us + off) (concat (map usize_bytes (argv @ [0]))) \<and>
     holds (us_mem us) (us_envp us + off) (concat (map usize_bytes (envp @ [0]))) \<and>
     holds (us_mem us) (us_auxv us + off) (concat (map usize_bytes (concat (map (\<lambda>(k, v). [k, v]) aux)))))"

lemma alloc_user_stack_parts:
  assumes "alloc_user_stack args envs elf tp off cx m = Inr us" "auxv elf = Inr aux" "length aux = 7"
  shows "stack_parts args envs aux tp off m us \<and>
    tf_init (us_sp us) (eh_entry elf) (Some [length args, us_argv us, us_envp us, us_auxv us]) True cx = Inr (us_frame us)"
proof -
  let ?kvs = "concat (map (\<lambda>(k, v). [k, v]) aux)"
  obtain e envp m1 a argv m2 xb m3 eb m4 ab m5 sp m6 where
    r: "push_strings off envs (tp - 8) m = Inr (e, envp, m1)" "push_strings off args e m1 = Inr (a, argv, m2)"
      "push_usizes off ?kvs (a - a mod 16) m2 = Inr (xb, m3)"
      "push_usizes off (envp @ [0]) xb m3 = Inr (eb, m4)" "push_usizes off (argv @ [0]) eb m4 = Inr (ab, m5)"
      "push_usizes off [length args] ab m5 = Inr (sp, m6)"
    and us: "us_mem us = m6" "us_sp us = sp" "us_argv us = ab" "us_envp us = eb" "us_auxv us = xb"
    and fr: "tf_init sp (eh_entry elf) (Some [length args, ab, eb, xb]) True cx = Inr (us_frame us)"
    using assms(1,2) by (auto simp: alloc_user_stack_def Let_def)
  note E = push_strings_ok [OF r(1)] and A = push_strings_ok [OF r(2)]
  have k: "length ?kvs = 14" using assms(3) by (induction aux rule: list.induct) (auto simp: length_concat split_def comp_def sum_list_triv)
  define a' where "a' = a - a mod 16"
  have a': "a' \<le> a" "a' mod 16 = 0" unfolding a'_def by presburger+
  note X = push_usizes_ok [OF r(3) [folded a'_def], unfolded k] and EB = push_usizes_ok [OF r(4)] and AB = push_usizes_ok [OF r(5)]
    and S = push_usizes_ok [OF r(6)]
  have len: "length envp = length envs" "length argv = length args"
    using E A unfolding strings_at_def by (auto simp: list_all2_lengthD)
  have c6: "changed_in (sp + off) (ab + off) m5 m6" using S by blast
  have c5: "changed_in (sp + off) (eb + off) m4 m6" by (rule changed_in_trans [of "ab + off" _ _ m5]) (use AB S in auto)
  have c4: "changed_in (sp + off) (xb + off) m3 m6" by (rule changed_in_trans [of "eb + off" _ _ m4]) (use EB AB S c5 in auto)
  have c3: "changed_in (sp + off) (a + off) m2 m6"
    by (rule changed_in_mono [OF changed_in_trans [of "xb + off" "a' + off" m2 m3 "sp + off" m6]]) (use X EB AB S c4 a' in auto)
  have c2: "changed_in (sp + off) (e + off) m1 m6" by (rule changed_in_trans [of "a + off" _ _ m2]) (use A X EB AB S c3 a' in auto)
  have c1: "changed_in (sp + off) (tp - 8 + off) m m6" by (rule changed_in_trans [of "e + off" _ _ m1]) (use E A X EB AB S c2 a' in auto)
  have ar: "strings_at m6 off a (tp - 8) args argv" using strings_at_changed [of m2 off a e args argv _ m6 a] A E c3 by simp
  have en: "strings_at m6 off a (tp - 8) envs envp"
    using strings_at_changed [of m1 off e "tp - 8" envs envp _ m6 a] A E c2 by simp
  have xa: "a' = xb + 112" using X by simp
  have "xb mod 16 = 0" using xa a'(2) by presburger
  moreover have "holds m6 (ab + off) (concat (map usize_bytes (argv @ [0])))"
    using AB changed_in_holds [OF c6, of "ab + off"] by blast
  moreover have "holds m6 (eb + off) (concat (map usize_bytes (envp @ [0])))"
    using EB changed_in_holds [OF c5, of "eb + off"] by simp
  moreover have "holds m6 (xb + off) (concat (map usize_bytes ?kvs))" using X changed_in_holds [OF c4, of "xb + off"] by simp
  moreover have "0 < a \<and> xb + 16 * 7 \<le> a" using xa a'(1) by linarith
  ultimately have "stack_parts args envs aux tp off m us"
    unfolding stack_parts_def us using E A EB AB S len c1 ar en assms(3) by (intro exI [of _ argv] exI [of _ envp] exI [of _ a]) auto
  then show ?thesis using fr us by simp
qed


text \<open>The set-up succeeds when there is room.\<close>

definition strings_size :: "u8 list list \<Rightarrow> nat" where
  "strings_size ss = sum_list (map (\<lambda>s. length s + 1) ss)"

lemma push_strings_total:
  "strings_size ss \<le> sp \<Longrightarrow> \<exists>ps m'. push_strings off ss sp m = Inr (sp - strings_size ss, ps, m')"
proof (induction ss arbitrary: sp m)
  case (Cons s ss)
  let ?sp = "sp - (length s + 1)"
  have "strings_size ss \<le> ?sp" using Cons.prems by (simp add: strings_size_def)
  from Cons.IH [OF this] show ?case using Cons.prems by (fastforce simp: Let_def strings_size_def)
qed (simp add: strings_size_def)

lemma push_usizes_total: "sp = sp' + 8 * length vs \<Longrightarrow> \<exists>m'. push_usizes off vs sp m = Inr (sp', m')"
  by (simp add: push_usizes_def Let_def)

lemma alloc_user_stack_total:
  assumes "strings_size args + strings_size envs + 8 * (length args + length envs) + 160 \<le> tp" "auxv elf = Inr aux" "length aux = 7"
  shows "\<exists>us. alloc_user_stack args envs elf tp off cx m = Inr us \<and>
    us_sp us + strings_size args + strings_size envs + 8 * (length args + length envs) + 144 \<le> tp \<and>
    tp \<le> us_sp us + strings_size args + strings_size envs + 8 * (length args + length envs) + 160"
proof -
  let ?e = "tp - 8 - strings_size envs" and ?kvs = "concat (map (\<lambda>(k, v). [k, v]) aux)"
  let ?a = "?e - strings_size args"
  obtain envp m1 where 1: "push_strings off envs (tp - 8) m = Inr (?e, envp, m1)"
  proof -
    have "strings_size envs \<le> tp - 8" using assms(1) by linarith
    from push_strings_total [OF this] that show thesis by blast
  qed
  obtain argv m2 where 2: "push_strings off args ?e m1 = Inr (?a, argv, m2)"
  proof -
    have "strings_size args \<le> ?e" using assms(1) by linarith
    from push_strings_total [OF this] that show thesis by blast
  qed
  have len: "length envp = length envs" "length argv = length args"
    using push_strings_ok [OF 1] push_strings_ok [OF 2] unfolding strings_at_def by (auto simp: list_all2_lengthD)
  have k: "length ?kvs = 14" using assms(3) by (simp add: length_concat split_def comp_def sum_list_triv)
  define b where "b = ?a - ?a mod 16"
  have "?a mod 16 < 16" by simp
  then have b: "b \<le> ?a" "?a < b + 16" unfolding b_def by linarith+
  have room: "144 + 8 * (length args + length envs) \<le> b + 8" using assms(1) b by linarith
  then obtain c where c: "b = c + 136 + 8 * (length args + length envs)" 
    using that [of "b - (136 + 8 * (length args + length envs))"] by simp
  let ?ab = "c + 8" let ?eb = "?ab + 8 * Suc (length args)" let ?xb = "?eb + 8 * Suc (length envs)"
  obtain m3 where 3: "push_usizes off ?kvs b m2 = Inr (?xb, m3)"
    using push_usizes_total [of b ?xb ?kvs off m2] c k by auto
  obtain m4 where 4: "push_usizes off (envp @ [0]) ?xb m3 = Inr (?eb, m4)"
    using push_usizes_total [of ?xb ?eb "envp @ [0]" off m3] len by auto
  obtain m5 where 5: "push_usizes off (argv @ [0]) ?eb m4 = Inr (?ab, m5)"
    using push_usizes_total [of ?eb ?ab "argv @ [0]" off m4] len by auto
  obtain m6 where 6: "push_usizes off [length args] ?ab m5 = Inr (c, m6)"
    using push_usizes_total [of ?ab c "[length args]" off m5] by auto
  have "c + strings_size args + strings_size envs + 8 * (length args + length envs) + 144 \<le> tp \<and>
      tp \<le> c + strings_size args + strings_size envs + 8 * (length args + length envs) + 160"
    using b c assms(1) by linarith
  then show ?thesis
    using assms(1,2) 1 2 3 4 5 6 unfolding b_def
    by (simp add: alloc_user_stack_def Let_def tf_init_def tf_set_arguments_def)
qed

text \<open>a program that starts finds what it was started with. The argument count, the argument strings, the environment and
  the auxiliary vector are read back from the stack through the registers, the entry point is the one of the ELF
  header, and no memory outside the stack changes.\<close>

lemma user_stack_readable:
  assumes "alloc_user_stack args envs elf tp off cx m = Inr us" "auxv elf = Inr aux" "tp < 2 ^ 64" "length (tf_x cx) = 32"
    and "\<forall>(k, v) \<in> set aux. v < 2 ^ 64" "\<forall>s \<in> set args \<union> set envs. 0 \<notin> set s \<and> length s < fuel"
  shows "(\<exists>argv envp auxp. take 4 (drop 10 (tf_x (us_frame us))) = [length args, argv, envp, auxp] \<and>
      argv = tf_sp (us_frame us) + 8 \<and> read_usize (tf_sp (us_frame us) + off) (us_mem us) = length args \<and>
      read_strings (Suc (length args)) fuel argv off (us_mem us) = Some args \<and>
      read_strings (Suc (length envs)) fuel envp off (us_mem us) = Some envs \<and>
      read_auxv 7 (auxp + off) (us_mem us) = Some (butlast aux)) \<and>
    tf_sepc (us_frame us) = eh_entry elf \<and> tf_spp (us_frame us) = User \<and>
    changed_in (tf_sp (us_frame us) + off) (tp - 8 + off) m (us_mem us)"
proof -
  have aux: "length aux = 7" "aux = butlast aux @ [(AT_NULL, 0)]" "\<forall>(k, v) \<in> set (butlast aux). k \<noteq> AT_NULL \<and> k < 2 ^ 64"
    using assms(2) by (auto simp: auxv_def AT_NULL_def AT_PHDR_def AT_PHENT_def AT_PHNUM_def AT_PAGESZ_def AT_BASE_def AT_ENTRY_def)
  note parts = alloc_user_stack_parts [OF assms(1,2) aux(1)]
  obtain argv envp lo where P: "0 < lo" "us_auxv us + 16 * length aux \<le> lo" "us_argv us = us_sp us + 8" "lo \<le> tp - 8"
      "us_envp us = us_argv us + 8 * Suc (length args)" "us_auxv us = us_envp us + 8 * Suc (length envs)"
      "changed_in (us_sp us + off) (tp - 8 + off) m (us_mem us)" "strings_at (us_mem us) off lo (tp - 8) args argv"
      "strings_at (us_mem us) off lo (tp - 8) envs envp"
      "holds (us_mem us) (us_sp us + off) (usize_bytes (length args))"
      "holds (us_mem us) (us_argv us + off) (concat (map usize_bytes (argv @ [0])))"
      "holds (us_mem us) (us_envp us + off) (concat (map usize_bytes (envp @ [0])))"
      "holds (us_mem us) (us_auxv us + off) (concat (map usize_bytes (concat (map (\<lambda>(k, v). [k, v]) aux))))"
    using parts unfolding stack_parts_def by metis
  note F = tf_init_ok [OF conjunct2 [OF parts] assms(4)]
  have "length args \<le> us_auxv us" "us_auxv us \<le> lo" "lo \<le> tp" using P(2,4,5,6) by simp_all
  then have "length args < 2 ^ 64" using assms(3) by linarith
  then have "read_usize (us_sp us + off) (us_mem us) = length args" by (intro read_usize_holds P(10))
  moreover have pl: "tp - 8 \<le> 2 ^ 64" using assms(3) by linarith
  moreover have "read_strings (Suc (length args)) fuel (us_argv us) off (us_mem us) = Some args"
    by (rule read_strings_ok [OF P(8) _ P(11) _ P(1)]) (use assms(6) pl in auto)
  moreover have "read_strings (Suc (length envs)) fuel (us_envp us) off (us_mem us) = Some envs"
    by (rule read_strings_ok [OF P(9) _ P(12) _ P(1)]) (use assms(6) pl in auto)
  moreover have "read_auxv 7 (us_auxv us + off) (us_mem us) = Some (butlast aux)"
    using P(13) aux assms(5) by (intro read_auxv_holds) (auto dest: in_set_butlastD)
  moreover have "take 4 (drop 10 (tf_x (us_frame us))) = [length args, us_argv us, us_envp us, us_auxv us]"
    using F(3) by (simp add: numeral_eq_Suc)
  ultimately show ?thesis using F(1,2,4) P(3,7) by simp
qed

definition demo_elf :: elf_header where
  "demo_elf = \<lparr>eh_ph_offset = 64, eh_ph_entry_size = 56, eh_ph_count = 1, eh_entry = 65792,
     eh_programs = [\<lparr>ep_load = True, ep_offset = 0, ep_vaddr = 65536\<rparr>]\<rparr>"

section \<open>Limits of the stack set-up\<close>

text \<open>The stack pointer is aligned to 16 bytes, as the calling convention asks, only when the number of strings is odd.\<close>

lemma user_stack_alignment:
  assumes "alloc_user_stack args envs elf tp off cx m = Inr us" "auxv elf = Inr aux" "length aux = 7"
  shows "us_sp us mod 16 = (if even (length args + length envs) then 8 else 0)"
proof -
  have "us_auxv us = us_sp us + 8 * (length args + length envs + 3)" "us_auxv us mod 16 = 0"
    using alloc_user_stack_parts [OF assms] unfolding stack_parts_def by auto
  then obtain q where q: "us_sp us + 8 * (length args + length envs + 3) = 16 * q" by (metis mod_eq_0_iff_dvd dvdE)
  show ?thesis
  proof (cases "even (length args + length envs)")
    case True
    then obtain k where "length args + length envs = 2 * k" by (rule evenE)
    then have e: "us_sp us + 16 * k + 24 = 16 * q" using q by simp
    then have "k + 2 \<le> q" by linarith
    then obtain r where "q = k + 2 + r" using le_Suc_ex by blast
    then have "us_sp us = 8 + 16 * r" using e by simp
    then show ?thesis using True by simp
  next
    case False
    then obtain k where "length args + length envs = 2 * k + 1" by (rule oddE)
    then have e: "us_sp us + 16 * k + 32 = 16 * q" using q by simp
    then have "k + 2 \<le> q" by linarith
    then obtain r where "q = k + 2 + r" using le_Suc_ex by blast
    then have "us_sp us = 16 * r" using e by simp
    then show ?thesis using False by simp
  qed
qed

text \<open>Only the page of the top of the stack is translated: strings of more than a page are written below it, at addresses
  that need not belong to the stack.\<close>

lemma user_stack_leaves_page:
  "\<exists>us. alloc_user_stack [replicate 5000 65] [] elf 65536 off cx m = Inr us \<and> us_sp us < 65536 - 4096"
  if "auxv elf = Inr aux" "length aux = 7"
  using alloc_user_stack_total [OF _ that, of "[replicate 5000 65]" "[]" 65536 off cx m] by (auto simp: strings_size_def)

end
