(* ===== verification/Kernel_Exec.thy ===== *)
theory Kernel_Exec
  imports Address_Space_Map Kernel_User_Stack Kernel_Path
begin

text \<open>
  Starting a program: \<open>ElfFileExt::new\<close> and \<open>Thread::execve\<close> of \<open>kernel/src/process/thread.rs\<close>, \<open>Process::execve\<close> and the part of
  \<open>alloc_user_stack\<close> that places the stack of \<open>kernel/src/process/process.rs\<close>, and \<open>sys_execve\<close> of
  \<open>kernel/src/syscall/process.rs\<close>. This is where the allocator of frames, the address space and the first stack meet: the
  stack is written through the linear map of the kernel and read by the program through its own page table.

  The file system (\<open>open_file\<close>: the content of a file) and the parser \<open>xmas_elf\<close> (\<open>parse\<close>: the header of an image,
  \<open>headers\<close>: its program headers) are parameters. An \<open>unwrap\<close> of an error is a panic. The kernel reads the strings of the
  caller through the table of the caller; a page that is not mapped faults and \<open>handle_pagefault\<close> panics. Reading a string has fuel.
\<close>

unbundle bit_operations_syntax

section \<open>Bytes of the word memory\<close>

text \<open>The memory of the machine as bytes, and back.\<close>

definition byte_view :: "(va \<Rightarrow> usize) \<Rightarrow> mem" where
  "byte_view mem a = load_byte (of_nat a) mem"

definition word_view :: "mem \<Rightarrow> (va \<Rightarrow> usize) \<Rightarrow> (va \<Rightarrow> usize)" where
  "word_view m mem w = (if w AND 7 = 0 then of_nat (read_usize (unat w) m) else mem w)"

section \<open>The image\<close>

record elf_file =
  ef_header :: elf_header
  ef_headers :: "program_header list"
  ef_bytes :: "u8 list"
  ef_frame :: ppn

definition page_bytes :: "ppn \<Rightarrow> (va \<Rightarrow> usize) \<Rightarrow> u8 list" where
  "page_bytes p mem = map (\<lambda>i. load_byte (kpage p + of_nat i) mem) [0..<4096]"

definition ELF_BLK_SIZE :: nat where
  "ELF_BLK_SIZE = 512"

text \<open>\<open>file.read_exact(&mut page[from..to]).unwrap()\<close> at position \<open>from\<close> of the file.\<close>

definition read_page_part :: "ppn \<Rightarrow> nat \<Rightarrow> nat \<Rightarrow> u8 list \<Rightarrow> (mm, unit) st" where
  "read_page_part p from to bytes =
     sbind (slift (rguard (to \<le> 4096) (Panic OutOfBounds))) (\<lambda>_.
     sbind (slift (rguard (to \<le> length bytes) (Panic UnwrapNone))) (\<lambda>_ s.
       (Inr (), s\<lparr>mm_mem := store_bytes (kpage p + of_nat from) (take (to - from) (drop from bytes)) (mm_mem s)\<rparr>)))"

definition elf_file_new ::
  "(string \<Rightarrow> u8 list option) \<Rightarrow> (u8 list \<Rightarrow> elf_header option) \<Rightarrow> (u8 list \<Rightarrow> program_header list) \<Rightarrow> string \<Rightarrow> (mm, elf_file) st" where
  "elf_file_new open_file parse headers name =
     sbind frame_alloc (\<lambda>f. sbind (slift (runwrap f)) (\<lambda>frame.
     sbind (slift (vpn_of_ppn frame)) (\<lambda>_.
     sbind (slift (runwrap (open_file name))) (\<lambda>bytes.
     sbind (read_page_part frame 0 ELF_BLK_SIZE bytes) (\<lambda>_.
     sbind (\<lambda>s. (runwrap (parse (page_bytes frame (mm_mem s))), s)) (\<lambda>hd.
     sbind (slift (rguard (eh_ph_count hd * eh_ph_entry_size hd < 2 ^ 16) (Panic Overflow))) (\<lambda>_.
     let ph_entry_end = eh_ph_offset hd + eh_ph_count hd * eh_ph_entry_size hd in
     sbind (if ph_entry_end > ELF_BLK_SIZE then read_page_part frame ELF_BLK_SIZE ph_entry_end bytes else sret ()) (\<lambda>_ s.
       let phs = headers (page_bytes frame (mm_mem s)) in
       (Inr \<lparr>ef_header = hd\<lparr>eh_programs := map (\<lambda>ph. \<lparr>ep_load = ph_load ph, ep_offset = ph_offset ph, ep_vaddr = unat (ph_vaddr ph)\<rparr>) phs\<rparr>,
             ef_headers = phs, ef_bytes = bytes, ef_frame = frame\<rparr>, s)))))))))"

section \<open>The new address space\<close>

text \<open>Dropping an address space drops the trackers of its tables and of its areas.\<close>

definition address_space_drop :: "address_space \<Rightarrow> (mm, unit) st" where
  "address_space_drop self =
     drop_frames (pt_root (as_pt self) # pt_frames (as_pt self) @ concat (map (\<lambda>(r, a). map snd (ma_frames a)) (as_areas self)))"

text \<open>\<open>Process::execve\<close>: the old address space is dropped when the new one is stored. The result is the value that \<open>activate\<close>
  writes to the register of the page table.\<close>

definition process_execve :: "board \<Rightarrow> ppn \<Rightarrow> elf_file \<Rightarrow> (ass, usize) st" where
  "process_execve bd kroot elf = (\<lambda>(s, self).
     case address_space_from_elf bd kroot (ef_headers elf) (ef_bytes elf) s of
       (Inl e, s1) \<Rightarrow> (Inl e, (s1, self))
     | (Inr new, s1) \<Rightarrow>
         (case address_space_drop self s1 of
            (Inl e, s2) \<Rightarrow> (Inl e, (s2, new))
          | (Inr _, s2) \<Rightarrow> (Inr (satp_value bd (as_pt new)), (s2, new))))"

text \<open>\<open>alloc_user_stack\<close> of a process: place the stack, map it, find the kernel address of its top page, and fill it.\<close>

definition fill_user_stack :: "u8 list list \<Rightarrow> u8 list list \<Rightarrow> elf_header \<Rightarrow> va \<Rightarrow> usize \<Rightarrow> trap_frame \<Rightarrow> (mm, user_stack) st" where
  "fill_user_stack arguments environments elf utop off cx s =
     (case alloc_user_stack arguments environments elf (unat utop) (unat off) cx (byte_view (mm_mem s)) of
        Inl e \<Rightarrow> (Inl e, s)
      | Inr us \<Rightarrow> (Inr us, s\<lparr>mm_mem := word_view (us_mem us) (mm_mem s)\<rparr>))"

definition stack_offset :: "board \<Rightarrow> va \<Rightarrow> (ass, usize) st" where
  "stack_offset bd utop =
     sbind (slift (csub utop 8)) (\<lambda>a.
     sbind (\<lambda>(s, self). case translate_va bd (pt_root (as_pt self)) a s of (r, s') \<Rightarrow> (r, (s', self))) (\<lambda>r.
     sbind (slift (runwrap r)) (\<lambda>p.
     sbind (slift (cadd p 8)) (\<lambda>p8.
     sbind (slift (va_of_pa p8)) (\<lambda>k.
     slift (csub k utop))))))"

definition process_alloc_user_stack ::
  "board \<Rightarrow> u8 list list \<Rightarrow> u8 list list \<Rightarrow> elf_header \<Rightarrow> trap_frame \<Rightarrow> (ass, va \<times> user_stack) st" where
  "process_alloc_user_stack bd arguments environments elf cx =
     sbind (\<lambda>(s, self). (alloc_user_area USER_STACK_SIZE self, (s, self))) (\<lambda>utop.
     sbind (slift (csub utop USER_STACK_SIZE)) (\<lambda>bottom.
     sbind (insert_framed_area bd \<lparr>rg_start = bottom, rg_end = utop\<rparr> (PTE_READABLE OR PTE_WRITABLE OR PTE_USER) None) (\<lambda>_.
     sbind (stack_offset bd utop) (\<lambda>off.
     sbind (on_mm (fill_user_stack arguments environments elf utop off cx)) (\<lambda>us. sret (utop, us))))))"

text \<open>\<open>Thread::execve\<close>; the page of the image is dropped at its end.\<close>

definition thread_execve ::
  "board \<Rightarrow> ppn \<Rightarrow> (string \<Rightarrow> u8 list option) \<Rightarrow> (u8 list \<Rightarrow> elf_header option) \<Rightarrow> (u8 list \<Rightarrow> program_header list) \<Rightarrow>
   string \<Rightarrow> u8 list list \<Rightarrow> u8 list list \<Rightarrow> trap_frame \<Rightarrow> (ass, usize \<times> va \<times> user_stack) st" where
  "thread_execve bd kroot open_file parse headers pathname argv envp cx =
     sbind (on_mm (elf_file_new open_file parse headers pathname)) (\<lambda>elf.
     sbind (process_execve bd kroot elf) (\<lambda>satp.
     sbind (process_alloc_user_stack bd argv envp (ef_header elf) cx) (\<lambda>(utop, us).
     sbind (on_mm (frame_dealloc (ef_frame elf))) (\<lambda>_. sret (satp, utop, us)))))"

section \<open>The system call\<close>

text \<open>What a load at an address of the caller returns.\<close>

definition user_byte :: "board \<Rightarrow> mm \<Rightarrow> ppn \<Rightarrow> nat \<Rightarrow> u8 res" where
  "user_byte bd s root a =
     (case translate_va bd root (of_nat a) s of
        (Inl e, _) \<Rightarrow> Inl e
      | (Inr None, _) \<Rightarrow> Inl (Panic UnwrapNone)
      | (Inr (Some p), _) \<Rightarrow> Inr (load_byte (p + KERNEL_MAP_OFFSET) (mm_mem s)))"

fun user_bytes :: "board \<Rightarrow> mm \<Rightarrow> ppn \<Rightarrow> nat \<Rightarrow> nat \<Rightarrow> u8 list res" where
  "user_bytes bd s root a 0 = Inr []"
| "user_bytes bd s root a (Suc n) =
     rbind (user_byte bd s root a) (\<lambda>c. rbind (user_bytes bd s root (a + 1) n) (\<lambda>cs. Inr (c # cs)))"

definition user_usize :: "board \<Rightarrow> mm \<Rightarrow> ppn \<Rightarrow> nat \<Rightarrow> nat res" where
  "user_usize bd s root a = rbind (user_bytes bd s root a 8) (\<lambda>cs. Inr (\<Sum>i<8. unat (cs ! i) * 256 ^ i))"

fun user_cstr :: "nat \<Rightarrow> board \<Rightarrow> mm \<Rightarrow> ppn \<Rightarrow> nat \<Rightarrow> u8 list res" where
  "user_cstr 0 bd s root a = Inl (Panic NoReturn)"
| "user_cstr (Suc fuel) bd s root a =
     rbind (user_byte bd s root a) (\<lambda>c.
     if c = 0 then Inr [] else rbind (user_cstr fuel bd s root (a + 1)) (\<lambda>cs. Inr (c # cs)))"

fun convert_cstr_array :: "nat \<Rightarrow> nat \<Rightarrow> board \<Rightarrow> mm \<Rightarrow> ppn \<Rightarrow> nat \<Rightarrow> u8 list list res" where
  "convert_cstr_array 0 fuel bd s root a = Inl (Panic NoReturn)"
| "convert_cstr_array (Suc n) fuel bd s root a =
     rbind (user_usize bd s root a) (\<lambda>p.
     if p = 0 then Inr []
     else rbind (user_cstr fuel bd s root p) (\<lambda>cs.
          rbind (convert_cstr_array n fuel bd s root (a + 8)) (\<lambda>css. Inr (cs # css))))"

text \<open>The strings are read before the address space is replaced. The return value 0 of the source is never used: the thread
  leaves through its new context.\<close>

definition sys_execve ::
  "board \<Rightarrow> ppn \<Rightarrow> (string \<Rightarrow> u8 list option) \<Rightarrow> (u8 list \<Rightarrow> elf_header option) \<Rightarrow> (u8 list \<Rightarrow> program_header list) \<Rightarrow>
   string \<Rightarrow> nat \<Rightarrow> trap_frame \<Rightarrow> nat \<Rightarrow> nat \<Rightarrow> nat \<Rightarrow> (ass, usize \<times> va \<times> user_stack) st" where
  "sys_execve bd kroot open_file parse headers cwd fuel cx pathname argv envp = (\<lambda>(s, self).
     let root = pt_root (as_pt self) in
     sbind (slift (user_cstr fuel bd s root pathname)) (\<lambda>name.
     sbind (slift (convert_cstr_array fuel fuel bd s root argv)) (\<lambda>args.
     sbind (slift (convert_cstr_array fuel fuel bd s root envp)) (\<lambda>envs.
     thread_execve bd kroot open_file parse headers (normalize_path cwd (map (\<lambda>c. char_of (unat c)) name)) args envs cx))) (s, self))"

section \<open>Words and bytes\<close>

lemma digit_of_sum:
  fixes d :: "nat \<Rightarrow> nat"
  assumes "\<And>i. d i < 256" "k < n"
  shows "(\<Sum>i<n. d i * 256 ^ i) div 256 ^ k mod 256 = d k"
  using assms
proof (induction k arbitrary: d n)
  case 0
  then obtain m where n: "n = Suc m" by (cases n) auto
  have "(\<Sum>i<n. d i * 256 ^ i) = d 0 + 256 * (\<Sum>i<m. d (Suc i) * 256 ^ i)"
    unfolding n sum.lessThan_Suc_shift by (simp add: sum_distrib_left ac_simps)
  then show ?case using 0(1) by simp
next
  case (Suc k)
  then obtain m where n: "n = Suc m" by (cases n) auto
  have e: "(\<Sum>i<n. d i * 256 ^ i) = d 0 + 256 * (\<Sum>i<m. d (Suc i) * 256 ^ i)"
    unfolding n sum.lessThan_Suc_shift by (simp add: sum_distrib_left ac_simps)
  have "(\<Sum>i<n. d i * 256 ^ i) div 256 ^ Suc k = (\<Sum>i<n. d i * 256 ^ i) div 256 div 256 ^ k"
    by (simp only: power_Suc div_mult2_eq)
  also have "(\<Sum>i<n. d i * 256 ^ i) div 256 = (\<Sum>i<m. d (Suc i) * 256 ^ i)" using e Suc.prems(1) [of 0] by simp
  finally show ?case using Suc.IH [of "\<lambda>i. d (Suc i)" m] Suc.prems n by simp
qed

lemma sum_digits_bound: "(\<And>i. d i < 256) \<Longrightarrow> (\<Sum>i<n. d i * 256 ^ i) < 256 ^ n" for d :: "nat \<Rightarrow> nat"
proof (induction n)
  case (Suc n)
  have "d n * 256 ^ n \<le> 255 * 256 ^ n" using Suc.prems [of n] by (intro mult_right_mono) auto
  moreover have "(256 :: nat) ^ Suc n = 255 * 256 ^ n + 256 ^ n" by simp
  ultimately show ?case using Suc.IH [OF Suc.prems] by (simp only: sum.lessThan_Suc)
qed simp

lemma unat_u8: "unat (c :: u8) < 256"
  using unat_less_2p [of c] by simp

lemma read_usize_digit: "i < 8 \<Longrightarrow> read_usize a m div 256 ^ i mod 256 = unat (m (a + i))"
  unfolding read_usize_def by (rule digit_of_sum) (simp_all add: unat_u8)

lemma read_usize_bound: "read_usize a m < 2 ^ 64"
  using sum_digits_bound [of "\<lambda>i. unat (m (a + i))" 8] unfolding read_usize_def by (simp add: unat_u8)

lemma unat_read_usize: "unat (of_nat (read_usize a m) :: usize) = read_usize a m"
  using read_usize_bound [of a m] by (simp add: unat_of_nat)

lemma align_word:
  fixes a :: usize
  shows "unat (a AND NOT 7) = unat a div 8 * 8" "unat (a AND 7) = unat a mod 8"
proof -
  have m: "(7 :: usize) = mask 3" by (simp add: mask_eq_exp_minus_1)
  show "unat (a AND NOT 7) = unat a div 8 * 8" unfolding m unat_and_not_mask by simp
  show "unat (a AND 7) = unat a mod 8" unfolding m unat_and_mask by simp
qed

lemma unat_byte: "unat (ucast (drop_bit (8 * i) (w :: usize)) :: u8) = unat w div 256 ^ i mod 256"
  by (simp add: unat_ucast unat_drop_bit power_mult)

lemma unat_load_byte: "unat (load_byte a mem) = unat (mem (a AND NOT 7)) div 256 ^ (unat a mod 8) mod 256"
  by (simp only: load_byte_def unat_byte align_word)

lemma load_word_view: "load_byte a (word_view m mem) = m (unat a)"
proof -
  let ?w = "a AND NOT 7"
  have "?w AND 7 = 0" by (simp add: and.assoc)
  then have "unat (word_view m mem ?w) = read_usize (unat a div 8 * 8) m"
    unfolding word_view_def align_word(1) by (simp only: if_True simp_thms unat_read_usize)
  then have "unat (load_byte a (word_view m mem)) = unat (m (unat a div 8 * 8 + unat a mod 8))"
    unfolding unat_load_byte by (simp only:) (simp only: read_usize_digit mod_less_divisor zero_less_numeral)
  then show ?thesis by (simp add: word_unat_eq_iff)
qed

lemma word_view_same:
  assumes "\<And>i. i < 8 \<Longrightarrow> m (unat w + i) = byte_view mem (unat w + i)"
  shows "word_view m mem w = mem w"
proof (cases "w AND 7 = 0")
  case True
  then have u: "unat w mod 8 = 0" using align_word(2) [of w] by simp
  have "unat (m (unat w + i)) = unat (mem w) div 256 ^ i mod 256" if i: "i < 8" for i
  proof -
    have b: "unat w + i < 2 ^ 64"
    proof -
      have "unat w < 2 ^ 64" using unat_less_2p [of w] by simp
      moreover have "(2 ^ 64 :: nat) mod 8 = 0" by simp
      ultimately show ?thesis using u i by presburger
    qed
    then have ub: "unat (of_nat (unat w + i) :: usize) = unat w + i" by (simp only: unat_of_nat) simp
    have "(of_nat (unat w + i) :: usize) AND NOT 7 = w"
      using u i unfolding word_unat_eq_iff align_word ub by presburger
    moreover have "(unat w + i) mod 8 = i" using u i by presburger
    ultimately show ?thesis using assms [OF i] ub by (simp only: byte_view_def unat_load_byte)
  qed
  then have "read_usize (unat w) m = unat (mem w) mod 256 ^ 8" unfolding read_usize_def by (simp add: digits_sum)
  then have "read_usize (unat w) m = unat (mem w)" using unat_less_2p [of "mem w"] by simp
  then show ?thesis using True by (simp add: word_view_def)
qed (simp add: word_view_def)

section \<open>The page of the stack\<close>

lemma translate_mapped:
  assumes "pt_wf bd D s root" "vpn_path (addr_floor a) ! 0 \<in> D" "unat p < 2 ^ 26"
    and "pt_lookup bd s root (addr_floor a) = Some (pte_new p flags)"
  shows "translate_va bd root a s = (Inr (Some (addr_of_page p + page_offset a)), s)"
proof -
  from assms(4) obtain t where t: "pt_walk bd s root (take 2 (vpn_path (addr_floor a))) = Some t"
    "entry s t (vpn_path (addr_floor a) ! 2) = pte_new p flags" by (auto simp: pt_lookup_Some)
  have e: "pte_ppn bd (pte_new p flags) = p" using assms(3) by (simp add: pte_ppn_new)
  have "unat (addr_of_page p) = unat p * 4096"
    using assms(3) by (simp add: addr_of_page_def PAGE_SIZE_BITS_def unat_push_bit)
  then have "unat (addr_of_page p) + unat (page_offset a) < 2 ^ 64" using assms(3) by (simp add: unat_page_offset)
  then have c: "cadd (addr_of_page p) (page_offset a) = Inr (addr_of_page p + page_offset a)" by (simp add: cadd_Inr)
  show ?thesis
    using find_pte_eq [OF assms(1,2)] assms(4) t e c
    by (simp add: translate_va_def sbind_def load_word_def entry_def slift_def sret_def)
qed

text \<open>The kernel address of a byte of a page.\<close>

lemma kernel_byte: "unat p < 2 ^ 26 \<Longrightarrow> unat (addr_of_page p + page_offset a + KERNEL_MAP_OFFSET) = unat (kpage p) + unat a mod 4096"
proof -
  assume p: "unat p < 2 ^ 26"
  have 1: "unat (addr_of_page p) = unat p * 4096" using p by (simp add: addr_of_page_def PAGE_SIZE_BITS_def unat_push_bit)
  then have 2: "unat (addr_of_page p + page_offset a) = unat p * 4096 + unat a mod 4096"
    using p by (simp add: unat_add_noof unat_page_offset)
  have 3: "unat KERNEL_MAP_OFFSET = 0xFFFFFFC000000000" by (simp add: KERNEL_MAP_OFFSET_def)
  have "unat p * 4096 + unat a mod 4096 + 0xFFFFFFC000000000 < 2 ^ 64"
  proof -
    have "unat p * 4096 \<le> (2 ^ 26 - 1) * 4096" using p by (intro mult_right_mono) auto
    moreover have "unat a mod 4096 < 4096" by simp
    ultimately show ?thesis by simp
  qed
  then have "unat (addr_of_page p + page_offset a + KERNEL_MAP_OFFSET) = unat p * 4096 + unat a mod 4096 + 0xFFFFFFC000000000"
    using 2 3 unat_add_noof [of "addr_of_page p + page_offset a" KERNEL_MAP_OFFSET] by simp
  then show ?thesis using unat_kpage [OF p] by simp
qed

text \<open>The memory after the stack has been filled: words outside the page are the same.\<close>

lemma word_view_page:
  assumes "unat p < 2 ^ 26" "changed_in (unat (kpage p)) (unat (kpage p) + 4096) (byte_view mem) m"
    and "unat q < 2 ^ 26" "q \<noteq> p" "i < 512"
  shows "word_view m mem (kword q i) = mem (kword q i)"
proof (rule word_view_same)
  fix k :: nat assume k: "k < 8"
  have "unat (kword q i) = unat (kpage q) + 8 * i" by (rule unat_kword [OF assms(3,5)])
  moreover have "unat (kpage q) + 4096 \<le> unat (kpage p) \<or> unat (kpage p) + 4096 \<le> unat (kpage q)"
    using assms(4) unat_kpage [OF assms(1)] unat_kpage [OF assms(3)] unfolding word_unat_eq_iff by simp arith
  ultimately have "unat (kword q i) + k < unat (kpage p) \<or> unat (kpage p) + 4096 \<le> unat (kword q i) + k"
    using k assms(5) by arith
  then show "m (unat (kword q i) + k) = byte_view mem (unat (kword q i) + k)"
    using assms(2) unfolding changed_in_def by blast
qed

lemma fill_keeps_tables:
  assumes wf: "pt_wf bd D s root" and p: "managed s p" "0 < ref_count s p" "p \<notin> pt_tables bd D s root"
    and m: "changed_in (unat (kpage p)) (unat (kpage p) + 4096) (byte_view (mm_mem s)) m"
    and s': "s' = s\<lparr>mm_mem := word_view m (mm_mem s)\<rparr>"
  shows "pt_wf bd D s' root" "\<And>w. vpn_path w ! 0 \<in> D \<Longrightarrow> pt_lookup bd s' root w = pt_lookup bd s root w"
    "\<And>q i. managed s q \<Longrightarrow> q \<noteq> p \<Longrightarrow> i < 512 \<Longrightarrow> entry s' q i = entry s q i"
proof -
  note pb = managed_bound [OF pt_wf_frame_inv [OF wf]]
  show e: "entry s' q i = entry s q i" if "managed s q" "q \<noteq> p" "i < 512" for q i
    using word_view_page [OF pb [OF p(1)] m pb [OF that(1)] that(2,3)] by (simp add: entry_def s')
  have et: "entry s' t i = entry s t i" if "t \<in> pt_tables bd D s root" "i < 512" for t i
    using e that p(3) pt_wf_held [OF wf] by metis
  have "frame_inv s'"
    unfolding s' by (rule frame_inv_mem [OF pt_wf_frame_inv [OF wf]])
      (use e [of _ 0] p(2) in \<open>simp add: entry_def s'; metis less_irrefl\<close>)
  note F = pt_wf_frame [OF wf this _ et]
  have h: "0 < ref_count s' t" if "t \<in> pt_tables bd D s root" for t using pt_wf_held [OF wf that] by (simp add: s')
  from F [OF _ _ _ h] show "pt_wf bd D s' root" "\<And>w. vpn_path w ! 0 \<in> D \<Longrightarrow> pt_lookup bd s' root w = pt_lookup bd s root w"
    by (simp_all add: s')
qed

section \<open>Reading through the page table\<close>

definition user_holds :: "board \<Rightarrow> mm \<Rightarrow> ppn \<Rightarrow> nat \<Rightarrow> u8 list \<Rightarrow> bool" where
  "user_holds bd s root a xs \<longleftrightarrow> (\<forall>i < length xs. user_byte bd s root (a + i) = Inr (xs ! i))"

lemma user_holds_Nil [simp]: "user_holds bd s root a []"
  by (simp add: user_holds_def)

lemma user_holds_Cons: "user_holds bd s root a (x # xs) \<longleftrightarrow> user_byte bd s root a = Inr x \<and> user_holds bd s root (Suc a) xs"
  unfolding user_holds_def by (auto simp: less_Suc_eq_0_disj)

lemma user_holds_append:
  "user_holds bd s root a (xs @ ys) \<longleftrightarrow> user_holds bd s root a xs \<and> user_holds bd s root (a + length xs) ys"
  by (induction xs arbitrary: a) (auto simp: user_holds_Cons)

lemma user_bytes_ok: "user_holds bd s root a xs \<Longrightarrow> user_bytes bd s root a (length xs) = Inr xs"
  by (induction xs arbitrary: a) (auto simp: user_holds_Cons)

lemma user_usize_ok:
  assumes "user_holds bd s root a (usize_bytes v)" "v < 2 ^ 64"
  shows "user_usize bd s root a = Inr v"
proof -
  have "read_usize 0 (\<lambda>j. usize_bytes v ! j) = v" by (rule read_usize_holds) (use assms(2) in \<open>simp_all add: holds_def\<close>)
  moreover have "user_bytes bd s root a 8 = Inr (usize_bytes v)" using user_bytes_ok [OF assms(1)] by simp
  ultimately show ?thesis by (simp add: user_usize_def read_usize_def)
qed

lemma user_cstr_ok:
  "user_holds bd s root a (cs @ [0]) \<Longrightarrow> 0 \<notin> set cs \<Longrightarrow> length cs < fuel \<Longrightarrow> user_cstr fuel bd s root a = Inr cs"
proof (induction cs arbitrary: a fuel)
  case Nil
  then show ?case by (cases fuel) (auto simp: user_holds_Cons)
next
  case (Cons c cs)
  then obtain f where "fuel = Suc f" by (cases fuel) auto
  then show ?case using Cons.IH [of "Suc a" f] Cons.prems by (auto simp: user_holds_Cons)
qed

lemma convert_cstr_array_ok:
  assumes "list_all2 (\<lambda>cs p. 0 < p \<and> p < 2 ^ 64 \<and> 0 \<notin> set cs \<and> length cs < fuel \<and> user_holds bd s root p (cs @ [0])) css ps"
    and "user_holds bd s root a (concat (map usize_bytes (ps @ [0])))" "length css < n"
  shows "convert_cstr_array n fuel bd s root a = Inr css"
  using assms
proof (induction css ps arbitrary: a n rule: list_all2_induct)
  case Nil
  then have "user_usize bd s root a = Inr 0" by (intro user_usize_ok) simp_all
  then show ?case using Nil.prems by (cases n) auto
next
  case (Cons cs css p ps)
  then obtain k where n: "n = Suc k" by (cases n) auto
  have h: "user_holds bd s root a (usize_bytes p)" "user_holds bd s root (a + 8) (concat (map usize_bytes (ps @ [0])))"
    using Cons.prems(1) by (auto simp: user_holds_append)
  have "user_usize bd s root a = Inr p" using Cons(1) by (intro user_usize_ok h(1)) simp
  moreover have "user_cstr fuel bd s root p = Inr cs" using Cons(1) by (intro user_cstr_ok) auto
  moreover have "convert_cstr_array k fuel bd s root (a + 8) = Inr css" by (rule Cons.IH [OF h(2)]) (use Cons.prems n in auto)
  ultimately show ?case using Cons(1) n by simp
qed

text \<open>The page of the top of the stack shows the memory that was written at the distance \<open>off\<close>.\<close>

definition shows_page :: "board \<Rightarrow> mm \<Rightarrow> ppn \<Rightarrow> nat \<Rightarrow> nat \<Rightarrow> mem \<Rightarrow> bool" where
  "shows_page bd s root tp off m \<longleftrightarrow> (\<forall>a. tp - 4096 \<le> a \<and> a < tp \<longrightarrow> user_byte bd s root a = Inr (m (a + off)))"

lemma shows_page_holds:
  assumes "shows_page bd s root tp off m" "holds m (a + off) xs" "tp - 4096 \<le> a" "a + length xs \<le> tp"
  shows "user_holds bd s root a xs"
  using assms unfolding user_holds_def shows_page_def holds_def by (simp add: ac_simps)

lemma shows_page_array:
  assumes "shows_page bd s root tp off m" "strings_at m off lo hi css ps" "\<forall>cs \<in> set css. 0 \<notin> set cs \<and> length cs < fuel"
    and "holds m (a + off) (concat (map usize_bytes (ps @ [0])))" "tp - 4096 \<le> a" "a + 8 * Suc (length css) \<le> lo" "lo \<le> tp" "hi \<le> tp" "tp \<le> 2 ^ 64"
  shows "convert_cstr_array (Suc (length css)) fuel bd s root a = Inr css"
proof (rule convert_cstr_array_ok)
  show "list_all2 (\<lambda>cs p. 0 < p \<and> p < 2 ^ 64 \<and> 0 \<notin> set cs \<and> length cs < fuel \<and> user_holds bd s root p (cs @ [0])) css ps"
    using assms(2) unfolding strings_at_def
    by (rule list.rel_mono_strong) (use assms(3,5-9) shows_page_holds [OF assms(1)] in auto)
  have "length ps = length css" using assms(2) unfolding strings_at_def by (simp add: list_all2_lengthD)
  then have "a + length (concat (map usize_bytes (ps @ [0]))) \<le> tp"
    using assms(6,7) by (simp add: length_concat comp_def sum_list_triv)
  then show "user_holds bd s root a (concat (map usize_bytes (ps @ [0])))"
    by (rule shows_page_holds [OF assms(1,4,5)])
qed simp

section \<open>Placing the stack\<close>

text \<open>The areas of an address space are in order, none is inverted, and the data segment may grow up to a border of pages.\<close>

definition areas_placed :: "address_space \<Rightarrow> bool" where
  "areas_placed self \<longleftrightarrow> sorted_wrt (\<lambda>a b. rg_start a \<le> rg_start b) (map fst (as_areas self)) \<and>
     (\<forall>r \<in> fst ` set (as_areas self). rg_start r \<le> rg_end r) \<and> 4096 dvd unat (as_data_max self)"

lemma alloc_user_area_loop_aligned:
  "alloc_user_area_loop sz rs e0 = Inr e \<Longrightarrow> 4096 dvd unat e0 \<Longrightarrow> 4096 dvd unat sz \<Longrightarrow> 4096 dvd unat e"
proof (induction rs arbitrary: e0)
  case (Cons r rs)
  from Cons.prems(1) obtain g where g: "cadd e0 PAGE_SIZE = Inr g" by auto
  show ?case
  proof (cases "g \<le> rg_start r")
    case False
    with Cons.prems(1) g obtain e' e1 e2 where e: "round_up (rg_end r) PAGE_SIZE = Inr e'"
      "cadd e' PAGE_SIZE = Inr e1" "cadd e1 sz = Inr e2" "alloc_user_area_loop sz rs (max e0 e2) = Inr e" by auto
    have "4096 dvd unat e2"
      using cadd_unat [OF e(2)] cadd_unat [OF e(3)] round_up_page(2) [OF e(1)] Cons.prems(3) by simp
    then have "4096 dvd unat (max e0 e2)" using Cons.prems(2) by (simp add: max_def)
    with Cons.IH [OF e(4)] Cons.prems(3) show ?thesis by blast
  qed (use Cons.prems g in auto)
qed simp

lemma bt_find_none: "\<forall>k' \<in> fst ` set xs. c k k' \<noteq> Equal \<Longrightarrow> bt_find c k xs = None"
  by (induction xs) (auto split: ordering.splits)

lemma stack_place:
  assumes "alloc_user_area USER_STACK_SIZE self = Inr e" "areas_placed self"
  shows "8192 \<le> unat e" "4096 dvd unat e" "bt_find va_range_cmp \<lparr>rg_start = e - USER_STACK_SIZE, rg_end = e\<rparr> (as_areas self) = None"
proof -
  have sz: "unat USER_STACK_SIZE = 8192" by (simp add: USER_STACK_SIZE_def)
  obtain b e0 where r: "cadd (as_data_max self) PAGE_SIZE = Inr b" "cadd b USER_STACK_SIZE = Inr e0"
    "alloc_user_area_loop USER_STACK_SIZE (map fst (as_areas self)) e0 = Inr e"
    using assms(1) by (auto simp: alloc_user_area_def)
  have e0: "unat e0 = unat (as_data_max self) + 12288" using cadd_unat [OF r(1)] cadd_unat [OF r(2)] sz by simp
  have spec: "unat e0 \<le> unat e \<and> (\<forall>r \<in> set (map fst (as_areas self)).
      unat e + 4096 \<le> unat (rg_start r) \<or> unat (rg_end r) + 4096 + unat USER_STACK_SIZE \<le> unat e)"
    by (rule alloc_user_area_loop_spec [OF r(3)]) (use assms(2) in \<open>simp add: areas_placed_def\<close>)
  show e8: "8192 \<le> unat e" using spec e0 by linarith
  show "4096 dvd unat e"
    by (rule alloc_user_area_loop_aligned [OF r(3)]) (use assms(2) e0 sz in \<open>auto simp: areas_placed_def\<close>)
  have u: "unat (e - USER_STACK_SIZE) = unat e - 8192"
    using e8 sz by (simp add: unat_sub_noof word_le_nat_alt)
  have "va_range_cmp \<lparr>rg_start = e - USER_STACK_SIZE, rg_end = e\<rparr> r \<noteq> Equal" if "r \<in> fst ` set (as_areas self)" for r
  proof -
    have "unat e + 4096 \<le> unat (rg_start r) \<or> unat (rg_end r) + 12288 \<le> unat e" using spec that sz by auto
    moreover have "unat (rg_start r) \<le> unat (rg_end r)" using assms(2) that by (auto simp: areas_placed_def word_le_nat_alt)
    ultimately show ?thesis using u e8 by (auto simp: va_range_cmp_def va_range_eq_def word_le_nat_alt)
  qed
  then show "bt_find va_range_cmp \<lparr>rg_start = e - USER_STACK_SIZE, rg_end = e\<rparr> (as_areas self) = None"
    by (intro bt_find_none) blast
qed

lemma page_border:
  assumes "4096 dvd n" "8192 \<le> n"
  obtains u :: nat where "n = 4096 * u + 4096" "(n - 8) div 4096 = u" "(n - 8) mod 4096 = 4088"
proof -
  obtain t where "n = 4096 * t" using assms(1) by (elim dvdE)
  then obtain u where u: "n = 4096 * u + 4096" using assms(2) by (cases t) auto
  then have "n - 8 = 4096 * u + 4088" by simp
  then have "(n - 8) div 4096 = u" "(n - 8) mod 4096 = 4088" by simp_all
  with u show thesis by (rule that)
qed

lemma stack_offset_ok:
  assumes wf: "pt_wf bd D s (pt_root (as_pt self))" and v: "vpn_path (addr_floor (utop - 8)) ! 0 \<in> D"
    and lk: "pt_lookup bd s (pt_root (as_pt self)) (addr_floor (utop - 8)) = Some (pte_new p flags)"
    and p: "unat p < 2 ^ 26" "kpage p < MEMORY_END" and utop: "4096 dvd unat utop" "8192 \<le> unat utop" "unat utop \<le> 2 ^ 39"
  obtains off where "stack_offset bd utop (s, self) = (Inr off, (s, self))" "unat utop + unat off = unat (kpage p) + 4096"
proof -
  have a: "csub utop 8 = Inr (utop - 8)" "unat (utop - 8) = unat utop - 8"
    using utop(2) by (simp_all add: csub_Inr word_le_nat_alt unat_sub_noof)
  have "unat (page_offset (utop - 8)) = 4088" unfolding unat_page_offset a(2) using page_border [OF utop(1,2)] by metis
  then have po: "page_offset (utop - 8) = 4088" by (simp add: word_unat_eq_iff)
  have up: "unat p < 0x80800"
    using p(2) unat_kpage [OF p(1)] by (simp add: word_less_nat_alt MEMORY_END_def MEMORY_START_def MEMORY_SIZE_def)
  let ?pa = "addr_of_page p + 4088"
  have upa: "unat (addr_of_page p) = unat p * 4096" using p(1) by (simp add: addr_of_page_def PAGE_SIZE_BITS_def unat_push_bit)
  then have u4: "unat ?pa = unat p * 4096 + 4088" using up unat_add_noof [of "addr_of_page p" 4088] by simp
  then have b: "unat ?pa + unat (8 :: usize) < 2 ^ 64" using up by simp
  then have pa: "cadd ?pa 8 = Inr (?pa + 8)" by (simp only: cadd_Inr) simp
  have u8: "unat (?pa + 8) = unat p * 4096 + 4096" using unat_add_noof [of ?pa 8] b u4 by simp
  let ?k = "?pa + 8 + KERNEL_MAP_OFFSET"
  have o: "unat KERNEL_MAP_OFFSET = 0xFFFFFFC000000000" by (simp add: KERNEL_MAP_OFFSET_def)
  have b2: "unat (?pa + 8) + unat KERNEL_MAP_OFFSET < 2 ^ 64" unfolding u8 o using up by simp
  then have k: "va_of_pa (?pa + 8) = Inr ?k" unfolding va_of_pa_def by (simp only: cadd_Inr) simp
  have "unat ?k = unat (?pa + 8) + unat KERNEL_MAP_OFFSET" by (rule unat_add_noof) (use b2 in simp)
  then have uk: "unat ?k = unat (kpage p) + 4096" using u8 o unat_kpage [OF p(1)] by simp
  have le: "utop \<le> ?k" using utop(3) uk unat_kpage [OF p(1)] unfolding word_le_nat_alt by simp
  then have "csub ?k utop = Inr (?k - utop)" "unat (?k - utop) = unat ?k - unat utop"
    by (simp_all add: csub_Inr unat_sub_noof)
  moreover have "stack_offset bd utop (s, self) = (csub ?k utop, (s, self))"
    using translate_mapped [OF wf v p(1) lk] a(1) pa k po
    by (simp add: stack_offset_def sbind_def slift_def)
  ultimately show thesis using le uk by (intro that [of "?k - utop"]) (auto simp: word_le_nat_alt)
qed

definition stack_size :: "u8 list list \<Rightarrow> u8 list list \<Rightarrow> nat" where
  "stack_size args envs = strings_size args + strings_size envs + 8 * (length args + length envs) + 160"

lemma strings_shorter: "cs \<in> set args \<union> set envs \<Longrightarrow> length cs + 160 \<le> stack_size args envs"
proof -
  have "length cs + 1 \<le> strings_size ss" if "cs \<in> set ss" for ss
    unfolding strings_size_def using that by (intro member_le_sum_list) auto
  then show "cs \<in> set args \<union> set envs \<Longrightarrow> length cs + 160 \<le> stack_size args envs"
    unfolding stack_size_def by fastforce
qed

lemma fill_user_stack_ok:
  assumes wf: "pt_wf bd D s root" and p: "managed s p" "0 < ref_count s p" "p \<notin> pt_tables bd D s root"
    and v: "vpn_path (addr_floor (utop - 8)) ! 0 \<in> D" and lk: "pt_lookup bd s root (addr_floor (utop - 8)) = Some (pte_new p flags)"
    and utop: "4096 dvd unat utop" "8192 \<le> unat utop" and off: "unat utop + unat off = unat (kpage p) + 4096"
    and aux: "auxv elf = Inr aux" "length aux = 7" and size: "stack_size args envs \<le> 4096"
  obtains us s' where "fill_user_stack args envs elf utop off cx s = (Inr us, s')"
    "alloc_user_stack args envs elf (unat utop) (unat off) cx (byte_view (mm_mem s)) = Inr us"
    "unat utop \<le> us_sp us + 4096" "pt_wf bd D s' root" "managed s' = managed s" "ref_count s' = ref_count s"
    "\<And>w. vpn_path w ! 0 \<in> D \<Longrightarrow> pt_lookup bd s' root w = pt_lookup bd s root w"
    "\<And>q i. managed s q \<Longrightarrow> q \<noteq> p \<Longrightarrow> i < 512 \<Longrightarrow> entry s' q i = entry s q i"
    "shows_page bd s' root (unat utop) (unat off) (us_mem us)"
proof -
  let ?tp = "unat utop" and ?off = "unat off"
  have pb: "unat p < 2 ^ 26" by (rule managed_bound [OF pt_wf_frame_inv [OF wf] p(1)])
  have room: "strings_size args + strings_size envs + 8 * (length args + length envs) + 160 \<le> ?tp"
    using size utop(2) by (simp add: stack_size_def)
  obtain us where us: "alloc_user_stack args envs elf ?tp ?off cx (byte_view (mm_mem s)) = Inr us" "?tp \<le> us_sp us + 4096"
    using alloc_user_stack_total [OF room aux, of ?off cx "byte_view (mm_mem s)"] size by (auto simp: stack_size_def)
  define s' where "s' = s\<lparr>mm_mem := word_view (us_mem us) (mm_mem s)\<rparr>"
  have run: "fill_user_stack args envs elf utop off cx s = (Inr us, s')" using us(1) by (simp add: fill_user_stack_def s'_def)
  have "changed_in (us_sp us + ?off) (?tp - 8 + ?off) (byte_view (mm_mem s)) (us_mem us)"
    using alloc_user_stack_parts [OF us(1) aux] unfolding stack_parts_def by blast
  then have ch: "changed_in (unat (kpage p)) (unat (kpage p) + 4096) (byte_view (mm_mem s)) (us_mem us)"
    by (rule changed_in_mono) (use us(2) off in linarith)+
  note F = fill_keeps_tables [OF wf p ch s'_def]
  have "user_byte bd s' root a = Inr (us_mem us (a + ?off))" if a: "?tp - 4096 \<le> a" "a < ?tp" for a
  proof -
    have ua: "unat (of_nat a :: usize) = a" using a(2) unat_less_2p [of utop] by (simp add: unat_of_nat)
    have u8: "unat (utop - 8) = ?tp - 8" using utop(2) by (simp add: unat_sub_noof word_le_nat_alt)
    obtain u where t: "?tp = 4096 * u + 4096" "(?tp - 8) div 4096 = u" by (rule page_border [OF utop])
    then obtain r where r: "a = 4096 * u + r" "r < 4096" using a by (intro that [of "a - 4096 * u"]) auto
    have d: "a div 4096 = u" "a mod 4096 = r" using r by simp_all
    have fl: "addr_floor (of_nat a) = addr_floor (utop - 8)"
      unfolding word_unat_eq_iff unat_addr_floor ua u8 d t(2) ..
    have fo: "a mod 4096 + ?tp = a + 4096" unfolding d(2) using r t(1) by linarith
    have tr: "translate_va bd root (of_nat a) s' = (Inr (Some (addr_of_page p + page_offset (of_nat a))), s')"
      by (rule translate_mapped [OF F(1) _ pb]) (use v F(2) [OF v] lk in \<open>simp_all only: fl\<close>)
    have "unat (addr_of_page p + page_offset (of_nat a) + KERNEL_MAP_OFFSET) = a + ?off"
      unfolding kernel_byte [OF pb] ua using fo off by linarith
    then show ?thesis unfolding user_byte_def tr by (simp add: s'_def load_word_view)
  qed
  then have "shows_page bd s' root ?tp ?off (us_mem us)" by (simp add: shows_page_def)
  then show thesis using run us F by (intro that [of us s']) (auto simp: s'_def)
qed

lemma stack_top_page:
  assumes "unmapped bd D s root \<lparr>rg_start = utop - USER_STACK_SIZE, rg_end = utop\<rparr> vs" "4096 dvd unat utop" "8192 \<le> unat utop"
  shows "addr_floor (utop - 8) \<in> set vs" "unat utop \<le> 2 ^ 39" "length vs = 2"
proof -
  obtain st en where r: "vpn_range \<lparr>rg_start = utop - USER_STACK_SIZE, rg_end = utop\<rparr> = Inr (st, en)" "vs = range_list st en"
    "unat en \<le> 2 ^ 27" using assms(1) by (auto simp: unmapped_def)
  then have se: "st = addr_floor (utop - USER_STACK_SIZE)" "addr_ceil utop = Inr en" by (auto simp: vpn_range_def)
  obtain u where u: "unat utop = 4096 * u + 4096" "(unat utop - 8) div 4096 = u" by (rule page_border [OF assms(2,3)])
  have ue: "unat en = u + 1" using addr_ceil_unat [OF se(2)] u(1) by simp
  have sub: "unat (utop - 8) = unat utop - 8" "unat (utop - USER_STACK_SIZE) = unat utop - 8192"
    using assms(3) by (simp_all add: unat_sub_noof word_le_nat_alt USER_STACK_SIZE_def)
  have "unat st = (unat utop - 8192) div 4096" unfolding se(1) unat_addr_floor sub ..
  then have us: "unat st \<le> u" using u(1) by simp
  have uv: "unat (addr_floor (utop - 8)) = u" unfolding unat_addr_floor sub by (rule u(2))
  then show "addr_floor (utop - 8) \<in> set vs"
    using us ue unfolding r(2) set_range_list by (simp add: word_le_nat_alt word_less_nat_alt)
  show "unat utop \<le> 2 ^ 39" using ue r(3) u(1) by simp
  have "(unat utop - 8192) div 4096 = u - 1"
  proof -
    obtain w where w: "u = Suc w" using assms(3) u(1) by (cases u) simp_all
    have "unat utop - 8192 = 4096 * w" unfolding u(1) w by simp
    then show ?thesis by (simp add: w)
  qed
  then show "length vs = 2"
    using ue assms(3) u(1) \<open>unat st = (unat utop - 8192) div 4096\<close> unfolding r(2) range_list_def by simp
qed

lemma maps_fresh_page:
  assumes "maps_fresh bd D clear perm vs ps (s, pt) (s1, pt1)" "v \<in> set vs" "vpn_path v ! 0 \<in> D"
  obtains p where "pt_lookup bd s1 (pt_root pt) v = Some (pte_new p (perm OR PTE_VALID))" "managed s p" "ref_count s p = 0"
    "managed s1 p" "0 < ref_count s1 p" "p \<notin> pt_tables bd D s1 (pt_root pt)"
proof -
  note M = assms(1) [unfolded maps_fresh_def prod.case]
  then obtain new where new: "\<forall>p \<in> set (ps @ new). managed s p \<and> ref_count s p = 0"
    "ref_count s1 = (\<lambda>p. if p \<in> set (ps @ new) then 1 else ref_count s p)" by blast
  have m: "managed s1 = managed s" and len: "length ps = length vs" using M by simp_all
  have "vpn_path v \<in> fst ` set (zip (map vpn_path vs) ps)"
    using assms(2) len by (metis image_eqI length_map list.set_map map_fst_zip)
  then obtain p where p: "map_of (zip (map vpn_path vs) ps) (vpn_path v) = Some p"
    by (metis map_of_eq_None_iff not_None_eq)
  then have "p \<in> set ps" using set_zip_rightD [OF map_of_SomeD [OF p]] by simp
  then show thesis
    using maps_fresh_lookup [OF assms(1,3)] p new m M by (intro that [of p]) auto
qed

text \<open>What the program reads from a stack that is filled and mapped.\<close>

lemma stack_read_back:
  assumes "alloc_user_stack args envs elf tp off cx m = Inr us" "auxv elf = Inr aux" "length aux = 7" "length (tf_x cx) = 32"
    and "shows_page bd s root tp off (us_mem us)" "tp \<le> us_sp us + 4096" "tp < 2 ^ 64"
    and "\<forall>cs \<in> set args \<union> set envs. 0 \<notin> set cs \<and> length cs < fuel"
  shows "user_usize bd s root (tf_sp (us_frame us)) = Inr (length args)"
    "convert_cstr_array (Suc (length args)) fuel bd s root (tf_sp (us_frame us) + 8) = Inr args"
    "convert_cstr_array (Suc (length envs)) fuel bd s root (tf_sp (us_frame us) + 16 + 8 * length args) = Inr envs"
proof -
  note parts = alloc_user_stack_parts [OF assms(1-3)]
  note F = tf_init_ok [OF conjunct2 [OF parts] assms(4)]
  obtain argv envp lo where P: "us_auxv us + 16 * length aux \<le> lo" "us_argv us = us_sp us + 8" "lo \<le> tp - 8"
      "us_envp us = us_argv us + 8 * Suc (length args)" "us_auxv us = us_envp us + 8 * Suc (length envs)"
      "strings_at (us_mem us) off lo (tp - 8) args argv" "strings_at (us_mem us) off lo (tp - 8) envs envp"
      "holds (us_mem us) (us_sp us + off) (usize_bytes (length args))"
      "holds (us_mem us) (us_argv us + off) (concat (map usize_bytes (argv @ [0])))"
      "holds (us_mem us) (us_envp us + off) (concat (map usize_bytes (envp @ [0])))"
    using parts unfolding stack_parts_def by metis
  have "length args \<le> tp" using P(1-5) by simp
  then have b: "tp - 4096 \<le> us_sp us" "us_sp us + 8 \<le> tp" "length args < 2 ^ 64"
    using assms(6) P(1-5) le_less_trans [OF _ assms(7)] by auto
  show "user_usize bd s root (tf_sp (us_frame us)) = Inr (length args)"
    unfolding F(1) by (intro user_usize_ok shows_page_holds [OF assms(5) P(8)]) (use b in simp_all)
  have hi: "lo \<le> tp" "tp - 8 \<le> tp" "tp \<le> 2 ^ 64" using P(3) assms(7) by linarith+
  have "convert_cstr_array (Suc (length args)) fuel bd s root (us_argv us) = Inr args"
    by (rule shows_page_array [OF assms(5) P(6) _ P(9) _ _ hi]) (use assms(8) b(1) P(1,2,4,5) in auto)
  then show "convert_cstr_array (Suc (length args)) fuel bd s root (tf_sp (us_frame us) + 8) = Inr args"
    unfolding F(1) P(2) .
  have "convert_cstr_array (Suc (length envs)) fuel bd s root (us_envp us) = Inr envs"
    by (rule shows_page_array [OF assms(5) P(7) _ P(10) _ _ hi]) (use assms(8) b(1) P(1,2,4,5) in auto)
  moreover have "us_envp us = us_sp us + 16 + 8 * length args" using P(2,4) by simp
  ultimately show "convert_cstr_array (Suc (length envs)) fuel bd s root (tf_sp (us_frame us) + 16 + 8 * length args) = Inr envs"
    unfolding F(1) by simp
qed

section \<open>Properties\<close>

text \<open>C18: a program that starts reads its arguments and its environment through its own page table.  When the arguments,
  the environment and the auxiliary vector fit in one page and no string holds a zero byte, and the place found for the
  stack is unmapped, \<open>alloc_user_stack\<close> leaves a stack pointer at which the program finds the argument count, the
  argument strings and the environment as they were given; the tables stay a tree, and pages that others hold keep
  their words.  It does so whenever six frames are free; the only other outcome, with fewer, is a panic with no frame
  left.  (For larger arguments see \<open>user_stack_leaves_page\<close>.)\<close>

theorem program_reads_its_arguments:
  assumes "pt_wf bd D s (pt_root (as_pt self))" "\<forall>p. managed s p \<longrightarrow> kpage p < MEMORY_END" "areas_placed self"
    and "alloc_user_area USER_STACK_SIZE self = Inr utop"
    and "unmapped bd D s (pt_root (as_pt self)) \<lparr>rg_start = utop - USER_STACK_SIZE, rg_end = utop\<rparr> vs"
    and "auxv elf = Inr aux" "length (tf_x cx) = 32" "stack_size args envs \<le> 4096" "\<forall>cs \<in> set args \<union> set envs. 0 \<notin> set cs"
  shows "case process_alloc_user_stack bd args envs elf cx (s, self) of
      (Inr (tp, us), (s', self')) \<Rightarrow> let root = pt_root (as_pt self') in
        root = pt_root (as_pt self) \<and> pt_wf bd D s' root \<and>
        user_usize bd s' root (tf_sp (us_frame us)) = Inr (length args) \<and>
        convert_cstr_array (Suc (length args)) 4096 bd s' root (tf_sp (us_frame us) + 8) = Inr args \<and>
        convert_cstr_array (Suc (length envs)) 4096 bd s' root (tf_sp (us_frame us) + 16 + 8 * length args) = Inr envs \<and>
        (\<forall>q i. managed s q \<and> 0 < ref_count s q \<and> q \<notin> pt_tables bd D s root \<and> i < 512 \<longrightarrow> entry s' q i = entry s q i)
    | (Inl e, (s', self')) \<Rightarrow> e = Panic UnwrapNone \<and> card (free_frames s) < 6 \<and> (\<forall>q. managed s' q \<longrightarrow> 0 < ref_count s' q)"
proof -
  let ?r = "pt_root (as_pt self)" and ?rg = "\<lparr>rg_start = utop - USER_STACK_SIZE, rg_end = utop\<rparr>"
  let ?perm = "PTE_READABLE OR PTE_WRITABLE OR PTE_USER"
  note place = stack_place [OF assms(4,3)]
  have sub: "csub utop USER_STACK_SIZE = Inr (utop - USER_STACK_SIZE)"
    using place(1) by (simp add: csub_Inr word_le_nat_alt USER_STACK_SIZE_def)
  have run: "process_alloc_user_stack bd args envs elf cx (s, self) =
      sbind (insert_framed_area bd ?rg ?perm None) (\<lambda>_. sbind (stack_offset bd utop) (\<lambda>off.
        sbind (on_mm (fill_user_stack args envs elf utop off cx)) (\<lambda>us. sret (utop, us)))) (s, self)"
    unfolding process_alloc_user_stack_def by (simp add: sbind_def [of "\<lambda>(s, self). _ s self"] assms(4) sub)
  have aux: "length aux = 7" using assms(6) by (auto simp: auxv_def)
  note top_page = stack_top_page [OF assms(5) place(2,1)]
  show ?thesis
  proof (cases "insert_framed_area bd ?rg ?perm None (s, self)")
    case (fields x s1 self1)
    note A = insert_framed_area_cases [OF assms(1,5) disjI1 [OF refl] place(3), of ?perm, unfolded fields]
    show ?thesis
    proof (cases x)
      case (Inl e)
      then show ?thesis unfolding run using A stack_top_page(3) [OF assms(5) place(2,1)] by (simp add: sbind_def fields)
    next
      case (Inr u)
      then obtain ps where ps: "maps_fresh bd D False ?perm vs ps (s, as_pt self) (s1, as_pt self1)" using A by auto
      have r1: "pt_root (as_pt self1) = ?r" and wf1: "pt_wf bd D s1 ?r" and keep: "pt_keeps bd D ?r s s1" and m1: "managed s1 = managed s"
        using ps by (simp_all add: maps_fresh_def)
      have v: "vpn_path (addr_floor (utop - 8)) ! 0 \<in> D" using assms(5) top_page(1) by (auto simp: unmapped_def)
      obtain p where p: "pt_lookup bd s1 ?r (addr_floor (utop - 8)) = Some (pte_new p (?perm OR PTE_VALID))" "managed s p"
        "ref_count s p = 0" "managed s1 p" "0 < ref_count s1 p" "p \<notin> pt_tables bd D s1 ?r"
        by (rule maps_fresh_page [OF ps top_page(1) v])
      have pb: "unat p < 2 ^ 26" by (rule managed_bound [OF pt_wf_frame_inv [OF wf1] p(4)])
      obtain off where off: "stack_offset bd utop (s1, self1) = (Inr off, (s1, self1))" "unat utop + unat off = unat (kpage p) + 4096"
        by (rule stack_offset_ok [of bd D s1 self1 utop p]) (use wf1 v p(1,2) pb assms(2) place top_page(2) r1 in auto)
      obtain us s2 where us: "fill_user_stack args envs elf utop off cx s1 = (Inr us, s2)"
        "alloc_user_stack args envs elf (unat utop) (unat off) cx (byte_view (mm_mem s1)) = Inr us"
        "unat utop \<le> us_sp us + 4096" "pt_wf bd D s2 ?r" "shows_page bd s2 ?r (unat utop) (unat off) (us_mem us)"
        "\<And>q i. managed s1 q \<Longrightarrow> q \<noteq> p \<Longrightarrow> i < 512 \<Longrightarrow> entry s2 q i = entry s1 q i"
        using fill_user_stack_ok [OF wf1 p(4-6) v p(1) place(2,1) off(2) assms(6) aux assms(8), of cx] by metis
      have short: "\<forall>cs \<in> set args \<union> set envs. 0 \<notin> set cs \<and> length cs < 4096"
        using assms(9) strings_shorter [of _ args envs] assms(8) by fastforce
      note R = stack_read_back [OF us(2) assms(6) aux assms(7) us(5,3) _ short]
      have "process_alloc_user_stack bd args envs elf cx (s, self) = (Inr (utop, us), (s2, self1))"
        unfolding run using Inr fields off(1) us(1) by (simp add: sbind_def on_mm_def sret_def)
      moreover have "entry s2 q i = entry s q i" if "managed s q" "0 < ref_count s q" "q \<notin> pt_tables bd D s ?r" "i < 512" for q i
        using us(6) [of q i] pt_keepsD(2) [OF keep that] that p(3) m1 by (cases "q = p") auto
      ultimately show ?thesis using R r1 us(4) unat_less_2p [of utop] by (simp add: Let_def del: convert_cstr_array.simps)
    qed
  qed
qed

theorem program_reads_its_arguments_witness:
  "\<exists>s self tp us s' self'. pt_wf K210 {..<256} s (pt_root (as_pt self)) \<and>
    process_alloc_user_stack K210 [[99, 97, 116], [45, 110]] [[72, 61]] demo_elf tf_default (s, self) = (Inr (tp, us), (s', self')) \<and>
    convert_cstr_array 3 4096 K210 s' (pt_root (as_pt self')) (tf_sp (us_frame us) + 8) = Inr [[99, 97, 116], [45, 110]] \<and>
    convert_cstr_array 2 4096 K210 s' (pt_root (as_pt self')) (tf_sp (us_frame us) + 32) = Inr [[72, 61]]"
proof -
  let ?args = "[[99, 97, 116], [45, 110]] :: u8 list list" and ?envs = "[[72, 61]] :: u8 list list"
  obtain s p where s: "pt_wf K210 {..<256} s p" "\<forall>w. vpn_path w ! 0 < 256 \<longrightarrow> pt_lookup K210 s p w = None"
    "\<forall>q. managed s q \<longrightarrow> kpage q < MEMORY_END" "card (free_frames s) = 15" using demo_memory [of K210] by blast
  let ?self = "\<lparr>as_pt = \<lparr>pt_root = p, pt_frames = []\<rparr>, as_areas = [], as_data_end = 0x2000, as_data_max = 0x3000\<rparr>"
  have place: "alloc_user_area USER_STACK_SIZE ?self = Inr 0x6000" "areas_placed ?self"
    by (simp_all add: alloc_user_area_def cadd_def config_simps USER_STACK_SIZE_def areas_placed_def)
  have vs: "range_list 4 6 = [4, 5]" by (simp add: range_list_def upt_rec)
  have "vpn_range \<lparr>rg_start = 0x6000 - USER_STACK_SIZE, rg_end = 0x6000\<rparr> = Inr (4, 6)"
    by (simp add: vpn_range_def addr_ceil_def addr_floor_def cadd_def csub_def config_simps USER_STACK_SIZE_def)
  then have un: "unmapped K210 {..<256} s (pt_root (as_pt ?self)) \<lparr>rg_start = 0x6000 - USER_STACK_SIZE, rg_end = 0x6000\<rparr> [4, 5]"
    unfolding unmapped_def using s(2) vs by (auto simp: vpn_path_eq)
  have wf: "pt_wf K210 {..<256} s (pt_root (as_pt ?self))" using s(1) by simp
  obtain aux where aux: "auxv demo_elf = Inr aux" by (simp add: auxv_def demo_elf_def)
  have h: "length (tf_x tf_default) = 32" "stack_size ?args ?envs \<le> 4096" "\<forall>cs \<in> set ?args \<union> set ?envs. 0 \<notin> set cs"
    by (simp_all add: tf_default_def stack_size_def strings_size_def)
  obtain x s' self' where run: "process_alloc_user_stack K210 ?args ?envs demo_elf tf_default (s, ?self) = (x, (s', self'))"
    by (metis prod.exhaust)
  note T = program_reads_its_arguments [OF wf s(3) place(2,1) un aux h, unfolded run prod.case]
  then obtain tp us where x: "x = Inr (tp, us)" using s(4) by (cases x) auto
  have n: "Suc (length ?args) = 3" "Suc (length ?envs) = 2" "k + 16 + 8 * length ?args = k + 32" for k by simp_all
  have "convert_cstr_array 3 4096 K210 s' (pt_root (as_pt self')) (tf_sp (us_frame us) + 8) = Inr ?args"
    "convert_cstr_array 2 4096 K210 s' (pt_root (as_pt self')) (tf_sp (us_frame us) + 32) = Inr ?envs"
    using T unfolding x sum.case prod.case Let_def n by blast+
  with run wf show ?thesis unfolding x by blast
qed

section \<open>Missing programs\<close>

text \<open>A file that does not exist makes the kernel panic.\<close>

lemma execve_missing_file_panics:
  assumes "frame_inv s" "open_file name = None"
  shows "fst (thread_execve bd kroot open_file parse headers name argv envp cx (s, self)) = Inl (Panic UnwrapNone)"
  using assms(1)
proof (cases rule: frame_alloc_cases)
  case none
  then show ?thesis by (simp add: thread_execve_def elf_file_new_def sbind_def on_mm_def slift_def sfail_def)
next
  case (some p s')
  then show ?thesis
    using vpn_of_ppn_kpage [OF managed_bound [OF assms(1) some(2)]] assms(2)
    by (simp add: thread_execve_def elf_file_new_def sbind_def on_mm_def slift_def sfail_def)
qed

text \<open>A file of less than a block, a script for example, does too.\<close>

lemma execve_short_file_panics:
  assumes "frame_inv s" "open_file name = Some bytes" "length bytes < 512"
  shows "fst (thread_execve bd kroot open_file parse headers name argv envp cx (s, self)) = Inl (Panic UnwrapNone)"
  using assms(1)
proof (cases rule: frame_alloc_cases)
  case none
  then show ?thesis by (simp add: thread_execve_def elf_file_new_def sbind_def on_mm_def slift_def sfail_def)
next
  case (some p s')
  then show ?thesis
    using vpn_of_ppn_kpage [OF managed_bound [OF assms(1) some(2)]] assms(2,3)
    by (simp add: thread_execve_def elf_file_new_def read_page_part_def ELF_BLK_SIZE_def sbind_def on_mm_def slift_def sfail_def)
qed

end
