(* ===== verification/Spec2Isabelle.thy ===== *)
theory Spec2Isabelle
  imports Fat_Props Fat_Dir_Entry_Props Fat_Boot_Props Fat_Fs_Props Fat_File_Props Fat_Dir_Props
    Kernel_Sdcard Kernel_File_Props Kernel_Heap_Props Kernel_Process_Props Kernel_Exec
begin

text \<open>
  A verification library for the kernel hecto-os and the two crates it carries its file system in, \<open>fatfs\<close>
  and \<open>core_io\<close>.

  \<^bold>\<open>The program.\<close> A RISC-V kernel (\<open>src/kernel\<close>) for QEMU and the K210. It manages physical pages, page
  tables and address spaces (\<open>src/kernel/src/mm\<close>), processes and threads, system calls, pipes and a FAT
  volume on a block device. The volume is accessed with \<open>src/fatfs\<close>, which reads and writes through the
  traits of \<open>src/core_io\<close>.

  \<^bold>\<open>Conventions\<close> (\<open>Prelude\<close>). An operation is a function in the monad \<open>('s, 'a) st\<close>: it gets the state and
  returns a result and the new state, also when it fails. A failure is an \<open>io::Error\<close> (\<open>Io kind\<close>) or a
  panic (\<open>Panic kind\<close>). Machine integers are words. The arithmetic is the one of the development
  profile: an overflow, an index out of range, a failed assertion and an \<open>unwrap\<close> of \<open>None\<close> are panics
  and appear as such (the K210 image is built with \<open>--release\<close>, where an overflow wraps instead; the
  theorems show where none occurs). Positions in streams are \<open>u64\<close> in the code and \<open>nat\<close> here, since the
  operations stay far below the bound. Loops are total functions with a measure; a loop over the entries
  of a directory has a bound that the position of a file, a \<open>u32\<close>, cannot pass (\<open>MAX_DIR_ENTRIES\<close>), and the
  search for a short name has the 65536 rounds after which the code would repeat itself for ever
  (\<open>NoReturn\<close>).

  \<^bold>\<open>Streams\<close> (\<open>Byte_Stream\<close>, \<open>Stream_Codec\<close>; \<open>src/core_io/src/io\<close>, \<open>src/fatfs/src/byteorder_core_io.rs\<close>). A Rust
  generic \<open>T: Read + Write + Seek\<close> is a record of operations. The locales \<open>read_stream\<close>, \<open>exact_stream\<close> and
  \<open>byte_stream\<close> are the contracts of a stream; they are interpreted for \<open>Cursor<Vec<u8>>\<close>, for a slice of a
  disk and for a file. \<open>emits\<close> and \<open>parses\<close> compose encoders and decoders, so a round trip is an equality
  of byte lists.

  \<^bold>\<open>The FAT\<close> (\<open>Disk_Slice\<close>, \<open>Fat_Table\<close>, \<open>Fat_Spec\<close>, \<open>Fat_Effects\<close>, \<open>Fat_Props\<close>; \<open>table.rs\<close>, \<open>DiskSlice\<close> of \<open>fs.rs\<close>). A slice of
  the disk with mirrors, the three encodings of the table, allocation, chains, counting and formatting;
  they are shown to refine operations on a map from cluster numbers to entries.

  \<^bold>\<open>The volume\<close> (\<open>Fat_Boot_Sector\<close>, \<open>Fat_Boot_Props\<close>, \<open>Fat_Time\<close>, \<open>Fat_Dir_Entry\<close>, \<open>Fat_Dir_Entry_Props\<close>, \<open>Fat_Fs\<close>, \<open>Fat_Fs_Stream\<close>,
  \<open>Fat_Fs_Props\<close>; \<open>boot_sector.rs\<close>, \<open>time.rs\<close>, \<open>dir_entry.rs\<close>, \<open>fs.rs\<close>). The boot sector and what its check
  guarantees of the geometry (it accepts FAT32 volumes only, and does not check the number of the active FAT), dates, directory entries and their editor, mounting, allocation with the
  counters of the FSInfo sector, the dirty flag, unmounting and formatting.

  \<^bold>\<open>Files and directories\<close> (\<open>Fat_File\<close>, \<open>Fat_File_Props\<close>, \<open>Fat_Names\<close>, \<open>Fat_Names_Props\<close>, \<open>Fat_Dir\<close>, \<open>Fat_Dir_Read\<close>, \<open>Fat_Dir_Props\<close>;
  \<open>file.rs\<close>, \<open>dir.rs\<close>). A file as a position in a chain of clusters: reading returns its content and seeking
  moves in it. Long names survive the directory but for U+FFFF at their end, a short name that is generated is new,
  and the search for it ends in a directory of fewer than 9 * 65536 entries. Opening a file refines the search for its name in the list of entries that the bytes of the
  directory stand for.

  \<^bold>\<open>Memory\<close> (\<open>Kernel_Address\<close>, \<open>Forward_List\<close>, \<open>Frame_Alloc\<close>, \<open>Page_Table\<close>, \<open>Address_Space\<close>, \<open>Address_Space_Props\<close>, \<open>Address_Space_Map\<close>;
  \<open>src/kernel/src/mm\<close>, \<open>src/kernel/src/syscall/mm.rs\<close>). Addresses and page numbers, the intrusive list of free pages, the
  reference counts of physical pages, the three levels of page tables over a memory of pages, and the
  areas of an address space with copy on write, \<open>mmap\<close>, \<open>munmap\<close> and \<open>brk\<close>. A physical page has as many
  live trackers as its count says; mapping refines the update of a map; a write fault gives the process
  a page of its own with the same content, and a new area gets frames that nobody else holds, whenever three
  frames are free for each of its pages.

  \<^bold>\<open>The heap\<close> (\<open>Kernel_Heap\<close>, \<open>Kernel_Heap_Pages\<close>, \<open>Kernel_Heap_Inv\<close>, \<open>Kernel_Heap_Ops\<close>, \<open>Kernel_Heap_Props\<close>;
  \<open>src/kernel/src/mm/heap\<close>). The page allocator and the slab allocator on it. \<open>hwf\<close> ties the free list, the usage of
  every page, the zones and their lists together; the locale \<open>allocator\<close> is what a client relies on. Memory
  is not given out twice, and an allocation panics exactly when its size cannot be rounded up to pages, for every
  run from \<open>heap_init\<close> whose deallocations are harmless: the condition \<open>free_stale_ok\<close>, which the flag of \<open>heap_run\<close>
  records, speaks of the word that \<open>page_free\<close> reads before it writes it, and an example shows that it is needed.
  The heap is smaller than \<open>2 ^ 44\<close> bytes, since the lengths of large blocks are kept as \<open>u32\<close> numbers of pages.

  \<^bold>\<open>The block device\<close> (\<open>Kernel_Block\<close>, \<open>Kernel_Sdcard\<close>; \<open>src/kernel/src/drivers/block\<close>). The sector buffer between \<open>fatfs\<close> and a driver;
  under the accesses that stay inside a sector and do not end one byte before its end it is equivalent to an array of bytes. The locale \<open>block_store\<close>
  is what it asks of a driver. The driver of the SD card provides it for every card that keeps to the SPI
  protocol (locale \<open>sd_card\<close>, interpreted for a reference card); its wait for a busy card has fuel, and the
  theorem needs as much as the card is busy.

  \<^bold>\<open>Threads, pipes, open files\<close> (\<open>Kernel_Thread\<close>, \<open>Kernel_Pipe\<close>, \<open>Kernel_Path\<close>, \<open>Kernel_File\<close>, \<open>Kernel_File_Inv\<close>, \<open>Kernel_File_Props\<close>;
  \<open>src/kernel/src/process\<close>, \<open>src/kernel/src/sync\<close>, \<open>src/kernel/src/timer.rs\<close>, \<open>src/kernel/src/fs\<close>, \<open>src/kernel/src/syscall/fs.rs\<close>). Thread numbers with
  their kernel stacks, condition variables, timers, pipes, paths and mount points, descriptors, vnodes and
  the system calls on them. A pipe is a step relation of its readers and writers. \<open>kwf\<close> is the invariant of
  the descriptors of all processes; every system call keeps it, \<open>mount\<close> when the mount point has no vnode yet
  (\<open>mounts_fresh\<close>), so an end of a pipe is open exactly while somebody can use it. An object behind an \<open>Arc\<close> is an index into a list of options and the
  reference counts are counted, not stored. The kernel runs on one hart and gives the processor away only
  where it says so; an operation that sleeps is one step up to the point where it sleeps.

  \<^bold>\<open>Processes\<close> (\<open>Kernel_Process\<close>, \<open>Kernel_Process_Props\<close>; \<open>src/kernel/src/syscall/process.rs\<close>,
  \<open>src/kernel/src/process/process.rs\<close>, \<open>src/kernel/src/process/thread.rs\<close>, \<open>schedule\<close> of \<open>src/kernel/src/lib.rs\<close>,
  \<open>src/vendor/algorithm/src/scheduler/fifo_scheduler.rs\<close>). The tree of processes with \<open>clone\<close>, \<open>exit\<close> and \<open>wait4\<close>, the times
  charged at the borders of the kernel, and the queue of the scheduler. \<open>kp_step\<close> is the step relation of the
  running thread and \<open>kpwf\<close> its invariant. \<open>sys_exit\<close> gives the user stack back first, on the memory and address space of the
  caller; when that succeeds, a child that leaves wakes a parent that waits for it, and the parent returns with its
  status, and when it panics the parent sleeps on; the queue is served in order.

  \<^bold>\<open>Starting a program\<close> (\<open>Kernel_User_Stack\<close>, \<open>Kernel_Exec\<close>; \<open>ElfFileExt\<close> and \<open>execve\<close> of \<open>src/kernel/src/process/thread.rs\<close>,
  \<open>alloc_user_stack\<close> of \<open>src/kernel/src/process/process.rs\<close>, \<open>sys_execve\<close> of \<open>src/kernel/src/syscall/process.rs\<close>, \<open>src/kernel/arch/riscv/trap_context.rs\<close>). The image is read and mapped,
  the stack is placed with \<open>alloc_user_area\<close>, mapped, and filled through the linear map of the kernel. The bytes written
  there are the bytes the program reads through its page table, so it finds the arguments it was given, if they fit in a page. The file
  system and the ELF parser are parameters. Reading a string of the caller has fuel; the theorem needs a page of it.

  \<^bold>\<open>Not modelled.\<close> Assembly (trap entry, the switch of contexts), the controllers behind the drivers
  (VirtIO, SPI, DMA), interrupts and the registers of the machine, the locks (every operation runs alone),
  logging and backtraces, the table that dispatches system calls, the parsing of ELF files,
  and the crates under \<open>src/vendor\<close> (but the FIFO scheduler), \<open>src/k210-hal\<close>, \<open>src/k210-soc\<close> and \<open>src/k210-pac\<close>.
  What the code takes from the compiler or from tables of Unicode is a parameter
  (the size of \<open>DirEntryData\<close>, \<open>char::to_uppercase\<close>, the OEM code page).
\<close>

end
